(* ===== verification/Prelude.thy ===== *)
theory Prelude
  imports Main "HOL-Library.Word" "HOL-Library.Multiset"
begin

text \<open>
  What the components of the development share: names for the machine integers of the
  driver, the status codes of the PHL layer, the flag macros of
  \<^verbatim>\<open>phl_util.h\<close>, and generic facts on bits, masks, lists and slots of arrays that the
  component proofs use through the collections declared here.
\<close>

unbundle bit_operations_syntax

type_synonym u8 = "8 word"
type_synonym u16 = "16 word"
type_synonym u32 = "32 word"
type_synonym bytes = "u8 list"

named_theorems frame_simps "what an operation leaves unchanged"
named_theorems flag_simps "reading back status flags"
named_theorems slot_simps "reading and writing the slots of an array"

subsection \<open>Status codes\<close>

datatype phl_status =
    RTW_PHL_STATUS_SUCCESS
  | RTW_PHL_STATUS_FAILURE
  | RTW_PHL_STATUS_RESOURCE
  | RTW_PHL_STATUS_HAL_INIT_FAILURE
  | RTW_PHL_STATUS_PENDING
  | RTW_PHL_STATUS_FRAME_DROP
  | RTW_PHL_STATUS_INVALID_PARAM
  | RTW_PHL_STATUS_CMD_TIMEOUT
  | RTW_PHL_STATUS_CMD_ERROR
  | RTW_PHL_STATUS_CMD_DROP
  | RTW_PHL_STATUS_CMD_CANNOT_IO
  | RTW_PHL_STATUS_CMD_SUCCESS
  | RTW_PHL_STATUS_UNEXPECTED_ERROR
  | RTW_PHL_STATUS_CANNOT_IO
  | RTW_PHL_STATUS_SH_TASK

lemma unat_bound: "unat (w :: 'n::len word) < 2 ^ LENGTH('n)"
  by (rule unsigned_less)

subsection \<open>Status flags\<close>

text \<open>
  The three macros \<open>SET_STATUS_FLAG\<close>, \<open>TEST_STATUS_FLAG\<close> and
  \<open>CLEAR_STATUS_FLAG\<close>. The test asks for every flag of the mask.
\<close>

definition SET_STATUS_FLAG :: "'n::len word \<Rightarrow> 'n word \<Rightarrow> 'n word" where
  "SET_STATUS_FLAG status flags = status OR flags"

definition TEST_STATUS_FLAG :: "'n::len word \<Rightarrow> 'n word \<Rightarrow> bool" where
  "TEST_STATUS_FLAG status flags \<longleftrightarrow> status AND flags = flags"

definition CLEAR_STATUS_FLAG :: "'n::len word \<Rightarrow> 'n word \<Rightarrow> 'n word" where
  "CLEAR_STATUS_FLAG status flags = status AND NOT flags"

definition BITn :: "nat \<Rightarrow> 'n::len word" where
  "BITn k = push_bit k 1"

lemma bit_BITn [simp]: "bit (BITn k :: 'n::len word) i \<longleftrightarrow> i = k \<and> i < LENGTH('n)"
  by (auto simp: BITn_def bit_push_bit_iff bit_simps possible_bit_word)

lemma TEST_BITn [flag_simps]:
  "k < LENGTH('n) \<Longrightarrow> TEST_STATUS_FLAG (s :: 'n::len word) (BITn k) \<longleftrightarrow> bit s k"
proof -
  assume k: "k < LENGTH('n)"
  have "s AND BITn k = BITn k \<Longrightarrow> bit s k"
    by (drule arg_cong [where f = "\<lambda>w. bit w k"]) (simp add: k bit_simps)
  moreover have "bit s k \<Longrightarrow> s AND BITn k = BITn k"
    by (rule bit_word_eqI) (auto simp: bit_simps)
  ultimately show ?thesis unfolding TEST_STATUS_FLAG_def by blast
qed

lemma bit_SET_BITn [flag_simps]:
  "k < LENGTH('n) \<Longrightarrow> bit (SET_STATUS_FLAG (s :: 'n::len word) (BITn k)) i \<longleftrightarrow> bit s i \<or> i = k"
  by (auto simp: SET_STATUS_FLAG_def bit_simps)

lemma bit_CLEAR_BITn [flag_simps]:
  "bit (CLEAR_STATUS_FLAG (s :: 'n::len word) (BITn k)) i \<longleftrightarrow> bit s i \<and> i \<noteq> k"
  by (auto simp: CLEAR_STATUS_FLAG_def bit_simps dest: bit_imp_le_length)

lemma CLEAR_SET_STATUS_FLAG:
  "CLEAR_STATUS_FLAG (SET_STATUS_FLAG s f) f = CLEAR_STATUS_FLAG s f"
  by (rule bit_word_eqI) (auto simp: SET_STATUS_FLAG_def CLEAR_STATUS_FLAG_def bit_simps)

lemma TEST_SET_STATUS_FLAG: "TEST_STATUS_FLAG (SET_STATUS_FLAG s f) f"
  unfolding TEST_STATUS_FLAG_def SET_STATUS_FLAG_def
  by (rule bit_word_eqI) (auto simp: bit_simps)

subsection \<open>Slots of an array\<close>

text \<open>
  A pointer array of the C code is a list of options; a slot out of range reads as empty.
  Every use in the model is within range under the component's invariant.
\<close>

definition slot :: "'a option list \<Rightarrow> nat \<Rightarrow> 'a option" where
  "slot xs i = (if i < length xs then xs ! i else None)"

definition occupied :: "'a option list \<Rightarrow> nat" where
  "occupied xs = length (filter (\<lambda>x. x \<noteq> None) xs)"

definition occupants :: "'a option list \<Rightarrow> 'a multiset" where
  "occupants xs = mset (map the (filter (\<lambda>x. x \<noteq> None) xs))"

lemma slot_update [slot_simps]:
  "slot (xs[i := v]) j = (if j = i \<and> i < length xs then v else slot xs j)"
  by (auto simp: slot_def nth_list_update)

lemma slot_SomeD: "slot xs i = Some x \<Longrightarrow> i < length xs \<and> xs ! i = Some x"
  by (auto simp: slot_def split: if_splits)

lemma slot_replicate [slot_simps]: "slot (replicate n None) i = None"
  by (simp add: slot_def)

lemma occupied_replicate [slot_simps]: "occupied (replicate n None) = 0"
  by (simp add: occupied_def)

lemma occupied_le: "occupied xs \<le> length xs"
  by (simp add: occupied_def)

lemma occupied_split:
  "i < length xs \<Longrightarrow> occupied xs = occupied (take i xs) + (if xs ! i = None then 0 else 1)
     + occupied (drop (Suc i) xs)"
  by (subst (1) id_take_nth_drop) (auto simp: occupied_def)

lemma occupied_update:
  assumes "i < length xs"
  shows "occupied (xs[i := v]) + (if xs ! i = None then 0 else 1)
       = occupied xs + (if v = None then 0 else 1)"
  using assms occupied_split [of i xs]
  by (subst upd_conv_take_nth_drop) (auto simp: occupied_def)

lemma occupied_clear [slot_simps]:
  "slot xs i = Some x \<Longrightarrow> Suc (occupied (xs[i := None])) = occupied xs"
  using occupied_update [of i xs None] by (auto dest: slot_SomeD)

lemma occupied_fill [slot_simps]:
  "slot xs i = None \<Longrightarrow> i < length xs \<Longrightarrow> occupied (xs[i := Some x]) = Suc (occupied xs)"
  using occupied_update [of i xs "Some x"] by (auto simp: slot_def)

lemma occupants_clear [slot_simps]:
  assumes "slot xs i = Some x"
  shows "occupants xs = add_mset x (occupants (xs[i := None]))"
proof -
  from assms have i: "i < length xs" "xs ! i = Some x" by (auto dest: slot_SomeD)
  then have "xs = take i xs @ Some x # drop (Suc i) xs"
    by (metis id_take_nth_drop)
  then have "occupants xs = occupants (take i xs @ Some x # drop (Suc i) xs)" by metis
  with i show ?thesis by (simp add: upd_conv_take_nth_drop occupants_def)
qed

lemma occupants_fill [slot_simps]:
  assumes "slot xs i = None" "i < length xs"
  shows "occupants (xs[i := Some x]) = add_mset x (occupants xs)"
proof -
  have "slot (xs[i := Some x]) i = Some x" using assms by (simp add: slot_simps)
  from occupants_clear [OF this] assms show ?thesis
    by (simp add: slot_def) (metis list_update_id)
qed

lemma occupied_0_slot: "occupied xs = 0 \<longleftrightarrow> (\<forall>i. slot xs i = None)"
proof
  assume "occupied xs = 0"
  then have "\<forall>x \<in> set xs. x = None" by (auto simp: occupied_def filter_empty_conv)
  then show "\<forall>i. slot xs i = None" by (auto simp: slot_def)
next
  assume "\<forall>i. slot xs i = None"
  then have "\<forall>x \<in> set xs. x = None" by (metis slot_def in_set_conv_nth)
  then show "occupied xs = 0" by (auto simp: occupied_def filter_empty_conv)
qed

lemma size_occupants [simp]: "size (occupants xs) = occupied xs"
  unfolding occupants_def occupied_def by (simp only: size_mset length_map)

subsection \<open>Runs\<close>

text \<open>
  A component that reacts to events: one step gives the next state and what it emits, a run
  collects what is emitted; \<open>ok_events\<close> asks of every event what \<open>ok\<close> says in the state
  it meets.
\<close>

fun run_events :: "('s \<Rightarrow> 'e \<Rightarrow> 's \<times> 'o list) \<Rightarrow> 's \<Rightarrow> 'e list \<Rightarrow> 's \<times> 'o list" where
  "run_events step s [] = (s, [])"
| "run_events step s (e # es) =
     (let (s1, out1) = step s e; (s2, out2) = run_events step s1 es in (s2, out1 @ out2))"

fun ok_events :: "('s \<Rightarrow> 'e \<Rightarrow> bool) \<Rightarrow> ('s \<Rightarrow> 'e \<Rightarrow> 's \<times> 'o list) \<Rightarrow> 's \<Rightarrow> 'e list \<Rightarrow> bool" where
  "ok_events ok step s [] \<longleftrightarrow> True"
| "ok_events ok step s (e # es) \<longleftrightarrow> ok s e \<and> ok_events ok step (fst (step s e)) es"

end
