(* ===== verification/PhlQueue.thy ===== *)
theory PhlQueue
  imports Prelude
begin

text \<open>
  The queue of the PHL layer, \<^verbatim>\<open>phl/phl_util.c\<close> and \<^verbatim>\<open>phl_util.h\<close>: an intrusive doubly linked
  list with a counter. The list is the list of the addresses of its nodes from the first to
  the last; the sentinel node and the lock are not part of the value, and a pointer that the
  code compares with NULL or with the sentinel is an option. Each operation is one critical
  section of the code.
\<close>

record 'a phl_queue =
  pq_queue :: "'a list"
  pq_cnt :: int

datatype list_pos = First | Tail

definition pq_init :: "'a phl_queue" where
  "pq_init = \<lparr>pq_queue = [], pq_cnt = 0\<rparr>"

definition pq_reset :: "'a phl_queue \<Rightarrow> 'a phl_queue" where
  "pq_reset q = q\<lparr>pq_queue := [], pq_cnt := 0\<rparr>"

definition pq_push :: "'a phl_queue \<Rightarrow> 'a \<Rightarrow> list_pos \<Rightarrow> 'a phl_queue" where
  "pq_push q obj pos =
     q\<lparr>pq_queue := (if pos = First then obj # pq_queue q else pq_queue q @ [obj]),
       pq_cnt := pq_cnt q + 1\<rparr>"

definition pq_nonempty :: "'a phl_queue \<Rightarrow> bool" where
  "pq_nonempty q \<longleftrightarrow> pq_queue q \<noteq> [] \<and> pq_cnt q > 0"

text \<open>The result is \<open>Some\<close> exactly where the C function returns true.\<close>

definition pq_pop :: "'a phl_queue \<Rightarrow> list_pos \<Rightarrow> 'a option \<times> 'a phl_queue" where
  "pq_pop q pos =
     (if pq_nonempty q
      then (if pos = First
            then (Some (hd (pq_queue q)),
                  q\<lparr>pq_queue := tl (pq_queue q), pq_cnt := pq_cnt q - 1\<rparr>)
            else (Some (last (pq_queue q)),
                  q\<lparr>pq_queue := butlast (pq_queue q), pq_cnt := pq_cnt q - 1\<rparr>))
      else (None, q))"

definition pq_get_front :: "'a phl_queue \<Rightarrow> 'a option" where
  "pq_get_front q = (if pq_nonempty q then Some (hd (pq_queue q)) else None)"

definition pq_get_tail :: "'a phl_queue \<Rightarrow> 'a option" where
  "pq_get_tail q = (if pq_nonempty q then Some (last (pq_queue q)) else None)"

text \<open>The node after \<open>x\<close> in a list, \<open>None\<close> for the sentinel.\<close>

fun next_in :: "'a list \<Rightarrow> 'a \<Rightarrow> 'a option" where
  "next_in (y # z # ys) x = (if x = y then Some z else next_in (z # ys) x)"
| "next_in _ x = None"

definition pq_get_next :: "'a phl_queue \<Rightarrow> 'a option \<Rightarrow> 'a option" where
  "pq_get_next q cur =
     (case cur of None \<Rightarrow> None | Some x \<Rightarrow> next_in (pq_queue q) x)"

definition pq_get_prev :: "'a phl_queue \<Rightarrow> 'a option \<Rightarrow> 'a option" where
  "pq_get_prev q cur =
     (case cur of None \<Rightarrow> None | Some x \<Rightarrow> next_in (rev (pq_queue q)) x)"

text \<open>
  The search visits the nodes from the first on and stops at the first hit, which it unlinks
  when \<open>bdel\<close> is set. Without a search function nothing is hit.
\<close>

definition pq_search_node ::
  "'a phl_queue \<Rightarrow> bool \<Rightarrow> ('a \<Rightarrow> bool) option \<Rightarrow> 'a option \<times> 'a phl_queue" where
  "pq_search_node q bdel search_fun =
     (if pq_nonempty q
      then (case search_fun of
              None \<Rightarrow> (None, q)
            | Some p \<Rightarrow>
                (case find p (pq_queue q) of
                   None \<Rightarrow> (None, q)
                 | Some obj \<Rightarrow>
                     (Some obj,
                      if bdel then q\<lparr>pq_queue := remove1 obj (pq_queue q),
                                     pq_cnt := pq_cnt q - 1\<rparr>
                      else q)))
      else (None, q))"

definition pq_del_node :: "'a phl_queue \<Rightarrow> 'a option \<Rightarrow> 'a phl_queue" where
  "pq_del_node q obj =
     (case obj of
        None \<Rightarrow> q
      | Some x \<Rightarrow> q\<lparr>pq_queue := remove1 x (pq_queue q), pq_cnt := pq_cnt q - 1\<rparr>)"

text \<open>\<open>list_add_tail input obj\<close> links the input before the node \<open>obj\<close> the loop stopped at.\<close>

definition pq_insert ::
  "'a phl_queue \<Rightarrow> 'a \<Rightarrow> ('a \<Rightarrow> 'a \<Rightarrow> bool) option \<Rightarrow> 'a phl_queue" where
  "pq_insert q inp pq_predicate =
     (let stop = (\<lambda>obj. case pq_predicate of None \<Rightarrow> False | Some p \<Rightarrow> p inp obj)
      in q\<lparr>pq_queue := takeWhile (\<lambda>x. \<not> stop x) (pq_queue q) @ inp #
                       dropWhile (\<lambda>x. \<not> stop x) (pq_queue q),
           pq_cnt := pq_cnt q + 1\<rparr>)"

subsection \<open>The invariant: the counter is the length\<close>

definition pq_wf :: "'a phl_queue \<Rightarrow> bool" where
  "pq_wf q \<longleftrightarrow> pq_cnt q = int (length (pq_queue q))"

lemma pq_wf_nonempty: "pq_wf q \<Longrightarrow> pq_nonempty q \<longleftrightarrow> pq_queue q \<noteq> []"
  by (auto simp: pq_wf_def pq_nonempty_def)

lemma pq_wf_init [simp, intro]: "pq_wf pq_init"
  by (simp add: pq_wf_def pq_init_def)

lemma pq_wf_reset [simp, intro]: "pq_wf (pq_reset q)"
  by (simp add: pq_wf_def pq_reset_def)

lemma pq_wf_push [intro]: "pq_wf q \<Longrightarrow> pq_wf (pq_push q x pos)"
  by (simp add: pq_wf_def pq_push_def)

lemma pq_wf_pop [intro]: "pq_wf q \<Longrightarrow> pq_wf (snd (pq_pop q pos))"
  by (auto simp: pq_wf_def pq_pop_def pq_nonempty_def Suc_leI of_nat_diff)

lemma length_split:
  "length xs = length (takeWhile P xs) + length (dropWhile P xs)"
  by (metis length_append takeWhile_dropWhile_id)

lemma pq_wf_insert [intro]: "pq_wf q \<Longrightarrow> pq_wf (pq_insert q x p)"
  using length_split [of "pq_queue q"] by (simp add: pq_wf_def pq_insert_def Let_def)

lemma pq_wf_del [intro]: "pq_wf q \<Longrightarrow> x \<in> set (pq_queue q) \<Longrightarrow> pq_wf (pq_del_node q (Some x))"
  by (auto simp: pq_wf_def pq_del_node_def length_remove1 Suc_leI of_nat_diff
      dest: length_pos_if_in_set)

lemma pq_wf_search [intro]: "pq_wf q \<Longrightarrow> pq_wf (snd (pq_search_node q bdel f))"
  by (auto simp: pq_search_node_def pq_wf_def length_remove1 find_Some_iff Suc_leI of_nat_diff
      split: option.splits dest: length_pos_if_in_set)

subsection \<open>Reading the operations as list operations\<close>

lemma pq_queue_push [simp]:
  "pq_queue (pq_push q x Tail) = pq_queue q @ [x]" "pq_queue (pq_push q x First) = x # pq_queue q"
  by (simp_all add: pq_push_def)

lemma pq_queue_init [simp]: "pq_queue pq_init = []" "pq_queue (pq_reset q) = []"
  by (simp_all add: pq_init_def pq_reset_def)

lemma pq_pop_First:
  "pq_wf q \<Longrightarrow> pq_pop q First =
     (case pq_queue q of [] \<Rightarrow> (None, q)
      | x # xs \<Rightarrow> (Some x, q\<lparr>pq_queue := xs, pq_cnt := pq_cnt q - 1\<rparr>))"
  by (auto simp: pq_pop_def pq_wf_nonempty split: list.splits)

lemma pq_pop_Some:
  "pq_wf q \<Longrightarrow> pq_pop q First = (Some x, q') \<Longrightarrow> pq_queue q = x # pq_queue q' \<and> pq_wf q'"
  by (auto simp: pq_pop_First pq_wf_def split: list.splits)

lemma pq_pop_None: "pq_wf q \<Longrightarrow> pq_pop q First = (None, q') \<Longrightarrow> pq_queue q = [] \<and> q' = q"
  by (auto simp: pq_pop_First split: list.splits)

lemma set_pq_insert [simp]: "set (pq_queue (pq_insert q x p)) = insert x (set (pq_queue q))"
  unfolding pq_insert_def Let_def
  by simp (metis set_append takeWhile_dropWhile_id)

lemma mset_pq_insert [simp]: "mset (pq_queue (pq_insert q x p)) = add_mset x (mset (pq_queue q))"
  unfolding pq_insert_def Let_def
  by simp (metis mset_append takeWhile_dropWhile_id)

subsection \<open>The queue as an interface\<close>

text \<open>
  What the pools of the message hub and of the command dispatcher rely on: a queue with a
  well-formedness predicate whose push appends, whose pop takes the oldest entry, and that
  starts empty. The lemmas are proved from these laws only.
\<close>

locale fifo_pool =
  fixes items :: "'q \<Rightarrow> 'a list"
    and wf :: "'q \<Rightarrow> bool"
    and empty :: 'q
    and push :: "'q \<Rightarrow> 'a \<Rightarrow> 'q"
    and pop :: "'q \<Rightarrow> 'a option \<times> 'q"
  assumes items_empty: "items empty = []"
    and wf_empty: "wf empty"
    and items_push: "wf q \<Longrightarrow> items (push q x) = items q @ [x]"
    and wf_push: "wf q \<Longrightarrow> wf (push q x)"
    and pop_nil: "wf q \<Longrightarrow> items q = [] \<Longrightarrow> pop q = (None, q)"
    and pop_cons: "wf q \<Longrightarrow> items q = x # xs \<Longrightarrow>
        \<exists>q'. pop q = (Some x, q') \<and> items q' = xs \<and> wf q'"
begin

lemma push_all: "wf q \<Longrightarrow> items (foldl push q xs) = items q @ xs \<and> wf (foldl push q xs)"
  by (induction xs arbitrary: q) (auto simp: items_push wf_push)

lemma fill: "items (foldl push empty xs) = xs \<and> wf (foldl push empty xs)"
  using push_all [OF wf_empty] by (simp add: items_empty)

lemma pop_iff: "wf q \<Longrightarrow> (\<exists>x. fst (pop q) = Some x) \<longleftrightarrow> items q \<noteq> []"
  by (cases "items q") (auto simp: pop_nil dest: pop_cons)

lemma pop_mset:
  assumes "wf q" "pop q = (Some x, q')"
  shows "mset (items q) = add_mset x (mset (items q')) \<and> wf q'"
proof (cases "items q")
  case Nil
  with assms pop_nil show ?thesis by fastforce
next
  case (Cons y ys)
  with assms pop_cons [OF assms(1) Cons] show ?thesis by auto
qed

fun drain :: "nat \<Rightarrow> 'q \<Rightarrow> 'a list" where
  "drain 0 q = []"
| "drain (Suc n) q = (case pop q of (None, _) \<Rightarrow> [] | (Some x, q') \<Rightarrow> x # drain n q')"

lemma drain_items: "wf q \<Longrightarrow> drain (length (items q)) q = items q"
proof (induction "items q" arbitrary: q)
  case Nil
  then show ?case by (metis drain.simps(1) list.size(3))
next
  case (Cons x xs)
  then obtain q' where q': "pop q = (Some x, q')" "items q' = xs" "wf q'"
    by (metis pop_cons)
  with Cons.hyps(1) [of q'] have "drain (length xs) q' = xs" by simp
  with q' Cons.hyps(2) show ?case by (metis case_prod_conv drain.simps(2) length_Cons option.simps(5))
qed

end

interpretation pqf: fifo_pool pq_queue pq_wf pq_init "\<lambda>q x. pq_push q x Tail" "\<lambda>q. pq_pop q First"
  by unfold_locales (auto simp: pq_pop_First pq_wf_def pq_push_def pq_init_def split: list.splits)

end
