(* ===== verification/PhlQueueProps.thy ===== *)
theory PhlQueueProps
  imports PhlQueue
begin

text \<open>
  What every sequence of queue operations keeps when its callers respect the one rule of an
  intrusive list: a node is put into a queue only while it is not in it, and deleted only
  while it is.
\<close>

datatype 'a queue_op =
    Op_push 'a list_pos
  | Op_insert 'a "('a \<Rightarrow> 'a \<Rightarrow> bool) option"
  | Op_pop list_pos
  | Op_search bool "('a \<Rightarrow> bool) option"
  | Op_del 'a
  | Op_reset

text \<open>The queue after an operation and the nodes that left it.\<close>

fun queue_step :: "'a phl_queue \<Rightarrow> 'a queue_op \<Rightarrow> 'a phl_queue \<times> 'a list" where
  "queue_step q (Op_push x pos) = (pq_push q x pos, [])"
| "queue_step q (Op_insert x p) = (pq_insert q x p, [])"
| "queue_step q (Op_pop pos) = (case pq_pop q pos of (None, q') \<Rightarrow> (q', []) | (Some x, q') \<Rightarrow> (q', [x]))"
| "queue_step q (Op_search bdel f) =
     (case pq_search_node q bdel f of
        (None, q') \<Rightarrow> (q', []) | (Some x, q') \<Rightarrow> (q', if bdel then [x] else []))"
| "queue_step q (Op_del x) = (pq_del_node q (Some x), [x])"
| "queue_step q Op_reset = (pq_reset q, pq_queue q)"

fun op_allowed :: "'a phl_queue \<Rightarrow> 'a queue_op \<Rightarrow> bool" where
  "op_allowed q (Op_push x pos) \<longleftrightarrow> x \<notin> set (pq_queue q)"
| "op_allowed q (Op_insert x p) \<longleftrightarrow> x \<notin> set (pq_queue q)"
| "op_allowed q (Op_del x) \<longleftrightarrow> x \<in> set (pq_queue q)"
| "op_allowed q _ \<longleftrightarrow> True"

text \<open>The node an operation puts in.\<close>

fun op_node :: "'a queue_op \<Rightarrow> 'a list" where
  "op_node (Op_push x pos) = [x]"
| "op_node (Op_insert x p) = [x]"
| "op_node _ = []"

definition pq_typed :: "'a phl_queue \<Rightarrow> bool" where
  "pq_typed q \<longleftrightarrow> pq_wf q \<and> distinct (pq_queue q)"

subsection \<open>One operation\<close>

lemma pop_leaves:
  assumes "pq_wf q" "pq_pop q pos = (Some x, q')"
  shows "mset (pq_queue q) = add_mset x (mset (pq_queue q'))"
proof (cases "pq_queue q" rule: rev_cases)
  case Nil
  with assms show ?thesis by (simp add: pq_pop_def pq_wf_nonempty)
next
  case (snoc ys y)
  with assms show ?thesis
    by (cases ys) (auto simp: pq_pop_def pq_wf_nonempty split: if_splits)
qed

lemma search_leaves:
  assumes "pq_search_node q bdel f = (Some x, q')"
  shows "mset (pq_queue q) = mset (pq_queue q') + (if bdel then {#x#} else {#})"
  using assms by (auto simp: pq_search_node_def find_Some_iff split: if_splits option.splits)

lemma queue_step_conserves:
  assumes "pq_wf q" "op_allowed q op" "queue_step q op = (q', out)"
  shows "mset (op_node op) + mset (pq_queue q) = mset (pq_queue q') + mset out \<and> pq_wf q'"
proof (cases op)
  case (Op_push x pos)
  with assms pq_wf_push [OF assms(1), of x pos] show ?thesis by (cases pos) auto
next
  case (Op_insert x p)
  with assms pq_wf_insert [OF assms(1), of x p] show ?thesis by auto
next
  case (Op_pop pos)
  obtain r q1 where r: "pq_pop q pos = (r, q1)" by fastforce
  have "r = None \<Longrightarrow> q1 = q" using r by (auto simp: pq_pop_def split: if_splits)
  then show ?thesis
    using Op_pop assms r pop_leaves [OF assms(1), of pos] pq_wf_pop [OF assms(1), of pos]
    by (cases r) auto
next
  case (Op_search b f)
  obtain r q1 where r: "pq_search_node q b f = (r, q1)" by fastforce
  have "r = None \<Longrightarrow> q1 = q" using r by (auto simp: pq_search_node_def split: if_splits option.splits)
  then show ?thesis
    using Op_search assms r search_leaves [of q b f] pq_wf_search [OF assms(1), of b f]
    by (cases r) (auto split: if_splits)
next
  case (Op_del x)
  with assms pq_wf_del [OF assms(1), of x] show ?thesis by (auto simp: pq_del_node_def)
next
  case Op_reset
  with assms show ?thesis by auto
qed

lemma op_node_fresh: "op_allowed q op \<Longrightarrow> x \<in> set (op_node op) \<Longrightarrow> x \<notin> set (pq_queue q)"
  by (cases op) auto

lemma distinct_op_node [simp]: "distinct (op_node op)"
  by (cases op) auto

lemma queue_step_typed:
  assumes "pq_typed q" "op_allowed q op" "queue_step q op = (q', out)"
  shows "pq_typed q'"
proof -
  have c: "mset (op_node op) + mset (pq_queue q) = mset (pq_queue q') + mset out" "pq_wf q'"
    using queue_step_conserves [OF _ assms(2,3)] assms(1) by (auto simp: pq_typed_def)
  have "distinct (op_node op @ pq_queue q)"
    using assms(1) op_node_fresh [OF assms(2)] by (auto simp: pq_typed_def)
  moreover have "mset (op_node op @ pq_queue q) = mset (pq_queue q' @ out)" using c(1) by simp
  ultimately have "distinct (pq_queue q' @ out)" by (metis mset_eq_imp_distinct_iff)
  with c(2) show ?thesis by (simp add: pq_typed_def)
qed

subsection \<open>Walking through the queue\<close>

lemma next_in_nth:
  "distinct xs \<Longrightarrow> i < length xs \<Longrightarrow>
     next_in xs (xs ! i) = (if Suc i < length xs then Some (xs ! Suc i) else None)"
proof (induction xs arbitrary: i rule: induct_list012)
  case (3 x y zs)
  show ?case
  proof (cases i)
    case (Suc j)
    with 3 have "(y # zs) ! j \<noteq> x" by (metis distinct.simps(2) length_Cons nth_mem Suc_less_eq)
    with 3(2) [of j] 3(3,4) Suc show ?thesis by simp
  qed simp
qed simp_all

lemma prev_in_nth:
  assumes "distinct xs" "i < length xs"
  shows "next_in (rev xs) (xs ! i) = (if 0 < i then Some (xs ! (i - 1)) else None)"
proof -
  have j: "xs ! i = rev xs ! (length xs - Suc i)" using assms(2) by (simp add: rev_nth)
  show ?thesis
  proof (cases i)
    case 0
    with j assms next_in_nth [of "rev xs" "length xs - Suc i"] show ?thesis by simp
  next
    case (Suc k)
    then have "Suc (length xs - Suc i) < length xs" using assms(2) by simp
    moreover have "rev xs ! Suc (length xs - Suc i) = xs ! (i - 1)"
      using Suc assms(2) by (simp add: rev_nth Suc_diff_Suc)
    ultimately show ?thesis using j assms Suc next_in_nth [of "rev xs" "length xs - Suc i"] by simp
  qed
qed

lemma run_events_split:
  "run_events step s (e # es) = (s', out) \<longleftrightarrow>
     (\<exists>s1 o1 o2. step s e = (s1, o1) \<and> run_events step s1 es = (s', o2) \<and> out = o1 @ o2)"
  by (auto simp: Let_def split: prod.splits)

lemma queue_run_typed:
  "pq_typed q \<Longrightarrow> ok_events op_allowed queue_step q ops \<Longrightarrow> run_events queue_step q ops = (q', out) \<Longrightarrow>
     pq_typed q' \<and> mset (concat (map op_node ops)) + mset (pq_queue q) = mset (pq_queue q') + mset out"
proof (induction ops arbitrary: q out)
  case (Cons op ops)
  from Cons.prems(3) obtain q1 o1 o2 where s: "queue_step q op = (q1, o1)"
    "run_events queue_step q1 ops = (q', o2)" "out = o1 @ o2" unfolding run_events_split by blast
  have ok: "op_allowed q op" "ok_events op_allowed queue_step q1 ops" using Cons.prems(2) s(1) by simp_all
  have "mset (op_node op) + mset (pq_queue q) = mset (pq_queue q1) + mset o1"
    using queue_step_conserves [OF _ ok(1) s(1)] Cons.prems(1) by (simp add: pq_typed_def)
  moreover have "pq_typed q'" "mset (concat (map op_node ops)) + mset (pq_queue q1) = mset (pq_queue q') + mset o2"
    using Cons.IH [OF queue_step_typed [OF Cons.prems(1) ok(1) s(1)] ok(2) s(2)] by blast+
  ultimately show ?case using s(3) by (metis (no_types, lifting) concat.simps(2) list.simps(9) mset_append union_assoc union_commute)
qed simp

subsection \<open>Property\<close>

text \<open>
  C40. Whatever the operations, in whatever order, from an initialised queue: the counter is
  the length, no node is linked twice, and every node that was put in is in the queue or has
  left it, exactly once for each time. The walk from node to node visits the list in both
  directions and stops at its ends, and the two ends are given exactly when there are any.
\<close>

theorem queue_typed:
  assumes "ok_events op_allowed queue_step pq_init ops"
    and "run_events queue_step pq_init ops = (q, out)"
  shows "pq_cnt q = int (length (pq_queue q)) \<and> distinct (pq_queue q) \<and>
     mset (concat (map op_node ops)) = mset (pq_queue q) + mset out \<and>
     (\<forall>i < length (pq_queue q).
        pq_get_next q (Some (pq_queue q ! i)) =
          (if Suc i < length (pq_queue q) then Some (pq_queue q ! Suc i) else None) \<and>
        pq_get_prev q (Some (pq_queue q ! i)) = (if 0 < i then Some (pq_queue q ! (i - 1)) else None)) \<and>
     pq_get_front q = (if pq_queue q = [] then None else Some (hd (pq_queue q))) \<and>
     pq_get_tail q = (if pq_queue q = [] then None else Some (last (pq_queue q)))"
proof -
  have "pq_typed pq_init" by (simp add: pq_typed_def)
  from queue_run_typed [OF this assms]
  have t: "pq_wf q" "distinct (pq_queue q)" "mset (concat (map op_node ops)) = mset (pq_queue q) + mset out"
    by (simp_all add: pq_typed_def)
  then show ?thesis
    by (simp add: pq_wf_def [of q, symmetric] pq_wf_nonempty pq_get_front_def pq_get_tail_def pq_get_next_def
        pq_get_prev_def next_in_nth prev_in_nth)
qed

definition ex_ops :: "nat queue_op list" where
  "ex_ops = [Op_push 5 Tail, Op_push 3 First, Op_insert 4 (Some (\<lambda>a b. a < b)), Op_pop First, Op_del 5, Op_push 3 Tail]"

lemma queue_typed_witness: "pq_get_next \<lparr>pq_queue = [4 :: nat, 3], pq_cnt = 2\<rparr> (Some 4) = Some 3"
proof -
  have "ok_events op_allowed queue_step pq_init ex_ops"
    "run_events queue_step pq_init ex_ops = (\<lparr>pq_queue = [4, 3], pq_cnt = 2\<rparr>, [3, 5])" by code_simp+
  from queue_typed [OF this] show ?thesis by force
qed

end
