(* ===== verification/RxReorder.thy ===== *)
theory RxReorder
  imports Prelude
begin

text \<open>
  The receive reorder buffer: \<^verbatim>\<open>phl/phl_rx.c\<close> (from \<open>seq_less\<close> to \<open>phl_rx_reorder\<close>, and
  \<open>rtw_phl_rx_bar\<close>) and \<^verbatim>\<open>phl/phl_rx_agg.c\<close> (the block-ack sessions of a station). The model
  follows the configuration the Linux driver is built with: \<open>PHL_RXSC_AMPDU\<close>,
  \<open>DEBUG_PHL_RX\<close> and \<open>PHL_RX_BATCH_IND\<close> are not defined.

  A packet is a record with its address \<open>pkt_id\<close>; \<open>frames\<close> is the list the functions
  append to, \<open>recycled\<close> the packets given back to the bus layer, the clock
  \<open>_os_get_cur_time_ms\<close> an argument. The operations of a session return whether the
  reorder timer of the station was armed.
\<close>

subsection \<open>Data\<close>

record rx_meta =
  m_seq :: u16
  m_tid :: u8
  m_bc :: bool
  m_mc :: bool
  m_qos :: bool
  m_q_null :: bool
  m_more_frag :: bool
  m_frag_num :: u8
  m_addr_cam_vld :: bool
  m_macid :: u16
  m_amsdu_cut :: bool
  m_last_msdu :: bool
  m_rx_deferred_release :: bool

record rx_pkt =
  pkt_id :: nat
  mdata :: rx_meta
  pkt_length :: u16
  pkt_tx_sta :: "nat option"
  pkt_rx_role :: "nat option"

abbreviation seq_of :: "rx_pkt \<Rightarrow> u16" where
  "seq_of p \<equiv> m_seq (mdata p)"

record tid_ampdu_rx =
  reorder_buf :: "rx_pkt option list"
  reorder_time :: "u32 list"
  head_seq_num :: u16
  stored_mpdu_num :: u16
  ba_ssn :: u16
  buf_size :: u16
  ba_tid :: u16
  ba_started :: bool
  ba_removed :: bool
  ba_sleep :: bool

subsection \<open>Sequence numbers\<close>

definition SEQ_MODULO :: u16 where "SEQ_MODULO = 0x1000"
definition SEQ_MASK :: u16 where "SEQ_MASK = 0xfff"

definition seq_less :: "u16 \<Rightarrow> u16 \<Rightarrow> bool" where
  "seq_less sq1 sq2 \<longleftrightarrow> (sq1 - sq2) AND SEQ_MASK > drop_bit 1 SEQ_MODULO"

definition seq_inc :: "u16 \<Rightarrow> u16" where
  "seq_inc sq = (sq + 1) AND SEQ_MASK"

definition seq_sub :: "u16 \<Rightarrow> u16 \<Rightarrow> u16" where
  "seq_sub sq1 sq2 = (sq1 - sq2) AND SEQ_MASK"

definition reorder_index :: "tid_ampdu_rx \<Rightarrow> u16 \<Rightarrow> nat" where
  "reorder_index r seq = unat (seq mod buf_size r)"

subsection \<open>Releasing frames\<close>

definition phl_release_reorder_frame ::
  "tid_ampdu_rx \<Rightarrow> nat \<Rightarrow> rx_pkt list \<Rightarrow> tid_ampdu_rx \<times> rx_pkt list" where
  "phl_release_reorder_frame r index frames =
     (case slot (reorder_buf r) index of
        None \<Rightarrow> (r\<lparr>head_seq_num := seq_inc (head_seq_num r)\<rparr>, frames)
      | Some pkt \<Rightarrow>
          (r\<lparr>stored_mpdu_num := stored_mpdu_num r - 1,
             reorder_buf := (reorder_buf r)[index := None],
             head_seq_num := seq_inc (head_seq_num r)\<rparr>,
           frames @ [pkt\<lparr>mdata := (mdata pkt)\<lparr>m_rx_deferred_release := True\<rparr>\<rparr>]))"

definition HT_RX_REORDER_BUF_TIMEOUT_MS :: u32 where
  "HT_RX_REORDER_BUF_TIMEOUT_MS = 500"

text \<open>
  The \<open>for\<close> loop over the slots after \<open>index\<close>, one list element per iteration; the first
  component of the result says that the loop left with \<open>goto set_release_timer\<close>.
\<close>

definition slots_after :: "tid_ampdu_rx \<Rightarrow> nat \<Rightarrow> nat list" where
  "slots_after r index = map (\<lambda>k. (index + k) mod unat (buf_size r)) [1..<unat (buf_size r)]"

fun timeout_loop ::
  "u32 \<Rightarrow> nat list \<Rightarrow> nat \<Rightarrow> tid_ampdu_rx \<Rightarrow> rx_pkt list \<Rightarrow> bool \<times> tid_ampdu_rx \<times> rx_pkt list" where
  "timeout_loop cur_time [] skipped r frames = (False, r, frames)"
| "timeout_loop cur_time (j # js) skipped r frames =
     (if slot (reorder_buf r) j = None
      then timeout_loop cur_time js (skipped + 1) r frames
      else if skipped \<noteq> 0 \<and>
        sint (reorder_time r ! j + HT_RX_REORDER_BUF_TIMEOUT_MS - cur_time) > 0
      then (True, r, frames)
      else (let (r1, frames1) = phl_release_reorder_frame r j frames;
                r2 = r1\<lparr>head_seq_num := (head_seq_num r1 + of_nat skipped) AND SEQ_MASK\<rparr>
            in timeout_loop cur_time js 0 r2 frames1))"

text \<open>The \<open>while\<close> loop of \<open>phl_reorder_release\<close>; every round empties an occupied slot.\<close>

lemma occupied_release:
  "slot (reorder_buf r) i = Some p \<Longrightarrow>
   occupied (reorder_buf (fst (phl_release_reorder_frame r i frames))) < occupied (reorder_buf r)"
  by (auto simp: phl_release_reorder_frame_def dest: occupied_clear)

function release_loop :: "nat \<Rightarrow> tid_ampdu_rx \<Rightarrow> rx_pkt list \<Rightarrow> tid_ampdu_rx \<times> rx_pkt list" where
  "release_loop index r frames =
     (case slot (reorder_buf r) index of
        None \<Rightarrow> (r, frames)
      | Some p \<Rightarrow>
          (let (r1, frames1) = phl_release_reorder_frame r index frames
           in release_loop (reorder_index r1 (head_seq_num r1)) r1 frames1))"
  by pat_completeness auto

termination release_loop
  by (relation "measure (\<lambda>(_, r, _). occupied (reorder_buf r))")
    (auto simp: case_prod_beta occupied_release)

declare release_loop.simps [simp del]

text \<open>The last component of the result: \<open>_os_set_timer\<close> was called.\<close>

definition phl_reorder_release ::
  "u32 \<Rightarrow> tid_ampdu_rx \<Rightarrow> rx_pkt list \<Rightarrow> tid_ampdu_rx \<times> rx_pkt list \<times> bool" where
  "phl_reorder_release cur_time r frames =
     (let index = reorder_index r (head_seq_num r);
          (goto, r', frames') =
            (if slot (reorder_buf r) index = None \<and> stored_mpdu_num r \<noteq> 0
             then timeout_loop cur_time (slots_after r index) 1 r frames
             else (False, release_loop index r frames))
      in (r', frames', (goto \<or> stored_mpdu_num r' \<noteq> 0) \<and> \<not> ba_removed r'))"

subsection \<open>Sequence arithmetic\<close>

lemma and_SEQ_MASK: "w AND SEQ_MASK = take_bit 12 w"
  by (simp add: SEQ_MASK_def flip: take_bit_eq_mask) (simp add: take_bit_eq_mask mask_eq_exp_minus_1)

lemma unat_and_mask: "unat (w AND SEQ_MASK) = unat w mod 4096"
  unfolding and_SEQ_MASK unsigned_take_bit_eq by (simp add: take_bit_eq_mod)

lemma uint_and_mask: "uint (w AND SEQ_MASK) = uint w mod 4096"
  unfolding and_SEQ_MASK unsigned_take_bit_eq by (simp add: take_bit_eq_mod)

lemma unat_seq_inc: "unat (seq_inc s) = (unat s + 1) mod 4096"
  unfolding seq_inc_def unat_and_mask by (simp add: unat_word_ariths mod_mod_cancel)

lemma uint_and_mask_diff: "uint ((a - b) AND SEQ_MASK) = (uint a - uint b) mod 4096"
  unfolding uint_and_mask by (simp add: uint_word_ariths mod_mod_cancel)

lemma uint_seq_sub: "uint (seq_sub a b) = (uint a - uint b) mod 4096"
  by (simp add: seq_sub_def uint_and_mask_diff)

lemma uint_seq_inc: "uint (seq_inc a) = (uint a + 1) mod 4096"
  unfolding seq_inc_def uint_and_mask by (simp add: uint_word_ariths mod_mod_cancel)

lemma seq_less_dist: "seq_less a b \<longleftrightarrow> (uint a - uint b) mod 4096 > 2048"
proof -
  have d: "drop_bit 1 SEQ_MODULO = (2048 :: u16)" by (simp add: SEQ_MODULO_def)
  show ?thesis unfolding seq_less_def d word_less_def uint_and_mask_diff by simp
qed

text \<open>The distance from \<open>a\<close> forward to \<open>b\<close> on the circle of sequence numbers.\<close>

definition seq_dist :: "u16 \<Rightarrow> u16 \<Rightarrow> nat" where
  "seq_dist a b = unat (seq_sub b a)"

lemma int_seq_dist: "int (seq_dist a b) = (uint b - uint a) mod 4096"
  by (simp add: seq_dist_def uint_seq_sub)

lemma seq_dist_lt: "seq_dist a b < 4096"
  by (simp add: seq_dist_def seq_sub_def unat_and_mask)

lemma seq_less_iff: "seq_less a b \<longleftrightarrow> 0 < seq_dist a b \<and> seq_dist a b < 2048"
proof -
  define x where "x = uint a - uint b"
  have "int (seq_dist a b) = (- x) mod 4096"
    by (simp add: int_seq_dist x_def)
  moreover have "x mod 4096 > 2048 \<longleftrightarrow> 0 < (- x) mod 4096 \<and> (- x) mod 4096 < 2048"
    using pos_mod_bound [of 4096 x] by (simp add: zmod_zminus1_eq_if)
  ultimately show ?thesis unfolding seq_less_dist x_def [symmetric] by linarith
qed

subsection \<open>Making room in the window\<close>

function phl_release_reorder_frames ::
  "tid_ampdu_rx \<Rightarrow> u16 \<Rightarrow> rx_pkt list \<Rightarrow> tid_ampdu_rx \<times> rx_pkt list" where
  "phl_release_reorder_frames r hseq frames =
     (if seq_less (head_seq_num r) hseq \<and> stored_mpdu_num r \<noteq> 0
      then (let (r1, frames1) =
              phl_release_reorder_frame r (reorder_index r (head_seq_num r)) frames
            in phl_release_reorder_frames r1 hseq frames1)
      else (r\<lparr>head_seq_num := hseq\<rparr>, frames))"
  by pat_completeness auto

lemma zmod_pred:
  assumes "0 < x mod m" "0 < (m :: int)"
  shows "(x - 1) mod m = x mod m - 1"
proof -
  have "(x - 1) mod m = (x mod m - 1) mod m" by (simp add: mod_diff_left_eq)
  also have "\<dots> = x mod m - 1"
    using assms pos_mod_bound [of m x] by (intro mod_pos_pos_trivial) linarith+
  finally show ?thesis .
qed

lemma head_release:
  "head_seq_num (fst (phl_release_reorder_frame r i frames)) = seq_inc (head_seq_num r)"
  by (simp add: phl_release_reorder_frame_def split: option.split)

lemma seq_dist_inc:
  "seq_less a b \<Longrightarrow> Suc (seq_dist (seq_inc a) b) = seq_dist a b"
proof -
  assume "seq_less a b"
  then have p: "0 < seq_dist a b" by (simp add: seq_less_iff)
  define x where "x = uint b - uint a"
  have 1: "int (seq_dist a b) = x mod 4096" by (simp add: int_seq_dist x_def)
  have "int (seq_dist (seq_inc a) b) = (x - 1) mod 4096"
    by (simp add: int_seq_dist uint_seq_inc x_def mod_diff_right_eq algebra_simps)
  moreover have "(x - 1) mod 4096 = x mod 4096 - 1"
    using 1 p by (intro zmod_pred) auto
  ultimately show ?thesis using 1 p by linarith
qed

termination phl_release_reorder_frames
  by (relation "measure (\<lambda>(r, hseq, _). seq_dist (head_seq_num r) hseq)")
    (auto simp: head_release prod_eq_iff dest!: seq_dist_inc)

declare phl_release_reorder_frames.simps [simp del]

subsection \<open>The frame that arrives\<close>

text \<open>
  The result of the C function, what became of the session and of \<open>frames\<close>, the packets
  recycled, and whether the timer was armed.
\<close>

record reorder_result =
  rr_session :: tid_ampdu_rx
  rr_frames :: "rx_pkt list"
  rr_recycled :: "rx_pkt list"
  rr_timer :: bool

definition phl_manage_sta_reorder_buf ::
  "u32 \<Rightarrow> rx_pkt \<Rightarrow> tid_ampdu_rx \<Rightarrow> rx_pkt list \<Rightarrow> bool \<times> reorder_result" where
  "phl_manage_sta_reorder_buf cur_time pkt r frames =
     (let mpdu_seq_num = m_seq (mdata pkt);
          res = (\<lambda>r fs rec t. \<lparr>rr_session = r, rr_frames = fs, rr_recycled = rec, rr_timer = t\<rparr>)
      in if \<not> ba_started r \<and> seq_less mpdu_seq_num (head_seq_num r)
         then (False, res r frames [] False)
         else
           (let r = r\<lparr>ba_started := True\<rparr>;
                r = (if ba_sleep r then r\<lparr>head_seq_num := mpdu_seq_num, ba_sleep := False\<rparr> else r);
                head = head_seq_num r
            in if seq_less mpdu_seq_num head then (True, res r frames [pkt] False)
               else
                 (let (r, frames) =
                        (if \<not> seq_less mpdu_seq_num (head + buf_size r)
                         then phl_release_reorder_frames r
                                (seq_inc (seq_sub mpdu_seq_num (buf_size r))) frames
                         else (r, frames));
                      index = reorder_index r mpdu_seq_num
                  in if slot (reorder_buf r) index \<noteq> None then (True, res r frames [pkt] False)
                     else if mpdu_seq_num = head_seq_num r \<and> stored_mpdu_num r = 0
                     then (False, res (r\<lparr>head_seq_num := seq_inc (head_seq_num r)\<rparr>) frames [] False)
                     else
                       (let r = r\<lparr>reorder_buf := (reorder_buf r)[index := Some pkt],
                                  reorder_time := (reorder_time r)[index := cur_time],
                                  stored_mpdu_num := stored_mpdu_num r + 1\<rparr>;
                            (r, frames, t) = phl_reorder_release cur_time r frames
                        in (True, res r frames [] t)))))"

subsection \<open>The block-ack sessions of a station\<close>

text \<open>
  The calls to the HAL, whose results the code ignores here, are recorded in order. The
  reorder timer of a station is the period it is armed with.
\<close>

datatype hal_ba_call =
    Hal_start_ba_session u8 u16 u16 u16 u16 u16
  | Hal_stop_ba_session u16

definition RTW_MAX_TID_NUM :: nat where "RTW_MAX_TID_NUM = 16"
definition PHL_MAX_AGG_WSIZE :: u16 where "PHL_MAX_AGG_WSIZE = 32"

record rx_sta =
  tid_rx :: "tid_ampdu_rx option list"
  reorder_timer :: "u32 option"
  sta_wrole :: "nat option"

text \<open>
  What the functions on a station have in common: the station, the packets they hand on and
  the packets they recycle.
\<close>

type_synonym sta_out = "rx_sta \<times> rx_pkt list \<times> rx_pkt list"

definition arm :: "bool \<Rightarrow> rx_sta \<Rightarrow> rx_sta" where
  "arm t sta = (if t then sta\<lparr>reorder_timer := Some HT_RX_REORDER_BUF_TIMEOUT_MS\<rparr> else sta)"

text \<open>\<open>phl_tid_ampdu_rx_free\<close>: the packets of the slots \<open>0 \<dots> buf_size - 1\<close> are recycled in order.\<close>

definition phl_tid_ampdu_rx_free :: "tid_ampdu_rx option \<Rightarrow> rx_pkt list" where
  "phl_tid_ampdu_rx_free r =
     (case r of None \<Rightarrow> []
      | Some r \<Rightarrow> List.map_filter (slot (reorder_buf r)) [0..<unat (buf_size r)])"

text \<open>The three allocations may each fail; the boolean arguments say which ones succeed.\<close>

definition phl_tid_ampdu_rx_alloc ::
  "bool \<times> bool \<times> bool \<Rightarrow> u16 \<Rightarrow> u16 \<Rightarrow> u16 \<Rightarrow> u16 \<Rightarrow> tid_ampdu_rx option" where
  "phl_tid_ampdu_rx_alloc mem timeout ssn tid bsize =
     (let (mem_r, mem_buf, mem_time) = mem
      in if \<not> mem_r then None
         else if \<not> mem_buf then None
         else if \<not> mem_time then None
         else Some \<lparr>reorder_buf = replicate (unat bsize) None,
                    reorder_time = replicate (unat bsize) 0,
                    head_seq_num = ssn, stored_mpdu_num = 0, ba_ssn = ssn, buf_size = bsize,
                    ba_tid = tid, ba_started = False, ba_removed = False, ba_sleep = False\<rparr>)"

definition rtw_phl_start_rx_ba_session ::
  "bool \<times> bool \<times> bool \<Rightarrow> rx_sta \<Rightarrow> u8 \<Rightarrow> u16 \<Rightarrow> u16 \<Rightarrow> u16 \<Rightarrow> u16 \<Rightarrow> u16 \<Rightarrow>
   phl_status \<times> rx_sta \<times> rx_pkt list \<times> hal_ba_call list" where
  "rtw_phl_start_rx_ba_session mem sta dialog_token timeout start_seq_num ba_policy tid bsize =
     (if unat tid \<ge> RTW_MAX_TID_NUM then (RTW_PHL_STATUS_RESOURCE, sta, [], [])
      else
        (let hal = (if slot (tid_rx sta) (unat tid) \<noteq> None then [Hal_stop_ba_session tid] else []) @
                   [Hal_start_ba_session dialog_token timeout start_seq_num ba_policy tid bsize]
         in if ba_policy \<noteq> 0 then (RTW_PHL_STATUS_FAILURE, sta, [], hal)
            else
              (let bsize = (if bsize = 0 then PHL_MAX_AGG_WSIZE else bsize)
               in case phl_tid_ampdu_rx_alloc mem timeout start_seq_num tid bsize of
                    None \<Rightarrow> (RTW_PHL_STATUS_RESOURCE, sta, [], hal)
                  | Some r \<Rightarrow>
                      (RTW_PHL_STATUS_SUCCESS,
                       sta\<lparr>tid_rx := (tid_rx sta)[unat tid := Some r]\<rparr>,
                       phl_tid_ampdu_rx_free (slot (tid_rx sta) (unat tid)), hal))))"

definition rtw_phl_stop_rx_ba_session ::
  "rx_sta option \<Rightarrow> u16 \<Rightarrow> (rx_sta option \<times> rx_pkt list \<times> hal_ba_call list)" where
  "rtw_phl_stop_rx_ba_session sta tid =
     (case sta of
        None \<Rightarrow> (None, [], [])
      | Some sta \<Rightarrow>
          if unat tid \<ge> RTW_MAX_TID_NUM then (Some sta, [], [])
          else
            (case slot (tid_rx sta) (unat tid) of
               None \<Rightarrow> (Some sta, [], [Hal_stop_ba_session tid])
             | Some r \<Rightarrow>
                 (Some (sta\<lparr>tid_rx := (tid_rx sta)[unat tid := None]\<rparr>),
                  phl_tid_ampdu_rx_free (Some (r\<lparr>ba_removed := True\<rparr>)),
                  [Hal_stop_ba_session tid])))"

text \<open>
  \<open>phl_free_rx_reorder\<close> takes the lock of the sessions twice: it first marks every session
  as removed, so that no timer is armed again, cancels the timer with the lock released, and
  then frees the sessions. The two critical sections are separate definitions.
\<close>

definition mark_removed :: "rx_sta \<Rightarrow> rx_sta" where
  "mark_removed sta = sta\<lparr>tid_rx := map (map_option (\<lambda>r. r\<lparr>ba_removed := True\<rparr>)) (tid_rx sta)\<rparr>"

definition cancel_rx_reorder_timer :: "rx_sta \<Rightarrow> rx_sta" where
  "cancel_rx_reorder_timer sta = sta\<lparr>reorder_timer := None\<rparr>"

definition free_sessions :: "rx_sta \<Rightarrow> rx_sta \<times> rx_pkt list" where
  "free_sessions sta =
     (sta\<lparr>tid_rx := map (\<lambda>_. None) (tid_rx sta)\<rparr>,
      concat (map phl_tid_ampdu_rx_free (tid_rx sta)))"

definition phl_free_rx_reorder :: "rx_sta \<Rightarrow> rx_sta \<times> rx_pkt list" where
  "phl_free_rx_reorder sta = free_sessions (cancel_rx_reorder_timer (mark_removed sta))"

definition phl_notify_reorder_sleep :: "rx_sta option \<Rightarrow> rx_sta option" where
  "phl_notify_reorder_sleep sta =
     map_option (\<lambda>sta. sta\<lparr>tid_rx := map (map_option (\<lambda>r. r\<lparr>ba_sleep := True\<rparr>)) (tid_rx sta)\<rparr>) sta"

text \<open>The loop over the sessions that the timer and the flush share.\<close>

fun release_sessions ::
  "u32 \<Rightarrow> tid_ampdu_rx option list \<Rightarrow> rx_pkt list \<Rightarrow>
   tid_ampdu_rx option list \<times> rx_pkt list \<times> bool" where
  "release_sessions now [] frames = ([], frames, False)"
| "release_sessions now (None # rs) frames =
     (let (rs', frames', t) = release_sessions now rs frames in (None # rs', frames', t))"
| "release_sessions now (Some r # rs) frames =
     (let (r', frames1, t1) = phl_reorder_release now r frames;
          (rs', frames', t) = release_sessions now rs frames1
      in (Some r' # rs', frames', t1 \<or> t))"

text \<open>
  The second component holds the frames that \<open>phl_handle_rx_frame_list\<close> gets. A timer that
  expires is not armed any more until the loop arms it again.
\<close>

definition phl_sta_rx_reorder_timer_expired :: "u32 \<Rightarrow> rx_sta \<Rightarrow> rx_sta \<times> rx_pkt list" where
  "phl_sta_rx_reorder_timer_expired now sta =
     (let (rs, frames, t) = release_sessions now (tid_rx sta) []
      in (arm t (sta\<lparr>tid_rx := rs, reorder_timer := None\<rparr>), frames))"

definition rtw_phl_flush_reorder_buf :: "u32 \<Rightarrow> rx_sta \<Rightarrow> rx_sta \<times> rx_pkt list" where
  "rtw_phl_flush_reorder_buf now sta =
     (let (rs, frames, t) = release_sessions now (tid_rx sta) []
      in (arm t (sta\<lparr>tid_rx := rs\<rparr>), frames))"

definition rtw_phl_rx_bar :: "rx_sta \<Rightarrow> u8 \<Rightarrow> u16 \<Rightarrow> rx_sta \<times> rx_pkt list" where
  "rtw_phl_rx_bar sta tid seq =
     (if unat tid \<ge> RTW_MAX_TID_NUM then (sta, [])
      else
        (case slot (tid_rx sta) (unat tid) of
           None \<Rightarrow> (sta, [])
         | Some r \<Rightarrow>
             if seq_less seq (head_seq_num r) then (sta, [])
             else (let (r', frames) = phl_release_reorder_frames r seq []
                   in (sta\<lparr>tid_rx := (tid_rx sta)[unat tid := Some r']\<rparr>, frames))))"

subsection \<open>The entry of the receive path\<close>

text \<open>
  \<open>phl_info\<close> as far as \<open>phl_rx_reorder\<close> reads it: two switches, the station that
  \<open>rtw_phl_get_stainfo_by_macid\<close> finds (an address), and the stations at their addresses.
  \<open>rtw_hal_set_sta_rx_sts\<close> only counts.
\<close>

record rx_info =
  append_fcs :: bool
  mp_mode :: bool
  macid_sta :: "u16 \<Rightarrow> nat option"
  sta_at :: "nat \<Rightarrow> rx_sta"
  rx_recycled :: "rx_pkt list"

definition dont_reorder :: "rx_info \<Rightarrow> rx_pkt \<Rightarrow> rx_pkt list \<Rightarrow> phl_status \<times> rx_info \<times> rx_pkt list" where
  "dont_reorder info pkt frames = (RTW_PHL_STATUS_SUCCESS, info, frames @ [pkt])"

definition reorder_sta ::
  "u32 \<Rightarrow> rx_info \<Rightarrow> rx_pkt \<Rightarrow> nat \<Rightarrow> rx_pkt list \<Rightarrow> phl_status \<times> rx_info \<times> rx_pkt list" where
  "reorder_sta now info pkt sa frames =
     (let sta = sta_at info sa;
          pkt = pkt\<lparr>pkt_tx_sta := Some sa, pkt_rx_role := sta_wrole sta\<rparr>;
          tid = unat (m_tid (mdata pkt))
      in if tid \<ge> RTW_MAX_TID_NUM then dont_reorder info pkt frames
         else
           (case slot (tid_rx sta) tid of
              None \<Rightarrow> dont_reorder info pkt frames
            | Some r \<Rightarrow>
                (let (done, res) = phl_manage_sta_reorder_buf now pkt r frames;
                     sta' = arm (rr_timer res) (sta\<lparr>tid_rx := (tid_rx sta)[tid := Some (rr_session res)]\<rparr>);
                     info' = info\<lparr>sta_at := (sta_at info)(sa := sta'),
                                  rx_recycled := rx_recycled info @ rr_recycled res\<rparr>
                 in if done then (RTW_PHL_STATUS_SUCCESS, info', rr_frames res)
                    else dont_reorder info' pkt (rr_frames res))))"

definition phl_rx_reorder ::
  "u32 \<Rightarrow> rx_info \<Rightarrow> rx_pkt \<Rightarrow> rx_pkt list \<Rightarrow> phl_status \<times> rx_info \<times> rx_pkt list" where
  "phl_rx_reorder now info pkt frames =
     (let meta = mdata pkt;
          strip = append_fcs info \<and> \<not> (m_amsdu_cut meta \<and> \<not> m_last_msdu meta)
      in if strip \<and> pkt_length pkt \<le> 4
         then (RTW_PHL_STATUS_FAILURE, info\<lparr>rx_recycled := rx_recycled info @ [pkt]\<rparr>, frames)
         else
           (let pkt = (if strip then pkt\<lparr>pkt_length := pkt_length pkt - 4\<rparr> else pkt)
            in if mp_mode info \<or> m_bc meta \<or> m_mc meta \<or> \<not> m_qos meta \<or> m_q_null meta \<or>
                  m_more_frag meta \<or> m_frag_num meta \<noteq> 0
               then dont_reorder info pkt frames
               else
                 (case (if m_addr_cam_vld meta then macid_sta info (m_macid meta) else None) of
                    None \<Rightarrow> dont_reorder info pkt frames
                  | Some sa \<Rightarrow> reorder_sta now info pkt sa frames)))"

end
