(* ===== verification/RxReorderSpec.thy ===== *)
theory RxReorderSpec
  imports RxReorder
begin

text \<open>
  What the reorder buffer of \<^verbatim>\<open>RxReorder\<close> promises. Two invariants are kept apart: \<open>ba_shape\<close>
  (array sizes and the counter), which every operation keeps, and \<open>ba_window\<close>, which says
  that every stored frame lies in the window that starts at the head. The abstract position
  \<open>H\<close> of the head is an unbounded number whose value modulo 4096 is \<open>head_seq_num\<close>; with
  it, in-order delivery is the statement that the frames handed on have strictly increasing
  positions.
\<close>

subsection \<open>The shape of a session\<close>

abbreviation win_size :: "tid_ampdu_rx \<Rightarrow> nat" where
  "win_size r \<equiv> unat (buf_size r)"

definition ba_shape :: "tid_ampdu_rx \<Rightarrow> bool" where
  "ba_shape r \<longleftrightarrow> 0 < win_size r \<and> length (reorder_buf r) = win_size r \<and>
     length (reorder_time r) = win_size r \<and> unat (stored_mpdu_num r) = occupied (reorder_buf r)"

definition pkt_ids :: "rx_pkt list \<Rightarrow> nat multiset" where
  "pkt_ids fs = mset (map pkt_id fs)"

definition held :: "tid_ampdu_rx \<Rightarrow> nat multiset" where
  "held r = image_mset pkt_id (occupants (reorder_buf r))"

lemma pkt_ids_simps [simp]:
  "pkt_ids [] = {#}" "pkt_ids (p # fs) = add_mset (pkt_id p) (pkt_ids fs)"
  "pkt_ids (fs @ gs) = pkt_ids fs + pkt_ids gs"
  by (simp_all add: pkt_ids_def)

text \<open>
  \<open>released r fs r' fs'\<close>: frames were only appended, each of them left the session, and
  nothing but the buffer, its counter and the head changed.
\<close>

definition released ::
  "tid_ampdu_rx \<Rightarrow> rx_pkt list \<Rightarrow> tid_ampdu_rx \<Rightarrow> rx_pkt list \<Rightarrow> bool" where
  "released r fs r' fs' \<longleftrightarrow>
     (\<exists>out. fs' = fs @ out \<and> held r = held r' + pkt_ids out) \<and> ba_shape r' \<and>
     buf_size r' = buf_size r \<and> ba_started r' = ba_started r \<and> ba_removed r' = ba_removed r \<and>
     ba_sleep r' = ba_sleep r"

lemma released_refl: "ba_shape r \<Longrightarrow> released r fs r fs"
  by (auto simp: released_def)

lemma released_trans:
  "released r fs r1 fs1 \<Longrightarrow> released r1 fs1 r2 fs2 \<Longrightarrow> released r fs r2 fs2"
  unfolding released_def by (elim conjE exE) (auto simp: add_ac)

lemma released_head:
  "released r fs (r'\<lparr>head_seq_num := h\<rparr>) fs' \<longleftrightarrow> released r fs r' fs'"
  by (simp add: released_def held_def ba_shape_def)

lemma released_frame:
  assumes "ba_shape r" "phl_release_reorder_frame r i fs = (r', fs')"
  shows "released r fs r' fs'"
proof (cases "slot (reorder_buf r) i")
  case None
  with assms show ?thesis
    by (auto simp: phl_release_reorder_frame_def released_head released_refl)
next
  case (Some p)
  have occ: "Suc (occupied ((reorder_buf r)[i := None])) = occupied (reorder_buf r)"
    using Some by (rule occupied_clear)
  have "occupied (reorder_buf r) = unat (stored_mpdu_num r)"
    using assms(1) by (simp add: ba_shape_def)
  with occ have "unat (stored_mpdu_num r - 1) = occupied ((reorder_buf r)[i := None])"
    by (simp add: unat_sub word_le_nat_alt)
  with assms Some show ?thesis
    by (auto simp: phl_release_reorder_frame_def released_def ba_shape_def held_def occupants_clear)
qed

lemma released_timeout:
  "ba_shape r \<Longrightarrow> timeout_loop now js k r fs = (b, r', fs') \<Longrightarrow> released r fs r' fs'"
proof (induction now js k r fs arbitrary: b r' fs' rule: timeout_loop.induct)
  case (1 now k r fs)
  then show ?case by (simp add: released_refl)
next
  case (2 now j js k r fs)
  obtain r1 fs1 where rel: "phl_release_reorder_frame r j fs = (r1, fs1)" by fastforce
  note r1 = released_frame [OF 2(3) rel]
  let ?r2 = "r1\<lparr>head_seq_num := (head_seq_num r1 + of_nat k) AND SEQ_MASK\<rparr>"
  have r2: "released r fs ?r2 fs1" using r1 by (simp add: released_head)
  then have sh: "ba_shape ?r2" by (simp only: released_def)
  show ?case
  proof (cases "slot (reorder_buf r) j = None")
    case True
    with 2 show ?thesis by simp
  next
    case False
    show ?thesis
    proof (cases "k \<noteq> 0 \<and> sint (reorder_time r ! j + HT_RX_REORDER_BUF_TIMEOUT_MS - now) > 0")
      case True
      with False 2(3,4) show ?thesis by (auto simp: released_refl)
    next
      case late: False
      have "timeout_loop now js 0 ?r2 fs1 = (b, r', fs')"
        using 2(4) unfolding timeout_loop.simps if_not_P [OF False] if_not_P [OF late] rel Let_def
        by simp
      with 2(2) [OF False late rel [symmetric]] sh have "released ?r2 fs1 r' fs'" by simp
      with r2 show ?thesis by (rule released_trans)
    qed
  qed
qed

lemma released_loop:
  "ba_shape r \<Longrightarrow> release_loop i r fs = (r', fs') \<Longrightarrow> released r fs r' fs'"
proof (induction i r fs arbitrary: r' fs' rule: release_loop.induct)
  case (1 i r fs)
  obtain r1 fs1 where rel: "phl_release_reorder_frame r i fs = (r1, fs1)" by fastforce
  note r1 = released_frame [OF 1(2) rel]
  show ?case
  proof (cases "slot (reorder_buf r) i")
    case None
    with 1 show ?thesis by (simp add: release_loop.simps [of i] released_refl)
  next
    case (Some p)
    then have "release_loop (reorder_index r1 (head_seq_num r1)) r1 fs1 = (r', fs')"
      using 1(3) rel by (simp add: release_loop.simps [of i])
    then have "released r1 fs1 r' fs'"
      using 1(1) [OF Some rel [symmetric] refl] r1 by (auto simp: released_def)
    with r1 show ?thesis by (rule released_trans)
  qed
qed

lemma released_release:
  assumes "ba_shape r" "phl_reorder_release now r fs = (r', fs', t)"
  shows "released r fs r' fs'"
  using assms(2) released_timeout [OF assms(1)] released_loop [OF assms(1)]
  by (auto simp: phl_reorder_release_def Let_def split: if_splits prod.splits)

lemma released_frames:
  "ba_shape r \<Longrightarrow> phl_release_reorder_frames r hseq fs = (r', fs') \<Longrightarrow> released r fs r' fs'"
proof (induction r hseq fs arbitrary: r' fs' rule: phl_release_reorder_frames.induct)
  case (1 r hseq fs)
  obtain r1 fs1 where
    rel: "phl_release_reorder_frame r (reorder_index r (head_seq_num r)) fs = (r1, fs1)" by fastforce
  note r1 = released_frame [OF 1(2) rel]
  show ?case
  proof (cases "seq_less (head_seq_num r) hseq \<and> stored_mpdu_num r \<noteq> 0")
    case True
    then have "phl_release_reorder_frames r1 hseq fs1 = (r', fs')"
      using 1(3) rel by (simp add: phl_release_reorder_frames.simps [of r])
    then have "released r1 fs1 r' fs'"
      using 1(1) [OF True rel [symmetric] refl] r1 by (auto simp: released_def)
    with r1 show ?thesis by (rule released_trans)
  next
    case False
    with 1(3) have "r' = r\<lparr>head_seq_num := hseq\<rparr>" "fs' = fs"
      by (auto simp: phl_release_reorder_frames.simps [of r])
    then show ?thesis using 1(2) by (simp add: released_head released_refl)
  qed
qed

text \<open>Storing a frame into an empty slot.\<close>

lemma stored_lt:
  assumes "ba_shape r" "i < win_size r" "slot (reorder_buf r) i = None"
  shows "unat (stored_mpdu_num r + 1) = Suc (occupied (reorder_buf r))"
proof -
  have "Suc (occupied (reorder_buf r)) = occupied ((reorder_buf r)[i := Some p])" for p
    using assms by (simp add: ba_shape_def occupied_fill)
  moreover have "occupied ((reorder_buf r)[i := Some p]) \<le> win_size r" for p
    using assms occupied_le [of "(reorder_buf r)[i := Some p]"] by (simp add: ba_shape_def)
  moreover have "win_size r < 2 ^ LENGTH(16)" by (rule unsigned_less)
  ultimately have "Suc (occupied (reorder_buf r)) < 65536" by (fastforce dest: le_less_trans)
  then show ?thesis using assms(1) by (simp add: ba_shape_def unat_word_ariths)
qed

definition put_frame :: "tid_ampdu_rx \<Rightarrow> nat \<Rightarrow> rx_pkt \<Rightarrow> u32 \<Rightarrow> tid_ampdu_rx" where
  "put_frame r i pkt now =
     r\<lparr>reorder_buf := (reorder_buf r)[i := Some pkt], reorder_time := (reorder_time r)[i := now],
       stored_mpdu_num := stored_mpdu_num r + 1\<rparr>"

lemma put_frame_shape:
  assumes "ba_shape r" "i < win_size r" "slot (reorder_buf r) i = None"
  shows "ba_shape (put_frame r i p now) \<and> held (put_frame r i p now) = add_mset (pkt_id p) (held r)"
  using assms stored_lt [OF assms]
  by (simp add: put_frame_def ba_shape_def held_def occupied_fill occupants_fill)

lemma reorder_index_lt: "ba_shape r \<Longrightarrow> reorder_index r s < win_size r"
  by (simp add: reorder_index_def ba_shape_def unat_mod)

text \<open>
  \<open>phl_manage_sta_reorder_buf\<close> in the steps the proofs take: what the three early branches
  do, the room that is made, and what happens to the frame then.
\<close>

definition wake :: "rx_pkt \<Rightarrow> tid_ampdu_rx \<Rightarrow> tid_ampdu_rx" where
  "wake pkt r = (let r = r\<lparr>ba_started := True\<rparr>
     in if ba_sleep r then r\<lparr>head_seq_num := seq_of pkt, ba_sleep := False\<rparr> else r)"

definition make_room :: "rx_pkt \<Rightarrow> tid_ampdu_rx \<Rightarrow> rx_pkt list \<Rightarrow> tid_ampdu_rx \<times> rx_pkt list" where
  "make_room pkt r fs =
     (if \<not> seq_less (seq_of pkt) (head_seq_num r + buf_size r)
      then phl_release_reorder_frames r (seq_inc (seq_sub (seq_of pkt) (buf_size r))) fs
      else (r, fs))"

definition accept ::
  "u32 \<Rightarrow> rx_pkt \<Rightarrow> tid_ampdu_rx \<Rightarrow> rx_pkt list \<Rightarrow> bool \<times> reorder_result" where
  "accept now pkt r fs =
     (let i = reorder_index r (seq_of pkt) in
      if slot (reorder_buf r) i \<noteq> None
      then (True, \<lparr>rr_session = r, rr_frames = fs, rr_recycled = [pkt], rr_timer = False\<rparr>)
      else if seq_of pkt = head_seq_num r \<and> stored_mpdu_num r = 0
      then (False, \<lparr>rr_session = r\<lparr>head_seq_num := seq_inc (head_seq_num r)\<rparr>, rr_frames = fs,
                    rr_recycled = [], rr_timer = False\<rparr>)
      else (let (r', fs', t) = phl_reorder_release now (put_frame r i pkt now) fs
            in (True, \<lparr>rr_session = r', rr_frames = fs', rr_recycled = [], rr_timer = t\<rparr>)))"

lemma manage_steps:
  "phl_manage_sta_reorder_buf now pkt r fs =
     (if \<not> ba_started r \<and> seq_less (seq_of pkt) (head_seq_num r)
      then (False, \<lparr>rr_session = r, rr_frames = fs, rr_recycled = [], rr_timer = False\<rparr>)
      else if seq_less (seq_of pkt) (head_seq_num (wake pkt r))
      then (True, \<lparr>rr_session = wake pkt r, rr_frames = fs, rr_recycled = [pkt], rr_timer = False\<rparr>)
      else (let (r1, fs1) = make_room pkt (wake pkt r) fs in accept now pkt r1 fs1))"
  by (simp only: phl_manage_sta_reorder_buf_def wake_def make_room_def accept_def put_frame_def
      Let_def case_prod_beta)

lemma wake_keeps [simp]:
  "ba_shape (wake pkt r) = ba_shape r" "held (wake pkt r) = held r"
  "buf_size (wake pkt r) = buf_size r" "reorder_buf (wake pkt r) = reorder_buf r"
  "ba_started (wake pkt r)" "\<not> ba_sleep (wake pkt r)"
  "ba_removed (wake pkt r) = ba_removed r" "stored_mpdu_num (wake pkt r) = stored_mpdu_num r"
  by (auto simp: wake_def ba_shape_def held_def Let_def)

lemma released_room:
  "ba_shape r \<Longrightarrow> make_room pkt r fs = (r', fs') \<Longrightarrow> released r fs r' fs'"
  by (auto simp: make_room_def released_refl intro: released_frames split: if_splits)

text \<open>
  What a call hands on: the frames it appended and, when it returns false, the frame itself,
  which the caller appends to the list.
\<close>

definition handed_on :: "rx_pkt \<Rightarrow> bool \<times> reorder_result \<Rightarrow> rx_pkt list" where
  "handed_on pkt out = rr_frames (snd out) @ (if fst out then [] else [pkt])"

lemma accept_conserves:
  assumes "ba_shape r"
  shows "ba_shape (rr_session (snd (accept now pkt r fs))) \<and>
     held (rr_session (snd (accept now pkt r fs))) + pkt_ids (handed_on pkt (accept now pkt r fs)) +
     pkt_ids (rr_recycled (snd (accept now pkt r fs))) =
     add_mset (pkt_id pkt) (held r + pkt_ids fs) \<and>
     buf_size (rr_session (snd (accept now pkt r fs))) = buf_size r"
proof (cases "slot (reorder_buf r) (reorder_index r (seq_of pkt)) = None")
  case True
  note put = put_frame_shape [OF assms reorder_index_lt [OF assms] True]
  obtain r' fs' t where rel: "phl_reorder_release now
      (put_frame r (reorder_index r (seq_of pkt)) pkt now) fs = (r', fs', t)"
    by (metis prod_cases3)
  from released_release [OF conjunct1 [OF put] rel] put True rel assms show ?thesis
    by (auto simp: accept_def Let_def handed_on_def released_def)
      (auto simp: put_frame_def ba_shape_def held_def)
next
  case False
  with assms show ?thesis by (auto simp: accept_def Let_def handed_on_def)
qed

lemma room_then_accept:
  assumes "ba_shape r" "make_room pkt r fs = (r1, fs1)"
  shows "let out = accept now pkt r1 fs1 in
     ba_shape (rr_session (snd out)) \<and>
     held (rr_session (snd out)) + pkt_ids (handed_on pkt out) + pkt_ids (rr_recycled (snd out)) =
     add_mset (pkt_id pkt) (held r + pkt_ids fs) \<and>
     buf_size (rr_session (snd out)) = buf_size r"
proof -
  have rel: "released r fs r1 fs1" using assms by (rule released_room)
  then have sh: "ba_shape r1" by (simp add: released_def)
  from rel have "held r + pkt_ids fs = held r1 + pkt_ids fs1" "buf_size r1 = buf_size r"
    by (auto simp: released_def ac_simps)
  with accept_conserves [OF sh, of now pkt fs1] show ?thesis by (simp add: Let_def)
qed

lemma manage_conserves:
  assumes "ba_shape r"
  shows "let out = phl_manage_sta_reorder_buf now pkt r fs in
     ba_shape (rr_session (snd out)) \<and>
     held (rr_session (snd out)) + pkt_ids (handed_on pkt out) + pkt_ids (rr_recycled (snd out)) =
     add_mset (pkt_id pkt) (held r + pkt_ids fs) \<and>
     buf_size (rr_session (snd out)) = buf_size r"
proof -
  obtain r1 fs1 where room: "make_room pkt (wake pkt r) fs = (r1, fs1)" by fastforce
  have "ba_shape (wake pkt r)" using assms by simp
  from room_then_accept [OF this room, of now] assms room show ?thesis
    by (auto simp: manage_steps handed_on_def Let_def)
qed

subsection \<open>The window\<close>

definition ba_window :: "nat \<Rightarrow> tid_ampdu_rx \<Rightarrow> bool" where
  "ba_window H r \<longleftrightarrow>
     ba_shape r \<and> 2 \<le> win_size r \<and> win_size r \<le> 1024 \<and> win_size r dvd 4096 \<and>
     unat (head_seq_num r) = H mod 4096 \<and>
     (\<forall>d < win_size r. \<forall>p. slot (reorder_buf r) ((H + d) mod win_size r) = Some p \<longrightarrow>
        unat (seq_of p) = (H + d) mod 4096)"

text \<open>\<open>delivers H H' fs\<close>: the frames have strictly increasing positions from \<open>H\<close> to below \<open>H'\<close>.\<close>

definition delivers :: "nat \<Rightarrow> nat \<Rightarrow> rx_pkt list \<Rightarrow> bool" where
  "delivers H H' fs \<longleftrightarrow>
     H \<le> H' \<and>
     (\<exists>ns. sorted_wrt (<) ns \<and> (\<forall>k \<in> set ns. H \<le> k \<and> k < H') \<and>
           map (\<lambda>p. unat (seq_of p)) fs = map (\<lambda>k. k mod 4096) ns)"

lemma delivers_nil: "H \<le> H' \<Longrightarrow> delivers H H' []"
  by (auto simp: delivers_def intro: exI [of _ "[]"])

lemma delivers_one: "H \<le> k \<Longrightarrow> k < H' \<Longrightarrow> unat (seq_of p) = k mod 4096 \<Longrightarrow> delivers H H' [p]"
  by (auto simp: delivers_def intro!: exI [of _ "[k]"])

lemma delivers_append:
  assumes "delivers H H1 fs" "delivers H1 H2 gs"
  shows "delivers H H2 (fs @ gs)"
proof -
  from assms obtain ns ms where
    ns: "sorted_wrt (<) ns" "\<forall>k \<in> set ns. H \<le> k \<and> k < H1"
      "map (\<lambda>p. unat (seq_of p)) fs = map (\<lambda>k. k mod 4096) ns" and
    ms: "sorted_wrt (<) ms" "\<forall>k \<in> set ms. H1 \<le> k \<and> k < H2"
      "map (\<lambda>p. unat (seq_of p)) gs = map (\<lambda>k. k mod 4096) ms" and le: "H \<le> H1" "H1 \<le> H2"
    unfolding delivers_def by blast
  have "sorted_wrt (<) (ns @ ms)" "\<forall>k \<in> set (ns @ ms). H \<le> k \<and> k < H2"
    using ns(1,2) ms(1,2) le by (fastforce simp: sorted_wrt_append)+
  with ns(3) ms(3) le show ?thesis unfolding delivers_def
    by (intro conjI exI [of _ "ns @ ms"]) auto
qed

lemma delivers_le: "delivers H H' fs \<Longrightarrow> H \<le> H'"
  by (simp add: delivers_def)

text \<open>The step from one window to a later one.\<close>

definition advances ::
  "nat \<Rightarrow> tid_ampdu_rx \<Rightarrow> rx_pkt list \<Rightarrow> nat \<Rightarrow> tid_ampdu_rx \<Rightarrow> rx_pkt list \<Rightarrow> bool" where
  "advances H r fs H' r' fs' \<longleftrightarrow> ba_window H' r' \<and> (\<exists>out. fs' = fs @ out \<and> delivers H H' out)"

lemma advances_refl: "ba_window H r \<Longrightarrow> advances H r fs H r fs"
  by (auto simp: advances_def delivers_nil)

lemma advances_trans:
  "advances H r fs H1 r1 fs1 \<Longrightarrow> advances H1 r1 fs1 H2 r2 fs2 \<Longrightarrow> advances H r fs H2 r2 fs2"
  unfolding advances_def by (elim conjE exE) (auto intro: delivers_append)

lemma advances_window: "advances H r fs H' r' fs' \<Longrightarrow> ba_window H' r'"
  by (simp add: advances_def)

lemma mod_pos_inj:
  assumes "d < n" "e < n" "(H + d) mod n = (H + e) mod (n :: nat)"
  shows "d = e"
proof -
  have "d \<le> e \<Longrightarrow> e < n \<Longrightarrow> (H + d) mod n = (H + e) mod n \<Longrightarrow> d = e" for d e
  proof -
    assume de: "d \<le> e" "e < n" "(H + d) mod n = (H + e) mod n"
    then have "n dvd (H + e) - (H + d)" by (metis mod_eq_dvd_iff_nat add_le_mono1 add.commute)
    then have "n dvd e - d" by simp
    moreover have "e - d < n" using de by simp
    ultimately have "e - d = 0" by (meson nat_dvd_not_less neq0_conv)
    with de show "d = e" by simp
  qed
  from this [of d e] this [of e d] assms show ?thesis by (cases "d \<le> e") auto
qed

lemma window_index:
  "ba_window H r \<Longrightarrow> unat s = (H + d) mod 4096 \<Longrightarrow> reorder_index r s = (H + d) mod win_size r"
  by (simp add: ba_window_def reorder_index_def unat_mod mod_mod_cancel)

lemma window_head: "ba_window H r \<Longrightarrow> reorder_index r (head_seq_num r) = H mod win_size r"
  using window_index [of H r "head_seq_num r" 0] by (simp add: ba_window_def)

lemma window_shift:
  assumes "ba_window H r" "ba_shape r'" "buf_size r' = buf_size r" "e \<le> win_size r"
    and "\<And>j p. slot (reorder_buf r') j = Some p \<Longrightarrow> slot (reorder_buf r) j = Some p"
    and "\<And>d. d < e \<Longrightarrow> slot (reorder_buf r') ((H + d) mod win_size r) = None"
    and "unat (head_seq_num r') = (H + e) mod 4096"
  shows "ba_window (H + e) r'"
proof -
  have "unat (seq_of p) = (H + e + d) mod 4096"
    if d: "d < win_size r" and p: "slot (reorder_buf r') ((H + e + d) mod win_size r) = Some p" for d p
  proof (cases "e + d < win_size r")
    case True
    with p assms(1,5) show ?thesis by (auto simp: ba_window_def add.assoc)
  next
    case False
    then have "H + e + d = (H + (e + d - win_size r)) + win_size r" by simp
    then have "(H + e + d) mod win_size r = (H + (e + d - win_size r)) mod win_size r"
      by (metis mod_add_self2)
    moreover have "e + d - win_size r < e" using False d by simp
    ultimately show ?thesis using p assms(6) by fastforce
  qed
  with assms show ?thesis by (simp add: ba_window_def)
qed

lemma release_at:
  assumes win: "ba_window H r" and k: "k < win_size r"
    and empty: "\<And>d. d < k \<Longrightarrow> slot (reorder_buf r) ((H + d) mod win_size r) = None"
    and rel: "phl_release_reorder_frame r ((H + k) mod win_size r) fs = (r1, fs1)"
    and h: "unat h = (H + k + 1) mod 4096"
  shows "advances H r fs (H + k + 1) (r1\<lparr>head_seq_num := h\<rparr>) fs1"
proof -
  let ?i = "(H + k) mod win_size r"
  have sh: "ba_shape r" using win by (simp add: ba_window_def)
  have r1: "released r fs (r1\<lparr>head_seq_num := h\<rparr>) fs1"
    using released_frame [OF sh rel] by (simp add: released_head)
  have sub: "slot (reorder_buf r1) j = (if j = ?i then None else slot (reorder_buf r) j)" for j
    using rel by (auto simp: phl_release_reorder_frame_def slot_update slot_def split: option.splits if_splits)
  have "ba_window (H + (k + 1)) (r1\<lparr>head_seq_num := h\<rparr>)"
    by (rule window_shift [OF win]) (use r1 k empty h in \<open>auto simp: released_def sub less_Suc_eq split: if_splits\<close>)
  moreover have "\<exists>out. fs1 = fs @ out \<and> delivers H (H + k + 1) out"
  proof (cases "slot (reorder_buf r) ?i")
    case None
    with rel show ?thesis by (auto simp: phl_release_reorder_frame_def intro: delivers_nil)
  next
    case (Some p)
    with win k have "unat (seq_of p) = (H + k) mod 4096" by (auto simp: ba_window_def)
    with Some rel show ?thesis
      by (auto simp: phl_release_reorder_frame_def intro!: delivers_one [of H "H + k"])
  qed
  ultimately show ?thesis by (simp add: advances_def)
qed

text \<open>
  \<open>room_to B H r\<close>: neither the head nor a stored frame is past position \<open>B\<close>. Releasing stored frames
  keeps every such bound, so it moves the head by one window at most.
\<close>

definition room_to :: "nat \<Rightarrow> nat \<Rightarrow> tid_ampdu_rx \<Rightarrow> bool" where
  "room_to B H r \<longleftrightarrow> H \<le> B \<and>
     (\<forall>d < win_size r. slot (reorder_buf r) ((H + d) mod win_size r) \<noteq> None \<longrightarrow> H + d < B)"

definition within :: "nat \<Rightarrow> tid_ampdu_rx \<Rightarrow> nat \<Rightarrow> tid_ampdu_rx \<Rightarrow> bool" where
  "within H r H' r' \<longleftrightarrow> (\<forall>B. room_to B H r \<longrightarrow> room_to B H' r')"

lemma within_refl: "within H r H r"
  by (simp add: within_def)

lemma within_trans: "within H r H1 r1 \<Longrightarrow> within H1 r1 H2 r2 \<Longrightarrow> within H r H2 r2"
  by (simp add: within_def)

lemma within_window: "within H r H' r' \<Longrightarrow> H' \<le> H + win_size r"
  unfolding within_def room_to_def by (metis le_add1 nat_add_left_cancel_less)

lemma release_within:
  assumes win: "ba_window H r" and k: "k < win_size r"
    and empty: "\<And>d. d < k \<Longrightarrow> slot (reorder_buf r) ((H + d) mod win_size r) = None"
    and full: "slot (reorder_buf r) ((H + k) mod win_size r) \<noteq> None"
    and rel: "phl_release_reorder_frame r ((H + k) mod win_size r) fs = (r1, fs1)"
  shows "within H r (H + k + 1) (r1\<lparr>head_seq_num := h\<rparr>)"
  unfolding within_def
proof (intro allI impI)
  fix B
  assume B: "room_to B H r"
  let ?n = "win_size r"
  have sh: "ba_shape r" using win by (simp add: ba_window_def)
  have n: "win_size r1 = ?n" using released_frame [OF sh rel] by (simp add: released_def)
  have sub: "slot (reorder_buf r1) j = (if j = (H + k) mod ?n then None else slot (reorder_buf r) j)" for j
    using rel by (auto simp: phl_release_reorder_frame_def slot_update slot_def split: option.splits if_splits)
  have "H + k + 1 + d < B" if d: "d < ?n" and s: "slot (reorder_buf r1) ((H + k + 1 + d) mod ?n) \<noteq> None" for d
  proof (cases "k + 1 + d < ?n")
    case True
    with s B sub [of "(H + k + 1 + d) mod ?n"] show ?thesis by (auto simp: room_to_def add.assoc split: if_splits)
  next
    case False
    then have "H + k + 1 + d = (H + (k + 1 + d - ?n)) + ?n" by simp
    then have "(H + k + 1 + d) mod ?n = (H + (k + 1 + d - ?n)) mod ?n" by (metis mod_add_self2)
    moreover have "slot (reorder_buf r1) ((H + (k + 1 + d - ?n)) mod ?n) = None"
    proof (cases "k + 1 + d - ?n = k")
      case True
      then show ?thesis by (simp add: sub)
    next
      case False
      then show ?thesis using empty [of "k + 1 + d - ?n"] d by (simp add: sub)
    qed
    ultimately show ?thesis using s by simp
  qed
  moreover have "H + k + 1 \<le> B" using B full k by (auto simp: room_to_def)
  ultimately show "room_to B (H + k + 1) (r1\<lparr>head_seq_num := h\<rparr>)" by (simp add: room_to_def n)
qed

lemma release_head:
  assumes "ba_window H r" "phl_release_reorder_frame r (H mod win_size r) fs = (r1, fs1)"
  shows "advances H r fs (H + 1) r1 fs1"
proof -
  have h: "head_seq_num r1 = seq_inc (head_seq_num r)" using head_release assms(2) by (metis fst_conv)
  have "unat (head_seq_num r1) = (H + 1) mod 4096"
    using assms(1) by (simp add: h ba_window_def unat_seq_inc mod_simps)
  with release_at [OF assms(1), of 0 fs r1 fs1 "head_seq_num r1"] assms show ?thesis
    by (auto simp: ba_window_def)
qed

lemma window_loop:
  "ba_window H r \<Longrightarrow> release_loop (H mod win_size r) r fs = (r', fs') \<Longrightarrow>
   \<exists>H'. advances H r fs H' r' fs' \<and> within H r H' r' \<and> slot (reorder_buf r') (H' mod win_size r') = None"
proof (induction "H mod win_size r" r fs arbitrary: H r' fs' rule: release_loop.induct)
  case (1 r fs)
  obtain r1 fs1 where rel: "phl_release_reorder_frame r (H mod win_size r) fs = (r1, fs1)" by fastforce
  note adv = release_head [OF 1(2) rel]
  note win1 = advances_window [OF adv]
  show ?case
  proof (cases "slot (reorder_buf r) (H mod win_size r)")
    case None
    with 1 show ?thesis
      by (auto simp: release_loop.simps [of "H mod win_size r"] intro!: exI [of _ H] advances_refl within_refl)
  next
    case (Some p)
    have "release_loop ((H + 1) mod win_size r1) r1 fs1 = (r', fs')"
      using 1(3) Some rel window_head [OF win1]
      by (simp add: release_loop.simps [of "H mod win_size r"])
    with 1(1) [OF Some rel [symmetric] refl window_head [OF win1] win1] window_head [OF win1]
    obtain H' where "advances (H + 1) r1 fs1 H' r' fs'" "within (H + 1) r1 H' r'"
        "slot (reorder_buf r') (H' mod win_size r') = None" by auto
    moreover have "within H r (H + 1) r1"
      using release_within [OF 1(2), of 0 fs r1 fs1 "head_seq_num r1"] 1(2) Some rel by (auto simp: ba_window_def)
    ultimately show ?thesis by (meson adv advances_trans within_trans)
  qed
qed

lemma head_skip:
  assumes "unat h = H mod 4096"
  shows "unat ((seq_inc h + of_nat k) AND SEQ_MASK) = (H + k + 1) mod 4096"
proof -
  have c: "(x + k mod 65536) mod 4096 = (x + k) mod (4096 :: nat)" for x
  proof -
    have "k mod 65536 mod 4096 = k mod 4096" by (rule mod_mod_cancel) simp
    then show ?thesis by (metis mod_add_right_eq)
  qed
  have "unat ((seq_inc h + of_nat k) AND SEQ_MASK) = (unat (seq_inc h) + k mod 65536) mod 4096"
    by (simp add: unat_and_mask unat_word_ariths unat_of_nat mod_mod_cancel)
  also have "\<dots> = ((H + 1) mod 4096 + k) mod 4096"
    unfolding c by (simp add: unat_seq_inc assms mod_simps)
  also have "\<dots> = (H + k + 1) mod 4096" by (simp add: mod_simps)
  finally show ?thesis .
qed

lemma window_timeout:
  "ba_window H r \<Longrightarrow> k + m \<le> win_size r \<Longrightarrow>
   (\<And>d. d < k \<Longrightarrow> slot (reorder_buf r) ((H + d) mod win_size r) = None) \<Longrightarrow>
   timeout_loop now (map (\<lambda>i. (H + k + i) mod win_size r) [0..<m]) k r fs = (b, r', fs') \<Longrightarrow>
   \<exists>H'. advances H r fs H' r' fs' \<and> within H r H' r'"
proof (induction m arbitrary: H k r fs)
  case 0
  then show ?case by (auto intro!: exI [of _ H] advances_refl within_refl)
next
  case (Suc m)
  let ?j = "(H + k) mod win_size r"
  have js: "map (\<lambda>i. (H + k + i) mod win_size r) [0..<Suc m] =
      ?j # map (\<lambda>i. (H + Suc k + i) mod win_size r) [0..<m]"
    by (simp add: upt_conv_Cons map_Suc_upt [symmetric] del: upt_Suc)
  obtain r1 fs1 where rel: "phl_release_reorder_frame r ?j fs = (r1, fs1)" by fastforce
  let ?r2 = "r1\<lparr>head_seq_num := (head_seq_num r1 + of_nat k) AND SEQ_MASK\<rparr>"
  show ?case
  proof (cases "slot (reorder_buf r) ?j")
    case None
    with Suc.prems(4) have "timeout_loop now (map (\<lambda>i. (H + Suc k + i) mod win_size r) [0..<m])
        (Suc k) r fs = (b, r', fs')" by (simp add: js del: upt_Suc)
    from Suc.IH [OF Suc.prems(1) _ _ this] Suc.prems(2,3) None show ?thesis
      by (auto simp: less_Suc_eq)
  next
    case (Some p)
    have h: "head_seq_num r1 = seq_inc (head_seq_num r)" using head_release rel by (metis fst_conv)
    have "unat ((head_seq_num r1 + of_nat k) AND SEQ_MASK) = (H + k + 1) mod 4096"
      using Suc.prems(1)
      by (simp add: h head_skip ba_window_def)
    from release_at [OF Suc.prems(1) _ Suc.prems(3) rel this] Suc.prems(2)
    have adv: "advances H r fs (H + k + 1) ?r2 fs1" by simp
    note win2 = advances_window [OF this]
    have sh: "ba_shape r" using Suc.prems(1) by (simp add: ba_window_def)
    have n: "win_size ?r2 = win_size r" using released_frame [OF sh rel] by (simp add: released_def)
    show ?thesis
    proof (cases "k \<noteq> 0 \<and> sint (reorder_time r ! ?j + HT_RX_REORDER_BUF_TIMEOUT_MS - now) > 0")
      case True
      with Some Suc.prems show ?thesis
        by (auto simp: js simp del: upt_Suc intro!: exI [of _ H] advances_refl within_refl)
    next
      case False
      have ne: "slot (reorder_buf r) ?j \<noteq> None" using Some by simp
      have "timeout_loop now (map (\<lambda>i. (H + k + 1 + 0 + i) mod win_size ?r2) [0..<m]) 0 ?r2 fs1
          = (b, r', fs')"
        using Suc.prems(4)
        unfolding js timeout_loop.simps if_not_P [OF ne] if_not_P [OF False] rel Let_def n by simp
      from Suc.IH [OF win2 _ _ this] n Suc.prems(2) obtain H' where
        "advances (H + k + 1) ?r2 fs1 H' r' fs'" "within (H + k + 1) ?r2 H' r'" by auto
      moreover have "within H r (H + k + 1) ?r2"
        using release_within [OF Suc.prems(1) _ Suc.prems(3) ne rel] Suc.prems(2) by simp
      ultimately show ?thesis using adv by (blast intro: advances_trans within_trans)
    qed
  qed
qed

lemma window_slots_after:
  "ba_window H r \<Longrightarrow> slots_after r (H mod win_size r) =
     map (\<lambda>i. (H + 1 + i) mod win_size r) [0..<win_size r - 1]"
  by (cases "win_size r") (auto simp: slots_after_def map_Suc_upt [symmetric] mod_simps ba_window_def
      simp del: upt_Suc)

lemma window_counter:
  "ba_window H r \<Longrightarrow> stored_mpdu_num r = 0 \<longleftrightarrow> (\<forall>i. slot (reorder_buf r) i = None)"
  by (simp add: ba_window_def ba_shape_def flip: occupied_0_slot unat_eq_zero)

text \<open>After a release either a frame was put off to the timer or the head slot is empty.\<close>

lemma window_release:
  assumes "ba_window H r" "phl_reorder_release now r fs = (r', fs', t)"
  shows "\<exists>H'. advances H r fs H' r' fs' \<and> H' \<le> H + win_size r"
proof (cases "slot (reorder_buf r) (H mod win_size r) = None \<and> stored_mpdu_num r \<noteq> 0")
  case True
  obtain b r2 fs2 where l: "timeout_loop now (map (\<lambda>i. (H + 1 + i) mod win_size r)
      [0..<win_size r - 1]) 1 r fs = (b, r2, fs2)"
    by (metis prod_cases3)
  with True assms have "r2 = r'" "fs2 = fs'"
    by (auto simp: phl_reorder_release_def window_head window_slots_after Let_def)
  moreover have "1 + (win_size r - 1) \<le> win_size r" using assms(1) by (simp add: ba_window_def)
  ultimately show ?thesis
    using window_timeout [OF assms(1) _ _ l] True by (auto dest: within_window)
next
  case False
  with assms have "release_loop (H mod win_size r) r fs = (r', fs')"
    by (auto simp: phl_reorder_release_def window_head Let_def split: prod.splits)
  from window_loop [OF assms(1) this] show ?thesis by (blast dest: within_window)
qed

lemma pos_diff: "(int ((H + D) mod 4096) - int (H mod 4096)) mod 4096 = int D mod 4096"
  by (simp add: zmod_int mod_simps)

lemma uint_diff_add:
  "(uint a - uint (h + b)) mod 4096 = ((uint a - uint h) mod 4096 - uint (b :: u16)) mod 4096"
proof -
  have "uint (h + b) mod 4096 = (uint h + uint b) mod 4096"
    by (simp add: uint_word_ariths mod_mod_cancel)
  then have "(uint a - uint (h + b)) mod 4096 = (uint a - (uint h + uint b)) mod 4096"
    by (metis mod_diff_right_eq)
  then show ?thesis by (simp only: mod_diff_left_eq diff_diff_eq)
qed

lemma seq_dist_pos:
  assumes "unat a = H mod 4096" "unat b = (H + D) mod 4096" "D < 4096"
  shows "seq_dist a b = D"
proof -
  have "int (seq_dist a b) = (int ((H + D) mod 4096) - int (H mod 4096)) mod 4096"
    using assms(1,2) by (simp add: int_seq_dist uint_nat)
  also have "\<dots> = int D mod 4096" by (rule pos_diff)
  finally show ?thesis using assms(3) by simp
qed

lemma window_frames:
  "ba_window H r \<Longrightarrow> unat hseq = (H + D) mod 4096 \<Longrightarrow> D < 2048 \<Longrightarrow>
   phl_release_reorder_frames r hseq fs = (r', fs') \<Longrightarrow> advances H r fs (H + D) r' fs'"
proof (induction D arbitrary: H r fs)
  case 0
  then have "seq_dist (head_seq_num r) hseq = 0" by (intro seq_dist_pos) (auto simp: ba_window_def)
  moreover have "hseq = head_seq_num r" using 0 by (simp add: ba_window_def word_unat_eq_iff)
  ultimately show ?case using 0
    by (auto simp: phl_release_reorder_frames.simps [of r] seq_less_iff intro: advances_refl)
next
  case (Suc D)
  have "seq_dist (head_seq_num r) hseq = Suc D"
    using Suc.prems by (intro seq_dist_pos) (auto simp: ba_window_def)
  then have less: "seq_less (head_seq_num r) hseq" using Suc.prems by (simp add: seq_less_iff)
  show ?case
  proof (cases "stored_mpdu_num r = 0")
    case True
    then have none: "slot (reorder_buf r) i = None" for i
      using window_counter [OF Suc.prems(1)] by blast
    have "r' = r\<lparr>head_seq_num := hseq\<rparr>" "fs' = fs"
      using True Suc.prems(4) by (auto simp: phl_release_reorder_frames.simps [of r])
    moreover have "ba_window (H + Suc D) (r\<lparr>head_seq_num := hseq\<rparr>)"
      using Suc.prems(1,2) none by (simp add: ba_window_def ba_shape_def)
    ultimately show ?thesis by (auto simp: advances_def intro: delivers_nil)
  next
    case False
    obtain r1 fs1 where rel: "phl_release_reorder_frame r (H mod win_size r) fs = (r1, fs1)" by fastforce
    note adv = release_head [OF Suc.prems(1) rel]
    have "phl_release_reorder_frames r1 hseq fs1 = (r', fs')"
      using Suc.prems(4) False less rel window_head [OF Suc.prems(1)]
      by (simp add: phl_release_reorder_frames.simps [of r])
    with Suc.IH [OF advances_window [OF adv]] Suc.prems(2,3)
    have "advances (H + 1) r1 fs1 (H + 1 + D) r' fs'" by simp
    with adv show ?thesis by (auto dest: advances_trans)
  qed
qed

lemma window_put:
  assumes win: "ba_window H r" and d: "d < win_size r" "unat (seq_of p) = (H + d) mod 4096"
    and e: "slot (reorder_buf r) ((H + d) mod win_size r) = None"
  shows "ba_window H (put_frame r ((H + d) mod win_size r) p now)"
proof -
  have sh: "ba_shape r" and lt: "(H + d) mod win_size r < win_size r"
    using win by (auto simp: ba_window_def)
  have "unat (seq_of q) = (H + k) mod 4096"
    if "k < win_size r" "slot ((reorder_buf r)[(H + d) mod win_size r := Some p]) ((H + k) mod win_size r) = Some q"
    for k q
    using that win d mod_pos_inj [of k "win_size r" d H]
    by (auto simp: slot_update ba_window_def split: if_splits)
  moreover have "buf_size (put_frame r i p now) = buf_size r"
    "head_seq_num (put_frame r i p now) = head_seq_num r"
    "reorder_buf (put_frame r i p now) = (reorder_buf r)[i := Some p]" for i
    by (simp_all add: put_frame_def)
  ultimately show ?thesis
    using win put_frame_shape [OF sh lt e] by (simp add: ba_window_def)
qed

definition out_window ::
  "nat \<Rightarrow> nat \<Rightarrow> rx_pkt list \<Rightarrow> rx_pkt \<Rightarrow> bool \<times> reorder_result \<Rightarrow> bool" where
  "out_window B H fs pkt out \<longleftrightarrow>
     (\<exists>H' ds. H' \<le> B \<and> ba_window H' (rr_session (snd out)) \<and> handed_on pkt out = fs @ ds \<and> delivers H H' ds)"

lemma window_accept:
  assumes win: "ba_window H r" and d: "d < win_size r" "unat (seq_of p) = (H + d) mod 4096"
  shows "out_window (H + win_size r) H fs p (accept now p r fs)"
proof -
  note idx = window_index [OF win d(2)]
  consider (dup) "slot (reorder_buf r) ((H + d) mod win_size r) \<noteq> None"
    | (direct) "slot (reorder_buf r) ((H + d) mod win_size r) = None"
        "seq_of p = head_seq_num r" "stored_mpdu_num r = 0"
    | (put) "slot (reorder_buf r) ((H + d) mod win_size r) = None"
        "\<not> (seq_of p = head_seq_num r \<and> stored_mpdu_num r = 0)"
    by blast
  then show ?thesis
  proof cases
    case dup
    with win show ?thesis
      by (auto simp: accept_def idx Let_def out_window_def handed_on_def
          intro!: exI [of _ H] delivers_nil)
  next
    case direct
    have none: "slot (reorder_buf r) i = None" for i
      using window_counter [OF win] direct by blast
    have "ba_window (H + 1) (r\<lparr>head_seq_num := seq_inc (head_seq_num r)\<rparr>)"
      using win none by (simp add: ba_window_def ba_shape_def unat_seq_inc mod_simps)
    moreover have "delivers H (H + 1) [p]"
      using direct win by (intro delivers_one [of H H]) (auto simp: ba_window_def)
    moreover have "H + 1 \<le> H + win_size r" using win by (simp add: ba_window_def)
    ultimately show ?thesis using direct
      by (auto simp: none accept_def idx Let_def out_window_def handed_on_def intro!: exI [of _ "H + 1"])
  next
    case put
    obtain r' fs' t where rel: "phl_reorder_release now
        (put_frame r ((H + d) mod win_size r) p now) fs = (r', fs', t)" by (metis prod_cases3)
    have "win_size (put_frame r ((H + d) mod win_size r) p now) = win_size r" by (simp add: put_frame_def)
    with window_release [OF window_put [OF win d put(1)] rel] put rel show ?thesis
      by (auto simp: accept_def idx Let_def out_window_def handed_on_def advances_def)
  qed
qed

text \<open>A frame that is not older than the head has a position at most 2048 past it.\<close>

lemma window_position:
  assumes "ba_window H r" "unat s < 4096" "\<not> seq_less s (head_seq_num r)"
  obtains D where "D \<le> 2048" "unat s = (H + D) mod 4096"
proof
  have "seq_dist (head_seq_num r) s \<le> 2048 \<longleftrightarrow> \<not> seq_less s (head_seq_num r)"
    unfolding seq_less_dist int_seq_dist [symmetric] by linarith
  with assms(3) show "seq_dist (head_seq_num r) s \<le> 2048" by blast
  have "(uint (head_seq_num r) + int (seq_dist (head_seq_num r) s)) mod 4096 = uint s mod 4096"
    unfolding int_seq_dist mod_add_right_eq by simp
  then have "int (unat s) mod 4096 =
      (int (unat (head_seq_num r)) + int (seq_dist (head_seq_num r) s)) mod 4096"
    by (simp only: uint_nat)
  then have "unat s mod 4096 = (unat (head_seq_num r) + seq_dist (head_seq_num r) s) mod 4096"
    by (simp only: of_nat_mod of_nat_add of_nat_numeral flip: of_nat_eq_iff [where 'a = int])
  then have "unat s = (unat (head_seq_num r) + seq_dist (head_seq_num r) s) mod 4096"
    using assms(2) by simp
  moreover have "unat (head_seq_num r) = H mod 4096" using assms(1) by (simp add: ba_window_def)
  ultimately show "unat s = (H + seq_dist (head_seq_num r) s) mod 4096"
    by (simp only: mod_add_left_eq)
qed

lemma window_cmp:
  assumes "D \<le> 2048" "n \<le> 1024"
  shows "(int D - int n) mod 4096 > 2048 \<longleftrightarrow> D < n"
proof (cases "D < n")
  case True
  then have "(int D - int n) mod 4096 = int D - int n + 4096"
    using assms by (subst mod_add_self2 [symmetric], subst mod_pos_pos_trivial) auto
  with True assms show ?thesis by simp
next
  case False
  then have "(int D - int n) mod 4096 = int D - int n"
    using assms by (intro mod_pos_pos_trivial) auto
  with False assms show ?thesis by simp
qed

lemma room_head:
  assumes "unat s = (H + D) mod 4096" "unat n \<le> D"
  shows "unat (seq_inc (seq_sub s n)) = (H + (D - unat n + 1)) mod 4096"
proof -
  have "uint (seq_inc (seq_sub s n)) = (uint s + (1 - uint n)) mod 4096"
    unfolding uint_seq_inc uint_seq_sub mod_add_left_eq by (simp add: algebra_simps)
  then have "int (unat (seq_inc (seq_sub s n))) = (int ((H + D) mod 4096) + (1 - int (unat n))) mod 4096"
    unfolding uint_nat assms(1) .
  also have "\<dots> = (int (H + D) + (1 - int (unat n))) mod 4096"
    unfolding of_nat_mod of_nat_numeral by (rule mod_add_left_eq)
  also have "int (H + D) + (1 - int (unat n)) = int (H + (D - unat n + 1))"
    using assms(2) by linarith
  finally have "int (unat (seq_inc (seq_sub s n))) = int ((H + (D - unat n + 1)) mod 4096)"
    by (simp only: of_nat_mod of_nat_numeral)
  then show ?thesis by (simp only: of_nat_eq_iff)
qed

lemma window_room:
  assumes win: "ba_window H r" and D: "D \<le> 2048" "unat (seq_of p) = (H + D) mod 4096"
    and room: "make_room p r fs = (r1, fs1)"
  shows "\<exists>H1 d. advances H r fs H1 r1 fs1 \<and> d < win_size r1 \<and> unat (seq_of p) = (H1 + d) mod 4096 \<and>
    H1 + win_size r1 \<le> H + 2049"
proof -
  let ?n = "win_size r"
  have n: "2 \<le> ?n" "?n \<le> 1024" and h: "unat (head_seq_num r) = H mod 4096"
    using win by (auto simp: ba_window_def)
  have "(uint (seq_of p) - uint (head_seq_num r)) mod 4096 = int D mod 4096"
    unfolding uint_nat D(2) h by (rule pos_diff)
  then have "(uint (seq_of p) - uint (head_seq_num r + buf_size r)) mod 4096 =
      (int D - int ?n) mod 4096"
    unfolding uint_diff_add uint_nat [of "buf_size r"] by (simp only: mod_diff_left_eq)
  then have "seq_less (seq_of p) (head_seq_num r + buf_size r) \<longleftrightarrow>
      (int D - int ?n) mod 4096 > 2048" by (simp only: seq_less_dist)
  also have "\<dots> \<longleftrightarrow> D < ?n" using D(1) n(2) by (rule window_cmp)
  finally have less: "seq_less (seq_of p) (head_seq_num r + buf_size r) \<longleftrightarrow> D < ?n" .
  show ?thesis
  proof (cases "D < ?n")
    case True
    with less room win D n show ?thesis
      by (intro exI [of _ H] exI [of _ D]) (auto simp: make_room_def intro: advances_refl)
  next
    case False
    let ?h = "seq_inc (seq_sub (seq_of p) (buf_size r))"
    have E: "D = (D - ?n + 1) + (?n - 1)" using False n by simp
    have h': "unat ?h = (H + (D - ?n + 1)) mod 4096"
      using D(2) False by (intro room_head) auto
    have "D - ?n + 1 < 2048" using D n by simp
    moreover have "phl_release_reorder_frames r ?h fs = (r1, fs1)"
      using room less False by (simp add: make_room_def)
    ultimately have adv: "advances H r fs (H + (D - ?n + 1)) r1 fs1"
      using window_frames [OF win h'] by blast
    have sh: "ba_shape r" using win by (simp add: ba_window_def)
    have "win_size r1 = ?n" using released_room [OF sh room] by (simp add: released_def)
    moreover have "H + (D - ?n + 1) + (?n - 1) = H + D" using E by simp
    ultimately show ?thesis using adv D n
      by (intro exI [of _ "H + (D - ?n + 1)"] exI [of _ "?n - 1"]) auto
  qed
qed

lemma window_manage:
  assumes win: "ba_window H r" and s: "ba_started r" "\<not> ba_sleep r" and p: "unat (seq_of p) < 4096"
  shows "out_window (H + 2049) H fs p (phl_manage_sta_reorder_buf now p r fs)"
proof -
  have w: "wake p r = r" using s by (simp add: wake_def Let_def)
  show ?thesis
  proof (cases "seq_less (seq_of p) (head_seq_num r)")
    case True
    with win s show ?thesis
      by (auto simp: manage_steps w out_window_def handed_on_def intro!: exI [of _ H] delivers_nil)
  next
    case False
    from window_position [OF win p False] obtain D where
      D: "D \<le> 2048" "unat (seq_of p) = (H + D) mod 4096" .
    obtain r1 fs1 where room: "make_room p r fs = (r1, fs1)" by fastforce
    from window_room [OF win D room] obtain H1 d where
      adv: "advances H r fs H1 r1 fs1" and d: "d < win_size r1" "unat (seq_of p) = (H1 + d) mod 4096"
      and le: "H1 + win_size r1 \<le> H + 2049" by blast
    from window_accept [OF advances_window [OF adv] d, of fs1 now] obtain H' ds where
      H': "H' \<le> H + 2049" "ba_window H' (rr_session (snd (accept now p r1 fs1)))"
        "handed_on p (accept now p r1 fs1) = fs1 @ ds" "delivers H1 H' ds"
      unfolding out_window_def by (meson le le_trans)
    with adv have "out_window (H + 2049) H fs p (accept now p r1 fs1)"
      unfolding out_window_def advances_def by (metis append.assoc delivers_append)
    with False s room show ?thesis by (simp add: manage_steps w)
  qed
qed

subsection \<open>Runs of a session\<close>

lemma accept_flags:
  assumes "ba_shape r"
  shows "ba_started (rr_session (snd (accept now p r fs))) = ba_started r \<and>
         ba_sleep (rr_session (snd (accept now p r fs))) = ba_sleep r"
proof (cases "slot (reorder_buf r) (reorder_index r (seq_of p)) = None")
  case True
  note put = put_frame_shape [OF assms reorder_index_lt [OF assms] True]
  obtain r' fs' t where rel: "phl_reorder_release now
      (put_frame r (reorder_index r (seq_of p)) p now) fs = (r', fs', t)" by (metis prod_cases3)
  from released_release [OF conjunct1 [OF put] rel] True rel show ?thesis
    by (auto simp: accept_def Let_def released_def) (auto simp: put_frame_def)
next
  case False
  then show ?thesis by (simp add: accept_def Let_def)
qed

lemma manage_flags:
  assumes "ba_shape r" "ba_started r" "\<not> ba_sleep r"
  shows "ba_started (rr_session (snd (phl_manage_sta_reorder_buf now p r fs))) \<and>
         \<not> ba_sleep (rr_session (snd (phl_manage_sta_reorder_buf now p r fs)))"
proof -
  obtain r1 fs1 where room: "make_room p (wake p r) fs = (r1, fs1)" by fastforce
  have sh: "ba_shape (wake p r)" using assms(1) by simp
  from released_room [OF sh room] accept_flags [of r1 now p fs1] assms room show ?thesis
    by (auto simp: manage_steps released_def Let_def)
qed

text \<open>
  What can happen to a session between its start and its end: a frame arrives, a block-ack
  request arrives (\<open>rtw_phl_rx_bar\<close>), the timer expires or the buffer is flushed.
\<close>

datatype ba_event = Mpdu u32 rx_pkt | Bar u16 | Expire u32

fun ba_step :: "tid_ampdu_rx \<Rightarrow> ba_event \<Rightarrow> tid_ampdu_rx \<times> rx_pkt list" where
  "ba_step r (Mpdu now p) =
     (let out = phl_manage_sta_reorder_buf now p r [] in (rr_session (snd out), handed_on p out))"
| "ba_step r (Bar seq) =
     (if seq_less seq (head_seq_num r) then (r, []) else phl_release_reorder_frames r seq [])"
| "ba_step r (Expire now) = (let (r', fs, t) = phl_reorder_release now r [] in (r', fs))"

fun ba_ok :: "tid_ampdu_rx \<Rightarrow> ba_event \<Rightarrow> bool" where
  "ba_ok r (Mpdu now p) \<longleftrightarrow> unat (seq_of p) < 4096"
| "ba_ok r (Bar seq) \<longleftrightarrow> unat seq < 4096 \<and> seq_dist (head_seq_num r) seq \<noteq> 2048"
| "ba_ok r (Expire now) \<longleftrightarrow> True"

definition ba_active :: "nat \<Rightarrow> tid_ampdu_rx \<Rightarrow> bool" where
  "ba_active H r \<longleftrightarrow> ba_window H r \<and> ba_started r \<and> \<not> ba_sleep r"

text \<open>
  Sequence numbers turn round after 4096. \<open>pos_after H s\<close> is the first position from \<open>H\<close> on whose
  number is \<open>s\<close>. \<open>numbers\<close> gives for each event the sequence numbers of the frames it hands on and
  of the head after it; \<open>trace\<close> turns them into positions from the head before the event on. It is in
  order when each event hands on frames of strictly increasing positions between the two
  heads, and moves the head by 2049 at most, so that it cannot go back unnoticed.
\<close>

definition pos_after :: "nat \<Rightarrow> nat \<Rightarrow> nat" where
  "pos_after H s = H + (s + 4096 - H mod 4096) mod 4096"

fun numbers :: "('s \<Rightarrow> nat) \<Rightarrow> ('s \<Rightarrow> 'e \<Rightarrow> 's \<times> rx_pkt list) \<Rightarrow> 's \<Rightarrow> 'e list \<Rightarrow> (nat list \<times> nat) list" where
  "numbers head step s [] = []"
| "numbers head step s (e # es) =
     (let (s1, out) = step s e in (map (\<lambda>p. unat (seq_of p)) out, head s1) # numbers head step s1 es)"

fun trace :: "nat \<Rightarrow> (nat list \<times> nat) list \<Rightarrow> (nat list \<times> nat) list" where
  "trace H [] = []"
| "trace H ((xs, h) # t) = (map (pos_after H) xs, pos_after H h) # trace (pos_after H h) t"

fun in_order :: "nat \<Rightarrow> (nat list \<times> nat) list \<Rightarrow> bool" where
  "in_order H [] \<longleftrightarrow> True"
| "in_order H ((ns, H1) # t) \<longleftrightarrow>
     sorted_wrt (<) ns \<and> (\<forall>k \<in> set ns. H \<le> k \<and> k < H1) \<and> H \<le> H1 \<and> H1 \<le> H + 2049 \<and> in_order H1 t"

lemma pos_after_mod: "H \<le> k \<Longrightarrow> k < H + 4096 \<Longrightarrow> pos_after H (k mod 4096) = k"
proof -
  assume k: "H \<le> k" "k < H + 4096"
  then obtain d where d: "k = H + d" "d < 4096" using le_Suc_ex by auto
  have "int ((k mod 4096 + 4096 - H mod 4096) mod 4096) = (int (k mod 4096) - int (H mod 4096)) mod 4096"
  proof -
    have "H mod 4096 \<le> k mod 4096 + 4096" using mod_less_divisor [of 4096 H] by linarith
    then have "int ((k mod 4096 + 4096 - H mod 4096) mod 4096) = (int (k mod 4096) + 4096 - int (H mod 4096)) mod 4096"
      by (simp add: zmod_int of_nat_diff)
    also have "\<dots> = (int (k mod 4096) - int (H mod 4096) + 4096) mod 4096" by (simp add: algebra_simps)
    finally show ?thesis by simp
  qed
  also have "\<dots> = int d mod 4096" unfolding d by (rule pos_diff)
  finally show ?thesis using d by (simp add: pos_after_def)
qed

lemma pos_after_number: "s < 4096 \<Longrightarrow> pos_after H s mod 4096 = s"
proof -
  assume s: "s < 4096"
  have "H mod 4096 + (s + 4096 - H mod 4096) = s + 4096" using mod_less_divisor [of 4096 H] by linarith
  then show ?thesis unfolding pos_after_def using s by (metis mod_add_left_eq mod_add_right_eq mod_add_self2 mod_less)
qed

lemma delivers_positions:
  assumes "delivers H H1 out" "H1 \<le> H + 2049"
  shows "sorted_wrt (<) (map (\<lambda>p. pos_after H (unat (seq_of p))) out) \<and>
    (\<forall>p \<in> set out. H \<le> pos_after H (unat (seq_of p)) \<and> pos_after H (unat (seq_of p)) < H1 \<and> unat (seq_of p) < 4096)"
proof -
  obtain ns where ns: "sorted_wrt (<) ns" "\<forall>k \<in> set ns. H \<le> k \<and> k < H1"
      "map (\<lambda>p. unat (seq_of p)) out = map (\<lambda>k. k mod 4096) ns"
    using assms(1) unfolding delivers_def by blast
  have "map (pos_after H) (map (\<lambda>p. unat (seq_of p)) out) = map (\<lambda>k. pos_after H (k mod 4096)) ns"
    unfolding ns(3) by simp
  also have "\<dots> = map (\<lambda>k. k) ns" by (rule map_cong [OF refl]) (use ns(2) assms(2) in \<open>auto intro!: pos_after_mod\<close>)
  finally have m: "map (\<lambda>p. pos_after H (unat (seq_of p))) out = ns" by (simp add: comp_def)
  have "unat (seq_of p) < 4096" if "p \<in> set out" for p
  proof -
    have "unat (seq_of p) \<in> set (map (\<lambda>k. k mod 4096) ns)" using that unfolding ns(3) [symmetric] by simp
    then show ?thesis by auto
  qed
  moreover have "pos_after H (unat (seq_of p)) \<in> set ns" if "p \<in> set out" for p
    using that unfolding m [symmetric] by simp
  ultimately show ?thesis unfolding m using ns by blast
qed

text \<open>A component whose every step hands on frames of increasing positions has runs in order.\<close>

locale ordered_delivery =
  fixes inv :: "nat \<Rightarrow> 's \<Rightarrow> bool"
    and ok :: "'s \<Rightarrow> 'e \<Rightarrow> bool"
    and head :: "'s \<Rightarrow> nat"
    and step :: "'s \<Rightarrow> 'e \<Rightarrow> 's \<times> rx_pkt list"
  assumes inv_head: "inv H s \<Longrightarrow> head s = H mod 4096"
    and step_ordered:
    "inv H s \<Longrightarrow> ok s e \<Longrightarrow> step s e = (s', out) \<Longrightarrow> \<exists>H'. inv H' s' \<and> delivers H H' out \<and> H' \<le> H + 2049"
begin

lemma run_inv:
  "inv H s \<Longrightarrow> ok_events ok step s es \<Longrightarrow> run_events step s es = (s', out) \<Longrightarrow> \<exists>H'. inv H' s'"
proof (induction es arbitrary: H s s' out)
  case (Cons e es)
  obtain s1 out1 where 1: "step s e = (s1, out1)" by fastforce
  have "ok s e" using Cons.prems(2) by simp
  from step_ordered [OF Cons.prems(1) this 1] obtain H1 where "inv H1 s1" by blast
  with Cons.IH [of H1 s1] Cons.prems(2,3) 1 show ?case by (auto split: prod.splits)
qed auto

lemma run_ordered:
  "inv H s \<Longrightarrow> ok_events ok step s es \<Longrightarrow> run_events step s es = (s', out) \<Longrightarrow>
   in_order H (trace H (numbers head step s es)) \<and>
   map (\<lambda>p. unat (seq_of p)) out = map (\<lambda>k. k mod 4096) (concat (map fst (trace H (numbers head step s es))))"
proof (induction es arbitrary: H s s' out)
  case Nil
  then show ?case by auto
next
  case (Cons e es)
  obtain s1 out1 where 1: "step s e = (s1, out1)" by fastforce
  obtain s2 out2 where 2: "run_events step s1 es = (s2, out2)" by fastforce
  have "ok s e" using Cons.prems(2) by simp
  from step_ordered [OF Cons.prems(1) this 1]
  obtain H1 where H1: "inv H1 s1" "delivers H H1 out1" "H1 \<le> H + 2049" by blast
  have h: "pos_after H (head s1) = H1"
    unfolding inv_head [OF H1(1)] using delivers_le [OF H1(2)] H1(3) by (intro pos_after_mod) auto
  have "ok_events ok step s1 es" using Cons.prems(2) 1 by simp
  note ih = Cons.IH [OF H1(1) this 2]
  moreover have "s' = s2" "out = out1 @ out2" using Cons.prems(3) 1 2 by simp_all
  ultimately show ?case
    using delivers_positions [OF H1(2,3)] delivers_le [OF H1(2)] H1(3)
    by (auto simp: 1 h pos_after_number comp_def)
qed

end

lemma in_order_sorted:
  "in_order H t \<Longrightarrow> sorted_wrt (<) (concat (map fst t)) \<and> (\<forall>k \<in> set (concat (map fst t)). H \<le> k)"
proof (induction H t rule: in_order.induct)
  case (2 H ns H1 t)
  then show ?case by (fastforce simp: sorted_wrt_append)
qed simp

lemma window_bar:
  assumes win: "ba_window H r" and s: "unat seq < 4096" "seq_dist (head_seq_num r) seq \<noteq> 2048"
    and old: "\<not> seq_less seq (head_seq_num r)"
  shows "\<exists>D < 2048. unat seq = (H + D) mod 4096"
proof -
  from window_position [OF win s(1) old] obtain D where
    D: "D \<le> 2048" "unat seq = (H + D) mod 4096" .
  moreover have "seq_dist (head_seq_num r) seq = D"
    using win D by (intro seq_dist_pos) (auto simp: ba_window_def)
  ultimately show ?thesis using s(2) by (intro exI [of _ D]) auto
qed

lemma released_flags:
  "released r fs r' fs' \<Longrightarrow> ba_started r' = ba_started r \<and> ba_sleep r' = ba_sleep r"
  by (simp add: released_def)

lemma ba_step_ordered:
  assumes "ba_active H r" "ba_ok r e" "ba_step r e = (r', out)"
  shows "\<exists>H'. ba_active H' r' \<and> delivers H H' out \<and> H' \<le> H + 2049"
proof (cases e)
  case (Mpdu now p)
  from assms have a: "ba_window H r" "ba_started r" "\<not> ba_sleep r" "ba_shape r"
    by (auto simp: ba_active_def ba_window_def)
  from window_manage [OF a(1,2,3), of p "[]" now] manage_flags [OF a(4,2,3), of now p "[]"]
    assms(2,3) Mpdu show ?thesis
    by (auto simp: ba_active_def out_window_def Let_def)
next
  case (Bar seq)
  show ?thesis
  proof (cases "seq_less seq (head_seq_num r)")
    case True
    with assms Bar show ?thesis by (auto intro: delivers_nil)
  next
    case False
    with assms(3) Bar have rel: "phl_release_reorder_frames r seq [] = (r', out)" by simp
    have win: "ba_window H r" and sh: "ba_shape r"
      using assms(1) by (auto simp: ba_active_def ba_window_def)
    from window_bar [OF win _ _ False] assms(2) Bar obtain D where
      D: "D < 2048" "unat seq = (H + D) mod 4096" by auto
    from window_frames [OF win D(2,1) rel] released_flags [OF released_frames [OF sh rel]] assms(1) D(1)
    show ?thesis by (intro exI [of _ "H + D"]) (auto simp: advances_def ba_active_def)
  qed
next
  case (Expire now)
  then obtain t where rel: "phl_reorder_release now r [] = (r', out, t)"
    using assms(3) by (auto split: prod.splits)
  have win: "ba_window H r" and sh: "ba_shape r"
    using assms(1) by (auto simp: ba_active_def ba_window_def)
  have "H + win_size r \<le> H + 2049" using win by (simp add: ba_window_def)
  with window_release [OF win rel] obtain H' where "advances H r [] H' r' out" "H' \<le> H + 2049" by (meson le_trans)
  with released_flags [OF released_release [OF sh rel]] assms(1)
  show ?thesis by (intro exI [of _ H']) (auto simp: advances_def ba_active_def)
qed

interpretation ba: ordered_delivery ba_active ba_ok "\<lambda>r. unat (head_seq_num r)" ba_step
proof unfold_locales
  show "unat (head_seq_num r) = H mod 4096" if "ba_active H r" for H r
    using that by (simp add: ba_active_def ba_window_def)
qed (rule ba_step_ordered)

subsection \<open>Sessions of a station\<close>

definition held_opt :: "tid_ampdu_rx option \<Rightarrow> nat multiset" where
  "held_opt r = (case r of None \<Rightarrow> {#} | Some r \<Rightarrow> held r)"

definition sta_held :: "rx_sta \<Rightarrow> nat multiset" where
  "sta_held sta = sum_list (map held_opt (tid_rx sta))"

definition sta_shape :: "rx_sta \<Rightarrow> bool" where
  "sta_shape sta \<longleftrightarrow> length (tid_rx sta) = RTW_MAX_TID_NUM \<and> (\<forall>r. Some r \<in> set (tid_rx sta) \<longrightarrow> ba_shape r)"

lemma held_opt_simps [simp]: "held_opt None = {#}" "held_opt (Some r) = held r"
  by (simp_all add: held_opt_def)

lemma sum_list_list_update:
  "i < length xs \<Longrightarrow> sum_list (map f (xs[i := v])) + f (xs ! i) = sum_list (map f xs) + (f v :: 'a multiset)"
proof (induction xs arbitrary: i)
  case (Cons x xs)
  then show ?case by (cases i) (auto simp: add_ac)
qed simp

lemma sta_held_update:
  assumes "slot (tid_rx sta) i = Some r"
  shows "sta_held (sta\<lparr>tid_rx := (tid_rx sta)[i := v]\<rparr>) + held r = sta_held sta + held_opt v"
  using sum_list_list_update [of i "tid_rx sta" held_opt v] slot_SomeD [OF assms]
  by (simp add: sta_held_def)

lemma sta_held_arm [simp]: "sta_held (arm t sta) = sta_held sta" "tid_rx (arm t sta) = tid_rx sta"
  by (simp_all add: arm_def sta_held_def)

lemma sta_shape_slot: "sta_shape sta \<Longrightarrow> slot (tid_rx sta) i = Some r \<Longrightarrow> ba_shape r"
  by (auto simp: sta_shape_def dest!: slot_SomeD) (metis nth_mem)

lemma sta_shape_update:
  "sta_shape sta \<Longrightarrow> ba_shape r \<Longrightarrow> sta_shape (sta\<lparr>tid_rx := (tid_rx sta)[i := Some r]\<rparr>)"
  by (auto simp: sta_shape_def dest!: set_update_subset_insert [THEN subsetD])

lemma sta_shape_arm [simp]: "sta_shape (arm t sta) = sta_shape sta"
  by (simp add: sta_shape_def)

lemma occupants_map_filter:
  "mset (List.map_filter (slot xs) [0..<length xs]) = occupants xs"
proof -
  have "List.map_filter (slot xs) [0..<length xs] = map the (filter (\<lambda>x. x \<noteq> None) (map (slot xs) [0..<length xs]))"
    by (simp add: map_filter_def filter_map o_def)
  moreover have "map (slot xs) [0..<length xs] = xs" by (rule nth_equalityI) (auto simp: slot_def)
  ultimately show ?thesis by (simp add: occupants_def)
qed

lemma free_held: "ba_shape r \<Longrightarrow> pkt_ids (phl_tid_ampdu_rx_free (Some r)) = held r"
  using occupants_map_filter [of "reorder_buf r"]
  by (simp add: phl_tid_ampdu_rx_free_def pkt_ids_def held_def ba_shape_def)

lemma free_held_opt:
  "(\<And>r. x = Some r \<Longrightarrow> ba_shape r) \<Longrightarrow> pkt_ids (phl_tid_ampdu_rx_free x) = held_opt x"
  by (cases x) (auto simp: free_held, simp add: phl_tid_ampdu_rx_free_def)

lemma window_fresh:
  assumes "phl_tid_ampdu_rx_alloc mem timeout ssn tid n = Some r"
    and "unat ssn < 4096" "2 \<le> unat n" "unat n \<le> 1024" "unat n dvd 4096"
  shows "ba_window (unat ssn) r"
  using assms
  by (auto simp: phl_tid_ampdu_rx_alloc_def ba_window_def ba_shape_def slot_replicate occupied_replicate
      split: prod.splits if_splits)

subsection \<open>The timeout\<close>

definition timed_out :: "u32 \<Rightarrow> u32 \<Rightarrow> bool" where
  "timed_out now time \<longleftrightarrow> \<not> sint (time + HT_RX_REORDER_BUF_TIMEOUT_MS - now) > 0"

lemma release_frame_buf:
  "phl_release_reorder_frame r j fs = (r1, fs1) \<Longrightarrow>
   reorder_time r1 = reorder_time r \<and>
   slot (reorder_buf r1) i = (if i = j then None else slot (reorder_buf r) i)"
  by (auto simp: phl_release_reorder_frame_def slot_update slot_def split: option.splits if_splits)

lemma timeout_loop_all:
  "(\<And>j. slot (reorder_buf r) j \<noteq> None \<Longrightarrow> timed_out now (reorder_time r ! j)) \<Longrightarrow>
   timeout_loop now js k r fs = (b, r', fs') \<Longrightarrow>
   \<not> b \<and> (\<forall>i. slot (reorder_buf r') i = (if i \<in> set js then None else slot (reorder_buf r) i))"
proof (induction js arbitrary: k r fs)
  case Nil
  then show ?case by simp
next
  case (Cons j js)
  show ?case
  proof (cases "slot (reorder_buf r) j")
    case None
    with Cons.prems(2) have "timeout_loop now js (k + 1) r fs = (b, r', fs')" by simp
    from Cons.IH [OF Cons.prems(1) this] None show ?thesis by auto
  next
    case (Some p)
    obtain r1 fs1 where rel: "phl_release_reorder_frame r j fs = (r1, fs1)" by fastforce
    let ?r2 = "r1\<lparr>head_seq_num := (head_seq_num r1 + of_nat k) AND SEQ_MASK\<rparr>"
    have "timed_out now (reorder_time r ! j)" using Cons.prems(1) Some by simp
    then have late: "\<not> (k \<noteq> 0 \<and> sint (reorder_time r ! j + HT_RX_REORDER_BUF_TIMEOUT_MS - now) > 0)"
      by (simp add: timed_out_def)
    have ne: "slot (reorder_buf r) j \<noteq> None" using Some by simp
    have "timeout_loop now js 0 ?r2 fs1 = (b, r', fs')"
      using Cons.prems(2) unfolding timeout_loop.simps if_not_P [OF ne] if_not_P [OF late] rel Let_def
      by simp
    moreover have "timed_out now (reorder_time ?r2 ! i)" if "slot (reorder_buf ?r2) i \<noteq> None" for i
      using that Cons.prems(1) [of i] release_frame_buf [OF rel, of i] by (simp split: if_splits)
    ultimately have "\<not> b \<and> (\<forall>i. slot (reorder_buf r') i =
        (if i \<in> set js then None else slot (reorder_buf ?r2) i))" by (intro Cons.IH)
    with release_frame_buf [OF rel] show ?thesis by simp
  qed
qed

lemma slots_after_all:
  assumes "ba_window H r" "i < win_size r" "i \<noteq> H mod win_size r"
  shows "i \<in> set (slots_after r (H mod win_size r))"
proof -
  let ?n = "win_size r" and ?h = "H mod win_size r"
  have n: "0 < ?n" using assms(2) by simp
  then have h: "?h < ?n" by simp
  have "\<exists>k. 1 \<le> k \<and> k < ?n \<and> (?h + k) mod ?n = i"
  proof (cases "?h < i")
    case True
    then show ?thesis using assms(2) by (intro exI [of _ "i - ?h"]) auto
  next
    case False
    then have "?h + (?n + i - ?h) = ?n + i" "?n + i - ?h < ?n" "1 \<le> ?n + i - ?h"
      using h assms(3) by auto
    then show ?thesis using assms(2) by (intro exI [of _ "?n + i - ?h"]) auto
  qed
  then show ?thesis by (auto simp: slots_after_def image_iff Bex_def)
qed

end
