(* ===== verification/RxReorderProps.thy ===== *)
theory RxReorderProps
  imports RxReorderSpec
begin

text \<open>
  The properties of the receive reorder buffer, over the definitions of \<^verbatim>\<open>RxReorder\<close>, with
  the concrete sessions their witnesses use.
\<close>

subsection \<open>Concrete data for the witnesses\<close>

definition ex_pkt :: "nat \<Rightarrow> u16 \<Rightarrow> rx_pkt" where
  "ex_pkt i s = \<lparr>pkt_id = i,
     mdata = \<lparr>m_seq = s, m_tid = 0, m_bc = False, m_mc = False, m_qos = True, m_q_null = False,
       m_more_frag = False, m_frag_num = 0, m_addr_cam_vld = True, m_macid = 3,
       m_amsdu_cut = False, m_last_msdu = False, m_rx_deferred_release = False\<rparr>,
     pkt_length = 100, pkt_tx_sta = None, pkt_rx_role = None\<rparr>"

definition ex_session :: tid_ampdu_rx where
  "ex_session = \<lparr>reorder_buf = [None, None, None, None], reorder_time = [0, 0, 0, 0],
     head_seq_num = 4094, stored_mpdu_num = 0, ba_ssn = 4094, buf_size = 4, ba_tid = 0,
     ba_started = True, ba_removed = False, ba_sleep = False\<rparr>"

definition ex_events :: "ba_event list" where
  "ex_events = [Mpdu 10 (ex_pkt 1 4095), Mpdu 11 (ex_pkt 2 4094), Mpdu 12 (ex_pkt 3 1),
     Mpdu 13 (ex_pkt 4 1), Expire 20, Expire 600, Mpdu 700 (ex_pkt 5 4), Bar 5]"

lemma ex_session_fresh: "ex_session = (the (phl_tid_ampdu_rx_alloc (True, True, True) 0 4094 0 4))\<lparr>ba_started := True\<rparr>"
  by code_simp

lemma ex_session_active: "ba_active 4094 ex_session"
proof -
  have "ba_window (unat (4094 :: u16)) (the (phl_tid_ampdu_rx_alloc (True, True, True) 0 4094 0 4))"
    by (rule window_fresh [where n = 4 and mem = "(True, True, True)" and timeout = 0 and tid = 0])
      (auto simp: phl_tid_ampdu_rx_alloc_def)
  then have "ba_window 4094 ex_session" unfolding ex_session_fresh
    by (simp add: ba_window_def ba_shape_def)
  then show ?thesis by (simp add: ba_active_def ex_session_def)
qed

subsection \<open>Delivery in order\<close>

text \<open>
  C1. Frames are handed on in order and without duplicates, over any run of a session that is
  started and awake, with frames arriving in any order and any number of times, block-ack
  requests (not exactly half the number space ahead of the head) and timer expiries in between.
  Every event hands on frames of strictly increasing positions, all from the head before it to
  below the head after it, and the head never moves back nor by more than 2049. The position of
  a frame is computed from its own sequence number and the head, so a frame handed on twice or
  after a later one has no place in the order.
\<close>

theorem reorder_in_order:
  assumes "ba_active H r" "ok_events ba_ok ba_step r es" "run_events ba_step r es = (r', out)"
    and "t = trace H (numbers (\<lambda>r. unat (head_seq_num r)) ba_step r es)"
  shows "in_order H t \<and> sorted_wrt (<) (concat (map fst t)) \<and>
    map (\<lambda>p. unat (seq_of p)) out = map (\<lambda>k. k mod 4096) (concat (map fst t))"
  using ba.run_ordered [OF assms(1-3)] in_order_sorted unfolding assms(4) by blast

lemma reorder_in_order_witness:
  "in_order 4094 [([], 4094), ([4094, 4095], 4096), ([], 4096), ([], 4096), ([], 4096), ([4097], 4098), ([], 4098), ([4100], 4101)] \<and>
   map (\<lambda>p. unat (seq_of p)) (snd (run_events ba_step ex_session ex_events)) = map (\<lambda>k. k mod 4096) [4094, 4095, 4097, 4100]"
proof -
  have ok: "ok_events ba_ok ba_step ex_session ex_events" by code_simp
  have n: "numbers (\<lambda>r. unat (head_seq_num r)) ba_step ex_session ex_events =
      [([], 4094), ([4094, 4095], 0), ([], 0), ([], 0), ([], 0), ([1], 2), ([], 2), ([4], 5)]" by code_simp
  have t: "[([], 4094), ([4094, 4095], 4096), ([], 4096), ([], 4096), ([], 4096), ([4097], 4098), ([], 4098), ([4100], 4101)] =
      trace 4094 (numbers (\<lambda>r. unat (head_seq_num r)) ba_step ex_session ex_events)"
    unfolding n by (simp add: pos_after_def)
  from reorder_in_order [OF ex_session_active ok prod.collapse [symmetric] t] show ?thesis by simp
qed

text \<open>The two faults the order excludes: frames handed on in reverse, a frame handed on twice.\<close>

lemma in_order_excludes:
  "\<not> in_order 7 [([pos_after 7 8, pos_after 7 7], 9)]" "\<not> in_order 7 [([pos_after 7 7], 8), ([pos_after 8 7], 8)]"
  by (simp_all add: pos_after_def)

subsection \<open>No packet is lost or duplicated\<close>

definition info_shape :: "rx_info \<Rightarrow> bool" where
  "info_shape info \<longleftrightarrow> (\<forall>a. sta_shape (sta_at info a))"

lemma mset_exchange:
  "a + r = s + h \<Longrightarrow> h + x = add_mset p (r + f) \<Longrightarrow> a + x = add_mset p (s + f)"
proof -
  assume 1: "a + r = s + h" and 2: "h + x = add_mset p (r + f)"
  have "r + (a + x) = s + (h + x)" using 1 by (simp add: ac_simps)
  also have "\<dots> = r + add_mset p (s + f)" unfolding 2 by (simp add: ac_simps)
  finally show ?thesis by (simp only: add_left_cancel)
qed

lemma reorder_sta_conserves:
  assumes "info_shape info" "reorder_sta now info pkt sa frames = (st, info', frames')"
  shows "info_shape info' \<and> (\<forall>a. a \<noteq> sa \<longrightarrow> sta_at info' a = sta_at info a) \<and>
     sta_held (sta_at info' sa) + pkt_ids frames' + pkt_ids (rx_recycled info') =
     add_mset (pkt_id pkt) (sta_held (sta_at info sa) + pkt_ids frames + pkt_ids (rx_recycled info))"
proof -
  let ?sta = "sta_at info sa"
  let ?pkt = "pkt\<lparr>pkt_tx_sta := Some sa, pkt_rx_role := sta_wrole ?sta\<rparr>"
  let ?tid = "unat (m_tid (mdata pkt))"
  have sh: "sta_shape ?sta" using assms(1) by (simp add: info_shape_def)
  show ?thesis
  proof (cases "?tid \<ge> RTW_MAX_TID_NUM \<or> slot (tid_rx ?sta) ?tid = None")
    case True
    then have "reorder_sta now info pkt sa frames = dont_reorder info ?pkt frames"
      by (elim disjE) (simp_all add: reorder_sta_def Let_def)
    with assms(2) have "(st, info', frames') = dont_reorder info ?pkt frames" by simp
    with assms(1) show ?thesis by (simp add: dont_reorder_def)
  next
    case False
    then obtain r where r: "slot (tid_rx ?sta) ?tid = Some r" and lt: "\<not> ?tid \<ge> RTW_MAX_TID_NUM" by auto
    obtain ret res where m: "phl_manage_sta_reorder_buf now ?pkt r frames = (ret, res)" by fastforce
    let ?sta' = "arm (rr_timer res) (?sta\<lparr>tid_rx := (tid_rx ?sta)[?tid := Some (rr_session res)]\<rparr>)"
    note cons = manage_conserves [OF sta_shape_slot [OF sh r], of now ?pkt frames, unfolded m Let_def snd_conv]
    have sh': "sta_shape ?sta'" using sta_shape_update [OF sh] cons by simp
    have "sta_held ?sta' + held r = sta_held ?sta + held (rr_session res)"
      using sta_held_update [OF r, of "Some (rr_session res)"] by simp
    moreover have "held (rr_session res) + pkt_ids (rr_frames res @ (if ret then [] else [?pkt])) +
        pkt_ids (rr_recycled res) = add_mset (pkt_id pkt) (held r + pkt_ids frames)"
      using cons by (simp add: handed_on_def)
    ultimately have "sta_held ?sta' + (pkt_ids (rr_frames res @ (if ret then [] else [?pkt])) +
        pkt_ids (rr_recycled res)) = add_mset (pkt_id pkt) (sta_held ?sta + pkt_ids frames)"
      unfolding add.assoc by (rule mset_exchange)
    moreover have "sta_at info' = (sta_at info)(sa := ?sta')"
      "rx_recycled info' = rx_recycled info @ rr_recycled res"
      "frames' = rr_frames res @ (if ret then [] else [?pkt])"
      using assms(2) r lt m by (auto simp: reorder_sta_def dont_reorder_def Let_def split: if_splits)
    ultimately show ?thesis using assms(1) sh' by (simp add: info_shape_def ac_simps)
  qed
qed

definition strips_fcs :: "rx_info \<Rightarrow> rx_pkt \<Rightarrow> bool" where
  "strips_fcs info pkt \<longleftrightarrow> append_fcs info \<and> \<not> (m_amsdu_cut (mdata pkt) \<and> \<not> m_last_msdu (mdata pkt))"

definition fcs_pkt :: "rx_info \<Rightarrow> rx_pkt \<Rightarrow> rx_pkt" where
  "fcs_pkt info pkt = (if strips_fcs info pkt then pkt\<lparr>pkt_length := pkt_length pkt - 4\<rparr> else pkt)"

lemma rx_reorder_branches:
  "phl_rx_reorder now info pkt frames =
     (RTW_PHL_STATUS_FAILURE, info\<lparr>rx_recycled := rx_recycled info @ [pkt]\<rparr>, frames) \<or>
   phl_rx_reorder now info pkt frames = dont_reorder info (fcs_pkt info pkt) frames \<or>
   (\<exists>sa. phl_rx_reorder now info pkt frames = reorder_sta now info (fcs_pkt info pkt) sa frames)"
  unfolding phl_rx_reorder_def Let_def strips_fcs_def [symmetric] fcs_pkt_def [symmetric]
  by (simp split: option.split) blast

text \<open>
  C2. The receive path neither loses nor duplicates a packet: whatever the state of the
  sessions (a sleeping one included), after \<open>phl_rx_reorder\<close> the packets held by the station
  it found, the frames handed on and the packets recycled are together exactly those of before
  and the new packet, and every other station is untouched.
\<close>

theorem rx_reorder_conserves:
  assumes "info_shape info" "phl_rx_reorder now info pkt frames = (st, info', frames')"
  shows "info_shape info' \<and> (\<exists>sa. (\<forall>a. a \<noteq> sa \<longrightarrow> sta_at info' a = sta_at info a) \<and>
     sta_held (sta_at info' sa) + pkt_ids frames' + pkt_ids (rx_recycled info') =
     add_mset (pkt_id pkt) (sta_held (sta_at info sa) + pkt_ids frames + pkt_ids (rx_recycled info)))"
proof -
  have id: "pkt_id (fcs_pkt info pkt) = pkt_id pkt" by (simp add: fcs_pkt_def)
  from rx_reorder_branches [of now info pkt frames] consider
      (drop) "(st, info', frames') =
        (RTW_PHL_STATUS_FAILURE, info\<lparr>rx_recycled := rx_recycled info @ [pkt]\<rparr>, frames)"
    | (pass) "(st, info', frames') = dont_reorder info (fcs_pkt info pkt) frames"
    | (sta) sa where "reorder_sta now info (fcs_pkt info pkt) sa frames = (st, info', frames')"
    unfolding assms(2) by metis
  then show ?thesis
  proof cases
    case drop
    with assms(1) show ?thesis by (simp add: info_shape_def)
  next
    case pass
    with assms(1) id show ?thesis by (simp add: dont_reorder_def)
  next
    case sta
    from reorder_sta_conserves [OF assms(1) sta] show ?thesis unfolding id by blast
  qed
qed

definition ex_sta :: rx_sta where
  "ex_sta = \<lparr>tid_rx = Some ex_session # replicate 15 None, reorder_timer = None, sta_wrole = None\<rparr>"

definition ex_info :: rx_info where
  "ex_info = \<lparr>append_fcs = True, mp_mode = False, macid_sta = (\<lambda>m. if m = 3 then Some 1 else None),
     sta_at = (\<lambda>_. ex_sta), rx_recycled = []\<rparr>"

lemma ex_sta_shape: "sta_shape ex_sta"
  using ex_session_active by (auto simp: sta_shape_def ex_sta_def RTW_MAX_TID_NUM_def ba_active_def ba_window_def)

lemma rx_reorder_conserves_witness:
  "\<exists>st info' frames'. phl_rx_reorder 10 ex_info (ex_pkt 1 4095) [] = (st, info', frames') \<and>
     frames' = [] \<and> (\<exists>sa. sta_held (sta_at info' sa) + pkt_ids frames' + pkt_ids (rx_recycled info') =
       add_mset 1 (sta_held (sta_at ex_info sa)))"
proof -
  obtain st info' frames' where e: "phl_rx_reorder 10 ex_info (ex_pkt 1 4095) [] = (st, info', frames')"
    by (metis prod_cases3)
  have "snd (snd (phl_rx_reorder 10 ex_info (ex_pkt 1 4095) [])) = []" by code_simp
  moreover have "info_shape ex_info" by (simp add: info_shape_def ex_info_def ex_sta_shape)
  ultimately show ?thesis
    using rx_reorder_conserves [OF _ e] e by (auto simp: ex_info_def ex_pkt_def)
qed

subsection \<open>Sequence numbers\<close>

text \<open>
  \<open>seq_less\<close> is the cyclic order it stands for: \<open>a\<close> precedes \<open>b\<close> exactly when \<open>b\<close> is
  reached from \<open>a\<close> in 1 to 2047 steps of \<open>seq_inc\<close>'s circle; in particular no number
  precedes itself and of two different numbers that are not half the circle apart exactly one
  precedes the other.
\<close>

theorem seq_less_cyclic:
  "(seq_less a b \<longleftrightarrow> seq_dist a b \<in> {1..2047}) \<and>
   (seq_dist a b \<notin> {0, 2048} \<longrightarrow> seq_less a b = (\<not> seq_less b a))"
proof -
  define x where "x = uint b - uint a"
  have 1: "int (seq_dist a b) = x mod 4096" by (simp add: int_seq_dist x_def)
  have "int (seq_dist b a) = (- x) mod 4096" by (simp add: int_seq_dist x_def)
  then have "int (seq_dist b a) = (if x mod 4096 = 0 then 0 else 4096 - x mod 4096)"
    by (simp add: zmod_zminus1_eq_if)
  with 1 have "seq_dist b a = (if seq_dist a b = 0 then 0 else 4096 - seq_dist a b)"
    by (auto split: if_splits)
  with seq_dist_lt [of a b] show ?thesis by (auto simp: seq_less_iff)
qed

lemma seq_less_cyclic_witness:
  "seq_less 4095 3 \<and> \<not> seq_less 3 4095 \<and> seq_less 0 2047 \<and> \<not> seq_less 0 2048 \<and> \<not> seq_less 2048 0"
proof -
  have d: "seq_dist 4095 3 = 4" "seq_dist 3 4095 = 4092" "seq_dist 0 2047 = 2047"
    "seq_dist 0 2048 = 2048" "seq_dist 2048 0 = 2048" by code_simp+
  show ?thesis
    using seq_less_cyclic [of 4095 3] seq_less_cyclic [of 3 4095] seq_less_cyclic [of 0 2047]
      seq_less_cyclic [of 0 2048] seq_less_cyclic [of 2048 0] by (simp add: d)
qed

subsection \<open>Starting a session\<close>

text \<open>
  A block-ack session that starts has its window at the starting sequence number: with
  the sizes the code can be asked for (0 stands for 32) that divide 4096, the new session
  satisfies the window invariant, is empty and not started, replaces the old session of the
  TID, whose packets are all recycled, and leaves the other sessions alone.
\<close>

theorem start_session_window:
  assumes "sta_shape sta" "unat tid < RTW_MAX_TID_NUM" "unat ssn < 4096"
    and "n = 0 \<or> 2 \<le> unat n \<and> unat n \<le> 1024 \<and> unat n dvd 4096"
    and "rtw_phl_start_rx_ba_session (True, True, True) sta token timeout ssn 0 tid n =
           (st, sta', rec, hal)"
  shows "st = RTW_PHL_STATUS_SUCCESS \<and>
     (\<exists>r. slot (tid_rx sta') (unat tid) = Some r \<and> ba_window (unat ssn) r \<and> \<not> ba_started r \<and>
          held r = {#} \<and> win_size r = (if n = 0 then 32 else unat n)) \<and>
     pkt_ids rec = held_opt (slot (tid_rx sta) (unat tid)) \<and> sta_shape sta' \<and>
     (\<forall>i. i \<noteq> unat tid \<longrightarrow> slot (tid_rx sta') i = slot (tid_rx sta) i)"
proof -
  let ?n = "if n = 0 then PHL_MAX_AGG_WSIZE else n"
  let ?r = "the (phl_tid_ampdu_rx_alloc (True, True, True) timeout ssn tid ?n)"
  have alloc: "phl_tid_ampdu_rx_alloc (True, True, True) timeout ssn tid ?n = Some ?r"
    by (simp add: phl_tid_ampdu_rx_alloc_def)
  have n: "2 \<le> unat ?n" "unat ?n \<le> 1024" "unat ?n dvd 4096"
    using assms(4) by (auto simp: PHL_MAX_AGG_WSIZE_def)
  have win: "ba_window (unat ssn) ?r" by (rule window_fresh [OF alloc assms(3) n])
  have tid: "\<not> unat tid \<ge> RTW_MAX_TID_NUM" using assms(2) by simp
  have len: "unat tid < length (tid_rx sta)" using assms(1,2) by (simp add: sta_shape_def)
  have r: "st = RTW_PHL_STATUS_SUCCESS" "sta' = sta\<lparr>tid_rx := (tid_rx sta)[unat tid := Some ?r]\<rparr>"
    "rec = phl_tid_ampdu_rx_free (slot (tid_rx sta) (unat tid))"
    using assms(5) alloc unfolding rtw_phl_start_rx_ba_session_def if_not_P [OF tid] Let_def
    by (auto split: option.splits)
  have "ba_shape ?r" using win by (simp add: ba_window_def)
  then have "sta_shape sta'" using sta_shape_update [OF assms(1)] r by simp
  moreover have "pkt_ids rec = held_opt (slot (tid_rx sta) (unat tid))"
    unfolding r by (rule free_held_opt) (rule sta_shape_slot [OF assms(1)])
  moreover have "\<not> ba_started ?r" "held ?r = {#}" "win_size ?r = (if n = 0 then 32 else unat n)"
    by (auto simp: phl_tid_ampdu_rx_alloc_def held_def occupants_def PHL_MAX_AGG_WSIZE_def)
  ultimately show ?thesis using r win len by (auto simp: slot_update)
qed

lemma start_session_window_witness:
  "\<exists>st sta' rec hal. rtw_phl_start_rx_ba_session (True, True, True) ex_sta 1 0 100 0 5 64 =
      (st, sta', rec, hal) \<and> st = RTW_PHL_STATUS_SUCCESS \<and>
      (\<exists>r. slot (tid_rx sta') 5 = Some r \<and> ba_window 100 r)"
proof -
  obtain st sta' rec hal where e: "rtw_phl_start_rx_ba_session (True, True, True) ex_sta 1 0 100 0 5 64 =
      (st, sta', rec, hal)" by (metis prod_cases4)
  have "unat (5 :: u16) < RTW_MAX_TID_NUM" "unat (64 :: u16) dvd 4096"
    by (simp_all add: RTW_MAX_TID_NUM_def)
  with start_session_window [OF ex_sta_shape _ _ _ e] e show ?thesis by auto
qed

subsection \<open>Block-ack requests\<close>

text \<open>
  C3. A block-ack request behind the head changes nothing. Any other moves the head exactly to
  its sequence number, hands on every stored frame before it in order and keeps the window
  invariant, the packets and the other sessions. The request exactly half the circle ahead is
  excluded (\<open>bar_half_circle\<close> shows what it does).
\<close>

theorem bar_moves_window:
  assumes "slot (tid_rx sta) (unat tid) = Some r" "unat tid < RTW_MAX_TID_NUM"
    and "ba_window H r" "unat seq < 4096" "seq_dist (head_seq_num r) seq \<noteq> 2048"
    and "rtw_phl_rx_bar sta tid seq = (sta', frames)"
  shows "if seq_less seq (head_seq_num r) then sta' = sta \<and> frames = []
     else (\<exists>r' D. D < 2048 \<and> slot (tid_rx sta') (unat tid) = Some r' \<and> head_seq_num r' = seq \<and>
       ba_window (H + D) r' \<and> delivers H (H + D) frames \<and> held r = held r' + pkt_ids frames \<and>
       (\<forall>i. i \<noteq> unat tid \<longrightarrow> slot (tid_rx sta') i = slot (tid_rx sta) i))"
proof (cases "seq_less seq (head_seq_num r)")
  case True
  with assms(1,2,6) show ?thesis by (auto simp: rtw_phl_rx_bar_def)
next
  case False
  obtain r' fs where rel: "phl_release_reorder_frames r seq [] = (r', fs)" by fastforce
  have sh: "ba_shape r" using assms(3) by (simp add: ba_window_def)
  from window_bar [OF assms(3,4,5) False] obtain D where D: "D < 2048" "unat seq = (H + D) mod 4096" by blast
  have adv: "advances H r [] (H + D) r' fs" by (rule window_frames [OF assms(3) D(2,1) rel])
  have "unat (head_seq_num r') = unat seq" using adv D by (simp add: advances_def ba_window_def)
  then have h: "head_seq_num r' = seq" by (simp add: word_unat_eq_iff)
  have "sta' = sta\<lparr>tid_rx := (tid_rx sta)[unat tid := Some r']\<rparr>" "frames = fs"
    using assms(1,2,6) False rel by (auto simp: rtw_phl_rx_bar_def)
  moreover have "unat tid < length (tid_rx sta)" using slot_SomeD [OF assms(1)] by simp
  ultimately show ?thesis
    using adv D h released_frames [OF sh rel] False unfolding if_not_P [OF False]
    by (intro exI [of _ r'] exI [of _ D]) (auto simp: slot_update advances_def released_def)
qed

lemma bar_moves_window_witness:
  "(\<exists>r' D. D < 2048 \<and> slot (tid_rx (fst (rtw_phl_rx_bar ex_sta 0 2))) 0 = Some r' \<and> head_seq_num r' = 2 \<and>
      ba_window (4094 + D) r') \<and>
   rtw_phl_rx_bar ex_sta 0 4000 = (ex_sta, [])"
proof -
  have s: "slot (tid_rx ex_sta) (unat (0 :: u8)) = Some ex_session" by (simp add: ex_sta_def slot_def)
  have t: "unat (0 :: u8) < RTW_MAX_TID_NUM" by (simp add: RTW_MAX_TID_NUM_def)
  have w: "ba_window 4094 ex_session" using ex_session_active by (simp add: ba_active_def)
  have a: "\<not> seq_less 2 (head_seq_num ex_session)" "seq_dist (head_seq_num ex_session) 2 \<noteq> 2048"
    by code_simp+
  have b: "seq_less 4000 (head_seq_num ex_session)" "seq_dist (head_seq_num ex_session) 4000 \<noteq> 2048"
    by code_simp+
  note ex = bar_moves_window [OF s t w _ _ prod.collapse [symmetric]]
  show ?thesis using ex [of 2] ex [of 4000] a b by (auto intro: prod_eqI)
qed

subsection \<open>The reorder timer\<close>

text \<open>
  C28. No frame is stuck behind a gap: when the frame at the head is missing and every stored
  frame has waited for its timeout, one release hands on all of them in order, leaves the
  buffer empty and arms no timer; and whenever a release leaves frames behind in a session
  that is not being removed, the timer is armed.
\<close>

theorem timeout_releases_all:
  assumes "ba_window H r" "phl_reorder_release now r [] = (r', frames, armed)"
  shows "(slot (reorder_buf r) (H mod win_size r) = None \<and>
          (\<forall>j. slot (reorder_buf r) j \<noteq> None \<longrightarrow> timed_out now (reorder_time r ! j)) \<longrightarrow>
            stored_mpdu_num r' = 0 \<and> pkt_ids frames = held r \<and> \<not> armed) \<and>
         (\<exists>H'. delivers H H' frames) \<and>
         (stored_mpdu_num r' \<noteq> 0 \<and> \<not> ba_removed r \<longrightarrow> armed)"
proof (intro conjI impI; (elim conjE)?)
  have sh: "ba_shape r" using assms(1) by (simp add: ba_window_def)
  note rel = released_release [OF sh assms(2)]
  obtain H' where adv: "advances H r [] H' r' frames" using window_release [OF assms] by blast
  then show "\<exists>H'. delivers H H' frames" by (auto simp: advances_def)
  note win' = advances_window [OF adv]
  show armed if "stored_mpdu_num r' \<noteq> 0" "\<not> ba_removed r"
    using that rel assms(2) by (auto simp: phl_reorder_release_def released_def Let_def split: prod.splits)
  assume head: "slot (reorder_buf r) (H mod win_size r) = None"
    and late: "\<forall>j. slot (reorder_buf r) j \<noteq> None \<longrightarrow> timed_out now (reorder_time r ! j)"
  have all: "(\<forall>i. slot (reorder_buf r') i = None) \<and> \<not> armed"
  proof (cases "stored_mpdu_num r = 0")
    case True
    then have none: "\<forall>i. slot (reorder_buf r) i = None" using window_counter [OF assms(1)] by blast
    with True assms(2) show ?thesis
      by (auto simp: phl_reorder_release_def Let_def release_loop.simps [of "reorder_index r (head_seq_num r)" r])
  next
    case False
    obtain b r2 fs2 where l: "timeout_loop now (slots_after r (H mod win_size r)) 1 r [] = (b, r2, fs2)"
      by (metis prod_cases3)
    from timeout_loop_all [OF late [rule_format] l]
    have b: "\<not> b" and buf: "\<And>i. slot (reorder_buf r2) i =
        (if i \<in> set (slots_after r (H mod win_size r)) then None else slot (reorder_buf r) i)" by auto
    have none: "slot (reorder_buf r2) i = None" for i
      using buf [of i] slots_after_all [OF assms(1), of i] head sh
      by (cases "i < win_size r") (auto simp: slot_def ba_shape_def)
    have r2: "r' = r2" "armed = ((b \<or> stored_mpdu_num r2 \<noteq> 0) \<and> \<not> ba_removed r2)"
      using assms(2) head False l by (auto simp: phl_reorder_release_def window_head [OF assms(1)] Let_def)
    then show ?thesis using b none window_counter [OF win'] by auto
  qed
  then show "\<not> armed" by blast
  from all show s: "stored_mpdu_num r' = 0" using window_counter [OF win'] by blast
  have "unat (stored_mpdu_num r') = 0" unfolding s by simp
  then have "size (held r') = 0" using win' by (simp add: held_def ba_window_def ba_shape_def)
  then have "held r' = {#}" by simp
  with rel show "pkt_ids frames = held r" by (auto simp: released_def)
qed

definition ex_gap :: tid_ampdu_rx where
  "ex_gap = fst (run_events ba_step ex_session [Mpdu 10 (ex_pkt 1 4095), Mpdu 12 (ex_pkt 3 1)])"

lemma timeout_releases_all_witness:
  "map pkt_id (fst (snd (phl_reorder_release 600 ex_gap []))) = [1, 3] \<and>
   stored_mpdu_num (fst (phl_reorder_release 600 ex_gap [])) = 0"
proof -
  have ok: "ok_events ba_ok ba_step ex_session [Mpdu 10 (ex_pkt 1 4095), Mpdu 12 (ex_pkt 3 1)]"
    by code_simp
  obtain H where "ba_active H ex_gap"
    using ba.run_inv [OF ex_session_active ok prod.collapse [symmetric]] by (auto simp: ex_gap_def)
  then have win: "ba_window H ex_gap" by (simp add: ba_active_def)
  have buf: "map (map_option pkt_id) (reorder_buf ex_gap) = [None, Some 3, None, Some 1]"
    "reorder_time ex_gap = [0, 12, 0, 10]" by code_simp+
  have "reorder_index ex_gap (head_seq_num ex_gap) = 2" by code_simp
  then have "H mod win_size ex_gap = 2" using window_head [OF win] by simp
  moreover have len: "length (reorder_buf ex_gap) = 4" using arg_cong [OF buf(1), of length] by simp
  moreover have "slot (reorder_buf ex_gap) 2 = None" by code_simp
  moreover have "timed_out 600 (reorder_time ex_gap ! j)" if "slot (reorder_buf ex_gap) j \<noteq> None" for j
  proof -
    have "j < 4" using that len by (auto simp: slot_def split: if_splits)
    then have "j = 0 \<or> j = 1 \<or> j = 2 \<or> j = 3" by auto
    moreover have "timed_out 600 0" "timed_out 600 12" "timed_out 600 10" by code_simp+
    ultimately show ?thesis by (auto simp: buf(2))
  qed
  moreover obtain r' frames armed where e: "phl_reorder_release 600 ex_gap [] = (r', frames, armed)"
    by (metis prod_cases3)
  ultimately have "stored_mpdu_num r' = 0" using timeout_releases_all [OF win e] by simp
  moreover have "map pkt_id (fst (snd (phl_reorder_release 600 ex_gap []))) = [1, 3]" by code_simp
  ultimately show ?thesis using e by simp
qed

subsection \<open>The end of the sessions\<close>

lemma sum_free:
  "(\<And>r. Some r \<in> set rs \<Longrightarrow> ba_shape r) \<Longrightarrow>
   pkt_ids (concat (map phl_tid_ampdu_rx_free rs)) = sum_list (map held_opt rs)"
  by (induction rs) (auto simp: free_held_opt)

lemma mark_removed_session:
  assumes "sta_shape sta" "Some r \<in> set (tid_rx (mark_removed sta))"
  shows "ba_shape r \<and> ba_removed r"
proof -
  from assms(2) obtain r0 where "Some r0 \<in> set (tid_rx sta)" "r = r0\<lparr>ba_removed := True\<rparr>"
    by (auto simp: mark_removed_def map_option_case split: option.splits)
  with assms(1) show ?thesis by (simp add: sta_shape_def ba_shape_def)
qed

text \<open>
  When a station goes, all of its sessions are freed, every packet they hold is recycled
  exactly once, the reorder timer is cancelled, and a release that runs between the two
  critical sections can not arm it again because every session is already marked as removed.
\<close>

theorem free_rx_reorder_complete:
  assumes "sta_shape sta"
  shows "(let (sta', rec) = phl_free_rx_reorder sta in
            pkt_ids rec = sta_held sta \<and> sta_held sta' = {#} \<and> reorder_timer sta' = None \<and>
            (\<forall>i. slot (tid_rx sta') i = None)) \<and>
         \<not> snd (snd (release_sessions now (tid_rx (mark_removed sta)) frames))"
proof -
  have id: "map held_opt (map (map_option (\<lambda>r. r\<lparr>ba_removed := True\<rparr>)) rs) = map held_opt rs" for rs
    by (auto simp: held_opt_def held_def split: option.splits)
  have "pkt_ids (concat (map phl_tid_ampdu_rx_free (tid_rx (mark_removed sta)))) =
      sum_list (map held_opt (tid_rx (mark_removed sta)))"
    by (rule sum_free) (use mark_removed_session [OF assms] in simp)
  also have "\<dots> = sta_held sta"
    by (simp add: sta_held_def mark_removed_def id del: map_map)
  finally have "pkt_ids (concat (map phl_tid_ampdu_rx_free (tid_rx (mark_removed sta)))) = sta_held sta" .
  moreover have "sum_list (map (\<lambda>_. {#}) xs) = {#}" for xs :: "tid_ampdu_rx option list"
    by (induction xs) auto
  ultimately have "let (sta', rec) = phl_free_rx_reorder sta in
      pkt_ids rec = sta_held sta \<and> sta_held sta' = {#} \<and> reorder_timer sta' = None \<and>
      (\<forall>i. slot (tid_rx sta') i = None)"
    by (simp add: phl_free_rx_reorder_def free_sessions_def cancel_rx_reorder_timer_def sta_held_def
        mark_removed_def o_def slot_def)
  moreover have "\<not> snd (snd (release_sessions now rs frames))"
    if "\<And>r. Some r \<in> set rs \<Longrightarrow> ba_shape r \<and> ba_removed r" for rs
    using that
  proof (induction now rs frames rule: release_sessions.induct)
    case (3 now r rs frames)
    obtain r' fs t where rel: "phl_reorder_release now r frames = (r', fs, t)" by (metis prod_cases3)
    from 3(2) have "ba_shape r" "ba_removed r" by auto
    with released_release [OF _ rel] have "ba_removed r'" by (simp add: released_def)
    with rel have "\<not> t" by (auto simp: phl_reorder_release_def Let_def split: prod.splits)
    moreover have "\<not> snd (snd (release_sessions now rs fs))"
      by (rule 3(1) [OF rel [symmetric] refl]) (use 3(2) in auto)
    ultimately show ?case using rel by (simp add: case_prod_beta)
  qed (auto split: prod.splits)
  moreover have "ba_shape r \<and> ba_removed r" if "Some r \<in> set (tid_rx (mark_removed sta))" for r
    using mark_removed_session [OF assms that] .
  ultimately show ?thesis by blast
qed

lemma free_rx_reorder_complete_witness:
  "pkt_ids (snd (phl_free_rx_reorder (ex_sta\<lparr>tid_rx := Some ex_gap # replicate 15 None\<rparr>))) = {#3, 1#} \<and>
   sta_held (ex_sta\<lparr>tid_rx := Some ex_gap # replicate 15 None\<rparr>) = {#3, 1#}"
proof -
  let ?sta = "ex_sta\<lparr>tid_rx := Some ex_gap # replicate 15 None\<rparr>"
  have ok: "ok_events ba_ok ba_step ex_session [Mpdu 10 (ex_pkt 1 4095), Mpdu 12 (ex_pkt 3 1)]"
    by code_simp
  obtain H where "ba_active H ex_gap"
    using ba.run_inv [OF ex_session_active ok prod.collapse [symmetric]] by (auto simp: ex_gap_def)
  then have "sta_shape ?sta"
    by (auto simp: sta_shape_def RTW_MAX_TID_NUM_def ba_active_def ba_window_def)
  from free_rx_reorder_complete [OF this, of 0 "[]"]
  have "pkt_ids (snd (phl_free_rx_reorder ?sta)) = sta_held ?sta" by (auto simp: Let_def split: prod.splits)
  moreover have "pkt_ids (snd (phl_free_rx_reorder ?sta)) = mset [3, 1]"
  proof -
    have "map pkt_id (snd (phl_free_rx_reorder ?sta)) = [3, 1]" by code_simp
    then show ?thesis by (simp only: pkt_ids_def)
  qed
  ultimately show ?thesis by simp
qed

subsection \<open>Where the window breaks\<close>

text \<open>
  A block-ack request exactly 2048 ahead passes the test on the head, but the loop that should
  release the stored frames does not run: the head jumps and the frame stays behind it.
\<close>

lemma bar_half_circle:
  "let (r', out) = ba_step ex_gap (Bar 2046) in
   head_seq_num r' = 2046 \<and> out = [] \<and> stored_mpdu_num r' = 2"
  by code_simp

text \<open>
  After a sleep the head becomes the first sequence number received, but the frames stored
  before stay in the buffer: frame 4095 is handed on after frame 2000.
\<close>

lemma sleep_keeps_stale_frames:
  "map (\<lambda>p. unat (seq_of p))
     (snd (run_events ba_step (ex_gap\<lparr>ba_sleep := True\<rparr>)
       [Mpdu 20 (ex_pkt 7 2000), Mpdu 21 (ex_pkt 8 2002), Expire 900])) = [2000, 1, 2002, 4095]"
  by code_simp

text \<open>
  With a buffer whose size does not divide 4096 two numbers of one window share a slot: in a
  window of 10 that starts at 4093 the frames 4094 and 4 both use slot 4, and the new frame 4
  is dropped as if it were a duplicate of frame 4094.
\<close>

definition ex_odd :: tid_ampdu_rx where
  "ex_odd = (the (phl_tid_ampdu_rx_alloc (True, True, True) 0 4093 0 10))\<lparr>ba_started := True\<rparr>"

lemma odd_size_aliases:
  "reorder_index ex_odd 4094 = reorder_index ex_odd 4 \<and> seq_dist 4093 4094 < 10 \<and> seq_dist 4093 4 < 10 \<and>
   map pkt_id (rr_recycled (snd (phl_manage_sta_reorder_buf 1 (ex_pkt 2 4)
     (fst (ba_step ex_odd (Mpdu 0 (ex_pkt 1 4094)))) []))) = [2]"
  by code_simp

end
