(* ===== verification/PhlBitmap.thy ===== *)
theory PhlBitmap
  imports Prelude
begin

text \<open>
  The bitmaps of ids: the module bitmaps of \<^verbatim>\<open>phl/phl_util.h\<close> (arrays of bytes) and the macid
  maps of \<^verbatim>\<open>phl/phl_sta.c\<close> (arrays of 32-bit words), with one interface for both. A bit that
  is set outside the array is ignored in the module bitmaps; the macid maps are only used
  within their arrays, and the model ignores an index outside.
\<close>

subsection \<open>One bit of an array of words\<close>

definition set_at :: "nat \<Rightarrow> 'n::len word list \<Rightarrow> 'n word list" where
  "set_at i b = (let k = i div LENGTH('n) in
     if k < length b then b[k := b ! k OR BITn (i mod LENGTH('n))] else b)"

definition clr_at :: "nat \<Rightarrow> 'n::len word list \<Rightarrow> 'n word list" where
  "clr_at i b = (let k = i div LENGTH('n) in
     if k < length b then b[k := b ! k AND NOT (BITn (i mod LENGTH('n)))] else b)"

definition test_at :: "nat \<Rightarrow> 'n::len word list \<Rightarrow> bool" where
  "test_at i b = (let k = i div LENGTH('n) in
     k < length b \<and> b ! k AND BITn (i mod LENGTH('n)) \<noteq> 0)"

lemma word_and_BITn: "(w :: 'n::len word) AND BITn k \<noteq> 0 \<longleftrightarrow> k < LENGTH('n) \<and> bit w k"
proof
  assume "w AND BITn k \<noteq> 0"
  then obtain i where "bit (w AND BITn k) i" by (metis bit_eqI bit_0_eq bot_apply bot_bool_def)
  then show "k < LENGTH('n) \<and> bit w k" by (auto simp: bit_simps)
next
  assume "k < LENGTH('n) \<and> bit w k"
  then have "bit (w AND BITn k) k" by (simp add: bit_simps)
  then show "w AND BITn k \<noteq> 0" by auto
qed

lemma test_at_bit:
  "test_at i (b :: 'n::len word list) \<longleftrightarrow>
     i div LENGTH('n) < length b \<and> bit (b ! (i div LENGTH('n))) (i mod LENGTH('n))"
  by (simp add: test_at_def Let_def word_and_BITn)

lemma test_at_fits: "test_at i (b :: 'n::len word list) \<Longrightarrow> i div LENGTH('n) < length b"
  by (simp add: test_at_bit)

lemma div_mod_inj: "i div m = j div m \<Longrightarrow> i mod m = j mod m \<Longrightarrow> i = (j :: nat)"
  by (metis div_mult_mod_eq)

lemma test_set_at:
  "test_at j (set_at i (b :: 'n::len word list)) \<longleftrightarrow> test_at j b \<or> (j = i \<and> i div LENGTH('n) < length b)"
  by (auto simp: test_at_bit set_at_def Let_def nth_list_update bit_simps dest: div_mod_inj)

lemma test_clr_at:
  "test_at j (clr_at i (b :: 'n::len word list)) \<longleftrightarrow> test_at j b \<and> j \<noteq> i"
  by (auto simp: test_at_bit clr_at_def Let_def nth_list_update bit_simps dest: div_mod_inj)

lemma length_set_clr_at [simp]: "length (set_at i b) = length b" "length (clr_at i b) = length b"
  by (simp_all add: set_at_def clr_at_def Let_def)

subsection \<open>Module bitmaps\<close>

text \<open>The loops run over the first \<open>cnt\<close> entries of the array of ids.\<close>

definition add_bitmap_bit :: "u8 list \<Rightarrow> u8 list \<Rightarrow> u8 list" where
  "add_bitmap_bit bitmap arr = foldl (\<lambda>b k. set_at (unat k) b) bitmap arr"

definition clr_bitmap_bit :: "u8 list \<Rightarrow> u8 list \<Rightarrow> u8 list" where
  "clr_bitmap_bit bitmap arr = foldl (\<lambda>b k. clr_at (unat k) b) bitmap arr"

definition chk_bitmap_bit :: "u8 list \<Rightarrow> u8 \<Rightarrow> bool" where
  "chk_bitmap_bit bitmap k = test_at (unat k) bitmap"

definition and_bitmaps :: "u8 list \<Rightarrow> u8 list \<Rightarrow> u8 list" where
  "and_bitmaps ref_bitmap bitmap = map2 (AND) bitmap ref_bitmap"

lemma chk_and_bitmaps:
  "length ref = length b \<Longrightarrow> chk_bitmap_bit (and_bitmaps ref b) i \<longleftrightarrow> chk_bitmap_bit b i \<and> chk_bitmap_bit ref i"
  by (auto simp: chk_bitmap_bit_def and_bitmaps_def test_at_bit bit_simps)

subsection \<open>Macid maps\<close>

definition phl_macid_is_used :: "u32 list \<Rightarrow> u16 \<Rightarrow> bool" where
  "phl_macid_is_used m i = test_at (unat i) m"

definition phl_macid_map_set :: "u32 list \<Rightarrow> u16 \<Rightarrow> u32 list" where
  "phl_macid_map_set m i = set_at (unat i) m"

definition phl_macid_map_clr :: "u32 list \<Rightarrow> u16 \<Rightarrow> u32 list" where
  "phl_macid_map_clr m i = clr_at (unat i) m"

subsection \<open>The interface\<close>

text \<open>
  What the users of the bitmaps rely on: a bitmap is a finite set of ids, setting and clearing
  act on one id only, and an id that does not fit is never a member.
\<close>

locale id_bitmap =
  fixes test :: "'b \<Rightarrow> 'i \<Rightarrow> bool"
    and set1 :: "'b \<Rightarrow> 'i \<Rightarrow> 'b"
    and clr1 :: "'b \<Rightarrow> 'i \<Rightarrow> 'b"
    and fits :: "'b \<Rightarrow> 'i \<Rightarrow> bool"
  assumes test_fits: "test b i \<Longrightarrow> fits b i"
    and test_set1: "test (set1 b i) j \<longleftrightarrow> test b j \<or> (j = i \<and> fits b i)"
    and test_clr1: "test (clr1 b i) j \<longleftrightarrow> test b j \<and> j \<noteq> i"
    and fits_set1: "fits (set1 b i) j = fits b j"
    and fits_clr1: "fits (clr1 b i) j = fits b j"
begin

lemma test_set_all:
  "test (foldl set1 b ks) j \<longleftrightarrow> test b j \<or> (j \<in> set ks \<and> fits b j)"
  by (induction ks arbitrary: b) (auto simp: test_set1 fits_set1)

lemma test_clr_all: "test (foldl clr1 b ks) j \<longleftrightarrow> test b j \<and> j \<notin> set ks"
  by (induction ks arbitrary: b) (auto simp: test_clr1)

lemma members_set1: "fits b i \<Longrightarrow> Collect (test (set1 b i)) = insert i (Collect (test b))"
  by (auto simp: test_set1)

lemma members_clr1: "Collect (test (clr1 b i)) = Collect (test b) - {i}"
  by (auto simp: test_clr1)

lemma clr_set_undo: "\<not> test b i \<Longrightarrow> Collect (test (clr1 (set1 b i) i)) = Collect (test b)"
  by (auto simp: test_clr1 test_set1)

end

interpretation mdl_map: id_bitmap chk_bitmap_bit "\<lambda>b i. set_at (unat i) b" "\<lambda>b i. clr_at (unat i) b"
    "\<lambda>b i. unat i div 8 < length b"
  by unfold_locales (auto simp: chk_bitmap_bit_def test_set_at test_clr_at word_unat_eq_iff
      dest!: test_at_fits)

interpretation macid_map: id_bitmap phl_macid_is_used phl_macid_map_set phl_macid_map_clr
    "\<lambda>b i. unat i div 32 < length b"
  by unfold_locales (auto simp: phl_macid_is_used_def phl_macid_map_set_def phl_macid_map_clr_def
      test_set_at test_clr_at word_unat_eq_iff
      dest!: test_at_fits)

text \<open>
  The module bitmaps behave as sets of module ids: after adding a list of ids exactly the
  ids that were there and those of the list that fit into the bitmap are members, after
  clearing a list exactly the others are, and the conjunction of two bitmaps is their
  intersection.
\<close>

theorem bitmap_is_set:
  "(chk_bitmap_bit (add_bitmap_bit b ks) i \<longleftrightarrow>
      chk_bitmap_bit b i \<or> (i \<in> set ks \<and> unat i div 8 < length b)) \<and>
   (chk_bitmap_bit (clr_bitmap_bit b ks) i \<longleftrightarrow> chk_bitmap_bit b i \<and> i \<notin> set ks) \<and>
   (length ref = length b \<longrightarrow>
      (chk_bitmap_bit (and_bitmaps ref b) i \<longleftrightarrow> chk_bitmap_bit b i \<and> chk_bitmap_bit ref i))"
  using mdl_map.test_set_all [of b ks i] mdl_map.test_clr_all [of b ks i]
  by (auto simp: add_bitmap_bit_def clr_bitmap_bit_def chk_and_bitmaps)

lemma bitmap_is_set_witness:
  "chk_bitmap_bit (and_bitmaps [0, 0xff] (add_bitmap_bit [0, 0] [9, 200])) 9"
  using bitmap_is_set [of "[0, 0]" "[9, 200]" 9 "[]"]
    bitmap_is_set [of "add_bitmap_bit [0, 0] [9, 200]" "[]" 9 "[0, 0xff]"]
  by (auto simp: add_bitmap_bit_def) (simp add: set_at_def chk_bitmap_bit_def test_at_bit)

end
