(* ===== verification/Macid.thy ===== *)
theory Macid
  imports PhlBitmap
begin

text \<open>
  The allocation of MAC ids to stations, the macid control section of \<^verbatim>\<open>phl/phl_sta.c\<close>. The
  state is \<open>struct macid_ctl_t\<close>; a station is its address, and the fields of it that the
  code reads here. The lock makes each operation one step.
\<close>

record macid_ctl =
  used_map :: "u32 list"
  used_mld_map :: "u32 list"
  used_legacy_map :: "u32 list"
  bmc_map :: "u32 list"
  wifi_role_usedmap :: "u32 list list"
  wrole_bmc :: "u16 list list"
  mc_sta :: "nat option list"
  max_num :: u16

record dev_cap =
  max_mld_num :: u16
  max_link_num :: u8

record mac_sta =
  ms_self :: nat
  ms_wrole :: "nat option"
  ms_rlink :: nat
  ms_mac_addr :: bytes
  ms_macid :: u16

datatype dev_type = DEV_TYPE_LEGACY | DEV_TYPE_MLD

definition MAX_WIFI_ROLE_NUMBER :: nat where "MAX_WIFI_ROLE_NUMBER = 5"
definition RTW_RLINK_MAX :: nat where "RTW_RLINK_MAX = 2"
definition PHL_MACID_MAX_ARRAY_NUM :: nat where "PHL_MACID_MAX_ARRAY_NUM = 8"

definition bc_addr :: bytes where "bc_addr = replicate 6 0xff"

abbreviation one_link :: "dev_cap \<Rightarrow> bool" where
  "one_link dev \<equiv> max_link_num dev = 1"

subsection \<open>Operations\<close>

definition phl_macid_ctrl_init :: "u16 \<Rightarrow> u16 \<Rightarrow> macid_ctl \<Rightarrow> phl_status \<times> macid_ctl" where
  "phl_macid_ctrl_init hw_num sw_num mc =
     (if hw_num = 0 then (RTW_PHL_STATUS_FAILURE, mc)
      else
        (let m = (if hw_num < sw_num then hw_num else sw_num)
         in (RTW_PHL_STATUS_SUCCESS,
             mc\<lparr>max_num := m,
                wrole_bmc := replicate MAX_WIFI_ROLE_NUMBER (replicate RTW_RLINK_MAX m)\<rparr>)))"

definition phl_macid_ctrl_deinit :: "macid_ctl \<Rightarrow> phl_status \<times> macid_ctl" where
  "phl_macid_ctrl_deinit mc = (RTW_PHL_STATUS_SUCCESS, mc\<lparr>max_num := 0\<rparr>)"

text \<open>\<open>phl_wrole_bcmc_id_set\<close>, on the array of the roles and their links.\<close>

definition phl_wrole_bcmc_id_set :: "macid_ctl \<Rightarrow> nat \<Rightarrow> nat \<Rightarrow> u16 \<Rightarrow> macid_ctl" where
  "phl_wrole_bcmc_id_set mc wrole rlink k =
     mc\<lparr>wrole_bmc := (wrole_bmc mc)[wrole := (wrole_bmc mc ! wrole)[rlink := k]]\<rparr>"

text \<open>The loops over \<open>mid\<close>: all ids from \<open>a\<close> on below \<open>b\<close>.\<close>

definition mids :: "u16 \<Rightarrow> u16 \<Rightarrow> u16 list" where
  "mids a b = map of_nat [unat a..<unat b]"

definition free_mid :: "u32 list \<Rightarrow> u16 list \<Rightarrow> u16 option" where
  "free_mid m ks = find (\<lambda>k. \<not> phl_macid_is_used m k) ks"

definition link_mids :: "dev_cap \<Rightarrow> u16 \<Rightarrow> u16 list" where
  "link_mids dev mid = map (\<lambda>l. mid + max_mld_num dev * of_nat l) [0..<unat (max_link_num dev)]"

definition phl_alloc_mld_macid :: "dev_cap \<Rightarrow> macid_ctl \<Rightarrow> u16 \<Rightarrow> u16 \<times> macid_ctl" where
  "phl_alloc_mld_macid dev mc main_id =
     (if max_num mc = main_id then
        (if one_link dev then
           (case free_mid (used_map mc) (mids 0 (max_num mc)) of
              Some mid \<Rightarrow> (mid, mc) | None \<Rightarrow> (max_num mc, mc))
         else
           (case find (\<lambda>mid. \<not> phl_macid_is_used (used_mld_map mc) mid \<and>
                             \<not> phl_macid_is_used (used_legacy_map mc) mid)
                   (mids 0 (max_mld_num dev)) of
              Some mid \<Rightarrow> (mid, mc\<lparr>used_mld_map := phl_macid_map_set (used_mld_map mc) mid\<rparr>)
            | None \<Rightarrow> (max_num mc, mc)))
      else
        (case free_mid (used_map mc) (link_mids dev (main_id mod max_mld_num dev)) of
           Some mid \<Rightarrow> (mid, mc) | None \<Rightarrow> (max_num mc, mc)))"

text \<open>The second loop of the legacy allocation, with its variable \<open>avail_macid\<close>.\<close>

fun legacy_scan :: "dev_cap \<Rightarrow> macid_ctl \<Rightarrow> u16 list \<Rightarrow> u16 \<Rightarrow> u16 option \<times> u16" where
  "legacy_scan dev mc [] avail = (None, avail)"
| "legacy_scan dev mc (mid # ms) avail =
     (if phl_macid_is_used (used_mld_map mc) mid then legacy_scan dev mc ms avail
      else if \<not> phl_macid_is_used (used_legacy_map mc) mid
      then legacy_scan dev mc ms (if avail = max_num mc then mid else avail)
      else
        (case free_mid (used_map mc) (link_mids dev mid) of
           Some another \<Rightarrow> (Some another, avail)
         | None \<Rightarrow> legacy_scan dev mc ms avail))"

definition phl_alloc_legacy_macid :: "dev_cap \<Rightarrow> macid_ctl \<Rightarrow> u16 \<times> macid_ctl" where
  "phl_alloc_legacy_macid dev mc =
     (let finish = (\<lambda>avail. (avail,
            if avail \<noteq> max_num mc
            then mc\<lparr>used_legacy_map := phl_macid_map_set (used_legacy_map mc) avail\<rparr> else mc))
      in if one_link dev then
           (case free_mid (used_map mc) (mids 0 (max_num mc)) of
              Some mid \<Rightarrow> (mid, mc) | None \<Rightarrow> finish (max_num mc))
         else
           (let rsvd = max_mld_num dev * ucast (max_link_num dev);
                high = (if rsvd > 0 \<and> max_num mc > rsvd
                        then free_mid (used_map mc) (mids rsvd (max_num mc)) else None)
            in case high of
                 Some mid \<Rightarrow> (mid, mc)
               | None \<Rightarrow>
                   (case legacy_scan dev mc (mids 0 (max_mld_num dev)) (max_num mc) of
                      (Some mid, _) \<Rightarrow> (mid, mc)
                    | (None, avail) \<Rightarrow> finish avail)))"

definition phl_alloc_macid ::
  "dev_cap \<Rightarrow> dev_type \<Rightarrow> u16 \<Rightarrow> macid_ctl \<Rightarrow> mac_sta \<Rightarrow> phl_status \<times> macid_ctl \<times> mac_sta" where
  "phl_alloc_macid dev dtype main_id mc sta =
     (case ms_wrole sta of
        None \<Rightarrow> (RTW_PHL_STATUS_FAILURE, mc, sta)
      | Some wrole \<Rightarrow>
          (let (mid, mc) = (if dtype = DEV_TYPE_MLD then phl_alloc_mld_macid dev mc main_id
                            else phl_alloc_legacy_macid dev mc)
           in if mid = max_num mc
              then (RTW_PHL_STATUS_FAILURE, mc, sta\<lparr>ms_macid := max_num mc\<rparr>)
              else
                (let mc = mc\<lparr>used_map := phl_macid_map_set (used_map mc) mid,
                             wifi_role_usedmap := (wifi_role_usedmap mc)
                               [wrole := phl_macid_map_set (wifi_role_usedmap mc ! wrole) mid],
                             mc_sta := (mc_sta mc)[unat mid := Some (ms_self sta)]\<rparr>;
                     mc = (if ms_mac_addr sta = bc_addr
                           then phl_wrole_bcmc_id_set
                                  (mc\<lparr>bmc_map := phl_macid_map_set (bmc_map mc) mid\<rparr>)
                                  wrole (ms_rlink sta) mid
                           else mc)
                 in (RTW_PHL_STATUS_SUCCESS, mc, sta\<lparr>ms_macid := mid\<rparr>))))"

text \<open>The role of the station is read without a check; a station without one is not released.\<close>

definition phl_release_macid ::
  "dev_cap \<Rightarrow> macid_ctl \<Rightarrow> mac_sta \<Rightarrow> phl_status \<times> macid_ctl \<times> mac_sta" where
  "phl_release_macid dev mc sta =
     (let k = ms_macid sta; sta' = sta\<lparr>ms_macid := max_num mc\<rparr>
      in if k \<ge> max_num mc then (RTW_PHL_STATUS_FAILURE, mc, sta')
         else if \<not> phl_macid_is_used (used_map mc) k then (RTW_PHL_STATUS_FAILURE, mc, sta')
         else
           (let wrole = the (ms_wrole sta);
                mc = mc\<lparr>used_map := phl_macid_map_clr (used_map mc) k,
                        wifi_role_usedmap := (wifi_role_usedmap mc)
                          [wrole := phl_macid_map_clr (wifi_role_usedmap mc ! wrole) k],
                        mc_sta := (mc_sta mc)[unat k := None]\<rparr>;
                mc = (if ms_mac_addr sta = bc_addr
                      then mc\<lparr>bmc_map := phl_macid_map_clr (bmc_map mc) k\<rparr> else mc);
                mc = (if max_mld_num dev \<noteq> 0
                      then (let mid = k mod max_mld_num dev
                            in if list_all (\<lambda>m. \<not> phl_macid_is_used (used_map mc) m) (link_mids dev mid)
                               then mc\<lparr>used_mld_map := phl_macid_map_clr (used_mld_map mc) mid,
                                       used_legacy_map := phl_macid_map_clr (used_legacy_map mc) mid\<rparr>
                               else mc)
                      else mc)
            in (RTW_PHL_STATUS_SUCCESS, mc, sta')))"

definition rtw_phl_wrole_bcmc_id_get :: "macid_ctl \<Rightarrow> nat \<Rightarrow> nat \<Rightarrow> u16" where
  "rtw_phl_wrole_bcmc_id_get mc wrole rlink = wrole_bmc mc ! wrole ! rlink"

definition rtw_phl_get_macid_max_num :: "macid_ctl \<Rightarrow> u16" where
  "rtw_phl_get_macid_max_num mc = max_num mc"

definition rtw_phl_macid_is_bmc :: "macid_ctl \<Rightarrow> u16 \<Rightarrow> bool" where
  "rtw_phl_macid_is_bmc mc macid =
     (if macid \<ge> max_num mc then True else phl_macid_is_used (bmc_map mc) macid)"

definition rtw_phl_macid_is_used :: "macid_ctl \<Rightarrow> u16 \<Rightarrow> bool" where
  "rtw_phl_macid_is_used mc macid =
     (if macid \<ge> max_num mc then True else phl_macid_is_used (used_map mc) macid)"

text \<open>The loops over the roles carry the bits of the roles seen so far.\<close>

fun shared_loop :: "u32 list list \<Rightarrow> u16 \<Rightarrow> bool \<Rightarrow> bool" where
  "shared_loop [] macid seen = False"
| "shared_loop (m # ms) macid seen =
     (if phl_macid_is_used m macid then (if seen then True else shared_loop ms macid True)
      else shared_loop ms macid seen)"

definition rtw_phl_macid_is_wrole_shared :: "macid_ctl \<Rightarrow> u16 \<Rightarrow> bool" where
  "rtw_phl_macid_is_wrole_shared mc macid =
     (if macid \<ge> max_num mc then False
      else shared_loop (take MAX_WIFI_ROLE_NUMBER (wifi_role_usedmap mc)) macid False)"

fun specific_loop :: "u32 list list \<Rightarrow> nat \<Rightarrow> nat \<Rightarrow> u16 \<Rightarrow> bool \<Rightarrow> bool" where
  "specific_loop [] i wrole macid seen = seen"
| "specific_loop (m # ms) i wrole macid seen =
     (if phl_macid_is_used m macid
      then (if seen \<or> i \<noteq> wrole then False else specific_loop ms (i + 1) wrole macid True)
      else specific_loop ms (i + 1) wrole macid seen)"

definition rtw_phl_macid_is_wrole_specific :: "macid_ctl \<Rightarrow> u16 \<Rightarrow> nat \<Rightarrow> bool" where
  "rtw_phl_macid_is_wrole_specific mc macid wrole =
     (if macid \<ge> max_num mc then False
      else specific_loop (take MAX_WIFI_ROLE_NUMBER (wifi_role_usedmap mc)) 0 wrole macid False)"

definition rtw_phl_get_stainfo_by_macid :: "macid_ctl \<Rightarrow> u16 \<Rightarrow> nat option" where
  "rtw_phl_get_stainfo_by_macid mc macid =
     (if macid \<ge> max_num mc then None
      else if phl_macid_is_used (used_map mc) macid then slot (mc_sta mc) (unat macid) else None)"

text \<open>The search reads the address of every station in use; \<open>mac_of\<close> are the stations.\<close>

definition rtw_phl_get_stainfo_by_addr_ex :: "(nat \<Rightarrow> bytes) \<Rightarrow> macid_ctl \<Rightarrow> bytes \<Rightarrow> nat option" where
  "rtw_phl_get_stainfo_by_addr_ex mac_of mc addr =
     (case find (\<lambda>mid. phl_macid_is_used (used_map mc) mid \<and>
                 (\<exists>s \<in> set_option (slot (mc_sta mc) (unat mid)). mac_of s = addr))
             (mids 0 (max_num mc)) of
        Some mid \<Rightarrow> slot (mc_sta mc) (unat mid) | None \<Rightarrow> None)"

definition rtw_phl_get_macid_by_addr :: "(nat \<Rightarrow> bytes) \<Rightarrow> (nat \<Rightarrow> u16) \<Rightarrow> macid_ctl \<Rightarrow> bytes \<Rightarrow> u16" where
  "rtw_phl_get_macid_by_addr mac_of macid_of mc addr =
     (case rtw_phl_get_stainfo_by_addr_ex mac_of mc addr of
        Some s \<Rightarrow> macid_of s | None \<Rightarrow> max_num mc)"

end
