(* ===== verification/MacidProps.thy ===== *)
theory MacidProps
  imports Macid
begin

text \<open>
  The invariant of the MAC id tables and its consequences: an id is in use exactly when one
  station and one role have it, and in the multi-link layout every id in use below the
  reserved range is flagged as belonging to an MLD or to legacy stations.
\<close>

definition dev_ok :: "dev_cap \<Rightarrow> macid_ctl \<Rightarrow> bool" where
  "dev_ok dev mc \<longleftrightarrow> unat (max_mld_num dev) * unat (max_link_num dev) \<le> unat (max_num mc) \<and>
     0 < max_mld_num dev \<and> 0 < max_link_num dev"

definition flagged :: "dev_cap \<Rightarrow> macid_ctl \<Rightarrow> u16 \<Rightarrow> bool" where
  "flagged dev mc i \<longleftrightarrow> phl_macid_is_used (used_mld_map mc) (i mod max_mld_num dev) \<or>
     phl_macid_is_used (used_legacy_map mc) (i mod max_mld_num dev)"

definition role_has :: "macid_ctl \<Rightarrow> nat \<Rightarrow> u16 \<Rightarrow> bool" where
  "role_has mc w i \<longleftrightarrow> phl_macid_is_used (wifi_role_usedmap mc ! w) i"

definition macid_shape :: "macid_ctl \<Rightarrow> bool" where
  "macid_shape mc \<longleftrightarrow> length (used_map mc) = 8 \<and> length (used_mld_map mc) = 8 \<and>
     length (used_legacy_map mc) = 8 \<and> length (bmc_map mc) = 8 \<and>
     length (wifi_role_usedmap mc) = MAX_WIFI_ROLE_NUMBER \<and>
     (\<forall>w < MAX_WIFI_ROLE_NUMBER. length (wifi_role_usedmap mc ! w) = 8) \<and>
     length (mc_sta mc) = 256 \<and> unat (max_num mc) \<le> 256"

definition one_role :: "macid_ctl \<Rightarrow> bool" where
  "one_role mc \<longleftrightarrow>
     (\<forall>i w w'. w < MAX_WIFI_ROLE_NUMBER \<longrightarrow> w' < MAX_WIFI_ROLE_NUMBER \<longrightarrow>
        role_has mc w i \<longrightarrow> role_has mc w' i \<longrightarrow> w = w')"

definition macid_wf :: "dev_cap \<Rightarrow> macid_ctl \<Rightarrow> bool" where
  "macid_wf dev mc \<longleftrightarrow> macid_shape mc \<and>
     (\<forall>i. phl_macid_is_used (used_map mc) i \<longleftrightarrow> slot (mc_sta mc) (unat i) \<noteq> None) \<and>
     (\<forall>i. phl_macid_is_used (used_map mc) i \<longrightarrow> i < max_num mc) \<and>
     (\<forall>i. phl_macid_is_used (used_map mc) i \<longleftrightarrow> (\<exists>w < MAX_WIFI_ROLE_NUMBER. role_has mc w i)) \<and>
     one_role mc \<and>
     (\<not> one_link dev \<longrightarrow>
        (\<forall>i. phl_macid_is_used (used_map mc) i \<longrightarrow>
           unat i < unat (max_mld_num dev) * unat (max_link_num dev) \<longrightarrow> flagged dev mc i))"

text \<open>A main id of another link of an MLD belongs to an MLD that is registered.\<close>

definition main_ok :: "dev_cap \<Rightarrow> dev_type \<Rightarrow> u16 \<Rightarrow> macid_ctl \<Rightarrow> bool" where
  "main_ok dev dtype main_id mc \<longleftrightarrow>
     (dtype = DEV_TYPE_MLD \<and> main_id \<noteq> max_num mc \<and> \<not> one_link dev \<longrightarrow> flagged dev mc main_id)"

lemma set_mids: "i \<in> set (mids a b) \<longleftrightarrow> a \<le> i \<and> i < b"
proof
  assume "i \<in> set (mids a b)"
  then obtain n where n: "i = of_nat n" "unat a \<le> n" "n < unat b" by (auto simp: mids_def)
  moreover have "unat b < 2 ^ LENGTH(16)" by (rule unsigned_less)
  ultimately have "unat i = n" by (simp add: unat_of_nat)
  with n show "a \<le> i \<and> i < b" by (simp add: word_le_nat_alt word_less_nat_alt)
next
  assume "a \<le> i \<and> i < b"
  then show "i \<in> set (mids a b)"
    by (auto simp: mids_def word_le_nat_alt word_less_nat_alt intro!: image_eqI [of _ _ "unat i"])
qed

lemma free_mid_Some: "free_mid m ks = Some k \<Longrightarrow> k \<in> set ks \<and> \<not> phl_macid_is_used m k"
  by (auto simp: free_mid_def find_Some_iff)

lemma free_mid_None: "free_mid m ks = None \<longleftrightarrow> (\<forall>k \<in> set ks. phl_macid_is_used m k)"
  by (auto simp: free_mid_def find_None_iff)

lemma find_SomeD: "find P xs = Some x \<Longrightarrow> x \<in> set xs \<and> P x"
  by (auto simp: find_Some_iff)

lemma link_mids_range:
  assumes "dev_ok dev mc" "unat (max_num mc) \<le> 256" "mid < max_mld_num dev" "k \<in> set (link_mids dev mid)"
  shows "unat k < unat (max_mld_num dev) * unat (max_link_num dev) \<and> k < max_num mc \<and>
         k mod max_mld_num dev = mid"
proof -
  let ?M = "unat (max_mld_num dev)" and ?L = "unat (max_link_num dev)"
  from assms(4) obtain l where l: "l < ?L" "k = mid + max_mld_num dev * of_nat l"
    by (auto simp: link_mids_def)
  have R: "?M * ?L \<le> 256" using assms(1,2) by (simp add: dev_ok_def)
  have mid: "unat mid < ?M" using assms(3) by (simp add: word_less_nat_alt)
  have "unat mid + ?M * l < ?M + ?M * l" using mid by simp
  also have "\<dots> = ?M * (l + 1)" by simp
  also have "\<dots> \<le> ?M * ?L" using l(1) by (intro mult_le_mono2) simp
  finally have lt: "unat mid + ?M * l < ?M * ?L" .
  have "?M * l \<le> 256" using lt R by simp
  moreover have "l < 65536" using l(1) unat_bound [of "max_link_num dev"] by simp
  ultimately have k: "unat k = unat mid + ?M * l"
    using lt R by (simp add: l(2) unat_word_ariths unat_of_nat)
  then have "unat (k mod max_mld_num dev) = unat mid" using mid by (simp add: unat_mod)
  with k lt assms(1) show ?thesis by (simp add: dev_ok_def word_less_nat_alt word_unat_eq_iff)
qed

subsection \<open>Picking an id\<close>

text \<open>
  What the two allocation functions do to the state: only the flags change, and a result other
  than \<open>max_num\<close> is a free id whose base is flagged when it lies in the reserved range.
\<close>

definition picks :: "dev_cap \<Rightarrow> macid_ctl \<Rightarrow> u16 \<times> macid_ctl \<Rightarrow> bool" where
  "picks dev mc res \<longleftrightarrow>
     snd res = mc\<lparr>used_mld_map := used_mld_map (snd res), used_legacy_map := used_legacy_map (snd res)\<rparr> \<and>
     length (used_mld_map (snd res)) = 8 \<and> length (used_legacy_map (snd res)) = 8 \<and>
     (\<forall>i. flagged dev mc i \<longrightarrow> flagged dev (snd res) i) \<and>
     (fst res = max_num mc \<and> snd res = mc \<or>
      fst res < max_num mc \<and> \<not> phl_macid_is_used (used_map mc) (fst res) \<and>
      (one_link dev \<or> (unat (fst res) < unat (max_mld_num dev) * unat (max_link_num dev) \<longrightarrow>
         flagged dev (snd res) (fst res))))"

lemma picks_none: "macid_shape mc \<Longrightarrow> picks dev mc (max_num mc, mc)"
  by (simp add: picks_def macid_shape_def)

lemma picks_free:
  "macid_shape mc \<Longrightarrow> k < max_num mc \<Longrightarrow> \<not> phl_macid_is_used (used_map mc) k \<Longrightarrow>
   one_link dev \<or> (unat k < unat (max_mld_num dev) * unat (max_link_num dev) \<longrightarrow> flagged dev mc k) \<Longrightarrow>
   picks dev mc (k, mc)"
  by (simp add: picks_def macid_shape_def)

lemma fits_macid: "length m = 8 \<Longrightarrow> unat i < 256 \<Longrightarrow> unat i div 32 < length m"
  by (simp add: div_less_iff_less_mult)

lemma base_small:
  assumes "dev_ok dev mc" "macid_shape mc" "mid < max_mld_num dev"
  shows "mid < max_num mc \<and> unat mid < 256 \<and> mid mod max_mld_num dev = mid"
proof -
  let ?M = "unat (max_mld_num dev)"
  have "1 \<le> unat (max_link_num dev)" using assms(1) by (simp add: dev_ok_def word_less_nat_alt)
  then have "?M \<le> ?M * unat (max_link_num dev)" by simp
  also have "\<dots> \<le> unat (max_num mc)" using assms(1) by (simp add: dev_ok_def)
  finally have "?M \<le> unat (max_num mc)" .
  with assms(2,3) show ?thesis
    by (simp add: macid_shape_def word_less_nat_alt word_unat_eq_iff unat_mod)
qed

lemma picks_new:
  assumes "dev_ok dev mc" "macid_wf dev mc" "\<not> one_link dev" "mid < max_mld_num dev"
    and "\<not> phl_macid_is_used (used_mld_map mc) mid" "\<not> phl_macid_is_used (used_legacy_map mc) mid"
  shows "picks dev mc (mid, mc\<lparr>used_mld_map := phl_macid_map_set (used_mld_map mc) mid\<rparr>) \<and>
         picks dev mc (mid, mc\<lparr>used_legacy_map := phl_macid_map_set (used_legacy_map mc) mid\<rparr>)"
proof -
  have sh: "macid_shape mc" using assms(2) by (simp add: macid_wf_def)
  note small = base_small [OF assms(1) sh assms(4)]
  have "unat mid < unat (max_mld_num dev) * unat (max_link_num dev)"
    using assms(1,4) by (auto simp: dev_ok_def word_less_nat_alt intro: less_le_trans)
  moreover have "\<not> flagged dev mc mid" using assms(5,6) small by (simp add: flagged_def)
  ultimately have free: "\<not> phl_macid_is_used (used_map mc) mid"
    using assms(2,3) unfolding macid_wf_def by blast
  have fit: "unat mid div 32 < length (used_mld_map mc)" "unat mid div 32 < length (used_legacy_map mc)"
    using sh small by (auto simp: macid_shape_def intro: fits_macid)
  have "length (phl_macid_map_set m k) = length m" for m k by (simp add: phl_macid_map_set_def)
  then show ?thesis using free small sh fit
    by (simp add: picks_def flagged_def macid_map.test_set1 macid_shape_def)
qed

lemma picks_mld:
  assumes "dev_ok dev mc" "macid_wf dev mc" "main_ok dev DEV_TYPE_MLD main_id mc"
  shows "picks dev mc (phl_alloc_mld_macid dev mc main_id)"
proof -
  have sh: "macid_shape mc" using assms(2) by (simp add: macid_wf_def)
  have M: "0 < max_mld_num dev" using assms(1) by (simp add: dev_ok_def)
  consider (one) "max_num mc = main_id" "one_link dev" | (new) "max_num mc = main_id" "\<not> one_link dev"
    | (link) "max_num mc \<noteq> main_id" by blast
  then show ?thesis
  proof cases
    case one
    with sh show ?thesis
      by (auto simp: phl_alloc_mld_macid_def set_mids split: option.splits
          intro!: picks_none picks_free dest!: free_mid_Some)
  next
    case new
    with sh picks_new [OF assms(1,2) new(2)] show ?thesis
      by (auto simp: phl_alloc_mld_macid_def set_mids split: option.splits
          intro!: picks_none dest!: find_SomeD)
  next
    case link
    let ?m = "main_id mod max_mld_num dev"
    have m: "?m < max_mld_num dev" using M by (simp add: word_mod_less_divisor)
    have "picks dev mc (k, mc)" if "free_mid (used_map mc) (link_mids dev ?m) = Some k" for k
    proof -
      from free_mid_Some [OF that] have k: "k \<in> set (link_mids dev ?m)"
        "\<not> phl_macid_is_used (used_map mc) k" by auto
      have "k < max_num mc \<and> k mod max_mld_num dev = ?m"
        using link_mids_range [OF assms(1) _ m k(1)] sh by (simp add: macid_shape_def)
      with k sh assms(3) link show ?thesis
        by (auto simp: main_ok_def flagged_def intro!: picks_free)
    qed
    with link sh show ?thesis
      by (auto simp: phl_alloc_mld_macid_def split: option.splits intro: picks_none)
  qed
qed

lemma legacy_scan_spec:
  assumes "dev_ok dev mc" "macid_shape mc" "\<forall>i \<in> set ms. i < max_mld_num dev"
    and "avail = max_num mc \<or> avail < max_mld_num dev \<and>
         \<not> phl_macid_is_used (used_mld_map mc) avail \<and> \<not> phl_macid_is_used (used_legacy_map mc) avail"
  shows "case legacy_scan dev mc ms avail of
           (Some k, _) \<Rightarrow> k < max_num mc \<and> \<not> phl_macid_is_used (used_map mc) k \<and> flagged dev mc k
         | (None, a) \<Rightarrow> a = max_num mc \<or> a < max_mld_num dev \<and>
             \<not> phl_macid_is_used (used_mld_map mc) a \<and> \<not> phl_macid_is_used (used_legacy_map mc) a"
  using assms(3,4)
proof (induction ms arbitrary: avail)
  case (Cons mid ms)
  have ms: "\<forall>i \<in> set ms. i < max_mld_num dev" and mid: "mid < max_mld_num dev"
    using Cons.prems(1) by auto
  consider (mld) "phl_macid_is_used (used_mld_map mc) mid"
    | (fresh) "\<not> phl_macid_is_used (used_mld_map mc) mid" "\<not> phl_macid_is_used (used_legacy_map mc) mid"
    | (legacy) "\<not> phl_macid_is_used (used_mld_map mc) mid" "phl_macid_is_used (used_legacy_map mc) mid"
    by blast
  then show ?case
  proof cases
    case mld
    with Cons.IH [OF ms Cons.prems(2)] show ?thesis by simp
  next
    case fresh
    define a where "a = (if avail = max_num mc then mid else avail)"
    have scan: "legacy_scan dev mc (mid # ms) avail = legacy_scan dev mc ms a"
      using fresh by (simp add: a_def)
    have "a = max_num mc \<or> a < max_mld_num dev \<and>
        \<not> phl_macid_is_used (used_mld_map mc) a \<and> \<not> phl_macid_is_used (used_legacy_map mc) a"
      using fresh mid Cons.prems(2) by (auto simp: a_def)
    from Cons.IH [OF ms this] show ?thesis unfolding scan .
  next
    case legacy
    show ?thesis
    proof (cases "free_mid (used_map mc) (link_mids dev mid)")
      case None
      with Cons.IH [OF ms Cons.prems(2)] legacy show ?thesis by simp
    next
      case (Some k)
      from free_mid_Some [OF Some] have k: "k \<in> set (link_mids dev mid)"
        "\<not> phl_macid_is_used (used_map mc) k" by auto
      have "k < max_num mc" "k mod max_mld_num dev = mid"
        using link_mids_range [OF assms(1) _ mid k(1)] assms(2) by (auto simp: macid_shape_def)
      with k legacy Some show ?thesis by (simp add: flagged_def)
    qed
  qed
qed simp

lemma picks_legacy:
  assumes "dev_ok dev mc" "macid_wf dev mc"
  shows "picks dev mc (phl_alloc_legacy_macid dev mc)"
proof (cases "one_link dev")
  case True
  have sh: "macid_shape mc" using assms(2) by (simp add: macid_wf_def)
  show ?thesis
  proof (cases "free_mid (used_map mc) (mids 0 (max_num mc))")
    case None
    with True picks_none [OF sh] show ?thesis by (simp add: phl_alloc_legacy_macid_def Let_def)
  next
    case (Some k)
    with free_mid_Some [OF Some] True picks_free [OF sh, of k dev] show ?thesis
      by (simp add: phl_alloc_legacy_macid_def Let_def set_mids)
  qed
next
  case False
  have sh: "macid_shape mc" using assms(2) by (simp add: macid_wf_def)
  let ?R = "max_mld_num dev * ucast (max_link_num dev)"
  let ?high = "if ?R > 0 \<and> max_num mc > ?R then free_mid (used_map mc) (mids ?R (max_num mc)) else None"
  have "unat (max_mld_num dev) * unat (max_link_num dev) \<le> 256"
    using assms(1) sh by (simp add: dev_ok_def macid_shape_def)
  moreover have "unat (max_link_num dev) < 65536" using unat_bound [of "max_link_num dev"] by simp
  ultimately have R: "unat ?R = unat (max_mld_num dev) * unat (max_link_num dev)"
    by (simp add: unat_word_ariths unsigned_ucast_eq take_bit_nat_eq_self)
  show ?thesis
  proof (cases ?high)
    case (Some k)
    then have "k \<in> set (mids ?R (max_num mc))" "\<not> phl_macid_is_used (used_map mc) k"
      by (auto dest: free_mid_Some split: if_splits)
    then have "picks dev mc (k, mc)" using R sh
      by (intro picks_free) (auto simp: set_mids word_le_nat_alt)
    with Some False show ?thesis by (simp add: phl_alloc_legacy_macid_def Let_def)
  next
    case None
    obtain r a where scan: "legacy_scan dev mc (mids 0 (max_mld_num dev)) (max_num mc) = (r, a)" by fastforce
    have "\<forall>i \<in> set (mids 0 (max_mld_num dev)). i < max_mld_num dev" by (simp add: set_mids)
    from legacy_scan_spec [OF assms(1) sh this, of "max_num mc"] scan
    have s: "case r of Some k \<Rightarrow> k < max_num mc \<and> \<not> phl_macid_is_used (used_map mc) k \<and> flagged dev mc k
        | None \<Rightarrow> a = max_num mc \<or> a < max_mld_num dev \<and>
             \<not> phl_macid_is_used (used_mld_map mc) a \<and> \<not> phl_macid_is_used (used_legacy_map mc) a"
      by (simp split: option.splits)
    show ?thesis
    proof (cases r)
      case (Some k)
      with s sh have "picks dev mc (k, mc)" by (intro picks_free) auto
      with Some None False scan show ?thesis by (simp add: phl_alloc_legacy_macid_def Let_def)
    next
      case rnone: None
      have res: "phl_alloc_legacy_macid dev mc = (a,
          if a \<noteq> max_num mc then mc\<lparr>used_legacy_map := phl_macid_map_set (used_legacy_map mc) a\<rparr> else mc)"
        using rnone None False scan by (simp add: phl_alloc_legacy_macid_def Let_def)
      from s rnone picks_new [OF assms False, of a] picks_none [OF sh, of dev] show ?thesis
        unfolding res by (cases "a = max_num mc") auto
    qed
  qed
qed

subsection \<open>Allocation and release\<close>

lemma role_update:
  "length ms = n \<Longrightarrow> w < n \<Longrightarrow> ms[w := m] ! w' = (if w' = w then m else ms ! w')"
  by simp

lemma macid_wf_bmc:
  "macid_wf dev mc \<Longrightarrow> length b = 8 \<Longrightarrow> macid_wf dev (mc\<lparr>bmc_map := b, wrole_bmc := x\<rparr>)"
proof -
  assume wf: "macid_wf dev mc" and b: "length b = 8"
  define mc' where "mc' = mc\<lparr>bmc_map := b, wrole_bmc := x\<rparr>"
  have f: "used_map mc' = used_map mc" "used_mld_map mc' = used_mld_map mc"
    "used_legacy_map mc' = used_legacy_map mc" "bmc_map mc' = b"
    "wifi_role_usedmap mc' = wifi_role_usedmap mc" "mc_sta mc' = mc_sta mc" "max_num mc' = max_num mc"
    by (simp_all add: mc'_def)
  have "one_role mc' = one_role mc" by (simp only: one_role_def role_has_def f)
  with wf b have "macid_wf dev mc'"
    unfolding macid_wf_def macid_shape_def role_has_def flagged_def f by blast
  then show ?thesis by (simp only: mc'_def)
qed

lemma alloc_macid_spec:
  assumes "dev_ok dev mc" "macid_wf dev mc" "main_ok dev dtype main_id mc"
    and "ms_wrole sta = Some w" "w < MAX_WIFI_ROLE_NUMBER"
    and "phl_alloc_macid dev dtype main_id mc sta = (st, mc', sta')"
  shows "macid_wf dev mc' \<and>
     (if st = RTW_PHL_STATUS_SUCCESS
      then ms_macid sta' < max_num mc \<and> \<not> phl_macid_is_used (used_map mc) (ms_macid sta') \<and>
        (\<forall>i. phl_macid_is_used (used_map mc') i \<longleftrightarrow> phl_macid_is_used (used_map mc) i \<or> i = ms_macid sta') \<and>
        rtw_phl_get_stainfo_by_macid mc' (ms_macid sta') = Some (ms_self sta) \<and> role_has mc' w (ms_macid sta')
      else st = RTW_PHL_STATUS_FAILURE \<and> mc' = mc \<and> ms_macid sta' = max_num mc)"
proof -
  obtain mid mc1 where res: "(if dtype = DEV_TYPE_MLD then phl_alloc_mld_macid dev mc main_id
      else phl_alloc_legacy_macid dev mc) = (mid, mc1)" by fastforce
  have "picks dev mc (mid, mc1)"
    unfolding res [symmetric] using picks_mld [OF assms(1,2)] picks_legacy [OF assms(1,2)] assms(3)
    by (cases dtype) auto
  then obtain m l where mc1: "mc1 = mc\<lparr>used_mld_map := m, used_legacy_map := l\<rparr>" "length m = 8" "length l = 8"
      "\<And>i. flagged dev mc i \<Longrightarrow> flagged dev mc1 i" and
    pick: "mid = max_num mc \<and> mc1 = mc \<or> mid < max_num mc \<and> \<not> phl_macid_is_used (used_map mc) mid \<and>
      (one_link dev \<or> (unat mid < unat (max_mld_num dev) * unat (max_link_num dev) \<longrightarrow> flagged dev mc1 mid))"
    unfolding picks_def by (metis fst_conv snd_conv)
  show ?thesis
  proof (cases "mid = max_num mc")
    case True
    with pick have "mc1 = mc" by auto
    with True assms res show ?thesis by (auto simp: phl_alloc_macid_def Let_def split: if_splits)
  next
    case False
    with pick have mid: "mid < max_num mc" "\<not> phl_macid_is_used (used_map mc) mid" by auto
    note wf = assms(2) [unfolded macid_wf_def macid_shape_def]
    have small: "unat mid < 256" using mid wf by (simp add: word_less_nat_alt)
    let ?mc = "mc1\<lparr>used_map := phl_macid_map_set (used_map mc) mid,
        wifi_role_usedmap := (wifi_role_usedmap mc)[w := phl_macid_map_set (wifi_role_usedmap mc ! w) mid],
        mc_sta := (mc_sta mc)[unat mid := Some (ms_self sta)]\<rparr>"
    have len: "length (phl_macid_map_set u i) = length u" for u i by (simp add: phl_macid_map_set_def)
    have used: "phl_macid_is_used (used_map ?mc) i \<longleftrightarrow> phl_macid_is_used (used_map mc) i \<or> i = mid" for i
      using wf small fits_macid by (auto simp: macid_map.test_set1)
    have role: "role_has ?mc w' i \<longleftrightarrow> role_has mc w' i \<or> (w' = w \<and> i = mid)" if "w' < MAX_WIFI_ROLE_NUMBER" for w' i
      using wf small fits_macid that assms(5) by (auto simp: macid_map.test_set1 role_has_def nth_list_update)
    have sta: "slot (mc_sta ?mc) (unat i) = (if i = mid then Some (ms_self sta) else slot (mc_sta mc) (unat i))" for i
      using wf small by (auto simp: slot_update word_unat_eq_iff)
    have flag: "flagged dev ?mc i" if "flagged dev mc i \<or> flagged dev mc1 i" for i
      using that mc1(4) by (auto simp: flagged_def)
    have wf2: "macid_wf dev ?mc"
      unfolding macid_wf_def
    proof (intro conjI)
      show "macid_shape ?mc" using wf mc1 assms(5)
        by (auto simp: macid_shape_def len nth_list_update)
      show "\<forall>i. phl_macid_is_used (used_map ?mc) i \<longleftrightarrow> slot (mc_sta ?mc) (unat i) \<noteq> None"
        using used sta wf by simp
      show "\<forall>i. phl_macid_is_used (used_map ?mc) i \<longrightarrow> i < max_num ?mc"
        using used wf mid by (auto simp: mc1)
      show "\<forall>i. phl_macid_is_used (used_map ?mc) i \<longleftrightarrow> (\<exists>w < MAX_WIFI_ROLE_NUMBER. role_has ?mc w i)"
        using used role wf assms(5) by metis
      have "\<not> role_has mc w' mid" if "w' < MAX_WIFI_ROLE_NUMBER" for w' using wf mid that by blast
      then show "one_role ?mc" using role wf unfolding one_role_def by metis
      show "\<not> one_link dev \<longrightarrow> (\<forall>i. phl_macid_is_used (used_map ?mc) i \<longrightarrow>
          unat i < unat (max_mld_num dev) * unat (max_link_num dev) \<longrightarrow> flagged dev ?mc i)"
        using used flag wf pick False by metis
    qed
    let ?bmc = "?mc\<lparr>bmc_map := phl_macid_map_set (bmc_map mc) mid,
        wrole_bmc := (wrole_bmc mc)[w := (wrole_bmc mc ! w)[ms_rlink sta := mid]]\<rparr>"
    have mn: "mid \<noteq> max_num mc1" using False mc1(1) by simp
    have r: "st = RTW_PHL_STATUS_SUCCESS" "sta' = sta\<lparr>ms_macid := mid\<rparr>"
      "mc' = (if ms_mac_addr sta = bc_addr then ?bmc else ?mc)"
      using assms(6) unfolding phl_alloc_macid_def assms(4) option.case res Let_def prod.case if_not_P [OF mn]
      unfolding mc1(1) by (auto simp: phl_wrole_bcmc_id_set_def)
    have "length (phl_macid_map_set (bmc_map mc) mid) = 8" using wf len by simp
    from macid_wf_bmc [OF wf2 this] wf2 have "macid_wf dev mc'" unfolding r(3) by simp
    moreover have "used_map mc' = used_map ?mc" "mc_sta mc' = mc_sta ?mc" "max_num mc' = max_num mc"
      "wifi_role_usedmap mc' = wifi_role_usedmap ?mc" unfolding r(3) by (simp_all add: mc1(1))
    ultimately show ?thesis using used sta [of mid] role [OF assms(5), of mid] mid r(1,2)
      by (simp add: rtw_phl_get_stainfo_by_macid_def role_has_def)
  qed
qed

lemma link_mids_all:
  assumes "dev_ok dev mc" "unat (max_num mc) \<le> 256"
    and "unat i < unat (max_mld_num dev) * unat (max_link_num dev)"
  shows "i \<in> set (link_mids dev (i mod max_mld_num dev))"
proof -
  let ?M = "unat (max_mld_num dev)" and ?l = "unat i div unat (max_mld_num dev)"
  have M: "0 < ?M" using assms(1) by (simp add: dev_ok_def word_less_nat_alt)
  then have l: "?l < unat (max_link_num dev)"
    using assms(3) by (simp add: less_mult_imp_div_less mult.commute)
  have "i = (i mod max_mld_num dev) + max_mld_num dev * (i div max_mld_num dev)"
    by (metis add.commute mult_div_mod_eq)
  moreover have "i div max_mld_num dev = of_nat ?l" by (simp add: word_unat_eq_iff unat_div unat_of_nat
        take_bit_nat_eq_self order.strict_trans1 [OF div_le_dividend unat_bound [of i, simplified]])
  ultimately show ?thesis using l by (auto simp: link_mids_def intro!: image_eqI [of _ _ ?l])
qed

text \<open>The part of the release that clears the flags of a base without a used id.\<close>

definition drop_flags :: "dev_cap \<Rightarrow> u16 \<Rightarrow> macid_ctl \<Rightarrow> macid_ctl" where
  "drop_flags dev mid mc =
     (if list_all (\<lambda>m. \<not> phl_macid_is_used (used_map mc) m) (link_mids dev mid)
      then mc\<lparr>used_mld_map := phl_macid_map_clr (used_mld_map mc) mid,
              used_legacy_map := phl_macid_map_clr (used_legacy_map mc) mid\<rparr>
      else mc)"

lemma drop_flags_wf:
  assumes "dev_ok dev mc" "macid_wf dev mc" "mid < max_mld_num dev"
  shows "macid_wf dev (drop_flags dev mid mc)"
proof -
  define mc' where "mc' = drop_flags dev mid mc"
  have f: "used_map mc' = used_map mc" "bmc_map mc' = bmc_map mc"
    "wifi_role_usedmap mc' = wifi_role_usedmap mc" "mc_sta mc' = mc_sta mc" "max_num mc' = max_num mc"
    by (simp_all add: mc'_def drop_flags_def)
  note wf = assms(2) [unfolded macid_wf_def]
  have "one_role mc' = one_role mc" by (simp only: one_role_def role_has_def f)
  moreover have "macid_shape mc'"
  proof -
    have "length (used_mld_map mc') = length (used_mld_map mc)"
      "length (used_legacy_map mc') = length (used_legacy_map mc)"
      by (simp_all add: mc'_def drop_flags_def phl_macid_map_clr_def)
    moreover have "macid_shape mc" using wf by blast
    ultimately show ?thesis unfolding macid_shape_def f by simp
  qed
  moreover have "flagged dev mc' i"
    if i: "flagged dev mc i" "phl_macid_is_used (used_map mc) i"
      "unat i < unat (max_mld_num dev) * unat (max_link_num dev)" for i
  proof (cases "i mod max_mld_num dev = mid")
    case True
    have "i \<in> set (link_mids dev mid)"
      using link_mids_all [OF assms(1) _ i(3)] wf True by (simp add: macid_shape_def)
    with i(2) have "mc' = mc" by (auto simp: mc'_def drop_flags_def list_all_iff)
    with i(1) show ?thesis by simp
  next
    case False
    with i(1) show ?thesis
      by (auto simp: mc'_def drop_flags_def flagged_def macid_map.test_clr1)
  qed
  ultimately have "macid_wf dev mc'" using wf unfolding macid_wf_def role_has_def f by metis
  then show ?thesis by (simp only: mc'_def)
qed

text \<open>
  Release is the inverse of allocation: the id of a registered station becomes free again,
  nobody is found under it, every other id keeps its station, the invariant is kept and the
  station gets the invalid id.
\<close>

theorem release_macid_frees:
  assumes "dev_ok dev mc" "macid_wf dev mc" "ms_wrole sta = Some w" "w < MAX_WIFI_ROLE_NUMBER"
    and "phl_macid_is_used (used_map mc) (ms_macid sta)" "role_has mc w (ms_macid sta)"
    and "phl_release_macid dev mc sta = (st, mc', sta')"
  shows "st = RTW_PHL_STATUS_SUCCESS \<and> macid_wf dev mc' \<and> ms_macid sta' = max_num mc \<and>
     (\<forall>i. phl_macid_is_used (used_map mc') i \<longleftrightarrow> phl_macid_is_used (used_map mc) i \<and> i \<noteq> ms_macid sta) \<and>
     (\<forall>i. rtw_phl_get_stainfo_by_macid mc' i =
            (if i = ms_macid sta then None else rtw_phl_get_stainfo_by_macid mc i))"
proof -
  let ?k = "ms_macid sta"
  note wf = assms(2) [unfolded macid_wf_def]
  define mc1 where "mc1 = mc\<lparr>used_map := phl_macid_map_clr (used_map mc) ?k,
    wifi_role_usedmap := (wifi_role_usedmap mc)[w := phl_macid_map_clr (wifi_role_usedmap mc ! w) ?k],
    mc_sta := (mc_sta mc)[unat ?k := None]\<rparr>"
  define mc2 where "mc2 = (if ms_mac_addr sta = bc_addr
    then mc1\<lparr>bmc_map := phl_macid_map_clr (bmc_map mc) ?k, wrole_bmc := wrole_bmc mc\<rparr> else mc1)"
  have k: "?k < max_num mc" using wf assms(5) by blast
  have len: "length (phl_macid_map_clr u i) = length u" for u i by (simp add: phl_macid_map_clr_def)
  have used: "phl_macid_is_used (used_map mc1) i \<longleftrightarrow> phl_macid_is_used (used_map mc) i \<and> i \<noteq> ?k" for i
    by (simp add: mc1_def macid_map.test_clr1)
  have sta: "slot (mc_sta mc1) (unat i) = (if i = ?k then None else slot (mc_sta mc) (unat i))" for i
    by (auto simp: mc1_def slot_update slot_def word_unat_eq_iff)
  have role: "role_has mc1 w' i \<longleftrightarrow> role_has mc w' i \<and> \<not> (w' = w \<and> i = ?k)"
    if "w' < MAX_WIFI_ROLE_NUMBER" for w' i
  proof -
    have "length (wifi_role_usedmap mc) = MAX_WIFI_ROLE_NUMBER" using wf by (simp add: macid_shape_def)
    then show ?thesis using that assms(4)
      by (cases "w' = w") (auto simp: mc1_def role_has_def macid_map.test_clr1)
  qed
  have only: "w' = w" if "w' < MAX_WIFI_ROLE_NUMBER" "role_has mc w' ?k" for w'
    using wf assms(4,6) that unfolding one_role_def by blast
  have "macid_wf dev mc1"
    unfolding macid_wf_def
  proof (intro conjI)
    show "macid_shape mc1" using wf assms(4) by (auto simp: macid_shape_def mc1_def len nth_list_update)
    show "\<forall>i. phl_macid_is_used (used_map mc1) i \<longleftrightarrow> slot (mc_sta mc1) (unat i) \<noteq> None"
      using used sta wf by simp
    show "\<forall>i. phl_macid_is_used (used_map mc1) i \<longrightarrow> i < max_num mc1"
      using used wf by (simp add: mc1_def)
    show "\<forall>i. phl_macid_is_used (used_map mc1) i \<longleftrightarrow> (\<exists>w < MAX_WIFI_ROLE_NUMBER. role_has mc1 w i)"
      using used role wf only by metis
    show "one_role mc1" using role wf unfolding one_role_def by metis
    have "flagged dev mc1 i = flagged dev mc i" for i by (simp add: flagged_def mc1_def)
    then show "\<not> one_link dev \<longrightarrow> (\<forall>i. phl_macid_is_used (used_map mc1) i \<longrightarrow>
        unat i < unat (max_mld_num dev) * unat (max_link_num dev) \<longrightarrow> flagged dev mc1 i)"
      using used wf by metis
  qed
  moreover have "length (phl_macid_map_clr (bmc_map mc) ?k) = 8" using wf len by (simp add: macid_shape_def)
  ultimately have wf2: "macid_wf dev mc2" unfolding mc2_def by (simp add: macid_wf_bmc)
  have dev2: "dev_ok dev mc2" using assms(1) by (simp add: dev_ok_def mc2_def mc1_def)
  have M: "max_mld_num dev \<noteq> 0" using assms(1) by (auto simp: dev_ok_def)
  have nk: "\<not> ?k \<ge> max_num mc" using k by simp
  have r: "st = RTW_PHL_STATUS_SUCCESS" "sta' = sta\<lparr>ms_macid := max_num mc\<rparr>"
    "mc' = drop_flags dev (?k mod max_mld_num dev) mc2"
    using assms(3,5,7) M unfolding phl_release_macid_def Let_def if_not_P [OF nk] drop_flags_def
    by (auto simp: mc2_def mc1_def cong: if_cong)
  have "?k mod max_mld_num dev < max_mld_num dev" using M by (simp add: word_mod_less_divisor word_gt_0)
  from drop_flags_wf [OF dev2 wf2 this] have "macid_wf dev mc'" by (simp only: r(3))
  moreover have "used_map mc' = used_map mc1" "mc_sta mc' = mc_sta mc1" "max_num mc' = max_num mc"
    by (simp_all add: r(3) drop_flags_def mc2_def mc1_def)
  ultimately show ?thesis using used sta r(1,2)
    by (auto simp: rtw_phl_get_stainfo_by_macid_def)
qed

subsection \<open>The initial state\<close>

definition macid_zero :: macid_ctl where
  "macid_zero = \<lparr>used_map = replicate 8 0, used_mld_map = replicate 8 0, used_legacy_map = replicate 8 0,
     bmc_map = replicate 8 0, wifi_role_usedmap = replicate MAX_WIFI_ROLE_NUMBER (replicate 8 0),
     wrole_bmc = replicate MAX_WIFI_ROLE_NUMBER (replicate RTW_RLINK_MAX 0),
     mc_sta = replicate 256 None, max_num = 0\<rparr>"

lemma unused_zero: "\<not> phl_macid_is_used (replicate n 0) i"
  by (simp add: phl_macid_is_used_def test_at_bit)

lemma macid_wf_init:
  assumes "phl_macid_ctrl_init hw sw macid_zero = (RTW_PHL_STATUS_SUCCESS, mc)" "unat hw \<le> 256"
  shows "macid_wf dev mc"
proof -
  have mc: "mc = macid_zero\<lparr>max_num := max_num mc, wrole_bmc := wrole_bmc mc\<rparr>" "unat (max_num mc) \<le> 256"
    using assms by (auto simp: phl_macid_ctrl_init_def Let_def word_less_nat_alt split: if_splits)
  have "\<not> role_has mc w i" if "w < MAX_WIFI_ROLE_NUMBER" for w i
    using that by (subst mc(1)) (simp add: role_has_def macid_zero_def unused_zero)
  moreover have "\<not> phl_macid_is_used (used_map mc) i" "slot (mc_sta mc) j = None" for i j
    by (subst mc(1), simp add: macid_zero_def unused_zero slot_replicate)+
  moreover have "macid_shape mc" using mc(2)
    by (subst mc(1)) (simp add: macid_shape_def macid_zero_def)
  ultimately show ?thesis by (simp add: macid_wf_def one_role_def)
qed

definition ex_dev :: dev_cap where
  "ex_dev = \<lparr>max_mld_num = 4, max_link_num = 2\<rparr>"

definition ex_mc :: macid_ctl where
  "ex_mc = snd (phl_macid_ctrl_init 16 128 macid_zero)"

definition ex_mac_sta :: mac_sta where
  "ex_mac_sta = \<lparr>ms_self = 70, ms_wrole = Some 1, ms_rlink = 0, ms_mac_addr = bc_addr, ms_macid = 0\<rparr>"

lemma ex_mc_wf: "macid_wf ex_dev ex_mc" "dev_ok ex_dev ex_mc"
proof -
  have "phl_macid_ctrl_init 16 128 macid_zero = (RTW_PHL_STATUS_SUCCESS, ex_mc)"
    by (simp add: phl_macid_ctrl_init_def ex_mc_def Let_def)
  then show "macid_wf ex_dev ex_mc" by (rule macid_wf_init) simp
  show "dev_ok ex_dev ex_mc" by code_simp
qed

text \<open>
  C29. Allocation gives a station an id of its own: it succeeds with an id below \<open>max_num\<close>
  that nobody used, marks it for the station's role and nothing else, registers the station
  under it and keeps the invariant; when it fails, the tables are unchanged and the station
  gets the invalid id \<open>max_num\<close>.
\<close>

theorem alloc_macid_fresh:
  assumes "dev_ok dev mc" "macid_wf dev mc" "main_ok dev dtype main_id mc"
    and "ms_wrole sta = Some w" "w < MAX_WIFI_ROLE_NUMBER"
    and "phl_alloc_macid dev dtype main_id mc sta = (st, mc', sta')"
  shows "macid_wf dev mc' \<and>
     (if st = RTW_PHL_STATUS_SUCCESS
      then ms_macid sta' < max_num mc \<and> \<not> phl_macid_is_used (used_map mc) (ms_macid sta') \<and>
        (\<forall>i. phl_macid_is_used (used_map mc') i \<longleftrightarrow> phl_macid_is_used (used_map mc) i \<or> i = ms_macid sta') \<and>
        rtw_phl_get_stainfo_by_macid mc' (ms_macid sta') = Some (ms_self sta) \<and> role_has mc' w (ms_macid sta')
      else st = RTW_PHL_STATUS_FAILURE \<and> mc' = mc \<and> ms_macid sta' = max_num mc)"
  by (rule alloc_macid_spec [OF assms])

lemma alloc_macid_fresh_witness:
  "\<exists>mc' sta'. phl_alloc_macid ex_dev DEV_TYPE_LEGACY 0 ex_mc ex_mac_sta = (RTW_PHL_STATUS_SUCCESS, mc', sta') \<and>
     macid_wf ex_dev mc' \<and> rtw_phl_get_stainfo_by_macid mc' (ms_macid sta') = Some 70"
proof -
  obtain st mc' sta' where e: "phl_alloc_macid ex_dev DEV_TYPE_LEGACY 0 ex_mc ex_mac_sta = (st, mc', sta')"
    by (metis prod_cases3)
  have "fst (phl_alloc_macid ex_dev DEV_TYPE_LEGACY 0 ex_mc ex_mac_sta) = RTW_PHL_STATUS_SUCCESS" by code_simp
  with e have "st = RTW_PHL_STATUS_SUCCESS" by simp
  moreover have "main_ok ex_dev DEV_TYPE_LEGACY 0 ex_mc" by (simp add: main_ok_def)
  moreover have "ms_wrole ex_mac_sta = Some 1" "1 < MAX_WIFI_ROLE_NUMBER"
    by (simp_all add: ex_mac_sta_def MAX_WIFI_ROLE_NUMBER_def)
  ultimately show ?thesis
    using alloc_macid_fresh [OF ex_mc_wf(2,1) _ _ _ e] e by (auto simp: ex_mac_sta_def)
qed

definition ex_alloc :: "macid_ctl \<times> mac_sta" where
  "ex_alloc = snd (phl_alloc_macid ex_dev DEV_TYPE_LEGACY 0 ex_mc ex_mac_sta)"

lemma release_macid_frees_witness:
  "fst (phl_release_macid ex_dev (fst ex_alloc) (snd ex_alloc)) = RTW_PHL_STATUS_SUCCESS \<and>
   rtw_phl_get_stainfo_by_macid (fst (snd (phl_release_macid ex_dev (fst ex_alloc) (snd ex_alloc)))) 8 = None"
proof -
  have e: "phl_alloc_macid ex_dev DEV_TYPE_LEGACY 0 ex_mc ex_mac_sta =
      (fst (phl_alloc_macid ex_dev DEV_TYPE_LEGACY 0 ex_mc ex_mac_sta), fst ex_alloc, snd ex_alloc)"
    by (simp add: ex_alloc_def)
  have m: "main_ok ex_dev DEV_TYPE_LEGACY 0 ex_mc" by (simp add: main_ok_def)
  have w: "ms_wrole ex_mac_sta = Some 1" "1 < MAX_WIFI_ROLE_NUMBER"
    by (simp_all add: ex_mac_sta_def MAX_WIFI_ROLE_NUMBER_def)
  have wf: "macid_wf ex_dev (fst ex_alloc)" using alloc_macid_spec [OF ex_mc_wf(2,1) m w e] by blast
  have dev: "dev_ok ex_dev (fst ex_alloc)" by code_simp
  have k: "ms_macid (snd ex_alloc) = 8" "ms_wrole (snd ex_alloc) = Some 1" by code_simp+
  have u: "phl_macid_is_used (used_map (fst ex_alloc)) 8" "role_has (fst ex_alloc) 1 8" by code_simp+
  obtain st mc' sta' where r: "phl_release_macid ex_dev (fst ex_alloc) (snd ex_alloc) = (st, mc', sta')"
    by (metis prod_cases3)
  from release_macid_frees [OF dev wf k(2) w(2), unfolded k, OF u r] r show ?thesis by simp
qed

text \<open>
  The release leaves the broadcast id of the role behind: a later lookup by the broadcast
  address reads the entry of an id that may belong to another station by then.
\<close>

lemma release_keeps_stale_bmc_id:
  "let (_, mc, sta) = phl_release_macid ex_dev (fst ex_alloc) (snd ex_alloc);
       (_, mc', sta') = phl_alloc_macid ex_dev DEV_TYPE_LEGACY 0 mc
          (ex_mac_sta\<lparr>ms_self := 71, ms_wrole := Some 2, ms_mac_addr := [2, 0, 0, 0, 0, 1]\<rparr>)
   in rtw_phl_wrole_bcmc_id_get mc 1 0 = 8 \<and>
      rtw_phl_get_stainfo_by_macid mc' (rtw_phl_wrole_bcmc_id_get mc' 1 0) = Some 71 \<and>
      \<not> rtw_phl_macid_is_bmc mc' 8"
  by code_simp

end
