(* ===== verification/MsgId.thy ===== *)
theory MsgId
  imports PhlBitmap
begin

text \<open>
  Message ids and module ids of \<^verbatim>\<open>phl/phl_def.h\<close>: the fields of a message id (indicators in
  byte 3, the source module in byte 2, the event in bytes 0 and 1), the sections of the module
  ids and the priority a background module gets from its section.
\<close>

subsection \<open>Module ids and events\<close>

definition PHL_MDL_PHY_MGNT :: u8 where "PHL_MDL_PHY_MGNT = 1"
definition PHL_BK_MDL_ROLE_START :: u8 where "PHL_BK_MDL_ROLE_START = 10"
definition PHL_BK_MDL_ROLE_END :: u8 where "PHL_BK_MDL_ROLE_END = 40"
definition PHL_MDL_POWER_MGNT :: u8 where "PHL_MDL_POWER_MGNT = 41"
definition PHL_BK_MDL_MDRY_END :: u8 where "PHL_BK_MDL_MDRY_END = 70"
definition PHL_BK_MDL_OPT_END :: u8 where "PHL_BK_MDL_OPT_END = 127"
definition PHL_BK_MDL_END :: u8 where "PHL_BK_MDL_END = 128"
definition PHL_FG_MDL_START :: u8 where "PHL_FG_MDL_START = 129"
definition PHL_MDL_ID_MAX :: u8 where "PHL_MDL_ID_MAX = 255"

definition MSG_EVT_PHY_ON :: u16 where "MSG_EVT_PHY_ON = 1"
definition MSG_EVT_PHY_IDLE :: u16 where "MSG_EVT_PHY_IDLE = 2"
definition MSG_EVT_DEV_CANNOT_IO :: u16 where "MSG_EVT_DEV_CANNOT_IO = 60"
definition MSG_EVT_DEV_RESUME_IO :: u16 where "MSG_EVT_DEV_RESUME_IO = 61"
definition MSG_EVT_MAX :: u16 where "MSG_EVT_MAX = 0x7fff"

definition MSG_INDC_PRE_PHASE :: u8 where "MSG_INDC_PRE_PHASE = BITn 0"
definition MSG_INDC_FAIL :: u8 where "MSG_INDC_FAIL = BITn 1"
definition MSG_INDC_CANCEL :: u8 where "MSG_INDC_CANCEL = BITn 2"
definition MSG_INDC_CANNOT_IO :: u8 where "MSG_INDC_CANNOT_IO = BITn 3"
definition MSG_INDC_CLR_SNDR :: u8 where "MSG_INDC_CLR_SNDR = BITn 4"

definition IS_DISPR_CTRL :: "u8 \<Rightarrow> bool" where
  "IS_DISPR_CTRL k \<longleftrightarrow> k < PHL_BK_MDL_ROLE_START"

text \<open>The priorities; \<open>None\<close> stands for \<open>PHL_MDL_PRI_MAX\<close>, the numbers index the queues.\<close>

definition PHL_MDL_PRI_ROLE :: nat where "PHL_MDL_PRI_ROLE = 0"
definition PHL_MDL_PRI_OPTIONAL :: nat where "PHL_MDL_PRI_OPTIONAL = 1"
definition PHL_MDL_PRI_MANDATORY :: nat where "PHL_MDL_PRI_MANDATORY = 2"
definition PHL_MDL_PRI_MAX :: nat where "PHL_MDL_PRI_MAX = 3"

definition get_mdl_priority :: "u8 \<Rightarrow> nat option" where
  "get_mdl_priority k =
     (if k < PHL_BK_MDL_ROLE_START then None
      else if k \<le> PHL_BK_MDL_ROLE_END then Some PHL_MDL_PRI_ROLE
      else if k \<le> PHL_BK_MDL_MDRY_END then Some PHL_MDL_PRI_MANDATORY
      else if k \<le> PHL_BK_MDL_OPT_END then Some PHL_MDL_PRI_OPTIONAL
      else None)"

subsection \<open>The fields of a message id\<close>

definition MSG_MDL_ID_FIELD :: "u32 \<Rightarrow> u8" where
  "MSG_MDL_ID_FIELD m = ucast (drop_bit 16 m AND 0xFF)"

definition MSG_EVT_ID_FIELD :: "u32 \<Rightarrow> u16" where
  "MSG_EVT_ID_FIELD m = ucast (m AND 0xFFFF)"

definition MSG_INDC_FIELD :: "u32 \<Rightarrow> u8" where
  "MSG_INDC_FIELD m = ucast (drop_bit 24 m AND 0xFF)"

definition SET_MSG_MDL_ID_FIELD :: "u32 \<Rightarrow> u8 \<Rightarrow> u32" where
  "SET_MSG_MDL_ID_FIELD m k = (m AND 0xFF00FFFF) OR push_bit 16 (ucast k)"

definition SET_MSG_EVT_ID_FIELD :: "u32 \<Rightarrow> u16 \<Rightarrow> u32" where
  "SET_MSG_EVT_ID_FIELD m k = (m AND 0xFFFF0000) OR ucast k"

definition SET_MSG_INDC_FIELD :: "u32 \<Rightarrow> u8 \<Rightarrow> u32" where
  "SET_MSG_INDC_FIELD m indc = (m AND NOT (push_bit 24 (ucast indc))) OR push_bit 24 (ucast indc)"

definition CLEAR_MSG_INDC_FIELD :: "u32 \<Rightarrow> u8 \<Rightarrow> u32" where
  "CLEAR_MSG_INDC_FIELD m indc = m AND NOT (push_bit 24 (ucast indc))"

lemma bit_mask_FF: "bit (0xFF :: u32) n \<longleftrightarrow> n < 8"
proof -
  have "(0xFF :: u32) = mask 8" by (simp add: mask_eq_exp_minus_1)
  then show ?thesis by (simp only: bit_mask_iff) auto
qed

lemma bit_mask_FFFF: "bit (0xFFFF :: u32) n \<longleftrightarrow> n < 16"
proof -
  have "(0xFFFF :: u32) = mask 16" by (simp add: mask_eq_exp_minus_1)
  then show ?thesis by (simp only: bit_mask_iff) auto
qed

lemma bit_mask_mdl: "bit (0xFF00FFFF :: u32) n \<longleftrightarrow> n < 16 \<or> 24 \<le> n \<and> n < 32"
proof -
  have e: "(0xFF00FFFF :: u32) = NOT (push_bit 16 (mask 8))" by (simp add: mask_eq_exp_minus_1 push_bit_eq_mult)
  show ?thesis unfolding e bit_not_iff bit_push_bit_iff bit_mask_iff possible_bit_word by auto
qed

lemma bit_mask_evt: "bit (0xFFFF0000 :: u32) n \<longleftrightarrow> 16 \<le> n \<and> n < 32"
proof -
  have e: "(0xFFFF0000 :: u32) = NOT (mask 16)" by (simp add: mask_eq_exp_minus_1)
  show ?thesis unfolding e bit_not_iff bit_mask_iff possible_bit_word by auto
qed

lemmas field_bits = bit_mask_FF bit_mask_FFFF bit_mask_mdl bit_mask_evt

named_theorems msg_fields "reading the fields of an updated message id"

lemma bit_fields:
  "bit (MSG_MDL_ID_FIELD m) n \<longleftrightarrow> n < 8 \<and> bit m (n + 16)"
  "bit (MSG_EVT_ID_FIELD m) n \<longleftrightarrow> n < 16 \<and> bit m n"
  "bit (MSG_INDC_FIELD m) n \<longleftrightarrow> n < 8 \<and> bit m (n + 24)"
  unfolding MSG_MDL_ID_FIELD_def MSG_EVT_ID_FIELD_def MSG_INDC_FIELD_def bit_unsigned_iff bit_and_iff
    bit_drop_bit_eq field_bits possible_bit_word o_def by (auto simp: add.commute)

lemma bit_set_fields:
  "bit (SET_MSG_MDL_ID_FIELD m k) n \<longleftrightarrow> n < 32 \<and> (if 16 \<le> n \<and> n < 24 then bit k (n - 16) else bit m n)"
  "bit (SET_MSG_EVT_ID_FIELD m e) n \<longleftrightarrow> n < 32 \<and> (if n < 16 then bit e n else bit m n)"
  "bit (SET_MSG_INDC_FIELD m i) n \<longleftrightarrow> n < 32 \<and> (bit m n \<or> 24 \<le> n \<and> bit i (n - 24))"
  "bit (CLEAR_MSG_INDC_FIELD m i) n \<longleftrightarrow> n < 32 \<and> bit m n \<and> \<not> (24 \<le> n \<and> bit i (n - 24))"
  unfolding SET_MSG_MDL_ID_FIELD_def SET_MSG_EVT_ID_FIELD_def SET_MSG_INDC_FIELD_def
    CLEAR_MSG_INDC_FIELD_def bit_unsigned_iff bit_and_iff bit_or_iff bit_not_iff bit_push_bit_iff
    field_bits possible_bit_word by (auto dest: bit_imp_le_length)

lemma mdl_field [msg_fields]:
  "MSG_MDL_ID_FIELD (SET_MSG_MDL_ID_FIELD m k) = k"
  "MSG_MDL_ID_FIELD (SET_MSG_EVT_ID_FIELD m e) = MSG_MDL_ID_FIELD m"
  "MSG_MDL_ID_FIELD (SET_MSG_INDC_FIELD m i) = MSG_MDL_ID_FIELD m"
  "MSG_MDL_ID_FIELD (CLEAR_MSG_INDC_FIELD m i) = MSG_MDL_ID_FIELD m"
  by (rule bit_word_eqI, auto simp: bit_fields bit_set_fields)+

lemma evt_field [msg_fields]:
  "MSG_EVT_ID_FIELD (SET_MSG_EVT_ID_FIELD m e) = e"
  "MSG_EVT_ID_FIELD (SET_MSG_MDL_ID_FIELD m k) = MSG_EVT_ID_FIELD m"
  "MSG_EVT_ID_FIELD (SET_MSG_INDC_FIELD m i) = MSG_EVT_ID_FIELD m"
  "MSG_EVT_ID_FIELD (CLEAR_MSG_INDC_FIELD m i) = MSG_EVT_ID_FIELD m"
  by (rule bit_word_eqI, auto simp: bit_fields bit_set_fields)+

lemma indc_field [msg_fields]:
  "MSG_INDC_FIELD (SET_MSG_MDL_ID_FIELD m k) = MSG_INDC_FIELD m"
  "MSG_INDC_FIELD (SET_MSG_EVT_ID_FIELD m e) = MSG_INDC_FIELD m"
  "MSG_INDC_FIELD (SET_MSG_INDC_FIELD m i) = MSG_INDC_FIELD m OR i"
  "MSG_INDC_FIELD (CLEAR_MSG_INDC_FIELD m i) = MSG_INDC_FIELD m AND NOT i"
  by (rule bit_word_eqI, auto simp: bit_fields bit_set_fields bit_simps)+

text \<open>
  The three fields of a message id are independent: setting one of them and reading it
  back gives what was set (the indicators accumulate, and clearing removes exactly the bits
  given), and the other two fields are unchanged.
\<close>

theorem msg_id_fields:
  "MSG_MDL_ID_FIELD (SET_MSG_MDL_ID_FIELD m k) = k \<and>
   MSG_EVT_ID_FIELD (SET_MSG_MDL_ID_FIELD m k) = MSG_EVT_ID_FIELD m \<and>
   MSG_INDC_FIELD (SET_MSG_MDL_ID_FIELD m k) = MSG_INDC_FIELD m \<and>
   MSG_EVT_ID_FIELD (SET_MSG_EVT_ID_FIELD m e) = e \<and>
   MSG_MDL_ID_FIELD (SET_MSG_EVT_ID_FIELD m e) = MSG_MDL_ID_FIELD m \<and>
   MSG_INDC_FIELD (SET_MSG_EVT_ID_FIELD m e) = MSG_INDC_FIELD m \<and>
   MSG_INDC_FIELD (SET_MSG_INDC_FIELD m i) = MSG_INDC_FIELD m OR i \<and>
   MSG_INDC_FIELD (CLEAR_MSG_INDC_FIELD m i) = MSG_INDC_FIELD m AND NOT i \<and>
   MSG_MDL_ID_FIELD (SET_MSG_INDC_FIELD m i) = MSG_MDL_ID_FIELD m \<and>
   MSG_EVT_ID_FIELD (SET_MSG_INDC_FIELD m i) = MSG_EVT_ID_FIELD m"
  by (simp add: msg_fields)

end
