(* ===== verification/Dispatcher.thy ===== *)
theory Dispatcher
  imports PhlQueue MsgId
begin

text \<open>
  The command dispatcher, \<^verbatim>\<open>phl/phl_cmd_dispatcher.c\<close>: its data and its message and request
  pools. The configuration is the one of the Linux driver: all dispatchers share one thread
  (\<open>CONFIG_CMD_DISP_SOLO_MODE\<close> off), no custom dispatch sequence.

  The engine holds one dispatcher per hardware band. Messages and requests are slots of the
  dispatcher's arrays and are named by their index; modules and the controller are named by
  addresses. The functions that the dispatcher calls through pointers are callbacks: what such
  a call does is given by the argument \<open>rc\<close> of the operations, which runs a callback on the
  engine and gives its return code.
\<close>

subsection \<open>Constants\<close>

definition MAX_PHL_MSG_NUM :: nat where "MAX_PHL_MSG_NUM = 24"
definition MAX_CMD_REQ_NUM :: nat where "MAX_CMD_REQ_NUM = 8"
definition MODL_MASK_LEN :: nat where "MODL_MASK_LEN = 16"

definition MSG_STATUS_ENQ :: u16 where "MSG_STATUS_ENQ = BITn 0"
definition MSG_STATUS_RUN :: u16 where "MSG_STATUS_RUN = BITn 1"
definition MSG_STATUS_NOTIFY_COMPLETE :: u16 where "MSG_STATUS_NOTIFY_COMPLETE = BITn 2"
definition MSG_STATUS_CANCEL :: u16 where "MSG_STATUS_CANCEL = BITn 3"
definition MSG_STATUS_PRE_PHASE :: u16 where "MSG_STATUS_PRE_PHASE = BITn 4"
definition MSG_STATUS_FAIL :: u16 where "MSG_STATUS_FAIL = BITn 5"
definition MSG_STATUS_OWNER_BK_MDL :: u16 where "MSG_STATUS_OWNER_BK_MDL = BITn 6"
definition MSG_STATUS_OWNER_REQ :: u16 where "MSG_STATUS_OWNER_REQ = BITn 7"
definition MSG_STATUS_CLR_SNDR_MSG_IF_PENDING :: u16 where
  "MSG_STATUS_CLR_SNDR_MSG_IF_PENDING = BITn 8"
definition MSG_STATUS_PENDING :: u16 where "MSG_STATUS_PENDING = BITn 9"
definition MSG_STATUS_FOR_ABORT :: u16 where "MSG_STATUS_FOR_ABORT = BITn 10"
definition MSG_STATUS_PENDING_DURING_CANNOT_IO :: u16 where
  "MSG_STATUS_PENDING_DURING_CANNOT_IO = BITn 11"

definition REQ_STATUS_ENQ :: u8 where "REQ_STATUS_ENQ = BITn 0"
definition REQ_STATUS_RUN :: u8 where "REQ_STATUS_RUN = BITn 1"
definition REQ_STATUS_CANCEL :: u8 where "REQ_STATUS_CANCEL = BITn 2"
definition REQ_STATUS_LAST_PERMIT :: u8 where "REQ_STATUS_LAST_PERMIT = BITn 3"
definition REQ_STATUS_PREPARE :: u8 where "REQ_STATUS_PREPARE = BITn 4"

definition MDL_INIT :: u8 where "MDL_INIT = BITn 0"
definition MDL_STARTED :: u8 where "MDL_STARTED = BITn 1"

definition DISPR_INIT :: u16 where "DISPR_INIT = BITn 0"
definition DISPR_STARTED :: u16 where "DISPR_STARTED = BITn 1"
definition DISPR_SHALL_STOP :: u16 where "DISPR_SHALL_STOP = BITn 2"
definition DISPR_MSGQ_INIT :: u16 where "DISPR_MSGQ_INIT = BITn 3"
definition DISPR_REQ_INIT :: u16 where "DISPR_REQ_INIT = BITn 4"
definition DISPR_NOTIFY_IDLE :: u16 where "DISPR_NOTIFY_IDLE = BITn 5"
definition DISPR_CLR_PEND_MSG :: u16 where "DISPR_CLR_PEND_MSG = BITn 6"
definition DISPR_CTRL_PRESENT :: u16 where "DISPR_CTRL_PRESENT = BITn 7"
definition DISPR_WAIT_ABORT_MSG_DONE :: u16 where "DISPR_WAIT_ABORT_MSG_DONE = BITn 8"
definition DISPR_CANNOT_IO :: u16 where "DISPR_CANNOT_IO = BITn 9"
definition DISPR_CLEARANCE :: u16 where "DISPR_CLEARANCE = BITn 10"
definition DISPR_EXCLUSIVE_USE :: u16 where "DISPR_EXCLUSIVE_USE = BITn 11"

definition MSG_OPT_SKIP_NOTIFY_OPT_MDL :: u8 where "MSG_OPT_SKIP_NOTIFY_OPT_MDL = BITn 0"
definition MSG_OPT_BLIST_PRESENT :: u8 where "MSG_OPT_BLIST_PRESENT = BITn 1"
definition MSG_OPT_CLR_SNDR_MSG_IF_PENDING :: u8 where "MSG_OPT_CLR_SNDR_MSG_IF_PENDING = BITn 2"
definition MSG_OPT_SEND_IN_ABORT :: u8 where "MSG_OPT_SEND_IN_ABORT = BITn 3"
definition MSG_OPT_PENDING_DURING_CANNOT_IO :: u8 where "MSG_OPT_PENDING_DURING_CANNOT_IO = BITn 4"

definition FG_CMD_OPT_EXCLUSIVE :: u8 where "FG_CMD_OPT_EXCLUSIVE = BITn 0"

datatype mdl_ret = MDL_RET_SUCCESS | MDL_RET_FAIL | MDL_RET_IGNORE | MDL_RET_PENDING | MDL_RET_CANNOT_IO

definition STOP_DISPATCH_MSG :: "mdl_ret \<Rightarrow> bool" where
  "STOP_DISPATCH_MSG ret \<longleftrightarrow> ret \<noteq> MDL_RET_SUCCESS \<and> ret \<noteq> MDL_RET_IGNORE"

datatype token_op_type =
  TOKEN_OP_ADD_CMD_REQ | TOKEN_OP_FREE_CMD_REQ | TOKEN_OP_CANCEL_CMD_REQ | TOKEN_OP_RENEW_CMD_REQ

subsection \<open>Data\<close>

text \<open>A message: \<open>msg_mdl\<close> is \<open>rsvd[0].ptr\<close>, the buffers are one opaque number.\<close>

record phl_msg =
  msg_id :: u32
  msg_band :: nat
  msg_mdl :: "nat option"
  msg_bufs :: nat

text \<open>
  An attribute: \<open>notify.id_arr\<close> with its length (\<open>None\<close> is the null pointer) and the
  completion routine, named by a number.
\<close>

record msg_attr =
  attr_opt :: u8
  attr_id_arr :: "u8 list option"
  attr_len :: nat
  attr_completion :: "nat option"

record msg_ex =
  ex_status :: u16
  ex_msg :: phl_msg
  ex_premap :: "u8 list"
  ex_postmap :: "u8 list"
  ex_completion :: "nat option"
  ex_module :: "nat option"

record bk_module =
  mdl_status :: u8
  mdl_id :: u8

record token_op_info =
  op_used :: bool
  op_type :: token_op_type
  op_data :: u8

record token_req =
  req_module_id :: u8
  req_opt :: u8
  req_priv :: nat

record req_ex =
  rx_status :: u8
  rx_req :: token_req
  rx_add_info :: token_op_info
  rx_free_info :: token_op_info

text \<open>The elements of the token operation queue point into the requests or to the renewal.\<close>

datatype op_ref = Add_info nat | Free_info nat | Renew_info

record dispatcher =
  d_status :: u16
  module_q :: "nat phl_queue list"
  msg_pool :: "msg_ex list"
  msg_wait_q :: "nat phl_queue"
  msg_idle_q :: "nat phl_queue"
  msg_pend_q :: "nat phl_queue"
  req_pool :: "req_ex list"
  req_wait_q :: "nat phl_queue"
  req_idle_q :: "nat phl_queue"
  token_op_q :: "op_ref phl_queue"
  token_cnt :: int
  cur_cmd_req :: "nat option"
  d_bitmap :: "u8 list"
  d_basemap :: "u8 list"
  pending_evt :: "u16 list"
  d_modules :: "nat \<Rightarrow> bk_module"
  renew_req_info :: token_op_info
  exclusive_mdl :: u8

text \<open>The address of the controller, a field of the dispatcher and not on the heap.\<close>

definition ctrl_addr :: nat where "ctrl_addr = 0"

datatype callback =
    Cb_msg_hdlr nat nat nat u32
  | Cb_completion nat nat nat u32
  | Cb_acquired nat nat
  | Cb_abort nat nat
  | Cb_req_msg nat nat nat u32
  | Cb_init nat nat
  | Cb_deinit nat nat
  | Cb_start nat nat
  | Cb_stop nat nat
  | Cb_set_info nat nat
  | Cb_query_info nat nat
  | Cb_req_set_info nat nat
  | Cb_req_query_info nat nat

text \<open>
  \<open>Cb_msg_hdlr b mdl i m\<close>: module \<open>mdl\<close> of band \<open>b\<close> gets the message of slot \<open>i\<close>, whose id is
  \<open>m\<close>. \<open>Cb_completion b i c m\<close>: the completion routine \<open>c\<close> of slot \<open>i\<close> is called. The log of the
  engine lists the callbacks in the order they were made; the semaphore counts the
  notifications of the shared thread.
\<close>

record engine =
  e_disp :: "dispatcher list"
  e_sema :: nat
  e_log :: "callback list"

type_synonym runner = "callback \<Rightarrow> engine \<Rightarrow> mdl_ret \<times> engine"

subsection \<open>Access\<close>

abbreviation dsp :: "engine \<Rightarrow> nat \<Rightarrow> dispatcher" where
  "dsp e b \<equiv> e_disp e ! b"

definition upd :: "nat \<Rightarrow> (dispatcher \<Rightarrow> dispatcher) \<Rightarrow> engine \<Rightarrow> engine" where
  "upd b f e = e\<lparr>e_disp := (e_disp e)[b := f (dsp e b)]\<rparr>"

definition d_test :: "engine \<Rightarrow> nat \<Rightarrow> u16 \<Rightarrow> bool" where
  "d_test e b f \<longleftrightarrow> TEST_STATUS_FLAG (d_status (dsp e b)) f"

definition d_set :: "u16 \<Rightarrow> nat \<Rightarrow> engine \<Rightarrow> engine" where
  "d_set f b = upd b (\<lambda>d. d\<lparr>d_status := SET_STATUS_FLAG (d_status d) f\<rparr>)"

definition d_clear :: "u16 \<Rightarrow> nat \<Rightarrow> engine \<Rightarrow> engine" where
  "d_clear f b = upd b (\<lambda>d. d\<lparr>d_status := CLEAR_STATUS_FLAG (d_status d) f\<rparr>)"

abbreviation msg_at :: "engine \<Rightarrow> nat \<Rightarrow> nat \<Rightarrow> msg_ex" where
  "msg_at e b i \<equiv> msg_pool (dsp e b) ! i"

definition upd_msg :: "nat \<Rightarrow> nat \<Rightarrow> (msg_ex \<Rightarrow> msg_ex) \<Rightarrow> engine \<Rightarrow> engine" where
  "upd_msg b i f = upd b (\<lambda>d. d\<lparr>msg_pool := (msg_pool d)[i := f (msg_pool d ! i)]\<rparr>)"

definition m_test :: "engine \<Rightarrow> nat \<Rightarrow> nat \<Rightarrow> u16 \<Rightarrow> bool" where
  "m_test e b i f \<longleftrightarrow> TEST_STATUS_FLAG (ex_status (msg_at e b i)) f"

definition m_set :: "u16 \<Rightarrow> nat \<Rightarrow> nat \<Rightarrow> engine \<Rightarrow> engine" where
  "m_set f b i = upd_msg b i (\<lambda>x. x\<lparr>ex_status := SET_STATUS_FLAG (ex_status x) f\<rparr>)"

definition m_clear :: "u16 \<Rightarrow> nat \<Rightarrow> nat \<Rightarrow> engine \<Rightarrow> engine" where
  "m_clear f b i = upd_msg b i (\<lambda>x. x\<lparr>ex_status := CLEAR_STATUS_FLAG (ex_status x) f\<rparr>)"

abbreviation mid :: "engine \<Rightarrow> nat \<Rightarrow> nat \<Rightarrow> u32" where
  "mid e b i \<equiv> msg_id (ex_msg (msg_at e b i))"

definition upd_mid :: "nat \<Rightarrow> nat \<Rightarrow> (u32 \<Rightarrow> u32) \<Rightarrow> engine \<Rightarrow> engine" where
  "upd_mid b i f = upd_msg b i (\<lambda>x. x\<lparr>ex_msg := (ex_msg x)\<lparr>msg_id := f (msg_id (ex_msg x))\<rparr>\<rparr>)"

abbreviation req_at :: "engine \<Rightarrow> nat \<Rightarrow> nat \<Rightarrow> req_ex" where
  "req_at e b i \<equiv> req_pool (dsp e b) ! i"

definition upd_req :: "nat \<Rightarrow> nat \<Rightarrow> (req_ex \<Rightarrow> req_ex) \<Rightarrow> engine \<Rightarrow> engine" where
  "upd_req b i f = upd b (\<lambda>d. d\<lparr>req_pool := (req_pool d)[i := f (req_pool d ! i)]\<rparr>)"

definition r_test :: "engine \<Rightarrow> nat \<Rightarrow> nat \<Rightarrow> u8 \<Rightarrow> bool" where
  "r_test e b i f \<longleftrightarrow> TEST_STATUS_FLAG (rx_status (req_at e b i)) f"

definition r_set :: "u8 \<Rightarrow> nat \<Rightarrow> nat \<Rightarrow> engine \<Rightarrow> engine" where
  "r_set f b i = upd_req b i (\<lambda>x. x\<lparr>rx_status := SET_STATUS_FLAG (rx_status x) f\<rparr>)"

definition r_clear :: "u8 \<Rightarrow> nat \<Rightarrow> nat \<Rightarrow> engine \<Rightarrow> engine" where
  "r_clear f b i = upd_req b i (\<lambda>x. x\<lparr>rx_status := CLEAR_STATUS_FLAG (rx_status x) f\<rparr>)"

text \<open>
  The pending event of a module id. The array has \<open>PHL_MDL_ID_MAX\<close> entries, so the id 255 is
  outside; the model reads \<open>MSG_EVT_MAX\<close> there and ignores a write.
\<close>

definition GET_CUR_PENDING_EVT :: "dispatcher \<Rightarrow> u8 \<Rightarrow> u16" where
  "GET_CUR_PENDING_EVT d k =
     (if unat k < length (pending_evt d) then pending_evt d ! unat k else MSG_EVT_MAX)"

definition SET_CUR_PENDING_EVT :: "nat \<Rightarrow> u8 \<Rightarrow> u16 \<Rightarrow> engine \<Rightarrow> engine" where
  "SET_CUR_PENDING_EVT b k evt = upd b (\<lambda>d. d\<lparr>pending_evt := (pending_evt d)[unat k := evt]\<rparr>)"

subsection \<open>The other band\<close>

definition notify_dispr_thread :: "engine \<Rightarrow> engine" where
  "notify_dispr_thread e = e\<lparr>e_sema := e_sema e + 1\<rparr>"

definition op_info :: "dispatcher \<Rightarrow> op_ref \<Rightarrow> token_op_info" where
  "op_info d r = (case r of Add_info i \<Rightarrow> rx_add_info (req_pool d ! i)
     | Free_info i \<Rightarrow> rx_free_info (req_pool d ! i) | Renew_info \<Rightarrow> renew_req_info d)"

definition set_op_info :: "op_ref \<Rightarrow> token_op_info \<Rightarrow> dispatcher \<Rightarrow> dispatcher" where
  "set_op_info r info d = (case r of
       Add_info i \<Rightarrow> d\<lparr>req_pool := (req_pool d)[i := (req_pool d ! i)\<lparr>rx_add_info := info\<rparr>]\<rparr>
     | Free_info i \<Rightarrow> d\<lparr>req_pool := (req_pool d)[i := (req_pool d ! i)\<lparr>rx_free_info := info\<rparr>]\<rparr>
     | Renew_info \<Rightarrow> d\<lparr>renew_req_info := info\<rparr>)"

text \<open>An operation record that is in use is not queued a second time.\<close>

definition push_back_token_op_info ::
  "nat \<Rightarrow> op_ref \<Rightarrow> token_op_type \<Rightarrow> u8 \<Rightarrow> engine \<Rightarrow> bool \<times> engine" where
  "push_back_token_op_info b r ty data e =
     (if op_used (op_info (dsp e b) r) then (False, e)
      else
        (let e = upd b (set_op_info r \<lparr>op_used = True, op_type = ty, op_data = data\<rparr>) e;
             e = upd b (\<lambda>d. d\<lparr>token_op_q := pq_push (token_op_q d) r Tail\<rparr>) e
         in (True, notify_dispr_thread e)))"

definition dispr_enqueue_token_op_info ::
  "nat \<Rightarrow> op_ref \<Rightarrow> token_op_type \<Rightarrow> u8 \<Rightarrow> engine \<Rightarrow> bool \<times> engine" where
  "dispr_enqueue_token_op_info b r ty data e = push_back_token_op_info b r ty data e"

definition renew :: "nat \<Rightarrow> engine \<Rightarrow> engine" where
  "renew b e = snd (dispr_enqueue_token_op_info b Renew_info TOKEN_OP_RENEW_CMD_REQ 0xff e)"

definition dispr_clearance_acquire :: "nat \<Rightarrow> engine \<Rightarrow> engine" where
  "dispr_clearance_acquire b e = d_set DISPR_CLEARANCE b e"

definition dispr_clearance_release :: "nat \<Rightarrow> engine \<Rightarrow> engine" where
  "dispr_clearance_release b e = renew b (d_clear DISPR_CLEARANCE b e)"

definition dispr_exclusive_ready :: "nat \<Rightarrow> bool \<Rightarrow> engine \<Rightarrow> engine" where
  "dispr_exclusive_ready b renew_req e =
     (if \<not> d_test e b DISPR_EXCLUSIVE_USE
      then (let e = d_set DISPR_EXCLUSIVE_USE b e in if renew_req then renew b e else e)
      else e)"

abbreviation phy_num :: "engine \<Rightarrow> nat" where
  "phy_num e \<equiv> length (e_disp e)"

definition disp_eng_get_dispr_by_idx :: "engine \<Rightarrow> nat \<Rightarrow> phl_status" where
  "disp_eng_get_dispr_by_idx e b =
     (if phy_num e \<le> b then RTW_PHL_STATUS_INVALID_PARAM else RTW_PHL_STATUS_SUCCESS)"

definition phl_disp_eng_clearance_acquire :: "nat \<Rightarrow> engine \<Rightarrow> phl_status \<times> engine" where
  "phl_disp_eng_clearance_acquire b e =
     (case disp_eng_get_dispr_by_idx e b of
        RTW_PHL_STATUS_SUCCESS \<Rightarrow> (RTW_PHL_STATUS_SUCCESS, dispr_clearance_acquire b e)
      | st \<Rightarrow> (st, e))"

definition phl_disp_eng_clearance_release :: "nat \<Rightarrow> engine \<Rightarrow> phl_status \<times> engine" where
  "phl_disp_eng_clearance_release b e =
     (case disp_eng_get_dispr_by_idx e b of
        RTW_PHL_STATUS_SUCCESS \<Rightarrow> (RTW_PHL_STATUS_SUCCESS, dispr_clearance_release b e)
      | st \<Rightarrow> (st, e))"

definition phl_disp_eng_exclusive_ready :: "nat \<Rightarrow> engine \<Rightarrow> phl_status \<times> engine" where
  "phl_disp_eng_exclusive_ready b e =
     (case disp_eng_get_dispr_by_idx e b of
        RTW_PHL_STATUS_SUCCESS \<Rightarrow> (RTW_PHL_STATUS_SUCCESS, dispr_exclusive_ready b True e)
      | st \<Rightarrow> (st, e))"

text \<open>\<open>ntfyidx\<close>: the band that is notified, band 1 for band 0 and band 0 otherwise.\<close>

definition ntfyidx :: "nat \<Rightarrow> nat" where
  "ntfyidx b = (if b = 0 then 1 else 0)"

definition cmd_token_complete :: "nat \<Rightarrow> engine \<Rightarrow> engine" where
  "cmd_token_complete b e =
     (if phy_num e < 2 then e
      else
        (let e = (if d_test e b DISPR_EXCLUSIVE_USE
                  then snd (phl_disp_eng_clearance_release (ntfyidx b) (d_clear DISPR_EXCLUSIVE_USE b e))
                  else e)
         in if d_test e b DISPR_CLEARANCE
            then snd (phl_disp_eng_exclusive_ready (ntfyidx b) e) else e))"

definition on_abort_msg_complete :: "nat \<Rightarrow> engine \<Rightarrow> engine" where
  "on_abort_msg_complete b e = renew b (cmd_token_complete b (d_clear DISPR_WAIT_ABORT_MSG_DONE b e))"

end
