(* ===== verification/DispatcherMsg.thy ===== *)
theory DispatcherMsg
  imports Dispatcher
begin

text \<open>
  The messages of the command dispatcher: the pools and queues they move through, the two
  phases in which a message is fed to the modules, and the sending of a message
  (\<^verbatim>\<open>phl/phl_cmd_dispatcher.c\<close>). The loops over a module queue walk the queue as it is when the
  phase starts: modules are registered from the initialisation path only, not from callbacks.
\<close>

subsection \<open>Queues of messages\<close>

definition pop_front_idle_msg :: "nat \<Rightarrow> engine \<Rightarrow> nat option \<times> engine" where
  "pop_front_idle_msg b e =
     (case pq_pop (msg_idle_q (dsp e b)) First of
        (None, _) \<Rightarrow> (None, e)
      | (Some i, q) \<Rightarrow>
          (Some i, upd_msg b i (\<lambda>x. x\<lparr>ex_status := 0, ex_module := None, ex_completion := None,
                     ex_premap := replicate MODL_MASK_LEN 0, ex_postmap := replicate MODL_MASK_LEN 0,
                     ex_msg := \<lparr>msg_id = 0, msg_band = 0, msg_mdl = None, msg_bufs = 0\<rparr>\<rparr>)
                   (upd b (\<lambda>d. d\<lparr>msg_idle_q := q\<rparr>) e)))"

definition notify_completion :: "runner \<Rightarrow> nat \<Rightarrow> nat \<Rightarrow> engine \<Rightarrow> engine" where
  "notify_completion rc b i e =
     (case ex_completion (msg_at e b i) of
        Some c \<Rightarrow>
          if m_test e b i MSG_STATUS_NOTIFY_COMPLETE
          then (let e = (if m_test e b i MSG_STATUS_CANCEL
                         then upd_mid b i (\<lambda>m. SET_MSG_INDC_FIELD m MSG_INDC_CANCEL) e else e);
                    e = snd (rc (Cb_completion b i c (mid e b i)) e)
                in m_clear MSG_STATUS_NOTIFY_COMPLETE b i e)
          else e
      | None \<Rightarrow> e)"

definition push_back_idle_msg :: "runner \<Rightarrow> nat \<Rightarrow> nat \<Rightarrow> engine \<Rightarrow> engine" where
  "push_back_idle_msg rc b i e =
     (let e = notify_completion rc b i e;
          e = (if m_test e b i MSG_STATUS_FOR_ABORT then on_abort_msg_complete b e else e);
          e = upd_msg b i (\<lambda>x. x\<lparr>ex_status := 0\<rparr>) e;
          k = MSG_MDL_ID_FIELD (mid e b i);
          e = (if GET_CUR_PENDING_EVT (dsp e b) k = MSG_EVT_ID_FIELD (mid e b i)
               then SET_CUR_PENDING_EVT b k MSG_EVT_MAX e else e);
          e = upd_mid b i (\<lambda>_. 0) e
      in upd b (\<lambda>d. d\<lparr>msg_idle_q := pq_push (msg_idle_q d) i Tail\<rparr>) e)"

definition pop_front_wait_msg :: "nat \<Rightarrow> engine \<Rightarrow> nat option \<times> engine" where
  "pop_front_wait_msg b e =
     (case pq_pop (msg_wait_q (dsp e b)) First of
        (None, _) \<Rightarrow> (None, e)
      | (Some i, q) \<Rightarrow>
          (Some i, m_clear MSG_STATUS_PENDING b i (m_clear MSG_STATUS_ENQ b i
                    (m_set MSG_STATUS_RUN b i (upd b (\<lambda>d. d\<lparr>msg_wait_q := q\<rparr>) e)))))"

definition push_back_wait_msg :: "nat \<Rightarrow> nat \<Rightarrow> engine \<Rightarrow> engine" where
  "push_back_wait_msg b i e =
     (let e = m_clear MSG_STATUS_RUN b i (m_set MSG_STATUS_ENQ b i e)
      in notify_dispr_thread (upd b (\<lambda>d. d\<lparr>msg_wait_q := pq_push (msg_wait_q d) i Tail\<rparr>) e))"

definition is_higher_priority :: "dispatcher \<Rightarrow> nat \<Rightarrow> nat \<Rightarrow> bool" where
  "is_higher_priority d inp obj \<longleftrightarrow>
     IS_DISPR_CTRL (MSG_MDL_ID_FIELD (msg_id (ex_msg (msg_pool d ! inp)))) \<and>
     \<not> IS_DISPR_CTRL (MSG_MDL_ID_FIELD (msg_id (ex_msg (msg_pool d ! obj))))"

definition insert_msg_by_priority :: "nat \<Rightarrow> nat \<Rightarrow> engine \<Rightarrow> engine" where
  "insert_msg_by_priority b i e =
     (let e = m_clear MSG_STATUS_RUN b i (m_set MSG_STATUS_ENQ b i e)
      in notify_dispr_thread
          (upd b (\<lambda>d. d\<lparr>msg_wait_q := pq_insert (msg_wait_q d) i (Some (is_higher_priority d))\<rparr>) e))"

definition pop_front_pending_msg :: "nat \<Rightarrow> engine \<Rightarrow> nat option \<times> engine" where
  "pop_front_pending_msg b e =
     (case pq_pop (msg_pend_q (dsp e b)) First of
        (None, _) \<Rightarrow> (None, e)
      | (Some i, q) \<Rightarrow> (Some i, upd b (\<lambda>d. d\<lparr>msg_pend_q := q\<rparr>) e))"

definition push_back_pending_msg :: "nat \<Rightarrow> nat \<Rightarrow> engine \<Rightarrow> engine" where
  "push_back_pending_msg b i e =
     (let e = m_clear MSG_STATUS_RUN b i (m_set MSG_STATUS_ENQ b i e);
          e = (if m_test e b i MSG_STATUS_CLR_SNDR_MSG_IF_PENDING
               then SET_CUR_PENDING_EVT b (MSG_MDL_ID_FIELD (mid e b i)) (MSG_EVT_ID_FIELD (mid e b i)) e
               else e)
      in upd b (\<lambda>d. d\<lparr>msg_pend_q := pq_push (msg_pend_q d) i Tail\<rparr>) e)"

text \<open>
  The loops that empty the pending queue call nothing that adds to it, so they make at most as
  many rounds as the queue is long; they stop at the first pop that fails.
\<close>

definition requeue_msg :: "nat \<Rightarrow> nat \<Rightarrow> engine \<Rightarrow> engine" where
  "requeue_msg b i e =
     (if IS_DISPR_CTRL (MSG_MDL_ID_FIELD (mid e b i)) then insert_msg_by_priority b i e
      else push_back_wait_msg b i e)"

fun empty_pending :: "(nat \<Rightarrow> engine \<Rightarrow> engine) \<Rightarrow> nat \<Rightarrow> nat \<Rightarrow> engine \<Rightarrow> engine" where
  "empty_pending put b 0 e = e"
| "empty_pending put b (Suc n) e =
     (case pop_front_pending_msg b e of
        (None, e) \<Rightarrow> e
      | (Some i, e) \<Rightarrow> empty_pending put b n (put i e))"

definition pend_len :: "engine \<Rightarrow> nat \<Rightarrow> nat" where
  "pend_len e b = length (pq_queue (msg_pend_q (dsp e b)))"

definition clear_pending_msg :: "nat \<Rightarrow> engine \<Rightarrow> engine" where
  "clear_pending_msg b e =
     (if \<not> d_test e b DISPR_CLR_PEND_MSG then e
      else (let e = d_clear DISPR_CLR_PEND_MSG b e
            in empty_pending (requeue_msg b) b (pend_len e b) e))"

text \<open>
  The loops at shutdown run completion routines, which might send again; they take fuel and
  give \<open>None\<close> when it runs out.
\<close>

fun drain_wait :: "nat \<Rightarrow> runner \<Rightarrow> nat \<Rightarrow> engine \<Rightarrow> engine option" where
  "drain_wait 0 rc b e = None"
| "drain_wait (Suc n) rc b e =
     (case pop_front_wait_msg b e of
        (None, e) \<Rightarrow> Some e
      | (Some i, e) \<Rightarrow> drain_wait n rc b (push_back_idle_msg rc b i e))"

fun clear_waiting_msg :: "nat \<Rightarrow> runner \<Rightarrow> nat \<Rightarrow> engine \<Rightarrow> engine option" where
  "clear_waiting_msg 0 rc b e = None"
| "clear_waiting_msg (Suc n) rc b e =
     (if pq_cnt (msg_idle_q (dsp e b)) \<noteq> int MAX_PHL_MSG_NUM
      then (case drain_wait n rc b (empty_pending (push_back_wait_msg b) b (pend_len e b) e) of
              None \<Rightarrow> None
            | Some e \<Rightarrow> clear_waiting_msg n rc b e)
      else Some e)"

subsection \<open>Cancelling messages\<close>

definition is_special_msg :: "nat \<Rightarrow> nat \<Rightarrow> engine \<Rightarrow> bool" where
  "is_special_msg b i e \<longleftrightarrow>
     (let k = MSG_MDL_ID_FIELD (mid e b i); evt = MSG_EVT_ID_FIELD (mid e b i)
      in d_test e b DISPR_CANNOT_IO \<and>
         (exclusive_mdl (dsp e b) = k \<or> evt = MSG_EVT_DEV_CANNOT_IO \<or> evt = MSG_EVT_DEV_RESUME_IO \<or>
          evt = MSG_EVT_PHY_ON \<or> evt = MSG_EVT_PHY_IDLE))"

definition is_msg_canceled :: "nat \<Rightarrow> nat \<Rightarrow> engine \<Rightarrow> bool \<times> engine" where
  "is_msg_canceled b i e =
     (let pending = GET_CUR_PENDING_EVT (dsp e b) (MSG_MDL_ID_FIELD (mid e b i));
          indicate = (\<lambda>x. upd_mid b i (\<lambda>m. SET_MSG_INDC_FIELD m x))
      in if \<not> d_test e b DISPR_STARTED \<or> m_test e b i MSG_STATUS_CANCEL then (True, e)
         else if pending \<noteq> MSG_EVT_MAX \<and> pending \<noteq> MSG_EVT_ID_FIELD (mid e b i)
         then (True, m_set MSG_STATUS_CANCEL b i (indicate MSG_INDC_CLR_SNDR e))
         else if d_test e b DISPR_SHALL_STOP
         then (True, m_set MSG_STATUS_CANCEL b i (indicate MSG_INDC_CANNOT_IO e))
         else if d_test e b DISPR_CANNOT_IO
         then (if is_special_msg b i e then (False, indicate MSG_INDC_CANNOT_IO e)
               else if \<not> m_test e b i MSG_STATUS_PENDING_DURING_CANNOT_IO
               then (True, indicate MSG_INDC_CANNOT_IO (m_set MSG_STATUS_CANCEL b i e))
               else (False, m_set MSG_STATUS_PENDING b i e))
         else (False, e))"

definition cancel_msg :: "nat \<Rightarrow> nat \<Rightarrow> engine \<Rightarrow> engine" where
  "cancel_msg b i e =
     m_set MSG_STATUS_CANCEL b i
       (upd_msg b i (\<lambda>x. x\<lparr>ex_premap := replicate MODL_MASK_LEN 0,
                           ex_postmap := replicate MODL_MASK_LEN 0\<rparr>) e)"

definition cancel_running_msg :: "nat \<Rightarrow> engine \<Rightarrow> engine" where
  "cancel_running_msg b e =
     foldl (\<lambda>e i. if m_test e b i MSG_STATUS_RUN then cancel_msg b i e else e) e [0..<MAX_PHL_MSG_NUM]"

subsection \<open>Bitmaps of a message\<close>

definition set_msg_bitmap :: "nat \<Rightarrow> nat \<Rightarrow> u8 \<Rightarrow> engine \<Rightarrow> engine" where
  "set_msg_bitmap b i k e =
     (let m = d_bitmap (dsp e b);
          m = (if chk_bitmap_bit m k then add_bitmap_bit m [k] else m)
      in upd_msg b i (\<lambda>x. x\<lparr>ex_premap := m, ex_postmap := m\<rparr>) e)"

text \<open>\<open>None\<close> as array of ids stands for the null pointer, which comes with length 0.\<close>

definition set_msg_custom_bitmap ::
  "nat \<Rightarrow> nat \<Rightarrow> u8 \<Rightarrow> u8 list option \<Rightarrow> nat \<Rightarrow> u8 \<Rightarrow> engine \<Rightarrow> engine" where
  "set_msg_custom_bitmap b i opt id_arr len k e =
     (let ids = (case id_arr of None \<Rightarrow> [] | Some a \<Rightarrow> take len a);
          base = (\<lambda>m. if opt AND MSG_OPT_SKIP_NOTIFY_OPT_MDL \<noteq> 0 then d_basemap (dsp e b) else m);
          lst = (\<lambda>m. if opt AND MSG_OPT_BLIST_PRESENT \<noteq> 0 then clr_bitmap_bit m ids
                     else add_bitmap_bit m ids);
          own = (\<lambda>m. if chk_bitmap_bit (d_bitmap (dsp e b)) k then add_bitmap_bit m [k] else m)
      in upd_msg b i (\<lambda>x. x\<lparr>ex_premap := own (lst (base (ex_premap x))),
                            ex_postmap := own (lst (base (ex_postmap x)))\<rparr>) e)"

text \<open>
  The bitmap pointer that \<open>get_msg_bitmap\<close> returns is the map of one of the phases; the model
  keeps which one.
\<close>

definition get_msg_bitmap :: "nat \<Rightarrow> nat \<Rightarrow> engine \<Rightarrow> bool \<times> engine" where
  "get_msg_bitmap b i e =
     (if m_test e b i MSG_STATUS_PRE_PHASE
      then (True, upd_mid b i (\<lambda>m. SET_MSG_INDC_FIELD m MSG_INDC_PRE_PHASE) e)
      else (False, upd_mid b i (\<lambda>m. CLEAR_MSG_INDC_FIELD m MSG_INDC_PRE_PHASE) e))"

definition phase_map :: "bool \<Rightarrow> nat \<Rightarrow> nat \<Rightarrow> engine \<Rightarrow> u8 list" where
  "phase_map pre b i e = (if pre then ex_premap (msg_at e b i) else ex_postmap (msg_at e b i))"

definition is_bitmap_empty :: "u8 list \<Rightarrow> bool" where
  "is_bitmap_empty m \<longleftrightarrow> list_all (\<lambda>x. x = 0) m"

definition init_dispr_mdl_mgnt_info :: "nat \<Rightarrow> engine \<Rightarrow> engine" where
  "init_dispr_mdl_mgnt_info b = upd b (\<lambda>d. d\<lparr>pending_evt := replicate (unat PHL_MDL_ID_MAX) MSG_EVT_MAX\<rparr>)"

end
