(* ===== verification/DispatcherFeed.thy ===== *)
theory DispatcherFeed
  imports DispatcherMsg
begin

text \<open>
  Feeding a message to the modules and sending one (\<^verbatim>\<open>phl/phl_cmd_dispatcher.c\<close>,
  \<open>cur_req_hdl\<close> to \<open>msg_dispatch\<close> and \<open>dispr_send_msg\<close>).
\<close>

subsection \<open>Modules and the current request\<close>

definition get_module_by_id :: "engine \<Rightarrow> nat \<Rightarrow> u8 \<Rightarrow> nat option" where
  "get_module_by_id e b k =
     (if IS_DISPR_CTRL k then (if d_test e b DISPR_CTRL_PRESENT then Some ctrl_addr else None)
      else if \<not> chk_bitmap_bit (d_bitmap (dsp e b)) k then None
      else List.find (\<lambda>a. mdl_id (d_modules (dsp e b) a) = k)
             (concat (map (\<lambda>q. if pq_nonempty q then pq_queue q else []) (module_q (dsp e b)))))"

definition get_cur_cmd_req_id :: "engine \<Rightarrow> nat \<Rightarrow> u8 \<times> u8" where
  "get_cur_cmd_req_id e b =
     (case cur_cmd_req (dsp e b) of
        None \<Rightarrow> (PHL_MDL_ID_MAX, 0)
      | Some r \<Rightarrow>
          (if \<not> r_test e b r REQ_STATUS_RUN \<or> r_test e b r REQ_STATUS_CANCEL then PHL_MDL_ID_MAX
           else req_module_id (rx_req (req_at e b r)),
           rx_status (req_at e b r)))"

definition cur_req_hdl :: "runner \<Rightarrow> nat \<Rightarrow> nat \<Rightarrow> engine \<Rightarrow> engine" where
  "cur_req_hdl rc b i e =
     (case cur_cmd_req (dsp e b) of
        None \<Rightarrow> e
      | Some r \<Rightarrow>
          if \<not> r_test e b r REQ_STATUS_RUN \<or> r_test e b r REQ_STATUS_CANCEL then e
          else if m_test e b i MSG_STATUS_FOR_ABORT then e
          else snd (rc (Cb_req_msg b r i (mid e b i)) e))"

subsection \<open>Feeding one module\<close>

definition notify_msg_fail :: "runner \<Rightarrow> nat \<Rightarrow> nat \<Rightarrow> mdl_ret \<Rightarrow> engine \<Rightarrow> engine" where
  "notify_msg_fail rc b i ret e =
     (let e = m_set MSG_STATUS_FAIL b i e;
          e = upd_mid b i (\<lambda>m. SET_MSG_INDC_FIELD m MSG_INDC_FAIL) e;
          e = (if ret = MDL_RET_CANNOT_IO
               then upd_mid b i (\<lambda>m. SET_MSG_INDC_FIELD m MSG_INDC_CANNOT_IO) e else e);
          owner = the (ex_module (msg_at e b i));
          e = (if m_test e b i MSG_STATUS_OWNER_BK_MDL \<and>
                  (IS_DISPR_CTRL (MSG_MDL_ID_FIELD (mid e b i)) \<or>
                   chk_bitmap_bit (d_bitmap (dsp e b)) (mdl_id (d_modules (dsp e b) owner)))
               then snd (rc (Cb_msg_hdlr b owner i (mid e b i)) e) else e)
      in if m_test e b i MSG_STATUS_OWNER_REQ then cur_req_hdl rc b i e else e)"

definition clr_phase_map :: "nat \<Rightarrow> nat \<Rightarrow> u8 \<Rightarrow> engine \<Rightarrow> engine" where
  "clr_phase_map b i k e =
     (if MSG_INDC_FIELD (mid e b i) AND MSG_INDC_PRE_PHASE \<noteq> 0
      then upd_msg b i (\<lambda>x. x\<lparr>ex_premap := clr_bitmap_bit (ex_premap x) [k]\<rparr>) e
      else upd_msg b i (\<lambda>x. x\<lparr>ex_postmap := clr_bitmap_bit (ex_postmap x) [k]\<rparr>) e)"

definition feed_mdl_msg :: "runner \<Rightarrow> nat \<Rightarrow> nat \<Rightarrow> nat \<Rightarrow> engine \<Rightarrow> mdl_ret \<times> engine" where
  "feed_mdl_msg rc b mdl i e =
     (let (ret, e) = rc (Cb_msg_hdlr b mdl i (mid e b i)) e;
          e = (case ret of
                 MDL_RET_FAIL \<Rightarrow>
                   notify_msg_fail rc b i ret (upd_msg b i (\<lambda>x. x\<lparr>ex_msg := (ex_msg x)\<lparr>msg_mdl := Some mdl\<rparr>\<rparr>) e)
               | MDL_RET_CANNOT_IO \<Rightarrow>
                   notify_msg_fail rc b i ret (upd_msg b i (\<lambda>x. x\<lparr>ex_msg := (ex_msg x)\<lparr>msg_mdl := Some mdl\<rparr>\<rparr>) e)
               | MDL_RET_PENDING \<Rightarrow> m_set MSG_STATUS_PENDING b i e
               | _ \<Rightarrow> clr_phase_map b i (mdl_id (d_modules (dsp e b) mdl)) e)
      in (ret, e))"

subsection \<open>The two phases\<close>

text \<open>The loop over one module queue; the first component tells that the phase stops.\<close>

fun feed_queue :: "runner \<Rightarrow> bool \<Rightarrow> nat \<Rightarrow> nat \<Rightarrow> nat list \<Rightarrow> engine \<Rightarrow> bool \<times> engine" where
  "feed_queue rc pre b i [] e = (False, e)"
| "feed_queue rc pre b i (a # as) e =
     (if \<not> chk_bitmap_bit (phase_map pre b i e) (mdl_id (d_modules (dsp e b) a)) \<or>
         \<not> TEST_STATUS_FLAG (mdl_status (d_modules (dsp e b) a)) MDL_STARTED
      then feed_queue rc pre b i as e
      else (let (ret, e) = feed_mdl_msg rc b a i e
            in if STOP_DISPATCH_MSG ret then (True, e) else feed_queue rc pre b i as e))"

text \<open>The module that owns the message is fed ahead of the queue of its priority.\<close>

definition msg_owner_id :: "nat \<Rightarrow> nat \<Rightarrow> engine \<Rightarrow> u8" where
  "msg_owner_id b i e =
     (case ex_module (msg_at e b i) of None \<Rightarrow> PHL_MDL_ID_MAX | Some a \<Rightarrow> mdl_id (d_modules (dsp e b) a))"

definition feed_owner :: "runner \<Rightarrow> bool \<Rightarrow> nat \<Rightarrow> nat \<Rightarrow> u8 \<Rightarrow> nat \<Rightarrow> engine \<Rightarrow> bool \<times> engine" where
  "feed_owner rc pre b i owner p e =
     (if owner < PHL_BK_MDL_END \<and> get_mdl_priority owner = Some p \<and>
         chk_bitmap_bit (phase_map pre b i e) owner
      then (let (ret, e) = feed_mdl_msg rc b (the (ex_module (msg_at e b i))) i e
            in (STOP_DISPATCH_MSG ret, e))
      else (False, e))"

fun phase_loop :: "runner \<Rightarrow> bool \<Rightarrow> nat \<Rightarrow> nat \<Rightarrow> u8 \<Rightarrow> nat list \<Rightarrow> engine \<Rightarrow> engine" where
  "phase_loop rc pre b i owner [] e = e"
| "phase_loop rc pre b i owner (p # ps) e =
     (let (stop, e) = feed_owner rc pre b i owner p e
      in if stop then e
         else (let q = module_q (dsp e b) ! p;
                   as = (if pq_nonempty q then pq_queue q else []);
                   (stop, e) = feed_queue rc pre b i (if pre then as else rev as) e
               in if stop then e else phase_loop rc pre b i owner ps e))"

definition msg_pre_phase_hdl :: "runner \<Rightarrow> nat \<Rightarrow> nat \<Rightarrow> engine \<Rightarrow> engine" where
  "msg_pre_phase_hdl rc b i e =
     phase_loop rc True b i (msg_owner_id b i e) (rev [PHL_MDL_PRI_ROLE..<PHL_MDL_PRI_MAX]) e"

definition msg_post_phase_hdl :: "runner \<Rightarrow> nat \<Rightarrow> nat \<Rightarrow> engine \<Rightarrow> engine" where
  "msg_post_phase_hdl rc b i e =
     phase_loop rc False b i (msg_owner_id b i e) [PHL_MDL_PRI_ROLE..<PHL_MDL_PRI_MAX] e"

definition notify_dispr_controller :: "runner \<Rightarrow> nat \<Rightarrow> nat \<Rightarrow> engine \<Rightarrow> engine" where
  "notify_dispr_controller rc b i e =
     (if \<not> d_test e b DISPR_CTRL_PRESENT then e else snd (feed_mdl_msg rc b ctrl_addr i e))"

subsection \<open>Dispatching a message\<close>

datatype redirect = Recycle | Reschedule

definition MSG_REDIRECT_CHK :: "nat \<Rightarrow> nat \<Rightarrow> engine \<Rightarrow> redirect option" where
  "MSG_REDIRECT_CHK b i e =
     (if m_test e b i MSG_STATUS_FAIL \<or> m_test e b i MSG_STATUS_CANCEL then Some Recycle
      else if m_test e b i MSG_STATUS_PENDING then Some Reschedule else None)"

definition finish_msg :: "runner \<Rightarrow> nat \<Rightarrow> nat \<Rightarrow> redirect \<Rightarrow> engine \<Rightarrow> engine" where
  "finish_msg rc b i r e =
     (case r of
        Recycle \<Rightarrow> push_back_idle_msg rc b i e
      | Reschedule \<Rightarrow>
          if m_test e b i MSG_STATUS_PENDING then push_back_pending_msg b i e
          else push_back_wait_msg b i e)"

definition pre_phase :: "runner \<Rightarrow> nat \<Rightarrow> nat \<Rightarrow> bool \<Rightarrow> engine \<Rightarrow> redirect option \<times> bool \<times> engine" where
  "pre_phase rc b i pre e =
     (if MSG_INDC_FIELD (mid e b i) AND MSG_INDC_PRE_PHASE \<noteq> 0 \<and> \<not> is_bitmap_empty (phase_map pre b i e)
      then (let e = msg_pre_phase_hdl rc b i e
            in case MSG_REDIRECT_CHK b i e of
                 Some r \<Rightarrow> (Some r, pre, e)
               | None \<Rightarrow>
                   if is_bitmap_empty (phase_map pre b i e)
                   then (let (pre, e) = get_msg_bitmap b i (m_clear MSG_STATUS_PRE_PHASE b i e)
                         in (None, pre, e))
                   else (Some Recycle, pre, m_set MSG_STATUS_CANCEL b i e))
      else (None, pre, e))"

definition post_phase :: "runner \<Rightarrow> nat \<Rightarrow> nat \<Rightarrow> bool \<Rightarrow> engine \<Rightarrow> redirect \<times> engine" where
  "post_phase rc b i pre e =
     (let e = (if is_bitmap_empty (phase_map pre b i e) then e else msg_post_phase_hdl rc b i e)
      in case MSG_REDIRECT_CHK b i e of
           Some r \<Rightarrow> (r, e)
         | None \<Rightarrow>
             if is_bitmap_empty (phase_map pre b i e) then (Recycle, cur_req_hdl rc b i e)
             else (Recycle, m_set MSG_STATUS_CANCEL b i e))"

definition msg_dispatch :: "runner \<Rightarrow> nat \<Rightarrow> nat \<Rightarrow> engine \<Rightarrow> engine" where
  "msg_dispatch rc b i e =
     (let (pre, e) = get_msg_bitmap b i e
      in case MSG_REDIRECT_CHK b i e of
           Some r \<Rightarrow> finish_msg rc b i r e
         | None \<Rightarrow>
             (let e = notify_dispr_controller rc b i e
              in case MSG_REDIRECT_CHK b i e of
                   Some r \<Rightarrow> finish_msg rc b i r e
                 | None \<Rightarrow>
                     (case pre_phase rc b i pre e of
                        (Some r, _, e) \<Rightarrow> finish_msg rc b i r e
                      | (None, pre, e) \<Rightarrow>
                          (let (r, e) = post_phase rc b i pre e in finish_msg rc b i r e))))"

subsection \<open>Sending a message\<close>

definition GEN_VALID_HDL :: "nat \<Rightarrow> u32" where
  "GEN_VALID_HDL i = BITn 31 OR of_nat i"

definition IS_HDL_VALID :: "u32 \<Rightarrow> bool" where
  "IS_HDL_VALID h \<longleftrightarrow> h AND BITn 31 \<noteq> 0"

definition GET_MSG_IDX_FROM_HDL :: "u32 \<Rightarrow> nat" where
  "GET_MSG_IDX_FROM_HDL h = unat (ucast (h AND 0xFFFF) :: u16)"

definition GET_REQ_IDX_FROM_HDL :: "u32 \<Rightarrow> nat" where
  "GET_REQ_IDX_FROM_HDL h = unat (ucast (h AND 0xFFFF) :: u8)"

text \<open>Whether the module may send: the guard of \<open>dispr_send_msg\<close> that ends in an error.\<close>

definition sender_refused :: "engine \<Rightarrow> nat \<Rightarrow> u8 \<Rightarrow> u8 \<Rightarrow> u8 \<Rightarrow> bool" where
  "sender_refused e b k cur_req_id req_status \<longleftrightarrow>
     \<not> IS_DISPR_CTRL k \<and> \<not> chk_bitmap_bit (d_bitmap (dsp e b)) k \<and>
     ((cur_req_id \<noteq> PHL_MDL_ID_MAX \<and> cur_req_id \<noteq> k) \<or>
      (cur_req_id = PHL_MDL_ID_MAX \<and> req_status = 0) \<or>
      (cur_req_id = PHL_MDL_ID_MAX \<and> \<not> TEST_STATUS_FLAG req_status REQ_STATUS_LAST_PERMIT))"

text \<open>What an attribute adds to a message that was just taken from the idle queue.\<close>

definition apply_attr :: "nat \<Rightarrow> nat \<Rightarrow> u8 \<Rightarrow> msg_attr \<Rightarrow> engine \<Rightarrow> engine" where
  "apply_attr b i k a e =
     (let e = set_msg_custom_bitmap b i (attr_opt a) (attr_id_arr a) (attr_len a) k e;
          e = (case attr_completion a of
                 None \<Rightarrow> e
               | Some c \<Rightarrow> upd_msg b i (\<lambda>x. x\<lparr>ex_completion := Some c\<rparr>) (m_set MSG_STATUS_NOTIFY_COMPLETE b i e));
          e = (if TEST_STATUS_FLAG (attr_opt a) MSG_OPT_CLR_SNDR_MSG_IF_PENDING
               then m_set MSG_STATUS_CLR_SNDR_MSG_IF_PENDING b i e else e)
      in if TEST_STATUS_FLAG (attr_opt a) MSG_OPT_PENDING_DURING_CANNOT_IO
         then m_set MSG_STATUS_PENDING_DURING_CANNOT_IO b i e else e)"

definition set_owner :: "nat \<Rightarrow> nat \<Rightarrow> u8 \<Rightarrow> u8 \<Rightarrow> u8 \<Rightarrow> engine \<Rightarrow> engine" where
  "set_owner b i k cur_req_id req_status e =
     (case get_module_by_id e b k of
        Some a \<Rightarrow> m_set MSG_STATUS_OWNER_BK_MDL b i (upd_msg b i (\<lambda>x. x\<lparr>ex_module := Some a\<rparr>) e)
      | None \<Rightarrow>
          if cur_req_id = k \<or>
             (cur_req_id = PHL_MDL_ID_MAX \<and> TEST_STATUS_FLAG req_status REQ_STATUS_LAST_PERMIT)
          then m_set MSG_STATUS_OWNER_REQ b i e else e)"

text \<open>
  The handle pointer is an option: \<open>None\<close> is the null pointer, the result is what it points to
  on return. \<open>queue_msg\<close> is what \<open>dispr_send_msg\<close> does with the idle message it took.
\<close>

definition queue_msg ::
  "runner \<Rightarrow> nat \<Rightarrow> nat \<Rightarrow> phl_msg \<Rightarrow> msg_attr option \<Rightarrow> u32 option \<Rightarrow> u8 \<Rightarrow> u8 \<Rightarrow> engine \<Rightarrow>
   phl_status \<times> u32 option \<times> engine" where
  "queue_msg rc b i msg attr hdl cur_req_id req_status e =
     (let k = MSG_MDL_ID_FIELD (msg_id msg);
          hdl = map_option (\<lambda>_. 0) hdl;
          e = set_msg_bitmap b i k (upd_msg b i (\<lambda>x. x\<lparr>ex_msg := msg\<rparr>) e);
          e = (case attr of None \<Rightarrow> e | Some a \<Rightarrow> apply_attr b i k a e);
          e = set_owner b i k cur_req_id req_status e;
          last = (m_test e b i MSG_STATUS_OWNER_REQ \<and>
                  TEST_STATUS_FLAG req_status REQ_STATUS_LAST_PERMIT)
      in if last \<and> (case attr of None \<Rightarrow> True
                      | Some a \<Rightarrow> \<not> TEST_STATUS_FLAG (attr_opt a) MSG_OPT_SEND_IN_ABORT)
         then (RTW_PHL_STATUS_FAILURE, hdl,
               push_back_idle_msg rc b i (upd_mid b i (\<lambda>m. SET_MSG_INDC_FIELD m MSG_INDC_FAIL) e))
         else
           (let e = (if last then d_set DISPR_WAIT_ABORT_MSG_DONE b (m_set MSG_STATUS_FOR_ABORT b i e)
                     else e);
                e = m_set MSG_STATUS_PRE_PHASE b i e
            in (RTW_PHL_STATUS_SUCCESS, map_option (\<lambda>_. GEN_VALID_HDL i) hdl,
                if IS_DISPR_CTRL k then insert_msg_by_priority b i e
                else push_back_wait_msg b i e)))"

definition dispr_send_msg ::
  "runner \<Rightarrow> nat \<Rightarrow> phl_msg \<Rightarrow> msg_attr option \<Rightarrow> u32 option \<Rightarrow> engine \<Rightarrow>
   phl_status \<times> u32 option \<times> engine" where
  "dispr_send_msg rc b msg attr hdl e =
     (let k = MSG_MDL_ID_FIELD (msg_id msg);
          (cur_req_id, req_status) = get_cur_cmd_req_id e b
      in if \<not> d_test e b DISPR_STARTED \<or> d_test e b DISPR_SHALL_STOP
         then (RTW_PHL_STATUS_UNEXPECTED_ERROR, hdl, e)
         else if (case attr of None \<Rightarrow> False | Some a \<Rightarrow> attr_id_arr a = None \<and> attr_len a \<noteq> 0)
         then (RTW_PHL_STATUS_INVALID_PARAM, hdl, e)
         else if sender_refused e b k cur_req_id req_status
         then (RTW_PHL_STATUS_INVALID_PARAM, hdl, e)
         else case pop_front_idle_msg b e of
             (None, e) \<Rightarrow> (RTW_PHL_STATUS_RESOURCE, hdl, e)
           | (Some i, e) \<Rightarrow> queue_msg rc b i msg attr hdl cur_req_id req_status e)"

definition dispr_cancel_msg :: "nat \<Rightarrow> u32 option \<Rightarrow> engine \<Rightarrow> phl_status \<times> u32 option \<times> engine" where
  "dispr_cancel_msg b hdl e =
     (case hdl of
        None \<Rightarrow> (RTW_PHL_STATUS_UNEXPECTED_ERROR, None, e)
      | Some h \<Rightarrow>
          if \<not> d_test e b DISPR_STARTED then (RTW_PHL_STATUS_UNEXPECTED_ERROR, Some h, e)
          else if \<not> IS_HDL_VALID h \<or> MAX_PHL_MSG_NUM \<le> GET_MSG_IDX_FROM_HDL h
          then (RTW_PHL_STATUS_FAILURE, Some h, e)
          else (let i = GET_MSG_IDX_FROM_HDL h
                in if \<not> m_test e b i MSG_STATUS_ENQ \<and> \<not> m_test e b i MSG_STATUS_RUN
                   then (RTW_PHL_STATUS_FAILURE, Some 0, e)
                   else (RTW_PHL_STATUS_SUCCESS, Some 0, cancel_msg b i e)))"

definition dispr_clr_pending_msg :: "nat \<Rightarrow> engine \<Rightarrow> phl_status \<times> engine" where
  "dispr_clr_pending_msg b e =
     (RTW_PHL_STATUS_SUCCESS, notify_dispr_thread (d_set DISPR_CLR_PEND_MSG b e))"

definition bk_msg :: "u8 \<Rightarrow> u16 \<Rightarrow> phl_msg" where
  "bk_msg k evt = \<lparr>msg_id = SET_MSG_EVT_ID_FIELD (SET_MSG_MDL_ID_FIELD 0 k) evt, msg_band = 0,
                    msg_mdl = None, msg_bufs = 0\<rparr>"

definition no_attr :: msg_attr where
  "no_attr = \<lparr>attr_opt = 0, attr_id_arr = None, attr_len = 0, attr_completion = None\<rparr>"

definition send_bk_msg_phy_on :: "runner \<Rightarrow> nat \<Rightarrow> engine \<Rightarrow> engine" where
  "send_bk_msg_phy_on rc b e =
     snd (snd (dispr_send_msg rc b (bk_msg PHL_MDL_POWER_MGNT MSG_EVT_PHY_ON) (Some no_attr) None e))"

definition send_bk_msg_phy_idle :: "runner \<Rightarrow> nat \<Rightarrow> engine \<Rightarrow> engine" where
  "send_bk_msg_phy_idle rc b e =
     snd (snd (dispr_send_msg rc b (bk_msg PHL_MDL_POWER_MGNT MSG_EVT_PHY_IDLE) (Some no_attr) None e))"

definition send_dev_io_status_change :: "runner \<Rightarrow> nat \<Rightarrow> bool \<Rightarrow> engine \<Rightarrow> phl_status \<times> engine" where
  "send_dev_io_status_change rc b allow_io e =
     (let (st, _, e) = dispr_send_msg rc b
            (bk_msg PHL_MDL_PHY_MGNT (if allow_io then MSG_EVT_DEV_RESUME_IO else MSG_EVT_DEV_CANNOT_IO))
            (Some no_attr) None e
      in (st, e))"

end
