(* ===== verification/DispatcherToken.thy ===== *)
theory DispatcherToken
  imports DispatcherFeed
begin

text \<open>
  The command token of a dispatcher (\<^verbatim>\<open>phl/phl_cmd_dispatcher.c\<close>): requests wait in a queue, one
  at a time is the current command of its band, and an exclusive command also waits until the
  other band has given clearance. The loops call abort and acquire routines, which might add
  requests; they take fuel and give \<open>None\<close> when it runs out.
\<close>

subsection \<open>The pool of requests\<close>

definition no_op_info :: token_op_info where
  "no_op_info = \<lparr>op_used = False, op_type = TOKEN_OP_ADD_CMD_REQ, op_data = 0\<rparr>"

definition no_req :: token_req where
  "no_req = \<lparr>req_module_id = 0, req_opt = 0, req_priv = 0\<rparr>"

definition pop_front_idle_req :: "nat \<Rightarrow> engine \<Rightarrow> nat option \<times> engine" where
  "pop_front_idle_req b e =
     (case pq_pop (req_idle_q (dsp e b)) First of
        (None, _) \<Rightarrow> (None, e)
      | (Some r, q) \<Rightarrow>
          (Some r, upd_req b r (\<lambda>x. x\<lparr>rx_status := 0, rx_req := no_req, rx_add_info := no_op_info,
                                      rx_free_info := no_op_info\<rparr>)
                   (upd b (\<lambda>d. d\<lparr>req_idle_q := q\<rparr>) e)))"

definition push_back_idle_req :: "nat \<Rightarrow> nat \<Rightarrow> engine \<Rightarrow> engine" where
  "push_back_idle_req b r e =
     (let e = upd_req b r (\<lambda>x. x\<lparr>rx_status := 0\<rparr>) e;
          e = SET_CUR_PENDING_EVT b (req_module_id (rx_req (req_at e b r))) MSG_EVT_MAX e
      in upd b (\<lambda>d. d\<lparr>req_idle_q := pq_push (req_idle_q d) r Tail\<rparr>) e)"

definition pop_front_wait_req :: "nat \<Rightarrow> engine \<Rightarrow> nat option \<times> engine" where
  "pop_front_wait_req b e =
     (case pq_pop (req_wait_q (dsp e b)) First of
        (None, _) \<Rightarrow> (None, e)
      | (Some r, q) \<Rightarrow>
          (Some r, r_clear REQ_STATUS_ENQ b r (r_set REQ_STATUS_PREPARE b r
                    (upd b (\<lambda>d. d\<lparr>req_wait_q := q\<rparr>) e))))"

text \<open>The option is compared as a whole: other options beside the exclusive one hide it.\<close>

definition front_req_with_exclusive_opt :: "engine \<Rightarrow> nat \<Rightarrow> bool" where
  "front_req_with_exclusive_opt e b \<longleftrightarrow>
     (case pq_get_front (req_wait_q (dsp e b)) of
        None \<Rightarrow> False
      | Some r \<Rightarrow> req_opt (rx_req (req_at e b r)) = FG_CMD_OPT_EXCLUSIVE)"

definition push_back_wait_req :: "nat \<Rightarrow> nat \<Rightarrow> engine \<Rightarrow> engine" where
  "push_back_wait_req b r e =
     r_set REQ_STATUS_ENQ b r (upd b (\<lambda>d. d\<lparr>req_wait_q := pq_push (req_wait_q d) r Tail\<rparr>) e)"

fun drain_wait_req :: "nat \<Rightarrow> runner \<Rightarrow> nat \<Rightarrow> engine \<Rightarrow> engine option" where
  "drain_wait_req 0 rc b e = None"
| "drain_wait_req (Suc n) rc b e =
     (case pop_front_wait_req b e of
        (None, e) \<Rightarrow> Some e
      | (Some r, e) \<Rightarrow> drain_wait_req n rc b (push_back_idle_req b r (snd (rc (Cb_abort b r) e))))"

fun clear_wating_req :: "nat \<Rightarrow> runner \<Rightarrow> nat \<Rightarrow> engine \<Rightarrow> engine option" where
  "clear_wating_req 0 rc b e = None"
| "clear_wating_req (Suc n) rc b e =
     (if pq_cnt (req_idle_q (dsp e b)) \<noteq> int MAX_CMD_REQ_NUM
      then (case drain_wait_req n rc b e of None \<Rightarrow> None | Some e \<Rightarrow> clear_wating_req n rc b e)
      else Some e)"

subsection \<open>The current command\<close>

definition cancel_sender_msg :: "nat \<Rightarrow> u8 \<Rightarrow> engine \<Rightarrow> nat \<Rightarrow> engine" where
  "cancel_sender_msg b k e i =
     (if k \<noteq> MSG_MDL_ID_FIELD (mid e b i) then e
      else (let e = cancel_msg b i (m_clear MSG_STATUS_OWNER_REQ b i e)
            in if m_test e b i MSG_STATUS_PENDING
               then clear_pending_msg b (snd (dispr_clr_pending_msg b e)) else e))"

definition deregister_cur_cmd_req :: "runner \<Rightarrow> nat \<Rightarrow> bool \<Rightarrow> engine \<Rightarrow> engine" where
  "deregister_cur_cmd_req rc b notify e =
     (let e = (case cur_cmd_req (dsp e b) of
                 None \<Rightarrow> e
               | Some r \<Rightarrow>
                   (let k = req_module_id (rx_req (req_at e b r));
                        e = r_clear REQ_STATUS_RUN b r e;
                        e = foldl (cancel_sender_msg b k) e [0..<MAX_PHL_MSG_NUM];
                        e = (if notify
                             then r_clear REQ_STATUS_LAST_PERMIT b r
                                    (snd (rc (Cb_abort b r) (r_set REQ_STATUS_LAST_PERMIT b r e)))
                             else e);
                        e = push_back_idle_req b r e
                    in upd b (\<lambda>d. d\<lparr>token_cnt := token_cnt d - 1\<rparr>) e));
          e = upd b (\<lambda>d. d\<lparr>cur_cmd_req := None\<rparr>) e
      in if \<not> d_test e b DISPR_WAIT_ABORT_MSG_DONE then cmd_token_complete b e else e)"

definition register_cur_cmd_req :: "runner \<Rightarrow> nat \<Rightarrow> nat \<Rightarrow> engine \<Rightarrow> bool \<times> engine" where
  "register_cur_cmd_req rc b r e =
     (let e = r_clear REQ_STATUS_PREPARE b r (r_set REQ_STATUS_RUN b r e);
          e = upd b (\<lambda>d. d\<lparr>cur_cmd_req := Some r, token_cnt := token_cnt d + 1\<rparr>) e;
          (ret, e) = rc (Cb_acquired b r) e
      in if ret = MDL_RET_FAIL then (False, deregister_cur_cmd_req rc b False e) else (True, e))"

definition cancel_all_cmd_req :: "nat \<Rightarrow> engine \<Rightarrow> engine" where
  "cancel_all_cmd_req b e =
     foldl (\<lambda>e r. if rx_status (req_at e b r) \<noteq> 0 then r_set REQ_STATUS_CANCEL b r e else e)
       e [0..<MAX_CMD_REQ_NUM]"

text \<open>
  The routines of a request that must be present; a request is refused when one is missing or
  when its module id is below the foreground modules.
\<close>

record req_ops =
  ro_abort :: bool
  ro_acquired :: bool
  ro_msg_hdlr :: bool
  ro_set_info :: bool
  ro_query_info :: bool

definition chk_cmd_req_ops :: "(token_req \<times> req_ops) option \<Rightarrow> bool" where
  "chk_cmd_req_ops req =
     (case req of
        None \<Rightarrow> False
      | Some (rq, ops) \<Rightarrow>
          \<not> req_module_id rq < PHL_FG_MDL_START \<and> ro_abort ops \<and> ro_acquired ops \<and>
          ro_msg_hdlr ops \<and> ro_set_info ops \<and> ro_query_info ops)"

subsection \<open>Starting the next command\<close>

fun dispr_process_token_req :: "nat \<Rightarrow> runner \<Rightarrow> nat \<Rightarrow> engine \<Rightarrow> (phl_status \<times> engine) option" where
  "dispr_process_token_req 0 rc b e = None"
| "dispr_process_token_req (Suc n) rc b e =
     (if \<not> d_test e b DISPR_STARTED then Some (RTW_PHL_STATUS_UNEXPECTED_ERROR, e)
      else if d_test e b DISPR_SHALL_STOP then Some (RTW_PHL_STATUS_FAILURE, e)
      else if token_cnt (dsp e b) > 0 then Some (RTW_PHL_STATUS_FAILURE, e)
      else if d_test e b DISPR_WAIT_ABORT_MSG_DONE then Some (RTW_PHL_STATUS_FAILURE, e)
      else if d_test e b DISPR_CLEARANCE
      then Some (RTW_PHL_STATUS_FAILURE, snd (phl_disp_eng_exclusive_ready (ntfyidx b) e))
      else if front_req_with_exclusive_opt e b \<and> \<not> d_test e b DISPR_EXCLUSIVE_USE
      then Some (RTW_PHL_STATUS_FAILURE, snd (phl_disp_eng_clearance_acquire (ntfyidx b) e))
      else (case pop_front_wait_req b e of
              (None, e) \<Rightarrow>
                Some (RTW_PHL_STATUS_SUCCESS,
                      if \<not> d_test e b DISPR_NOTIFY_IDLE
                      then send_bk_msg_phy_idle rc b (d_set DISPR_NOTIFY_IDLE b e) else e)
            | (Some r, e) \<Rightarrow>
                (let e = (if d_test e b DISPR_NOTIFY_IDLE
                          then send_bk_msg_phy_on rc b (d_clear DISPR_NOTIFY_IDLE b e) else e);
                     (ok, e) = register_cur_cmd_req rc b r e
                 in if ok then Some (RTW_PHL_STATUS_SUCCESS, e)
                    else dispr_process_token_req n rc b e)))"

subsection \<open>Operations on the token\<close>

definition pop_front_token_op_info :: "nat \<Rightarrow> engine \<Rightarrow> op_ref option \<times> engine" where
  "pop_front_token_op_info b e =
     (case pq_pop (token_op_q (dsp e b)) First of
        (None, _) \<Rightarrow> (None, e)
      | (Some r, q) \<Rightarrow> (Some r, upd b (\<lambda>d. d\<lparr>token_op_q := q\<rparr>) e))"

definition handle_token_op_info :: "nat \<Rightarrow> runner \<Rightarrow> nat \<Rightarrow> op_ref \<Rightarrow> engine \<Rightarrow> engine option" where
  "handle_token_op_info n rc b ref e =
     (let info = op_info (dsp e b) ref; r = unat (op_data info)
      in case op_type info of
           TOKEN_OP_RENEW_CMD_REQ \<Rightarrow> map_option snd (dispr_process_token_req n rc b e)
         | TOKEN_OP_ADD_CMD_REQ \<Rightarrow> map_option snd (dispr_process_token_req n rc b e)
         | TOKEN_OP_FREE_CMD_REQ \<Rightarrow>
             if r \<ge> MAX_CMD_REQ_NUM then Some e
             else if \<not> r_test e b r REQ_STATUS_RUN then Some e
             else map_option snd (dispr_process_token_req n rc b (deregister_cur_cmd_req rc b False e))
         | TOKEN_OP_CANCEL_CMD_REQ \<Rightarrow>
             if r \<ge> MAX_CMD_REQ_NUM then Some e
             else (let e = r_set REQ_STATUS_CANCEL b r e
                   in if r_test e b r REQ_STATUS_ENQ
                      then (let e = upd b (\<lambda>d. d\<lparr>req_wait_q := pq_del_node (req_wait_q d) (Some r)\<rparr>) e
                            in Some (push_back_idle_req b r (snd (rc (Cb_abort b r) e))))
                      else if r_test e b r REQ_STATUS_RUN
                      then map_option snd (dispr_process_token_req n rc b (deregister_cur_cmd_req rc b True e))
                      else Some e))"

definition set_unused :: "op_ref \<Rightarrow> nat \<Rightarrow> engine \<Rightarrow> engine" where
  "set_unused r b = upd b (\<lambda>d. set_op_info r ((op_info d r)\<lparr>op_used := False\<rparr>) d)"

fun token_op_loop :: "nat \<Rightarrow> runner \<Rightarrow> nat \<Rightarrow> engine \<Rightarrow> engine option" where
  "token_op_loop 0 rc b e = None"
| "token_op_loop (Suc n) rc b e =
     (case pop_front_token_op_info b e of
        (None, e) \<Rightarrow> Some e
      | (Some r, e) \<Rightarrow>
          (case handle_token_op_info n rc b r e of
             None \<Rightarrow> None
           | Some e \<Rightarrow> token_op_loop n rc b (set_unused r b e)))"

definition token_op_hanler :: "nat \<Rightarrow> runner \<Rightarrow> nat \<Rightarrow> engine \<Rightarrow> engine option" where
  "token_op_hanler n rc b e =
     (if d_test e b DISPR_CLEARANCE \<and> pq_cnt (token_op_q (dsp e b)) = 0 \<and> token_cnt (dsp e b) = 0
      then Some (snd (phl_disp_eng_exclusive_ready (ntfyidx b) e))
      else token_op_loop n rc b e)"

subsection \<open>Requests from outside\<close>

definition dispr_add_token_req ::
  "nat \<Rightarrow> (token_req \<times> req_ops) option \<Rightarrow> u32 option \<Rightarrow> engine \<Rightarrow> phl_status \<times> u32 option \<times> engine" where
  "dispr_add_token_req b req hdl e =
     (if \<not> d_test e b DISPR_STARTED \<or> hdl = None \<or> \<not> chk_cmd_req_ops req
      then (RTW_PHL_STATUS_UNEXPECTED_ERROR, hdl, e)
      else if d_test e b DISPR_SHALL_STOP then (RTW_PHL_STATUS_UNEXPECTED_ERROR, hdl, e)
      else case pop_front_idle_req b e of
          (None, e) \<Rightarrow> (RTW_PHL_STATUS_RESOURCE, hdl, e)
        | (Some r, e) \<Rightarrow>
            (let e = push_back_wait_req b r (upd_req b r (\<lambda>x. x\<lparr>rx_req := fst (the req)\<rparr>) e);
                 st = (if pq_get_front (token_op_q (dsp e b)) = None \<and> token_cnt (dsp e b) = 0
                       then RTW_PHL_STATUS_SUCCESS else RTW_PHL_STATUS_PENDING)
             in (st, Some (GEN_VALID_HDL r),
                 snd (dispr_enqueue_token_op_info b (Add_info r) TOKEN_OP_ADD_CMD_REQ (of_nat r) e))))"

definition dispr_cancel_token_req :: "nat \<Rightarrow> u32 option \<Rightarrow> engine \<Rightarrow> phl_status \<times> engine" where
  "dispr_cancel_token_req b hdl e =
     (case hdl of
        None \<Rightarrow> (RTW_PHL_STATUS_UNEXPECTED_ERROR, e)
      | Some h \<Rightarrow>
          if \<not> d_test e b DISPR_STARTED then (RTW_PHL_STATUS_UNEXPECTED_ERROR, e)
          else if \<not> IS_HDL_VALID h \<or> GET_REQ_IDX_FROM_HDL h \<ge> MAX_CMD_REQ_NUM
          then (RTW_PHL_STATUS_FAILURE, e)
          else (let r = GET_REQ_IDX_FROM_HDL h
                in if \<not> r_test e b r REQ_STATUS_ENQ \<and> \<not> r_test e b r REQ_STATUS_RUN \<and>
                      \<not> r_test e b r REQ_STATUS_PREPARE
                   then (RTW_PHL_STATUS_FAILURE, e)
                   else (let (ok, e) = dispr_enqueue_token_op_info b (Free_info r)
                                         TOKEN_OP_CANCEL_CMD_REQ (of_nat r) e
                         in (if ok then RTW_PHL_STATUS_SUCCESS else RTW_PHL_STATUS_FAILURE, e))))"

definition dispr_free_token :: "nat \<Rightarrow> u32 option \<Rightarrow> engine \<Rightarrow> phl_status \<times> engine" where
  "dispr_free_token b hdl e =
     (case hdl of
        None \<Rightarrow> (RTW_PHL_STATUS_UNEXPECTED_ERROR, e)
      | Some h \<Rightarrow>
          if \<not> d_test e b DISPR_STARTED then (RTW_PHL_STATUS_UNEXPECTED_ERROR, e)
          else if cur_cmd_req (dsp e b) = None \<or> token_cnt (dsp e b) = 0 \<or> \<not> IS_HDL_VALID h \<or>
                  GET_REQ_IDX_FROM_HDL h \<ge> MAX_CMD_REQ_NUM
          then (RTW_PHL_STATUS_FAILURE, e)
          else (let r = GET_REQ_IDX_FROM_HDL h
                in if \<not> r_test e b r REQ_STATUS_RUN \<and> \<not> r_test e b r REQ_STATUS_PREPARE
                   then (RTW_PHL_STATUS_FAILURE, e)
                   else (let (ok, e) = dispr_enqueue_token_op_info b (Free_info r)
                                         TOKEN_OP_FREE_CMD_REQ (of_nat r) (r_set REQ_STATUS_CANCEL b r e)
                         in (if ok then RTW_PHL_STATUS_SUCCESS else RTW_PHL_STATUS_FAILURE, e))))"

definition dispr_notify_dev_io_status ::
  "runner \<Rightarrow> nat \<Rightarrow> u8 \<Rightarrow> bool \<Rightarrow> engine \<Rightarrow> phl_status \<times> engine" where
  "dispr_notify_dev_io_status rc b k allow_io e =
     (if \<not> allow_io
      then (if \<not> d_test e b DISPR_CANNOT_IO
            then send_dev_io_status_change rc b allow_io
                   (upd b (\<lambda>d. d\<lparr>exclusive_mdl := k\<rparr>) (d_set DISPR_CANNOT_IO b e))
            else (RTW_PHL_STATUS_SUCCESS, e))
      else (if d_test e b DISPR_CANNOT_IO
            then (let (st, e) = send_dev_io_status_change rc b allow_io
                        (upd b (\<lambda>d. d\<lparr>exclusive_mdl := PHL_MDL_ID_MAX\<rparr>) (d_clear DISPR_CANNOT_IO b e))
                  in (st, snd (dispr_clr_pending_msg b e)))
            else (RTW_PHL_STATUS_SUCCESS, e)))"

definition dispr_notify_shall_stop :: "nat \<Rightarrow> engine \<Rightarrow> engine" where
  "dispr_notify_shall_stop b e =
     (if \<not> d_test e b DISPR_SHALL_STOP
      then snd (dispr_clr_pending_msg b (d_set DISPR_SHALL_STOP b e)) else e)"

definition dispr_is_fg_empty :: "engine \<Rightarrow> nat \<Rightarrow> bool" where
  "dispr_is_fg_empty e b \<longleftrightarrow>
     \<not> pq_nonempty (req_wait_q (dsp e b)) \<and>
     \<not> (pq_get_front (token_op_q (dsp e b)) \<noteq> None \<or> token_cnt (dsp e b) > 0)"

text \<open>\<open>dispr_get_cur_cmd_req\<close>: the null handle is refused as an error.\<close>

definition dispr_get_cur_cmd_req :: "nat \<Rightarrow> bool \<Rightarrow> engine \<Rightarrow> phl_status \<times> nat option" where
  "dispr_get_cur_cmd_req b have_handle e =
     (if \<not> d_test e b (DISPR_INIT OR DISPR_STARTED) \<or> \<not> have_handle
      then (RTW_PHL_STATUS_UNEXPECTED_ERROR, None)
      else case cur_cmd_req (dsp e b) of
          None \<Rightarrow> (RTW_PHL_STATUS_FAILURE, None)
        | Some r \<Rightarrow>
            if \<not> r_test e b r REQ_STATUS_RUN \<or> r_test e b r REQ_STATUS_CANCEL
            then (RTW_PHL_STATUS_FAILURE, None) else (RTW_PHL_STATUS_SUCCESS, Some r))"

definition dispr_set_cur_cmd_info :: "runner \<Rightarrow> nat \<Rightarrow> engine \<Rightarrow> phl_status \<times> engine" where
  "dispr_set_cur_cmd_info rc b e =
     (case dispr_get_cur_cmd_req b True e of
        (RTW_PHL_STATUS_SUCCESS, Some r) \<Rightarrow>
          (let (ret, e) = rc (Cb_req_set_info b r) e
           in (if ret = MDL_RET_SUCCESS then RTW_PHL_STATUS_SUCCESS else RTW_PHL_STATUS_FAILURE, e))
      | _ \<Rightarrow> (RTW_PHL_STATUS_FAILURE, e))"

definition dispr_query_cur_cmd_info :: "runner \<Rightarrow> nat \<Rightarrow> engine \<Rightarrow> phl_status \<times> engine" where
  "dispr_query_cur_cmd_info rc b e =
     (case dispr_get_cur_cmd_req b True e of
        (RTW_PHL_STATUS_SUCCESS, Some r) \<Rightarrow>
          (let (ret, e) = rc (Cb_req_query_info b r) e
           in (if ret = MDL_RET_SUCCESS then RTW_PHL_STATUS_SUCCESS else RTW_PHL_STATUS_FAILURE, e))
      | _ \<Rightarrow> (RTW_PHL_STATUS_FAILURE, e))"

end
