(* ===== verification/DispatcherLife.thy ===== *)
theory DispatcherLife
  imports DispatcherToken
begin

text \<open>
  The life of a dispatcher (\<^verbatim>\<open>phl/phl_cmd_dispatcher.c\<close>): background modules and the controller,
  the pools, one round of the thread, start and stop.
\<close>

subsection \<open>Background modules\<close>

definition upd_mdl :: "nat \<Rightarrow> nat \<Rightarrow> (bk_module \<Rightarrow> bk_module) \<Rightarrow> engine \<Rightarrow> engine" where
  "upd_mdl b a f = upd b (\<lambda>d. d\<lparr>d_modules := (d_modules d)(a := f (d_modules d a))\<rparr>)"

definition mdl_test :: "engine \<Rightarrow> nat \<Rightarrow> nat \<Rightarrow> u8 \<Rightarrow> bool" where
  "mdl_test e b a f \<longleftrightarrow> TEST_STATUS_FLAG (mdl_status (d_modules (dsp e b) a)) f"

definition mdl_set :: "u8 \<Rightarrow> nat \<Rightarrow> nat \<Rightarrow> engine \<Rightarrow> engine" where
  "mdl_set f b a = upd_mdl b a (\<lambda>x. x\<lparr>mdl_status := SET_STATUS_FLAG (mdl_status x) f\<rparr>)"

definition mdl_clear :: "u8 \<Rightarrow> nat \<Rightarrow> nat \<Rightarrow> engine \<Rightarrow> engine" where
  "mdl_clear f b a = upd_mdl b a (\<lambda>x. x\<lparr>mdl_status := CLEAR_STATUS_FLAG (mdl_status x) f\<rparr>)"

definition bk_module_init :: "runner \<Rightarrow> nat \<Rightarrow> nat \<Rightarrow> engine \<Rightarrow> bool \<times> engine" where
  "bk_module_init rc b a e =
     (if mdl_test e b a MDL_INIT then (False, e)
      else (let (ret, e) = rc (Cb_init b a) e
            in if ret = MDL_RET_SUCCESS then (True, mdl_set MDL_INIT b a e) else (False, e)))"

definition bk_module_deinit :: "runner \<Rightarrow> nat \<Rightarrow> nat \<Rightarrow> engine \<Rightarrow> engine" where
  "bk_module_deinit rc b a e =
     (let e = (if mdl_test e b a MDL_INIT then snd (rc (Cb_deinit b a) e) else e)
      in mdl_clear MDL_INIT b a e)"

definition bk_module_start :: "runner \<Rightarrow> nat \<Rightarrow> nat \<Rightarrow> engine \<Rightarrow> bool \<times> engine" where
  "bk_module_start rc b a e =
     (if \<not> mdl_test e b a MDL_INIT \<or> mdl_test e b a MDL_STARTED then (False, e)
      else (let (ret, e) = rc (Cb_start b a) e
            in if ret = MDL_RET_SUCCESS then (True, mdl_set MDL_STARTED b a e) else (False, e)))"

definition bk_module_stop :: "runner \<Rightarrow> nat \<Rightarrow> nat \<Rightarrow> engine \<Rightarrow> bool \<times> engine" where
  "bk_module_stop rc b a e =
     (if \<not> mdl_test e b a MDL_STARTED then (False, e)
      else (let (ret, e) = rc (Cb_stop b a) (mdl_clear MDL_STARTED b a e)
            in (ret = MDL_RET_SUCCESS, e)))"

record module_ops =
  mo_init :: bool
  mo_deinit :: bool
  mo_msg_hdlr :: bool
  mo_set_info :: bool
  mo_query_info :: bool
  mo_start :: bool
  mo_stop :: bool

definition chk_module_ops :: "module_ops option \<Rightarrow> bool" where
  "chk_module_ops ops =
     (case ops of
        None \<Rightarrow> False
      | Some p \<Rightarrow> mo_init p \<and> mo_deinit p \<and> mo_msg_hdlr p \<and> mo_set_info p \<and> mo_query_info p \<and>
                  mo_start p \<and> mo_stop p)"

definition bitmap_add :: "nat \<Rightarrow> u8 \<Rightarrow> bool \<Rightarrow> engine \<Rightarrow> engine" where
  "bitmap_add b k base =
     upd b (\<lambda>d. d\<lparr>d_bitmap := add_bitmap_bit (d_bitmap d) [k],
                   d_basemap := (if base then add_bitmap_bit (d_basemap d) [k] else d_basemap d)\<rparr>)"

definition bitmap_clr :: "nat \<Rightarrow> u8 \<Rightarrow> engine \<Rightarrow> engine" where
  "bitmap_clr b k =
     upd b (\<lambda>d. d\<lparr>d_bitmap := clr_bitmap_bit (d_bitmap d) [k],
                   d_basemap := clr_bitmap_bit (d_basemap d) [k]\<rparr>)"

definition upd_module_q :: "nat \<Rightarrow> nat \<Rightarrow> (nat phl_queue \<Rightarrow> nat phl_queue) \<Rightarrow> engine \<Rightarrow> engine" where
  "upd_module_q b p f = upd b (\<lambda>d. d\<lparr>module_q := (module_q d)[p := f (module_q d ! p)]\<rparr>)"

text \<open>
  \<open>addr\<close> is what the allocation gives, \<open>None\<close> when it fails; the memory is zeroed. The module
  is linked into its queue before its initialisation, and stays linked when that fails.
\<close>

definition dispr_register_module ::
  "runner \<Rightarrow> nat option \<Rightarrow> nat \<Rightarrow> u8 \<Rightarrow> module_ops option \<Rightarrow> engine \<Rightarrow> phl_status \<times> engine" where
  "dispr_register_module rc addr b k ops e =
     (case get_mdl_priority k of
        None \<Rightarrow> (RTW_PHL_STATUS_FAILURE, e)
      | Some p \<Rightarrow>
          if \<not> d_test e b DISPR_INIT \<or> \<not> chk_module_ops ops \<or> chk_bitmap_bit (d_bitmap (dsp e b)) k
          then (RTW_PHL_STATUS_FAILURE, e)
          else case addr of
              None \<Rightarrow> (RTW_PHL_STATUS_FAILURE, e)
            | Some a \<Rightarrow>
                (let e = upd_mdl b a (\<lambda>_. \<lparr>mdl_status = 0, mdl_id = k\<rparr>) e;
                     e = upd_module_q b p (\<lambda>q. pq_push q a Tail) e;
                     (ret, e) = bk_module_init rc b a e;
                     (ret, e) = (if ret \<and> d_test e b DISPR_STARTED
                                 then (let (ret, e) = bk_module_start rc b a e
                                       in (ret, if ret then bitmap_add b k (p \<noteq> PHL_MDL_PRI_OPTIONAL) e
                                                else e))
                                 else (ret, e))
                 in if ret then (RTW_PHL_STATUS_SUCCESS, e)
                    else (RTW_PHL_STATUS_FAILURE, bk_module_deinit rc b a e)))"

definition dispr_deregister_module :: "runner \<Rightarrow> nat \<Rightarrow> u8 \<Rightarrow> engine \<Rightarrow> phl_status \<times> engine" where
  "dispr_deregister_module rc b k e =
     (case get_mdl_priority k of
        None \<Rightarrow> (RTW_PHL_STATUS_FAILURE, e)
      | Some p \<Rightarrow>
          if \<not> d_test e b DISPR_INIT then (RTW_PHL_STATUS_FAILURE, e)
          else case pq_search_node (module_q (dsp e b) ! p) True
                      (Some (\<lambda>a. mdl_id (d_modules (dsp e b) a) = k)) of
              (None, _) \<Rightarrow> (RTW_PHL_STATUS_FAILURE, e)
            | (Some a, q) \<Rightarrow>
                (let e = bitmap_clr b k (upd_module_q b p (\<lambda>_. q) e);
                     e = snd (bk_module_stop rc b a e)
                 in (RTW_PHL_STATUS_SUCCESS, bk_module_deinit rc b a e)))"

text \<open>The modules of a dispatcher, queue after queue.\<close>

definition mdl_list :: "engine \<Rightarrow> nat \<Rightarrow> (nat \<times> nat) list" where
  "mdl_list e b =
     concat (map (\<lambda>p. let q = module_q (dsp e b) ! p
                      in if pq_nonempty q then map (Pair p) (pq_queue q) else []) [0..<PHL_MDL_PRI_MAX])"

definition dispr_module_init :: "runner \<Rightarrow> nat \<Rightarrow> engine \<Rightarrow> phl_status \<times> engine" where
  "dispr_module_init rc b e =
     (if \<not> d_test e b DISPR_INIT then (RTW_PHL_STATUS_FAILURE, e)
      else (RTW_PHL_STATUS_SUCCESS,
            foldl (\<lambda>e (p, a). snd (bk_module_init rc b a e)) e (mdl_list e b)))"

definition dispr_module_start :: "runner \<Rightarrow> nat \<Rightarrow> engine \<Rightarrow> phl_status \<times> engine" where
  "dispr_module_start rc b e =
     (if \<not> d_test e b DISPR_STARTED then (RTW_PHL_STATUS_UNEXPECTED_ERROR, e)
      else (RTW_PHL_STATUS_SUCCESS,
            foldl (\<lambda>e (p, a). let (ret, e) = bk_module_start rc b a e
                              in if ret then bitmap_add b (mdl_id (d_modules (dsp e b) a))
                                               (p \<noteq> PHL_MDL_PRI_OPTIONAL) e else e)
              e (mdl_list e b)))"

definition dispr_module_stop :: "runner \<Rightarrow> nat \<Rightarrow> engine \<Rightarrow> phl_status \<times> engine" where
  "dispr_module_stop rc b e =
     (if \<not> d_test e b DISPR_STARTED then (RTW_PHL_STATUS_UNEXPECTED_ERROR, e)
      else (RTW_PHL_STATUS_SUCCESS,
            foldl (\<lambda>e (p, a). snd (bk_module_stop rc b a (bitmap_clr b (mdl_id (d_modules (dsp e b) a)) e)))
              e (mdl_list e b)))"

text \<open>Each queue is popped until it is empty; the modules are freed.\<close>

definition dispr_module_deinit :: "runner \<Rightarrow> nat \<Rightarrow> engine \<Rightarrow> phl_status \<times> engine" where
  "dispr_module_deinit rc b e =
     (if \<not> d_test e b DISPR_INIT then (RTW_PHL_STATUS_FAILURE, e)
      else (RTW_PHL_STATUS_SUCCESS,
            foldl (\<lambda>e (p, a). bk_module_deinit rc b a (upd_module_q b p (\<lambda>q. snd (pq_pop q First)) e))
              e (mdl_list e b)))"

definition dispr_get_bk_module_handle :: "nat \<Rightarrow> u8 \<Rightarrow> bool \<Rightarrow> engine \<Rightarrow> phl_status \<times> nat option" where
  "dispr_get_bk_module_handle b k have_handle e =
     (case get_mdl_priority k of
        None \<Rightarrow> (RTW_PHL_STATUS_FAILURE, None)
      | Some p \<Rightarrow>
          if \<not> d_test e b DISPR_INIT \<or> \<not> have_handle \<or> \<not> chk_bitmap_bit (d_bitmap (dsp e b)) k
          then (RTW_PHL_STATUS_FAILURE, None)
          else case fst (pq_search_node (module_q (dsp e b) ! p) False
                           (Some (\<lambda>a. mdl_id (d_modules (dsp e b) a) = k))) of
              None \<Rightarrow> (RTW_PHL_STATUS_FAILURE, None)
            | Some a \<Rightarrow> (RTW_PHL_STATUS_SUCCESS, Some a))"

definition dispr_set_bk_module_info :: "runner \<Rightarrow> nat \<Rightarrow> nat \<Rightarrow> engine \<Rightarrow> phl_status \<times> engine" where
  "dispr_set_bk_module_info rc b a e =
     (if \<not> mdl_test e b a MDL_INIT then (RTW_PHL_STATUS_FAILURE, e)
      else (let (ret, e) = rc (Cb_set_info b a) e
            in (if ret = MDL_RET_SUCCESS then RTW_PHL_STATUS_SUCCESS else RTW_PHL_STATUS_FAILURE, e)))"

definition dispr_query_bk_module_info :: "runner \<Rightarrow> nat \<Rightarrow> nat \<Rightarrow> engine \<Rightarrow> phl_status \<times> engine" where
  "dispr_query_bk_module_info rc b a e =
     (if \<not> mdl_test e b a MDL_INIT then (RTW_PHL_STATUS_FAILURE, e)
      else (let (ret, e) = rc (Cb_query_info b a) e
            in (if ret = MDL_RET_SUCCESS then RTW_PHL_STATUS_SUCCESS else RTW_PHL_STATUS_FAILURE, e)))"

subsection \<open>The controller\<close>

definition register_dispr_controller :: "runner \<Rightarrow> nat \<Rightarrow> engine \<Rightarrow> phl_status \<times> engine" where
  "register_dispr_controller rc b e =
     (let (ok, e) = bk_module_init rc b ctrl_addr (upd_mdl b ctrl_addr (\<lambda>x. x\<lparr>mdl_id := PHL_MDL_PHY_MGNT\<rparr>) e)
      in (if ok then RTW_PHL_STATUS_SUCCESS else RTW_PHL_STATUS_FAILURE, e))"

definition deregister_dispr_controller :: "runner \<Rightarrow> nat \<Rightarrow> engine \<Rightarrow> engine" where
  "deregister_dispr_controller rc b e = bk_module_deinit rc b ctrl_addr e"

definition start_dispr_controller :: "runner \<Rightarrow> nat \<Rightarrow> engine \<Rightarrow> phl_status \<times> engine" where
  "start_dispr_controller rc b e =
     (let (ok, e) = bk_module_start rc b ctrl_addr e
      in if ok then (RTW_PHL_STATUS_SUCCESS, d_set DISPR_CTRL_PRESENT b e)
         else (RTW_PHL_STATUS_FAILURE, e))"

definition stop_dispr_controller :: "runner \<Rightarrow> nat \<Rightarrow> engine \<Rightarrow> phl_status \<times> engine" where
  "stop_dispr_controller rc b e =
     (let (ok, e) = bk_module_stop rc b ctrl_addr (d_clear DISPR_CTRL_PRESENT b e)
      in (if ok then RTW_PHL_STATUS_SUCCESS else RTW_PHL_STATUS_FAILURE, e))"

subsection \<open>The pools\<close>

definition zero_msg_ex :: msg_ex where
  "zero_msg_ex = \<lparr>ex_status = 0, ex_msg = \<lparr>msg_id = 0, msg_band = 0, msg_mdl = None, msg_bufs = 0\<rparr>,
     ex_premap = replicate MODL_MASK_LEN 0, ex_postmap = replicate MODL_MASK_LEN 0,
     ex_completion = None, ex_module = None\<rparr>"

definition zero_req_ex :: req_ex where
  "zero_req_ex = \<lparr>rx_status = 0, rx_req = no_req, rx_add_info = no_op_info, rx_free_info = no_op_info\<rparr>"

definition init_dispr_msg_pool :: "runner \<Rightarrow> nat \<Rightarrow> engine \<Rightarrow> engine" where
  "init_dispr_msg_pool rc b e =
     (if d_test e b DISPR_MSGQ_INIT then e
      else (let e = upd b (\<lambda>d. d\<lparr>msg_idle_q := pq_init, msg_wait_q := pq_init, msg_pend_q := pq_init,
                                msg_pool := replicate MAX_PHL_MSG_NUM zero_msg_ex\<rparr>) e;
                e = foldl (\<lambda>e i. push_back_idle_msg rc b i e) e [0..<MAX_PHL_MSG_NUM]
            in d_set DISPR_MSGQ_INIT b e))"

definition deinit_dispr_msg_pool :: "nat \<Rightarrow> engine \<Rightarrow> engine" where
  "deinit_dispr_msg_pool b e =
     (if \<not> d_test e b DISPR_MSGQ_INIT then e else d_clear DISPR_MSGQ_INIT b e)"

definition init_cmd_req_pool :: "nat \<Rightarrow> engine \<Rightarrow> engine" where
  "init_cmd_req_pool b e =
     (if d_test e b DISPR_REQ_INIT then e
      else d_set DISPR_REQ_INIT b
        (upd b (\<lambda>d. d\<lparr>req_wait_q := pq_init, token_op_q := pq_init,
                       req_pool := replicate MAX_CMD_REQ_NUM zero_req_ex,
                       req_idle_q := foldl (\<lambda>q r. pq_push q r Tail) pq_init [0..<MAX_CMD_REQ_NUM]\<rparr>) e))"

definition deinit_cmd_req_pool :: "nat \<Rightarrow> engine \<Rightarrow> engine" where
  "deinit_cmd_req_pool b e = d_clear DISPR_REQ_INIT b e"

subsection \<open>The thread\<close>

definition dispr_thread_loop_hdl :: "nat \<Rightarrow> runner \<Rightarrow> nat \<Rightarrow> engine \<Rightarrow> engine option" where
  "dispr_thread_loop_hdl n rc b e =
     (case token_op_hanler n rc b (clear_pending_msg b e) of
        None \<Rightarrow> None
      | Some e \<Rightarrow>
          (case pop_front_wait_msg b e of
             (None, e) \<Rightarrow> Some e
           | (Some i, e) \<Rightarrow>
               (let (cancelled, e) = is_msg_canceled b i e
                in if cancelled then Some (push_back_idle_msg rc b i e)
                   else Some (msg_dispatch rc b i
                     (upd_msg b i (\<lambda>x. x\<lparr>ex_premap := and_bitmaps (d_bitmap (dsp e b)) (ex_premap x),
                                         ex_postmap := and_bitmaps (d_bitmap (dsp e b)) (ex_postmap x)\<rparr>) e)))))"

definition dispr_thread_leave_hdl :: "nat \<Rightarrow> runner \<Rightarrow> nat \<Rightarrow> engine \<Rightarrow> engine option" where
  "dispr_thread_leave_hdl n rc b e =
     (case clear_waiting_msg n rc b (deregister_cur_cmd_req rc b True e) of
        None \<Rightarrow> None
      | Some e \<Rightarrow> clear_wating_req n rc b e)"

definition dispr_thread_stop_prior_hdl :: "runner \<Rightarrow> nat \<Rightarrow> engine \<Rightarrow> engine" where
  "dispr_thread_stop_prior_hdl rc b e =
     (let e = d_clear DISPR_STARTED b e;
          e = snd (stop_dispr_controller rc b e)
      in cancel_running_msg b (cancel_all_cmd_req b e))"

definition dispr_thread_stop_post_hdl :: "nat \<Rightarrow> engine \<Rightarrow> engine" where
  "dispr_thread_stop_post_hdl b e =
     upd b (\<lambda>d. d\<lparr>token_cnt := 0\<rparr>) (deinit_cmd_req_pool b (deinit_dispr_msg_pool b e))"

subsection \<open>Start and stop\<close>

definition zero_dispatcher :: dispatcher where
  "zero_dispatcher = \<lparr>d_status = 0, module_q = replicate PHL_MDL_PRI_MAX pq_init,
     msg_pool = replicate MAX_PHL_MSG_NUM zero_msg_ex, msg_wait_q = pq_init, msg_idle_q = pq_init,
     msg_pend_q = pq_init, req_pool = replicate MAX_CMD_REQ_NUM zero_req_ex, req_wait_q = pq_init,
     req_idle_q = pq_init, token_op_q = pq_init, token_cnt = 0, cur_cmd_req = None,
     d_bitmap = replicate MODL_MASK_LEN 0, d_basemap = replicate MODL_MASK_LEN 0,
     pending_evt = replicate (unat PHL_MDL_ID_MAX) 0, d_modules = (\<lambda>_. \<lparr>mdl_status = 0, mdl_id = 0\<rparr>),
     renew_req_info = no_op_info, exclusive_mdl = 0\<rparr>"

text \<open>The dispatcher of the next band, on memory that was allocated and zeroed.\<close>

definition dispr_init :: "runner \<Rightarrow> engine \<Rightarrow> phl_status \<times> engine" where
  "dispr_init rc e =
     (let b = phy_num e;
          e = e\<lparr>e_disp := e_disp e @ [zero_dispatcher]\<rparr>;
          e = d_set DISPR_NOTIFY_IDLE b (d_set DISPR_INIT b e)
      in (RTW_PHL_STATUS_SUCCESS, snd (register_dispr_controller rc b e)))"

definition dispr_start :: "runner \<Rightarrow> nat \<Rightarrow> engine \<Rightarrow> phl_status \<times> engine" where
  "dispr_start rc b e =
     (if d_test e b DISPR_STARTED then (RTW_PHL_STATUS_UNEXPECTED_ERROR, e)
      else (let e = init_dispr_msg_pool rc b e;
                e = init_cmd_req_pool b e;
                e = init_dispr_mdl_mgnt_info b e;
                e = upd b (\<lambda>d. d\<lparr>renew_req_info := no_op_info, exclusive_mdl := PHL_MDL_ID_MAX\<rparr>) e;
                e = d_set DISPR_STARTED b e
            in (RTW_PHL_STATUS_SUCCESS, snd (start_dispr_controller rc b e))))"

definition is_dispr_started :: "engine \<Rightarrow> nat \<Rightarrow> bool" where
  "is_dispr_started e b \<longleftrightarrow> d_test e b DISPR_STARTED"

definition dispr_stop :: "runner \<Rightarrow> nat \<Rightarrow> engine \<Rightarrow> phl_status \<times> engine" where
  "dispr_stop rc b e =
     (if \<not> d_test e b DISPR_STARTED then (RTW_PHL_STATUS_UNEXPECTED_ERROR, e)
      else (RTW_PHL_STATUS_SUCCESS, dispr_thread_stop_post_hdl b (dispr_thread_stop_prior_hdl rc b e)))"

definition dispr_deinit :: "runner \<Rightarrow> nat \<Rightarrow> engine \<Rightarrow> phl_status \<times> engine" where
  "dispr_deinit rc b e =
     (if \<not> d_test e b DISPR_INIT then (RTW_PHL_STATUS_SUCCESS, e)
      else (RTW_PHL_STATUS_SUCCESS, deregister_dispr_controller rc b (snd (dispr_stop rc b e))))"

definition disp_query_mdl_id :: "nat \<Rightarrow> nat option \<Rightarrow> engine \<Rightarrow> u8" where
  "disp_query_mdl_id b mdl e = (case mdl of None \<Rightarrow> PHL_MDL_ID_MAX | Some a \<Rightarrow> mdl_id (d_modules (dsp e b) a))"

definition phl_dispr_get_idx :: "nat option \<Rightarrow> bool \<Rightarrow> engine \<Rightarrow> phl_status \<times> nat option" where
  "phl_dispr_get_idx dispr have_idx e =
     (case dispr of
        None \<Rightarrow> (RTW_PHL_STATUS_FAILURE, None)
      | Some b \<Rightarrow> if \<not> d_test e b DISPR_INIT \<or> \<not> have_idx then (RTW_PHL_STATUS_FAILURE, None)
                  else (RTW_PHL_STATUS_SUCCESS, Some b))"

end
