(* ===== verification/DispatchEngine.thy ===== *)
theory DispatchEngine
  imports DispatcherLife
begin

text \<open>
  The dispatch engine, \<^verbatim>\<open>phl/phl_cmd_dispatch_engine.c\<close>: the dispatchers of all bands behind one
  interface, the thread they share, and what a callback may do in turn.
\<close>

subsection \<open>The shared thread\<close>

text \<open>
  One round: the thread takes the semaphore once and gives every dispatcher one turn. It waits
  while the semaphore is 0, and then a round changes nothing.
\<close>

fun for_bands :: "(nat \<Rightarrow> engine \<Rightarrow> engine option) \<Rightarrow> nat list \<Rightarrow> engine \<Rightarrow> engine option" where
  "for_bands f [] e = Some e"
| "for_bands f (b # bs) e = (case f b e of None \<Rightarrow> None | Some e \<Rightarrow> for_bands f bs e)"

definition share_thread_round :: "nat \<Rightarrow> runner \<Rightarrow> engine \<Rightarrow> engine option" where
  "share_thread_round n rc e =
     (if e_sema e = 0 then Some e
      else for_bands (dispr_thread_loop_hdl n rc) [0..<phy_num e] (e\<lparr>e_sema := e_sema e - 1\<rparr>))"

definition share_thread_leave :: "nat \<Rightarrow> runner \<Rightarrow> engine \<Rightarrow> engine option" where
  "share_thread_leave n rc e = for_bands (dispr_thread_leave_hdl n rc) [0..<phy_num e] e"

definition disp_eng_notify_share_thread :: "engine \<Rightarrow> engine" where
  "disp_eng_notify_share_thread e = e\<lparr>e_sema := e_sema e + 1\<rparr>"

subsection \<open>Life of the engine\<close>

definition bands :: "(nat \<Rightarrow> engine \<Rightarrow> engine) \<Rightarrow> engine \<Rightarrow> engine" where
  "bands f e = foldl (\<lambda>e b. f b e) e [0..<phy_num e]"

text \<open>
  The allocations succeed in the model; the code reports success in any case, also after the
  dispatchers were released again.
\<close>

definition phl_disp_eng_init :: "runner \<Rightarrow> nat \<Rightarrow> engine \<Rightarrow> phl_status \<times> engine" where
  "phl_disp_eng_init rc n e =
     (if e_disp e \<noteq> [] then (RTW_PHL_STATUS_FAILURE, e)
      else (RTW_PHL_STATUS_SUCCESS, foldl (\<lambda>e _. snd (dispr_init rc e)) e [0..<n]))"

definition phl_disp_eng_bk_module_deinit :: "runner \<Rightarrow> engine \<Rightarrow> phl_status \<times> engine" where
  "phl_disp_eng_bk_module_deinit rc e =
     (RTW_PHL_STATUS_SUCCESS, bands (\<lambda>b e. snd (dispr_module_deinit rc b e)) e)"

definition phl_disp_eng_deinit :: "runner \<Rightarrow> engine \<Rightarrow> phl_status \<times> engine" where
  "phl_disp_eng_deinit rc e =
     (if e_disp e = [] then (RTW_PHL_STATUS_FAILURE, e)
      else (let e = snd (phl_disp_eng_bk_module_deinit rc e);
                e = bands (\<lambda>b e. snd (dispr_deinit rc b e)) e
            in (RTW_PHL_STATUS_SUCCESS, e\<lparr>e_disp := []\<rparr>)))"

definition phl_disp_eng_start :: "runner \<Rightarrow> engine \<Rightarrow> phl_status \<times> engine" where
  "phl_disp_eng_start rc e =
     (let e = e\<lparr>e_sema := 0\<rparr>;
          e = bands (\<lambda>b e. snd (dispr_module_start rc b (snd (dispr_start rc b e)))) e
      in (RTW_PHL_STATUS_SUCCESS, if phy_num e = 1 then dispr_exclusive_ready 0 False e else e))"

text \<open>The thread ends between the two loops of the stop: \<open>share_thread_leave\<close> runs there.\<close>

definition phl_disp_eng_stop :: "nat \<Rightarrow> runner \<Rightarrow> engine \<Rightarrow> (phl_status \<times> engine) option" where
  "phl_disp_eng_stop n rc e =
     (if e_disp e = [] then Some (RTW_PHL_STATUS_SUCCESS, e)
      else (let e = bands (\<lambda>b e. snd (dispr_module_stop rc b e)) e;
                e = bands (dispr_thread_stop_prior_hdl rc) e
            in case share_thread_leave n rc e of
                 None \<Rightarrow> None
               | Some e \<Rightarrow> Some (RTW_PHL_STATUS_SUCCESS, bands dispr_thread_stop_post_hdl e)))"

subsection \<open>The interface by band\<close>

definition phl_disp_eng_register_module ::
  "runner \<Rightarrow> nat option \<Rightarrow> nat \<Rightarrow> u8 \<Rightarrow> module_ops option \<Rightarrow> engine \<Rightarrow> phl_status \<times> engine" where
  "phl_disp_eng_register_module rc addr b k ops e =
     (if b + 1 > phy_num e then (RTW_PHL_STATUS_INVALID_PARAM, e)
      else dispr_register_module rc addr b k ops e)"

definition phl_disp_eng_deregister_module :: "runner \<Rightarrow> nat \<Rightarrow> u8 \<Rightarrow> engine \<Rightarrow> phl_status \<times> engine" where
  "phl_disp_eng_deregister_module rc b k e =
     (if b + 1 > phy_num e then (RTW_PHL_STATUS_INVALID_PARAM, e)
      else dispr_deregister_module rc b k e)"

definition phl_disp_eng_is_dispr_busy :: "nat \<Rightarrow> engine \<Rightarrow> bool" where
  "phl_disp_eng_is_dispr_busy b e \<longleftrightarrow>
     disp_eng_get_dispr_by_idx e b = RTW_PHL_STATUS_SUCCESS \<and>
     fst (dispr_get_cur_cmd_req b True e) = RTW_PHL_STATUS_SUCCESS"

definition phl_disp_eng_set_cur_cmd_info :: "runner \<Rightarrow> nat \<Rightarrow> engine \<Rightarrow> phl_status \<times> engine" where
  "phl_disp_eng_set_cur_cmd_info rc b e =
     (if phy_num e \<le> b then (RTW_PHL_STATUS_INVALID_PARAM, e) else dispr_set_cur_cmd_info rc b e)"

definition phl_disp_eng_query_cur_cmd_info :: "runner \<Rightarrow> nat \<Rightarrow> engine \<Rightarrow> phl_status \<times> engine" where
  "phl_disp_eng_query_cur_cmd_info rc b e =
     (if phy_num e \<le> b then (RTW_PHL_STATUS_INVALID_PARAM, e) else dispr_query_cur_cmd_info rc b e)"

definition phl_disp_eng_set_bk_module_info :: "runner \<Rightarrow> nat \<Rightarrow> u8 \<Rightarrow> engine \<Rightarrow> phl_status \<times> engine" where
  "phl_disp_eng_set_bk_module_info rc b k e =
     (if phy_num e \<le> b then (RTW_PHL_STATUS_INVALID_PARAM, e)
      else case dispr_get_bk_module_handle b k True e of
          (RTW_PHL_STATUS_SUCCESS, Some a) \<Rightarrow> dispr_set_bk_module_info rc b a e
        | (st, _) \<Rightarrow> (st, e))"

definition phl_disp_eng_query_bk_module_info :: "runner \<Rightarrow> nat \<Rightarrow> u8 \<Rightarrow> engine \<Rightarrow> phl_status \<times> engine" where
  "phl_disp_eng_query_bk_module_info rc b k e =
     (if phy_num e \<le> b then (RTW_PHL_STATUS_INVALID_PARAM, e)
      else case dispr_get_bk_module_handle b k True e of
          (RTW_PHL_STATUS_SUCCESS, Some a) \<Rightarrow> dispr_query_bk_module_info rc b a e
        | (st, _) \<Rightarrow> (st, e))"

definition phl_disp_eng_send_msg ::
  "runner \<Rightarrow> phl_msg \<Rightarrow> msg_attr option \<Rightarrow> u32 option \<Rightarrow> engine \<Rightarrow> phl_status \<times> u32 option \<times> engine" where
  "phl_disp_eng_send_msg rc msg attr hdl e =
     (if phy_num e \<le> msg_band msg then (RTW_PHL_STATUS_INVALID_PARAM, hdl, e)
      else dispr_send_msg rc (msg_band msg) msg attr hdl e)"

definition phl_disp_eng_cancel_msg :: "nat \<Rightarrow> u32 option \<Rightarrow> engine \<Rightarrow> phl_status \<times> u32 option \<times> engine" where
  "phl_disp_eng_cancel_msg b hdl e =
     (if phy_num e \<le> b then (RTW_PHL_STATUS_INVALID_PARAM, hdl, e) else dispr_cancel_msg b hdl e)"

definition phl_disp_eng_clr_pending_msg :: "nat \<Rightarrow> engine \<Rightarrow> phl_status \<times> engine" where
  "phl_disp_eng_clr_pending_msg b e =
     (if phy_num e \<le> b then (RTW_PHL_STATUS_INVALID_PARAM, e) else dispr_clr_pending_msg b e)"

definition phl_disp_eng_add_token_req ::
  "nat \<Rightarrow> (token_req \<times> req_ops) option \<Rightarrow> u32 option \<Rightarrow> engine \<Rightarrow> phl_status \<times> u32 option \<times> engine" where
  "phl_disp_eng_add_token_req b req hdl e =
     (if phy_num e \<le> b then (RTW_PHL_STATUS_INVALID_PARAM, hdl, e) else dispr_add_token_req b req hdl e)"

definition phl_disp_eng_cancel_token_req :: "nat \<Rightarrow> u32 option \<Rightarrow> engine \<Rightarrow> phl_status \<times> engine" where
  "phl_disp_eng_cancel_token_req b hdl e =
     (if phy_num e \<le> b then (RTW_PHL_STATUS_INVALID_PARAM, e) else dispr_cancel_token_req b hdl e)"

definition phl_disp_eng_free_token :: "nat \<Rightarrow> u32 option \<Rightarrow> engine \<Rightarrow> phl_status \<times> engine" where
  "phl_disp_eng_free_token b hdl e =
     (if phy_num e \<le> b then (RTW_PHL_STATUS_INVALID_PARAM, e) else dispr_free_token b hdl e)"

text \<open>The band that is given is overwritten: every band is told.\<close>

definition phl_disp_eng_notify_dev_io_status ::
  "runner \<Rightarrow> nat \<Rightarrow> u8 \<Rightarrow> bool \<Rightarrow> engine \<Rightarrow> phl_status \<times> engine" where
  "phl_disp_eng_notify_dev_io_status rc b k allow_io e =
     (RTW_PHL_STATUS_SUCCESS, bands (\<lambda>b e. snd (dispr_notify_dev_io_status rc b k allow_io e)) e)"

definition phl_disp_eng_notify_shall_stop :: "engine \<Rightarrow> engine" where
  "phl_disp_eng_notify_shall_stop e =
     bands (\<lambda>b e. if is_dispr_started e b then dispr_notify_shall_stop b e else e) e"

definition HW_BAND_MAX :: nat where "HW_BAND_MAX = 2"

definition phl_disp_eng_is_fg_empty :: "nat \<Rightarrow> engine \<Rightarrow> bool" where
  "phl_disp_eng_is_fg_empty b e \<longleftrightarrow>
     (if b \<noteq> HW_BAND_MAX then dispr_is_fg_empty e b else list_all (dispr_is_fg_empty e) [0..<phy_num e])"

subsection \<open>Callbacks that call back\<close>

text \<open>
  What a module, a request or a completion routine does when it is called: it calls the
  interface any number of times and returns a code. A script fixes this for every callback; it
  may depend on the state. \<open>run_cb n\<close> runs callbacks that are nested up to \<open>n\<close> deep and logs
  each one as it is made.
\<close>

datatype api_call =
    Api_send phl_msg "msg_attr option"
  | Api_cancel_msg nat u32
  | Api_clr_pending nat
  | Api_add_token nat token_req req_ops
  | Api_cancel_token nat u32
  | Api_free_token nat u32
  | Api_io_status u8 bool
  | Api_shall_stop

fun run_call :: "runner \<Rightarrow> api_call \<Rightarrow> engine \<Rightarrow> engine" where
  "run_call rc (Api_send msg attr) e = snd (snd (phl_disp_eng_send_msg rc msg attr None e))"
| "run_call rc (Api_cancel_msg b h) e = snd (snd (phl_disp_eng_cancel_msg b (Some h) e))"
| "run_call rc (Api_clr_pending b) e = snd (phl_disp_eng_clr_pending_msg b e)"
| "run_call rc (Api_add_token b req ops) e = snd (snd (phl_disp_eng_add_token_req b (Some (req, ops)) (Some 0) e))"
| "run_call rc (Api_cancel_token b h) e = snd (phl_disp_eng_cancel_token_req b (Some h) e)"
| "run_call rc (Api_free_token b h) e = snd (phl_disp_eng_free_token b (Some h) e)"
| "run_call rc (Api_io_status k allow) e = snd (phl_disp_eng_notify_dev_io_status rc HW_BAND_MAX k allow e)"
| "run_call rc Api_shall_stop e = phl_disp_eng_notify_shall_stop e"

type_synonym script = "callback \<Rightarrow> engine \<Rightarrow> mdl_ret \<times> api_call list"

definition log_cb :: "callback \<Rightarrow> engine \<Rightarrow> engine" where
  "log_cb cb e = e\<lparr>e_log := e_log e @ [cb]\<rparr>"

fun run_cb :: "nat \<Rightarrow> script \<Rightarrow> runner" where
  "run_cb 0 s cb e = (fst (s cb e), log_cb cb e)"
| "run_cb (Suc n) s cb e =
     (fst (s cb e), foldl (\<lambda>e c. run_call (run_cb n s) c e) (log_cb cb e) (snd (s cb e)))"

end
