(* ===== verification/DispatcherInv.thy ===== *)
theory DispatcherInv
  imports DispatchEngine
begin

text \<open>
  The invariant of the dispatchers and its preservation by every operation. The ghost state
  says what is in flight: the messages and requests that are in none of the queues because an
  operation holds them, the current command of each band, and how many notifications of the
  thread are owed.
\<close>

record ghost =
  g_bands :: nat
  g_on :: "nat set"
  g_msg :: "nat \<Rightarrow> nat multiset"
  g_req :: "nat \<Rightarrow> nat multiset"
  g_del :: "nat \<Rightarrow> nat multiset"
  g_cur :: "nat \<Rightarrow> nat option"
  g_wait :: "nat \<Rightarrow> nat"
  g_op :: "nat \<Rightarrow> nat"

definition queues_wf :: "dispatcher \<Rightarrow> bool" where
  "queues_wf d \<longleftrightarrow> pq_wf (msg_wait_q d) \<and> pq_wf (msg_idle_q d) \<and> pq_wf (msg_pend_q d) \<and>
     pq_wf (req_wait_q d) \<and> pq_wf (req_idle_q d) \<and> pq_wf (token_op_q d)"

definition msgs_of :: "dispatcher \<Rightarrow> nat multiset" where
  "msgs_of d = mset (pq_queue (msg_idle_q d)) + mset (pq_queue (msg_wait_q d)) + mset (pq_queue (msg_pend_q d))"

definition reqs_of :: "dispatcher \<Rightarrow> nat multiset" where
  "reqs_of d = mset (pq_queue (req_idle_q d)) + mset (pq_queue (req_wait_q d))"

definition cur_mset :: "nat option \<Rightarrow> nat multiset" where
  "cur_mset c = (case c of None \<Rightarrow> {#} | Some r \<Rightarrow> {#r#})"

text \<open>
  The flags of the requests: only the current one is marked as running, and exactly those of
  the wait queue and those just removed from it by a cancellation are marked as queued.
\<close>

definition enq :: "dispatcher \<Rightarrow> nat \<Rightarrow> bool" where
  "enq d r \<longleftrightarrow> bit (rx_status (req_pool d ! r)) 0"

definition running :: "dispatcher \<Rightarrow> nat \<Rightarrow> bool" where
  "running d r \<longleftrightarrow> bit (rx_status (req_pool d ! r)) 1"

definition req_flags :: "nat multiset \<Rightarrow> nat option \<Rightarrow> dispatcher \<Rightarrow> bool" where
  "req_flags Z c d \<longleftrightarrow> (\<forall>r < MAX_CMD_REQ_NUM. (running d r \<longrightarrow> c = Some r) \<and>
     (enq d r \<longleftrightarrow> r \<in># mset (pq_queue (req_wait_q d)) + Z))"

definition disp_inv :: "nat multiset \<Rightarrow> nat multiset \<Rightarrow> nat multiset \<Rightarrow> nat option \<Rightarrow> dispatcher \<Rightarrow> bool" where
  "disp_inv X Y Z c d \<longleftrightarrow> queues_wf d \<and>
     length (msg_pool d) = MAX_PHL_MSG_NUM \<and> length (req_pool d) = MAX_CMD_REQ_NUM \<and>
     msgs_of d + X = mset [0..<MAX_PHL_MSG_NUM] \<and>
     reqs_of d + Y + Z + cur_mset c = mset [0..<MAX_CMD_REQ_NUM] \<and>
     cur_cmd_req d = c \<and> token_cnt d = (if c = None then 0 else 1) \<and> req_flags Z c d"

definition wakes :: "ghost \<Rightarrow> nat \<Rightarrow> engine \<Rightarrow> bool" where
  "wakes G b e \<longleftrightarrow>
     length (pq_queue (msg_wait_q (dsp e b))) \<le> e_sema e + g_wait G b \<and>
     length (pq_queue (token_op_q (dsp e b))) \<le> e_sema e + g_op G b"

definition excl_ok :: "engine \<Rightarrow> bool" where
  "excl_ok e \<longleftrightarrow> (phy_num e = 2 \<longrightarrow>
     (\<forall>b < 2. d_test e b DISPR_EXCLUSIVE_USE \<longrightarrow> d_test e (ntfyidx b) DISPR_CLEARANCE))"

text \<open>A dispatcher that is not started: no pools, no command.\<close>

definition resting :: "dispatcher \<Rightarrow> bool" where
  "resting d \<longleftrightarrow> \<not> bit (d_status d) 1 \<and> \<not> bit (d_status d) 3 \<and> \<not> bit (d_status d) 4 \<and>
     cur_cmd_req d = None \<and> token_cnt d = 0"

lemma resting_frame [simp]:
  "resting (d\<lparr>msg_idle_q := q\<rparr>) = resting d" "resting (d\<lparr>msg_wait_q := q\<rparr>) = resting d"
  "resting (d\<lparr>msg_pend_q := q\<rparr>) = resting d" "resting (d\<lparr>req_idle_q := q\<rparr>) = resting d"
  "resting (d\<lparr>req_wait_q := q\<rparr>) = resting d" "resting (d\<lparr>token_op_q := q'\<rparr>) = resting d"
  "resting (d\<lparr>req_pool := p\<rparr>) = resting d" "resting (d\<lparr>renew_req_info := y\<rparr>) = resting d"
  "resting (d\<lparr>pending_evt := v\<rparr>) = resting d"
  by (simp_all add: resting_def)

definition dinv :: "nat set \<Rightarrow> ghost \<Rightarrow> engine \<Rightarrow> bool" where
  "dinv B G e \<longleftrightarrow> phy_num e = g_bands G \<and> excl_ok e \<and>
     (\<forall>b < g_bands G. bit (d_status (dsp e b)) 1 \<longleftrightarrow> b \<in> g_on G) \<and>
     (\<forall>b < g_bands G. b \<notin> B \<longrightarrow> resting (dsp e b)) \<and>
     (\<forall>b \<in> B. b < g_bands G \<and> disp_inv (g_msg G b) (g_req G b) (g_del G b) (g_cur G b) (dsp e b) \<and> wakes G b e)"

subsection \<open>Reading an updated engine\<close>

lemma phy_num_upd [simp]: "length (e_disp (upd b f e)) = phy_num e"
  by (simp add: upd_def)

lemma dsp_upd: "dsp (upd b f e) b' = (if b' = b \<and> b < phy_num e then f (dsp e b) else dsp e b')"
  by (cases "b < phy_num e") (auto simp: upd_def nth_list_update list_update_beyond)

lemma e_sema_upd [simp]: "e_sema (upd b f e) = e_sema e"
  by (simp add: upd_def)

text \<open>What the invariant looks at.\<close>

definition flag_bits :: "dispatcher \<Rightarrow> (bool \<times> bool) list" where
  "flag_bits d = map (\<lambda>x. (bit (rx_status x) 0, bit (rx_status x) 1)) (req_pool d)"

definition view :: "dispatcher \<Rightarrow> _" where
  "view d = (msg_wait_q d, msg_idle_q d, msg_pend_q d, length (msg_pool d), req_wait_q d, req_idle_q d,
     token_op_q d, flag_bits d, cur_cmd_req d, token_cnt d,
     bit (d_status d) 1, bit (d_status d) 3, bit (d_status d) 4, bit (d_status d) 10, bit (d_status d) 11)"

lemma length_flag_bits: "length (flag_bits d) = length (req_pool d)"
  by (simp add: flag_bits_def)

lemma nth_flag_bits: "r < length (req_pool d) \<Longrightarrow> flag_bits d ! r = (enq d r, running d r)"
  by (simp add: flag_bits_def enq_def running_def)

lemma view_req_length: "view d' = view d \<Longrightarrow> length (req_pool d') = length (req_pool d)"
  unfolding view_def prod.inject length_flag_bits [symmetric] by simp

lemma view_req_status:
  assumes "view d' = view d" "r < length (req_pool d)"
  shows "enq d' r = enq d r" "running d' r = running d r"
proof -
  have "flag_bits d' = flag_bits d" using assms(1) unfolding view_def prod.inject by (elim conjE)
  with nth_flag_bits [of r d] nth_flag_bits [of r d'] assms view_req_length [OF assms(1)]
  show "enq d' r = enq d r" "running d' r = running d r" by simp_all
qed

lemma view_disp_inv:
  assumes "view d' = view d" shows "disp_inv X Y Z c d' = disp_inv X Y Z c d"
proof -
  note same = view_req_length [OF assms] view_req_status [OF assms]
  have q: "queues_wf d' = queues_wf d" "msgs_of d' = msgs_of d" "reqs_of d' = reqs_of d"
    "length (msg_pool d') = length (msg_pool d)" "cur_cmd_req d' = cur_cmd_req d"
    "token_cnt d' = token_cnt d" "req_wait_q d' = req_wait_q d"
    using assms unfolding view_def queues_wf_def msgs_of_def reqs_of_def by simp_all
  have "length (req_pool d) = MAX_CMD_REQ_NUM \<Longrightarrow> req_flags Z c d' = req_flags Z c d"
    using same unfolding req_flags_def q by simp
  with q same show ?thesis unfolding disp_inv_def by metis
qed

lemma view_flags:
  "view (dsp e' b) = view (dsp e b) \<Longrightarrow>
     resting (dsp e' b) = resting (dsp e b) \<and>
     bit (d_status (dsp e' b)) 1 = bit (d_status (dsp e b)) 1 \<and>
     d_test e' b DISPR_CLEARANCE = d_test e b DISPR_CLEARANCE \<and>
     d_test e' b DISPR_EXCLUSIVE_USE = d_test e b DISPR_EXCLUSIVE_USE"
  by (simp add: view_def d_test_def resting_def DISPR_CLEARANCE_def DISPR_EXCLUSIVE_USE_def flag_simps)

lemma ntfyidx_lt: "phy_num e = 2 \<Longrightarrow> ntfyidx b < phy_num e"
  by (simp add: ntfyidx_def)

lemma dinv_view:
  assumes "phy_num e' = phy_num e" "\<And>b. b < phy_num e \<Longrightarrow> view (dsp e' b) = view (dsp e b)"
    and "e_sema e' \<ge> e_sema e" "dinv B G e"
  shows "dinv B G e'"
proof -
  have f: "b < phy_num e \<Longrightarrow> resting (dsp e' b) = resting (dsp e b) \<and>
     bit (d_status (dsp e' b)) 1 = bit (d_status (dsp e b)) 1 \<and>
     d_test e' b DISPR_CLEARANCE = d_test e b DISPR_CLEARANCE \<and>
     d_test e' b DISPR_EXCLUSIVE_USE = d_test e b DISPR_EXCLUSIVE_USE" for b
    using view_flags [OF assms(2)] .
  have "excl_ok e'"
    using assms(1,4) f ntfyidx_lt [of e] unfolding dinv_def excl_ok_def by auto
  moreover have "wakes G b e'" if "b \<in> B" for b
  proof -
    have "b < phy_num e" "wakes G b e" using that assms(4) by (auto simp: dinv_def)
    with assms(2) [of b] assms(3) show ?thesis by (auto simp: wakes_def view_def)
  qed
  ultimately show ?thesis
    using assms f view_disp_inv [OF assms(2)] unfolding dinv_def by auto
qed

lemma dinv_neutral:
  assumes "\<And>d. view (f d) = view d" "dinv B G e"
  shows "dinv B G (upd b f e)"
  by (rule dinv_view [OF _ _ _ assms(2)]) (auto simp: dsp_upd assms(1))

named_theorems dinv_intro "preservation of the dispatcher invariant"

lemma dinv_upd_msg [dinv_intro]: "dinv B G e \<Longrightarrow> dinv B G (upd_msg b i f e)"
  unfolding upd_msg_def by (rule dinv_neutral) (simp_all add: view_def flag_bits_def)

lemma dinv_m_set [dinv_intro]: "dinv B G e \<Longrightarrow> dinv B G (m_set f b i e)"
  unfolding m_set_def by (rule dinv_upd_msg)

lemma dinv_m_clear [dinv_intro]: "dinv B G e \<Longrightarrow> dinv B G (m_clear f b i e)"
  unfolding m_clear_def by (rule dinv_upd_msg)

lemma dinv_upd_mid [dinv_intro]: "dinv B G e \<Longrightarrow> dinv B G (upd_mid b i f e)"
  unfolding upd_mid_def by (rule dinv_upd_msg)

lemma dinv_pending_evt [dinv_intro]: "dinv B G e \<Longrightarrow> dinv B G (SET_CUR_PENDING_EVT b k evt e)"
  unfolding SET_CUR_PENDING_EVT_def by (rule dinv_neutral) (simp_all add: view_def flag_bits_def)

lemma dinv_notify [dinv_intro]: "dinv B G e \<Longrightarrow> dinv B G (notify_dispr_thread e)"
  by (rule dinv_view) (auto simp: notify_dispr_thread_def)

lemma dinv_if [dinv_intro]: "dinv B G x \<Longrightarrow> dinv B G y \<Longrightarrow> dinv B G (if c then x else y)"
  by simp

lemma dinv_Let: "dinv B G x \<Longrightarrow> (\<And>y. dinv B G y \<Longrightarrow> dinv B G' (f y)) \<Longrightarrow> dinv B G' (let y = x in f y)"
  by simp

text \<open>The flags of the dispatcher that the invariant does not look at.\<close>

definition free_flag :: "u16 \<Rightarrow> bool" where
  "free_flag f \<longleftrightarrow> \<not> bit f 1 \<and> \<not> bit f 3 \<and> \<not> bit f 4 \<and> \<not> bit f 10 \<and> \<not> bit f 11"

lemma free_flags [simp]:
  "free_flag DISPR_INIT" "free_flag DISPR_SHALL_STOP"
  "free_flag DISPR_NOTIFY_IDLE" "free_flag DISPR_CLR_PEND_MSG" "free_flag DISPR_CTRL_PRESENT"
  "free_flag DISPR_WAIT_ABORT_MSG_DONE" "free_flag DISPR_CANNOT_IO"
  by (simp_all add: free_flag_def DISPR_INIT_def DISPR_SHALL_STOP_def DISPR_NOTIFY_IDLE_def DISPR_CLR_PEND_MSG_def DISPR_CTRL_PRESENT_def DISPR_WAIT_ABORT_MSG_DONE_def
      DISPR_CANNOT_IO_def)

lemma dinv_d_set [dinv_intro]: "free_flag f \<Longrightarrow> dinv B G e \<Longrightarrow> dinv B G (d_set f b e)"
  unfolding d_set_def
  by (rule dinv_neutral) (auto simp: view_def flag_bits_def free_flag_def SET_STATUS_FLAG_def bit_simps)

lemma dinv_d_clear [dinv_intro]: "free_flag f \<Longrightarrow> dinv B G e \<Longrightarrow> dinv B G (d_clear f b e)"
  unfolding d_clear_def
  by (rule dinv_neutral) (auto simp: view_def flag_bits_def free_flag_def CLEAR_STATUS_FLAG_def bit_simps)


subsection \<open>Moving messages and requests\<close>

definition take_msg :: "nat \<Rightarrow> nat \<Rightarrow> ghost \<Rightarrow> ghost" where
  "take_msg b i G = G\<lparr>g_msg := (g_msg G)(b := add_mset i (g_msg G b))\<rparr>"

definition drop_req :: "nat \<Rightarrow> nat \<Rightarrow> ghost \<Rightarrow> ghost" where
  "drop_req b r G = G\<lparr>g_del := (g_del G)(b := add_mset r (g_del G b))\<rparr>"

definition take_req :: "nat \<Rightarrow> nat \<Rightarrow> ghost \<Rightarrow> ghost" where
  "take_req b r G = G\<lparr>g_req := (g_req G)(b := add_mset r (g_req G b))\<rparr>"

definition set_cur :: "nat \<Rightarrow> nat option \<Rightarrow> ghost \<Rightarrow> ghost" where
  "set_cur b c G = G\<lparr>g_cur := (g_cur G)(b := c)\<rparr>"

definition owe_wait :: "nat \<Rightarrow> ghost \<Rightarrow> ghost" where
  "owe_wait b G = G\<lparr>g_wait := (g_wait G)(b := Suc (g_wait G b))\<rparr>"

definition owe_op :: "nat \<Rightarrow> ghost \<Rightarrow> ghost" where
  "owe_op b G = G\<lparr>g_op := (g_op G)(b := Suc (g_op G b))\<rparr>"

lemmas ghost_defs = take_msg_def take_req_def drop_req_def set_cur_def owe_wait_def owe_op_def

lemma dinv_band: "dinv B G e \<Longrightarrow> b \<in> B \<Longrightarrow>
    b < phy_num e \<and> disp_inv (g_msg G b) (g_req G b) (g_del G b) (g_cur G b) (dsp e b) \<and> wakes G b e"
  by (simp add: dinv_def)

lemma dinv_upd_band:
  assumes inv: "dinv B G e" and st: "d_status (f (dsp e b)) = d_status (dsp e b)"
    and own: "b \<in> B \<Longrightarrow> disp_inv (g_msg G' b) (g_req G' b) (g_del G' b) (g_cur G' b) (f (dsp e b))"
    and wake: "b \<in> B \<Longrightarrow> length (pq_queue (msg_wait_q (f (dsp e b)))) \<le> e_sema e + g_wait G' b \<and>
        length (pq_queue (token_op_q (f (dsp e b)))) \<le> e_sema e + g_op G' b"
    and other: "\<And>b'. b' \<noteq> b \<Longrightarrow> g_msg G' b' = g_msg G b' \<and> g_req G' b' = g_req G b' \<and> g_del G' b' = g_del G b' \<and>
        g_cur G' b' = g_cur G b' \<and> g_wait G' b' = g_wait G b' \<and> g_op G' b' = g_op G b'"
    and bands: "g_bands G' = g_bands G \<and> g_on G' = g_on G"
    and rest: "b \<notin> B \<Longrightarrow> resting (dsp e b) \<Longrightarrow> resting (f (dsp e b))"
  shows "dinv B G' (upd b f e)"
proof -
  have flags: "d_test (upd b f e) b' F = d_test e b' F" for b' F
    using st by (simp add: d_test_def dsp_upd)
  have "wakes G' b' (upd b f e) \<and>
      disp_inv (g_msg G' b') (g_req G' b') (g_del G' b') (g_cur G' b') (dsp (upd b f e) b')" if "b' \<in> B" for b'
  proof (cases "b' = b")
    case True
    with own wake dinv_band [OF inv that] that show ?thesis by (simp add: wakes_def dsp_upd)
  next
    case False
    with dinv_band [OF inv that] other [OF False] show ?thesis by (simp add: wakes_def dsp_upd)
  qed
  moreover have "bit (d_status (dsp (upd b f e) b')) 1 = bit (d_status (dsp e b')) 1" for b'
    using st by (simp add: dsp_upd)
  moreover have "resting (dsp e b') \<Longrightarrow> b' \<notin> B \<Longrightarrow> resting (dsp (upd b f e) b')" for b'
    using rest by (auto simp: dsp_upd)
  ultimately show ?thesis using inv bands unfolding dinv_def excl_ok_def flags by simp
qed

lemma dinv_owed_wait: "dinv B (owe_wait b G) e \<Longrightarrow> dinv B G (notify_dispr_thread e)"
  by (auto simp: dinv_def wakes_def excl_ok_def d_test_def notify_dispr_thread_def ghost_defs split: if_splits)

lemma dinv_owed_op: "dinv B (owe_op b G) e \<Longrightarrow> dinv B G (notify_dispr_thread e)"
  by (auto simp: dinv_def wakes_def excl_ok_def d_test_def notify_dispr_thread_def ghost_defs split: if_splits)

text \<open>The queues of a dispatcher that satisfies the invariant.\<close>

lemma disp_invD:
  assumes "disp_inv X Y Z c d"
  shows "queues_wf d" "length (msg_pool d) = MAX_PHL_MSG_NUM" "length (req_pool d) = MAX_CMD_REQ_NUM"
    "msgs_of d + X = mset [0..<MAX_PHL_MSG_NUM]" "reqs_of d + Y + Z + cur_mset c = mset [0..<MAX_CMD_REQ_NUM]"
    "cur_cmd_req d = c" "token_cnt d = (if c = None then 0 else 1)" "req_flags Z c d"
  using assms by (simp_all add: disp_inv_def)

lemma disp_inv_msgs:
  assumes "disp_inv X Y Z c d" "queues_wf d'" "msgs_of d' + X' = msgs_of d + X"
    and "length (msg_pool d') = length (msg_pool d)" "req_pool d' = req_pool d" "req_wait_q d' = req_wait_q d"
    and "req_idle_q d' = req_idle_q d" "cur_cmd_req d' = cur_cmd_req d" "token_cnt d' = token_cnt d"
  shows "disp_inv X' Y Z c d'"
  using assms unfolding disp_inv_def reqs_of_def req_flags_def enq_def running_def by simp

lemma push_idle_msg [dinv_intro]:
  assumes "dinv B (take_msg b i G) e"
  shows "dinv B G (upd b (\<lambda>d. d\<lparr>msg_idle_q := pq_push (msg_idle_q d) i Tail\<rparr>) e)"
proof (rule dinv_upd_band [OF assms])
  assume b: "b \<in> B"
  note d = conjunct1 [OF conjunct2 [OF dinv_band [OF assms b]]]
  show "disp_inv (g_msg G b) (g_req G b) (g_del G b) (g_cur G b)
      ((dsp e b)\<lparr>msg_idle_q := pq_push (msg_idle_q (dsp e b)) i Tail\<rparr>)"
    by (rule disp_inv_msgs [OF d [unfolded ghost_defs, simplified]])
      (use disp_invD(1) [OF d] in \<open>auto simp: queues_wf_def msgs_of_def\<close>)
qed (use dinv_band [OF assms] in \<open>auto simp: ghost_defs wakes_def\<close>)

lemma push_pend_msg [dinv_intro]:
  assumes "dinv B (take_msg b i G) e"
  shows "dinv B G (upd b (\<lambda>d. d\<lparr>msg_pend_q := pq_push (msg_pend_q d) i Tail\<rparr>) e)"
proof (rule dinv_upd_band [OF assms])
  assume b: "b \<in> B"
  note d = conjunct1 [OF conjunct2 [OF dinv_band [OF assms b]]]
  show "disp_inv (g_msg G b) (g_req G b) (g_del G b) (g_cur G b)
      ((dsp e b)\<lparr>msg_pend_q := pq_push (msg_pend_q (dsp e b)) i Tail\<rparr>)"
    by (rule disp_inv_msgs [OF d [unfolded ghost_defs, simplified]])
      (use disp_invD(1) [OF d] in \<open>auto simp: queues_wf_def msgs_of_def\<close>)
qed (use dinv_band [OF assms] in \<open>auto simp: ghost_defs wakes_def\<close>)

lemma queue_wait_msg:
  assumes "dinv B (take_msg b i G) e"
    and q: "\<And>q. pq_wf q \<Longrightarrow> pq_wf (put (dsp e b) q) \<and> mset (pq_queue (put (dsp e b) q)) = add_mset i (mset (pq_queue q))"
  shows "dinv B G (notify_dispr_thread (upd b (\<lambda>d. d\<lparr>msg_wait_q := put d (msg_wait_q d)\<rparr>) e))"
proof (rule dinv_owed_wait, rule dinv_upd_band [OF assms(1)])
  assume b: "b \<in> B"
  note d = conjunct1 [OF conjunct2 [OF dinv_band [OF assms(1) b]]]
  have wf: "pq_wf (msg_wait_q (dsp e b))" using disp_invD(1) [OF d] by (simp add: queues_wf_def)
  show "disp_inv (g_msg (owe_wait b G) b) (g_req (owe_wait b G) b) (g_del (owe_wait b G) b) (g_cur (owe_wait b G) b)
      ((dsp e b)\<lparr>msg_wait_q := put (dsp e b) (msg_wait_q (dsp e b))\<rparr>)"
    unfolding ghost_defs
    by (simp, rule disp_inv_msgs [OF d [unfolded ghost_defs, simplified]])
      (use disp_invD(1) [OF d] q [OF wf] in \<open>auto simp: queues_wf_def msgs_of_def\<close>)
  have "length (pq_queue (put (dsp e b) (msg_wait_q (dsp e b)))) = Suc (length (pq_queue (msg_wait_q (dsp e b))))"
    using arg_cong [OF conjunct2 [OF q [OF wf]], of size] by simp
  then show "length (pq_queue (msg_wait_q ((dsp e b)\<lparr>msg_wait_q := put (dsp e b) (msg_wait_q (dsp e b))\<rparr>)))
      \<le> e_sema e + g_wait (owe_wait b G) b \<and>
     length (pq_queue (token_op_q ((dsp e b)\<lparr>msg_wait_q := put (dsp e b) (msg_wait_q (dsp e b))\<rparr>)))
      \<le> e_sema e + g_op (owe_wait b G) b"
    using dinv_band [OF assms(1) b] by (simp add: wakes_def ghost_defs)
qed (auto simp: ghost_defs)

lemma dinv_push_back_wait [dinv_intro]: "dinv B (take_msg b i G) e \<Longrightarrow> dinv B G (push_back_wait_msg b i e)"
  unfolding push_back_wait_msg_def Let_def
  by (rule queue_wait_msg) (auto intro: dinv_intro simp: pq_wf_push)

lemma dinv_insert_by_priority [dinv_intro]: "dinv B (take_msg b i G) e \<Longrightarrow> dinv B G (insert_msg_by_priority b i e)"
  unfolding insert_msg_by_priority_def Let_def
  by (rule queue_wait_msg) (auto intro: dinv_intro simp: pq_wf_insert)

lemma dinv_push_back_pending [dinv_intro]: "dinv B (take_msg b i G) e \<Longrightarrow> dinv B G (push_back_pending_msg b i e)"
  unfolding push_back_pending_msg_def Let_def by (intro dinv_intro)

lemma dinv_requeue [dinv_intro]: "dinv B (take_msg b i G) e \<Longrightarrow> dinv B G (requeue_msg b i e)"
  unfolding requeue_msg_def by (intro dinv_intro)

subsection \<open>Taking a message from a queue\<close>

lemma dinv_owe: "dinv B G e \<Longrightarrow> dinv B (owe_wait b G) e" "dinv B G e \<Longrightarrow> dinv B (owe_op b G) e"
  unfolding dinv_def wakes_def ghost_defs by (auto simp: le_Suc_eq add_increasing2 trans_le_add1 dest!: bspec)

lemma dinv_pop_idle:
  assumes inv: "dinv B G e" and pop: "pop_front_idle_msg b e = (Some i, e')"
  shows "dinv B (take_msg b i G) e'"
proof -
  obtain q where q: "pq_pop (msg_idle_q (dsp e b)) First = (Some i, q)"
    and e': "dinv B (take_msg b i G) (upd b (\<lambda>d. d\<lparr>msg_idle_q := q\<rparr>) e) \<Longrightarrow> dinv B (take_msg b i G) e'"
    using pop by (auto simp: pop_front_idle_msg_def split: prod.splits option.splits intro: dinv_intro)
  show ?thesis
  proof (rule e', rule dinv_upd_band [OF inv])
    assume b: "b \<in> B"
    note d = conjunct1 [OF conjunct2 [OF dinv_band [OF inv b]]]
    have "pq_wf (msg_idle_q (dsp e b))" using disp_invD(1) [OF d] by (simp add: queues_wf_def)
    note this pq_pop_Some [OF this q]
    then show "disp_inv (g_msg (take_msg b i G) b) (g_req (take_msg b i G) b) (g_del (take_msg b i G) b)
        (g_cur (take_msg b i G) b) ((dsp e b)\<lparr>msg_idle_q := q\<rparr>)"
      unfolding ghost_defs by (simp, intro disp_inv_msgs [OF d])
        (use disp_invD(1) [OF d] in \<open>auto simp: queues_wf_def msgs_of_def\<close>)
  qed (use dinv_band [OF inv] in \<open>auto simp: ghost_defs wakes_def\<close>)
qed

lemma pop_idle_None: "pop_front_idle_msg b e = (None, e') \<Longrightarrow> e' = e"
  by (auto simp: pop_front_idle_msg_def split: prod.splits option.splits)

lemma dinv_pop_pending:
  assumes inv: "dinv B G e" and pop: "pop_front_pending_msg b e = (Some i, e')"
  shows "dinv B (take_msg b i G) e'"
proof -
  obtain q where q: "pq_pop (msg_pend_q (dsp e b)) First = (Some i, q)"
    and e': "e' = upd b (\<lambda>d. d\<lparr>msg_pend_q := q\<rparr>) e"
    using pop by (auto simp: pop_front_pending_msg_def split: prod.splits option.splits)
  show ?thesis unfolding e'
  proof (rule dinv_upd_band [OF inv])
    assume b: "b \<in> B"
    note d = conjunct1 [OF conjunct2 [OF dinv_band [OF inv b]]]
    have "pq_wf (msg_pend_q (dsp e b))" using disp_invD(1) [OF d] by (simp add: queues_wf_def)
    note this pq_pop_Some [OF this q]
    then show "disp_inv (g_msg (take_msg b i G) b) (g_req (take_msg b i G) b) (g_del (take_msg b i G) b)
        (g_cur (take_msg b i G) b) ((dsp e b)\<lparr>msg_pend_q := q\<rparr>)"
      unfolding ghost_defs by (simp, intro disp_inv_msgs [OF d])
        (use disp_invD(1) [OF d] in \<open>auto simp: queues_wf_def msgs_of_def\<close>)
  qed (use dinv_band [OF inv] in \<open>auto simp: ghost_defs wakes_def\<close>)
qed

lemma pop_pending_None: "pop_front_pending_msg b e = (None, e') \<Longrightarrow> e' = e"
  by (auto simp: pop_front_pending_msg_def split: prod.splits option.splits)

text \<open>A message that leaves the wait queue pays for one notification.\<close>

lemma dinv_pop_wait:
  assumes inv: "dinv B (owe_wait b G) e" and pop: "pop_front_wait_msg b e = (Some i, e')"
  shows "dinv B (take_msg b i G) e'"
proof -
  obtain q where q: "pq_pop (msg_wait_q (dsp e b)) First = (Some i, q)"
    and e': "dinv B (take_msg b i G) (upd b (\<lambda>d. d\<lparr>msg_wait_q := q\<rparr>) e) \<Longrightarrow> dinv B (take_msg b i G) e'"
    using pop by (auto simp: pop_front_wait_msg_def split: prod.splits option.splits intro: dinv_intro)
  show ?thesis
  proof (rule e', rule dinv_upd_band [OF inv])
    assume b: "b \<in> B"
    note d = conjunct1 [OF conjunct2 [OF dinv_band [OF inv b]]]
    have "pq_wf (msg_wait_q (dsp e b))" using disp_invD(1) [OF d] by (simp add: queues_wf_def)
    note wf = this pq_pop_Some [OF this q]
    then show "disp_inv (g_msg (take_msg b i G) b) (g_req (take_msg b i G) b) (g_del (take_msg b i G) b)
        (g_cur (take_msg b i G) b) ((dsp e b)\<lparr>msg_wait_q := q\<rparr>)"
      unfolding ghost_defs by (simp, intro disp_inv_msgs [OF d [unfolded ghost_defs, simplified]])
        (use disp_invD(1) [OF d] in \<open>auto simp: queues_wf_def msgs_of_def\<close>)
    show "length (pq_queue (msg_wait_q ((dsp e b)\<lparr>msg_wait_q := q\<rparr>))) \<le> e_sema e + g_wait (take_msg b i G) b \<and>
      length (pq_queue (token_op_q ((dsp e b)\<lparr>msg_wait_q := q\<rparr>))) \<le> e_sema e + g_op (take_msg b i G) b"
      using dinv_band [OF inv b] wf by (simp add: wakes_def ghost_defs)
  qed (auto simp: ghost_defs)
qed

lemma dinv_ghost:
  assumes "dinv B G e" and "g_bands G' = g_bands G" "g_on G' = g_on G" and "\<And>b. b \<in> B \<Longrightarrow> g_msg G' b = g_msg G b \<and> g_req G' b = g_req G b \<and>
      g_del G' b = g_del G b \<and> g_cur G' b = g_cur G b \<and> wakes G' b e"
  shows "dinv B G' e"
proof -
  have "b < phy_num e \<and> disp_inv (g_msg G' b) (g_req G' b) (g_del G' b) (g_cur G' b) (dsp e b) \<and> wakes G' b e"
    if "b \<in> B" for b
    using dinv_band [OF assms(1) that] assms(4) [OF that] by (elim conjE) simp
  with assms(1-3) show ?thesis unfolding dinv_def by simp
qed

lemma dinv_pop_wait_None:
  assumes inv: "dinv B (owe_wait b G) e" and pop: "pop_front_wait_msg b e = (None, e')"
  shows "dinv B G e' \<and> e' = e"
proof -
  have e': "e' = e" and p: "fst (pq_pop (msg_wait_q (dsp e b)) First) = None"
    using pop by (auto simp: pop_front_wait_msg_def split: prod.splits option.splits)
  have q: "pq_queue (msg_wait_q (dsp e b)) = []" if "b \<in> B"
  proof -
    have "pq_wf (msg_wait_q (dsp e b))"
      using dinv_band [OF inv that] by (simp add: disp_inv_def queues_wf_def)
    with p show ?thesis by (auto simp: pq_pop_First split: list.splits)
  qed
  have "wakes G b' e" if "b' \<in> B" for b'
    using dinv_band [OF inv that] q that by (cases "b' = b") (simp_all add: wakes_def ghost_defs)
  then have "dinv B G e" by (intro dinv_ghost [OF inv]) (simp_all add: ghost_defs)
  with e' show ?thesis by simp
qed

subsection \<open>Operations on the token queue\<close>

lemma dinv_set_op_info [dinv_intro]: "dinv B G e \<Longrightarrow> dinv B G (upd b (set_op_info r info) e)"
proof (rule dinv_neutral)
  fix d
  show "view (set_op_info r info d) = view d"
  proof (cases r)
    case (Add_info i)
    then show ?thesis by (simp add: set_op_info_def view_def flag_bits_def map_update, cases "i < length (req_pool d)")
        (simp_all add: list_update_same_conv list_update_beyond)
  next
    case (Free_info i)
    then show ?thesis by (simp add: set_op_info_def view_def flag_bits_def map_update, cases "i < length (req_pool d)")
        (simp_all add: list_update_same_conv list_update_beyond)
  qed (simp add: set_op_info_def view_def flag_bits_def)
qed

lemma dinv_set_unused [dinv_intro]: "dinv B G e \<Longrightarrow> dinv B G (set_unused r b e)"
  using dinv_set_op_info [of B G e b r "(op_info (dsp e b) r)\<lparr>op_used := False\<rparr>"]
  by (simp add: set_unused_def upd_def)

lemma dinv_push_op [dinv_intro]:
  assumes inv: "dinv B G e"
  shows "dinv B G (notify_dispr_thread (upd b (\<lambda>d. d\<lparr>token_op_q := pq_push (token_op_q d) r Tail\<rparr>) e))"
proof (rule dinv_owed_op, rule dinv_upd_band [OF inv])
  assume b: "b \<in> B"
  note d = conjunct1 [OF conjunct2 [OF dinv_band [OF inv b]]]
  show "disp_inv (g_msg (owe_op b G) b) (g_req (owe_op b G) b) (g_del (owe_op b G) b) (g_cur (owe_op b G) b)
      ((dsp e b)\<lparr>token_op_q := pq_push (token_op_q (dsp e b)) r Tail\<rparr>)"
    unfolding ghost_defs by (simp, rule disp_inv_msgs [OF d])
      (use disp_invD(1) [OF d] in \<open>auto simp: queues_wf_def msgs_of_def\<close>)
qed (use dinv_band [OF inv] in \<open>auto simp: ghost_defs wakes_def\<close>)

lemma dinv_enqueue_op [dinv_intro]: "dinv B G e \<Longrightarrow> dinv B G (snd (dispr_enqueue_token_op_info b r ty data e))"
  unfolding dispr_enqueue_token_op_info_def push_back_token_op_info_def Let_def
  by (auto intro: dinv_intro)

lemma dinv_renew [dinv_intro]: "dinv B G e \<Longrightarrow> dinv B G (renew b e)"
  unfolding renew_def by (intro dinv_intro)

lemma dinv_pop_op:
  assumes inv: "dinv B G e" and pop: "pop_front_token_op_info b e = (Some r, e')"
  shows "dinv B G e'"
proof -
  obtain q where q: "pq_pop (token_op_q (dsp e b)) First = (Some r, q)"
    and e': "e' = upd b (\<lambda>d. d\<lparr>token_op_q := q\<rparr>) e"
    using pop by (auto simp: pop_front_token_op_info_def split: prod.splits option.splits)
  show ?thesis unfolding e'
  proof (rule dinv_upd_band [OF inv])
    assume b: "b \<in> B"
    note d = conjunct1 [OF conjunct2 [OF dinv_band [OF inv b]]]
    have "pq_wf (token_op_q (dsp e b))" using disp_invD(1) [OF d] by (simp add: queues_wf_def)
    note wf = this pq_pop_Some [OF this q]
    then show "disp_inv (g_msg G b) (g_req G b) (g_del G b) (g_cur G b) ((dsp e b)\<lparr>token_op_q := q\<rparr>)"
      by (intro disp_inv_msgs [OF d]) (use disp_invD(1) [OF d] in \<open>auto simp: queues_wf_def msgs_of_def\<close>)
    show "length (pq_queue (msg_wait_q ((dsp e b)\<lparr>token_op_q := q\<rparr>))) \<le> e_sema e + g_wait G b \<and>
        length (pq_queue (token_op_q ((dsp e b)\<lparr>token_op_q := q\<rparr>))) \<le> e_sema e + g_op G b"
      using dinv_band [OF inv b] wf by (simp add: wakes_def)
  qed simp_all
qed

text \<open>Once the queue is empty nothing is owed for it.\<close>

lemma dinv_pop_op_None:
  assumes inv: "dinv B (owe_op b G) e" and pop: "pop_front_token_op_info b e = (None, e')"
  shows "dinv B G e'"
proof -
  have e': "e' = e" and p: "fst (pq_pop (token_op_q (dsp e b)) First) = None"
    using pop by (auto simp: pop_front_token_op_info_def split: prod.splits option.splits)
  have q: "pq_queue (token_op_q (dsp e b)) = []" if "b \<in> B"
  proof -
    have "pq_wf (token_op_q (dsp e b))"
      using dinv_band [OF inv that] by (simp add: disp_inv_def queues_wf_def)
    with p show ?thesis by (auto simp: pq_pop_First split: list.splits)
  qed
  have "wakes G b' e" if "b' \<in> B" for b'
    using dinv_band [OF inv that] q that by (cases "b' = b") (simp_all add: wakes_def ghost_defs)
  then have "dinv B G e" by (intro dinv_ghost [OF inv]) (simp_all add: ghost_defs)
  with e' show ?thesis by simp
qed

subsection \<open>The flags of a request\<close>

lemma dinv_upd_req:
  assumes "\<And>x. bit (rx_status (f x)) 0 = bit (rx_status x) 0 \<and> bit (rx_status (f x)) 1 = bit (rx_status x) 1"
    and "dinv B G e"
  shows "dinv B G (upd_req b r f e)"
  unfolding upd_req_def
proof (rule dinv_neutral [OF _ assms(2)])
  fix d
  show "view (d\<lparr>req_pool := (req_pool d)[r := f (req_pool d ! r)]\<rparr>) = view d"
    using assms(1) by (cases "r < length (req_pool d)")
      (simp_all add: view_def flag_bits_def map_update list_update_same_conv list_update_beyond)
qed

definition free_rflag :: "u8 \<Rightarrow> bool" where
  "free_rflag f \<longleftrightarrow> \<not> bit f 0 \<and> \<not> bit f 1"

lemma free_rflags [simp]:
  "free_rflag REQ_STATUS_CANCEL" "free_rflag REQ_STATUS_LAST_PERMIT" "free_rflag REQ_STATUS_PREPARE"
  by (simp_all add: free_rflag_def REQ_STATUS_CANCEL_def REQ_STATUS_LAST_PERMIT_def REQ_STATUS_PREPARE_def)

lemma dinv_r_set [dinv_intro]: "free_rflag f \<Longrightarrow> dinv B G e \<Longrightarrow> dinv B G (r_set f b r e)"
  unfolding r_set_def by (rule dinv_upd_req) (auto simp: free_rflag_def SET_STATUS_FLAG_def bit_simps)

lemma dinv_r_clear [dinv_intro]: "free_rflag f \<Longrightarrow> dinv B G e \<Longrightarrow> dinv B G (r_clear f b r e)"
  unfolding r_clear_def by (rule dinv_upd_req) (auto simp: free_rflag_def CLEAR_STATUS_FLAG_def bit_simps)

text \<open>Each request is in exactly one place.\<close>

lemma disp_inv_once:
  assumes "disp_inv X Y Z c d"
  shows "count (mset (pq_queue (req_idle_q d))) r + count (mset (pq_queue (req_wait_q d))) r +
     count Y r + count Z r + count (cur_mset c) r = (if r < MAX_CMD_REQ_NUM then 1 else 0)"
proof -
  have "count (mset [0..<MAX_CMD_REQ_NUM]) r = (if r < MAX_CMD_REQ_NUM then 1 else 0)"
    by (simp add: count_mset_0_iff distinct_count_atmost_1 count_eq_zero_iff)
  with arg_cong [OF disp_invD(5) [OF assms], of "\<lambda>M. count M r"] show ?thesis
    unfolding reqs_of_def count_union by simp
qed

lemma disp_inv_place:
  assumes "disp_inv X Y Z c d"
  shows "r \<in> set (pq_queue (req_idle_q d)) \<Longrightarrow>
      r < MAX_CMD_REQ_NUM \<and> r \<notin> set (pq_queue (req_wait_q d)) \<and> r \<notin># Z \<and> c \<noteq> Some r"
    and "r \<in> set (pq_queue (req_wait_q d)) \<Longrightarrow>
      r < MAX_CMD_REQ_NUM \<and> count (mset (pq_queue (req_wait_q d))) r = 1 \<and> r \<notin># Z \<and> c \<noteq> Some r"
    and "r \<in># Y \<Longrightarrow> r < MAX_CMD_REQ_NUM \<and> r \<notin> set (pq_queue (req_wait_q d)) \<and> r \<notin># Z \<and> c \<noteq> Some r"
    and "r \<in># Z \<Longrightarrow>
      r < MAX_CMD_REQ_NUM \<and> r \<notin> set (pq_queue (req_wait_q d)) \<and> count Z r = 1 \<and> c \<noteq> Some r"
    and "c = Some r \<Longrightarrow> r < MAX_CMD_REQ_NUM \<and> r \<notin> set (pq_queue (req_wait_q d)) \<and> r \<notin># Z"
proof -
  define ci where "ci = count (mset (pq_queue (req_idle_q d))) r"
  define cw where "cw = count (mset (pq_queue (req_wait_q d))) r"
  define cc where "cc = count (cur_mset c) r"
  define cy where "cy = count Y r"
  define cz where "cz = count Z r"
  have sum: "ci + cw + cy + cz + cc = (if r < MAX_CMD_REQ_NUM then 1 else 0)"
    using disp_inv_once [OF assms, of r] by (simp add: ci_def cw_def cc_def cy_def cz_def)
  have iff: "r \<in> set (pq_queue (req_idle_q d)) \<longleftrightarrow> 0 < ci" "r \<in> set (pq_queue (req_wait_q d)) \<longleftrightarrow> 0 < cw"
    "c = Some r \<longleftrightarrow> 0 < cc" "r \<in># Y \<longleftrightarrow> 0 < cy" "r \<in># Z \<longleftrightarrow> 0 < cz"
    unfolding ci_def cw_def cc_def cy_def cz_def by (auto simp: cur_mset_def split: option.splits)
  show "r \<in> set (pq_queue (req_idle_q d)) \<Longrightarrow>
      r < MAX_CMD_REQ_NUM \<and> r \<notin> set (pq_queue (req_wait_q d)) \<and> r \<notin># Z \<and> c \<noteq> Some r"
    and "r \<in> set (pq_queue (req_wait_q d)) \<Longrightarrow>
      r < MAX_CMD_REQ_NUM \<and> count (mset (pq_queue (req_wait_q d))) r = 1 \<and> r \<notin># Z \<and> c \<noteq> Some r"
    and "r \<in># Y \<Longrightarrow> r < MAX_CMD_REQ_NUM \<and> r \<notin> set (pq_queue (req_wait_q d)) \<and> r \<notin># Z \<and> c \<noteq> Some r"
    and "r \<in># Z \<Longrightarrow>
      r < MAX_CMD_REQ_NUM \<and> r \<notin> set (pq_queue (req_wait_q d)) \<and> count Z r = 1 \<and> c \<noteq> Some r"
    and "c = Some r \<Longrightarrow> r < MAX_CMD_REQ_NUM \<and> r \<notin> set (pq_queue (req_wait_q d)) \<and> r \<notin># Z"
    using sum unfolding iff cw_def [symmetric] cz_def [symmetric] by (auto split: if_splits)
qed

lemma disp_inv_reqs:
  assumes "disp_inv X Y Z c d" "queues_wf d'" "length (req_pool d') = length (req_pool d)"
    and "reqs_of d' + Y' + Z' + cur_mset c' = reqs_of d + Y + Z + cur_mset c"
    and "msg_pool d' = msg_pool d" "msg_idle_q d' = msg_idle_q d" "msg_wait_q d' = msg_wait_q d"
    and "msg_pend_q d' = msg_pend_q d" "cur_cmd_req d' = c'" "token_cnt d' = (if c' = None then 0 else 1)"
    and "req_flags Z' c' d'"
  shows "disp_inv X Y' Z' c' d'"
  using assms unfolding disp_inv_def msgs_of_def by simp

lemma req_upd_flags:
  "r < length (req_pool d) \<Longrightarrow> enq (d\<lparr>req_pool := (req_pool d)[r := x]\<rparr>) r' =
     (if r' = r then bit (rx_status x) 0 else enq d r')"
  "r < length (req_pool d) \<Longrightarrow> running (d\<lparr>req_pool := (req_pool d)[r := x]\<rparr>) r' =
     (if r' = r then bit (rx_status x) 1 else running d r')"
  by (auto simp: enq_def running_def)

lemma flags_frame [simp]:
  "enq (d\<lparr>req_idle_q := q\<rparr>) r = enq d r" "running (d\<lparr>req_idle_q := q\<rparr>) r = running d r"
  "enq (d\<lparr>req_wait_q := q\<rparr>) r = enq d r" "running (d\<lparr>req_wait_q := q\<rparr>) r = running d r"
  "enq (d\<lparr>cur_cmd_req := c\<rparr>) r = enq d r" "running (d\<lparr>cur_cmd_req := c\<rparr>) r = running d r"
  "enq (d\<lparr>token_cnt := n\<rparr>) r = enq d r" "running (d\<lparr>token_cnt := n\<rparr>) r = running d r"
  by (simp_all add: enq_def running_def)

lemma upd_upd: "upd b f (upd b g e) = upd b (\<lambda>d. f (g d)) e"
  by (cases "b < phy_num e") (simp_all add: upd_def list_update_beyond)

lemma dinv_req_band:
  assumes inv: "dinv B G e" and st: "d_status (f (dsp e b)) = d_status (dsp e b)"
    and own: "b \<in> B \<Longrightarrow> disp_inv (g_msg G' b) (g_req G' b) (g_del G' b) (g_cur G' b) (f (dsp e b))"
    and q: "msg_wait_q (f (dsp e b)) = msg_wait_q (dsp e b)" "token_op_q (f (dsp e b)) = token_op_q (dsp e b)"
    and k: "g_wait G' = g_wait G" "g_op G' = g_op G" "g_bands G' = g_bands G" "g_on G' = g_on G"
    and other: "\<And>b'. b' \<noteq> b \<Longrightarrow> g_msg G' b' = g_msg G b' \<and> g_req G' b' = g_req G b' \<and>
        g_del G' b' = g_del G b' \<and> g_cur G' b' = g_cur G b'"
    and rest: "b \<notin> B \<Longrightarrow> resting (dsp e b) \<Longrightarrow> resting (f (dsp e b))"
  shows "dinv B G' (upd b f e)"
  by (rule dinv_upd_band [where f = f, OF inv st own]) (use q k rest other dinv_band [OF inv] in \<open>auto simp: wakes_def\<close>)

lemma dinv_pop_idle_req:
  assumes inv: "dinv B G e" and pop: "pop_front_idle_req b e = (Some r, e')"
  shows "dinv B (take_req b r G) e'"
proof -
  define f :: "req_ex \<Rightarrow> req_ex" where "f = (\<lambda>x. x\<lparr>rx_status := 0, rx_req := no_req, rx_add_info := no_op_info,
      rx_free_info := no_op_info\<rparr>)"
  obtain q where q: "pq_pop (req_idle_q (dsp e b)) First = (Some r, q)"
    and e': "e' = upd b (\<lambda>d. (d\<lparr>req_idle_q := q\<rparr>)\<lparr>req_pool := (req_pool d)[r := f (req_pool d ! r)]\<rparr>) e"
    using pop by (auto simp: pop_front_idle_req_def upd_req_def upd_upd f_def split: prod.splits option.splits)
  show ?thesis unfolding e'
  proof (rule dinv_req_band [OF inv])
    assume b: "b \<in> B"
    let ?d = "dsp e b"
    note d = conjunct1 [OF conjunct2 [OF dinv_band [OF inv b]]]
    have "pq_wf (req_idle_q ?d)" using disp_invD(1) [OF d] by (simp add: queues_wf_def)
    note wf = this pq_pop_Some [OF this q]
    have r: "r < MAX_CMD_REQ_NUM \<and> r \<notin> set (pq_queue (req_wait_q ?d)) \<and> r \<notin># g_del G b \<and> g_cur G b \<noteq> Some r"
      by (rule disp_inv_place(1) [OF d]) (simp add: wf)
    have "req_flags (g_del G b) (g_cur G b) ((?d\<lparr>req_idle_q := q\<rparr>)\<lparr>req_pool := (req_pool ?d)[r := f (req_pool ?d ! r)]\<rparr>)"
      using disp_invD(8) [OF d] r disp_invD(3) [OF d]
      unfolding req_flags_def by (auto simp: enq_def running_def nth_list_update f_def)
    then show "disp_inv (g_msg (take_req b r G) b) (g_req (take_req b r G) b) (g_del (take_req b r G) b)
        (g_cur (take_req b r G) b)
        ((?d\<lparr>req_idle_q := q\<rparr>)\<lparr>req_pool := (req_pool ?d)[r := f (req_pool ?d ! r)]\<rparr>)"
      unfolding ghost_defs
      by (simp, intro disp_inv_reqs [OF d])
        (use disp_invD(1,6,7) [OF d] wf in \<open>auto simp: queues_wf_def reqs_of_def\<close>)
  qed (auto simp: ghost_defs)
qed

lemma pop_idle_req_None: "pop_front_idle_req b e = (None, e') \<Longrightarrow> e' = e"
  by (auto simp: pop_front_idle_req_def split: prod.splits option.splits)

lemma dinv_req_step:
  assumes inv: "dinv B G e" and st: "\<And>d. d_status (f d) = d_status d"
    and own: "\<And>d. b \<in> B \<Longrightarrow> disp_inv (g_msg G b) (g_req G b) (g_del G b) (g_cur G b) d \<Longrightarrow>
        disp_inv (g_msg G' b) (g_req G' b) (g_del G' b) (g_cur G' b) (f d)"
    and q: "\<And>d. msg_wait_q (f d) = msg_wait_q d" "\<And>d. token_op_q (f d) = token_op_q d"
    and k: "g_wait G' = g_wait G" "g_op G' = g_op G" "g_bands G' = g_bands G" "g_on G' = g_on G"
    and other: "\<And>b'. b' \<noteq> b \<Longrightarrow> g_msg G' b' = g_msg G b' \<and> g_req G' b' = g_req G b' \<and>
        g_del G' b' = g_del G b' \<and> g_cur G' b' = g_cur G b'"
    and rest: "\<And>d. b \<notin> B \<Longrightarrow> resting d \<Longrightarrow> resting (f d)"
  shows "dinv B G' (upd b f e)"
  by (rule dinv_req_band [OF inv]) (use st own q k other rest dinv_band [OF inv] in auto)

text \<open>
  A request returns to the idle queue with its status cleared, from an operation that holds it,
  from a cancellation that removed it, or as the current command that ends.
\<close>

definition put_idle :: "nat \<Rightarrow> req_ex \<Rightarrow> dispatcher \<Rightarrow> dispatcher" where
  "put_idle r x d = d\<lparr>req_pool := (req_pool d)[r := x], req_idle_q := pq_push (req_idle_q d) r Tail\<rparr>"

lemma disp_inv_put_idle:
  assumes "\<not> bit (rx_status x) 0" "\<not> bit (rx_status x) 1"
  shows "disp_inv X (add_mset r Y) Z c d \<Longrightarrow> disp_inv X Y Z c (put_idle r x d)"
    and "disp_inv X Y (add_mset r Z) c d \<Longrightarrow> disp_inv X Y Z c (put_idle r x d)"
    and "disp_inv X Y Z (Some r) d \<Longrightarrow>
      disp_inv X Y Z None ((put_idle r x d)\<lparr>cur_cmd_req := None, token_cnt := token_cnt d - 1\<rparr>)"
proof -
  have fl: "req_flags Z c' (put_idle r x d)"
    if d: "disp_inv X Y' Z' c d" and r: "r < MAX_CMD_REQ_NUM" "r \<notin> set (pq_queue (req_wait_q d))" "r \<notin># Z"
      and z: "\<And>r'. r' \<noteq> r \<Longrightarrow> r' \<in># Z' \<longleftrightarrow> r' \<in># Z" and c: "\<And>r'. r' \<noteq> r \<Longrightarrow> c = Some r' \<Longrightarrow> c' = Some r'"
    for c c' Y' Z'
    using disp_invD(3,8) [OF d] r z c assms
    unfolding req_flags_def by (auto simp: put_idle_def enq_def running_def nth_list_update)
  show "disp_inv X Y Z c (put_idle r x d)" if d: "disp_inv X (add_mset r Y) Z c d"
    by (rule disp_inv_reqs [OF d])
      (use disp_invD(1,6,7) [OF d] disp_inv_place(3) [OF d, of r] fl [OF d] in
        \<open>auto simp: queues_wf_def reqs_of_def put_idle_def\<close>)
  show "disp_inv X Y Z c (put_idle r x d)" if d: "disp_inv X Y (add_mset r Z) c d"
    by (rule disp_inv_reqs [OF d])
      (use disp_invD(1,6,7) [OF d] disp_inv_place(4) [OF d, of r] fl [OF d] in
        \<open>auto simp: queues_wf_def reqs_of_def put_idle_def not_in_iff\<close>)
  show "disp_inv X Y Z None ((put_idle r x d)\<lparr>cur_cmd_req := None, token_cnt := token_cnt d - 1\<rparr>)"
    if d: "disp_inv X Y Z (Some r) d"
  proof (rule disp_inv_reqs [OF d])
    have "req_flags Z None (put_idle r x d)" using disp_inv_place(5) [OF d refl] by (intro fl [OF d]) auto
    then show "req_flags Z None ((put_idle r x d)\<lparr>cur_cmd_req := None, token_cnt := token_cnt d - 1\<rparr>)"
      by (simp add: req_flags_def)
  qed (use disp_invD(1,6,7) [OF d] in \<open>auto simp: queues_wf_def reqs_of_def put_idle_def cur_mset_def\<close>)
qed

definition idle_status :: "req_ex \<Rightarrow> req_ex" where
  "idle_status x = x\<lparr>rx_status := 0\<rparr>"

lemma upd_cong: "(\<And>d. f d = g d) \<Longrightarrow> upd b f e = upd b g e"
  by (simp add: upd_def)

lemma push_back_idle_req_eq:
  "push_back_idle_req b r e =
     upd b (\<lambda>d. d\<lparr>pending_evt := (pending_evt d)
       [unat (req_module_id (rx_req (req_at (upd_req b r idle_status e) b r))) := MSG_EVT_MAX]\<rparr>)
     (upd b (\<lambda>d. put_idle r (idle_status (req_pool d ! r)) d) e)"
  unfolding push_back_idle_req_def Let_def upd_req_def SET_CUR_PENDING_EVT_def upd_upd idle_status_def put_idle_def
  by (rule upd_cong, rule dispatcher.equality) simp_all

lemma idle_status_bits [simp]: "\<not> bit (rx_status (idle_status x)) n"
  by (simp add: idle_status_def)

lemma dinv_push_idle_req [dinv_intro]:
  assumes "dinv B (take_req b r G) e" shows "dinv B G (push_back_idle_req b r e)"
  unfolding push_back_idle_req_eq
  by (rule dinv_neutral, simp add: view_def flag_bits_def, rule dinv_req_step [OF assms])
    (auto simp: put_idle_def ghost_defs intro!: disp_inv_put_idle(1) [unfolded put_idle_def])

lemma dinv_push_dropped_req:
  assumes "dinv B (drop_req b r G) e" shows "dinv B G (push_back_idle_req b r e)"
  unfolding push_back_idle_req_eq
  by (rule dinv_neutral, simp add: view_def flag_bits_def, rule dinv_req_step [OF assms])
    (auto simp: put_idle_def ghost_defs intro!: disp_inv_put_idle(2) [unfolded put_idle_def])

lemma dinv_end_cur:
  assumes inv: "dinv B (set_cur b (Some r) G) e" and mem: "b \<in> B"
  shows "dinv B (set_cur b None G) (upd b (\<lambda>d. d\<lparr>cur_cmd_req := None\<rparr>)
     (upd b (\<lambda>d. d\<lparr>token_cnt := token_cnt d - 1\<rparr>) (push_back_idle_req b r e)))"
proof -
  let ?k = "unat (req_module_id (rx_req (req_at (upd_req b r idle_status e) b r)))"
  have "dinv B (set_cur b None G) (upd b (\<lambda>d. d\<lparr>pending_evt := (pending_evt d)[?k := MSG_EVT_MAX]\<rparr>)
     (upd b (\<lambda>d. (put_idle r (idle_status (req_pool d ! r)) d)\<lparr>cur_cmd_req := None, token_cnt := token_cnt d - 1\<rparr>) e))"
    by (rule dinv_neutral, simp add: view_def flag_bits_def, rule dinv_req_step [OF inv])
      (use mem in \<open>auto simp: put_idle_def ghost_defs intro!: disp_inv_put_idle(3) [unfolded put_idle_def, simplified]\<close>)
  moreover have "upd b (\<lambda>d. d\<lparr>cur_cmd_req := None\<rparr>)
      (upd b (\<lambda>d. d\<lparr>token_cnt := token_cnt d - 1\<rparr>) (push_back_idle_req b r e)) =
      upd b (\<lambda>d. d\<lparr>pending_evt := (pending_evt d)[?k := MSG_EVT_MAX]\<rparr>)
     (upd b (\<lambda>d. (put_idle r (idle_status (req_pool d ! r)) d)\<lparr>cur_cmd_req := None, token_cnt := token_cnt d - 1\<rparr>) e)"
    unfolding push_back_idle_req_eq upd_upd
    by (rule upd_cong, rule dispatcher.equality) (simp_all add: put_idle_def)
  ultimately show ?thesis by simp
qed

lemma disp_inv_pop_wait_req:
  assumes d: "disp_inv X Y Z c d" and q: "pq_pop (req_wait_q d) First = (Some r, q)"
    and x: "\<not> bit (rx_status x) 0" "bit (rx_status x) 1 = running d r"
  shows "disp_inv X (add_mset r Y) Z c (d\<lparr>req_wait_q := q, req_pool := (req_pool d)[r := x]\<rparr>)"
proof (rule disp_inv_reqs [OF d])
  have "pq_wf (req_wait_q d)" using disp_invD(1) [OF d] by (simp add: queues_wf_def)
  note wf = pq_pop_Some [OF this q]
  have r: "r < MAX_CMD_REQ_NUM \<and> count (mset (pq_queue (req_wait_q d))) r = 1 \<and> r \<notin># Z \<and> c \<noteq> Some r"
    by (rule disp_inv_place(2) [OF d]) (simp add: wf)
  with wf have "r \<notin> set (pq_queue q)" by (simp add: count_mset_0_iff)
  then show "req_flags Z c (d\<lparr>req_wait_q := q, req_pool := (req_pool d)[r := x]\<rparr>)"
    using disp_invD(3,8) [OF d] r x wf
    unfolding req_flags_def by (auto simp: enq_def running_def nth_list_update)
qed (use disp_invD(1,6,7) [OF d] pq_pop_Some [OF _ q] in \<open>auto simp: queues_wf_def reqs_of_def\<close>)

lemma upd_req_upd_req: "upd_req b r f (upd_req b r g e) = upd_req b r (\<lambda>x. f (g x)) e"
  unfolding upd_req_def upd_upd
proof (rule upd_cong)
  fix d :: dispatcher
  show "d\<lparr>req_pool := (req_pool d)[r := g (req_pool d ! r)],
      req_pool := (req_pool (d\<lparr>req_pool := (req_pool d)[r := g (req_pool d ! r)]\<rparr>))
        [r := f (req_pool (d\<lparr>req_pool := (req_pool d)[r := g (req_pool d ! r)]\<rparr>) ! r)]\<rparr> =
    d\<lparr>req_pool := (req_pool d)[r := f (g (req_pool d ! r))]\<rparr>"
    by (cases "r < length (req_pool d)") (simp_all add: list_update_beyond)
qed

text \<open>What the steps on a waiting request do to its status.\<close>

definition prepared :: "req_ex \<Rightarrow> req_ex" where
  "prepared x = x\<lparr>rx_status := CLEAR_STATUS_FLAG (SET_STATUS_FLAG (rx_status x) REQ_STATUS_PREPARE) REQ_STATUS_ENQ\<rparr>"

definition queued :: "req_ex \<Rightarrow> req_ex" where
  "queued x = x\<lparr>rx_status := SET_STATUS_FLAG (rx_status x) REQ_STATUS_ENQ\<rparr>"

definition started :: "req_ex \<Rightarrow> req_ex" where
  "started x = x\<lparr>rx_status := CLEAR_STATUS_FLAG (SET_STATUS_FLAG (rx_status x) REQ_STATUS_RUN) REQ_STATUS_PREPARE\<rparr>"

lemma request_steps [simp]:
  "\<not> bit (rx_status (prepared x)) 0" "bit (rx_status (prepared x)) (Suc 0) = bit (rx_status x) (Suc 0)"
  "bit (rx_status (queued x)) 0" "bit (rx_status (queued x)) (Suc 0) = bit (rx_status x) (Suc 0)"
  "bit (rx_status (started x)) 0 = bit (rx_status x) 0" "bit (rx_status (started x)) (Suc 0)"
  unfolding prepared_def queued_def started_def REQ_STATUS_ENQ_def REQ_STATUS_PREPARE_def REQ_STATUS_RUN_def
  by (simp_all add: flag_simps)

lemma dinv_pop_wait_req:
  assumes inv: "dinv B G e" and pop: "pop_front_wait_req b e = (Some r, e')"
  shows "dinv B (take_req b r G) e'"
proof -
  obtain q where q: "pq_pop (req_wait_q (dsp e b)) First = (Some r, q)"
    and e': "e' = upd_req b r prepared (upd b (\<lambda>d. d\<lparr>req_wait_q := q\<rparr>) e)"
    using pop by (auto simp: pop_front_wait_req_def r_set_def r_clear_def upd_req_upd_req prepared_def [abs_def]
        split: prod.splits option.splits)
  show ?thesis unfolding e' upd_req_def upd_upd
  proof (rule dinv_req_band [OF inv])
    assume b: "b \<in> B"
    note d = conjunct1 [OF conjunct2 [OF dinv_band [OF inv b]]]
    from disp_inv_pop_wait_req [OF d q, of "prepared (req_at e b r)"]
    show "disp_inv (g_msg (take_req b r G) b) (g_req (take_req b r G) b) (g_del (take_req b r G) b)
        (g_cur (take_req b r G) b) ((dsp e b)\<lparr>req_wait_q := q,
          req_pool := (req_pool ((dsp e b)\<lparr>req_wait_q := q\<rparr>))
            [r := prepared (req_pool ((dsp e b)\<lparr>req_wait_q := q\<rparr>) ! r)]\<rparr>)"
      by (simp add: ghost_defs running_def)
  qed (auto simp: ghost_defs)
qed

lemma pop_wait_req_None: "pop_front_wait_req b e = (None, e') \<Longrightarrow> e' = e"
  by (auto simp: pop_front_wait_req_def split: prod.splits option.splits)

lemma disp_inv_push_wait_req:
  assumes d: "disp_inv X (add_mset r Y) Z c d" and x: "bit (rx_status x) 0" "bit (rx_status x) 1 = running d r"
  shows "disp_inv X Y Z c (d\<lparr>req_wait_q := pq_push (req_wait_q d) r Tail, req_pool := (req_pool d)[r := x]\<rparr>)"
proof (rule disp_inv_reqs [OF d])
  have r: "r < MAX_CMD_REQ_NUM \<and> r \<notin> set (pq_queue (req_wait_q d)) \<and> r \<notin># Z \<and> c \<noteq> Some r"
    by (rule disp_inv_place(3) [OF d]) simp
  then show "req_flags Z c (d\<lparr>req_wait_q := pq_push (req_wait_q d) r Tail, req_pool := (req_pool d)[r := x]\<rparr>)"
    using disp_invD(3,8) [OF d] x unfolding req_flags_def by (auto simp: enq_def running_def nth_list_update)
qed (use disp_invD(1,6,7) [OF d] in \<open>auto simp: queues_wf_def reqs_of_def\<close>)

lemma dinv_push_wait_req [dinv_intro]:
  assumes inv: "dinv B (take_req b r G) e" shows "dinv B G (push_back_wait_req b r e)"
proof -
  have e: "push_back_wait_req b r e =
      upd b (\<lambda>d. d\<lparr>req_wait_q := pq_push (req_wait_q d) r Tail, req_pool := (req_pool d)[r := queued (req_pool d ! r)]\<rparr>) e"
    unfolding push_back_wait_req_def r_set_def upd_req_def upd_upd queued_def by (rule upd_cong) simp
  show ?thesis unfolding e
  proof (rule dinv_req_band [OF inv])
    assume b: "b \<in> B"
    from conjunct1 [OF conjunct2 [OF dinv_band [OF inv b]]]
    have "disp_inv (g_msg G b) (add_mset r (g_req G b)) (g_del G b) (g_cur G b) (dsp e b)"
      by (simp add: ghost_defs)
    from disp_inv_push_wait_req [OF this, of "queued (req_at e b r)"]
    show "disp_inv (g_msg G b) (g_req G b) (g_del G b) (g_cur G b)
        ((dsp e b)\<lparr>req_wait_q := pq_push (req_wait_q (dsp e b)) r Tail,
          req_pool := (req_pool (dsp e b))[r := queued (req_at e b r)]\<rparr>)"
      by (simp add: running_def)
  qed (auto simp: ghost_defs)
qed

text \<open>A cancellation removes a request that is marked as queued from the wait queue.\<close>

lemma dinv_del_wait_req:
  assumes inv: "dinv B G e" and Z: "g_del G b = {#}" and r: "r < MAX_CMD_REQ_NUM" "r_test e b r REQ_STATUS_ENQ"
  shows "dinv B (drop_req b r G) (upd b (\<lambda>d. d\<lparr>req_wait_q := pq_del_node (req_wait_q d) (Some r)\<rparr>) e)"
proof (rule dinv_req_band [OF inv])
  assume b: "b \<in> B"
  let ?d = "dsp e b"
  note d = conjunct1 [OF conjunct2 [OF dinv_band [OF inv b]]]
  have in_q: "r \<in> set (pq_queue (req_wait_q ?d))"
    using disp_invD(8) [OF d] r unfolding req_flags_def
    by (simp add: Z r_test_def REQ_STATUS_ENQ_def flag_simps enq_def)
  have once: "count (mset (pq_queue (req_wait_q ?d))) r = 1" using disp_inv_place(2) [OF d in_q] by simp
  have "disp_inv (g_msg G b) (g_req G b) (add_mset r (g_del G b)) (g_cur G b)
      (?d\<lparr>req_wait_q := pq_del_node (req_wait_q ?d) (Some r)\<rparr>)"
  proof (rule disp_inv_reqs [OF d])
    have "x \<in># mset (remove1 r (pq_queue (req_wait_q ?d))) + {#r#} \<longleftrightarrow> x \<in> set (pq_queue (req_wait_q ?d))" for x
      using in_q once by (cases "x = r") (simp_all add: in_set_remove1 in_diff_count)
    then show "req_flags (add_mset r (g_del G b)) (g_cur G b)
        (?d\<lparr>req_wait_q := pq_del_node (req_wait_q ?d) (Some r)\<rparr>)"
      using disp_invD(8) [OF d] unfolding req_flags_def
      by (simp add: Z pq_del_node_def enq_def running_def)
  qed (use disp_invD(1,6,7) [OF d] in_q in \<open>auto simp: queues_wf_def reqs_of_def pq_del_node_def pq_wf_del [unfolded pq_del_node_def option.case]\<close>)
  then show "disp_inv (g_msg (drop_req b r G) b) (g_req (drop_req b r G) b) (g_del (drop_req b r G) b)
      (g_cur (drop_req b r G) b) (?d\<lparr>req_wait_q := pq_del_node (req_wait_q ?d) (Some r)\<rparr>)"
    by (simp add: ghost_defs)
qed (auto simp: ghost_defs)

text \<open>Register and deregister change the current command; both are one step for the invariant.\<close>

lemma disp_inv_start:
  assumes d: "disp_inv X (add_mset r Y) Z None d" and x: "\<not> bit (rx_status x) 0"
  shows "disp_inv X Y Z (Some r) (d\<lparr>req_pool := (req_pool d)[r := x], cur_cmd_req := Some r,
     token_cnt := token_cnt d + 1\<rparr>)"
proof (rule disp_inv_reqs [OF d])
  have r: "r < MAX_CMD_REQ_NUM \<and> r \<notin> set (pq_queue (req_wait_q d)) \<and> r \<notin># Z \<and> None \<noteq> Some r"
    by (rule disp_inv_place(3) [OF d]) simp
  then show "req_flags Z (Some r) (d\<lparr>req_pool := (req_pool d)[r := x], cur_cmd_req := Some r,
      token_cnt := token_cnt d + 1\<rparr>)"
    using disp_invD(3,8) [OF d] x unfolding req_flags_def by (auto simp: enq_def running_def nth_list_update)
qed (use disp_invD(1,6,7) [OF d] in \<open>auto simp: queues_wf_def reqs_of_def cur_mset_def\<close>)

lemma disp_inv_not_enq:
  assumes "disp_inv X (add_mset r Y) Z c d" shows "\<not> enq d r"
  using disp_inv_place(3) [OF assms, of r] disp_invD(8) [OF assms] by (auto simp: req_flags_def)

lemma dinv_start_cur:
  assumes inv: "dinv B (take_req b r (set_cur b None G)) e" and mem: "b \<in> B"
  shows "dinv B (set_cur b (Some r) G) (upd b (\<lambda>d. d\<lparr>cur_cmd_req := Some r, token_cnt := token_cnt d + 1\<rparr>)
     (r_clear REQ_STATUS_PREPARE b r (r_set REQ_STATUS_RUN b r e)))"
proof -
  have e: "upd b (\<lambda>d. d\<lparr>cur_cmd_req := Some r, token_cnt := token_cnt d + 1\<rparr>)
     (r_clear REQ_STATUS_PREPARE b r (r_set REQ_STATUS_RUN b r e)) =
    upd b (\<lambda>d. d\<lparr>req_pool := (req_pool d)[r := started (req_pool d ! r)], cur_cmd_req := Some r,
      token_cnt := token_cnt d + 1\<rparr>) e"
    unfolding r_set_def r_clear_def upd_req_upd_req
    unfolding upd_req_def upd_upd by (rule upd_cong) (simp add: started_def)
  show ?thesis unfolding e
  proof (rule dinv_req_band [OF inv])
    assume b: "b \<in> B"
    from conjunct1 [OF conjunct2 [OF dinv_band [OF inv b]]]
    have d: "disp_inv (g_msg G b) (add_mset r (g_req G b)) (g_del G b) None (dsp e b)"
      by (simp add: ghost_defs)
    from disp_inv_start [OF d, of "started (req_at e b r)"] disp_inv_not_enq [OF d]
    show "disp_inv (g_msg (set_cur b (Some r) G) b) (g_req (set_cur b (Some r) G) b)
        (g_del (set_cur b (Some r) G) b) (g_cur (set_cur b (Some r) G) b)
        ((dsp e b)\<lparr>req_pool := (req_pool (dsp e b))[r := started (req_at e b r)], cur_cmd_req := Some r,
          token_cnt := token_cnt (dsp e b) + 1\<rparr>)"
      by (simp add: ghost_defs enq_def)
  qed (use mem in \<open>auto simp: ghost_defs\<close>)
qed

lemma dinv_stop_running [dinv_intro]:
  assumes inv: "dinv B G e" shows "dinv B G (r_clear REQ_STATUS_RUN b r e)"
  unfolding r_clear_def upd_req_def
proof (rule dinv_req_step [OF inv])
  fix d assume d: "disp_inv (g_msg G b) (g_req G b) (g_del G b) (g_cur G b) d"
  show "disp_inv (g_msg G b) (g_req G b) (g_del G b) (g_cur G b) (d\<lparr>req_pool := (req_pool d)
      [r := (req_pool d ! r)\<lparr>rx_status := CLEAR_STATUS_FLAG (rx_status (req_pool d ! r)) REQ_STATUS_RUN\<rparr>]\<rparr>)"
  proof (rule disp_inv_reqs [OF d])
    show "req_flags (g_del G b) (g_cur G b) (d\<lparr>req_pool := (req_pool d)
      [r := (req_pool d ! r)\<lparr>rx_status := CLEAR_STATUS_FLAG (rx_status (req_pool d ! r)) REQ_STATUS_RUN\<rparr>]\<rparr>)"
      using disp_invD(8) [OF d] unfolding req_flags_def
      by (cases "r < length (req_pool d)")
        (auto simp: enq_def running_def nth_list_update REQ_STATUS_RUN_def flag_simps list_update_beyond)
  qed (use disp_invD(1,6,7) [OF d] in \<open>auto simp: queues_wf_def reqs_of_def\<close>)
qed auto

subsection \<open>The other band\<close>

lemma dinv_flag_upd:
  assumes inv: "dinv B G e" and started: "\<And>s. bit (f s) 1 = bit s 1" and rest: "\<And>s. b \<notin> B \<Longrightarrow> bit (f s) 3 = bit s 3 \<and> bit (f s) 4 = bit s 4"
    and ex: "excl_ok (upd b (\<lambda>d. d\<lparr>d_status := f (d_status d)\<rparr>) e)"
  shows "dinv B G (upd b (\<lambda>d. d\<lparr>d_status := f (d_status d)\<rparr>) e)"
proof -
  let ?e = "upd b (\<lambda>d. d\<lparr>d_status := f (d_status d)\<rparr>) e"
  have "b' \<notin> B \<Longrightarrow> resting (dsp ?e b') = resting (dsp e b')" for b'
    using started rest by (auto simp: resting_def dsp_upd)
  moreover have "bit (d_status (dsp ?e b')) 1 = bit (d_status (dsp e b')) 1" for b'
    using started by (simp add: dsp_upd)
  moreover have "disp_inv X Y Z c (dsp ?e b') = disp_inv X Y Z c (dsp e b')" for X Y Z c b'
    by (auto simp: dsp_upd disp_inv_def queues_wf_def msgs_of_def reqs_of_def req_flags_def enq_def running_def)
  moreover have "wakes G b' ?e = wakes G b' e" for b' by (simp add: wakes_def dsp_upd)
  ultimately show ?thesis using inv ex unfolding dinv_def by auto
qed

lemma d_test_bit:
  "d_test e b DISPR_EXCLUSIVE_USE \<longleftrightarrow> bit (d_status (dsp e b)) 11"
  "d_test e b DISPR_CLEARANCE \<longleftrightarrow> bit (d_status (dsp e b)) 10"
  by (simp_all add: d_test_def DISPR_EXCLUSIVE_USE_def DISPR_CLEARANCE_def flag_simps)

lemma dinv_set_clearance [dinv_intro]: "dinv B G e \<Longrightarrow> dinv B G (d_set DISPR_CLEARANCE b e)"
  unfolding d_set_def
proof (rule dinv_flag_upd)
  assume "dinv B G e"
  then have "excl_ok e" by (simp add: dinv_def)
  then show "excl_ok (upd b (\<lambda>d. d\<lparr>d_status := SET_STATUS_FLAG (d_status d) DISPR_CLEARANCE\<rparr>) e)"
    unfolding excl_ok_def d_test_bit by (auto simp: dsp_upd DISPR_CLEARANCE_def flag_simps)
qed (auto simp: DISPR_CLEARANCE_def flag_simps)

lemma dinv_clear_exclusive [dinv_intro]: "dinv B G e \<Longrightarrow> dinv B G (d_clear DISPR_EXCLUSIVE_USE b e)"
  unfolding d_clear_def
proof (rule dinv_flag_upd)
  assume "dinv B G e"
  then have "excl_ok e" by (simp add: dinv_def)
  then show "excl_ok (upd b (\<lambda>d. d\<lparr>d_status := CLEAR_STATUS_FLAG (d_status d) DISPR_EXCLUSIVE_USE\<rparr>) e)"
    unfolding excl_ok_def d_test_bit by (auto simp: dsp_upd DISPR_EXCLUSIVE_USE_def flag_simps)
qed (auto simp: DISPR_EXCLUSIVE_USE_def flag_simps)

text \<open>Clearance is given back only while the other band does not use it.\<close>

lemma dinv_clear_clearance:
  assumes "dinv B G e" "phy_num e = 2 \<Longrightarrow> b < 2 \<and> \<not> d_test e b DISPR_EXCLUSIVE_USE"
  shows "dinv B G (d_clear DISPR_CLEARANCE (ntfyidx b) e)"
  unfolding d_clear_def
proof (rule dinv_flag_upd [OF assms(1)])
  have "excl_ok e" using assms(1) by (simp add: dinv_def)
  then show "excl_ok (upd (ntfyidx b) (\<lambda>d. d\<lparr>d_status := CLEAR_STATUS_FLAG (d_status d) DISPR_CLEARANCE\<rparr>) e)"
    using assms(2) unfolding excl_ok_def d_test_bit
    by (auto simp: dsp_upd DISPR_CLEARANCE_def flag_simps ntfyidx_def less_2_cases_iff split: if_splits)
qed (auto simp: DISPR_CLEARANCE_def flag_simps)

lemma dinv_set_exclusive:
  assumes "dinv B G e" "phy_num e = 2 \<Longrightarrow> b < 2 \<and> d_test e b DISPR_CLEARANCE"
  shows "dinv B G (d_set DISPR_EXCLUSIVE_USE (ntfyidx b) e)"
  unfolding d_set_def
proof (rule dinv_flag_upd [OF assms(1)])
  have "excl_ok e" using assms(1) by (simp add: dinv_def)
  then show "excl_ok (upd (ntfyidx b) (\<lambda>d. d\<lparr>d_status := SET_STATUS_FLAG (d_status d) DISPR_EXCLUSIVE_USE\<rparr>) e)"
    using assms(2) unfolding excl_ok_def d_test_bit
    by (auto simp: dsp_upd DISPR_EXCLUSIVE_USE_def flag_simps ntfyidx_def less_2_cases_iff split: if_splits)
qed (auto simp: DISPR_EXCLUSIVE_USE_def flag_simps)

lemma phy_num_flag [simp]: "phy_num (d_set f b e) = phy_num e" "phy_num (d_clear f b e) = phy_num e"
  by (simp_all add: d_set_def d_clear_def)

lemma phy_num_enqueue [simp]: "phy_num (snd (dispr_enqueue_token_op_info b r ty data e)) = phy_num e"
  by (simp add: dispr_enqueue_token_op_info_def push_back_token_op_info_def notify_dispr_thread_def Let_def)

lemma phy_num_renew [simp]: "phy_num (renew b e) = phy_num e"
  by (simp add: renew_def)

lemma by_idx: "disp_eng_get_dispr_by_idx e b = (if phy_num e \<le> b then RTW_PHL_STATUS_INVALID_PARAM
    else RTW_PHL_STATUS_SUCCESS)"
  by (simp add: disp_eng_get_dispr_by_idx_def)

lemma dinv_release:
  assumes "dinv B G e" "phy_num e = 2 \<Longrightarrow> b < 2 \<and> \<not> d_test e b DISPR_EXCLUSIVE_USE"
  shows "dinv B G (snd (phl_disp_eng_clearance_release (ntfyidx b) e))"
  using assms by (auto simp: phl_disp_eng_clearance_release_def by_idx dispr_clearance_release_def
      intro!: dinv_renew dinv_clear_clearance)

lemma dinv_ready:
  assumes "dinv B G e" "phy_num e = 2 \<Longrightarrow> b < 2 \<and> d_test e b DISPR_CLEARANCE"
  shows "dinv B G (snd (phl_disp_eng_exclusive_ready (ntfyidx b) e))"
  using assms by (auto simp: phl_disp_eng_exclusive_ready_def by_idx dispr_exclusive_ready_def Let_def
      intro!: dinv_renew dinv_set_exclusive)

lemma dinv_acquire [dinv_intro]: "dinv B G e \<Longrightarrow> dinv B G (snd (phl_disp_eng_clearance_acquire b e))"
  by (auto simp: phl_disp_eng_clearance_acquire_def by_idx dispr_clearance_acquire_def intro: dinv_intro)

lemma phy_num_release [simp]: "phy_num (snd (phl_disp_eng_clearance_release b e)) = phy_num e"
  by (simp add: phl_disp_eng_clearance_release_def by_idx dispr_clearance_release_def)

lemma dinv_token_complete [dinv_intro]:
  assumes inv: "dinv B G e" and b: "b \<in> B"
  shows "dinv B G (cmd_token_complete b e)"
proof -
  have lt: "b < phy_num e" using dinv_band [OF inv b] by simp
  let ?e = "if d_test e b DISPR_EXCLUSIVE_USE
    then snd (phl_disp_eng_clearance_release (ntfyidx b) (d_clear DISPR_EXCLUSIVE_USE b e)) else e"
  have clear: "\<not> d_test (d_clear DISPR_EXCLUSIVE_USE b e) b DISPR_EXCLUSIVE_USE"
    unfolding d_test_bit by (simp add: d_clear_def dsp_upd lt DISPR_EXCLUSIVE_USE_def flag_simps)
  have "dinv B G ?e"
    using inv dinv_release [OF dinv_clear_exclusive [OF inv, of b], of b] clear lt by auto
  moreover have "phy_num ?e = phy_num e" by simp
  ultimately show ?thesis
    using inv lt dinv_ready [of B G ?e b] unfolding cmd_token_complete_def Let_def by auto
qed

lemma dinv_abort_complete [dinv_intro]: "dinv B G e \<Longrightarrow> b \<in> B \<Longrightarrow> dinv B G (on_abort_msg_complete b e)"
  unfolding on_abort_msg_complete_def by (intro dinv_intro) auto

end
