(* ===== verification/DispatcherKeep.thy ===== *)
theory DispatcherKeep
  imports DispatcherInv
begin

text \<open>
  Every operation of the dispatcher keeps the invariant, whatever the callbacks do, as long as
  each callback as a whole keeps it. The interface \<open>keeping_runner\<close> states that of the callbacks;
  it is interpreted on the scripts at the end.
\<close>

lemma dinv_set_bitmap [dinv_intro]: "dinv B G e \<Longrightarrow> dinv B G (set_msg_bitmap b i k e)"
  unfolding set_msg_bitmap_def Let_def by (intro dinv_intro)

lemma dinv_custom_bitmap [dinv_intro]: "dinv B G e \<Longrightarrow> dinv B G (set_msg_custom_bitmap b i opt ids n k e)"
  unfolding set_msg_custom_bitmap_def Let_def by (intro dinv_intro)

lemma dinv_get_bitmap: "dinv B G e \<Longrightarrow> dinv B G (snd (get_msg_bitmap b i e))"
  unfolding get_msg_bitmap_def by (auto intro: dinv_intro)

lemma dinv_cancel_msg [dinv_intro]: "dinv B G e \<Longrightarrow> dinv B G (cancel_msg b i e)"
  unfolding cancel_msg_def by (intro dinv_intro)

lemma dinv_is_canceled: "dinv B G e \<Longrightarrow> dinv B G (snd (is_msg_canceled b i e))"
  unfolding is_msg_canceled_def Let_def by (auto intro: dinv_intro)

lemma dinv_foldl: "dinv B G e \<Longrightarrow> (\<And>e x. dinv B G e \<Longrightarrow> dinv B G (f e x)) \<Longrightarrow> dinv B G (foldl f e xs)"
  by (induction xs arbitrary: e) auto

lemma dinv_cancel_running [dinv_intro]: "dinv B G e \<Longrightarrow> dinv B G (cancel_running_msg b e)"
  unfolding cancel_running_msg_def by (rule dinv_foldl) (auto intro: dinv_intro)

lemma dinv_cancel_all [dinv_intro]: "dinv B G e \<Longrightarrow> dinv B G (cancel_all_cmd_req b e)"
  unfolding cancel_all_cmd_req_def by (rule dinv_foldl) (auto intro!: dinv_intro)

lemma dinv_empty_pending:
  assumes "\<And>G e i. dinv B (take_msg b i G) e \<Longrightarrow> dinv B G (put i e)"
  shows "dinv B G e \<Longrightarrow> dinv B G (empty_pending put b n e)"
  by (induction n arbitrary: e)
    (auto split: prod.splits option.splits intro: assms dinv_pop_pending dest: pop_pending_None)

lemma dinv_clear_pending [dinv_intro]: "dinv B G e \<Longrightarrow> dinv B G (clear_pending_msg b e)"
  unfolding clear_pending_msg_def Let_def by (auto intro!: dinv_empty_pending dinv_intro)

lemma dinv_clr_pending [dinv_intro]: "dinv B G e \<Longrightarrow> dinv B G (snd (dispr_clr_pending_msg b e))"
  unfolding dispr_clr_pending_msg_def by (auto intro!: dinv_intro)

lemma dinv_cancel_sender [dinv_intro]: "dinv B G e \<Longrightarrow> dinv B G (cancel_sender_msg b k e i)"
  unfolding cancel_sender_msg_def Let_def by (intro dinv_intro)

lemma dinv_apply_attr [dinv_intro]: "dinv B G e \<Longrightarrow> dinv B G (apply_attr b i k a e)"
  unfolding apply_attr_def Let_def by (auto split: option.split intro!: dinv_intro)

lemma dinv_set_owner [dinv_intro]: "dinv B G e \<Longrightarrow> dinv B G (set_owner b i k c s e)"
  unfolding set_owner_def by (auto split: option.split intro: dinv_intro)

lemma dinv_shall_stop [dinv_intro]: "dinv B G e \<Longrightarrow> dinv B G (dispr_notify_shall_stop b e)"
  unfolding dispr_notify_shall_stop_def by (auto intro!: dinv_intro)

lemma dinv_cancel_msg_api [dinv_intro]: "dinv B G e \<Longrightarrow> dinv B G (snd (snd (dispr_cancel_msg b hdl e)))"
  unfolding dispr_cancel_msg_def Let_def by (auto split: option.split intro: dinv_intro)

lemma dinv_cancel_token [dinv_intro]: "dinv B G e \<Longrightarrow> dinv B G (snd (dispr_cancel_token_req b hdl e))"
  unfolding dispr_cancel_token_req_def Let_def
  by (auto split: option.split simp: split_beta intro: dinv_intro)

lemma dinv_free_token [dinv_intro]: "dinv B G e \<Longrightarrow> dinv B G (snd (dispr_free_token b hdl e))"
  unfolding dispr_free_token_def Let_def
  by (auto split: option.split simp: split_beta intro!: dinv_intro)

lemma dinv_add_token [dinv_intro]:
  "dinv B G e \<Longrightarrow> dinv B G (snd (snd (dispr_add_token_req b req hdl e)))"
  unfolding dispr_add_token_req_def Let_def
  by (auto split: prod.split option.split dest: pop_idle_req_None dinv_pop_idle_req
      intro!: dinv_enqueue_op dinv_push_wait_req dinv_upd_req)

lemma dinv_phy_num: "dinv B G e \<Longrightarrow> phy_num e = g_bands G"
  by (simp add: dinv_def)

lemma dinv_bands:
  assumes "dinv B G e" "\<And>b e. dinv B G e \<Longrightarrow> b < phy_num e \<Longrightarrow> dinv B G (f b e)"
  shows "dinv B G (bands f e)"
proof -
  have "dinv B G e' \<Longrightarrow> (\<And>b. b \<in> set bs \<Longrightarrow> b < g_bands G) \<Longrightarrow> dinv B G (foldl (\<lambda>e b. f b e) e' bs)" for e' bs
    by (induction bs arbitrary: e') (simp_all add: assms(2) dinv_phy_num [of B G])
  from this [OF assms(1), of "[0..<g_bands G]"] show ?thesis
    by (simp add: bands_def dinv_phy_num [OF assms(1)])
qed

subsection \<open>The interface of the callbacks\<close>

locale keeping_runner =
  fixes B :: "nat set" and rc :: runner
  assumes rc_keeps: "dinv B G e \<Longrightarrow> dinv B G (snd (rc cb e))"
begin

lemma keep_completion: "dinv B G e \<Longrightarrow> dinv B G (notify_completion rc b i e)"
  unfolding notify_completion_def Let_def by (auto split: option.split intro!: dinv_intro rc_keeps)

lemma keep_push_idle:
  assumes "dinv B (take_msg b i G) e" "b \<in> B" shows "dinv B G (push_back_idle_msg rc b i e)"
  unfolding push_back_idle_msg_def Let_def
  by (intro dinv_intro keep_completion assms)

lemma keep_queue_msg:
  assumes "dinv B (take_msg b i G) e" "b \<in> B"
  shows "dinv B G (snd (snd (queue_msg rc b i msg attr hdl c s e)))"
proof -
  let ?k = "MSG_MDL_ID_FIELD (msg_id msg)"
  define e1 where "e1 = set_owner b i ?k c s (case attr of
      None \<Rightarrow> set_msg_bitmap b i ?k (upd_msg b i (\<lambda>x. x\<lparr>ex_msg := msg\<rparr>) e)
    | Some a \<Rightarrow> apply_attr b i ?k a (set_msg_bitmap b i ?k (upd_msg b i (\<lambda>x. x\<lparr>ex_msg := msg\<rparr>) e)))"
  have "dinv B (take_msg b i G) e1"
    unfolding e1_def using assms(1) by (auto split: option.split intro!: dinv_intro)
  then show ?thesis
    unfolding queue_msg_def Let_def e1_def [symmetric]
    by (simp add: if_distrib [where f = "\<lambda>x. snd (snd x)"] del: split_paired_All)
      (intro conjI impI dinv_intro keep_push_idle assms(2) free_flags; assumption)
qed

lemma keep_send:
  assumes inv: "dinv B G e" and b: "b < phy_num e"
  shows "dinv B G (snd (snd (dispr_send_msg rc b msg attr hdl e)))"
proof (cases "b \<in> B")
  case True
  then show ?thesis using inv
    unfolding dispr_send_msg_def Let_def split_beta
    by (cases "pop_front_idle_msg b e" rule: prod.exhaust)
      (auto split: option.split dest: pop_idle_None intro!: keep_queue_msg dinv_pop_idle)
next
  case False
  with inv b have "\<not> d_test e b DISPR_STARTED"
    by (auto simp: dinv_def resting_def d_test_def DISPR_STARTED_def flag_simps)
  with inv show ?thesis by (simp add: dispr_send_msg_def split_beta)
qed

lemma keep_req_hdl: "dinv B G e \<Longrightarrow> dinv B G (cur_req_hdl rc b i e)"
  unfolding cur_req_hdl_def by (auto split: option.split intro: rc_keeps)

lemma keep_msg_fail: "dinv B G e \<Longrightarrow> dinv B G (notify_msg_fail rc b i ret e)"
  unfolding notify_msg_fail_def Let_def by (intro dinv_intro keep_req_hdl rc_keeps)

lemma keep_feed: "dinv B G e \<Longrightarrow> dinv B G (snd (feed_mdl_msg rc b a i e))"
  unfolding feed_mdl_msg_def clr_phase_map_def
  by (auto simp: Let_def split: prod.split mdl_ret.split intro!: dinv_intro keep_msg_fail
      dest: rc_keeps [of G e "Cb_msg_hdlr b a i (mid e b i)"])

lemma keep_feed_queue: "dinv B G e \<Longrightarrow> dinv B G (snd (feed_queue rc pre b i as e))"
proof (induction as arbitrary: e)
  case (Cons a as)
  show ?case using Cons.IH Cons.prems keep_feed [OF Cons.prems, of b a i]
    unfolding feed_queue.simps Let_def split_beta by simp
qed simp

lemma keep_feed_owner: "dinv B G e \<Longrightarrow> dinv B G (snd (feed_owner rc pre b i owner p e))"
  unfolding feed_owner_def Let_def split_beta by (auto intro: keep_feed)

lemma keep_phase: "dinv B G e \<Longrightarrow> dinv B G (phase_loop rc pre b i owner ps e)"
proof (induction ps arbitrary: e)
  case (Cons p ps)
  let ?e1 = "snd (feed_owner rc pre b i owner p e)"
  have e1: "dinv B G ?e1" by (rule keep_feed_owner [OF Cons.prems])
  show ?case using e1 Cons.IH [OF keep_feed_queue [OF e1]] keep_feed_queue [OF e1]
    unfolding phase_loop.simps Let_def split_beta by simp
qed simp

lemma keep_pre_phase: "dinv B G e \<Longrightarrow> dinv B G (msg_pre_phase_hdl rc b i e)"
  unfolding msg_pre_phase_hdl_def by (rule keep_phase)

lemma keep_post_phase: "dinv B G e \<Longrightarrow> dinv B G (msg_post_phase_hdl rc b i e)"
  unfolding msg_post_phase_hdl_def by (rule keep_phase)

lemma keep_controller: "dinv B G e \<Longrightarrow> dinv B G (notify_dispr_controller rc b i e)"
  unfolding notify_dispr_controller_def by (auto intro: keep_feed)

lemma keep_finish:
  assumes "dinv B (take_msg b i G) e" "b \<in> B" shows "dinv B G (finish_msg rc b i r e)"
  using assms unfolding finish_msg_def by (auto split: redirect.split intro: dinv_intro keep_push_idle)

lemma keep_pre:
  assumes "dinv B G e" shows "dinv B G (snd (snd (pre_phase rc b i pre e)))"
  unfolding pre_phase_def Let_def split_beta
  by (auto split: option.split intro!: dinv_get_bitmap dinv_m_clear dinv_m_set keep_pre_phase assms)

lemma keep_post:
  assumes "dinv B G e" shows "dinv B G (snd (post_phase rc b i pre e))"
  unfolding post_phase_def Let_def
  by (auto split: option.split intro!: dinv_m_set keep_post_phase keep_req_hdl assms)

lemma keep_dispatch:
  assumes "dinv B (take_msg b i G) e" "b \<in> B" shows "dinv B G (msg_dispatch rc b i e)"
  unfolding msg_dispatch_def Let_def split_beta
  by (auto split: option.split prod.split intro!: keep_finish assms(2) keep_controller dinv_get_bitmap keep_pre keep_post assms(1))

text \<open>The token. The current command of the band is what the ghost state says.\<close>

lemma keep_cancel_senders: "dinv B G e \<Longrightarrow> dinv B G (foldl (cancel_sender_msg b k) e is)"
  by (rule dinv_foldl) (auto intro: dinv_intro)

lemma cur_cmd: "dinv B G e \<Longrightarrow> b \<in> B \<Longrightarrow> cur_cmd_req (dsp e b) = g_cur G b"
  using dinv_band [of B G e b] by (auto simp: disp_inv_def)

lemma ghost_cur: "g_cur G b = c \<Longrightarrow> set_cur b c G = G" "set_cur b c (set_cur b c' G) = set_cur b c G"
  by (auto simp: ghost_defs)

lemma keep_deregister:
  assumes inv: "dinv B G e" and b: "b \<in> B"
  shows "dinv B (set_cur b None G) (deregister_cur_cmd_req rc b notify e)"
proof (cases "g_cur G b")
  case None
  note cur = cur_cmd [OF inv b, unfolded None] and G = ghost_cur(1) [of G b None, OF None]
  have "dinv B G (upd b (\<lambda>d. d\<lparr>cur_cmd_req := None\<rparr>) e)"
  proof (rule dinv_req_step [OF inv])
    fix d assume d: "disp_inv (g_msg G b) (g_req G b) (g_del G b) (g_cur G b) d"
    show "disp_inv (g_msg G b) (g_req G b) (g_del G b) (g_cur G b) (d\<lparr>cur_cmd_req := None\<rparr>)"
      by (rule disp_inv_reqs [OF d])
        (use d None in \<open>simp_all add: disp_inv_def queues_wf_def reqs_of_def req_flags_def\<close>)
  qed (auto simp: resting_def)
  with b show ?thesis unfolding deregister_cur_cmd_req_def Let_def cur G by (auto intro: dinv_intro)
next
  case (Some r)
  note cur = cur_cmd [OF inv b, unfolded Some] and G = ghost_cur(1) [of G b "Some r", OF Some]
  define k where "k = req_module_id (rx_req (req_at e b r))"
  define e1 where "e1 = foldl (cancel_sender_msg b k) (r_clear REQ_STATUS_RUN b r e) [0..<MAX_PHL_MSG_NUM]"
  define e2 where "e2 = (if notify then r_clear REQ_STATUS_LAST_PERMIT b r
      (snd (rc (Cb_abort b r) (r_set REQ_STATUS_LAST_PERMIT b r e1))) else e1)"
  have "dinv B G e1" unfolding e1_def by (intro keep_cancel_senders dinv_intro inv)
  then have "dinv B G e2" unfolding e2_def by (auto intro!: dinv_intro rc_keeps)
  then have "dinv B (set_cur b (Some r) G) e2" unfolding G .
  from dinv_end_cur [OF this b] b show ?thesis
    unfolding deregister_cur_cmd_req_def Let_def cur by (auto simp: k_def e1_def e2_def intro: dinv_intro)
qed

lemma keep_register:
  assumes inv: "dinv B (take_req b r G) e" and b: "b \<in> B" and cur: "g_cur G b = None"
  shows "register_cur_cmd_req rc b r e = (ok, e') \<Longrightarrow>
     dinv B (set_cur b (if ok then Some r else None) G) e'"
proof -
  assume reg: "register_cur_cmd_req rc b r e = (ok, e')"
  define e1 where "e1 = upd b (\<lambda>d. d\<lparr>cur_cmd_req := Some r, token_cnt := token_cnt d + 1\<rparr>)
     (r_clear REQ_STATUS_PREPARE b r (r_set REQ_STATUS_RUN b r e))"
  have "dinv B (set_cur b (Some r) G) e1"
    unfolding e1_def by (rule dinv_start_cur) (simp_all add: ghost_cur(1) [of G b None, OF cur] inv b)
  then have k: "dinv B (set_cur b (Some r) G) (snd (rc (Cb_acquired b r) e1))" by (rule rc_keeps)
  from reg have "ok \<and> e' = snd (rc (Cb_acquired b r) e1) \<or>
      \<not> ok \<and> e' = deregister_cur_cmd_req rc b False (snd (rc (Cb_acquired b r) e1))"
    unfolding register_cur_cmd_req_def Let_def e1_def [symmetric] by (auto split: prod.splits if_splits)
  with k keep_deregister [OF k b] show ?thesis by (auto simp: ghost_cur(2))
qed

lemma token_cnt_cur: "dinv B G e \<Longrightarrow> b \<in> B \<Longrightarrow> \<not> token_cnt (dsp e b) > 0 \<Longrightarrow> g_cur G b = None"
  using dinv_band [of B G e b] by (auto simp: disp_inv_def split: if_splits)

lemma band_lt: "dinv B G e \<Longrightarrow> b \<in> B \<Longrightarrow> b < phy_num e"
  by (simp add: dinv_def)

lemma keep_phy_on: "dinv B G e \<Longrightarrow> b \<in> B \<Longrightarrow> dinv B G (send_bk_msg_phy_on rc b e)"
  unfolding send_bk_msg_phy_on_def by (rule keep_send) (auto simp: band_lt)

lemma keep_phy_idle: "dinv B G e \<Longrightarrow> b \<in> B \<Longrightarrow> dinv B G (send_bk_msg_phy_idle rc b e)"
  unfolding send_bk_msg_phy_idle_def by (rule keep_send) (auto simp: band_lt)

lemma keep_process:
  "dinv B G e \<Longrightarrow> b \<in> B \<Longrightarrow> dispr_process_token_req n rc b e = Some (st, e') \<Longrightarrow>
     \<exists>c. dinv B (set_cur b c G) e'"
proof (induction n arbitrary: G e)
  case (Suc n)
  note inv = Suc.prems(1) and b = Suc.prems(2)
  have same: "dinv B G e'' \<Longrightarrow> \<exists>c. dinv B (set_cur b c G) e''" for e''
    using ghost_cur(1) [OF refl] by metis
  let ?go = "d_test e b DISPR_STARTED \<and> \<not> d_test e b DISPR_SHALL_STOP \<and> \<not> token_cnt (dsp e b) > 0 \<and>
    \<not> d_test e b DISPR_WAIT_ABORT_MSG_DONE \<and> \<not> d_test e b DISPR_CLEARANCE \<and>
    \<not> (front_req_with_exclusive_opt e b \<and> \<not> d_test e b DISPR_EXCLUSIVE_USE)"
  show ?case
  proof (cases "?go \<and> (\<exists>r. fst (pop_front_wait_req b e) = Some r)")
    case True
    then obtain r e1 where pop: "pop_front_wait_req b e = (Some r, e1)" by (metis prod.collapse)
    have G: "set_cur b None G = G" using token_cnt_cur [OF inv b] True by (simp add: ghost_cur(1))
    define e2 where "e2 = (if d_test e1 b DISPR_NOTIFY_IDLE
      then send_bk_msg_phy_on rc b (d_clear DISPR_NOTIFY_IDLE b e1) else e1)"
    have "dinv B (take_req b r G) e2"
      unfolding e2_def using dinv_pop_wait_req [OF inv pop] b by (auto intro!: keep_phy_on dinv_intro)
    moreover obtain ok e3 where reg: "register_cur_cmd_req rc b r e2 = (ok, e3)" by fastforce
    ultimately have e3: "dinv B (set_cur b (if ok then Some r else None) G) e3"
      using keep_register [OF _ b token_cnt_cur [OF inv b] reg] True by simp
    have "Some (st, e') = (if ok then Some (RTW_PHL_STATUS_SUCCESS, e3) else dispr_process_token_req n rc b e3)"
      using Suc.prems(3) True pop reg by (simp add: e2_def [symmetric] Let_def)
    then show ?thesis using e3 Suc.IH [of G e3] b by (auto split: if_splits simp: G)
  next
    case False
    with Suc.prems(3) have "dinv B G e'"
      using inv b dinv_ready [OF inv, of b] band_lt [OF inv b] pop_wait_req_None
      by (auto simp: Let_def split: if_splits prod.splits option.splits intro!: dinv_acquire keep_phy_idle dinv_d_set
          dest: pop_wait_req_None)
    then show ?thesis by (rule same)
  qed
qed simp

lemma keep_handle:
  assumes inv: "dinv B G e" and b: "b \<in> B" and del: "g_del G b = {#}"
    and h: "handle_token_op_info n rc b ref e = Some e'"
  shows "\<exists>c. dinv B (set_cur b c G) e'"
proof -
  have same: "dinv B G e'' \<Longrightarrow> \<exists>c. dinv B (set_cur b c G) e''" for e''
    using ghost_cur(1) [OF refl] by metis
  have proc: "dinv B G' e1 \<Longrightarrow> map_option snd (dispr_process_token_req n rc b e1) = Some e' \<Longrightarrow>
      \<exists>c. dinv B (set_cur b c G') e'" for G' e1
    using keep_process [OF _ b] by auto
  have dereg: "dinv B G e1 \<Longrightarrow>
      map_option snd (dispr_process_token_req n rc b (deregister_cur_cmd_req rc b notify e1)) = Some e' \<Longrightarrow>
      \<exists>c. dinv B (set_cur b c G) e'" for notify e1
    using proc [OF keep_deregister [OF _ b]] by (simp add: ghost_cur(2))
  have cancel: "\<exists>c. dinv B (set_cur b c G) (push_back_idle_req b r (snd (rc (Cb_abort b r)
      (upd b (\<lambda>d. d\<lparr>req_wait_q := pq_del_node (req_wait_q d) (Some r)\<rparr>) (r_set REQ_STATUS_CANCEL b r e)))))"
    if r: "r < MAX_CMD_REQ_NUM" "r_test (r_set REQ_STATUS_CANCEL b r e) b r REQ_STATUS_ENQ" for r
    by (rule same, rule dinv_push_dropped_req, rule rc_keeps, rule dinv_del_wait_req [OF _ del r])
      (intro dinv_intro inv; simp)
  define r where "r = unat (op_data (op_info (dsp e b) ref))"
  have inv': "dinv B G (r_set REQ_STATUS_CANCEL b r e)" by (intro dinv_intro inv) simp
  show ?thesis
    using h proc [OF inv] dereg [OF inv, of False] dereg [OF inv', of True] cancel [of r] same [OF inv]
      same [OF inv'] ghost_cur(1) [of G b, OF refl]
    unfolding handle_token_op_info_def Let_def r_def [symmetric]
    by (cases "op_type (op_info (dsp e b) ref)") (auto split: if_splits)
qed

lemma ghost_frame [simp]:
  "g_del (set_cur b c G) = g_del G" "g_del (owe_op b G) = g_del G" "g_del (owe_wait b G) = g_del G"
  "g_del (take_msg b i G) = g_del G" "set_cur b c (owe_op b' G) = owe_op b' (set_cur b c G)"
  "set_cur b c (owe_wait b' G) = owe_wait b' (set_cur b c G)"
  by (simp_all add: ghost_defs)

text \<open>The loop ends with an empty operation queue, so what was owed for it is paid.\<close>

lemma keep_token_loop:
  "dinv B (owe_op b G) e \<Longrightarrow> b \<in> B \<Longrightarrow> g_del G b = {#} \<Longrightarrow> token_op_loop n rc b e = Some e' \<Longrightarrow>
     \<exists>c. dinv B (set_cur b c G) e'"
proof (induction n arbitrary: G e)
  case (Suc n)
  note inv = Suc.prems(1) and b = Suc.prems(2) and del = Suc.prems(3)
  obtain ref e1 where pop: "pop_front_token_op_info b e = (ref, e1)" by fastforce
  show ?case
  proof (cases ref)
    case None
    with pop dinv_pop_op_None [OF inv] have "dinv B G e1" by simp
    then have "dinv B (set_cur b (g_cur G b) G) e1" by (simp add: ghost_cur(1))
    with Suc.prems(4) pop None show ?thesis by auto
  next
    case (Some r)
    with pop have e1: "dinv B (owe_op b G) e1" using dinv_pop_op [OF inv] by simp
    from Suc.prems(4) pop Some obtain e2 where
      h: "handle_token_op_info n rc b r e1 = Some e2" and l: "token_op_loop n rc b (set_unused r b e2) = Some e'"
      by (auto split: option.splits)
    from keep_handle [OF e1 b _ h] del obtain c where "dinv B (owe_op b (set_cur b c G)) e2" by auto
    then have "dinv B (owe_op b (set_cur b c G)) (set_unused r b e2)" by (rule dinv_set_unused)
    from Suc.IH [OF this b _ l] del show ?thesis by (simp add: ghost_cur(2))
  qed
qed simp

lemma keep_token_op:
  assumes inv: "dinv B (owe_op b G) e" and b: "b \<in> B" and del: "g_del G b = {#}"
    and h: "token_op_hanler n rc b e = Some e'"
  shows "\<exists>c. dinv B (set_cur b c G) e'"
proof (cases "d_test e b DISPR_CLEARANCE \<and> pq_cnt (token_op_q (dsp e b)) = 0 \<and> token_cnt (dsp e b) = 0")
  case True
  then have "pop_front_token_op_info b e = (None, e)"
    by (simp add: pop_front_token_op_info_def pq_pop_def pq_nonempty_def)
  from dinv_pop_op_None [OF inv this] have e: "dinv B G e" .
  have "dinv B G e'" using h True dinv_ready [OF e, of b] band_lt [OF e b] by (auto simp: token_op_hanler_def)
  then show ?thesis using ghost_cur(1) [OF refl] by metis
next
  case False
  with h have "token_op_loop n rc b e = Some e'" by (auto simp: token_op_hanler_def)
  then show ?thesis by (rule keep_token_loop [OF inv b del])
qed

lemma keep_thread_loop:
  assumes inv: "dinv B (owe_op b (owe_wait b G)) e" and b: "b \<in> B" and del: "g_del G b = {#}"
    and h: "dispr_thread_loop_hdl n rc b e = Some e'"
  shows "\<exists>c. dinv B (set_cur b c G) e'"
proof -
  from h obtain e1 where t: "token_op_hanler n rc b (clear_pending_msg b e) = Some e1"
    by (auto simp: dispr_thread_loop_hdl_def split: option.splits)
  from keep_token_op [OF dinv_clear_pending [OF inv] b _ t] del
  obtain c where e1: "dinv B (owe_wait b (set_cur b c G)) e1" by auto
  obtain i e2 where pop: "pop_front_wait_msg b e1 = (i, e2)" by fastforce
  have "dinv B (set_cur b c G) e'"
  proof (cases i)
    case None
    with pop have "dinv B (set_cur b c G) e2" using dinv_pop_wait_None [OF e1] by blast
    with h t pop None show ?thesis by (simp add: dispr_thread_loop_hdl_def)
  next
    case (Some j)
    with pop have e2: "dinv B (take_msg b j (set_cur b c G)) e2" using dinv_pop_wait [OF e1] by simp
    obtain cancelled e3 where c: "is_msg_canceled b j e2 = (cancelled, e3)" by fastforce
    with dinv_is_canceled [OF e2, of b j] have e3: "dinv B (take_msg b j (set_cur b c G)) e3" by simp
    show ?thesis
      using h t pop Some c e3 b by (auto simp: dispr_thread_loop_hdl_def Let_def split: if_splits
          intro!: keep_push_idle keep_dispatch dinv_upd_msg)
  qed
  then show ?thesis by blast
qed

text \<open>Shutdown.\<close>

lemma keep_drain:
  "dinv B G e \<Longrightarrow> b \<in> B \<Longrightarrow> drain_wait n rc b e = Some e' \<Longrightarrow> dinv B G e'"
proof (induction n arbitrary: e)
  case (Suc n)
  obtain i e1 where pop: "pop_front_wait_msg b e = (i, e1)" by fastforce
  note owed = dinv_owe(1) [OF Suc.prems(1), of b]
  show ?case
  proof (cases i)
    case None
    with Suc.prems pop dinv_pop_wait_None [OF owed] show ?thesis by auto
  next
    case (Some j)
    have "dinv B G (push_back_idle_msg rc b j e1)"
      by (intro keep_push_idle dinv_pop_wait [OF owed] Suc.prems(2)) (use pop Some in simp)
    with Suc pop Some show ?thesis by auto
  qed
qed simp

lemma keep_clear_waiting:
  "dinv B G e \<Longrightarrow> b \<in> B \<Longrightarrow> clear_waiting_msg n rc b e = Some e' \<Longrightarrow>
     dinv B G e' \<and> pq_cnt (msg_idle_q (dsp e' b)) = int MAX_PHL_MSG_NUM"
proof (induction n arbitrary: e)
  case (Suc n)
  have "dinv B G (empty_pending (push_back_wait_msg b) b (pend_len e b) e)"
    by (rule dinv_empty_pending [OF _ Suc.prems(1)]) (rule dinv_push_back_wait)
  note drained = keep_drain [OF this Suc.prems(2)]
  show ?case
    using Suc.prems Suc.IH [OF drained Suc.prems(2)]
    by (auto split: if_splits option.splits)
qed simp

lemma keep_drain_req:
  "dinv B G e \<Longrightarrow> b \<in> B \<Longrightarrow> drain_wait_req n rc b e = Some e' \<Longrightarrow> dinv B G e'"
proof (induction n arbitrary: e)
  case (Suc n)
  obtain r e1 where pop: "pop_front_wait_req b e = (r, e1)" by fastforce
  show ?case
  proof (cases r)
    case None
    with Suc pop pop_wait_req_None show ?thesis by auto
  next
    case (Some x)
    have "dinv B G (push_back_idle_req b x (snd (rc (Cb_abort b x) e1)))"
      by (intro dinv_push_idle_req rc_keeps dinv_pop_wait_req [OF Suc.prems(1)]) (use pop Some in simp)
    with Suc pop Some show ?thesis by auto
  qed
qed simp

lemma keep_clear_reqs:
  "dinv B G e \<Longrightarrow> b \<in> B \<Longrightarrow> clear_wating_req n rc b e = Some e' \<Longrightarrow>
     dinv B G e' \<and> pq_cnt (req_idle_q (dsp e' b)) = int MAX_CMD_REQ_NUM"
proof (induction n arbitrary: e)
  case (Suc n)
  show ?case
    using Suc.prems Suc.IH [OF keep_drain_req [OF Suc.prems(1,2)] Suc.prems(2)]
    by (auto split: if_splits option.splits)
qed simp

lemma keep_leave:
  assumes inv: "dinv B G e" and b: "b \<in> B" and h: "dispr_thread_leave_hdl n rc b e = Some e'"
  shows "dinv B (set_cur b None G) e'"
proof -
  from h obtain e1 where c: "clear_waiting_msg n rc b (deregister_cur_cmd_req rc b True e) = Some e1"
    "clear_wating_req n rc b e1 = Some e'"
    by (auto simp: dispr_thread_leave_hdl_def split: option.splits)
  have "dinv B (set_cur b None G) e1"
    using keep_clear_waiting [OF keep_deregister [OF inv b] b c(1)] by simp
  from keep_clear_reqs [OF this b c(2)] show ?thesis by simp
qed

lemma keep_dev_io:
  assumes "dinv B G e" "b < phy_num e" shows "dinv B G (snd (dispr_notify_dev_io_status rc b k allow e))"
proof -
  have n: "b < phy_num (upd b f e')" if "b < phy_num e'" for f e' using that by simp
  show ?thesis
    unfolding dispr_notify_dev_io_status_def send_dev_io_status_change_def Let_def split_beta
    by (auto intro!: keep_send dinv_clr_pending dinv_d_set dinv_d_clear dinv_neutral assms
        simp: view_def flag_bits_def assms(2))
qed

lemma keep_call: "dinv B G e \<Longrightarrow> dinv B G (run_call rc c e)"
  by (cases c)
    (auto simp: phl_disp_eng_send_msg_def phl_disp_eng_cancel_msg_def phl_disp_eng_clr_pending_msg_def
      phl_disp_eng_add_token_req_def phl_disp_eng_cancel_token_req_def phl_disp_eng_free_token_def
      phl_disp_eng_notify_dev_io_status_def phl_disp_eng_notify_shall_stop_def
      intro!: dinv_intro keep_send dinv_bands keep_dev_io)

lemma keep_round:
  assumes inv: "dinv B G e" and B: "B = {..<phy_num e}"
    and free: "\<And>b. g_wait G b = 0 \<and> g_op G b = 0 \<and> g_del G b = {#}"
    and h: "share_thread_round n rc e = Some e'"
  shows "\<exists>cs. dinv B (G\<lparr>g_cur := cs\<rparr>) e'"
proof (cases "e_sema e = 0")
  case True
  with h have "e' = e" by (simp add: share_thread_round_def)
  moreover have "G\<lparr>g_cur := g_cur G\<rparr> = G" by simp
  ultimately show ?thesis using inv by metis
next
  case False
  define owed where "owed k cs = G\<lparr>g_cur := cs, g_wait := \<lambda>b. if b < k then 0 else 1,
      g_op := \<lambda>b. if b < k then 0 else 1\<rparr>" for k cs
  have start: "dinv B (owed 0 (g_cur G)) (e\<lparr>e_sema := e_sema e - 1\<rparr>)"
    using inv False free unfolding dinv_def owed_def excl_ok_def wakes_def d_test_def by auto
  have "k \<le> phy_num e \<Longrightarrow> dinv B (owed k cs) e1 \<Longrightarrow>
      for_bands (dispr_thread_loop_hdl n rc) [k..<phy_num e] e1 = Some e' \<Longrightarrow>
      \<exists>cs. dinv B (owed (phy_num e) cs) e'" for k cs e1
  proof (induction "phy_num e - k" arbitrary: k cs e1)
    case 0
    then show ?case by auto
  next
    case (Suc m)
    then have k: "k < phy_num e" by simp
    from Suc.prems(3) k obtain e2 where t: "dispr_thread_loop_hdl n rc k e1 = Some e2"
      and r: "for_bands (dispr_thread_loop_hdl n rc) [Suc k..<phy_num e] e2 = Some e'"
      by (auto simp: upt_conv_Cons split: option.splits)
    have "owed k cs = owe_op k (owe_wait k (owed (Suc k) cs))"
      by (auto simp: owed_def ghost_defs less_Suc_eq fun_eq_iff)
    with keep_thread_loop [OF _ _ _ t, of "owed (Suc k) cs"] Suc.prems(2) k B free
    obtain c where "dinv B (set_cur k c (owed (Suc k) cs)) e2" by (auto simp: owed_def)
    moreover have "set_cur k c (owed (Suc k) cs) = owed (Suc k) (cs(k := c))"
      by (simp add: owed_def ghost_defs)
    ultimately show ?case using Suc.hyps(1) [of "Suc k"] Suc.hyps(2) k r by auto
  qed
  from this [OF _ start] h False obtain cs where "dinv B (owed (phy_num e) cs) e'"
    by (auto simp: share_thread_round_def)
  moreover have "wakes (G\<lparr>g_cur := cs\<rparr>) b e'" if "wakes (owed (phy_num e) cs) b e'" "b < phy_num e" for b
    using that by (simp add: wakes_def owed_def)
  ultimately have "dinv B (G\<lparr>g_cur := cs\<rparr>) e'"
    unfolding dinv_def owed_def using B by auto
  then show ?thesis by blast
qed

end

text \<open>The scripts are such callbacks, at any depth.\<close>

lemma dinv_log [dinv_intro]: "dinv B G e \<Longrightarrow> dinv B G (log_cb cb e)"
  by (rule dinv_view) (auto simp: log_cb_def)

lemma run_cb_keeps: "keeping_runner B (run_cb n s)"
proof (induction n)
  case 0
  show ?case by unfold_locales (simp add: dinv_log)
next
  case (Suc n)
  show ?case
    by unfold_locales (simp add: dinv_foldl dinv_log keeping_runner.keep_call [OF Suc])
qed

interpretation scripts: keeping_runner B "run_cb n s" for B n s
  by (rule run_cb_keeps)

end
