(* ===== verification/DispatcherRun.thy ===== *)
theory DispatcherRun
  imports DispatcherKeep
begin

text \<open>
  Whole runs of the dispatch engine: it is initialised, started, used from outside and by the
  callbacks while the thread makes its rounds, and stopped. Between these events nothing is in
  flight.
\<close>

text \<open>\<open>still n k cs\<close>: of \<open>n\<close> bands the first \<open>k\<close> are started, and their commands are \<open>cs\<close>.\<close>

definition still :: "nat \<Rightarrow> nat \<Rightarrow> (nat \<Rightarrow> nat option) \<Rightarrow> ghost" where
  "still n k cs = \<lparr>g_bands = n, g_on = {..<k}, g_msg = \<lambda>_. {#}, g_req = \<lambda>_. {#}, g_del = \<lambda>_. {#}, g_cur = cs,
     g_wait = \<lambda>_. 0, g_op = \<lambda>_. 0\<rparr>"

definition settled :: "engine \<Rightarrow> bool" where
  "settled e \<longleftrightarrow> (\<exists>cs. dinv {..<phy_num e} (still (phy_num e) (phy_num e) cs) e)"

lemma still_simps [simp]:
  "g_bands (still n k cs) = n" "g_on (still n k cs) = {..<k}" "g_cur (still n k cs) = cs" "g_msg (still n k cs) b = {#}"
  "g_req (still n k cs) b = {#}" "g_del (still n k cs) b = {#}" "g_wait (still n k cs) b = 0" "g_op (still n k cs) b = 0"
  "still n k cs\<lparr>g_cur := cs'\<rparr> = still n k cs'"
  by (simp_all add: still_def)

lemma settled_band:
  assumes "settled e" "b < phy_num e"
  shows "disp_inv {#} {#} {#} (cur_cmd_req (dsp e b)) (dsp e b)"
    and "length (pq_queue (msg_wait_q (dsp e b))) \<le> e_sema e"
    and "length (pq_queue (token_op_q (dsp e b))) \<le> e_sema e"
proof -
  obtain cs where inv: "dinv {..<phy_num e} (still (phy_num e) (phy_num e) cs) e" using assms(1) by (auto simp: settled_def)
  with dinv_band [OF inv, of b] assms(2)
  have d: "disp_inv {#} {#} {#} (cs b) (dsp e b)" and w: "wakes (still (phy_num e) (phy_num e) cs) b e" by auto
  show "disp_inv {#} {#} {#} (cur_cmd_req (dsp e b)) (dsp e b)"
    using d disp_invD(6) [OF d] by simp
  show "length (pq_queue (msg_wait_q (dsp e b))) \<le> e_sema e"
    "length (pq_queue (token_op_q (dsp e b))) \<le> e_sema e"
    using w by (simp_all add: wakes_def)
qed

lemma settled_excl: "settled e \<Longrightarrow> excl_ok e"
  by (auto simp: settled_def dinv_def)

subsection \<open>Before the start\<close>

definition fresh :: "engine \<Rightarrow> bool" where
  "fresh e \<longleftrightarrow> excl_ok e \<and> (\<forall>b < phy_num e. resting (dsp e b))"

lemma fresh_dinv: "fresh e \<longleftrightarrow> dinv {} (still (phy_num e) 0 cs) e"
  by (auto simp: fresh_def dinv_def resting_def)

subsection \<open>Start\<close>

lemma upd_same: "f (dsp e b) = dsp e b \<Longrightarrow> upd b f e = e"
  by (cases "b < phy_num e") (simp_all add: upd_def list_update_beyond)

lemma upd_msg_same: "f (msg_at e b i) = msg_at e b i \<Longrightarrow> upd_msg b i f e = e"
  unfolding upd_msg_def by (rule upd_same) simp

lemma upd_at: "f (dsp e b) = g (dsp e b) \<Longrightarrow> upd b f e = upd b g e"
  by (simp add: upd_def)

lemma push_zero_msg:
  assumes "msg_at e b i = zero_msg_ex"
  shows "\<exists>evt. push_back_idle_msg rc b i e =
     upd b (\<lambda>d. d\<lparr>pending_evt := evt, msg_idle_q := pq_push (msg_idle_q d) i Tail\<rparr>) e"
proof -
  have 1: "notify_completion rc b i e = e"
    using assms by (simp add: notify_completion_def zero_msg_ex_def)
  have 2: "\<not> m_test e b i MSG_STATUS_FOR_ABORT"
    using assms by (simp add: m_test_def zero_msg_ex_def MSG_STATUS_FOR_ABORT_def flag_simps)
  have 3: "upd_msg b i (\<lambda>x. x\<lparr>ex_status := 0\<rparr>) e = e"
    by (rule upd_msg_same) (simp add: assms zero_msg_ex_def)
  have 4: "upd_mid b i (\<lambda>_. 0) (SET_CUR_PENDING_EVT b k v e) = SET_CUR_PENDING_EVT b k v e"
    "upd_mid b i (\<lambda>_. 0) e = e" for k v
    unfolding upd_mid_def
    by (rule upd_msg_same; simp add: SET_CUR_PENDING_EVT_def dsp_upd assms zero_msg_ex_def)+
  let ?k = "MSG_MDL_ID_FIELD (mid e b i)" and ?evt = "pending_evt (dsp e b)"
  have 5: "upd b (\<lambda>d. d\<lparr>msg_idle_q := pq_push (msg_idle_q d) i Tail\<rparr>) (SET_CUR_PENDING_EVT b ?k MSG_EVT_MAX e) =
      upd b (\<lambda>d. d\<lparr>pending_evt := ?evt[unat ?k := MSG_EVT_MAX], msg_idle_q := pq_push (msg_idle_q d) i Tail\<rparr>) e"
    "upd b (\<lambda>d. d\<lparr>msg_idle_q := pq_push (msg_idle_q d) i Tail\<rparr>) e =
      upd b (\<lambda>d. d\<lparr>pending_evt := ?evt, msg_idle_q := pq_push (msg_idle_q d) i Tail\<rparr>) e"
    unfolding SET_CUR_PENDING_EVT_def upd_upd by (rule upd_at, simp)+
  show ?thesis
    unfolding push_back_idle_msg_def Let_def 1 if_not_P [OF 2] 3
    by (cases "GET_CUR_PENDING_EVT (dsp e b) ?k = MSG_EVT_ID_FIELD (mid e b i)")
      (simp_all only: if_True if_False simp_thms 4 5, (rule exI, rule refl)+)
qed

definition fill_idle :: "nat \<Rightarrow> nat phl_queue" where
  "fill_idle m = foldl (\<lambda>q i. pq_push q i Tail) pq_init [0..<m]"

lemma fill_idle_queue: "pq_queue (fill_idle m) = [0..<m]" "pq_wf (fill_idle m)"
  unfolding fill_idle_def using pqf.fill [of "[0..<m]"] by simp_all

text \<open>The pool of messages after its initialisation; no callback is made.\<close>

lemma init_msg_pool:
  assumes "b < phy_num e" "\<not> d_test e b DISPR_MSGQ_INIT"
  shows "\<exists>evt. init_dispr_msg_pool rc b e = d_set DISPR_MSGQ_INIT b
    (upd b (\<lambda>d. d\<lparr>msg_idle_q := fill_idle MAX_PHL_MSG_NUM, msg_wait_q := pq_init, msg_pend_q := pq_init,
       msg_pool := replicate MAX_PHL_MSG_NUM zero_msg_ex, pending_evt := evt\<rparr>) e)"
proof -
  let ?e = "\<lambda>q evt. upd b (\<lambda>d. d\<lparr>msg_idle_q := q, msg_wait_q := pq_init, msg_pend_q := pq_init,
      msg_pool := replicate MAX_PHL_MSG_NUM zero_msg_ex, pending_evt := evt\<rparr>) e"
  have "m \<le> MAX_PHL_MSG_NUM \<Longrightarrow> \<exists>evt'. foldl (\<lambda>e i. push_back_idle_msg rc b i e) (?e pq_init evt) [0..<m] =
      ?e (fill_idle m) evt'" for m evt
  proof (induction m)
    case 0
    then show ?case by (auto simp: fill_idle_def)
  next
    case (Suc m)
    then obtain evt' where m: "foldl (\<lambda>e i. push_back_idle_msg rc b i e) (?e pq_init evt) [0..<m] =
        ?e (fill_idle m) evt'" by auto
    have "msg_at (?e (fill_idle m) evt') b m = zero_msg_ex" using Suc.prems assms by (simp add: dsp_upd)
    from push_zero_msg [OF this, of rc] obtain evt'' where
      "push_back_idle_msg rc b m (?e (fill_idle m) evt') = upd b (\<lambda>d. d\<lparr>pending_evt := evt'',
         msg_idle_q := pq_push (msg_idle_q d) m Tail\<rparr>) (?e (fill_idle m) evt')" by blast
    then have "push_back_idle_msg rc b m (?e (fill_idle m) evt') = ?e (fill_idle (Suc m)) evt''"
      unfolding upd_upd
      by (elim trans) (rule upd_cong, rule dispatcher.equality; simp add: fill_idle_def)
    with m show ?case by auto
  qed
  from this [OF le_refl, of "pending_evt (dsp e b)"] obtain evt' where
    f: "foldl (\<lambda>e i. push_back_idle_msg rc b i e) (?e pq_init (pending_evt (dsp e b))) [0..<MAX_PHL_MSG_NUM] =
      ?e (fill_idle MAX_PHL_MSG_NUM) evt'" by blast
  have u: "upd b (\<lambda>d. d\<lparr>msg_idle_q := pq_init, msg_wait_q := pq_init, msg_pend_q := pq_init,
      msg_pool := replicate MAX_PHL_MSG_NUM zero_msg_ex\<rparr>) e = ?e pq_init (pending_evt (dsp e b))"
    by (rule upd_at) simp
  have "init_dispr_msg_pool rc b e = d_set DISPR_MSGQ_INIT b (?e (fill_idle MAX_PHL_MSG_NUM) evt')"
    unfolding f [symmetric] u [symmetric] using assms(2) by (simp add: init_dispr_msg_pool_def Let_def)
  then show ?thesis by blast
qed


lemma init_req_pool:
  assumes "\<not> d_test e b DISPR_REQ_INIT"
  shows "init_cmd_req_pool b e = d_set DISPR_REQ_INIT b
    (upd b (\<lambda>d. d\<lparr>req_wait_q := pq_init, token_op_q := pq_init, req_pool := replicate MAX_CMD_REQ_NUM zero_req_ex,
       req_idle_q := fill_idle MAX_CMD_REQ_NUM\<rparr>) e)"
  using assms by (simp add: init_cmd_req_pool_def fill_idle_def)

lemma dinv_grow:
  assumes inv: "dinv {..<k} (still n k cs) e" and k: "k < n"
    and other: "\<And>b. b \<noteq> k \<Longrightarrow> dsp e' b = dsp e b" "phy_num e' = phy_num e" "e_sema e' = e_sema e"
    and bits: "bit (d_status (dsp e' k)) 10 = bit (d_status (dsp e k)) 10"
      "bit (d_status (dsp e' k)) 11 = bit (d_status (dsp e k)) 11"
    and on: "bit (d_status (dsp e' k)) 1"
    and own: "disp_inv {#} {#} {#} None (dsp e' k)"
      "pq_queue (msg_wait_q (dsp e' k)) = []" "pq_queue (token_op_q (dsp e' k)) = []"
  shows "dinv {..<Suc k} (still n (Suc k) (cs(k := None))) e'"
proof -
  have "bit (d_status (dsp e' b)) 10 = bit (d_status (dsp e b)) 10"
    "bit (d_status (dsp e' b)) 11 = bit (d_status (dsp e b)) 11" for b
    using bits other(1) [of b] by (cases "b = k"; simp)+
  then have "excl_ok e'" using inv other(2) unfolding dinv_def excl_ok_def d_test_bit by simp
  moreover have "resting (dsp e' b)" if "b < n" "\<not> b < Suc k" for b
    using inv that other(1) [of b] by (simp add: dinv_def)
  moreover have "disp_inv {#} {#} {#} ((cs(k := None)) b) (dsp e' b) \<and> wakes (still n (Suc k) (cs(k := None))) b e'"
    if "b < Suc k" for b
  proof (cases "b = k")
    case True
    with own show ?thesis by (simp add: wakes_def)
  next
    case False
    with that dinv_band [OF inv, of b] other show ?thesis by (simp add: wakes_def)
  qed
  moreover have "bit (d_status (dsp e' b)) 1 \<longleftrightarrow> b < Suc k" if "b < n" for b
    using inv on that other(1) [of b] by (cases "b = k") (auto simp: dinv_def)
  ultimately show ?thesis using inv k other(2) unfolding dinv_def by auto
qed

lemma flag_bit_other:
  "b < phy_num e \<Longrightarrow> \<not> bit f n \<Longrightarrow> bit (d_status (dsp (d_set f b e) b')) n = bit (d_status (dsp e b')) n"
  by (simp add: d_set_def dsp_upd SET_STATUS_FLAG_def bit_simps)

lemma dispr_start_pools:
  assumes inv: "dinv {..<k} (still n k cs) e" and k: "k < n"
  shows "\<exists>e'. dispr_start rc k e = (RTW_PHL_STATUS_SUCCESS, snd (start_dispr_controller rc k e')) \<and>
    dinv {..<Suc k} (still n (Suc k) (cs(k := None))) e'"
proof -
  have lt: "k < phy_num e" and rest: "resting (dsp e k)" using inv k by (simp_all add: dinv_def)
  have off: "\<not> d_test e k DISPR_STARTED" "\<not> d_test e k DISPR_MSGQ_INIT" "\<not> d_test e k DISPR_REQ_INIT"
    using rest by (simp_all add: resting_def d_test_def DISPR_STARTED_def DISPR_MSGQ_INIT_def
      DISPR_REQ_INIT_def flag_simps)
  obtain evt where p: "init_dispr_msg_pool rc k e = d_set DISPR_MSGQ_INIT k
    (upd k (\<lambda>d. d\<lparr>msg_idle_q := fill_idle MAX_PHL_MSG_NUM, msg_wait_q := pq_init, msg_pend_q := pq_init,
       msg_pool := replicate MAX_PHL_MSG_NUM zero_msg_ex, pending_evt := evt\<rparr>) e)" (is "_ = ?e1")
    using init_msg_pool [OF lt off(2), of rc] by auto
  have r: "\<not> d_test ?e1 k DISPR_REQ_INIT"
    using off(3) lt by (simp add: d_test_def d_set_def dsp_upd DISPR_REQ_INIT_def DISPR_MSGQ_INIT_def flag_simps)
  define e' where "e' = d_set DISPR_STARTED k
    (upd k (\<lambda>d. d\<lparr>renew_req_info := no_op_info, exclusive_mdl := PHL_MDL_ID_MAX\<rparr>)
      (init_dispr_mdl_mgnt_info k (init_cmd_req_pool k ?e1)))"
  note e'_eq = e'_def [unfolded init_req_pool [OF r], unfolded init_dispr_mdl_mgnt_info_def d_set_def upd_upd]
  have "dinv {..<Suc k} (still n (Suc k) (cs(k := None))) e'"
  proof (rule dinv_grow [OF inv k])
    show "disp_inv {#} {#} {#} None (dsp e' k)"
      using rest lt fill_idle_queue
      by (simp add: e'_eq dsp_upd disp_inv_def queues_wf_def msgs_of_def reqs_of_def req_flags_def enq_def
          running_def zero_req_ex_def cur_mset_def resting_def)
  qed (use lt in \<open>auto simp: e'_eq dsp_upd DISPR_STARTED_def DISPR_MSGQ_INIT_def DISPR_REQ_INIT_def flag_simps\<close>)
  moreover have "dispr_start rc k e = (RTW_PHL_STATUS_SUCCESS, snd (start_dispr_controller rc k e'))"
    using off(1) by (simp add: dispr_start_def Let_def e'_def p)
  ultimately show ?thesis by blast
qed

text \<open>The modules do not touch what the invariant is about.\<close>

lemma dinv_upd_mdl [dinv_intro]: "dinv B G e \<Longrightarrow> dinv B G (upd_mdl b a f e)"
  unfolding upd_mdl_def by (rule dinv_neutral) (simp_all add: view_def flag_bits_def)

lemma dinv_mdl_flags [dinv_intro]:
  "dinv B G e \<Longrightarrow> dinv B G (mdl_set f b a e)" "dinv B G e \<Longrightarrow> dinv B G (mdl_clear f b a e)"
  unfolding mdl_set_def mdl_clear_def by (intro dinv_intro; assumption)+

lemma dinv_bitmaps [dinv_intro]:
  "dinv B G e \<Longrightarrow> dinv B G (bitmap_add b k base e)" "dinv B G e \<Longrightarrow> dinv B G (bitmap_clr b k e)"
  "dinv B G e \<Longrightarrow> dinv B G (upd_module_q b p g e)"
  unfolding bitmap_add_def bitmap_clr_def upd_module_q_def
  by (rule dinv_neutral, simp add: view_def flag_bits_def, assumption)+

context keeping_runner
begin

lemma keep_mdl_init: "dinv B G e \<Longrightarrow> dinv B G (snd (bk_module_init rc b a e))"
  unfolding bk_module_init_def by (auto simp: Let_def split_beta intro!: dinv_intro rc_keeps)

lemma keep_mdl_deinit: "dinv B G e \<Longrightarrow> dinv B G (bk_module_deinit rc b a e)"
  unfolding bk_module_deinit_def Let_def by (intro dinv_intro rc_keeps)

lemma keep_mdl_start: "dinv B G e \<Longrightarrow> dinv B G (snd (bk_module_start rc b a e))"
  unfolding bk_module_start_def by (auto simp: Let_def split_beta intro!: dinv_intro rc_keeps)

lemma keep_mdl_stop: "dinv B G e \<Longrightarrow> dinv B G (snd (bk_module_stop rc b a e))"
  unfolding bk_module_stop_def by (auto simp: Let_def split_beta intro!: dinv_intro rc_keeps)

lemmas keep_mdl = keep_mdl_init keep_mdl_deinit keep_mdl_start keep_mdl_stop

lemma keep_mdls:
  "dinv B G e \<Longrightarrow> (\<And>e x. dinv B G e \<Longrightarrow> dinv B G (f e x)) \<Longrightarrow> dinv B G (foldl f e xs)"
  by (rule dinv_foldl)

lemma keep_module_start: "dinv B G e \<Longrightarrow> dinv B G (snd (dispr_module_start rc b e))"
  unfolding dispr_module_start_def
  by (auto simp: Let_def split_beta intro!: keep_mdls dinv_intro keep_mdl)

lemma keep_module_stop: "dinv B G e \<Longrightarrow> dinv B G (snd (dispr_module_stop rc b e))"
  unfolding dispr_module_stop_def
  by (auto simp: Let_def split_beta intro!: keep_mdls dinv_intro keep_mdl)

lemma keep_start_controller: "dinv B G e \<Longrightarrow> dinv B G (snd (start_dispr_controller rc b e))"
  unfolding start_dispr_controller_def by (auto simp: Let_def split_beta intro!: dinv_intro keep_mdl)

lemma keep_stop_controller: "dinv B G e \<Longrightarrow> dinv B G (snd (stop_dispr_controller rc b e))"
  unfolding stop_dispr_controller_def by (auto simp: Let_def split_beta intro!: dinv_intro keep_mdl)

lemma keep_register_controller: "dinv B G e \<Longrightarrow> dinv B G (snd (register_dispr_controller rc b e))"
  unfolding register_dispr_controller_def by (auto simp: Let_def split_beta intro!: dinv_intro keep_mdl)

lemma keep_register_module: "dinv B G e \<Longrightarrow> dinv B G (snd (dispr_register_module rc addr b k ops e))"
  unfolding dispr_register_module_def
  by (auto simp: Let_def split_beta split: option.split intro!: dinv_intro keep_mdl)

lemma keep_deregister_module: "dinv B G e \<Longrightarrow> dinv B G (snd (dispr_deregister_module rc b k e))"
  unfolding dispr_deregister_module_def
  by (auto simp: Let_def split_beta split: option.split prod.split intro!: dinv_intro keep_mdl)

end

subsection \<open>Events\<close>

text \<open>
  What happens to an engine that runs: a call of the interface from outside, a module that comes
  or goes, a round of the shared thread. The fuel \<open>m\<close> bounds the token loops of a round, \<open>d\<close> the
  nesting of callbacks, and the script \<open>s\<close> says what the callbacks do.
\<close>

datatype engine_event =
    Ev_call api_call
  | Ev_register "nat option" nat u8 "module_ops option"
  | Ev_deregister nat u8
  | Ev_round

fun engine_step :: "nat \<Rightarrow> nat \<Rightarrow> script \<Rightarrow> engine \<Rightarrow> engine_event \<Rightarrow> engine option" where
  "engine_step m d s e (Ev_call c) = Some (run_call (run_cb d s) c e)"
| "engine_step m d s e (Ev_register addr b k ops) =
     Some (snd (phl_disp_eng_register_module (run_cb d s) addr b k ops e))"
| "engine_step m d s e (Ev_deregister b k) = Some (snd (phl_disp_eng_deregister_module (run_cb d s) b k e))"
| "engine_step m d s e Ev_round = share_thread_round m (run_cb d s) e"

fun engine_run :: "nat \<Rightarrow> nat \<Rightarrow> script \<Rightarrow> engine \<Rightarrow> engine_event list \<Rightarrow> engine option" where
  "engine_run m d s e [] = Some e"
| "engine_run m d s e (x # xs) =
     (case engine_step m d s e x of None \<Rightarrow> None | Some e' \<Rightarrow> engine_run m d s e' xs)"

lemma settled_keep:
  assumes "settled e" "\<And>cs. dinv {..<phy_num e} (still (phy_num e) (phy_num e) cs) e \<Longrightarrow>
      \<exists>cs'. dinv {..<phy_num e} (still (phy_num e) (phy_num e) cs') e'"
  shows "settled e' \<and> phy_num e' = phy_num e"
proof -
  from assms obtain cs' where "dinv {..<phy_num e} (still (phy_num e) (phy_num e) cs') e'" by (auto simp: settled_def)
  with dinv_phy_num [OF this] show ?thesis by (auto simp: settled_def)
qed

lemma settled_step:
  assumes "settled e" "engine_step m d s e x = Some e'"
  shows "settled e' \<and> phy_num e' = phy_num e"
proof (rule settled_keep [OF assms(1)])
  fix cs assume inv: "dinv {..<phy_num e} (still (phy_num e) (phy_num e) cs) e" (is "dinv ?B ?G e")
  show "\<exists>cs'. dinv ?B (still (phy_num e) (phy_num e) cs') e'"
  proof (cases x)
    case (Ev_call c)
    then have "e' = run_call (run_cb d s) c e" using assms(2) by simp
    with scripts.keep_call [OF inv] show ?thesis by blast
  next
    case (Ev_register addr b k ops)
    then show ?thesis using assms(2) scripts.keep_register_module [OF inv] inv
      by (intro exI [of _ cs]) (auto simp: phl_disp_eng_register_module_def)
  next
    case (Ev_deregister b k)
    then show ?thesis using assms(2) scripts.keep_deregister_module [OF inv] inv
      by (intro exI [of _ cs]) (auto simp: phl_disp_eng_deregister_module_def)
  next
    case Ev_round
    then have "share_thread_round m (run_cb d s) e = Some e'" using assms(2) by simp
    from scripts.keep_round [OF inv refl _ this] show ?thesis by simp
  qed
qed

lemma settled_run: "settled e \<Longrightarrow> engine_run m d s e xs = Some e' \<Longrightarrow> settled e' \<and> phy_num e' = phy_num e"
  by (induction xs arbitrary: e) (auto split: option.splits dest: settled_step)

subsection \<open>From the initialisation to the start\<close>

lemma fresh_callback: "fresh e \<Longrightarrow> fresh (snd (run_cb d s cb e)) \<and> phy_num (snd (run_cb d s cb e)) = phy_num e"
proof -
  assume "fresh e"
  then have "dinv {} (still (phy_num e) 0 cs) e" for cs using fresh_dinv by blast
  from scripts.rc_keeps [OF this] have inv: "dinv {} (still (phy_num e) 0 cs) (snd (run_cb d s cb e))" for cs .
  from dinv_phy_num [OF inv] inv show ?thesis by (simp add: fresh_dinv [where cs = "\<lambda>_. None"])
qed

lemma start_bands:
  assumes "fresh e" "k \<le> phy_num e"
  shows "\<exists>cs. dinv {..<k} (still (phy_num e) k cs)
    (foldl (\<lambda>e b. snd (dispr_module_start (run_cb d s) b (snd (dispr_start (run_cb d s) b e)))) e [0..<k])"
  using assms(2)
proof (induction k)
  case 0
  with assms(1) show ?case using fresh_dinv by auto
next
  case (Suc k)
  then obtain cs where "dinv {..<k} (still (phy_num e) k cs)
    (foldl (\<lambda>e b. snd (dispr_module_start (run_cb d s) b (snd (dispr_start (run_cb d s) b e)))) e [0..<k])"
    (is "dinv _ _ ?e") by auto
  with dispr_start_pools [of k "phy_num e" cs ?e "run_cb d s"] Suc.prems obtain e' where
    "snd (dispr_start (run_cb d s) k ?e) = snd (start_dispr_controller (run_cb d s) k e')"
    "dinv {..<Suc k} (still (phy_num e) (Suc k) (cs(k := None))) e'" by auto
  moreover from scripts.keep_module_start [OF scripts.keep_start_controller [OF this(2)]]
  have "dinv {..<Suc k} (still (phy_num e) (Suc k) (cs(k := None))) (snd (dispr_module_start (run_cb d s) k
      (snd (start_dispr_controller (run_cb d s) k e'))))" .
  ultimately show ?case by (simp del: fun_upd_apply) blast
qed

lemma fresh_sema: "fresh (e\<lparr>e_sema := n\<rparr>) = fresh e"
  by (simp add: fresh_def excl_ok_def d_test_def)

lemma dinv_renew_any: "dinv B G e \<Longrightarrow> phy_num e \<noteq> 2 \<Longrightarrow> dinv B G (dispr_exclusive_ready b w e)"
  unfolding dispr_exclusive_ready_def d_set_def Let_def
  by (auto intro!: dinv_renew dinv_flag_upd simp: excl_ok_def DISPR_EXCLUSIVE_USE_def flag_simps)

theorem start_settled:
  assumes "fresh e" "phl_disp_eng_start (run_cb d s) e = (st, e')"
  shows "settled e' \<and> phy_num e' = phy_num e"
proof -
  let ?e = "bands (\<lambda>b e. snd (dispr_module_start (run_cb d s) b (snd (dispr_start (run_cb d s) b e)))) (e\<lparr>e_sema := 0\<rparr>)"
  have "fresh (e\<lparr>e_sema := 0\<rparr>)" using assms(1) by (simp add: fresh_sema)
  from start_bands [OF this le_refl] obtain cs where inv: "dinv {..<phy_num e} (still (phy_num e) (phy_num e) cs) ?e"
    unfolding bands_def by auto
  from inv have "dinv {..<phy_num e} (still (phy_num e) (phy_num e) cs) e'"
    using assms(2) dinv_phy_num [OF inv] dinv_renew_any [OF inv] by (auto simp: phl_disp_eng_start_def Let_def)
  with dinv_phy_num [OF this] show ?thesis by (auto simp: settled_def)
qed

end
