(* ===== verification/DispatcherStop.thy ===== *)
theory DispatcherStop
  imports DispatcherRun
begin

text \<open>
  The end of the dispatchers: once none of them is started, callbacks can no longer queue
  anything, so the shutdown loops end and leave every message and request idle.
\<close>

subsection \<open>Callbacks while nothing is started\<close>

definition unstarted :: "engine \<Rightarrow> bool" where
  "unstarted e \<longleftrightarrow> (\<forall>b < phy_num e. \<not> bit (d_status (dsp e b)) 1)"

lemma not_started: "unstarted e \<Longrightarrow> b < phy_num e \<Longrightarrow> \<not> d_test e b DISPR_STARTED"
  by (simp add: unstarted_def d_test_def DISPR_STARTED_def flag_simps)

lemma send_not_started: "\<not> d_test e b DISPR_STARTED \<Longrightarrow> snd (snd (dispr_send_msg rc b msg attr hdl e)) = e"
  by (simp add: dispr_send_msg_def split_beta)

text \<open>
  A callback cannot change what the invariant looks at: every call it makes is refused or only
  raises a flag.
\<close>

definition same_view :: "engine \<Rightarrow> engine \<Rightarrow> bool" where
  "same_view e0 e \<longleftrightarrow> phy_num e = phy_num e0 \<and> (\<forall>b < phy_num e0. view (dsp e b) = view (dsp e0 b))"

lemma same_view_refl [simp]: "same_view e e"
  by (simp add: same_view_def)

lemma same_view_unstarted: "same_view e0 e \<Longrightarrow> unstarted e0 \<Longrightarrow> unstarted e"
  unfolding same_view_def unstarted_def view_def by auto

lemma view_upd: "(\<And>d. view (f d) = view d) \<Longrightarrow> same_view e0 e \<Longrightarrow> same_view e0 (upd b f e)"
  by (simp add: same_view_def dsp_upd)

lemma view_flag: "free_flag f \<Longrightarrow> same_view e0 e \<Longrightarrow> same_view e0 (d_set f b e) \<and> same_view e0 (d_clear f b e)"
  unfolding d_set_def d_clear_def
  by (auto intro!: view_upd simp: view_def flag_bits_def free_flag_def SET_STATUS_FLAG_def CLEAR_STATUS_FLAG_def bit_simps)

lemma view_notify: "same_view e0 e \<Longrightarrow> same_view e0 (notify_dispr_thread e)"
  by (simp add: same_view_def notify_dispr_thread_def)

lemma view_log: "same_view e0 e \<Longrightarrow> same_view e0 (log_cb cb e)"
  by (simp add: same_view_def log_cb_def)

lemma view_clr_pending: "same_view e0 e \<Longrightarrow> same_view e0 (snd (dispr_clr_pending_msg b e))"
  unfolding dispr_clr_pending_msg_def by (simp add: view_notify view_flag)

lemma view_bands:
  assumes "same_view e0 e" "\<And>b e. same_view e0 e \<Longrightarrow> b < phy_num e0 \<Longrightarrow> same_view e0 (f b e)"
  shows "same_view e0 (bands f e)"
proof -
  have "same_view e0 e' \<Longrightarrow> (\<And>b. b \<in> set bs \<Longrightarrow> b < phy_num e0) \<Longrightarrow> same_view e0 (foldl (\<lambda>e b. f b e) e' bs)" for e' bs
    by (induction bs arbitrary: e') (simp_all add: assms(2))
  from this [of e "[0..<phy_num e]"] assms(1) show ?thesis by (simp add: bands_def same_view_def)
qed

lemma view_dev_io:
  assumes "unstarted e0" "same_view e0 e" "b < phy_num e0"
  shows "same_view e0 (snd (dispr_notify_dev_io_status rc b k allow e))"
proof -
  let ?set = "upd b (\<lambda>d. d\<lparr>exclusive_mdl := k\<rparr>) (d_set DISPR_CANNOT_IO b e)"
  let ?clr = "upd b (\<lambda>d. d\<lparr>exclusive_mdl := PHL_MDL_ID_MAX\<rparr>) (d_clear DISPR_CANNOT_IO b e)"
  have s: "same_view e0 ?set" "same_view e0 ?clr"
    by (rule view_upd; simp add: view_def flag_bits_def view_flag assms(2))+
  have "\<not> d_test ?set b DISPR_STARTED" "\<not> d_test ?clr b DISPR_STARTED"
    using s [THEN same_view_unstarted, OF assms(1), THEN not_started, of b] assms(2,3)
    by (simp_all add: same_view_def)
  then show ?thesis using s assms(2)
    unfolding dispr_notify_dev_io_status_def send_dev_io_status_change_def Let_def split_beta
    by (simp add: send_not_started view_clr_pending)
qed

lemma view_call:
  assumes "unstarted e0" "same_view e0 e"
  shows "same_view e0 (run_call rc c e)"
proof -
  have no: "b < phy_num e \<Longrightarrow> \<not> d_test e b DISPR_STARTED" for b
    using not_started [OF same_view_unstarted [OF assms(2,1)]] .
  show ?thesis
  proof (cases c)
    case (Api_io_status k allow)
    then show ?thesis
      by (auto simp: phl_disp_eng_notify_dev_io_status_def intro!: view_bands view_dev_io assms)
  next
    case Api_shall_stop
    have "same_view e0 (bands (\<lambda>b e. if is_dispr_started e b then dispr_notify_shall_stop b e else e) e)"
    proof (rule view_bands [OF assms(2)])
      fix b e assume "same_view e0 e" "b < phy_num e0"
      with not_started [OF same_view_unstarted [OF _ assms(1)], of e b]
      show "same_view e0 (if is_dispr_started e b then dispr_notify_shall_stop b e else e)"
        by (simp add: is_dispr_started_def same_view_def)
    qed
    with Api_shall_stop show ?thesis by (simp add: phl_disp_eng_notify_shall_stop_def)
  qed (use no assms(2) in \<open>auto simp: phl_disp_eng_send_msg_def send_not_started phl_disp_eng_cancel_msg_def
      dispr_cancel_msg_def phl_disp_eng_clr_pending_msg_def phl_disp_eng_add_token_req_def
      dispr_add_token_req_def phl_disp_eng_cancel_token_req_def dispr_cancel_token_req_def
      phl_disp_eng_free_token_def dispr_free_token_def intro!: view_clr_pending split: option.split\<close>)
qed

lemma view_run_cb:
  assumes "unstarted e" shows "same_view e (snd (run_cb d s cb e))"
proof (cases d)
  case (Suc d')
  have "same_view e (foldl (\<lambda>e c. run_call (run_cb d' s) c e) (log_cb cb e) cs)" for cs
    by (induction cs rule: rev_induct) (auto intro: view_call [OF assms] view_log)
  with Suc show ?thesis by simp
qed (simp add: view_log)

subsection \<open>What the shutdown waits for\<close>

text \<open>What the shutdown loops wait for, and whether the dispatcher is started.\<close>

definition work :: "dispatcher \<Rightarrow> nat list \<times> nat list \<times> nat list \<times> bool" where
  "work d = (pq_queue (msg_wait_q d), pq_queue (msg_pend_q d), pq_queue (req_wait_q d), bit (d_status d) 1)"

definition same_work :: "engine \<Rightarrow> engine \<Rightarrow> bool" where
  "same_work e0 e \<longleftrightarrow> phy_num e = phy_num e0 \<and> (\<forall>b < phy_num e0. work (dsp e b) = work (dsp e0 b))"

named_theorems work_intro "operations that add and remove no work"

lemma same_work_refl [simp]: "same_work e e"
  by (simp add: same_work_def)

lemma same_work_trans: "same_work e0 e1 \<Longrightarrow> same_work e1 e2 \<Longrightarrow> same_work e0 e2"
  by (simp add: same_work_def)

lemma same_work_unstarted: "same_work e0 e \<Longrightarrow> unstarted e0 \<Longrightarrow> unstarted e"
  by (simp add: same_work_def unstarted_def work_def)

lemma same_work_phy: "same_work e0 e \<Longrightarrow> phy_num e = phy_num e0"
  by (simp add: same_work_def)

lemma work_upd: "(\<And>d. work (f d) = work d) \<Longrightarrow> same_work e0 e \<Longrightarrow> same_work e0 (upd b f e)"
  by (simp add: same_work_def dsp_upd)

lemma work_if [work_intro]: "same_work e0 x \<Longrightarrow> same_work e0 y \<Longrightarrow> same_work e0 (if c then x else y)"
  by simp

lemma work_notify [work_intro]: "same_work e0 e \<Longrightarrow> same_work e0 (notify_dispr_thread e)"
  by (simp add: same_work_def notify_dispr_thread_def)

lemma work_log [work_intro]: "same_work e0 e \<Longrightarrow> same_work e0 (log_cb cb e)"
  by (simp add: same_work_def log_cb_def)

lemma work_upd_msg [work_intro]: "same_work e0 e \<Longrightarrow> same_work e0 (upd_msg b i f e)"
  unfolding upd_msg_def by (rule work_upd) (simp_all add: work_def)

lemma work_msg_flags [work_intro]:
  "same_work e0 e \<Longrightarrow> same_work e0 (m_set f b i e)" "same_work e0 e \<Longrightarrow> same_work e0 (m_clear f b i e)"
  "same_work e0 e \<Longrightarrow> same_work e0 (upd_mid b i g e)"
  unfolding m_set_def m_clear_def upd_mid_def by (intro work_intro; assumption)+

lemma work_upd_req [work_intro]: "same_work e0 e \<Longrightarrow> same_work e0 (upd_req b r f e)"
  unfolding upd_req_def by (rule work_upd) (simp_all add: work_def)

lemma work_req_flags [work_intro]:
  "same_work e0 e \<Longrightarrow> same_work e0 (r_set f b r e)" "same_work e0 e \<Longrightarrow> same_work e0 (r_clear f b r e)"
  unfolding r_set_def r_clear_def by (intro work_intro; assumption)+

lemma work_pending_evt [work_intro]: "same_work e0 e \<Longrightarrow> same_work e0 (SET_CUR_PENDING_EVT b k v e)"
  unfolding SET_CUR_PENDING_EVT_def by (rule work_upd) (simp_all add: work_def)

lemma work_flags [work_intro]:
  "\<not> bit f 1 \<Longrightarrow> same_work e0 e \<Longrightarrow> same_work e0 (d_set f b e)"
  "\<not> bit f 1 \<Longrightarrow> same_work e0 e \<Longrightarrow> same_work e0 (d_clear f b e)"
  unfolding d_set_def d_clear_def
  by (rule work_upd; simp add: work_def SET_STATUS_FLAG_def CLEAR_STATUS_FLAG_def bit_simps)+

lemma flag_not_started [simp]:
  "\<not> bit DISPR_CLR_PEND_MSG (Suc 0)" "\<not> bit DISPR_CANNOT_IO (Suc 0)" "\<not> bit DISPR_CLEARANCE (Suc 0)"
  "\<not> bit DISPR_EXCLUSIVE_USE (Suc 0)" "\<not> bit DISPR_WAIT_ABORT_MSG_DONE (Suc 0)" "\<not> bit DISPR_SHALL_STOP (Suc 0)"
  by (simp_all add: DISPR_CLR_PEND_MSG_def DISPR_CANNOT_IO_def DISPR_CLEARANCE_def DISPR_EXCLUSIVE_USE_def
      DISPR_WAIT_ABORT_MSG_DONE_def DISPR_SHALL_STOP_def)

lemma work_idle [work_intro]:
  "same_work e0 e \<Longrightarrow> same_work e0 (upd b (\<lambda>d. d\<lparr>msg_idle_q := q d\<rparr>) e)"
  "same_work e0 e \<Longrightarrow> same_work e0 (upd b (\<lambda>d. d\<lparr>req_idle_q := q d\<rparr>) e)"
  "same_work e0 e \<Longrightarrow> same_work e0 (upd b (\<lambda>d. d\<lparr>token_op_q := q' d\<rparr>) e)"
  "same_work e0 e \<Longrightarrow> same_work e0 (upd b (\<lambda>d. d\<lparr>exclusive_mdl := k\<rparr>) e)"
  "same_work e0 e \<Longrightarrow> same_work e0 (upd b (\<lambda>d. d\<lparr>token_cnt := t d\<rparr>) e)"
  "same_work e0 e \<Longrightarrow> same_work e0 (upd b (\<lambda>d. d\<lparr>cur_cmd_req := c\<rparr>) e)"
  by (rule work_upd; simp add: work_def)+

lemma work_op_info: "work (set_op_info r info d) = work d"
  by (simp add: set_op_info_def work_def split: op_ref.split)

lemma work_renew [work_intro]: "same_work e0 e \<Longrightarrow> same_work e0 (renew b e)"
  unfolding renew_def dispr_enqueue_token_op_info_def push_back_token_op_info_def Let_def
  by (auto intro!: work_intro work_upd [of "set_op_info r info" for r info] simp: work_op_info)

lemma work_other_band [work_intro]:
  "same_work e0 e \<Longrightarrow> same_work e0 (snd (phl_disp_eng_clearance_acquire b e))"
  "same_work e0 e \<Longrightarrow> same_work e0 (snd (phl_disp_eng_clearance_release b e))"
  "same_work e0 e \<Longrightarrow> same_work e0 (snd (phl_disp_eng_exclusive_ready b e))"
  by (auto simp: phl_disp_eng_clearance_acquire_def phl_disp_eng_clearance_release_def
      phl_disp_eng_exclusive_ready_def by_idx dispr_clearance_acquire_def dispr_clearance_release_def
      dispr_exclusive_ready_def Let_def intro!: work_intro)

lemma work_token_complete [work_intro]: "same_work e0 e \<Longrightarrow> same_work e0 (cmd_token_complete b e)"
  unfolding cmd_token_complete_def Let_def by (intro work_intro) simp_all

lemma work_abort_complete [work_intro]: "same_work e0 e \<Longrightarrow> same_work e0 (on_abort_msg_complete b e)"
  unfolding on_abort_msg_complete_def by (intro work_intro) simp_all

lemma work_clr_pending [work_intro]: "same_work e0 e \<Longrightarrow> same_work e0 (snd (dispr_clr_pending_msg b e))"
  unfolding dispr_clr_pending_msg_def by (auto intro!: work_intro)

lemma work_push_idle_req [work_intro]: "same_work e0 e \<Longrightarrow> same_work e0 (push_back_idle_req b r e)"
  unfolding push_back_idle_req_def Let_def by (intro work_intro)

lemma view_work: "same_view e0 e \<Longrightarrow> same_work e0 e"
  unfolding same_view_def same_work_def view_def work_def by simp

locale quiet_runner = keeping_runner +
  assumes rc_quiet: "unstarted e \<Longrightarrow> same_work e (snd (rc cb e))"
begin

lemma quiet: "unstarted e0 \<Longrightarrow> same_work e0 e \<Longrightarrow> same_work e0 (snd (rc cb e))"
  using rc_quiet same_work_unstarted same_work_trans by blast

lemma quiet_completion: "unstarted e0 \<Longrightarrow> same_work e0 e \<Longrightarrow> same_work e0 (notify_completion rc b i e)"
  unfolding notify_completion_def Let_def by (auto split: option.split intro!: work_intro quiet)

lemma quiet_push_idle: "unstarted e0 \<Longrightarrow> same_work e0 e \<Longrightarrow> same_work e0 (push_back_idle_msg rc b i e)"
  unfolding push_back_idle_msg_def Let_def by (intro work_intro quiet_completion)

end

interpretation quiet_scripts: quiet_runner B "run_cb n s" for B n s
  by unfold_locales (rule view_work, rule view_run_cb)

subsection \<open>The shutdown loops end\<close>

lemma same_work_at: "same_work e0 e \<Longrightarrow> b < phy_num e0 \<Longrightarrow> work (dsp e b) = work (dsp e0 b)"
  by (simp add: same_work_def)

definition frame_work :: "nat \<Rightarrow> engine \<Rightarrow> engine \<Rightarrow> bool" where
  "frame_work b e0 e \<longleftrightarrow> phy_num e = phy_num e0 \<and>
     (\<forall>b' < phy_num e0. b' \<noteq> b \<longrightarrow> work (dsp e b') = work (dsp e0 b'))"

lemma frame_work_refl [simp]: "frame_work b e e"
  by (simp add: frame_work_def)

lemma frame_work_trans: "frame_work b e0 e1 \<Longrightarrow> frame_work b e1 e2 \<Longrightarrow> frame_work b e0 e2"
  by (simp add: frame_work_def)

lemma same_frame: "same_work e0 e \<Longrightarrow> frame_work b e0 e"
  by (simp add: same_work_def frame_work_def)

lemma frame_upd: "frame_work b e (upd b f e)"
  by (simp add: frame_work_def dsp_upd)

lemma dinv_off: "dinv B G e \<Longrightarrow> g_on G = {} \<Longrightarrow> unstarted e"
  by (simp add: dinv_def unstarted_def)

lemma pop_wait_work:
  assumes "pq_wf (msg_wait_q (dsp e b))" "b < phy_num e"
  shows "pop_front_wait_msg b e = (None, e) \<and> pq_queue (msg_wait_q (dsp e b)) = [] \<or>
    (\<exists>i q e1. pop_front_wait_msg b e = (Some i, e1) \<and> pq_queue (msg_wait_q (dsp e b)) = i # pq_queue q \<and>
       same_work (upd b (\<lambda>d. d\<lparr>msg_wait_q := q\<rparr>) e) e1)"
proof (cases "pq_pop (msg_wait_q (dsp e b)) First")
  case (Pair x q)
  with assms show ?thesis
    by (cases x) (auto simp: pop_front_wait_msg_def dest: pq_pop_None pq_pop_Some intro!: work_intro)
qed

context quiet_runner
begin

lemma drain_total:
  "dinv B G e \<Longrightarrow> b \<in> B \<Longrightarrow> g_on G = {} \<Longrightarrow> length (pq_queue (msg_wait_q (dsp e b))) < n \<Longrightarrow>
     \<exists>e'. drain_wait n rc b e = Some e' \<and> same_work (upd b (\<lambda>d. d\<lparr>msg_wait_q := pq_init\<rparr>) e) e'"
proof (induction n arbitrary: e)
  case (Suc n)
  note inv = Suc.prems(1) and b = Suc.prems(2) and off = Suc.prems(3)
  have lt: "b < phy_num e" and wf: "pq_wf (msg_wait_q (dsp e b))"
    using dinv_band [OF inv b] by (auto simp: disp_inv_def queues_wf_def)
  from pop_wait_work [OF wf lt] show ?case
  proof (elim disjE exE conjE)
    assume "pop_front_wait_msg b e = (None, e)" "pq_queue (msg_wait_q (dsp e b)) = []"
    then show ?thesis by (simp add: same_work_def dsp_upd work_def)
  next
    fix i q e1
    assume pop: "pop_front_wait_msg b e = (Some i, e1)" and q: "pq_queue (msg_wait_q (dsp e b)) = i # pq_queue q"
      and s: "same_work (upd b (\<lambda>d. d\<lparr>msg_wait_q := q\<rparr>) e) e1"
    let ?e2 = "push_back_idle_msg rc b i e1"
    have inv2: "dinv B G ?e2"
      by (intro keep_push_idle dinv_pop_wait [OF dinv_owe(1) [OF inv]] b) (rule pop)
    have "unstarted (upd b (\<lambda>d. d\<lparr>msg_wait_q := q\<rparr>) e)"
      using dinv_off [OF inv off] by (simp add: unstarted_def dsp_upd)
    from quiet_push_idle [OF this s] have s2: "same_work (upd b (\<lambda>d. d\<lparr>msg_wait_q := q\<rparr>) e) ?e2" .
    from same_work_at [OF this, of b] lt have w2: "pq_queue (msg_wait_q (dsp ?e2 b)) = pq_queue q"
      by (simp add: work_def dsp_upd)
    with q Suc.prems(4) have "length (pq_queue (msg_wait_q (dsp ?e2 b))) < n" by simp
    from Suc.IH [OF inv2 b off this] obtain e' where
      e': "drain_wait n rc b ?e2 = Some e'" "same_work (upd b (\<lambda>d. d\<lparr>msg_wait_q := pq_init\<rparr>) ?e2) e'" by auto
    have "same_work (upd b (\<lambda>d. d\<lparr>msg_wait_q := pq_init\<rparr>) e) (upd b (\<lambda>d. d\<lparr>msg_wait_q := pq_init\<rparr>) ?e2)"
      using s2 by (auto simp: same_work_def dsp_upd work_def split: if_splits)
    with e' pop show ?thesis using same_work_trans by auto
  qed
qed simp

lemma drain_req_total:
  "dinv B G e \<Longrightarrow> b \<in> B \<Longrightarrow> g_on G = {} \<Longrightarrow> length (pq_queue (req_wait_q (dsp e b))) < n \<Longrightarrow>
     \<exists>e'. drain_wait_req n rc b e = Some e' \<and> same_work (upd b (\<lambda>d. d\<lparr>req_wait_q := pq_init\<rparr>) e) e'"
proof (induction n arbitrary: e)
  case (Suc n)
  note inv = Suc.prems(1) and b = Suc.prems(2) and off = Suc.prems(3)
  have lt: "b < phy_num e" and wf: "pq_wf (req_wait_q (dsp e b))"
    using dinv_band [OF inv b] by (auto simp: disp_inv_def queues_wf_def)
  obtain x q where pop: "pq_pop (req_wait_q (dsp e b)) First = (x, q)" by fastforce
  show ?case
  proof (cases x)
    case None
    with pq_pop_None [OF wf, of q] pop have "pop_front_wait_req b e = (None, e)" "pq_queue (req_wait_q (dsp e b)) = []"
      by (auto simp: pop_front_wait_req_def)
    then show ?thesis by (simp add: same_work_def dsp_upd work_def)
  next
    case (Some r)
    let ?e0 = "upd b (\<lambda>d. d\<lparr>req_wait_q := q\<rparr>) e"
    let ?e1 = "r_clear REQ_STATUS_ENQ b r (r_set REQ_STATUS_PREPARE b r ?e0)"
    have p: "pop_front_wait_req b e = (Some r, ?e1)" using pop Some by (simp add: pop_front_wait_req_def)
    let ?e2 = "push_back_idle_req b r (snd (rc (Cb_abort b r) ?e1))"
    have inv2: "dinv B G ?e2"
      by (intro dinv_push_idle_req rc_keeps dinv_pop_wait_req [OF inv]) (rule p)
    have "unstarted ?e0" using dinv_off [OF inv off] by (simp add: unstarted_def dsp_upd)
    then have s2: "same_work ?e0 ?e2" by (intro work_intro quiet) simp_all
    from same_work_at [OF this, of b] lt have "pq_queue (req_wait_q (dsp ?e2 b)) = pq_queue q"
      by (simp add: work_def dsp_upd)
    with pq_pop_Some [OF wf, of r q] pop Some Suc.prems(4)
    have "length (pq_queue (req_wait_q (dsp ?e2 b))) < n" by simp
    from Suc.IH [OF inv2 b off this] obtain e' where
      e': "drain_wait_req n rc b ?e2 = Some e'" "same_work (upd b (\<lambda>d. d\<lparr>req_wait_q := pq_init\<rparr>) ?e2) e'" by auto
    have "same_work (upd b (\<lambda>d. d\<lparr>req_wait_q := pq_init\<rparr>) e) (upd b (\<lambda>d. d\<lparr>req_wait_q := pq_init\<rparr>) ?e2)"
      using s2 by (auto simp: same_work_def dsp_upd work_def split: if_splits)
    with e' p show ?thesis using same_work_trans by auto
  qed
qed simp

end

lemma push_wait_frame: "frame_work b e (push_back_wait_msg b i e) \<and>
    pq_queue (msg_pend_q (dsp (push_back_wait_msg b i e) b)) = pq_queue (msg_pend_q (dsp e b))"
  unfolding push_back_wait_msg_def Let_def m_set_def m_clear_def upd_msg_def
  by (simp add: frame_work_def work_def notify_dispr_thread_def dsp_upd)

lemma empty_pending_frame:
  assumes "b < phy_num e" "pq_wf (msg_pend_q (dsp e b))" "length (pq_queue (msg_pend_q (dsp e b))) \<le> n"
  shows "frame_work b e (empty_pending (push_back_wait_msg b) b n e) \<and>
    pq_queue (msg_pend_q (dsp (empty_pending (push_back_wait_msg b) b n e) b)) = []"
  using assms
proof (induction n arbitrary: e)
  case (Suc n)
  obtain x q where pop: "pq_pop (msg_pend_q (dsp e b)) First = (x, q)" by fastforce
  show ?case
  proof (cases x)
    case None
    with pq_pop_None [OF Suc.prems(2), of q] pop show ?thesis by (simp add: pop_front_pending_msg_def)
  next
    case (Some i)
    let ?e0 = "upd b (\<lambda>d. d\<lparr>msg_pend_q := q\<rparr>) e" and ?e1 = "push_back_wait_msg b i (upd b (\<lambda>d. d\<lparr>msg_pend_q := q\<rparr>) e)"
    note q = pq_pop_Some [OF Suc.prems(2) pop [unfolded Some]]
    have f: "frame_work b e ?e1"
      using frame_work_trans [OF frame_upd conjunct1 [OF push_wait_frame]] .
    have "msg_pend_q (dsp ?e1 b) = q"
      using Suc.prems(1)
      by (simp add: push_back_wait_msg_def m_set_def m_clear_def upd_msg_def notify_dispr_thread_def dsp_upd)
    with f q Suc.prems have "frame_work b ?e1 (empty_pending (push_back_wait_msg b) b n ?e1) \<and>
      pq_queue (msg_pend_q (dsp (empty_pending (push_back_wait_msg b) b n ?e1) b)) = []"
      by (intro Suc.IH) (auto simp: frame_work_def)
    with f pop Some show ?thesis by (auto simp: pop_front_pending_msg_def intro: frame_work_trans)
  qed
qed simp

text \<open>With every message idle the two other queues are empty, and the other way round.\<close>

lemma all_idle:
  assumes "disp_inv {#} {#} {#} c d"
  shows "pq_cnt (msg_idle_q d) = int MAX_PHL_MSG_NUM \<longleftrightarrow>
      pq_queue (msg_wait_q d) = [] \<and> pq_queue (msg_pend_q d) = []"
    and "c = None \<Longrightarrow> pq_cnt (req_idle_q d) = int MAX_CMD_REQ_NUM \<longleftrightarrow> pq_queue (req_wait_q d) = []"
proof -
  have wf: "pq_wf (msg_idle_q d)" "pq_wf (req_idle_q d)"
    using disp_invD(1) [OF assms] by (simp_all add: queues_wf_def)
  have "size (msgs_of d) = MAX_PHL_MSG_NUM" "size (reqs_of d + cur_mset c) = MAX_CMD_REQ_NUM"
    using disp_invD(4,5) [OF assms] by simp_all
  then show "pq_cnt (msg_idle_q d) = int MAX_PHL_MSG_NUM \<longleftrightarrow>
      pq_queue (msg_wait_q d) = [] \<and> pq_queue (msg_pend_q d) = []"
    "c = None \<Longrightarrow> pq_cnt (req_idle_q d) = int MAX_CMD_REQ_NUM \<longleftrightarrow> pq_queue (req_wait_q d) = []"
    using wf by (auto simp: msgs_of_def reqs_of_def pq_wf_def cur_mset_def)
qed

lemma few_waiting:
  assumes "disp_inv {#} {#} {#} c d"
  shows "length (pq_queue (msg_wait_q d)) \<le> MAX_PHL_MSG_NUM" "length (pq_queue (req_wait_q d)) \<le> MAX_CMD_REQ_NUM"
proof -
  have "size (msgs_of d) = MAX_PHL_MSG_NUM" "size (reqs_of d + cur_mset c) = MAX_CMD_REQ_NUM"
    using disp_invD(4,5) [OF assms] by simp_all
  then show "length (pq_queue (msg_wait_q d)) \<le> MAX_PHL_MSG_NUM" "length (pq_queue (req_wait_q d)) \<le> MAX_CMD_REQ_NUM"
    by (simp_all add: msgs_of_def reqs_of_def)
qed

context quiet_runner
begin

lemma clear_waiting_total:
  assumes inv: "dinv B G e" and b: "b \<in> B" and off: "g_on G = {}" and del: "g_msg G b = {#}" "g_req G b = {#}" "g_del G b = {#}"
    and n: "MAX_PHL_MSG_NUM + 2 \<le> n"
  shows "\<exists>e'. clear_waiting_msg n rc b e = Some e' \<and> frame_work b e e' \<and> dinv B G e' \<and>
    pq_queue (msg_wait_q (dsp e' b)) = [] \<and> pq_queue (msg_pend_q (dsp e' b)) = []"
proof -
  have d: "dinv B G e' \<Longrightarrow> disp_inv {#} {#} {#} (g_cur G b) (dsp e' b)" for e'
    using dinv_band [of B G e' b] b del by simp
  obtain m where m: "n = Suc m" using n by (cases n) auto
  show ?thesis
  proof (cases "pq_cnt (msg_idle_q (dsp e b)) = int MAX_PHL_MSG_NUM")
    case True
    with all_idle(1) [OF d [OF inv]] show ?thesis using inv by (auto simp: m)
  next
    case False
    define e1 where "e1 = empty_pending (push_back_wait_msg b) b (pend_len e b) e"
    have inv1: "dinv B G e1" unfolding e1_def
      by (rule dinv_empty_pending [OF _ inv]) (rule dinv_push_back_wait)
    have lt: "b < phy_num e" and wf: "pq_wf (msg_pend_q (dsp e b))"
      using dinv_band [OF inv b] by (auto simp: disp_inv_def queues_wf_def)
    from empty_pending_frame [OF lt wf, of "pend_len e b"]
    have f1: "frame_work b e e1" "pq_queue (msg_pend_q (dsp e1 b)) = []" by (simp_all add: e1_def pend_len_def)
    from few_waiting(1) [OF d [OF inv1]] n m have "length (pq_queue (msg_wait_q (dsp e1 b))) < m" by simp
    from drain_total [OF inv1 b off this] obtain e2 where
      e2: "drain_wait m rc b e1 = Some e2" "same_work (upd b (\<lambda>d. d\<lparr>msg_wait_q := pq_init\<rparr>) e1) e2" by auto
    have inv2: "dinv B G e2" by (rule keep_drain [OF inv1 b e2(1)])
    have lt1: "b < phy_num e1" using dinv_band [OF inv1 b] by simp
    from same_work_at [OF e2(2), of b] lt1 f1(2)
    have w2: "pq_queue (msg_wait_q (dsp e2 b)) = [] \<and> pq_queue (msg_pend_q (dsp e2 b)) = []"
      by (simp add: work_def dsp_upd)
    from f1(1) frame_upd same_frame [OF e2(2)] have f: "frame_work b e e2" by (blast intro: frame_work_trans)
    obtain k where k: "m = Suc k" using n m by (cases m) auto
    have "clear_waiting_msg m rc b e2 = Some e2"
      using w2 all_idle(1) [OF d [OF inv2]] by (simp add: k)
    with False e2(1) f inv2 w2 show ?thesis by (simp add: m e1_def)
  qed
qed

lemma clear_reqs_total:
  assumes inv: "dinv B G e" and b: "b \<in> B" and off: "g_on G = {}" and cur: "g_cur G b = None"
    and del: "g_msg G b = {#}" "g_req G b = {#}" "g_del G b = {#}" and n: "MAX_CMD_REQ_NUM + 2 \<le> n"
  shows "\<exists>e'. clear_wating_req n rc b e = Some e' \<and> dinv B G e' \<and>
    same_work (upd b (\<lambda>d. d\<lparr>req_wait_q := pq_init\<rparr>) e) e'"
proof -
  have d: "dinv B G e' \<Longrightarrow> disp_inv {#} {#} {#} None (dsp e' b)" for e'
    using dinv_band [of B G e' b] b del cur by simp
  obtain m where m: "n = Suc m" using n by (cases n) auto
  show ?thesis
  proof (cases "pq_cnt (req_idle_q (dsp e b)) = int MAX_CMD_REQ_NUM")
    case True
    with all_idle(2) [OF d [OF inv]] show ?thesis using inv by (simp add: m same_work_def dsp_upd work_def)
  next
    case False
    from few_waiting(2) [OF d [OF inv]] n m have "length (pq_queue (req_wait_q (dsp e b))) < m" by simp
    from drain_req_total [OF inv b off this] obtain e2 where
      e2: "drain_wait_req m rc b e = Some e2" "same_work (upd b (\<lambda>d. d\<lparr>req_wait_q := pq_init\<rparr>) e) e2" by auto
    have inv2: "dinv B G e2" by (rule keep_drain_req [OF inv b e2(1)])
    have lt: "b < phy_num e" using dinv_band [OF inv b] by simp
    from same_work_at [OF e2(2), of b] lt have "pq_queue (req_wait_q (dsp e2 b)) = []"
      by (simp add: work_def dsp_upd)
    obtain k where k: "m = Suc k" using n m by (cases m) auto
    have "clear_wating_req m rc b e2 = Some e2"
      using \<open>pq_queue (req_wait_q (dsp e2 b)) = []\<close> all_idle(2) [OF d [OF inv2]] by (simp add: k)
    with False e2 inv2 show ?thesis by (simp add: m)
  qed
qed

end

subsection \<open>Leaving the thread\<close>

definition drained :: "engine \<Rightarrow> nat \<Rightarrow> bool" where
  "drained e b \<longleftrightarrow> pq_queue (msg_wait_q (dsp e b)) = [] \<and> pq_queue (msg_pend_q (dsp e b)) = [] \<and>
     pq_queue (req_wait_q (dsp e b)) = []"

lemma frame_same: "frame_work b e0 e \<Longrightarrow> same_work e e' \<Longrightarrow> frame_work b e0 e'"
  using frame_work_trans same_frame by blast

lemma insert_wait_frame: "frame_work b e (insert_msg_by_priority b i e)"
  unfolding insert_msg_by_priority_def Let_def m_set_def m_clear_def upd_msg_def
  by (simp add: frame_work_def work_def notify_dispr_thread_def dsp_upd)

lemma requeue_frame: "frame_work b e (requeue_msg b i e)"
  by (simp add: requeue_msg_def insert_wait_frame push_wait_frame)

lemma requeue_pending_frame: "frame_work b e (empty_pending (requeue_msg b) b n e)"
proof (induction n arbitrary: e)
  case (Suc n)
  have "frame_work b e (empty_pending (requeue_msg b) b n (requeue_msg b i (upd b f e)))" for i f
    by (rule frame_work_trans [OF frame_work_trans [OF frame_upd requeue_frame] Suc.IH])
  then show ?case by (simp add: pop_front_pending_msg_def split: option.split prod.split)
qed simp

lemma clear_pending_frame: "frame_work b e (clear_pending_msg b e)"
proof -
  have "frame_work b e (d_clear DISPR_CLR_PEND_MSG b e)" by (rule same_frame, rule work_flags) simp_all
  with requeue_pending_frame show ?thesis
    by (auto simp: clear_pending_msg_def Let_def intro: frame_work_trans)
qed

lemma cancel_sender_frame: "frame_work b e (cancel_sender_msg b k e i)"
proof -
  have 1: "same_work e (cancel_msg b i (m_clear MSG_STATUS_OWNER_REQ b i e))" (is "same_work e ?e")
    unfolding cancel_msg_def by (intro work_intro) simp
  then have "same_work e (snd (dispr_clr_pending_msg b ?e))" by (rule work_clr_pending)
  with 1 clear_pending_frame show ?thesis
    by (auto simp: cancel_sender_msg_def Let_def intro: same_frame frame_work_trans)
qed

lemma cancel_senders_frame: "frame_work b e (foldl (cancel_sender_msg b k) e is)"
  by (induction "is" rule: rev_induct) (auto intro: frame_work_trans cancel_sender_frame)

context quiet_runner
begin

lemma deregister_frame:
  assumes inv: "dinv B G e" and off: "g_on G = {}"
  shows "frame_work b e (deregister_cur_cmd_req rc b notify e)"
proof -
  define tail where "tail e = (let e = upd b (\<lambda>d. d\<lparr>cur_cmd_req := None\<rparr>) e
      in if \<not> d_test e b DISPR_WAIT_ABORT_MSG_DONE then cmd_token_complete b e else e)" for e
  have tail: "same_work x (tail x)" for x
    unfolding tail_def Let_def by (intro work_intro) simp_all
  show ?thesis
  proof (cases "cur_cmd_req (dsp e b)")
    case None
    then have "deregister_cur_cmd_req rc b notify e = tail e"
      by (simp add: deregister_cur_cmd_req_def tail_def Let_def)
    with same_frame [OF tail] show ?thesis by simp
  next
    case (Some r)
    define k where "k = req_module_id (rx_req (req_at e b r))"
    define e1 where "e1 = foldl (cancel_sender_msg b k) (r_clear REQ_STATUS_RUN b r e) [0..<MAX_PHL_MSG_NUM]"
    define e2 where "e2 = (if notify then r_clear REQ_STATUS_LAST_PERMIT b r
        (snd (rc (Cb_abort b r) (r_set REQ_STATUS_LAST_PERMIT b r e1))) else e1)"
    have "dinv B G e1" unfolding e1_def by (intro keep_cancel_senders dinv_intro inv)
    then have "unstarted e1" by (rule dinv_off [OF _ off])
    then have 2: "same_work e1 e2" unfolding e2_def by (intro work_intro quiet) simp_all
    have "frame_work b e (r_clear REQ_STATUS_RUN b r e)" by (rule same_frame) (intro work_intro, simp)
    then have 1: "frame_work b e e1" unfolding e1_def using cancel_senders_frame by (rule frame_work_trans)
    have 3: "same_work e2 (tail (upd b (\<lambda>d. d\<lparr>token_cnt := token_cnt d - 1\<rparr>) (push_back_idle_req b r e2)))"
      (is "same_work e2 (tail ?e3)")
      by (rule same_work_trans [OF _ tail]) (intro work_intro, simp)
    have "deregister_cur_cmd_req rc b notify e = tail ?e3"
      unfolding deregister_cur_cmd_req_def Some e1_def e2_def k_def tail_def Let_def by simp
    with frame_same [OF frame_same [OF 1 2] 3] show ?thesis by simp
  qed
qed

lemma leave_total:
  assumes inv: "dinv B G e" and b: "b \<in> B" and off: "g_on G = {}"
    and free: "g_msg G b = {#}" "g_req G b = {#}" "g_del G b = {#}" and n: "MAX_PHL_MSG_NUM + 2 \<le> n"
  shows "\<exists>e'. dispr_thread_leave_hdl n rc b e = Some e' \<and> dinv B (set_cur b None G) e' \<and> frame_work b e e' \<and>
    drained e' b"
proof -
  let ?G = "set_cur b None G" and ?e1 = "deregister_cur_cmd_req rc b True e"
  have G: "g_on ?G = {}" "g_msg ?G b = {#}" "g_req ?G b = {#}" "g_del ?G b = {#}" "g_cur ?G b = None"
    using off free by (simp_all add: ghost_defs)
  from clear_waiting_total [OF keep_deregister [OF inv b] b G(1-4) n] obtain e2 where
    e2: "clear_waiting_msg n rc b ?e1 = Some e2" "frame_work b ?e1 e2" "dinv B ?G e2"
      "pq_queue (msg_wait_q (dsp e2 b)) = []" "pq_queue (msg_pend_q (dsp e2 b)) = []" by auto
  have "MAX_CMD_REQ_NUM + 2 \<le> n" using n by (simp add: MAX_PHL_MSG_NUM_def MAX_CMD_REQ_NUM_def)
  from clear_reqs_total [OF e2(3) b G(1,5) G(2-4) this] obtain e3 where
    e3: "clear_wating_req n rc b e2 = Some e3" "dinv B ?G e3"
      "same_work (upd b (\<lambda>d. d\<lparr>req_wait_q := pq_init\<rparr>) e2) e3" by auto
  have lt: "b < phy_num e2" using dinv_band [OF e2(3) b] by simp
  from same_work_at [OF e3(3), of b] lt e2(4,5) have "drained e3 b" by (simp add: work_def dsp_upd drained_def)
  moreover have "frame_work b e e3"
    using frame_work_trans [OF deregister_frame [OF inv off] e2(2)] frame_same [OF frame_upd e3(3)]
    by (rule frame_work_trans)
  ultimately show ?thesis using e2(1) e3(1,2) by (auto simp: dispr_thread_leave_hdl_def)
qed

lemma leave_bands:
  "distinct bs \<Longrightarrow> set bs \<subseteq> B \<Longrightarrow> dinv B (still n 0 cs) e \<Longrightarrow> MAX_PHL_MSG_NUM + 2 \<le> m \<Longrightarrow>
     \<exists>e' cs'. for_bands (dispr_thread_leave_hdl m rc) bs e = Some e' \<and> dinv B (still n 0 cs') e' \<and>
       (\<forall>b \<in> set bs. cs' b = None \<and> drained e' b) \<and>
       (\<forall>b. b \<notin> set bs \<longrightarrow> cs' b = cs b \<and> (b < phy_num e \<longrightarrow> work (dsp e' b) = work (dsp e b)))"
proof (induction bs arbitrary: e cs)
  case (Cons b bs)
  then have b: "b \<in> B" "b \<notin> set bs" by auto
  from leave_total [OF Cons.prems(3) b(1) _ _ _ _ Cons.prems(4)] obtain e1 where
    e1: "dispr_thread_leave_hdl m rc b e = Some e1" "dinv B (set_cur b None (still n 0 cs)) e1"
      "frame_work b e e1" "drained e1 b" by auto
  have "set_cur b None (still n 0 cs) = still n 0 (cs(b := None))" by (simp add: still_def ghost_defs)
  with e1(2) have inv1: "dinv B (still n 0 (cs(b := None))) e1" by simp
  from Cons.prems(1,2) have "distinct bs" "set bs \<subseteq> B" by auto
  from Cons.IH [OF this inv1 Cons.prems(4)] obtain e' cs' where
    e': "for_bands (dispr_thread_leave_hdl m rc) bs e1 = Some e'" "dinv B (still n 0 cs') e'"
      "\<forall>b \<in> set bs. cs' b = None \<and> drained e' b"
      "\<forall>b'. b' \<notin> set bs \<longrightarrow> cs' b' = (cs(b := None)) b' \<and> (b' < phy_num e1 \<longrightarrow> work (dsp e' b') = work (dsp e1 b'))"
    by (elim exE conjE) rule
  have lt: "b < phy_num e1" using dinv_band [OF e1(2) b(1)] by simp
  with e'(4) b(2) have own: "cs' b = None" "work (dsp e' b) = work (dsp e1 b)" by auto
  with e1(4) have "drained e' b" by (simp add: drained_def work_def)
  moreover have "b' \<notin> set (b # bs) \<Longrightarrow> cs' b' = cs b' \<and> (b' < phy_num e \<longrightarrow> work (dsp e' b') = work (dsp e b'))" for b'
    using e'(4) e1(3) by (auto simp: frame_work_def)
  ultimately show ?case using e1(1) e' own by (intro exI [of _ e'] exI [of _ cs']) auto
qed auto

end

subsection \<open>The stop of the engine\<close>

lemma dinv_status:
  assumes inv: "dinv B G e" and b: "b \<in> B"
    and bits: "\<And>s. bit (f s) 10 = bit s 10" "\<And>s. bit (f s) 11 = bit s 11"
    and off: "\<And>s. \<not> bit (f s) 1"
  shows "dinv B (G\<lparr>g_on := g_on G - {b}\<rparr>) (upd b (\<lambda>d. d\<lparr>d_status := f (d_status d)\<rparr>) e)" (is "dinv B ?G ?e")
proof -
  have flags: "bit (d_status (dsp ?e b')) 10 = bit (d_status (dsp e b')) 10"
    "bit (d_status (dsp ?e b')) 11 = bit (d_status (dsp e b')) 11" for b'
    using bits by (simp_all add: dsp_upd)
  have "excl_ok ?e" using inv unfolding dinv_def excl_ok_def d_test_bit flags by simp
  moreover have "bit (d_status (dsp ?e b')) 1 \<longleftrightarrow> b' \<in> g_on ?G" if "b' < g_bands G" for b'
    using inv that off b by (auto simp: dinv_def dsp_upd)
  moreover have "b' \<notin> B \<Longrightarrow> resting (dsp ?e b') = resting (dsp e b')" for b'
    using b by (auto simp: dsp_upd)
  moreover have "disp_inv X Y Z c (dsp ?e b') = disp_inv X Y Z c (dsp e b')" for X Y Z c b'
    by (auto simp: dsp_upd disp_inv_def queues_wf_def msgs_of_def reqs_of_def req_flags_def enq_def running_def)
  moreover have "wakes ?G b' ?e = wakes G b' e" for b' by (simp add: wakes_def dsp_upd)
  ultimately show ?thesis using inv unfolding dinv_def by simp
qed

lemma dinv_clear_started:
  "dinv B G e \<Longrightarrow> b \<in> B \<Longrightarrow> dinv B (G\<lparr>g_on := g_on G - {b}\<rparr>) (d_clear DISPR_STARTED b e)"
  unfolding d_clear_def by (rule dinv_status) (simp_all add: DISPR_STARTED_def flag_simps)

lemma still_on: "(still n 0 cs)\<lparr>g_on := {}\<rparr> = still n 0 cs"
  "g_on ((still n 0 cs)\<lparr>g_on := A\<rparr>) = A" "((still n 0 cs)\<lparr>g_on := A\<rparr>)\<lparr>g_on := A'\<rparr> = (still n 0 cs)\<lparr>g_on := A'\<rparr>"
  by (simp_all add: still_def)

context keeping_runner
begin

lemma keep_stop_prior:
  "dinv B G e \<Longrightarrow> b \<in> B \<Longrightarrow> dinv B (G\<lparr>g_on := g_on G - {b}\<rparr>) (dispr_thread_stop_prior_hdl rc b e)"
  unfolding dispr_thread_stop_prior_hdl_def Let_def
  by (intro dinv_cancel_running dinv_cancel_all keep_stop_controller dinv_clear_started)

lemma stop_prior_bands:
  "set bs \<subseteq> B \<Longrightarrow> dinv B ((still n 0 cs)\<lparr>g_on := A\<rparr>) e \<Longrightarrow>
     dinv B ((still n 0 cs)\<lparr>g_on := A - set bs\<rparr>) (foldl (\<lambda>e b. dispr_thread_stop_prior_hdl rc b e) e bs)"
proof (induction bs arbitrary: A e)
  case (Cons b bs)
  from keep_stop_prior [OF Cons.prems(2), of b] Cons.prems(1)
  have "dinv B ((still n 0 cs)\<lparr>g_on := A - {b}\<rparr>) (dispr_thread_stop_prior_hdl rc b e)" by (simp add: still_on)
  moreover have "A - {b} - set bs = A - set (b # bs)" "set bs \<subseteq> B" using Cons.prems(1) by auto
  ultimately show ?case using Cons.IH [of "A - {b}" "dispr_thread_stop_prior_hdl rc b e"] by (simp only: foldl_Cons)
qed simp

end

lemma post_eq:
  "dispr_thread_stop_post_hdl b e = upd b (\<lambda>d. d\<lparr>token_cnt := 0,
     d_status := CLEAR_STATUS_FLAG (if d_test e b DISPR_MSGQ_INIT then CLEAR_STATUS_FLAG (d_status d) DISPR_MSGQ_INIT
       else d_status d) DISPR_REQ_INIT\<rparr>) e"
  unfolding dispr_thread_stop_post_hdl_def deinit_cmd_req_pool_def deinit_dispr_msg_pool_def d_clear_def
  by (cases "d_test e b DISPR_MSGQ_INIT"; simp add: upd_upd; rule upd_cong; rule dispatcher.equality; simp)

lemma post_bits:
  "n < 16 \<Longrightarrow> bit (d_status (dsp (dispr_thread_stop_post_hdl b e) b)) n =
     (bit (d_status (dsp e b)) n \<and> (b < phy_num e \<longrightarrow> n \<noteq> 3 \<and> n \<noteq> 4))"
proof -
  assume n: "n < 16"
  have "\<not> d_test e b DISPR_MSGQ_INIT \<Longrightarrow> \<not> bit (d_status (dsp e b)) 3"
    by (simp add: d_test_def DISPR_MSGQ_INIT_def flag_simps)
  with n show ?thesis
    by (auto simp: post_eq dsp_upd CLEAR_STATUS_FLAG_def DISPR_MSGQ_INIT_def DISPR_REQ_INIT_def bit_simps)
qed

lemma post_frame:
  "phy_num (dispr_thread_stop_post_hdl b e) = phy_num e"
  "b' \<noteq> b \<Longrightarrow> dsp (dispr_thread_stop_post_hdl b e) b' = dsp e b'"
  "drained (dispr_thread_stop_post_hdl b e) b' = drained e b'"
  by (simp_all add: post_eq dsp_upd drained_def)

lemma post_flags:
  "bit (d_status (dsp (dispr_thread_stop_post_hdl b e) b')) 10 = bit (d_status (dsp e b')) 10"
  "bit (d_status (dsp (dispr_thread_stop_post_hdl b e) b')) 11 = bit (d_status (dsp e b')) 11"
  by (cases "b' = b"; simp add: post_bits post_frame(2))+

lemma post_rests:
  assumes d: "disp_inv {#} {#} {#} None (dsp e b)" and off: "\<not> bit (d_status (dsp e b)) 1" and b: "b < phy_num e"
  shows "resting (dsp (dispr_thread_stop_post_hdl b e) b)"
  using off b disp_invD(6) [OF d] by (simp add: resting_def post_bits) (simp add: post_eq dsp_upd)

lemma post_bands:
  "distinct bs \<Longrightarrow> set bs \<subseteq> {..<phy_num e} \<Longrightarrow> excl_ok e \<Longrightarrow>
     (\<And>b. b \<in> set bs \<Longrightarrow> disp_inv {#} {#} {#} None (dsp e b) \<and> \<not> bit (d_status (dsp e b)) 1) \<Longrightarrow>
     (\<And>b. b < phy_num e \<Longrightarrow> b \<notin> set bs \<Longrightarrow> resting (dsp e b)) \<Longrightarrow>
     fresh (foldl (\<lambda>e b. dispr_thread_stop_post_hdl b e) e bs) \<and>
     phy_num (foldl (\<lambda>e b. dispr_thread_stop_post_hdl b e) e bs) = phy_num e \<and>
     (\<forall>b. drained (foldl (\<lambda>e b. dispr_thread_stop_post_hdl b e) e bs) b = drained e b)"
proof (induction bs arbitrary: e)
  case Nil
  then show ?case by (simp add: fresh_def)
next
  case (Cons b bs)
  let ?e = "dispr_thread_stop_post_hdl b e"
  have "excl_ok ?e" using Cons.prems(3) post_frame(1) post_flags unfolding excl_ok_def d_test_bit by simp
  moreover have "resting (dsp ?e b')" if "b' < phy_num e" "b' \<notin> set bs" for b'
    using post_rests [of e b] Cons.prems that by (cases "b' = b") (auto simp: post_frame(2))
  moreover have "disp_inv {#} {#} {#} None (dsp ?e b') \<and> \<not> bit (d_status (dsp ?e b')) 1" if "b' \<in> set bs" for b'
    using Cons.prems(1,4) that by (cases "b' = b") (auto simp: post_frame(2))
  moreover have "distinct bs" "set bs \<subseteq> {..<phy_num ?e}" using Cons.prems(1,2) post_frame(1) by auto
  ultimately have "fresh (foldl (\<lambda>e b. dispr_thread_stop_post_hdl b e) ?e bs) \<and>
     phy_num (foldl (\<lambda>e b. dispr_thread_stop_post_hdl b e) ?e bs) = phy_num ?e \<and>
     (\<forall>b. drained (foldl (\<lambda>e b. dispr_thread_stop_post_hdl b e) ?e bs) b = drained ?e b)"
    using post_frame(1) by (intro Cons.IH) simp_all
  then show ?case using post_frame(1,3) by simp
qed

lemma stop_total:
  assumes "settled e" "MAX_PHL_MSG_NUM + 2 \<le> m"
  shows "\<exists>e'. phl_disp_eng_stop m (run_cb d s) e = Some (RTW_PHL_STATUS_SUCCESS, e') \<and> fresh e' \<and>
    phy_num e' = phy_num e \<and> (\<forall>b < phy_num e. drained e' b)"
proof (cases "e_disp e = []")
  case True
  then show ?thesis by (simp add: phl_disp_eng_stop_def fresh_def excl_ok_def)
next
  case False
  let ?rc = "run_cb d s" and ?n = "phy_num e"
  from assms(1) obtain cs where inv: "dinv {..<?n} (still ?n ?n cs) e" by (auto simp: settled_def)
  define e1 where "e1 = bands (\<lambda>b e. snd (dispr_module_stop ?rc b e)) e"
  have inv1: "dinv {..<?n} (still ?n ?n cs) e1" unfolding e1_def
    by (rule dinv_bands [OF inv]) (rule scripts.keep_module_stop)
  have n1: "phy_num e1 = ?n" using dinv_phy_num [OF inv1] by simp
  define e2 where "e2 = bands (dispr_thread_stop_prior_hdl ?rc) e1"
  have "dinv {..<?n} ((still ?n 0 cs)\<lparr>g_on := {..<?n}\<rparr>) e1" using inv1 by (simp add: still_def)
  moreover have sub: "set [0..<?n] \<subseteq> {..<?n}" by auto
  ultimately have "dinv {..<?n} ((still ?n 0 cs)\<lparr>g_on := {..<?n} - set [0..<?n]\<rparr>) e2"
    unfolding e2_def bands_def n1 using scripts.stop_prior_bands by blast
  moreover have "{..<?n} - set [0..<?n] = {}" by auto
  ultimately have inv2: "dinv {..<?n} (still ?n 0 cs) e2" by (simp only: still_on)
  have n2: "phy_num e2 = ?n" using dinv_phy_num [OF inv2] by simp
  from quiet_scripts.leave_bands [OF distinct_upt sub inv2 assms(2), of d s] obtain e3 cs' where
    e3: "share_thread_leave m ?rc e2 = Some e3" "dinv {..<?n} (still ?n 0 cs') e3"
      "\<And>b. b < ?n \<Longrightarrow> cs' b = None \<and> drained e3 b"
    unfolding share_thread_leave_def n2 by auto
  have n3: "phy_num e3 = ?n" using dinv_phy_num [OF e3(2)] by simp
  have "fresh (bands dispr_thread_stop_post_hdl e3) \<and> phy_num (bands dispr_thread_stop_post_hdl e3) = ?n \<and>
     (\<forall>b. drained (bands dispr_thread_stop_post_hdl e3) b = drained e3 b)"
    unfolding bands_def n3 [symmetric]
  proof (rule post_bands)
    show "excl_ok e3" using e3(2) by (simp add: dinv_def)
    fix b assume b: "b \<in> set [0..<phy_num e3]"
    with n3 dinv_band [OF e3(2), of b] e3(3) [of b] e3(2)
    show "disp_inv {#} {#} {#} None (dsp e3 b) \<and> \<not> bit (d_status (dsp e3 b)) 1"
      by (auto simp: dinv_def)
  qed auto
  with e3 False show ?thesis
    by (simp add: phl_disp_eng_stop_def Let_def e1_def [symmetric] e2_def [symmetric])
qed

subsection \<open>The initialisation of the engine\<close>

text \<open>Before the start no band has exclusive use or clearance either.\<close>

definition unused :: "engine \<Rightarrow> bool" where
  "unused e \<longleftrightarrow> (\<forall>b < phy_num e. resting (dsp e b) \<and> \<not> bit (d_status (dsp e b)) 11)"

lemma unused_fresh: "unused e \<Longrightarrow> fresh e"
  by (auto simp: unused_def fresh_def excl_ok_def d_test_bit)


lemma rest_view:
  "view d' = view d \<Longrightarrow> resting d' = resting d \<and> bit (d_status d') 11 = bit (d_status d) 11"
  by (simp add: view_def resting_def)

lemma same_view_unused:
  assumes "same_view e0 e" "unused e0" shows "unused e"
proof -
  have "resting (dsp e b) \<and> \<not> bit (d_status (dsp e b)) 11" if "b < phy_num e0" for b
    using rest_view [of "dsp e b" "dsp e0 b"] assms that by (simp add: same_view_def unused_def)
  with assms(1) show ?thesis by (simp add: same_view_def unused_def)
qed

lemma unused_callback:
  assumes "unused e"
  shows "unused (snd (run_cb d s cb e)) \<and> phy_num (snd (run_cb d s cb e)) = phy_num e"
proof -
  have "unstarted e" using assms by (simp add: unused_def unstarted_def resting_def)
  then have "same_view e (snd (run_cb d s cb e))" by (rule view_run_cb)
  with same_view_unused [OF this assms] show ?thesis by (simp add: same_view_def)
qed

lemma unused_mdl: "unused e \<Longrightarrow> unused (upd_mdl b a f e) \<and> phy_num (upd_mdl b a f e) = phy_num e"
  by (auto simp: unused_def upd_mdl_def dsp_upd resting_def)

lemma unused_new:
  assumes "unused e"
  shows "unused (d_set DISPR_NOTIFY_IDLE (phy_num e) (d_set DISPR_INIT (phy_num e)
    (e\<lparr>e_disp := e_disp e @ [zero_dispatcher]\<rparr>)))"
  using assms by (auto simp: unused_def d_set_def dsp_upd nth_append resting_def zero_dispatcher_def
      DISPR_NOTIFY_IDLE_def DISPR_INIT_def flag_simps less_Suc_eq)

lemma unused_init:
  assumes "unused e"
  shows "unused (snd (dispr_init (run_cb d s) e)) \<and> phy_num (snd (dispr_init (run_cb d s) e)) = Suc (phy_num e)"
proof -
  define e1 where "e1 = upd_mdl (phy_num e) ctrl_addr (\<lambda>x. x\<lparr>mdl_id := PHL_MDL_PHY_MGNT\<rparr>)
    (d_set DISPR_NOTIFY_IDLE (phy_num e) (d_set DISPR_INIT (phy_num e) (e\<lparr>e_disp := e_disp e @ [zero_dispatcher]\<rparr>)))"
  have u: "unused e1" "phy_num e1 = Suc (phy_num e)"
    unfolding e1_def using unused_mdl [OF unused_new [OF assms]] by simp_all
  have "snd (dispr_init (run_cb d s) e) = snd (bk_module_init (run_cb d s) (phy_num e) ctrl_addr e1)"
    by (simp add: dispr_init_def Let_def register_dispr_controller_def split_beta e1_def)
  with u unused_callback [OF u(1)] unused_mdl show ?thesis
    by (auto simp: bk_module_init_def Let_def split_beta mdl_set_def)
qed

lemma init_unused:
  assumes "e_disp e = []"
  shows "unused (snd (phl_disp_eng_init (run_cb d s) n e)) \<and> phy_num (snd (phl_disp_eng_init (run_cb d s) n e)) = n"
proof -
  have "unused (foldl (\<lambda>e _. snd (dispr_init (run_cb d s) e)) e [0..<n]) \<and>
    phy_num (foldl (\<lambda>e _. snd (dispr_init (run_cb d s) e)) e [0..<n]) = n"
  proof (induction n)
    case 0
    then show ?case using assms by (simp add: unused_def)
  next
    case (Suc n)
    then show ?case using unused_init by simp
  qed
  with assms show ?thesis by (simp add: phl_disp_eng_init_def)
qed

end
