(* ===== verification/DispatcherRound.thy ===== *)
theory DispatcherRound
  imports DispatcherStop
begin

text \<open>
  A round of the thread ends when the callbacks only do their own work and queue no requests:
  each operation on the token takes one request at most from the wait queue and adds no
  operation to its own band.
\<close>

subsection \<open>More fuel changes nothing\<close>

lemma process_mono:
  "dispr_process_token_req n rc b e = Some x \<Longrightarrow> n \<le> m \<Longrightarrow> dispr_process_token_req m rc b e = Some x"
proof (induction n arbitrary: m e)
  case (Suc n)
  then obtain k where m: "m = Suc k" "n \<le> k" by (cases m) auto
  note IH = Suc.IH [OF _ m(2)]
  from Suc.prems(1) show ?case
    unfolding m(1) dispr_process_token_req.simps
    by (auto simp: Let_def split_beta split: if_splits prod.splits option.splits dest: IH)
qed simp

lemma handle_mono:
  assumes "handle_token_op_info n rc b ref e = Some x" "n \<le> m"
  shows "handle_token_op_info m rc b ref e = Some x"
  using assms(1) unfolding handle_token_op_info_def Let_def
  by (auto split: token_op_type.splits if_splits dest: process_mono [OF _ assms(2)])

lemma token_loop_mono: "token_op_loop n rc b e = Some x \<Longrightarrow> n \<le> m \<Longrightarrow> token_op_loop m rc b e = Some x"
proof (induction n arbitrary: m e)
  case (Suc n)
  then obtain k where m: "m = Suc k" "n \<le> k" by (cases m) auto
  obtain ref e1 where pop: "pop_front_token_op_info b e = (ref, e1)" by fastforce
  show ?case
  proof (cases ref)
    case None
    with Suc.prems(1) pop show ?thesis by (simp add: m(1))
  next
    case (Some r)
    with Suc.prems(1) pop obtain e2 where
      h: "handle_token_op_info n rc b r e1 = Some e2" and l: "token_op_loop n rc b (set_unused r b e2) = Some x"
      by (auto split: option.splits)
    from handle_mono [OF h m(2)] Suc.IH [OF l m(2)] pop Some show ?thesis by (simp add: m(1))
  qed
qed simp

lemma thread_loop_mono:
  assumes "dispr_thread_loop_hdl n rc b e = Some x" "n \<le> m"
  shows "dispr_thread_loop_hdl m rc b e = Some x"
proof -
  have "token_op_hanler n rc b y = Some z \<Longrightarrow> token_op_hanler m rc b y = Some z" for y z
    unfolding token_op_hanler_def using token_loop_mono [OF _ assms(2)] by (auto split: if_splits)
  with assms(1) show ?thesis unfolding dispr_thread_loop_hdl_def by (auto split: option.splits)
qed

lemma bands_mono:
  "(\<And>b e x. f b e = Some x \<Longrightarrow> g b e = Some x) \<Longrightarrow> for_bands f bs e = Some x \<Longrightarrow> for_bands g bs e = Some x"
  by (induction bs arbitrary: e) (auto split: option.splits)

lemma round_mono:
  assumes "share_thread_round n rc e = Some x" "n \<le> m" shows "share_thread_round m rc e = Some x"
  using assms(1) bands_mono [of "dispr_thread_loop_hdl n rc" "dispr_thread_loop_hdl m rc"]
    thread_loop_mono [OF _ assms(2)]
  unfolding share_thread_round_def by (auto split: if_splits)

subsection \<open>What leaves the operations of a band alone\<close>

definition ops :: "dispatcher \<Rightarrow> op_ref list \<times> nat list" where
  "ops d = (pq_queue (token_op_q d), pq_queue (req_wait_q d))"

definition own_ops :: "nat \<Rightarrow> engine \<Rightarrow> engine \<Rightarrow> bool" where
  "own_ops b e0 e \<longleftrightarrow> phy_num e = phy_num e0 \<and> ops (dsp e b) = ops (dsp e0 b)"

named_theorems ops_intro "operations that leave the requests of the band alone"

lemma own_ops_refl [simp]: "own_ops b e e"
  by (simp add: own_ops_def)

lemma own_ops_trans: "own_ops b e0 e1 \<Longrightarrow> own_ops b e1 e2 \<Longrightarrow> own_ops b e0 e2"
  by (simp add: own_ops_def)

lemma ops_upd: "(\<And>d. ops (f d) = ops d) \<Longrightarrow> own_ops b e0 e \<Longrightarrow> own_ops b e0 (upd b' f e)"
  by (auto simp: own_ops_def dsp_upd)

lemma ops_upd_other: "b' \<noteq> b \<Longrightarrow> own_ops b e0 e \<Longrightarrow> own_ops b e0 (upd b' f e)"
  by (simp add: own_ops_def dsp_upd)

lemma ops_if [ops_intro]: "own_ops b e0 x \<Longrightarrow> own_ops b e0 y \<Longrightarrow> own_ops b e0 (if c then x else y)"
  by simp

lemma ops_notify [ops_intro]: "own_ops b e0 e \<Longrightarrow> own_ops b e0 (notify_dispr_thread e)"
  by (simp add: own_ops_def notify_dispr_thread_def)

lemma ops_msg [ops_intro]:
  "own_ops b e0 e \<Longrightarrow> own_ops b e0 (upd_msg b' i f e)" "own_ops b e0 e \<Longrightarrow> own_ops b e0 (m_set g b' i e)"
  "own_ops b e0 e \<Longrightarrow> own_ops b e0 (m_clear g b' i e)" "own_ops b e0 e \<Longrightarrow> own_ops b e0 (upd_mid b' i h e)"
  unfolding m_set_def m_clear_def upd_mid_def upd_msg_def by (rule ops_upd; simp add: ops_def)+

lemma ops_req [ops_intro]:
  "own_ops b e0 e \<Longrightarrow> own_ops b e0 (upd_req b' r f e)" "own_ops b e0 e \<Longrightarrow> own_ops b e0 (r_set g b' r e)"
  "own_ops b e0 e \<Longrightarrow> own_ops b e0 (r_clear g b' r e)"
  unfolding r_set_def r_clear_def upd_req_def by (rule ops_upd; simp add: ops_def)+

lemma ops_flags [ops_intro]:
  "own_ops b e0 e \<Longrightarrow> own_ops b e0 (d_set f b' e)" "own_ops b e0 e \<Longrightarrow> own_ops b e0 (d_clear f b' e)"
  unfolding d_set_def d_clear_def by (rule ops_upd; simp add: ops_def)+

lemma ops_fields [ops_intro]:
  "own_ops b e0 e \<Longrightarrow> own_ops b e0 (upd b' (\<lambda>d. d\<lparr>msg_idle_q := q d\<rparr>) e)"
  "own_ops b e0 e \<Longrightarrow> own_ops b e0 (upd b' (\<lambda>d. d\<lparr>msg_wait_q := q d\<rparr>) e)"
  "own_ops b e0 e \<Longrightarrow> own_ops b e0 (upd b' (\<lambda>d. d\<lparr>msg_pend_q := q d\<rparr>) e)"
  "own_ops b e0 e \<Longrightarrow> own_ops b e0 (upd b' (\<lambda>d. d\<lparr>req_idle_q := q d\<rparr>) e)"
  "own_ops b e0 e \<Longrightarrow> own_ops b e0 (upd b' (\<lambda>d. d\<lparr>pending_evt := v d\<rparr>) e)"
  "own_ops b e0 e \<Longrightarrow> own_ops b e0 (upd b' (\<lambda>d. d\<lparr>token_cnt := t d\<rparr>) e)"
  "own_ops b e0 e \<Longrightarrow> own_ops b e0 (upd b' (\<lambda>d. d\<lparr>cur_cmd_req := c\<rparr>) e)"
  "own_ops b e0 e \<Longrightarrow> own_ops b e0 (upd b' (\<lambda>d. d\<lparr>cur_cmd_req := c, token_cnt := t d\<rparr>) e)"
  by (rule ops_upd; simp add: ops_def)+

lemma ops_pending_evt [ops_intro]: "own_ops b e0 e \<Longrightarrow> own_ops b e0 (SET_CUR_PENDING_EVT b' k v e)"
  unfolding SET_CUR_PENDING_EVT_def by (intro ops_intro)

text \<open>The renewal of the other band does not concern this one.\<close>

lemma ops_renew: "b' \<noteq> b \<Longrightarrow> own_ops b e0 e \<Longrightarrow> own_ops b e0 (renew b' e)"
  unfolding renew_def dispr_enqueue_token_op_info_def push_back_token_op_info_def Let_def
  by (auto intro!: ops_intro ops_upd_other)

lemma ntfyidx_other [simp]: "ntfyidx b \<noteq> b"
  by (simp add: ntfyidx_def)

lemma ops_other_band [ops_intro]:
  "own_ops b e0 e \<Longrightarrow> own_ops b e0 (snd (phl_disp_eng_clearance_acquire b' e))"
  "own_ops b e0 e \<Longrightarrow> own_ops b e0 (snd (phl_disp_eng_clearance_release (ntfyidx b) e))"
  "own_ops b e0 e \<Longrightarrow> own_ops b e0 (snd (phl_disp_eng_exclusive_ready (ntfyidx b) e))"
  by (auto simp: phl_disp_eng_clearance_acquire_def phl_disp_eng_clearance_release_def
      phl_disp_eng_exclusive_ready_def by_idx dispr_clearance_acquire_def dispr_clearance_release_def
      dispr_exclusive_ready_def Let_def intro!: ops_intro ops_renew)

lemma ops_token_complete [ops_intro]: "own_ops b e0 e \<Longrightarrow> own_ops b e0 (cmd_token_complete b e)"
  unfolding cmd_token_complete_def Let_def by (intro ops_intro)

lemma ops_queues [ops_intro]:
  "own_ops b e0 e \<Longrightarrow> own_ops b e0 (push_back_wait_msg b' i e)"
  "own_ops b e0 e \<Longrightarrow> own_ops b e0 (insert_msg_by_priority b' i e)"
  "own_ops b e0 e \<Longrightarrow> own_ops b e0 (push_back_idle_req b' r e)"
  "own_ops b e0 e \<Longrightarrow> own_ops b e0 (snd (dispr_clr_pending_msg b' e))"
  unfolding push_back_wait_msg_def insert_msg_by_priority_def push_back_idle_req_def dispr_clr_pending_msg_def Let_def
    snd_conv by (intro ops_intro; assumption)+

lemma ops_requeue: "own_ops b e0 e \<Longrightarrow> own_ops b e0 (requeue_msg b' i e)"
  unfolding requeue_msg_def by (intro ops_intro)

lemma ops_empty_pending: "own_ops b e0 e \<Longrightarrow> own_ops b e0 (empty_pending (requeue_msg b') b' n e)"
proof (induction n arbitrary: e)
  case (Suc n)
  have "own_ops b e0 (empty_pending (requeue_msg b') b' n (requeue_msg b' i (upd b' (\<lambda>d. d\<lparr>msg_pend_q := q\<rparr>) e)))" for i q
    by (intro Suc.IH ops_requeue ops_intro Suc.prems)
  with Suc.prems show ?case by (simp add: pop_front_pending_msg_def split: option.split prod.split)
qed simp

lemma ops_clear_pending [ops_intro]: "own_ops b e0 e \<Longrightarrow> own_ops b e0 (clear_pending_msg b' e)"
  unfolding clear_pending_msg_def Let_def by (intro ops_intro ops_empty_pending)

lemma ops_cancel_sender: "own_ops b e0 e \<Longrightarrow> own_ops b e0 (cancel_sender_msg b' k e i)"
  unfolding cancel_sender_msg_def cancel_msg_def Let_def by (intro ops_intro)

lemma ops_cancel_senders: "own_ops b e0 e \<Longrightarrow> own_ops b e0 (foldl (cancel_sender_msg b' k) e is)"
  by (induction "is" arbitrary: e) (simp_all add: ops_cancel_sender)

lemma ops_attr: "own_ops b e0 e \<Longrightarrow> own_ops b e0 (apply_attr b' i k a e)"
  unfolding apply_attr_def set_msg_custom_bitmap_def Let_def by (auto split: option.split intro!: ops_intro)

lemma ops_set_owner: "own_ops b e0 e \<Longrightarrow> own_ops b e0 (set_owner b' i k c s e)"
  unfolding set_owner_def by (auto split: option.split intro!: ops_intro)

text \<open>Without a current command a message is never refused for being the last.\<close>

lemma ops_send:
  assumes "cur_cmd_req (dsp e b) = None"
  shows "own_ops b e (snd (snd (dispr_send_msg rc b msg attr hdl e)))"
proof -
  have no: "\<not> TEST_STATUS_FLAG 0 REQ_STATUS_LAST_PERMIT" by (simp add: REQ_STATUS_LAST_PERMIT_def flag_simps)
  have q: "own_ops b e (snd (snd (queue_msg rc b i msg attr hdl c 0 e1)))" if "own_ops b e e1" for i c e1
    unfolding queue_msg_def Let_def set_msg_bitmap_def
    by (auto simp: no split: option.split intro!: ops_intro ops_set_owner ops_attr that)
  have p: "own_ops b e e1" if "pop_front_idle_msg b e = (x, e1)" for x e1
    using that by (auto simp: pop_front_idle_msg_def split: prod.splits option.splits intro!: ops_intro)
  show ?thesis
    using assms q p unfolding dispr_send_msg_def Let_def
    by (auto simp: get_cur_cmd_req_id_def split: prod.split option.split)
qed

subsection \<open>Callbacks that only do their own work\<close>

locale passive_runner = keeping_runner +
  assumes rc_passive: "own_ops b e (snd (rc cb e))"
begin

lemma ops_callback [ops_intro]: "own_ops b e0 e \<Longrightarrow> own_ops b e0 (snd (rc cb e))"
  using rc_passive own_ops_trans by blast

lemma ops_deregister: "own_ops b e0 e \<Longrightarrow> own_ops b e0 (deregister_cur_cmd_req rc b notify e)"
  unfolding deregister_cur_cmd_req_def Let_def
  by (auto split: option.split intro!: ops_intro ops_cancel_senders)

lemma ops_register: "own_ops b e (snd (register_cur_cmd_req rc b r e))"
  unfolding register_cur_cmd_req_def Let_def split_beta
  by (auto intro!: ops_deregister ops_intro)

lemma pop_req_cases:
  assumes "pq_wf (req_wait_q (dsp e b))" "b < phy_num e"
  shows "pop_front_wait_req b e = (None, e) \<or>
    (\<exists>r e1. pop_front_wait_req b e = (Some r, e1) \<and> phy_num e1 = phy_num e \<and>
       pq_queue (token_op_q (dsp e1 b)) = pq_queue (token_op_q (dsp e b)) \<and> cur_cmd_req (dsp e1 b) = cur_cmd_req (dsp e b) \<and>
       pq_queue (req_wait_q (dsp e b)) = r # pq_queue (req_wait_q (dsp e1 b)))"
proof (cases "pq_pop (req_wait_q (dsp e b)) First")
  case (Pair x q)
  with assms show ?thesis
    by (cases x) (auto simp: pop_front_wait_req_def r_set_def r_clear_def upd_req_def dsp_upd dest: pq_pop_Some)
qed

lemma process_total:
  "dinv B G e \<Longrightarrow> b \<in> B \<Longrightarrow> length (pq_queue (req_wait_q (dsp e b))) < n \<Longrightarrow>
     \<exists>st e'. dispr_process_token_req n rc b e = Some (st, e') \<and>
       pq_queue (token_op_q (dsp e' b)) = pq_queue (token_op_q (dsp e b))"
proof (induction n arbitrary: e)
  case (Suc n)
  note inv = Suc.prems(1) and b = Suc.prems(2)
  have lt: "b < phy_num e" and wf: "pq_wf (req_wait_q (dsp e b))"
    using dinv_band [OF inv b] by (auto simp: disp_inv_def queues_wf_def)
  have own: "own_ops b e e' \<Longrightarrow> pq_queue (token_op_q (dsp e' b)) = pq_queue (token_op_q (dsp e b))" for e'
    by (simp add: own_ops_def ops_def)
  have idle: "own_ops b e (send_bk_msg_phy_idle rc b (d_set DISPR_NOTIFY_IDLE b e))" if "cur_cmd_req (dsp e b) = None"
    unfolding send_bk_msg_phy_idle_def
    by (rule own_ops_trans [OF ops_flags(1) [OF own_ops_refl] ops_send]) (use that in \<open>simp add: d_set_def dsp_upd\<close>)
  have ready: "own_ops b e (snd (phl_disp_eng_exclusive_ready (ntfyidx b) e))"
    "own_ops b e (snd (phl_disp_eng_clearance_acquire (ntfyidx b) e))" by (intro ops_intro; simp)+
  let ?go = "d_test e b DISPR_STARTED \<and> \<not> d_test e b DISPR_SHALL_STOP \<and> \<not> token_cnt (dsp e b) > 0 \<and>
    \<not> d_test e b DISPR_WAIT_ABORT_MSG_DONE \<and> \<not> d_test e b DISPR_CLEARANCE \<and>
    \<not> (front_req_with_exclusive_opt e b \<and> \<not> d_test e b DISPR_EXCLUSIVE_USE)"
  show ?case
  proof (cases ?go)
    case False
    then show ?thesis using own [OF ready(1)] own [OF ready(2)] by (auto simp: Let_def)
  next
    case True
    have G: "g_cur G b = None" by (rule token_cnt_cur [OF inv b]) (use True in simp)
    have cur: "cur_cmd_req (dsp e b) = None" using cur_cmd [OF inv b] G by simp
    from pop_req_cases [OF wf lt] show ?thesis
    proof (elim disjE exE conjE)
      assume "pop_front_wait_req b e = (None, e)"
      then show ?thesis using True own [OF idle [OF cur]] by (auto simp: Let_def)
    next
      fix r e1
      assume pop: "pop_front_wait_req b e = (Some r, e1)" and e1: "phy_num e1 = phy_num e"
        "pq_queue (token_op_q (dsp e1 b)) = pq_queue (token_op_q (dsp e b))" "cur_cmd_req (dsp e1 b) = cur_cmd_req (dsp e b)"
        "pq_queue (req_wait_q (dsp e b)) = r # pq_queue (req_wait_q (dsp e1 b))"
      define e2 where "e2 = (if d_test e1 b DISPR_NOTIFY_IDLE
        then send_bk_msg_phy_on rc b (d_clear DISPR_NOTIFY_IDLE b e1) else e1)"
      have own2: "own_ops b e1 e2"
        unfolding e2_def send_bk_msg_phy_on_def
        using own_ops_trans [OF ops_flags(2) [OF own_ops_refl] ops_send] e1(3) cur
        by (simp add: d_clear_def dsp_upd)
      obtain ok e3 where reg: "register_cur_cmd_req rc b r e2 = (ok, e3)" by fastforce
      have own3: "own_ops b e1 e3" using own_ops_trans [OF own2 ops_register [of b e2 r]] reg by simp
      have inv2: "dinv B (take_req b r G) e2"
        unfolding e2_def using dinv_pop_wait_req [OF inv pop] b by (auto intro!: keep_phy_on dinv_intro)
      have inv3: "dinv B (set_cur b (if ok then Some r else None) G) e3"
        by (rule keep_register [OF inv2 b G reg])
      have r: "dispr_process_token_req (Suc n) rc b e =
        (if ok then Some (RTW_PHL_STATUS_SUCCESS, e3) else dispr_process_token_req n rc b e3)"
        using True pop reg by (auto simp: e2_def [symmetric] Let_def)
      show ?thesis
      proof (cases ok)
        case True
        with r own3 e1(2) show ?thesis by (auto simp: own_ops_def ops_def)
      next
        case False
        with inv3 have "dinv B G e3" by (simp add: ghost_cur(1) [of G b None, OF G])
        moreover have "length (pq_queue (req_wait_q (dsp e3 b))) < n"
          using own3 e1(4) Suc.prems(3) by (simp add: own_ops_def ops_def)
        ultimately obtain st e' where "dispr_process_token_req n rc b e3 = Some (st, e')"
          "pq_queue (token_op_q (dsp e' b)) = pq_queue (token_op_q (dsp e3 b))" using Suc.IH b by blast
        with r False own3 e1(2) show ?thesis by (auto simp: own_ops_def ops_def)
      qed
    qed
  qed
qed simp

lemma process_some:
  assumes "dinv B G e" "b \<in> B" "g_msg G b = {#}" "g_req G b = {#}" "g_del G b = {#}" "MAX_CMD_REQ_NUM < n"
  shows "\<exists>st e'. dispr_process_token_req n rc b e = Some (st, e') \<and>
    pq_queue (token_op_q (dsp e' b)) = pq_queue (token_op_q (dsp e b))"
proof -
  have "disp_inv {#} {#} {#} (g_cur G b) (dsp e b)" using dinv_band [OF assms(1,2)] assms(3-5) by simp
  from few_waiting(2) [OF this] assms(6) show ?thesis by (intro process_total [OF assms(1,2)]) simp
qed

lemma handle_total:
  assumes inv: "dinv B G e" and b: "b \<in> B" and free: "g_msg G b = {#}" "g_req G b = {#}" "g_del G b = {#}"
    and n: "MAX_CMD_REQ_NUM < n"
  shows "\<exists>e'. handle_token_op_info n rc b ref e = Some e' \<and>
    pq_queue (token_op_q (dsp e' b)) = pq_queue (token_op_q (dsp e b))"
proof -
  define r where "r = unat (op_data (op_info (dsp e b) ref))"
  have own: "own_ops b e e1 \<Longrightarrow> pq_queue (token_op_q (dsp e1 b)) = pq_queue (token_op_q (dsp e b))" for e1
    by (simp add: own_ops_def ops_def)
  have proc: "dinv B G' e1 \<Longrightarrow> own_ops b e e1 \<Longrightarrow> g_msg G' b = {#} \<Longrightarrow> g_req G' b = {#} \<Longrightarrow> g_del G' b = {#} \<Longrightarrow>
      \<exists>e'. map_option snd (dispr_process_token_req n rc b e1) = Some e' \<and>
        pq_queue (token_op_q (dsp e' b)) = pq_queue (token_op_q (dsp e b))" for G' e1
    using process_some [of G' e1 b n] b n own [of e1] by fastforce
  have inv': "dinv B G (r_set REQ_STATUS_CANCEL b r e)" by (intro dinv_intro inv) simp
  have dereg: "\<exists>e'. map_option snd (dispr_process_token_req n rc b (deregister_cur_cmd_req rc b notify e1)) = Some e' \<and>
        pq_queue (token_op_q (dsp e' b)) = pq_queue (token_op_q (dsp e b))" if "dinv B G e1" "own_ops b e e1" for notify e1
    using that free by (intro proc [OF keep_deregister [OF that(1) b]] ops_deregister) (simp_all add: ghost_defs)
  have own_c: "own_ops b e (r_set REQ_STATUS_CANCEL b r e)" by (intro ops_intro) simp
  have q: "pq_queue (token_op_q (dsp (push_back_idle_req b r (snd (rc (Cb_abort b r)
      (upd b (\<lambda>d. d\<lparr>req_wait_q := pq_del_node (req_wait_q d) (Some r)\<rparr>) (r_set REQ_STATUS_CANCEL b r e))))) b)) =
      pq_queue (token_op_q (dsp e b))"
  proof -
    let ?e = "upd b (\<lambda>d. d\<lparr>req_wait_q := pq_del_node (req_wait_q d) (Some r)\<rparr>) (r_set REQ_STATUS_CANCEL b r e)"
    have "own_ops b ?e (push_back_idle_req b r (snd (rc (Cb_abort b r) ?e)))" by (intro ops_intro) simp
    then show ?thesis by (simp add: own_ops_def ops_def dsp_upd r_set_def upd_req_def)
  qed
  show ?thesis
    using proc [OF inv own_ops_refl free] dereg [OF inv own_ops_refl, of False] dereg [OF inv' own_c, of True] q
      own [OF own_c]
    unfolding handle_token_op_info_def Let_def r_def [symmetric]
    by (cases "op_type (op_info (dsp e b) ref)") auto
qed

lemma pop_op_cases:
  assumes "pq_wf (token_op_q (dsp e b))" "b < phy_num e"
  shows "pop_front_token_op_info b e = (None, e) \<or>
    (\<exists>r e1. pop_front_token_op_info b e = (Some r, e1) \<and>
       pq_queue (token_op_q (dsp e b)) = r # pq_queue (token_op_q (dsp e1 b)))"
proof (cases "pq_pop (token_op_q (dsp e b)) First")
  case (Pair x q)
  with assms show ?thesis
    by (cases x) (auto simp: pop_front_token_op_info_def dsp_upd dest: pq_pop_Some)
qed

lemma token_loop_total:
  "dinv B (owe_op b G) e \<Longrightarrow> b \<in> B \<Longrightarrow> g_msg G b = {#} \<Longrightarrow> g_req G b = {#} \<Longrightarrow> g_del G b = {#} \<Longrightarrow>
     length (pq_queue (token_op_q (dsp e b))) + MAX_CMD_REQ_NUM + 1 < n \<Longrightarrow> \<exists>e'. token_op_loop n rc b e = Some e'"
proof (induction n arbitrary: G e)
  case (Suc n)
  note inv = Suc.prems(1) and b = Suc.prems(2) and free = Suc.prems(3-5)
  have lt: "b < phy_num e" and wf: "pq_wf (token_op_q (dsp e b))"
    using dinv_band [OF inv b] by (auto simp: disp_inv_def queues_wf_def)
  from pop_op_cases [OF wf lt] show ?case
  proof (elim disjE exE conjE)
    assume "pop_front_token_op_info b e = (None, e)"
    then show ?thesis by simp
  next
    fix r e1
    assume pop: "pop_front_token_op_info b e = (Some r, e1)"
      and q: "pq_queue (token_op_q (dsp e b)) = r # pq_queue (token_op_q (dsp e1 b))"
    have e1: "dinv B (owe_op b G) e1" using dinv_pop_op [OF inv] pop by simp
    have free': "g_msg (owe_op b G) b = {#}" "g_req (owe_op b G) b = {#}" "g_del (owe_op b G) b = {#}"
      using free by (simp_all add: ghost_defs)
    have n: "MAX_CMD_REQ_NUM < n" using Suc.prems(6) by simp
    from handle_total [OF e1 b free' n, of r] obtain e2 where
      h: "handle_token_op_info n rc b r e1 = Some e2"
      and q2: "pq_queue (token_op_q (dsp e2 b)) = pq_queue (token_op_q (dsp e1 b))" by blast
    from keep_handle [OF e1 b free'(3) h] obtain c where "dinv B (owe_op b (set_cur b c G)) e2" by auto
    then have inv2: "dinv B (owe_op b (set_cur b c G)) (set_unused r b e2)" by (rule dinv_set_unused)
    have "token_op_q (set_op_info x y d) = token_op_q d" for x y d
      by (simp add: set_op_info_def split: op_ref.split)
    then have "pq_queue (token_op_q (dsp (set_unused r b e2) b)) = pq_queue (token_op_q (dsp e1 b))"
      using q2 by (simp add: set_unused_def dsp_upd)
    with q Suc.prems(6) have "length (pq_queue (token_op_q (dsp (set_unused r b e2) b))) + MAX_CMD_REQ_NUM + 1 < n"
      by simp
    with Suc.IH [OF inv2 b] free obtain e' where "token_op_loop n rc b (set_unused r b e2) = Some e'"
      by (auto simp: ghost_defs)
    with pop h show ?thesis by simp
  qed
qed simp

lemma thread_loop_total:
  assumes inv: "dinv B (owe_op b (owe_wait b G)) e" and b: "b \<in> B"
    and free: "g_msg G b = {#}" "g_req G b = {#}" "g_del G b = {#}"
  shows "\<exists>n e'. dispr_thread_loop_hdl n rc b e = Some e'"
proof -
  define n where "n = length (pq_queue (token_op_q (dsp (clear_pending_msg b e) b))) + MAX_CMD_REQ_NUM + 2"
  have "\<exists>e'. token_op_loop n rc b (clear_pending_msg b e) = Some e'"
    by (rule token_loop_total [OF dinv_clear_pending [OF inv] b]) (use free in \<open>simp_all add: ghost_defs n_def\<close>)
  then have "token_op_hanler n rc b (clear_pending_msg b e) \<noteq> None" by (auto simp: token_op_hanler_def)
  then have "\<exists>e'. dispr_thread_loop_hdl n rc b e = Some e'"
    by (auto simp: dispr_thread_loop_hdl_def Let_def split: prod.split option.split)
  then show ?thesis by blast
qed

lemma round_total:
  assumes inv: "dinv B G e" and B: "B = {..<phy_num e}"
    and free: "\<And>b. g_msg G b = {#} \<and> g_req G b = {#} \<and> g_del G b = {#} \<and> g_wait G b = 0 \<and> g_op G b = 0"
  shows "\<exists>n e'. share_thread_round n rc e = Some e'"
proof (cases "e_sema e = 0")
  case True
  then show ?thesis by (simp add: share_thread_round_def)
next
  case False
  define owed where "owed k cs = G\<lparr>g_cur := cs, g_wait := \<lambda>b. if b < k then 0 else 1,
      g_op := \<lambda>b. if b < k then 0 else 1\<rparr>" for k cs
  have start: "dinv B (owed 0 (g_cur G)) (e\<lparr>e_sema := e_sema e - 1\<rparr>)"
    using inv False free unfolding dinv_def owed_def excl_ok_def wakes_def d_test_def by auto
  have "k \<le> phy_num e \<Longrightarrow> dinv B (owed k cs) e1 \<Longrightarrow>
      \<exists>n e'. for_bands (dispr_thread_loop_hdl n rc) [k..<phy_num e] e1 = Some e'" for k cs e1
  proof (induction "phy_num e - k" arbitrary: k cs e1)
    case 0
    then show ?case by simp
  next
    case (Suc m)
    then have k: "k < phy_num e" by simp
    have o: "owed k cs = owe_op k (owe_wait k (owed (Suc k) cs))"
      by (auto simp: owed_def ghost_defs less_Suc_eq fun_eq_iff)
    have kB: "k \<in> B" using k B by simp
    from thread_loop_total [OF Suc.prems(2) [unfolded o] kB] free obtain n1 e2 where
      t: "dispr_thread_loop_hdl n1 rc k e1 = Some e2" by (auto simp: owed_def)
    from keep_thread_loop [OF Suc.prems(2) [unfolded o] kB _ t] free
    obtain c where "dinv B (set_cur k c (owed (Suc k) cs)) e2" by (auto simp: owed_def)
    moreover have "set_cur k c (owed (Suc k) cs) = owed (Suc k) (cs(k := c))" for c
      by (simp add: owed_def ghost_defs)
    ultimately obtain n2 e' where "for_bands (dispr_thread_loop_hdl n2 rc) [Suc k..<phy_num e] e2 = Some e'"
      using Suc.hyps(1) [of "Suc k"] Suc.hyps(2) k by fastforce
    then have "for_bands (dispr_thread_loop_hdl (max n1 n2) rc) [Suc k..<phy_num e] e2 = Some e'"
      by (rule bands_mono [rotated]) (erule thread_loop_mono, simp)
    moreover have "dispr_thread_loop_hdl (max n1 n2) rc k e1 = Some e2" by (rule thread_loop_mono [OF t]) simp
    ultimately have "for_bands (dispr_thread_loop_hdl (max n1 n2) rc) [k..<phy_num e] e1 = Some e'"
      using k by (simp add: upt_conv_Cons)
    then show ?case by blast
  qed
  from this [OF _ start] False show ?thesis by (simp add: share_thread_round_def)
qed

end

lemma passive_log: "own_ops b e (log_cb cb e)"
  by (simp add: own_ops_def log_cb_def)

interpretation own_work: passive_runner B "run_cb 0 s" for B s
  by unfold_locales (simp add: passive_log)

lemma settled_round:
  assumes "settled e" shows "\<exists>n. \<forall>m \<ge> n. engine_step m 0 s e Ev_round \<noteq> None"
proof -
  from assms obtain cs where "dinv {..<phy_num e} (still (phy_num e) (phy_num e) cs) e" by (auto simp: settled_def)
  from own_work.round_total [OF this refl, of s] obtain n e' where r: "share_thread_round n (run_cb 0 s) e = Some e'"
    by auto
  have "engine_step m 0 s e Ev_round \<noteq> None" if "n \<le> m" for m
    using round_mono [OF r that] by simp
  then show ?thesis by blast
qed

text \<open>With such callbacks every sequence of events runs to its end.\<close>

lemma engine_step_mono: "engine_step n d s e x = Some e' \<Longrightarrow> n \<le> m \<Longrightarrow> engine_step m d s e x = Some e'"
  by (cases x) (auto intro: round_mono)

lemma engine_run_mono:
  "engine_run n d s e xs = Some e' \<Longrightarrow> n \<le> m \<Longrightarrow> engine_run m d s e xs = Some e'"
proof (induction xs arbitrary: e)
  case (Cons x xs)
  from Cons.prems(1) obtain e1 where e1: "engine_step n d s e x = Some e1" "engine_run n d s e1 xs = Some e'"
    by (auto split: option.splits)
  from engine_step_mono [OF e1(1) Cons.prems(2)] Cons.IH [OF e1(2) Cons.prems(2)]
  show ?case by simp
qed simp

lemma settled_runs:
  "settled e \<Longrightarrow> \<exists>n e'. engine_run n 0 s e xs = Some e'"
proof (induction xs arbitrary: e)
  case (Cons x xs)
  obtain n e1 where e1: "engine_step n 0 s e x = Some e1"
    using settled_round [OF Cons.prems, of s] by (cases x) auto
  from settled_step [OF Cons.prems e1] Cons.IH obtain m e' where "engine_run m 0 s e1 xs = Some e'" by blast
  from engine_run_mono [OF this] have r: "engine_run (max n m) 0 s e1 xs = Some e'" by simp
  have "engine_step (max n m) 0 s e x = Some e1" by (rule engine_step_mono [OF e1]) simp
  with r have "engine_run (max n m) 0 s e (x # xs) = Some e'" by simp
  then show ?case by blast
qed simp

end
