(* ===== verification/DispatcherPhase.thy ===== *)
theory DispatcherPhase
  imports DispatcherRound
begin

text \<open>
  The order in which the two phases feed a message to the modules, for callbacks that accept it.
\<close>

subsection \<open>Who gets the message\<close>

definition id_at :: "engine \<Rightarrow> nat \<Rightarrow> nat \<Rightarrow> u8" where
  "id_at e b a = mdl_id (d_modules (dsp e b) a)"

definition queue_at :: "engine \<Rightarrow> nat \<Rightarrow> nat \<Rightarrow> nat list" where
  "queue_at e b p = (let q = module_q (dsp e b) ! p in if pq_nonempty q then pq_queue q else [])"

definition wants :: "bool \<Rightarrow> nat \<Rightarrow> nat \<Rightarrow> engine \<Rightarrow> nat \<Rightarrow> bool" where
  "wants pre b i e a \<longleftrightarrow> chk_bitmap_bit (phase_map pre b i e) (id_at e b a) \<and>
     TEST_STATUS_FLAG (mdl_status (d_modules (dsp e b) a)) MDL_STARTED"

text \<open>
  Of one priority: the owner of the message first, if it has this priority and is in the map,
  then the started modules of the map, the oldest first in the first phase.
\<close>

definition owner_at :: "bool \<Rightarrow> nat \<Rightarrow> nat \<Rightarrow> engine \<Rightarrow> nat \<Rightarrow> nat list" where
  "owner_at pre b i e p = (case ex_module (msg_at e b i) of
       Some a \<Rightarrow> if id_at e b a < PHL_BK_MDL_END \<and> get_mdl_priority (id_at e b a) = Some p \<and>
                    chk_bitmap_bit (phase_map pre b i e) (id_at e b a) then [a] else []
     | None \<Rightarrow> [])"

definition receivers_at :: "bool \<Rightarrow> nat \<Rightarrow> nat \<Rightarrow> engine \<Rightarrow> nat \<Rightarrow> nat list" where
  "receivers_at pre b i e p =
     (let os = owner_at pre b i e p;
          as = filter (\<lambda>a. wants pre b i e a \<and> id_at e b a \<notin> id_at e b ` set os) (queue_at e b p)
      in os @ (if pre then as else rev as))"

definition receivers :: "bool \<Rightarrow> nat \<Rightarrow> nat \<Rightarrow> engine \<Rightarrow> nat list" where
  "receivers pre b i e =
     concat (map (receivers_at pre b i e)
       (if pre then rev [PHL_MDL_PRI_ROLE..<PHL_MDL_PRI_MAX] else [PHL_MDL_PRI_ROLE..<PHL_MDL_PRI_MAX]))"

definition modules_wf :: "engine \<Rightarrow> nat \<Rightarrow> bool" where
  "modules_wf e b \<longleftrightarrow> (\<forall>p < PHL_MDL_PRI_MAX. distinct (map (id_at e b) (queue_at e b p)) \<and>
     (\<forall>a \<in> set (queue_at e b p). get_mdl_priority (id_at e b a) = Some p))"

subsection \<open>Feeding\<close>

definition still_modules :: "nat \<Rightarrow> nat \<Rightarrow> engine \<Rightarrow> engine \<Rightarrow> bool" where
  "still_modules b i e e' \<longleftrightarrow> d_modules (dsp e' b) = d_modules (dsp e b) \<and> module_q (dsp e' b) = module_q (dsp e b) \<and>
     mid e' b i = mid e b i \<and> ex_module (msg_at e' b i) = ex_module (msg_at e b i) \<and>
     phy_num e' = phy_num e \<and> length (msg_pool (dsp e' b)) = length (msg_pool (dsp e b))"

definition fed :: "bool \<Rightarrow> nat \<Rightarrow> nat \<Rightarrow> engine \<Rightarrow> nat list \<Rightarrow> engine \<Rightarrow> bool" where
  "fed pre b i e as e' \<longleftrightarrow> still_modules b i e e' \<and>
     e_log e' = e_log e @ map (\<lambda>a. Cb_msg_hdlr b a i (mid e b i)) as \<and>
     (\<forall>k. chk_bitmap_bit (phase_map pre b i e') k \<longleftrightarrow> chk_bitmap_bit (phase_map pre b i e) k \<and> k \<notin> id_at e b ` set as)"

lemma fed_refl [simp]: "fed pre b i e [] e"
  by (simp add: fed_def still_modules_def)

lemma still_id: "still_modules b i e e' \<Longrightarrow> id_at e' b = id_at e b"
  by (simp add: still_modules_def id_at_def fun_eq_iff)

lemma still_queue: "still_modules b i e e' \<Longrightarrow> queue_at e' b = queue_at e b"
  by (simp add: still_modules_def queue_at_def fun_eq_iff)

lemma fed_trans: "fed pre b i e as e1 \<Longrightarrow> fed pre b i e1 bs e2 \<Longrightarrow> fed pre b i e (as @ bs) e2"
  unfolding fed_def using still_id [of b i e e1] by (auto simp: still_modules_def)

definition accepts :: "script \<Rightarrow> bool" where
  "accepts s \<longleftrightarrow> (\<forall>cb e. fst (s cb e) = MDL_RET_SUCCESS \<or> fst (s cb e) = MDL_RET_IGNORE)"

lemma chk_clr: "chk_bitmap_bit (clr_bitmap_bit m [k]) j \<longleftrightarrow> chk_bitmap_bit m j \<and> j \<noteq> k"
  by (auto simp: chk_bitmap_bit_def clr_bitmap_bit_def test_clr_at word_unat_eq_iff)

lemma feed_one:
  assumes s: "accepts s" and b: "b < phy_num e" and i: "i < length (msg_pool (dsp e b))"
    and ph: "pre \<longleftrightarrow> MSG_INDC_FIELD (mid e b i) AND MSG_INDC_PRE_PHASE \<noteq> 0"
    and f: "feed_mdl_msg (run_cb 0 s) b a i e = (ret, e')"
  shows "\<not> STOP_DISPATCH_MSG ret \<and> fed pre b i e [a] e'"
proof -
  let ?cb = "Cb_msg_hdlr b a i (mid e b i)"
  have ret: "ret = fst (s ?cb e)" "ret = MDL_RET_SUCCESS \<or> ret = MDL_RET_IGNORE"
    using f s by (auto simp: feed_mdl_msg_def accepts_def)
  have e': "e' = clr_phase_map b i (id_at e b a) (log_cb ?cb e)"
    using f ret by (auto simp: feed_mdl_msg_def id_at_def log_cb_def Let_def)
  have "still_modules b i e e'" "e_log e' = e_log e @ [?cb]"
    using b i unfolding e' clr_phase_map_def
    by (auto simp: still_modules_def log_cb_def upd_msg_def dsp_upd upd_def)
  moreover have "phase_map pre b i e' = clr_bitmap_bit (phase_map pre b i e) [id_at e b a]"
    using b i ph unfolding e' clr_phase_map_def
    by (cases pre) (auto simp: phase_map_def log_cb_def upd_msg_def dsp_upd)
  ultimately show ?thesis using ret(2) by (auto simp: STOP_DISPATCH_MSG_def fed_def chk_clr)
qed

definition ready_phase :: "bool \<Rightarrow> nat \<Rightarrow> nat \<Rightarrow> engine \<Rightarrow> bool" where
  "ready_phase pre b i e \<longleftrightarrow> b < phy_num e \<and> i < length (msg_pool (dsp e b)) \<and>
     (pre \<longleftrightarrow> MSG_INDC_FIELD (mid e b i) AND MSG_INDC_PRE_PHASE \<noteq> 0)"

lemma ready_still: "ready_phase pre b i e \<Longrightarrow> still_modules b i e e' \<Longrightarrow> ready_phase pre b i e'"
  by (simp add: ready_phase_def still_modules_def)

lemma ready_fed: "ready_phase pre b i e \<Longrightarrow> fed pre b i e as e' \<Longrightarrow> ready_phase pre b i e'"
  by (simp add: fed_def ready_still)

lemma feed_queue_order:
  assumes s: "accepts s"
  shows "ready_phase pre b i e \<Longrightarrow> distinct (map (id_at e b) as) \<Longrightarrow>
     \<exists>e'. feed_queue (run_cb 0 s) pre b i as e = (False, e') \<and> fed pre b i e (filter (wants pre b i e) as) e'"
proof (induction as arbitrary: e)
  case (Cons a as)
  show ?case
  proof (cases "wants pre b i e a")
    case False
    with Cons show ?thesis by (auto simp: wants_def id_at_def)
  next
    case True
    obtain ret e1 where f: "feed_mdl_msg (run_cb 0 s) b a i e = (ret, e1)" by fastforce
    from feed_one [OF s _ _ _ f] Cons.prems(1)
    have e1: "\<not> STOP_DISPATCH_MSG ret" "fed pre b i e [a] e1" by (auto simp: ready_phase_def)
    then have st: "still_modules b i e e1" by (simp add: fed_def)
    from Cons.IH [OF ready_fed [OF Cons.prems(1) e1(2)]] Cons.prems(2) still_id [OF st] obtain e' where
      e': "feed_queue (run_cb 0 s) pre b i as e1 = (False, e')" "fed pre b i e1 (filter (wants pre b i e1) as) e'"
      by (auto simp del: run_cb.simps)
    have "id_at e b x \<noteq> id_at e b a" if "x \<in> set as" for x
    proof
      assume "id_at e b x = id_at e b a"
      with that have "id_at e b a \<in> id_at e b ` set as" by (metis imageI)
      with Cons.prems(2) show False by simp
    qed
    then have "filter (wants pre b i e1) as = filter (wants pre b i e) as"
      using e1(2) still_id [OF st]
      by (auto intro!: filter_cong simp: wants_def fed_def still_modules_def)
    with fed_trans [OF e1(2) e'(2)] True have "fed pre b i e (filter (wants pre b i e) (a # as)) e'" by simp
    moreover have "feed_queue (run_cb 0 s) pre b i (a # as) e = (False, e')"
      using e'(1) e1(1) f True by (simp add: wants_def id_at_def del: run_cb.simps)
    ultimately show ?thesis by blast
  qed
qed simp


lemma feed_owner_order:
  assumes s: "accepts s" and r: "ready_phase pre b i e"
  shows "\<exists>e'. feed_owner (run_cb 0 s) pre b i (msg_owner_id b i e) p e = (False, e') \<and> fed pre b i e (owner_at pre b i e p) e'"
proof (cases "ex_module (msg_at e b i)")
  case None
  have "\<not> PHL_MDL_ID_MAX < PHL_BK_MDL_END" by (simp add: PHL_MDL_ID_MAX_def PHL_BK_MDL_END_def)
  with None show ?thesis by (simp add: feed_owner_def msg_owner_id_def owner_at_def)
next
  case (Some a)
  obtain ret e1 where f: "feed_mdl_msg (run_cb 0 s) b a i e = (ret, e1)" by fastforce
  from feed_one [OF s _ _ _ f] r have "\<not> STOP_DISPATCH_MSG ret" "fed pre b i e [a] e1"
    by (auto simp: ready_phase_def)
  with Some f show ?thesis
    by (auto simp: feed_owner_def msg_owner_id_def id_at_def owner_at_def simp del: run_cb.simps)
qed

lemma priority_at:
  assumes s: "accepts s" and r: "ready_phase pre b i e" and wf: "distinct (map (id_at e b) (queue_at e b p))"
  shows "\<exists>e1 e2. feed_owner (run_cb 0 s) pre b i (msg_owner_id b i e) p e = (False, e1) \<and>
    feed_queue (run_cb 0 s) pre b i (if pre then queue_at e1 b p else rev (queue_at e1 b p)) e1 = (False, e2) \<and>
    fed pre b i e (receivers_at pre b i e p) e2"
proof -
  define os where "os = owner_at pre b i e p"
  from feed_owner_order [OF s r, of p, folded os_def] obtain e1 where
    e1: "feed_owner (run_cb 0 s) pre b i (msg_owner_id b i e) p e = (False, e1)" "fed pre b i e os e1" by blast
  have st: "still_modules b i e e1" using e1(2) by (simp add: fed_def)
  let ?q = "if pre then queue_at e b p else rev (queue_at e b p)"
  have "distinct (map (id_at e1 b) ?q)" using wf still_id [OF st] by (simp add: rev_map [symmetric])
  from feed_queue_order [OF s ready_fed [OF r e1(2)] this] obtain e2 where
    e2: "feed_queue (run_cb 0 s) pre b i ?q e1 = (False, e2)" "fed pre b i e1 (filter (wants pre b i e1) ?q) e2" by blast
  have "filter (wants pre b i e1) as = filter (\<lambda>a. wants pre b i e a \<and> id_at e b a \<notin> id_at e b ` set os) as" for as
    using e1(2) still_id [OF st] by (auto intro!: filter_cong simp: wants_def fed_def still_modules_def)
  then have "receivers_at pre b i e p = os @ filter (wants pre b i e1) ?q"
    by (simp add: receivers_at_def os_def [symmetric] Let_def rev_filter)
  with fed_trans [OF e1(2) e2(2)] e1(1) e2(1) still_queue [OF st] show ?thesis by auto
qed

text \<open>The receivers at another priority are the same after one priority was served.\<close>

lemma receivers_at_same:
  assumes wf: "modules_wf e b" and p: "p < PHL_MDL_PRI_MAX" "p' < PHL_MDL_PRI_MAX" "p \<noteq> p'"
    and f: "fed pre b i e (receivers_at pre b i e p) e'"
  shows "receivers_at pre b i e' p' = receivers_at pre b i e p'"
proof -
  have st: "still_modules b i e e'" using f by (simp add: fed_def)
  have pri: "get_mdl_priority (id_at e b a) = Some p" if "a \<in> set (receivers_at pre b i e p)" for a
    using wf p(1) that by (auto simp: receivers_at_def owner_at_def modules_wf_def Let_def split: option.splits if_splits)
  have chk: "chk_bitmap_bit (phase_map pre b i e') k = chk_bitmap_bit (phase_map pre b i e) k"
    if "get_mdl_priority k = Some p'" for k
  proof -
    have "k \<notin> id_at e b ` set (receivers_at pre b i e p)" using pri that p(3) by auto
    with f show ?thesis by (simp add: fed_def)
  qed
  have w: "wants pre b i e' a = wants pre b i e a" if "a \<in> set (queue_at e b p')" for a
    using chk [of "id_at e b a"] wf p(2) that still_id [OF st] st
    by (simp add: wants_def modules_wf_def still_modules_def)
  have fl: "filter (\<lambda>a. wants pre b i e' a \<and> P a) (queue_at e b p') = filter (\<lambda>a. wants pre b i e a \<and> P a) (queue_at e b p')" for P
    using w by (auto intro: filter_cong)
  have os: "owner_at pre b i e' p' = owner_at pre b i e p'"
    using st still_id [OF st] chk by (auto simp: owner_at_def still_modules_def split: option.split)
  show ?thesis unfolding receivers_at_def os still_queue [OF st] still_id [OF st] fl ..
qed

lemma phase_order:
  assumes s: "accepts s"
  shows "ready_phase pre b i e \<Longrightarrow> modules_wf e b \<Longrightarrow> distinct ps \<Longrightarrow> set ps \<subseteq> {..<PHL_MDL_PRI_MAX} \<Longrightarrow>
     fed pre b i e (concat (map (receivers_at pre b i e) ps)) (phase_loop (run_cb 0 s) pre b i (msg_owner_id b i e) ps e)"
proof (induction ps arbitrary: e)
  case (Cons p ps)
  have p: "p < PHL_MDL_PRI_MAX" and wf: "distinct (map (id_at e b) (queue_at e b p))"
    using Cons.prems(2,4) by (auto simp: modules_wf_def)
  from priority_at [OF s Cons.prems(1) wf] obtain e1 e2 where
    e1: "feed_owner (run_cb 0 s) pre b i (msg_owner_id b i e) p e = (False, e1)"
    and e2: "feed_queue (run_cb 0 s) pre b i (if pre then queue_at e1 b p else rev (queue_at e1 b p)) e1 = (False, e2)"
    and f: "fed pre b i e (receivers_at pre b i e p) e2" by blast
  have st: "still_modules b i e e2" using f by (simp add: fed_def)
  have wf2: "modules_wf e2 b"
    using Cons.prems(2) still_id [OF st] still_queue [OF st] by (simp add: modules_wf_def)
  have same: "map (receivers_at pre b i e2) ps = map (receivers_at pre b i e) ps"
    using receivers_at_same [OF Cons.prems(2) p _ _ f] Cons.prems(3,4) by auto
  have owner: "msg_owner_id b i e2 = msg_owner_id b i e"
    using st by (simp add: msg_owner_id_def still_modules_def split: option.split)
  have step: "phase_loop (run_cb 0 s) pre b i (msg_owner_id b i e) (p # ps) e =
      phase_loop (run_cb 0 s) pre b i (msg_owner_id b i e) ps e2"
    using e1 e2 [unfolded queue_at_def Let_def] by (simp only: phase_loop.simps Let_def split_conv if_False)
  have "fed pre b i e2 (concat (map (receivers_at pre b i e2) ps))
      (phase_loop (run_cb 0 s) pre b i (msg_owner_id b i e2) ps e2)"
    using Cons.prems(3,4) by (intro Cons.IH [OF ready_fed [OF Cons.prems(1) f] wf2]) auto
  from fed_trans [OF f this] show ?case unfolding same owner step by simp
qed simp

text \<open>No module is among the receivers twice.\<close>

lemma receivers_at_priority:
  assumes "modules_wf e b" "p < PHL_MDL_PRI_MAX" "a \<in> set (receivers_at pre b i e p)"
  shows "get_mdl_priority (id_at e b a) = Some p"
  using assms by (auto simp: receivers_at_def owner_at_def modules_wf_def Let_def split: option.splits if_splits)

lemma receivers_at_once:
  assumes "modules_wf e b" "p < PHL_MDL_PRI_MAX"
  shows "distinct (map (id_at e b) (receivers_at pre b i e p))"
proof -
  have "distinct (map (id_at e b) (queue_at e b p))" using assms by (simp add: modules_wf_def)
  then have "distinct (map (id_at e b) (filter P (queue_at e b p)))" for P by (rule distinct_map_filter)
  moreover have "distinct (map (id_at e b) (owner_at pre b i e p))" by (simp add: owner_at_def split: option.split)
  ultimately show ?thesis
    by (auto simp: receivers_at_def rev_map [symmetric] Let_def) (metis imageI)+
qed

lemma receivers_once:
  assumes wf: "modules_wf e b"
  shows "distinct (map (id_at e b) (receivers pre b i e))"
proof -
  have *: "distinct (map (id_at e b) (concat (map (receivers_at pre b i e) ps)))"
    if "distinct ps" "\<forall>p \<in> set ps. p < PHL_MDL_PRI_MAX" for ps
    using that
  proof (induction ps)
    case (Cons p ps)
    have False if "a \<in> set (receivers_at pre b i e p)" "q \<in> set ps" "c \<in> set (receivers_at pre b i e q)"
      "id_at e b a = id_at e b c" for a q c
      using receivers_at_priority [OF wf _ that(1)] receivers_at_priority [OF wf _ that(3)] that(2,4) Cons.prems by auto
    then show ?case using Cons receivers_at_once [OF wf, of p pre i] by fastforce
  qed simp
  show ?thesis unfolding receivers_def by (rule *) auto
qed

end
