(* ===== verification/DispatcherProps.thy ===== *)
theory DispatcherProps
  imports DispatcherPhase
begin

text \<open>What the dispatchers promise, over their whole life and operation by operation.\<close>

subsection \<open>A sample engine\<close>

definition no_engine :: engine where
  "no_engine = \<lparr>e_disp = [], e_sema = 0, e_log = []\<rparr>"

definition ack :: script where
  "ack cb e = (MDL_RET_SUCCESS, [])"

definition sample_req :: token_req where
  "sample_req = \<lparr>req_module_id = PHL_FG_MDL_START, req_opt = FG_CMD_OPT_EXCLUSIVE, req_priv = 0\<rparr>"

definition all_ops :: req_ops where
  "all_ops = \<lparr>ro_abort = True, ro_acquired = True, ro_msg_hdlr = True, ro_set_info = True, ro_query_info = True\<rparr>"

definition sample_events :: "engine_event list" where
  "sample_events = [Ev_register (Some 1) 0 PHL_MDL_POWER_MGNT None, Ev_call (Api_add_token 0 sample_req all_ops),
     Ev_round, Ev_call (Api_send (bk_msg PHL_MDL_PHY_MGNT MSG_EVT_PHY_ON) None), Ev_round, Ev_call (Api_cancel_token 0 0)]"

definition ready_engine :: engine where
  "ready_engine = snd (phl_disp_eng_init (run_cb 0 ack) 2 no_engine)"

lemma ready_engine: "fresh ready_engine" "phy_num ready_engine = 2"
  using init_unused [of no_engine 0 ack 2] unused_fresh unfolding ready_engine_def
  by (simp_all add: no_engine_def del: run_cb.simps)

lemma sample_run:
  obtains st e0 m e1 where "phl_disp_eng_start (run_cb 0 ack) ready_engine = (st, e0)"
    "engine_run m 0 ack e0 sample_events = Some e1"
proof -
  obtain st e0 where e0: "phl_disp_eng_start (run_cb 0 ack) ready_engine = (st, e0)" by fastforce
  from start_settled [OF ready_engine(1) e0] settled_runs obtain m e1 where
    "engine_run m 0 ack e0 sample_events = Some e1" by blast
  with e0 that show ?thesis by blast
qed

subsection \<open>The invariants of a running engine\<close>

text \<open>
  C4. An engine that was started and then runs through any sequence of interface calls, module
  registrations and rounds of the thread, with callbacks that call back in turn, loses and
  duplicates no message: each of the 24 slots of a band is in exactly one of the idle, the
  waiting and the pending queue.
\<close>

theorem message_slots_conserved:
  assumes "fresh e" "phl_disp_eng_start (run_cb d s) e = (st, e0)" "engine_run m d s e0 xs = Some e1"
    and "b < phy_num e"
  shows "mset (pq_queue (msg_idle_q (dsp e1 b))) + mset (pq_queue (msg_wait_q (dsp e1 b))) +
      mset (pq_queue (msg_pend_q (dsp e1 b))) = mset [0..<MAX_PHL_MSG_NUM]"
proof -
  from start_settled [OF assms(1,2)] settled_run [OF _ assms(3)] assms(4) have "settled e1" "b < phy_num e1" by auto
  from disp_invD(4) [OF settled_band(1) [OF this]] show ?thesis by (simp add: msgs_of_def)
qed

lemma message_slots_conserved_witness:
  "\<exists>m st e0 e1. phl_disp_eng_start (run_cb 0 ack) ready_engine = (st, e0) \<and>
     engine_run m 0 ack e0 sample_events = Some e1 \<and>
     mset (pq_queue (msg_idle_q (dsp e1 1))) + mset (pq_queue (msg_wait_q (dsp e1 1))) +
      mset (pq_queue (msg_pend_q (dsp e1 1))) = mset [0..<MAX_PHL_MSG_NUM]"
proof (rule sample_run)
  fix st e0 m e1
  assume r: "phl_disp_eng_start (run_cb 0 ack) ready_engine = (st, e0)" "engine_run m 0 ack e0 sample_events = Some e1"
  have "1 < phy_num ready_engine" using ready_engine(2) by simp
  from message_slots_conserved [OF ready_engine(1) r this] r show ?thesis by blast
qed

text \<open>
  C11. A band has at most one current command. Each of its 8 request slots is idle, waiting, or
  the current command; the token counter is 1 exactly when there is a current command; only the
  current command is marked as running, and exactly the waiting ones as queued.
\<close>

theorem one_command_at_a_time:
  assumes "fresh e" "phl_disp_eng_start (run_cb d s) e = (st, e0)" "engine_run m d s e0 xs = Some e1"
    and "b < phy_num e"
  shows "mset (pq_queue (req_idle_q (dsp e1 b))) + mset (pq_queue (req_wait_q (dsp e1 b))) +
      (case cur_cmd_req (dsp e1 b) of None \<Rightarrow> {#} | Some r \<Rightarrow> {#r#}) = mset [0..<MAX_CMD_REQ_NUM] \<and>
    token_cnt (dsp e1 b) = (if cur_cmd_req (dsp e1 b) = None then 0 else 1) \<and>
    (\<forall>r < MAX_CMD_REQ_NUM. (r_test e1 b r REQ_STATUS_RUN \<longrightarrow> cur_cmd_req (dsp e1 b) = Some r) \<and>
       (r_test e1 b r REQ_STATUS_ENQ \<longleftrightarrow> r \<in> set (pq_queue (req_wait_q (dsp e1 b)))))"
proof -
  from start_settled [OF assms(1,2)] settled_run [OF _ assms(3)] assms(4) have "settled e1" "b < phy_num e1" by auto
  note d = disp_invD(5,7,8) [OF settled_band(1) [OF this]]
  have "r_test e1 b r REQ_STATUS_RUN = running (dsp e1 b) r" "r_test e1 b r REQ_STATUS_ENQ = enq (dsp e1 b) r" for r
    by (simp_all add: r_test_def running_def enq_def REQ_STATUS_RUN_def REQ_STATUS_ENQ_def flag_simps)
  with d show ?thesis by (simp add: reqs_of_def cur_mset_def req_flags_def)
qed

lemma one_command_at_a_time_witness:
  "\<exists>m st e0 e1. phl_disp_eng_start (run_cb 0 ack) ready_engine = (st, e0) \<and>
     engine_run m 0 ack e0 sample_events = Some e1 \<and>
     token_cnt (dsp e1 0) = (if cur_cmd_req (dsp e1 0) = None then 0 else 1)"
proof (rule sample_run)
  fix st e0 m e1
  assume r: "phl_disp_eng_start (run_cb 0 ack) ready_engine = (st, e0)" "engine_run m 0 ack e0 sample_events = Some e1"
  have "0 < phy_num ready_engine" using ready_engine(2) by simp
  from one_command_at_a_time [OF ready_engine(1) r this] r show ?thesis by blast
qed

text \<open>
  C13. Exclusive use of the hardware is granted only with clearance: with two bands, it never
  happens that a band is in exclusive use while the other one has not given clearance.
\<close>

theorem exclusive_needs_clearance:
  assumes "fresh e" "phl_disp_eng_start (run_cb d s) e = (st, e0)" "engine_run m d s e0 xs = Some e1"
    and "phy_num e = 2" "b < 2"
  shows "\<not> (d_test e1 b DISPR_EXCLUSIVE_USE \<and> \<not> d_test e1 (ntfyidx b) DISPR_CLEARANCE)"
proof -
  from start_settled [OF assms(1,2)] settled_run [OF _ assms(3)] assms(4) have "settled e1" "phy_num e1 = 2" by auto
  from settled_excl [OF this(1)] this(2) assms(5) show ?thesis by (simp add: excl_ok_def)
qed

lemma exclusive_needs_clearance_witness:
  "\<exists>m st e0 e1. phl_disp_eng_start (run_cb 0 ack) ready_engine = (st, e0) \<and>
     engine_run m 0 ack e0 sample_events = Some e1 \<and>
     \<not> (d_test e1 0 DISPR_EXCLUSIVE_USE \<and> \<not> d_test e1 (ntfyidx 0) DISPR_CLEARANCE)"
proof (rule sample_run)
  fix st e0 m e1
  assume r: "phl_disp_eng_start (run_cb 0 ack) ready_engine = (st, e0)" "engine_run m 0 ack e0 sample_events = Some e1"
  from exclusive_needs_clearance [OF ready_engine(1) r ready_engine(2), of 0] r show ?thesis by auto
qed

text \<open>
  C32. No wake-up of the thread is lost: the semaphore counts at least as many notifications as
  there are messages or token operations that wait in any one queue.
\<close>

theorem no_lost_wakeup:
  assumes "fresh e" "phl_disp_eng_start (run_cb d s) e = (st, e0)" "engine_run m d s e0 xs = Some e1"
    and "b < phy_num e"
  shows "length (pq_queue (msg_wait_q (dsp e1 b))) \<le> e_sema e1 \<and>
    length (pq_queue (token_op_q (dsp e1 b))) \<le> e_sema e1"
proof -
  from start_settled [OF assms(1,2)] settled_run [OF _ assms(3)] assms(4) have "settled e1" "b < phy_num e1" by auto
  from settled_band(2,3) [OF this] show ?thesis by simp
qed

lemma no_lost_wakeup_witness:
  "\<exists>m st e0 e1. phl_disp_eng_start (run_cb 0 ack) ready_engine = (st, e0) \<and>
     engine_run m 0 ack e0 sample_events = Some e1 \<and> length (pq_queue (msg_wait_q (dsp e1 0))) \<le> e_sema e1"
proof (rule sample_run)
  fix st e0 m e1
  assume r: "phl_disp_eng_start (run_cb 0 ack) ready_engine = (st, e0)" "engine_run m 0 ack e0 sample_events = Some e1"
  have "0 < phy_num ready_engine" using ready_engine(2) by simp
  from no_lost_wakeup [OF ready_engine(1) r this] r show ?thesis by blast
qed

subsection \<open>Stopping\<close>

text \<open>
  C12. The stop of a running engine ends, whatever was queued and whatever the callbacks do: 26
  rounds of fuel are enough for its loops. It reports success, nothing waits in any queue
  afterwards, no band has a command, and the engine can be started again.
\<close>

theorem engine_stop_terminates:
  assumes "fresh e" "phl_disp_eng_start (run_cb d s) e = (st, e0)" "engine_run m d s e0 xs = Some e1" "26 \<le> n"
  shows "\<exists>e2. phl_disp_eng_stop n (run_cb d s) e1 = Some (RTW_PHL_STATUS_SUCCESS, e2) \<and>
    fresh e2 \<and> phy_num e2 = phy_num e \<and>
    (\<forall>b < phy_num e. pq_queue (msg_wait_q (dsp e2 b)) = [] \<and> pq_queue (msg_pend_q (dsp e2 b)) = [] \<and>
       pq_queue (req_wait_q (dsp e2 b)) = [] \<and> cur_cmd_req (dsp e2 b) = None \<and> token_cnt (dsp e2 b) = 0)"
proof -
  from start_settled [OF assms(1,2)] settled_run [OF _ assms(3)] have "settled e1" "phy_num e1 = phy_num e" by auto
  with stop_total [of e1 n d s] assms(4) show ?thesis
    by (auto simp: MAX_PHL_MSG_NUM_def drained_def fresh_def resting_def)
qed

lemma engine_stop_terminates_witness:
  "\<exists>m st e0 e1 e2. phl_disp_eng_start (run_cb 0 ack) ready_engine = (st, e0) \<and>
     engine_run m 0 ack e0 sample_events = Some e1 \<and>
     phl_disp_eng_stop 26 (run_cb 0 ack) e1 = Some (RTW_PHL_STATUS_SUCCESS, e2) \<and> fresh e2"
proof (rule sample_run)
  fix st e0 m e1
  assume r: "phl_disp_eng_start (run_cb 0 ack) ready_engine = (st, e0)" "engine_run m 0 ack e0 sample_events = Some e1"
  from engine_stop_terminates [OF ready_engine(1) r order_refl] r show ?thesis by blast
qed

text \<open>A life of the engine: it is initialised, and then started, used and stopped any number of times.\<close>

fun engine_life :: "nat \<Rightarrow> nat \<Rightarrow> script \<Rightarrow> engine \<Rightarrow> engine_event list list \<Rightarrow> engine option" where
  "engine_life m d s e [] = Some e"
| "engine_life m d s e (xs # xss) =
     (case engine_run m d s (snd (phl_disp_eng_start (run_cb d s) e)) xs of
        None \<Rightarrow> None
      | Some e \<Rightarrow>
          (case phl_disp_eng_stop m (run_cb d s) e of
             None \<Rightarrow> None
           | Some (_, e) \<Rightarrow> engine_life m d s e xss))"

text \<open>
  From its initialisation on the engine is fit to be started, and it is so again after every
  start, use and stop: no band is started, has its pools or a command, and no band is in
  exclusive use without the clearance of the other.
\<close>

theorem engine_life_fresh:
  assumes "e_disp e = []" "engine_life m d s (snd (phl_disp_eng_init (run_cb d s) n e)) xss = Some e'"
    and "26 \<le> m"
  shows "phy_num e' = n \<and> excl_ok e' \<and>
    (\<forall>b < n. \<not> d_test e' b DISPR_STARTED \<and> \<not> d_test e' b DISPR_MSGQ_INIT \<and> \<not> d_test e' b DISPR_REQ_INIT \<and>
       cur_cmd_req (dsp e' b) = None)"
proof -
  have "fresh e1 \<Longrightarrow> engine_life m d s e1 xss = Some e' \<Longrightarrow> fresh e' \<and> phy_num e' = phy_num e1" for e1
  proof (induction xss arbitrary: e1)
    case (Cons xs xss)
    obtain st e2 where st: "phl_disp_eng_start (run_cb d s) e1 = (st, e2)" by fastforce
    with Cons.prems(2) obtain e3 where r: "engine_run m d s e2 xs = Some e3" by (auto split: option.splits)
    from start_settled [OF Cons.prems(1) st] settled_run [OF _ r]
    have e3: "settled e3" "phy_num e3 = phy_num e1" by auto
    from stop_total [OF e3(1), of m d s] assms(3) obtain e4 where
      e4: "phl_disp_eng_stop m (run_cb d s) e3 = Some (RTW_PHL_STATUS_SUCCESS, e4)" "fresh e4" "phy_num e4 = phy_num e3"
      by (auto simp: MAX_PHL_MSG_NUM_def)
    from Cons.IH [OF e4(2)] Cons.prems(2) st r e4 e3(2) show ?case by simp
  qed simp
  from this [OF _ assms(2)] init_unused [OF assms(1), of d s n] unused_fresh
  have "fresh e'" "phy_num e' = n" by auto
  then show ?thesis
    by (auto simp: fresh_def resting_def d_test_def DISPR_STARTED_def DISPR_MSGQ_INIT_def DISPR_REQ_INIT_def flag_simps)
qed

lemma engine_life_fresh_witness:
  "\<exists>m e'. engine_life m 0 ack ready_engine [sample_events] = Some e' \<and> phy_num e' = 2 \<and> excl_ok e'"
proof (rule sample_run)
  fix st e0 m e1
  assume r: "phl_disp_eng_start (run_cb 0 ack) ready_engine = (st, e0)" "engine_run m 0 ack e0 sample_events = Some e1"
  let ?m = "max m 26"
  have r': "engine_run ?m 0 ack e0 sample_events = Some e1" by (rule engine_run_mono [OF r(2)]) simp
  from start_settled [OF ready_engine(1) r(1)] settled_run [OF _ r(2)] have "settled e1" by auto
  from stop_total [OF this, of ?m 0 ack] obtain e2 where
    "phl_disp_eng_stop ?m (run_cb 0 ack) e1 = Some (RTW_PHL_STATUS_SUCCESS, e2)" by (auto simp: MAX_PHL_MSG_NUM_def)
  with r(1) r' have l: "engine_life ?m 0 ack ready_engine [sample_events] = Some e2"
    by (simp del: run_cb.simps)
  have "e_disp no_engine = []" by (simp add: no_engine_def)
  from engine_life_fresh [OF this l [unfolded ready_engine_def]] l show ?thesis by auto
qed

text \<open>
  C39. The thread makes progress: when the callbacks do only their own work, every sequence of
  events runs to its end. The loops over token operations and requests end, with any fuel from
  some bound on.
\<close>

theorem engine_runs_to_the_end:
  assumes "fresh e" "phl_disp_eng_start (run_cb 0 s) e = (st, e0)"
  shows "\<exists>n. \<forall>m \<ge> n. engine_run m 0 s e0 xs \<noteq> None"
proof -
  from start_settled [OF assms] settled_runs obtain n e1 where r: "engine_run n 0 s e0 xs = Some e1" by blast
  have "engine_run m 0 s e0 xs \<noteq> None" if "n \<le> m" for m using engine_run_mono [OF r that] by simp
  then show ?thesis by blast
qed

lemma engine_runs_to_the_end_witness:
  "\<exists>n. \<forall>m \<ge> n. engine_run m 0 ack (snd (phl_disp_eng_start (run_cb 0 ack) ready_engine)) sample_events \<noteq> None"
  using engine_runs_to_the_end [OF ready_engine(1) prod.collapse [symmetric]] .

subsection \<open>Operation by operation\<close>

definition is_ctrl :: "engine \<Rightarrow> nat \<Rightarrow> nat \<Rightarrow> bool" where
  "is_ctrl e b i \<longleftrightarrow> IS_DISPR_CTRL (MSG_MDL_ID_FIELD (mid e b i))"

text \<open>The abstract wait queue: two queues, one for the messages to the controller and one for all others.\<close>

definition wait_abs :: "engine \<Rightarrow> nat \<Rightarrow> nat list \<times> nat list" where
  "wait_abs e b = (filter (is_ctrl e b) (pq_queue (msg_wait_q (dsp e b))),
     filter (\<lambda>i. \<not> is_ctrl e b i) (pq_queue (msg_wait_q (dsp e b))))"

definition ctrl_first :: "engine \<Rightarrow> nat \<Rightarrow> bool" where
  "ctrl_first e b \<longleftrightarrow> pq_queue (msg_wait_q (dsp e b)) = fst (wait_abs e b) @ snd (wait_abs e b)"

lemma is_ctrl_status: "is_ctrl (m_set f b' j e) b i = is_ctrl e b i" "is_ctrl (m_clear f b' j e) b i = is_ctrl e b i"
  unfolding is_ctrl_def m_set_def m_clear_def upd_msg_def
  by (cases "j < length (msg_pool (dsp e b'))"; auto simp: dsp_upd nth_list_update list_update_beyond)+

lemma wait_q_status: "msg_wait_q (dsp (m_set f b' j e) b) = msg_wait_q (dsp e b)"
    "msg_wait_q (dsp (m_clear f b' j e) b) = msg_wait_q (dsp e b)"
    "phy_num (m_set f b' j e) = phy_num e" "phy_num (m_clear f b' j e) = phy_num e"
  by (simp_all add: m_set_def m_clear_def upd_msg_def dsp_upd)

lemma split_first: "(\<forall>x \<in> set xs. P x) \<Longrightarrow> (\<forall>y \<in> set ys. \<not> P y) \<Longrightarrow>
    takeWhile P (xs @ ys) = xs \<and> dropWhile P (xs @ ys) = ys"
  by (cases ys) auto

lemma is_ctrl_fun: "is_ctrl (m_set f b' j e) b = is_ctrl e b" "is_ctrl (m_clear f b' j e) b = is_ctrl e b"
  using is_ctrl_status by (simp_all add: fun_eq_iff)

lemma is_ctrl_pool: "msg_pool (dsp e' b) = msg_pool (dsp e b) \<Longrightarrow> is_ctrl e' b = is_ctrl e b"
  by (simp add: is_ctrl_def fun_eq_iff)

text \<open>The wait queue after a message was queued, by its kind, and after one was taken.\<close>

lemma requeue_queue:
  assumes "b < phy_num e" "ctrl_first e b"
  shows "is_ctrl (requeue_msg b i e) b = is_ctrl e b \<and>
    pq_queue (msg_wait_q (dsp (requeue_msg b i e) b)) =
      (if is_ctrl e b i then fst (wait_abs e b) @ i # snd (wait_abs e b)
       else fst (wait_abs e b) @ snd (wait_abs e b) @ [i])"
proof (cases "is_ctrl e b i")
  case True
  let ?e = "m_clear MSG_STATUS_RUN b i (m_set MSG_STATUS_ENQ b i e)"
  have hp: "is_higher_priority (dsp ?e b) i j = (\<not> is_ctrl e b j)" for j
    using True is_ctrl_status [of MSG_STATUS_RUN b i "m_set MSG_STATUS_ENQ b i e"]
      is_ctrl_status(1) [of MSG_STATUS_ENQ b i e b]
    unfolding is_higher_priority_def is_ctrl_def by simp
  have q: "pq_queue (msg_wait_q (dsp e b)) = fst (wait_abs e b) @ snd (wait_abs e b)"
    using assms(2) by (simp add: ctrl_first_def)
  have sp: "takeWhile (is_ctrl e b) (fst (wait_abs e b) @ snd (wait_abs e b)) = fst (wait_abs e b) \<and>
      dropWhile (is_ctrl e b) (fst (wait_abs e b) @ snd (wait_abs e b)) = snd (wait_abs e b)"
    by (rule split_first) (auto simp: wait_abs_def)
  have r: "requeue_msg b i e = insert_msg_by_priority b i e" using True by (simp add: requeue_msg_def is_ctrl_def)
  have "pq_queue (msg_wait_q (dsp (requeue_msg b i e) b)) = fst (wait_abs e b) @ i # snd (wait_abs e b)"
    unfolding r insert_msg_by_priority_def Let_def using assms(1) sp
    by (simp add: notify_dispr_thread_def dsp_upd wait_q_status pq_insert_def Let_def hp q)
  moreover have "is_ctrl (requeue_msg b i e) b = is_ctrl ?e b"
    unfolding r insert_msg_by_priority_def Let_def
    by (rule is_ctrl_pool) (simp add: notify_dispr_thread_def dsp_upd)
  ultimately show ?thesis using True by (simp add: is_ctrl_fun)
next
  case False
  let ?e = "m_clear MSG_STATUS_RUN b i (m_set MSG_STATUS_ENQ b i e)"
  have r: "requeue_msg b i e = push_back_wait_msg b i e" using False by (simp add: requeue_msg_def is_ctrl_def)
  have "is_ctrl (requeue_msg b i e) b = is_ctrl ?e b"
    unfolding r push_back_wait_msg_def Let_def
    by (rule is_ctrl_pool) (simp add: notify_dispr_thread_def dsp_upd)
  moreover have "pq_queue (msg_wait_q (dsp (requeue_msg b i e) b)) = pq_queue (msg_wait_q (dsp e b)) @ [i]"
    unfolding r push_back_wait_msg_def Let_def using assms(1)
    by (simp add: notify_dispr_thread_def dsp_upd wait_q_status)
  ultimately show ?thesis using False assms(2) by (simp add: is_ctrl_fun ctrl_first_def)
qed

lemma pop_wait_queue:
  assumes "b < phy_num e" "pq_wf (msg_wait_q (dsp e b))" "pop_front_wait_msg b e = (x, e')"
  shows "is_ctrl e' b = is_ctrl e b \<and>
    (case pq_queue (msg_wait_q (dsp e b)) of
       [] \<Rightarrow> x = None \<and> e' = e
     | i # q \<Rightarrow> x = Some i \<and> pq_queue (msg_wait_q (dsp e' b)) = q)"
proof (cases "pq_pop (msg_wait_q (dsp e b)) First")
  case (Pair y q)
  show ?thesis
  proof (cases y)
    case None
    with assms Pair show ?thesis by (auto simp: pop_front_wait_msg_def dest: pq_pop_None)
  next
    case (Some i)
    note q = pq_pop_Some [OF assms(2) Pair [unfolded Some]]
    have "is_ctrl (upd b (\<lambda>d. d\<lparr>msg_wait_q := q\<rparr>) e) b = is_ctrl e b" by (rule is_ctrl_pool) (simp add: dsp_upd)
    with assms Pair Some q show ?thesis
      by (auto simp: pop_front_wait_msg_def is_ctrl_fun wait_q_status dsp_upd)
  qed
qed

text \<open>
  C14. The wait queue of a dispatcher implements two queues: messages to the controller are
  served before all others, and each kind in the order in which it was queued. Queueing appends
  to the queue of its kind, and taking a message takes the head of the first nonempty one.
\<close>

theorem wait_queue_refines:
  assumes "b < phy_num e" "pq_wf (msg_wait_q (dsp e b))" "ctrl_first e b" "pop_front_wait_msg b e = (x, e')"
  shows "ctrl_first (requeue_msg b i e) b \<and>
    wait_abs (requeue_msg b i e) b =
      (if is_ctrl e b i then (fst (wait_abs e b) @ [i], snd (wait_abs e b))
       else (fst (wait_abs e b), snd (wait_abs e b) @ [i])) \<and>
    ctrl_first e' b \<and>
    (case wait_abs e b of
       (c # cs, os) \<Rightarrow> x = Some c \<and> wait_abs e' b = (cs, os)
     | ([], c # os) \<Rightarrow> x = Some c \<and> wait_abs e' b = ([], os)
     | ([], []) \<Rightarrow> x = None \<and> e' = e)"
proof -
  let ?cs = "fst (wait_abs e b)" and ?os = "snd (wait_abs e b)"
  have cs: "filter (is_ctrl e b) ?cs = ?cs" "filter (is_ctrl e b) ?os = []"
    "filter (\<lambda>i. \<not> is_ctrl e b i) ?os = ?os" "filter (\<lambda>i. \<not> is_ctrl e b i) ?cs = []"
    by (auto simp: wait_abs_def filter_empty_conv)
  have q: "pq_queue (msg_wait_q (dsp e b)) = ?cs @ ?os" using assms(3) by (simp add: ctrl_first_def)
  from requeue_queue [OF assms(1,3), of i] cs
  have 1: "wait_abs (requeue_msg b i e) b = (if is_ctrl e b i then (?cs @ [i], ?os) else (?cs, ?os @ [i]))"
    by (simp add: wait_abs_def [of "requeue_msg b i e"])
  with requeue_queue [OF assms(1,3), of i] have 2: "ctrl_first (requeue_msg b i e) b"
    by (simp add: ctrl_first_def)
  note p = pop_wait_queue [OF assms(1,2,4)]
  show ?thesis
  proof (cases ?cs)
    case (Cons c cs')
    with p q have p': "x = Some c" "pq_queue (msg_wait_q (dsp e' b)) = cs' @ ?os" "is_ctrl e' b = is_ctrl e b" by simp_all
    then have "wait_abs e' b = (cs', ?os)" using cs Cons by (auto simp: wait_abs_def [of e'] split: if_splits)
    with p' 1 2 Cons show ?thesis by (cases "wait_abs e b") (simp add: ctrl_first_def)
  next
    case Nil
    show ?thesis
    proof (cases ?os)
      case (Cons c os')
      with Nil p q have p': "x = Some c" "pq_queue (msg_wait_q (dsp e' b)) = os'" "is_ctrl e' b = is_ctrl e b" by simp_all
      then have "wait_abs e' b = ([], os')" using cs Cons by (auto simp: wait_abs_def [of e'] split: if_splits)
      with p' 1 2 Nil Cons show ?thesis by (cases "wait_abs e b") (simp add: ctrl_first_def)
    next
      case Nil': Nil
      with Nil p q have "x = None" "e' = e" by simp_all
      with 1 2 Nil Nil' assms(3) show ?thesis by (cases "wait_abs e b") simp
    qed
  qed
qed

definition waiting_engine :: engine where
  "waiting_engine = \<lparr>e_disp = [zero_dispatcher\<lparr>
       msg_pool := [\<lparr>ex_status = 1, ex_msg = bk_msg PHL_MDL_PHY_MGNT 3, ex_premap = [], ex_postmap = [],
                      ex_completion = None, ex_module = None\<rparr>,
                    \<lparr>ex_status = 1, ex_msg = bk_msg PHL_MDL_POWER_MGNT 4, ex_premap = [], ex_postmap = [],
                      ex_completion = None, ex_module = None\<rparr>],
       msg_wait_q := \<lparr>pq_queue = [0, 1], pq_cnt = 2\<rparr>\<rparr>], e_sema = 2, e_log = []\<rparr>"

lemma wait_queue_refines_witness:
  "wait_abs waiting_engine 0 = ([0], [1]) \<and> wait_abs (requeue_msg 0 1 waiting_engine) 0 = ([0], [1, 1]) \<and>
     fst (pop_front_wait_msg 0 waiting_engine) = Some 0"
proof -
  have abs: "wait_abs waiting_engine 0 = ([0], [1])" and q: "ctrl_first waiting_engine 0" by code_simp+
  have c: "\<not> is_ctrl waiting_engine 0 1" by code_simp
  have "0 < phy_num waiting_engine" "pq_wf (msg_wait_q (dsp waiting_engine 0))"
    by (simp_all add: waiting_engine_def pq_wf_def)
  from wait_queue_refines [OF this q prod.collapse [symmetric], of 1] abs c show ?thesis by simp
qed

text \<open>
  C15. A phase in which every module that is asked accepts the message (\<open>accepts s\<close>: each message
  handler answers SUCCESS or IGNORE, none FAIL or PENDING) and none calls the dispatcher from its
  handler (\<open>run_cb 0\<close>), over module queues that are sorted by priority and hold no id twice
  (\<open>modules_wf\<close>): the message goes to the modules of \<open>receivers\<close>, each once, and to no other, in
  the order of their priority, the first phase from the highest priority down, the second one
  upwards. Of one priority these are first the owner of the message, if its bit is in the map of
  the phase, whether the owner is started or not, then the started modules whose bits are in the
  map. Afterwards the map of the phase has lost exactly the bits of these modules. What a phase
  does after a module has failed or kept the message is not part of this statement.
\<close>

theorem phases_deliver_in_order:
  assumes "accepts s" "ready_phase pre b i e" "modules_wf e b"
    and "e' = (if pre then msg_pre_phase_hdl (run_cb 0 s) b i e else msg_post_phase_hdl (run_cb 0 s) b i e)"
  shows "e_log e' = e_log e @ map (\<lambda>a. Cb_msg_hdlr b a i (mid e b i)) (receivers pre b i e) \<and>
    (\<forall>k. chk_bitmap_bit (phase_map pre b i e') k \<longleftrightarrow>
       chk_bitmap_bit (phase_map pre b i e) k \<and> k \<notin> id_at e b ` set (receivers pre b i e)) \<and>
    distinct (map (id_at e b) (receivers pre b i e))"
proof -
  have sub: "{PHL_MDL_PRI_ROLE..<PHL_MDL_PRI_MAX} \<subseteq> {..<PHL_MDL_PRI_MAX}" by auto
  have "fed pre b i e (receivers pre b i e) e'"
    unfolding assms(4) receivers_def msg_pre_phase_hdl_def msg_post_phase_hdl_def
    using phase_order [OF assms(1-3), of "rev [PHL_MDL_PRI_ROLE..<PHL_MDL_PRI_MAX]"]
      phase_order [OF assms(1-3), of "[PHL_MDL_PRI_ROLE..<PHL_MDL_PRI_MAX]"] sub
    by (cases pre) (simp_all del: run_cb.simps)
  then show ?thesis using receivers_once [OF assms(3)] by (simp add: fed_def)
qed

text \<open>An engine with three modules: two of the same priority and one of a lower one.\<close>

definition module_engine :: engine where
  "module_engine = \<lparr>e_disp = [zero_dispatcher\<lparr>
       msg_pool := [\<lparr>ex_status = 1, ex_msg = \<lparr>msg_id = 0x01000000, msg_band = 0, msg_mdl = None, msg_bufs = 0\<rparr>,
                      ex_premap = replicate 16 0xff, ex_postmap = replicate 16 0xff,
                      ex_completion = None, ex_module = None\<rparr>],
       d_modules := (\<lambda>a. \<lparr>mdl_status = 3, mdl_id = (if a = 1 then PHL_BK_MDL_ROLE_START else
                         if a = 2 then PHL_BK_MDL_ROLE_START + 1 else PHL_BK_MDL_ROLE_END + 1)\<rparr>),
       module_q := [\<lparr>pq_queue = [1, 2], pq_cnt = 2\<rparr>, pq_init, \<lparr>pq_queue = [3], pq_cnt = 1\<rparr>]\<rparr>],
     e_sema = 0, e_log = []\<rparr>"

lemma phases_deliver_in_order_witness:
  "e_log (msg_pre_phase_hdl (run_cb 0 ack) 0 0 module_engine) =
     map (\<lambda>a. Cb_msg_hdlr 0 a 0 0x01000000) [3, 1, 2]"
proof -
  have r: "receivers True 0 0 module_engine = [3, 1, 2]" "ready_phase True 0 0 module_engine" by code_simp+
  have q: "queue_at module_engine 0 0 = [1, 2]" "queue_at module_engine 0 1 = []" "queue_at module_engine 0 2 = [3]"
    by code_simp+
  have "modules_wf module_engine 0"
    unfolding modules_wf_def PHL_MDL_PRI_MAX_def numeral_3_eq_3 All_less_Suc by (simp add: q) code_simp
  moreover have "accepts ack" by (simp add: accepts_def ack_def)
  ultimately show ?thesis using phases_deliver_in_order [OF _ r(2) _ refl, of ack] r(1)
    by (simp add: module_engine_def del: run_cb.simps)
qed

text \<open>
  Without an owner the second phase runs through the modules in the reverse of the order
  of the first phase: who hears first of a change hears last that it is done.
\<close>

theorem post_phase_reverses:
  assumes "ex_module (msg_at e b i) = None" "ex_premap (msg_at e b i) = ex_postmap (msg_at e b i)"
  shows "receivers False b i e = rev (receivers True b i e)"
proof -
  have o: "owner_at pre b i e p = []" for pre p using assms(1) by (simp add: owner_at_def)
  have "wants False b i e = wants True b i e"
    using assms(2) by (simp add: wants_def phase_map_def fun_eq_iff)
  then have r: "receivers_at False b i e p = rev (receivers_at True b i e p)" for p
    by (simp add: receivers_at_def o)
  have "concat (map f (rev ps)) = rev (concat (map (\<lambda>p. rev (f p)) ps))" for f :: "nat \<Rightarrow> nat list" and ps
    by (induction ps) simp_all
  moreover have "receivers_at False b i e = (\<lambda>p. rev (receivers_at True b i e p))" by (rule ext) (rule r)
  ultimately show ?thesis by (simp add: receivers_def)
qed

lemma post_phase_reverses_witness:
  "receivers True 0 0 module_engine = [3, 1, 2] \<and> receivers False 0 0 module_engine = [2, 1, 3]"
proof -
  have t: "receivers True 0 0 module_engine = [3, 1, 2]" by code_simp
  have "ex_module (msg_at module_engine 0 0) = None"
    "ex_premap (msg_at module_engine 0 0) = ex_postmap (msg_at module_engine 0 0)" by (simp_all add: module_engine_def)
  from post_phase_reverses [OF this] t show ?thesis by simp
qed

lemma pop_idle_eq:
  assumes "pq_wf (msg_idle_q (dsp e b))" "b < phy_num e"
  shows "(pq_queue (msg_idle_q (dsp e b)) = [] \<and> pop_front_idle_msg b e = (None, e)) \<or>
    (\<exists>i e1. pop_front_idle_msg b e = (Some i, e1) \<and> phy_num e1 = phy_num e \<and>
       pq_queue (msg_idle_q (dsp e b)) = i # pq_queue (msg_idle_q (dsp e1 b)) \<and>
       msg_wait_q (dsp e1 b) = msg_wait_q (dsp e b))"
proof (cases "pq_pop (msg_idle_q (dsp e b)) First")
  case (Pair x q)
  with assms show ?thesis
    by (cases x) (auto simp: pop_front_idle_msg_def upd_msg_def dsp_upd dest: pq_pop_None pq_pop_Some)
qed

text \<open>The dispatcher takes messages; the message is refused; its sender's command is being unloaded.\<close>

definition taking_msgs :: "engine \<Rightarrow> nat \<Rightarrow> bool" where
  "taking_msgs e b \<longleftrightarrow> d_test e b DISPR_STARTED \<and> \<not> d_test e b DISPR_SHALL_STOP"

definition msg_refused :: "engine \<Rightarrow> nat \<Rightarrow> u8 \<Rightarrow> msg_attr option \<Rightarrow> bool" where
  "msg_refused e b k attr \<longleftrightarrow>
     (\<exists>a. attr = Some a \<and> attr_id_arr a = None \<and> attr_len a \<noteq> 0) \<or>
     sender_refused e b k (fst (get_cur_cmd_req_id e b)) (snd (get_cur_cmd_req_id e b))"

definition leaving :: "engine \<Rightarrow> nat \<Rightarrow> u8 \<Rightarrow> bool" where
  "leaving e b k \<longleftrightarrow>
     TEST_STATUS_FLAG (snd (get_cur_cmd_req_id e b)) REQ_STATUS_LAST_PERMIT \<and> get_module_by_id e b k = None \<and>
     fst (get_cur_cmd_req_id e b) \<in> {k, PHL_MDL_ID_MAX}"

definition sent_in_abort :: "msg_attr option \<Rightarrow> bool" where
  "sent_in_abort attr \<longleftrightarrow> (\<exists>a. attr = Some a \<and> TEST_STATUS_FLAG (attr_opt a) MSG_OPT_SEND_IN_ABORT)"

text \<open>What the steps of \<open>queue_msg\<close> leave of the dispatcher, and what they make of the message.\<close>

definition same_disp :: "nat \<Rightarrow> nat \<Rightarrow> engine \<Rightarrow> engine \<Rightarrow> bool" where
  "same_disp b i e x \<longleftrightarrow> phy_num x = phy_num e \<and> (\<exists>m. dsp x b = (dsp e b)\<lparr>msg_pool := (msg_pool (dsp e b))[i := m]\<rparr>)"

lemma same_disp_refl: "same_disp b i e e"
  unfolding same_disp_def by (intro conjI exI [of _ "msg_at e b i"]) simp_all

lemma same_disp_upd_msg: "same_disp b i e x \<Longrightarrow> b < phy_num e \<Longrightarrow> same_disp b i e (upd_msg b i g x)"
  by (auto simp: same_disp_def upd_msg_def dsp_upd)

lemma msg_at_upd_msg: "b < phy_num e \<Longrightarrow> i < length (msg_pool (dsp e b)) \<Longrightarrow> msg_at (upd_msg b i g e) b i = g (msg_at e b i)"
  by (simp add: upd_msg_def dsp_upd)

lemma same_dispD:
  assumes "same_disp b i e x"
  shows "phy_num x = phy_num e" "length (msg_pool (dsp x b)) = length (msg_pool (dsp e b))"
    "msg_idle_q (dsp x b) = msg_idle_q (dsp e b)" "msg_wait_q (dsp x b) = msg_wait_q (dsp e b)"
    "get_module_by_id x b k = get_module_by_id e b k" "j \<noteq> i \<Longrightarrow> msg_at x b j = msg_at e b j"
  using assms by (auto simp: same_disp_def get_module_by_id_def d_test_def)

definition msg_rec :: "nat \<Rightarrow> nat \<Rightarrow> engine \<Rightarrow> engine \<Rightarrow> (msg_ex \<Rightarrow> bool) \<Rightarrow> bool" where
  "msg_rec b i e x P \<longleftrightarrow> same_disp b i e x \<and> P (msg_at x b i)"

lemma msg_rec_upd:
  assumes "same_disp b i e x" "b < phy_num e" "i < length (msg_pool (dsp e b))" "P (g (msg_at x b i))"
  shows "msg_rec b i e (upd_msg b i g x) P"
  using assms same_disp_upd_msg same_dispD(1,2) by (simp add: msg_rec_def msg_at_upd_msg)

lemma attr_state:
  assumes "same_disp b i e x" "b < phy_num e" "i < length (msg_pool (dsp e b))"
  shows "msg_rec b i e (apply_attr b i k a x) (\<lambda>m. ex_msg m = ex_msg (msg_at x b i) \<and>
    (\<forall>n \<in> {1, 7, 10}. bit (ex_status m) n = bit (ex_status (msg_at x b i)) n))"
proof -
  note S = same_disp_upd_msg and at = msg_at_upd_msg
  have n: "b < phy_num y \<and> i < length (msg_pool (dsp y b))" if "same_disp b i e y" for y
    using that assms(2,3) same_dispD(1,2) by simp
  show ?thesis
    unfolding msg_rec_def apply_attr_def set_msg_custom_bitmap_def m_set_def Let_def MSG_STATUS_NOTIFY_COMPLETE_def
      MSG_STATUS_CLR_SNDR_MSG_IF_PENDING_def MSG_STATUS_PENDING_DURING_CANNOT_IO_def
    using assms n by (auto simp: S at flag_simps split: option.split)
qed

text \<open>The message after \<open>queue_msg\<close> has filled it, before it is queued or given up.\<close>

definition filled :: "nat \<Rightarrow> nat \<Rightarrow> phl_msg \<Rightarrow> msg_attr option \<Rightarrow> u8 \<Rightarrow> u8 \<Rightarrow> engine \<Rightarrow> engine" where
  "filled b i msg attr c rs e =
     (let k = MSG_MDL_ID_FIELD (msg_id msg);
          e1 = set_msg_bitmap b i k (upd_msg b i (\<lambda>x. x\<lparr>ex_msg := msg\<rparr>) e)
      in set_owner b i k c rs (case attr of None \<Rightarrow> e1 | Some a \<Rightarrow> apply_attr b i k a e1))"

lemma filled_state:
  assumes "b < phy_num e" "i < length (msg_pool (dsp e b))" "k = MSG_MDL_ID_FIELD (msg_id msg)"
  shows "msg_rec b i e (filled b i msg attr c rs e) (\<lambda>m. ex_msg m = msg \<and>
    (\<forall>n \<in> {1, 10}. bit (ex_status m) n = bit (ex_status (msg_at e b i)) n) \<and>
    (bit (ex_status m) 7 \<longleftrightarrow> bit (ex_status (msg_at e b i)) 7 \<or>
       get_module_by_id e b k = None \<and> (c = k \<or> c = PHL_MDL_ID_MAX \<and> TEST_STATUS_FLAG rs REQ_STATUS_LAST_PERMIT)))"
proof -
  let ?e1 = "set_msg_bitmap b i k (upd_msg b i (\<lambda>x. x\<lparr>ex_msg := msg\<rparr>) e)"
  let ?e2 = "case attr of None \<Rightarrow> ?e1 | Some a \<Rightarrow> apply_attr b i k a ?e1"
  have n: "b < phy_num y \<and> i < length (msg_pool (dsp y b))" if "same_disp b i e y" for y
    using that assms(1,2) same_dispD(1,2) by simp
  have s0: "same_disp b i e (upd_msg b i (\<lambda>x. x\<lparr>ex_msg := msg\<rparr>) e)"
    using same_disp_refl assms(1) by (rule same_disp_upd_msg)
  have 1: "msg_rec b i e ?e1 (\<lambda>m. ex_msg m = msg \<and> ex_status m = ex_status (msg_at e b i))"
    unfolding set_msg_bitmap_def Let_def using assms(1,2)
    by (intro msg_rec_upd [OF s0]) (simp_all add: msg_at_upd_msg)
  have 2: "msg_rec b i e ?e2 (\<lambda>m. ex_msg m = msg \<and> (\<forall>n \<in> {1, 7, 10}. bit (ex_status m) n = bit (ex_status (msg_at e b i)) n))"
    using 1 attr_state [of b i e ?e1 k] assms(1,2) by (auto simp: msg_rec_def split: option.split)
  then have s2: "same_disp b i e ?e2" by (simp add: msg_rec_def)
  show ?thesis
    unfolding filled_def Let_def assms(3) [symmetric] msg_rec_def set_owner_def m_set_def MSG_STATUS_OWNER_BK_MDL_def
      MSG_STATUS_OWNER_REQ_def same_dispD(5) [OF s2]
    using 2 s2 n [OF s2] assms(1)
    by (auto simp: msg_rec_def same_disp_upd_msg msg_at_upd_msg flag_simps n split: option.split)
qed

lemma queue_msg_filled:
  "queue_msg rc b i msg attr hdl c rs e =
    (let x = filled b i msg attr c rs e; k = MSG_MDL_ID_FIELD (msg_id msg);
         last = (m_test x b i MSG_STATUS_OWNER_REQ \<and> TEST_STATUS_FLAG rs REQ_STATUS_LAST_PERMIT)
     in if last \<and> \<not> sent_in_abort attr
        then (RTW_PHL_STATUS_FAILURE, map_option (\<lambda>_. 0) hdl,
              push_back_idle_msg rc b i (upd_mid b i (\<lambda>m. SET_MSG_INDC_FIELD m MSG_INDC_FAIL) x))
        else (let x = m_set MSG_STATUS_PRE_PHASE b i
                (if last then d_set DISPR_WAIT_ABORT_MSG_DONE b (m_set MSG_STATUS_FOR_ABORT b i x) else x)
              in (RTW_PHL_STATUS_SUCCESS, map_option (\<lambda>_. GEN_VALID_HDL i) hdl,
                  if IS_DISPR_CTRL k then insert_msg_by_priority b i x else push_back_wait_msg b i x)))"
proof -
  have h: "map_option (\<lambda>_. GEN_VALID_HDL i) (map_option (\<lambda>_. 0 :: u32) hdl) = map_option (\<lambda>_. GEN_VALID_HDL i) hdl"
    by (cases hdl) simp_all
  have a: "(case attr of None \<Rightarrow> True | Some a \<Rightarrow> \<not> TEST_STATUS_FLAG (attr_opt a) MSG_OPT_SEND_IN_ABORT) = (\<not> sent_in_abort attr)"
    by (cases attr) (simp_all add: sent_in_abort_def)
  show ?thesis unfolding queue_msg_def filled_def Let_def h a
    by (intro if_cong prod.inject [THEN iffD2] conjI refl)
qed

text \<open>What is in the wait queue after a message has been queued.\<close>

definition queued_as :: "engine \<Rightarrow> nat \<Rightarrow> nat \<Rightarrow> phl_msg \<Rightarrow> engine \<Rightarrow> bool" where
  "queued_as e b i msg e' \<longleftrightarrow>
     (let W = pq_queue (msg_wait_q (dsp e b))
      in pq_queue (msg_wait_q (dsp e' b)) =
           (if IS_DISPR_CTRL (MSG_MDL_ID_FIELD (msg_id msg))
            then takeWhile (is_ctrl e' b) W @ i # dropWhile (is_ctrl e' b) W else W @ [i])) \<and>
     ex_msg (msg_at e' b i) = msg \<and> m_test e' b i MSG_STATUS_ENQ \<and> m_test e' b i MSG_STATUS_PRE_PHASE \<and>
     \<not> m_test e' b i MSG_STATUS_RUN"

lemma put_in_wait_queue:
  assumes n: "b < phy_num x" "i < length (msg_pool (dsp x b))" and m: "ex_msg (msg_at x b i) = msg" "m_test x b i MSG_STATUS_PRE_PHASE"
    and p: "e' = (if IS_DISPR_CTRL (MSG_MDL_ID_FIELD (msg_id msg)) then insert_msg_by_priority b i x else push_back_wait_msg b i x)"
  shows "queued_as x b i msg e' \<and> msg_idle_q (dsp e' b) = msg_idle_q (dsp x b) \<and>
    (m_test e' b i MSG_STATUS_FOR_ABORT \<longleftrightarrow> m_test x b i MSG_STATUS_FOR_ABORT) \<and>
    (d_test e' b DISPR_WAIT_ABORT_MSG_DONE \<longleftrightarrow> d_test x b DISPR_WAIT_ABORT_MSG_DONE)"
proof -
  let ?y = "m_clear MSG_STATUS_RUN b i (m_set MSG_STATUS_ENQ b i x)"
  let ?st = "CLEAR_STATUS_FLAG (SET_STATUS_FLAG (ex_status (msg_at x b i)) MSG_STATUS_ENQ) MSG_STATUS_RUN"
  have y: "dsp ?y b = (dsp x b)\<lparr>msg_pool := (msg_pool (dsp x b))[i := (msg_at x b i)\<lparr>ex_status := ?st\<rparr>]\<rparr>"
    "phy_num ?y = phy_num x"
    using n by (simp_all add: m_clear_def m_set_def upd_msg_def dsp_upd)
  obtain q where e': "dsp e' b = (dsp ?y b)\<lparr>msg_wait_q := q\<rparr>"
    "q = (if IS_DISPR_CTRL (MSG_MDL_ID_FIELD (msg_id msg))
       then pq_insert (msg_wait_q (dsp x b)) i (Some (is_higher_priority (dsp ?y b))) else pq_push (msg_wait_q (dsp x b)) i Tail)"
    unfolding p insert_msg_by_priority_def push_back_wait_msg_def Let_def notify_dispr_thread_def
    using n y by (cases "IS_DISPR_CTRL (MSG_MDL_ID_FIELD (msg_id msg))") (simp_all add: dsp_upd)
  have c: "is_ctrl e' b j \<longleftrightarrow> IS_DISPR_CTRL (MSG_MDL_ID_FIELD (msg_id (ex_msg (msg_pool (dsp ?y b) ! j))))" for j
    by (simp add: is_ctrl_def e'(1))
  have i: "ex_msg (msg_pool (dsp ?y b) ! i) = msg" using n m(1) by (simp add: y)
  have h: "is_higher_priority (dsp ?y b) i j \<longleftrightarrow> \<not> is_ctrl e' b j" if "IS_DISPR_CTRL (MSG_MDL_ID_FIELD (msg_id msg))" for j
    using that by (simp add: is_higher_priority_def c i)
  have "msg_at e' b i = (msg_at x b i)\<lparr>ex_status := ?st\<rparr>" using n by (simp add: e'(1) y)
  moreover have "pq_queue (msg_wait_q (dsp e' b)) = (if IS_DISPR_CTRL (MSG_MDL_ID_FIELD (msg_id msg))
      then takeWhile (is_ctrl e' b) (pq_queue (msg_wait_q (dsp x b))) @ i # dropWhile (is_ctrl e' b) (pq_queue (msg_wait_q (dsp x b)))
      else pq_queue (msg_wait_q (dsp x b)) @ [i])"
    using e'(2) h by (simp add: e'(1) pq_insert_def Let_def cong: takeWhile_cong dropWhile_cong)
  moreover have "msg_idle_q (dsp e' b) = msg_idle_q (dsp x b)" "d_status (dsp e' b) = d_status (dsp x b)"
    by (simp_all add: e'(1) y)
  ultimately show ?thesis
    using m by (simp add: queued_as_def Let_def m_test_def d_test_def MSG_STATUS_ENQ_def MSG_STATUS_RUN_def
        MSG_STATUS_PRE_PHASE_def MSG_STATUS_FOR_ABORT_def flag_simps)
qed

lemma pop_idle_takes:
  assumes "pq_wf (msg_idle_q (dsp e b))" "b < phy_num e" "set (pq_queue (msg_idle_q (dsp e b))) \<subseteq> {..<length (msg_pool (dsp e b))}"
    and "pq_queue (msg_idle_q (dsp e b)) = i # js"
  shows "\<exists>e1. pop_front_idle_msg b e = (Some i, e1) \<and> phy_num e1 = phy_num e \<and> i < length (msg_pool (dsp e1 b)) \<and>
    pq_queue (msg_idle_q (dsp e1 b)) = js \<and> msg_wait_q (dsp e1 b) = msg_wait_q (dsp e b) \<and>
    ex_status (msg_at e1 b i) = 0 \<and> (\<forall>k. get_module_by_id e1 b k = get_module_by_id e b k)"
  using assms by (cases "pq_pop (msg_idle_q (dsp e b)) First"; cases "fst (pq_pop (msg_idle_q (dsp e b)) First)")
    (auto simp: pop_front_idle_msg_def upd_msg_def dsp_upd get_module_by_id_def d_test_def dest: pq_pop_None pq_pop_Some)

text \<open>What becomes of an accepted message: it waits, or, from a command that is being unloaded, it goes back.\<close>

lemma queue_msg_outcome:
  assumes n: "b < phy_num e" "i < length (msg_pool (dsp e b))" and z: "ex_status (msg_at e b i) = 0"
    and k: "k = MSG_MDL_ID_FIELD (msg_id msg)" and q: "queue_msg rc b i msg attr hdl c rs e = (st, h, e')"
  defines "l \<equiv> TEST_STATUS_FLAG rs REQ_STATUS_LAST_PERMIT \<and> get_module_by_id e b k = None \<and> c \<in> {k, PHL_MDL_ID_MAX}"
  shows "if l \<and> \<not> sent_in_abort attr
    then st = RTW_PHL_STATUS_FAILURE \<and> h = map_option (\<lambda>_. 0) hdl \<and>
      (\<exists>x. e' = push_back_idle_msg rc b i x \<and> msg_idle_q (dsp x b) = msg_idle_q (dsp e b) \<and>
         msg_wait_q (dsp x b) = msg_wait_q (dsp e b) \<and>
         ex_msg (msg_at x b i) = msg\<lparr>msg_id := SET_MSG_INDC_FIELD (msg_id msg) MSG_INDC_FAIL\<rparr>)
    else st = RTW_PHL_STATUS_SUCCESS \<and> h = map_option (\<lambda>_. GEN_VALID_HDL i) hdl \<and>
      msg_idle_q (dsp e' b) = msg_idle_q (dsp e b) \<and> queued_as e b i msg e' \<and>
      (m_test e' b i MSG_STATUS_FOR_ABORT \<longleftrightarrow> l)"
proof -
  let ?x = "filled b i msg attr c rs e"
  have F: "same_disp b i e ?x" "ex_msg (msg_at ?x b i) = msg" "\<not> bit (ex_status (msg_at ?x b i)) 10"
    "bit (ex_status (msg_at ?x b i)) 7 \<longleftrightarrow>
       get_module_by_id e b k = None \<and> (c = k \<or> c = PHL_MDL_ID_MAX \<and> TEST_STATUS_FLAG rs REQ_STATUS_LAST_PERMIT)"
    using filled_state [OF n k, of attr c rs] z by (auto simp: msg_rec_def)
  have l: "m_test ?x b i MSG_STATUS_OWNER_REQ \<and> TEST_STATUS_FLAG rs REQ_STATUS_LAST_PERMIT \<longleftrightarrow> l"
    using F(4) by (auto simp: l_def m_test_def MSG_STATUS_OWNER_REQ_def flag_simps)
  have nx: "b < phy_num ?x" "i < length (msg_pool (dsp ?x b))" using n same_dispD(1,2) [OF F(1)] by simp_all
  note Q = q [unfolded queue_msg_filled Let_def l]
  show ?thesis
  proof (cases "l \<and> \<not> sent_in_abort attr")
    case True
    let ?y = "upd_mid b i (\<lambda>m. SET_MSG_INDC_FIELD m MSG_INDC_FAIL) ?x"
    have "same_disp b i e ?y" unfolding upd_mid_def by (rule same_disp_upd_msg [OF F(1) n(1)])
    moreover have "ex_msg (msg_at ?y b i) = msg\<lparr>msg_id := SET_MSG_INDC_FIELD (msg_id msg) MSG_INDC_FAIL\<rparr>"
      unfolding upd_mid_def by (simp add: msg_at_upd_msg nx F(2))
    ultimately show ?thesis using Q True same_dispD(3,4) by (auto intro!: exI [of _ ?y])
  next
    case False
    let ?y = "if l then d_set DISPR_WAIT_ABORT_MSG_DONE b (m_set MSG_STATUS_FOR_ABORT b i ?x) else ?x"
    let ?z = "m_set MSG_STATUS_PRE_PHASE b i ?y"
    have y: "phy_num ?y = phy_num e" "length (msg_pool (dsp ?y b)) = length (msg_pool (dsp e b))"
      "msg_idle_q (dsp ?y b) = msg_idle_q (dsp e b)" "msg_wait_q (dsp ?y b) = msg_wait_q (dsp e b)"
      "ex_msg (msg_at ?y b i) = msg" "bit (ex_status (msg_at ?y b i)) 10 = l"
      using same_dispD [OF F(1)] F(2,3) nx by (auto simp: d_set_def m_set_def upd_msg_def dsp_upd flag_simps MSG_STATUS_FOR_ABORT_def)
    have z: "b < phy_num ?z" "i < length (msg_pool (dsp ?z b))" "msg_idle_q (dsp ?z b) = msg_idle_q (dsp e b)"
      "msg_wait_q (dsp ?z b) = msg_wait_q (dsp e b)" "ex_msg (msg_at ?z b i) = msg" "m_test ?z b i MSG_STATUS_PRE_PHASE"
      "m_test ?z b i MSG_STATUS_FOR_ABORT \<longleftrightarrow> l"
      using y n by (simp_all add: m_set_def upd_msg_def dsp_upd m_test_def flag_simps MSG_STATUS_FOR_ABORT_def MSG_STATUS_PRE_PHASE_def)
    have e': "st = RTW_PHL_STATUS_SUCCESS" "h = map_option (\<lambda>_. GEN_VALID_HDL i) hdl"
      "e' = (if IS_DISPR_CTRL (MSG_MDL_ID_FIELD (msg_id msg)) then insert_msg_by_priority b i ?z else push_back_wait_msg b i ?z)"
      using Q False by auto
    from put_in_wait_queue [OF z(1,2,5,6) e'(3)] have
      "queued_as ?z b i msg e'" "msg_idle_q (dsp e' b) = msg_idle_q (dsp ?z b)" "m_test e' b i MSG_STATUS_FOR_ABORT \<longleftrightarrow> l"
      by (simp_all add: z(7))
    then show ?thesis using False e'(1,2) z(3,4) by (simp add: queued_as_def)
  qed
qed

text \<open>
  C38. What sending a message does, on every branch. A dispatcher that is not started or is to
  stop refuses with UNEXPECTED_ERROR; one that takes messages refuses a bad attribute and a sender
  that may not send with INVALID_PARAM, and with RESOURCE when no message is idle; a refusal
  changes nothing. Otherwise the first idle message is taken. If it belongs to a command that is
  being unloaded and is not marked as allowed then, it is marked as failed and goes back
  through the completion with FAILURE and an invalid handle. Otherwise it waits with the
  contents that were given, behind all others or, for the controller, behind the messages
  for the controller in front; the status is SUCCESS and the handle names its slot. The flag of
  a message that the abort waits for is set exactly for a command that is being unloaded.
\<close>

theorem send_msg_outcome:
  assumes n: "b < phy_num e" and wf: "pq_wf (msg_idle_q (dsp e b))"
    and sub: "set (pq_queue (msg_idle_q (dsp e b))) \<subseteq> {..<length (msg_pool (dsp e b))}"
    and k: "k = MSG_MDL_ID_FIELD (msg_id msg)" and s: "dispr_send_msg rc b msg attr hdl e = (st, h, e')"
  shows "if \<not> taking_msgs e b then st = RTW_PHL_STATUS_UNEXPECTED_ERROR \<and> h = hdl \<and> e' = e
    else if msg_refused e b k attr then st = RTW_PHL_STATUS_INVALID_PARAM \<and> h = hdl \<and> e' = e
    else (case pq_queue (msg_idle_q (dsp e b)) of
        [] \<Rightarrow> st = RTW_PHL_STATUS_RESOURCE \<and> h = hdl \<and> e' = e
      | i # js \<Rightarrow>
          if leaving e b k \<and> \<not> sent_in_abort attr
          then st = RTW_PHL_STATUS_FAILURE \<and> h = map_option (\<lambda>_. 0) hdl \<and>
            (\<exists>x. e' = push_back_idle_msg rc b i x \<and> pq_queue (msg_idle_q (dsp x b)) = js \<and>
               msg_wait_q (dsp x b) = msg_wait_q (dsp e b) \<and>
               ex_msg (msg_at x b i) = msg\<lparr>msg_id := SET_MSG_INDC_FIELD (msg_id msg) MSG_INDC_FAIL\<rparr>)
          else st = RTW_PHL_STATUS_SUCCESS \<and> h = map_option (\<lambda>_. GEN_VALID_HDL i) hdl \<and>
            pq_queue (msg_idle_q (dsp e' b)) = js \<and> queued_as e b i msg e' \<and>
            (m_test e' b i MSG_STATUS_FOR_ABORT \<longleftrightarrow> leaving e b k))"
proof -
  obtain c rs where c: "get_cur_cmd_req_id e b = (c, rs)" by fastforce
  have a: "(case attr of None \<Rightarrow> False | Some a \<Rightarrow> attr_id_arr a = None \<and> attr_len a \<noteq> 0) \<longleftrightarrow>
      (\<exists>a. attr = Some a \<and> attr_id_arr a = None \<and> attr_len a \<noteq> 0)" by (cases attr) simp_all
  note S = s [unfolded dispr_send_msg_def Let_def c split a k [symmetric]]
  consider (no) "\<not> taking_msgs e b" | (bad) "taking_msgs e b" "msg_refused e b k attr"
    | (empty) "taking_msgs e b" "\<not> msg_refused e b k attr" "pq_queue (msg_idle_q (dsp e b)) = []"
    | (go) i js where "taking_msgs e b" "\<not> msg_refused e b k attr" "pq_queue (msg_idle_q (dsp e b)) = i # js"
    by (cases "pq_queue (msg_idle_q (dsp e b))") auto
  then show ?thesis
  proof cases
    case no
    then show ?thesis using S by (auto simp: taking_msgs_def split: if_splits)
  next
    case bad
    then show ?thesis using S by (auto simp: taking_msgs_def msg_refused_def c split: if_splits)
  next
    case empty
    then show ?thesis using S pop_idle_eq [OF wf n] by (auto simp: taking_msgs_def msg_refused_def c split: if_splits)
  next
    case go
    from pop_idle_takes [OF wf n sub go(3)] obtain e1 where e1: "pop_front_idle_msg b e = (Some i, e1)" "phy_num e1 = phy_num e"
        "i < length (msg_pool (dsp e1 b))" "pq_queue (msg_idle_q (dsp e1 b)) = js" "msg_wait_q (dsp e1 b) = msg_wait_q (dsp e b)"
        "ex_status (msg_at e1 b i) = 0" "\<forall>k. get_module_by_id e1 b k = get_module_by_id e b k" by blast
    have "queue_msg rc b i msg attr hdl c rs e1 = (st, h, e')"
      using S go e1(1) by (auto simp: taking_msgs_def msg_refused_def c split: if_splits)
    note Q = queue_msg_outcome [OF n [folded e1(2)] e1(3,6) k this]
    have l: "(TEST_STATUS_FLAG rs REQ_STATUS_LAST_PERMIT \<and> get_module_by_id e1 b k = None \<and> c \<in> {k, PHL_MDL_ID_MAX}) = leaving e b k"
      using e1(7) by (simp add: leaving_def c)
    have w: "queued_as e1 b i msg e' = queued_as e b i msg e'" by (simp add: queued_as_def e1(5))
    show ?thesis
      using Q [unfolded l w e1(4,5)] go e1(4) by (cases "leaving e b k \<and> \<not> sent_in_abort attr") auto
  qed
qed

text \<open>A started engine with one idle message; the controller already has a message waiting, as has a module.\<close>

definition sending_engine :: engine where
  "sending_engine = \<lparr>e_disp = [zero_dispatcher\<lparr>d_status := DISPR_STARTED,
       msg_pool := map (\<lambda>m. \<lparr>ex_status = 0, ex_msg = m, ex_premap = [], ex_postmap = [], ex_completion = None, ex_module = None\<rparr>)
         [bk_msg PHL_MDL_PHY_MGNT 3, bk_msg PHL_MDL_POWER_MGNT 4, bk_msg 0 0],
       msg_wait_q := \<lparr>pq_queue = [0, 1], pq_cnt = 2\<rparr>, msg_idle_q := \<lparr>pq_queue = [2], pq_cnt = 1\<rparr>\<rparr>], e_sema = 0, e_log = []\<rparr>"

lemma send_msg_outcome_witness:
  "\<exists>e'. dispr_send_msg (run_cb 0 ack) 0 (bk_msg PHL_MDL_PHY_MGNT 9) None (Some 5) sending_engine =
       (RTW_PHL_STATUS_SUCCESS, Some (GEN_VALID_HDL 2), e') \<and>
     pq_queue (msg_wait_q (dsp e' 0)) = takeWhile (is_ctrl e' 0) [0, 1] @ 2 # dropWhile (is_ctrl e' 0) [0, 1] \<and>
     pq_queue (msg_idle_q (dsp e' 0)) = [] \<and> mid e' 0 2 = msg_id (bk_msg PHL_MDL_PHY_MGNT 9)"
proof -
  let ?m = "bk_msg PHL_MDL_PHY_MGNT 9" and ?e = sending_engine
  have h: "0 < phy_num ?e" "pq_wf (msg_idle_q (dsp ?e 0))"
    "set (pq_queue (msg_idle_q (dsp ?e 0))) \<subseteq> {..<length (msg_pool (dsp ?e 0))}"
    by (simp_all add: sending_engine_def pq_wf_def)
  have q: "pq_queue (msg_idle_q (dsp ?e 0)) = [2]" "pq_queue (msg_wait_q (dsp ?e 0)) = [0, 1]"
    by (simp_all add: sending_engine_def)
  have d: "d_test ?e 0 DISPR_STARTED" "\<not> d_test ?e 0 DISPR_SHALL_STOP" "IS_DISPR_CTRL (MSG_MDL_ID_FIELD (msg_id ?m))" by code_simp+
  have c: "get_cur_cmd_req_id ?e 0 = (PHL_MDL_ID_MAX, 0)" "\<not> TEST_STATUS_FLAG (0 :: u8) REQ_STATUS_LAST_PERMIT"
    by code_simp+
  have g: "taking_msgs ?e 0" "\<not> msg_refused ?e 0 (MSG_MDL_ID_FIELD (msg_id ?m)) None" "\<not> leaving ?e 0 (MSG_MDL_ID_FIELD (msg_id ?m))"
    using d c by (simp_all add: taking_msgs_def msg_refused_def leaving_def sender_refused_def)
  obtain st h1 e' where r: "dispr_send_msg (run_cb 0 ack) 0 ?m None (Some 5) ?e = (st, h1, e')"
    by (metis prod.exhaust)
  from send_msg_outcome [OF h refl r] show ?thesis
    using g q d(3) r by (auto simp: queued_as_def Let_def)
qed

lemma ntfyidx_twice: "b < 2 \<Longrightarrow> ntfyidx (ntfyidx b) = b" "ntfyidx b < 2"
  by (auto simp: ntfyidx_def)

lemma renew_queues:
  assumes "b < phy_num e" "\<not> op_used (renew_req_info (dsp e b))"
  shows "pq_queue (token_op_q (dsp (renew b e) b)) = pq_queue (token_op_q (dsp e b)) @ [Renew_info] \<and>
    e_sema (renew b e) = e_sema e + 1 \<and> d_status (dsp (renew b e) b) = d_status (dsp e b)"
  using assms by (simp add: renew_def dispr_enqueue_token_op_info_def push_back_token_op_info_def op_info_def
      set_op_info_def Let_def notify_dispr_thread_def dsp_upd)

text \<open>
  How an exclusive command gets the hardware: the band that wants it asks for the
  clearance of the other band and starts nothing yet; as soon as the other band has neither a
  command nor an operation on its token, its thread round grants exclusive use and has the
  first band look at its requests again.
\<close>

theorem exclusive_handshake:
  assumes "phy_num e = 2" "b < 2" "d_test e b DISPR_STARTED" "\<not> d_test e b DISPR_SHALL_STOP"
    "\<not> token_cnt (dsp e b) > 0" "\<not> d_test e b DISPR_WAIT_ABORT_MSG_DONE" "\<not> d_test e b DISPR_CLEARANCE"
    and want: "front_req_with_exclusive_opt e b" "\<not> d_test e b DISPR_EXCLUSIVE_USE"
    and idle: "pq_cnt (token_op_q (dsp e (ntfyidx b))) = 0" "token_cnt (dsp e (ntfyidx b)) = 0"
    and unused: "\<not> op_used (renew_req_info (dsp e b))"
  shows "\<exists>e1 e2. dispr_process_token_req (Suc n) rc b e = Some (RTW_PHL_STATUS_FAILURE, e1) \<and> dsp e1 b = dsp e b \<and>
    d_test e1 (ntfyidx b) DISPR_CLEARANCE \<and>
    token_op_hanler m rc (ntfyidx b) e1 = Some e2 \<and> d_test e2 b DISPR_EXCLUSIVE_USE \<and>
    pq_queue (token_op_q (dsp e2 b)) = pq_queue (token_op_q (dsp e b)) @ [Renew_info] \<and> e_sema e2 = e_sema e + 1"
proof -
  let ?o = "ntfyidx b"
  define e1 where "e1 = d_set DISPR_CLEARANCE ?o e"
  have o: "?o < 2" "ntfyidx ?o = b" using ntfyidx_twice assms(2) by auto
  have 1: "dispr_process_token_req (Suc n) rc b e = Some (RTW_PHL_STATUS_FAILURE, e1)"
    using assms o by (simp add: phl_disp_eng_clearance_acquire_def by_idx dispr_clearance_acquire_def e1_def)
  have same: "dsp e1 b = dsp e b" "phy_num e1 = 2" "e_sema e1 = e_sema e"
    using assms(1) ntfyidx_other [of b] by (auto simp: e1_def d_set_def dsp_upd simp del: ntfyidx_other)
  have 2: "d_test e1 ?o DISPR_CLEARANCE" "pq_cnt (token_op_q (dsp e1 ?o)) = 0" "token_cnt (dsp e1 ?o) = 0"
    using assms(1) o idle by (simp_all add: e1_def d_set_def d_test_def dsp_upd DISPR_CLEARANCE_def flag_simps)
  let ?e = "d_set DISPR_EXCLUSIVE_USE b e1"
  have no: "\<not> d_test e1 b DISPR_EXCLUSIVE_USE" using want(2) same(1) by (simp add: d_test_def)
  have 3: "token_op_hanler m rc ?o e1 = Some (renew b ?e)"
    using 2 o same(2) assms(2) no
    by (simp add: token_op_hanler_def phl_disp_eng_exclusive_ready_def by_idx dispr_exclusive_ready_def Let_def)
  have e: "b < phy_num ?e" "\<not> op_used (renew_req_info (dsp ?e b))" "token_op_q (dsp ?e b) = token_op_q (dsp e b)"
    "e_sema ?e = e_sema e" "d_test ?e b DISPR_EXCLUSIVE_USE"
    using same assms(2) unused by (simp_all add: d_set_def d_test_def dsp_upd DISPR_EXCLUSIVE_USE_def flag_simps)
  have 4: "d_test (renew b ?e) b DISPR_EXCLUSIVE_USE"
    using renew_queues [OF e(1,2)] e(5) by (simp add: d_test_def)
  show ?thesis using 1 same(1) 2(1) 3 4 renew_queues [OF e(1,2)] e(3,4) by (intro exI [of _ e1] exI [of _ "renew b ?e"]) simp
qed

definition wanting_engine :: engine where
  "wanting_engine = \<lparr>e_disp = [zero_dispatcher\<lparr>d_status := 0x1b, req_wait_q := \<lparr>pq_queue = [0], pq_cnt = 1\<rparr>,
       req_pool := [\<lparr>rx_status = 1, rx_req = sample_req, rx_add_info = no_op_info, rx_free_info = no_op_info\<rparr>]\<rparr>,
     zero_dispatcher\<lparr>d_status := 0x1b\<rparr>], e_sema = 0, e_log = []\<rparr>"

lemma exclusive_handshake_witness:
  "\<exists>e1 e2. dispr_process_token_req 1 (run_cb 0 ack) 0 wanting_engine = Some (RTW_PHL_STATUS_FAILURE, e1) \<and>
     token_op_hanler 1 (run_cb 0 ack) 1 e1 = Some e2 \<and> d_test e2 0 DISPR_EXCLUSIVE_USE"
proof -
  have f: "d_test wanting_engine 0 DISPR_STARTED" "\<not> d_test wanting_engine 0 DISPR_SHALL_STOP"
    "\<not> d_test wanting_engine 0 DISPR_WAIT_ABORT_MSG_DONE" "\<not> d_test wanting_engine 0 DISPR_CLEARANCE"
    "\<not> d_test wanting_engine 0 DISPR_EXCLUSIVE_USE" "front_req_with_exclusive_opt wanting_engine 0" by code_simp+
  have "phy_num wanting_engine = 2" "\<not> token_cnt (dsp wanting_engine 0) > 0"
    "pq_cnt (token_op_q (dsp wanting_engine (ntfyidx 0))) = 0" "token_cnt (dsp wanting_engine (ntfyidx 0)) = 0"
    "\<not> op_used (renew_req_info (dsp wanting_engine 0))"
    by (simp_all add: wanting_engine_def zero_dispatcher_def ntfyidx_def pq_init_def no_op_info_def)
  from exclusive_handshake [OF this(1) zero_less_numeral f(1,2) this(2) f(3,4,6,5) this(3-5), of 0 "run_cb 0 ack" 1]
  have "\<exists>e1 e2. dispr_process_token_req (Suc 0) (run_cb 0 ack) 0 wanting_engine = Some (RTW_PHL_STATUS_FAILURE, e1) \<and>
     token_op_hanler 1 (run_cb 0 ack) (ntfyidx 0) e1 = Some e2 \<and> d_test e2 0 DISPR_EXCLUSIVE_USE" by blast
  then show ?thesis by (simp only: ntfyidx_def One_nat_def if_True refl)
qed

lemma handle_bits: "bit (GEN_VALID_HDL i) n = (n = 31 \<or> n < 32 \<and> bit (of_nat i :: u32) n)"
  by (auto simp: GEN_VALID_HDL_def bit_or_iff dest: bit_imp_le_length)

lemma handle_of_slot:
  assumes "j < MAX_PHL_MSG_NUM"
  shows "IS_HDL_VALID (GEN_VALID_HDL j) \<and> GET_MSG_IDX_FROM_HDL (GEN_VALID_HDL j) = j \<and>
     GET_REQ_IDX_FROM_HDL (GEN_VALID_HDL j) = j"
proof -
  have "IS_HDL_VALID (GEN_VALID_HDL j)"
    unfolding IS_HDL_VALID_def word_and_BITn by (simp add: handle_bits)
  moreover have "ucast (GEN_VALID_HDL j AND 0xFFFF) = (of_nat j :: u16)" "ucast (GEN_VALID_HDL j AND 0xFFFF) = (of_nat j :: u8)"
    by (rule bit_word_eqI, unfold bit_unsigned_iff bit_and_iff possible_bit_word handle_bits bit_mask_FFFF bit_of_nat_iff,
        auto simp: possible_bit_word)+
  ultimately show ?thesis
    using assms by (simp add: GET_MSG_IDX_FROM_HDL_def GET_REQ_IDX_FROM_HDL_def unsigned_of_nat take_bit_nat_eq_self MAX_PHL_MSG_NUM_def)
qed

text \<open>
  A handle names a slot and nothing else: for every slot of the pools the handle is valid
  and gives the slot back, handles of different slots differ, and 0, which marks a handle that
  is not in use, is not valid.
\<close>

theorem handle_roundtrip:
  assumes "i < MAX_PHL_MSG_NUM" "r < MAX_CMD_REQ_NUM"
  shows "IS_HDL_VALID (GEN_VALID_HDL i) \<and> GET_MSG_IDX_FROM_HDL (GEN_VALID_HDL i) = i \<and>
    GET_REQ_IDX_FROM_HDL (GEN_VALID_HDL r) = r \<and> (GEN_VALID_HDL i = GEN_VALID_HDL r \<longleftrightarrow> i = r) \<and> \<not> IS_HDL_VALID 0"
proof -
  have "r < MAX_PHL_MSG_NUM" using assms(2) by (simp add: MAX_PHL_MSG_NUM_def MAX_CMD_REQ_NUM_def)
  note slots = handle_of_slot [OF assms(1)] handle_of_slot [OF this]
  have "GEN_VALID_HDL i = GEN_VALID_HDL r \<Longrightarrow> i = r" using slots by metis
  with slots show ?thesis by (metis IS_HDL_VALID_def and_zero_eq(1) zero_and_eq)
qed

lemma handle_roundtrip_witness:
  "GET_MSG_IDX_FROM_HDL (GEN_VALID_HDL 23) = 23 \<and> GET_REQ_IDX_FROM_HDL (GEN_VALID_HDL 7) = 7"
  using handle_roundtrip [of 23 7] by (simp add: MAX_PHL_MSG_NUM_def MAX_CMD_REQ_NUM_def)

end
