(* ===== verification/MsgHub.thy ===== *)
theory MsgHub
  imports Dispatcher
begin

text \<open>
  The message hub, \<^verbatim>\<open>phl/phl_msg_hub.c\<close>: sixteen message slots, a queue of free and a queue of
  waiting slots, one receiver per layer, and a thread that hands each message to the receivers
  that asked for its module.

  Senders, the thread of the hub and the task that starts and stops it run concurrently. Each
  has a program counter; a step of a task is one access to what the tasks share (a status
  word, a queue under its lock, the semaphore, a receiver). The step functions are executable,
  and \<open>None\<close> where a task has nothing to do or is blocked. A completion routine is named by a
  number, a receiver by the number of its callback with its private data.
\<close>

subsection \<open>Data\<close>

definition MAX_MSG_NUM :: nat where "MAX_MSG_NUM = 16"
definition MSG_RECV_MAX :: nat where "MSG_RECV_MAX = 2"

definition MSG_HUB_INIT :: u32 where "MSG_HUB_INIT = BITn 0"
definition MSG_HUB_STARTED :: u32 where "MSG_HUB_STARTED = BITn 1"
definition MSG_RECVER_INIT :: u8 where "MSG_RECVER_INIT = BITn 0"
definition MSG_RECVER_CLR_CTX :: u8 where "MSG_RECVER_CLR_CTX = BITn 1"

record phl_msg_receiver_ex =
  recver_status :: u8
  recver_bitmap :: "u8 list"
  recver_ctx :: nat

record phl_msg_ex =
  ex_ctx :: phl_msg
  ex_done :: "nat option"

record phl_msg_hub =
  hub_status :: u32
  hub_pool :: "phl_msg_ex list"
  idle_msg_q :: "nat phl_queue"
  wait_msg_q :: "nat phl_queue"
  msg_q_sema :: nat
  recver :: "phl_msg_receiver_ex list"

definition zero_msg :: phl_msg where
  "zero_msg = \<lparr>msg_id = 0, msg_band = 0, msg_mdl = None, msg_bufs = 0\<rparr>"

definition zero_ex :: phl_msg_ex where
  "zero_ex = \<lparr>ex_ctx = zero_msg, ex_done = None\<rparr>"

definition zero_recver :: phl_msg_receiver_ex where
  "zero_recver = \<lparr>recver_status = 0, recver_bitmap = replicate MODL_MASK_LEN 0, recver_ctx = 0\<rparr>"

text \<open>\<open>_os_mem_alloc\<close> gives zeroed memory; \<open>alloc\<close> tells whether it succeeds.\<close>

definition phl_msg_hub_init :: "bool \<Rightarrow> phl_msg_hub option \<Rightarrow> phl_status \<times> phl_msg_hub option" where
  "phl_msg_hub_init alloc hub =
     (case hub of
        Some _ \<Rightarrow> (RTW_PHL_STATUS_FAILURE, hub)
      | None \<Rightarrow>
          if \<not> alloc then (RTW_PHL_STATUS_RESOURCE, None)
          else (RTW_PHL_STATUS_SUCCESS,
                Some \<lparr>hub_status = SET_STATUS_FLAG 0 MSG_HUB_INIT,
                      hub_pool = replicate MAX_MSG_NUM zero_ex,
                      idle_msg_q = pq_init, wait_msg_q = pq_init, msg_q_sema = 0,
                      recver = replicate MSG_RECV_MAX zero_recver\<rparr>))"

subsection \<open>The two queues\<close>

definition hub_pop_idle :: "phl_msg_hub \<Rightarrow> nat option \<times> phl_msg_hub" where
  "hub_pop_idle h =
     (case pq_pop (idle_msg_q h) First of
        (None, q) \<Rightarrow> (None, h\<lparr>idle_msg_q := q\<rparr>)
      | (Some k, q) \<Rightarrow> (Some k, h\<lparr>idle_msg_q := q, hub_pool := (hub_pool h)[k := zero_ex]\<rparr>))"

text \<open>\<open>push_back_idle_msg\<close> first calls the completion routine; the call is its own step.\<close>

definition hub_completion_call :: "phl_msg_hub \<Rightarrow> nat \<Rightarrow> (nat \<times> phl_msg) option" where
  "hub_completion_call h k =
     (case ex_done (hub_pool h ! k) of
        None \<Rightarrow> None
      | Some c \<Rightarrow> Some (c, ex_ctx (hub_pool h ! k)))"

definition hub_push_idle :: "phl_msg_hub \<Rightarrow> nat \<Rightarrow> phl_msg_hub" where
  "hub_push_idle h k = h\<lparr>idle_msg_q := pq_push (idle_msg_q h) k Tail\<rparr>"

definition hub_pop_wait :: "phl_msg_hub \<Rightarrow> nat option \<times> phl_msg_hub" where
  "hub_pop_wait h =
     (case pq_pop (wait_msg_q h) First of (x, q) \<Rightarrow> (x, h\<lparr>wait_msg_q := q\<rparr>))"

text \<open>\<open>push_back_wait_msg\<close> in two steps: the queue, then the semaphore.\<close>

definition hub_push_wait :: "phl_msg_hub \<Rightarrow> nat \<Rightarrow> phl_msg_hub" where
  "hub_push_wait h k = h\<lparr>wait_msg_q := pq_push (wait_msg_q h) k Tail\<rparr>"

definition hub_sema_up :: "phl_msg_hub \<Rightarrow> phl_msg_hub" where
  "hub_sema_up h = h\<lparr>msg_q_sema := msg_q_sema h + 1\<rparr>"

text \<open>The loop of \<open>phl_msg_hub_start\<close> that frees every slot, with the resets before it.\<close>

definition hub_fill :: "phl_msg_hub \<Rightarrow> phl_msg_hub" where
  "hub_fill h =
     h\<lparr>hub_pool := replicate MAX_MSG_NUM zero_ex,
       idle_msg_q := foldl (\<lambda>q i. pq_push q i Tail) (pq_reset (idle_msg_q h)) [0..<MAX_MSG_NUM],
       wait_msg_q := pq_reset (wait_msg_q h)\<rparr>"

subsection \<open>Receivers\<close>

definition layer_registered :: "phl_msg_hub \<Rightarrow> nat \<Rightarrow> bool" where
  "layer_registered h i \<longleftrightarrow> TEST_STATUS_FLAG (recver_status (recver h ! i)) MSG_RECVER_INIT"

definition hub_inited :: "phl_msg_hub \<Rightarrow> bool" where
  "hub_inited h \<longleftrightarrow> TEST_STATUS_FLAG (hub_status h) MSG_HUB_INIT"

definition hub_started :: "phl_msg_hub \<Rightarrow> bool" where
  "hub_started h \<longleftrightarrow> TEST_STATUS_FLAG (hub_status h) MSG_HUB_STARTED"

definition upd_recver :: "nat \<Rightarrow> (phl_msg_receiver_ex \<Rightarrow> phl_msg_receiver_ex) \<Rightarrow> phl_msg_hub \<Rightarrow> phl_msg_hub" where
  "upd_recver i f h = h\<lparr>recver := (recver h)[i := f (recver h ! i)]\<rparr>"

definition phl_msg_hub_register_recver ::
  "phl_msg_hub \<Rightarrow> nat option \<Rightarrow> nat \<Rightarrow> phl_status \<times> phl_msg_hub" where
  "phl_msg_hub_register_recver h ctx layer =
     (if \<not> hub_inited h \<or> layer \<ge> MSG_RECV_MAX \<or> ctx = None then (RTW_PHL_STATUS_FAILURE, h)
      else if layer_registered h layer then (RTW_PHL_STATUS_FAILURE, h)
      else (RTW_PHL_STATUS_SUCCESS,
            upd_recver layer
              (\<lambda>r. r\<lparr>recver_ctx := the ctx, recver_bitmap := replicate MODL_MASK_LEN 0,
                     recver_status := SET_STATUS_FLAG (recver_status r) MSG_RECVER_INIT\<rparr>) h))"

definition phl_msg_hub_update_recver_mask ::
  "phl_msg_hub \<Rightarrow> nat \<Rightarrow> u8 list \<Rightarrow> bool \<Rightarrow> phl_status \<times> phl_msg_hub" where
  "phl_msg_hub_update_recver_mask h layer mdl_ids clr =
     (if \<not> hub_inited h \<or> layer \<ge> MSG_RECV_MAX then (RTW_PHL_STATUS_FAILURE, h)
      else if \<not> layer_registered h layer then (RTW_PHL_STATUS_FAILURE, h)
      else (RTW_PHL_STATUS_SUCCESS,
            upd_recver layer
              (\<lambda>r. r\<lparr>recver_bitmap := (if clr then clr_bitmap_bit (recver_bitmap r) mdl_ids
                                      else add_bitmap_bit (recver_bitmap r) mdl_ids)\<rparr>) h))"

definition phl_msg_hub_deregister_recver :: "phl_msg_hub \<Rightarrow> nat \<Rightarrow> phl_status \<times> phl_msg_hub" where
  "phl_msg_hub_deregister_recver h layer =
     (if \<not> hub_inited h \<or> layer \<ge> MSG_RECV_MAX then (RTW_PHL_STATUS_FAILURE, h)
      else if \<not> layer_registered h layer then (RTW_PHL_STATUS_FAILURE, h)
      else (RTW_PHL_STATUS_SUCCESS,
            upd_recver layer
              (\<lambda>r. r\<lparr>recver_status := SET_STATUS_FLAG
                       (CLEAR_STATUS_FLAG (recver_status r) MSG_RECVER_INIT) MSG_RECVER_CLR_CTX\<rparr>) h))"

text \<open>Does layer \<open>i\<close> get the message in slot \<open>k\<close>?\<close>

definition recver_listens :: "phl_msg_hub \<Rightarrow> nat \<Rightarrow> nat \<Rightarrow> bool" where
  "recver_listens h i k \<longleftrightarrow> layer_registered h i \<and>
     chk_bitmap_bit (recver_bitmap (recver h ! i)) (MSG_MDL_ID_FIELD (msg_id (ex_ctx (hub_pool h ! k))))"

subsection \<open>Tasks\<close>

text \<open>
  The thread, \<open>msg_hub_thread_hdl\<close>: \<open>T_loop\<close> and \<open>T_wait\<close>, \<open>T_woken\<close> are the outer loop around
  the semaphore, \<open>T_pop\<close> the inner loop, \<open>T_got\<close>, \<open>T_fwd\<close>, \<open>T_clr\<close> are \<open>msg_forward\<close>,
  \<open>T_back\<close> and \<open>T_idle\<close> are \<open>push_back_idle_msg\<close>, the \<open>T_drain\<close> states are the loops after the
  stop was seen, and in \<open>T_exit\<close> the thread waits to be joined.
\<close>

datatype thread_pc =
    T_none | T_loop | T_wait | T_woken | T_pop
  | T_got nat | T_fwd nat nat | T_clr nat nat | T_back nat | T_idle nat
  | T_drain | T_drain_pop | T_drain_back nat | T_drain_idle nat | T_exit

text \<open>A sender, \<open>phl_msg_hub_send\<close>.\<close>

datatype sender_pc =
    S_done "phl_status option"
  | S_test "phl_msg option" "msg_attr option"
  | S_pop phl_msg "msg_attr option"
  | S_copy nat phl_msg "msg_attr option"
  | S_push nat phl_msg "msg_attr option"
  | S_up

text \<open>
  The task that starts and stops the hub; the flag tells whether \<open>phl_msg_hub_stop\<close> was called
  by \<open>phl_msg_hub_deinit\<close>, \<open>M_freed\<close> is reached when the hub was released.
\<close>

datatype mgr_pc =
    M_ready | M_start_thread | M_start_flag
  | M_stop_flag bool | M_stop_up bool | M_join bool | M_reset_idle bool | M_reset_wait bool
  | M_freed

text \<open>
  The state of the whole. The last three fields record what happened and are read by no
  operation: the contents of the slots in the order in which they were queued, the contents in
  the order in which they were finished, and the calls of receivers and completion routines.
\<close>

datatype hub_call = To_layer nat nat phl_msg | To_completion nat phl_msg

record hub_sys =
  the_hub :: phl_msg_hub
  thread :: thread_pc
  thread_stopped :: bool
  thread_started :: bool
  senders :: "sender_pc list"
  mgr :: mgr_pc
  log_queued :: "phl_msg_ex list"
  log_finished :: "phl_msg_ex list"
  log_calls :: "hub_call list"

subsection \<open>Steps of the tasks\<close>

definition log_call :: "hub_call \<Rightarrow> hub_sys \<Rightarrow> hub_sys" where
  "log_call c s = s\<lparr>log_calls := log_calls s @ [c]\<rparr>"

definition thread_to :: "thread_pc \<Rightarrow> hub_sys \<Rightarrow> hub_sys" where
  "thread_to pc s = s\<lparr>thread := pc\<rparr>"

text \<open>The first half of \<open>push_back_idle_msg\<close>: the slot is finished, its routine is called.\<close>

definition finish_slot :: "nat \<Rightarrow> hub_sys \<Rightarrow> hub_sys" where
  "finish_slot k s =
     (let s1 = s\<lparr>log_finished := log_finished s @ [hub_pool (the_hub s) ! k]\<rparr>
      in (case hub_completion_call (the_hub s) k of
            None \<Rightarrow> s1
          | Some (c, m) \<Rightarrow> log_call (To_completion c m) s1))"

text \<open>One round of the loop of \<open>msg_forward\<close>.\<close>

definition forward_round :: "nat \<Rightarrow> nat \<Rightarrow> hub_sys \<Rightarrow> hub_sys" where
  "forward_round k i s =
     (let h = the_hub s in
      if \<not> layer_registered h i
      then thread_to (if TEST_STATUS_FLAG (recver_status (recver h ! i)) MSG_RECVER_CLR_CTX
                      then T_clr k i else T_fwd k (i + 1)) s
      else if recver_listens h i k
      then thread_to (T_fwd k (i + 1))
             (log_call (To_layer i (recver_ctx (recver h ! i)) (ex_ctx (hub_pool h ! k))) s)
      else thread_to (T_fwd k (i + 1)) s)"

definition pop_wait_to :: "(nat \<Rightarrow> thread_pc) \<Rightarrow> thread_pc \<Rightarrow> hub_sys \<Rightarrow> hub_sys" where
  "pop_wait_to found nothing s =
     (case hub_pop_wait (the_hub s) of
        (None, h) \<Rightarrow> thread_to nothing (s\<lparr>the_hub := h\<rparr>)
      | (Some k, h) \<Rightarrow> thread_to (found k) (s\<lparr>the_hub := h\<rparr>))"

fun thread_at :: "thread_pc \<Rightarrow> hub_sys \<Rightarrow> hub_sys option" where
  "thread_at T_none s = None"
| "thread_at T_loop s = Some (thread_to (if thread_stopped s then T_drain else T_wait) s)"
| "thread_at T_wait s =
     (if msg_q_sema (the_hub s) = 0 then None
      else Some (thread_to T_woken
             (s\<lparr>the_hub := (the_hub s)\<lparr>msg_q_sema := msg_q_sema (the_hub s) - 1\<rparr>\<rparr>)))"
| "thread_at T_woken s = Some (thread_to (if thread_stopped s then T_drain else T_pop) s)"
| "thread_at T_pop s = Some (pop_wait_to T_got T_loop s)"
| "thread_at (T_got k) s =
     Some (thread_to (if hub_started (the_hub s) then T_fwd k 0 else T_back k) s)"
| "thread_at (T_fwd k i) s =
     Some (if i < MSG_RECV_MAX then forward_round k i s else thread_to (T_back k) s)"
| "thread_at (T_clr k i) s =
     Some (thread_to (T_fwd k (i + 1)) (s\<lparr>the_hub := upd_recver i (\<lambda>_. zero_recver) (the_hub s)\<rparr>))"
| "thread_at (T_back k) s = Some (thread_to (T_idle k) (finish_slot k s))"
| "thread_at (T_idle k) s = Some (thread_to T_pop (s\<lparr>the_hub := hub_push_idle (the_hub s) k\<rparr>))"
| "thread_at T_drain s =
     Some (thread_to (if pq_cnt (idle_msg_q (the_hub s)) \<noteq> int MAX_MSG_NUM then T_drain_pop
                      else T_exit) s)"
| "thread_at T_drain_pop s = Some (pop_wait_to T_drain_back T_drain s)"
| "thread_at (T_drain_back k) s = Some (thread_to (T_drain_idle k) (finish_slot k s))"
| "thread_at (T_drain_idle k) s =
     Some (thread_to T_drain_pop (s\<lparr>the_hub := hub_push_idle (the_hub s) k\<rparr>))"
| "thread_at T_exit s = None"

definition thread_step :: "hub_sys \<Rightarrow> hub_sys option" where
  "thread_step s = thread_at (thread s) s"

definition sender_to :: "nat \<Rightarrow> sender_pc \<Rightarrow> hub_sys \<Rightarrow> hub_sys" where
  "sender_to i pc s = s\<lparr>senders := (senders s)[i := pc]\<rparr>"

text \<open>What the sender writes into its slot; without a routine the cleared field stays.\<close>

definition sent_content :: "phl_msg \<Rightarrow> msg_attr option \<Rightarrow> phl_msg_ex \<Rightarrow> phl_msg_ex" where
  "sent_content m attr ex =
     \<lparr>ex_ctx = m,
      ex_done = (case attr of
                   None \<Rightarrow> ex_done ex
                 | Some a \<Rightarrow> (case attr_completion a of None \<Rightarrow> ex_done ex | Some c \<Rightarrow> Some c))\<rparr>"

fun sender_at :: "nat \<Rightarrow> sender_pc \<Rightarrow> hub_sys \<Rightarrow> hub_sys option" where
  "sender_at i (S_done r) s = None"
| "sender_at i (S_test m attr) s =
     Some (case m of
             None \<Rightarrow> sender_to i (S_done (Some RTW_PHL_STATUS_FAILURE)) s
           | Some msg \<Rightarrow>
               if \<not> hub_started (the_hub s)
               then sender_to i (S_done (Some RTW_PHL_STATUS_FAILURE)) s
               else sender_to i (S_pop msg attr) s)"
| "sender_at i (S_pop m attr) s =
     Some (case hub_pop_idle (the_hub s) of
             (None, h) \<Rightarrow> sender_to i (S_done (Some RTW_PHL_STATUS_RESOURCE)) (s\<lparr>the_hub := h\<rparr>)
           | (Some k, h) \<Rightarrow> sender_to i (S_copy k m attr) (s\<lparr>the_hub := h\<rparr>))"
| "sender_at i (S_copy k m attr) s =
     Some (sender_to i (S_push k m attr)
       (s\<lparr>the_hub := (the_hub s)\<lparr>hub_pool := (hub_pool (the_hub s))
            [k := sent_content m attr (hub_pool (the_hub s) ! k)]\<rparr>\<rparr>))"
| "sender_at i (S_push k m attr) s =
     Some (sender_to i S_up
       (s\<lparr>the_hub := hub_push_wait (the_hub s) k,
          log_queued := log_queued s @ [hub_pool (the_hub s) ! k]\<rparr>))"
| "sender_at i S_up s =
     Some (sender_to i (S_done (Some RTW_PHL_STATUS_SUCCESS)) (s\<lparr>the_hub := hub_sema_up (the_hub s)\<rparr>))"

definition mgr_to :: "mgr_pc \<Rightarrow> hub_sys \<Rightarrow> hub_sys" where
  "mgr_to pc s = s\<lparr>mgr := pc\<rparr>"

definition set_hub_status :: "(u32 \<Rightarrow> u32) \<Rightarrow> hub_sys \<Rightarrow> hub_sys" where
  "set_hub_status f s = s\<lparr>the_hub := (the_hub s)\<lparr>hub_status := f (hub_status (the_hub s))\<rparr>\<rparr>"

text \<open>
  \<open>created\<close> tells whether the operating system creates the thread. \<open>_os_thread_deinit\<close> waits
  for the thread to end.
\<close>

fun mgr_at :: "bool \<Rightarrow> mgr_pc \<Rightarrow> hub_sys \<Rightarrow> hub_sys option" where
  "mgr_at created M_ready s = None"
| "mgr_at created M_start_thread s =
     Some (mgr_to M_start_flag
       (s\<lparr>thread := (if created then T_loop else T_none),
          thread_stopped := False, thread_started := created\<rparr>))"
| "mgr_at created M_start_flag s =
     Some (mgr_to M_ready (set_hub_status (\<lambda>st. SET_STATUS_FLAG st MSG_HUB_STARTED) s))"
| "mgr_at created (M_stop_flag b) s = Some (mgr_to (M_stop_up b) (s\<lparr>thread_stopped := True\<rparr>))"
| "mgr_at created (M_stop_up b) s = Some (mgr_to (M_join b) (s\<lparr>the_hub := hub_sema_up (the_hub s)\<rparr>))"
| "mgr_at created (M_join b) s =
     (if \<not> thread_started s then Some (mgr_to (M_reset_idle b) s)
      else if thread s = T_exit
      then Some (mgr_to (M_reset_idle b) (s\<lparr>thread := T_none, thread_started := False\<rparr>))
      else None)"
| "mgr_at created (M_reset_idle b) s =
     Some (mgr_to (M_reset_wait b)
       (s\<lparr>the_hub := (the_hub s)\<lparr>idle_msg_q := pq_reset (idle_msg_q (the_hub s))\<rparr>\<rparr>))"
| "mgr_at created (M_reset_wait b) s =
     Some (mgr_to (if b then M_freed else M_ready)
       (s\<lparr>the_hub := (the_hub s)\<lparr>wait_msg_q := pq_reset (wait_msg_q (the_hub s))\<rparr>\<rparr>))"
| "mgr_at created M_freed s = None"

text \<open>The entries of the interface; a refused call gives the status and changes nothing.\<close>

definition phl_msg_hub_start :: "hub_sys \<Rightarrow> phl_status \<times> hub_sys" where
  "phl_msg_hub_start s =
     (if \<not> hub_inited (the_hub s) \<or> hub_started (the_hub s) then (RTW_PHL_STATUS_FAILURE, s)
      else (RTW_PHL_STATUS_SUCCESS, mgr_to M_start_thread (s\<lparr>the_hub := hub_fill (the_hub s)\<rparr>)))"

definition phl_msg_hub_stop :: "bool \<Rightarrow> hub_sys \<Rightarrow> phl_status \<times> hub_sys" where
  "phl_msg_hub_stop b s =
     (if \<not> hub_started (the_hub s) then (RTW_PHL_STATUS_FAILURE, s)
      else (RTW_PHL_STATUS_SUCCESS,
            mgr_to (M_stop_flag b) (set_hub_status (\<lambda>st. CLEAR_STATUS_FLAG st MSG_HUB_STARTED) s)))"

definition phl_msg_hub_deinit :: "hub_sys \<Rightarrow> phl_status \<times> hub_sys" where
  "phl_msg_hub_deinit s =
     (if \<not> hub_inited (the_hub s) then (RTW_PHL_STATUS_FAILURE, s)
      else (let s1 = set_hub_status (\<lambda>st. CLEAR_STATUS_FLAG st MSG_HUB_INIT) s
            in (RTW_PHL_STATUS_SUCCESS,
                (case phl_msg_hub_stop True s1 of
                   (RTW_PHL_STATUS_SUCCESS, s2) \<Rightarrow> s2
                 | (_, s2) \<Rightarrow> mgr_to M_freed s2))))"

datatype hub_event =
    E_send nat "phl_msg option" "msg_attr option" | E_sender nat
  | E_thread
  | E_start | E_stop | E_deinit | E_mgr bool
  | E_register "nat option" nat | E_mask nat "u8 list" bool | E_deregister nat

definition on_hub :: "(phl_msg_hub \<Rightarrow> phl_status \<times> phl_msg_hub) \<Rightarrow> hub_sys \<Rightarrow> hub_sys" where
  "on_hub f s = s\<lparr>the_hub := snd (f (the_hub s))\<rparr>"

fun hub_event_step :: "hub_event \<Rightarrow> hub_sys \<Rightarrow> hub_sys option" where
  "hub_event_step (E_send i m attr) s =
     (if i < length (senders s)
      then (case senders s ! i of S_done _ \<Rightarrow> Some (sender_to i (S_test m attr) s) | _ \<Rightarrow> None)
      else None)"
| "hub_event_step (E_sender i) s =
     (if i < length (senders s) then sender_at i (senders s ! i) s else None)"
| "hub_event_step E_thread s = thread_step s"
| "hub_event_step E_start s = (if mgr s = M_ready then Some (snd (phl_msg_hub_start s)) else None)"
| "hub_event_step E_stop s = (if mgr s = M_ready then Some (snd (phl_msg_hub_stop False s)) else None)"
| "hub_event_step E_deinit s = (if mgr s = M_ready then Some (snd (phl_msg_hub_deinit s)) else None)"
| "hub_event_step (E_mgr created) s = mgr_at created (mgr s) s"
| "hub_event_step (E_register ctx layer) s =
     Some (on_hub (\<lambda>h. phl_msg_hub_register_recver h ctx layer) s)"
| "hub_event_step (E_mask layer ids clr) s =
     Some (on_hub (\<lambda>h. phl_msg_hub_update_recver_mask h layer ids clr) s)"
| "hub_event_step (E_deregister layer) s = Some (on_hub (\<lambda>h. phl_msg_hub_deregister_recver h layer) s)"

text \<open>Nothing happens any more once the hub is released.\<close>

definition hub_step :: "hub_event \<Rightarrow> hub_sys \<Rightarrow> hub_sys option" where
  "hub_step ev s = (if mgr s = M_freed then None else hub_event_step ev s)"

definition hub_sys_init :: "nat \<Rightarrow> hub_sys" where
  "hub_sys_init n =
     \<lparr>the_hub = the (snd (phl_msg_hub_init True None)), thread = T_none,
      thread_stopped = False, thread_started = False,
      senders = replicate n (S_done None), mgr = M_ready,
      log_queued = [], log_finished = [], log_calls = []\<rparr>"

text \<open>A sender that has passed the test of the started flag and has not queued its slot yet.\<close>

fun past_test :: "sender_pc \<Rightarrow> bool" where
  "past_test (S_pop m a) = True"
| "past_test (S_copy k m a) = True"
| "past_test (S_push k m a) = True"
| "past_test _ = False"

definition no_sender_inside :: "hub_sys \<Rightarrow> bool" where
  "no_sender_inside s \<longleftrightarrow> (\<forall>p \<in> set (senders s). \<not> past_test p)"

text \<open>
  The reachable states. In an orderly run the operating system creates the threads, and the
  thread does not end while a sender is between its test of the started flag and its queueing;
  the code does not see to either.
\<close>

definition orderly_step :: "hub_event \<Rightarrow> hub_sys \<Rightarrow> bool" where
  "orderly_step ev s' \<longleftrightarrow> ev \<noteq> E_mgr False \<and> (thread s' = T_exit \<longrightarrow> no_sender_inside s')"

inductive hub_reach :: "bool \<Rightarrow> hub_sys \<Rightarrow> bool" for orderly where
  hub_reach_init: "hub_reach orderly (hub_sys_init n)"
| hub_reach_step: "\<lbrakk>hub_reach orderly s; hub_step ev s = Some s'; orderly \<longrightarrow> orderly_step ev s'\<rbrakk>
    \<Longrightarrow> hub_reach orderly s'"

text \<open>A sequence of events, and the thread running alone for up to \<open>n\<close> steps.\<close>

fun hub_run :: "hub_event list \<Rightarrow> hub_sys \<Rightarrow> hub_sys option" where
  "hub_run [] s = Some s"
| "hub_run (ev # evs) s = (case hub_step ev s of None \<Rightarrow> None | Some s' \<Rightarrow> hub_run evs s')"

fun thread_run :: "nat \<Rightarrow> hub_sys \<Rightarrow> hub_sys" where
  "thread_run 0 s = s"
| "thread_run (Suc n) s = (case thread_step s of None \<Rightarrow> s | Some s' \<Rightarrow> thread_run n s')"

lemma hub_reach_run: "hub_run evs s = Some s' \<Longrightarrow> hub_reach False s \<Longrightarrow> hub_reach False s'"
  by (induction evs arbitrary: s) (auto split: option.splits intro: hub_reach_step)

fun orderly_run :: "hub_event list \<Rightarrow> hub_sys \<Rightarrow> bool" where
  "orderly_run [] s = True"
| "orderly_run (ev # evs) s =
     (case hub_step ev s of None \<Rightarrow> True | Some s' \<Rightarrow> orderly_step ev s' \<and> orderly_run evs s')"

lemma hub_reach_orderly_run:
  "hub_run evs s = Some s' \<Longrightarrow> orderly_run evs s \<Longrightarrow> hub_reach True s \<Longrightarrow> hub_reach True s'"
  by (induction evs arbitrary: s) (auto split: option.splits intro: hub_reach_step)

end
