(* ===== verification/MsgHubInv.thy ===== *)
theory MsgHubInv
  imports MsgHub
begin

text \<open>
  The invariant of the message hub in orderly runs: each of the sixteen slots is in exactly one
  place, the slots that wait are in the order in which they were queued and hold what was
  queued, and the program counters of the three kinds of tasks fit together.
\<close>

subsection \<open>The invariant\<close>

text \<open>The slots a task holds, and those of them that are not finished yet.\<close>

fun thread_slots :: "thread_pc \<Rightarrow> nat list" where
  "thread_slots (T_got k) = [k]"
| "thread_slots (T_fwd k i) = [k]"
| "thread_slots (T_clr k i) = [k]"
| "thread_slots (T_back k) = [k]"
| "thread_slots (T_idle k) = [k]"
| "thread_slots (T_drain_back k) = [k]"
| "thread_slots (T_drain_idle k) = [k]"
| "thread_slots _ = []"

fun unfinished :: "thread_pc \<Rightarrow> nat list" where
  "unfinished (T_got k) = [k]"
| "unfinished (T_fwd k i) = [k]"
| "unfinished (T_clr k i) = [k]"
| "unfinished (T_back k) = [k]"
| "unfinished (T_drain_back k) = [k]"
| "unfinished _ = []"

fun sender_slots :: "sender_pc \<Rightarrow> nat multiset" where
  "sender_slots (S_copy k m a) = {#k#}"
| "sender_slots (S_push k m a) = {#k#}"
| "sender_slots _ = {#}"

fun working :: "thread_pc \<Rightarrow> bool" where
  "working T_none = False"
| "working T_drain = False"
| "working T_drain_pop = False"
| "working (T_drain_back k) = False"
| "working (T_drain_idle k) = False"
| "working T_exit = False"
| "working _ = True"

definition hub_slots :: "hub_sys \<Rightarrow> nat multiset" where
  "hub_slots s = mset (pq_queue (idle_msg_q (the_hub s))) + mset (pq_queue (wait_msg_q (the_hub s)))
     + mset (thread_slots (thread s)) + (\<Sum>p\<leftarrow>senders s. sender_slots p)"

definition hub_live :: "hub_sys \<Rightarrow> bool" where
  "hub_live s \<longleftrightarrow> hub_started (the_hub s) \<or>
     \<not> (mgr s = M_ready \<or> mgr s = M_freed \<or> (\<exists>b. mgr s = M_reset_wait b))"

definition hub_shape :: "phl_msg_hub \<Rightarrow> bool" where
  "hub_shape h \<longleftrightarrow> pq_wf (idle_msg_q h) \<and> pq_wf (wait_msg_q h) \<and>
     length (hub_pool h) = MAX_MSG_NUM \<and> length (recver h) = MSG_RECV_MAX"

definition thread_alive :: "hub_sys \<Rightarrow> bool" where
  "thread_alive s \<longleftrightarrow> thread_started s \<and> \<not> thread_stopped s \<and> working (thread s)"

definition quiescent :: "hub_sys \<Rightarrow> bool" where
  "quiescent s \<longleftrightarrow> thread s = T_none \<and> no_sender_inside s \<and> pq_queue (wait_msg_q (the_hub s)) = []"

definition thread_leaving :: "hub_sys \<Rightarrow> bool" where
  "thread_leaving s \<longleftrightarrow> thread_started s \<and> thread_stopped s \<and> thread s \<noteq> T_none \<and>
     (thread s = T_exit \<longrightarrow> no_sender_inside s \<and> pq_cnt (idle_msg_q (the_hub s)) = int MAX_MSG_NUM)"

fun phase_ok :: "mgr_pc \<Rightarrow> hub_sys \<Rightarrow> bool" where
  "phase_ok M_ready s \<longleftrightarrow> (if hub_started (the_hub s) then thread_alive s else quiescent s)"
| "phase_ok M_start_thread s \<longleftrightarrow> \<not> hub_started (the_hub s) \<and> quiescent s"
| "phase_ok M_start_flag s \<longleftrightarrow> \<not> hub_started (the_hub s) \<and> thread_alive s"
| "phase_ok (M_stop_flag b) s \<longleftrightarrow> \<not> hub_started (the_hub s) \<and> thread_alive s"
| "phase_ok (M_stop_up b) s \<longleftrightarrow> \<not> hub_started (the_hub s) \<and> thread_leaving s"
| "phase_ok (M_join b) s \<longleftrightarrow> \<not> hub_started (the_hub s) \<and> thread_leaving s"
| "phase_ok (M_reset_idle b) s \<longleftrightarrow> \<not> hub_started (the_hub s) \<and> quiescent s"
| "phase_ok (M_reset_wait b) s \<longleftrightarrow> \<not> hub_started (the_hub s) \<and> quiescent s"
| "phase_ok M_freed s \<longleftrightarrow> \<not> hub_started (the_hub s) \<and> quiescent s"

definition hub_fifo :: "hub_sys \<Rightarrow> bool" where
  "hub_fifo s \<longleftrightarrow> log_queued s = log_finished s @
     map ((!) (hub_pool (the_hub s))) (unfinished (thread s) @ pq_queue (wait_msg_q (the_hub s)))"

definition hub_inv :: "hub_sys \<Rightarrow> bool" where
  "hub_inv s \<longleftrightarrow> hub_shape (the_hub s) \<and> phase_ok (mgr s) s \<and>
     (hub_live s \<longrightarrow> hub_slots s = mset [0..<MAX_MSG_NUM]) \<and> hub_fifo s"

lemma sum_list_update_mset:
  "i < length xs \<Longrightarrow> (\<Sum>p\<leftarrow>xs[i := y]. f p) + f (xs ! i) = (\<Sum>p\<leftarrow>xs. f p) + (f y :: 'a multiset)"
  by (induction xs arbitrary: i) (auto simp: nth_Cons ac_simps split: nat.splits)

lemma slots_exchange:
  assumes "a + n = b + old" "x + old = y + n"
  shows "a + t + x = b + t + (y :: 'a multiset)"
proof (rule multiset_eqI)
  fix k
  from assms have "count a k + count n k = count b k + count old k"
    "count x k + count old k = count y k + count n k" by (metis count_union)+
  then show "count (a + t + x) k = count (b + t + y) k" by simp
qed

lemma sender_slots_outside: "\<not> past_test p \<Longrightarrow> sender_slots p = {#}"
  by (cases p) auto

lemma sum_list_none:
  "\<forall>p \<in> set xs. \<not> past_test p \<Longrightarrow> (\<Sum>p\<leftarrow>xs. sender_slots p) = {#}"
  by (induction xs) (auto simp: sender_slots_outside)

lemma unfinished_sub: "set (unfinished pc) \<subseteq> set (thread_slots pc)"
  by (cases pc) auto

lemma slots_distinct:
  assumes "hub_slots s = mset [0..<MAX_MSG_NUM]"
  shows "count (hub_slots s) k \<le> 1"
  unfolding assms by (metis count_mset distinct_count_atmost_1 distinct_upt le_numeral_extra(4) less_one linorder_le_less_linear nat_le_linear not_one_le_zero set_mset_mset zero_le)


subsection \<open>The thread\<close>

lemma hub_inv_thread:
  assumes "hub_inv s" "thread s \<noteq> T_none" "thread s \<noteq> T_exit" "thread s' \<noteq> T_none"
    and "working (thread s) \<Longrightarrow> \<not> thread_stopped s \<Longrightarrow> working (thread s')"
    and "mgr s' = mgr s" "hub_started (the_hub s') = hub_started (the_hub s)"
    and "thread_started s' = thread_started s" "thread_stopped s' = thread_stopped s"
    and "thread s' = T_exit \<Longrightarrow>
          no_sender_inside s' \<and> pq_cnt (idle_msg_q (the_hub s')) = int MAX_MSG_NUM"
    and "hub_shape (the_hub s')" "hub_slots s' = hub_slots s" "hub_fifo s'"
  shows "hub_inv s'"
proof -
  have "phase_ok (mgr s) s'"
    using assms(1-10) unfolding hub_inv_def
    by (cases "mgr s") (auto simp: thread_alive_def thread_leaving_def quiescent_def)
  moreover have "hub_live s"
    using assms(1,2) unfolding hub_inv_def hub_live_def
    by (cases "mgr s") (auto simp: quiescent_def split: if_splits)
  ultimately show ?thesis using assms by (simp add: hub_inv_def hub_live_def)
qed

lemma hub_inv_parts:
  assumes "hub_inv s"
  shows "pq_wf (idle_msg_q (the_hub s))" "pq_wf (wait_msg_q (the_hub s))"
    "length (hub_pool (the_hub s)) = MAX_MSG_NUM" "length (recver (the_hub s)) = MSG_RECV_MAX"
    "hub_shape (the_hub s)" "hub_fifo s"
  using assms by (simp_all add: hub_inv_def hub_shape_def)

lemma pop_wait_inv:
  assumes inv: "hub_inv s" and t: "thread s = T_pop \<and> found = T_got \<and> nothing = T_loop \<or>
      thread s = T_drain_pop \<and> found = T_drain_back \<and> nothing = T_drain"
  shows "hub_inv (pop_wait_to found nothing s)"
proof (cases "pq_queue (wait_msg_q (the_hub s))")
  case Nil
  then have "pq_pop (wait_msg_q (the_hub s)) First = (None, wait_msg_q (the_hub s))"
    using hub_inv_parts(2) [OF inv] by (rule pqf.pop_nil [rotated])
  then have e: "pop_wait_to found nothing s = thread_to nothing s"
    by (simp add: pop_wait_to_def hub_pop_wait_def)
  show ?thesis unfolding e
    by (rule hub_inv_thread [OF inv]; insert t hub_inv_parts [OF inv]; elim disjE conjE)
      (simp_all add: thread_to_def hub_slots_def hub_fifo_def)
next
  case (Cons k ks)
  from pqf.pop_cons [OF hub_inv_parts(2) [OF inv] Cons] obtain q where
    q: "pq_pop (wait_msg_q (the_hub s)) First = (Some k, q)" "pq_queue q = ks" "pq_wf q" by blast
  then have e: "pop_wait_to found nothing s =
      thread_to (found k) (s\<lparr>the_hub := (the_hub s)\<lparr>wait_msg_q := q\<rparr>\<rparr>)"
    by (simp add: pop_wait_to_def hub_pop_wait_def)
  show ?thesis unfolding e
    by (rule hub_inv_thread [OF inv]; insert t hub_inv_parts [OF inv] q Cons; elim disjE conjE)
      (simp_all add: thread_to_def hub_slots_def hub_fifo_def hub_shape_def hub_started_def)
qed

lemma hub_inv_log_calls [simp]: "hub_inv (log_call c s) \<longleftrightarrow> hub_inv s"
  unfolding hub_inv_def log_call_def
  by (cases "mgr s") (simp_all add: hub_live_def hub_slots_def hub_fifo_def thread_alive_def
      quiescent_def thread_leaving_def no_sender_inside_def)

lemma thread_to_log: "thread_to pc (log_call c s) = log_call c (thread_to pc s)"
  by (simp add: thread_to_def log_call_def)

lemma finish_inv:
  assumes inv: "hub_inv s" and t: "thread s = T_back k \<and> next_pc = T_idle k \<or>
      thread s = T_drain_back k \<and> next_pc = T_drain_idle k"
  shows "hub_inv (thread_to next_pc (finish_slot k s))"
proof -
  have "hub_inv (thread_to next_pc (s\<lparr>log_finished := log_finished s @ [hub_pool (the_hub s) ! k]\<rparr>))"
    by (rule hub_inv_thread [OF inv]; insert t hub_inv_parts [OF inv]; elim disjE conjE)
      (simp_all add: thread_to_def hub_slots_def hub_fifo_def)
  then show ?thesis
    by (auto simp: finish_slot_def Let_def thread_to_log split: option.split)
qed

lemma push_idle_inv:
  assumes inv: "hub_inv s" and t: "thread s = T_idle k \<and> next_pc = T_pop \<or>
      thread s = T_drain_idle k \<and> next_pc = T_drain_pop"
  shows "hub_inv (thread_to next_pc (s\<lparr>the_hub := hub_push_idle (the_hub s) k\<rparr>))"
  by (rule hub_inv_thread [OF inv]; insert t hub_inv_parts [OF inv]; elim disjE conjE)
    (auto simp: thread_to_def hub_slots_def hub_fifo_def hub_push_idle_def hub_shape_def hub_started_def)

lemma forward_inv:
  assumes inv: "hub_inv s" and t: "thread s = T_fwd k i"
  shows "hub_inv (forward_round k i s)"
proof -
  have "hub_inv (thread_to pc s)" if "pc = T_clr k i \<or> pc = T_fwd k (i + 1)" for pc
    by (rule hub_inv_thread [OF inv]; insert t that hub_inv_parts [OF inv]; elim disjE conjE)
      (simp_all add: hub_slots_def hub_fifo_def thread_to_def)
  then show ?thesis by (auto simp: forward_round_def Let_def thread_to_log)
qed

lemma thread_step_inv:
  assumes inv: "hub_inv s" and st: "thread_step s = Some s'"
    and ex: "thread s' = T_exit \<longrightarrow> no_sender_inside s'"
  shows "hub_inv s'"
proof -
  note parts = hub_inv_parts [OF inv]
  note tac = thread_to_def hub_slots_def hub_fifo_def hub_shape_def hub_started_def upd_recver_def
  show ?thesis
  proof (cases "thread s")
    case T_loop
    with st have "s' = thread_to (if thread_stopped s then T_drain else T_wait) s" by (simp add: thread_step_def)
    then show ?thesis
      by (cases "thread_stopped s") (rule hub_inv_thread [OF inv]; insert parts T_loop; simp add: tac)+
  next
    case T_wait
    with st have "s' = thread_to T_woken
         (s\<lparr>the_hub := (the_hub s)\<lparr>msg_q_sema := msg_q_sema (the_hub s) - 1\<rparr>\<rparr>)"
      by (simp add: thread_step_def split: if_splits)
    then show ?thesis by (intro hub_inv_thread [OF inv]) (insert parts T_wait; simp add: tac)+
  next
    case T_woken
    with st have "s' = thread_to (if thread_stopped s then T_drain else T_pop) s" by (simp add: thread_step_def)
    then show ?thesis
      by (cases "thread_stopped s") (rule hub_inv_thread [OF inv]; insert parts T_woken; simp add: tac)+
  next
    case T_pop
    with st show ?thesis using pop_wait_inv [OF inv] by (simp add: thread_step_def)
  next
    case (T_got k)
    with st have "s' = thread_to (if hub_started (the_hub s) then T_fwd k 0 else T_back k) s"
      by (simp add: thread_step_def)
    then show ?thesis
      by (cases "hub_started (the_hub s)") (rule hub_inv_thread [OF inv]; insert parts T_got; simp add: tac)+
  next
    case (T_fwd k i)
    show ?thesis
    proof (cases "i < MSG_RECV_MAX")
      case True
      with st T_fwd show ?thesis using forward_inv [OF inv T_fwd] by (simp add: thread_step_def)
    next
      case False
      with st T_fwd have "s' = thread_to (T_back k) s" by (simp add: thread_step_def)
      then show ?thesis by (intro hub_inv_thread [OF inv]) (insert parts T_fwd; simp add: tac)+
    qed
  next
    case (T_clr k i)
    with st have "s' = thread_to (T_fwd k (i + 1)) (s\<lparr>the_hub := upd_recver i (\<lambda>_. zero_recver) (the_hub s)\<rparr>)"
      by (simp add: thread_step_def)
    then show ?thesis by (intro hub_inv_thread [OF inv]) (insert parts T_clr; simp add: tac)+
  next
    case (T_back k)
    with st show ?thesis using finish_inv [OF inv, of k "T_idle k"] by (simp add: thread_step_def)
  next
    case (T_idle k)
    with st show ?thesis using push_idle_inv [OF inv, of k T_pop] by (simp add: thread_step_def)
  next
    case T_drain
    with st have "s' = thread_to (if pq_cnt (idle_msg_q (the_hub s)) \<noteq> int MAX_MSG_NUM then T_drain_pop
        else T_exit) s" by (simp add: thread_step_def)
    then show ?thesis using ex
      by (cases "pq_cnt (idle_msg_q (the_hub s)) = int MAX_MSG_NUM")
        (rule hub_inv_thread [OF inv]; insert parts T_drain; simp add: tac)+
  next
    case T_drain_pop
    with st show ?thesis using pop_wait_inv [OF inv] by (simp add: thread_step_def)
  next
    case (T_drain_back k)
    with st show ?thesis using finish_inv [OF inv, of k "T_drain_idle k"] by (simp add: thread_step_def)
  next
    case (T_drain_idle k)
    with st show ?thesis using push_idle_inv [OF inv, of k T_drain_pop] by (simp add: thread_step_def)
  qed (use st in \<open>simp_all add: thread_step_def\<close>)
qed


subsection \<open>The senders\<close>

lemma hub_slots_sender:
  "i < length (senders s) \<Longrightarrow>
     hub_slots (sender_to i pc s) + sender_slots (senders s ! i) = hub_slots s + sender_slots pc"
  using sum_list_update_mset [of i "senders s" sender_slots pc]
  by (simp add: hub_slots_def sender_to_def ac_simps)

lemma no_sender_inside_update:
  "no_sender_inside s \<Longrightarrow> \<not> past_test pc \<Longrightarrow> no_sender_inside (sender_to i pc s)"
  unfolding no_sender_inside_def sender_to_def
  by simp (metis in_set_conv_nth length_list_update nth_list_update_eq nth_list_update_neq)

lemma inside_before:
  "no_sender_inside s \<Longrightarrow> i < length (senders s) \<Longrightarrow> \<not> past_test (senders s ! i)"
  by (simp add: no_sender_inside_def)

lemma hub_inv_sender:
  assumes inv: "hub_inv s" and i: "i < length (senders s)"
    and s': "s' = sender_to i pc (s\<lparr>the_hub := h, log_queued := lq\<rparr>)"
    and pc: "past_test (senders s ! i) \<or> \<not> past_test pc \<or> hub_started (the_hub s)"
    and q: "\<not> past_test (senders s ! i) \<Longrightarrow>
        idle_msg_q h = idle_msg_q (the_hub s) \<and> wait_msg_q h = wait_msg_q (the_hub s)"
    and st: "hub_started h = hub_started (the_hub s)"
    and h: "hub_shape h" and f: "hub_fifo s'"
    and sl: "mset (pq_queue (idle_msg_q h)) + mset (pq_queue (wait_msg_q h)) + sender_slots pc =
        mset (pq_queue (idle_msg_q (the_hub s))) + mset (pq_queue (wait_msg_q (the_hub s)))
          + sender_slots (senders s ! i)"
  shows "hub_inv s'"
proof -
  have same: "idle_msg_q h = idle_msg_q (the_hub s)" "wait_msg_q h = wait_msg_q (the_hub s)"
      "no_sender_inside s'"
    if ns: "no_sender_inside s" "\<not> hub_started (the_hub s)"
  proof -
    have out: "\<not> past_test (senders s ! i)" by (rule inside_before [OF ns(1) i])
    with q show "idle_msg_q h = idle_msg_q (the_hub s)" "wait_msg_q h = wait_msg_q (the_hub s)"
      by simp_all
    from out pc ns have "\<not> past_test pc" by simp
    with ns show "no_sender_inside s'" unfolding s'
      by (intro no_sender_inside_update) (simp_all add: no_sender_inside_def)
  qed
  have fields: "mgr s' = mgr s" "thread s' = thread s" "thread_started s' = thread_started s"
      "thread_stopped s' = thread_stopped s" "the_hub s' = h"
    by (simp_all add: s' sender_to_def)
  have "thread_alive s \<Longrightarrow> thread_alive s'" by (simp add: thread_alive_def fields)
  moreover have "quiescent s \<Longrightarrow> \<not> hub_started (the_hub s) \<Longrightarrow> quiescent s'"
    using same by (simp add: quiescent_def fields)
  moreover have "thread_leaving s \<Longrightarrow> \<not> hub_started (the_hub s) \<Longrightarrow> thread_leaving s'"
    using same by (simp add: thread_leaving_def fields)
  moreover have "phase_ok (mgr s) s" using inv by (simp add: hub_inv_def)
  ultimately have "phase_ok (mgr s) s'"
    using st by (cases "mgr s") (simp_all add: fields split: if_splits)
  moreover have "hub_slots s' = hub_slots s"
    unfolding s' using slots_exchange [OF sl sum_list_update_mset [OF i, of sender_slots pc]]
    by (simp add: hub_slots_def sender_to_def)
  ultimately show ?thesis using inv h f st
    by (simp add: hub_inv_def hub_live_def s' sender_to_def)
qed


lemma inside_live: "hub_inv s \<Longrightarrow> i < length (senders s) \<Longrightarrow> past_test (senders s ! i) \<Longrightarrow> hub_live s"
  using inside_before [of s i] unfolding hub_inv_def hub_live_def
  by (cases "mgr s") (auto simp: quiescent_def split: if_splits)

lemma conserved_count:
  "hub_slots s = mset [0..<MAX_MSG_NUM] \<Longrightarrow> count (hub_slots s) k = (if k < MAX_MSG_NUM then 1 else 0)"
  by (simp add: count_mset count_list_eq_length_filter)

lemma sender_slot_alone:
  assumes c: "hub_slots s = mset [0..<MAX_MSG_NUM]"
    and i: "i < length (senders s)" and k: "sender_slots (senders s ! i) = {#k#}"
  shows "k < MAX_MSG_NUM" "k \<notin> set (pq_queue (idle_msg_q (the_hub s)))"
    "k \<notin> set (pq_queue (wait_msg_q (the_hub s)))" "k \<notin> set (thread_slots (thread s))"
proof -
  have "hub_slots (sender_to i S_up s) + {#k#} = hub_slots s"
    using hub_slots_sender [OF i, of S_up] k by simp
  then have "count (hub_slots (sender_to i S_up s)) k + 1 = (if k < MAX_MSG_NUM then 1 else 0)"
    using conserved_count [OF c, of k] by (metis count_single count_union)
  then show "k < MAX_MSG_NUM" and z: "k \<notin> set (pq_queue (idle_msg_q (the_hub s)))"
    "k \<notin> set (pq_queue (wait_msg_q (the_hub s)))" "k \<notin> set (thread_slots (thread s))"
    by (auto simp: hub_slots_def sender_to_def count_mset_0_iff split: if_splits)
qed

lemma idle_slot_alone:
  assumes c: "hub_slots s = mset [0..<MAX_MSG_NUM]"
    and k: "pq_queue (idle_msg_q (the_hub s)) = k # ks"
  shows "k < MAX_MSG_NUM" "k \<notin> set (pq_queue (wait_msg_q (the_hub s)))"
    "k \<notin> set (thread_slots (thread s))"
  using conserved_count [OF c, of k] k
  by (auto simp: hub_slots_def count_mset_0_iff split: if_splits)

lemma fifo_pool_update:
  assumes "k \<notin> set (pq_queue (wait_msg_q (the_hub s)))" "k \<notin> set (thread_slots (thread s))"
  shows "map ((!) ((hub_pool (the_hub s))[k := x])) (unfinished (thread s) @ pq_queue (wait_msg_q (the_hub s)))
       = map ((!) (hub_pool (the_hub s))) (unfinished (thread s) @ pq_queue (wait_msg_q (the_hub s)))"
proof (intro map_cong refl)
  fix j assume "j \<in> set (unfinished (thread s) @ pq_queue (wait_msg_q (the_hub s)))"
  with assms unfinished_sub [of "thread s"] have "k \<noteq> j" by auto
  then show "(hub_pool (the_hub s))[k := x] ! j = hub_pool (the_hub s) ! j" by simp
qed

lemma sender_step_inv:
  assumes inv: "hub_inv s" and i: "i < length (senders s)"
    and st: "sender_at i (senders s ! i) s = Some s'"
  shows "hub_inv s'"
proof -
  note parts = hub_inv_parts [OF inv]
  note tac = sender_to_def hub_fifo_def hub_shape_def hub_started_def
  have same: "s\<lparr>the_hub := the_hub s, log_queued := log_queued s\<rparr> = s"
    "s\<lparr>log_queued := log_queued s\<rparr> = s" by simp_all
  have cons: "hub_slots s = mset [0..<MAX_MSG_NUM]" if "past_test (senders s ! i)"
    using inside_live [OF inv i that] inv by (simp add: hub_inv_def)
  show ?thesis
  proof (cases "senders s ! i")
    case (S_test m attr)
    with st obtain pc where s': "s' = sender_to i pc s" "sender_slots pc = {#}"
      "\<not> past_test pc \<or> hub_started (the_hub s)"
      by (auto split: option.splits if_splits)
    show ?thesis
      by (rule hub_inv_sender [OF inv i, where pc = pc and h = "the_hub s" and lq = "log_queued s"])
        (insert s' parts S_test, simp_all add: tac)
  next
    case (S_pop m attr)
    show ?thesis
    proof (cases "pq_queue (idle_msg_q (the_hub s))")
      case Nil
      then have "pq_pop (idle_msg_q (the_hub s)) First = (None, idle_msg_q (the_hub s))"
        using parts(1) by (rule pqf.pop_nil [rotated])
      with st S_pop have s': "s' = sender_to i (S_done (Some RTW_PHL_STATUS_RESOURCE)) s"
        by (simp add: hub_pop_idle_def)
      show ?thesis
        by (rule hub_inv_sender [OF inv i, where pc = "S_done (Some RTW_PHL_STATUS_RESOURCE)"
            and h = "the_hub s" and lq = "log_queued s"])
          (insert s' parts S_pop, simp_all add: tac)
    next
      case (Cons k ks)
      from pqf.pop_cons [OF parts(1) Cons] obtain q where
        q: "pq_pop (idle_msg_q (the_hub s)) First = (Some k, q)" "pq_queue q = ks" "pq_wf q" by blast
      define h where "h = (the_hub s)\<lparr>idle_msg_q := q, hub_pool := (hub_pool (the_hub s))[k := zero_ex]\<rparr>"
      have s': "s' = sender_to i (S_copy k m attr) (s\<lparr>the_hub := h, log_queued := log_queued s\<rparr>)"
        using st S_pop q by (simp add: hub_pop_idle_def h_def)
      have al: "k \<notin> set (pq_queue (wait_msg_q (the_hub s)))" "k \<notin> set (thread_slots (thread s))"
        using idle_slot_alone [OF cons Cons] S_pop by simp_all
      show ?thesis
        by (rule hub_inv_sender [OF inv i s'])
          (insert s' parts S_pop q Cons fifo_pool_update [OF al, of zero_ex], simp_all add: tac h_def)
    qed
  next
    case (S_copy k m attr)
    define h where "h = (the_hub s)\<lparr>hub_pool := (hub_pool (the_hub s))
        [k := sent_content m attr (hub_pool (the_hub s) ! k)]\<rparr>"
    have s': "s' = sender_to i (S_push k m attr) (s\<lparr>the_hub := h, log_queued := log_queued s\<rparr>)"
      using st S_copy by (simp add: h_def)
    have al: "k \<notin> set (pq_queue (wait_msg_q (the_hub s)))" "k \<notin> set (thread_slots (thread s))"
      using sender_slot_alone [OF cons i] S_copy by simp_all
    show ?thesis
      by (rule hub_inv_sender [OF inv i s'])
        (insert s' parts S_copy fifo_pool_update [OF al], simp_all add: tac h_def)
  next
    case (S_push k m attr)
    have s': "s' = sender_to i S_up (s\<lparr>the_hub := hub_push_wait (the_hub s) k,
        log_queued := log_queued s @ [hub_pool (the_hub s) ! k]\<rparr>)"
      using st S_push by simp
    show ?thesis
      by (rule hub_inv_sender [OF inv i s'])
        (insert s' parts S_push, auto simp: tac hub_push_wait_def)
  next
    case S_up
    have s': "s' = sender_to i (S_done (Some RTW_PHL_STATUS_SUCCESS))
        (s\<lparr>the_hub := hub_sema_up (the_hub s), log_queued := log_queued s\<rparr>)"
      using st S_up by simp
    show ?thesis
      by (rule hub_inv_sender [OF inv i s'])
        (insert s' parts S_up, simp_all add: tac hub_sema_up_def)
  qed (use st in simp)
qed


subsection \<open>The manager and the interface\<close>

lemma quiescent_slots:
  "quiescent s \<Longrightarrow> hub_slots s = mset (pq_queue (idle_msg_q (the_hub s)))"
  by (simp add: quiescent_def hub_slots_def no_sender_inside_def sum_list_none)

lemma hub_inited_started [simp]:
  "hub_started (h\<lparr>hub_status := SET_STATUS_FLAG (hub_status h) MSG_HUB_STARTED\<rparr>)"
  "\<not> hub_started (h\<lparr>hub_status := CLEAR_STATUS_FLAG (hub_status h) MSG_HUB_STARTED\<rparr>)"
  "hub_started (h\<lparr>hub_status := CLEAR_STATUS_FLAG (hub_status h) MSG_HUB_INIT\<rparr>) = hub_started h"
  by (simp_all add: hub_started_def MSG_HUB_STARTED_def MSG_HUB_INIT_def flag_simps)

lemma thread_exit_resting:
  assumes inv: "hub_inv s" and m: "mgr s = M_join b" and t: "thread s = T_exit"
  shows "no_sender_inside s" "pq_queue (wait_msg_q (the_hub s)) = []"
proof -
  have lv: "thread_leaving s" and c: "hub_slots s = mset [0..<MAX_MSG_NUM]"
    using inv m by (simp_all add: hub_inv_def hub_live_def)
  then show n: "no_sender_inside s" using t by (simp add: thread_leaving_def)
  have "size (mset (pq_queue (idle_msg_q (the_hub s)))) = MAX_MSG_NUM"
    using lv t hub_inv_parts(1) [OF inv] by (simp add: thread_leaving_def pq_wf_def)
  moreover have "size (hub_slots s) = MAX_MSG_NUM" unfolding c by simp
  ultimately show "pq_queue (wait_msg_q (the_hub s)) = []"
    by (simp add: hub_slots_def)
qed

lemma mgr_step_inv:
  assumes inv: "hub_inv s" and st: "mgr_at True (mgr s) s = Some s'"
  shows "hub_inv s'"
proof -
  note parts = hub_inv_parts [OF inv]
  note tac = mgr_to_def hub_inv_def hub_live_def hub_slots_def hub_fifo_def hub_shape_def
    quiescent_def no_sender_inside_def thread_alive_def thread_leaving_def set_hub_status_def
  show ?thesis
  proof (cases "mgr s")
    case M_start_thread
    with st inv show ?thesis by (auto simp: tac hub_started_def)
  next
    case M_start_flag
    with st inv show ?thesis by (auto simp: tac)
  next
    case (M_stop_flag b)
    with st inv show ?thesis by (auto simp: tac)
  next
    case (M_stop_up b)
    with st inv show ?thesis by (auto simp: tac hub_sema_up_def hub_started_def)
  next
    case (M_join b)
    with inv have "thread_started s" by (simp add: hub_inv_def thread_leaving_def)
    with st M_join have t: "thread s = T_exit"
      and s': "s' = mgr_to (M_reset_idle b) (s\<lparr>thread := T_none, thread_started := False\<rparr>)"
      by (auto split: if_splits)
    from thread_exit_resting [OF inv M_join t] inv M_join t show ?thesis
      unfolding s' by (simp add: tac)
  next
    case (M_reset_idle b)
    with st inv show ?thesis by (auto simp: tac hub_started_def pq_wf_reset)
  next
    case (M_reset_wait b)
    with st inv show ?thesis by (cases b) (auto simp: tac hub_started_def pq_wf_reset)
  qed (use st in simp_all)
qed

lemma fill_slots:
  "pq_queue (idle_msg_q (hub_fill h)) = [0..<MAX_MSG_NUM] \<and> hub_shape (hub_fill h) = (length (recver h) = MSG_RECV_MAX)"
  using pqf.push_all [OF pq_wf_reset, of "idle_msg_q h" "[0..<MAX_MSG_NUM]"]
  by (simp add: hub_fill_def hub_shape_def)

lemma start_inv:
  assumes inv: "hub_inv s" and m: "mgr s = M_ready"
  shows "hub_inv (snd (phl_msg_hub_start s))"
proof (cases "\<not> hub_inited (the_hub s) \<or> hub_started (the_hub s)")
  case True
  with inv show ?thesis by (simp add: phl_msg_hub_start_def)
next
  case False
  then have q: "quiescent s" using inv m by (simp add: hub_inv_def)
  then have fifo: "log_queued s = log_finished s"
    using hub_inv_parts(6) [OF inv] by (simp add: hub_fifo_def quiescent_def)
  have "hub_started (hub_fill (the_hub s)) = hub_started (the_hub s)"
    "pq_queue (wait_msg_q (hub_fill (the_hub s))) = []"
    by (simp_all add: hub_fill_def hub_started_def)
  then show ?thesis
    using False q fifo fill_slots [of "the_hub s"] hub_inv_parts(4) [OF inv]
    by (simp add: phl_msg_hub_start_def hub_inv_def mgr_to_def hub_slots_def quiescent_def
        hub_fifo_def no_sender_inside_def sum_list_none)
qed

lemma stop_inv:
  assumes inv: "hub_inv s" and m: "mgr s = M_ready"
  shows "hub_inv (snd (phl_msg_hub_stop b s))"
  using inv m
  by (auto simp: phl_msg_hub_stop_def hub_inv_def mgr_to_def set_hub_status_def hub_live_def
      hub_slots_def hub_fifo_def thread_alive_def hub_shape_def)

lemma deinit_inv:
  assumes inv: "hub_inv s" and m: "mgr s = M_ready"
  shows "hub_inv (snd (phl_msg_hub_deinit s))"
proof -
  define s1 where "s1 = set_hub_status (\<lambda>st. CLEAR_STATUS_FLAG st MSG_HUB_INIT) s"
  have i1: "hub_inv s1" and m1: "mgr s1 = M_ready"
    using inv m by (auto simp: s1_def hub_inv_def set_hub_status_def hub_live_def hub_slots_def
        hub_fifo_def thread_alive_def hub_shape_def quiescent_def no_sender_inside_def)
  have "hub_inv (mgr_to M_freed s1)" if "\<not> hub_started (the_hub s1)"
    using i1 m1 that by (simp add: hub_inv_def mgr_to_def hub_live_def hub_fifo_def quiescent_def
        no_sender_inside_def)
  then show ?thesis
    using stop_inv [OF i1 m1, of True] inv
    by (auto simp: phl_msg_hub_deinit_def Let_def s1_def [symmetric] phl_msg_hub_stop_def)
qed

lemma recver_inv:
  assumes inv: "hub_inv s" and h: "h = the_hub s \<or> h = upd_recver i f (the_hub s)"
  shows "hub_inv (s\<lparr>the_hub := h\<rparr>)"
  using assms
  by (cases "mgr s") (auto simp: hub_inv_def upd_recver_def hub_live_def hub_slots_def hub_fifo_def
      thread_alive_def hub_shape_def quiescent_def no_sender_inside_def thread_leaving_def hub_started_def)

lemma request_inv:
  assumes inv: "hub_inv s" and i: "i < length (senders s)" and d: "senders s ! i = S_done r"
  shows "hub_inv (sender_to i (S_test m attr) s)"
  by (rule hub_inv_sender [OF inv i, where pc = "S_test m attr" and h = "the_hub s" and lq = "log_queued s"])
    (insert hub_inv_parts [OF inv] d, simp_all add: sender_to_def hub_fifo_def)

lemma hub_step_inv:
  assumes inv: "hub_inv s" and st: "hub_step ev s = Some s'" and ok: "orderly_step ev s'"
  shows "hub_inv s'"
proof (cases ev)
  case (E_mgr c)
  with ok st mgr_step_inv [OF inv] show ?thesis
    by (cases c) (auto simp: orderly_step_def hub_step_def split: if_splits)
next
  case E_thread
  with ok st show ?thesis
    by (intro thread_step_inv [OF inv]) (auto simp: orderly_step_def hub_step_def split: if_splits)
next
  case (E_register ctx layer)
  with st inv recver_inv [OF inv] show ?thesis
    by (auto simp: hub_step_def on_hub_def phl_msg_hub_register_recver_def split: if_splits)
next
  case (E_mask layer ids clr)
  with st inv recver_inv [OF inv] show ?thesis
    by (auto simp: hub_step_def on_hub_def phl_msg_hub_update_recver_mask_def split: if_splits)
next
  case (E_deregister layer)
  with st inv recver_inv [OF inv] show ?thesis
    by (auto simp: hub_step_def on_hub_def phl_msg_hub_deregister_recver_def split: if_splits)
qed (use st in \<open>auto simp: hub_step_def start_inv [OF inv] stop_inv [OF inv] deinit_inv [OF inv]
      request_inv [OF inv] sender_step_inv [OF inv] split: if_splits sender_pc.splits\<close>)

lemma hub_init_inv: "hub_inv (hub_sys_init n)"
  by (auto simp: hub_sys_init_def phl_msg_hub_init_def hub_inv_def hub_shape_def hub_live_def
      hub_started_def hub_fifo_def quiescent_def no_sender_inside_def flag_simps
      MSG_HUB_INIT_def MSG_HUB_STARTED_def)

lemma hub_reach_inv: "hub_reach True s \<Longrightarrow> hub_inv s"
  by (induction rule: hub_reach.induct) (auto intro: hub_init_inv hub_step_inv)

end
