(* ===== verification/MsgHubRun.thy ===== *)
theory MsgHubRun
  imports MsgHubInv
begin

text \<open>
  What else holds in orderly runs of the message hub: a slot holds what its sender wrote, the
  completion routines are called for the finished slots in order, and no wakeup of the thread
  is lost. \<open>hub_good\<close> collects these with the invariant.
\<close>

subsection \<open>What the slots hold\<close>

definition routine_of :: "msg_attr option \<Rightarrow> nat option" where
  "routine_of attr = (case attr of None \<Rightarrow> None | Some a \<Rightarrow> attr_completion a)"

fun sender_content :: "phl_msg_hub \<Rightarrow> sender_pc \<Rightarrow> bool" where
  "sender_content h (S_copy k m a) \<longleftrightarrow> hub_pool h ! k = zero_ex"
| "sender_content h (S_push k m a) \<longleftrightarrow> hub_pool h ! k = \<lparr>ex_ctx = m, ex_done = routine_of a\<rparr>"
| "sender_content h _ \<longleftrightarrow> True"

definition contents_ok :: "hub_sys \<Rightarrow> bool" where
  "contents_ok s \<longleftrightarrow> (\<forall>i < length (senders s). sender_content (the_hub s) (senders s ! i))"

definition completion_calls :: "phl_msg_ex list \<Rightarrow> hub_call list" where
  "completion_calls xs = [To_completion (the (ex_done x)) (ex_ctx x). x \<leftarrow> xs, ex_done x \<noteq> None]"

fun is_completion :: "hub_call \<Rightarrow> bool" where
  "is_completion (To_completion c m) = True"
| "is_completion (To_layer i c m) = False"

definition completions_ok :: "hub_sys \<Rightarrow> bool" where
  "completions_ok s \<longleftrightarrow> filter is_completion (log_calls s) = completion_calls (log_finished s)"

lemma sent_content_zero: "sent_content m a zero_ex = \<lparr>ex_ctx = m, ex_done = routine_of a\<rparr>"
  by (auto simp: sent_content_def zero_ex_def routine_of_def split: option.split)

text \<open>What a step of a task leaves as it is.\<close>

lemma thread_frame:
  assumes "thread_step s = Some s'"
  shows "hub_pool (the_hub s') = hub_pool (the_hub s)" "senders s' = senders s" "mgr s' = mgr s"
    "hub_status (the_hub s') = hub_status (the_hub s)" "thread_stopped s' = thread_stopped s"
  using assms
  by (cases "thread s"; force simp: thread_step_def thread_to_def pop_wait_to_def hub_pop_wait_def
      finish_slot_def log_call_def forward_round_def Let_def hub_push_idle_def upd_recver_def
      split: option.splits if_splits prod.splits)+

lemma mgr_frame:
  assumes "mgr_at c (mgr s) s = Some s'"
  shows "hub_pool (the_hub s') = hub_pool (the_hub s)" "senders s' = senders s"
    "log_calls s' = log_calls s" "log_finished s' = log_finished s"
  using assms
  by (cases "mgr s"; force simp: mgr_to_def set_hub_status_def hub_sema_up_def split: if_splits)+

lemma sender_frame:
  assumes "sender_at i (senders s ! i) s = Some s'"
  shows "log_calls s' = log_calls s" "log_finished s' = log_finished s" "thread s' = thread s" "mgr s' = mgr s"
  using assms
  by (cases "senders s ! i"; force simp: sender_to_def split: option.splits if_splits prod.splits)+

lemma on_hub_frame:
  "hub_pool (the_hub (on_hub (\<lambda>h. phl_msg_hub_register_recver h ctx layer) s)) = hub_pool (the_hub s)"
  "hub_pool (the_hub (on_hub (\<lambda>h. phl_msg_hub_update_recver_mask h layer ids clr) s)) = hub_pool (the_hub s)"
  "hub_pool (the_hub (on_hub (\<lambda>h. phl_msg_hub_deregister_recver h layer) s)) = hub_pool (the_hub s)"
  by (simp_all add: on_hub_def phl_msg_hub_register_recver_def phl_msg_hub_update_recver_mask_def
      phl_msg_hub_deregister_recver_def upd_recver_def)

lemma on_hub_logs [simp]:
  "senders (on_hub f s) = senders s" "log_calls (on_hub f s) = log_calls s"
  "log_finished (on_hub f s) = log_finished s" "thread (on_hub f s) = thread s" "mgr (on_hub f s) = mgr s"
  by (simp_all add: on_hub_def)

lemma life_frame:
  "hub_pool (the_hub (snd (phl_msg_hub_stop b s))) = hub_pool (the_hub s)"
  "hub_pool (the_hub (snd (phl_msg_hub_deinit s))) = hub_pool (the_hub s)"
  "senders (snd (phl_msg_hub_stop b s)) = senders s" "senders (snd (phl_msg_hub_deinit s)) = senders s"
  "senders (snd (phl_msg_hub_start s)) = senders s"
  "thread (snd (phl_msg_hub_stop b s)) = thread s" "thread (snd (phl_msg_hub_deinit s)) = thread s"
  "thread (snd (phl_msg_hub_start s)) = thread s"
  "log_calls (snd (phl_msg_hub_stop b s)) = log_calls s" "log_calls (snd (phl_msg_hub_deinit s)) = log_calls s"
  "log_calls (snd (phl_msg_hub_start s)) = log_calls s"
  "log_finished (snd (phl_msg_hub_stop b s)) = log_finished s"
  "log_finished (snd (phl_msg_hub_deinit s)) = log_finished s"
  "log_finished (snd (phl_msg_hub_start s)) = log_finished s"
  by (auto simp: phl_msg_hub_stop_def phl_msg_hub_deinit_def phl_msg_hub_start_def Let_def mgr_to_def
      set_hub_status_def)


lemma sender_content_pool:
  "k \<notin># sender_slots p \<Longrightarrow>
     sender_content (h\<lparr>hub_pool := (hub_pool h)[k := x]\<rparr>) p = sender_content h p"
  by (cases p) auto

lemma sender_content_cong: "hub_pool h' = hub_pool h \<Longrightarrow> sender_content h' p = sender_content h p"
  by (cases p) auto

lemma two_senders_apart:
  assumes c: "hub_slots s = mset [0..<MAX_MSG_NUM]"
    and i: "i < length (senders s)" "k \<in># sender_slots (senders s ! i)"
    and j: "j < length (senders s)" "j \<noteq> i"
  shows "k \<notin># sender_slots (senders s ! j)"
proof
  assume "k \<in># sender_slots (senders s ! j)"
  then have sj: "sender_slots (senders s ! j) = {#k#}" by (cases "senders s ! j") auto
  have si: "sender_slots (senders s ! i) = {#k#}" using i(2) by (cases "senders s ! i") auto
  let ?s1 = "sender_to i S_up s"
  have "hub_slots ?s1 + {#k#} = hub_slots s" using hub_slots_sender [OF i(1), of S_up] si by simp
  moreover have "hub_slots (sender_to j S_up ?s1) + {#k#} = hub_slots ?s1"
    using hub_slots_sender [of j ?s1 S_up] j sj by (simp add: sender_to_def)
  ultimately have "hub_slots (sender_to j S_up ?s1) + {#k#} + {#k#} = hub_slots s" by simp
  then have "count (hub_slots s) k \<ge> 2" by (metis add_mset_add_single count_add_mset le_add2
        numeral_2_eq_2 plus_1_eq_Suc Suc_le_mono le0)
  with conserved_count [OF c, of k] show False by (simp split: if_splits)
qed

lemma contents_update:
  assumes c: "contents_ok s" and i: "i < length (senders s)"
    and s': "s' = sender_to i pc (s\<lparr>the_hub := h, log_queued := lq\<rparr>)"
    and pc: "sender_content h pc"
    and others: "\<And>j. j < length (senders s) \<Longrightarrow> j \<noteq> i \<Longrightarrow>
        sender_content h (senders s ! j) = sender_content (the_hub s) (senders s ! j)"
  shows "contents_ok s'"
  using assms by (auto simp: contents_ok_def sender_to_def nth_list_update)

lemma sender_contents:
  assumes inv: "hub_inv s" and c: "contents_ok s" and i: "i < length (senders s)"
    and st: "sender_at i (senders s ! i) s = Some s'"
  shows "contents_ok s'"
proof -
  note parts = hub_inv_parts [OF inv]
  have cons: "hub_slots s = mset [0..<MAX_MSG_NUM]" if "past_test (senders s ! i)"
    using inside_live [OF inv i that] inv by (simp add: hub_inv_def)
  have ci: "sender_content (the_hub s) (senders s ! i)" using c i by (simp add: contents_ok_def)
  show ?thesis
  proof (cases "senders s ! i")
    case (S_test m attr)
    with st obtain pc where s': "s' = sender_to i pc s" "sender_content (the_hub s) pc"
      by (auto split: option.splits if_splits)
    show ?thesis
      by (rule contents_update [OF c i, where h = "the_hub s" and lq = "log_queued s"]) (use s' in auto)
  next
    case (S_pop m attr)
    show ?thesis
    proof (cases "hub_pop_idle (the_hub s)")
      case (Pair x h)
      show ?thesis
      proof (cases x)
        case None
        with Pair have h: "hub_pool h = hub_pool (the_hub s)"
          by (auto simp: hub_pop_idle_def split: prod.splits option.splits)
        show ?thesis
          by (rule contents_update [OF c i, where pc = "S_done (Some RTW_PHL_STATUS_RESOURCE)" and h = h
                and lq = "log_queued s"]) (use st S_pop Pair None sender_content_cong [OF h] in \<open>auto simp: ac_simps\<close>)
      next
        case (Some k)
        with Pair obtain q where q: "pq_pop (idle_msg_q (the_hub s)) First = (Some k, q)"
          "h = (the_hub s)\<lparr>idle_msg_q := q, hub_pool := (hub_pool (the_hub s))[k := zero_ex]\<rparr>"
          by (auto simp: hub_pop_idle_def split: prod.splits option.splits)
        from pq_pop_Some [OF parts(1) q(1)] have k: "k \<in> set (pq_queue (idle_msg_q (the_hub s)))" by simp
        have cn: "hub_slots s = mset [0..<MAX_MSG_NUM]" using cons S_pop by simp
        have alone: "k \<notin># sender_slots (senders s ! j)" if "j < length (senders s)" for j
        proof
          assume "k \<in># sender_slots (senders s ! j)"
          then have "sender_slots (senders s ! j) = {#k#}" by (cases "senders s ! j") auto
          from sender_slot_alone(2) [OF cn that this] k show False by blast
        qed
        have "k < MAX_MSG_NUM"
          using conserved_count [OF cn, of k] k by (auto simp: hub_slots_def count_mset_0_iff split: if_splits)
        then have z: "hub_pool h ! k = zero_ex" using q(2) parts(3) by simp
        show ?thesis
          by (rule contents_update [OF c i, where pc = "S_copy k m attr" and h = h and lq = "log_queued s"])
            (use st S_pop Pair Some z alone q(2) sender_content_pool [of k _ "the_hub s\<lparr>idle_msg_q := q\<rparr>"]
               sender_content_cong [of "the_hub s\<lparr>idle_msg_q := q\<rparr>" "the_hub s"] in \<open>auto simp: ac_simps\<close>)
      qed
    qed
  next
    case (S_copy k m attr)
    define h where "h = (the_hub s)\<lparr>hub_pool := (hub_pool (the_hub s))
        [k := sent_content m attr (hub_pool (the_hub s) ! k)]\<rparr>"
    have s': "s' = sender_to i (S_push k m attr) (s\<lparr>the_hub := h, log_queued := log_queued s\<rparr>)"
      using st S_copy by (simp add: h_def)
    have cn: "hub_slots s = mset [0..<MAX_MSG_NUM]" using cons S_copy by simp
    have "k < MAX_MSG_NUM" using sender_slot_alone(1) [OF cn i] S_copy by simp
    then have "sender_content h (S_push k m attr)"
      using parts(3) ci S_copy by (simp add: h_def sent_content_zero)
    then show ?thesis
      using contents_update [OF c i s'] sender_content_pool two_senders_apart [OF cn i, of k] S_copy
      unfolding h_def by simp
  next
    case (S_push k m attr)
    have s': "s' = sender_to i S_up (s\<lparr>the_hub := hub_push_wait (the_hub s) k,
        log_queued := log_queued s @ [hub_pool (the_hub s) ! k]\<rparr>)"
      using st S_push by simp
    show ?thesis
      by (rule contents_update [OF c i s']) (auto simp: hub_push_wait_def intro!: sender_content_cong)
  next
    case S_up
    have s': "s' = sender_to i (S_done (Some RTW_PHL_STATUS_SUCCESS))
        (s\<lparr>the_hub := hub_sema_up (the_hub s), log_queued := log_queued s\<rparr>)"
      using st S_up by simp
    show ?thesis
      by (rule contents_update [OF c i s']) (auto simp: hub_sema_up_def intro!: sender_content_cong)
  qed (use st in simp)
qed

lemma contents_frame:
  "contents_ok s \<Longrightarrow> hub_pool (the_hub s') = hub_pool (the_hub s) \<Longrightarrow> senders s' = senders s \<Longrightarrow> contents_ok s'"
  unfolding contents_ok_def using sender_content_cong [of "the_hub s'" "the_hub s"] by simp

lemma quiescent_contents: "no_sender_inside s \<Longrightarrow> contents_ok s"
  unfolding contents_ok_def no_sender_inside_def
  by (metis nth_mem past_test.simps(2,3) sender_content.elims(3))

lemma contents_step:
  assumes inv: "hub_inv s" and c: "contents_ok s" and st: "hub_step ev s = Some s'"
  shows "contents_ok s'"
proof (cases ev)
  case (E_send i m attr)
  with st have i: "i < length (senders s)" and s': "s' = sender_to i (S_test m attr) s"
    by (auto simp: hub_step_def split: if_splits sender_pc.splits)
  show ?thesis
    by (rule contents_update [OF c i, where pc = "S_test m attr" and h = "the_hub s" and lq = "log_queued s"])
      (auto simp: s')
next
  case (E_sender i)
  with st show ?thesis using sender_contents [OF inv c] by (auto simp: hub_step_def split: if_splits)
next
  case E_thread
  with st have "thread_step s = Some s'" by (simp add: hub_step_def split: if_splits)
  from thread_frame(1,2) [OF this] show ?thesis by (rule contents_frame [OF c])
next
  case E_start
  with st have s': "s' = snd (phl_msg_hub_start s)" and m: "mgr s = M_ready"
    by (auto simp: hub_step_def split: if_splits)
  show ?thesis
  proof (cases "\<not> hub_inited (the_hub s) \<or> hub_started (the_hub s)")
    case True
    with s' c show ?thesis by (simp add: phl_msg_hub_start_def)
  next
    case False
    with inv m have "no_sender_inside s" by (simp add: hub_inv_def quiescent_def)
    then have "no_sender_inside s'" unfolding s' by (simp add: no_sender_inside_def life_frame)
    then show ?thesis by (rule quiescent_contents)
  qed
next
  case (E_mgr cr)
  with st have "mgr_at cr (mgr s) s = Some s'" by (simp add: hub_step_def split: if_splits)
  from mgr_frame [OF this] show ?thesis using contents_frame [OF c] by blast
qed (use st contents_frame [OF c] in \<open>auto simp: hub_step_def life_frame on_hub_frame split: if_splits\<close>)

lemma completion_calls_append: "completion_calls (xs @ ys) = completion_calls xs @ completion_calls ys"
  by (simp add: completion_calls_def)

lemma completions_fields [simp]:
  "completions_ok (s\<lparr>thread := pc\<rparr>) = completions_ok s"
  "completions_ok (s\<lparr>the_hub := h\<rparr>) = completions_ok s"
  "completions_ok (log_call (To_layer i r m) s) = completions_ok s"
  by (simp_all add: completions_ok_def log_call_def)

lemma finish_completions: "completions_ok s \<Longrightarrow> completions_ok (finish_slot k s)"
  by (auto simp: completions_ok_def finish_slot_def hub_completion_call_def log_call_def Let_def
      completion_calls_append split: option.splits) (simp_all add: completion_calls_def)

lemma completions_frame:
  "completions_ok s \<Longrightarrow> log_calls s' = log_calls s \<Longrightarrow> log_finished s' = log_finished s \<Longrightarrow> completions_ok s'"
  by (simp add: completions_ok_def)

lemma thread_completions: "completions_ok s \<Longrightarrow> thread_step s = Some s' \<Longrightarrow> completions_ok s'"
  by (cases "thread s") (auto simp: thread_step_def finish_completions pop_wait_to_def thread_to_def
      forward_round_def Let_def split: if_splits prod.splits option.splits)

lemma completions_step:
  assumes c: "completions_ok s" and st: "hub_step ev s = Some s'"
  shows "completions_ok s'"
proof (cases ev)
  case E_thread
  with st thread_completions [OF c] show ?thesis by (simp add: hub_step_def split: if_splits)
next
  case (E_sender i)
  with st have "sender_at i (senders s ! i) s = Some s'" by (simp add: hub_step_def split: if_splits)
  from sender_frame [OF this] show ?thesis using completions_frame [OF c] by simp
next
  case (E_mgr cr)
  with st have "mgr_at cr (mgr s) s = Some s'" by (simp add: hub_step_def split: if_splits)
  from mgr_frame [OF this] show ?thesis using completions_frame [OF c] by simp
qed (use st completions_frame [OF c] in \<open>auto simp: hub_step_def life_frame sender_to_def
      split: if_splits sender_pc.splits\<close>)


subsection \<open>Wakeups\<close>

text \<open>
  A message that waits while the thread is about to sleep has been announced, or its sender is
  about to do so; and once the stop has posted the semaphore, the thread does not sleep on.
\<close>

definition hub_awake :: "hub_sys \<Rightarrow> bool" where
  "hub_awake s \<longleftrightarrow>
     (thread s \<in> {T_loop, T_wait} \<and> pq_queue (wait_msg_q (the_hub s)) \<noteq> [] \<longrightarrow>
        0 < msg_q_sema (the_hub s) \<or> S_up \<in> set (senders s)) \<and>
     (\<forall>b. mgr s = M_join b \<and> thread s = T_wait \<longrightarrow> 0 < msg_q_sema (the_hub s))"

lemma S_up_stays:
  "S_up \<in> set xs \<Longrightarrow> i < length xs \<Longrightarrow> xs ! i \<noteq> S_up \<Longrightarrow> S_up \<in> set (xs[i := p])"
  by (metis in_set_conv_nth length_list_update nth_list_update_neq)

lemma thread_awake:
  assumes inv: "hub_inv s" and a: "hub_awake s" and st: "thread_step s = Some s'"
  shows "hub_awake s'"
proof -
  have stp: "thread_stopped s" if "mgr s = M_join b" for b
    using inv that by (simp add: hub_inv_def thread_leaving_def)
  show ?thesis
  proof (cases "thread s")
    case T_pop
    note fr = thread_frame [OF st]
    have "pq_queue (wait_msg_q (the_hub s')) = []" if "thread s' \<in> {T_loop, T_wait}"
      using st T_pop that pq_pop_None [OF hub_inv_parts(2) [OF inv]]
      by (auto simp: thread_step_def pop_wait_to_def hub_pop_wait_def thread_to_def
          split: prod.splits option.splits)
    moreover have "thread s' \<noteq> T_wait"
      using st T_pop by (auto simp: thread_step_def pop_wait_to_def thread_to_def split: prod.splits option.splits)
    ultimately show ?thesis by (auto simp: hub_awake_def)
  next
    case T_loop
    with st a stp show ?thesis by (auto simp: thread_step_def thread_to_def hub_awake_def)
  qed (use st in \<open>auto simp: thread_step_def thread_to_def hub_awake_def pop_wait_to_def
        forward_round_def Let_def log_call_def split: if_splits prod.splits option.splits\<close>)
qed

lemma sender_awake:
  assumes a: "hub_awake s" and i: "i < length (senders s)"
    and st: "sender_at i (senders s ! i) s = Some s'"
  shows "hub_awake s'"
proof (cases "senders s ! i")
  case (S_test m attr)
  with st a S_up_stays [of "senders s" i] i show ?thesis
    by (auto simp: hub_awake_def sender_to_def split: option.splits if_splits)
next
  case (S_pop m attr)
  with st a S_up_stays [of "senders s" i] i show ?thesis
    by (auto simp: hub_awake_def sender_to_def hub_pop_idle_def split: option.splits prod.splits)
next
  case (S_copy k m attr)
  with st a S_up_stays [of "senders s" i] i show ?thesis
    by (auto simp: hub_awake_def sender_to_def)
next
  case (S_push k m attr)
  with st a i show ?thesis
    by (auto simp: hub_awake_def sender_to_def hub_push_wait_def set_update_memI)
next
  case S_up
  with st a i show ?thesis
    by (auto simp: hub_awake_def sender_to_def hub_sema_up_def)
qed (use st in simp)

lemma awake_frame:
  "hub_awake s \<Longrightarrow> thread s' = thread s \<Longrightarrow> senders s' = senders s \<Longrightarrow> (\<forall>b. mgr s' = M_join b \<longrightarrow> mgr s = M_join b) \<Longrightarrow>
     msg_q_sema (the_hub s') = msg_q_sema (the_hub s) \<Longrightarrow>
     pq_queue (wait_msg_q (the_hub s')) = pq_queue (wait_msg_q (the_hub s)) \<or>
       pq_queue (wait_msg_q (the_hub s')) = [] \<Longrightarrow> hub_awake s'"
  unfolding hub_awake_def by auto

lemma mgr_awake:
  assumes inv: "hub_inv s" and a: "hub_awake s" and st: "mgr_at True (mgr s) s = Some s'"
  shows "hub_awake s'"
proof (cases "mgr s")
  case M_start_thread
  with inv have "pq_queue (wait_msg_q (the_hub s)) = []" by (simp add: hub_inv_def quiescent_def)
  with st M_start_thread show ?thesis by (auto simp: hub_awake_def mgr_to_def)
next
  case (M_join b)
  with inv have "thread_started s" by (simp add: hub_inv_def thread_leaving_def)
  with st M_join show ?thesis by (auto simp: hub_awake_def mgr_to_def split: if_splits)
qed (use st a in \<open>auto simp: hub_awake_def mgr_to_def set_hub_status_def hub_sema_up_def split: if_splits\<close>)

lemma life_awake:
  assumes inv: "hub_inv s" and a: "hub_awake s" and m: "mgr s = M_ready"
  shows "hub_awake (snd (phl_msg_hub_start s))" "hub_awake (snd (phl_msg_hub_stop b s))"
    "hub_awake (snd (phl_msg_hub_deinit s))"
  using a m
  by (auto simp: hub_awake_def phl_msg_hub_start_def phl_msg_hub_stop_def
      phl_msg_hub_deinit_def Let_def mgr_to_def set_hub_status_def hub_fill_def)

lemma awake_step:
  assumes inv: "hub_inv s" and a: "hub_awake s" and st: "hub_step ev s = Some s'" and ok: "orderly_step ev s'"
  shows "hub_awake s'"
proof (cases ev)
  case (E_send i m attr)
  with st a S_up_stays [of "senders s" i] show ?thesis
    by (auto simp: hub_step_def hub_awake_def sender_to_def split: if_splits sender_pc.splits)
next
  case (E_sender i)
  with st sender_awake [OF a] show ?thesis by (auto simp: hub_step_def split: if_splits)
next
  case E_thread
  with st thread_awake [OF inv a] show ?thesis by (auto simp: hub_step_def split: if_splits)
next
  case (E_mgr c)
  with st ok mgr_awake [OF inv a] show ?thesis
    by (cases c) (auto simp: hub_step_def orderly_step_def split: if_splits)
next
  case (E_register ctx layer)
  with st show ?thesis by (intro awake_frame [OF a]) (auto simp: hub_step_def on_hub_def
    phl_msg_hub_register_recver_def upd_recver_def split: if_splits)
next
  case (E_mask layer ids clr)
  with st show ?thesis by (intro awake_frame [OF a]) (auto simp: hub_step_def on_hub_def
    phl_msg_hub_update_recver_mask_def upd_recver_def split: if_splits)
next
  case (E_deregister layer)
  with st show ?thesis by (intro awake_frame [OF a]) (auto simp: hub_step_def on_hub_def
    phl_msg_hub_deregister_recver_def upd_recver_def split: if_splits)
qed (use st life_awake [OF inv a] in \<open>auto simp: hub_step_def split: if_splits\<close>)

definition hub_good :: "hub_sys \<Rightarrow> bool" where
  "hub_good s \<longleftrightarrow> hub_inv s \<and> contents_ok s \<and> completions_ok s \<and> hub_awake s"

lemma hub_good_init: "hub_good (hub_sys_init n)"
proof -
  have "thread (hub_sys_init n) = T_none" "no_sender_inside (hub_sys_init n)"
    "log_calls (hub_sys_init n) = []" "log_finished (hub_sys_init n) = []"
    by (simp_all add: hub_sys_init_def no_sender_inside_def)
  then show ?thesis using hub_init_inv
    by (simp add: hub_good_def quiescent_contents completions_ok_def completion_calls_def hub_awake_def)
qed

lemma hub_good_step:
  "hub_good s \<Longrightarrow> hub_step ev s = Some s' \<Longrightarrow> orderly_step ev s' \<Longrightarrow> hub_good s'"
  unfolding hub_good_def using hub_step_inv contents_step completions_step awake_step by blast

lemma hub_reach_good: "hub_reach True s \<Longrightarrow> hub_good s"
  by (induction rule: hub_reach.induct) (auto intro: hub_good_init hub_good_step)

end
