(* ===== verification/MsgHubProps.thy ===== *)
theory MsgHubProps
  imports MsgHubRun
begin

text \<open>
  The properties of the message hub: conservation of its slots, exactly-once treatment in
  order, termination of the stop, wakeups, forwarding and subscriptions; and two runs that show
  what the code does not see to.
\<close>

subsection \<open>The end of the thread\<close>

text \<open>The steps the thread needs at most to its end, with \<open>w\<close> messages waiting.\<close>

fun thread_rank :: "nat \<Rightarrow> thread_pc \<Rightarrow> nat" where
  "thread_rank w T_none = 0"
| "thread_rank w T_exit = 0"
| "thread_rank w T_drain = 3 * w + (if w = 0 then 1 else 3)"
| "thread_rank w T_drain_pop = 3 * w + 2"
| "thread_rank w (T_drain_back k) = 3 * w + 4"
| "thread_rank w (T_drain_idle k) = 3 * w + 3"
| "thread_rank w T_loop = 3 * w + 4"
| "thread_rank w T_wait = 3 * w + 5"
| "thread_rank w T_woken = 3 * w + 4"
| "thread_rank w T_pop = 4 * w + 5"
| "thread_rank w (T_idle k) = 4 * w + 6"
| "thread_rank w (T_back k) = 4 * w + 7"
| "thread_rank w (T_got k) = 4 * w + 8"
| "thread_rank w (T_fwd k i) = 4 * w + 8 + 2 * (MSG_RECV_MAX - i)"
| "thread_rank w (T_clr k i) = 4 * w + 9 + 2 * (MSG_RECV_MAX - Suc i)"

definition hub_rank :: "hub_sys \<Rightarrow> nat" where
  "hub_rank s = thread_rank (length (pq_queue (wait_msg_q (the_hub s)))) (thread s)"

definition leaving_alone :: "hub_sys \<Rightarrow> bool" where
  "leaving_alone s \<longleftrightarrow> hub_good s \<and> (\<exists>b. mgr s = M_join b) \<and> no_sender_inside s"

lemma leaving_conserved:
  assumes "leaving_alone s"
  shows "hub_slots s = mset [0..<MAX_MSG_NUM]" "thread_leaving s" "\<not> hub_started (the_hub s)"
    "hub_inv s" "hub_awake s"
  using assms by (auto simp: leaving_alone_def hub_good_def hub_inv_def hub_live_def)

lemma thread_gone_empty:
  assumes inv: "hub_inv s" and t: "thread s = T_none \<or> thread s = T_exit"
  shows "pq_queue (wait_msg_q (the_hub s)) = []"
proof (cases "quiescent s")
  case True
  then show ?thesis by (simp add: quiescent_def)
next
  case False
  with inv t have lv: "thread_leaving s" "hub_live s" "thread s = T_exit"
    by (cases "mgr s"; auto simp: hub_inv_def hub_live_def thread_alive_def thread_leaving_def
        split: if_splits)+
  then have "hub_slots s = mset [0..<MAX_MSG_NUM]" using inv by (simp add: hub_inv_def)
  then have "size (hub_slots s) = MAX_MSG_NUM" by simp
  moreover have "length (pq_queue (idle_msg_q (the_hub s))) = MAX_MSG_NUM"
    using lv hub_inv_parts(1) [OF inv] by (simp add: thread_leaving_def pq_wf_def)
  ultimately show ?thesis by (simp add: hub_slots_def)
qed

lemma leaving_lengths:
  assumes "leaving_alone s"
  shows "length (pq_queue (idle_msg_q (the_hub s))) + length (pq_queue (wait_msg_q (the_hub s))) +
    length (thread_slots (thread s)) = MAX_MSG_NUM"
proof -
  have "size (hub_slots s) = MAX_MSG_NUM" unfolding leaving_conserved(1) [OF assms] by simp
  then show ?thesis using assms
    by (simp add: hub_slots_def leaving_alone_def no_sender_inside_def sum_list_none)
qed

lemma thread_orderly: "thread_step s = Some s' \<Longrightarrow> no_sender_inside s \<Longrightarrow> orderly_step E_thread s'"
  using thread_frame(2) [of s s'] by (simp add: orderly_step_def no_sender_inside_def)

lemma leaving_step:
  assumes l: "leaving_alone s" and st: "thread_step s = Some s'"
  shows "leaving_alone s'"
proof -
  obtain b where b: "mgr s = M_join b" using l by (auto simp: leaving_alone_def)
  then have "hub_step E_thread s = Some s'" using st by (simp add: hub_step_def)
  moreover have "orderly_step E_thread s'" using thread_orderly [OF st] l by (simp add: leaving_alone_def)
  moreover have "hub_good s" using l by (simp add: leaving_alone_def)
  ultimately have "hub_good s'" using hub_good_step by blast
  then show ?thesis using thread_frame(2,3) [OF st] l b
    by (auto simp: leaving_alone_def no_sender_inside_def)
qed

lemma pop_wait_lengths:
  assumes "pq_wf (wait_msg_q (the_hub s))"
  shows "(pq_queue (wait_msg_q (the_hub s)) = [] \<and> pop_wait_to found nothing s = thread_to nothing s) \<or>
    (\<exists>k. thread (pop_wait_to found nothing s) = found k \<and>
       length (pq_queue (wait_msg_q (the_hub s))) =
         Suc (length (pq_queue (wait_msg_q (the_hub (pop_wait_to found nothing s))))))"
proof (cases "pq_queue (wait_msg_q (the_hub s))")
  case Nil
  with assms have "pq_pop (wait_msg_q (the_hub s)) First = (None, wait_msg_q (the_hub s))"
    by (rule pqf.pop_nil)
  with Nil show ?thesis by (simp add: pop_wait_to_def hub_pop_wait_def)
next
  case (Cons k ks)
  from pqf.pop_cons [OF assms Cons] show ?thesis
    using Cons by (auto simp: pop_wait_to_def hub_pop_wait_def thread_to_def)
qed

lemma leaving_progress:
  assumes l: "leaving_alone s" and ne: "thread s \<noteq> T_exit"
  shows "\<exists>s'. thread_step s = Some s' \<and> hub_rank s' < hub_rank s"
proof -
  note lv = leaving_conserved [OF l]
  note wf = hub_inv_parts(1,2) [OF lv(4)]
  note tac = hub_rank_def thread_step_def thread_to_def
  have stp: "thread_stopped s" using lv(2) by (simp add: thread_leaving_def)
  show ?thesis
  proof (cases "thread s")
    case T_none
    with lv(2) show ?thesis by (simp add: thread_leaving_def)
  next
    case T_wait
    with l lv(5) have "0 < msg_q_sema (the_hub s)" by (auto simp: leaving_alone_def hub_awake_def)
    with T_wait show ?thesis by (simp add: tac)
  next
    case T_pop
    then have "thread_step s = Some (pop_wait_to T_got T_loop s)" by (simp add: thread_step_def)
    then show ?thesis using pop_wait_lengths [OF wf(2), of T_got T_loop] T_pop
      by (auto simp: hub_rank_def thread_to_def)
  next
    case T_drain_pop
    then have "thread_step s = Some (pop_wait_to T_drain_back T_drain s)" by (simp add: thread_step_def)
    then show ?thesis using pop_wait_lengths [OF wf(2), of T_drain_back T_drain] T_drain_pop
      by (auto simp: hub_rank_def thread_to_def)
  next
    case T_drain
    with leaving_lengths [OF l] wf(1)
    have "pq_cnt (idle_msg_q (the_hub s)) = int MAX_MSG_NUM \<longleftrightarrow> pq_queue (wait_msg_q (the_hub s)) = []"
      by (auto simp: pq_wf_def)
    with T_drain show ?thesis by (simp add: tac)
  qed (use ne stp lv(3) in \<open>auto simp: tac hub_push_idle_def upd_recver_def finish_slot_def
        log_call_def forward_round_def Let_def split: option.splits\<close>)
qed

lemma leaving_runs:
  "leaving_alone s \<Longrightarrow> hub_rank s \<le> n \<Longrightarrow> leaving_alone (thread_run n s) \<and> thread (thread_run n s) = T_exit"
proof (induction n arbitrary: s)
  case 0
  with leaving_progress [of s] show ?case by fastforce
next
  case (Suc n)
  show ?case
  proof (cases "thread s = T_exit")
    case True
    with Suc.prems show ?thesis by (simp add: thread_step_def)
  next
    case False
    with leaving_progress [OF Suc.prems(1)] obtain s' where
      s': "thread_step s = Some s'" "hub_rank s' < hub_rank s" by blast
    with Suc.IH [OF leaving_step [OF Suc.prems(1) s'(1)]] Suc.prems(2) show ?thesis by simp
  qed
qed

lemma hub_rank_bound: "leaving_alone s \<Longrightarrow> hub_rank s \<le> 76"
  using leaving_lengths [of s]
  by (cases "thread s") (auto simp: hub_rank_def MAX_MSG_NUM_def MSG_RECV_MAX_def)


subsection \<open>Forwarding\<close>

definition layer_calls :: "phl_msg_hub \<Rightarrow> nat \<Rightarrow> nat list \<Rightarrow> hub_call list" where
  "layer_calls h k is =
     [To_layer i (recver_ctx (recver h ! i)) (ex_ctx (hub_pool h ! k)). i \<leftarrow> is, recver_listens h i k]"

lemma thread_run_stuck: "thread_step s = None \<Longrightarrow> thread_run n s = s"
  by (cases n) simp_all

lemma thread_run_add: "thread_run (m + n) s = thread_run n (thread_run m s)"
  by (induction m arbitrary: s) (auto simp: thread_run_stuck split: option.split)

lemma run_one: "thread_step s = Some s' \<Longrightarrow> thread_run 1 s = s'"
  by simp

lemma forward_layer:
  assumes t: "thread s = T_fwd k i" and i: "i < MSG_RECV_MAX"
  shows "\<exists>n \<le> 2. thread (thread_run n s) = T_fwd k (Suc i) \<and>
     log_calls (thread_run n s) = log_calls s @ layer_calls (the_hub s) k [i] \<and>
     (\<forall>is. i \<notin> set is \<longrightarrow> layer_calls (the_hub (thread_run n s)) k is = layer_calls (the_hub s) k is)"
proof -
  note tac = thread_step_def forward_round_def Let_def thread_to_def log_call_def
  consider (call) "recver_listens (the_hub s) i k"
    | (skip) "\<not> recver_listens (the_hub s) i k" "thread_step s = Some (thread_to (T_fwd k (Suc i)) s)"
    | (wipe) "\<not> layer_registered (the_hub s) i" "thread_step s = Some (thread_to (T_clr k i) s)"
    using t i by (cases "recver_listens (the_hub s) i k"; cases "layer_registered (the_hub s) i";
        cases "TEST_STATUS_FLAG (recver_status (recver (the_hub s) ! i)) MSG_RECVER_CLR_CTX")
      (simp_all add: thread_step_def forward_round_def Let_def)
  then show ?thesis
  proof cases
    case call
    define c where "c = To_layer i (recver_ctx (recver (the_hub s) ! i)) (ex_ctx (hub_pool (the_hub s) ! k))"
    have "layer_registered (the_hub s) i" using call by (simp add: recver_listens_def)
    with t i call have r: "thread_run 1 s = s\<lparr>thread := T_fwd k (Suc i), log_calls := log_calls s @ [c]\<rparr>"
      by (simp add: tac c_def)
    have "layer_calls (the_hub s) k [i] = [c]" using call by (simp add: layer_calls_def c_def)
    then show ?thesis by (intro exI [of _ 1]) (simp only: r, simp)
  next
    case skip
    have "layer_calls (the_hub s) k [i] = []" using skip(1) by (simp add: layer_calls_def)
    then show ?thesis by (intro exI [of _ 1]) (simp only: run_one [OF skip(2)], simp add: thread_to_def)
  next
    case wipe
    define h where "h = upd_recver i (\<lambda>_. zero_recver) (the_hub s)"
    have r: "thread_run 2 s = s\<lparr>the_hub := h, thread := T_fwd k (Suc i)\<rparr>"
      unfolding numeral_2_eq_2 using wipe(2)
      by (simp add: thread_step_def thread_to_def h_def)
    have other: "recver_listens h j k = recver_listens (the_hub s) j k" "recver h ! j = recver (the_hub s) ! j"
      if "j \<noteq> i" for j
      using that by (simp_all add: h_def recver_listens_def layer_registered_def upd_recver_def)
    have pool: "hub_pool h = hub_pool (the_hub s)" by (simp add: h_def upd_recver_def)
    have "layer_calls h k is = layer_calls (the_hub s) k is" if "i \<notin> set is" for "is"
      unfolding layer_calls_def
    proof (rule arg_cong [where f = concat], rule map_cong [OF refl])
      fix j assume "j \<in> set is"
      with that have "j \<noteq> i" by auto
      from other [OF this] pool show "(if recver_listens h j k then [To_layer j (recver_ctx (recver h ! j))
          (ex_ctx (hub_pool h ! k))] else []) = (if recver_listens (the_hub s) j k
          then [To_layer j (recver_ctx (recver (the_hub s) ! j)) (ex_ctx (hub_pool (the_hub s) ! k))] else [])"
        by simp
    qed
    moreover have "layer_calls (the_hub s) k [i] = []"
      using wipe(1) by (simp add: layer_calls_def recver_listens_def)
    ultimately show ?thesis by (intro exI [of _ 2]) (simp only: r, simp)
  qed
qed

lemma forward_all:
  assumes t: "thread s = T_got k" and st: "hub_started (the_hub s)"
  shows "\<exists>n \<le> 6. thread (thread_run n s) = T_back k \<and>
     log_calls (thread_run n s) = log_calls s @ layer_calls (the_hub s) k [0..<MSG_RECV_MAX]"
proof -
  define s1 where "s1 = thread_run 1 s"
  have s1: "thread s1 = T_fwd k 0" "the_hub s1 = the_hub s" "log_calls s1 = log_calls s"
    using t st by (simp_all add: s1_def thread_step_def thread_to_def)
  obtain n where n: "n \<le> 2" "thread (thread_run n s1) = T_fwd k 1"
    "log_calls (thread_run n s1) = log_calls s1 @ layer_calls (the_hub s1) k [0]"
    "layer_calls (the_hub (thread_run n s1)) k [1] = layer_calls (the_hub s1) k [1]"
    using forward_layer [OF s1(1)] by (auto simp: MSG_RECV_MAX_def)
  define s2 where "s2 = thread_run n s1"
  obtain m where m: "m \<le> 2" "thread (thread_run m s2) = T_fwd k 2"
    "log_calls (thread_run m s2) = log_calls s2 @ layer_calls (the_hub s2) k [1]"
    using forward_layer [OF n(2)] by (auto simp: MSG_RECV_MAX_def numeral_2_eq_2 s2_def)
  define s3 where "s3 = thread_run m s2"
  have s4: "thread (thread_run 1 s3) = T_back k" "log_calls (thread_run 1 s3) = log_calls s3"
    using m(2) by (simp_all add: s3_def thread_step_def thread_to_def MSG_RECV_MAX_def)
  have "thread_run (1 + n + m + 1) s = thread_run 1 s3"
    by (simp only: thread_run_add s1_def s2_def s3_def)
  moreover have "layer_calls h k [0] @ layer_calls h k [1] = layer_calls h k [0..<MSG_RECV_MAX]" for h
    by (simp add: MSG_RECV_MAX_def upt_rec layer_calls_def)
  ultimately show ?thesis using n m s4 s1
    by (intro exI [of _ "1 + n + m + 1"]) (simp add: s2_def s3_def)
qed

subsection \<open>Subscriptions\<close>

lemma recver_upd:
  "layer_registered (upd_recver l f h) j \<longleftrightarrow>
     TEST_STATUS_FLAG (recver_status (if j = l \<and> l < length (recver h) then f (recver h ! l) else recver h ! j))
       MSG_RECVER_INIT"
  "hub_inited (upd_recver l f h) = hub_inited h"
  "length (recver (upd_recver l f h)) = length (recver h)"
  "l < length (recver h) \<Longrightarrow> recver (upd_recver l f h) ! l = f (recver h ! l)"
  "j \<noteq> l \<Longrightarrow> recver (upd_recver l f h) ! j = recver h ! j"
  "hub_pool (upd_recver l f h) = hub_pool h"
  by (auto simp: layer_registered_def upd_recver_def hub_inited_def nth_list_update list_update_beyond
      split: if_splits)


definition mdl_listed :: "phl_msg_hub \<Rightarrow> u8 list \<Rightarrow> nat \<Rightarrow> bool" where
  "mdl_listed h ids k = (let mdl = MSG_MDL_ID_FIELD (msg_id (ex_ctx (hub_pool h ! k)))
     in mdl \<in> set ids \<and> unat mdl < 128)"

lemma chk_new_bitmap:
  "chk_bitmap_bit (add_bitmap_bit (replicate MODL_MASK_LEN 0) ids) i \<longleftrightarrow> i \<in> set ids \<and> unat i < 128"
proof -
  have "\<not> chk_bitmap_bit (replicate MODL_MASK_LEN 0) i"
    by (auto simp: chk_bitmap_bit_def test_at_bit)
  moreover have "unat i div 8 < length (replicate MODL_MASK_LEN (0 :: u8)) \<longleftrightarrow> unat i < 128"
    by (auto simp: MODL_MASK_LEN_def)
  ultimately show ?thesis
    using mdl_map.test_set_all [of "replicate MODL_MASK_LEN 0" ids i] by (simp add: add_bitmap_bit_def)
qed

subsection \<open>Runs used by the witnesses\<close>

definition ex_events :: "hub_event list" where
  "ex_events = [E_start, E_mgr True, E_register (Some 7) 1, E_mask 1 [0, 200] False, E_mgr True,
     E_send 0 (Some zero_msg) None, E_sender 0, E_sender 0, E_sender 0, E_sender 0, E_thread]"

text \<open>One message is queued and not announced yet; the thread is about to sleep.\<close>

definition ex_sys :: hub_sys where
  "ex_sys = the (hub_run ex_events (hub_sys_init 2))"

lemma ex_run: "hub_run ex_events (hub_sys_init 2) = Some ex_sys" "orderly_run ex_events (hub_sys_init 2)"
  by code_simp+

lemma ex_sys_reached: "hub_reach True ex_sys"
  using hub_reach_orderly_run [OF ex_run] hub_reach_init by blast

text \<open>The message is announced, and the hub is being stopped.\<close>

definition ex_stop :: "hub_event list" where
  "ex_stop = [E_sender 0, E_stop, E_mgr True, E_mgr True]"

definition ex_stopping :: hub_sys where
  "ex_stopping = the (hub_run ex_stop ex_sys)"

lemma ex_stop_run: "hub_run ex_stop ex_sys = Some ex_stopping" "orderly_run ex_stop ex_sys"
  by code_simp+

lemma ex_stopping_reached: "hub_reach True ex_stopping"
  using hub_reach_orderly_run [OF ex_stop_run] ex_sys_reached by blast

text \<open>The thread has taken the message.\<close>

definition ex_got :: hub_sys where
  "ex_got = the (hub_run [E_sender 0, E_thread, E_thread, E_thread] ex_sys)"

subsection \<open>Properties\<close>

text \<open>
  C22. A run is orderly (\<open>orderly_step\<close>) when every thread that is created starts, and no sender is
  between its test of \<open>MSG_HUB_STARTED\<close> and its last step when the thread of the hub ends. In
  every state of an orderly run in which the hub works (\<open>hub_live\<close>: it is started, or its thread
  or a start or stop is still at work), however the steps of senders, thread, registrations,
  starts and stops interleaved, each of the sixteen slots is in exactly one place: in the free
  queue, in the waiting queue, in the hands of the thread or of one sender. In a run that is not
  orderly this can fail: \<open>hub_stop_race\<close> has a slot in two places.
\<close>

theorem hub_slots_conserved:
  assumes "hub_reach True s" "hub_live s"
  shows "hub_slots s = mset [0..<MAX_MSG_NUM]"
  using hub_reach_inv [OF assms(1)] assms(2) by (simp add: hub_inv_def)

lemma hub_slots_conserved_witness: "hub_slots ex_sys = mset [0..<MAX_MSG_NUM]"
proof (rule hub_slots_conserved [OF ex_sys_reached])
  show "hub_live ex_sys" by code_simp
qed

text \<open>
  C23. In every reachable state of an orderly run, the messages that were queued are the ones
  that are finished followed by the one the thread works on and by the waiting ones, in the
  order in which they were queued: none is lost, doubled, overtaken or altered. The slot a
  sender is about to queue holds that sender's message and its completion routine, no older
  one. The completion routines of the finished messages have been called, each once, in order.
  When the thread has ended, everything queued is finished.
\<close>

theorem hub_exactly_once:
  assumes "hub_reach True s"
  shows "log_queued s = log_finished s @
       map ((!) (hub_pool (the_hub s))) (unfinished (thread s) @ pq_queue (wait_msg_q (the_hub s))) \<and>
     filter is_completion (log_calls s) = completion_calls (log_finished s) \<and>
     (\<forall>i k m a. i < length (senders s) \<and> senders s ! i = S_push k m a \<longrightarrow>
        hub_pool (the_hub s) ! k = \<lparr>ex_ctx = m, ex_done = routine_of a\<rparr>) \<and>
     (thread s = T_none \<or> thread s = T_exit \<longrightarrow> log_finished s = log_queued s)"
proof -
  have good: "hub_good s" by (rule hub_reach_good [OF assms])
  then have inv: "hub_inv s" by (simp add: hub_good_def)
  have fifo: "hub_fifo s" by (rule hub_inv_parts(6) [OF inv])
  have "log_finished s = log_queued s" if "thread s = T_none \<or> thread s = T_exit"
    using fifo thread_gone_empty [OF inv that] that by (auto simp: hub_fifo_def)
  moreover have "\<forall>i k m a. i < length (senders s) \<and> senders s ! i = S_push k m a \<longrightarrow>
        hub_pool (the_hub s) ! k = \<lparr>ex_ctx = m, ex_done = routine_of a\<rparr>"
    using good unfolding hub_good_def contents_ok_def by (metis sender_content.simps(2))
  ultimately show ?thesis using fifo good by (simp add: hub_fifo_def hub_good_def completions_ok_def)
qed

lemma hub_exactly_once_witness: "log_queued ex_sys = [zero_ex] \<and> log_finished ex_sys = []"
proof -
  have "unfinished (thread ex_sys) = []" "pq_queue (wait_msg_q (the_hub ex_sys)) = [0]"
    "hub_pool (the_hub ex_sys) ! 0 = zero_ex" "log_finished ex_sys = []" by code_simp+
  with hub_exactly_once [OF ex_sys_reached] show ?thesis by simp
qed

text \<open>
  C24. The stop ends: once it has posted the semaphore and no sender is between its test of
  the flag and its queueing, the thread reaches its end within 76 steps of its own, whatever it
  was doing; then every queued message is finished and all sixteen slots are free, so that the
  loop that waits for the free queue to be full is not endless.
\<close>

theorem hub_stop_terminates:
  assumes "hub_reach True s" "mgr s = M_join b" "no_sender_inside s"
  shows "thread (thread_run 76 s) = T_exit \<and>
     log_finished (thread_run 76 s) = log_queued (thread_run 76 s) \<and>
     mset (pq_queue (idle_msg_q (the_hub (thread_run 76 s)))) = mset [0..<MAX_MSG_NUM]"
proof -
  have l: "leaving_alone s" using assms hub_reach_good by (auto simp: leaving_alone_def)
  from leaving_runs [OF l hub_rank_bound [OF l]]
  have l': "leaving_alone (thread_run 76 s)" and t: "thread (thread_run 76 s) = T_exit" by simp_all
  note inv = leaving_conserved [OF l']
  have w: "pq_queue (wait_msg_q (the_hub (thread_run 76 s))) = []"
    using thread_gone_empty [OF inv(4)] t by simp
  have "log_finished (thread_run 76 s) = log_queued (thread_run 76 s)"
    using hub_inv_parts(6) [OF inv(4)] w t by (simp add: hub_fifo_def)
  moreover have "hub_slots (thread_run 76 s) = mset (pq_queue (idle_msg_q (the_hub (thread_run 76 s))))"
    using w t l' by (simp add: hub_slots_def leaving_alone_def no_sender_inside_def sum_list_none)
  ultimately show ?thesis using t inv(1) by simp
qed

lemma hub_stop_terminates_witness:
  "thread ex_stopping = T_wait \<and> thread (thread_run 76 ex_stopping) = T_exit"
proof -
  have "mgr ex_stopping = M_join False" "no_sender_inside ex_stopping" "thread ex_stopping = T_wait"
    by code_simp+
  with hub_stop_terminates [OF ex_stopping_reached, of False] show ?thesis by blast
qed

text \<open>
  No wakeup is lost: in every reachable state of an orderly run in which the thread is
  about to sleep or asleep while a message waits, the semaphore is up, or a sender that has
  queued its message is about to raise it.
\<close>

theorem hub_no_lost_wakeup:
  assumes "hub_reach True s" "thread s \<in> {T_loop, T_wait}"
    and "pq_queue (wait_msg_q (the_hub s)) \<noteq> []"
  shows "0 < msg_q_sema (the_hub s) \<or> S_up \<in> set (senders s)"
  using hub_reach_good [OF assms(1)] assms(2,3) unfolding hub_good_def hub_awake_def by blast

lemma hub_no_lost_wakeup_witness: "msg_q_sema (the_hub ex_sys) = 0 \<and> S_up \<in> set (senders ex_sys)"
proof -
  have "thread ex_sys = T_wait" "pq_queue (wait_msg_q (the_hub ex_sys)) = [0]" "msg_q_sema (the_hub ex_sys) = 0"
    by code_simp+
  with hub_no_lost_wakeup [OF ex_sys_reached] show ?thesis by simp
qed

text \<open>
  While the hub works, forwarding hands a message to exactly the layers that are
  registered and listen to its module, each once, in the order of the layers, and the thread
  then goes on to recycle the slot; a hub that is not started hands it to nobody.
\<close>

theorem hub_forwards:
  assumes "thread s = T_got k"
  shows "\<exists>n \<le> 6. thread (thread_run n s) = T_back k \<and>
     log_calls (thread_run n s) = log_calls s @
       (if hub_started (the_hub s) then layer_calls (the_hub s) k [0..<MSG_RECV_MAX] else [])"
proof (cases "hub_started (the_hub s)")
  case True
  with forward_all [OF assms] show ?thesis by simp
next
  case False
  with assms show ?thesis by (intro exI [of _ 1]) (simp add: thread_step_def thread_to_def)
qed

lemma hub_forwards_witness:
  "\<exists>n \<le> 6. thread (thread_run n ex_got) = T_back 0 \<and> log_calls (thread_run n ex_got) = [To_layer 1 7 zero_msg]"
proof -
  have "thread ex_got = T_got 0" "hub_started (the_hub ex_got)" "log_calls ex_got = []"
    "layer_calls (the_hub ex_got) 0 [0..<MSG_RECV_MAX] = [To_layer 1 7 zero_msg]" by code_simp+
  with hub_forwards [of ex_got 0] show ?thesis by simp
qed

text \<open>
  Subscribing: a free layer of an initialised hub can be registered and listens to
  nothing; adding a list of module ids makes it listen to exactly those below 128; a second
  registration is refused; after the deregistration it listens to nothing. The other layers
  are not affected.
\<close>

theorem hub_subscription:
  assumes "hub_inited h" "layer < MSG_RECV_MAX" "length (recver h) = MSG_RECV_MAX"
    and "\<not> layer_registered h layer"
  shows "\<exists>h1 h2 h3. phl_msg_hub_register_recver h (Some c) layer = (RTW_PHL_STATUS_SUCCESS, h1) \<and>
     phl_msg_hub_update_recver_mask h1 layer ids False = (RTW_PHL_STATUS_SUCCESS, h2) \<and>
     phl_msg_hub_deregister_recver h2 layer = (RTW_PHL_STATUS_SUCCESS, h3) \<and>
     (\<forall>k. \<not> recver_listens h1 layer k \<and> recver_listens h2 layer k = mdl_listed h ids k \<and>
          \<not> recver_listens h3 layer k) \<and>
     phl_msg_hub_register_recver h2 (Some c') layer = (RTW_PHL_STATUS_FAILURE, h2) \<and>
     (\<forall>j k. j \<noteq> layer \<longrightarrow> recver_listens h3 j k = recver_listens h j k)"
proof -
  note ln = assms(2) [folded assms(3)]
  define h1 where "h1 = upd_recver layer
      (\<lambda>r. r\<lparr>recver_ctx := c, recver_bitmap := replicate MODL_MASK_LEN 0,
             recver_status := SET_STATUS_FLAG (recver_status r) MSG_RECVER_INIT\<rparr>) h"
  define h2 where "h2 = upd_recver layer
      (\<lambda>r. r\<lparr>recver_bitmap := add_bitmap_bit (recver_bitmap r) ids\<rparr>) h1"
  define h3 where "h3 = upd_recver layer
      (\<lambda>r. r\<lparr>recver_status := SET_STATUS_FLAG
         (CLEAR_STATUS_FLAG (recver_status r) MSG_RECVER_INIT) MSG_RECVER_CLR_CTX\<rparr>) h2"
  have reg1: "layer_registered h1 layer" and reg2: "layer_registered h2 layer"
    and reg3: "\<not> layer_registered h3 layer"
    using ln by (simp_all add: h1_def h2_def h3_def recver_upd TEST_SET_STATUS_FLAG
        MSG_RECVER_INIT_def MSG_RECVER_CLR_CTX_def flag_simps)
  have 1: "phl_msg_hub_register_recver h (Some c) layer = (RTW_PHL_STATUS_SUCCESS, h1)"
    using assms by (simp add: phl_msg_hub_register_recver_def h1_def)
  have 2: "phl_msg_hub_update_recver_mask h1 layer ids False = (RTW_PHL_STATUS_SUCCESS, h2)"
    using assms reg1 by (simp add: phl_msg_hub_update_recver_mask_def h2_def) (simp add: h1_def recver_upd)
  have 3: "phl_msg_hub_deregister_recver h2 layer = (RTW_PHL_STATUS_SUCCESS, h3)"
    using assms reg2 by (simp add: phl_msg_hub_deregister_recver_def h3_def) (simp add: h1_def h2_def recver_upd)
  have b1: "recver_bitmap (recver h1 ! layer) = replicate MODL_MASK_LEN 0"
    using ln by (simp add: h1_def recver_upd)
  have b2: "recver_bitmap (recver h2 ! layer) = add_bitmap_bit (replicate MODL_MASK_LEN 0) ids"
    using ln b1 by (simp add: h2_def recver_upd) (simp add: h1_def recver_upd)
  have pool: "hub_pool h1 = hub_pool h" "hub_pool h2 = hub_pool h" "hub_pool h3 = hub_pool h"
    by (simp_all add: h1_def h2_def h3_def recver_upd)
  have l1: "\<not> recver_listens h1 layer k" for k
    using b1 chk_new_bitmap [of "[]"] by (simp add: recver_listens_def add_bitmap_bit_def)
  have l2: "recver_listens h2 layer k = mdl_listed h ids k" for k
    using b2 reg2 pool by (simp add: recver_listens_def chk_new_bitmap mdl_listed_def Let_def)
  have l3: "\<not> recver_listens h3 layer k" for k using reg3 by (simp add: recver_listens_def)
  have o: "recver_listens h3 j k = recver_listens h j k" if "j \<noteq> layer" for j k
    using that pool by (simp add: recver_listens_def layer_registered_def h1_def h2_def h3_def recver_upd)
  have 4: "phl_msg_hub_register_recver h2 (Some c') layer = (RTW_PHL_STATUS_FAILURE, h2)"
    using reg2 by (simp add: phl_msg_hub_register_recver_def)
  show ?thesis using 1 2 3 l1 l2 l3 o 4 by blast
qed

lemma hub_subscription_witness:
  "\<exists>h1 h2. phl_msg_hub_register_recver (the_hub ex_sys) (Some 4) 0 = (RTW_PHL_STATUS_SUCCESS, h1) \<and>
     phl_msg_hub_update_recver_mask h1 0 [0] False = (RTW_PHL_STATUS_SUCCESS, h2) \<and> recver_listens h2 0 0"
proof -
  have "hub_inited (the_hub ex_sys)" "length (recver (the_hub ex_sys)) = MSG_RECV_MAX"
    "\<not> layer_registered (the_hub ex_sys) 0" "mdl_listed (the_hub ex_sys) [0] 0" by code_simp+
  moreover have "(0 :: nat) < MSG_RECV_MAX" by (simp add: MSG_RECV_MAX_def)
  ultimately show ?thesis using hub_subscription [of "the_hub ex_sys" 0 4 "[0]"] by blast
qed

subsection \<open>What the code does not see to\<close>

text \<open>
  The loop of the thread that waits for all slots does not wait for a sender that has passed
  the test of the started flag and has not taken its slot yet. Such a sender takes a free slot
  after the thread has ended and queues it after the next start, which has freed all slots:
  then one slot is free and waits at the same time.
\<close>

definition race_events :: "hub_event list" where
  "race_events = [E_start, E_mgr True, E_mgr True, E_send 0 (Some zero_msg) None, E_sender 0,
     E_stop, E_mgr True, E_mgr True, E_thread, E_thread, E_mgr True,
     E_sender 0, E_mgr True, E_mgr True, E_start, E_sender 0, E_sender 0]"

lemma hub_stop_race:
  "\<exists>s. hub_reach False s \<and> hub_live s \<and> 0 \<in> set (pq_queue (idle_msg_q (the_hub s))) \<and>
     0 \<in> set (pq_queue (wait_msg_q (the_hub s)))"
proof -
  define s where "s = the (hub_run race_events (hub_sys_init 1))"
  have "hub_run race_events (hub_sys_init 1) = Some s" "hub_live s"
    "0 \<in> set (pq_queue (idle_msg_q (the_hub s)))" "0 \<in> set (pq_queue (wait_msg_q (the_hub s)))"
    unfolding s_def by code_simp+
  with hub_reach_run hub_reach_init show ?thesis by blast
qed

text \<open>
  A registration that falls between the two accesses of the forwarding loop to a layer that
  was deregistered before is wiped out by the loop, although it reported success.
\<close>

definition wipe_events :: "hub_event list" where
  "wipe_events = [E_start, E_mgr True, E_mgr True, E_register (Some 7) 0, E_deregister 0,
     E_send 0 (Some zero_msg) None, E_sender 0, E_sender 0, E_sender 0, E_sender 0, E_sender 0,
     E_thread, E_thread, E_thread, E_thread, E_thread, E_thread, E_register (Some 8) 0]"

lemma hub_registration_lost:
  "\<exists>s s'. hub_reach False s \<and> layer_registered (the_hub s) 0 \<and> hub_step E_thread s = Some s' \<and>
     \<not> layer_registered (the_hub s') 0"
proof -
  define s where "s = the (hub_run wipe_events (hub_sys_init 1))"
  define s' where "s' = the (hub_step E_thread s)"
  have "hub_run wipe_events (hub_sys_init 1) = Some s" "layer_registered (the_hub s) 0"
    "hub_step E_thread s = Some s'" "\<not> layer_registered (the_hub s') 0"
    unfolding s'_def s_def by code_simp+
  with hub_reach_run hub_reach_init show ?thesis by blast
qed

end
