(* ===== verification/RingIndex.thy ===== *)
theory RingIndex
  imports Prelude
begin

text \<open>
  The read and write indices of the packet rings (\<^verbatim>\<open>phl/phl_tx.c\<close>, \<^verbatim>\<open>phl/phl_trx_def.h\<close>): the
  numbers of filled and free places, and the reading of an index as an absolute position
  modulo the size of the ring, by which the proofs on the rings avoid the wrap.
\<close>

definition MAX_PHL_TX_RING_ENTRY_NUM :: nat where "MAX_PHL_TX_RING_ENTRY_NUM = 4096"
definition MAX_PHL_RX_RING_ENTRY_NUM :: nat where "MAX_PHL_RX_RING_ENTRY_NUM = 4096"

definition RING_BNDY :: u16 where "RING_BNDY = of_nat MAX_PHL_RX_RING_ENTRY_NUM"

text \<open>The index after \<open>i\<close>.\<close>

definition ring_next :: "u16 \<Rightarrow> u16" where
  "ring_next i = (let j = i + 1 in if j \<ge> RING_BNDY then 0 else j)"

subsection \<open>Filled and free places\<close>

definition phl_calc_avail_rptr :: "u16 \<Rightarrow> u16 \<Rightarrow> u16 \<Rightarrow> u16" where
  "phl_calc_avail_rptr rptr wptr bndy =
     (if wptr \<ge> rptr then wptr - rptr else wptr + (bndy - rptr))"

definition phl_calc_avail_wptr :: "u16 \<Rightarrow> u16 \<Rightarrow> u16 \<Rightarrow> u16" where
  "phl_calc_avail_wptr rptr wptr bndy =
     (if rptr > wptr then rptr - wptr - 1 else rptr + (bndy - wptr) - 1)"

lemma unat_minus_le: "b \<le> a \<Longrightarrow> unat (a - b) = unat a - unat (b :: 'n::len word)"
  by (simp add: unat_sub)

lemma avail_rptr_unat:
  assumes "unat r < unat b" "unat w < unat b"
  shows "unat (phl_calc_avail_rptr r w b) =
     (if unat r \<le> unat w then unat w - unat r else unat w + unat b - unat r)"
proof (cases "r \<le> w")
  case True
  then show ?thesis by (simp add: phl_calc_avail_rptr_def unat_minus_le word_le_nat_alt)
next
  case False
  then have lt: "unat w < unat r" by (simp add: word_le_nat_alt)
  have s: "unat (b - r) = unat b - unat r" using assms by (intro unat_minus_le) (simp add: word_le_nat_alt)
  have "unat w + unat (b - r) < 2 ^ LENGTH(16)"
    using lt s assms unat_bound [of b] by simp
  then have "unat (w + (b - r)) = unat w + unat (b - r)" by (simp only: unat_add_lem)
  then show ?thesis using False lt s assms by (simp add: phl_calc_avail_rptr_def)
qed

lemma avail_wptr_unat:
  assumes "unat r < unat b" "unat w < unat b"
  shows "unat (phl_calc_avail_wptr r w b) =
     (if unat r \<le> unat w then unat r + unat b - unat w - 1 else unat r - unat w - 1)"
proof (cases "r > w")
  case True
  then have lt: "unat w < unat r" by (simp add: word_less_nat_alt)
  have s: "unat (r - w) = unat r - unat w" using lt by (intro unat_minus_le) (simp add: word_le_nat_alt)
  have "unat (r - w - 1) = unat (r - w) - unat (1 :: u16)"
    using s lt by (intro unat_minus_le) (simp add: word_le_nat_alt)
  then show ?thesis using True lt s by (simp add: phl_calc_avail_wptr_def)
next
  case False
  then have le: "unat r \<le> unat w" by (simp add: word_less_nat_alt)
  have s: "unat (b - w) = unat b - unat w" using assms by (intro unat_minus_le) (simp add: word_le_nat_alt)
  have "unat r + unat (b - w) < 2 ^ LENGTH(16)"
    using le s assms unat_bound [of b] by simp
  then have a: "unat (r + (b - w)) = unat r + unat (b - w)" by (simp only: unat_add_lem)
  have "unat (r + (b - w) - 1) = unat (r + (b - w)) - unat (1 :: u16)"
    using a s assms by (intro unat_minus_le) (simp add: word_le_nat_alt)
  then show ?thesis using False le s a assms(2) by (simp add: phl_calc_avail_wptr_def)
qed

subsection \<open>Positions\<close>

text \<open>The index \<open>w\<close> stands for the absolute position \<open>n\<close>.\<close>

abbreviation RING_SIZE :: nat where "RING_SIZE \<equiv> MAX_PHL_RX_RING_ENTRY_NUM"

lemma RING_SIZE_pos [simp]: "0 < RING_SIZE"
  by (simp add: MAX_PHL_RX_RING_ENTRY_NUM_def)

lemma unat_RING_BNDY [simp]: "unat RING_BNDY = RING_SIZE"
  by (simp add: RING_BNDY_def MAX_PHL_RX_RING_ENTRY_NUM_def)

definition at_pos :: "u16 \<Rightarrow> nat \<Rightarrow> bool" where
  "at_pos w n \<longleftrightarrow> unat w = n mod RING_SIZE"

lemma at_pos_bound: "at_pos w n \<Longrightarrow> unat w < unat RING_BNDY"
  by (simp add: at_pos_def)

lemma ring_next_pos: "at_pos w n \<Longrightarrow> at_pos (ring_next w) (Suc n)"
proof -
  assume a: "at_pos w n"
  then have lt: "unat w < RING_SIZE" by (simp add: at_pos_def)
  have "unat w + unat (1 :: u16) < 2 ^ LENGTH(16)" using lt by (simp add: MAX_PHL_RX_RING_ENTRY_NUM_def)
  then have s: "unat (w + 1) = Suc (unat w)" by (simp only: unat_add_lem) simp
  show ?thesis
  proof (cases "Suc (unat w) = RING_SIZE")
    case True
    then have "ring_next w = 0" using s by (simp add: ring_next_def Let_def word_le_nat_alt)
    moreover have "Suc n mod RING_SIZE = 0" using a True by (simp add: at_pos_def mod_Suc)
    ultimately show ?thesis by (simp add: at_pos_def)
  next
    case False
    then have "ring_next w = w + 1" using s lt by (simp add: ring_next_def Let_def word_le_nat_alt)
    moreover have "Suc n mod RING_SIZE = Suc (unat w)" using a False by (simp add: at_pos_def mod_Suc)
    ultimately show ?thesis using s by (simp add: at_pos_def)
  qed
qed

lemma pos_inc:
  assumes "at_pos w n" "at_pos i (Suc n)"
  shows "(if i \<noteq> 0 then w + 1 else 0) = i"
proof -
  have "ring_next w = i"
    using ring_next_pos [OF assms(1)] assms(2) by (simp add: at_pos_def word_unat_eq_iff)
  then show ?thesis by (auto simp: ring_next_def Let_def split: if_splits)
qed

lemma mod_step:
  assumes "r < N" "d < (N :: nat)"
  shows "(if r \<le> (r + d) mod N then (r + d) mod N - r else (r + d) mod N + N - r) = d"
proof (cases "r + d < N")
  case True
  then show ?thesis by simp
next
  case False
  then have "(r + d) mod N = r + d - N" using assms by (subst le_mod_geq) simp_all
  then show ?thesis using assms False by simp
qed

lemma mod_window:
  assumes "a \<le> b" "b < a + N" "0 < (N :: nat)"
  shows "(if a mod N \<le> b mod N then b mod N - a mod N else b mod N + N - a mod N) = b - a"
proof -
  have "b mod N = (a mod N + (b - a)) mod N"
    using mod_add_left_eq [of a N "b - a"] assms(1) by (simp only: le_add_diff_inverse)
  moreover have "b - a < N" using assms by linarith
  ultimately show ?thesis using mod_step [of "a mod N" N "b - a"] assms(3) by (simp only: mod_less_divisor)
qed

lemma avail_r_pos:
  assumes "at_pos r b" "at_pos w a" "b \<le> a" "a < b + RING_SIZE"
  shows "unat (phl_calc_avail_rptr r w RING_BNDY) = a - b"
proof -
  have u: "unat r = b mod RING_SIZE" "unat w = a mod RING_SIZE" using assms(1,2) by (simp_all add: at_pos_def)
  show ?thesis
    unfolding avail_rptr_unat [OF at_pos_bound at_pos_bound, OF assms(1,2)] unat_RING_BNDY u
    by (rule mod_window [OF assms(3,4) RING_SIZE_pos])
qed

lemma avail_complement:
  "x < N \<Longrightarrow> y < N \<Longrightarrow> (if y \<le> x then y + N - x - 1 else y - x - 1) =
     N - 1 - (if y \<le> x then x - y else x + N - y :: nat)"
  by (simp add: add.commute)

lemma avail_w_pos:
  assumes "at_pos r b" "at_pos w a" "b \<le> a" "a < b + RING_SIZE"
  shows "unat (phl_calc_avail_wptr r w RING_BNDY) = RING_SIZE - 1 - (a - b)"
proof -
  have u: "unat r = b mod RING_SIZE" "unat w = a mod RING_SIZE" using assms(1,2) by (simp_all add: at_pos_def)
  have lt: "a mod RING_SIZE < RING_SIZE" "b mod RING_SIZE < RING_SIZE" by simp_all
  have e: "a - b = (if b mod RING_SIZE \<le> a mod RING_SIZE then a mod RING_SIZE - b mod RING_SIZE
      else a mod RING_SIZE + RING_SIZE - b mod RING_SIZE)"
    by (rule mod_window [OF assms(3,4) RING_SIZE_pos, symmetric])
  show ?thesis
    unfolding avail_wptr_unat [OF at_pos_bound at_pos_bound, OF assms(1,2)] unat_RING_BNDY u e
    using lt by (rule avail_complement)
qed

lemma pos_apart:
  assumes "j < k" "k < j + RING_SIZE"
  shows "j mod RING_SIZE \<noteq> k mod RING_SIZE"
proof
  assume "j mod RING_SIZE = k mod RING_SIZE"
  with mod_window [of j k RING_SIZE] assms show False by simp
qed

lemma tx_ring_size: "MAX_PHL_TX_RING_ENTRY_NUM = RING_SIZE"
  by (simp add: MAX_PHL_TX_RING_ENTRY_NUM_def MAX_PHL_RX_RING_ENTRY_NUM_def)

end
