(* ===== verification/PktRing.thy ===== *)
theory PktRing
  imports RingIndex
begin

text \<open>
  The path of a received packet through its pool and its ring: \<^verbatim>\<open>phl/phl_rx.c\<close> (the pool of
  packets, \<open>_phl_add_rx_pkt\<close>, \<open>rtw_phl_query_rx_pkt\<close>, \<open>rtw_phl_return_rxbuf\<close>). The pointer
  arithmetic is in \<open>RingIndex\<close>.

  PHL fills the ring, under a lock, while the core empties it without one. Both are tasks with
  program counters, a step is one access to an index or an entry. A packet is named by its
  index in the pool. PHL and the core own the packets that are neither idle nor in the ring.
\<close>

subsection \<open>Data\<close>

definition MAX_PHL_RING_RX_PKT_NUM :: nat where "MAX_PHL_RING_RX_PKT_NUM = 8192"

record rx_ring =
  core_idx :: u16
  phl_idx :: u16
  entry :: "nat option list"

text \<open>The pool: its list of idle packets and their count.\<close>

record rx_pkt_pool =
  idle :: "nat list"
  idle_cnt :: int

text \<open>
  The task in \<open>_phl_add_rx_pkt\<close>: before it reads \<open>core_idx\<close>, before it writes the entry, before
  it publishes the index. The task in \<open>rtw_phl_query_rx_pkt\<close>: before it reads \<open>core_idx\<close>,
  before it reads the entry, before it clears it, before it publishes.
\<close>

datatype add_pc =
    A_done "phl_status option" | A_rptr nat u16 | A_write nat u16 | A_publish nat u16

datatype query_pc =
    Q_done "nat option" | Q_rptr u16 | Q_read u16 | Q_clear "nat option" u16 | Q_publish "nat option" u16

text \<open>
  The whole; \<open>by_phl\<close> and \<open>by_core\<close> are the packets in the hands of PHL and of the core, the two
  logs record the packets in the order in which they were published and taken.
\<close>

record rx_path =
  ring :: rx_ring
  pool :: rx_pkt_pool
  adder :: add_pc
  querier :: query_pc
  by_phl :: "nat list"
  by_core :: "nat list"
  log_added :: "nat list"
  log_taken :: "nat list"

subsection \<open>The pool\<close>

definition phl_alloc_recv_pkt_pool :: "bool \<Rightarrow> phl_status \<times> rx_pkt_pool option" where
  "phl_alloc_recv_pkt_pool alloc =
     (if alloc
      then (RTW_PHL_STATUS_SUCCESS,
            Some \<lparr>idle = [0..<MAX_PHL_RING_RX_PKT_NUM], idle_cnt = int MAX_PHL_RING_RX_PKT_NUM\<rparr>)
      else (RTW_PHL_STATUS_FAILURE, None))"

definition rtw_phl_query_phl_rx :: "rx_pkt_pool \<Rightarrow> nat option \<times> rx_pkt_pool" where
  "rtw_phl_query_phl_rx p =
     (case idle p of
        [] \<Rightarrow> (None, p)
      | k # ks \<Rightarrow> (Some k, p\<lparr>idle := ks, idle_cnt := idle_cnt p - 1\<rparr>))"

definition phl_release_phl_rx :: "nat \<Rightarrow> rx_pkt_pool \<Rightarrow> rx_pkt_pool" where
  "phl_release_phl_rx k p = p\<lparr>idle := idle p @ [k], idle_cnt := idle_cnt p + 1\<rparr>"

definition rtw_phl_is_phl_rx_idle :: "rx_pkt_pool \<Rightarrow> bool" where
  "rtw_phl_is_phl_rx_idle p \<longleftrightarrow> idle_cnt p = int MAX_PHL_RING_RX_PKT_NUM"

subsection \<open>The ring\<close>

definition phl_check_recv_ring_resource :: "rx_ring \<Rightarrow> bool" where
  "phl_check_recv_ring_resource r \<longleftrightarrow> phl_calc_avail_wptr (core_idx r) (phl_idx r) RING_BNDY \<noteq> 0"

definition rtw_phl_query_new_rx_num :: "rx_ring \<Rightarrow> u16" where
  "rtw_phl_query_new_rx_num r = phl_calc_avail_rptr (core_idx r) (phl_idx r) RING_BNDY"

definition on_ring :: "(rx_ring \<Rightarrow> rx_ring) \<Rightarrow> rx_path \<Rightarrow> rx_path" where
  "on_ring f s = s\<lparr>ring := f (ring s)\<rparr>"

text \<open>
  \<open>_phl_add_rx_pkt\<close>. The packet is given back to the caller when the ring is full. The index is
  raised by one, or set to zero where it wraps.
\<close>

fun add_at :: "add_pc \<Rightarrow> rx_path \<Rightarrow> rx_path option" where
  "add_at (A_done r) s = None"
| "add_at (A_rptr k w) s =
     Some (if phl_calc_avail_wptr (core_idx (ring s)) w RING_BNDY \<le> 0
           then s\<lparr>adder := A_done (Some RTW_PHL_STATUS_RESOURCE), by_phl := k # by_phl s\<rparr>
           else s\<lparr>adder := A_write k (ring_next w)\<rparr>)"
| "add_at (A_write k w) s =
     Some ((on_ring (\<lambda>r. r\<lparr>entry := (entry r)[unat w := Some k]\<rparr>) s)\<lparr>adder := A_publish k w\<rparr>)"
| "add_at (A_publish k w) s =
     Some ((on_ring (\<lambda>r. r\<lparr>phl_idx := (if w \<noteq> 0 then phl_idx r + 1 else 0)\<rparr>) s)
             \<lparr>adder := A_done (Some RTW_PHL_STATUS_SUCCESS), log_added := log_added s @ [k]\<rparr>)"

text \<open>\<open>rtw_phl_query_rx_pkt\<close>; the result is the packet or NULL.\<close>

fun query_at :: "query_pc \<Rightarrow> rx_path \<Rightarrow> rx_path option" where
  "query_at (Q_done r) s = None"
| "query_at (Q_rptr w) s =
     Some (if phl_calc_avail_rptr (core_idx (ring s)) w RING_BNDY > 0
           then s\<lparr>querier := Q_read (ring_next (core_idx (ring s)))\<rparr>
           else s\<lparr>querier := Q_done None\<rparr>)"
| "query_at (Q_read i) s = Some (s\<lparr>querier := Q_clear (entry (ring s) ! unat i) i\<rparr>)"
| "query_at (Q_clear p i) s =
     Some ((on_ring (\<lambda>r. r\<lparr>entry := (entry r)[unat i := None]\<rparr>) s)\<lparr>querier := Q_publish p i\<rparr>)"
| "query_at (Q_publish p i) s =
     Some ((on_ring (\<lambda>r. r\<lparr>core_idx := (if i = 0 then 0 else core_idx r + 1)\<rparr>) s)
             \<lparr>querier := Q_done p,
              by_core := (case p of None \<Rightarrow> by_core s | Some k \<Rightarrow> k # by_core s),
              log_taken := (case p of None \<Rightarrow> log_taken s | Some k \<Rightarrow> log_taken s @ [k])\<rparr>)"

text \<open>
  The events: PHL takes an idle packet for a received frame, drops one it holds, or calls
  \<open>_phl_add_rx_pkt\<close> with it; the core asks for a packet or returns one it holds; the two tasks
  go on. One task at a time adds (the lock) and one asks (the core's receive handler).
\<close>

datatype rx_event =
  E_take_idle | E_drop nat | E_add nat | E_add_step | E_query | E_query_step | E_return nat

fun rx_step :: "rx_event \<Rightarrow> rx_path \<Rightarrow> rx_path option" where
  "rx_step E_take_idle s =
     Some (case rtw_phl_query_phl_rx (pool s) of
             (None, p) \<Rightarrow> s\<lparr>pool := p\<rparr>
           | (Some k, p) \<Rightarrow> s\<lparr>pool := p, by_phl := k # by_phl s\<rparr>)"
| "rx_step (E_drop k) s =
     (if k \<in> set (by_phl s)
      then Some (s\<lparr>by_phl := remove1 k (by_phl s), pool := phl_release_phl_rx k (pool s)\<rparr>) else None)"
| "rx_step (E_add k) s =
     (if k \<in> set (by_phl s)
      then (case adder s of
              A_done _ \<Rightarrow> Some (s\<lparr>by_phl := remove1 k (by_phl s), adder := A_rptr k (phl_idx (ring s))\<rparr>)
            | _ \<Rightarrow> None)
      else None)"
| "rx_step E_add_step s = add_at (adder s) s"
| "rx_step E_query s =
     (case querier s of Q_done _ \<Rightarrow> Some (s\<lparr>querier := Q_rptr (phl_idx (ring s))\<rparr>) | _ \<Rightarrow> None)"
| "rx_step E_query_step s = query_at (querier s) s"
| "rx_step (E_return k) s =
     (if k \<in> set (by_core s)
      then Some (s\<lparr>by_core := remove1 k (by_core s), pool := phl_release_phl_rx k (pool s)\<rparr>) else None)"

definition rx_path_init :: rx_path where
  "rx_path_init =
     \<lparr>ring = \<lparr>core_idx = 0, phl_idx = 0, entry = replicate MAX_PHL_RX_RING_ENTRY_NUM None\<rparr>,
      pool = the (snd (phl_alloc_recv_pkt_pool True)),
      adder = A_done None, querier = Q_done None,
      by_phl = [], by_core = [], log_added = [], log_taken = []\<rparr>"

inductive rx_reach :: "rx_path \<Rightarrow> bool" where
  rx_reach_init: "rx_reach rx_path_init"
| rx_reach_step: "rx_reach s \<Longrightarrow> rx_step ev s = Some s' \<Longrightarrow> rx_reach s'"

fun rx_run :: "rx_event list \<Rightarrow> rx_path \<Rightarrow> rx_path option" where
  "rx_run [] s = Some s"
| "rx_run (ev # evs) s = (case rx_step ev s of None \<Rightarrow> None | Some s' \<Rightarrow> rx_run evs s')"

lemma rx_reach_run: "rx_run evs s = Some s' \<Longrightarrow> rx_reach s \<Longrightarrow> rx_reach s'"
  by (induction evs arbitrary: s) (auto split: option.splits intro: rx_reach_step)

end
