(* ===== verification/PktRingProps.thy ===== *)
theory PktRingProps
  imports PktRing
begin

text \<open>
  The properties of the receive ring and its pool. The invariant speaks of absolute positions:
  with \<open>A\<close> packets added and \<open>B\<close> taken so far, the indices are \<open>A\<close> and \<open>B\<close> modulo the size of
  the ring, and the packet added as number \<open>j\<close> lies at \<open>j\<close> modulo that size.
\<close>

lemma int_mod_diff:
  assumes "r < b" "w < b"
  shows "int (if r \<le> w then w - r else w + b - r) = (int w - int r) mod int b"
proof (cases "r \<le> w")
  case True
  then have "(int w - int r) mod int b = int w - int r" using assms by (intro mod_pos_pos_trivial) auto
  then show ?thesis using True by simp
next
  case False
  then have "(int w - int r + int b) mod int b = int w - int r + int b"
    using assms by (intro mod_pos_pos_trivial) auto
  then have "(int w - int r) mod int b = int w - int r + int b" by simp
  then show ?thesis using False assms by simp
qed

subsection \<open>The invariant\<close>

abbreviation added :: "rx_path \<Rightarrow> nat" where "added s \<equiv> length (log_added s)"
abbreviation taken :: "rx_path \<Rightarrow> nat" where "taken s \<equiv> length (log_taken s)"

fun cleared :: "query_pc \<Rightarrow> bool" where
  "cleared (Q_publish p i) = True"
| "cleared _ = False"

definition ring_ok :: "rx_path \<Rightarrow> bool" where
  "ring_ok s \<longleftrightarrow> taken s \<le> added s \<and> added s < taken s + RING_SIZE \<and>
     at_pos (phl_idx (ring s)) (added s) \<and> at_pos (core_idx (ring s)) (taken s) \<and>
     length (entry (ring s)) = RING_SIZE \<and> log_taken s = take (taken s) (log_added s)"

definition entries_ok :: "rx_path \<Rightarrow> bool" where
  "entries_ok s \<longleftrightarrow> (\<forall>j. taken s < j \<and> j \<le> added s \<and> \<not> (j = Suc (taken s) \<and> cleared (querier s)) \<longrightarrow>
     entry (ring s) ! (j mod RING_SIZE) = Some (log_added s ! (j - 1)))"

fun adder_ok :: "add_pc \<Rightarrow> rx_path \<Rightarrow> bool" where
  "adder_ok (A_done r) s \<longleftrightarrow> True"
| "adder_ok (A_rptr k w) s \<longleftrightarrow> at_pos w (added s)"
| "adder_ok (A_write k w) s \<longleftrightarrow> at_pos w (Suc (added s)) \<and> Suc (added s) < taken s + RING_SIZE"
| "adder_ok (A_publish k w) s \<longleftrightarrow> at_pos w (Suc (added s)) \<and> Suc (added s) < taken s + RING_SIZE \<and>
     entry (ring s) ! unat w = Some k"

fun querier_ok :: "query_pc \<Rightarrow> rx_path \<Rightarrow> bool" where
  "querier_ok (Q_done r) s \<longleftrightarrow> True"
| "querier_ok (Q_rptr w) s \<longleftrightarrow> (\<exists>a \<ge> taken s. a \<le> added s \<and> at_pos w a)"
| "querier_ok (Q_read i) s \<longleftrightarrow> taken s < added s \<and> at_pos i (Suc (taken s))"
| "querier_ok (Q_clear p i) s \<longleftrightarrow> taken s < added s \<and> at_pos i (Suc (taken s)) \<and>
     p = Some (log_added s ! taken s)"
| "querier_ok (Q_publish p i) s \<longleftrightarrow> taken s < added s \<and> at_pos i (Suc (taken s)) \<and>
     p = Some (log_added s ! taken s)"

fun adder_holds :: "add_pc \<Rightarrow> nat multiset" where
  "adder_holds (A_done r) = {#}"
| "adder_holds (A_rptr k w) = {#k#}"
| "adder_holds (A_write k w) = {#k#}"
| "adder_holds (A_publish k w) = {#k#}"

text \<open>Every packet, wherever it is.\<close>

definition rx_packets :: "rx_path \<Rightarrow> nat multiset" where
  "rx_packets s = mset (idle (pool s)) + mset (by_phl s) + adder_holds (adder s) +
     mset (drop (taken s) (log_added s)) + mset (by_core s)"

definition rx_inv :: "rx_path \<Rightarrow> bool" where
  "rx_inv s \<longleftrightarrow> ring_ok s \<and> entries_ok s \<and> adder_ok (adder s) s \<and> querier_ok (querier s) s \<and>
     idle_cnt (pool s) = int (length (idle (pool s))) \<and>
     rx_packets s = mset [0..<MAX_PHL_RING_RX_PKT_NUM]"

lemma rx_inv_init: "rx_inv rx_path_init"
  by (auto simp: rx_inv_def rx_path_init_def ring_ok_def entries_ok_def rx_packets_def at_pos_def
      phl_alloc_recv_pkt_pool_def)

text \<open>The parts of the invariant do not depend on the fields they do not read.\<close>

lemma ring_ok_frame [simp]:
  "ring_ok (s\<lparr>adder := x0\<rparr>) = ring_ok s"
  "ring_ok (s\<lparr>querier := x1\<rparr>) = ring_ok s"
  "ring_ok (s\<lparr>by_phl := x2\<rparr>) = ring_ok s"
  "ring_ok (s\<lparr>by_core := x3\<rparr>) = ring_ok s"
  "ring_ok (s\<lparr>pool := x4\<rparr>) = ring_ok s"
  by (simp_all add: ring_ok_def)

lemma entries_ok_frame [simp]:
  "entries_ok (s\<lparr>adder := x0\<rparr>) = entries_ok s"
  "entries_ok (s\<lparr>by_phl := x2\<rparr>) = entries_ok s"
  "entries_ok (s\<lparr>by_core := x3\<rparr>) = entries_ok s"
  "entries_ok (s\<lparr>pool := x4\<rparr>) = entries_ok s"
  by (simp_all add: entries_ok_def)

lemma adder_ok_frame [simp]:
  "adder_ok a (s\<lparr>adder := x0\<rparr>) = adder_ok a s"
  "adder_ok a (s\<lparr>querier := x1\<rparr>) = adder_ok a s"
  "adder_ok a (s\<lparr>by_phl := x2\<rparr>) = adder_ok a s"
  "adder_ok a (s\<lparr>by_core := x3\<rparr>) = adder_ok a s"
  "adder_ok a (s\<lparr>pool := x4\<rparr>) = adder_ok a s"
  by (cases a; simp)+

lemma querier_ok_frame [simp]:
  "querier_ok q (s\<lparr>adder := x0\<rparr>) = querier_ok q s"
  "querier_ok q (s\<lparr>querier := x1\<rparr>) = querier_ok q s"
  "querier_ok q (s\<lparr>by_phl := x2\<rparr>) = querier_ok q s"
  "querier_ok q (s\<lparr>by_core := x3\<rparr>) = querier_ok q s"
  "querier_ok q (s\<lparr>pool := x4\<rparr>) = querier_ok q s"
  by (cases q; simp)+

lemma entries_ok_querier:
  "cleared q = cleared (querier s) \<Longrightarrow> entries_ok (s\<lparr>querier := q\<rparr>) = entries_ok s"
  by (simp add: entries_ok_def)

lemma add_step_inv:
  assumes inv: "rx_inv s" and st: "add_at (adder s) s = Some s'"
  shows "rx_inv s'"
proof (cases "adder s")
  case (A_done r)
  with st show ?thesis by simp
next
  case (A_rptr k w)
  then have w: "at_pos w (added s)" and rk: "ring_ok s" using inv by (simp_all add: rx_inv_def)
  have av: "unat (phl_calc_avail_wptr (core_idx (ring s)) w RING_BNDY) = RING_SIZE - 1 - (added s - taken s)"
    using rk w by (intro avail_w_pos) (simp_all add: ring_ok_def)
  show ?thesis
  proof (cases "phl_calc_avail_wptr (core_idx (ring s)) w RING_BNDY \<le> 0")
    case True
    with st A_rptr have s': "s' = s\<lparr>adder := A_done (Some RTW_PHL_STATUS_RESOURCE), by_phl := k # by_phl s\<rparr>"
      by simp
    show ?thesis unfolding s' using inv A_rptr by (simp add: rx_inv_def rx_packets_def)
  next
    case False
    then have "0 < unat (phl_calc_avail_wptr (core_idx (ring s)) w RING_BNDY)"
      by (simp add: unat_gt_0)
    with av have room: "Suc (added s) < taken s + RING_SIZE" using rk by (simp add: ring_ok_def)
    from st A_rptr False have s': "s' = s\<lparr>adder := A_write k (ring_next w)\<rparr>" by simp
    show ?thesis unfolding s' using inv A_rptr ring_next_pos [OF w] room
      by (simp add: rx_inv_def rx_packets_def)
  qed
next
  case (A_write k w)
  then have w: "unat w = Suc (added s) mod RING_SIZE" "Suc (added s) < taken s + RING_SIZE"
    and rk: "ring_ok s" and en: "entries_ok s"
    using inv by (simp_all add: rx_inv_def at_pos_def)
  from st A_write have s': "s' = (on_ring (\<lambda>r. r\<lparr>entry := (entry r)[unat w := Some k]\<rparr>) s)\<lparr>adder := A_publish k w\<rparr>"
    by simp
  have "unat w \<noteq> j mod RING_SIZE" if "taken s < j" "j \<le> added s" for j
    using pos_apart [of j "Suc (added s)"] that w by simp
  then have "entries_ok s'" using en unfolding s' by (simp add: entries_ok_def on_ring_def)
  moreover have "ring_ok s'" using rk unfolding s' by (simp add: ring_ok_def on_ring_def)
  moreover have "entry (ring s') ! unat w = Some k"
    unfolding s' using rk w(1) by (simp add: on_ring_def ring_ok_def)
  moreover have "querier_ok (querier s') s'"
    using inv unfolding s' by (cases "querier s") (simp_all add: rx_inv_def on_ring_def)
  ultimately show ?thesis using inv A_write unfolding s' by (simp add: rx_inv_def rx_packets_def on_ring_def)
next
  case (A_publish k w)
  then have w: "at_pos w (Suc (added s))" "Suc (added s) < taken s + RING_SIZE"
    "entry (ring s) ! unat w = Some k" and rk: "ring_ok s" and en: "entries_ok s"
    using inv by (simp_all add: rx_inv_def)
  define i where "i = (if w \<noteq> 0 then phl_idx (ring s) + 1 else 0)"
  have i: "i = w" unfolding i_def using pos_inc [OF _ w(1)] rk by (simp add: ring_ok_def)
  from st A_publish have s': "s' = (on_ring (\<lambda>r. r\<lparr>phl_idx := w\<rparr>) s)
      \<lparr>adder := A_done (Some RTW_PHL_STATUS_SUCCESS), log_added := log_added s @ [k]\<rparr>"
    using i by (simp add: on_ring_def i_def)
  have "entries_ok s'" unfolding s' using en w rk
    by (auto simp: entries_ok_def on_ring_def at_pos_def nth_append le_Suc_eq ring_ok_def)
  moreover have "ring_ok s'" unfolding s' using rk w by (simp add: ring_ok_def on_ring_def)
  moreover have "querier_ok (querier s') s'"
    using inv unfolding s'
    by (cases "querier s") (auto simp: rx_inv_def on_ring_def nth_append intro: le_SucI)
  moreover have "rx_packets s' = rx_packets s"
    using A_publish rk unfolding s' by (simp add: rx_packets_def on_ring_def ring_ok_def)
  ultimately show ?thesis using inv unfolding s' by (simp add: rx_inv_def on_ring_def)
qed

lemma query_step_inv:
  assumes inv: "rx_inv s" and st: "query_at (querier s) s = Some s'"
  shows "rx_inv s'"
proof (cases "querier s")
  case (Q_done r)
  with st show ?thesis by simp
next
  case (Q_rptr w)
  then obtain a where a: "taken s \<le> a" "a \<le> added s" "at_pos w a" and rk: "ring_ok s"
    using inv by (auto simp: rx_inv_def)
  have av: "unat (phl_calc_avail_rptr (core_idx (ring s)) w RING_BNDY) = a - taken s"
    using rk a by (intro avail_r_pos) (simp_all add: ring_ok_def)
  show ?thesis
  proof (cases "phl_calc_avail_rptr (core_idx (ring s)) w RING_BNDY > 0")
    case True
    then have "0 < unat (phl_calc_avail_rptr (core_idx (ring s)) w RING_BNDY)"
      by (simp add: unat_gt_0 word_gt_0)
    with av a(2) have more: "taken s < added s" by linarith
    from st Q_rptr True have s': "s' = s\<lparr>querier := Q_read (ring_next (core_idx (ring s)))\<rparr>" by simp
    have "at_pos (ring_next (core_idx (ring s))) (Suc (taken s))"
      using rk by (intro ring_next_pos) (simp add: ring_ok_def)
    then show ?thesis unfolding s' using inv Q_rptr more
      by (simp add: rx_inv_def rx_packets_def entries_ok_querier)
  next
    case False
    with st Q_rptr have s': "s' = s\<lparr>querier := Q_done None\<rparr>" by simp
    show ?thesis unfolding s' using inv Q_rptr by (simp add: rx_inv_def rx_packets_def entries_ok_querier)
  qed
next
  case (Q_read i)
  then have q: "taken s < added s" "at_pos i (Suc (taken s))" and en: "entries_ok s"
    using inv by (simp_all add: rx_inv_def)
  from st Q_read have s': "s' = s\<lparr>querier := Q_clear (entry (ring s) ! unat i) i\<rparr>" by simp
  have "entry (ring s) ! unat i = Some (log_added s ! taken s)"
    using en q Q_read by (simp add: entries_ok_def at_pos_def)
  then show ?thesis unfolding s' using inv Q_read q
    by (simp add: rx_inv_def rx_packets_def entries_ok_querier)
next
  case (Q_clear p i)
  then have q: "taken s < added s" "at_pos i (Suc (taken s))" "p = Some (log_added s ! taken s)"
    and en: "entries_ok s" and rk: "ring_ok s"
    using inv by (simp_all add: rx_inv_def)
  from st Q_clear have s': "s' = (on_ring (\<lambda>r. r\<lparr>entry := (entry r)[unat i := None]\<rparr>) s)\<lparr>querier := Q_publish p i\<rparr>"
    by simp
  have apart: "unat i \<noteq> j mod RING_SIZE" if "Suc (taken s) < j" "j < Suc (taken s) + RING_SIZE" for j
    using pos_apart [OF that] q(2) by (simp add: at_pos_def)
  have "entries_ok s'" unfolding s' using en apart rk
    by (auto simp: entries_ok_def on_ring_def ring_ok_def Q_clear Suc_lessI)
  moreover have "ring_ok s'" unfolding s' using rk by (simp add: ring_ok_def on_ring_def)
  moreover have "adder_ok (adder s') s'"
    using inv apart [of "Suc (added s)"] q(1) unfolding s'
    by (cases "adder s") (auto simp: rx_inv_def on_ring_def at_pos_def)
  ultimately show ?thesis using inv Q_clear q unfolding s' by (simp add: rx_inv_def rx_packets_def on_ring_def)
next
  case (Q_publish p i)
  then have q: "taken s < added s" "at_pos i (Suc (taken s))" "p = Some (log_added s ! taken s)"
    and en: "entries_ok s" and rk: "ring_ok s"
    using inv by (simp_all add: rx_inv_def)
  let ?k = "log_added s ! taken s"
  have "(if i \<noteq> 0 then core_idx (ring s) + 1 else 0) = i"
    using pos_inc [OF _ q(2)] rk by (simp add: ring_ok_def)
  then have i: "(if i = 0 then 0 else core_idx (ring s) + 1) = i" by (simp split: if_splits)
  from st Q_publish have s': "s' = (on_ring (\<lambda>r. r\<lparr>core_idx := i\<rparr>) s)\<lparr>querier := Q_done (Some ?k),
      by_core := ?k # by_core s, log_taken := log_taken s @ [?k]\<rparr>"
    using i q(3) by (simp add: on_ring_def)
  have "entries_ok s'" unfolding s' using en by (auto simp: entries_ok_def on_ring_def Q_publish)
  moreover have "ring_ok s'" unfolding s' using rk q(1,2)
    by (simp add: ring_ok_def on_ring_def take_Suc_conv_app_nth)
  moreover have "adder_ok (adder s') s'"
    using inv unfolding s' by (cases "adder s") (simp_all add: rx_inv_def on_ring_def)
  moreover have "drop (taken s) (log_added s) = ?k # drop (Suc (taken s)) (log_added s)"
    by (rule Cons_nth_drop_Suc [symmetric, OF q(1)])
  then have "rx_packets s' = rx_packets s"
    unfolding s' by (simp add: rx_packets_def on_ring_def)
  ultimately show ?thesis using inv unfolding s' by (simp add: rx_inv_def on_ring_def)
qed

lemma mset_remove1_add:
  assumes "k \<in> set xs"
  obtains M where "mset xs = add_mset k M" "mset (remove1 k xs) = M"
  using assms by (metis insert_DiffM mset_remove1 set_mset_mset)

lemma rx_step_inv:
  assumes inv: "rx_inv s" and st: "rx_step ev s = Some s'"
  shows "rx_inv s'"
proof (cases ev)
  case E_take_idle
  show ?thesis
  proof (cases "idle (pool s)")
    case Nil
    with st E_take_idle have "s' = s" by (simp add: rtw_phl_query_phl_rx_def)
    with inv show ?thesis by simp
  next
    case (Cons k ks)
    with st E_take_idle have s': "s' = s\<lparr>pool := (pool s)\<lparr>idle := ks, idle_cnt := idle_cnt (pool s) - 1\<rparr>,
        by_phl := k # by_phl s\<rparr>" by (simp add: rtw_phl_query_phl_rx_def)
    show ?thesis unfolding s' using inv Cons by (simp add: rx_inv_def rx_packets_def)
  qed
next
  case (E_drop k)
  with st have k: "k \<in> set (by_phl s)" and s': "s' = s\<lparr>by_phl := remove1 k (by_phl s),
      pool := phl_release_phl_rx k (pool s)\<rparr>" by (simp_all split: if_splits)
  obtain M where "mset (by_phl s) = add_mset k M" "mset (remove1 k (by_phl s)) = M"
    using mset_remove1_add [OF k] .
  then show ?thesis unfolding s' using inv
    by (simp add: rx_inv_def rx_packets_def phl_release_phl_rx_def)
next
  case (E_add k)
  with st have k: "k \<in> set (by_phl s)" and s': "s' = s\<lparr>by_phl := remove1 k (by_phl s),
      adder := A_rptr k (phl_idx (ring s))\<rparr>" and d: "adder_holds (adder s) = {#}"
    by (auto split: if_splits add_pc.splits)
  have "at_pos (phl_idx (ring s)) (added s)" using inv by (simp add: rx_inv_def ring_ok_def)
  moreover obtain M where "mset (by_phl s) = add_mset k M" "mset (remove1 k (by_phl s)) = M"
    using mset_remove1_add [OF k] .
  ultimately show ?thesis unfolding s' using inv d by (simp add: rx_inv_def rx_packets_def)
next
  case E_add_step
  with st add_step_inv [OF inv] show ?thesis by simp
next
  case E_query
  with st have s': "s' = s\<lparr>querier := Q_rptr (phl_idx (ring s))\<rparr>" and c: "\<not> cleared (querier s)"
    by (auto split: query_pc.splits)
  have "querier_ok (Q_rptr (phl_idx (ring s))) s" using inv by (auto simp: rx_inv_def ring_ok_def)
  then show ?thesis unfolding s' using inv c by (simp add: rx_inv_def rx_packets_def entries_ok_querier)
next
  case E_query_step
  with st query_step_inv [OF inv] show ?thesis by simp
next
  case (E_return k)
  with st have k: "k \<in> set (by_core s)" and s': "s' = s\<lparr>by_core := remove1 k (by_core s),
      pool := phl_release_phl_rx k (pool s)\<rparr>" by (simp_all split: if_splits)
  obtain M where "mset (by_core s) = add_mset k M" "mset (remove1 k (by_core s)) = M"
    using mset_remove1_add [OF k] .
  then show ?thesis unfolding s' using inv
    by (simp add: rx_inv_def rx_packets_def phl_release_phl_rx_def)
qed

lemma rx_reach_inv: "rx_reach s \<Longrightarrow> rx_inv s"
  by (induction rule: rx_reach.induct) (auto intro: rx_inv_init rx_step_inv)

subsection \<open>Properties\<close>

text \<open>The state used by the witnesses: one packet was added and not taken yet.\<close>

definition ex_events :: "rx_event list" where
  "ex_events = [E_take_idle, E_add 0, E_add_step, E_add_step, E_add_step, E_query, E_query_step, E_query_step]"

definition ex_path :: rx_path where
  "ex_path = \<lparr>ring = \<lparr>core_idx = 0, phl_idx = 1, entry = (replicate RING_SIZE None)[1 := Some 0]\<rparr>,
     pool = \<lparr>idle = [1..<MAX_PHL_RING_RX_PKT_NUM], idle_cnt = int MAX_PHL_RING_RX_PKT_NUM - 1\<rparr>,
     adder = A_done (Some RTW_PHL_STATUS_SUCCESS), querier = Q_clear (Some 0) 1,
     by_phl = [], by_core = [], log_added = [0], log_taken = []\<rparr>"

lemma ex_first:
  "rtw_phl_query_phl_rx \<lparr>idle = [0..<MAX_PHL_RING_RX_PKT_NUM], idle_cnt = int MAX_PHL_RING_RX_PKT_NUM\<rparr>
     = (Some 0, \<lparr>idle = [1..<MAX_PHL_RING_RX_PKT_NUM], idle_cnt = int MAX_PHL_RING_RX_PKT_NUM - 1\<rparr>)"
  unfolding rtw_phl_query_phl_rx_def
  by (subst upt_conv_Cons) (simp_all add: MAX_PHL_RING_RX_PKT_NUM_def)

lemma ring_ex_run: "rx_run ex_events rx_path_init = Some ex_path"
proof -
  have w: "phl_calc_avail_wptr 0 0 RING_BNDY \<noteq> 0" "ring_next 0 = 1"
    "(phl_calc_avail_rptr 0 1 RING_BNDY > 0) = True"
    by code_simp+
  have l: "1 < RING_SIZE" by (simp add: MAX_PHL_RX_RING_ENTRY_NUM_def)
  show ?thesis
    using l by (simp add: ex_events_def rx_path_init_def phl_alloc_recv_pkt_pool_def ex_path_def
        ex_first w on_ring_def del: upt_Suc)
qed

lemma ex_path_reached: "rx_reach ex_path"
  by (rule rx_reach_run [OF ring_ex_run rx_reach_init])

text \<open>
  C25. Under every interleaving of the task that fills the ring and the one that empties it, the
  core gets the packets in the order in which they were added, each once: what was taken is
  always a prefix of what was added. The ring holds at most 4095 packets, and a packet that the
  core has read is never NULL but the next one in that order.
\<close>

theorem ring_fifo:
  assumes "rx_reach s"
  shows "log_taken s = take (taken s) (log_added s) \<and> taken s \<le> added s \<and>
     added s - taken s \<le> 4095 \<and>
     (\<forall>p i. querier s = Q_clear p i \<or> querier s = Q_publish p i \<longrightarrow>
        taken s < added s \<and> p = Some (log_added s ! taken s))"
proof -
  have inv: "ring_ok s" "querier_ok (querier s) s"
    using rx_reach_inv [OF assms] by (simp_all add: rx_inv_def)
  then have "added s < taken s + 4096" by (simp add: ring_ok_def MAX_PHL_RX_RING_ENTRY_NUM_def)
  then have "added s - taken s \<le> 4095" by arith
  with inv show ?thesis by (auto simp: ring_ok_def)
qed

lemma ring_fifo_witness: "querier ex_path = Q_clear (Some 0) 1 \<and> log_added ex_path ! taken ex_path = 0"
proof -
  have "querier ex_path = Q_clear (Some 0) 1" by (simp add: ex_path_def)
  with ring_fifo [OF ex_path_reached] show ?thesis by auto
qed

text \<open>
  No packet is lost or owned twice: each of the 8192 packets of the pool is idle, in the
  hands of PHL, of the task that adds, in the ring, or in the hands of the core, and only in
  one of them. The counter of the pool is the length of its list, and the pool counts as idle
  exactly when nobody holds a packet.
\<close>

theorem rx_pool_conserved:
  assumes "rx_reach s"
  shows "rx_packets s = mset [0..<MAX_PHL_RING_RX_PKT_NUM] \<and>
     idle_cnt (pool s) = int (length (idle (pool s))) \<and>
     (rtw_phl_is_phl_rx_idle (pool s) \<longleftrightarrow>
        by_phl s = [] \<and> by_core s = [] \<and> adder_holds (adder s) = {#} \<and> added s = taken s)"
proof -
  have inv: "rx_packets s = mset [0..<MAX_PHL_RING_RX_PKT_NUM]"
    "idle_cnt (pool s) = int (length (idle (pool s)))" "taken s \<le> added s"
    using rx_reach_inv [OF assms] by (simp_all add: rx_inv_def ring_ok_def)
  have "size (rx_packets s) = MAX_PHL_RING_RX_PKT_NUM" unfolding inv(1) by simp
  then have "length (idle (pool s)) + length (by_phl s) + size (adder_holds (adder s)) +
      (added s - taken s) + length (by_core s) = MAX_PHL_RING_RX_PKT_NUM"
    by (simp add: rx_packets_def)
  then have "length (idle (pool s)) = MAX_PHL_RING_RX_PKT_NUM \<longleftrightarrow> length (by_phl s) = 0 \<and>
      size (adder_holds (adder s)) = 0 \<and> added s - taken s = 0 \<and> length (by_core s) = 0"
    by linarith
  then have "rtw_phl_is_phl_rx_idle (pool s) \<longleftrightarrow> length (by_phl s) = 0 \<and> size (adder_holds (adder s)) = 0 \<and>
      added s - taken s = 0 \<and> length (by_core s) = 0"
    unfolding rtw_phl_is_phl_rx_idle_def inv(2) by (simp only: of_nat_eq_iff)
  with inv show ?thesis by auto
qed

lemma rx_pool_conserved_witness: "idle_cnt (pool ex_path) = 8191 \<and> \<not> rtw_phl_is_phl_rx_idle (pool ex_path)"
proof -
  have "added ex_path \<noteq> taken ex_path" "idle_cnt (pool ex_path) = 8191"
    by (simp_all add: ex_path_def MAX_PHL_RING_RX_PKT_NUM_def)
  with rx_pool_conserved [OF ex_path_reached] show ?thesis by blast
qed

text \<open>
  The pointer arithmetic is exact: for a boundary up to 65535 the two functions give the
  numbers of filled and of free places of a ring that leaves one place free, whatever wrapped;
  in every reachable state the number of new packets is the number in the ring, and there is
  room exactly when the ring holds fewer than 4095.
\<close>

theorem ring_counts:
  assumes "unat r < unat b" "unat w < unat b" "rx_reach s"
  shows "int (unat (phl_calc_avail_rptr r w b)) = (uint w - uint r) mod uint b \<and>
     unat (phl_calc_avail_rptr r w b) + unat (phl_calc_avail_wptr r w b) = unat b - 1 \<and>
     unat (rtw_phl_query_new_rx_num (ring s)) = added s - taken s \<and>
     (phl_check_recv_ring_resource (ring s) \<longleftrightarrow> added s - taken s < 4095)"
proof -
  have rk: "ring_ok s" using rx_reach_inv [OF assms(3)] by (simp add: rx_inv_def)
  have q: "unat (rtw_phl_query_new_rx_num (ring s)) = added s - taken s"
    unfolding rtw_phl_query_new_rx_num_def using rk by (intro avail_r_pos) (simp_all add: ring_ok_def)
  have w: "unat (phl_calc_avail_wptr (core_idx (ring s)) (phl_idx (ring s)) RING_BNDY) =
      RING_SIZE - 1 - (added s - taken s)"
    using rk by (intro avail_w_pos) (simp_all add: ring_ok_def)
  have "phl_calc_avail_wptr (core_idx (ring s)) (phl_idx (ring s)) RING_BNDY \<noteq> 0 \<longleftrightarrow>
      unat (phl_calc_avail_wptr (core_idx (ring s)) (phl_idx (ring s)) RING_BNDY) \<noteq> 0"
    by (simp only: unat_eq_0)
  also have "\<dots> \<longleftrightarrow> added s - taken s < 4095"
    unfolding w MAX_PHL_RX_RING_ENTRY_NUM_def by linarith
  finally have "phl_check_recv_ring_resource (ring s) \<longleftrightarrow> added s - taken s < 4095"
    unfolding phl_check_recv_ring_resource_def .
  moreover have "int (unat (phl_calc_avail_rptr r w b)) = (uint w - uint r) mod uint b"
    using avail_rptr_unat [OF assms(1,2)] int_mod_diff [OF assms(1,2)] by (simp only: uint_nat)
  moreover have "unat (phl_calc_avail_rptr r w b) + unat (phl_calc_avail_wptr r w b) = unat b - 1"
    using avail_rptr_unat [OF assms(1,2)] avail_wptr_unat [OF assms(1,2)] assms(1,2) by auto
  ultimately show ?thesis using q by blast
qed

lemma ring_counts_witness:
  "uint (phl_calc_avail_rptr 65533 2 65535) = 4 \<and> unat (rtw_phl_query_new_rx_num (ring ex_path)) = 1"
proof -
  have "unat (65533 :: u16) < unat (65535 :: u16)" "unat (2 :: u16) < unat (65535 :: u16)" by simp_all
  from ring_counts [OF this ex_path_reached] have
    "int (unat (phl_calc_avail_rptr 65533 2 65535)) = (uint (2 :: u16) - uint (65533 :: u16)) mod uint (65535 :: u16)"
    "unat (rtw_phl_query_new_rx_num (ring ex_path)) = added ex_path - taken ex_path" by blast+
  moreover have "(uint (2 :: u16) - uint (65533 :: u16)) mod uint (65535 :: u16) = 4" by code_simp
  moreover have "added ex_path - taken ex_path = 1" by (simp add: ex_path_def)
  ultimately show ?thesis by simp
qed

end
