(* ===== verification/Buffers.thy ===== *)
theory Buffers
  imports Prelude
begin

text \<open>
  The memory of a C object: its bytes as a list, a pointer into it as an offset. An access that
  leaves the object is the value \<open>Fault\<close>.
\<close>

datatype 'a outcome = Fault | Done 'a

text \<open>No object is larger than \<open>MAX_OBJ\<close>; a copy of more bytes is a fault.\<close>

definition MAX_OBJ :: nat where "MAX_OBJ = 2147483648"

definition rd :: "bytes \<Rightarrow> nat \<Rightarrow> u8 outcome" where
  "rd m i = (if i < length m then Done (m ! i) else Fault)"

definition rd_n :: "bytes \<Rightarrow> nat \<Rightarrow> nat \<Rightarrow> bytes outcome" where
  "rd_n m i n = (if n < MAX_OBJ \<and> i + n \<le> length m then Done (take n (drop i m)) else Fault)"

definition wr_n :: "bytes \<Rightarrow> nat \<Rightarrow> bytes \<Rightarrow> bytes outcome" where
  "wr_n m i bs =
     (if i + length bs \<le> length m then Done (take i m @ bs @ drop (i + length bs) m) else Fault)"

lemma rd_append [simp]: "rd (xs @ y # ys) (length xs) = Done y"
  by (simp add: rd_def)

lemma rd_drop: "rd (drop n m) i = rd m (n + i)"
  by (auto simp: rd_def)

lemma rd_n_append:
  "length ys < MAX_OBJ \<Longrightarrow> rd_n (xs @ ys @ zs) (length xs) (length ys) = Done ys"
  by (simp add: rd_n_def)

lemma wr_n_append:
  "length old = length new \<Longrightarrow> wr_n (xs @ old @ ys) (length xs) new = Done (xs @ new @ ys)"
  by (simp add: wr_n_def)

lemma wr_n_append_at:
  "k = length xs \<Longrightarrow> length old = length new \<Longrightarrow> wr_n (xs @ old @ ys) k new = Done (xs @ new @ ys)"
  by (simp add: wr_n_append)

text \<open>Lengths rounded up to a multiple of eight, \<open>_ALIGN\<close>.\<close>

definition align8 :: "nat \<Rightarrow> nat" where "align8 n = (n + 7) div 8 * 8"

lemma align8_ge: "n \<le> align8 n" "align8 n < n + 8"
  unfolding align8_def by presburger+

lemma align8_dvd [simp]: "8 dvd align8 n" by (simp add: align8_def)

lemma align8_mult: "8 dvd b \<Longrightarrow> align8 (b + n) = b + align8 n"
  unfolding align8_def by presburger

lemma align8_0 [simp]: "align8 0 = 0" by (simp add: align8_def)

lemma align8_id: "8 dvd n \<Longrightarrow> align8 n = n"
  unfolding align8_def by (auto simp: dvd_def)

lemma align8_le: "n \<le> m \<Longrightarrow> 8 dvd m \<Longrightarrow> align8 n \<le> m"
  unfolding align8_def by (auto simp: dvd_def)

end
