(* ===== verification/Ies.thy ===== *)
theory Ies
  imports Buffers
begin

text \<open>
  Information elements, \<^verbatim>\<open>core/rtw_ieee80211.c\<close>: writing, searching, replacing and removing
  elements in a buffer, and the search for an attribute inside a P2P, WFD or WPS element.

  A buffer is the list of its bytes; a pointer into it is an offset. Every read and write of
  the code is checked against the buffer: an access outside it is the value \<open>Fault\<close>. A loop
  that may run forever is a \<open>partial_function\<close>, whose value is then \<open>None\<close>.
\<close>

text \<open>The difference of two lengths as \<open>uint\<close>.\<close>

definition sub32 :: "nat \<Rightarrow> nat \<Rightarrow> nat" where
  "sub32 a b = nat ((int a - int b) mod 4294967296)"

definition WLAN_EID_VENDOR_SPECIFIC :: u8 where "WLAN_EID_VENDOR_SPECIFIC = 221"

subsection \<open>Writing an element\<close>

text \<open>\<open>rtw_set_ie\<close>; the result is the buffer, the offset behind the element and its length.\<close>

definition rtw_set_ie :: "bytes \<Rightarrow> nat \<Rightarrow> int \<Rightarrow> bytes \<Rightarrow> (bytes \<times> nat \<times> nat) outcome" where
  "rtw_set_ie m p index source =
     (case wr_n m p [word_of_int index] of
        Fault \<Rightarrow> Fault
      | Done m1 \<Rightarrow>
          (case wr_n m1 (p + 1) [of_nat (length source)] of
             Fault \<Rightarrow> Fault
           | Done m2 \<Rightarrow>
               (case (if length source > 0 then wr_n m2 (p + 2) source else Done m2) of
                  Fault \<Rightarrow> Fault
                | Done m3 \<Rightarrow> Done (m3, p + length source + 2, length source + 2))))"

subsection \<open>Searching an element\<close>

text \<open>\<open>rtw_get_ie\<close> compares the byte with an \<open>int\<close>; the second result is \<open>*len\<close>.\<close>

function get_ie_loop :: "bytes \<Rightarrow> int \<Rightarrow> nat \<Rightarrow> nat \<Rightarrow> (nat option \<times> nat) outcome" where
  "get_ie_loop m index limit i =
     (case rd m i of
        Fault \<Rightarrow> Fault
      | Done b \<Rightarrow>
          (case rd m (i + 1) of
             Fault \<Rightarrow> Fault
           | Done l \<Rightarrow>
               if uint b = index then Done (Some i, unat l)
               else if i + (unat l + 2) \<ge> limit then Done (None, 0)
               else get_ie_loop m index limit (i + (unat l + 2))))"
  by pat_completeness auto
termination by (relation "measure (\<lambda>(m, index, limit, i). limit - i)") auto

declare get_ie_loop.simps [simp del]

definition rtw_get_ie :: "bytes \<Rightarrow> int \<Rightarrow> int \<Rightarrow> (nat option \<times> nat option) outcome" where
  "rtw_get_ie m index limit =
     (if limit < 1 then Done (None, None)
      else (case get_ie_loop m index (nat limit) 0 of
              Fault \<Rightarrow> Fault
            | Done (r, l) \<Rightarrow> Done (r, Some l)))"

text \<open>
  \<open>rtw_get_ie_ex\<close>: the condition on the element at \<open>cnt\<close>, the loop, and the optional copy of the
  whole element. The result is the offset, \<open>*ielen\<close> and the copy.
\<close>

definition ie_matches :: "bytes \<Rightarrow> nat \<Rightarrow> u8 \<Rightarrow> bytes option \<Rightarrow> u8 \<Rightarrow> bool outcome" where
  "ie_matches m cnt eid oui b =
     (if eid \<noteq> b then Done False
      else (case oui of
              None \<Rightarrow> Done True
            | Some x \<Rightarrow> (case rd_n m (cnt + 2) (length x) of Fault \<Rightarrow> Fault | Done y \<Rightarrow> Done (y = x))))"

function get_ie_ex_loop :: "bytes \<Rightarrow> nat \<Rightarrow> u8 \<Rightarrow> bytes option \<Rightarrow> nat \<Rightarrow> (nat option \<times> nat) outcome" where
  "get_ie_ex_loop m in_len eid oui cnt =
     (if cnt < in_len
      then (case rd m cnt of
              Fault \<Rightarrow> Fault
            | Done b \<Rightarrow>
                (case ie_matches m cnt eid oui b of
                   Fault \<Rightarrow> Fault
                 | Done hit \<Rightarrow>
                     (case rd m (cnt + 1) of
                        Fault \<Rightarrow> Fault
                      | Done l \<Rightarrow>
                          if hit then Done (Some cnt, unat l + 2)
                          else get_ie_ex_loop m in_len eid oui (cnt + (unat l + 2)))))
      else Done (None, 0))"
  by pat_completeness auto
termination by (relation "measure (\<lambda>(m, in_len, eid, oui, cnt). in_len - cnt)") auto

declare get_ie_ex_loop.simps [simp del]

definition rtw_get_ie_ex ::
  "bytes option \<Rightarrow> nat \<Rightarrow> u8 \<Rightarrow> bytes option \<Rightarrow> bool \<Rightarrow> (nat option \<times> nat \<times> bytes) outcome" where
  "rtw_get_ie_ex in_ie in_len eid oui copy =
     (case in_ie of
        None \<Rightarrow> Done (None, 0, [])
      | Some m \<Rightarrow>
          if in_len = 0 then Done (None, 0, [])
          else (case get_ie_ex_loop m in_len eid oui 0 of
                  Fault \<Rightarrow> Fault
                | Done (None, l) \<Rightarrow> Done (None, l, [])
                | Done (Some p, l) \<Rightarrow>
                    if copy then (case rd_n m p l of Fault \<Rightarrow> Fault | Done bs \<Rightarrow> Done (Some p, l, bs))
                    else Done (Some p, l, [])))"

subsection \<open>Replacing and removing elements\<close>

text \<open>
  \<open>rtw_ies_update_ie\<close>: the result is whether it succeeded, the buffer and the new length;
  \<open>alloc\<close> tells whether the memory for the backup is available.
\<close>

definition write_content ::
  "bytes \<Rightarrow> nat \<Rightarrow> bytes \<Rightarrow> bytes outcome" where
  "write_content m p content =
     (case wr_n m (p + 2) content of
        Fault \<Rightarrow> Fault
      | Done m1 \<Rightarrow> wr_n m1 (p + 1) [of_nat (length content)])"

definition rtw_ies_update_ie ::
  "bool \<Rightarrow> bytes \<Rightarrow> nat \<Rightarrow> nat \<Rightarrow> u8 \<Rightarrow> bytes \<Rightarrow> (bool \<times> bytes \<times> nat) outcome" where
  "rtw_ies_update_ie alloc ies ies_len ies_offset eid content =
     (if ies_len = 0 \<or> ies_len \<le> ies_offset then Done (False, ies, ies_len)
      else (let search_len = ies_len - ies_offset in
        (case rtw_get_ie (drop ies_offset ies) (uint eid) (int search_len) of
           Fault \<Rightarrow> Fault
         | Done (Some t, Some l) \<Rightarrow>
             if l = 0 then Done (False, ies, ies_len)
             else (let p = ies_offset + t in
               if l = length content
               then (case write_content ies p content of Fault \<Rightarrow> Fault | Done m \<Rightarrow> Done (True, m, ies_len))
               else if \<not> alloc then Done (False, ies, ies_len)
               else (case rd_n ies (p + 2 + l) (sub32 search_len (t + 2 + l)) of
                       Fault \<Rightarrow> Fault
                     | Done backup \<Rightarrow>
                         (case write_content ies p content of
                            Fault \<Rightarrow> Fault
                          | Done m \<Rightarrow>
                              (case wr_n m (p + 2 + length content) backup of
                                 Fault \<Rightarrow> Fault
                               | Done m' \<Rightarrow> Done (True, m', ies_len + length content - l)))))
         | _ \<Rightarrow> Done (False, ies, ies_len))))"

lemma get_ie_ex_loop_hit:
  "get_ie_ex_loop m n eid oui c = Done (Some p, l) \<Longrightarrow> p < n \<and> 2 \<le> l \<and> l \<le> 257"
proof (induction m n eid oui c rule: get_ie_ex_loop.induct)
  case (1 m n eid oui c)
  show ?case
  proof (cases "c < n \<and> rd m c \<noteq> Fault \<and> (\<exists>b. rd m c = Done b \<and> ie_matches m c eid oui b \<noteq> Fault) \<and> rd m (c + 1) \<noteq> Fault")
    case False
    with 1(2) show ?thesis by (subst (asm) get_ie_ex_loop.simps) (auto split: if_splits outcome.splits)
  next
    case True
    then obtain b hit l' where b: "rd m c = Done b" "ie_matches m c eid oui b = Done hit" "rd m (c + 1) = Done l'"
      by (cases "rd m c"; cases "rd m (c + 1)"; auto elim: outcome.exhaust) (metis outcome.exhaust)
    have u: "unat l' \<le> 255" using unat_bound [of l'] by simp
    show ?thesis
    proof (cases hit)
      case True
      with b 1(2) \<open>c < n \<and> _\<close> u show ?thesis by (subst (asm) get_ie_ex_loop.simps) auto
    next
      case False
      with b 1(2) \<open>c < n \<and> _\<close> have "get_ie_ex_loop m n eid oui (c + (unat l' + 2)) = Done (Some p, l)"
        by (subst (asm) get_ie_ex_loop.simps) auto
      with 1(1) [OF _ b False] True show ?thesis by blast
    qed
  qed
qed

text \<open>
  \<open>rtw_ies_remove_ie\<close>: \<open>base\<close> is the pointer \<open>start\<close>; each round removes the first match behind it.
\<close>

function remove_ie_loop ::
  "u8 \<Rightarrow> bytes option \<Rightarrow> bool \<Rightarrow> bytes \<Rightarrow> nat \<Rightarrow> nat \<Rightarrow> nat \<Rightarrow> (bool \<times> bytes \<times> nat) outcome" where
  "remove_ie_loop eid oui ret m base search_len ies_len =
     (case rtw_get_ie_ex (Some (drop base m)) search_len eid oui False of
        Fault \<Rightarrow> Fault
      | Done (None, _, _) \<Rightarrow> Done (ret, m, ies_len)
      | Done (Some t, l, _) \<Rightarrow>
          (let remain_len = sub32 search_len (t + l) in
           case rd_n m (base + t + l) remain_len of
             Fault \<Rightarrow> Fault
           | Done remain \<Rightarrow>
               (case wr_n m (base + t) remain of
                  Fault \<Rightarrow> Fault
                | Done m' \<Rightarrow> remove_ie_loop eid oui True m' (base + t) remain_len (ies_len - l))))"
  by pat_completeness auto

lemma sub32_copy:
  assumes "t < n" "2 \<le> l" "l \<le> 257" "sub32 n (t + l) < MAX_OBJ"
  shows "sub32 n (t + l) < n"
proof (cases "t + l \<le> n")
  case True
  then have "(int n - int (t + l)) mod 4294967296 \<le> int n - int (t + l)"
    by (intro zmod_le_nonneg_dividend) simp
  then show ?thesis using assms(1,2) True unfolding sub32_def by linarith
next
  case False
  then have "(int n - int (t + l) + 4294967296) mod 4294967296 = int n - int (t + l) + 4294967296"
    using assms(1,3) by (intro mod_pos_pos_trivial) auto
  then have "(int n - int (t + l)) mod 4294967296 = int n - int (t + l) + 4294967296" by simp
  then have "sub32 n (t + l) \<ge> MAX_OBJ" using assms(1,3) unfolding sub32_def MAX_OBJ_def by linarith
  with assms(4) show ?thesis by simp
qed

lemma remove_decreases:
  assumes "rtw_get_ie_ex (Some d) n eid oui False = Done (Some t, l, bs)"
    and "rd_n m i (sub32 n (t + l)) = Done r"
  shows "sub32 n (t + l) < n"
proof -
  have "get_ie_ex_loop d n eid oui 0 = Done (Some t, l)"
    using assms(1) by (auto simp: rtw_get_ie_ex_def split: if_splits outcome.splits option.splits)
  moreover have "sub32 n (t + l) < MAX_OBJ" using assms(2) by (simp add: rd_n_def split: if_splits)
  ultimately show ?thesis using sub32_copy get_ie_ex_loop_hit by blast
qed

termination remove_ie_loop
  by (relation "measure (\<lambda>(eid, oui, ret, m, base, search_len, ies_len). search_len)")
    (auto intro: remove_decreases)

declare remove_ie_loop.simps [simp del]

definition rtw_ies_remove_ie ::
  "bytes \<Rightarrow> nat \<Rightarrow> nat \<Rightarrow> u8 \<Rightarrow> bytes option \<Rightarrow> (bool \<times> bytes \<times> nat) outcome" where
  "rtw_ies_remove_ie ies ies_len offset eid oui =
     (if ies_len \<le> offset then Done (False, ies, ies_len)
      else remove_ie_loop eid oui False ies offset (ies_len - offset) ies_len)"

subsection \<open>Attributes\<close>

definition RTW_GET_LE16 :: "bytes \<Rightarrow> u16" where
  "RTW_GET_LE16 a = push_bit 8 (ucast (a ! 1)) OR ucast (a ! 0)"

definition RTW_GET_BE16 :: "bytes \<Rightarrow> u16" where
  "RTW_GET_BE16 a = push_bit 8 (ucast (a ! 0)) OR ucast (a ! 1)"

definition P2P_OUI :: bytes where "P2P_OUI = [0x50, 0x6F, 0x9A, 0x09]"
definition WFD_OUI :: bytes where "WFD_OUI = [0x50, 0x6F, 0x9A, 0x0A]"
definition WPS_OUI :: bytes where "WPS_OUI = [0x00, 0x50, 0xF2, 0x04]"

text \<open>
  The loop of \<open>rtw_get_p2p_attr\<close> and \<open>rtw_get_wfd_attr\<close>, which differ in the order of the bytes
  of the length only; \<open>attr_len\<close> is a \<open>u16\<close>. The result is the offset and \<open>*len_attr\<close>.
\<close>

partial_function (option) attr_loop ::
  "(bytes \<Rightarrow> u16) \<Rightarrow> bytes \<Rightarrow> nat \<Rightarrow> u8 \<Rightarrow> nat \<Rightarrow> (nat option \<times> nat) outcome option" where
  "attr_loop get16 ie ielen target pos =
     (if pos + 3 \<le> ielen
      then (case rd ie pos of
              Fault \<Rightarrow> Some Fault
            | Done attr_id \<Rightarrow>
                (case rd_n ie (pos + 1) 2 of
                   Fault \<Rightarrow> Some Fault
                 | Done bs \<Rightarrow>
                     (if pos + unat (get16 bs + 3) > ielen then Some (Done (None, 0))
                      else if attr_id = target then Some (Done (Some pos, unat (get16 bs + 3)))
                      else attr_loop get16 ie ielen target (pos + unat (get16 bs + 3)))))
      else Some (Done (None, 0)))"

definition get_attr ::
  "(bytes \<Rightarrow> u16) \<Rightarrow> bytes \<Rightarrow> bytes option \<Rightarrow> nat \<Rightarrow> u8 \<Rightarrow> (nat option \<times> nat) outcome option" where
  "get_attr get16 oui ie ielen target =
     (case ie of
        None \<Rightarrow> Some (Done (None, 0))
      | Some m \<Rightarrow>
          if ielen \<le> 6 then Some (Done (None, 0))
          else (case rd m 0 of
                  Fault \<Rightarrow> Some Fault
                | Done b \<Rightarrow>
                    if b \<noteq> WLAN_EID_VENDOR_SPECIFIC then Some (Done (None, 0))
                    else (case rd_n m 2 4 of
                            Fault \<Rightarrow> Some Fault
                          | Done x \<Rightarrow> if x \<noteq> oui then Some (Done (None, 0))
                                      else attr_loop get16 m ielen target 6)))"

definition rtw_get_p2p_attr :: "bytes option \<Rightarrow> nat \<Rightarrow> u8 \<Rightarrow> (nat option \<times> nat) outcome option" where
  "rtw_get_p2p_attr = get_attr RTW_GET_LE16 P2P_OUI"

definition rtw_get_wfd_attr :: "bytes option \<Rightarrow> nat \<Rightarrow> u8 \<Rightarrow> (nat option \<times> nat) outcome option" where
  "rtw_get_wfd_attr = get_attr RTW_GET_BE16 WFD_OUI"

text \<open>\<open>rtw_get_wps_attr\<close>: no length is compared with the end of the element.\<close>

partial_function (option) wps_attr_loop ::
  "bytes \<Rightarrow> nat \<Rightarrow> u16 \<Rightarrow> nat \<Rightarrow> (nat option \<times> nat) outcome option" where
  "wps_attr_loop ie ielen target pos =
     (if pos < ielen
      then (case rd_n ie pos 2 of
              Fault \<Rightarrow> Some Fault
            | Done ids \<Rightarrow>
                (case rd_n ie (pos + 2) 2 of
                   Fault \<Rightarrow> Some Fault
                 | Done bs \<Rightarrow>
                     (if RTW_GET_BE16 ids = target then Some (Done (Some pos, unat (RTW_GET_BE16 bs + 4)))
                      else wps_attr_loop ie ielen target (pos + unat (RTW_GET_BE16 bs + 4)))))
      else Some (Done (None, 0)))"

definition rtw_get_wps_attr :: "bytes \<Rightarrow> nat \<Rightarrow> u16 \<Rightarrow> (nat option \<times> nat) outcome option" where
  "rtw_get_wps_attr ie ielen target =
     (case rd ie 0 of
        Fault \<Rightarrow> Some Fault
      | Done b \<Rightarrow>
          if b \<noteq> WLAN_EID_VENDOR_SPECIFIC then Some (Done (None, 0))
          else (case rd_n ie 2 4 of
                  Fault \<Rightarrow> Some Fault
                | Done x \<Rightarrow> if x \<noteq> WPS_OUI then Some (Done (None, 0))
                            else wps_attr_loop ie ielen target 6))"

text \<open>
  \<open>rtw_set_p2p_attr_content\<close> writes an attribute with its length in little-endian order; the
  result is the buffer and the length of the attribute.
\<close>

definition rtw_set_p2p_attr_content :: "bytes \<Rightarrow> nat \<Rightarrow> u8 \<Rightarrow> bytes \<Rightarrow> (bytes \<times> nat) outcome" where
  "rtw_set_p2p_attr_content m p attr_id content =
     (let n = of_nat (length content) :: u16 in
      case wr_n m p [attr_id] of
        Fault \<Rightarrow> Fault
      | Done m1 \<Rightarrow>
          (case wr_n m1 (p + 1) [ucast n, ucast (drop_bit 8 n)] of
             Fault \<Rightarrow> Fault
           | Done m2 \<Rightarrow>
               (case wr_n m2 (p + 3) content of
                  Fault \<Rightarrow> Fault
                | Done m3 \<Rightarrow> Done (m3, length content + 3))))"

text \<open>
  The search for the vendor element of one of the three kinds, \<open>rtw_get_p2p_ie\<close>,
  \<open>rtw_get_wfd_ie\<close> and \<open>rtw_get_wps_ie\<close> without a buffer for a copy: all three have this loop.
\<close>

definition MAX_IE_SZ :: nat where "MAX_IE_SZ = 768"

function vendor_ie_loop :: "bytes \<Rightarrow> nat \<Rightarrow> bytes \<Rightarrow> nat \<Rightarrow> (nat option \<times> nat) outcome" where
  "vendor_ie_loop m in_len oui cnt =
     (if cnt + 1 + 4 < in_len
      then (case rd m cnt of
              Fault \<Rightarrow> Fault
            | Done eid \<Rightarrow>
                if cnt + 1 + 4 \<ge> MAX_IE_SZ then Done (None, 0)
                else (case ie_matches m cnt eid (Some oui) WLAN_EID_VENDOR_SPECIFIC of
                        Fault \<Rightarrow> Fault
                      | Done hit \<Rightarrow>
                          (case rd m (cnt + 1) of
                             Fault \<Rightarrow> Fault
                           | Done l \<Rightarrow>
                               if hit then Done (Some cnt, unat l + 2)
                               else vendor_ie_loop m in_len oui (cnt + (unat l + 2)))))
      else Done (None, 0))"
  by pat_completeness auto
termination by (relation "measure (\<lambda>(m, in_len, oui, cnt). in_len - cnt)") auto

declare vendor_ie_loop.simps [simp del]

definition rtw_get_p2p_ie :: "bytes option \<Rightarrow> int \<Rightarrow> (nat option \<times> nat) outcome" where
  "rtw_get_p2p_ie in_ie in_len =
     (case in_ie of
        None \<Rightarrow> Done (None, 0)
      | Some m \<Rightarrow> if in_len \<le> 0 then Done (None, 0) else vendor_ie_loop m (nat in_len) P2P_OUI 0)"

definition rtw_get_wfd_ie :: "bytes option \<Rightarrow> int \<Rightarrow> (nat option \<times> nat) outcome" where
  "rtw_get_wfd_ie in_ie in_len =
     (case in_ie of
        None \<Rightarrow> Done (None, 0)
      | Some m \<Rightarrow> if in_len \<le> 0 then Done (None, 0) else vendor_ie_loop m (nat in_len) WFD_OUI 0)"

definition rtw_get_wps_ie :: "bytes option \<Rightarrow> nat \<Rightarrow> (nat option \<times> nat) outcome" where
  "rtw_get_wps_ie in_ie in_len =
     (case in_ie of
        None \<Rightarrow> Done (None, 0)
      | Some m \<Rightarrow> if in_len = 0 then Done (None, 0) else vendor_ie_loop m in_len WPS_OUI 0)"

end
