(* ===== verification/IesProps.thy ===== *)
theory IesProps
  imports Ies
begin

text \<open>
  The properties of the element functions. A well-formed list of elements is the encoding of a
  list of identifiers with their contents; the functions of the code are compared with the list
  functions they stand for, and with the bounds of the buffers they are given.
\<close>

subsection \<open>Reading and writing parts of a buffer\<close>

subsection \<open>Encoded elements\<close>

type_synonym element = "u8 \<times> bytes"

definition enc_ie :: "element \<Rightarrow> bytes" where
  "enc_ie e = fst e # of_nat (length (snd e)) # snd e"

definition enc :: "element list \<Rightarrow> bytes" where
  "enc es = concat (map enc_ie es)"

definition wf_ies :: "element list \<Rightarrow> bool" where
  "wf_ies es \<longleftrightarrow> (\<forall>e \<in> set es. length (snd e) < 256)"

text \<open>Offset and length of the content of the first element with \<open>P\<close>.\<close>

fun ie_pos :: "(element \<Rightarrow> bool) \<Rightarrow> element list \<Rightarrow> (nat \<times> nat) option" where
  "ie_pos P [] = None"
| "ie_pos P (e # es) =
     (if P e then Some (0, length (snd e))
      else map_option (\<lambda>(k, l). (length (enc_ie e) + k, l)) (ie_pos P es))"

lemma enc_simps [simp]: "enc [] = []" "enc (e # es) = enc_ie e @ enc es" "enc (es @ fs) = enc es @ enc fs"
  by (simp_all add: enc_def)

lemma length_enc_ie [simp]: "length (enc_ie e) = length (snd e) + 2"
  by (simp add: enc_ie_def)

lemma wf_ies_Cons [simp]: "wf_ies (e # es) \<longleftrightarrow> length (snd e) < 256 \<and> wf_ies es"
  by (simp add: wf_ies_def)

lemma unat_len: "n < 256 \<Longrightarrow> unat (of_nat n :: u8) = n"
  by (simp add: unsigned_of_nat take_bit_nat_eq_self)

lemma rd_element:
  assumes "length (snd e) < 256" "m = pre @ enc_ie e @ rest"
  shows "rd m (length pre) = Done (fst e)" "rd m (Suc (length pre)) = Done (of_nat (length (snd e)))"
  using assms by (simp_all add: enc_ie_def rd_def nth_append)

lemma get_ie_loop_enc:
  assumes "wf_ies es" "es \<noteq> []" "m = pre @ enc es @ rest"
  shows "get_ie_loop m (uint eid) (length pre + length (enc es)) (length pre) =
     Done (case ie_pos (\<lambda>e. fst e = eid) es of
             None \<Rightarrow> (None, 0) | Some (k, l) \<Rightarrow> (Some (length pre + k), l))"
  using assms
proof (induction es arbitrary: pre)
  case Nil
  then show ?case by simp
next
  case (Cons e es)
  have r: "rd m (length pre) = Done (fst e)" "rd m (Suc (length pre)) = Done (of_nat (length (snd e)))"
    using rd_element [of e m pre "enc es @ rest"] Cons.prems by simp_all
  have u: "unat (of_nat (length (snd e)) :: u8) = length (snd e)" using Cons.prems(1) by (intro unat_len) simp
  show ?case
  proof (cases "fst e = eid \<or> es = []")
    case True
    then show ?thesis using r u by (subst get_ie_loop.simps) (auto simp: uint_word_of_int_eq [symmetric] word_uint_eq_iff)
  next
    case False
    then have "enc es \<noteq> []" by (cases es) (auto simp: enc_ie_def)
    then have lt: "\<not> length pre + (length (snd e) + 2) \<ge> length pre + length (enc (e # es))" by simp
    have ih: "get_ie_loop m (uint eid) (length (pre @ enc_ie e) + length (enc es)) (length (pre @ enc_ie e)) =
        Done (case ie_pos (\<lambda>e. fst e = eid) es of None \<Rightarrow> (None, 0)
              | Some (k, l) \<Rightarrow> (Some (length (pre @ enc_ie e) + k), l))"
      using False Cons.prems by (intro Cons.IH) simp_all
    have "uint (fst e) \<noteq> uint eid" using False by (simp add: word_uint_eq_iff)
    then have "get_ie_loop m (uint eid) (length pre + length (enc (e # es))) (length pre) =
        get_ie_loop m (uint eid) (length pre + length (enc (e # es))) (length pre + (length (snd e) + 2))"
      using r u lt by (subst get_ie_loop.simps) simp
    then show ?thesis using ih False by (simp add: ac_simps split: option.split)
  qed
qed

lemma get_ie_loop_bounded:
  "i < limit \<Longrightarrow> limit < length m \<Longrightarrow>
     \<exists>r l. get_ie_loop m index limit i = Done (r, l) \<and> (\<forall>p. r = Some p \<longrightarrow> p < limit \<and> uint (m ! p) = index \<and> l = unat (m ! (p + 1)))"
proof (induction m index limit i rule: get_ie_loop.induct)
  case (1 m index limit i)
  have r: "rd m i = Done (m ! i)" "rd m (i + 1) = Done (m ! (i + 1))" using 1(2,3) by (simp_all add: rd_def)
  show ?case
  proof (cases "uint (m ! i) = index \<or> i + (unat (m ! (i + 1)) + 2) \<ge> limit")
    case True
    then show ?thesis using r 1(2) by (subst get_ie_loop.simps) auto
  next
    case False
    then have "\<not> limit \<le> i + (unat (m ! (i + 1)) + 2)" by blast
    moreover from this have "get_ie_loop m index limit i = get_ie_loop m index limit (i + (unat (m ! (i + 1)) + 2))"
      using r False by (subst get_ie_loop.simps) simp
    ultimately show ?thesis using 1(1) [OF r] False 1(3) by simp
  qed
qed

definition ie_hit :: "u8 \<Rightarrow> bytes option \<Rightarrow> element \<Rightarrow> bool" where
  "ie_hit eid oui e \<longleftrightarrow> fst e = eid \<and> (case oui of None \<Rightarrow> True | Some x \<Rightarrow> take (length x) (snd e) = x)"

text \<open>Every element that is compared with the OUI is long enough for it.\<close>

definition oui_fit :: "u8 \<Rightarrow> bytes option \<Rightarrow> element \<Rightarrow> bool" where
  "oui_fit eid oui e \<longleftrightarrow>
     (case oui of None \<Rightarrow> True | Some x \<Rightarrow> fst e = eid \<longrightarrow> length x \<le> length (snd e))"

definition oui_fits :: "u8 \<Rightarrow> bytes option \<Rightarrow> element list \<Rightarrow> bool" where
  "oui_fits eid oui es \<longleftrightarrow> (\<forall>e \<in> set es. oui_fit eid oui e)"

lemma oui_fits_simps [simp]:
  "oui_fits eid oui []"
  "oui_fits eid oui (e # es) \<longleftrightarrow> oui_fit eid oui e \<and> oui_fits eid oui es"
  "oui_fits eid oui (es @ fs) \<longleftrightarrow> oui_fits eid oui es \<and> oui_fits eid oui fs"
  by (auto simp: oui_fits_def)

lemma wf_ies_append [simp]: "wf_ies (es @ fs) \<longleftrightarrow> wf_ies es \<and> wf_ies fs"
  by (auto simp: wf_ies_def)

lemma ie_matches_element:
  assumes "length (snd e) < 256" "oui_fit eid oui e" "m = pre @ enc_ie e @ rest"
  shows "ie_matches m (length pre) eid oui (fst e) = Done (ie_hit eid oui e)"
proof (cases oui)
  case None
  then show ?thesis by (auto simp: ie_matches_def ie_hit_def)
next
  case (Some x)
  show ?thesis
  proof (cases "fst e = eid")
    case True
    then have lx: "length x \<le> length (snd e)" using assms(2) Some by (simp add: oui_fit_def)
    then have "rd_n m (length pre + 2) (length x) = Done (take (length x) (snd e))"
      using assms(1,3) by (simp add: rd_n_def enc_ie_def MAX_OBJ_def)
    then show ?thesis using True Some by (simp add: ie_matches_def ie_hit_def)
  qed (auto simp: ie_matches_def ie_hit_def)
qed

lemma get_ie_ex_loop_enc:
  assumes "wf_ies es" "oui_fits eid oui es" "m = pre @ enc es @ rest"
  shows "get_ie_ex_loop m (length pre + length (enc es)) eid oui (length pre) =
     Done (case ie_pos (ie_hit eid oui) es of
             None \<Rightarrow> (None, 0) | Some (k, l) \<Rightarrow> (Some (length pre + k), l + 2))"
  using assms
proof (induction es arbitrary: pre)
  case Nil
  then show ?case by (subst get_ie_ex_loop.simps) simp
next
  case (Cons e es)
  have m: "m = pre @ enc_ie e @ (enc es @ rest)" using Cons.prems(3) by simp
  have le: "length (snd e) < 256" using Cons.prems(1) by simp
  have r: "rd m (length pre) = Done (fst e)" "rd m (Suc (length pre)) = Done (of_nat (length (snd e)))"
    using rd_element [OF le m] by simp_all
  have u: "unat (of_nat (length (snd e)) :: u8) = length (snd e)" using le by (rule unat_len)
  have h: "ie_matches m (length pre) eid oui (fst e) = Done (ie_hit eid oui e)"
    using Cons.prems(2) by (intro ie_matches_element [OF le _ m]) simp
  show ?case
  proof (cases "ie_hit eid oui e")
    case True
    then show ?thesis using r u h by (subst get_ie_ex_loop.simps) simp
  next
    case False
    have "get_ie_ex_loop m (length pre + length (enc (e # es))) eid oui (length pre) =
        get_ie_ex_loop m (length pre + length (enc (e # es))) eid oui (length pre + (length (snd e) + 2))"
      using r u h False by (subst get_ie_ex_loop.simps) simp
    moreover have "get_ie_ex_loop m (length (pre @ enc_ie e) + length (enc es)) eid oui (length (pre @ enc_ie e)) =
        Done (case ie_pos (ie_hit eid oui) es of None \<Rightarrow> (None, 0)
              | Some (k, l) \<Rightarrow> (Some (length (pre @ enc_ie e) + k), l + 2))"
      using Cons.prems by (intro Cons.IH) simp_all
    ultimately show ?thesis using False by (simp add: ac_simps split: option.split)
  qed
qed

lemma get_ie_ex_enc:
  assumes "wf_ies es" "oui_fits eid oui es"
  shows "rtw_get_ie_ex (Some (enc es @ rest)) (length (enc es)) eid oui False =
     Done (case ie_pos (ie_hit eid oui) es of
             None \<Rightarrow> (None, 0, []) | Some (k, l) \<Rightarrow> (Some k, l + 2, []))"
proof (cases "enc es = []")
  case True
  then have "es = []" by (cases es) (auto simp: enc_ie_def)
  then show ?thesis by (simp add: rtw_get_ie_ex_def)
next
  case False
  have "get_ie_ex_loop (enc es @ rest) (length (enc es)) eid oui 0 =
     Done (case ie_pos (ie_hit eid oui) es of None \<Rightarrow> (None, 0) | Some (k, l) \<Rightarrow> (Some k, l + 2))"
    using get_ie_ex_loop_enc [OF assms, of "enc es @ rest" "[]" rest] by (simp only: list.size append_Nil add_0)
  then show ?thesis using False
    by (cases "ie_pos (ie_hit eid oui) es") (simp_all add: rtw_get_ie_ex_def split: prod.split)
qed

lemma ie_pos_None: "ie_pos P es = None \<longleftrightarrow> (\<forall>e \<in> set es. \<not> P e)"
  by (induction es) auto

lemma ie_pos_Some:
  "ie_pos P es = Some (k, l) \<Longrightarrow> \<exists>as e bs. es = as @ e # bs \<and> (\<forall>a \<in> set as. \<not> P a) \<and> P e \<and>
     k = length (enc as) \<and> l = length (snd e)"
proof (induction es arbitrary: k)
  case Nil
  then show ?case by simp
next
  case (Cons x xs)
  show ?case
  proof (cases "P x")
    case True
    with Cons.prems show ?thesis by (intro exI [of _ "[]"]) auto
  next
    case False
    with Cons.prems obtain k' where k': "ie_pos P xs = Some (k', l)" "k = length (enc_ie x) + k'"
      by (auto split: option.splits)
    from Cons.IH [OF k'(1)] obtain as e bs where "xs = as @ e # bs" "\<forall>a \<in> set as. \<not> P a" "P e"
      "k' = length (enc as)" "l = length (snd e)" by blast
    with False k' show ?thesis by (intro exI [of _ "x # as"]) auto
  qed
qed

lemma sub32_exact: "b \<le> a \<Longrightarrow> a < MAX_OBJ \<Longrightarrow> sub32 a b = a - b"
  by (simp add: sub32_def MAX_OBJ_def nat_minus_as_int)

lemma length_enc_filter: "length (enc (filter Q es)) \<le> length (enc es)"
  by (induction es) auto

lemma remove_ie_loop_enc:
  assumes "wf_ies es" "oui_fits eid oui es" "m = pre @ enc es @ rest" "length m < MAX_OBJ"
  shows "\<exists>rest'. remove_ie_loop eid oui ret m (length pre) (length (enc es)) n =
     Done (ret \<or> (\<exists>e \<in> set es. ie_hit eid oui e),
           pre @ enc (filter (\<lambda>e. \<not> ie_hit eid oui e) es) @ rest',
           n - (length (enc es) - length (enc (filter (\<lambda>e. \<not> ie_hit eid oui e) es))))"
  using assms
proof (induction "length es" arbitrary: es pre rest m ret n rule: less_induct)
  case less
  let ?P = "ie_hit eid oui"
  have drop: "drop (length pre) m = enc es @ rest" using less.prems(3) by simp
  note search = get_ie_ex_enc [OF less.prems(1,2), of rest]
  show ?case
  proof (cases "ie_pos ?P es")
    case None
    then have "filter (\<lambda>e. \<not> ?P e) es = es" "\<not> (\<exists>e \<in> set es. ?P e)" by (auto simp: ie_pos_None)
    then show ?thesis using None search drop less.prems(3) by (subst remove_ie_loop.simps) auto
  next
    case (Some kl)
    then obtain k l where kl: "ie_pos ?P es = Some (k, l)" by (cases kl) auto
    from ie_pos_Some [OF this] obtain as e bs where es: "es = as @ e # bs" "\<forall>a \<in> set as. \<not> ?P a" "?P e"
      "k = length (enc as)" "l = length (snd e)" by blast
    define rest2 where "rest2 = drop (length (enc bs)) (enc_ie e @ enc bs @ rest)"
    define m' where "m' = (pre @ enc as) @ enc bs @ rest2"
    have sp: "enc_ie e @ enc bs @ rest = take (length (enc bs)) (enc_ie e @ enc bs @ rest) @ rest2"
      unfolding rest2_def by (rule append_take_drop_id [symmetric])
    have sub: "sub32 (length (enc es)) (k + (l + 2)) = length (enc bs)"
      using less.prems(3,4) es by (subst sub32_exact) simp_all
    have rdn: "rd_n m (length pre + k + (l + 2)) (length (enc bs)) = Done (enc bs)"
      using less.prems(3,4) es rd_n_append [of "enc bs" "pre @ enc as @ enc_ie e" rest] by (simp add: ac_simps)
    have "length (take (length (enc bs)) (enc_ie e @ enc bs @ rest)) = length (enc bs)" by simp
    from wr_n_append [OF this, of "pre @ enc as" rest2]
    moreover have "m = (pre @ enc as) @ take (length (enc bs)) (enc_ie e @ enc bs @ rest) @ rest2"
      unfolding less.prems(3) es(1) by (subst sp [symmetric]) simp
    moreover have "length pre + k = length (pre @ enc as)" using es(4) by simp
    ultimately have wrn: "wr_n m (length pre + k) (enc bs) = Done m'"
      unfolding m'_def by (simp only:)
    have lm: "length m' < MAX_OBJ" using less.prems(3,4) es by (simp add: m'_def rest2_def)
    have step: "remove_ie_loop eid oui ret m (length pre) (length (enc es)) n =
        remove_ie_loop eid oui True m' (length (pre @ enc as)) (length (enc bs)) (n - (l + 2))"
      by (subst remove_ie_loop.simps)
        (simp only: drop search kl sub [unfolded es(4)] rdn [unfolded es(4)] wrn [unfolded es(4)] Let_def
          option.case prod.case outcome.case length_append es(4))
    have "length bs < length es" "wf_ies bs" "oui_fits eid oui bs" using less.prems es by simp_all
    from less.hyps [OF this m'_def lm, of True "n - (l + 2)"] obtain rest' where
      "remove_ie_loop eid oui True m' (length (pre @ enc as)) (length (enc bs)) (n - (l + 2)) =
        Done (True, (pre @ enc as) @ enc (filter (\<lambda>e. \<not> ?P e) bs) @ rest',
          n - (l + 2) - (length (enc bs) - length (enc (filter (\<lambda>e. \<not> ?P e) bs))))" by auto
    moreover have "filter (\<lambda>e. \<not> ?P e) es = as @ filter (\<lambda>e. \<not> ?P e) bs" using es by (simp add: filter_id_conv)
    moreover have "n - (l + 2) - (length (enc bs) - length (enc (filter (\<lambda>e. \<not> ?P e) bs))) =
        n - (length (enc es) - length (enc (as @ filter (\<lambda>e. \<not> ?P e) bs)))"
      using length_enc_filter [of "\<lambda>e. \<not> ?P e" bs] es by simp
    ultimately show ?thesis using step es by (intro exI [of _ rest']) auto
  qed
qed

subsection \<open>Replacing an element\<close>

lemma write_content_at:
  assumes "length content \<le> length rest"
  shows "write_content (pre @ [i, l] @ rest) (length pre) content =
     Done (pre @ [i, of_nat (length content)] @ content @ drop (length content) rest)"
proof -
  have "wr_n (pre @ [i, l] @ rest) (length pre + 2) content =
      Done ((pre @ [i, l]) @ content @ drop (length content) rest)"
    using wr_n_append [of "take (length content) rest" content "pre @ [i, l]" "drop (length content) rest"]
      assms by simp
  moreover have "wr_n ((pre @ [i, l]) @ content @ drop (length content) rest) (length pre + 1) [of_nat (length content)]
      = Done ((pre @ [i]) @ [of_nat (length content)] @ content @ drop (length content) rest)"
    using wr_n_append [of "[l]" "[of_nat (length content)]" "pre @ [i]" "content @ drop (length content) rest"]
    by simp
  ultimately show ?thesis by (simp add: write_content_def)
qed

lemma get_ie_enc:
  assumes "wf_ies es" "es \<noteq> []"
  shows "rtw_get_ie (enc es @ rest) (uint eid) (int (length (enc es))) =
     Done (case ie_pos (\<lambda>e. fst e = eid) es of None \<Rightarrow> (None, Some 0) | Some (k, l) \<Rightarrow> (Some k, Some l))"
proof -
  have "0 < length (enc es)" using assms(2) by (cases es) (simp_all add: enc_ie_def)
  moreover have "get_ie_loop (enc es @ rest) (uint eid) (length (enc es)) 0 =
      Done (case ie_pos (\<lambda>e. fst e = eid) es of None \<Rightarrow> (None, 0) | Some (k, l) \<Rightarrow> (Some k, l))"
    using get_ie_loop_enc [OF assms, of "enc es @ rest" "[]" rest eid]
    by (cases "ie_pos (\<lambda>e. fst e = eid) es") auto
  ultimately show ?thesis
    by (cases "ie_pos (\<lambda>e. fst e = eid) es") (simp_all add: rtw_get_ie_def split: prod.split)
qed

lemma ie_pos_first:
  "\<forall>a \<in> set as. \<not> P a \<Longrightarrow> P e \<Longrightarrow> ie_pos P (as @ e # bs) = Some (length (enc as), length (snd e))"
  by (induction as) auto

lemma update_ie_enc:
  assumes wf: "wf_ies (as @ (eid, d) # bs)" and first: "\<forall>a \<in> set as. fst a \<noteq> eid" and d: "d \<noteq> []"
    and room: "length content \<le> length d + length rest"
    and small: "length pre + length (enc (as @ (eid, d) # bs)) + length rest < MAX_OBJ"
    and alloc: "alloc \<or> length content = length d"
  shows "\<exists>rest'. rtw_ies_update_ie alloc (pre @ enc (as @ (eid, d) # bs) @ rest)
       (length pre + length (enc (as @ (eid, d) # bs))) (length pre) eid content =
     Done (True, pre @ [] @ enc as @ [eid, of_nat (length content)] @ content @ enc bs @ rest',
       length pre + length (enc as) + 2 + length content + length (enc bs))"
proof -
  let ?es = "as @ (eid, d) # bs"
  let ?m = "pre @ enc ?es @ rest"
  let ?p = "length pre + length (enc as)"
  have m: "?m = (pre @ enc as) @ [eid, of_nat (length d)] @ (d @ enc bs @ rest)"
    by (simp add: enc_ie_def)
  have search: "rtw_get_ie (drop (length pre) ?m) (uint eid) (int (length (enc ?es))) =
      Done (Some (length (enc as)), Some (length d))"
    using get_ie_enc [OF wf, of rest eid] ie_pos_first [of as "\<lambda>e. fst e = eid" "(eid, d)" bs] first by simp
  have content: "write_content ?m ?p content = Done ((pre @ enc as) @ [eid, of_nat (length content)] @
      content @ drop (length content) (d @ enc bs @ rest))"
    unfolding m using write_content_at [of content "d @ enc bs @ rest" "pre @ enc as"] room by simp
  have lens: "length pre + length (enc ?es) \<noteq> 0" "\<not> length pre + length (enc ?es) \<le> length pre"
    "length pre + length (enc ?es) - length pre = length (enc ?es)" "length d \<noteq> 0" using d by simp_all
  show ?thesis
  proof (cases "length d = length content")
    case True
    then have "drop (length content) (d @ enc bs @ rest) = enc bs @ rest" by simp
    then show ?thesis using search content lens True
      unfolding rtw_ies_update_ie_def by (intro exI [of _ rest]) (simp only: if_False Let_def outcome.case
        prod.case option.case if_True simp_thms lens, simp add: enc_ie_def)
  next
    case False
    have sub: "sub32 (length (enc ?es)) (length (enc as) + 2 + length d) = length (enc bs)"
      using small by (subst sub32_exact) simp_all
    have "rd_n ((pre @ enc as @ [eid, of_nat (length d)] @ d) @ enc bs @ rest)
        (length (pre @ enc as @ [eid, of_nat (length d)] @ d)) (length (enc bs)) = Done (enc bs)"
      using small by (intro rd_n_append) simp
    then have bkup: "rd_n ?m (?p + 2 + length d) (length (enc bs)) = Done (enc bs)"
      by (simp add: enc_ie_def ac_simps)
    define tail where "tail = drop (length content) (d @ enc bs @ rest)"
    have "length (enc bs) \<le> length tail" using room by (simp add: tail_def)
    then have "length (take (length (enc bs)) tail) = length (enc bs)" by simp
    from wr_n_append [OF this, of "pre @ enc as @ [eid, of_nat (length content)] @ content" "drop (length (enc bs)) tail"]
    have last: "wr_n ((pre @ enc as) @ [eid, of_nat (length content)] @ content @ tail)
        (?p + 2 + length content) (enc bs) = Done ((pre @ enc as @ [eid, of_nat (length content)] @ content) @
          enc bs @ drop (length (enc bs)) tail)"
      by (simp add: ac_simps)
    have "length pre + length (enc ?es) + length content - length d =
        length pre + length (enc as) + 2 + length content + length (enc bs)" by simp
    then show ?thesis using False alloc
      by (intro exI [of _ "drop (length (enc bs)) tail"])
        (simp only: rtw_ies_update_ie_def lens Let_def search outcome.case prod.case option.case sub bkup
          content [folded tail_def] last, simp)
  qed
qed

subsection \<open>Attributes\<close>

definition put16 :: "bool \<Rightarrow> u16 \<Rightarrow> bytes" where
  "put16 big n = (if big then [ucast (drop_bit 8 n), ucast n] else [ucast n, ucast (drop_bit 8 n)])"

definition get16 :: "bool \<Rightarrow> bytes \<Rightarrow> u16" where
  "get16 big = (if big then RTW_GET_BE16 else RTW_GET_LE16)"

lemma join_bytes: "(push_bit 8 (ucast (ucast (drop_bit 8 n) :: u8)) OR ucast (ucast n :: u8) :: u16) = n"
proof (rule bit_word_eqI)
  fix i assume i: "i < LENGTH(16)"
  show "bit (push_bit 8 (ucast (ucast (drop_bit 8 n) :: u8)) OR ucast (ucast n :: u8) :: u16) i = bit n i"
    unfolding bit_or_iff bit_push_bit_iff bit_unsigned_iff bit_drop_bit_eq possible_bit_word o_def
    using i by auto
qed

lemma get_put16 [simp]: "get16 big (put16 big n) = n"
  by (simp add: get16_def put16_def RTW_GET_LE16_def RTW_GET_BE16_def join_bytes)

lemma length_put16 [simp]: "length (put16 big n) = 2"
  by (simp add: put16_def)

definition enc_attr :: "bool \<Rightarrow> element \<Rightarrow> bytes" where
  "enc_attr big a = fst a # put16 big (of_nat (length (snd a))) @ snd a"

definition enc_attrs :: "bool \<Rightarrow> element list \<Rightarrow> bytes" where
  "enc_attrs big as = concat (map (enc_attr big) as)"

fun attr_pos :: "u8 \<Rightarrow> element list \<Rightarrow> (nat \<times> nat) option" where
  "attr_pos target [] = None"
| "attr_pos target (a # as) =
     (if fst a = target then Some (0, length (snd a) + 3)
      else map_option (\<lambda>(k, l). (length (snd a) + 3 + k, l)) (attr_pos target as))"

lemma enc_attrs_simps [simp]: "enc_attrs big [] = []" "enc_attrs big (a # as) = enc_attr big a @ enc_attrs big as"
  by (simp_all add: enc_attrs_def)

lemma length_enc_attr [simp]: "length (enc_attr big a) = length (snd a) + 3"
  by (simp add: enc_attr_def)

lemma unat_attr_len:
  assumes "n < 65533"
  shows "unat (of_nat n + 3 :: u16) = n + 3"
proof -
  have "(of_nat n + 3 :: u16) = of_nat (n + 3)" by simp
  also have "unat \<dots> = n + 3" using assms by (simp only: unsigned_of_nat take_bit_nat_eq_self) (simp add: take_bit_nat_eq_self)
  finally show ?thesis .
qed

lemma attr_loop_enc:
  assumes "\<forall>a \<in> set as. length (snd a) < 65533" "m = pre @ enc_attrs big as @ rest"
  shows "attr_loop (get16 big) m (length pre + length (enc_attrs big as)) target (length pre) =
     Some (Done (case attr_pos target as of None \<Rightarrow> (None, 0) | Some (k, l) \<Rightarrow> (Some (length pre + k), l)))"
  using assms
proof (induction as arbitrary: pre)
  case Nil
  then show ?case by (subst attr_loop.simps) simp
next
  case (Cons a as)
  let ?n = "length pre + length (enc_attrs big (a # as))"
  have m: "m = (pre @ [fst a]) @ put16 big (of_nat (length (snd a))) @ (snd a @ enc_attrs big as @ rest)"
    using Cons.prems(2) by (simp add: enc_attr_def)
  have r1: "rd m (length pre) = Done (fst a)" unfolding m by (simp add: rd_def nth_append)
  have r2: "rd_n m (length pre + 1) 2 = Done (put16 big (of_nat (length (snd a))))"
    unfolding m using rd_n_append [of "put16 big (of_nat (length (snd a)))" "pre @ [fst a]"]
    by (simp add: MAX_OBJ_def)
  have u: "unat (of_nat (length (snd a)) + 3 :: u16) = length (snd a) + 3"
    using Cons.prems(1) by (intro unat_attr_len) simp
  have c: "length pre + 3 \<le> ?n" "\<not> length pre + (length (snd a) + 3) > ?n" by simp_all
  show ?case
  proof (cases "fst a = target")
    case True
    then show ?thesis using r1 r2 u c by (subst attr_loop.simps) simp
  next
    case False
    have "attr_loop (get16 big) m ?n target (length pre) =
        attr_loop (get16 big) m ?n target (length pre + (length (snd a) + 3))"
      using r1 r2 u c False by (subst attr_loop.simps) simp
    moreover have "attr_loop (get16 big) m (length (pre @ enc_attr big a) + length (enc_attrs big as)) target
        (length (pre @ enc_attr big a)) = Some (Done (case attr_pos target as of None \<Rightarrow> (None, 0)
          | Some (k, l) \<Rightarrow> (Some (length (pre @ enc_attr big a) + k), l)))"
      using Cons.prems by (intro Cons.IH) simp_all
    ultimately show ?thesis using False
      by (cases "attr_pos target as") (auto simp: ac_simps)
  qed
qed

text \<open>
  A search that never meets a length whose sum with the header wraps to zero returns, reads
  inside the element only, and what it finds lies inside.
\<close>

definition steps_on :: "(bytes \<Rightarrow> u16) \<Rightarrow> bytes \<Rightarrow> nat \<Rightarrow> bool" where
  "steps_on g ie ielen \<longleftrightarrow> (\<forall>i. i + 3 \<le> ielen \<longrightarrow> g (take 2 (drop (i + 1) ie)) + 3 \<noteq> 0)"

lemma attr_loop_returns:
  assumes "steps_on g ie ielen" "ielen \<le> length ie"
  shows "\<exists>r l. attr_loop g ie ielen target pos = Some (Done (r, l)) \<and>
     (\<forall>p. r = Some p \<longrightarrow> p + l \<le> ielen \<and> ie ! p = target)"
proof (induction "ielen - pos" arbitrary: pos rule: less_induct)
  case less
  show ?case
  proof (cases "pos + 3 \<le> ielen")
    case False
    then show ?thesis by (subst attr_loop.simps) simp
  next
    case True
    have r: "rd ie pos = Done (ie ! pos)" "rd_n ie (pos + 1) 2 = Done (take 2 (drop (pos + 1) ie))"
      using True assms(2) by (simp_all add: rd_def rd_n_def MAX_OBJ_def)
    define n where "n = unat (g (take 2 (drop (pos + 1) ie)) + 3)"
    have n: "0 < n" using assms(1) True by (simp add: steps_on_def n_def unat_gt_0)
    consider "pos + n > ielen" | "pos + n \<le> ielen" "ie ! pos = target" | "pos + n \<le> ielen" "ie ! pos \<noteq> target"
      by linarith
    then show ?thesis
    proof cases
      case 3
      have "attr_loop g ie ielen target pos = attr_loop g ie ielen target (pos + n)"
        using r True 3 by (subst attr_loop.simps) (simp add: n_def)
      with less.hyps [of "pos + n"] n True show ?thesis by simp
    qed (use r True in \<open>subst attr_loop.simps, simp add: n_def\<close>)+
  qed
qed

text \<open>At a length that wraps to zero the loop stays where it is.\<close>

definition attr_stuck :: "(bytes \<Rightarrow> u16) \<Rightarrow> bytes \<Rightarrow> nat \<Rightarrow> u8 \<Rightarrow> nat \<Rightarrow> bool" where
  "attr_stuck g ie ielen target pos \<longleftrightarrow> pos + 3 \<le> ielen \<and>
     (\<exists>b bs. rd ie pos = Done b \<and> b \<noteq> target \<and> rd_n ie (pos + 1) 2 = Done bs \<and> g bs + 3 = 0)"

lemma attr_loop_stuck: "attr_stuck g ie ielen target pos \<Longrightarrow> attr_loop g ie ielen target pos = None"
proof (rule ccontr)
  assume st: "attr_stuck g ie ielen target pos" and "attr_loop g ie ielen target pos \<noteq> None"
  then obtain y where "attr_loop g ie ielen target pos = Some y" by blast
  then have "\<not> attr_stuck g ie ielen target pos"
  proof (rule attr_loop.raw_induct [where P = "\<lambda>g ie ielen target pos y. \<not> attr_stuck g ie ielen target pos", rotated])
    fix f g ie ielen target pos y
    assume ih: "\<And>g ie ielen target pos y. f g ie ielen target pos = Some y \<Longrightarrow> \<not> attr_stuck g ie ielen target pos"
      and body: "(if pos + 3 \<le> ielen
        then (case rd ie pos of Fault \<Rightarrow> Some Fault
              | Done attr_id \<Rightarrow> (case rd_n ie (pos + 1) 2 of Fault \<Rightarrow> Some Fault
                  | Done bs \<Rightarrow> if pos + unat (g bs + 3) > ielen then Some (Done (None, 0))
                      else if attr_id = target then Some (Done (Some pos, unat (g bs + 3)))
                      else f g ie ielen target (pos + unat (g bs + 3))))
        else Some (Done (None, 0))) = Some y"
    show "\<not> attr_stuck g ie ielen target pos"
    proof
      assume a: "attr_stuck g ie ielen target pos"
      then have "f g ie ielen target pos = Some y" using body by (auto simp: attr_stuck_def)
      from ih [OF this] a show False by blast
    qed
  qed
  with st show False by blast
qed

definition wps_stuck :: "bytes \<Rightarrow> nat \<Rightarrow> u16 \<Rightarrow> nat \<Rightarrow> bool" where
  "wps_stuck ie ielen target pos \<longleftrightarrow> pos < ielen \<and>
     (\<exists>ids bs. rd_n ie pos 2 = Done ids \<and> RTW_GET_BE16 ids \<noteq> target \<and>
        rd_n ie (pos + 2) 2 = Done bs \<and> RTW_GET_BE16 bs + 4 = 0)"

lemma wps_loop_stuck: "wps_stuck ie ielen target pos \<Longrightarrow> wps_attr_loop ie ielen target pos = None"
proof (rule ccontr)
  assume st: "wps_stuck ie ielen target pos" and "wps_attr_loop ie ielen target pos \<noteq> None"
  then obtain y where "wps_attr_loop ie ielen target pos = Some y" by blast
  then have "\<not> wps_stuck ie ielen target pos"
  proof (rule wps_attr_loop.raw_induct [where P = "\<lambda>ie ielen target pos y. \<not> wps_stuck ie ielen target pos", rotated])
    fix f ie ielen target pos y
    assume ih: "\<And>ie ielen target pos y. f ie ielen target pos = Some y \<Longrightarrow> \<not> wps_stuck ie ielen target pos"
      and body: "(if pos < ielen
        then (case rd_n ie pos 2 of Fault \<Rightarrow> Some Fault
              | Done ids \<Rightarrow> (case rd_n ie (pos + 2) 2 of Fault \<Rightarrow> Some Fault
                  | Done bs \<Rightarrow> if RTW_GET_BE16 ids = target then Some (Done (Some pos, unat (RTW_GET_BE16 bs + 4)))
                      else f ie ielen target (pos + unat (RTW_GET_BE16 bs + 4))))
        else Some (Done (None, 0))) = Some y"
    show "\<not> wps_stuck ie ielen target pos"
    proof
      assume a: "wps_stuck ie ielen target pos"
      then have "f ie ielen target pos = Some y" using body by (auto simp: wps_stuck_def)
      from ih [OF this] a show False by blast
    qed
  qed
  with st show False by blast
qed

lemma steps_on_code [code]:
  "steps_on g ie ielen \<longleftrightarrow> list_all (\<lambda>i. g (take 2 (drop (i + 1) ie)) + 3 \<noteq> 0) [0..<ielen - 2]"
  unfolding steps_on_def list_all_iff set_upt by auto

lemma get_attr_start:
  assumes "6 < ielen" "m = [WLAN_EID_VENDOR_SPECIFIC, l] @ oui @ rest" "length oui = 4"
  shows "get_attr g oui (Some m) ielen target = attr_loop g m ielen target 6"
proof -
  have "rd m 0 = Done WLAN_EID_VENDOR_SPECIFIC" "rd_n m 2 4 = Done oui"
    using assms by (simp_all add: rd_def rd_n_def MAX_OBJ_def)
  then show ?thesis using assms(1) by (simp add: get_attr_def)
qed

lemma get_attr_returns:
  assumes "steps_on g ie ielen" "ielen \<le> length ie"
  shows "\<exists>r l. get_attr g oui (Some ie) ielen target = Some (Done (r, l)) \<and>
     (\<forall>p. r = Some p \<longrightarrow> p + l \<le> ielen \<and> ie ! p = target)"
proof (cases "ielen \<le> 6")
  case True
  then show ?thesis by (simp add: get_attr_def)
next
  case False
  then have "rd ie 0 = Done (ie ! 0)" "rd_n ie 2 4 = Done (take 4 (drop 2 ie))"
    using assms(2) by (auto simp: rd_def rd_n_def MAX_OBJ_def)
  with False attr_loop_returns [OF assms, of target 6] show ?thesis by (simp add: get_attr_def)
qed

lemma get_attr_enc:
  assumes "\<forall>a \<in> set as. length (snd a) < 65533" "length oui = 4"
  shows "get_attr (get16 big) oui (Some ([WLAN_EID_VENDOR_SPECIFIC, n] @ oui @ enc_attrs big as @ rest))
       (6 + length (enc_attrs big as)) target =
     Some (Done (case attr_pos target as of None \<Rightarrow> (None, 0) | Some (k, l) \<Rightarrow> (Some (6 + k), l)))"
proof (cases "enc_attrs big as = []")
  case True
  then have "as = []" by (cases as) (auto simp: enc_attr_def)
  then show ?thesis by (simp add: get_attr_def)
next
  case False
  let ?m = "[WLAN_EID_VENDOR_SPECIFIC, n] @ oui @ enc_attrs big as @ rest"
  have six: "length ([WLAN_EID_VENDOR_SPECIFIC, n] @ oui) = 6" using assms(2) by simp
  have "get_attr (get16 big) oui (Some ?m) (6 + length (enc_attrs big as)) target =
      attr_loop (get16 big) ?m (6 + length (enc_attrs big as)) target 6"
    using False by (intro get_attr_start [OF _ refl assms(2)]) simp
  also have "\<dots> = Some (Done (case attr_pos target as of None \<Rightarrow> (None, 0) | Some (k, l) \<Rightarrow> (Some (6 + k), l)))"
    using attr_loop_enc [OF assms(1), of ?m "[WLAN_EID_VENDOR_SPECIFIC, n] @ oui" big rest target]
    unfolding six by simp
  finally show ?thesis .
qed

subsection \<open>Properties\<close>

definition ex_ies :: "element list" where
  "ex_ies = [(0, [1, 2]), (221, [0, 0x50, 0xF2, 4]), (3, [6]), (221, [0, 0x50, 0xF2, 1, 7])]"

text \<open>
  C33. On a well-formed list of elements (every element complete, and long enough for the OUI if
  it has the identifier, \<open>oui_fits\<close>) the two searches are the list search they stand for:
  \<open>rtw_get_ie\<close> gives the first element with the identifier and the length of its content,
  \<open>rtw_get_ie_ex\<close> the first one that also starts with the OUI and the length of the whole
  element; NULL when there is none. On such a list both end without reading outside it, also when
  nothing follows it in memory. On a list that is not well-formed they can read behind its end
  (\<open>get_ie_reads_behind\<close>).
\<close>

theorem ie_search_exact:
  assumes "wf_ies es" "es \<noteq> []" "oui_fits eid oui es"
  shows "rtw_get_ie (enc es @ rest) (uint eid) (int (length (enc es))) =
       Done (case ie_pos (\<lambda>e. fst e = eid) es of None \<Rightarrow> (None, Some 0) | Some (k, l) \<Rightarrow> (Some k, Some l)) \<and>
     rtw_get_ie_ex (Some (enc es @ rest)) (length (enc es)) eid oui False =
       Done (case ie_pos (ie_hit eid oui) es of
               None \<Rightarrow> (None, 0, []) | Some (k, l) \<Rightarrow> (Some k, l + 2, []))"
  using get_ie_enc [OF assms(1,2)] get_ie_ex_enc [OF assms(1,3)] by blast

lemma ie_search_exact_witness:
  "rtw_get_ie (enc ex_ies @ []) 221 (int (length (enc ex_ies))) = Done (Some 4, Some 4) \<and>
   rtw_get_ie_ex (Some (enc ex_ies @ [])) (length (enc ex_ies)) 221 (Some [0, 0x50, 0xF2, 1]) False =
     Done (Some 13, 7, [])"
proof -
  have "wf_ies ex_ies" "ex_ies \<noteq> []" "oui_fits 221 (Some [0, 0x50, 0xF2, 1]) ex_ies" "uint (221 :: u8) = 221"
    "ie_pos (\<lambda>e. fst e = 221) ex_ies = Some (4, 4)"
    "ie_pos (ie_hit 221 (Some [0, 0x50, 0xF2, 1])) ex_ies = Some (13, 5)"
    by code_simp+
  with ie_search_exact [of ex_ies 221 "Some [0, 0x50, 0xF2, 1]" "[]"] show ?thesis by simp
qed

text \<open>
  C34. Removing: from a well-formed list behind a fixed part, exactly the elements with the
  identifier and OUI disappear, the others stay in their order, the fixed part is untouched,
  the length shrinks accordingly, and success is reported exactly when an element was removed.
\<close>

theorem ie_remove_filters:
  assumes "wf_ies es" "oui_fits eid oui es" "es \<noteq> []"
    and "length pre + length (enc es) + length rest < MAX_OBJ"
  shows "\<exists>rest'. rtw_ies_remove_ie (pre @ enc es @ rest) (length pre + length (enc es)) (length pre) eid oui =
     Done (\<exists>e \<in> set es. ie_hit eid oui e,
           pre @ enc (filter (\<lambda>e. \<not> ie_hit eid oui e) es) @ rest',
           length pre + length (enc (filter (\<lambda>e. \<not> ie_hit eid oui e) es)))"
proof -
  let ?f = "filter (\<lambda>e. \<not> ie_hit eid oui e) es"
  have "\<not> length pre + length (enc es) \<le> length pre" using assms(3) by (cases es) (simp_all add: enc_ie_def)
  moreover have "length pre + length (enc es) - (length (enc es) - length (enc ?f)) = length pre + length (enc ?f)"
    using length_enc_filter [of "\<lambda>e. \<not> ie_hit eid oui e" es] by simp
  ultimately show ?thesis
    using remove_ie_loop_enc [OF assms(1,2) refl, of pre rest False "length pre + length (enc es)"] assms(4)
    by (auto simp: rtw_ies_remove_ie_def)
qed

lemma ie_remove_filters_witness:
  "\<exists>rest'. rtw_ies_remove_ie ([9, 9] @ enc ex_ies @ []) (2 + length (enc ex_ies)) 2 221 None =
     Done (True, [9, 9] @ enc [(0, [1, 2]), (3, [6])] @ rest', 9)"
proof -
  have "wf_ies ex_ies" "oui_fits 221 None ex_ies" "ex_ies \<noteq> []"
    "length [9 :: u8, 9] + length (enc ex_ies) + length ([] :: bytes) < MAX_OBJ"
    "filter (\<lambda>e. \<not> ie_hit 221 None e) ex_ies = [(0, [1, 2]), (3, [6])]"
    "\<exists>e \<in> set ex_ies. ie_hit 221 None e"
    by (simp_all add: ex_ies_def ie_hit_def oui_fit_def wf_ies_def MAX_OBJ_def)
  moreover have "length [9 :: u8, 9] = 2" "2 + length (enc [(0, [1, 2]), (3, [6 :: u8])]) = 9" by code_simp+
  ultimately show ?thesis
    using ie_remove_filters [of ex_ies 221 None "[9, 9]" "[]"] by (simp only: simp_thms)
qed

text \<open>
  C35. Replacing: when the list contains a non-empty element with the identifier and the buffer
  has room, the content of the first one becomes the new content and everything else stays.
  Without memory for the backup nothing is changed unless the lengths agree, and an identifier
  that is not in the list leaves the buffer as it is; both are reported as failure.
\<close>

theorem ie_update_replaces:
  assumes "wf_ies (as @ (eid, d) # bs)" "\<forall>a \<in> set as. fst a \<noteq> eid" "d \<noteq> []"
    and "length content \<le> length d + length rest"
    and "length pre + length (enc (as @ (eid, d) # bs)) + length rest < MAX_OBJ"
    and "\<forall>e \<in> set (as @ (eid, d) # bs). fst e \<noteq> absent"
  shows "(alloc \<or> length content = length d \<longrightarrow>
       (\<exists>rest'. rtw_ies_update_ie alloc (pre @ enc (as @ (eid, d) # bs) @ rest)
            (length pre + length (enc (as @ (eid, d) # bs))) (length pre) eid content =
          Done (True, pre @ enc (as @ (eid, content) # bs) @ rest',
                length pre + length (enc (as @ (eid, content) # bs))))) \<and>
     (\<not> alloc \<and> length content \<noteq> length d \<longrightarrow>
       rtw_ies_update_ie alloc (pre @ enc (as @ (eid, d) # bs) @ rest)
            (length pre + length (enc (as @ (eid, d) # bs))) (length pre) eid content =
          Done (False, pre @ enc (as @ (eid, d) # bs) @ rest, length pre + length (enc (as @ (eid, d) # bs)))) \<and>
     rtw_ies_update_ie alloc (pre @ enc (as @ (eid, d) # bs) @ rest)
            (length pre + length (enc (as @ (eid, d) # bs))) (length pre) absent content =
          Done (False, pre @ enc (as @ (eid, d) # bs) @ rest, length pre + length (enc (as @ (eid, d) # bs)))"
proof (intro conjI impI; (elim conjE)?)
  let ?es = "as @ (eid, d) # bs"
  have lens: "length pre + length (enc ?es) \<noteq> 0" "\<not> length pre + length (enc ?es) \<le> length pre"
    "length pre + length (enc ?es) - length pre = length (enc ?es)" "length d \<noteq> 0"
    using assms(3) by simp_all
  have dr: "drop (length pre) (pre @ enc ?es @ rest) = enc ?es @ rest" by simp
  show "\<exists>rest'. rtw_ies_update_ie alloc (pre @ enc ?es @ rest) (length pre + length (enc ?es)) (length pre) eid content =
      Done (True, pre @ enc (as @ (eid, content) # bs) @ rest', length pre + length (enc (as @ (eid, content) # bs)))"
    if "alloc \<or> length content = length d"
    using update_ie_enc [OF assms(1-5) that] by (auto simp: enc_ie_def ac_simps)
  show "rtw_ies_update_ie alloc (pre @ enc ?es @ rest) (length pre + length (enc ?es)) (length pre) eid content =
      Done (False, pre @ enc ?es @ rest, length pre + length (enc ?es))"
    if "\<not> alloc" "length content \<noteq> length d"
  proof -
    have "rtw_get_ie (enc ?es @ rest) (uint eid) (int (length (enc ?es))) =
        Done (Some (length (enc as)), Some (length d))"
      using get_ie_enc [OF assms(1), of rest eid] ie_pos_first [of as "\<lambda>e. fst e = eid" "(eid, d)" bs] assms(2)
      by simp
    with that lens show ?thesis unfolding rtw_ies_update_ie_def lens dr Let_def by auto
  qed
  have "ie_pos (\<lambda>e. fst e = absent) ?es = None" using assms(6) unfolding ie_pos_None by blast
  then have "rtw_get_ie (enc ?es @ rest) (uint absent) (int (length (enc ?es))) = Done (None, Some 0)"
    using get_ie_enc [OF assms(1), of rest absent] by simp
  with lens show "rtw_ies_update_ie alloc (pre @ enc ?es @ rest) (length pre + length (enc ?es)) (length pre) absent content =
      Done (False, pre @ enc ?es @ rest, length pre + length (enc ?es))"
    unfolding rtw_ies_update_ie_def lens dr Let_def by auto
qed

lemma ie_update_replaces_witness:
  "\<exists>rest'. rtw_ies_update_ie True ([] @ enc ([(0, [1, 2])] @ (3, [6]) # [(221, [7])]) @ [0, 0])
     10 0 3 [8, 9] = Done (True, enc [(0, [1, 2]), (3, [8, 9]), (221, [7])] @ rest', 11)"
proof -
  have "wf_ies ([(0, [1, 2])] @ (3, [6]) # [(221, [7])])" "\<forall>a \<in> set [(0 :: u8, [1 :: u8, 2])]. fst a \<noteq> 3"
    "[6 :: u8] \<noteq> []" "length [8 :: u8, 9] \<le> length [6 :: u8] + length [0 :: u8, 0]"
    "length ([] :: bytes) + length (enc ([(0, [1, 2])] @ (3, [6]) # [(221, [7])])) + length [0 :: u8, 0] < MAX_OBJ"
    "\<forall>e \<in> set ([(0, [1, 2])] @ (3, [6]) # [(221, [7 :: u8])]). fst e \<noteq> (9 :: u8)"
    by (simp_all add: MAX_OBJ_def wf_ies_def)
  from ie_update_replaces [OF this, of True]
  obtain rest' where "rtw_ies_update_ie True ([] @ enc ([(0, [1, 2])] @ (3, [6]) # [(221, [7])]) @ [0, 0])
       (length ([] :: bytes) + length (enc ([(0, [1, 2])] @ (3, [6]) # [(221, [7])]))) (length ([] :: bytes)) 3 [8, 9] =
     Done (True, [] @ enc ([(0, [1, 2])] @ (3, [8, 9]) # [(221, [7])]) @ rest',
       length ([] :: bytes) + length (enc ([(0, [1, 2])] @ (3, [8, 9]) # [(221, [7])])))" by blast
  moreover have "length ([] :: bytes) + length (enc ([(0, [1, 2])] @ (3, [6]) # [(221, [7])])) = 10"
    "length ([] :: bytes) + length (enc ([(0, [1, 2])] @ (3, [8, 9]) # [(221, [7])])) = 11"
    "length ([] :: bytes) = 0" by simp_all
  ultimately show ?thesis unfolding append_Nil append_Cons by metis
qed

text \<open>
  C36. Writing and finding attributes: \<open>rtw_set_p2p_attr_content\<close> writes the encoding of an
  attribute; in a P2P or WFD element made of such encodings, with contents shorter than 65533
  bytes, the search finds the first attribute with the identifier at its place and with its
  whole length, and NULL when there is none.
\<close>

theorem attr_roundtrip:
  assumes "length old = length content + 3" "\<forall>a \<in> set as. length (snd a) < 65533"
  shows "rtw_set_p2p_attr_content (pre @ old @ post) (length pre) attr_id content =
       Done (pre @ enc_attr False (attr_id, content) @ post, length content + 3) \<and>
     rtw_get_p2p_attr (Some ([WLAN_EID_VENDOR_SPECIFIC, n] @ P2P_OUI @ enc_attrs False as @ rest))
         (6 + length (enc_attrs False as)) target =
       Some (Done (case attr_pos target as of None \<Rightarrow> (None, 0) | Some (k, l) \<Rightarrow> (Some (6 + k), l))) \<and>
     rtw_get_wfd_attr (Some ([WLAN_EID_VENDOR_SPECIFIC, n] @ WFD_OUI @ enc_attrs True as @ rest))
         (6 + length (enc_attrs True as)) target =
       Some (Done (case attr_pos target as of None \<Rightarrow> (None, 0) | Some (k, l) \<Rightarrow> (Some (6 + k), l)))"
proof (intro conjI)
  obtain a b c d where old: "old = a # b # c # d" "length d = length content"
    using assms(1) by (metis (no_types, lifting) One_nat_def add.commute add_Suc_right length_Suc_conv numeral_3_eq_3 plus_1_eq_Suc add_0)
  let ?n = "of_nat (length content) :: u16"
  have 1: "wr_n (pre @ old @ post) (length pre) [attr_id] = Done (pre @ [attr_id] @ b # c # d @ post)"
    using wr_n_append [of "[a]" "[attr_id]" pre "b # c # d @ post"] old by simp
  have 2: "wr_n (pre @ [attr_id] @ b # c # d @ post) (length pre + 1) [ucast ?n, ucast (drop_bit 8 ?n)] =
      Done (pre @ [attr_id, ucast ?n, ucast (drop_bit 8 ?n)] @ d @ post)"
    using wr_n_append [of "[b, c]" "[ucast ?n, ucast (drop_bit 8 ?n)]" "pre @ [attr_id]" "d @ post"] by simp
  have 3: "wr_n (pre @ [attr_id, ucast ?n, ucast (drop_bit 8 ?n)] @ d @ post) (length pre + 3) content =
      Done (pre @ [attr_id, ucast ?n, ucast (drop_bit 8 ?n)] @ content @ post)"
    using wr_n_append [of d content "pre @ [attr_id, ucast ?n, ucast (drop_bit 8 ?n)]" post] old
    by (simp add: numeral_3_eq_3)
  show "rtw_set_p2p_attr_content (pre @ old @ post) (length pre) attr_id content =
       Done (pre @ enc_attr False (attr_id, content) @ post, length content + 3)"
    unfolding rtw_set_p2p_attr_content_def Let_def 1 outcome.case 2 3
    by (simp add: enc_attr_def put16_def)
  show "rtw_get_p2p_attr (Some ([WLAN_EID_VENDOR_SPECIFIC, n] @ P2P_OUI @ enc_attrs False as @ rest))
         (6 + length (enc_attrs False as)) target =
       Some (Done (case attr_pos target as of None \<Rightarrow> (None, 0) | Some (k, l) \<Rightarrow> (Some (6 + k), l)))"
    using get_attr_enc [OF assms(2), of P2P_OUI False] by (simp add: rtw_get_p2p_attr_def get16_def P2P_OUI_def)
  show "rtw_get_wfd_attr (Some ([WLAN_EID_VENDOR_SPECIFIC, n] @ WFD_OUI @ enc_attrs True as @ rest))
         (6 + length (enc_attrs True as)) target =
       Some (Done (case attr_pos target as of None \<Rightarrow> (None, 0) | Some (k, l) \<Rightarrow> (Some (6 + k), l)))"
    using get_attr_enc [OF assms(2), of WFD_OUI True] by (simp add: rtw_get_wfd_attr_def get16_def WFD_OUI_def)
qed

lemma attr_roundtrip_witness:
  "rtw_get_p2p_attr (Some ([WLAN_EID_VENDOR_SPECIFIC, 12] @ P2P_OUI @ enc_attrs False [(2, [7]), (13, [5, 6])] @ []))
     (6 + length (enc_attrs False [(2, [7]), (13, [5, 6])])) 13 = Some (Done (Some 10, 5))"
proof -
  have "length [0 :: u8, 0, 0] = length ([] :: bytes) + 3"
    "\<forall>a \<in> set [(2 :: u8, [7 :: u8]), (13, [5, 6])]. length (snd a) < 65533"
    "attr_pos 13 [(2, [7]), (13, [5, 6])] = Some (4, 5)" by simp_all
  with attr_roundtrip [of "[0, 0, 0]" "[]" "[(2, [7]), (13, [5, 6])]" "[]" "[]" 0 12 "[]" 13] show ?thesis
    by (simp only: option.case prod.case simp_thms) simp
qed

text \<open>
  C37. The searches for a P2P and a WFD attribute return on every element, however malformed,
  in which no length field is 65533: they never read outside the element, and what they find
  lies inside and has the identifier. (\<open>p2p_attr_hangs\<close> shows the excluded value.)
\<close>

theorem attr_search_returns:
  assumes "ielen \<le> length ie"
  shows "(steps_on RTW_GET_LE16 ie ielen \<longrightarrow>
       (\<exists>r l. rtw_get_p2p_attr (Some ie) ielen target = Some (Done (r, l)) \<and>
          (\<forall>p. r = Some p \<longrightarrow> p + l \<le> ielen \<and> ie ! p = target))) \<and>
     (steps_on RTW_GET_BE16 ie ielen \<longrightarrow>
       (\<exists>r l. rtw_get_wfd_attr (Some ie) ielen target = Some (Done (r, l)) \<and>
          (\<forall>p. r = Some p \<longrightarrow> p + l \<le> ielen \<and> ie ! p = target)))"
  using get_attr_returns [OF _ assms] unfolding rtw_get_p2p_attr_def rtw_get_wfd_attr_def by blast

lemma attr_search_returns_witness:
  "\<exists>r l. rtw_get_p2p_attr (Some [221, 8, 0x50, 0x6F, 0x9A, 9, 2, 255, 1, 5]) 10 4 = Some (Done (r, l))"
proof -
  have "10 \<le> length [221 :: u8, 8, 0x50, 0x6F, 0x9A, 9, 2, 255, 1, 5]"
    "steps_on RTW_GET_LE16 [221, 8, 0x50, 0x6F, 0x9A, 9, 2, 255, 1, 5] 10" by code_simp+
  with attr_search_returns [of 10 "[221, 8, 0x50, 0x6F, 0x9A, 9, 2, 255, 1, 5]" 4] show ?thesis by blast
qed

subsection \<open>Malformed elements\<close>

text \<open>
  The length of an attribute with its header is computed as \<open>u16\<close>. A length field of 65533 (P2P
  and WFD, three bytes of header) or 65532 (WPS, four) makes the sum zero, the pointer is not
  advanced and the search never ends. The elements come from frames of other stations.
\<close>

lemma p2p_attr_hangs:
  "rtw_get_p2p_attr (Some [221, 7, 0x50, 0x6F, 0x9A, 9, 1, 0xFD, 0xFF]) 9 2 = None"
  "rtw_get_wfd_attr (Some [221, 7, 0x50, 0x6F, 0x9A, 0xA, 1, 0xFF, 0xFD]) 9 2 = None"
proof -
  have "attr_stuck RTW_GET_LE16 [221, 7, 0x50, 0x6F, 0x9A, 9, 1, 0xFD, 0xFF] 9 2 6"
    "attr_stuck RTW_GET_BE16 [221, 7, 0x50, 0x6F, 0x9A, 0xA, 1, 0xFF, 0xFD] 9 2 6"
    unfolding attr_stuck_def by (simp_all add: rd_def rd_n_def MAX_OBJ_def) code_simp+
  then show "rtw_get_p2p_attr (Some [221, 7, 0x50, 0x6F, 0x9A, 9, 1, 0xFD, 0xFF]) 9 2 = None"
    "rtw_get_wfd_attr (Some [221, 7, 0x50, 0x6F, 0x9A, 0xA, 1, 0xFF, 0xFD]) 9 2 = None"
    using get_attr_start [of 9 _ 7 P2P_OUI "[1, 0xFD, 0xFF]" RTW_GET_LE16 2]
      get_attr_start [of 9 _ 7 WFD_OUI "[1, 0xFF, 0xFD]" RTW_GET_BE16 2]
    by (simp_all add: rtw_get_p2p_attr_def rtw_get_wfd_attr_def attr_loop_stuck P2P_OUI_def WFD_OUI_def
        WLAN_EID_VENDOR_SPECIFIC_def)
qed

lemma wps_attr_hangs:
  "rtw_get_wps_attr [221, 8, 0, 0x50, 0xF2, 4, 0x10, 0x4A, 0xFF, 0xFC] 10 0x1041 = None"
proof -
  have "wps_stuck [221, 8, 0, 0x50, 0xF2, 4, 0x10, 0x4A, 0xFF, 0xFC] 10 0x1041 6"
    unfolding wps_stuck_def by (simp add: rd_def rd_n_def MAX_OBJ_def) code_simp
  then have "wps_attr_loop [221, 8, 0, 0x50, 0xF2, 4, 0x10, 0x4A, 0xFF, 0xFC] 10 0x1041 6 = None"
    by (rule wps_loop_stuck)
  then show ?thesis
    by (simp add: rtw_get_wps_attr_def rd_def rd_n_def MAX_OBJ_def WPS_OUI_def WLAN_EID_VENDOR_SPECIFIC_def)
qed

text \<open>
  With a truncated last element the searches read behind the list: the length of an element is
  read before anything is compared with the limit.
\<close>

lemma get_ie_reads_behind:
  "rtw_get_ie [1] 5 1 = Fault"
  "rtw_get_ie_ex (Some [221, 0]) 2 221 (Some [0, 0x50]) False = Fault"
  by (simp_all add: rtw_get_ie_def rtw_get_ie_ex_def get_ie_loop.simps get_ie_ex_loop.simps ie_matches_def
      rd_def rd_n_def)

end
