(* ===== verification/DataCtrl.thy ===== *)
theory DataCtrl
  imports MsgId
begin

text \<open>
  The control of the data path, \<^verbatim>\<open>phl/phl_tx.c\<close>: modules pause and resume the transmit and the
  receive side, which the handlers of \<^verbatim>\<open>phl/hci/phl_trx_usb.c\<close> acknowledge.

  The functions run in the thread of the dispatcher, the two handlers are tasklets that run at
  the same time. What the others do is part of the state, as a list of rounds: before each
  access to a variable that others write, \<open>others\<close> takes the next round and performs its moves,
  and the clock advances by what the round says. A theorem about all such lists is a theorem
  about all interleavings.
\<close>

subsection \<open>State\<close>

datatype trx_dir = TX | RX

datatype sw_trx_status = STS_IDLE | STS_RUNNING | STS_STOP_INPROGRESS | STS_SW_PAUSE

text \<open>
  The place of a handler: not running, before the test of the pause, before its work, before
  the test for a stop in progress, before it acknowledges the stop.
\<close>

datatype handler_pc = H_off | H_check | H_work | H_stop | H_ack

record data_path =
  sw_sts :: sw_trx_status
  pause_id :: u32
  sw_more :: bool
  sw_req_pwr :: bool
  scheduled :: bool
  handler :: handler_pc

text \<open>
  A move of the others: a step of a handler (with the power state it sees and whether the
  dispatcher takes its message), a notification of a handler by the core, a new request of the
  core, the completion of a power request (with or without failure).
\<close>

datatype dp_move =
    Handler_step trx_dir bool bool | Notify trx_dir | New_request | Pwr_done trx_dir bool

datatype dp_event =
    Worked trx_dir | Was_reset trx_dir | Queued_rx | Pwr_request trx_dir

text \<open>
  \<open>hal\<close> is what the coming calls of \<open>rtw_hal_lv1_rcvy\<close> return, \<open>rounds\<close> the coming rounds of
  the others, \<open>dp_log\<close> what happened, the last first.
\<close>

record dp_state =
  tx_path :: data_path
  rx_path :: data_path
  is_hw_trx_pause :: bool
  lps_pause_tx :: bool
  clock :: u32
  hal :: "bool list"
  rounds :: "(dp_move list \<times> u32) list"
  dp_log :: "dp_event list"

definition path :: "trx_dir \<Rightarrow> dp_state \<Rightarrow> data_path" where
  "path d s = (case d of TX \<Rightarrow> tx_path s | RX \<Rightarrow> rx_path s)"

definition on_path :: "trx_dir \<Rightarrow> (data_path \<Rightarrow> data_path) \<Rightarrow> dp_state \<Rightarrow> dp_state" where
  "on_path d f s =
     (case d of TX \<Rightarrow> s\<lparr>tx_path := f (tx_path s)\<rparr> | RX \<Rightarrow> s\<lparr>rx_path := f (rx_path s)\<rparr>)"

definition log_dp :: "dp_event \<Rightarrow> dp_state \<Rightarrow> dp_state" where
  "log_dp ev s = s\<lparr>dp_log := ev # dp_log s\<rparr>"

definition DATA_CTRL_MDL_NONE :: u32 where "DATA_CTRL_MDL_NONE = 0"
definition DATA_CTRL_MDL_CMD_CTRLER :: u32 where "DATA_CTRL_MDL_CMD_CTRLER = BITn 0"
definition DATA_CTRL_MDL_SER :: u32 where "DATA_CTRL_MDL_SER = BITn 1"
definition DATA_CTRL_MDL_PS :: u32 where "DATA_CTRL_MDL_PS = BITn 2"
definition DATA_CTRL_MDL_MRC :: u32 where "DATA_CTRL_MDL_MRC = BITn 3"

definition PHL_MDL_TX :: u8 where "PHL_MDL_TX = 2"
definition PHL_MDL_RX :: u8 where "PHL_MDL_RX = 3"
definition PHL_MDL_MRC :: u8 where "PHL_MDL_MRC = 10"
definition PHL_MDL_SER :: u8 where "PHL_MDL_SER = 42"

subsection \<open>The handlers\<close>

text \<open>The operations of the bus: \<open>trx_resume\<close>, \<open>req_tx_stop\<close>, \<open>tx_stop\<close> and \<open>is_tx_pause\<close>.\<close>

definition phl_trx_resume_usb :: "trx_dir \<Rightarrow> dp_state \<Rightarrow> dp_state" where
  "phl_trx_resume_usb d = on_path d (\<lambda>p. p\<lparr>sw_sts := STS_RUNNING\<rparr>)"

definition phl_req_stop_usb :: "trx_dir \<Rightarrow> dp_state \<Rightarrow> dp_state" where
  "phl_req_stop_usb d = on_path d (\<lambda>p. p\<lparr>sw_sts := STS_STOP_INPROGRESS\<rparr>)"

definition phl_stop_usb :: "trx_dir \<Rightarrow> dp_state \<Rightarrow> dp_state" where
  "phl_stop_usb d = on_path d (\<lambda>p. p\<lparr>sw_sts := STS_SW_PAUSE\<rparr>)"

definition phl_is_sw_pause_usb :: "trx_dir \<Rightarrow> dp_state \<Rightarrow> bool" where
  "phl_is_sw_pause_usb d s \<longleftrightarrow> sw_sts (path d s) = STS_SW_PAUSE"

text \<open>Scheduling a tasklet always succeeds; one that runs already will run once more.\<close>

definition phl_schedule_handler :: "trx_dir \<Rightarrow> dp_state \<Rightarrow> phl_status \<times> dp_state" where
  "phl_schedule_handler d s = (RTW_PHL_STATUS_SUCCESS, on_path d (\<lambda>p. p\<lparr>scheduled := True\<rparr>) s)"

text \<open>\<open>_phl_datapath_req_pwr\<close>; \<open>sent\<close> tells whether the dispatcher takes the message.\<close>

definition phl_datapath_req_pwr :: "trx_dir \<Rightarrow> bool \<Rightarrow> dp_state \<Rightarrow> dp_state" where
  "phl_datapath_req_pwr d sent s =
     (let s = on_path d (\<lambda>p. p\<lparr>sw_req_pwr := True\<rparr>) s in
      if sent then log_dp (Pwr_request d) s else on_path d (\<lambda>p. p\<lparr>sw_req_pwr := False\<rparr>) s)"

definition phl_datapath_chk_pwr :: "trx_dir \<Rightarrow> bool \<Rightarrow> dp_state \<Rightarrow> bool \<times> dp_state" where
  "phl_datapath_chk_pwr d sent s =
     (if pause_id (path d s) AND NOT DATA_CTRL_MDL_PS \<noteq> 0 then (False, s)
      else if \<not> lps_pause_tx s then (False, s)
      else (True, if sw_more (path d s) \<and> \<not> sw_req_pwr (path d s) then phl_datapath_req_pwr d sent s else s))"

definition phl_datapath_chk_trx_pause :: "trx_dir \<Rightarrow> bool \<Rightarrow> dp_state \<Rightarrow> bool \<times> dp_state" where
  "phl_datapath_chk_trx_pause d sent s =
     (if sw_sts (path d s) = STS_SW_PAUSE then (True, snd (phl_datapath_chk_pwr d sent s)) else (False, s))"

text \<open>The completion of the power request, \<open>_phl_req_pwr_cb\<close>.\<close>

definition phl_req_pwr_cb :: "trx_dir \<Rightarrow> bool \<Rightarrow> dp_state \<Rightarrow> dp_state" where
  "phl_req_pwr_cb d fail s =
     (let s = on_path d (\<lambda>p. p\<lparr>sw_req_pwr := False\<rparr>) s in
      if fail then s else snd (phl_schedule_handler d s))"

text \<open>
  A step of \<open>_phl_tx_callback_usb\<close> or \<open>_phl_rx_callback_usb\<close>. The work, whatever it is, is one
  step; \<open>phl_check_xmit_ring_resource\<close> clears \<open>phl_sw_tx_more\<close> in it. With data to send and no
  power the transmit side goes to the test for a stop without working.
\<close>

definition set_pc :: "trx_dir \<Rightarrow> handler_pc \<Rightarrow> dp_state \<Rightarrow> dp_state" where
  "set_pc d k = on_path d (\<lambda>p. p\<lparr>handler := k\<rparr>)"

definition handler_step :: "trx_dir \<Rightarrow> bool \<Rightarrow> bool \<Rightarrow> dp_state \<Rightarrow> dp_state" where
  "handler_step d allowed sent s =
     (case handler (path d s) of
        H_off \<Rightarrow>
          if scheduled (path d s) then on_path d (\<lambda>p. p\<lparr>scheduled := False, handler := H_check\<rparr>) s else s
      | H_check \<Rightarrow>
          (case phl_datapath_chk_trx_pause d sent s of
             (True, s) \<Rightarrow> set_pc d H_off s
           | (False, s) \<Rightarrow>
               set_pc d (if d = TX \<and> sw_more (path d s) \<and> \<not> allowed then H_stop else H_work) s)
      | H_work \<Rightarrow>
          log_dp (Worked d)
            (on_path d (\<lambda>p. p\<lparr>handler := H_stop, sw_more := sw_more p \<and> d = RX\<rparr>) s)
      | H_stop \<Rightarrow> set_pc d (if sw_sts (path d s) = STS_STOP_INPROGRESS then H_ack else H_off) s
      | H_ack \<Rightarrow> set_pc d H_off (phl_stop_usb d s))"

fun dp_moves :: "dp_move list \<Rightarrow> dp_state \<Rightarrow> dp_state" where
  "dp_moves [] s = s"
| "dp_moves (m # ms) s =
     dp_moves ms
       (case m of
          Handler_step d allowed sent \<Rightarrow> handler_step d allowed sent s
        | Notify d \<Rightarrow> snd (phl_schedule_handler d s)
        | New_request \<Rightarrow> on_path TX (\<lambda>p. p\<lparr>sw_more := True\<rparr>) s
        | Pwr_done d fail \<Rightarrow> phl_req_pwr_cb d fail s)"

text \<open>The next round of the others; without one nothing happens but a tick of the clock.\<close>

definition others :: "dp_state \<Rightarrow> dp_state" where
  "others s =
     (case rounds s of
        [] \<Rightarrow> s\<lparr>clock := clock s + 1\<rparr>
      | (ms, dt) # rs \<Rightarrow> dp_moves ms (s\<lparr>rounds := rs, clock := clock s + dt\<rparr>))"

subsection \<open>Pausing and resuming one side\<close>

definition phl_get_ctrl_mdl :: "u8 \<Rightarrow> u32" where
  "phl_get_ctrl_mdl k =
     (if k = PHL_MDL_PHY_MGNT then DATA_CTRL_MDL_CMD_CTRLER
      else if k = PHL_MDL_SER then DATA_CTRL_MDL_SER
      else if k = PHL_MDL_POWER_MGNT then DATA_CTRL_MDL_PS
      else if k = PHL_MDL_MRC then DATA_CTRL_MDL_MRC
      else DATA_CTRL_MDL_NONE)"

definition phl_get_passing_time_ms :: "u32 \<Rightarrow> u32 \<Rightarrow> u32" where
  "phl_get_passing_time_ms start now =
     (if now = start then 0 else if now > start then now - start else 0xFFFFFFFF - start + now)"

definition POLL_SW_TX_PAUSE_MAX_MS :: u32 where "POLL_SW_TX_PAUSE_MAX_MS = 500"

text \<open>
  \<open>_phl_sw_tx_resume\<close> and \<open>_phl_sw_rx_resume\<close> differ in the variables and the handler only.
\<close>

definition sw_resume :: "trx_dir \<Rightarrow> u32 \<Rightarrow> dp_state \<Rightarrow> phl_status \<times> dp_state" where
  "sw_resume d ctrl_mdl s =
     (let s = others s in
      if sw_sts (path d s) = STS_IDLE then (RTW_PHL_STATUS_SUCCESS, phl_trx_resume_usb d (others s))
      else if \<not> TEST_STATUS_FLAG (pause_id (path d s)) ctrl_mdl then (RTW_PHL_STATUS_FAILURE, s)
      else
        let s = on_path d (\<lambda>p. p\<lparr>pause_id := CLEAR_STATUS_FLAG (pause_id p) ctrl_mdl\<rparr>) (others s) in
        if pause_id (path d s) \<noteq> DATA_CTRL_MDL_NONE then (RTW_PHL_STATUS_SUCCESS, s)
        else phl_schedule_handler d (others (phl_trx_resume_usb d (others s))))"

definition phl_sw_tx_resume :: "u8 \<Rightarrow> dp_state \<Rightarrow> phl_status \<times> dp_state" where
  "phl_sw_tx_resume mdl = sw_resume TX (phl_get_ctrl_mdl mdl)"

definition phl_sw_rx_resume :: "u8 \<Rightarrow> dp_state \<Rightarrow> phl_status \<times> dp_state" where
  "phl_sw_rx_resume mdl = sw_resume RX (phl_get_ctrl_mdl mdl)"

definition set_pause_id :: "trx_dir \<Rightarrow> u32 \<Rightarrow> dp_state \<Rightarrow> dp_state" where
  "set_pause_id d ctrl_mdl s =
     on_path d (\<lambda>p. p\<lparr>pause_id := SET_STATUS_FLAG (pause_id p) ctrl_mdl\<rparr>) (others s)"

text \<open>
  The loop that waits for the handler, \<open>i\<close> counts its rounds: whether it saw the acknowledgement.
\<close>

definition POLL_ROUNDS :: int where "POLL_ROUNDS = 10000"

function poll_pause :: "trx_dir \<Rightarrow> u32 \<Rightarrow> int \<Rightarrow> dp_state \<Rightarrow> bool \<times> dp_state" where
  "poll_pause d start i s =
     (if i < POLL_ROUNDS
      then (let s = others s in
            if phl_get_passing_time_ms start (clock s) < POLL_SW_TX_PAUSE_MAX_MS
            then (let s = others s in
                  if phl_is_sw_pause_usb d s then (True, s) else poll_pause d start (i + 1) s)
            else (False, s))
      else (False, s))"
  by pat_completeness auto
termination by (relation "measure (\<lambda>(d, start, i, s). nat (POLL_ROUNDS - i))") auto

declare poll_pause.simps [simp del]

text \<open>
  \<open>_phl_sw_tx_pause\<close> and \<open>_phl_sw_rx_pause\<close>; the receive side handles the packets that are
  queued when the handler has stopped.
\<close>

definition sw_pause :: "trx_dir \<Rightarrow> u32 \<Rightarrow> dp_state \<Rightarrow> phl_status \<times> dp_state" where
  "sw_pause d ctrl_mdl s =
     (let s = others s in
      if sw_sts (path d s) = STS_SW_PAUSE then (RTW_PHL_STATUS_SUCCESS, set_pause_id d ctrl_mdl s)
      else
        let s = others s in
        if sw_sts (path d s) = STS_STOP_INPROGRESS then (RTW_PHL_STATUS_SUCCESS, set_pause_id d ctrl_mdl s)
        else
          let s = phl_req_stop_usb d (others s) in
          case phl_schedule_handler d (others s) of
            (RTW_PHL_STATUS_SUCCESS, s) \<Rightarrow>
              (let s = others s in
               case poll_pause d (clock s) 0 s of
                 (True, s) \<Rightarrow>
                   (RTW_PHL_STATUS_SUCCESS,
                    set_pause_id d ctrl_mdl (if d = RX then log_dp Queued_rx s else s))
               | (False, s) \<Rightarrow> (RTW_PHL_STATUS_CMD_TIMEOUT, set_pause_id d ctrl_mdl s))
          | (_, s) \<Rightarrow> (RTW_PHL_STATUS_FAILURE, s))"

definition phl_sw_tx_pause :: "u8 \<Rightarrow> dp_state \<Rightarrow> phl_status \<times> dp_state" where
  "phl_sw_tx_pause mdl = sw_pause TX (phl_get_ctrl_mdl mdl)"

definition phl_sw_rx_pause :: "u8 \<Rightarrow> dp_state \<Rightarrow> phl_status \<times> dp_state" where
  "phl_sw_rx_pause mdl = sw_pause RX (phl_get_ctrl_mdl mdl)"

definition phl_sw_tx_rst :: "dp_state \<Rightarrow> dp_state" where "phl_sw_tx_rst = log_dp (Was_reset TX)"
definition phl_sw_rx_rst :: "dp_state \<Rightarrow> dp_state" where "phl_sw_rx_rst = log_dp (Was_reset RX)"

text \<open>\<open>rtw_phl_tx_stop\<close> and \<open>rtw_phl_tx_resume\<close>, which the channel switch uses.\<close>

definition rtw_phl_tx_stop :: "dp_state \<Rightarrow> dp_state" where
  "rtw_phl_tx_stop s = phl_req_stop_usb TX (others s)"

definition rtw_phl_tx_resume :: "dp_state \<Rightarrow> dp_state" where
  "rtw_phl_tx_resume s = phl_trx_resume_usb TX (others s)"

subsection \<open>The hardware\<close>

definition rtw_hal_lv1_rcvy :: "dp_state \<Rightarrow> bool \<times> dp_state" where
  "rtw_hal_lv1_rcvy s = (case hal s of [] \<Rightarrow> (True, s) | r # rs \<Rightarrow> (r, s\<lparr>hal := rs\<rparr>))"

definition phl_hw_trx_rst_resume :: "dp_state \<Rightarrow> phl_status \<times> dp_state" where
  "phl_hw_trx_rst_resume s =
     (case rtw_hal_lv1_rcvy s of
        (False, s) \<Rightarrow> (RTW_PHL_STATUS_FAILURE, s)
      | (True, s) \<Rightarrow> (RTW_PHL_STATUS_SUCCESS, s\<lparr>is_hw_trx_pause := False\<rparr>))"

definition phl_hw_trx_pause :: "dp_state \<Rightarrow> phl_status \<times> dp_state" where
  "phl_hw_trx_pause s =
     (case rtw_hal_lv1_rcvy s of
        (False, s) \<Rightarrow> (RTW_PHL_STATUS_FAILURE, s)
      | (True, s) \<Rightarrow> (RTW_PHL_STATUS_SUCCESS, s\<lparr>is_hw_trx_pause := True\<rparr>))"

subsection \<open>Both sides\<close>

definition and_then ::
  "phl_status \<times> dp_state \<Rightarrow> (dp_state \<Rightarrow> phl_status \<times> dp_state) \<Rightarrow> phl_status \<times> dp_state" where
  "and_then r f = (case r of (sts, s) \<Rightarrow> if sts \<noteq> RTW_PHL_STATUS_SUCCESS then (sts, s) else f s)"

definition phl_trx_sw_pause :: "u8 \<Rightarrow> dp_state \<Rightarrow> phl_status \<times> dp_state" where
  "phl_trx_sw_pause mdl s = and_then (phl_sw_tx_pause mdl s) (phl_sw_rx_pause mdl)"

definition phl_trx_sw_resume :: "u8 \<Rightarrow> dp_state \<Rightarrow> phl_status \<times> dp_state" where
  "phl_trx_sw_resume mdl s = and_then (phl_sw_tx_resume mdl s) (phl_sw_rx_resume mdl)"

datatype data_ctrl_err =
    CTRL_ERR_SW_TX_PAUSE_POLLTO | CTRL_ERR_SW_TX_PAUSE_FAIL | CTRL_ERR_SW_TX_RESUME_FAIL
  | CTRL_ERR_SW_RX_PAUSE_POLLTO | CTRL_ERR_SW_RX_PAUSE_FAIL | CTRL_ERR_SW_RX_RESUME_FAIL
  | CTRL_ERR_HW_TRX_PAUSE_FAIL | CTRL_ERR_HW_TRX_RESUME_FAIL

text \<open>
  The result of the two operations with a reset has the error code for the output buffer of
  the message, which is written when the buffer has the size of a code.
\<close>

definition phl_trx_pause_w_rst :: "u8 \<Rightarrow> dp_state \<Rightarrow> phl_status \<times> data_ctrl_err option \<times> dp_state" where
  "phl_trx_pause_w_rst mdl s =
     (case phl_sw_tx_pause mdl s of (sts, s) \<Rightarrow>
        if sts \<noteq> RTW_PHL_STATUS_SUCCESS
        then (sts, Some (if sts = RTW_PHL_STATUS_CMD_TIMEOUT then CTRL_ERR_SW_TX_PAUSE_POLLTO
                         else CTRL_ERR_SW_TX_PAUSE_FAIL), s)
        else (case phl_hw_trx_pause s of (sts, s) \<Rightarrow>
          if sts \<noteq> RTW_PHL_STATUS_SUCCESS then (sts, Some CTRL_ERR_HW_TRX_PAUSE_FAIL, s)
          else (case phl_sw_rx_pause mdl s of (sts, s) \<Rightarrow>
            if sts \<noteq> RTW_PHL_STATUS_SUCCESS
            then (sts, Some (if sts = RTW_PHL_STATUS_CMD_TIMEOUT then CTRL_ERR_SW_RX_PAUSE_POLLTO
                             else CTRL_ERR_SW_RX_PAUSE_FAIL), s)
            else (sts, None, phl_sw_rx_rst (phl_sw_tx_rst s)))))"

definition phl_trx_resume_w_rst :: "u8 \<Rightarrow> dp_state \<Rightarrow> phl_status \<times> data_ctrl_err option \<times> dp_state" where
  "phl_trx_resume_w_rst mdl s =
     (case phl_sw_rx_resume mdl s of (sts, s) \<Rightarrow>
        if sts \<noteq> RTW_PHL_STATUS_SUCCESS then (sts, Some CTRL_ERR_SW_RX_RESUME_FAIL, s)
        else (case phl_hw_trx_rst_resume s of (sts, s) \<Rightarrow>
          if sts \<noteq> RTW_PHL_STATUS_SUCCESS then (sts, Some CTRL_ERR_HW_TRX_RESUME_FAIL, s)
          else (case phl_sw_tx_resume mdl s of (sts, s) \<Rightarrow>
            if sts \<noteq> RTW_PHL_STATUS_SUCCESS then (sts, Some CTRL_ERR_SW_TX_RESUME_FAIL, s)
            else (sts, None, s))))"

datatype data_ctl_cmd =
    PHL_DATA_CTL_HW_TRX_RST_RESUME | PHL_DATA_CTL_HW_TRX_PAUSE
  | PHL_DATA_CTL_SW_TX_RESUME | PHL_DATA_CTL_SW_RX_RESUME
  | PHL_DATA_CTL_SW_TX_PAUSE | PHL_DATA_CTL_SW_RX_PAUSE
  | PHL_DATA_CTL_SW_TX_RESET | PHL_DATA_CTL_SW_RX_RESET
  | PHL_DATA_CTL_TRX_SW_PAUSE | PHL_DATA_CTL_TRX_SW_RESUME
  | PHL_DATA_CTL_TRX_PAUSE_W_RST | PHL_DATA_CTL_TRX_RESUME_W_RST
  | PHL_DATA_CTL_MAX

definition no_err :: "phl_status \<times> dp_state \<Rightarrow> phl_status \<times> data_ctrl_err option \<times> dp_state" where
  "no_err r = (fst r, None, snd r)"

definition phl_data_ctrler ::
  "data_ctl_cmd \<Rightarrow> u8 \<Rightarrow> dp_state \<Rightarrow> phl_status \<times> data_ctrl_err option \<times> dp_state" where
  "phl_data_ctrler cmd mdl s =
     (case cmd of
        PHL_DATA_CTL_HW_TRX_RST_RESUME \<Rightarrow> no_err (phl_hw_trx_rst_resume s)
      | PHL_DATA_CTL_HW_TRX_PAUSE \<Rightarrow> no_err (phl_hw_trx_pause s)
      | PHL_DATA_CTL_SW_TX_RESUME \<Rightarrow> no_err (phl_sw_tx_resume mdl s)
      | PHL_DATA_CTL_SW_RX_RESUME \<Rightarrow> no_err (phl_sw_rx_resume mdl s)
      | PHL_DATA_CTL_SW_TX_PAUSE \<Rightarrow> no_err (phl_sw_tx_pause mdl s)
      | PHL_DATA_CTL_SW_RX_PAUSE \<Rightarrow> no_err (phl_sw_rx_pause mdl s)
      | PHL_DATA_CTL_SW_TX_RESET \<Rightarrow> (RTW_PHL_STATUS_SUCCESS, None, phl_sw_tx_rst s)
      | PHL_DATA_CTL_SW_RX_RESET \<Rightarrow> (RTW_PHL_STATUS_SUCCESS, None, phl_sw_rx_rst s)
      | PHL_DATA_CTL_TRX_SW_PAUSE \<Rightarrow> no_err (phl_trx_sw_pause mdl s)
      | PHL_DATA_CTL_TRX_SW_RESUME \<Rightarrow> no_err (phl_trx_sw_resume mdl s)
      | PHL_DATA_CTL_TRX_PAUSE_W_RST \<Rightarrow> phl_trx_pause_w_rst mdl s
      | PHL_DATA_CTL_TRX_RESUME_W_RST \<Rightarrow> phl_trx_resume_w_rst mdl s
      | PHL_DATA_CTL_MAX \<Rightarrow> (RTW_PHL_STATUS_FAILURE, None, s))"

definition phl_datapath_start_sw :: "u8 \<Rightarrow> dp_state \<Rightarrow> phl_status \<times> dp_state" where
  "phl_datapath_start_sw mdl s =
     (RTW_PHL_STATUS_SUCCESS,
      snd (snd (phl_data_ctrler PHL_DATA_CTL_SW_RX_RESUME mdl
        (snd (snd (phl_data_ctrler PHL_DATA_CTL_SW_TX_RESUME mdl s))))))"

definition phl_datapath_stop_sw :: "u8 \<Rightarrow> dp_state \<Rightarrow> dp_state" where
  "phl_datapath_stop_sw mdl s =
     snd (snd (phl_data_ctrler PHL_DATA_CTL_SW_RX_PAUSE mdl
       (snd (snd (phl_data_ctrler PHL_DATA_CTL_SW_TX_PAUSE mdl s)))))"

end
