(* ===== verification/DataCtrlInv.thy ===== *)
theory DataCtrlInv
  imports DataCtrl
begin

text \<open>
  The control of the data path behaves like a set of owners per direction, whatever the
  handlers and the core do at the same time, and a direction that has an owner does not work.
\<close>

subsection \<open>What the others can do\<close>

lemma path_on_path [simp]:
  "path d (on_path d' f s) = (if d = d' then f (path d s) else path d s)"
  by (cases d; cases d') (simp_all add: path_def on_path_def)

lemma path_frame [simp]:
  "path d (log_dp ev s) = path d s" "path d (s\<lparr>clock := t\<rparr>) = path d s"
  "path d (s\<lparr>rounds := rs\<rparr>) = path d s" "path d (s\<lparr>hal := h\<rparr>) = path d s"
  "path d (s\<lparr>is_hw_trx_pause := b\<rparr>) = path d s"
  by (cases d; simp add: path_def log_dp_def)+

lemma on_path_frame [simp]:
  "is_hw_trx_pause (on_path d f s) = is_hw_trx_pause s" "hal (on_path d f s) = hal s"
  "dp_log (on_path d f s) = dp_log s" "lps_pause_tx (on_path d f s) = lps_pause_tx s"
  by (cases d; simp add: on_path_def)+

lemma log_dp_frame [simp]:
  "is_hw_trx_pause (log_dp ev s) = is_hw_trx_pause s" "hal (log_dp ev s) = hal s"
  "dp_log (log_dp ev s) = ev # dp_log s" "lps_pause_tx (log_dp ev s) = lps_pause_tx s"
  by (simp_all add: log_dp_def)

definition resting :: "data_path \<Rightarrow> bool" where
  "resting p \<longleftrightarrow> sw_sts p = STS_SW_PAUSE \<and> (handler p = H_off \<or> handler p = H_check)"

definition going :: "data_path \<Rightarrow> bool" where
  "going p \<longleftrightarrow> (sw_sts p = STS_IDLE \<or> sw_sts p = STS_RUNNING) \<and> handler p \<noteq> H_ack"

definition drift :: "data_path \<Rightarrow> data_path \<Rightarrow> bool" where
  "drift p q \<longleftrightarrow> pause_id q = pause_id p \<and>
     (going p \<longrightarrow> going q \<and> sw_sts q = sw_sts p) \<and>
     (resting p \<longrightarrow> resting q) \<and>
     (sw_sts p = STS_STOP_INPROGRESS \<longrightarrow> sw_sts q = STS_STOP_INPROGRESS \<or> resting q)"

definition works :: "trx_dir \<Rightarrow> dp_state \<Rightarrow> nat" where
  "works d s = count_list (dp_log s) (Worked d)"

text \<open>What a direction sees of a step that is not its own, and of the moves of the others.\<close>

definition side_drift :: "trx_dir \<Rightarrow> dp_state \<Rightarrow> dp_state \<Rightarrow> bool" where
  "side_drift d s t \<longleftrightarrow> drift (path d s) (path d t) \<and>
     is_hw_trx_pause t = is_hw_trx_pause s \<and> hal t = hal s \<and>
     (resting (path d s) \<longrightarrow> works d t = works d s)"

definition dp_drift :: "dp_state \<Rightarrow> dp_state \<Rightarrow> bool" where
  "dp_drift s t \<longleftrightarrow> (\<forall>d. side_drift d s t)"

lemma drift_refl [simp]: "drift p p"
  by (simp add: drift_def)

lemma drift_trans: "drift p q \<Longrightarrow> drift q r \<Longrightarrow> drift p r"
  by (auto simp: drift_def)

lemma side_drift_refl [simp]: "side_drift d s s"
  by (simp add: side_drift_def)

lemma dp_drift_refl [simp]: "dp_drift s s"
  by (simp add: dp_drift_def)

lemma side_drift_trans:
  assumes "side_drift d s t" "side_drift d t u"
  shows "side_drift d s u"
proof -
  have "resting (path d s) \<Longrightarrow> resting (path d t)"
    using assms(1) by (simp add: side_drift_def drift_def)
  with assms drift_trans show ?thesis by (simp add: side_drift_def) blast
qed

lemma dp_drift_trans: "dp_drift s t \<Longrightarrow> dp_drift t u \<Longrightarrow> dp_drift s u"
  using side_drift_trans unfolding dp_drift_def by blast

text \<open>A change of one path that drifts, with events that are not work.\<close>

lemma dp_drift_on_path: "drift (path d s) (f (path d s)) \<Longrightarrow> dp_drift s (on_path d f s)"
  by (auto simp: dp_drift_def side_drift_def works_def)

lemma dp_drift_log: "(\<And>d. ev = Worked d \<Longrightarrow> \<not> resting (path d s)) \<Longrightarrow> dp_drift s (log_dp ev s)"
  by (auto simp: dp_drift_def side_drift_def works_def)

lemma dp_drift_chk_pwr: "dp_drift s (snd (phl_datapath_chk_pwr d sent s))"
proof -
  have "dp_drift s (phl_datapath_req_pwr d sent s)"
  proof -
    let ?s = "on_path d (\<lambda>p. p\<lparr>sw_req_pwr := True\<rparr>) s"
    have 1: "dp_drift s ?s" by (rule dp_drift_on_path) (simp add: drift_def going_def resting_def)
    have 2: "dp_drift ?s (log_dp (Pwr_request d) ?s)" by (rule dp_drift_log) simp
    have 3: "dp_drift ?s (on_path d (\<lambda>p. p\<lparr>sw_req_pwr := False\<rparr>) ?s)"
      by (rule dp_drift_on_path) (simp add: drift_def going_def resting_def)
    show ?thesis
      using dp_drift_trans [OF 1 2] dp_drift_trans [OF 1 3] by (simp add: phl_datapath_req_pwr_def Let_def)
  qed
  then show ?thesis by (simp add: phl_datapath_chk_pwr_def)
qed

lemma sw_sts_chk_pwr [simp]: "sw_sts (path d' (snd (phl_datapath_chk_pwr d sent s))) = sw_sts (path d' s)"
  by (simp add: phl_datapath_chk_pwr_def phl_datapath_req_pwr_def Let_def)

lemma handler_chk_pwr [simp]: "handler (path d' (snd (phl_datapath_chk_pwr d sent s))) = handler (path d' s)"
  by (simp add: phl_datapath_chk_pwr_def phl_datapath_req_pwr_def Let_def)

lemma handler_step_drift: "dp_drift s (handler_step d allowed sent s)"
proof (cases "handler (path d s)")
  case H_off
  have "dp_drift s (on_path d (\<lambda>p. p\<lparr>scheduled := False, handler := H_check\<rparr>) s)"
    by (rule dp_drift_on_path) (use H_off in \<open>auto simp: drift_def going_def resting_def\<close>)
  with H_off show ?thesis by (simp add: handler_step_def)
next
  case H_check
  show ?thesis
  proof (cases "sw_sts (path d s) = STS_SW_PAUSE")
    case True
    let ?t = "snd (phl_datapath_chk_pwr d sent s)"
    have "dp_drift ?t (set_pc d H_off ?t)"
      unfolding set_pc_def by (rule dp_drift_on_path) (simp add: drift_def going_def resting_def)
    with True H_check dp_drift_trans [OF dp_drift_chk_pwr] show ?thesis
      by (simp add: handler_step_def phl_datapath_chk_trx_pause_def)
  next
    case False
    have "dp_drift s (set_pc d k s)" if "k = H_stop \<or> k = H_work" for k
      unfolding set_pc_def by (rule dp_drift_on_path) (use that False in \<open>auto simp: drift_def going_def resting_def\<close>)
    with False H_check show ?thesis
      by (simp add: handler_step_def phl_datapath_chk_trx_pause_def)
  qed
next
  case H_work
  let ?t = "on_path d (\<lambda>p. p\<lparr>handler := H_stop, sw_more := sw_more p \<and> d = RX\<rparr>) s"
  have nr: "\<not> resting (path d s)" using H_work by (simp add: resting_def)
  have "dp_drift s ?t" by (rule dp_drift_on_path) (use H_work in \<open>auto simp: drift_def going_def resting_def\<close>)
  moreover have "dp_drift ?t (log_dp (Worked d) ?t)"
    by (rule dp_drift_log) (auto simp: resting_def)
  ultimately show ?thesis using H_work dp_drift_trans by (auto simp: handler_step_def)
next
  case H_stop
  have "dp_drift s (set_pc d (if sw_sts (path d s) = STS_STOP_INPROGRESS then H_ack else H_off) s)"
    unfolding set_pc_def by (rule dp_drift_on_path) (use H_stop in \<open>auto simp: drift_def going_def resting_def\<close>)
  with H_stop show ?thesis by (simp add: handler_step_def)
next
  case H_ack
  have e: "set_pc d H_off (phl_stop_usb d s) = on_path d (\<lambda>p. p\<lparr>sw_sts := STS_SW_PAUSE, handler := H_off\<rparr>) s"
    by (cases d) (simp_all add: set_pc_def phl_stop_usb_def on_path_def)
  have "dp_drift s (on_path d (\<lambda>p. p\<lparr>sw_sts := STS_SW_PAUSE, handler := H_off\<rparr>) s)"
    by (rule dp_drift_on_path) (use H_ack in \<open>auto simp: drift_def going_def resting_def\<close>)
  with H_ack e show ?thesis by (simp add: handler_step_def)
qed

lemma schedule_drift: "dp_drift s (on_path d (\<lambda>p. p\<lparr>scheduled := True\<rparr>) s)"
  by (rule dp_drift_on_path) (simp add: drift_def going_def resting_def)

lemma dp_moves_drift: "dp_drift s (dp_moves ms s)"
proof (induction ms arbitrary: s)
  case (Cons m ms)
  have 1: "dp_drift s (on_path TX (\<lambda>p. p\<lparr>sw_more := True\<rparr>) s)"
    by (rule dp_drift_on_path) (simp add: drift_def going_def resting_def)
  have 2: "dp_drift s (on_path d (\<lambda>p. p\<lparr>sw_req_pwr := False\<rparr>) s)" for d
    by (rule dp_drift_on_path) (simp add: drift_def going_def resting_def)
  have "dp_drift s (case m of
          Handler_step d allowed sent \<Rightarrow> handler_step d allowed sent s
        | Notify d \<Rightarrow> snd (phl_schedule_handler d s)
        | New_request \<Rightarrow> on_path TX (\<lambda>p. p\<lparr>sw_more := True\<rparr>) s
        | Pwr_done d fail \<Rightarrow> phl_req_pwr_cb d fail s)"
    using handler_step_drift schedule_drift 1 2 dp_drift_trans [OF 2 schedule_drift]
    by (simp add: phl_schedule_handler_def phl_req_pwr_cb_def Let_def split: dp_move.split)
  from dp_drift_trans [OF this Cons.IH] show ?case by simp
qed simp

lemma others_drift: "dp_drift s (others s)"
proof -
  have 1: "dp_drift s (s\<lparr>clock := t\<rparr>)" "dp_drift s (s\<lparr>rounds := rs, clock := t\<rparr>)" for t rs
    by (simp_all add: dp_drift_def side_drift_def works_def)
  from dp_drift_trans [OF 1(2) dp_moves_drift] 1 show ?thesis
    by (simp add: others_def split: list.split prod.split)
qed


subsection \<open>One direction\<close>

definition path_good :: "data_path \<Rightarrow> bool" where
  "path_good p \<longleftrightarrow> going p \<and> pause_id p = 0 \<or> resting p \<and> pause_id p \<noteq> 0"

lemma side_others: "side_drift d s (others s)"
  using others_drift by (simp add: dp_drift_def)

lemma side_on_other: "d \<noteq> e \<Longrightarrow> side_drift e s (on_path d f s)"
  by (simp add: side_drift_def works_def)

lemma side_others_on: "d \<noteq> e \<Longrightarrow> side_drift e s (on_path d f (others s))"
  using side_drift_trans [OF side_others side_on_other] .

lemma side_log: "ev \<noteq> Worked e \<Longrightarrow> side_drift e s (log_dp ev s)"
  by (simp add: side_drift_def works_def)

lemmas dp_ops = phl_trx_resume_usb_def phl_req_stop_usb_def phl_schedule_handler_def set_pause_id_def
  phl_is_sw_pause_usb_def Let_def

lemma going_others: "going (path d s) \<Longrightarrow> going (path d (others s)) \<and> sw_sts (path d (others s)) = sw_sts (path d s)"
  using side_others [of d s] by (simp add: side_drift_def drift_def)

lemma resting_others: "resting (path d s) \<Longrightarrow> resting (path d (others s)) \<and> works d (others s) = works d s"
  using side_others [of d s] by (simp add: side_drift_def drift_def)

lemma pause_id_others [simp]: "pause_id (path d (others s)) = pause_id (path d s)"
  using side_others [of d s] by (simp add: side_drift_def drift_def)

lemma others_frame [simp]: "is_hw_trx_pause (others s) = is_hw_trx_pause s" "hal (others s) = hal s"
  using side_others [of TX s] by (simp_all add: side_drift_def)

lemma sw_resume_other:
  assumes "d \<noteq> e"
  shows "side_drift e s (snd (sw_resume d m s))"
proof -
  note tr = side_drift_trans [OF _ side_others_on [OF assms]] side_drift_trans [OF _ side_on_other [OF assms]]
    side_drift_trans [OF _ side_others]
  show ?thesis
    unfolding sw_resume_def dp_ops by (auto intro!: tr side_others)
qed

lemma side_others2: "side_drift e s (others (others s))"
  by (rule side_drift_trans [OF side_others side_others])

lemma poll_pause_rounds:
  assumes "\<And>i s. (\<And>t. i < POLL_ROUNDS \<Longrightarrow> P (i + 1) t) \<Longrightarrow> P i s"
  shows "P i s"
proof (induction "nat (POLL_ROUNDS - i)" arbitrary: i s rule: less_induct)
  case less
  show ?case by (rule assms, rule less) simp
qed

lemma poll_other: "side_drift e s (snd (poll_pause d start i s))"
proof (induction i s rule: poll_pause_rounds)
  case (1 i s)
  have "i < POLL_ROUNDS \<Longrightarrow> side_drift e s (snd (poll_pause d start (i + 1) (others (others s))))"
    by (rule side_drift_trans [OF side_others2 1])
  then show ?case using side_others side_others2 by (subst poll_pause.simps) (simp add: Let_def)
qed

definition ask_stop :: "trx_dir \<Rightarrow> dp_state \<Rightarrow> dp_state" where
  "ask_stop d s = others (snd (phl_schedule_handler d (others (phl_req_stop_usb d (others s)))))"

definition stop_polled :: "trx_dir \<Rightarrow> dp_state \<Rightarrow> bool \<times> dp_state" where
  "stop_polled d s = poll_pause d (clock (ask_stop d s)) 0 (ask_stop d s)"

lemma sw_pause_cases:
  "sw_pause d m s =
     (if sw_sts (path d (others s)) = STS_SW_PAUSE then (RTW_PHL_STATUS_SUCCESS, set_pause_id d m (others s))
      else if sw_sts (path d (others (others s))) = STS_STOP_INPROGRESS
      then (RTW_PHL_STATUS_SUCCESS, set_pause_id d m (others (others s)))
      else (case stop_polled d (others (others s)) of
              (True, t) \<Rightarrow> (RTW_PHL_STATUS_SUCCESS, set_pause_id d m (if d = RX then log_dp Queued_rx t else t))
            | (False, t) \<Rightarrow> (RTW_PHL_STATUS_CMD_TIMEOUT, set_pause_id d m t)))"
  by (simp add: sw_pause_def stop_polled_def ask_stop_def phl_schedule_handler_def Let_def
      split: prod.split bool.split)

lemma set_pause_id_other: "d \<noteq> e \<Longrightarrow> side_drift e s t \<Longrightarrow> side_drift e s (set_pause_id d m t)"
  unfolding set_pause_id_def by (rule side_drift_trans [OF _ side_others_on])

lemma ask_stop_other: "d \<noteq> e \<Longrightarrow> side_drift e s (ask_stop d s)"
  unfolding ask_stop_def dp_ops snd_conv
  by (rule side_drift_trans [OF side_others_on side_drift_trans [OF side_others_on side_others]])

lemma sw_pause_other:
  assumes "d \<noteq> e"
  shows "side_drift e s (snd (sw_pause d m s))"
proof -
  obtain b t where r: "stop_polled d (others (others s)) = (b, t)" by fastforce
  have "side_drift e (ask_stop d (others (others s))) t"
    using poll_other [of e _ d _ _] r unfolding stop_polled_def by (metis snd_conv)
  then have t: "side_drift e s t"
    using side_drift_trans [OF side_drift_trans [OF side_others2 ask_stop_other [OF assms]]] by blast
  then have q: "side_drift e s (log_dp Queued_rx t)" by (rule side_drift_trans [OF _ side_log]) simp
  note p = set_pause_id_other [OF assms, of s _ m]
  from p [OF q] p [OF t] p [OF side_others] p [OF side_others2] r show ?thesis
    unfolding sw_pause_cases by (cases b) auto
qed

text \<open>The direction itself: resuming.\<close>

lemma path_good_others [simp]: "path_good (path d s) \<Longrightarrow> path_good (path d (others s))"
  using going_others [of d s] resting_others [of d s] by (auto simp: path_good_def)

lemma path_good_sts: "path_good p \<Longrightarrow> sw_sts p = STS_IDLE \<or> sw_sts p = STS_RUNNING \<or> sw_sts p = STS_SW_PAUSE"
  by (auto simp: path_good_def going_def resting_def)

lemma sts_others: "path_good (path d s) \<Longrightarrow> sw_sts (path d (others s)) = sw_sts (path d s)"
  using going_others [of d s] resting_others [of d s] by (auto simp: path_good_def resting_def)

lemma going_resume: "handler (path d s) \<noteq> H_ack \<Longrightarrow>
  going (path d (phl_trx_resume_usb d s)) \<and> sw_sts (path d (phl_trx_resume_usb d s)) = STS_RUNNING"
  by (simp add: phl_trx_resume_usb_def going_def)

lemma resting_pause_id [simp]: "resting (p\<lparr>pause_id := v\<rparr>) = resting p" "going (p\<lparr>pause_id := v\<rparr>) = going p"
  "resting (p\<lparr>scheduled := b\<rparr>) = resting p" "going (p\<lparr>scheduled := b\<rparr>) = going p"
  by (simp_all add: resting_def going_def)

lemma resting_no_ack: "resting p \<or> going p \<Longrightarrow> handler p \<noteq> H_ack"
  by (auto simp: resting_def going_def)

lemma sw_resume_idle:
  assumes "path_good (path d s)" "sw_sts (path d s) = STS_IDLE" "sw_resume d m s = (st, t)"
  shows "st = RTW_PHL_STATUS_SUCCESS \<and> path_good (path d t) \<and> sw_sts (path d t) = STS_RUNNING \<and> pause_id (path d t) = 0"
proof -
  have g: "going (path d s)" "pause_id (path d s) = 0"
    using assms(1,2) by (auto simp: path_good_def resting_def)
  then have "handler (path d (others (others s))) \<noteq> H_ack"
    using going_others resting_no_ack by blast
  from going_resume [OF this] assms g sts_others [OF assms(1)] show ?thesis
    by (auto simp: sw_resume_def path_good_def phl_trx_resume_usb_def)
qed

lemma sw_resume_not_held:
  assumes "path_good (path d s)" "sw_sts (path d s) \<noteq> STS_IDLE" "\<not> TEST_STATUS_FLAG (pause_id (path d s)) m"
    "sw_resume d m s = (st, t)"
  shows "st = RTW_PHL_STATUS_FAILURE \<and> t = others s"
  using assms sts_others [OF assms(1)] by (auto simp: sw_resume_def)

lemma sw_resume_held:
  assumes "path_good (path d s)" "sw_sts (path d s) \<noteq> STS_IDLE" "TEST_STATUS_FLAG (pause_id (path d s)) m"
    "sw_resume d m s = (st, t)" "CLEAR_STATUS_FLAG (pause_id (path d s)) m \<noteq> 0"
  shows "st = RTW_PHL_STATUS_SUCCESS \<and> resting (path d t) \<and>
     pause_id (path d t) = CLEAR_STATUS_FLAG (pause_id (path d s)) m \<and> works d t = works d s"
proof -
  have r: "resting (path d s)"
    using assms(1,5) by (auto simp: path_good_def CLEAR_STATUS_FLAG_def)
  have t: "t = on_path d (\<lambda>p. p\<lparr>pause_id := CLEAR_STATUS_FLAG (pause_id p) m\<rparr>) (others (others s))"
    "st = RTW_PHL_STATUS_SUCCESS"
    using assms sts_others [OF assms(1)] by (auto simp: sw_resume_def Let_def DATA_CTRL_MDL_NONE_def)
  then have "works d t = works d s"
    using r resting_others [of d s] resting_others [of d "others s"] by (simp add: works_def)
  with t r resting_others [of d s] resting_others [of d "others s"] show ?thesis by simp
qed

lemma sw_resume_last:
  assumes "path_good (path d s)" "sw_sts (path d s) \<noteq> STS_IDLE" "TEST_STATUS_FLAG (pause_id (path d s)) m"
    "sw_resume d m s = (st, t)" "CLEAR_STATUS_FLAG (pause_id (path d s)) m = 0"
  shows "st = RTW_PHL_STATUS_SUCCESS \<and> path_good (path d t) \<and> sw_sts (path d t) = STS_RUNNING \<and>
     pause_id (path d t) = 0 \<and> scheduled (path d t)"
proof -
  let ?u = "others (on_path d (\<lambda>p. p\<lparr>pause_id := CLEAR_STATUS_FLAG (pause_id p) m\<rparr>) (others (others s)))"
  have t: "(st, t) = phl_schedule_handler d (others (phl_trx_resume_usb d ?u))"
    using assms sts_others [OF assms(1)] by (simp add: sw_resume_def Let_def DATA_CTRL_MDL_NONE_def)
  have "resting (path d ?u) \<or> going (path d ?u)"
    using assms(1) going_others resting_others by (auto simp: path_good_def)
  then have "handler (path d ?u) \<noteq> H_ack" by (rule resting_no_ack)
  from going_resume [OF this] going_others
  have g: "going (path d (others (phl_trx_resume_usb d ?u)))"
    "sw_sts (path d (others (phl_trx_resume_usb d ?u))) = STS_RUNNING" by auto
  have "pause_id (path d (others (phl_trx_resume_usb d ?u))) = 0"
    using assms(5) by (simp add: phl_trx_resume_usb_def)
  with t g show ?thesis by (simp add: phl_schedule_handler_def path_good_def)
qed

text \<open>The direction itself: pausing.\<close>

lemma poll_resting:
  assumes "sw_sts (path d s) = STS_STOP_INPROGRESS \<or> resting (path d s)" "poll_pause d start i s = (b, t)"
  shows "(sw_sts (path d t) = STS_STOP_INPROGRESS \<or> resting (path d t)) \<and> (b \<longrightarrow> resting (path d t)) \<and>
     pause_id (path d t) = pause_id (path d s)"
  using assms
proof (induction i s rule: poll_pause_rounds)
  case (1 i s)
  have st: "sw_sts (path d (others u)) = STS_STOP_INPROGRESS \<or> resting (path d (others u))"
    if "sw_sts (path d u) = STS_STOP_INPROGRESS \<or> resting (path d u)" for u
    using that side_others [of d u] by (auto simp: side_drift_def drift_def)
  note s2 = st [OF st [OF 1(2)]]
  have "resting (path d u) \<longleftrightarrow> phl_is_sw_pause_usb d u"
    if "sw_sts (path d u) = STS_STOP_INPROGRESS \<or> resting (path d u)" for u
    using that by (auto simp: phl_is_sw_pause_usb_def resting_def)
  with 1(1) [OF _ s2] 1(2) 1(3) [unfolded poll_pause.simps [of d start i s]] s2 st [OF 1(2)] show ?case
    by (auto simp: Let_def split: if_splits)
qed

lemma ask_stop_stopping:
  "sw_sts (path d (ask_stop d s)) = STS_STOP_INPROGRESS \<or> resting (path d (ask_stop d s))"
  "pause_id (path d (ask_stop d s)) = pause_id (path d s)"
proof -
  have st: "sw_sts (path d (others u)) = STS_STOP_INPROGRESS \<or> resting (path d (others u))"
    if "sw_sts (path d u) = STS_STOP_INPROGRESS \<or> resting (path d u)" for u
    using that side_others [of d u] by (auto simp: side_drift_def drift_def)
  have 1: "sw_sts (path d (phl_req_stop_usb d u)) = STS_STOP_INPROGRESS" for u
    by (simp add: phl_req_stop_usb_def)
  have 2: "sw_sts (path d (snd (phl_schedule_handler d u))) = STS_STOP_INPROGRESS \<or>
      resting (path d (snd (phl_schedule_handler d u)))"
    if "sw_sts (path d u) = STS_STOP_INPROGRESS \<or> resting (path d u)" for u
    using that by (simp add: phl_schedule_handler_def)
  show "sw_sts (path d (ask_stop d s)) = STS_STOP_INPROGRESS \<or> resting (path d (ask_stop d s))"
    unfolding ask_stop_def by (rule st, rule 2, rule st, rule disjI1, rule 1)
  show "pause_id (path d (ask_stop d s)) = pause_id (path d s)"
    by (simp add: ask_stop_def phl_schedule_handler_def phl_req_stop_usb_def)
qed

lemma set_pause_id_path:
  "resting (path d s) \<Longrightarrow> resting (path d (set_pause_id d m s))"
  "pause_id (path d (set_pause_id d m s)) = SET_STATUS_FLAG (pause_id (path d s)) m"
  using resting_others [of d s] by (simp_all add: set_pause_id_def)

lemma works_log_queued [simp]: "works d (log_dp Queued_rx s) = works d s"
  by (simp add: works_def)

lemma sw_pause_held:
  assumes "resting (path d s)" "sw_pause d m s = (st, t)"
  shows "st = RTW_PHL_STATUS_SUCCESS \<and> resting (path d t) \<and>
     pause_id (path d t) = SET_STATUS_FLAG (pause_id (path d s)) m \<and> works d t = works d s"
proof -
  have r: "resting (path d (others s))" using assms(1) resting_others by blast
  then have "t = set_pause_id d m (others s)" "st = RTW_PHL_STATUS_SUCCESS"
    using assms(2) by (simp_all add: sw_pause_cases resting_def)
  moreover have "works d (set_pause_id d m (others s)) = works d s"
    using resting_others [OF assms(1)] resting_others [OF r] by (simp add: set_pause_id_def works_def)
  ultimately show ?thesis using r set_pause_id_path by simp
qed

lemma sw_pause_going:
  assumes "going (path d s)" "sw_pause d m s = (st, t)"
  shows "(st = RTW_PHL_STATUS_SUCCESS \<or> st = RTW_PHL_STATUS_CMD_TIMEOUT) \<and>
     (st = RTW_PHL_STATUS_SUCCESS \<longrightarrow> resting (path d t)) \<and>
     pause_id (path d t) = SET_STATUS_FLAG (pause_id (path d s)) m"
proof -
  have g: "going (path d (others (others s)))" "going (path d (others s))" using assms(1) going_others by blast+
  obtain b u where r: "stop_polled d (others (others s)) = (b, u)" by fastforce
  have u: "pause_id (path d u) = pause_id (path d s)" "b \<Longrightarrow> resting (path d u)"
    using poll_resting [OF ask_stop_stopping(1) r [unfolded stop_polled_def]] ask_stop_stopping(2)
    by simp_all
  have e: "sw_pause d m s = (if b then (RTW_PHL_STATUS_SUCCESS, set_pause_id d m (if d = RX then log_dp Queued_rx u else u))
      else (RTW_PHL_STATUS_CMD_TIMEOUT, set_pause_id d m u))"
    using g r by (auto simp: sw_pause_cases going_def)
  have "resting (path d (if d = RX then log_dp Queued_rx u else u))" if b using u(2) [OF that] by (cases "d = RX") auto
  with set_pause_id_path(1) e assms(2) u show ?thesis
    by (cases b) (auto simp: set_pause_id_path(2))
qed

end
