(* ===== verification/DataCtrlProps.thy ===== *)
theory DataCtrlProps
  imports DataCtrlInv
begin

text \<open>
  The properties of the data path control: it refines a set of owners per direction, an owner
  keeps its direction quiet, and the last resume starts the work again.
\<close>

subsection \<open>The specification\<close>

text \<open>
  Per direction the set of the modules that hold it, \<open>None\<close> before it is used for the first
  time; whether the hardware is paused, and what it answers next.
\<close>

record dp_spec =
  sp_owners :: "trx_dir \<Rightarrow> nat set option"
  sp_hw_paused :: bool
  sp_hal :: "bool list"

datatype dp_step = SP_pause trx_dir | SP_resume trx_dir | SP_hw bool | SP_reset trx_dir

fun spec_step :: "nat \<Rightarrow> dp_step \<Rightarrow> dp_spec \<Rightarrow> phl_status \<times> dp_spec" where
  "spec_step k (SP_pause d) a =
     (RTW_PHL_STATUS_SUCCESS,
      a\<lparr>sp_owners := (sp_owners a)(d \<mapsto> insert k (case sp_owners a d of None \<Rightarrow> {} | Some S \<Rightarrow> S))\<rparr>)"
| "spec_step k (SP_resume d) a =
     (case sp_owners a d of
        None \<Rightarrow> (RTW_PHL_STATUS_SUCCESS, a\<lparr>sp_owners := (sp_owners a)(d \<mapsto> {})\<rparr>)
      | Some S \<Rightarrow>
          if k \<in> S then (RTW_PHL_STATUS_SUCCESS, a\<lparr>sp_owners := (sp_owners a)(d \<mapsto> S - {k})\<rparr>)
          else (RTW_PHL_STATUS_FAILURE, a))"
| "spec_step k (SP_hw b) a =
     (case sp_hal a of
        [] \<Rightarrow> (RTW_PHL_STATUS_SUCCESS, a\<lparr>sp_hw_paused := b\<rparr>)
      | True # rs \<Rightarrow> (RTW_PHL_STATUS_SUCCESS, a\<lparr>sp_hw_paused := b, sp_hal := rs\<rparr>)
      | False # rs \<Rightarrow> (RTW_PHL_STATUS_FAILURE, a\<lparr>sp_hal := rs\<rparr>))"
| "spec_step k (SP_reset d) a = (RTW_PHL_STATUS_SUCCESS, a)"

text \<open>A command is a list of steps, each with the code it reports when it fails.\<close>

type_synonym coded_steps = "(dp_step \<times> (phl_status \<Rightarrow> data_ctrl_err option)) list"

definition pause_code :: "data_ctrl_err \<Rightarrow> data_ctrl_err \<Rightarrow> phl_status \<Rightarrow> data_ctrl_err option" where
  "pause_code late failed sts = Some (if sts = RTW_PHL_STATUS_CMD_TIMEOUT then late else failed)"

definition cmd_steps :: "data_ctl_cmd \<Rightarrow> coded_steps option" where
  "cmd_steps cmd =
     (let none = (\<lambda>sts. None); code = (\<lambda>e sts. Some e) in
      case cmd of
        PHL_DATA_CTL_HW_TRX_RST_RESUME \<Rightarrow> Some [(SP_hw False, none)]
      | PHL_DATA_CTL_HW_TRX_PAUSE \<Rightarrow> Some [(SP_hw True, none)]
      | PHL_DATA_CTL_SW_TX_RESUME \<Rightarrow> Some [(SP_resume TX, none)]
      | PHL_DATA_CTL_SW_RX_RESUME \<Rightarrow> Some [(SP_resume RX, none)]
      | PHL_DATA_CTL_SW_TX_PAUSE \<Rightarrow> Some [(SP_pause TX, none)]
      | PHL_DATA_CTL_SW_RX_PAUSE \<Rightarrow> Some [(SP_pause RX, none)]
      | PHL_DATA_CTL_SW_TX_RESET \<Rightarrow> Some [(SP_reset TX, none)]
      | PHL_DATA_CTL_SW_RX_RESET \<Rightarrow> Some [(SP_reset RX, none)]
      | PHL_DATA_CTL_TRX_SW_PAUSE \<Rightarrow> Some [(SP_pause TX, none), (SP_pause RX, none)]
      | PHL_DATA_CTL_TRX_SW_RESUME \<Rightarrow> Some [(SP_resume TX, none), (SP_resume RX, none)]
      | PHL_DATA_CTL_TRX_PAUSE_W_RST \<Rightarrow>
          Some [(SP_pause TX, pause_code CTRL_ERR_SW_TX_PAUSE_POLLTO CTRL_ERR_SW_TX_PAUSE_FAIL),
                (SP_hw True, code CTRL_ERR_HW_TRX_PAUSE_FAIL),
                (SP_pause RX, pause_code CTRL_ERR_SW_RX_PAUSE_POLLTO CTRL_ERR_SW_RX_PAUSE_FAIL),
                (SP_reset TX, none), (SP_reset RX, none)]
      | PHL_DATA_CTL_TRX_RESUME_W_RST \<Rightarrow>
          Some [(SP_resume RX, code CTRL_ERR_SW_RX_RESUME_FAIL),
                (SP_hw False, code CTRL_ERR_HW_TRX_RESUME_FAIL),
                (SP_resume TX, code CTRL_ERR_SW_TX_RESUME_FAIL)]
      | PHL_DATA_CTL_MAX \<Rightarrow> None)"

text \<open>Steps are done until one fails; \<open>step\<close> does one of them.\<close>

fun run_steps ::
  "(dp_step \<Rightarrow> 's \<Rightarrow> phl_status \<times> 's) \<Rightarrow> coded_steps \<Rightarrow> 's \<Rightarrow> phl_status \<times> data_ctrl_err option \<times> 's" where
  "run_steps step [] s = (RTW_PHL_STATUS_SUCCESS, None, s)"
| "run_steps step ((p, code) # ps) s =
     (case step p s of
        (sts, t) \<Rightarrow>
          if sts = RTW_PHL_STATUS_SUCCESS then run_steps step ps t else (sts, code sts, t))"

definition spec_ctrler :: "data_ctl_cmd \<Rightarrow> nat \<Rightarrow> dp_spec \<Rightarrow> phl_status \<times> data_ctrl_err option \<times> dp_spec" where
  "spec_ctrler cmd k a =
     (case cmd_steps cmd of
        None \<Rightarrow> (RTW_PHL_STATUS_FAILURE, None, a)
      | Some ps \<Rightarrow> run_steps (spec_step k) ps a)"

text \<open>The module as an owner.\<close>

definition owner_of :: "u8 \<Rightarrow> nat option" where
  "owner_of mdl =
     (if mdl = PHL_MDL_PHY_MGNT then Some 0 else if mdl = PHL_MDL_SER then Some 1
      else if mdl = PHL_MDL_POWER_MGNT then Some 2 else if mdl = PHL_MDL_MRC then Some 3 else None)"

definition owners :: "data_path \<Rightarrow> nat set" where
  "owners p = {k. bit (pause_id p) k}"

definition abs_path :: "data_path \<Rightarrow> nat set option" where
  "abs_path p = (if sw_sts p = STS_IDLE then None else Some (owners p))"

definition dp_rel :: "dp_state \<Rightarrow> dp_spec \<Rightarrow> bool" where
  "dp_rel s a \<longleftrightarrow> (\<forall>d. path_good (path d s) \<and> sp_owners a d = abs_path (path d s)) \<and>
     sp_hw_paused a = is_hw_trx_pause s \<and> sp_hal a = hal s"

subsection \<open>The commands as lists of steps\<close>

fun ctrl_step :: "u32 \<Rightarrow> dp_step \<Rightarrow> dp_state \<Rightarrow> phl_status \<times> dp_state" where
  "ctrl_step m (SP_pause d) s = sw_pause d m s"
| "ctrl_step m (SP_resume d) s = sw_resume d m s"
| "ctrl_step m (SP_hw b) s = (if b then phl_hw_trx_pause s else phl_hw_trx_rst_resume s)"
| "ctrl_step m (SP_reset d) s = (RTW_PHL_STATUS_SUCCESS, log_dp (Was_reset d) s)"

lemma data_ctrler_steps:
  "phl_data_ctrler cmd mdl s =
     (case cmd_steps cmd of
        None \<Rightarrow> (RTW_PHL_STATUS_FAILURE, None, s)
      | Some ps \<Rightarrow> run_steps (ctrl_step (phl_get_ctrl_mdl mdl)) ps s)"
  by (cases cmd)
    (auto simp: phl_data_ctrler_def cmd_steps_def no_err_def phl_trx_sw_pause_def phl_trx_sw_resume_def and_then_def
      phl_sw_tx_pause_def phl_sw_rx_pause_def phl_sw_tx_resume_def phl_sw_rx_resume_def phl_sw_tx_rst_def
      phl_sw_rx_rst_def phl_trx_pause_w_rst_def phl_trx_resume_w_rst_def pause_code_def Let_def split: prod.splits)

lemma owner_ctrl_mdl: "owner_of mdl = Some k \<Longrightarrow> phl_get_ctrl_mdl mdl = BITn k \<and> k < 32"
  by (auto simp: owner_of_def phl_get_ctrl_mdl_def DATA_CTRL_MDL_CMD_CTRLER_def DATA_CTRL_MDL_SER_def
      DATA_CTRL_MDL_PS_def DATA_CTRL_MDL_MRC_def split: if_splits)

lemma owners_flags [simp]:
  "k < 32 \<Longrightarrow> owners (p\<lparr>pause_id := SET_STATUS_FLAG v (BITn k)\<rparr>) = insert k {i. bit v i}"
  "owners (p\<lparr>pause_id := CLEAR_STATUS_FLAG v (BITn k)\<rparr>) = {i. bit v i} - {k}"
  by (auto simp: owners_def flag_simps)

lemma owners_empty: "owners p = {} \<longleftrightarrow> pause_id p = 0"
  by (auto simp: owners_def intro: bit_word_eqI)

lemma owners_cong: "pause_id q = v \<Longrightarrow> owners q = {i. bit v i}"
  by (simp add: owners_def)

subsection \<open>Refinement\<close>

lemma side_good:
  assumes "side_drift d s t" "path_good (path d s)"
  shows "path_good (path d t) \<and> abs_path (path d t) = abs_path (path d s)"
  using assms by (auto simp: side_drift_def drift_def path_good_def abs_path_def owners_def resting_def)

lemma rel_other:
  assumes "dp_rel s a" "\<And>e. e \<noteq> d \<Longrightarrow> side_drift e s t" "path_good (path d t)"
    "is_hw_trx_pause t = is_hw_trx_pause s" "hal t = hal s"
  shows "dp_rel t (a\<lparr>sp_owners := (sp_owners a)(d := abs_path (path d t))\<rparr>)"
proof -
  have "path_good (path e t) \<and> sp_owners a e = abs_path (path e t)" if "e \<noteq> d" for e
    using side_good [OF assms(2) [OF that]] assms(1) by (simp add: dp_rel_def)
  with assms show ?thesis by (auto simp: dp_rel_def)
qed

lemma other_frame: "side_drift e s t \<Longrightarrow> is_hw_trx_pause t = is_hw_trx_pause s \<and> hal t = hal s"
  by (simp add: side_drift_def)

lemma two_dirs: "\<exists>e. e \<noteq> (d :: trx_dir)"
  by (cases d) auto

lemma pause_refines:
  assumes "dp_rel s a" "sw_pause d (BITn k) s = (st, t)" "st \<noteq> RTW_PHL_STATUS_CMD_TIMEOUT" "k < 32"
  shows "spec_step k (SP_pause d) a = (st, a\<lparr>sp_owners := (sp_owners a)(d := abs_path (path d t))\<rparr>) \<and>
     dp_rel t (a\<lparr>sp_owners := (sp_owners a)(d := abs_path (path d t))\<rparr>)"
proof -
  have g: "path_good (path d s)" "sp_owners a d = abs_path (path d s)" using assms(1) by (simp_all add: dp_rel_def)
  have p: "st = RTW_PHL_STATUS_SUCCESS" "resting (path d t)"
    "pause_id (path d t) = SET_STATUS_FLAG (pause_id (path d s)) (BITn k)"
    using g(1) sw_pause_going [OF _ assms(2)] sw_pause_held [OF _ assms(2)] assms(3)
    by (auto simp: path_good_def)
  have o: "owners (path d t) = insert k (owners (path d s))"
    using p(3) assms(4) by (auto simp: owners_def flag_simps)
  then have "pause_id (path d t) \<noteq> 0" using owners_empty by blast
  with p have good: "path_good (path d t)" by (simp add: path_good_def)
  have "abs_path (path d t) = Some (insert k (case abs_path (path d s) of None \<Rightarrow> {} | Some S \<Rightarrow> S))"
    using p(2) o g(1) owners_empty [of "path d s"]
    by (auto simp: abs_path_def resting_def path_good_def going_def)
  then have 1: "spec_step k (SP_pause d) a = (st, a\<lparr>sp_owners := (sp_owners a)(d := abs_path (path d t))\<rparr>)"
    using p(1) g(2) by simp
  have od: "\<And>e. e \<noteq> d \<Longrightarrow> side_drift e s t" using sw_pause_other [of d _ s "BITn k"] assms(2) by auto
  obtain e where "e \<noteq> d" using two_dirs by blast
  from other_frame [OF od [OF this]] rel_other [OF assms(1) od good] 1 show ?thesis by blast
qed

lemma resume_refines:
  assumes "dp_rel s a" "sw_resume d (BITn k) s = (st, t)" "k < 32"
  shows "spec_step k (SP_resume d) a = (st, a\<lparr>sp_owners := (sp_owners a)(d := abs_path (path d t))\<rparr>) \<and>
     dp_rel t (a\<lparr>sp_owners := (sp_owners a)(d := abs_path (path d t))\<rparr>)"
proof -
  have g: "path_good (path d s)" "sp_owners a d = abs_path (path d s)" using assms(1) by (simp_all add: dp_rel_def)
  have od: "\<And>e. e \<noteq> d \<Longrightarrow> side_drift e s t" using sw_resume_other [of d _ s "BITn k"] assms(2) by auto
  obtain e where e: "e \<noteq> d" using two_dirs by blast
  have rel: "path_good (path d t) \<Longrightarrow> dp_rel t (a\<lparr>sp_owners := (sp_owners a)(d := abs_path (path d t))\<rparr>)"
    using other_frame [OF od [OF e]] rel_other [OF assms(1) od] by blast
  have test: "TEST_STATUS_FLAG (pause_id (path d s)) (BITn k) \<longleftrightarrow> k \<in> owners (path d s)"
    using assms(3) by (simp add: flag_simps owners_def)
  have clear: "{i. bit (CLEAR_STATUS_FLAG (pause_id (path d s)) (BITn k)) i} = owners (path d s) - {k}"
    by (auto simp: owners_def flag_simps)
  consider (idle) "sw_sts (path d s) = STS_IDLE"
    | (other) "sw_sts (path d s) \<noteq> STS_IDLE" "k \<notin> owners (path d s)"
    | (held) "sw_sts (path d s) \<noteq> STS_IDLE" "k \<in> owners (path d s)"
        "CLEAR_STATUS_FLAG (pause_id (path d s)) (BITn k) \<noteq> 0"
    | (last) "sw_sts (path d s) \<noteq> STS_IDLE" "k \<in> owners (path d s)"
        "CLEAR_STATUS_FLAG (pause_id (path d s)) (BITn k) = 0" by blast
  then show ?thesis
  proof cases
    case idle
    from sw_resume_idle [OF g(1) this assms(2)] have
      r: "st = RTW_PHL_STATUS_SUCCESS" "path_good (path d t)" "abs_path (path d t) = Some {}"
      using owners_empty [of "path d t"] by (auto simp: abs_path_def)
    with idle g(2) rel show ?thesis by (simp add: abs_path_def)
  next
    case other
    from sw_resume_not_held [OF g(1) other(1) _ assms(2)] test other(2)
    have r: "st = RTW_PHL_STATUS_FAILURE" "t = others s" by auto
    have "path_good (path d t)" "abs_path (path d t) = abs_path (path d s)"
      using side_good [OF side_others g(1)] r(2) by auto
    moreover from this have "(sp_owners a)(d := abs_path (path d t)) = sp_owners a" using g(2) by auto
    ultimately show ?thesis using rel r other g(2) by (auto simp: abs_path_def)
  next
    case held
    from sw_resume_held [OF g(1) held(1) _ assms(2) held(3)] test held(2)
    have r: "st = RTW_PHL_STATUS_SUCCESS" "resting (path d t)"
      "pause_id (path d t) = CLEAR_STATUS_FLAG (pause_id (path d s)) (BITn k)" by auto
    then have "path_good (path d t)" "abs_path (path d t) = Some (owners (path d s) - {k})"
      using held(3) clear by (auto simp: path_good_def abs_path_def resting_def owners_def)
    with r held g(2) rel show ?thesis by (simp add: abs_path_def)
  next
    case last
    from sw_resume_last [OF g(1) last(1) _ assms(2) last(3)] test last(2)
    have r: "st = RTW_PHL_STATUS_SUCCESS" "path_good (path d t)" "sw_sts (path d t) = STS_RUNNING"
      "pause_id (path d t) = 0" by auto
    moreover have "owners (path d s) - {k} = {}" using clear last(3) by auto
    ultimately have "abs_path (path d t) = Some (owners (path d s) - {k})"
      using owners_empty [of "path d t"] by (simp add: abs_path_def)
    with r last g(2) rel show ?thesis by (simp add: abs_path_def)
  qed
qed

lemma step_refines:
  assumes "dp_rel s a" "ctrl_step (BITn k) p s = (st, t)" "st \<noteq> RTW_PHL_STATUS_CMD_TIMEOUT" "k < 32"
  shows "\<exists>b. spec_step k p a = (st, b) \<and> dp_rel t b"
proof (cases p)
  case (SP_pause d)
  with pause_refines [OF assms(1) _ assms(3,4)] assms(2) show ?thesis by auto
next
  case (SP_resume d)
  with resume_refines [OF assms(1) _ assms(4)] assms(2) show ?thesis by (metis ctrl_step.simps(2))
next
  case (SP_hw b)
  with assms(1,2) show ?thesis
    by (cases "hal s") (auto simp: dp_rel_def phl_hw_trx_pause_def phl_hw_trx_rst_resume_def rtw_hal_lv1_rcvy_def
        split: if_splits bool.splits)
next
  case (SP_reset d)
  with assms(1,2) show ?thesis by (auto simp: dp_rel_def)
qed

lemma steps_refine:
  "dp_rel s a \<Longrightarrow> run_steps (ctrl_step (BITn k)) ps s = (st, err, t) \<Longrightarrow> st \<noteq> RTW_PHL_STATUS_CMD_TIMEOUT \<Longrightarrow> k < 32 \<Longrightarrow>
     \<exists>b. run_steps (spec_step k) ps a = (st, err, b) \<and> dp_rel t b"
proof (induction ps arbitrary: s a)
  case (Cons q ps)
  obtain p code where q: "q = (p, code)" by fastforce
  obtain st1 s1 where s1: "ctrl_step (BITn k) p s = (st1, s1)" by fastforce
  have "st1 \<noteq> RTW_PHL_STATUS_CMD_TIMEOUT" using Cons.prems(2,3) q s1 by (auto split: if_splits)
  with step_refines [OF Cons.prems(1) s1 _ Cons.prems(4)] obtain a1 where
    a1: "spec_step k p a = (st1, a1)" "dp_rel s1 a1" by blast
  show ?case
  proof (cases "st1 = RTW_PHL_STATUS_SUCCESS")
    case True
    with Cons.IH [OF a1(2) _ Cons.prems(3,4)] Cons.prems(2) q s1 a1(1) show ?thesis by simp
  next
    case False
    with Cons.prems(2) q s1 a1 show ?thesis by auto
  qed
qed simp

subsection \<open>An owner keeps its direction quiet\<close>

definition holds :: "trx_dir \<Rightarrow> nat \<Rightarrow> dp_state \<Rightarrow> bool" where
  "holds d k s \<longleftrightarrow> resting (path d s) \<and> k \<in> owners (path d s)"

lemma holds_side: "side_drift d s t \<Longrightarrow> holds d k s \<Longrightarrow> holds d k t \<and> works d t = works d s"
  by (auto simp: holds_def side_drift_def drift_def owners_def)

lemma holds_moves: "holds d k s \<Longrightarrow> holds d k (dp_moves ms s) \<and> works d (dp_moves ms s) = works d s"
  using holds_side dp_moves_drift unfolding dp_drift_def by blast

lemma step_holds:
  assumes "holds d k s" "ctrl_step (BITn j) p s = (st, t)" "j < 32" "p = SP_resume d \<Longrightarrow> j \<noteq> k"
  shows "holds d k t \<and> works d t = works d s"
proof -
  have r: "resting (path d s)" "bit (pause_id (path d s)) k" using assms(1) by (simp_all add: holds_def owners_def)
  then have g: "path_good (path d s)" by (auto simp: path_good_def)
  show ?thesis
  proof (cases p)
    case (SP_pause e)
    show ?thesis
    proof (cases "e = d")
      case True
      with SP_pause assms sw_pause_held [OF r(1)] show ?thesis
        by (auto simp: holds_def owners_def flag_simps)
    next
      case False
      with SP_pause assms sw_pause_other [of e d s "BITn j"] holds_side show ?thesis by (metis ctrl_step.simps(1) snd_conv)
    qed
  next
    case (SP_resume e)
    show ?thesis
    proof (cases "e = d")
      case True
      then have jk: "j \<noteq> k" using SP_resume assms(4) by blast
      have idle: "sw_sts (path d s) \<noteq> STS_IDLE" using r(1) by (simp add: resting_def)
      have sw: "sw_resume d (BITn j) s = (st, t)" using SP_resume True assms(2) by simp
      have c: "bit (CLEAR_STATUS_FLAG (pause_id (path d s)) (BITn j)) k" using r(2) jk by (simp add: flag_simps)
      then have "CLEAR_STATUS_FLAG (pause_id (path d s)) (BITn j) \<noteq> 0" by auto
      with sw_resume_held [OF g idle _ sw] sw_resume_not_held [OF g idle _ sw] c holds_side [OF side_others assms(1)]
      show ?thesis by (cases "TEST_STATUS_FLAG (pause_id (path d s)) (BITn j :: u32)") (auto simp: holds_def owners_def)
    next
      case False
      with SP_resume assms sw_resume_other [of e d s "BITn j"] holds_side show ?thesis
        by (metis ctrl_step.simps(2) snd_conv)
    qed
  next
    case (SP_hw b)
    then have "side_drift d s t \<or> path d t = path d s \<and> dp_log t = dp_log s"
      using assms(2) by (cases "hal s") (auto simp: phl_hw_trx_pause_def phl_hw_trx_rst_resume_def rtw_hal_lv1_rcvy_def
        split: if_splits bool.splits)
    with holds_side assms(1) show ?thesis by (auto simp: holds_def works_def)
  next
    case (SP_reset e)
    with assms(1,2) show ?thesis by (auto simp: holds_def works_def)
  qed
qed

text \<open>Whether a command resumes a direction.\<close>

definition resumes :: "trx_dir \<Rightarrow> data_ctl_cmd \<Rightarrow> bool" where
  "resumes d cmd \<longleftrightarrow> cmd \<in> {PHL_DATA_CTL_TRX_SW_RESUME, PHL_DATA_CTL_TRX_RESUME_W_RST,
      (case d of TX \<Rightarrow> PHL_DATA_CTL_SW_TX_RESUME | RX \<Rightarrow> PHL_DATA_CTL_SW_RX_RESUME)}"

lemma resumes_steps: "cmd_steps cmd = Some ps \<Longrightarrow> SP_resume d \<in> fst ` set ps \<Longrightarrow> resumes d cmd"
  by (cases cmd; cases d) (auto simp: cmd_steps_def resumes_def Let_def)

lemma steps_hold:
  "holds d k s \<Longrightarrow> run_steps (ctrl_step (BITn j)) ps s = (st, err, t) \<Longrightarrow> j < 32 \<Longrightarrow>
     (SP_resume d \<in> fst ` set ps \<Longrightarrow> j \<noteq> k) \<Longrightarrow> holds d k t \<and> works d t = works d s"
proof (induction ps arbitrary: s)
  case (Cons q ps)
  obtain p code where q: "q = (p, code)" by fastforce
  obtain st1 s1 where s1: "ctrl_step (BITn j) p s = (st1, s1)" by fastforce
  have 1: "holds d k s1" "works d s1 = works d s"
    using step_holds [OF Cons.prems(1) s1 Cons.prems(3)] Cons.prems(4) q by force+
  show ?case
  proof (cases "st1 = RTW_PHL_STATUS_SUCCESS")
    case True
    with Cons.IH [OF 1(1) _ Cons.prems(3)] Cons.prems(2,4) q s1 1(2) show ?thesis by simp
  next
    case False
    with Cons.prems(2) q s1 1 show ?thesis by simp
  qed
qed simp

lemma ctrler_holds:
  assumes "holds d k s" "owner_of mdl = Some j" "resumes d cmd \<Longrightarrow> j \<noteq> k"
  shows "holds d k (snd (snd (phl_data_ctrler cmd mdl s))) \<and>
     works d (snd (snd (phl_data_ctrler cmd mdl s))) = works d s"
proof (cases "cmd_steps cmd")
  case None
  with assms(1) show ?thesis by (simp add: data_ctrler_steps)
next
  case (Some ps)
  obtain st err t where r: "run_steps (ctrl_step (BITn j)) ps s = (st, err, t)" using prod_cases3 by blast
  from steps_hold [OF assms(1) r] assms resumes_steps [OF Some] owner_ctrl_mdl [OF assms(2)] Some r show ?thesis
    by (auto simp: data_ctrler_steps)
qed

subsection \<open>Runs\<close>

fun ctrl_run :: "(data_ctl_cmd \<times> u8) list \<Rightarrow> dp_state \<Rightarrow> (phl_status \<times> data_ctrl_err option) list \<times> dp_state" where
  "ctrl_run [] s = ([], s)"
| "ctrl_run ((cmd, mdl) # cs) s =
     (case phl_data_ctrler cmd mdl s of
        (st, err, t) \<Rightarrow> (case ctrl_run cs t of (rs, u) \<Rightarrow> ((st, err) # rs, u)))"

fun spec_run :: "(data_ctl_cmd \<times> u8) list \<Rightarrow> dp_spec \<Rightarrow> (phl_status \<times> data_ctrl_err option) list \<times> dp_spec" where
  "spec_run [] a = ([], a)"
| "spec_run ((cmd, mdl) # cs) a =
     (case spec_ctrler cmd (the (owner_of mdl)) a of
        (st, err, b) \<Rightarrow> (case spec_run cs b of (rs, c) \<Rightarrow> ((st, err) # rs, c)))"

definition path_init :: data_path where
  "path_init = \<lparr>sw_sts = STS_IDLE, pause_id = 0, sw_more = False, sw_req_pwr = False, scheduled = False,
     handler = H_off\<rparr>"

definition dp_init :: "bool \<Rightarrow> bool list \<Rightarrow> (dp_move list \<times> u32) list \<Rightarrow> dp_state" where
  "dp_init lps h rs =
     \<lparr>tx_path = path_init, rx_path = path_init, is_hw_trx_pause = False, lps_pause_tx = lps, clock = 0, hal = h,
      rounds = rs, dp_log = []\<rparr>"

definition spec_init :: "bool list \<Rightarrow> dp_spec" where
  "spec_init h = \<lparr>sp_owners = (\<lambda>d. None), sp_hw_paused = False, sp_hal = h\<rparr>"

lemma rel_init: "dp_rel (dp_init lps h rs) (spec_init h)"
proof -
  have "path d (dp_init lps h rs) = path_init" for d by (cases d) (simp_all add: path_def dp_init_def)
  then show ?thesis
    by (simp add: dp_rel_def spec_init_def dp_init_def path_good_def going_def abs_path_def path_init_def)
qed

lemma ctrler_refines:
  assumes "dp_rel s a" "phl_data_ctrler cmd mdl s = (st, err, t)" "st \<noteq> RTW_PHL_STATUS_CMD_TIMEOUT"
    "owner_of mdl = Some k"
  shows "\<exists>b. spec_ctrler cmd k a = (st, err, b) \<and> dp_rel t b"
proof (cases "cmd_steps cmd")
  case None
  with assms show ?thesis by (auto simp: data_ctrler_steps spec_ctrler_def)
next
  case (Some ps)
  with steps_refine [OF assms(1) _ assms(3), of k ps err t] owner_ctrl_mdl [OF assms(4)] assms(2) show ?thesis
    by (simp add: data_ctrler_steps spec_ctrler_def)
qed

lemma runs_refine:
  "dp_rel s a \<Longrightarrow> ctrl_run cs s = (res, t) \<Longrightarrow> \<forall>c \<in> set cs. owner_of (snd c) \<noteq> None \<Longrightarrow>
     RTW_PHL_STATUS_CMD_TIMEOUT \<notin> fst ` set res \<Longrightarrow> \<exists>b. spec_run cs a = (res, b) \<and> dp_rel t b"
proof (induction cs arbitrary: s a res)
  case (Cons c cs)
  obtain cmd mdl where c: "c = (cmd, mdl)" by fastforce
  obtain k where k: "owner_of mdl = Some k" using Cons.prems(3) c by auto
  obtain st err s1 where s1: "phl_data_ctrler cmd mdl s = (st, err, s1)" using prod_cases3 by blast
  obtain res1 where r: "ctrl_run cs s1 = (res1, t)" "res = (st, err) # res1"
    using Cons.prems(2) c s1 by (auto split: prod.splits)
  obtain a1 where a1: "spec_ctrler cmd k a = (st, err, a1)" "dp_rel s1 a1"
    using ctrler_refines [OF Cons.prems(1) s1 _ k] Cons.prems(4) r(2) by auto
  from Cons.IH [OF a1(2) r(1)] Cons.prems(3,4) r(2) obtain b where "spec_run cs a1 = (res1, b)" "dp_rel t b" by auto
  with a1(1) c k r(2) show ?case by simp
qed simp

lemma runs_hold:
  "holds d k s \<Longrightarrow> \<forall>c \<in> set cs. \<exists>j. owner_of (snd c) = Some j \<and> (resumes d (fst c) \<longrightarrow> j \<noteq> k) \<Longrightarrow>
     holds d k (snd (ctrl_run cs s)) \<and> works d (snd (ctrl_run cs s)) = works d s"
proof (induction cs arbitrary: s)
  case (Cons c cs)
  obtain cmd mdl where c: "c = (cmd, mdl)" by fastforce
  obtain st err s1 where s1: "phl_data_ctrler cmd mdl s = (st, err, s1)" using prod_cases3 by blast
  from Cons.prems(2) c have "holds d k s1" "works d s1 = works d s"
    using ctrler_holds [OF Cons.prems(1), of mdl _ cmd] s1 by fastforce+
  with Cons.IH [of s1] Cons.prems(2) c s1 show ?case by (auto split: prod.splits)
qed simp

subsection \<open>Properties\<close>

text \<open>
  C16. For all interleavings with the two handlers, the core and the power requests: as long as
  no pause times out, every sequence of commands by known modules has the results, error codes
  and effect of the specification, in which a direction is a set of owners. A direction works
  exactly when it has no owner, and with an owner its handler has stopped.
\<close>

theorem data_ctrl_refines:
  assumes "ctrl_run cs (dp_init lps h rs) = (res, s)" "\<forall>c \<in> set cs. owner_of (snd c) \<noteq> None"
    and "RTW_PHL_STATUS_CMD_TIMEOUT \<notin> fst ` set res"
  shows "\<exists>a. spec_run cs (spec_init h) = (res, a) \<and>
     sp_hw_paused a = is_hw_trx_pause s \<and>
     (\<forall>d. case sp_owners a d of
            None \<Rightarrow> sw_sts (path d s) = STS_IDLE
          | Some S \<Rightarrow> owners (path d s) = S \<and>
              (if S = {} then sw_sts (path d s) = STS_RUNNING \<and> handler (path d s) \<noteq> H_ack
               else sw_sts (path d s) = STS_SW_PAUSE \<and> handler (path d s) \<in> {H_off, H_check}))"
proof -
  obtain a where a: "spec_run cs (spec_init h) = (res, a)" "dp_rel s a"
    using runs_refine [OF rel_init assms(1,2,3)] by blast
  have "case sp_owners a d of
            None \<Rightarrow> sw_sts (path d s) = STS_IDLE
          | Some S \<Rightarrow> owners (path d s) = S \<and>
              (if S = {} then sw_sts (path d s) = STS_RUNNING \<and> handler (path d s) \<noteq> H_ack
               else sw_sts (path d s) = STS_SW_PAUSE \<and> handler (path d s) \<in> {H_off, H_check})" for d
  proof -
    have "sp_owners a d = abs_path (path d s)" "path_good (path d s)" using a(2) by (simp_all add: dp_rel_def)
    then show ?thesis
      using owners_empty [of "path d s"] by (auto simp: abs_path_def path_good_def going_def resting_def)
  qed
  with a show ?thesis by (auto simp: dp_rel_def)
qed

definition quick_stop :: "(dp_move list \<times> u32) list" where
  "quick_stop = [([], 0), ([], 0), ([New_request, Notify TX], 0), ([Handler_step TX True True], 0),
     ([Handler_step TX True True, Handler_step TX True True], 1), ([Handler_step TX True True], 1),
     ([Handler_step TX True True], 1)]"

lemma data_ctrl_refines_witness:
  "let s = snd (ctrl_run [(PHL_DATA_CTL_SW_TX_RESUME, 42), (PHL_DATA_CTL_SW_TX_PAUSE, 42), (PHL_DATA_CTL_SW_TX_PAUSE, 10)]
      (dp_init True [] quick_stop))
   in owners (path TX s) = {1, 3} \<and> sw_sts (path TX s) = STS_SW_PAUSE"
proof -
  let ?cs = "[(PHL_DATA_CTL_SW_TX_RESUME, 42), (PHL_DATA_CTL_SW_TX_PAUSE, 42), (PHL_DATA_CTL_SW_TX_PAUSE, 10)]"
  let ?r = "ctrl_run ?cs (dp_init True [] quick_stop)"
  have f: "fst ?r = replicate 3 (RTW_PHL_STATUS_SUCCESS, None)" by code_simp
  have o: "\<forall>c \<in> set ?cs. owner_of (snd c) \<noteq> None" by code_simp
  have "?r = (fst ?r, snd ?r)" by simp
  from data_ctrl_refines [OF this o] f obtain a where
    a: "spec_run ?cs (spec_init []) = (fst ?r, a)"
      "\<And>d. case sp_owners a d of
            None \<Rightarrow> sw_sts (path d (snd ?r)) = STS_IDLE
          | Some S \<Rightarrow> owners (path d (snd ?r)) = S \<and>
              (if S = {} then sw_sts (path d (snd ?r)) = STS_RUNNING \<and> handler (path d (snd ?r)) \<noteq> H_ack
               else sw_sts (path d (snd ?r)) = STS_SW_PAUSE \<and> handler (path d (snd ?r)) \<in> {H_off, H_check})"
    by (auto simp: numeral_3_eq_3)
  have "owner_of 42 = Some 1" "owner_of 10 = Some 3" by code_simp+
  then have "sp_owners (snd (spec_run ?cs (spec_init []))) TX = Some {3, 1}"
    by (simp add: spec_ctrler_def cmd_steps_def spec_init_def)
  then have "sp_owners a TX = Some {3, 1}" using a(1) by simp
  with a(2) [of TX] show ?thesis by (auto simp: Let_def)
qed

text \<open>
  C21. Let a run of commands of the data path by known modules (\<open>owner_of\<close>: those that
  \<open>phl_get_ctrl_mdl\<close> knows) have led to a state in which module \<open>k\<close> holds a direction, and let no
  command of this run have timed out. Then the handler of this direction does not work once and
  \<open>k\<close> still holds it after any further commands of known modules in which \<open>k\<close> itself does not
  resume the direction - these later commands may time out - and after any steps of the handlers,
  notifications and power requests. Outside this statement are: a command that timed out
  before (\<open>second_pause_early\<close>), modules that are not known (\<open>unknown_module_pauses\<close>) and
  \<open>rtw_phl_tx_resume\<close>, which does not look at the owners (\<open>resume_past_owner\<close>).
\<close>

theorem pause_excludes_work:
  assumes "ctrl_run cs (dp_init lps h rs) = (res, s)" "\<forall>c \<in> set cs. owner_of (snd c) \<noteq> None"
    and "RTW_PHL_STATUS_CMD_TIMEOUT \<notin> fst ` set res"
    and "k \<in> owners (path d s)"
    and "\<forall>c \<in> set later. \<exists>j. owner_of (snd c) = Some j \<and> (resumes d (fst c) \<longrightarrow> j \<noteq> k)"
  shows "works d (dp_moves ms (snd (ctrl_run later s))) = works d s \<and>
     k \<in> owners (path d (dp_moves ms (snd (ctrl_run later s))))"
proof -
  obtain a where a: "dp_rel s a" using runs_refine [OF rel_init assms(1,2,3)] by blast
  then have "path_good (path d s)" by (simp add: dp_rel_def)
  with assms(4) owners_empty [of "path d s"] have "holds d k s" by (auto simp: path_good_def holds_def)
  from runs_hold [OF this assms(5)] holds_moves show ?thesis by (auto simp: holds_def)
qed

lemma pause_excludes_work_witness:
  "let s = snd (ctrl_run [(PHL_DATA_CTL_SW_TX_PAUSE, 42)] (dp_init True [] quick_stop)) in
   works TX (dp_moves [Notify TX, Handler_step TX True True, Handler_step TX True True, Handler_step TX True True]
     (snd (ctrl_run [(PHL_DATA_CTL_TRX_SW_PAUSE, 10), (PHL_DATA_CTL_TRX_SW_RESUME, 10)] s))) = works TX s"
proof -
  let ?r = "ctrl_run [(PHL_DATA_CTL_SW_TX_PAUSE, 42)] (dp_init True [] quick_stop)"
  have "fst ?r = [(RTW_PHL_STATUS_SUCCESS, None)]" "owner_of 42 \<noteq> None" "owner_of 10 = Some 3"
    "bit (pause_id (path TX (snd ?r))) 1" by code_simp+
  then have f: "RTW_PHL_STATUS_CMD_TIMEOUT \<notin> fst ` set (fst ?r)"
    and c: "\<forall>c \<in> set [(PHL_DATA_CTL_SW_TX_PAUSE, 42)]. owner_of (snd c) \<noteq> None"
    and o: "1 \<in> owners (path TX (snd ?r))"
    and l: "\<forall>c \<in> set [(PHL_DATA_CTL_TRX_SW_PAUSE, 10), (PHL_DATA_CTL_TRX_SW_RESUME, 10)].
       \<exists>j. owner_of (snd c) = Some j \<and> (resumes TX (fst c) \<longrightarrow> j \<noteq> 1)"
    by (simp_all add: owners_def)
  show ?thesis unfolding Let_def by (rule conjunct1 [OF pause_excludes_work [OF _ c f o l]]) simp
qed

lemma handler_restarts:
  assumes "sw_sts (path d s) = STS_RUNNING" "scheduled (path d s)" "handler (path d s) \<noteq> H_ack"
  shows "\<exists>n \<le> 4. works d (dp_moves (replicate n (Handler_step d True sent)) s) = works d s + 1"
proof -
  have w: "works d (on_path e f u) = works d u" "works d (log_dp (Worked d) u) = works d u + 1" for e f u
    by (simp_all add: works_def)
  note defs = handler_step_def phl_datapath_chk_trx_pause_def set_pc_def w
  consider "handler (path d s) = H_off" | "handler (path d s) = H_check" | "handler (path d s) = H_work"
    | "handler (path d s) = H_stop" using assms(3) by (cases "handler (path d s)") auto
  then show ?thesis
  proof cases
    case 1
    with assms show ?thesis by (intro exI [of _ 3]) (simp add: defs numeral_3_eq_3)
  next
    case 2
    with assms show ?thesis by (intro exI [of _ 2]) (simp add: defs numeral_2_eq_2)
  next
    case 3
    with assms show ?thesis by (intro exI [of _ 1]) (simp add: defs)
  next
    case 4
    with assms show ?thesis
      by (intro exI [of _ 4]) (simp add: defs numeral_eq_Suc)
  qed
qed

text \<open>
  C30. After any run of commands of the data path by known modules none of which timed out: when
  the only owner of a direction resumes it, the call succeeds, the direction runs without an
  owner, and after at most four steps of its handler with power the handler has worked, even if
  nothing notifies it any more. When the direction is not in its initial state \<open>STS_IDLE\<close>, a
  resume by a known module that does not hold it fails and leaves its owners and its status as
  they are (in \<open>STS_IDLE\<close> such a resume succeeds and starts the direction). After a command that
  timed out the first part can fail (\<open>late_acknowledgement\<close>).
\<close>

theorem resume_restarts:
  assumes "ctrl_run cs (dp_init lps h rs) = (res, s)" "\<forall>c \<in> set cs. owner_of (snd c) \<noteq> None"
    and "RTW_PHL_STATUS_CMD_TIMEOUT \<notin> fst ` set res"
    and "owner_of mdl = Some k"
    and "phl_data_ctrler (case d of TX \<Rightarrow> PHL_DATA_CTL_SW_TX_RESUME | RX \<Rightarrow> PHL_DATA_CTL_SW_RX_RESUME) mdl s = (st, err, t)"
  shows "(owners (path d s) = {k} \<longrightarrow>
       st = RTW_PHL_STATUS_SUCCESS \<and> owners (path d t) = {} \<and> sw_sts (path d t) = STS_RUNNING \<and>
       (\<exists>n \<le> 4. works d (dp_moves (replicate n (Handler_step d True sent)) t) = works d t + 1)) \<and>
     (k \<notin> owners (path d s) \<and> sw_sts (path d s) \<noteq> STS_IDLE \<longrightarrow>
       st = RTW_PHL_STATUS_FAILURE \<and> owners (path d t) = owners (path d s) \<and>
       sw_sts (path d t) = sw_sts (path d s))"
proof -
  obtain a where a: "dp_rel s a" using runs_refine [OF rel_init assms(1,2,3)] by blast
  then have g: "path_good (path d s)" by (simp add: dp_rel_def)
  have k: "phl_get_ctrl_mdl mdl = BITn k" "k < 32" using owner_ctrl_mdl [OF assms(4)] by simp_all
  have r: "sw_resume d (BITn k) s = (st, t)"
    using assms(5) k(1) by (cases d; cases "sw_resume d (BITn k) s")
      (simp_all add: phl_data_ctrler_def no_err_def phl_sw_tx_resume_def phl_sw_rx_resume_def)
  have test: "TEST_STATUS_FLAG (pause_id (path d s)) (BITn k) \<longleftrightarrow> k \<in> owners (path d s)"
    using k(2) by (simp add: flag_simps owners_def)
  show ?thesis
  proof (intro conjI impI; (elim conjE)?)
    assume o: "owners (path d s) = {k}"
    then have "pause_id (path d s) \<noteq> 0" using owners_empty [of "path d s"] by auto
    with g have idle: "sw_sts (path d s) \<noteq> STS_IDLE" by (auto simp: path_good_def resting_def)
    have "owners (path d s) = {i. bit (pause_id (path d s)) i}" by (simp add: owners_def)
    then have "CLEAR_STATUS_FLAG (pause_id (path d s)) (BITn k) = 0"
      using o by (intro bit_word_eqI) (auto simp: flag_simps)
    from sw_resume_last [OF g idle _ r this] test o
    have l: "st = RTW_PHL_STATUS_SUCCESS" "path_good (path d t)" "sw_sts (path d t) = STS_RUNNING"
      "pause_id (path d t) = 0" "scheduled (path d t)" by auto
    then have "handler (path d t) \<noteq> H_ack" by (auto simp: path_good_def going_def resting_def)
    with handler_restarts [OF l(3,5) this] l(1,3,4) owners_empty [of "path d t"]
    show "st = RTW_PHL_STATUS_SUCCESS" "owners (path d t) = {}" "sw_sts (path d t) = STS_RUNNING"
      "\<exists>n \<le> 4. works d (dp_moves (replicate n (Handler_step d True sent)) t) = works d t + 1" by auto
  next
    assume o: "k \<notin> owners (path d s)" and idle: "sw_sts (path d s) \<noteq> STS_IDLE"
    from sw_resume_not_held [OF g idle _ r] test o sts_others [OF g]
    show "st = RTW_PHL_STATUS_FAILURE" "owners (path d t) = owners (path d s)" "sw_sts (path d t) = sw_sts (path d s)"
      by (auto simp: owners_def)
  qed
qed

lemma resume_restarts_witness:
  "let s = snd (ctrl_run [(PHL_DATA_CTL_SW_TX_PAUSE, 42)] (dp_init True [] quick_stop));
       r = phl_data_ctrler PHL_DATA_CTL_SW_TX_RESUME 42 s
   in fst r = RTW_PHL_STATUS_SUCCESS \<and> sw_sts (path TX (snd (snd r))) = STS_RUNNING"
proof -
  let ?r = "ctrl_run [(PHL_DATA_CTL_SW_TX_PAUSE, 42)] (dp_init True [] quick_stop)"
  let ?q = "phl_data_ctrler PHL_DATA_CTL_SW_TX_RESUME 42 (snd ?r)"
  have e: "fst ?r = [(RTW_PHL_STATUS_SUCCESS, None)]" "owner_of 42 = Some 1" "pause_id (path TX (snd ?r)) = BITn 1"
    by code_simp+
  have "fst ` set (fst ?r) = {RTW_PHL_STATUS_SUCCESS}" unfolding e(1) by simp
  then have f: "RTW_PHL_STATUS_CMD_TIMEOUT \<notin> fst ` set (fst ?r)" by simp
  have o: "owners (path TX (snd ?r)) = {1}" using e(3) by (auto simp: owners_def)
  have c: "\<forall>c \<in> set [(PHL_DATA_CTL_SW_TX_PAUSE, 42)]. owner_of (snd c) \<noteq> None" using e(2) by simp
  from resume_restarts [of "[(PHL_DATA_CTL_SW_TX_PAUSE, 42)]" True "[]" quick_stop "fst ?r" "snd ?r" 42 1 TX "fst ?q"
      "fst (snd ?q)" "snd (snd ?q)" True] f o c e(2)
  show ?thesis unfolding Let_def by simp
qed

subsection \<open>After a timeout, and past the owners\<close>

text \<open>
  A pause that timed out is resumed while the handler stands between its test for the stop and
  the acknowledgement. The acknowledgement comes after the resume: the direction is paused
  without an owner, and no module can resume it.
\<close>

definition late_rounds :: "(dp_move list \<times> u32) list" where
  "late_rounds =
     [([], 0), ([Notify TX, Handler_step TX True True, Handler_step TX True True, Handler_step TX True True], 0),
      ([], 0), ([], 0), ([], 0), ([], 0), ([Handler_step TX True True], 0), ([], 600)]"

lemma late_acknowledgement:
  "let r = ctrl_run [(PHL_DATA_CTL_SW_TX_RESUME, 42), (PHL_DATA_CTL_SW_TX_PAUSE, 42), (PHL_DATA_CTL_SW_TX_RESUME, 42)]
        (dp_init True [] late_rounds);
       t = dp_moves [Handler_step TX True True] (snd r)
   in map fst (fst r) = [RTW_PHL_STATUS_SUCCESS, RTW_PHL_STATUS_CMD_TIMEOUT, RTW_PHL_STATUS_SUCCESS] \<and>
      sw_sts (path TX (snd r)) = STS_RUNNING \<and> sw_sts (path TX t) = STS_SW_PAUSE \<and> pause_id (path TX t) = 0 \<and>
      fst (phl_data_ctrler PHL_DATA_CTL_SW_TX_RESUME 42 t) = RTW_PHL_STATUS_FAILURE"
  by code_simp

text \<open>After a timeout a second module is told that the direction is paused while it still works.\<close>

definition busy_rounds :: "(dp_move list \<times> u32) list" where
  "busy_rounds =
     [([], 0), ([Notify TX, Handler_step TX True True, Handler_step TX True True], 0),
      ([], 0), ([], 0), ([], 0), ([], 0), ([], 0), ([], 600)]"

lemma second_pause_early:
  "let r = ctrl_run [(PHL_DATA_CTL_SW_TX_RESUME, 42), (PHL_DATA_CTL_SW_TX_PAUSE, 42), (PHL_DATA_CTL_SW_TX_PAUSE, 10)]
        (dp_init True [] busy_rounds)
   in map fst (fst r) = [RTW_PHL_STATUS_SUCCESS, RTW_PHL_STATUS_CMD_TIMEOUT, RTW_PHL_STATUS_SUCCESS] \<and>
      works TX (dp_moves [Handler_step TX True True] (snd r)) = works TX (snd r) + 1"
  by code_simp

text \<open>\<open>rtw_phl_tx_resume\<close> does not ask for owners, and an unknown module pauses without becoming one.\<close>

lemma resume_past_owner:
  "let s = snd (ctrl_run [(PHL_DATA_CTL_SW_TX_PAUSE, 42)] (dp_init True [] quick_stop)); t = rtw_phl_tx_resume s
   in pause_id (path TX t) = DATA_CTRL_MDL_SER \<and> sw_sts (path TX t) = STS_RUNNING"
  by code_simp

lemma unknown_module_pauses:
  "let r = ctrl_run [(PHL_DATA_CTL_SW_TX_PAUSE, 73)] (dp_init True [] quick_stop)
   in fst r = [(RTW_PHL_STATUS_SUCCESS, None)] \<and> sw_sts (path TX (snd r)) = STS_SW_PAUSE \<and>
      pause_id (path TX (snd r)) = 0"
  by code_simp

end
