(* ===== verification/DispCtrl.thy ===== *)
theory DispCtrl
  imports DataCtrl Dispatcher
begin

text \<open>
  The controller module of a dispatcher, \<^verbatim>\<open>phl/phl_cmd_dispr_controller.c\<close>: it turns the messages
  of the modules into commands of the data path, and keeps modules from stopping while the
  recovery from a system error (SER) is going on.
\<close>

subsection \<open>Events and state\<close>

definition MSG_EVT_HW_TRX_RST_RESUME :: u16 where "MSG_EVT_HW_TRX_RST_RESUME = 82"
definition MSG_EVT_HW_TRX_PAUSE :: u16 where "MSG_EVT_HW_TRX_PAUSE = 83"
definition MSG_EVT_SW_TX_RESUME :: u16 where "MSG_EVT_SW_TX_RESUME = 84"
definition MSG_EVT_SW_RX_RESUME :: u16 where "MSG_EVT_SW_RX_RESUME = 85"
definition MSG_EVT_SW_TX_PAUSE :: u16 where "MSG_EVT_SW_TX_PAUSE = 86"
definition MSG_EVT_SW_RX_PAUSE :: u16 where "MSG_EVT_SW_RX_PAUSE = 87"
definition MSG_EVT_SW_TX_RESET :: u16 where "MSG_EVT_SW_TX_RESET = 88"
definition MSG_EVT_SW_RX_RESET :: u16 where "MSG_EVT_SW_RX_RESET = 89"
definition MSG_EVT_TRX_SW_PAUSE :: u16 where "MSG_EVT_TRX_SW_PAUSE = 90"
definition MSG_EVT_TRX_SW_RESUME :: u16 where "MSG_EVT_TRX_SW_RESUME = 91"
definition MSG_EVT_TRX_PAUSE_W_RST :: u16 where "MSG_EVT_TRX_PAUSE_W_RST = 92"
definition MSG_EVT_TRX_RESUME_W_RST :: u16 where "MSG_EVT_TRX_RESUME_W_RST = 93"
definition MSG_EVT_SER_L0_RESET :: u16 where "MSG_EVT_SER_L0_RESET = 41"
definition MSG_EVT_SER_M1_PAUSE_TRX :: u16 where "MSG_EVT_SER_M1_PAUSE_TRX = 42"
definition MSG_EVT_SER_M3_DO_RECOV :: u16 where "MSG_EVT_SER_M3_DO_RECOV = 45"
definition MSG_EVT_SER_M5_READY :: u16 where "MSG_EVT_SER_M5_READY = 46"
definition MSG_EVT_MDL_CHECK_STOP :: u16 where "MSG_EVT_MDL_CHECK_STOP = 131"

definition IS_MSG_FAIL :: "u32 \<Rightarrow> bool" where
  "IS_MSG_FAIL m \<longleftrightarrow> m AND push_bit 24 (ucast MSG_INDC_FAIL) \<noteq> 0"

record cmd_controller =
  mon_mdl_id :: u8
  mon_mdl :: bool

text \<open>
  The controller with the data path; \<open>removed\<close> is \<open>RTW_DEV_SURPRISE_REMOVAL\<close>, \<open>cleared\<close> counts
  the calls of \<open>phl_disp_eng_clr_pending_msg\<close>.
\<close>

record ctrl_state =
  ctrl :: cmd_controller
  dp :: dp_state
  removed :: bool
  cleared :: nat

type_synonym ctrl_result = "mdl_ret \<times> data_ctrl_err option \<times> ctrl_state"

subsection \<open>One command of the data path\<close>

definition data_ctl :: "data_ctl_cmd \<Rightarrow> u8 \<Rightarrow> ctrl_state \<Rightarrow> ctrl_result" where
  "data_ctl cmd k c =
     (case phl_data_ctrler cmd k (dp c) of
        (sts, err, s) \<Rightarrow>
          (if sts \<noteq> RTW_PHL_STATUS_SUCCESS then MDL_RET_FAIL else MDL_RET_SUCCESS, err, c\<lparr>dp := s\<rparr>))"

definition dispr_resume_io_ctrl :: "u32 \<Rightarrow> ctrl_state \<Rightarrow> ctrl_result" where
  "dispr_resume_io_ctrl m c =
     (case data_ctl PHL_DATA_CTL_SW_TX_RESUME (MSG_MDL_ID_FIELD m) c of
        (ret, err, c) \<Rightarrow>
          if ret = MDL_RET_FAIL then (ret, err, c)
          else data_ctl PHL_DATA_CTL_SW_RX_RESUME (MSG_MDL_ID_FIELD m) c)"

definition dispr_cannot_io_ctrl :: "u32 \<Rightarrow> ctrl_state \<Rightarrow> ctrl_result" where
  "dispr_cannot_io_ctrl m = data_ctl PHL_DATA_CTL_TRX_SW_PAUSE (MSG_MDL_ID_FIELD m)"

text \<open>Transmit and receive side resume what the power module paused.\<close>

definition resume_id :: "u32 \<Rightarrow> u8" where
  "resume_id m =
     (let k = MSG_MDL_ID_FIELD m in if k = PHL_MDL_TX \<or> k = PHL_MDL_RX then PHL_MDL_POWER_MGNT else k)"

definition dispr_sw_tx_resume_ctrl :: "u32 \<Rightarrow> ctrl_state \<Rightarrow> ctrl_result" where
  "dispr_sw_tx_resume_ctrl m = data_ctl PHL_DATA_CTL_SW_TX_RESUME (resume_id m)"

definition dispr_sw_rx_resume_ctrl :: "u32 \<Rightarrow> ctrl_state \<Rightarrow> ctrl_result" where
  "dispr_sw_rx_resume_ctrl m = data_ctl PHL_DATA_CTL_SW_RX_RESUME (resume_id m)"

definition dispr_hw_trx_rst_resume_ctrl :: "u32 \<Rightarrow> ctrl_state \<Rightarrow> ctrl_result" where
  "dispr_hw_trx_rst_resume_ctrl m = data_ctl PHL_DATA_CTL_HW_TRX_RST_RESUME (MSG_MDL_ID_FIELD m)"

definition dispr_hw_trx_pause_ctrl :: "u32 \<Rightarrow> ctrl_state \<Rightarrow> ctrl_result" where
  "dispr_hw_trx_pause_ctrl m = data_ctl PHL_DATA_CTL_HW_TRX_PAUSE (MSG_MDL_ID_FIELD m)"

definition dispr_sw_tx_pause_ctrl :: "u32 \<Rightarrow> ctrl_state \<Rightarrow> ctrl_result" where
  "dispr_sw_tx_pause_ctrl m = data_ctl PHL_DATA_CTL_SW_TX_PAUSE (MSG_MDL_ID_FIELD m)"

definition dispr_sw_rx_pause_ctrl :: "u32 \<Rightarrow> ctrl_state \<Rightarrow> ctrl_result" where
  "dispr_sw_rx_pause_ctrl m = data_ctl PHL_DATA_CTL_SW_RX_PAUSE (MSG_MDL_ID_FIELD m)"

definition dispr_sw_tx_reset_ctrl :: "u32 \<Rightarrow> ctrl_state \<Rightarrow> ctrl_result" where
  "dispr_sw_tx_reset_ctrl m = data_ctl PHL_DATA_CTL_SW_TX_RESET (MSG_MDL_ID_FIELD m)"

definition dispr_sw_rx_reset_ctrl :: "u32 \<Rightarrow> ctrl_state \<Rightarrow> ctrl_result" where
  "dispr_sw_rx_reset_ctrl m = data_ctl PHL_DATA_CTL_SW_RX_RESET (MSG_MDL_ID_FIELD m)"

definition dispr_trx_sw_pause_ctrl :: "u32 \<Rightarrow> ctrl_state \<Rightarrow> ctrl_result" where
  "dispr_trx_sw_pause_ctrl m = data_ctl PHL_DATA_CTL_TRX_SW_PAUSE (MSG_MDL_ID_FIELD m)"

definition dispr_trx_sw_resume_ctrl :: "u32 \<Rightarrow> ctrl_state \<Rightarrow> ctrl_result" where
  "dispr_trx_sw_resume_ctrl m = data_ctl PHL_DATA_CTL_TRX_SW_RESUME (MSG_MDL_ID_FIELD m)"

definition dispr_trx_pause_w_rst_ctrl :: "u32 \<Rightarrow> ctrl_state \<Rightarrow> ctrl_result" where
  "dispr_trx_pause_w_rst_ctrl m = data_ctl PHL_DATA_CTL_TRX_PAUSE_W_RST (MSG_MDL_ID_FIELD m)"

definition dispr_trx_resume_w_rst_ctrl :: "u32 \<Rightarrow> ctrl_state \<Rightarrow> ctrl_result" where
  "dispr_trx_resume_w_rst_ctrl m = data_ctl PHL_DATA_CTL_TRX_RESUME_W_RST (MSG_MDL_ID_FIELD m)"

subsection \<open>The monitor\<close>

definition dispr_mdl_stop_ctrl :: "ctrl_state \<Rightarrow> ctrl_result" where
  "dispr_mdl_stop_ctrl c =
     (if mon_mdl_id (ctrl c) \<noteq> 0
      then (MDL_RET_PENDING, None, c\<lparr>ctrl := (ctrl c)\<lparr>mon_mdl := True\<rparr>\<rparr>)
      else (MDL_RET_SUCCESS, None, c))"

definition mon_msg_hdlr :: "u32 \<Rightarrow> ctrl_state \<Rightarrow> ctrl_state" where
  "mon_msg_hdlr m c =
     (let evt = MSG_EVT_ID_FIELD m in
      if evt = MSG_EVT_SER_L0_RESET \<or> evt = MSG_EVT_SER_M1_PAUSE_TRX \<or> evt = MSG_EVT_SER_M3_DO_RECOV
      then c\<lparr>ctrl := (ctrl c)\<lparr>mon_mdl_id := PHL_MDL_SER\<rparr>\<rparr>
      else if evt = MSG_EVT_SER_M5_READY
      then c\<lparr>ctrl := \<lparr>mon_mdl_id = 0, mon_mdl = False\<rparr>,
             cleared := (if mon_mdl (ctrl c) then cleared c + 1 else cleared c)\<rparr>
      else c)"

subsection \<open>The message handler\<close>

definition ctrler_msg_hdlr :: "u32 \<Rightarrow> ctrl_state \<Rightarrow> ctrl_result" where
  "ctrler_msg_hdlr m c =
     (let evt = MSG_EVT_ID_FIELD m in
      if evt = MSG_EVT_DEV_RESUME_IO then dispr_resume_io_ctrl m c
      else if evt = MSG_EVT_DEV_CANNOT_IO then dispr_cannot_io_ctrl m c
      else (MDL_RET_IGNORE, None, c))"

text \<open>\<open>_tx_msg_hdlr\<close> and \<open>_rx_msg_hdlr\<close> ignore every event.\<close>

definition trx_msg_hdlr :: "u32 \<Rightarrow> ctrl_state \<Rightarrow> ctrl_result" where
  "trx_msg_hdlr m c = (MDL_RET_IGNORE, None, c)"

definition internal_msg_hdlr :: "u32 \<Rightarrow> ctrl_state \<Rightarrow> ctrl_result" where
  "internal_msg_hdlr m c =
     (let k = MSG_MDL_ID_FIELD m in
      if k = PHL_MDL_PHY_MGNT then ctrler_msg_hdlr m c
      else if k = PHL_MDL_TX \<or> k = PHL_MDL_RX then trx_msg_hdlr m c
      else (MDL_RET_IGNORE, None, c))"

definition external_msg_hdlr :: "u32 \<Rightarrow> ctrl_state \<Rightarrow> ctrl_result" where
  "external_msg_hdlr m c =
     (if removed c then (MDL_RET_FAIL, None, c)
      else (let c = mon_msg_hdlr m c; evt = MSG_EVT_ID_FIELD m in
        if evt = MSG_EVT_HW_TRX_RST_RESUME then dispr_hw_trx_rst_resume_ctrl m c
        else if evt = MSG_EVT_HW_TRX_PAUSE then dispr_hw_trx_pause_ctrl m c
        else if evt = MSG_EVT_SW_TX_RESUME then dispr_sw_tx_resume_ctrl m c
        else if evt = MSG_EVT_SW_RX_RESUME then dispr_sw_rx_resume_ctrl m c
        else if evt = MSG_EVT_SW_TX_PAUSE then dispr_sw_tx_pause_ctrl m c
        else if evt = MSG_EVT_SW_RX_PAUSE then dispr_sw_rx_pause_ctrl m c
        else if evt = MSG_EVT_SW_TX_RESET then dispr_sw_tx_reset_ctrl m c
        else if evt = MSG_EVT_SW_RX_RESET then dispr_sw_rx_reset_ctrl m c
        else if evt = MSG_EVT_TRX_SW_PAUSE then dispr_trx_sw_pause_ctrl m c
        else if evt = MSG_EVT_TRX_SW_RESUME then dispr_trx_sw_resume_ctrl m c
        else if evt = MSG_EVT_TRX_PAUSE_W_RST then dispr_trx_pause_w_rst_ctrl m c
        else if evt = MSG_EVT_TRX_RESUME_W_RST then dispr_trx_resume_w_rst_ctrl m c
        else if evt = MSG_EVT_MDL_CHECK_STOP then dispr_mdl_stop_ctrl c
        else (MDL_RET_IGNORE, None, c)))"

definition dispr_ctrl_msg_hdlr :: "u32 \<Rightarrow> ctrl_state \<Rightarrow> ctrl_result" where
  "dispr_ctrl_msg_hdlr m c =
     (if IS_MSG_FAIL m then (MDL_RET_FAIL, None, c)
      else if IS_DISPR_CTRL (MSG_MDL_ID_FIELD m) then internal_msg_hdlr m c
      else external_msg_hdlr m c)"

subsection \<open>Life\<close>

definition dispr_ctrl_init :: "bool \<Rightarrow> mdl_ret \<times> cmd_controller option" where
  "dispr_ctrl_init alloc =
     (if alloc then (MDL_RET_SUCCESS, Some \<lparr>mon_mdl_id = 0, mon_mdl = False\<rparr>) else (MDL_RET_FAIL, None))"

definition dispr_ctrl_start :: "ctrl_state \<Rightarrow> mdl_ret \<times> ctrl_state" where
  "dispr_ctrl_start c = (MDL_RET_SUCCESS, c\<lparr>ctrl := \<lparr>mon_mdl_id = 0, mon_mdl = False\<rparr>\<rparr>)"

definition dispr_ctrl_stop :: "ctrl_state \<Rightarrow> mdl_ret \<times> ctrl_state" where
  "dispr_ctrl_stop c = (MDL_RET_SUCCESS, c)"

end
