(* ===== verification/DispCtrlProps.thy ===== *)
theory DispCtrlProps
  imports DispCtrl
begin

text \<open>
  What the controller module remembers of the messages it has seen, and that it keeps modules
  from stopping exactly during a recovery.
\<close>

subsection \<open>Messages of the other modules\<close>

definition from_module :: "u32 \<Rightarrow> u16 \<Rightarrow> bool" where
  "from_module m evt \<longleftrightarrow>
     \<not> IS_MSG_FAIL m \<and> \<not> IS_DISPR_CTRL (MSG_MDL_ID_FIELD m) \<and> MSG_EVT_ID_FIELD m = evt"

definition starts_recovery :: "u32 \<Rightarrow> bool" where
  "starts_recovery m \<longleftrightarrow> from_module m MSG_EVT_SER_L0_RESET \<or> from_module m MSG_EVT_SER_M1_PAUSE_TRX \<or>
     from_module m MSG_EVT_SER_M3_DO_RECOV"

definition ends_recovery :: "u32 \<Rightarrow> bool" where
  "ends_recovery m \<longleftrightarrow> from_module m MSG_EVT_SER_M5_READY"

definition asks_to_stop :: "u32 \<Rightarrow> bool" where
  "asks_to_stop m \<longleftrightarrow> from_module m MSG_EVT_MDL_CHECK_STOP"

text \<open>A recovery has started and not ended; a module has asked to stop during it.\<close>

definition recovering :: "u32 list \<Rightarrow> bool" where
  "recovering ms \<longleftrightarrow>
     (\<exists>xs m ys. ms = xs @ m # ys \<and> starts_recovery m \<and> (\<forall>y \<in> set ys. \<not> ends_recovery y))"

definition stop_waits :: "u32 list \<Rightarrow> bool" where
  "stop_waits ms \<longleftrightarrow>
     (\<exists>xs m ys. ms = xs @ m # ys \<and> recovering xs \<and> asks_to_stop m \<and> (\<forall>y \<in> set ys. \<not> ends_recovery y))"

fun ctrl_msgs :: "u32 list \<Rightarrow> ctrl_state \<Rightarrow> ctrl_state" where
  "ctrl_msgs [] c = c"
| "ctrl_msgs (m # ms) c = ctrl_msgs ms (snd (snd (dispr_ctrl_msg_hdlr m c)))"

lemma ctrl_msgs_append [simp]: "ctrl_msgs (ms @ ns) c = ctrl_msgs ns (ctrl_msgs ms c)"
  by (induction ms arbitrary: c) auto

lemma snoc_split: "(\<exists>xs x ys. ms @ [m] = xs @ x # ys \<and> P xs x ys) \<longleftrightarrow>
    P ms m [] \<or> (\<exists>xs x ys. ms = xs @ x # ys \<and> P xs x (ys @ [m]))"
proof
  assume "\<exists>xs x ys. ms @ [m] = xs @ x # ys \<and> P xs x ys"
  then obtain xs x ys where e: "ms @ [m] = xs @ x # ys" "P xs x ys" by blast
  show "P ms m [] \<or> (\<exists>xs x ys. ms = xs @ x # ys \<and> P xs x (ys @ [m]))"
  proof (cases ys rule: rev_cases)
    case Nil
    with e show ?thesis by simp
  next
    case (snoc zs z)
    with e have "ms = xs @ x # zs" "z = m" by auto
    with e snoc show ?thesis by blast
  qed
next
  assume "P ms m [] \<or> (\<exists>xs x ys. ms = xs @ x # ys \<and> P xs x (ys @ [m]))"
  then show "\<exists>xs x ys. ms @ [m] = xs @ x # ys \<and> P xs x ys"
  proof
    assume "P ms m []"
    then show ?thesis by blast
  next
    assume "\<exists>xs x ys. ms = xs @ x # ys \<and> P xs x (ys @ [m])"
    then obtain xs x ys where "ms = xs @ x # ys" "P xs x (ys @ [m])" by blast
    then have "ms @ [m] = xs @ x # (ys @ [m]) \<and> P xs x (ys @ [m])" by simp
    then show ?thesis by blast
  qed
qed

lemma recovering_nil [simp]: "\<not> recovering []"
  by (simp add: recovering_def)

lemma stop_waits_nil [simp]: "\<not> stop_waits []"
  by (simp add: stop_waits_def)

lemma recovering_snoc: "recovering (ms @ [m]) \<longleftrightarrow> starts_recovery m \<or> recovering ms \<and> \<not> ends_recovery m"
  unfolding recovering_def snoc_split by auto

lemma stop_waits_snoc:
  "stop_waits (ms @ [m]) \<longleftrightarrow> recovering ms \<and> asks_to_stop m \<or> stop_waits ms \<and> \<not> ends_recovery m"
  unfolding stop_waits_def snoc_split by auto

subsection \<open>One message\<close>

lemma data_ctl_frame [simp]:
  "ctrl (snd (snd (data_ctl cmd k c))) = ctrl c" "removed (snd (snd (data_ctl cmd k c))) = removed c"
  "cleared (snd (snd (data_ctl cmd k c))) = cleared c"
  by (simp_all add: data_ctl_def split: prod.split)

lemmas ctrl_handlers = dispr_hw_trx_rst_resume_ctrl_def dispr_hw_trx_pause_ctrl_def dispr_sw_tx_resume_ctrl_def
  dispr_sw_rx_resume_ctrl_def dispr_sw_tx_pause_ctrl_def dispr_sw_rx_pause_ctrl_def dispr_sw_tx_reset_ctrl_def
  dispr_sw_rx_reset_ctrl_def dispr_trx_sw_pause_ctrl_def dispr_trx_sw_resume_ctrl_def
  dispr_trx_pause_w_rst_ctrl_def dispr_trx_resume_w_rst_ctrl_def

lemmas ctrl_events = MSG_EVT_HW_TRX_RST_RESUME_def MSG_EVT_HW_TRX_PAUSE_def MSG_EVT_SW_TX_RESUME_def
  MSG_EVT_SW_RX_RESUME_def MSG_EVT_SW_TX_PAUSE_def MSG_EVT_SW_RX_PAUSE_def MSG_EVT_SW_TX_RESET_def
  MSG_EVT_SW_RX_RESET_def MSG_EVT_TRX_SW_PAUSE_def MSG_EVT_TRX_SW_RESUME_def MSG_EVT_TRX_PAUSE_W_RST_def
  MSG_EVT_TRX_RESUME_W_RST_def MSG_EVT_SER_L0_RESET_def MSG_EVT_SER_M1_PAUSE_TRX_def MSG_EVT_SER_M3_DO_RECOV_def
  MSG_EVT_SER_M5_READY_def MSG_EVT_MDL_CHECK_STOP_def

lemma resume_io_frame:
  "ctrl (snd (snd (dispr_resume_io_ctrl m c))) = ctrl c" "removed (snd (snd (dispr_resume_io_ctrl m c))) = removed c"
  "cleared (snd (snd (dispr_resume_io_ctrl m c))) = cleared c"
proof -
  obtain ret err c' where c': "data_ctl PHL_DATA_CTL_SW_TX_RESUME (MSG_MDL_ID_FIELD m) c = (ret, err, c')"
    using prod_cases3 by blast
  have "ctrl c' = ctrl c" "removed c' = removed c" "cleared c' = cleared c"
    using data_ctl_frame [of PHL_DATA_CTL_SW_TX_RESUME "MSG_MDL_ID_FIELD m" c] c' by simp_all
  with c' show "ctrl (snd (snd (dispr_resume_io_ctrl m c))) = ctrl c"
    "removed (snd (snd (dispr_resume_io_ctrl m c))) = removed c"
    "cleared (snd (snd (dispr_resume_io_ctrl m c))) = cleared c" by (simp_all add: dispr_resume_io_ctrl_def)
qed

lemma internal_frame:
  "ctrl (snd (snd (internal_msg_hdlr m c))) = ctrl c" "removed (snd (snd (internal_msg_hdlr m c))) = removed c"
  "cleared (snd (snd (internal_msg_hdlr m c))) = cleared c"
  by (simp_all add: internal_msg_hdlr_def ctrler_msg_hdlr_def trx_msg_hdlr_def Let_def resume_io_frame
      dispr_cannot_io_ctrl_def)

text \<open>The commands do not touch what the monitor has set, except the question for a stop.\<close>

definition after_monitor :: "u32 \<Rightarrow> ctrl_state \<Rightarrow> cmd_controller" where
  "after_monitor m c =
     (if MSG_EVT_ID_FIELD m = MSG_EVT_MDL_CHECK_STOP \<and> mon_mdl_id (ctrl c) \<noteq> 0
      then (ctrl c)\<lparr>mon_mdl := True\<rparr> else ctrl c)"

lemma external_effect:
  assumes "\<not> removed c"
  shows "ctrl (snd (snd (external_msg_hdlr m c))) = after_monitor m (mon_msg_hdlr m c) \<and>
     removed (snd (snd (external_msg_hdlr m c))) = removed c \<and>
     cleared (snd (snd (external_msg_hdlr m c))) = cleared (mon_msg_hdlr m c)"
proof -
  have r: "removed (mon_msg_hdlr m c) = removed c" by (simp add: mon_msg_hdlr_def Let_def)
  show ?thesis
  proof (cases "MSG_EVT_ID_FIELD m = MSG_EVT_MDL_CHECK_STOP")
    case True
    with assms r show ?thesis
      by (simp add: external_msg_hdlr_def Let_def ctrl_events dispr_mdl_stop_ctrl_def after_monitor_def)
  next
    case False
    with assms r show ?thesis
      by (simp add: external_msg_hdlr_def Let_def ctrl_handlers after_monitor_def)
  qed
qed

lemma handler_effect:
  assumes "\<not> removed c"
  shows "\<not> removed (snd (snd (dispr_ctrl_msg_hdlr m c)))"
    "mon_mdl_id (ctrl (snd (snd (dispr_ctrl_msg_hdlr m c)))) \<noteq> 0 \<longleftrightarrow>
       starts_recovery m \<or> mon_mdl_id (ctrl c) \<noteq> 0 \<and> \<not> ends_recovery m"
    "mon_mdl (ctrl (snd (snd (dispr_ctrl_msg_hdlr m c)))) \<longleftrightarrow>
       mon_mdl_id (ctrl c) \<noteq> 0 \<and> asks_to_stop m \<or> mon_mdl (ctrl c) \<and> \<not> ends_recovery m"
    "cleared (snd (snd (dispr_ctrl_msg_hdlr m c))) =
       cleared c + (if ends_recovery m \<and> mon_mdl (ctrl c) then 1 else 0)"
proof -
  note msgs = starts_recovery_def ends_recovery_def asks_to_stop_def from_module_def ctrl_events
  consider (fail) "IS_MSG_FAIL m" | (own) "\<not> IS_MSG_FAIL m" "IS_DISPR_CTRL (MSG_MDL_ID_FIELD m)"
    | (ext) "\<not> IS_MSG_FAIL m" "\<not> IS_DISPR_CTRL (MSG_MDL_ID_FIELD m)" by blast
  then have "\<not> removed (snd (snd (dispr_ctrl_msg_hdlr m c))) \<and>
    (mon_mdl_id (ctrl (snd (snd (dispr_ctrl_msg_hdlr m c)))) \<noteq> 0 \<longleftrightarrow>
       starts_recovery m \<or> mon_mdl_id (ctrl c) \<noteq> 0 \<and> \<not> ends_recovery m) \<and>
    (mon_mdl (ctrl (snd (snd (dispr_ctrl_msg_hdlr m c)))) \<longleftrightarrow>
       mon_mdl_id (ctrl c) \<noteq> 0 \<and> asks_to_stop m \<or> mon_mdl (ctrl c) \<and> \<not> ends_recovery m) \<and>
    cleared (snd (snd (dispr_ctrl_msg_hdlr m c))) =
       cleared c + (if ends_recovery m \<and> mon_mdl (ctrl c) then 1 else 0)"
  proof cases
    case fail
    with assms show ?thesis by (simp add: dispr_ctrl_msg_hdlr_def msgs)
  next
    case own
    with assms show ?thesis by (simp add: dispr_ctrl_msg_hdlr_def msgs internal_frame)
  next
    case ext
    with assms external_effect [OF assms, of m] show ?thesis
      by (auto simp: dispr_ctrl_msg_hdlr_def msgs after_monitor_def mon_msg_hdlr_def PHL_MDL_SER_def Let_def)
  qed
  then show "\<not> removed (snd (snd (dispr_ctrl_msg_hdlr m c)))"
    "mon_mdl_id (ctrl (snd (snd (dispr_ctrl_msg_hdlr m c)))) \<noteq> 0 \<longleftrightarrow>
       starts_recovery m \<or> mon_mdl_id (ctrl c) \<noteq> 0 \<and> \<not> ends_recovery m"
    "mon_mdl (ctrl (snd (snd (dispr_ctrl_msg_hdlr m c)))) \<longleftrightarrow>
       mon_mdl_id (ctrl c) \<noteq> 0 \<and> asks_to_stop m \<or> mon_mdl (ctrl c) \<and> \<not> ends_recovery m"
    "cleared (snd (snd (dispr_ctrl_msg_hdlr m c))) =
       cleared c + (if ends_recovery m \<and> mon_mdl (ctrl c) then 1 else 0)" by blast+
qed

lemma remembers:
  assumes "\<not> removed c" "mon_mdl_id (ctrl c) = 0" "\<not> mon_mdl (ctrl c)"
  shows "\<not> removed (ctrl_msgs ms c) \<and> (mon_mdl_id (ctrl (ctrl_msgs ms c)) \<noteq> 0 \<longleftrightarrow> recovering ms) \<and>
     (mon_mdl (ctrl (ctrl_msgs ms c)) \<longleftrightarrow> stop_waits ms)"
proof (induction ms rule: rev_induct)
  case (snoc m ms)
  with handler_effect [of "ctrl_msgs ms c" m] show ?case
    by (simp add: recovering_snoc stop_waits_snoc)
qed (simp add: assms)

subsection \<open>Property\<close>

text \<open>
  C31. As long as the device has not been removed: after any sequence of messages since the start
  of the controller, a module that asks whether it may stop is told to wait exactly when a
  recovery has started and not ended; and the pending messages are released exactly by the end
  of a recovery during which a module was told to wait, so that it asks again. Messages of the
  controller itself and failure notices, and what the commands of the data path return, make no
  difference. Once the device has been removed (\<open>RTW_DEV_SURPRISE_REMOVAL\<close>) all this ends: a
  message of another module then fails and changes nothing, so a module that asks for a stop is
  refused instead of being told to wait, and the end of a recovery releases no message.
\<close>

theorem stop_waits_for_recovery:
  assumes "\<not> removed c0" "c = ctrl_msgs ms (snd (dispr_ctrl_start c0))"
  shows "(asks_to_stop m \<longrightarrow>
       fst (dispr_ctrl_msg_hdlr m c) = (if recovering ms then MDL_RET_PENDING else MDL_RET_SUCCESS)) \<and>
     cleared (snd (snd (dispr_ctrl_msg_hdlr m c))) =
       cleared c + (if ends_recovery m \<and> stop_waits ms then 1 else 0) \<and>
     (from_module m evt \<longrightarrow>
       dispr_ctrl_msg_hdlr m (c\<lparr>removed := True\<rparr>) = (MDL_RET_FAIL, None, c\<lparr>removed := True\<rparr>))"
proof -
  have s: "\<not> removed (snd (dispr_ctrl_start c0))" "mon_mdl_id (ctrl (snd (dispr_ctrl_start c0))) = 0"
    "\<not> mon_mdl (ctrl (snd (dispr_ctrl_start c0)))"
    using assms(1) by (simp_all add: dispr_ctrl_start_def)
  note r = remembers [OF s, of ms, folded assms(2)]
  have "fst (dispr_ctrl_msg_hdlr m c) = (if recovering ms then MDL_RET_PENDING else MDL_RET_SUCCESS)"
    if "asks_to_stop m"
    using that r by (simp add: asks_to_stop_def from_module_def dispr_ctrl_msg_hdlr_def external_msg_hdlr_def
        mon_msg_hdlr_def dispr_mdl_stop_ctrl_def ctrl_events Let_def)
  moreover have "dispr_ctrl_msg_hdlr m (c\<lparr>removed := True\<rparr>) = (MDL_RET_FAIL, None, c\<lparr>removed := True\<rparr>)"
    if "from_module m evt"
    using that by (simp add: from_module_def dispr_ctrl_msg_hdlr_def external_msg_hdlr_def)
  ultimately show ?thesis using handler_effect(4) [of c m] r by simp
qed

definition ex_ctrl :: ctrl_state where
  "ex_ctrl = \<lparr>ctrl = \<lparr>mon_mdl_id = 42, mon_mdl = True\<rparr>,
     dp = \<lparr>tx_path = \<lparr>sw_sts = STS_RUNNING, pause_id = 0, sw_more = False, sw_req_pwr = False, scheduled = False, handler = H_off\<rparr>,
       rx_path = \<lparr>sw_sts = STS_RUNNING, pause_id = 0, sw_more = False, sw_req_pwr = False, scheduled = False, handler = H_off\<rparr>,
       is_hw_trx_pause = False, lps_pause_tx = False, clock = 0, hal = [], rounds = [], dp_log = []\<rparr>,
     removed = False, cleared = 0\<rparr>"

text \<open>SER starts a recovery (0x2A002A), the scan module asks for a stop (0x820083), SER ends it (0x2A002E).\<close>

lemma stop_waits_for_recovery_witness:
  "fst (dispr_ctrl_msg_hdlr 0x820083 (ctrl_msgs [0x2A002A] (snd (dispr_ctrl_start ex_ctrl)))) = MDL_RET_PENDING \<and>
   cleared (snd (snd (dispr_ctrl_msg_hdlr 0x2A002E (ctrl_msgs [0x2A002A, 0x820083] (snd (dispr_ctrl_start ex_ctrl)))))) = 1 \<and>
   fst (dispr_ctrl_msg_hdlr 0x820083 ((ctrl_msgs [0x2A002A] (snd (dispr_ctrl_start ex_ctrl)))\<lparr>removed := True\<rparr>)) = MDL_RET_FAIL"
proof -
  have e: "\<not> removed ex_ctrl" "asks_to_stop 0x820083" "starts_recovery 0x2A002A" "ends_recovery 0x2A002E"
    "\<not> ends_recovery 0x820083" "from_module 0x820083 MSG_EVT_MDL_CHECK_STOP" by code_simp+
  have r: "recovering [0x2A002A]" "stop_waits [0x2A002A, 0x820083]"
    using e recovering_snoc [of "[]" "0x2A002A"] stop_waits_snoc [of "[0x2A002A]" "0x820083"] by simp_all
  have c: "cleared (ctrl_msgs [0x2A002A, 0x820083] (snd (dispr_ctrl_start ex_ctrl))) = 0" by code_simp
  from stop_waits_for_recovery [OF e(1) refl, of "0x820083" "[0x2A002A]"]
    stop_waits_for_recovery [OF e(1) refl, of "0x2A002E" "[0x2A002A, 0x820083]"] r e c
  show ?thesis by simp
qed

end
