(* ===== verification/TxRing.thy ===== *)
theory TxRing
  imports RingIndex
begin

text \<open>
  The transmit rings of \<^verbatim>\<open>phl/phl_tx.c\<close>. Every station has a list of ten rings, one per traffic
  identifier and one each for management and high-priority frames. The core adds requests; the
  transmit handler takes a status from a pool for every ring with requests, sorts the
  statuses of a station by priority (\<open>_phl_sort_ring_by_tid\<close>) and merges those of all stations
  (\<open>phl_tx_flow_ctrl\<close>). The rings of a station that goes away are freed by the handler.

  Ring lists, statuses and requests are named by their addresses; a freed ring list is \<open>None\<close>.
  The mode with one ring for all stations is never selected (\<open>rtw_phl_set_one_txring_mode\<close> has
  no caller) and is left out, as are the statistics.
\<close>

subsection \<open>Data\<close>

definition MAX_PHL_RING_CAT_NUM :: nat where "MAX_PHL_RING_CAT_NUM = 10"
definition MAX_PHL_RING_STATUS_NUMBER :: nat where "MAX_PHL_RING_STATUS_NUMBER = 256"

definition RTW_PHL_RING_CAT_TID1 :: nat where "RTW_PHL_RING_CAT_TID1 = 1"
definition RTW_PHL_RING_CAT_TID2 :: nat where "RTW_PHL_RING_CAT_TID2 = 2"
definition RTW_PHL_RING_CAT_MGNT :: nat where "RTW_PHL_RING_CAT_MGNT = 8"
definition RTW_PHL_RING_CAT_HIQ :: nat where "RTW_PHL_RING_CAT_HIQ = 9"

lemmas cat_defs = RTW_PHL_RING_CAT_TID1_def RTW_PHL_RING_CAT_TID2_def RTW_PHL_RING_CAT_MGNT_def
  RTW_PHL_RING_CAT_HIQ_def MAX_PHL_RING_CAT_NUM_def

definition rtw_phl_cvt_cat_to_tid :: "nat \<Rightarrow> nat" where
  "rtw_phl_cvt_cat_to_tid cat = (if cat < 8 then cat else 0)"

record tx_ring =
  tr_cat :: nat
  tr_dma_ch :: u8
  tr_core_idx :: u16
  tr_phl_idx :: u16
  tr_phl_next_idx :: u16
  tr_entry :: "nat \<Rightarrow> nat option"

record phl_tx_plan =
  tp_sleep :: bool
  tp_has_mgnt :: bool
  tp_has_hiq :: bool
  tp_sorted_ring :: "nat list"

record tring_list =
  tl_macid :: u16
  tl_band :: u8
  tl_wmm :: u8
  tl_port :: u8
  tl_phl_ring :: "nat \<Rightarrow> tx_ring"
  tl_tx_plan :: phl_tx_plan

text \<open>\<open>rs_ring_ptr\<close>: the ring list and the category of the ring.\<close>

record phl_ring_status =
  rs_band :: u8
  rs_wmm :: u8
  rs_port :: u8
  rs_req_busy :: u16
  rs_ring_ptr :: "(nat \<times> nat) option"

record tx_rings =
  tring :: "nat \<Rightarrow> tring_list option"
  t_ring_list :: "nat list"
  t_ring_free_list :: "nat list"
  ring_sts :: "nat \<Rightarrow> phl_ring_status"
  sts_idle :: "nat list"
  t_fctrl_result :: "nat list"
  phl_sw_tx_more :: bool

definition blank_sts :: phl_ring_status where
  "blank_sts = \<lparr>rs_band = 0, rs_wmm = 0, rs_port = 0, rs_req_busy = 0, rs_ring_ptr = None\<rparr>"

definition init_tx_plan :: phl_tx_plan where
  "init_tx_plan = \<lparr>tp_sleep = False, tp_has_mgnt = False, tp_has_hiq = False, tp_sorted_ring = []\<rparr>"

text \<open>\<open>_phl_ring_status_init\<close> and the empty lists of \<open>phl_datapath_init\<close>.\<close>

definition tx_rings_init :: tx_rings where
  "tx_rings_init = \<lparr>tring = (\<lambda>_. None), t_ring_list = [], t_ring_free_list = [],
     ring_sts = (\<lambda>_. blank_sts), sts_idle = [0..<MAX_PHL_RING_STATUS_NUMBER],
     t_fctrl_result = [], phl_sw_tx_more = False\<rparr>"

definition ring_at :: "tx_rings \<Rightarrow> nat \<times> nat \<Rightarrow> tx_ring option" where
  "ring_at s k = map_option (\<lambda>L. tl_phl_ring L (snd k)) (tring s (fst k))"

definition put_ring :: "nat \<times> nat \<Rightarrow> tx_ring \<Rightarrow> tx_rings \<Rightarrow> tx_rings" where
  "put_ring k r s = s\<lparr>tring := (tring s)(fst k :=
     map_option (\<lambda>L. L\<lparr>tl_phl_ring := (tl_phl_ring L)(snd k := r)\<rparr>) (tring s (fst k)))\<rparr>"

definition put_plan :: "nat \<Rightarrow> phl_tx_plan \<Rightarrow> tx_rings \<Rightarrow> tx_rings" where
  "put_plan a p s = s\<lparr>tring := (tring s)(a := map_option (\<lambda>L. L\<lparr>tl_tx_plan := p\<rparr>) (tring s a))\<rparr>"

definition plan_at :: "tx_rings \<Rightarrow> nat \<Rightarrow> phl_tx_plan" where
  "plan_at s a = (case tring s a of None \<Rightarrow> init_tx_plan | Some L \<Rightarrow> tl_tx_plan L)"

subsection \<open>Ring lists\<close>

text \<open>The channel of a ring: \<open>hal_mapping_hw_tx_chnl_8852cu\<close>.\<close>

definition rtw_hal_tx_chnl_mapping :: "nat \<Rightarrow> u8 \<Rightarrow> u8" where
  "rtw_hal_tx_chnl_mapping cat band =
     (if band = 0 then
        (if cat \<in> {0, 3, 6, 7} then 0 else if cat \<in> {1, 2, 4, 5} then 2
         else if cat \<in> {8, 9} then 8 else 0)
      else if band = 1 then
        (if cat \<in> {0, 3, 6, 7} then 4 else if cat \<in> {1, 2, 4, 5} then 6
         else if cat \<in> {8, 9} then 10 else 4)
      else 0)"

text \<open>
  The memory of the ten entry arrays, with whatever it contains, is given by \<open>mem\<close>; when one
  allocation fails the memory obtained so far is given back and no list results.
\<close>

definition phl_allocate_phl_tring_list ::
  "u16 \<Rightarrow> u8 \<Rightarrow> u8 \<Rightarrow> u8 \<Rightarrow> bool \<Rightarrow> (nat \<Rightarrow> (nat \<Rightarrow> nat option) option) \<Rightarrow> tring_list option" where
  "phl_allocate_phl_tring_list macid hw_band hw_wmm hw_port alloc mem =
     (if alloc \<and> (\<forall>i \<in> {0..<MAX_PHL_RING_CAT_NUM}. mem i \<noteq> None)
      then Some \<lparr>tl_macid = macid, tl_band = hw_band, tl_wmm = hw_wmm, tl_port = hw_port,
        tl_phl_ring = (\<lambda>i. \<lparr>tr_cat = i, tr_dma_ch = rtw_hal_tx_chnl_mapping i hw_band,
          tr_core_idx = 0, tr_phl_idx = 0, tr_phl_next_idx = 0, tr_entry = the (mem i)\<rparr>),
        tl_tx_plan = init_tx_plan\<rparr>
      else None)"

definition phl_register_tx_ring ::
  "nat \<Rightarrow> u16 \<Rightarrow> u8 \<Rightarrow> u8 \<Rightarrow> u8 \<Rightarrow> bool \<Rightarrow> (nat \<Rightarrow> (nat \<Rightarrow> nat option) option) \<Rightarrow> tx_rings \<Rightarrow>
     phl_status \<times> tx_rings" where
  "phl_register_tx_ring a macid hw_band hw_wmm hw_port alloc mem s =
     (case phl_allocate_phl_tring_list macid hw_band hw_wmm hw_port alloc mem of
        None \<Rightarrow> (RTW_PHL_STATUS_FAILURE, s)
      | Some L \<Rightarrow> (RTW_PHL_STATUS_SUCCESS,
          s\<lparr>tring := (tring s)(a \<mapsto> L), t_ring_list := t_ring_list s @ [a]\<rparr>))"

definition has_macid :: "tx_rings \<Rightarrow> u16 \<Rightarrow> nat \<Rightarrow> bool" where
  "has_macid s macid a \<longleftrightarrow> (case tring s a of None \<Rightarrow> False | Some L \<Rightarrow> tl_macid L = macid)"

definition phl_deregister_tx_ring :: "u16 \<Rightarrow> tx_rings \<Rightarrow> phl_status \<times> tx_rings" where
  "phl_deregister_tx_ring macid s =
     (case find (has_macid s macid) (t_ring_list s) of
        None \<Rightarrow> (RTW_PHL_STATUS_FAILURE, s)
      | Some a \<Rightarrow> (RTW_PHL_STATUS_SUCCESS,
          s\<lparr>t_ring_list := remove1 a (t_ring_list s), t_ring_free_list := t_ring_free_list s @ [a]\<rparr>))"

definition phl_re_register_tx_ring ::
  "u16 \<Rightarrow> u8 \<Rightarrow> u8 \<Rightarrow> u8 \<Rightarrow> tx_rings \<Rightarrow> phl_status \<times> tx_rings" where
  "phl_re_register_tx_ring macid hw_band hw_wmm hw_port s =
     (case find (has_macid s macid) (t_ring_list s) of
        None \<Rightarrow> (RTW_PHL_STATUS_FAILURE, s)
      | Some a \<Rightarrow> (RTW_PHL_STATUS_SUCCESS,
          s\<lparr>tring := (tring s)(a := map_option
            (\<lambda>L. L\<lparr>tl_band := hw_band, tl_wmm := hw_wmm, tl_port := hw_port,
               tl_phl_ring := (\<lambda>i. if i < MAX_PHL_RING_CAT_NUM
                 then (tl_phl_ring L i)\<lparr>tr_cat := i, tr_dma_ch := rtw_hal_tx_chnl_mapping i hw_band\<rparr>
                 else tl_phl_ring L i)\<rparr>) (tring s a))\<rparr>))"

text \<open>
  \<open>_phl_free_phl_tring_list\<close> gives back the requests of the rings; the loop over the indices
  ends after at most as many rounds as the ring has places.
\<close>

fun recycle_ring :: "nat \<Rightarrow> (nat \<Rightarrow> nat option) \<Rightarrow> u16 \<Rightarrow> u16 \<Rightarrow> nat list" where
  "recycle_ring 0 ent rptr core_idx = []"
| "recycle_ring (Suc n) ent rptr core_idx =
     (if rptr = core_idx then []
      else let rptr' = ring_next rptr in
        (case ent (unat rptr') of
           None \<Rightarrow> []
         | Some q \<Rightarrow> q # recycle_ring n ent rptr' core_idx))"

definition free_ring_reqs :: "tx_ring \<Rightarrow> nat list" where
  "free_ring_reqs r =
     recycle_ring MAX_PHL_TX_RING_ENTRY_NUM (tr_entry r) (tr_phl_idx r) (tr_core_idx r)"

text \<open>The second result: the requests given back, with their rings.\<close>

definition phl_free_phl_tring_list :: "nat \<Rightarrow> tx_rings \<Rightarrow> tx_rings \<times> ((nat \<times> nat) \<times> nat list) list" where
  "phl_free_phl_tring_list a s =
     (case tring s a of
        None \<Rightarrow> (s, [])
      | Some L \<Rightarrow> (s\<lparr>tring := (tring s)(a := None)\<rparr>,
          map (\<lambda>i. ((a, i), free_ring_reqs (tl_phl_ring L i))) [0..<MAX_PHL_RING_CAT_NUM]))"

fun free_lists :: "nat list \<Rightarrow> tx_rings \<Rightarrow> tx_rings \<times> ((nat \<times> nat) \<times> nat list) list" where
  "free_lists [] s = (s, [])"
| "free_lists (a # as) s =
     (let (s1, out1) = phl_free_phl_tring_list a (s\<lparr>t_ring_free_list := as\<rparr>);
          (s2, out2) = free_lists as s1
      in (s2, out1 @ out2))"

definition phl_free_deferred_tx_ring :: "tx_rings \<Rightarrow> tx_rings \<times> ((nat \<times> nat) \<times> nat list) list" where
  "phl_free_deferred_tx_ring s = free_lists (t_ring_free_list s) s"

subsection \<open>The core adds a request\<close>

definition phl_select_tx_ring :: "tx_rings \<Rightarrow> u16 \<Rightarrow> nat \<Rightarrow> (nat \<times> nat) option" where
  "phl_select_tx_ring s macid cat =
     map_option (\<lambda>a. (a, cat)) (find (has_macid s macid) (t_ring_list s))"

definition core_next :: "u16 \<Rightarrow> u16" where
  "core_next i = of_nat ((unat i + 1) mod MAX_PHL_TX_RING_ENTRY_NUM)"

text \<open>The request \<open>q\<close> is for the station \<open>macid\<close> and the category \<open>cat\<close>.\<close>

definition rtw_phl_add_tx_req ::
  "nat \<Rightarrow> u16 \<Rightarrow> nat \<Rightarrow> tx_rings \<Rightarrow> phl_status \<times> (nat \<times> nat) option \<times> tx_rings" where
  "rtw_phl_add_tx_req q macid cat s =
     (case phl_select_tx_ring s macid cat of
        None \<Rightarrow> (RTW_PHL_STATUS_FAILURE, None, s)
      | Some k \<Rightarrow>
          (case ring_at s k of
             None \<Rightarrow> (RTW_PHL_STATUS_FAILURE, None, s)
           | Some r \<Rightarrow>
               if phl_calc_avail_wptr (tr_phl_idx r) (tr_core_idx r) RING_BNDY > 0
               then let i = core_next (tr_core_idx r) in
                 (RTW_PHL_STATUS_SUCCESS, Some k,
                  (put_ring k (r\<lparr>tr_core_idx := i, tr_entry := (tr_entry r)(unat i \<mapsto> q)\<rparr>) s)
                    \<lparr>phl_sw_tx_more := True\<rparr>)
               else (RTW_PHL_STATUS_RESOURCE, None, s)))"

definition rtw_phl_tring_rsc :: "tx_rings \<Rightarrow> u16 \<Rightarrow> nat \<Rightarrow> u16" where
  "rtw_phl_tring_rsc s macid tid =
     (case phl_select_tx_ring s macid tid of
        None \<Rightarrow> 0
      | Some k \<Rightarrow> (case ring_at s k of
          None \<Rightarrow> 0
        | Some r \<Rightarrow> phl_calc_avail_rptr (tr_phl_idx r) (tr_core_idx r) RING_BNDY))"

subsection \<open>Statuses\<close>

definition phl_alloc_ring_sts :: "tx_rings \<Rightarrow> nat option \<times> tx_rings" where
  "phl_alloc_ring_sts s =
     (case sts_idle s of
        [] \<Rightarrow> (None, s)
      | x # xs \<Rightarrow> (Some x, s\<lparr>sts_idle := xs\<rparr>))"

definition phl_release_ring_sts :: "nat \<Rightarrow> tx_rings \<Rightarrow> tx_rings" where
  "phl_release_ring_sts x s =
     s\<lparr>ring_sts := (ring_sts s)(x := blank_sts), sts_idle := sts_idle s @ [x]\<rparr>"

definition phl_check_ring_status :: "nat \<times> nat \<Rightarrow> tx_rings \<Rightarrow> nat option \<times> tx_rings" where
  "phl_check_ring_status k s =
     (case tring s (fst k) of
        None \<Rightarrow> (None, s)
      | Some L \<Rightarrow>
          (let r = tl_phl_ring L (snd k);
               avail = phl_calc_avail_rptr (tr_phl_idx r) (tr_core_idx r) RING_BNDY
           in if avail = 0 then (None, s)
              else (case phl_alloc_ring_sts s of
                      (None, s1) \<Rightarrow> (None, s1)
                    | (Some x, s1) \<Rightarrow>
                        (Some x,
                         put_ring k (r\<lparr>tr_phl_next_idx := ring_next (tr_phl_idx r)\<rparr>)
                           (s1\<lparr>ring_sts := (ring_sts s1)(x := \<lparr>rs_band = tl_band L, rs_wmm = tl_wmm L,
                              rs_port = tl_port L, rs_req_busy = avail, rs_ring_ptr = Some k\<rparr>)\<rparr>)))))"

definition sts_cat :: "tx_rings \<Rightarrow> nat \<Rightarrow> nat" where
  "sts_cat s x = (case rs_ring_ptr (ring_sts s x) of None \<Rightarrow> 0
     | Some k \<Rightarrow> (case ring_at s k of None \<Rightarrow> 0 | Some r \<Rightarrow> tr_cat r))"

definition phl_sort_ring_by_tid :: "(nat \<Rightarrow> nat) \<Rightarrow> nat \<Rightarrow> nat \<Rightarrow> phl_tx_plan \<Rightarrow> phl_tx_plan" where
  "phl_sort_ring_by_tid catf x cat p =
     (let L = tp_sorted_ring p in
      if catf x = RTW_PHL_RING_CAT_TID1 then p\<lparr>tp_sorted_ring := L @ [x]\<rparr>
      else if catf x = RTW_PHL_RING_CAT_TID2 then
        (if L = [] then p\<lparr>tp_sorted_ring := L @ [x]\<rparr>
         else if RTW_PHL_RING_CAT_TID1 = catf (last L)
              then p\<lparr>tp_sorted_ring := butlast L @ [x, last L]\<rparr>
              else p\<lparr>tp_sorted_ring := L @ [x]\<rparr>)
      else p\<lparr>tp_sorted_ring := x # L,
             tp_has_mgnt := (if cat = RTW_PHL_RING_CAT_MGNT then True else tp_has_mgnt p),
             tp_has_hiq := (if cat = RTW_PHL_RING_CAT_HIQ then True else tp_has_hiq p)\<rparr>)"

definition check_cat :: "nat \<Rightarrow> tx_rings \<Rightarrow> nat \<Rightarrow> tx_rings" where
  "check_cat a s i =
     (case phl_check_ring_status (a, i) s of
        (None, s1) \<Rightarrow> s1
      | (Some x, s1) \<Rightarrow> put_plan a (phl_sort_ring_by_tid (sts_cat s1) x i (plan_at s1 a)) s1)"

text \<open>The list of stations with something to send is \<open>sta_list\<close>, in the order of the ring lists.\<close>

definition phl_check_tring_list :: "nat \<Rightarrow> tx_rings \<times> nat list \<Rightarrow> tx_rings \<times> nat list" where
  "phl_check_tring_list a st =
     (let s1 = foldl (check_cat a) (fst st) [0..<MAX_PHL_RING_CAT_NUM]
      in (s1, if tp_sorted_ring (plan_at s1 a) \<noteq> [] then snd st @ [a] else snd st))"

definition phl_check_xmit_ring_resource :: "tx_rings \<Rightarrow> bool \<times> tx_rings \<times> nat list" where
  "phl_check_xmit_ring_resource s =
     (let (s1, sta_list) = fold phl_check_tring_list (t_ring_list s) (s, [])
      in (sta_list \<noteq> [], s1\<lparr>phl_sw_tx_more := False\<rparr>, sta_list))"

subsection \<open>Flow control\<close>

definition phl_reset_tx_plan :: "nat \<Rightarrow> tx_rings \<Rightarrow> tx_rings" where
  "phl_reset_tx_plan a s =
     put_plan a init_tx_plan (fold phl_release_ring_sts (tp_sorted_ring (plan_at s a)) s)"

fun insert_after :: "nat \<Rightarrow> nat \<Rightarrow> nat list \<Rightarrow> nat list" where
  "insert_after y x [] = []"
| "insert_after y x (z # zs) = (if z = y then z # x # zs else z # insert_after y x zs)"

text \<open>The loop over the statuses of a station; \<open>tid_entry\<close> holds the last status of each tid.\<close>

fun merge_sorted :: "(nat \<Rightarrow> nat) \<Rightarrow> nat list \<Rightarrow> nat list \<times> (nat \<Rightarrow> nat option) \<Rightarrow>
     nat list \<times> (nat \<Rightarrow> nat option)" where
  "merge_sorted catf [] st = st"
| "merge_sorted catf (x # xs) (res, tid_entry) =
     (let tid = rtw_phl_cvt_cat_to_tid (catf x)
      in merge_sorted catf xs
           (case tid_entry tid of None \<Rightarrow> res @ [x] | Some y \<Rightarrow> insert_after y x res,
            tid_entry(tid \<mapsto> x)))"

definition first_to_front :: "bool \<Rightarrow> nat list \<times> nat list \<Rightarrow> nat list \<times> nat list" where
  "first_to_front b st =
     (if b then (case fst st of [] \<Rightarrow> st | x # xs \<Rightarrow> (xs, x # snd st)) else st)"

fun flow_loop :: "nat list \<Rightarrow> tx_rings \<Rightarrow> nat list \<times> (nat \<Rightarrow> nat option) \<Rightarrow>
     tx_rings \<times> nat list \<times> (nat \<Rightarrow> nat option)" where
  "flow_loop [] s st = (s, st)"
| "flow_loop (a # as) s (res, tid_entry) =
     (let p = plan_at s a in
      if tp_sleep p then flow_loop as (phl_reset_tx_plan a s) (res, tid_entry)
      else let (sorted1, res1) = first_to_front (tp_has_hiq p) (tp_sorted_ring p, res);
               (sorted2, res2) = first_to_front (tp_has_mgnt p) (sorted1, res1);
               st3 = merge_sorted (sts_cat s) sorted2 (res2, tid_entry)
           in flow_loop as (phl_reset_tx_plan a (put_plan a (p\<lparr>tp_sorted_ring := []\<rparr>) s)) st3)"

definition phl_tx_flow_ctrl :: "nat list \<Rightarrow> tx_rings \<Rightarrow> tx_rings" where
  "phl_tx_flow_ctrl sta_list s =
     (let (s1, res, tid_entry) = flow_loop sta_list s (t_fctrl_result s, \<lambda>_. None)
      in s1\<lparr>t_fctrl_result := res\<rparr>)"

end
