(* ===== verification/TxRingProps.thy ===== *)
theory TxRingProps
  imports TxRing
begin

text \<open>
  What the transmit rings promise. \<open>tid_order\<close> is the order in which the rings of a station are
  served, \<open>group_by\<close> the way the flow control merges the stations: the rings of one traffic
  identifier stand together, the identifiers in the order in which they first occur.
\<close>

subsection \<open>Grouping\<close>

definition firsts :: "'a list \<Rightarrow> 'a list" where
  "firsts xs = rev (remdups (rev xs))"

definition group_by :: "('a \<Rightarrow> 'b) \<Rightarrow> 'a list \<Rightarrow> 'a list" where
  "group_by f xs = concat (map (\<lambda>t. filter (\<lambda>x. f x = t) xs) (firsts (map f xs)))"

lemma firsts_snoc: "firsts (xs @ [x]) = (if x \<in> set xs then firsts xs else firsts xs @ [x])"
  by (simp add: firsts_def)

lemma firsts_nil [simp]: "firsts [] = []"
  by (simp add: firsts_def)

lemma set_firsts [simp]: "set (firsts xs) = set xs"
  by (simp add: firsts_def)

lemma distinct_firsts [simp]: "distinct (firsts xs)"
  by (simp add: firsts_def)

lemma group_by_nil [simp]: "group_by f [] = []"
  by (simp add: group_by_def)

lemma set_group_by [simp]: "set (group_by f xs) = set xs"
  by (auto simp: group_by_def)

lemma group_by_new:
  assumes "f x \<notin> f ` set xs"
  shows "group_by f (xs @ [x]) = group_by f xs @ [x]"
proof -
  let ?g = "\<lambda>ys t. filter (\<lambda>y. f y = t) ys"
  have m: "map (?g (xs @ [x])) (firsts (map f xs)) = map (?g xs) (firsts (map f xs))"
    using assms by (intro map_cong) auto
  have e: "?g (xs @ [x]) (f x) = [x]"
    using assms by (auto simp: filter_empty_conv intro: rev_image_eqI)
  have "firsts (map f (xs @ [x])) = firsts (map f xs) @ [f x]" using assms by (simp add: firsts_snoc)
  then have "group_by f (xs @ [x]) = concat (map (?g (xs @ [x])) (firsts (map f xs) @ [f x]))"
    by (simp only: group_by_def)
  also have "\<dots> = group_by f xs @ [x]"
    by (simp only: map_append list.map concat_append concat.simps m e group_by_def append_Nil2)
  finally show ?thesis .
qed

lemma insert_after_append:
  "y \<notin> set xs \<Longrightarrow> insert_after y x (xs @ y # zs) = xs @ y # x # zs"
  by (induction xs) auto

lemma group_by_split:
  assumes "t \<in> set (map f xs)"
  obtains as bs where "firsts (map f xs) = as @ t # bs" "t \<notin> set as" "t \<notin> set bs"
proof -
  have "t \<in> set (firsts (map f xs))" using assms by simp
  then obtain as bs where s: "firsts (map f xs) = as @ t # bs" by (metis split_list)
  have "distinct (as @ t # bs)" using s distinct_firsts [of "map f xs"] by simp
  with s that show thesis by simp
qed

lemma group_by_old:
  assumes old: "f x \<in> f ` set xs" and dist: "distinct xs"
  shows "group_by f (xs @ [x]) = insert_after (last (filter (\<lambda>y. f y = f x) xs)) x (group_by f xs)"
proof -
  define F where "F = filter (\<lambda>y. f y = f x) xs"
  obtain as bs where s: "firsts (map f xs) = as @ f x # bs" "f x \<notin> set as" "f x \<notin> set bs"
    using group_by_split [of "f x" f xs] old by auto
  have eqs: "map (\<lambda>t. filter (\<lambda>y. f y = t) (xs @ [x])) cs = map (\<lambda>t. filter (\<lambda>y. f y = t) xs) cs"
    if "f x \<notin> set cs" for cs using that by (intro map_cong) auto
  define A where "A = concat (map (\<lambda>t. filter (\<lambda>y. f y = t) xs) as)"
  define B where "B = concat (map (\<lambda>t. filter (\<lambda>y. f y = t) xs) bs)"
  have "F \<noteq> []" using old by (auto simp: F_def filter_empty_conv)
  then have F: "F = butlast F @ [last F]" by simp
  have "last F \<notin> set A" using s(2) \<open>F \<noteq> []\<close> last_in_set [of F] by (auto simp: A_def F_def)
  moreover have "distinct (butlast F @ [last F])" using F dist by (metis F_def distinct_filter)
  ultimately have nin: "last F \<notin> set (A @ butlast F)" by simp
  have "group_by f xs = A @ F @ B" using s(1) by (simp add: group_by_def A_def B_def F_def)
  also have "\<dots> = (A @ butlast F) @ last F # B" by (subst F) simp
  finally have g: "group_by f xs = (A @ butlast F) @ last F # B" .
  have mem: "f x \<in> set (map f xs)" using old by simp
  have "firsts (map f (xs @ [x])) = as @ f x # bs" using s(1) mem by (simp add: firsts_snoc)
  then have "group_by f (xs @ [x]) = A @ (F @ [x]) @ B"
    using eqs [OF s(2)] eqs [OF s(3)] by (simp only: group_by_def A_def B_def F_def map_append
        list.map concat_append concat.simps filter_append filter.simps append_Nil2 simp_thms if_True)
  also have "\<dots> = (A @ butlast F) @ last F # x # B" by (subst F) simp
  finally show ?thesis using g insert_after_append [OF nin] F_def by metis
qed

subsection \<open>Merging the statuses\<close>

text \<open>The last status of every identifier, as the loop keeps it.\<close>

definition tid_entries :: "('a \<Rightarrow> nat) \<Rightarrow> 'a list \<Rightarrow> nat \<Rightarrow> 'a option" where
  "tid_entries f xs t = (let F = filter (\<lambda>x. f x = t) xs in if F = [] then None else Some (last F))"

lemma tid_entries_nil: "tid_entries f [] = (\<lambda>_. None)"
  by (rule ext) (simp add: tid_entries_def)

lemma tid_entries_snoc: "tid_entries f (xs @ [x]) = (tid_entries f xs)(f x \<mapsto> x)"
  by (rule ext) (simp add: tid_entries_def Let_def)

lemma insert_after_front: "y \<notin> set as \<Longrightarrow> insert_after y x (as @ bs) = as @ insert_after y x bs"
  by (induction as) auto

lemma merge_sorted_group:
  assumes "distinct (front @ D @ xs)"
    and "f = (\<lambda>x. rtw_phl_cvt_cat_to_tid (catf x))"
  shows "merge_sorted catf xs (front @ group_by f D, tid_entries f D) =
     (front @ group_by f (D @ xs), tid_entries f (D @ xs))"
  using assms(1)
proof (induction xs arbitrary: D)
  case Nil
  then show ?case by simp
next
  case (Cons x xs)
  have f: "rtw_phl_cvt_cat_to_tid (catf x) = f x" by (simp add: assms(2))
  have step: "(case tid_entries f D (f x) of None \<Rightarrow> (front @ group_by f D) @ [x]
      | Some y \<Rightarrow> insert_after y x (front @ group_by f D)) = front @ group_by f (D @ [x])"
  proof (cases "f x \<in> f ` set D")
    case False
    then have "tid_entries f D (f x) = None"
      by (auto simp: tid_entries_def filter_empty_conv intro: rev_image_eqI)
    then show ?thesis using group_by_new [OF False] by simp
  next
    case True
    let ?F = "filter (\<lambda>y. f y = f x) D"
    have ne: "?F \<noteq> []" using True by (auto simp: filter_empty_conv)
    then have e: "tid_entries f D (f x) = Some (last ?F)" by (simp add: tid_entries_def)
    have "last ?F \<in> set D" using last_in_set [OF ne] by simp
    then have "last ?F \<notin> set front" using Cons.prems by auto
    then show ?thesis
      unfolding e using group_by_old [of f x D] True Cons.prems by (simp add: insert_after_front)
  qed
  have "merge_sorted catf (x # xs) (front @ group_by f D, tid_entries f D) =
      merge_sorted catf xs (front @ group_by f (D @ [x]), tid_entries f (D @ [x]))"
    by (simp only: merge_sorted.simps Let_def f step tid_entries_snoc)
  also have "\<dots> = (front @ group_by f ((D @ [x]) @ xs), tid_entries f ((D @ [x]) @ xs))"
    using Cons.prems by (intro Cons.IH) simp
  finally show ?case by simp
qed

subsection \<open>Sorting the rings of a station\<close>

definition tid_order :: "nat list" where
  "tid_order = [9, 8, 7, 6, 5, 4, 3, 0, 2, 1]"

lemma tid_order_filter:
  "i < 10 \<Longrightarrow> filter (\<lambda>c. c < Suc i \<and> (P c \<or> c = i)) tid_order =
     (if i = 1 then filter (\<lambda>c. c < i \<and> P c) tid_order @ [1]
      else if i = 2 then filter (\<lambda>c. c < 1 \<and> P c) tid_order @ [2] @ filter (\<lambda>c. P c) [1]
      else i # filter (\<lambda>c. c < i \<and> P c) tid_order)"
proof -
  assume "i < 10"
  then have "i \<in> {0, 1, 2, 3, 4, 5, 6, 7, 8, 9}" by auto
  then show ?thesis by (elim insertE emptyE; simp add: tid_order_def)
qed

lemma sort_by_tid_order:
  assumes i: "i < 10" "catf x = i"
    and L: "map catf (tp_sorted_ring p) = filter (\<lambda>c. c < i \<and> P c) tid_order"
  shows "map catf (tp_sorted_ring (phl_sort_ring_by_tid catf x i p)) =
     filter (\<lambda>c. c < Suc i \<and> (P c \<or> c = i)) tid_order"
proof -
  consider "i = 1" | "i = 2" | "i \<noteq> 1" "i \<noteq> 2" by blast
  then show ?thesis
  proof cases
    case 1
    then show ?thesis using i L by (simp add: tid_order_filter phl_sort_ring_by_tid_def cat_defs Let_def)
  next
    case 2
    have L2: "map catf (tp_sorted_ring p) = filter (\<lambda>c. c < 1 \<and> P c) tid_order @ filter P [1]"
      using L 2 by (auto simp: tid_order_def)
    show ?thesis
    proof (cases "P 1")
      case True
      then obtain ys y where ys: "tp_sorted_ring p = ys @ [y]" "catf y = 1"
          "map catf ys = filter (\<lambda>c. c < 1 \<and> P c) tid_order"
        using L2 by (auto simp: map_eq_append_conv)
      then have "map catf (tp_sorted_ring (phl_sort_ring_by_tid catf x i p)) = map catf ys @ [2, 1]"
        using i 2 by (simp add: phl_sort_ring_by_tid_def cat_defs Let_def)
      then show ?thesis using ys(3) 2 True by (simp only: tid_order_filter) (simp add: tid_order_filter)
    next
      case False
      have "tp_sorted_ring p \<noteq> [] \<Longrightarrow> catf (last (tp_sorted_ring p)) \<noteq> 1"
      proof -
        assume "tp_sorted_ring p \<noteq> []"
        then have "catf (last (tp_sorted_ring p)) \<in> set (map catf (tp_sorted_ring p))" by simp
        then show ?thesis unfolding L2 using False by auto
      qed
      then have "map catf (tp_sorted_ring (phl_sort_ring_by_tid catf x i p)) =
          map catf (tp_sorted_ring p) @ [2]"
        using i 2 by (cases "tp_sorted_ring p = []") (simp_all add: phl_sort_ring_by_tid_def cat_defs Let_def)
      then show ?thesis using L2 2 False by (simp only: tid_order_filter) (simp add: tid_order_filter)
    qed
  next
    case 3
    then show ?thesis using i L by (simp add: tid_order_filter phl_sort_ring_by_tid_def cat_defs Let_def)
  qed
qed

lemma sort_by_tid_rest [simp]:
  "tp_sleep (phl_sort_ring_by_tid catf x i p) = tp_sleep p"
  "set (tp_sorted_ring (phl_sort_ring_by_tid catf x i p)) = insert x (set (tp_sorted_ring p))"
proof -
  show "tp_sleep (phl_sort_ring_by_tid catf x i p) = tp_sleep p"
    by (simp add: phl_sort_ring_by_tid_def Let_def)
  show "set (tp_sorted_ring (phl_sort_ring_by_tid catf x i p)) = insert x (set (tp_sorted_ring p))"
    by (cases "tp_sorted_ring p" rule: rev_cases) (auto simp: phl_sort_ring_by_tid_def Let_def)
qed


subsection \<open>Taking the statuses\<close>

text \<open>
  A ring has requests; \<open>served\<close> are the rings, in the order of the search, for which there is a
  status; \<open>sts_of\<close> is the status each of them gets.
\<close>

definition ring_busy :: "tx_rings \<Rightarrow> nat \<times> nat \<Rightarrow> u16" where
  "ring_busy s k = (case ring_at s k of None \<Rightarrow> 0
     | Some r \<Rightarrow> phl_calc_avail_rptr (tr_phl_idx r) (tr_core_idx r) RING_BNDY)"

definition served :: "tx_rings \<Rightarrow> (nat \<times> nat) list \<Rightarrow> (nat \<times> nat) list" where
  "served s ks = take (length (sts_idle s)) (filter (\<lambda>k. ring_busy s k \<noteq> 0) ks)"

definition sts_of :: "tx_rings \<Rightarrow> (nat \<times> nat) list \<Rightarrow> nat \<times> nat \<Rightarrow> nat" where
  "sts_of s ks k = the (map_of (zip (served s ks) (sts_idle s)) k)"

definition new_sts :: "tx_rings \<Rightarrow> nat \<times> nat \<Rightarrow> phl_ring_status" where
  "new_sts s k = (case tring s (fst k) of None \<Rightarrow> blank_sts
     | Some L \<Rightarrow> \<lparr>rs_band = tl_band L, rs_wmm = tl_wmm L, rs_port = tl_port L,
                 rs_req_busy = ring_busy s k, rs_ring_ptr = Some k\<rparr>)"

definition station_rings :: "tx_rings \<Rightarrow> (nat \<times> nat) list \<Rightarrow> nat \<Rightarrow> (nat \<times> nat) list" where
  "station_rings s ks a = filter (\<lambda>k. k \<in> set (served s ks)) (map (Pair a) tid_order)"

definition checked_plan :: "tx_rings \<Rightarrow> (nat \<times> nat) list \<Rightarrow> nat \<Rightarrow> phl_tx_plan" where
  "checked_plan s ks a = \<lparr>tp_sleep = False,
     tp_has_mgnt = ((a, RTW_PHL_RING_CAT_MGNT) \<in> set (served s ks)),
     tp_has_hiq = ((a, RTW_PHL_RING_CAT_HIQ) \<in> set (served s ks)),
     tp_sorted_ring = map (sts_of s ks) (station_rings s ks a)\<rparr>"

definition checked_ring :: "tx_rings \<Rightarrow> (nat \<times> nat) list \<Rightarrow> nat \<times> nat \<Rightarrow> tx_ring \<Rightarrow> tx_ring" where
  "checked_ring s ks k r = (if k \<in> set (served s ks)
     then r\<lparr>tr_phl_next_idx := ring_next (tr_phl_idx r)\<rparr> else r)"

text \<open>The state after the rings \<open>ks\<close> have been looked at, as a function of the state before.\<close>

definition after_check :: "tx_rings \<Rightarrow> (nat \<times> nat) list \<Rightarrow> tx_rings" where
  "after_check s ks = s\<lparr>
     tring := (\<lambda>a. map_option (\<lambda>L. L\<lparr>tl_phl_ring := (\<lambda>i. checked_ring s ks (a, i) (tl_phl_ring L i)),
        tl_tx_plan := checked_plan s ks a\<rparr>) (tring s a)),
     ring_sts := (\<lambda>x. case map_of (zip (sts_idle s) (served s ks)) x of
        None \<Rightarrow> ring_sts s x | Some k \<Rightarrow> new_sts s k),
     sts_idle := drop (length (served s ks)) (sts_idle s)\<rparr>"

definition rings_ready :: "tx_rings \<Rightarrow> bool" where
  "rings_ready s \<longleftrightarrow> distinct (sts_idle s) \<and>
     (\<forall>a L. tring s a = Some L \<longrightarrow> tl_tx_plan L = init_tx_plan \<and>
        (\<forall>i < MAX_PHL_RING_CAT_NUM. tr_cat (tl_phl_ring L i) = i))"

lemma served_subset: "set (served s ks) \<subseteq> set ks"
  unfolding served_def by (auto dest: in_set_takeD)

lemma served_snoc:
  "served s (ks @ [k]) =
     (if ring_busy s k \<noteq> 0 \<and> length (served s ks) < length (sts_idle s) then served s ks @ [k]
      else served s ks)"
  by (auto simp: served_def)

lemma length_served: "length (served s ks) \<le> length (sts_idle s)"
  by (simp add: served_def)

lemma distinct_served: "distinct ks \<Longrightarrow> distinct (served s ks)"
  by (simp add: served_def)

lemma checked_plan_nil: "checked_plan s [] a = init_tx_plan"
  by (simp add: checked_plan_def station_rings_def served_def init_tx_plan_def)

lemma after_check_nil: "rings_ready s \<Longrightarrow> after_check s [] = s"
proof -
  assume r: "rings_ready s"
  have "map_option (\<lambda>L. L\<lparr>tl_phl_ring := (\<lambda>i. checked_ring s [] (a, i) (tl_phl_ring L i)),
      tl_tx_plan := checked_plan s [] a\<rparr>) (tring s a) = tring s a" for a
    using r by (cases "tring s a") (auto simp: rings_ready_def checked_plan_nil checked_ring_def served_def)
  then show ?thesis by (simp add: after_check_def served_def)
qed

lemma station_rings_snoc_other:
  "fst k \<noteq> a \<Longrightarrow> station_rings s (ks @ [k]) a = station_rings s ks a"
  by (auto simp: station_rings_def served_snoc intro!: filter_cong)

lemma zip_snoc:
  "length xs < length ys \<Longrightarrow> zip (xs @ [k]) ys = zip xs ys @ [(k, ys ! length xs)]"
proof (induction xs arbitrary: ys)
  case Nil
  then show ?case by (cases ys) auto
next
  case (Cons x xs)
  then show ?case by (cases ys) auto
qed

lemma zip_snoc_right:
  "length ys < length xs \<Longrightarrow> zip xs (ys @ [k]) = zip xs ys @ [(xs ! length ys, k)]"
proof (induction ys arbitrary: xs)
  case Nil
  then show ?case by (cases xs) auto
next
  case (Cons y ys)
  then show ?case by (cases xs) auto
qed

lemma nth_notin_take: "distinct xs \<Longrightarrow> n < length xs \<Longrightarrow> xs ! n \<notin> set (take n xs)"
  by (auto simp: in_set_conv_nth nth_eq_iff_index_eq)

lemma map_of_zip_mem:
  assumes "k \<in> set (served s ks)"
  shows "map_of (zip (served s ks) (sts_idle s)) k \<noteq> None"
proof -
  have "map fst (zip (served s ks) (sts_idle s)) = served s ks"
    using length_served [of s ks] by (simp add: map_fst_zip_take)
  then have "k \<in> fst ` set (zip (served s ks) (sts_idle s))" using assms by (metis set_map)
  then show ?thesis by (simp add: map_of_eq_None_iff)
qed

lemma sts_of_snoc:
  assumes "k' \<in> set (served s ks)" "distinct (ks @ [k])"
  shows "sts_of s (ks @ [k]) k' = sts_of s ks k'"
proof (cases "ring_busy s k \<noteq> 0 \<and> length (served s ks) < length (sts_idle s)")
  case True
  have "k' \<noteq> k" using assms served_subset [of s ks] by auto
  then show ?thesis using True by (simp add: sts_of_def served_snoc zip_snoc map_add_def split: option.split)
next
  case False
  then have "served s (ks @ [k]) = served s ks" by (auto simp: served_snoc)
  then show ?thesis by (simp add: sts_of_def)
qed

lemma sts_of_nth:
  assumes "j < length (served s ks)" "distinct ks"
  shows "sts_of s ks (served s ks ! j) = sts_idle s ! j"
proof -
  have j: "j < length (sts_idle s)" using assms length_served [of s ks] by linarith
  have d: "distinct (map fst (zip (served s ks) (sts_idle s)))"
    using distinct_served [OF assms(2)] length_served [of s ks] by (simp add: map_fst_zip_take)
  have "(served s ks ! j, sts_idle s ! j) \<in> set (zip (served s ks) (sts_idle s))"
    using assms(1) j by (auto simp: set_zip)
  with d show ?thesis by (simp add: sts_of_def)
qed

lemma sts_of_new:
  assumes "distinct (ks @ [k])" "ring_busy s k \<noteq> 0" "length (served s ks) < length (sts_idle s)"
  shows "sts_of s (ks @ [k]) k = sts_idle s ! length (served s ks)"
proof -
  have s: "served s (ks @ [k]) = served s ks @ [k]" using assms by (simp add: served_snoc)
  show ?thesis using sts_of_nth [of "length (served s ks)" s "ks @ [k]"] assms(1) unfolding s by simp
qed

text \<open>The statuses in use and the rings they stand for.\<close>

lemma sts_lookup:
  assumes "k \<in> set (served s ks)" "distinct ks" "distinct (sts_idle s)"
  shows "map_of (zip (sts_idle s) (served s ks)) (sts_of s ks k) = Some k"
proof -
  obtain j where j: "j < length (served s ks)" "served s ks ! j = k"
    using assms(1) by (auto simp: in_set_conv_nth)
  then have e: "sts_of s ks k = sts_idle s ! j" using sts_of_nth [OF j(1) assms(2)] by simp
  have "(sts_idle s ! j, k) \<in> set (zip (sts_idle s) (served s ks))"
    using j length_served [of s ks] by (auto simp: set_zip intro!: exI [of _ j])
  moreover have "distinct (map fst (zip (sts_idle s) (served s ks)))"
    using assms(3) by (simp add: map_fst_zip_take)
  ultimately show ?thesis by (simp add: e)
qed

lemma served_busy: "k \<in> set (served s ks) \<Longrightarrow> ring_busy s k \<noteq> 0"
  by (auto simp: served_def dest: in_set_takeD)

lemma served_ring:
  assumes "rings_ready s" "k \<in> set (served s ks)" "\<forall>k \<in> set ks. snd k < MAX_PHL_RING_CAT_NUM"
  obtains L where "tring s (fst k) = Some L" "tr_cat (tl_phl_ring L (snd k)) = snd k"
proof -
  have "ring_busy s k \<noteq> 0" using assms(2) by (rule served_busy)
  then obtain L where L: "tring s (fst k) = Some L"
    by (cases "tring s (fst k)") (auto simp: ring_busy_def ring_at_def)
  moreover have "snd k < MAX_PHL_RING_CAT_NUM" using assms(2,3) served_subset [of s ks] by auto
  ultimately have "tr_cat (tl_phl_ring L (snd k)) = snd k" using assms(1) by (auto simp: rings_ready_def)
  with L that show thesis by blast
qed

lemma sts_cat_served:
  assumes "rings_ready s" "k \<in> set (served s ks)" "\<forall>k \<in> set ks. snd k < MAX_PHL_RING_CAT_NUM" "distinct ks"
  shows "sts_cat (after_check s ks) (sts_of s ks k) = snd k"
proof -
  obtain L where L: "tring s (fst k) = Some L" "tr_cat (tl_phl_ring L (snd k)) = snd k"
    using served_ring [OF assms(1-3)] .
  have d: "distinct (sts_idle s)" using assms(1) by (simp add: rings_ready_def)
  show ?thesis
    using L sts_lookup [OF assms(2,4) d]
    by (simp add: sts_cat_def after_check_def new_sts_def ring_at_def checked_ring_def)
qed

lemma sts_cat_put_plan [simp]: "sts_cat (put_plan a p s) = sts_cat s"
  by (rule ext) (auto simp: sts_cat_def put_plan_def ring_at_def split: option.split)

lemma sts_cat_more: "sts_cat (s\<lparr>phl_sw_tx_more := b\<rparr>) = sts_cat s"
  by (rule ext) (auto simp: sts_cat_def ring_at_def split: option.split)

lemma served_cases:
  obtains "ring_busy s k = 0" "served s (ks @ [k]) = served s ks"
  | "ring_busy s k \<noteq> 0" "length (served s ks) \<ge> length (sts_idle s)" "served s (ks @ [k]) = served s ks"
  | "ring_busy s k \<noteq> 0" "length (served s ks) < length (sts_idle s)" "served s (ks @ [k]) = served s ks @ [k]"
proof (cases "ring_busy s k \<noteq> 0 \<and> length (served s ks) < length (sts_idle s)")
  case True
  then show thesis by (intro that(3)) (simp_all add: served_snoc)
next
  case False
  then have "served s (ks @ [k]) = served s ks" by (simp only: served_snoc if_False)
  then show thesis using that(1,2) False by (cases "ring_busy s k = 0") auto
qed

lemma after_check_same:
  assumes "served s ks' = served s ks"
  shows "after_check s ks' = after_check s ks"
proof -
  have "sts_of s ks' = sts_of s ks" by (rule ext) (simp only: sts_of_def assms)
  then show ?thesis
    by (simp only: after_check_def checked_plan_def checked_ring_def station_rings_def assms)
qed

lemma after_check_tring:
  "tring (after_check s ks) a = map_option (\<lambda>L. L\<lparr>tl_phl_ring := (\<lambda>i. checked_ring s ks (a, i) (tl_phl_ring L i)),
     tl_tx_plan := checked_plan s ks a\<rparr>) (tring s a)"
  by (simp add: after_check_def)

lemma sort_checked_plan:
  assumes r: "rings_ready s" and k: "k = (a, i)" "i < MAX_PHL_RING_CAT_NUM" and L: "tring s a = Some L"
    and d: "distinct (ks @ [k])" and old: "\<forall>k' \<in> set ks. snd k' < MAX_PHL_RING_CAT_NUM"
    and less: "\<forall>k' \<in> set ks. fst k' = a \<longrightarrow> snd k' < i"
    and sv: "ring_busy s k \<noteq> 0" "length (served s ks) < length (sts_idle s)"
  defines "ks' \<equiv> ks @ [k]"
  shows "phl_sort_ring_by_tid (sts_cat (after_check s ks')) (sts_of s ks' k) i (checked_plan s ks a) =
     checked_plan s ks' a"
proof -
  let ?c = "sts_cat (after_check s ks')" and ?x = "sts_of s ks' k"
  let ?p = "checked_plan s ks a" and ?p' = "phl_sort_ring_by_tid ?c ?x i (checked_plan s ks a)"
  have s': "served s ks' = served s ks @ [k]" using sv by (simp add: ks'_def served_snoc)
  have old': "\<forall>k' \<in> set ks'. snd k' < MAX_PHL_RING_CAT_NUM" using old k by (simp add: ks'_def)
  have cat: "?c (sts_of s ks' k') = snd k'" if "k' \<in> set (served s ks')" for k'
    using sts_cat_served [OF r that old'] d by (simp add: ks'_def)
  have same: "sts_of s ks' k' = sts_of s ks k'" if "k' \<in> set (served s ks)" for k'
    unfolding ks'_def using that d by (rule sts_of_snoc)
  have below: "(a, c) \<in> set (served s ks) \<Longrightarrow> c < i" for c using less served_subset [of s ks] by fastforce
  have xi: "?c ?x = i" using cat [of k] s' k by simp
  have i10: "i < 10" using k by (simp add: MAX_PHL_RING_CAT_NUM_def)
  have cats: "map ?c (map (sts_of s ks') (station_rings s ks'' a)) = map snd (station_rings s ks'' a)"
    if "set (served s ks'') \<subseteq> set (served s ks')" for ks''
    using that cat by (auto simp: station_rings_def)
  have snds: "map snd (station_rings s ks'' a) = filter (\<lambda>c. (a, c) \<in> set (served s ks'')) tid_order" for ks''
    by (simp add: station_rings_def filter_map comp_def)
  have srt: "tp_sorted_ring ?p = map (sts_of s ks') (station_rings s ks a)"
    using same by (simp add: checked_plan_def station_rings_def)
  have "map ?c (tp_sorted_ring ?p) = filter (\<lambda>c. (a, c) \<in> set (served s ks)) tid_order"
  proof -
    have "set (served s ks) \<subseteq> set (served s ks')" using s' by auto
    then show ?thesis unfolding srt by (simp only: cats snds)
  qed
  also have "\<dots> = filter (\<lambda>c. c < i \<and> (a, c) \<in> set (served s ks)) tid_order"
    using below by (intro filter_cong) auto
  finally have before: "map ?c (tp_sorted_ring ?p) =
      filter (\<lambda>c. c < i \<and> (a, c) \<in> set (served s ks)) tid_order" .
  have "map ?c (tp_sorted_ring ?p') =
      filter (\<lambda>c. c < Suc i \<and> ((a, c) \<in> set (served s ks) \<or> c = i)) tid_order"
    by (rule sort_by_tid_order [where catf = ?c and x = ?x and p = ?p and
        P = "\<lambda>c. (a, c) \<in> set (served s ks)", OF i10 xi before])
  also have "\<dots> = map ?c (map (sts_of s ks') (station_rings s ks' a))"
    unfolding cats [OF subset_refl] snds s' using k by (intro filter_cong) (auto dest: below intro: less_SucI)
  finally have m: "map ?c (tp_sorted_ring ?p') = map ?c (map (sts_of s ks') (station_rings s ks' a))" .
  let ?K = "{k' \<in> set (served s ks'). fst k' = a}"
  have "set (tp_sorted_ring ?p') \<subseteq> sts_of s ks' ` ?K"
    using srt s' k by (auto simp: station_rings_def)
  moreover have "set (map (sts_of s ks') (station_rings s ks' a)) \<subseteq> sts_of s ks' ` ?K"
    by (auto simp: station_rings_def)
  moreover have "inj_on ?c (sts_of s ks' ` ?K)"
    using cat by (intro inj_onI) (auto simp: prod_eq_iff)
  ultimately have "inj_on ?c (set (tp_sorted_ring ?p') \<union> set (map (sts_of s ks') (station_rings s ks' a)))"
    by (meson Un_least inj_on_subset)
  then have "tp_sorted_ring ?p' = map (sts_of s ks') (station_rings s ks' a)"
    using m inj_on_map_eq_map by blast
  moreover have "tp_has_mgnt ?p' = ((a, RTW_PHL_RING_CAT_MGNT) \<in> set (served s ks'))"
    "tp_has_hiq ?p' = ((a, RTW_PHL_RING_CAT_HIQ) \<in> set (served s ks'))"
    using xi k s' by (auto simp: phl_sort_ring_by_tid_def checked_plan_def Let_def cat_defs)
  ultimately show ?thesis by (simp add: checked_plan_def)
qed

lemma check_cat_step:
  assumes r: "rings_ready s" and k: "k = (a, i)" "i < MAX_PHL_RING_CAT_NUM" and L: "tring s a = Some L"
    and d: "distinct (ks @ [k])" and old: "\<forall>k' \<in> set ks. snd k' < MAX_PHL_RING_CAT_NUM"
    and less: "\<forall>k' \<in> set ks. fst k' = a \<longrightarrow> snd k' < i"
  shows "check_cat a (after_check s ks) i = after_check s (ks @ [k])"
proof -
  let ?t = "after_check s ks" and ?t' = "after_check s (ks @ [k])"
  have kn: "k \<notin> set (served s ks)" using d served_subset [of s ks] by auto
  have ring: "tring ?t a = Some (L\<lparr>tl_phl_ring := (\<lambda>i. checked_ring s ks (a, i) (tl_phl_ring L i)),
      tl_tx_plan := checked_plan s ks a\<rparr>)"
    using L by (simp add: after_check_tring)
  have ri: "checked_ring s ks (a, i) (tl_phl_ring L i) = tl_phl_ring L i"
    using kn k by (simp add: checked_ring_def)
  have busy: "phl_calc_avail_rptr (tr_phl_idx (tl_phl_ring L i)) (tr_core_idx (tl_phl_ring L i)) RING_BNDY =
      ring_busy s k"
    using L k by (simp add: ring_busy_def ring_at_def)
  have idle: "sts_idle ?t = drop (length (served s ks)) (sts_idle s)" by (simp add: after_check_def)
  show ?thesis
  proof (cases rule: served_cases [of s k ks])
    case 1
    then show ?thesis
      using ring ri busy after_check_same [of s "ks @ [k]" ks] k
      by (simp add: check_cat_def phl_check_ring_status_def Let_def)
  next
    case 2
    then show ?thesis
      using ring ri busy after_check_same [of s "ks @ [k]" ks] k idle
      by (simp add: check_cat_def phl_check_ring_status_def phl_alloc_ring_sts_def Let_def)
  next
    case 3
    let ?x = "sts_of s (ks @ [k]) k"
    have x: "?x = sts_idle s ! length (served s ks)" using sts_of_new [OF d 3(1,2)] .
    then have dr: "drop (length (served s ks)) (sts_idle s) = ?x # drop (Suc (length (served s ks))) (sts_idle s)"
      using 3(2) by (simp add: Cons_nth_drop_Suc)
    define s1 where "s1 = snd (phl_check_ring_status (a, i) ?t)"
    have c1: "phl_check_ring_status (a, i) ?t = (Some ?x, s1)"
      using ring ri busy 3(1) k dr idle
      by (simp add: s1_def phl_check_ring_status_def phl_alloc_ring_sts_def Let_def)
    have s1': "s1 = put_ring (a, i) ((tl_phl_ring L i)\<lparr>tr_phl_next_idx := ring_next (tr_phl_idx (tl_phl_ring L i))\<rparr>)
        (?t\<lparr>sts_idle := drop (Suc (length (served s ks))) (sts_idle s),
            ring_sts := (ring_sts ?t)(?x := new_sts s k)\<rparr>)"
      using ring ri busy 3(1) k dr idle L
      by (simp add: s1_def phl_check_ring_status_def phl_alloc_ring_sts_def Let_def new_sts_def)
    have plan: "plan_at s1 a = checked_plan s ks a"
      using ring ri busy 3(1) k dr idle
      by (simp add: s1_def phl_check_ring_status_def phl_alloc_ring_sts_def Let_def plan_at_def put_ring_def)
    have zip': "map_of (zip (sts_idle s) (served s ks @ [k])) = (map_of (zip (sts_idle s) (served s ks)))(?x \<mapsto> k)"
    proof -
      have "length (served s ks) < length (sts_idle s)" by (rule 3(2))
      then have "zip (sts_idle s) (served s ks @ [k]) =
          zip (sts_idle s) (served s ks) @ [(?x, k)]" unfolding x by (rule zip_snoc_right)
      moreover have "map_of (zip (sts_idle s) (served s ks)) ?x = None"
      proof -
        have "?x \<notin> set (take (length (served s ks)) (sts_idle s))"
          using x 3(2) r by (simp add: rings_ready_def nth_notin_take)
        then show ?thesis using 3(2) by (simp add: map_of_eq_None_iff flip: set_map) (simp add: map_fst_zip_take)
      qed
      ultimately show ?thesis by (auto simp: map_add_def split: option.split intro!: ext)
    qed
    have eq: "put_plan a (checked_plan s (ks @ [k]) a) s1 = ?t'"
    proof (rule tx_rings.equality)
      show "tring (put_plan a (checked_plan s (ks @ [k]) a) s1) = tring ?t'"
      proof (rule ext)
        fix b
        show "tring (put_plan a (checked_plan s (ks @ [k]) a) s1) b = tring ?t' b"
        proof (cases "b = a")
          case True
          have "(\<lambda>j. checked_ring s ks (a, j) (tl_phl_ring L j))
              (i := (tl_phl_ring L i)\<lparr>tr_phl_next_idx := ring_next (tr_phl_idx (tl_phl_ring L i))\<rparr>) =
              (\<lambda>j. checked_ring s (ks @ [k]) (a, j) (tl_phl_ring L j))"
            using k 3(3) by (auto simp: checked_ring_def intro!: ext)
          then show ?thesis using True s1' L
            by (simp add: put_plan_def put_ring_def after_check_tring)
        next
          case False
          have "checked_plan s (ks @ [k]) b = checked_plan s ks b"
            using False k 3(3) d sts_of_snoc station_rings_snoc_other [of k b s ks]
            by (auto simp: checked_plan_def station_rings_def)
          then show ?thesis using s1' False k 3(3)
            by (auto simp: put_plan_def put_ring_def after_check_tring checked_ring_def intro!: option.map_cong ext)
        qed
      qed
    next
      show "ring_sts (put_plan a (checked_plan s (ks @ [k]) a) s1) = ring_sts ?t'"
        using s1' zip' L k 3(3) busy
        by (auto simp: put_plan_def put_ring_def after_check_def new_sts_def intro!: ext)
    qed (use s1' 3(3) in \<open>simp_all add: put_plan_def put_ring_def after_check_def\<close>)
    then have "sts_cat s1 = sts_cat ?t'" by (metis sts_cat_put_plan)
    then show ?thesis
      using c1 plan eq sort_checked_plan [OF r k L d old less 3(1,2)] by (simp add: check_cat_def)
  qed
qed

subsection \<open>All stations\<close>

definition ring_keys :: "nat list \<Rightarrow> (nat \<times> nat) list" where
  "ring_keys as = concat (map (\<lambda>a. map (Pair a) [0..<MAX_PHL_RING_CAT_NUM]) as)"

lemma mem_Pair_image [simp]: "(x, y) \<in> Pair a ` S \<longleftrightarrow> x = a \<and> y \<in> S"
  by auto

lemma ring_keys_snoc: "ring_keys (as @ [a]) = ring_keys as @ map (Pair a) [0..<MAX_PHL_RING_CAT_NUM]"
  by (simp add: ring_keys_def)

lemma ring_keys_nil [simp]: "ring_keys [] = []"
  by (simp add: ring_keys_def)

lemma set_ring_keys: "k \<in> set (ring_keys as) \<longleftrightarrow> fst k \<in> set as \<and> snd k < MAX_PHL_RING_CAT_NUM"
  by (cases k) (auto simp: ring_keys_def)

lemma distinct_ring_keys: "distinct as \<Longrightarrow> distinct (ring_keys as)"
proof (induction as rule: rev_induct)
  case (snoc a as)
  have "distinct (map (Pair a) [0..<MAX_PHL_RING_CAT_NUM])" by (simp add: distinct_map inj_on_def)
  moreover have "set (ring_keys as) \<inter> set (map (Pair a) [0..<MAX_PHL_RING_CAT_NUM]) = {}"
    using snoc.prems by (auto simp: set_ring_keys)
  ultimately show ?case using snoc by (simp add: ring_keys_snoc)
qed simp

lemma check_cats:
  assumes r: "rings_ready s" and L: "tring s a = Some L" and d: "distinct as" "a \<notin> set as"
    and n: "n \<le> MAX_PHL_RING_CAT_NUM"
  shows "foldl (check_cat a) (after_check s (ring_keys as)) [0..<n] =
     after_check s (ring_keys as @ map (Pair a) [0..<n])"
  using n
proof (induction n)
  case 0
  then show ?case by simp
next
  case (Suc n)
  let ?ks = "ring_keys as @ map (Pair a) [0..<n]"
  have "distinct (map (Pair a) [0..<Suc n])" by (simp add: distinct_map inj_on_def)
  moreover have "set (ring_keys as) \<inter> set (map (Pair a) [0..<Suc n]) = {}"
    using d by (auto simp: set_ring_keys)
  ultimately have "distinct (?ks @ [(a, n)])" using distinct_ring_keys [OF d(1)] by auto
  moreover have "\<forall>k' \<in> set ?ks. snd k' < MAX_PHL_RING_CAT_NUM" using Suc.prems by (auto simp: set_ring_keys)
  moreover have "\<forall>k' \<in> set ?ks. fst k' = a \<longrightarrow> snd k' < n" using d by (auto simp: set_ring_keys)
  ultimately have "check_cat a (after_check s ?ks) n = after_check s (?ks @ [(a, n)])"
    using Suc.prems by (intro check_cat_step [OF r refl _ L]) simp_all
  then show ?case using Suc by simp
qed

lemma station_rings_append:
  "\<forall>k \<in> set ks'. fst k \<noteq> a \<Longrightarrow> station_rings s (ks @ ks') a = station_rings s ks a"
proof (induction ks' rule: rev_induct)
  case (snoc k ks')
  then show ?case using station_rings_snoc_other [of k a s "ks @ ks'"] by simp
qed simp

lemma check_all:
  assumes r: "rings_ready s" and al: "\<forall>a \<in> set bs. tring s a \<noteq> None" and d: "distinct (as @ bs)"
  shows "fold phl_check_tring_list bs (after_check s (ring_keys as), sta) =
     (after_check s (ring_keys (as @ bs)),
      sta @ filter (\<lambda>a. station_rings s (ring_keys (as @ bs)) a \<noteq> []) bs)"
  using al d
proof (induction bs arbitrary: as sta)
  case Nil
  then show ?case by simp
next
  case (Cons a bs)
  obtain L where L: "tring s a = Some L" using Cons.prems by auto
  let ?K = "ring_keys (as @ [a])"
  have "foldl (check_cat a) (after_check s (ring_keys as)) [0..<MAX_PHL_RING_CAT_NUM] = after_check s ?K"
    using check_cats [OF r L, of as MAX_PHL_RING_CAT_NUM] Cons.prems by (simp add: ring_keys_snoc)
  then have one: "phl_check_tring_list a (after_check s (ring_keys as), sta) =
      (after_check s ?K, if station_rings s ?K a \<noteq> [] then sta @ [a] else sta)"
    using L by (simp add: phl_check_tring_list_def plan_at_def after_check_tring checked_plan_def Let_def)
  have sr: "station_rings s (ring_keys (as @ a # bs)) a = station_rings s ?K a"
  proof -
    have "ring_keys (as @ a # bs) = ?K @ ring_keys bs" by (simp add: ring_keys_def)
    moreover have "\<forall>k \<in> set (ring_keys bs). fst k \<noteq> a" using Cons.prems by (auto simp: set_ring_keys)
    ultimately show ?thesis by (simp only: station_rings_append)
  qed
  show ?case
    using Cons.IH [of "as @ [a]"] Cons.prems one sr by simp
qed

subsection \<open>The order of service\<close>

text \<open>
  The rings that are served, in the order of the search, then in the order in which the handler
  sends: what is urgent (management before high priority, the last station first), then the
  rings of all stations by identifier.
\<close>

abbreviation all_rings :: "tx_rings \<Rightarrow> (nat \<times> nat) list" where
  "all_rings s \<equiv> ring_keys (t_ring_list s)"

definition urgent :: "tx_rings \<Rightarrow> nat \<Rightarrow> (nat \<times> nat) list" where
  "urgent s a = filter (\<lambda>k. k \<in> set (served s (all_rings s)))
     [(a, RTW_PHL_RING_CAT_MGNT), (a, RTW_PHL_RING_CAT_HIQ)]"

definition by_priority :: "tx_rings \<Rightarrow> nat \<Rightarrow> (nat \<times> nat) list" where
  "by_priority s a = filter (\<lambda>k. k \<in> set (served s (all_rings s)))
     (map (Pair a) [7, 6, 5, 4, 3, 0, 2, 1])"

definition flow_order :: "tx_rings \<Rightarrow> nat list \<Rightarrow> (nat \<times> nat) list" where
  "flow_order s as = concat (map (urgent s) (rev as)) @ group_by snd (concat (map (by_priority s) as))"

lemma group_by_map: "group_by f (map g xs) = map g (group_by (f \<circ> g) xs)"
  by (simp add: group_by_def map_concat filter_map comp_def)

lemma group_by_cong: "(\<And>x. x \<in> set xs \<Longrightarrow> f x = g x) \<Longrightarrow> group_by f xs = group_by g xs"
  unfolding group_by_def by (intro arg_cong [where f = concat] map_cong filter_cong refl) (auto cong: map_cong)

lemma station_rings_split:
  "station_rings s (all_rings s) a =
     filter (\<lambda>k. k \<in> set (served s (all_rings s))) [(a, RTW_PHL_RING_CAT_HIQ), (a, RTW_PHL_RING_CAT_MGNT)] @
     by_priority s a"
  by (simp add: station_rings_def by_priority_def tid_order_def cat_defs)

text \<open>After the flow control: the plans are reset, the statuses wait in the order of service.\<close>

definition round_started :: "tx_rings \<Rightarrow> tx_rings" where
  "round_started s = (after_check s (all_rings s))\<lparr>
     tring := (\<lambda>a. map_option (\<lambda>L. L\<lparr>tl_phl_ring := (\<lambda>i. checked_ring s (all_rings s) (a, i) (tl_phl_ring L i))\<rparr>) (tring s a)),
     t_fctrl_result := map (sts_of s (all_rings s)) (flow_order s (t_ring_list s)),
     phl_sw_tx_more := False\<rparr>"

lemma set_by_priority:
  "k \<in> set (by_priority s a) \<Longrightarrow> k \<in> set (served s (all_rings s)) \<and> fst k = a \<and> snd k < 8"
  unfolding by_priority_def set_filter by auto

lemma set_urgent:
  "k \<in> set (urgent s a) \<Longrightarrow> k \<in> set (served s (all_rings s)) \<and> fst k = a \<and> 8 \<le> snd k"
  unfolding urgent_def set_filter cat_defs by auto

lemma distinct_flow_parts:
  assumes "distinct as"
  shows "distinct (concat (map (urgent s) (rev as)) @ concat (map (by_priority s) as))"
proof -
  have "distinct (urgent s a)" "distinct (by_priority s a)" for a
    by (simp_all add: urgent_def by_priority_def cat_defs)
  then have "distinct (concat (map (urgent s) bs))" "distinct (concat (map (by_priority s) bs))"
    if "distinct bs" for bs
    using that set_urgent set_by_priority by (induction bs) (auto, blast+)
  moreover have "set (concat (map (urgent s) bs)) \<inter> set (concat (map (by_priority s) cs)) = {}" for bs cs
    using set_urgent set_by_priority by fastforce
  ultimately show ?thesis using assms by (metis distinct_append distinct_rev)
qed

text \<open>The statuses of the served rings are distinct.\<close>

lemma sts_of_inj:
  assumes "distinct ks" "distinct (sts_idle s)"
  shows "inj_on (sts_of s ks) (set (served s ks))"
  using sts_lookup [OF _ assms] by (intro inj_onI) (metis option.inject)

lemma flow_step:
  assumes r: "rings_ready s" and d: "distinct (t_ring_list s)"
    and L: "tring t a = Some L" "tl_tx_plan L = checked_plan s (all_rings s) a"
    and cat: "\<And>k. k \<in> set (served s (all_rings s)) \<Longrightarrow> sts_cat t (sts_of s (all_rings s) k) = snd k"
    and sub: "set (as @ [a]) \<subseteq> set (t_ring_list s)" "distinct (as @ [a])"
  defines "st \<equiv> sts_of s (all_rings s)"
  defines "D \<equiv> \<lambda>as. map st (concat (map (by_priority s) as))"
  defines "U \<equiv> \<lambda>as. map st (concat (map (urgent s) (rev as)))"
  defines "f \<equiv> \<lambda>x. rtw_phl_cvt_cat_to_tid (sts_cat t x)"
  shows "flow_loop (a # bs) t (U as @ group_by f (D as), tid_entries f (D as)) =
     flow_loop bs (put_plan a init_tx_plan t)
       (U (as @ [a]) @ group_by f (D (as @ [a])), tid_entries f (D (as @ [a])))"
proof -
  let ?p = "checked_plan s (all_rings s) a"
  let ?hiq = "(a, RTW_PHL_RING_CAT_HIQ) \<in> set (served s (all_rings s))"
  let ?mgnt = "(a, RTW_PHL_RING_CAT_MGNT) \<in> set (served s (all_rings s))"
  have p: "plan_at t a = ?p" using L by (simp add: plan_at_def)
  have srt: "tp_sorted_ring ?p = (if ?hiq then [st (a, RTW_PHL_RING_CAT_HIQ)] else []) @
      (if ?mgnt then [st (a, RTW_PHL_RING_CAT_MGNT)] else []) @ map st (by_priority s a)"
    by (simp add: checked_plan_def station_rings_split st_def)
  have fronts: "first_to_front (tp_has_mgnt ?p) (first_to_front (tp_has_hiq ?p)
      (tp_sorted_ring ?p, res)) = (map st (by_priority s a), map st (urgent s a) @ res)" for res
    unfolding srt by (simp add: checked_plan_def first_to_front_def urgent_def)
  have dk: "distinct (all_rings s)" using d by (rule distinct_ring_keys)
  have di: "distinct (sts_idle s)" using r by (simp add: rings_ready_def)
  let ?all = "concat (map (urgent s) (rev (as @ [a]))) @ concat (map (by_priority s) (as @ [a]))"
  have "set ?all \<subseteq> set (served s (all_rings s))"
    using set_urgent set_by_priority by fastforce
  then have "inj_on st (set ?all)" using sts_of_inj [OF dk di] inj_on_subset st_def by blast
  then have "distinct (map st ?all)" using distinct_flow_parts [OF sub(2)] by (simp only: distinct_map)
  then have dist: "distinct ((map st (urgent s a) @ U as) @ D as @ map st (by_priority s a))"
    by (simp add: U_def D_def)
  have "merge_sorted (sts_cat t) (map st (by_priority s a))
      ((map st (urgent s a) @ U as) @ group_by f (D as), tid_entries f (D as)) =
      ((map st (urgent s a) @ U as) @ group_by f (D as @ map st (by_priority s a)),
        tid_entries f (D as @ map st (by_priority s a)))"
    by (rule merge_sorted_group [OF dist]) (simp add: f_def)
  also have "\<dots> = (U (as @ [a]) @ group_by f (D (as @ [a])), tid_entries f (D (as @ [a])))"
    by (simp add: U_def D_def)
  finally have m: "merge_sorted (sts_cat t) (map st (by_priority s a))
      (map st (urgent s a) @ U as @ group_by f (D as), tid_entries f (D as)) = \<dots>" by simp
  have reset: "phl_reset_tx_plan a (put_plan a (?p\<lparr>tp_sorted_ring := []\<rparr>) t) = put_plan a init_tx_plan t"
    using L by (simp add: phl_reset_tx_plan_def plan_at_def put_plan_def)
  show ?thesis
    using m fronts [of "U as @ group_by f (D as)"] reset
    by (simp add: p checked_plan_def Let_def split_beta)
qed

lemma flow_all:
  assumes r: "rings_ready s" and d: "distinct (t_ring_list s)"
    and L: "\<forall>a \<in> set bs. \<exists>L. tring t a = Some L \<and> tl_tx_plan L = checked_plan s (all_rings s) a"
    and cat: "\<And>k. k \<in> set (served s (all_rings s)) \<Longrightarrow> sts_cat t (sts_of s (all_rings s) k) = snd k"
    and sub: "set (as @ bs) \<subseteq> set (t_ring_list s)" "distinct (as @ bs)"
  defines "st \<equiv> sts_of s (all_rings s)"
  defines "D \<equiv> \<lambda>as. map st (concat (map (by_priority s) as))"
  defines "U \<equiv> \<lambda>as. map st (concat (map (urgent s) (rev as)))"
  defines "f \<equiv> \<lambda>x. rtw_phl_cvt_cat_to_tid (sts_cat t x)"
  shows "flow_loop bs t (U as @ group_by f (D as), tid_entries f (D as)) =
     (fold (\<lambda>a. put_plan a init_tx_plan) bs t,
      U (as @ bs) @ group_by f (D (as @ bs)), tid_entries f (D (as @ bs)))"
  using L cat sub unfolding D_def U_def f_def st_def
proof (induction bs arbitrary: as t)
  case Nil
  then show ?case by simp
next
  case (Cons a bs)
  let ?t = "put_plan a init_tx_plan t"
  obtain L where L: "tring t a = Some L" "tl_tx_plan L = checked_plan s (all_rings s) a"
    using Cons.prems(1) by auto
  have rest: "\<forall>b \<in> set bs. \<exists>L. tring ?t b = Some L \<and> tl_tx_plan L = checked_plan s (all_rings s) b"
    using Cons.prems(1,4) by (auto simp: put_plan_def)
  have one: "set (as @ [a]) \<subseteq> set (t_ring_list s)" "distinct (as @ [a])"
    using Cons.prems(3,4) by auto
  show ?case
    using flow_step [OF r d L Cons.prems(2) one, of bs] Cons.IH [OF rest, of "as @ [a]"] Cons.prems(2-4)
    by simp
qed

lemma fold_put_plan:
  "tring (fold (\<lambda>a. put_plan a p) bs t) b =
     (if b \<in> set bs then map_option (\<lambda>L. L\<lparr>tl_tx_plan := p\<rparr>) (tring t b) else tring t b)"
  by (induction bs arbitrary: t) (auto simp: put_plan_def option.map_comp comp_def)

lemma fold_put_plan_rest:
  "fold (\<lambda>a. put_plan a p) bs t = t\<lparr>tring := tring (fold (\<lambda>a. put_plan a p) bs t)\<rparr>"
proof (induction bs arbitrary: t)
  case (Cons b bs)
  show ?case
    unfolding fold_simps comp_apply by (subst Cons.IH) (simp add: put_plan_def)
qed simp

lemma flow_grouped:
  assumes "\<And>k. k \<in> set (served s (all_rings s)) \<Longrightarrow> sts_cat t (sts_of s (all_rings s) k) = snd k"
  shows "group_by (\<lambda>x. rtw_phl_cvt_cat_to_tid (sts_cat t x))
       (map (sts_of s (all_rings s)) (concat (map (by_priority s) as))) =
     map (sts_of s (all_rings s)) (group_by snd (concat (map (by_priority s) as)))"
  unfolding group_by_map comp_def
  using set_by_priority assms
  by (intro arg_cong [where f = "map (sts_of s (all_rings s))"] group_by_cong)
    (fastforce simp: rtw_phl_cvt_cat_to_tid_def)

lemma idle_station:
  "station_rings s (all_rings s) a = [] \<Longrightarrow> urgent s a = [] \<and> by_priority s a = []
     \<and> checked_plan s (all_rings s) a = init_tx_plan"
  by (auto simp: station_rings_split urgent_def checked_plan_def init_tx_plan_def filter_empty_conv split: if_splits)

text \<open>
  One check and one flow control, from a state in which no round is under way: what the handler
  starts with.
\<close>

lemma concat_map_filter_nonempty:
  "(\<And>a. \<not> P a \<Longrightarrow> f a = []) \<Longrightarrow> concat (map f (filter P xs)) = concat (map f xs)"
  by (induction xs) auto

lemma flow_order_filter:
  "flow_order s (filter (\<lambda>a. station_rings s (all_rings s) a \<noteq> []) as) = flow_order s as"
proof -
  let ?P = "\<lambda>a. station_rings s (all_rings s) a \<noteq> []"
  have "concat (map (urgent s) (filter ?P (rev as))) = concat (map (urgent s) (rev as))"
    "concat (map (by_priority s) (filter ?P as)) = concat (map (by_priority s) as)"
    by (rule concat_map_filter_nonempty, use idle_station [of s] in blast)+
  then show ?thesis by (simp add: flow_order_def rev_filter)
qed

lemma set_concat_map: "set (concat (map f as)) = (\<Union>a \<in> set as. set (f a))"
  by simp

lemma flow_order_empty: "flow_order s as = [] \<longleftrightarrow> (\<forall>a \<in> set as. station_rings s (all_rings s) a = [])"
proof -
  have "flow_order s as = [] \<longleftrightarrow> set (flow_order s as) = {}" by simp
  also have "set (flow_order s as) = (\<Union>a \<in> set as. set (urgent s a) \<union> set (by_priority s a))"
    by (simp add: flow_order_def UN_Un_distrib)
  also have "\<dots> = (\<Union>a \<in> set as. set (station_rings s (all_rings s) a))"
  proof -
    have "set (urgent s a) \<union> set (by_priority s a) = set (station_rings s (all_rings s) a)" for a
      unfolding station_rings_split urgent_def set_append set_filter by auto
    then show ?thesis by simp
  qed
  finally show ?thesis by simp
qed

lemma round_starts:
  assumes r: "rings_ready s" and d: "distinct (t_ring_list s)" and f: "t_fctrl_result s = []"
    and al: "\<forall>a \<in> set (t_ring_list s). tring s a \<noteq> None"
    and c: "phl_check_xmit_ring_resource s = (go, s1, sta)"
  shows "phl_tx_flow_ctrl sta s1 = round_started s" and "go \<longleftrightarrow> flow_order s (t_ring_list s) \<noteq> []"
proof -
  let ?K = "all_rings s" and ?st = "sts_of s (all_rings s)"
  have dk: "distinct ?K" using d by (rule distinct_ring_keys)
  have "fold phl_check_tring_list (t_ring_list s) (s, []) =
      (after_check s ?K, filter (\<lambda>a. station_rings s ?K a \<noteq> []) (t_ring_list s))"
    using check_all [OF r al, of "[]" "[]"] d by (simp add: after_check_nil [OF r])
  then have s1: "s1 = (after_check s ?K)\<lparr>phl_sw_tx_more := False\<rparr>"
    and sta: "sta = filter (\<lambda>a. station_rings s ?K a \<noteq> []) (t_ring_list s)" and go: "go \<longleftrightarrow> sta \<noteq> []"
    using c by (auto simp: phl_check_xmit_ring_resource_def)
  show "go \<longleftrightarrow> flow_order s (t_ring_list s) \<noteq> []"
    unfolding go sta flow_order_empty by (auto simp: filter_empty_conv)
  have cat: "sts_cat s1 (?st k) = snd k" if "k \<in> set (served s ?K)" for k
    using sts_cat_served [OF r that _ dk]
    by (simp add: s1 sts_cat_more set_ring_keys)
  have L: "\<forall>a \<in> set sta. \<exists>L. tring s1 a = Some L \<and> tl_tx_plan L = checked_plan s ?K a"
    using al by (auto simp: s1 sta after_check_tring)
  have sub: "set ([] @ sta) \<subseteq> set (t_ring_list s)" "distinct ([] @ sta)" using d by (auto simp: sta)
  have fl: "t_fctrl_result s1 = []" using f by (simp add: s1 after_check_def)
  have "flow_loop sta s1 ([], \<lambda>_. None) =
      flow_loop sta s1 (map ?st (concat (map (urgent s) (rev []))) @
        group_by (\<lambda>x. rtw_phl_cvt_cat_to_tid (sts_cat s1 x)) (map ?st (concat (map (by_priority s) []))),
        tid_entries (\<lambda>x. rtw_phl_cvt_cat_to_tid (sts_cat s1 x)) (map ?st (concat (map (by_priority s) []))))"
    by (simp add: tid_entries_nil)
  also have "\<dots> = (fold (\<lambda>a. put_plan a init_tx_plan) sta s1,
      map ?st (concat (map (urgent s) (rev sta))) @ group_by (\<lambda>x. rtw_phl_cvt_cat_to_tid (sts_cat s1 x))
        (map ?st (concat (map (by_priority s) sta))),
      tid_entries (\<lambda>x. rtw_phl_cvt_cat_to_tid (sts_cat s1 x)) (map ?st (concat (map (by_priority s) sta))))"
    using flow_all [OF r d L cat sub] by simp
  finally have fin: "phl_tx_flow_ctrl sta s1 = (fold (\<lambda>a. put_plan a init_tx_plan) sta s1)
      \<lparr>t_fctrl_result := map ?st (flow_order s sta)\<rparr>"
    using flow_grouped [OF cat, of sta] by (simp add: phl_tx_flow_ctrl_def fl flow_order_def)
  have tr: "tring (fold (\<lambda>a. put_plan a init_tx_plan) sta s1) = tring (round_started s)"
  proof (rule ext)
    fix a
    show "tring (fold (\<lambda>a. put_plan a init_tx_plan) sta s1) a = tring (round_started s) a"
    proof (cases "tring s a")
      case None
      then show ?thesis by (simp add: fold_put_plan s1 after_check_tring round_started_def)
    next
      case (Some L)
      have "checked_plan s ?K a = init_tx_plan" if "a \<notin> set sta"
      proof (cases "a \<in> set (t_ring_list s)")
        case True
        then show ?thesis using that idle_station by (auto simp: sta)
      next
        case False
        then have "station_rings s ?K a = []"
          using served_subset [of s ?K] by (auto simp: station_rings_def filter_empty_conv set_ring_keys)
        then show ?thesis using idle_station by blast
      qed
      moreover have "tl_tx_plan L = init_tx_plan" using r Some by (auto simp: rings_ready_def)
      ultimately show ?thesis using Some
        by (auto simp: fold_put_plan s1 after_check_tring round_started_def)
    qed
  qed
  have "fold (\<lambda>a. put_plan a init_tx_plan) sta s1 = s1\<lparr>tring := tring (round_started s)\<rparr>"
    unfolding tr [symmetric] by (rule fold_put_plan_rest)
  moreover have "flow_order s sta = flow_order s (t_ring_list s)" unfolding sta by (rule flow_order_filter)
  ultimately have "phl_tx_flow_ctrl sta s1 = s1\<lparr>tring := tring (round_started s),
      t_fctrl_result := map ?st (flow_order s (t_ring_list s))\<rparr>" using fin by simp
  then show "phl_tx_flow_ctrl sta s1 = round_started s"
    by (simp add: s1 round_started_def after_check_def)
qed

end
