(* ===== verification/UsbTx.thy ===== *)
theory UsbTx
  imports TxRing Buffers PhlQueue
begin

text \<open>
  The transmit side of the USB bus, \<^verbatim>\<open>phl/hci/phl_trx_usb.c\<close>: the pool of transmit buffers, and
  \<open>_phl_handle_xmit_ring_usb\<close>, which copies the requests of one ring, each behind its
  descriptor, into one buffer and hands it to the bus as one bulk transfer. The build has
  aggregation, the check of the padding and the workarounds \<open>RTW_WKARD_USB_TXAGG_BULK_END_WD\<close>
  and \<open>RTW_WKARD_WPOFFSET\<close> enabled.

  The descriptor of a request is built by the HAL: \<open>fill\<close> gives its bytes, or \<open>None\<close> when it
  refuses; its length is \<open>mac_txdesc_len\<close>. Whether the bus accepts a transfer is an input.
  A write outside a buffer is a \<open>Fault\<close>.
\<close>

subsection \<open>Requests\<close>

datatype pkt_type = PKT_TYPE_DATA | PKT_TYPE_MGNT | PKT_TYPE_H2C | PKT_TYPE_CTRL | PKT_TYPE_FWDL
datatype treq_type = TREQ_TYPE_NORMAL | TREQ_TYPE_TEST_PATTERN | TREQ_TYPE_MAX

text \<open>A part of a packet without an address is skipped by the copy.\<close>

record xmit_req =
  xr_treq_type :: treq_type
  xr_type :: pkt_type
  xr_macid :: u16
  xr_cat :: nat
  xr_band :: u8
  xr_wmm :: u8
  xr_hal_port :: u8
  xr_dma_ch :: u8
  xr_pktlen :: u16
  xr_wp_offset :: u8
  xr_wdinfo_en :: bool
  xr_usb_pkt_ofst :: u8
  xr_total_len :: u32
  xr_pkt_list :: "bytes option list"

text \<open>\<open>mac_txdesc_len_8852c\<close> on the USB interface.\<close>

definition mac_txdesc_len :: "xmit_req \<Rightarrow> u32" where
  "mac_txdesc_len q =
     (if xr_type q \<in> {PKT_TYPE_H2C, PKT_TYPE_FWDL}
      then (if (ucast (xr_pktlen q) + 16 :: u32) AND 0x1ff = 0 then 32 else 16)
      else (if xr_wdinfo_en q then 32 + 24 else 32))"

definition ALIGN8 :: "u32 \<Rightarrow> u32" where
  "ALIGN8 len = (len + 7) AND NOT 7"

definition PKT_OFFSET_DUMMY :: u32 where "PKT_OFFSET_DUMMY = 8"
definition IDX_NONE :: u32 where "IDX_NONE = 0xffffffff"

text \<open>What the loops read of the bus and the chip.\<close>

record usb_cfg =
  tx_buf_size :: u32
  bulk_size :: u32
  max_bulkout_wd_num :: u8
  max_dma_txagg_msk :: u16

definition GET_SHIFT_OFFSET :: "u32 \<Rightarrow> nat" where
  "GET_SHIFT_OFFSET b = (if b = 1024 then 10 else if b = 512 then 9 else 6)"

subsection \<open>How many requests fit\<close>

record agg_pre =
  p_cnt :: u16
  p_tx_len :: u32
  p_packet_len :: u32
  p_trasc_agg_cnt :: u8
  p_trasc_idx :: u8
  p_last_idx :: u32

definition stop_before :: "agg_pre \<Rightarrow> agg_pre" where
  "stop_before p = p\<lparr>p_last_idx := (if p_cnt p \<noteq> 0 then ucast (p_cnt p) - 1 else IDX_NONE)\<rparr>"

text \<open>
  The loop of \<open>_usb_tx_agg_preprocess\<close>: \<open>get i\<close> is the request at the index \<open>i\<close> of the ring, the
  first argument the number of requests not looked at yet (\<open>total - cnt\<close> of the code).
\<close>

fun usb_tx_agg_loop :: "nat \<Rightarrow> usb_cfg \<Rightarrow> (nat \<Rightarrow> xmit_req option) \<Rightarrow> u16 \<Rightarrow> agg_pre \<Rightarrow> agg_pre" where
  "usb_tx_agg_loop 0 cfg get rptr p = p"
| "usb_tx_agg_loop (Suc n) cfg get rptr p =
     (case get ((unat rptr + unat (p_cnt p)) mod MAX_PHL_TX_RING_ENTRY_NUM) of
        None \<Rightarrow> stop_before p
      | Some q \<Rightarrow>
          let wd_len = mac_txdesc_len q in
          if ALIGN8 (wd_len + xr_total_len q) + p_tx_len p > tx_buf_size cfg - PKT_OFFSET_DUMMY
          then stop_before p
          else
            let pad = ALIGN8 (p_packet_len p) - p_packet_len p in
            if (p_tx_len p + wd_len + pad) mod bulk_size cfg = 0 then stop_before p
            else
              let len = wd_len + xr_total_len q;
                  tx_len = p_tx_len p + pad + len;
                  part = drop_bit (GET_SHIFT_OFFSET (bulk_size cfg)) tx_len;
                  same = (ucast (p_trasc_idx p) = part);
                  agg = (if same then p_trasc_agg_cnt p + 1 else 0);
                  p1 = p\<lparr>p_tx_len := tx_len, p_packet_len := len, p_trasc_agg_cnt := agg,
                         p_trasc_idx := (if same then p_trasc_idx p else ucast part)\<rparr>
              in if agg \<ge> max_bulkout_wd_num cfg \<or>
                    unat (p_cnt p) + 1 = unat (max_dma_txagg_msk cfg)
                 then p1\<lparr>p_last_idx := ucast (p_cnt p)\<rparr>
                 else
                   let p2 = p1\<lparr>p_cnt := p_cnt p + 1\<rparr> in
                   if xr_type q \<noteq> PKT_TYPE_DATA then p2
                   else usb_tx_agg_loop n cfg get rptr p2)"

definition agg_pre_init :: agg_pre where
  "agg_pre_init = \<lparr>p_cnt = 0, p_tx_len = 0, p_packet_len = 0, p_trasc_agg_cnt = 0,
     p_trasc_idx = 0, p_last_idx = IDX_NONE\<rparr>"

text \<open>The results: \<open>last_idx\<close> and \<open>add_dummy\<close>.\<close>

definition usb_tx_agg_preprocess ::
  "usb_cfg \<Rightarrow> (nat \<Rightarrow> xmit_req option) \<Rightarrow> u16 \<Rightarrow> u16 \<Rightarrow> u32 \<times> bool" where
  "usb_tx_agg_preprocess cfg get rptr n_req =
     (let p = usb_tx_agg_loop (unat n_req) cfg get rptr agg_pre_init in
      (if p_last_idx p = IDX_NONE \<and> p_tx_len p \<noteq> 0 \<and> p_cnt p \<le> n_req
       then ucast (p_cnt p) - 1 else p_last_idx p,
       p_tx_len p \<noteq> 0 \<and> p_tx_len p mod bulk_size cfg = 0))"

subsection \<open>Copying a request\<close>

text \<open>\<open>packet_len\<close> is a \<open>u32\<close>, the position in the buffer a pointer.\<close>

fun copy_pkts :: "bytes option list \<Rightarrow> bytes \<Rightarrow> nat \<Rightarrow> u32 \<Rightarrow> (bytes \<times> u32) outcome" where
  "copy_pkts [] buf off packet_len = Done (buf, packet_len)"
| "copy_pkts (None # ps) buf off packet_len = copy_pkts ps buf off packet_len"
| "copy_pkts (Some bs # ps) buf off packet_len =
     (case wr_n buf off bs of
        Fault \<Rightarrow> Fault
      | Done buf1 \<Rightarrow> copy_pkts ps buf1 (off + length bs) (packet_len + of_nat (length bs)))"

text \<open>
  \<open>_phl_prepare_tx_usb\<close>, up to the end of the copy; the results are the status, the buffer and
  \<open>packet_len\<close>. The request is given back in every case (\<open>recycles\<close>): \<open>tx_recycle\<close> is always
  there, \<open>tx_test_recycle\<close> only in builds with the test module.
\<close>

definition phl_prepare_tx_usb :: "(xmit_req \<Rightarrow> bytes option) \<Rightarrow> xmit_req \<Rightarrow> bytes \<Rightarrow> nat \<Rightarrow>
     (phl_status \<times> bytes \<times> u32) outcome" where
  "phl_prepare_tx_usb fill q buf off =
     (case fill q of
        None \<Rightarrow> Done (RTW_PHL_STATUS_FAILURE, buf, 0)
      | Some wd \<Rightarrow>
          (case wr_n buf off wd of
             Fault \<Rightarrow> Fault
           | Done buf1 \<Rightarrow>
               let wd_len = mac_txdesc_len q;
                   dummy = (if xr_usb_pkt_ofst q = 1 then PKT_OFFSET_DUMMY else 0)
               in (case copy_pkts (xr_pkt_list q) buf1 (off + unat wd_len + unat dummy) (wd_len + dummy) of
                     Fault \<Rightarrow> Fault
                   | Done (buf2, packet_len) \<Rightarrow> Done (RTW_PHL_STATUS_SUCCESS, buf2, packet_len))))"

definition recycles :: "bool \<Rightarrow> xmit_req \<Rightarrow> bool" where
  "recycles test_recycle q =
     (case xr_treq_type q of
        TREQ_TYPE_TEST_PATTERN \<Rightarrow> test_recycle
      | TREQ_TYPE_NORMAL \<Rightarrow> True
      | TREQ_TYPE_MAX \<Rightarrow> False)"

subsection \<open>Filling a transfer\<close>

record xmit =
  x_req_busy :: u16
  x_packet_len :: u32
  x_tx_len :: u32
  x_off :: nat
  x_agg_cnt :: u8
  x_trasc_agg_cnt :: u8
  x_trasc_idx :: u8
  x_pstatus :: phl_status
  x_type :: pkt_type
  x_ring :: tx_ring
  x_reqs :: "nat \<Rightarrow> xmit_req"
  x_buf :: bytes
  x_done :: "nat list"

text \<open>What the loop writes into a request before it looks at its size.\<close>

definition set_meta :: "phl_ring_status \<Rightarrow> tx_ring \<Rightarrow> xmit_req \<Rightarrow> xmit_req" where
  "set_meta sts r q = q\<lparr>xr_band := rs_band sts, xr_wmm := rs_wmm sts, xr_hal_port := rs_port sts,
     xr_dma_ch := tr_dma_ch r, xr_pktlen := ucast (xr_total_len q), xr_wp_offset := 2\<rparr>"

text \<open>
  The loop of \<open>_phl_handle_xmit_ring_usb\<close>; \<open>last_idx\<close> and \<open>is_dummy\<close> come from
  \<open>_usb_tx_agg_preprocess\<close>, the first argument is \<open>req_busy\<close>.
\<close>

definition after_copy :: "usb_cfg \<Rightarrow> nat \<Rightarrow> u16 \<Rightarrow> pkt_type \<Rightarrow> xmit \<Rightarrow> bool \<times> xmit" where
  "after_copy cfg q rptr type x =
     (let x1 = x\<lparr>x_req_busy := x_req_busy x - 1, x_ring := (x_ring x)\<lparr>tr_phl_idx := rptr\<rparr>,
                 x_agg_cnt := x_agg_cnt x + 1, x_trasc_agg_cnt := x_trasc_agg_cnt x + 1\<rparr> in
      if type \<noteq> PKT_TYPE_DATA then (False, x1)
      else
        let part = drop_bit (GET_SHIFT_OFFSET (bulk_size cfg)) (x_tx_len x1);
            x2 = (if ucast (x_trasc_idx x1) = part then x1
                  else x1\<lparr>x_trasc_idx := ucast part, x_trasc_agg_cnt := 0\<rparr>)
        in if x_trasc_agg_cnt x2 \<ge> max_bulkout_wd_num cfg then (False, x2)
           else if ucast (x_agg_cnt x2) = max_dma_txagg_msk cfg then (False, x2)
           else if x_req_busy x2 \<noteq> 0
             then (True, x2\<lparr>x_ring := (x_ring x2)\<lparr>tr_phl_next_idx := ring_next rptr\<rparr>\<rparr>)
             else (True, x2))"

fun handle_loop :: "nat \<Rightarrow> usb_cfg \<Rightarrow> (xmit_req \<Rightarrow> bytes option) \<Rightarrow> phl_ring_status \<Rightarrow> u32 \<Rightarrow> bool \<Rightarrow>
     xmit \<Rightarrow> xmit outcome" where
  "handle_loop 0 cfg fill sts last_idx is_dummy x = Done x"
| "handle_loop (Suc n) cfg fill sts last_idx is_dummy x =
     (let rptr = tr_phl_next_idx (x_ring x) in
      case tr_entry (x_ring x) (unat rptr) of
        None \<Rightarrow> Done x
      | Some a \<Rightarrow>
          let q0 = set_meta sts (x_ring x) (x_reqs x a);
              wd_len0 = mac_txdesc_len q0;
              mark = (last_idx \<noteq> IDX_NONE \<and> x_agg_cnt x = ucast last_idx \<and> is_dummy);
              q = (if mark then q0\<lparr>xr_usb_pkt_ofst := 1\<rparr> else q0);
              wd_len = (if mark then wd_len0 + PKT_OFFSET_DUMMY else wd_len0);
              x1 = x\<lparr>x_type := xr_type q, x_reqs := (x_reqs x)(a := q)\<rparr>
          in if ALIGN8 (wd_len + xr_total_len q) + x_tx_len x1 > tx_buf_size cfg - PKT_OFFSET_DUMMY
             then Done x1
             else
               let align_len = ALIGN8 (x_packet_len x1);
                   agg = (xr_type q = PKT_TYPE_DATA);
                   x2 = (if agg then x1\<lparr>x_off := x_off x1 + unat align_len\<rparr> else x1)
               in if agg \<and> x_tx_len x2 \<noteq> 0 \<and>
                     (x_tx_len x2 + wd_len + align_len - x_packet_len x2) mod bulk_size cfg = 0
                  then Done x2
                  else
                    let x3 = (if agg \<and> align_len > x_packet_len x2
                              then x2\<lparr>x_tx_len := x_tx_len x2 + (align_len - x_packet_len x2)\<rparr> else x2)
                    in (case phl_prepare_tx_usb fill q (x_buf x3) (x_off x3) of
                          Fault \<Rightarrow> Fault
                        | Done (pstatus, buf, packet_len) \<Rightarrow>
                            let x4 = x3\<lparr>x_pstatus := pstatus, x_buf := buf, x_packet_len := packet_len,
                                        x_tx_len := x_tx_len x3 + packet_len, x_done := x_done x3 @ [a]\<rparr>
                            in if pstatus = RTW_PHL_STATUS_SUCCESS
                               then (let (more, x5) = after_copy cfg a rptr (xr_type q) x4
                                     in if more then handle_loop n cfg fill sts last_idx is_dummy x5
                                        else Done x5)
                               else Done (x4\<lparr>x_ring := (x_ring x4)\<lparr>tr_phl_idx := rptr\<rparr>\<rparr>)))"

text \<open>\<open>usb_tx_agg_cfg_8852c\<close>: the number of packets in bits 8 to 14 of the second word.\<close>

definition rtw_hal_usb_tx_agg_cfg :: "u8 \<Rightarrow> bytes \<Rightarrow> bytes" where
  "rtw_hal_usb_tx_agg_cfg agg_num wd =
     (if 5 < length wd then wd[5 := (wd ! 5 AND NOT 0x7f) OR (agg_num AND 0x7f)] else wd)"

definition fill_transfer :: "usb_cfg \<Rightarrow> (xmit_req \<Rightarrow> bytes option) \<Rightarrow> phl_ring_status \<Rightarrow> tx_ring \<Rightarrow>
     (nat \<Rightarrow> xmit_req) \<Rightarrow> bytes \<Rightarrow> xmit outcome" where
  "fill_transfer cfg fill sts r reqs buf =
     (let (last_idx, is_dummy) = usb_tx_agg_preprocess cfg (\<lambda>i. map_option reqs (tr_entry r i))
             (tr_phl_next_idx r) (rs_req_busy sts)
      in handle_loop (unat (rs_req_busy sts)) cfg fill sts last_idx is_dummy
           \<lparr>x_req_busy = rs_req_busy sts, x_packet_len = 0, x_tx_len = 0, x_off = 0, x_agg_cnt = 0,
            x_trasc_agg_cnt = 0, x_trasc_idx = 0, x_pstatus = RTW_PHL_STATUS_FAILURE,
            x_type = PKT_TYPE_DATA, x_ring = r, x_reqs = reqs, x_buf = buf, x_done = []\<rparr>)"

text \<open>The bytes of the bulk transfer, when there is one.\<close>

definition transfer_of :: "xmit \<Rightarrow> bytes option" where
  "transfer_of x =
     (if x_pstatus x = RTW_PHL_STATUS_SUCCESS
      then Some (take (unat (x_tx_len x))
        (if x_type x = PKT_TYPE_DATA \<and> x_agg_cnt x > 1
         then rtw_hal_usb_tx_agg_cfg (x_agg_cnt x) (x_buf x) else x_buf x))
      else None)"

subsection \<open>Transmit buffers\<close>

text \<open>
  A buffer for data or management frames has memory of its own; one for firmware commands
  borrows that of the command packet (\<open>ub_h2c\<close>, its address).
\<close>

record usb_buf =
  ub_buffer :: bytes
  ub_h2c :: "nat option"
  ub_type :: pkt_type

record usb_tx =
  u_buf :: "nat \<Rightarrow> usb_buf"
  idle_txbuf_list :: "nat phl_queue"
  mgmt_txbuf_list :: "nat phl_queue"
  h2c_txbuf_list :: "nat phl_queue"
  h2c_idle :: "nat list"

definition enqueue_usb_buf :: "nat phl_queue \<Rightarrow> nat option \<Rightarrow> list_pos \<Rightarrow> phl_status \<times> nat phl_queue" where
  "enqueue_usb_buf q b pos =
     (case b of
        None \<Rightarrow> (RTW_PHL_STATUS_FAILURE, q)
      | Some x \<Rightarrow> (RTW_PHL_STATUS_SUCCESS, pq_push q x pos))"

definition dequeue_usb_buf :: "nat phl_queue \<Rightarrow> nat option \<times> nat phl_queue" where
  "dequeue_usb_buf q =
     (case pq_queue q of
        [] \<Rightarrow> (None, q)
      | x # xs \<Rightarrow> (Some x, q\<lparr>pq_queue := xs, pq_cnt := pq_cnt q - 1\<rparr>))"

text \<open>
  \<open>_phl_alloc_txbuf_pool_usb\<close> when every allocation succeeds: \<open>n\<close> buffers for data, \<open>m\<close> for
  management frames and \<open>k\<close> for commands; \<open>mem\<close> is what the memory contains.
\<close>

definition phl_alloc_txbuf_pool_usb :: "nat \<Rightarrow> nat \<Rightarrow> nat \<Rightarrow> nat \<Rightarrow> nat \<Rightarrow> (nat \<Rightarrow> nat \<Rightarrow> u8) \<Rightarrow> usb_tx" where
  "phl_alloc_txbuf_pool_usb n buf_size m mgnt_size k mem =
     (let fill = foldl (\<lambda>q b. snd (enqueue_usb_buf q (Some b) Tail)) pq_init in
      \<lparr>u_buf = (\<lambda>b. if b < n then \<lparr>ub_buffer = map (mem b) [0..<buf_size], ub_h2c = None, ub_type = PKT_TYPE_DATA\<rparr>
                    else if b < n + m
                      then \<lparr>ub_buffer = map (mem b) [0..<mgnt_size], ub_h2c = None, ub_type = PKT_TYPE_MGNT\<rparr>
                      else \<lparr>ub_buffer = [], ub_h2c = None, ub_type = PKT_TYPE_H2C\<rparr>),
       idle_txbuf_list = fill [0..<n], mgmt_txbuf_list = fill [n..<n + m],
       h2c_txbuf_list = fill [n + m..<n + m + k], h2c_idle = []\<rparr>)"

text \<open>The bus has finished with a buffer.\<close>

definition phl_tx_release_buf_usb :: "nat \<Rightarrow> usb_tx \<Rightarrow> usb_tx" where
  "phl_tx_release_buf_usb b u =
     (if ub_type (u_buf u b) = PKT_TYPE_H2C
      then u\<lparr>h2c_idle := (case ub_h2c (u_buf u b) of None \<Rightarrow> h2c_idle u | Some p \<Rightarrow> h2c_idle u @ [p]),
             u_buf := (u_buf u)(b := (u_buf u b)\<lparr>ub_h2c := None\<rparr>),
             h2c_txbuf_list := snd (enqueue_usb_buf (h2c_txbuf_list u) (Some b) Tail)\<rparr>
      else if ub_type (u_buf u b) = PKT_TYPE_MGNT
      then u\<lparr>mgmt_txbuf_list := snd (enqueue_usb_buf (mgmt_txbuf_list u) (Some b) Tail)\<rparr>
      else u\<lparr>idle_txbuf_list := snd (enqueue_usb_buf (idle_txbuf_list u) (Some b) Tail)\<rparr>)"

text \<open>A command packet; \<open>sent\<close> is what the bus answers, the first result the buffer it got.\<close>

definition phl_pltfm_tx_usb :: "nat \<Rightarrow> bool \<Rightarrow> usb_tx \<Rightarrow> phl_status \<times> nat option \<times> usb_tx" where
  "phl_pltfm_tx_usb pkt sent u =
     (case dequeue_usb_buf (h2c_txbuf_list u) of
        (None, q) \<Rightarrow> (RTW_PHL_STATUS_FAILURE, None, u)
      | (Some b, q) \<Rightarrow>
          let u1 = u\<lparr>h2c_txbuf_list := q, u_buf := (u_buf u)(b := (u_buf u b)\<lparr>ub_h2c := Some pkt\<rparr>)\<rparr>
          in if sent then (RTW_PHL_STATUS_SUCCESS, Some b, u1)
             else (RTW_PHL_STATUS_FAILURE, None,
                u1\<lparr>h2c_idle := h2c_idle u1 @ [pkt],
                   u_buf := (u_buf u1)(b := (u_buf u1 b)\<lparr>ub_h2c := None\<rparr>),
                   h2c_txbuf_list := snd (enqueue_usb_buf (h2c_txbuf_list u1) (Some b) Tail)\<rparr>))"

text \<open>\<open>_phl_tx_flow_ctrl_usb\<close>: the buffer for the ring of the status \<open>x\<close>.\<close>

definition phl_tx_flow_ctrl_usb :: "nat \<Rightarrow> tx_rings \<times> usb_tx \<Rightarrow> nat option \<times> tx_rings \<times> usb_tx" where
  "phl_tx_flow_ctrl_usb x su =
     (let (s, u) = su in
      if sts_cat s x = RTW_PHL_RING_CAT_MGNT
      then (case dequeue_usb_buf (mgmt_txbuf_list u) of
              (None, q) \<Rightarrow> (None, phl_release_ring_sts x s, u)
            | (Some b, q) \<Rightarrow> (Some b, s, u\<lparr>mgmt_txbuf_list := q\<rparr>))
      else (case dequeue_usb_buf (idle_txbuf_list u) of
              (None, q) \<Rightarrow> (None, phl_release_ring_sts x s, u)
            | (Some b, q) \<Rightarrow> (Some b, s, u\<lparr>idle_txbuf_list := q\<rparr>)))"

end
