(* ===== verification/UsbTxLayout.thy ===== *)
theory UsbTxLayout
  imports UsbTx
begin

text \<open>
  How the packets of one USB transfer lie in its buffer. \<open>laid_out\<close> holds after every round of the
  loop of \<open>_phl_handle_xmit_ring_usb\<close>: the packets copied so far stand one behind the other, each at
  a multiple of eight, and \<open>tx_len\<close>, \<open>packet_len\<close> and the position of the next packet agree with
  them. \<open>round_cases\<close> gives the four ways a round can go, \<open>handle_loop_data\<close> what the loop leaves
  behind, \<open>fill_transfer_taken\<close> the same for the whole transfer.
\<close>

subsection \<open>Lengths\<close>

declare handle_loop.simps(2) [simp del]
declare usb_tx_agg_loop.simps(2) [simp del]

lemma unat_plus: "unat a + unat b < 2 ^ 32 \<Longrightarrow> unat (a + b :: u32) = unat a + unat b"
  by (simp add: unat_add_lem [symmetric] )

lemma and_not_7: "w AND NOT 7 = push_bit 3 (drop_bit 3 (w :: u32))"
proof -
  have "w AND NOT (mask 3) = push_bit 3 (drop_bit 3 w)"
    by (rule bit_word_eqI) (auto simp: bit_simps)
  moreover have "mask 3 = (7 :: u32)" by (simp add: mask_eq_exp_minus_1)
  ultimately show ?thesis by metis
qed

lemma unat_ALIGN8: "unat w + 7 < 2 ^ 32 \<Longrightarrow> unat (ALIGN8 w) = align8 (unat w)"
proof -
  assume a: "unat w + 7 < 2 ^ 32"
  have s: "unat (w + 7) = unat w + 7" using a unat_plus [of w 7] by simp
  have tb: "take_bit 32 (unat w + 7) = unat w + 7" using a by (simp add: take_bit_nat_eq_self)
  have "unat (ALIGN8 w) = take_bit 32 (push_bit 3 (drop_bit 3 (unat w + 7)))"
    unfolding ALIGN8_def and_not_7 by (simp only: unsigned_push_bit_eq unsigned_drop_bit_eq s) (simp add: tb)
  also have "\<dots> = ((unat w + 7) div 8 * 8) mod 2 ^ 32"
    by (simp add: take_bit_eq_mod push_bit_eq_mult drop_bit_eq_div)
  also have "\<dots> = align8 (unat w)" using a unfolding align8_def by (intro mod_less) auto
  finally show ?thesis .
qed

lemma unat_mod32: "unat (a mod b :: u32) = unat a mod unat b"
  by (simp add: unat_mod_distrib)

subsection \<open>Packets\<close>

definition payload :: "xmit_req \<Rightarrow> bytes" where
  "payload q = concat (map (\<lambda>p. case p of None \<Rightarrow> [] | Some bs \<Rightarrow> bs) (xr_pkt_list q))"

definition gap :: "xmit_req \<Rightarrow> nat" where
  "gap q = (if xr_usb_pkt_ofst q = 1 then 8 else 0)"

definition wdl :: "xmit_req \<Rightarrow> nat" where
  "wdl q = unat (mac_txdesc_len q)"

definition plen :: "xmit_req \<Rightarrow> nat" where
  "plen q = wdl q + gap q + length (payload q)"

definition req_ok :: "xmit_req \<Rightarrow> bool" where
  "req_ok q \<longleftrightarrow> xr_type q \<notin> {PKT_TYPE_H2C, PKT_TYPE_FWDL} \<and>
     unat (xr_total_len q) = length (payload q) \<and> length (payload q) < 65536"

definition fill_ok :: "(xmit_req \<Rightarrow> bytes option) \<Rightarrow> bool" where
  "fill_ok fill \<longleftrightarrow> (\<forall>q wd. fill q = Some wd \<longrightarrow> length wd = wdl q)"

definition is_packet :: "(xmit_req \<Rightarrow> bytes option) \<Rightarrow> xmit_req \<Rightarrow> bytes \<Rightarrow> bool" where
  "is_packet fill q bs \<longleftrightarrow> (\<exists>wd gp. fill q = Some wd \<and> length gp = gap q \<and> bs = wd @ gp @ payload q)"

definition usb_ok :: "usb_cfg \<Rightarrow> bool" where
  "usb_ok cfg \<longleftrightarrow> bulk_size cfg \<in> {512, 1024} \<and> 1024 dvd unat (tx_buf_size cfg) \<and>
     1024 \<le> unat (tx_buf_size cfg) \<and> unat (tx_buf_size cfg) \<le> 1048576 \<and>
     1 \<le> unat (max_dma_txagg_msk cfg) \<and> unat (max_dma_txagg_msk cfg) \<le> 127"

lemma wdl_cases: "req_ok q \<Longrightarrow> wdl q = 32 \<or> wdl q = 56"
  by (simp add: req_ok_def wdl_def mac_txdesc_len_def)

lemma copy_pkts_done:
  "off + length (concat (map (\<lambda>p. case p of None \<Rightarrow> [] | Some bs \<Rightarrow> bs) ps)) \<le> length buf \<Longrightarrow>
   copy_pkts ps buf off n =
     Done (take off buf @ concat (map (\<lambda>p. case p of None \<Rightarrow> [] | Some bs \<Rightarrow> bs) ps) @
             drop (off + length (concat (map (\<lambda>p. case p of None \<Rightarrow> [] | Some bs \<Rightarrow> bs) ps))) buf,
           n + of_nat (length (concat (map (\<lambda>p. case p of None \<Rightarrow> [] | Some bs \<Rightarrow> bs) ps))))"
proof (induction ps buf off n rule: copy_pkts.induct)
  case (3 bs ps buf off n)
  then show ?case by (simp add: wr_n_def add.assoc add.commute add.left_commute)
qed auto

lemma prepare_done:
  assumes "fill q = Some wd" "length wd = wdl q" "off + plen q \<le> length buf"
  shows "\<exists>buf'. phl_prepare_tx_usb fill q buf off =
      Done (RTW_PHL_STATUS_SUCCESS, buf', of_nat (plen q)) \<and> length buf' = length buf \<and>
      take off buf' = take off buf \<and> is_packet fill q (take (plen q) (drop off buf'))"
proof -
  let ?b1 = "take off buf @ wd @ drop (off + wdl q) buf"
  have l1: "wr_n buf off wd = Done ?b1" using assms by (simp add: wr_n_def plen_def)
  have lb1: "length ?b1 = length buf" using assms by (simp add: plen_def)
  have d: "unat (if xr_usb_pkt_ofst q = 1 then PKT_OFFSET_DUMMY else 0) = gap q"
    by (simp add: gap_def PKT_OFFSET_DUMMY_def)
  have dw: "(if xr_usb_pkt_ofst q = 1 then PKT_OFFSET_DUMMY else 0) = of_nat (gap q)"
    by (simp add: gap_def PKT_OFFSET_DUMMY_def)
  let ?o = "off + wdl q + gap q"
  let ?b2 = "take ?o ?b1 @ payload q @ drop (?o + length (payload q)) ?b1"
  have "copy_pkts (xr_pkt_list q) ?b1 ?o (mac_txdesc_len q + of_nat (gap q)) =
      Done (?b2, mac_txdesc_len q + of_nat (gap q) + of_nat (length (payload q)))"
    unfolding payload_def by (rule copy_pkts_done) (use assms lb1 in \<open>simp add: plen_def payload_def\<close>)
  moreover have "mac_txdesc_len q + of_nat (gap q) + of_nat (length (payload q)) = of_nat (plen q)"
    by (simp add: plen_def wdl_def)
  ultimately have "phl_prepare_tx_usb fill q buf off = Done (RTW_PHL_STATUS_SUCCESS, ?b2, of_nat (plen q))"
    using assms(1) l1 d dw by (simp add: phl_prepare_tx_usb_def Let_def wdl_def)
  moreover have "length ?b2 = length buf" using assms lb1 by (simp add: plen_def)
  moreover have "take off ?b2 = take off buf" using assms by (simp add: plen_def)
  moreover have "is_packet fill q (take (plen q) (drop off ?b2))"
  proof -
    have "take ?o ?b1 = take off buf @ wd @ take (gap q) (drop (off + wdl q) buf)"
      using assms by (simp add: plen_def)
    then have "take (plen q) (drop off ?b2) = wd @ take (gap q) (drop (off + wdl q) buf) @ payload q"
      using assms by (simp add: plen_def)
    moreover have "length (take (gap q) (drop (off + wdl q) buf)) = gap q"
      using assms by (simp add: plen_def)
    ultimately show ?thesis using assms(1) unfolding is_packet_def by blast
  qed
  ultimately show ?thesis by blast
qed

lemma prepare_fails:
  "fill q = None \<Longrightarrow> phl_prepare_tx_usb fill q buf off = Done (RTW_PHL_STATUS_FAILURE, buf, 0)"
  by (simp add: phl_prepare_tx_usb_def)

subsection \<open>The layout of a transfer\<close>

definition base :: "nat list \<Rightarrow> nat" where "base ls = sum_list (map align8 ls)"
definition last0 :: "nat list \<Rightarrow> nat" where "last0 ls = (if ls = [] then 0 else last ls)"
definition extent :: "nat list \<Rightarrow> nat" where "extent ls = base (butlast ls) + last0 ls"

lemma base_snoc [simp]: "base (ls @ [l]) = base ls + align8 l"
  by (simp add: base_def)

lemma base_dvd [simp]: "8 dvd base ls"
  unfolding base_def by (induction ls) auto

lemma extent_align: "align8 (extent ls) = base ls"
proof (cases ls rule: rev_cases)
  case (snoc xs x)
  then show ?thesis by (simp add: extent_def last0_def align8_mult)
qed (simp add: extent_def last0_def base_def)

lemma base_take_le: "base (take j ls) \<le> base ls"
proof -
  have "base ls = base (take j ls) + base (drop j ls)"
    unfolding base_def by (metis append_take_drop_id map_append sum_list_append)
  then show ?thesis by simp
qed

text \<open>The packets of the requests already copied, each at its place.\<close>

definition done_reqs :: "xmit \<Rightarrow> xmit_req list" where
  "done_reqs x = map (x_reqs x) (x_done x)"

definition packets_at :: "(xmit_req \<Rightarrow> bytes option) \<Rightarrow> xmit_req list \<Rightarrow> bytes \<Rightarrow> bool" where
  "packets_at fill qs buf \<longleftrightarrow> (\<forall>j < length qs.
     is_packet fill (qs ! j) (take (plen (qs ! j)) (drop (base (map plen (take j qs))) buf)))"

definition laid_out :: "(xmit_req \<Rightarrow> bytes option) \<Rightarrow> xmit \<Rightarrow> bool" where
  "laid_out fill x \<longleftrightarrow> packets_at fill (done_reqs x) (x_buf x) \<and>
     unat (x_tx_len x) = extent (map plen (done_reqs x)) \<and>
     unat (x_packet_len x) = last0 (map plen (done_reqs x)) \<and>
     x_off x = base (butlast (map plen (done_reqs x))) \<and>
     extent (map plen (done_reqs x)) \<le> length (x_buf x)"

lemma packets_at_snoc:
  assumes p: "packets_at fill qs buf"
    and b: "take (base (map plen qs)) buf' = take (base (map plen qs)) buf"
    and q: "is_packet fill q (take (plen q) (drop (base (map plen qs)) buf'))"
  shows "packets_at fill (qs @ [q]) buf'"
proof -
  have "is_packet fill ((qs @ [q]) ! j)
      (take (plen ((qs @ [q]) ! j)) (drop (base (map plen (take j (qs @ [q])))) buf'))"
    if "j < length (qs @ [q])" for j
  proof (cases "j = length qs")
    case True
    then show ?thesis using q by simp
  next
    case False
    then have j: "j < length qs" using that by simp
    let ?o = "base (map plen (take j qs))" and ?n = "plen (qs ! j)"
    have "?o + align8 ?n = base (map plen (take (Suc j) qs))"
      using j by (simp add: take_Suc_conv_app_nth)
    also have "\<dots> \<le> base (map plen qs)" by (metis base_take_le take_map)
    finally have le: "?o + ?n \<le> base (map plen qs)" using align8_ge(1) [of ?n] by linarith
    have "take ?n (drop ?o buf') = take ?n (drop ?o (take (base (map plen qs)) buf'))"
      using le by (simp add: drop_take min_absorb1)
    also have "\<dots> = take ?n (drop ?o buf)"
      unfolding b using le by (simp add: drop_take min_absorb1)
    finally show ?thesis using p j by (simp add: packets_at_def nth_append)
  qed
  then show ?thesis by (simp add: packets_at_def)
qed

fun ring_lists :: "(nat \<Rightarrow> nat option) \<Rightarrow> u16 \<Rightarrow> nat list \<Rightarrow> bool" where
  "ring_lists ent i [] \<longleftrightarrow> True"
| "ring_lists ent i (a # as) \<longleftrightarrow> ent (unat i) = Some a \<and> ring_lists ent (ring_next i) as"

text \<open>The request as it is when it is copied.\<close>

definition sent_req :: "phl_ring_status \<Rightarrow> tx_ring \<Rightarrow> bool \<Rightarrow> xmit_req \<Rightarrow> xmit_req" where
  "sent_req sts r mark q = (if mark then (set_meta sts r q)\<lparr>xr_usb_pkt_ofst := 1\<rparr> else set_meta sts r q)"

lemma sent_req_same [simp]:
  "xr_type (sent_req sts r m q) = xr_type q" "xr_total_len (sent_req sts r m q) = xr_total_len q"
  "payload (sent_req sts r m q) = payload q"
  by (simp_all add: sent_req_def set_meta_def payload_def)

lemma sent_req_ok [simp]: "req_ok (sent_req sts r m q) = req_ok q"
  by (simp add: req_ok_def)

lemma sent_req_wd: "req_ok q \<Longrightarrow> mac_txdesc_len (sent_req sts r m q) = mac_txdesc_len q"
  by (auto simp: req_ok_def mac_txdesc_len_def sent_req_def set_meta_def)

text \<open>The tests of one round of the loop, on natural numbers.\<close>

definition fits :: "usb_cfg \<Rightarrow> nat \<Rightarrow> nat \<Rightarrow> bool" where
  "fits cfg tx len \<longleftrightarrow> align8 len + tx \<le> unat (tx_buf_size cfg) - 8"

lemma fits_word:
  assumes "usb_ok cfg" "unat tx \<le> 1048576" "unat len < 2 ^ 20"
  shows "ALIGN8 len + tx > tx_buf_size cfg - PKT_OFFSET_DUMMY \<longleftrightarrow> \<not> fits cfg (unat tx) (unat len)"
proof -
  have "unat (ALIGN8 len) = align8 (unat len)" using assms(3) by (intro unat_ALIGN8) simp
  moreover have "align8 (unat len) < 2 ^ 20 + 8" using align8_ge(2) [of "unat len"] assms(3) by linarith
  ultimately have "unat (ALIGN8 len + tx) = align8 (unat len) + unat tx"
    using assms(2) by (subst unat_plus) simp_all
  moreover have "unat (tx_buf_size cfg - PKT_OFFSET_DUMMY) = unat (tx_buf_size cfg) - 8"
  proof -
    have "PKT_OFFSET_DUMMY \<le> tx_buf_size cfg"
      using assms(1) by (simp add: usb_ok_def PKT_OFFSET_DUMMY_def word_le_nat_alt)
    then show ?thesis by (simp add: unat_sub PKT_OFFSET_DUMMY_def)
  qed
  ultimately show ?thesis by (simp add: word_less_nat_alt fits_def linorder_not_le)
qed

lemma fits_bound:
  assumes "usb_ok cfg" "fits cfg tx len"
  shows "align8 tx + align8 len \<le> unat (tx_buf_size cfg) - 8"
proof -
  have "(8 :: nat) dvd 1024" by (simp add: dvd_def)
  then have "8 dvd unat (tx_buf_size cfg)" using assms(1) dvd_trans by (simp only: usb_ok_def) blast
  then have "8 dvd unat (tx_buf_size cfg) - 8" by simp
  moreover have "align8 (align8 len + tx) = align8 len + align8 tx" by (simp add: align8_mult)
  ultimately show ?thesis using align8_le [of "align8 len + tx" "unat (tx_buf_size cfg) - 8"] assms(2)
    by (simp add: fits_def)
qed

definition bulk_end :: "usb_cfg \<Rightarrow> nat \<Rightarrow> nat \<Rightarrow> bool" where
  "bulk_end cfg tx len \<longleftrightarrow> (align8 tx + len) mod unat (bulk_size cfg) = 0"

lemma bulk_end_word:
  assumes "unat tx \<le> 1048576" "unat p \<le> 1048576" "unat wd \<le> 100"
    and "align8 (unat tx) = unat tx + (align8 (unat p) - unat p)"
  shows "(tx + wd + ALIGN8 p - p) mod bulk_size cfg = 0 \<longleftrightarrow> bulk_end cfg (unat tx) (unat wd)"
proof -
  have a: "unat (ALIGN8 p) = align8 (unat p)" using assms(2) by (intro unat_ALIGN8) simp
  have b: "unat p \<le> align8 (unat p)" "align8 (unat p) < unat p + 8" by (rule align8_ge)+
  have s: "unat (tx + wd) = unat tx + unat wd" using assms by (intro unat_plus) simp
  have s2: "unat (tx + wd + ALIGN8 p) = unat tx + unat wd + align8 (unat p)"
    using assms a b s by (subst unat_plus) simp_all
  have "unat (tx + wd + ALIGN8 p - p) = unat tx + unat wd + align8 (unat p) - unat p"
    using s2 b by (subst unat_sub) (simp_all add: word_le_nat_alt)
  also have "\<dots> = align8 (unat tx) + unat wd" using assms(4) b by simp
  finally have "unat ((tx + wd + ALIGN8 p - p) mod bulk_size cfg) =
      (align8 (unat tx) + unat wd) mod unat (bulk_size cfg)" by (simp only: unat_mod32)
  then show ?thesis by (simp add: bulk_end_def unat_eq_0 [symmetric])
qed

lemma laid_out_align:
  assumes "laid_out fill x"
  shows "align8 (unat (x_tx_len x)) = unat (x_tx_len x) + (align8 (unat (x_packet_len x)) - unat (x_packet_len x))"
    and "x_off x + align8 (unat (x_packet_len x)) = align8 (unat (x_tx_len x))"
    and "unat (x_packet_len x) \<le> unat (x_tx_len x)"
    and "x_tx_len x = 0 \<longleftrightarrow> map plen (done_reqs x) = [] \<or> extent (map plen (done_reqs x)) = 0"
proof -
  let ?ls = "map plen (done_reqs x)"
  have "align8 (unat (x_tx_len x)) = base ?ls" using assms extent_align by (simp add: laid_out_def)
  moreover have "base ?ls = base (butlast ?ls) + align8 (last0 ?ls)"
    by (cases ?ls rule: rev_cases) (simp_all add: last0_def base_def)
  ultimately show "align8 (unat (x_tx_len x)) = unat (x_tx_len x) + (align8 (unat (x_packet_len x)) - unat (x_packet_len x))"
    "x_off x + align8 (unat (x_packet_len x)) = align8 (unat (x_tx_len x))"
    "unat (x_packet_len x) \<le> unat (x_tx_len x)"
    using assms align8_ge(1) [of "last0 ?ls"] by (simp_all add: laid_out_def extent_def)
  show "x_tx_len x = 0 \<longleftrightarrow> map plen (done_reqs x) = [] \<or> extent (map plen (done_reqs x)) = 0"
    using assms by (auto simp: laid_out_def unat_eq_0 [symmetric] extent_def last0_def base_def)
qed

text \<open>What the loop relies on at the start of a round.\<close>

definition at_round :: "usb_cfg \<Rightarrow> (xmit_req \<Rightarrow> bytes option) \<Rightarrow> xmit \<Rightarrow> nat \<Rightarrow> bool" where
  "at_round cfg fill x a \<longleftrightarrow> usb_ok cfg \<and> fill_ok fill \<and> laid_out fill x \<and>
     length (x_buf x) = unat (tx_buf_size cfg) \<and>
     tr_entry (x_ring x) (unat (tr_phl_next_idx (x_ring x))) = Some a \<and>
     a \<notin> set (x_done x) \<and> req_ok (x_reqs x a) \<and> xr_type (x_reqs x a) = PKT_TYPE_DATA"

definition marked :: "u32 \<Rightarrow> bool \<Rightarrow> xmit \<Rightarrow> bool" where
  "marked last_idx is_dummy x \<longleftrightarrow> last_idx \<noteq> IDX_NONE \<and> x_agg_cnt x = ucast last_idx \<and> is_dummy"

definition stopped_at :: "xmit \<Rightarrow> nat \<Rightarrow> xmit_req \<Rightarrow> xmit \<Rightarrow> bool" where
  "stopped_at x a q x1 \<longleftrightarrow> (\<exists>off. x1 = x\<lparr>x_type := PKT_TYPE_DATA, x_reqs := (x_reqs x)(a := q), x_off := off\<rparr>)"

definition wanted :: "bool \<Rightarrow> xmit_req \<Rightarrow> nat" where
  "wanted mark q = wdl q + (if mark then 8 else 0)"

lemma round_cases:
  fixes cfg fill x a sts last_idx is_dummy
  defines "mark \<equiv> marked last_idx is_dummy x"
  defines "q \<equiv> sent_req sts (x_ring x) mark (x_reqs x a)"
  defines "w \<equiv> wanted mark (x_reqs x a)"
  defines "tx \<equiv> unat (x_tx_len x)"
  assumes r: "at_round cfg fill x a"
  obtains (too_long) x1 where "\<not> fits cfg tx (w + length (payload q))"
      "handle_loop (Suc n) cfg fill sts last_idx is_dummy x = Done x1" "stopped_at x a q x1"
  | (at_bulk_end) x1 where "fits cfg tx (w + length (payload q))" "tx \<noteq> 0" "bulk_end cfg tx w"
      "handle_loop (Suc n) cfg fill sts last_idx is_dummy x = Done x1" "stopped_at x a q x1"
  | (no_desc) x1 where "fits cfg tx (w + length (payload q))" "tx = 0 \<or> \<not> bulk_end cfg tx w"
      "handle_loop (Suc n) cfg fill sts last_idx is_dummy x = Done x1"
      "x_pstatus x1 = RTW_PHL_STATUS_FAILURE" "x_done x1 = x_done x @ [a]"
      "x_ring x1 = (x_ring x)\<lparr>tr_phl_idx := tr_phl_next_idx (x_ring x)\<rparr>"
      "x_reqs x1 = (x_reqs x)(a := q)" "length (x_buf x1) = length (x_buf x)" "x_type x1 = PKT_TYPE_DATA"
      "fill q = None"
  | (copied) x4 where "fits cfg tx (w + length (payload q))" "tx = 0 \<or> \<not> bulk_end cfg tx w"
      "handle_loop (Suc n) cfg fill sts last_idx is_dummy x =
         (let (more, x5) = after_copy cfg a (tr_phl_next_idx (x_ring x)) PKT_TYPE_DATA x4
          in if more then handle_loop n cfg fill sts last_idx is_dummy x5 else Done x5)"
      "laid_out fill x4" "unat (x_tx_len x4) = align8 tx + plen q"
      "x_pstatus x4 = RTW_PHL_STATUS_SUCCESS" "x_done x4 = x_done x @ [a]" "x_ring x4 = x_ring x"
      "x_reqs x4 = (x_reqs x)(a := q)" "length (x_buf x4) = length (x_buf x)" "x_type x4 = PKT_TYPE_DATA"
      "x_agg_cnt x4 = x_agg_cnt x" "x_trasc_agg_cnt x4 = x_trasc_agg_cnt x"
      "x_trasc_idx x4 = x_trasc_idx x" "x_req_busy x4 = x_req_busy x"
proof -
  have u: "usb_ok cfg" "fill_ok fill" "laid_out fill x" and lb: "length (x_buf x) = unat (tx_buf_size cfg)"
    and ent: "tr_entry (x_ring x) (unat (tr_phl_next_idx (x_ring x))) = Some a"
    and new: "a \<notin> set (x_done x)" and ok: "req_ok (x_reqs x a)" and data: "xr_type (x_reqs x a) = PKT_TYPE_DATA"
    using r by (simp_all add: at_round_def)
  have S: "unat (tx_buf_size cfg) \<le> 1048576" "1024 \<le> unat (tx_buf_size cfg)" using u(1) by (simp_all add: usb_ok_def)
  have txS: "tx \<le> 1048576" using u(3) lb S by (simp add: laid_out_def tx_def)
  have wd: "wdl (x_reqs x a) = 32 \<or> wdl (x_reqs x a) = 56" using ok by (rule wdl_cases)
  have q0: "mac_txdesc_len (set_meta sts (x_ring x) (x_reqs x a)) = mac_txdesc_len (x_reqs x a)"
    using sent_req_wd [OF ok, of sts "x_ring x" False] by (simp add: sent_req_def)
  let ?wd = "if mark then mac_txdesc_len (set_meta sts (x_ring x) (x_reqs x a)) + PKT_OFFSET_DUMMY
             else mac_txdesc_len (set_meta sts (x_ring x) (x_reqs x a))"
  have uw: "unat ?wd = w"
  proof (cases mark)
    case True
    have "unat (mac_txdesc_len (x_reqs x a) + PKT_OFFSET_DUMMY) = unat (mac_txdesc_len (x_reqs x a)) + unat PKT_OFFSET_DUMMY"
      using wd by (intro unat_plus) (auto simp: wdl_def PKT_OFFSET_DUMMY_def)
    then show ?thesis using True by (simp add: w_def wanted_def q0 wdl_def PKT_OFFSET_DUMMY_def)
  next
    case False
    then show ?thesis by (simp add: w_def wanted_def q0 wdl_def)
  qed
  have w100: "w \<le> 100" using wd by (auto simp: w_def wanted_def)
  have qq: "(if mark then (set_meta sts (x_ring x) (x_reqs x a))\<lparr>xr_usb_pkt_ofst := 1\<rparr>
      else set_meta sts (x_ring x) (x_reqs x a)) = q"
    by (simp add: q_def sent_req_def)
  have tl: "unat (xr_total_len q) = length (payload q)" "length (payload q) < 65536"
    using ok by (simp_all add: q_def req_ok_def)
  have ulen: "unat (?wd + xr_total_len q) = w + length (payload q)"
    using uw tl w100 by (subst unat_plus) simp_all
  have fw: "ALIGN8 (?wd + xr_total_len q) + x_tx_len x > tx_buf_size cfg - PKT_OFFSET_DUMMY \<longleftrightarrow>
      \<not> fits cfg tx (w + length (payload q))"
    using fits_word [OF u(1), of "x_tx_len x" "?wd + xr_total_len q"] txS ulen tl(2) w100
    by (simp add: tx_def)
  have al: "align8 tx = tx + (align8 (unat (x_packet_len x)) - unat (x_packet_len x))"
    "x_off x + align8 (unat (x_packet_len x)) = align8 tx" "unat (x_packet_len x) \<le> tx"
    using laid_out_align [OF u(3)] by (simp_all add: tx_def)
  have up: "unat (ALIGN8 (x_packet_len x)) = align8 (unat (x_packet_len x))"
    using al(3) txS by (intro unat_ALIGN8) simp
  have bw: "(x_tx_len x + ?wd + ALIGN8 (x_packet_len x) - x_packet_len x) mod bulk_size cfg = 0 \<longleftrightarrow> bulk_end cfg tx w"
    using bulk_end_word [of "x_tx_len x" "x_packet_len x" ?wd cfg] txS al uw w100 by (simp add: tx_def)
  have mk: "mark \<longleftrightarrow> last_idx \<noteq> IDX_NONE \<and> x_agg_cnt x = ucast last_idx \<and> is_dummy"
    by (simp add: mark_def marked_def)
  have dq: "xr_type q = PKT_TYPE_DATA" using data by (simp add: q_def)
  have tz: "x_tx_len x \<noteq> 0 \<longleftrightarrow> tx \<noteq> 0" by (simp add: tx_def unat_eq_0)
  define W where "W = ?wd"
  have c1: "ALIGN8 (W + xr_total_len q) + x_tx_len x > tx_buf_size cfg - PKT_OFFSET_DUMMY \<longleftrightarrow>
      \<not> fits cfg tx (w + length (payload q))" using fw by (simp only: W_def)
  have c2: "(x_tx_len x + W + ALIGN8 (x_packet_len x) - x_packet_len x) mod bulk_size cfg = 0 \<longleftrightarrow> bulk_end cfg tx w"
    using bw by (simp only: W_def)
  define o1 where "o1 = x_off x + unat (ALIGN8 (x_packet_len x))"
  define len1 where "len1 = (if ALIGN8 (x_packet_len x) > x_packet_len x
      then x_tx_len x + (ALIGN8 (x_packet_len x) - x_packet_len x) else x_tx_len x)"
  note opened = handle_loop.simps(2) Let_def ent option.case mk [symmetric] qq W_def [symmetric]
  have stop1: "\<not> fits cfg tx (w + length (payload q)) \<Longrightarrow> handle_loop (Suc n) cfg fill sts last_idx is_dummy x =
      Done (x\<lparr>x_type := PKT_TYPE_DATA, x_reqs := (x_reqs x)(a := q)\<rparr>)"
    unfolding opened by (simp add: c1 dq)
  have stop2: "fits cfg tx (w + length (payload q)) \<Longrightarrow> tx \<noteq> 0 \<Longrightarrow> bulk_end cfg tx w \<Longrightarrow>
      handle_loop (Suc n) cfg fill sts last_idx is_dummy x =
      Done (x\<lparr>x_type := PKT_TYPE_DATA, x_reqs := (x_reqs x)(a := q), x_off := o1\<rparr>)"
    unfolding opened by (simp add: c1 c2 dq tz o1_def)
  have go: "handle_loop (Suc n) cfg fill sts last_idx is_dummy x =
      (let x4 = x\<lparr>x_type := PKT_TYPE_DATA, x_reqs := (x_reqs x)(a := q), x_off := o1,
                  x_pstatus := pstatus, x_buf := buf, x_packet_len := packet_len,
                  x_tx_len := len1 + packet_len, x_done := x_done x @ [a]\<rparr>
       in if pstatus = RTW_PHL_STATUS_SUCCESS
          then (let (more, x5) = after_copy cfg a (tr_phl_next_idx (x_ring x)) PKT_TYPE_DATA x4
                in if more then handle_loop n cfg fill sts last_idx is_dummy x5 else Done x5)
          else Done (x4\<lparr>x_ring := (x_ring x4)\<lparr>tr_phl_idx := tr_phl_next_idx (x_ring x)\<rparr>\<rparr>))"
    if f: "fits cfg tx (w + length (payload q))" "tx = 0 \<or> \<not> bulk_end cfg tx w"
      and p: "phl_prepare_tx_usb fill q (x_buf x) o1 = Done (pstatus, buf, packet_len)"
    for pstatus buf packet_len
    using f p unfolding opened o1_def len1_def
    by (cases "ALIGN8 (x_packet_len x) > x_packet_len x") (auto simp: c1 c2 dq tz)
  have o1: "o1 = align8 tx" using al(2) up by (simp add: o1_def)
  have pw: "unat (x_packet_len x) \<le> align8 (unat (x_packet_len x))" by (rule align8_ge)
  have len1: "unat len1 = align8 tx"
  proof (cases "ALIGN8 (x_packet_len x) > x_packet_len x")
    case True
    have d: "unat (ALIGN8 (x_packet_len x) - x_packet_len x) = align8 (unat (x_packet_len x)) - unat (x_packet_len x)"
      using up pw by (subst unat_sub) (simp_all add: word_le_nat_alt)
    have "align8 tx < tx + 8" by (rule align8_ge)
    then have "unat (x_tx_len x + (ALIGN8 (x_packet_len x) - x_packet_len x)) = align8 tx"
      using d al(1) txS by (subst unat_plus) (simp_all add: tx_def)
    then show ?thesis using True by (simp add: len1_def)
  next
    case False
    then have "align8 (unat (x_packet_len x)) = unat (x_packet_len x)"
      using up pw by (simp add: word_less_nat_alt)
    then show ?thesis using False al(1) by (simp add: len1_def tx_def)
  qed
  have wq: "wdl q = wdl (x_reqs x a)" using sent_req_wd [OF ok] by (simp add: q_def wdl_def)
  have gq: "gap q \<le> 8" "mark \<Longrightarrow> gap q = 8" by (simp_all add: gap_def q_def sent_req_def)
  have room: "align8 tx + plen q \<le> length (x_buf x)" if "fits cfg tx (w + length (payload q))"
  proof -
    have "align8 tx + align8 (w + length (payload q)) \<le> unat (tx_buf_size cfg) - 8"
      using fits_bound [OF u(1) that] .
    moreover have "w + length (payload q) \<le> align8 (w + length (payload q))" by (rule align8_ge)
    moreover have "plen q \<le> w + 8 + length (payload q)"
      using gq by (simp add: plen_def wq w_def wanted_def)
    ultimately show ?thesis using lb S(2) by linarith
  qed
  consider "\<not> fits cfg tx (w + length (payload q))"
    | "fits cfg tx (w + length (payload q))" "tx \<noteq> 0" "bulk_end cfg tx w"
    | "fits cfg tx (w + length (payload q))" "tx = 0 \<or> \<not> bulk_end cfg tx w" "fill q = None"
    | wd where "fits cfg tx (w + length (payload q))" "tx = 0 \<or> \<not> bulk_end cfg tx w" "fill q = Some wd"
    by (cases "fits cfg tx (w + length (payload q))"; cases "tx = 0 \<or> \<not> bulk_end cfg tx w"; cases "fill q") auto
  then show thesis
  proof cases
    case 1
    show thesis by (rule too_long [OF 1 stop1 [OF 1]]) (auto simp: stopped_at_def intro!: exI [of _ "x_off x"])
  next
    case 2
    show thesis by (rule at_bulk_end [OF 2 stop2 [OF 2]]) (auto simp: stopped_at_def)
  next
    case 3
    let ?x1 = "x\<lparr>x_type := PKT_TYPE_DATA, x_reqs := (x_reqs x)(a := q), x_off := o1,
        x_pstatus := RTW_PHL_STATUS_FAILURE, x_packet_len := 0, x_tx_len := len1,
        x_done := x_done x @ [a], x_ring := (x_ring x)\<lparr>tr_phl_idx := tr_phl_next_idx (x_ring x)\<rparr>\<rparr>"
    show thesis
      by (rule no_desc [of ?x1, OF 3(1,2)]) (use 3(3) go [OF 3(1,2) prepare_fails [of fill q "x_buf x" o1, OF 3(3)]] in \<open>simp_all add: Let_def\<close>)
  next
    case (4 wd)
    have "length wd = wdl q" using u(2) 4(3) by (simp add: fill_ok_def)
    then obtain buf where buf: "phl_prepare_tx_usb fill q (x_buf x) o1 =
        Done (RTW_PHL_STATUS_SUCCESS, buf, of_nat (plen q))" "length buf = length (x_buf x)"
        "take o1 buf = take o1 (x_buf x)" "is_packet fill q (take (plen q) (drop o1 buf))"
      using prepare_done [of fill q wd o1 "x_buf x", OF 4(3)] room [OF 4(1)] o1 by metis
    let ?x4 = "x\<lparr>x_type := PKT_TYPE_DATA, x_reqs := (x_reqs x)(a := q), x_off := o1,
        x_pstatus := RTW_PHL_STATUS_SUCCESS, x_buf := buf, x_packet_len := of_nat (plen q),
        x_tx_len := len1 + of_nat (plen q), x_done := x_done x @ [a]\<rparr>"
    have pl: "unat (of_nat (plen q) :: u32) = plen q"
      using room [OF 4(1)] lb S(1) by (simp add: unat_of_nat take_bit_nat_eq_self)
    have tl4: "unat (x_tx_len ?x4) = align8 tx + plen q"
      using len1 pl room [OF 4(1)] lb S(1) by (simp add: unat_plus)
    have dr: "done_reqs ?x4 = done_reqs x @ [q]" using new by (simp add: done_reqs_def)
    have bs: "base (map plen (done_reqs x)) = align8 tx"
      using u(3) extent_align [of "map plen (done_reqs x)"] by (simp add: laid_out_def tx_def)
    have pa: "packets_at fill (done_reqs x @ [q]) buf"
      using u(3) buf o1 bs by (intro packets_at_snoc [of fill _ "x_buf x"]) (simp_all add: laid_out_def)
    have ex: "extent (map plen (done_reqs x @ [q])) = align8 tx + plen q"
      by (simp add: extent_def last0_def bs)
    have "laid_out fill ?x4"
      unfolding laid_out_def dr ex tl4
      using pa pl o1 bs buf(2) room [OF 4(1)] by (simp add: last0_def)
    then show thesis
      by (rule copied [of ?x4, OF 4(1,2) _ _ tl4, rotated 1])
        (use go [OF 4(1,2) buf(1)] buf(2) in \<open>simp_all add: Let_def\<close>)
  qed
qed

definition limit_hit :: "usb_cfg \<Rightarrow> u8 \<Rightarrow> u8 \<Rightarrow> u32 \<Rightarrow> nat \<Rightarrow> bool" where
  "limit_hit cfg agg idx tx n \<longleftrightarrow>
     (let part = drop_bit (GET_SHIFT_OFFSET (bulk_size cfg)) tx;
          agg' = (if ucast idx = part then agg + 1 else 0)
      in agg' \<ge> max_bulkout_wd_num cfg \<or> n = unat (max_dma_txagg_msk cfg))"

definition next_trasc :: "usb_cfg \<Rightarrow> u8 \<Rightarrow> u8 \<Rightarrow> u32 \<Rightarrow> u8 \<times> u8" where
  "next_trasc cfg agg idx tx =
     (let part = drop_bit (GET_SHIFT_OFFSET (bulk_size cfg)) tx
      in if ucast idx = part then (agg + 1, idx) else (0, ucast part))"

lemma after_copy_data:
  assumes "after_copy cfg a rptr PKT_TYPE_DATA x = (go, x5)" "unat (x_agg_cnt x) < 255"
  shows "go \<longleftrightarrow> \<not> limit_hit cfg (x_trasc_agg_cnt x) (x_trasc_idx x) (x_tx_len x) (unat (x_agg_cnt x) + 1)"
    and "x_req_busy x5 = x_req_busy x - 1" "unat (x_agg_cnt x5) = unat (x_agg_cnt x) + 1"
    "(x_trasc_agg_cnt x5, x_trasc_idx x5) = next_trasc cfg (x_trasc_agg_cnt x) (x_trasc_idx x) (x_tx_len x)"
    "x_ring x5 = (x_ring x)\<lparr>tr_phl_idx := rptr, tr_phl_next_idx :=
        (if go \<and> x_req_busy x5 \<noteq> 0 then ring_next rptr else tr_phl_next_idx (x_ring x))\<rparr>"
    "x_tx_len x5 = x_tx_len x" "x_packet_len x5 = x_packet_len x" "x_off x5 = x_off x"
    "x_pstatus x5 = x_pstatus x" "x_type x5 = x_type x" "x_reqs x5 = x_reqs x" "x_buf x5 = x_buf x"
    "x_done x5 = x_done x"
proof -
  have u: "unat (x_agg_cnt x + 1) = unat (x_agg_cnt x) + 1"
    using assms(2) by (simp add: unat_word_ariths(1))
  have e: "ucast (x_agg_cnt x + 1) = max_dma_txagg_msk cfg \<longleftrightarrow> unat (x_agg_cnt x) + 1 = unat (max_dma_txagg_msk cfg)"
  proof -
    have "unat (ucast (x_agg_cnt x + 1) :: u16) = unat (x_agg_cnt x) + 1"
      using assms(2) u by (simp only: unsigned_ucast_eq) (simp add: take_bit_nat_eq_self)
    then show ?thesis unfolding word_unat_eq_iff by simp
  qed
  note d = assms(1) [unfolded after_copy_def Let_def, simplified]
  show "go \<longleftrightarrow> \<not> limit_hit cfg (x_trasc_agg_cnt x) (x_trasc_idx x) (x_tx_len x) (unat (x_agg_cnt x) + 1)"
    "x_req_busy x5 = x_req_busy x - 1" "unat (x_agg_cnt x5) = unat (x_agg_cnt x) + 1"
    "(x_trasc_agg_cnt x5, x_trasc_idx x5) = next_trasc cfg (x_trasc_agg_cnt x) (x_trasc_idx x) (x_tx_len x)"
    "x_ring x5 = (x_ring x)\<lparr>tr_phl_idx := rptr, tr_phl_next_idx :=
        (if go \<and> x_req_busy x5 \<noteq> 0 then ring_next rptr else tr_phl_next_idx (x_ring x))\<rparr>"
    "x_tx_len x5 = x_tx_len x" "x_packet_len x5 = x_packet_len x" "x_off x5 = x_off x"
    "x_pstatus x5 = x_pstatus x" "x_type x5 = x_type x" "x_reqs x5 = x_reqs x" "x_buf x5 = x_buf x"
    "x_done x5 = x_done x"
    using d u e by (auto simp: limit_hit_def next_trasc_def Let_def split: if_splits)
qed

definition same_req :: "xmit_req \<Rightarrow> xmit_req \<Rightarrow> bool" where
  "same_req q q' \<longleftrightarrow> xr_type q' = xr_type q \<and> xr_pkt_list q' = xr_pkt_list q \<and>
     xr_total_len q' = xr_total_len q \<and> xr_treq_type q' = xr_treq_type q \<and>
     xr_macid q' = xr_macid q \<and> xr_cat q' = xr_cat q \<and> xr_wdinfo_en q' = xr_wdinfo_en q"

lemma same_req_refl [simp]: "same_req q q"
  by (simp add: same_req_def)

lemma same_req_trans: "same_req p q \<Longrightarrow> same_req q r \<Longrightarrow> same_req p r"
  by (simp add: same_req_def)

lemma same_req_sent [simp]: "same_req q (sent_req sts r m q)"
  by (simp add: same_req_def sent_req_def set_meta_def)

lemma same_req_ok: "same_req q q' \<Longrightarrow> req_ok q' = req_ok q"
  by (simp add: same_req_def req_ok_def payload_def)

definition run_ok :: "usb_cfg \<Rightarrow> (xmit_req \<Rightarrow> bytes option) \<Rightarrow> xmit \<Rightarrow> nat list \<Rightarrow> bool" where
  "run_ok cfg fill x as \<longleftrightarrow> usb_ok cfg \<and> fill_ok fill \<and> laid_out fill x \<and>
     length (x_buf x) = unat (tx_buf_size cfg) \<and>
     ring_lists (tr_entry (x_ring x)) (tr_phl_next_idx (x_ring x)) as \<and>
     (\<forall>a \<in> set as. req_ok (x_reqs x a) \<and> xr_type (x_reqs x a) = PKT_TYPE_DATA) \<and>
     distinct (x_done x @ as) \<and> unat (x_agg_cnt x) = length (x_done x) \<and>
     length (x_done x) < unat (max_dma_txagg_msk cfg) \<and>
     length as < 2 ^ 16 \<and> x_req_busy x = of_nat (length as) \<and> x_type x = PKT_TYPE_DATA"

text \<open>What holds after \<open>k\<close> of the requests \<open>as\<close> have been taken.\<close>

definition taken_from :: "usb_cfg \<Rightarrow> (xmit_req \<Rightarrow> bytes option) \<Rightarrow> xmit \<Rightarrow> nat list \<Rightarrow> nat \<Rightarrow> xmit \<Rightarrow> bool" where
  "taken_from cfg fill x as k x' \<longleftrightarrow> k \<le> length as \<and> x_done x' = x_done x @ take k as \<and>
     length (x_buf x') = length (x_buf x) \<and>
     (length (x_done x') > 1 \<longrightarrow> x_type x' = PKT_TYPE_DATA) \<and>
     (\<exists>nx. x_ring x' = (x_ring x)\<lparr>tr_phl_next_idx := nx, tr_phl_idx :=
        (if k = 0 then tr_phl_idx (x_ring x) else (ring_next ^^ (k - 1)) (tr_phl_next_idx (x_ring x)))\<rparr>) \<and>
     (\<forall>b. same_req (x_reqs x b) (x_reqs x' b) \<and> (b \<notin> set as \<longrightarrow> x_reqs x' b = x_reqs x b)) \<and>
     length (x_done x') \<le> unat (max_dma_txagg_msk cfg) \<and>
     (x_pstatus x' = RTW_PHL_STATUS_SUCCESS \<longrightarrow>
        packets_at fill (done_reqs x') (x_buf x') \<and> unat (x_tx_len x') = extent (map plen (done_reqs x')) \<and>
        extent (map plen (done_reqs x')) \<le> length (x_buf x') \<and> unat (x_agg_cnt x') = length (x_done x')) \<and>
     (k = 0 \<longrightarrow> x_pstatus x' = x_pstatus x)"

lemma taken_fromD:
  assumes "taken_from cfg fill x as k x'"
  shows "k \<le> length as" "x_done x' = x_done x @ take k as" "length (x_buf x') = length (x_buf x)"
    and "length (x_done x') > 1 \<longrightarrow> x_type x' = PKT_TYPE_DATA"
    and "length (x_done x') \<le> unat (max_dma_txagg_msk cfg)"
    and "x_pstatus x' = RTW_PHL_STATUS_SUCCESS \<longrightarrow>
        packets_at fill (done_reqs x') (x_buf x') \<and> unat (x_tx_len x') = extent (map plen (done_reqs x')) \<and>
        extent (map plen (done_reqs x')) \<le> length (x_buf x') \<and> unat (x_agg_cnt x') = length (x_done x')"
    and "k = 0 \<longrightarrow> x_pstatus x' = x_pstatus x"
    and "same_req (x_reqs x b) (x_reqs x' b)" "b \<notin> set as \<Longrightarrow> x_reqs x' b = x_reqs x b"
  using assms unfolding taken_from_def by blast+

lemma run_ok_round: "run_ok cfg fill x (a # as) \<Longrightarrow> at_round cfg fill x a"
  by (simp add: run_ok_def at_round_def)

lemma stopped_taken:
  assumes r: "run_ok cfg fill x (a # as)" and s: "stopped_at x a q x1" and q: "same_req (x_reqs x a) q"
  shows "taken_from cfg fill x (a # as) 0 x1"
proof -
  obtain off where x1: "x1 = x\<lparr>x_type := PKT_TYPE_DATA, x_reqs := (x_reqs x)(a := q), x_off := off\<rparr>"
    using s by (auto simp: stopped_at_def)
  have "a \<notin> set (x_done x)" using r by (simp add: run_ok_def)
  then have d: "done_reqs x1 = done_reqs x" by (simp add: done_reqs_def x1)
  have "\<exists>nx. x_ring x1 = (x_ring x)\<lparr>tr_phl_next_idx := nx, tr_phl_idx := tr_phl_idx (x_ring x)\<rparr>"
    by (rule exI [of _ "tr_phl_next_idx (x_ring x)"]) (simp add: x1)
  then show ?thesis
    unfolding taken_from_def d using r q by (simp add: x1 run_ok_def laid_out_def)
qed

lemma run_ok_next:
  assumes r: "run_ok cfg fill x (a # as)" and l: "laid_out fill x4"
    and x4: "x_done x4 = x_done x @ [a]" "x_ring x4 = x_ring x" "x_reqs x4 = (x_reqs x)(a := q)"
      "length (x_buf x4) = length (x_buf x)" "x_type x4 = PKT_TYPE_DATA" "x_agg_cnt x4 = x_agg_cnt x"
      "x_req_busy x4 = x_req_busy x" "x_pstatus x4 = RTW_PHL_STATUS_SUCCESS"
    and ac: "after_copy cfg a (tr_phl_next_idx (x_ring x)) PKT_TYPE_DATA x4 = (go, x5)"
    and q: "same_req (x_reqs x a) q"
  shows "go \<Longrightarrow> as \<noteq> [] \<Longrightarrow> run_ok cfg fill x5 as" and "taken_from cfg fill x (a # as) 1 x5"
    and "unat (x_agg_cnt x5) = length (x_done x) + 1"
    and "go \<Longrightarrow> length (x_done x5) < unat (max_dma_txagg_msk cfg)"
    and "laid_out fill x5"
proof -
  have cnt: "unat (x_agg_cnt x4) < 255" "unat (x_agg_cnt x4) = length (x_done x)"
    using r x4 by (simp_all add: run_ok_def usb_ok_def)
  note ad = after_copy_data [OF ac cnt(1)]
  have new: "a \<notin> set (x_done x)" "a \<notin> set as" using r by (auto simp: run_ok_def)
  have dr: "done_reqs x5 = done_reqs x4" by (simp add: done_reqs_def ad)
  show lo: "laid_out fill x5" using l by (simp add: laid_out_def dr ad)
  show lim: "go \<Longrightarrow> length (x_done x5) < unat (max_dma_txagg_msk cfg)"
  proof -
    assume go
    then have "unat (x_agg_cnt x4) + 1 \<noteq> unat (max_dma_txagg_msk cfg)"
      using ad(1) by (auto simp: limit_hit_def Let_def)
    moreover have "length (x_done x) < unat (max_dma_txagg_msk cfg)" using r by (simp add: run_ok_def)
    ultimately show ?thesis using cnt x4 by (simp add: ad)
  qed
  show agg: "unat (x_agg_cnt x5) = length (x_done x) + 1" using cnt by (simp add: ad)
  have busy: "x_req_busy x5 = of_nat (length as)" using r by (simp add: ad x4 run_ok_def)
  show "run_ok cfg fill x5 as" if "go" "as \<noteq> []"
  proof -
    have "length as < 2 ^ 16" using r by (simp add: run_ok_def)
    then have "x_req_busy x5 \<noteq> 0" using that(2) busy by (auto simp: word_unat_eq_iff unat_of_nat take_bit_nat_eq_self)
    then have rg: "x_ring x5 = (x_ring x)\<lparr>tr_phl_idx := tr_phl_next_idx (x_ring x),
        tr_phl_next_idx := ring_next (tr_phl_next_idx (x_ring x))\<rparr>"
      using that(1) by (simp add: ad x4)
    show ?thesis
      unfolding run_ok_def rg busy
      using r lo lim [OF that(1)] agg new that
      by (auto simp: run_ok_def ad x4)
  qed
  have "\<exists>nx. x_ring x5 = (x_ring x)\<lparr>tr_phl_next_idx := nx, tr_phl_idx := tr_phl_next_idx (x_ring x)\<rparr>"
    by (rule exI [of _ "if go \<and> x_req_busy x5 \<noteq> 0 then ring_next (tr_phl_next_idx (x_ring x))
        else tr_phl_next_idx (x_ring x)"]) (simp only: ad(5) x4, simp)
  then show "taken_from cfg fill x (a # as) 1 x5"
    unfolding taken_from_def using r lo agg q
    by (simp add: ad x4 run_ok_def laid_out_def)
qed

lemma taken_from_trans:
  assumes t1: "taken_from cfg fill x (a # as) 1 x5" and t2: "taken_from cfg fill x5 as k x'"
    and r: "run_ok cfg fill x (a # as)" and nx: "as \<noteq> [] \<Longrightarrow> tr_phl_next_idx (x_ring x5) = ring_next (tr_phl_next_idx (x_ring x))"
    and p: "x_pstatus x5 = RTW_PHL_STATUS_SUCCESS" "laid_out fill x5" "unat (x_agg_cnt x5) = length (x_done x) + 1"
  shows "taken_from cfg fill x (a # as) (Suc k) x'"
proof -
  obtain n1 where r1: "x_ring x5 = (x_ring x)\<lparr>tr_phl_next_idx := n1, tr_phl_idx := tr_phl_next_idx (x_ring x)\<rparr>"
    using t1 by (auto simp: taken_from_def)
  obtain n2 where r2: "x_ring x' = (x_ring x5)\<lparr>tr_phl_next_idx := n2, tr_phl_idx :=
      (if k = 0 then tr_phl_idx (x_ring x5) else (ring_next ^^ (k - 1)) (tr_phl_next_idx (x_ring x5)))\<rparr>"
    using t2 by (auto simp: taken_from_def)
  have "\<exists>nx. x_ring x' = (x_ring x)\<lparr>tr_phl_next_idx := nx, tr_phl_idx := (ring_next ^^ k) (tr_phl_next_idx (x_ring x))\<rparr>"
  proof (cases k)
    case 0
    then show ?thesis using r1 r2 by (intro exI [of _ n2]) simp
  next
    case (Suc j)
    then have "as \<noteq> []" using t2 by (auto simp: taken_from_def)
    then have "(ring_next ^^ j) (tr_phl_next_idx (x_ring x5)) = (ring_next ^^ k) (tr_phl_next_idx (x_ring x))"
      using nx Suc by (simp add: funpow_swap1)
    then show ?thesis using r1 r2 Suc by (intro exI [of _ n2]) simp
  qed
  moreover have "same_req (x_reqs x b) (x_reqs x' b) \<and> (b \<notin> set (a # as) \<longrightarrow> x_reqs x' b = x_reqs x b)" for b
  proof -
    have "same_req (x_reqs x b) (x_reqs x5 b)" "same_req (x_reqs x5 b) (x_reqs x' b)"
      "b \<notin> set (a # as) \<Longrightarrow> x_reqs x5 b = x_reqs x b" "b \<notin> set as \<Longrightarrow> x_reqs x' b = x_reqs x5 b"
      using t1 t2 by (simp_all add: taken_from_def)
    then show ?thesis using same_req_trans by auto
  qed
  moreover have "length (x_done x') > 1 \<longrightarrow> x_type x' = PKT_TYPE_DATA"
    "length (x_done x') \<le> unat (max_dma_txagg_msk cfg)"
    "x_pstatus x' = RTW_PHL_STATUS_SUCCESS \<longrightarrow>
        packets_at fill (done_reqs x') (x_buf x') \<and> unat (x_tx_len x') = extent (map plen (done_reqs x')) \<and>
        extent (map plen (done_reqs x')) \<le> length (x_buf x') \<and> unat (x_agg_cnt x') = length (x_done x')"
    using taken_fromD [OF t2] by blast+
  moreover have "k \<le> length as" "x_done x' = x_done x @ a # take k as" "length (x_buf x') = length (x_buf x)"
    using t1 t2 by (simp_all add: taken_from_def)
  ultimately show ?thesis unfolding taken_from_def by auto
qed

lemma handle_loop_data:
  "run_ok cfg fill x as \<Longrightarrow>
   \<exists>x' k. handle_loop (length as) cfg fill sts last_idx is_dummy x = Done x' \<and> taken_from cfg fill x as k x'"
proof (induction as arbitrary: x)
  case Nil
  have "taken_from cfg fill x [] 0 x"
    using Nil by (auto simp: taken_from_def run_ok_def laid_out_def intro!: exI [of _ "tr_phl_next_idx (x_ring x)"])
  then show ?case by auto
next
  case (Cons a as)
  let ?q = "sent_req sts (x_ring x) (marked last_idx is_dummy x) (x_reqs x a)"
  note r = Cons.prems
  from run_ok_round [OF r] show ?case
  proof (cases rule: round_cases [where n = "length as" and sts = sts and last_idx = last_idx and is_dummy = is_dummy])
    case (too_long x1)
    have "taken_from cfg fill x (a # as) 0 x1" by (rule stopped_taken [OF r too_long(3)]) simp
    then show ?thesis using too_long(2) by auto
  next
    case (at_bulk_end x1)
    have "taken_from cfg fill x (a # as) 0 x1" by (rule stopped_taken [OF r at_bulk_end(5)]) simp
    then show ?thesis using at_bulk_end(4) by auto
  next
    case (no_desc x1)
    have "taken_from cfg fill x (a # as) 1 x1"
      using no_desc r by (auto simp: taken_from_def run_ok_def intro!: exI [of _ "tr_phl_next_idx (x_ring x)"])
    then show ?thesis using no_desc(3) by auto
  next
    case (copied x4)
    obtain go x5 where ac: "after_copy cfg a (tr_phl_next_idx (x_ring x)) PKT_TYPE_DATA x4 = (go, x5)"
      by (cases "after_copy cfg a (tr_phl_next_idx (x_ring x)) PKT_TYPE_DATA x4")
    have q: "same_req (x_reqs x a) ?q" by simp
    note nx = run_ok_next [OF r copied(4,7,8,9,10,11,12,15,6) ac q]
    have cnt: "unat (x_agg_cnt x4) < 255" using r copied by (simp add: run_ok_def usb_ok_def)
    note ad = after_copy_data [OF ac cnt]
    show ?thesis
    proof (cases "go \<and> as \<noteq> []")
      case True
      obtain x' k where x': "handle_loop (length as) cfg fill sts last_idx is_dummy x5 = Done x'"
          "taken_from cfg fill x5 as k x'"
        using Cons.IH [OF nx(1)] True by auto
      have "x_req_busy x5 \<noteq> 0"
        using nx(1) True by (auto simp: run_ok_def word_unat_eq_iff unat_of_nat take_bit_nat_eq_self)
      then have "tr_phl_next_idx (x_ring x5) = ring_next (tr_phl_next_idx (x_ring x))"
        using True by (simp add: ad copied)
      then have "taken_from cfg fill x (a # as) (Suc k) x'"
        using nx(3,5) by (intro taken_from_trans [OF nx(2) x'(2) r]) (simp_all add: ad copied)
      then show ?thesis using copied(3) ac x'(1) True by auto
    next
      case False
      then have "handle_loop (Suc (length as)) cfg fill sts last_idx is_dummy x = Done x5"
        using copied(3) ac by (cases as) auto
      then show ?thesis using nx(2) by auto
    qed
  qed
qed


definition xmit_start :: "phl_ring_status \<Rightarrow> tx_ring \<Rightarrow> (nat \<Rightarrow> xmit_req) \<Rightarrow> bytes \<Rightarrow> xmit" where
  "xmit_start sts r reqs buf = \<lparr>x_req_busy = rs_req_busy sts, x_packet_len = 0, x_tx_len = 0, x_off = 0,
     x_agg_cnt = 0, x_trasc_agg_cnt = 0, x_trasc_idx = 0, x_pstatus = RTW_PHL_STATUS_FAILURE,
     x_type = PKT_TYPE_DATA, x_ring = r, x_reqs = reqs, x_buf = buf, x_done = []\<rparr>"

lemma fill_transfer_start:
  "fill_transfer cfg fill sts r reqs buf =
     (let (last_idx, is_dummy) = usb_tx_agg_preprocess cfg (\<lambda>i. map_option reqs (tr_entry r i))
             (tr_phl_next_idx r) (rs_req_busy sts)
      in handle_loop (unat (rs_req_busy sts)) cfg fill sts last_idx is_dummy (xmit_start sts r reqs buf))"
  by (simp add: fill_transfer_def xmit_start_def)

text \<open>
  The requests of a ring are all data frames and the buffer is one for data, or the first one is
  no data frame and goes alone. The code compares the length of a frame with the size of the
  buffers for data; a frame for one of the smaller buffers for management frames must fit by itself.
\<close>

definition batch_ok :: "usb_cfg \<Rightarrow> (xmit_req \<Rightarrow> bytes option) \<Rightarrow> phl_ring_status \<Rightarrow> tx_ring \<Rightarrow>
     (nat \<Rightarrow> xmit_req) \<Rightarrow> bytes \<Rightarrow> nat list \<Rightarrow> bool" where
  "batch_ok cfg fill sts r reqs buf as \<longleftrightarrow> usb_ok cfg \<and> fill_ok fill \<and> as \<noteq> [] \<and> distinct as \<and>
     length as = unat (rs_req_busy sts) \<and> ring_lists (tr_entry r) (tr_phl_next_idx r) as \<and>
     (\<forall>a \<in> set as. req_ok (reqs a)) \<and>
     (length buf = unat (tx_buf_size cfg) \<or> xr_type (reqs (hd as)) \<noteq> PKT_TYPE_DATA \<and>
        wdl (reqs (hd as)) + 8 + length (payload (reqs (hd as))) \<le> length buf) \<and>
     (xr_type (reqs (hd as)) = PKT_TYPE_DATA \<longrightarrow> (\<forall>a \<in> set as. xr_type (reqs a) = PKT_TYPE_DATA))"

lemma start_laid_out: "laid_out fill (xmit_start sts r reqs buf)"
  by (simp add: laid_out_def xmit_start_def done_reqs_def packets_at_def extent_def last0_def base_def)

lemma start_run_ok:
  assumes "batch_ok cfg fill sts r reqs buf as" "xr_type (reqs (hd as)) = PKT_TYPE_DATA"
  shows "run_ok cfg fill (xmit_start sts r reqs buf) as"
proof -
  have "unat (rs_req_busy sts) < 2 ^ 16" using unat_bound [of "rs_req_busy sts"] by simp
  then have "length as < 2 ^ 16" "rs_req_busy sts = of_nat (length as)"
    using assms(1) by (simp_all add: batch_ok_def)
  then show ?thesis
    using assms start_laid_out [of fill sts r reqs buf]
    by (auto simp: batch_ok_def run_ok_def usb_ok_def) (simp_all add: xmit_start_def)
qed

text \<open>A frame that is not data goes alone, at the start of the buffer.\<close>

lemma single_round:
  assumes b: "batch_ok cfg fill sts r reqs buf (a # as)" and nd: "xr_type (reqs a) \<noteq> PKT_TYPE_DATA"
  shows "\<exists>x' k. handle_loop (Suc n) cfg fill sts last_idx is_dummy (xmit_start sts r reqs buf) = Done x' \<and>
     taken_from cfg fill (xmit_start sts r reqs buf) (a # as) k x' \<and> k \<le> 1 \<and>
     x_reqs x' a = sent_req sts r (marked last_idx is_dummy (xmit_start sts r reqs buf)) (reqs a) \<and>
     (x_pstatus x' = RTW_PHL_STATUS_SUCCESS \<longleftrightarrow>
        fits cfg 0 (wanted (marked last_idx is_dummy (xmit_start sts r reqs buf)) (reqs a) + length (payload (reqs a))) \<and>
        fill (x_reqs x' a) \<noteq> None)"
proof -
  let ?x = "xmit_start sts r reqs buf"
  define mark where "mark \<longleftrightarrow> marked last_idx is_dummy ?x"
  define q where "q = sent_req sts r mark (reqs a)"
  define w where "w = wanted mark (reqs a)"
  have u: "usb_ok cfg" "fill_ok fill"
    and lb: "length buf = unat (tx_buf_size cfg) \<or> wdl (reqs a) + 8 + length (payload (reqs a)) \<le> length buf"
    and ent: "tr_entry r (unat (tr_phl_next_idx r)) = Some a" and ok: "req_ok (reqs a)"
    using b nd by (simp_all add: batch_ok_def)
  have wd: "wdl (reqs a) = 32 \<or> wdl (reqs a) = 56" using ok by (rule wdl_cases)
  have q0: "mac_txdesc_len (set_meta sts r (reqs a)) = mac_txdesc_len (reqs a)"
    using sent_req_wd [OF ok, of sts r False] by (simp add: sent_req_def)
  define W where "W = (if mark then mac_txdesc_len (set_meta sts r (reqs a)) + PKT_OFFSET_DUMMY
             else mac_txdesc_len (set_meta sts r (reqs a)))"
  have uW: "unat W = w"
  proof (cases mark)
    case True
    have "unat (mac_txdesc_len (reqs a) + PKT_OFFSET_DUMMY) = unat (mac_txdesc_len (reqs a)) + unat PKT_OFFSET_DUMMY"
      using wd by (intro unat_plus) (auto simp: wdl_def PKT_OFFSET_DUMMY_def)
    then show ?thesis using True by (simp add: W_def w_def wanted_def q0 wdl_def PKT_OFFSET_DUMMY_def)
  next
    case False
    then show ?thesis by (simp add: W_def w_def wanted_def q0 wdl_def)
  qed
  have w100: "w \<le> 100" using wd by (auto simp: w_def wanted_def)
  have qq: "(if mark then (set_meta sts r (reqs a))\<lparr>xr_usb_pkt_ofst := 1\<rparr> else set_meta sts r (reqs a)) = q"
    by (simp add: q_def sent_req_def)
  have tl: "unat (xr_total_len q) = length (payload q)" "length (payload q) < 65536"
    using ok by (simp_all add: q_def req_ok_def)
  have "unat (W + xr_total_len q) = w + length (payload q)" using uW tl w100 by (subst unat_plus) simp_all
  then have c1: "ALIGN8 (W + xr_total_len q) + 0 > tx_buf_size cfg - PKT_OFFSET_DUMMY \<longleftrightarrow>
      \<not> fits cfg 0 (w + length (payload q))"
    using fits_word [OF u(1), of 0 "W + xr_total_len q"] tl(2) w100 by simp
  have mk: "mark \<longleftrightarrow> last_idx \<noteq> IDX_NONE \<and> (0 :: u8) = ucast last_idx \<and> is_dummy"
    by (simp add: mark_def marked_def xmit_start_def)
  have tq: "xr_type q \<noteq> PKT_TYPE_DATA" using nd by (simp add: q_def)
  have x: "x_ring ?x = r" "x_reqs ?x = reqs" "x_agg_cnt ?x = 0" "x_tx_len ?x = 0" "x_off ?x = 0"
    "x_buf ?x = buf" "x_done ?x = []" "x_packet_len ?x = 0"
    by (simp_all add: xmit_start_def)
  have same: "same_req (reqs a) q" by (simp add: q_def)
  note opened = handle_loop.simps(2) Let_def x ent option.case mk [symmetric] qq W_def [symmetric]
  consider "\<not> fits cfg 0 (w + length (payload q))" | "fits cfg 0 (w + length (payload q))" "fill q = None"
    | wd where "fits cfg 0 (w + length (payload q))" "fill q = Some wd" by fastforce
  then show ?thesis
  proof cases
    case 1
    let ?x1 = "?x\<lparr>x_type := xr_type q, x_reqs := reqs(a := q)\<rparr>"
    have "handle_loop (Suc n) cfg fill sts last_idx is_dummy ?x = Done ?x1"
      unfolding opened using 1 c1 by (simp add: x)
    moreover have "taken_from cfg fill ?x (a # as) 0 ?x1"
      using same by (auto simp: taken_from_def x xmit_start_def intro!: exI [of _ "tr_phl_next_idx r"])
    moreover have "x_pstatus ?x1 \<noteq> RTW_PHL_STATUS_SUCCESS" "x_reqs ?x1 a = q" by (simp_all add: xmit_start_def)
    moreover have "\<not> fits cfg 0 (w + length (payload (reqs a)))" using 1 by (simp add: q_def)
    ultimately show ?thesis unfolding q_def mark_def w_def by (metis zero_le)
  next
    case 2
    let ?x1 = "?x\<lparr>x_type := xr_type q, x_reqs := reqs(a := q), x_done := [a],
        x_ring := r\<lparr>tr_phl_idx := tr_phl_next_idx r\<rparr>\<rparr>"
    have "handle_loop (Suc n) cfg fill sts last_idx is_dummy ?x = Done ?x1"
      unfolding opened using 2 c1 tq prepare_fails [of fill q buf 0] by (simp add: x xmit_start_def)
    moreover have "taken_from cfg fill ?x (a # as) 1 ?x1"
      using same u(1) by (auto simp: taken_from_def x xmit_start_def usb_ok_def intro!: exI [of _ "tr_phl_next_idx r"])
    moreover have "x_pstatus ?x1 \<noteq> RTW_PHL_STATUS_SUCCESS" "x_reqs ?x1 a = q" by (simp_all add: xmit_start_def)
    ultimately show ?thesis using 2(2) unfolding q_def mark_def by (metis order_refl)
  next
    case (3 wd)
    have gq: "gap q \<le> 8" "mark \<Longrightarrow> gap q = 8" by (simp_all add: gap_def q_def sent_req_def)
    have wq: "wdl q = wdl (reqs a)" using sent_req_wd [OF ok] by (simp add: q_def wdl_def)
    have pq: "payload q = payload (reqs a)" by (simp add: q_def)
    have len: "plen q \<le> wdl (reqs a) + 8 + length (payload (reqs a))" using gq pq by (simp add: plen_def wq)
    have room: "plen q \<le> length buf"
      using lb
    proof
      assume "length buf = unat (tx_buf_size cfg)"
      moreover have "align8 0 + align8 (w + length (payload q)) \<le> unat (tx_buf_size cfg) - 8"
        using fits_bound [OF u(1) 3(1)] .
      moreover have "w + length (payload q) \<le> align8 (w + length (payload q))" by (rule align8_ge)
      moreover have "plen q \<le> w + 8 + length (payload q)" using gq by (simp add: plen_def wq w_def wanted_def)
      moreover have "1024 \<le> unat (tx_buf_size cfg)" using u(1) by (simp add: usb_ok_def)
      ultimately show ?thesis by simp
    qed (use len in simp)
    have "length wd = wdl q" using u(2) 3(2) by (simp add: fill_ok_def)
    then obtain buf' where buf': "phl_prepare_tx_usb fill q buf 0 =
        Done (RTW_PHL_STATUS_SUCCESS, buf', of_nat (plen q))" "length buf' = length buf"
        "is_packet fill q (take (plen q) (drop 0 buf'))"
      using prepare_done [of fill q wd 0 buf, OF 3(2)] room by auto
    let ?x1 = "?x\<lparr>x_type := xr_type q, x_reqs := reqs(a := q), x_pstatus := RTW_PHL_STATUS_SUCCESS,
        x_buf := buf', x_packet_len := of_nat (plen q), x_tx_len := of_nat (plen q), x_done := [a],
        x_req_busy := rs_req_busy sts - 1, x_ring := r\<lparr>tr_phl_idx := tr_phl_next_idx r\<rparr>, x_agg_cnt := 1,
        x_trasc_agg_cnt := 1\<rparr>"
    have "handle_loop (Suc n) cfg fill sts last_idx is_dummy ?x = Done ?x1"
      unfolding opened using 3 c1 tq buf'(1) by (simp add: x xmit_start_def after_copy_def Let_def)
    moreover have "plen q < 2 ^ 32" using len wd tl(2) pq by auto
    then have "unat (of_nat (plen q) :: u32) = plen q" by (simp add: unat_of_nat take_bit_nat_eq_self)
    then have "taken_from cfg fill ?x (a # as) 1 ?x1"
      using same u(1) buf'(2,3) room
      by (auto simp: taken_from_def x xmit_start_def usb_ok_def done_reqs_def packets_at_def base_def
          extent_def last0_def intro!: exI [of _ "tr_phl_next_idx r"])
    moreover have "x_reqs ?x1 a = q" by simp
    moreover have "fits cfg 0 (w + length (payload (reqs a)))" using 3(1) by (simp add: q_def)
    moreover have "x_pstatus ?x1 = RTW_PHL_STATUS_SUCCESS" by simp
    ultimately show ?thesis using 3(2) unfolding q_def mark_def w_def by (metis order_refl option.distinct(1))
  qed
qed

lemma fill_transfer_taken:
  assumes b: "batch_ok cfg fill sts r reqs buf as"
  shows "\<exists>x k. fill_transfer cfg fill sts r reqs buf = Done x \<and>
     taken_from cfg fill (xmit_start sts r reqs buf) as k x"
proof -
  obtain last_idx is_dummy where pre: "usb_tx_agg_preprocess cfg (\<lambda>i. map_option reqs (tr_entry r i))
      (tr_phl_next_idx r) (rs_req_busy sts) = (last_idx, is_dummy)" by fastforce
  have n: "unat (rs_req_busy sts) = length as" using b by (simp add: batch_ok_def)
  obtain a bs where as: "as = a # bs" using b by (cases as) (auto simp: batch_ok_def)
  show ?thesis
  proof (cases "xr_type (reqs a) = PKT_TYPE_DATA")
    case True
    then have "run_ok cfg fill (xmit_start sts r reqs buf) as" using start_run_ok [OF b] as by simp
    from handle_loop_data [OF this, of sts last_idx is_dummy]
    show ?thesis unfolding fill_transfer_start pre n by simp
  next
    case False
    have "length as = Suc (length bs)" using as by simp
    then show ?thesis
      unfolding fill_transfer_start pre n
      using single_round [OF b [unfolded as] False, of "length bs" last_idx is_dummy] as by auto
  qed
qed

end
