(* ===== verification/TxPath.thy ===== *)
theory TxPath
  imports TxRingProps UsbTxLayout
begin

text \<open>
  The whole transmit path: the core adds requests to the rings of its stations, the handler
  \<open>_phl_tx_callback_usb\<close> (\<^verbatim>\<open>phl/hci/phl_trx_usb.c\<close>) serves them in rounds and hands buffers to the
  bus, the bus gives the buffers back, stations come and go, firmware commands are sent.

  An event is one critical section, or a stretch of the handler that only touches what no other
  task writes. The check of the rings runs under \<open>t_ring_list_lock\<close>, as \<open>rtw_phl_add_tx_req\<close>
  and the registration do; the flow control works on the handler's own lists. While the handler
  serves a ring the core only reads \<open>phl_idx\<close>, which only grows, and writes entries past those
  the status counts. The release of ring lists takes each one off its list under a lock.
\<close>

subsection \<open>Data\<close>

text \<open>What is fixed: the bus and the chip, the HAL, the sizes and numbers of the buffers.\<close>

record tx_env =
  te_cfg :: usb_cfg
  te_fill :: "xmit_req \<Rightarrow> bytes option"
  te_test_recycle :: bool
  te_buf_num :: nat
  te_mgnt_buf_num :: nat
  te_mgnt_buf_size :: nat
  te_h2c_buf_num :: nat

text \<open>
  \<open>serving\<close>: the handler is running. \<open>on_bus\<close>: the buffers the bus holds, with the bytes to send
  when they are not those of a command. \<open>added\<close> and \<open>given\<close> record, for every request, the ring
  it was put into and the ring it was given back from.
\<close>

record tx_path =
  rings :: tx_rings
  usb :: usb_tx
  reqs :: "nat \<Rightarrow> xmit_req"
  serving :: bool
  on_bus :: "(nat \<times> bytes option) list"
  added :: "((nat \<times> nat) \<times> nat) list"
  given :: "((nat \<times> nat) \<times> nat) list"

definition tx_path_init :: "tx_env \<Rightarrow> (nat \<Rightarrow> nat \<Rightarrow> u8) \<Rightarrow> (nat \<Rightarrow> xmit_req) \<Rightarrow> tx_path" where
  "tx_path_init env mem rs =
     \<lparr>rings = tx_rings_init,
      usb = phl_alloc_txbuf_pool_usb (te_buf_num env) (unat (tx_buf_size (te_cfg env)))
        (te_mgnt_buf_num env) (te_mgnt_buf_size env) (te_h2c_buf_num env) mem,
      reqs = rs, serving = False, on_bus = [], added = [], given = []\<rparr>"

text \<open>The requests in a ring, in the order in which they were added.\<close>

definition waiting :: "tx_rings \<Rightarrow> nat \<times> nat \<Rightarrow> nat list" where
  "waiting s k = (case ring_at s k of None \<Rightarrow> [] | Some r \<Rightarrow> free_ring_reqs r)"

definition all_waiting :: "tx_rings \<Rightarrow> nat list" where
  "all_waiting s = concat (map (waiting s) (ring_keys (t_ring_list s @ t_ring_free_list s)))"

text \<open>The requests given back with their rings, as entries of \<open>given\<close>.\<close>

definition give_back :: "((nat \<times> nat) \<times> nat list) list \<Rightarrow> ((nat \<times> nat) \<times> nat) list" where
  "give_back out = concat (map (\<lambda>e. map (Pair (fst e)) (snd e)) out)"

subsection \<open>Serving a ring\<close>

definition put_back_buf :: "nat \<Rightarrow> nat \<Rightarrow> usb_tx \<Rightarrow> usb_tx" where
  "put_back_buf cat b u =
     (if cat = RTW_PHL_RING_CAT_MGNT
      then u\<lparr>mgmt_txbuf_list := snd (enqueue_usb_buf (mgmt_txbuf_list u) (Some b) Tail)\<rparr>
      else u\<lparr>idle_txbuf_list := snd (enqueue_usb_buf (idle_txbuf_list u) (Some b) Tail)\<rparr>)"

text \<open>
  \<open>_phl_handle_xmit_ring_usb\<close> with the buffer \<open>b\<close> for the ring of the status \<open>x\<close>; \<open>sent\<close> is the
  answer of \<open>os_usb_tx\<close>. A status without a ring or with a ring of a list that is freed is a
  \<open>Fault\<close>.
\<close>

definition phl_handle_xmit_ring_usb :: "tx_env \<Rightarrow> bool \<Rightarrow> nat \<Rightarrow> nat \<Rightarrow> tx_path \<Rightarrow> tx_path outcome" where
  "phl_handle_xmit_ring_usb env sent x b p =
     (case rs_ring_ptr (ring_sts (rings p) x) of
        None \<Rightarrow> Fault
      | Some k \<Rightarrow>
          (case ring_at (rings p) k of
             None \<Rightarrow> Fault
           | Some r \<Rightarrow>
               (case fill_transfer (te_cfg env) (te_fill env) (ring_sts (rings p) x) r (reqs p)
                       (ub_buffer (u_buf (usb p) b)) of
                  Fault \<Rightarrow> Fault
                | Done y \<Rightarrow>
                    let buf = (if x_pstatus y = RTW_PHL_STATUS_SUCCESS \<and> x_type y = PKT_TYPE_DATA \<and> x_agg_cnt y > 1
                          then rtw_hal_usb_tx_agg_cfg (x_agg_cnt y) (x_buf y) else x_buf y);
                        u = (usb p)\<lparr>u_buf := (u_buf (usb p))(b := (u_buf (usb p) b)\<lparr>ub_buffer := buf\<rparr>)\<rparr>;
                        ok = (transfer_of y \<noteq> None \<and> sent)
                    in Done (p\<lparr>rings := phl_release_ring_sts x (put_ring k (x_ring y) (rings p)),
                               reqs := x_reqs y,
                               usb := (if ok then u else put_back_buf (tr_cat r) b u),
                               on_bus := (if ok then on_bus p @ [(b, transfer_of y)] else on_bus p),
                               given := given p @ map (Pair k)
                                 (filter (\<lambda>q. recycles (te_test_recycle env) (x_reqs y q)) (x_done y))\<rparr>))))"

subsection \<open>Events\<close>

text \<open>
  What the core promises of a request it adds (\<open>fill_txreq_mdata\<close> of \<^verbatim>\<open>core/rtw_xmit.c\<close>): its length
  is that of its parts, data frames go to the rings of the identifiers and the one for
  high-priority frames, others to the one for management frames; those fit into the smaller
  buffers.
\<close>

definition req_fits :: "tx_env \<Rightarrow> nat \<Rightarrow> xmit_req \<Rightarrow> bool" where
  "req_fits env cat q \<longleftrightarrow> req_ok q \<and> xr_treq_type q = TREQ_TYPE_NORMAL \<and>
     (if cat = RTW_PHL_RING_CAT_MGNT
      then xr_type q \<noteq> PKT_TYPE_DATA \<and> wdl q + 8 + length (payload q) \<le> te_mgnt_buf_size env
      else xr_type q = PKT_TYPE_DATA)"

datatype tx_event =
    T_register nat u16 u8 u8 u8 bool "nat \<Rightarrow> (nat \<Rightarrow> nat option) option"
  | T_deregister u16
  | T_re_register u16 u8 u8 u8
  | T_add nat xmit_req
  | T_callback bool
  | T_serve bool
  | T_return
  | T_complete nat
  | T_h2c nat bool

text \<open>
  \<open>None\<close>: the event cannot happen. The allocator gives an address that is not in use; the core
  adds a request that it owns. \<open>T_callback\<close> starts the handler, which skips the rings when the
  data path is paused or asleep; \<open>T_serve\<close> is a round of its loop over \<open>t_fctrl_result\<close> and
  \<open>T_return\<close> its end.
\<close>

fun tx_step :: "tx_env \<Rightarrow> tx_event \<Rightarrow> tx_path \<Rightarrow> tx_path outcome option" where
  "tx_step env (T_register a macid band wmm port alloc mem) p =
     (if tring (rings p) a = None
      then Some (Done (p\<lparr>rings := snd (phl_register_tx_ring a macid band wmm port alloc mem (rings p))\<rparr>))
      else None)"
| "tx_step env (T_deregister macid) p =
     Some (Done (p\<lparr>rings := snd (phl_deregister_tx_ring macid (rings p))\<rparr>))"
| "tx_step env (T_re_register macid band wmm port) p =
     Some (Done (p\<lparr>rings := snd (phl_re_register_tx_ring macid band wmm port (rings p))\<rparr>))"
| "tx_step env (T_add q R) p =
     (if q \<notin> set (all_waiting (rings p)) \<and> xr_cat R < MAX_PHL_RING_CAT_NUM \<and> req_fits env (xr_cat R) R
      then Some (Done (case rtw_phl_add_tx_req q (xr_macid R) (xr_cat R) (rings p) of
             (_, None, s) \<Rightarrow> p\<lparr>reqs := (reqs p)(q := R), rings := s\<rparr>
           | (_, Some k, s) \<Rightarrow> p\<lparr>reqs := (reqs p)(q := R), rings := s, added := added p @ [(k, q)]\<rparr>))
      else None)"
| "tx_step env (T_callback blocked) p =
     (if serving p then None
      else if blocked then Some (Done (p\<lparr>serving := True\<rparr>))
      else Some (Done (let (go, s1, sta_list) = phl_check_xmit_ring_resource (rings p)
             in p\<lparr>serving := True, rings := (if go then phl_tx_flow_ctrl sta_list s1 else s1)\<rparr>)))"
| "tx_step env (T_serve sent) p =
     (if \<not> serving p then None
      else (case t_fctrl_result (rings p) of
              [] \<Rightarrow> None
            | x # xs \<Rightarrow>
                (case phl_tx_flow_ctrl_usb x ((rings p)\<lparr>t_fctrl_result := xs\<rparr>, usb p) of
                   (None, s, u) \<Rightarrow> Some (Done (p\<lparr>rings := s, usb := u\<rparr>))
                 | (Some b, s, u) \<Rightarrow> Some (phl_handle_xmit_ring_usb env sent x b (p\<lparr>rings := s, usb := u\<rparr>)))))"
| "tx_step env T_return p =
     (if serving p \<and> t_fctrl_result (rings p) = []
      then (let (s, out) = phl_free_deferred_tx_ring (rings p)
            in Some (Done (p\<lparr>serving := False, rings := s,
                 given := given p @ give_back out\<rparr>)))
      else None)"
| "tx_step env (T_complete b) p =
     (if b \<in> set (map fst (on_bus p))
      then Some (Done (p\<lparr>on_bus := filter (\<lambda>e. fst e \<noteq> b) (on_bus p), usb := phl_tx_release_buf_usb b (usb p)\<rparr>))
      else None)"
| "tx_step env (T_h2c pkt sent) p =
     Some (Done (case phl_pltfm_tx_usb pkt sent (usb p) of
        (_, None, u) \<Rightarrow> p\<lparr>usb := u\<rparr>
      | (_, Some b, u) \<Rightarrow> p\<lparr>usb := u, on_bus := on_bus p @ [(b, None)]\<rparr>))"

inductive tx_reach :: "tx_env \<Rightarrow> tx_path \<Rightarrow> bool" for env where
  tx_reach_init: "tx_reach env (tx_path_init env mem rs)"
| tx_reach_step: "tx_reach env p \<Longrightarrow> tx_step env ev p = Some (Done p') \<Longrightarrow> tx_reach env p'"

fun tx_run :: "tx_env \<Rightarrow> tx_event list \<Rightarrow> tx_path \<Rightarrow> tx_path option" where
  "tx_run env [] p = Some p"
| "tx_run env (ev # evs) p =
     (case tx_step env ev p of Some (Done p') \<Rightarrow> tx_run env evs p' | _ \<Rightarrow> None)"

lemma tx_reach_run: "tx_run env evs p = Some p' \<Longrightarrow> tx_reach env p \<Longrightarrow> tx_reach env p'"
  by (induction evs arbitrary: p) (auto split: option.splits outcome.splits intro: tx_reach_step)

end
