(* ===== verification/TxPathInv.thy ===== *)
theory TxPathInv
  imports TxPath
begin

text \<open>
  The invariant of the transmit path and the events of the core. \<open>ring_has\<close> reads the indices of
  a ring as the list of the requests in it; \<open>tx_inv\<close> joins the rings, the statuses, the requests, the
  record of what was added and given back, and the buffers. Registration leaves the requests
  alone (\<open>same_rings\<close>), adding a request lengthens one ring (\<open>add_inv\<close>).
\<close>

subsection \<open>The requests in a ring\<close>

definition ring_has :: "tx_ring \<Rightarrow> nat list \<Rightarrow> bool" where
  "ring_has r ws \<longleftrightarrow> (\<exists>B. at_pos (tr_phl_idx r) B \<and> at_pos (tr_core_idx r) (B + length ws) \<and>
     length ws < RING_SIZE \<and> (\<forall>j < length ws. tr_entry r ((B + 1 + j) mod RING_SIZE) = Some (ws ! j)))"

lemma recycle_ring_all:
  assumes "at_pos i B" "at_pos c (B + length ws)" "length ws < RING_SIZE" "length ws < n"
    and "\<forall>j < length ws. ent ((B + 1 + j) mod RING_SIZE) = Some (ws ! j)"
  shows "recycle_ring n ent i c = ws"
  using assms
proof (induction ws arbitrary: n i B)
  case Nil
  then have "i = c" by (simp add: at_pos_def word_unat_eq_iff)
  then show ?case using Nil by (cases n) simp_all
next
  case (Cons w ws)
  obtain m where n: "n = Suc m" using Cons.prems(4) by (cases n) auto
  have "B mod RING_SIZE \<noteq> (B + length (w # ws)) mod RING_SIZE" using Cons.prems(3) by (intro pos_apart) simp_all
  then have ne: "i \<noteq> c" using Cons.prems(1,2) by (auto simp: at_pos_def)
  have nx: "at_pos (ring_next i) (B + 1)" using ring_next_pos [OF Cons.prems(1)] by simp
  have e: "ent (unat (ring_next i)) = Some w"
    using Cons.prems(5) [rule_format, of 0] nx by (simp add: at_pos_def)
  have "\<forall>j < length ws. ent ((B + 1 + 1 + j) mod RING_SIZE) = Some (ws ! j)"
  proof (intro allI impI)
    fix j
    assume "j < length ws"
    then show "ent ((B + 1 + 1 + j) mod RING_SIZE) = Some (ws ! j)"
      using Cons.prems(5) [rule_format, of "Suc j"] by simp
  qed
  then have "recycle_ring m ent (ring_next i) c = ws"
    using Cons.prems n nx by (intro Cons.IH [of _ "B + 1"]) simp_all
  then show ?case using n ne e by simp
qed

lemma ring_has_reqs: "ring_has r ws \<Longrightarrow> free_ring_reqs r = ws"
  unfolding ring_has_def free_ring_reqs_def tx_ring_size by (blast intro: recycle_ring_all)

lemma ring_has_waiting: "ring_has r ws \<Longrightarrow> ring_has r (free_ring_reqs r)"
  by (simp add: ring_has_reqs)

lemma ring_has_busy:
  "ring_has r ws \<Longrightarrow> unat (phl_calc_avail_rptr (tr_phl_idx r) (tr_core_idx r) RING_BNDY) = length ws"
  unfolding ring_has_def using avail_r_pos by fastforce

lemma ring_has_room:
  "ring_has r ws \<Longrightarrow> unat (phl_calc_avail_wptr (tr_phl_idx r) (tr_core_idx r) RING_BNDY) = RING_SIZE - 1 - length ws"
  unfolding ring_has_def using avail_w_pos by fastforce

lemma ring_has_empty: "tr_core_idx r = 0 \<Longrightarrow> tr_phl_idx r = 0 \<Longrightarrow> ring_has r []"
  by (auto simp: ring_has_def at_pos_def intro!: exI [of _ 0])

lemma ring_has_cong:
  "tr_phl_idx r' = tr_phl_idx r \<Longrightarrow> tr_core_idx r' = tr_core_idx r \<Longrightarrow> tr_entry r' = tr_entry r \<Longrightarrow>
   ring_has r' ws = ring_has r ws"
  by (simp add: ring_has_def)

lemma core_next_pos: "at_pos w n \<Longrightarrow> at_pos (core_next w) (Suc n)"
proof -
  assume a: "at_pos w n"
  have "(unat w + 1) mod RING_SIZE < 2 ^ 16" by (simp add: MAX_PHL_RX_RING_ENTRY_NUM_def)
  then have "unat (core_next w) = (unat w + 1) mod RING_SIZE"
    unfolding core_next_def tx_ring_size by (simp add: unat_of_nat take_bit_nat_eq_self)
  then show ?thesis using a by (simp add: at_pos_def mod_simps)
qed

lemma ring_has_add:
  assumes h: "ring_has r ws" and room: "phl_calc_avail_wptr (tr_phl_idx r) (tr_core_idx r) RING_BNDY > 0"
  shows "ring_has (r\<lparr>tr_core_idx := core_next (tr_core_idx r),
     tr_entry := (tr_entry r)(unat (core_next (tr_core_idx r)) \<mapsto> q)\<rparr>) (ws @ [q])"
proof -
  obtain B where B: "at_pos (tr_phl_idx r) B" "at_pos (tr_core_idx r) (B + length ws)" "length ws < RING_SIZE"
      "\<forall>j < length ws. tr_entry r ((B + 1 + j) mod RING_SIZE) = Some (ws ! j)"
    using h by (auto simp: ring_has_def)
  have less: "Suc (length ws) < RING_SIZE" using ring_has_room [OF h] room by (simp add: word_less_nat_alt)
  have c: "at_pos (core_next (tr_core_idx r)) (Suc (B + length ws))" by (rule core_next_pos [OF B(2)])
  then have u: "unat (core_next (tr_core_idx r)) = (B + 1 + length ws) mod RING_SIZE" by (simp add: at_pos_def)
  have "((tr_entry r)(unat (core_next (tr_core_idx r)) \<mapsto> q)) ((B + 1 + j) mod RING_SIZE) = Some ((ws @ [q]) ! j)"
    if "j < length (ws @ [q])" for j
  proof (cases "j = length ws")
    case True
    then show ?thesis using u by simp
  next
    case False
    then have "j < length ws" using that by simp
    moreover then have "(B + 1 + j) mod RING_SIZE \<noteq> (B + 1 + length ws) mod RING_SIZE"
      using B(3) by (intro pos_apart) simp_all
    ultimately show ?thesis using B(4) u by (simp add: nth_append)
  qed
  then show ?thesis unfolding ring_has_def using B(1) c less by (intro exI [of _ B]) simp
qed

lemma ring_next_funpow: "at_pos i B \<Longrightarrow> at_pos ((ring_next ^^ k) i) (B + k)"
  by (induction k) (auto dest: ring_next_pos)

lemma ring_has_advance:
  assumes h: "ring_has r ws" and k: "k \<le> length ws"
    and r': "tr_phl_idx r' = (ring_next ^^ k) (tr_phl_idx r)" "tr_core_idx r' = tr_core_idx r" "tr_entry r' = tr_entry r"
  shows "ring_has r' (drop k ws)"
proof -
  obtain B where B: "at_pos (tr_phl_idx r) B" "at_pos (tr_core_idx r) (B + length ws)" "length ws < RING_SIZE"
      "\<forall>j < length ws. tr_entry r ((B + 1 + j) mod RING_SIZE) = Some (ws ! j)"
    using h by (auto simp: ring_has_def)
  have "at_pos (tr_phl_idx r') (B + k)" using ring_next_funpow [OF B(1)] r'(1) by simp
  moreover have "at_pos (tr_core_idx r') (B + k + length (drop k ws))" using B(2) r'(2) k by simp
  moreover have "tr_entry r' ((B + k + 1 + j) mod RING_SIZE) = Some (drop k ws ! j)" if "j < length (drop k ws)" for j
    using B(4) [rule_format, of "k + j"] that k r'(3) by (simp add: add_ac)
  ultimately show ?thesis unfolding ring_has_def using B(3) by (intro exI [of _ "B + k"]) auto
qed

lemma ring_lists_at:
  "at_pos i B \<Longrightarrow> \<forall>j < length ws. ent ((B + j) mod RING_SIZE) = Some (ws ! j) \<Longrightarrow> ring_lists ent i ws"
proof (induction ws arbitrary: i B)
  case (Cons w ws)
  have "ent (unat i) = Some w" using Cons.prems(1) Cons.prems(2) [rule_format, of 0] by (simp add: at_pos_def)
  moreover have "\<forall>j < length ws. ent ((Suc B + j) mod RING_SIZE) = Some (ws ! j)"
    using Cons.prems(2) by auto
  ultimately show ?case using Cons.IH [OF ring_next_pos [OF Cons.prems(1)]] by simp
qed simp

lemma ring_lists_take: "ring_lists ent i ws \<Longrightarrow> ring_lists ent i (take n ws)"
  by (induction ws arbitrary: i n) (auto simp: take_Cons' )

lemma ring_has_lists: "ring_has r ws \<Longrightarrow> ring_lists (tr_entry r) (ring_next (tr_phl_idx r)) ws"
proof -
  assume "ring_has r ws"
  then obtain B where "at_pos (tr_phl_idx r) B" "\<forall>j < length ws. tr_entry r ((B + 1 + j) mod RING_SIZE) = Some (ws ! j)"
    by (auto simp: ring_has_def)
  then show ?thesis using ring_lists_at [OF ring_next_pos] by simp
qed

subsection \<open>The invariant\<close>

text \<open>
  The ring lists: all are registered or wait to be freed, and no other memory is held; the
  indices of every ring agree with the requests in it; the plans are those of an idle handler.
\<close>

definition rings_wf :: "tx_rings \<Rightarrow> bool" where
  "rings_wf s \<longleftrightarrow> distinct (t_ring_list s @ t_ring_free_list s) \<and>
     (\<forall>a. tring s a \<noteq> None \<longleftrightarrow> a \<in> set (t_ring_list s @ t_ring_free_list s)) \<and>
     (\<forall>a L. tring s a = Some L \<longrightarrow> tl_tx_plan L = init_tx_plan \<and>
        (\<forall>i < MAX_PHL_RING_CAT_NUM. tr_cat (tl_phl_ring L i) = i) \<and>
        (\<forall>i. ring_has (tl_phl_ring L i) (free_ring_reqs (tl_phl_ring L i))))"

text \<open>The statuses: each is idle or stands for a ring of its own, which has the requests it counts.\<close>

definition sts_ok :: "tx_rings \<Rightarrow> nat \<Rightarrow> bool" where
  "sts_ok s x \<longleftrightarrow> (\<exists>k r. rs_ring_ptr (ring_sts s x) = Some k \<and> snd k < MAX_PHL_RING_CAT_NUM \<and>
     ring_at s k = Some r \<and> tr_phl_next_idx r = ring_next (tr_phl_idx r) \<and>
     0 < unat (rs_req_busy (ring_sts s x)) \<and> unat (rs_req_busy (ring_sts s x)) \<le> length (waiting s k))"

definition sts_wf :: "tx_rings \<Rightarrow> bool" where
  "sts_wf s \<longleftrightarrow> mset (t_fctrl_result s @ sts_idle s) = mset [0..<MAX_PHL_RING_STATUS_NUMBER] \<and>
     distinct (map (\<lambda>x. rs_ring_ptr (ring_sts s x)) (t_fctrl_result s)) \<and>
     (\<forall>x \<in> set (t_fctrl_result s). sts_ok s x)"

text \<open>The requests: each waits in one place and keeps what the core promised.\<close>

definition reqs_wf :: "tx_env \<Rightarrow> tx_rings \<Rightarrow> (nat \<Rightarrow> xmit_req) \<Rightarrow> bool" where
  "reqs_wf env s R \<longleftrightarrow> (\<forall>k. distinct (waiting s k)) \<and>
     (\<forall>k k' q. q \<in> set (waiting s k) \<longrightarrow> q \<in> set (waiting s k') \<longrightarrow> k = k') \<and>
     (\<forall>k q. q \<in> set (waiting s k) \<longrightarrow> snd k < MAX_PHL_RING_CAT_NUM \<and> req_fits env (snd k) (R q))"

definition of_ring :: "nat \<times> nat \<Rightarrow> ((nat \<times> nat) \<times> nat) list \<Rightarrow> nat list" where
  "of_ring k l = map snd (filter (\<lambda>e. fst e = k) l)"

definition log_wf :: "tx_path \<Rightarrow> bool" where
  "log_wf p \<longleftrightarrow> (\<forall>k. of_ring k (added p) = of_ring k (given p) @ waiting (rings p) k)"

text \<open>The buffers: each is in the queue of its kind or on the bus.\<close>

definition buf_typed :: "tx_env \<Rightarrow> usb_tx \<Rightarrow> nat \<Rightarrow> bool" where
  "buf_typed env u b \<longleftrightarrow>
     (if b < te_buf_num env
      then ub_type (u_buf u b) = PKT_TYPE_DATA \<and> length (ub_buffer (u_buf u b)) = unat (tx_buf_size (te_cfg env))
      else if b < te_buf_num env + te_mgnt_buf_num env
      then ub_type (u_buf u b) = PKT_TYPE_MGNT \<and> length (ub_buffer (u_buf u b)) = te_mgnt_buf_size env
      else ub_type (u_buf u b) = PKT_TYPE_H2C)"

definition bufs_wf :: "tx_env \<Rightarrow> usb_tx \<Rightarrow> nat list \<Rightarrow> bool" where
  "bufs_wf env u bus \<longleftrightarrow>
     mset (pq_queue (idle_txbuf_list u) @ pq_queue (mgmt_txbuf_list u) @ pq_queue (h2c_txbuf_list u) @ bus) =
       mset [0..<te_buf_num env + te_mgnt_buf_num env + te_h2c_buf_num env] \<and>
     set (pq_queue (idle_txbuf_list u)) \<subseteq> {0..<te_buf_num env} \<and>
     set (pq_queue (mgmt_txbuf_list u)) \<subseteq> {te_buf_num env..<te_buf_num env + te_mgnt_buf_num env} \<and>
     set (pq_queue (h2c_txbuf_list u)) \<subseteq> {te_buf_num env + te_mgnt_buf_num env..} \<and>
     pq_wf (idle_txbuf_list u) \<and> pq_wf (mgmt_txbuf_list u) \<and> pq_wf (h2c_txbuf_list u) \<and>
     (\<forall>b. buf_typed env u b)"

definition env_ok :: "tx_env \<Rightarrow> bool" where
  "env_ok env \<longleftrightarrow> usb_ok (te_cfg env) \<and> fill_ok (te_fill env)"

definition tx_inv :: "tx_env \<Rightarrow> tx_path \<Rightarrow> bool" where
  "tx_inv env p \<longleftrightarrow> rings_wf (rings p) \<and> sts_wf (rings p) \<and> reqs_wf env (rings p) (reqs p) \<and> log_wf p \<and>
     bufs_wf env (usb p) (map fst (on_bus p)) \<and> (\<not> serving p \<longrightarrow> t_fctrl_result (rings p) = [])"

lemma of_ring_append [simp]: "of_ring k (xs @ ys) = of_ring k xs @ of_ring k ys"
  by (simp add: of_ring_def)

lemma of_ring_nil [simp]: "of_ring k [] = []"
  by (simp add: of_ring_def)

lemma of_ring_map: "of_ring k (map (Pair k') qs) = (if k' = k then qs else [])"
  by (induction qs) (auto simp: of_ring_def)

subsection \<open>Operations that leave the requests alone\<close>

lemma waiting_Some: "ring_at s k = Some r \<Longrightarrow> waiting s k = free_ring_reqs r"
  by (simp add: waiting_def)

lemma free_ring_reqs_cong:
  "tr_phl_idx r' = tr_phl_idx r \<Longrightarrow> tr_core_idx r' = tr_core_idx r \<Longrightarrow> tr_entry r' = tr_entry r \<Longrightarrow>
   free_ring_reqs r' = free_ring_reqs r"
  by (simp add: free_ring_reqs_def)

lemma ring_at_list: "tring s a = Some L \<Longrightarrow> ring_at s (a, i) = Some (tl_phl_ring L i)"
  by (simp add: ring_at_def)

lemma rings_wfD:
  assumes "rings_wf s" "ring_at s k = Some r"
  shows "ring_has r (waiting s k)" "snd k < MAX_PHL_RING_CAT_NUM \<Longrightarrow> tr_cat r = snd k"
  using assms by (auto simp: rings_wf_def ring_at_def waiting_def)

lemma reqs_wfD:
  assumes "reqs_wf env s R"
  shows "distinct (waiting s k)" "q \<in> set (waiting s k) \<Longrightarrow> q \<in> set (waiting s k') \<Longrightarrow> k = k'"
    and "q \<in> set (waiting s k) \<Longrightarrow> snd k < MAX_PHL_RING_CAT_NUM"
    and "q \<in> set (waiting s k) \<Longrightarrow> req_fits env (snd k) (R q)"
  using assms unfolding reqs_wf_def by blast+

text \<open>The same rings, with other queues of ring lists or other marks in the rings.\<close>

definition same_rings :: "tx_rings \<Rightarrow> tx_rings \<Rightarrow> bool" where
  "same_rings s s' \<longleftrightarrow> t_fctrl_result s' = t_fctrl_result s \<and> sts_idle s' = sts_idle s \<and> ring_sts s' = ring_sts s \<and>
     waiting s' = waiting s \<and>
     (\<forall>k r. ring_at s k = Some r \<longrightarrow> (\<exists>r'. ring_at s' k = Some r' \<and>
        tr_phl_idx r' = tr_phl_idx r \<and> tr_phl_next_idx r' = tr_phl_next_idx r))"

lemma sts_wf_same: "sts_wf s \<Longrightarrow> same_rings s s' \<Longrightarrow> sts_wf s'"
proof -
  assume w: "sts_wf s" and e: "same_rings s s'"
  have eq: "t_fctrl_result s' = t_fctrl_result s" "sts_idle s' = sts_idle s" "ring_sts s' = ring_sts s"
    "waiting s' = waiting s" using e by (simp_all add: same_rings_def)
  have "sts_ok s' x" if "x \<in> set (t_fctrl_result s)" for x
  proof -
    obtain k r where k: "rs_ring_ptr (ring_sts s x) = Some k" "snd k < MAX_PHL_RING_CAT_NUM"
        "ring_at s k = Some r" "tr_phl_next_idx r = ring_next (tr_phl_idx r)"
        "0 < unat (rs_req_busy (ring_sts s x))" "unat (rs_req_busy (ring_sts s x)) \<le> length (waiting s k)"
      using w \<open>x \<in> set (t_fctrl_result s)\<close> unfolding sts_wf_def sts_ok_def by blast
    moreover obtain r' where "ring_at s' k = Some r'" "tr_phl_idx r' = tr_phl_idx r" "tr_phl_next_idx r' = tr_phl_next_idx r"
      using e k(3) unfolding same_rings_def by blast
    ultimately show ?thesis by (auto simp: sts_ok_def eq)
  qed
  then show ?thesis using w by (simp add: sts_wf_def eq)
qed

lemma inv_same_rings:
  assumes "tx_inv env p" "rings_wf s'" "same_rings (rings p) s'"
  shows "tx_inv env (p\<lparr>rings := s'\<rparr>)"
  using assms sts_wf_same [of "rings p" s']
  by (simp add: tx_inv_def reqs_wf_def log_wf_def same_rings_def)

lemma register_same:
  fixes macid band wmm port alloc mem
  assumes w: "rings_wf s" and a: "tring s a = None"
  defines "s' \<equiv> snd (phl_register_tx_ring a macid band wmm port alloc mem s)"
  shows "rings_wf s' \<and> same_rings s s'"
proof (cases "phl_allocate_phl_tring_list macid band wmm port alloc mem")
  case None
  then show ?thesis using w by (simp add: s'_def phl_register_tx_ring_def same_rings_def)
next
  case (Some L)
  have s': "s' = s\<lparr>tring := (tring s)(a \<mapsto> L), t_ring_list := t_ring_list s @ [a]\<rparr>"
    by (simp add: s'_def phl_register_tx_ring_def Some)
  have L: "tl_tx_plan L = init_tx_plan" "tr_cat (tl_phl_ring L i) = i" "ring_has (tl_phl_ring L i) []" for i
    using Some by (auto simp: phl_allocate_phl_tring_list_def ring_has_empty split: if_splits)
  have fresh: "a \<notin> set (t_ring_list s)" "a \<notin> set (t_ring_free_list s)"
    using w a unfolding rings_wf_def set_append by blast+
  have free: "free_ring_reqs (tl_phl_ring L i) = []" for i using L(3) by (rule ring_has_reqs)
  have "waiting s' k = waiting s k" for k
    using a free by (cases k) (simp add: waiting_def ring_at_def s')
  then have "same_rings s s'" using a by (auto simp: same_rings_def s' ring_at_def)
  moreover have "rings_wf s'"
    using w L fresh free a by (auto simp: rings_wf_def s')
  ultimately show ?thesis by simp
qed

lemma find_macid: "find (has_macid s macid) as = Some a \<Longrightarrow> a \<in> set as \<and> (\<exists>L. tring s a = Some L)"
  by (auto simp: find_Some_iff has_macid_def split: option.splits)

lemma deregister_same:
  fixes macid
  assumes w: "rings_wf s"
  defines "s' \<equiv> snd (phl_deregister_tx_ring macid s)"
  shows "rings_wf s' \<and> same_rings s s'"
proof (cases "find (has_macid s macid) (t_ring_list s)")
  case None
  then show ?thesis using w by (simp add: s'_def phl_deregister_tx_ring_def same_rings_def)
next
  case (Some a)
  then have a: "a \<in> set (t_ring_list s)" using find_macid by blast
  have s': "s' = s\<lparr>t_ring_list := remove1 a (t_ring_list s), t_ring_free_list := t_ring_free_list s @ [a]\<rparr>"
    by (simp add: s'_def phl_deregister_tx_ring_def Some)
  have at: "ring_at s' = ring_at s" by (rule ext) (simp add: ring_at_def s')
  then have "waiting s' = waiting s" by (intro ext) (simp add: waiting_def)
  then have "same_rings s s'" using at by (simp add: same_rings_def s')
  moreover have "rings_wf s'" using w a by (auto simp: rings_wf_def s' distinct_remove1)
  ultimately show ?thesis by simp
qed

lemma re_register_same:
  fixes macid band wmm port
  assumes w: "rings_wf s"
  defines "s' \<equiv> snd (phl_re_register_tx_ring macid band wmm port s)"
  shows "rings_wf s' \<and> same_rings s s'"
proof (cases "find (has_macid s macid) (t_ring_list s)")
  case None
  then show ?thesis using w by (simp add: s'_def phl_re_register_tx_ring_def same_rings_def)
next
  case (Some a)
  then obtain L where L: "tring s a = Some L" using find_macid by blast
  let ?f = "\<lambda>i. if i < MAX_PHL_RING_CAT_NUM
     then (tl_phl_ring L i)\<lparr>tr_cat := i, tr_dma_ch := rtw_hal_tx_chnl_mapping i band\<rparr> else tl_phl_ring L i"
  let ?L = "L\<lparr>tl_band := band, tl_wmm := wmm, tl_port := port, tl_phl_ring := ?f\<rparr>"
  have s': "s' = s\<lparr>tring := (tring s)(a \<mapsto> ?L)\<rparr>"
    by (simp add: s'_def phl_re_register_tx_ring_def Some L)
  have f: "tr_phl_idx (?f i) = tr_phl_idx (tl_phl_ring L i)" "tr_core_idx (?f i) = tr_core_idx (tl_phl_ring L i)"
    "tr_entry (?f i) = tr_entry (tl_phl_ring L i)" "tr_phl_next_idx (?f i) = tr_phl_next_idx (tl_phl_ring L i)" for i
    by simp_all
  have free: "free_ring_reqs (?f i) = free_ring_reqs (tl_phl_ring L i)" for i
    by (rule free_ring_reqs_cong [OF f(1-3)])
  have at: "ring_at s' k = (if fst k = a then Some (?f (snd k)) else ring_at s k)" for k
    by (simp add: ring_at_def s')
  have "waiting s' k = waiting s k" for k
  proof (cases "fst k = a")
    case True
    then have "ring_at s k = Some (tl_phl_ring L (snd k))" using L by (simp add: ring_at_def)
    then show ?thesis using free [of "snd k"] True by (simp only: waiting_def at refl if_True option.case)
  qed (simp add: waiting_def at)
  then have "same_rings s s'" using at L by (auto simp: same_rings_def s' ring_at_def)
  moreover have "rings_wf s'"
  proof -
    have "ring_has (?f i) (free_ring_reqs (?f i))" for i
      unfolding free using ring_has_cong [OF f(1-3)] w L by (simp add: rings_wf_def)
    moreover have "tl_tx_plan L = init_tx_plan" using w L by (simp add: rings_wf_def)
    ultimately show ?thesis using w L unfolding rings_wf_def s' by auto
  qed
  ultimately show ?thesis by simp
qed

subsection \<open>One ring changes\<close>

lemma put_ring_rest [simp]:
  "t_ring_list (put_ring k r s) = t_ring_list s" "t_ring_free_list (put_ring k r s) = t_ring_free_list s"
  "ring_sts (put_ring k r s) = ring_sts s" "sts_idle (put_ring k r s) = sts_idle s"
  "t_fctrl_result (put_ring k r s) = t_fctrl_result s"
  by (simp_all add: put_ring_def)

lemma ring_at_put:
  "ring_at s k = Some r0 \<Longrightarrow> ring_at (put_ring k r s) k' = (if k' = k then Some r else ring_at s k')"
  by (cases k; cases k') (auto simp: ring_at_def put_ring_def)

lemma waiting_put:
  "ring_at s k = Some r0 \<Longrightarrow> waiting (put_ring k r s) k' = (if k' = k then free_ring_reqs r else waiting s k')"
  by (simp add: waiting_def ring_at_put)

lemma rings_wf_put:
  assumes w: "rings_wf s" and k: "ring_at s k = Some r0" and r: "ring_has r ws" "tr_cat r = tr_cat r0"
  shows "rings_wf (put_ring k r s)"
proof -
  obtain L where L: "tring s (fst k) = Some L" "r0 = tl_phl_ring L (snd k)" using k by (auto simp: ring_at_def)
  let ?L = "L\<lparr>tl_phl_ring := (tl_phl_ring L)(snd k := r)\<rparr>"
  have p: "tring (put_ring k r s) = (tring s)(fst k \<mapsto> ?L)" by (simp add: put_ring_def L)
  have "tl_tx_plan L = init_tx_plan" "\<forall>i < MAX_PHL_RING_CAT_NUM. tr_cat (tl_phl_ring L i) = i"
    "\<forall>i. ring_has (tl_phl_ring L i) (free_ring_reqs (tl_phl_ring L i))" using w L(1) by (simp_all add: rings_wf_def)
  then have "tl_tx_plan ?L = init_tx_plan" "\<forall>i < MAX_PHL_RING_CAT_NUM. tr_cat (tl_phl_ring ?L i) = i"
    "\<forall>i. ring_has (tl_phl_ring ?L i) (free_ring_reqs (tl_phl_ring ?L i))"
    using r L(2) ring_has_waiting by auto
  moreover have "tring s a \<noteq> None \<longleftrightarrow> (tring (put_ring k r s)) a \<noteq> None" for a using L(1) by (simp add: p)
  ultimately show ?thesis using w unfolding rings_wf_def put_ring_rest by (auto simp: p)
qed

lemma waiting_all:
  assumes "rings_wf s" "reqs_wf env s R" "q \<notin> set (all_waiting s)"
  shows "q \<notin> set (waiting s k)"
proof
  assume q: "q \<in> set (waiting s k)"
  then have "snd k < MAX_PHL_RING_CAT_NUM" using assms(2) unfolding reqs_wf_def by blast
  moreover have "tring s (fst k) \<noteq> None" using q by (cases "tring s (fst k)") (simp_all add: waiting_def ring_at_def)
  then have "fst k \<in> set (t_ring_list s @ t_ring_free_list s)" using assms(1) by (simp add: rings_wf_def)
  ultimately have "k \<in> set (ring_keys (t_ring_list s @ t_ring_free_list s))" by (simp add: set_ring_keys)
  then show False using q assms(3) by (auto simp: all_waiting_def)
qed

text \<open>The request is not taken, or it becomes the newest of one ring.\<close>

lemma add_cases:
  obtains st where "rtw_phl_add_tx_req q macid cat s = (st, None, s)"
  | a r where "ring_at s (a, cat) = Some r" "phl_calc_avail_wptr (tr_phl_idx r) (tr_core_idx r) RING_BNDY > 0"
      "rtw_phl_add_tx_req q macid cat s = (RTW_PHL_STATUS_SUCCESS, Some (a, cat),
         (put_ring (a, cat) (r\<lparr>tr_core_idx := core_next (tr_core_idx r),
            tr_entry := (tr_entry r)(unat (core_next (tr_core_idx r)) \<mapsto> q)\<rparr>) s)\<lparr>phl_sw_tx_more := True\<rparr>)"
proof (cases "find (has_macid s macid) (t_ring_list s)")
  case None
  then show thesis using that(1) by (simp add: rtw_phl_add_tx_req_def phl_select_tx_ring_def)
next
  case (Some a)
  show thesis
  proof (cases "ring_at s (a, cat)")
    case None
    then show thesis using that(1) Some by (simp add: rtw_phl_add_tx_req_def phl_select_tx_ring_def)
  next
    case r: (Some r)
    show thesis
    proof (cases "phl_calc_avail_wptr (tr_phl_idx r) (tr_core_idx r) RING_BNDY > 0")
      case True
      then show thesis using that(2) Some r by (simp add: rtw_phl_add_tx_req_def phl_select_tx_ring_def Let_def)
    next
      case False
      then show thesis using that(1) Some r by (simp add: rtw_phl_add_tx_req_def phl_select_tx_ring_def)
    qed
  qed
qed

lemma add_inv:
  assumes inv: "tx_inv env p" and new: "q \<notin> set (all_waiting (rings p))"
    and cat: "xr_cat R < MAX_PHL_RING_CAT_NUM" and fits: "req_fits env (xr_cat R) R"
  shows "tx_inv env (case rtw_phl_add_tx_req q (xr_macid R) (xr_cat R) (rings p) of
      (_, None, s) \<Rightarrow> p\<lparr>reqs := (reqs p)(q := R), rings := s\<rparr>
    | (_, Some k, s) \<Rightarrow> p\<lparr>reqs := (reqs p)(q := R), rings := s, added := added p @ [(k, q)]\<rparr>)"
proof -
  let ?s = "rings p"
  have w: "rings_wf ?s" and st: "sts_wf ?s" and rq: "reqs_wf env ?s (reqs p)" and lg: "log_wf p"
    and bf: "bufs_wf env (usb p) (map fst (on_bus p))" and sv: "\<not> serving p \<longrightarrow> t_fctrl_result ?s = []"
    using inv by (simp_all add: tx_inv_def)
  have nq: "q \<notin> set (waiting ?s k)" for k by (rule waiting_all [OF w rq new])
  have rq': "reqs_wf env ?s ((reqs p)(q := R))" using rq nq unfolding reqs_wf_def fun_upd_def by metis
  show ?thesis
  proof (cases rule: add_cases [of q "xr_macid R" "xr_cat R" ?s])
    case (1 st)
    then show ?thesis using w st rq' lg bf sv by (auto simp: tx_inv_def log_wf_def)
  next
    case (2 a r)
    let ?k = "(a, xr_cat R)"
    let ?r = "r\<lparr>tr_core_idx := core_next (tr_core_idx r), tr_entry := (tr_entry r)(unat (core_next (tr_core_idx r)) \<mapsto> q)\<rparr>"
    let ?s' = "(put_ring ?k ?r ?s)\<lparr>phl_sw_tx_more := True\<rparr>"
    have has: "ring_has ?r (waiting ?s ?k @ [q])" using ring_has_add [OF rings_wfD(1) [OF w 2(1)] 2(2)] .
    have at: "ring_at ?s' k = (if k = ?k then Some ?r else ring_at ?s k)" for k
      using ring_at_put [OF 2(1), of ?r k] by (simp add: ring_at_def)
    then have wt: "waiting ?s' k = (if k = ?k then waiting ?s ?k @ [q] else waiting ?s k)" for k
      using ring_has_reqs [OF has] by (simp add: waiting_def)
    have "rings_wf ?s'" using rings_wf_put [OF w 2(1) has] by (simp add: rings_wf_def)
    moreover have "sts_ok ?s' x" if ok: "sts_ok ?s x" for x
    proof -
      obtain k r0 where k: "rs_ring_ptr (ring_sts ?s x) = Some k" "snd k < MAX_PHL_RING_CAT_NUM"
          "ring_at ?s k = Some r0" "tr_phl_next_idx r0 = ring_next (tr_phl_idx r0)"
          "0 < unat (rs_req_busy (ring_sts ?s x))" "unat (rs_req_busy (ring_sts ?s x)) \<le> length (waiting ?s k)"
        using ok unfolding sts_ok_def by blast
      have "length (waiting ?s k) \<le> length (waiting ?s' k)" by (simp add: wt)
      then have "unat (rs_req_busy (ring_sts ?s x)) \<le> length (waiting ?s' k)" using k(6) by linarith
      then show ?thesis
        unfolding sts_ok_def using k 2(1) by (intro exI [of _ k] exI [of _ "if k = ?k then ?r else r0"]) (auto simp: at)
    qed
    then have "sts_wf ?s'" using st by (simp add: sts_wf_def)
    moreover have "reqs_wf env ?s' ((reqs p)(q := R))"
      using rq' nq fits cat unfolding reqs_wf_def wt by (auto split: if_splits)
    moreover have "log_wf (p\<lparr>reqs := (reqs p)(q := R), rings := ?s', added := added p @ [(?k, q)]\<rparr>)"
      using lg by (auto simp: log_wf_def wt of_ring_def)
    ultimately show ?thesis using 2(3) bf sv by (simp add: tx_inv_def)
  qed
qed

subsection \<open>The start of a round\<close>

lemma ready_rings:
  "rings_wf s \<Longrightarrow> sts_wf s \<Longrightarrow> rings_ready s"
proof -
  assume w: "rings_wf s" "sts_wf s"
  then have "distinct (t_fctrl_result s @ sts_idle s)"
    by (metis distinct_upt mset_eq_imp_distinct_iff sts_wf_def)
  then show ?thesis using w(1) by (simp add: rings_ready_def rings_wf_def)
qed

lemma started_rings:
  assumes w: "rings_wf s"
  shows "rings_wf (round_started s)" and "waiting (round_started s) = waiting s"
    and "ring_at (round_started s) k = map_option (checked_ring s (all_rings s) k) (ring_at s k)"
proof -
  have t: "tring (round_started s) a = map_option (\<lambda>L. L\<lparr>tl_phl_ring := (\<lambda>i. checked_ring s (all_rings s) (a, i) (tl_phl_ring L i))\<rparr>) (tring s a)" for a
    by (simp add: round_started_def)
  show at: "ring_at (round_started s) k = map_option (checked_ring s (all_rings s) k) (ring_at s k)" for k
    by (simp add: ring_at_def t option.map_comp comp_def)
  have c: "tr_phl_idx (checked_ring s ks k r) = tr_phl_idx r" "tr_core_idx (checked_ring s ks k r) = tr_core_idx r"
    "tr_entry (checked_ring s ks k r) = tr_entry r" "tr_cat (checked_ring s ks k r) = tr_cat r" for ks k r
    by (simp_all add: checked_ring_def)
  have f: "free_ring_reqs (checked_ring s ks k r) = free_ring_reqs r" for ks k r by (rule free_ring_reqs_cong [OF c(1-3)])
  show "waiting (round_started s) = waiting s"
    by (rule ext) (simp add: waiting_def at f option.case_eq_if option.map_sel)
  have "ring_has (checked_ring s ks k r) ws = ring_has r ws" for ks k r ws by (rule ring_has_cong [OF c(1-3)])
  moreover have "t_ring_list (round_started s) = t_ring_list s" "t_ring_free_list (round_started s) = t_ring_free_list s"
    by (simp_all add: round_started_def after_check_def)
  ultimately show "rings_wf (round_started s)"
    using w by (simp add: rings_wf_def t c f) (auto simp: c f)
qed

end
