(* ===== verification/TxFlow.thy ===== *)
theory TxFlow
  imports TxRingProps
begin

text \<open>
  The order in which the transmit handler serves the rings: what \<open>phl_check_xmit_ring_resource\<close>
  and \<open>phl_tx_flow_ctrl\<close> leave in \<open>t_fctrl_result\<close>, as a statement about the state before.
\<close>

subsection \<open>The order of service\<close>

lemma distinct_group_by:
  assumes "distinct xs"
  shows "distinct (group_by f xs)"
proof -
  have "distinct (concat (map (\<lambda>t. filter (\<lambda>x. f x = t) xs) ts))" if "distinct ts" for ts
    using that assms by (induction ts) auto
  then show ?thesis by (simp add: group_by_def)
qed

lemma set_flow_order: "set (flow_order s (t_ring_list s)) = set (served s (all_rings s))"
proof -
  have "set (flow_order s (t_ring_list s)) = (\<Union>a \<in> set (t_ring_list s). set (urgent s a) \<union> set (by_priority s a))"
    by (auto simp: flow_order_def)
  also have "\<dots> = (\<Union>a \<in> set (t_ring_list s). set (station_rings s (all_rings s) a))"
    unfolding station_rings_split urgent_def set_append set_filter by auto
  also have "\<dots> = set (served s (all_rings s))"
  proof -
    have "k \<in> set (map (Pair (fst k)) tid_order)" "fst k \<in> set (t_ring_list s)" if "k \<in> set (served s (all_rings s))" for k
    proof -
      have k: "fst k \<in> set (t_ring_list s)" "snd k < 10"
        using that served_subset [of s "all_rings s"] set_ring_keys [of k] by (auto simp: MAX_PHL_RING_CAT_NUM_def)
      moreover have "snd k \<in> set tid_order"
        using k(2) unfolding tid_order_def list.set insert_iff empty_iff by presburger
      ultimately show "k \<in> set (map (Pair (fst k)) tid_order)" "fst k \<in> set (t_ring_list s)"
        by (cases k; auto)+
    qed
    then show ?thesis by (auto simp: station_rings_def)
  qed
  finally show ?thesis .
qed

lemma distinct_flow_order:
  assumes "distinct (t_ring_list s)"
  shows "distinct (flow_order s (t_ring_list s))"
proof -
  let ?as = "t_ring_list s"
  have d: "distinct (concat (map (urgent s) (rev ?as)) @ concat (map (by_priority s) ?as))"
    using assms by (rule distinct_flow_parts)
  then have "distinct (group_by snd (concat (map (by_priority s) ?as)))" by (intro distinct_group_by) auto
  then show ?thesis using d by (auto simp: flow_order_def)
qed

lemma map_sts_served:
  assumes "distinct ks"
  shows "map (sts_of s ks) (served s ks) = take (length (served s ks)) (sts_idle s)"
  using length_served [of s ks] sts_of_nth [OF _ assms] by (intro nth_equalityI) auto

text \<open>The statuses in use are taken off the front of the pool.\<close>

lemma flow_order_sts:
  assumes "distinct (t_ring_list s)"
  shows "mset (map (sts_of s (all_rings s)) (flow_order s (t_ring_list s))) =
     mset (take (length (served s (all_rings s))) (sts_idle s))"
proof -
  have dk: "distinct (all_rings s)" using assms by (rule distinct_ring_keys)
  have "mset (flow_order s (t_ring_list s)) = mset (served s (all_rings s))"
    using distinct_flow_order [OF assms] distinct_served [OF dk] set_flow_order by (metis set_eq_iff_mset_eq_distinct)
  then have "mset (map (sts_of s (all_rings s)) (flow_order s (t_ring_list s))) =
      mset (map (sts_of s (all_rings s)) (served s (all_rings s)))" by (metis mset_map)
  then show ?thesis by (simp only: map_sts_served [OF dk])
qed

lemma round_started_status:
  assumes "rings_ready s" "distinct (t_ring_list s)" "k \<in> set (flow_order s (t_ring_list s))"
  shows "ring_sts (round_started s) (sts_of s (all_rings s) k) = new_sts s k"
proof -
  have "k \<in> set (served s (all_rings s))" using assms(3) set_flow_order by blast
  from sts_lookup [OF this distinct_ring_keys [OF assms(2)]] assms(1) show ?thesis
    by (simp add: round_started_def after_check_def rings_ready_def)
qed

lemma new_sts_served:
  assumes "rings_ready s" "k \<in> set (served s (all_rings s))"
  shows "rs_ring_ptr (new_sts s k) = Some k" "rs_req_busy (new_sts s k) = ring_busy s k"
proof -
  have "\<forall>k \<in> set (all_rings s). snd k < MAX_PHL_RING_CAT_NUM" by (simp add: set_ring_keys)
  from served_ring [OF assms this] obtain L where "tring s (fst k) = Some L" by blast
  then show "rs_ring_ptr (new_sts s k) = Some k" "rs_req_busy (new_sts s k) = ring_busy s k"
    by (simp_all add: new_sts_def)
qed

lemma firsts_distinct: "distinct xs \<Longrightarrow> firsts xs = xs"
  by (simp add: firsts_def distinct_remdups_id)

lemma group_by_distinct: "distinct (map f xs) \<Longrightarrow> group_by f xs = xs"
proof -
  assume d: "distinct (map f xs)"
  have "filter (\<lambda>y. f y = f x) xs = [x]" if "x \<in> set xs" for x
    using d that by (induction xs) (auto simp: filter_empty_conv image_iff)
  then have e: "map ((\<lambda>t. filter (\<lambda>x. f x = t) xs) \<circ> f) xs = map (\<lambda>x. [x]) xs" by simp
  have "group_by f xs = concat (map (\<lambda>x. [x]) xs)" unfolding group_by_def firsts_distinct [OF d] map_map e ..
  then show ?thesis by simp
qed

text \<open>With one station, what is served is in the order of priority.\<close>

lemma flow_order_single: "flow_order s [a] = urgent s a @ by_priority s a"
proof -
  have "distinct (map snd (by_priority s a))"
    unfolding by_priority_def by (rule distinct_map_filter) (simp add: comp_def)
  then show ?thesis by (simp add: flow_order_def group_by_distinct)
qed

text \<open>
  C20. The check of the rings followed by the flow control: when no ring with requests gets a
  status nothing is to be done; otherwise \<open>t_fctrl_result\<close> holds one status for every ring with
  requests for which the pool has one, in this order: from the last station to the first its
  management and high-priority frames; then the traffic identifiers in the order in which they
  are met when the stations are gone through one by one, each by priority 7, 6, 5, 4, 3, 0, 2, 1,
  with the rings of one identifier together and in the order of the stations. With one station
  this is the order of priority; with several, an identifier that only a later station has
  stands behind lower ones of an earlier station. Every status names its ring and the number of
  requests in it, no status is lost, and the plans of the stations are reset. The rings have
  to be well formed, the stations distinct and no result left from an earlier round.
\<close>

theorem flow_control_order:
  assumes r: "rings_ready s" and d: "distinct (t_ring_list s)" and f: "t_fctrl_result s = []"
    and al: "\<forall>a \<in> set (t_ring_list s). tring s a \<noteq> None"
    and c: "phl_check_xmit_ring_resource s = (go, s1, sta)" and s2: "phl_tx_flow_ctrl sta s1 = s2"
  shows "(go \<longleftrightarrow> t_fctrl_result s2 \<noteq> []) \<and>
    map (\<lambda>x. rs_ring_ptr (ring_sts s2 x)) (t_fctrl_result s2) = map Some (flow_order s (t_ring_list s)) \<and>
    map (\<lambda>x. rs_req_busy (ring_sts s2 x)) (t_fctrl_result s2) = map (ring_busy s) (flow_order s (t_ring_list s)) \<and>
    mset (t_fctrl_result s2 @ sts_idle s2) = mset (sts_idle s) \<and> rings_ready s2 \<and>
    (\<forall>a. t_ring_list s = [a] \<longrightarrow> flow_order s (t_ring_list s) = urgent s a @ by_priority s a)"
proof -
  let ?fo = "flow_order s (t_ring_list s)" and ?st = "sts_of s (all_rings s)"
  note R = round_starts [OF r d f al c]
  have s2': "s2 = round_started s" using R(1) s2 by simp
  have res: "t_fctrl_result s2 = map ?st ?fo" "sts_idle s2 = drop (length (served s (all_rings s))) (sts_idle s)"
    by (simp_all add: s2' round_started_def after_check_def)
  have st: "rs_ring_ptr (ring_sts s2 (?st k)) = Some k" "rs_req_busy (ring_sts s2 (?st k)) = ring_busy s k"
    if "k \<in> set ?fo" for k
    using round_started_status [OF r d that] new_sts_served [OF r] that by (simp_all add: s2' set_flow_order)
  have "mset (t_fctrl_result s2 @ sts_idle s2) =
      mset (take (length (served s (all_rings s))) (sts_idle s) @ drop (length (served s (all_rings s))) (sts_idle s))"
    unfolding res mset_append flow_order_sts [OF d] ..
  moreover have "rings_ready s2"
    using r by (auto simp: rings_ready_def s2' round_started_def after_check_def checked_ring_def)
  moreover have "\<forall>a. t_ring_list s = [a] \<longrightarrow> ?fo = urgent s a @ by_priority s a" using flow_order_single by auto
  ultimately show ?thesis using R(2) st by (simp add: res(1))
qed

definition ex_tring :: tring_list where
  "ex_tring = \<lparr>tl_macid = 3, tl_band = 0, tl_wmm = 0, tl_port = 1,
     tl_phl_ring = (\<lambda>i. \<lparr>tr_cat = i, tr_dma_ch = 0, tr_core_idx = (if i \<in> {2, 5, 8} then of_nat i else 0),
        tr_phl_idx = 0, tr_phl_next_idx = 0, tr_entry = (\<lambda>_. Some 7)\<rparr>),
     tl_tx_plan = init_tx_plan\<rparr>"

definition ex_rings :: tx_rings where
  "ex_rings = tx_rings_init\<lparr>tring := [0 \<mapsto> ex_tring], t_ring_list := [0], sts_idle := [11, 12, 13, 14]\<rparr>"

lemma ex_busy: "i < 10 \<Longrightarrow> ring_busy ex_rings (0, i) = (if i \<in> {2, 5, 8} then of_nat i else 0)"
  by (auto simp: ring_busy_def ring_at_def ex_rings_def ex_tring_def phl_calc_avail_rptr_def Let_def)

lemma ex_served: "served ex_rings (all_rings ex_rings) = [(0, 2), (0, 5), (0, 8)]"
proof -
  have "all_rings ex_rings = map (Pair 0) [0..<10]" by (simp add: ring_keys_def ex_rings_def MAX_PHL_RING_CAT_NUM_def)
  moreover have "filter (\<lambda>k. ring_busy ex_rings k \<noteq> 0) (map (Pair 0) [0..<10]) =
      map (Pair 0) (filter (\<lambda>i. i \<in> {2, 5, 8}) [0..<10])"
    unfolding filter_map comp_def by (intro arg_cong [where f = "map (Pair 0)"] filter_cong) (auto simp: ex_busy)
  moreover have "length (sts_idle ex_rings) = 4" by (simp add: ex_rings_def)
  ultimately show ?thesis by (simp add: served_def upt_rec)
qed

lemma flow_control_order_witness:
  "\<exists>s1 sta. phl_check_xmit_ring_resource ex_rings = (True, s1, sta) \<and>
     map (\<lambda>x. rs_ring_ptr (ring_sts (phl_tx_flow_ctrl sta s1) x)) (t_fctrl_result (phl_tx_flow_ctrl sta s1)) =
       [Some (0, 8), Some (0, 5), Some (0, 2)]"
proof -
  obtain go s1 sta where c: "phl_check_xmit_ring_resource ex_rings = (go, s1, sta)"
    by (cases "phl_check_xmit_ring_resource ex_rings")
  have "rings_ready ex_rings" by (simp add: rings_ready_def ex_rings_def ex_tring_def)
  moreover have "distinct (t_ring_list ex_rings)" "t_fctrl_result ex_rings = []"
    "\<forall>a \<in> set (t_ring_list ex_rings). tring ex_rings a \<noteq> None"
    by (simp_all add: ex_rings_def tx_rings_init_def)
  moreover have "flow_order ex_rings (t_ring_list ex_rings) = [(0, 8), (0, 5), (0, 2)]"
    unfolding flow_order_def urgent_def by_priority_def ex_served
    by (simp add: ex_rings_def cat_defs group_by_def firsts_def)
  ultimately show ?thesis
    using flow_control_order [of ex_rings go s1 sta "phl_tx_flow_ctrl sta s1", OF _ _ _ _ c refl] c by auto
qed

text \<open>
  Two stations: the first has background frames (1), the second voice frames (7), which are
  served behind them.
\<close>

definition one_ring :: "nat \<Rightarrow> tring_list" where
  "one_ring c = ex_tring\<lparr>tl_phl_ring := (\<lambda>i. \<lparr>tr_cat = i, tr_dma_ch = 0, tr_core_idx = (if i = c then 2 else 0),
        tr_phl_idx = 0, tr_phl_next_idx = 0, tr_entry = (\<lambda>_. Some 7)\<rparr>)\<rparr>"

definition two_stations :: tx_rings where
  "two_stations = tx_rings_init\<lparr>tring := [0 \<mapsto> one_ring 1, 1 \<mapsto> one_ring 7], t_ring_list := [0, 1], sts_idle := [11, 12, 13, 14]\<rparr>"

lemma later_station_behind: "flow_order two_stations (t_ring_list two_stations) = [(0, 1), (1, 7)]"
proof -
  have b: "ring_busy two_stations (0, i) = (if i = 1 then 2 else 0)" "ring_busy two_stations (1, i) = (if i = 7 then 2 else 0)" for i
    by (auto simp: ring_busy_def ring_at_def two_stations_def one_ring_def phl_calc_avail_rptr_def Let_def)
  have "all_rings two_stations = map (Pair 0) [0..<10] @ map (Pair 1) [0..<10]"
    by (simp add: ring_keys_def two_stations_def MAX_PHL_RING_CAT_NUM_def)
  moreover have "length (sts_idle two_stations) = 4" by (simp add: two_stations_def)
  ultimately have "served two_stations (all_rings two_stations) = [(0, 1), (1, 7)]"
    by (simp add: served_def upt_rec b b [unfolded One_nat_def])
  then show ?thesis
    unfolding flow_order_def urgent_def by_priority_def
    by (simp add: two_stations_def cat_defs group_by_def firsts_def)
qed

end
