(* ===== verification/UsbTxProps.thy ===== *)
theory UsbTxProps
  imports UsbTxLayout
begin

text \<open>
  The bytes of a USB transfer and their number. The first part reads the packets off the transfer.
  The second relates the prediction of \<open>_usb_tx_agg_preprocess\<close> to the loop that fills the
  buffer: the last request the prediction names is the last one copied, so the eight extra bytes
  are put into that one, and the length of the transfer is never a multiple of the bulk size.
\<close>

subsection \<open>What goes over the bus\<close>

lemma agg_cfg_take: "5 < n \<Longrightarrow> take n (rtw_hal_usb_tx_agg_cfg c bs) = rtw_hal_usb_tx_agg_cfg c (take n bs)"
  by (auto simp: rtw_hal_usb_tx_agg_cfg_def take_update_swap)

lemma agg_cfg_drop: "5 < n \<Longrightarrow> drop n (rtw_hal_usb_tx_agg_cfg c bs) = drop n bs"
  by (simp add: rtw_hal_usb_tx_agg_cfg_def)

lemma agg_cfg_count:
  assumes "5 < length bs" "unat c < 128"
  shows "(rtw_hal_usb_tx_agg_cfg c bs ! 5) AND 0x7f = c"
proof -
  have m: "(0x7f :: u8) = mask 7" by (simp add: mask_eq_exp_minus_1)
  have "take_bit 7 (unat c) = unat c" using assms(2) by (simp add: take_bit_nat_eq_self)
  moreover have "bit c i \<Longrightarrow> bit (unat c) i" for i by (simp add: bit_unsigned_iff)
  ultimately have "bit c i \<Longrightarrow> i < 7" for i by (metis bit_take_bit_iff)
  then show ?thesis
    unfolding rtw_hal_usb_tx_agg_cfg_def m using assms(1)
    by (auto intro!: bit_word_eqI simp: bit_simps)
qed

lemma plen_32: "req_ok q \<Longrightarrow> 32 \<le> plen q"
  using wdl_cases [of q] by (auto simp: plen_def)

lemma extent_ge:
  assumes "j < length ls"
  shows "base (take j ls) + ls ! j \<le> extent ls"
proof (cases "Suc j = length ls")
  case True
  then have "ls \<noteq> []" by auto
  have "take j ls = butlast ls" using True by (simp add: butlast_conv_take flip: True)
  moreover have "ls ! j = last ls" using True \<open>ls \<noteq> []\<close> by (simp add: last_conv_nth flip: True)
  ultimately show ?thesis using \<open>ls \<noteq> []\<close> by (simp add: extent_def last0_def)
next
  case False
  then have j: "Suc j < length ls" using assms by simp
  have "base (take j ls) + ls ! j \<le> base (take (Suc j) ls)"
    using assms align8_ge(1) by (simp add: take_Suc_conv_app_nth)
  also have "take (Suc j) ls = take (Suc j) (butlast ls)" using j by (simp add: take_butlast)
  also have "base \<dots> \<le> base (butlast ls)" by (rule base_take_le)
  finally show ?thesis by (simp add: extent_def)
qed

text \<open>The packet \<open>j\<close> of a transfer lies in \<open>data\<close>; the first descriptor carries the number of packets.\<close>

definition holds_packet :: "(xmit_req \<Rightarrow> bytes option) \<Rightarrow> xmit_req list \<Rightarrow> bytes \<Rightarrow> nat \<Rightarrow> bool" where
  "holds_packet fill qs data j \<longleftrightarrow>
     (\<exists>p. is_packet fill (qs ! j) p \<and>
        take (plen (qs ! j)) (drop (base (map plen (take j qs))) data) =
          (if j = 0 \<and> length qs > 1 then rtw_hal_usb_tx_agg_cfg (of_nat (length qs)) p else p))"

lemma transfer_packets:
  assumes t: "transfer_of x = Some data" and k: "taken_from cfg fill x0 as k x" and u: "usb_ok cfg"
    and ok: "\<forall>q \<in> set (done_reqs x). req_ok q" and ne: "done_reqs x \<noteq> []"
  shows "length data = extent (map plen (done_reqs x))" "length data \<le> length (x_buf x)"
    and "\<And>j. j < length (done_reqs x) \<Longrightarrow> holds_packet fill (done_reqs x) data j"
    and "length (done_reqs x) > 1 \<Longrightarrow> (data ! 5) AND 0x7f = of_nat (length (done_reqs x))"
proof -
  let ?qs = "done_reqs x" and ?ls = "map plen (done_reqs x)"
  have s: "x_pstatus x = RTW_PHL_STATUS_SUCCESS" using t by (auto simp: transfer_of_def split: if_splits)
  note D = taken_fromD [OF k]
  have lay: "packets_at fill ?qs (x_buf x)" "unat (x_tx_len x) = extent ?ls" "extent ?ls \<le> length (x_buf x)"
    "unat (x_agg_cnt x) = length ?qs" using D(6) s by (simp_all add: done_reqs_def)
  have n127: "length ?qs \<le> 127" using D(5) u by (simp add: done_reqs_def usb_ok_def)
  have agg: "x_agg_cnt x = of_nat (length ?qs)" by (simp only: lay(4) [symmetric]) simp
  have big: "x_agg_cnt x > 1 \<longleftrightarrow> length ?qs > 1" using lay(4) by (simp add: word_less_nat_alt)
  let ?buf = "if length ?qs > 1 then rtw_hal_usb_tx_agg_cfg (of_nat (length ?qs)) (x_buf x) else x_buf x"
  have data: "data = take (extent ?ls) ?buf"
  proof (cases "length ?qs > 1")
    case True
    then have "x_type x = PKT_TYPE_DATA" using D(4) by (simp add: done_reqs_def)
    then show ?thesis using t s big agg lay(2) True by (simp add: transfer_of_def)
  next
    case False
    then show ?thesis using t s big lay(2) by (simp add: transfer_of_def)
  qed
  have lb: "length ?buf = length (x_buf x)" by (simp add: rtw_hal_usb_tx_agg_cfg_def)
  show ld: "length data = extent ?ls" "length data \<le> length (x_buf x)" using data lb lay(3) by simp_all
  have p32: "32 \<le> plen (?qs ! j)" if "j < length ?qs" for j using ok that plen_32 by simp
  have e32: "32 \<le> extent ?ls"
    using extent_ge [of 0 ?ls] p32 [of 0] ne by simp
  show "holds_packet fill ?qs data j" if j: "j < length ?qs" for j
  proof -
    let ?o = "base (map plen (take j ?qs))" and ?n = "plen (?qs ! j)"
    let ?p = "take ?n (drop ?o (x_buf x))"
    have pk: "is_packet fill (?qs ! j) ?p" using lay(1) j by (simp add: packets_at_def)
    have "?o + ?n \<le> extent ?ls" using extent_ge [of j ?ls] j by (simp add: take_map)
    then have "take ?n (drop ?o data) = take ?n (drop ?o ?buf)"
      unfolding data by (simp add: drop_take min_absorb1)
    also have "\<dots> = (if j = 0 \<and> length ?qs > 1 then rtw_hal_usb_tx_agg_cfg (of_nat (length ?qs)) ?p else ?p)"
    proof (cases "length ?qs > 1")
      case True
      show ?thesis
      proof (cases "j = 0")
        case True
        then show ?thesis using agg_cfg_take [of ?n] p32 [OF j] by (simp add: base_def)
      next
        case False
        have "plen (?qs ! 0) \<le> align8 (plen (?qs ! 0))" by (rule align8_ge)
        moreover have "align8 (plen (?qs ! 0)) \<le> ?o"
          using False j by (cases ?qs; cases j) (auto simp: base_def)
        ultimately have "5 < ?o" using p32 [of 0] ne by simp
        then show ?thesis using False True by (simp add: agg_cfg_drop)
      qed
    qed simp
    finally show ?thesis using pk unfolding holds_packet_def by blast
  qed
  show "(data ! 5) AND 0x7f = of_nat (length ?qs)" if "length ?qs > 1"
  proof -
    have "5 < length (x_buf x)" using e32 lay(3) by simp
    moreover have "unat (of_nat (length ?qs) :: u8) < 128"
      using n127 by (simp add: unat_of_nat take_bit_nat_eq_self)
    ultimately have "(rtw_hal_usb_tx_agg_cfg (of_nat (length ?qs)) (x_buf x) ! 5) AND 0x7f = of_nat (length ?qs)"
      by (rule agg_cfg_count)
    then show ?thesis unfolding data using that e32 by simp
  qed
qed

lemma taken_reqs_ok:
  assumes k: "taken_from cfg fill (xmit_start sts r reqs buf) as k x" and ok: "\<forall>a \<in> set as. req_ok (reqs a)"
  shows "\<forall>q \<in> set (done_reqs x). req_ok q" "done_reqs x = map (x_reqs x) (take k as)"
proof -
  note D = taken_fromD [OF k]
  show d: "done_reqs x = map (x_reqs x) (take k as)" using D(2) by (simp add: done_reqs_def xmit_start_def)
  have "req_ok (x_reqs x a)" if "a \<in> set as" for a
    using ok that same_req_ok [OF D(8) [of a]] by (simp add: xmit_start_def)
  then show "\<forall>q \<in> set (done_reqs x). req_ok q" unfolding d by (auto dest: in_set_takeD)
qed

subsection \<open>An example\<close>

definition ex_cfg :: usb_cfg where
  "ex_cfg = \<lparr>tx_buf_size = 1024, bulk_size = 512, max_bulkout_wd_num = 8, max_dma_txagg_msk = 127\<rparr>"

definition ex_fill :: "xmit_req \<Rightarrow> bytes option" where
  "ex_fill q = Some (replicate (wdl q) 0)"

definition ex_req :: xmit_req where
  "ex_req = \<lparr>xr_treq_type = TREQ_TYPE_NORMAL, xr_type = PKT_TYPE_DATA, xr_macid = 0, xr_cat = 0, xr_band = 0,
     xr_wmm = 0, xr_hal_port = 0, xr_dma_ch = 0, xr_pktlen = 0, xr_wp_offset = 0, xr_wdinfo_en = True,
     xr_usb_pkt_ofst = 0, xr_total_len = 3, xr_pkt_list = [Some [1, 2], None, Some [3]]\<rparr>"

definition ex_sts :: phl_ring_status where
  "ex_sts = \<lparr>rs_band = 0, rs_wmm = 0, rs_port = 0, rs_req_busy = 2, rs_ring_ptr = Some (0, 0)\<rparr>"

definition ex_ring :: tx_ring where
  "ex_ring = \<lparr>tr_cat = 0, tr_dma_ch = 0, tr_core_idx = 2, tr_phl_idx = 0, tr_phl_next_idx = 1,
     tr_entry = [1 \<mapsto> 7, 2 \<mapsto> 9]\<rparr>"

lemma ex_batch: "batch_ok ex_cfg ex_fill ex_sts ex_ring (\<lambda>_. ex_req) (replicate 1024 0) [7, 9]"
proof -
  have "ring_next 1 = 2" by (simp add: ring_next_def Let_def RING_BNDY_def MAX_PHL_RX_RING_ENTRY_NUM_def)
  moreover have "fill_ok ex_fill" by (simp add: fill_ok_def ex_fill_def)
  moreover have "usb_ok ex_cfg" by (simp add: usb_ok_def ex_cfg_def)
  moreover have "req_ok ex_req" by (simp add: req_ok_def ex_req_def payload_def)
  ultimately show ?thesis
    by (simp add: batch_ok_def ex_sts_def ex_ring_def) (simp add: ex_cfg_def ex_req_def)
qed

subsection \<open>The layout of a transfer\<close>

text \<open>
  C10. Filling a transfer never writes outside the buffer. It takes a prefix of the requests, at most
  as many as the chip allows; when a transfer results, it is exactly as long as the packets with
  their padding and no longer than the buffer, the packets lie in it in order, each at a multiple
  of eight and each as descriptor, gap and payload, and with more than one packet the first
  descriptor carries their number.
\<close>

theorem usb_transfer_layout:
  assumes b: "batch_ok cfg fill sts r reqs buf as"
  shows "\<exists>x k. fill_transfer cfg fill sts r reqs buf = Done x \<and>
     k \<le> length as \<and> x_done x = take k as \<and> k \<le> unat (max_dma_txagg_msk cfg) \<and>
     (\<forall>data. transfer_of x = Some data \<longrightarrow> k > 0 \<and>
        length data = extent (map plen (done_reqs x)) \<and> length data \<le> length buf \<and>
        (\<forall>j < k. holds_packet fill (done_reqs x) data j) \<and>
        (k > 1 \<longrightarrow> (data ! 5) AND 0x7f = of_nat k))"
proof -
  obtain x k where f: "fill_transfer cfg fill sts r reqs buf = Done x"
      and k: "taken_from cfg fill (xmit_start sts r reqs buf) as k x"
    using fill_transfer_taken [OF b] by blast
  note D = taken_fromD [OF k]
  have u: "usb_ok cfg" and ok: "\<forall>a \<in> set as. req_ok (reqs a)"
    using b by (simp_all add: batch_ok_def)
  note R = taken_reqs_ok [OF k ok]
  have d: "x_done x = take k as" using D(2) by (simp add: xmit_start_def)
  have len: "length (done_reqs x) = k" using R(2) D(1) by simp
  have km: "k \<le> unat (max_dma_txagg_msk cfg)" using D(5) d D(1) by simp
  have "k > 0 \<and> length data = extent (map plen (done_reqs x)) \<and> length data \<le> length buf \<and>
       (\<forall>j < k. holds_packet fill (done_reqs x) data j) \<and> (k > 1 \<longrightarrow> (data ! 5) AND 0x7f = of_nat k)"
    if t: "transfer_of x = Some data" for data
  proof -
    have k0: "k > 0"
    proof (rule ccontr)
      assume "\<not> k > 0"
      then have "x_pstatus x = RTW_PHL_STATUS_FAILURE" using D(7) by (simp add: xmit_start_def)
      then show False using t by (simp add: transfer_of_def)
    qed
    then have "done_reqs x \<noteq> []" using len by auto
    from transfer_packets [OF t k u R(1) this] show ?thesis
      using k0 len D(3) by (simp add: xmit_start_def)
  qed
  then show ?thesis using f d D(1) km by blast
qed

lemma usb_transfer_layout_witness:
  "\<exists>x k. fill_transfer ex_cfg ex_fill ex_sts ex_ring (\<lambda>_. ex_req) (replicate 1024 0) = Done x \<and>
     k \<le> 2 \<and> x_done x = take k [7, 9] \<and>
     (\<forall>data. transfer_of x = Some data \<longrightarrow> length data \<le> 1024 \<and> (k > 1 \<longrightarrow> (data ! 5) AND 0x7f = of_nat k))"
proof -
  obtain x k where "fill_transfer ex_cfg ex_fill ex_sts ex_ring (\<lambda>_. ex_req) (replicate 1024 0) = Done x"
      "k \<le> length [7 :: nat, 9]" "x_done x = take k [7, 9]"
      "\<forall>data. transfer_of x = Some data \<longrightarrow> length data \<le> length (replicate 1024 (0 :: u8)) \<and>
         (k > 1 \<longrightarrow> (data ! 5) AND 0x7f = of_nat k)"
    using usb_transfer_layout [OF ex_batch] by blast
  then show ?thesis by (intro exI [of _ x] exI [of _ k]) (simp add: numeral_2_eq_2)
qed

subsection \<open>No transfer ends with a full bulk packet\<close>

lemma unat_ring_next: "unat i < RING_SIZE \<Longrightarrow> unat (ring_next i) = (unat i + 1) mod RING_SIZE"
  using ring_next_pos [of i "unat i"] by (simp add: at_pos_def)

lemma ring_lists_nth:
  "ring_lists ent i as \<Longrightarrow> unat i < RING_SIZE \<Longrightarrow> j < length as \<Longrightarrow>
   ent ((unat i + j) mod RING_SIZE) = Some (as ! j)"
proof (induction as arbitrary: i j)
  case (Cons a as)
  show ?case
  proof (cases j)
    case 0
    then show ?thesis using Cons.prems by simp
  next
    case (Suc j')
    have u: "unat (ring_next i) = (unat i + 1) mod RING_SIZE" using Cons.prems(2) by (rule unat_ring_next)
    then have "ent ((unat (ring_next i) + j') mod RING_SIZE) = Some (as ! j')"
      using Cons.prems Suc by (intro Cons.IH) simp_all
    then show ?thesis using u Suc by (simp add: mod_simps)
  qed
qed simp

definition pre_final :: "usb_cfg \<Rightarrow> u16 \<Rightarrow> agg_pre \<Rightarrow> u32 \<times> bool" where
  "pre_final cfg n_req p =
     (if p_last_idx p = IDX_NONE \<and> p_tx_len p \<noteq> 0 \<and> p_cnt p \<le> n_req
       then ucast (p_cnt p) - 1 else p_last_idx p,
      p_tx_len p \<noteq> 0 \<and> p_tx_len p mod bulk_size cfg = 0)"

definition pre_accepts :: "usb_cfg \<Rightarrow> nat \<Rightarrow> xmit_req \<Rightarrow> bool" where
  "pre_accepts cfg tx q \<longleftrightarrow> fits cfg tx (wdl q + length (payload q)) \<and> \<not> bulk_end cfg tx (wdl q)"

text \<open>The state after a request has been accepted.\<close>

definition pre_next :: "usb_cfg \<Rightarrow> xmit_req \<Rightarrow> agg_pre \<Rightarrow> agg_pre" where
  "pre_next cfg q p =
     (let tx = p_tx_len p + (ALIGN8 (p_packet_len p) - p_packet_len p) + (mac_txdesc_len q + xr_total_len q);
          t = next_trasc cfg (p_trasc_agg_cnt p) (p_trasc_idx p) tx
      in p\<lparr>p_tx_len := tx, p_packet_len := mac_txdesc_len q + xr_total_len q,
           p_trasc_agg_cnt := fst t, p_trasc_idx := snd t\<rparr>)"

definition pre_limit :: "usb_cfg \<Rightarrow> xmit_req \<Rightarrow> agg_pre \<Rightarrow> bool" where
  "pre_limit cfg q p \<longleftrightarrow> limit_hit cfg (p_trasc_agg_cnt p) (p_trasc_idx p) (p_tx_len (pre_next cfg q p)) (unat (p_cnt p) + 1)"

definition pre_sane :: "usb_cfg \<Rightarrow> agg_pre \<Rightarrow> bool" where
  "pre_sane cfg p \<longleftrightarrow> usb_ok cfg \<and> unat (p_tx_len p) \<le> 1048576 \<and> unat (p_packet_len p) \<le> unat (p_tx_len p) \<and>
     align8 (unat (p_tx_len p)) = unat (p_tx_len p) + (align8 (unat (p_packet_len p)) - unat (p_packet_len p))"

lemma pre_step:
  assumes s: "pre_sane cfg p" and q: "req_ok q"
    and g: "get ((unat rptr + unat (p_cnt p)) mod MAX_PHL_TX_RING_ENTRY_NUM) = Some q"
  shows "usb_tx_agg_loop (Suc n) cfg get rptr p =
     (if pre_accepts cfg (unat (p_tx_len p)) q
      then if pre_limit cfg q p then (pre_next cfg q p)\<lparr>p_last_idx := ucast (p_cnt p)\<rparr>
           else let p2 = (pre_next cfg q p)\<lparr>p_cnt := p_cnt p + 1\<rparr> in
             if xr_type q \<noteq> PKT_TYPE_DATA then p2 else usb_tx_agg_loop n cfg get rptr p2
      else stop_before p)"
    and "pre_accepts cfg (unat (p_tx_len p)) q \<Longrightarrow>
       unat (p_tx_len (pre_next cfg q p)) = align8 (unat (p_tx_len p)) + wdl q + length (payload q) \<and>
       unat (p_packet_len (pre_next cfg q p)) = wdl q + length (payload q) \<and>
       align8 (unat (p_tx_len p)) + wdl q + length (payload q) \<le> unat (tx_buf_size cfg)"
proof -
  let ?tx = "unat (p_tx_len p)" and ?L = "wdl q + length (payload q)"
  have u: "usb_ok cfg" "?tx \<le> 1048576" "unat (p_packet_len p) \<le> ?tx"
    and al: "align8 ?tx = ?tx + (align8 (unat (p_packet_len p)) - unat (p_packet_len p))"
    using s by (simp_all add: pre_sane_def)
  have wd: "wdl q = 32 \<or> wdl q = 56" using q by (rule wdl_cases)
  have tl: "unat (xr_total_len q) = length (payload q)" "length (payload q) < 65536" using q by (simp_all add: req_ok_def)
  have ul: "unat (mac_txdesc_len q + xr_total_len q) = ?L"
    using wd tl by (subst unat_plus) (auto simp: wdl_def)
  have up: "unat (ALIGN8 (p_packet_len p)) = align8 (unat (p_packet_len p))"
    using u by (intro unat_ALIGN8) simp
  have pw: "unat (p_packet_len p) \<le> align8 (unat (p_packet_len p))" by (rule align8_ge)
  have pad: "unat (ALIGN8 (p_packet_len p) - p_packet_len p) = align8 (unat (p_packet_len p)) - unat (p_packet_len p)"
    using up pw by (subst unat_sub) (simp_all add: word_le_nat_alt)
  have f: "ALIGN8 (mac_txdesc_len q + xr_total_len q) + p_tx_len p > tx_buf_size cfg - PKT_OFFSET_DUMMY \<longleftrightarrow>
      \<not> fits cfg ?tx ?L"
    using fits_word [OF u(1), of "p_tx_len p" "mac_txdesc_len q + xr_total_len q"] u(2) ul tl(2) wd by auto
  have "unat (mac_txdesc_len q) \<le> 100" using wd by (auto simp: wdl_def)
  then have bw: "(p_tx_len p + mac_txdesc_len q + (ALIGN8 (p_packet_len p) - p_packet_len p)) mod bulk_size cfg = 0 \<longleftrightarrow>
      bulk_end cfg ?tx (wdl q)"
    using bulk_end_word [of "p_tx_len p" "p_packet_len p" "mac_txdesc_len q" cfg] u al
    by (simp add: wdl_def add_diff_eq)
  show "usb_tx_agg_loop (Suc n) cfg get rptr p =
     (if pre_accepts cfg ?tx q
      then if pre_limit cfg q p then (pre_next cfg q p)\<lparr>p_last_idx := ucast (p_cnt p)\<rparr>
           else let p2 = (pre_next cfg q p)\<lparr>p_cnt := p_cnt p + 1\<rparr> in
             if xr_type q \<noteq> PKT_TYPE_DATA then p2 else usb_tx_agg_loop n cfg get rptr p2
      else stop_before p)"
    using f bw
    by (simp add: usb_tx_agg_loop.simps(2) g Let_def pre_accepts_def pre_limit_def pre_next_def limit_hit_def next_trasc_def)
  assume a: "pre_accepts cfg ?tx q"
  have b: "align8 ?tx + align8 ?L \<le> unat (tx_buf_size cfg) - 8"
    using fits_bound [OF u(1)] a by (simp add: pre_accepts_def)
  have L: "?L \<le> align8 ?L" by (rule align8_ge)
  have S: "unat (tx_buf_size cfg) \<le> 1048576" using u(1) by (simp add: usb_ok_def)
  have "unat (p_tx_len p + (ALIGN8 (p_packet_len p) - p_packet_len p)) = align8 ?tx"
    using pad al u(2) align8_ge(2) [of ?tx] by (subst unat_plus) simp_all
  then have "unat (p_tx_len p + (ALIGN8 (p_packet_len p) - p_packet_len p) + (mac_txdesc_len q + xr_total_len q)) = align8 ?tx + ?L"
    using ul b L S by (subst unat_plus) simp_all
  then show "unat (p_tx_len (pre_next cfg q p)) = align8 ?tx + wdl q + length (payload q) \<and>
       unat (p_packet_len (pre_next cfg q p)) = wdl q + length (payload q) \<and>
       align8 ?tx + wdl q + length (payload q) \<le> unat (tx_buf_size cfg)"
    using ul b L by (simp add: pre_next_def Let_def)
qed

lemma pre_next_sane:
  assumes s: "pre_sane cfg p" and q: "req_ok q" and a: "pre_accepts cfg (unat (p_tx_len p)) q"
  shows "pre_sane cfg ((pre_next cfg q p)\<lparr>p_cnt := c\<rparr>)"
proof -
  have n: "unat (p_tx_len (pre_next cfg q p)) = align8 (unat (p_tx_len p)) + wdl q + length (payload q)"
    "unat (p_packet_len (pre_next cfg q p)) = wdl q + length (payload q)"
    "align8 (unat (p_tx_len p)) + wdl q + length (payload q) \<le> unat (tx_buf_size cfg)"
    using pre_step(2) [where get = "\<lambda>_. Some q", OF s q _ a] by simp_all
  have u: "usb_ok cfg" using s by (simp add: pre_sane_def)
  then have "unat (tx_buf_size cfg) \<le> 1048576" by (simp add: usb_ok_def)
  moreover have "align8 (align8 (unat (p_tx_len p)) + (wdl q + length (payload q))) =
      align8 (unat (p_tx_len p)) + align8 (wdl q + length (payload q))" by (simp add: align8_mult)
  moreover have "wdl q + length (payload q) \<le> align8 (wdl q + length (payload q))" by (rule align8_ge)
  ultimately show ?thesis using n u by (simp add: pre_sane_def add.assoc)
qed

lemma unat_ucast32 [simp]: "unat (ucast (c :: u16) :: u32) = unat c"
  using unat_bound [of c] by (simp only: unsigned_ucast_eq) (simp add: take_bit_nat_eq_self)

lemma unat_Suc16: "unat c + 1 < 2 ^ 16 \<Longrightarrow> unat (c + 1 :: u16) = unat c + 1"
  by (simp add: unat_word_ariths(1))

lemma ucast_minus_1: "unat c + 1 < 2 ^ 16 \<Longrightarrow> (ucast (c + 1 :: u16) :: u32) - 1 = of_nat (unat c)"
proof -
  assume a: "unat c + 1 < 2 ^ 16"
  have "unat ((ucast (c + 1) :: u32) - 1) = unat c"
    using unat_Suc16 [OF a] by (subst unat_sub) (simp_all add: word_le_nat_alt)
  then have "unat ((ucast (c + 1) :: u32) - 1) = unat (of_nat (unat c) :: u32)"
    using a by (simp only: unat_of_nat) (simp add: take_bit_nat_eq_self)
  then show ?thesis by (simp only: word_unat_eq_iff)
qed

lemma not_IDX_NONE: "n < 2 ^ 16 \<Longrightarrow> (of_nat n :: u32) \<noteq> IDX_NONE"
proof
  assume a: "n < 2 ^ 16" and e: "(of_nat n :: u32) = IDX_NONE"
  have "unat (of_nat n :: u32) = n" using a by (simp add: unat_of_nat take_bit_nat_eq_self)
  then show False using a unfolding e by (simp add: IDX_NONE_def)
qed

text \<open>Where the loop ends when the request \<open>cnt\<close> is the last one it pre_accepts.\<close>

definition ends_after :: "usb_cfg \<Rightarrow> u16 \<Rightarrow> xmit_req list \<Rightarrow> xmit_req \<Rightarrow> agg_pre \<Rightarrow> bool" where
  "ends_after cfg n_req qs q p \<longleftrightarrow> pre_limit cfg q p \<or> xr_type q \<noteq> PKT_TYPE_DATA \<or> qs = [] \<or>
     \<not> pre_accepts cfg (unat (p_tx_len (pre_next cfg q p))) (hd qs)"

lemma agg_ends:
  assumes s: "pre_sane cfg p" and none: "p_last_idx p = IDX_NONE" and c: "unat (p_cnt p) + 1 < 2 ^ 16"
    and q: "req_ok q" "\<forall>q \<in> set qs. req_ok q"
    and g: "\<forall>j < length (q # qs). get ((unat rptr + (unat (p_cnt p) + j)) mod MAX_PHL_TX_RING_ENTRY_NUM) = Some ((q # qs) ! j)"
    and n: "unat (p_cnt p) + length (q # qs) = unat n_req"
    and a: "pre_accepts cfg (unat (p_tx_len p)) q" and e: "ends_after cfg n_req qs q p"
  shows "pre_final cfg n_req (usb_tx_agg_loop (length (q # qs)) cfg get rptr p) =
     (of_nat (unat (p_cnt p)), p_tx_len (pre_next cfg q p) mod bulk_size cfg = 0)"
proof -
  let ?p1 = "pre_next cfg q p"
  have g0: "get ((unat rptr + unat (p_cnt p)) mod MAX_PHL_TX_RING_ENTRY_NUM) = Some q" using g by force
  note st = pre_step(1) [where get = get and rptr = rptr and n = "length qs", OF s q(1) g0]
    pre_step(2) [where get = get and rptr = rptr, OF s q(1) g0]
  have tx: "unat (p_tx_len ?p1) \<ge> 32" using st(2) [OF a] wdl_cases [OF q(1)] by auto
  then have tz: "p_tx_len ?p1 \<noteq> 0" by auto
  have uc: "(ucast (p_cnt p) :: u32) = of_nat (unat (p_cnt p))"
    by (simp add: word_unat_eq_iff unat_of_nat take_bit_nat_eq_self order_less_trans [OF unat_bound])
  have nn: "(of_nat (unat (p_cnt p)) :: u32) \<noteq> IDX_NONE" using c by (intro not_IDX_NONE) simp
  have le: "p_cnt p + 1 \<le> n_req" using c n unat_Suc16 [OF c] by (simp add: word_le_nat_alt)
  have last1: "p_last_idx ?p1 = IDX_NONE" "p_cnt ?p1 = p_cnt p" using none by (simp_all add: pre_next_def Let_def)
  show ?thesis
  proof (cases "pre_limit cfg q p")
    case True
    have "(ucast (p_cnt p) :: u32) \<noteq> IDX_NONE" using nn by (simp only: uc not_False_eq_True)
    then show ?thesis using True st(1) a tz by (simp add: pre_final_def)
  next
    case nl: False
    let ?p2 = "?p1\<lparr>p_cnt := p_cnt p + 1\<rparr>"
    have f2: "pre_final cfg n_req ?p2 = (of_nat (unat (p_cnt p)), p_tx_len ?p1 mod bulk_size cfg = 0)"
  proof -
      have pc: "p_cnt ?p2 = p_cnt p + 1" "p_tx_len ?p2 = p_tx_len ?p1" "p_last_idx ?p2 = IDX_NONE"
        using last1 by simp_all
      show ?thesis unfolding pre_final_def pc ucast_minus_1 [OF c] using tz le by (simp only: simp_thms if_True)
    qed
    show ?thesis
    proof (cases "xr_type q \<noteq> PKT_TYPE_DATA \<or> qs = []")
      case True
      then show ?thesis using st(1) a nl f2 by (auto simp: Let_def)
    next
      case False
      then obtain q2 qs2 where qs: "qs = q2 # qs2" by (cases qs) auto
      have rej: "\<not> pre_accepts cfg (unat (p_tx_len ?p2)) q2" using e nl False qs by (simp add: ends_after_def)
      have "unat (p_cnt ?p2) = unat (p_cnt p) + 1" using unat_Suc16 [OF c] by simp
      then have g2: "get ((unat rptr + unat (p_cnt ?p2)) mod MAX_PHL_TX_RING_ENTRY_NUM) = Some q2"
        using g [rule_format, of 1] qs by simp
      have "usb_tx_agg_loop (Suc (length qs2)) cfg get rptr ?p2 = stop_before ?p2"
        using pre_step(1) [where get = get and rptr = rptr and n = "length qs2", OF pre_next_sane [OF s q(1) a] _ g2] rej q(2) qs by simp
      moreover have "p_cnt p + 1 \<noteq> 0" using unat_Suc16 [OF c] by auto
      ultimately have "pre_final cfg n_req (usb_tx_agg_loop (length qs) cfg get rptr ?p2) =
          (of_nat (unat (p_cnt p)), p_tx_len ?p1 mod bulk_size cfg = 0)"
        using qs tz ucast_minus_1 [OF c] nn by (simp add: stop_before_def pre_final_def)
      then show ?thesis using st(1) a nl False by (simp add: Let_def)
    qed
  qed
qed

lemma agg_goes_on:
  assumes s: "pre_sane cfg p" and q: "req_ok q"
    and g: "\<forall>j < length (q # qs). get ((unat rptr + (unat (p_cnt p) + j)) mod MAX_PHL_TX_RING_ENTRY_NUM) = Some ((q # qs) ! j)"
    and a: "pre_accepts cfg (unat (p_tx_len p)) q" and e: "\<not> ends_after cfg n_req qs q p"
  shows "usb_tx_agg_loop (length (q # qs)) cfg get rptr p =
     usb_tx_agg_loop (length qs) cfg get rptr ((pre_next cfg q p)\<lparr>p_cnt := p_cnt p + 1\<rparr>)"
proof -
  have g0: "get ((unat rptr + unat (p_cnt p)) mod MAX_PHL_TX_RING_ENTRY_NUM) = Some q" using g by force
  show ?thesis using pre_step(1) [where get = get and rptr = rptr and n = "length qs", OF s q g0] a e by (simp add: ends_after_def Let_def)
qed

text \<open>The last index the loop answers, when its first request is accepted.\<close>

lemma agg_last:
  assumes "pre_sane cfg p" "p_last_idx p = IDX_NONE" "unat (p_cnt p) + length qs < 2 ^ 16"
    and "\<forall>q \<in> set qs. req_ok q" "qs \<noteq> []" "pre_accepts cfg (unat (p_tx_len p)) (hd qs)"
    and "\<forall>j < length qs. get ((unat rptr + (unat (p_cnt p) + j)) mod MAX_PHL_TX_RING_ENTRY_NUM) = Some (qs ! j)"
    and "unat (p_cnt p) < unat (max_dma_txagg_msk cfg)" "unat (p_cnt p) + length qs = unat n_req"
  shows "\<exists>m. fst (pre_final cfg n_req (usb_tx_agg_loop (length qs) cfg get rptr p)) = of_nat m \<and>
    unat (p_cnt p) \<le> m \<and> m < unat (max_dma_txagg_msk cfg)"
  using assms
proof (induction qs arbitrary: p)
  case (Cons q qs)
  have a: "pre_accepts cfg (unat (p_tx_len p)) q" using Cons.prems by simp
  have ok: "req_ok q" "\<forall>q \<in> set qs. req_ok q" using Cons.prems by simp_all
  have c: "unat (p_cnt p) + 1 < 2 ^ 16" using Cons.prems by (simp add: pre_sane_def usb_ok_def)
  show ?case
  proof (cases "ends_after cfg n_req qs q p")
    case True
    then show ?thesis
      using agg_ends [OF Cons.prems(1,2) c ok Cons.prems(7,9) a True] Cons.prems(8)
      by (intro exI [of _ "unat (p_cnt p)"]) simp
  next
    case False
    let ?p2 = "(pre_next cfg q p)\<lparr>p_cnt := p_cnt p + 1\<rparr>"
    have c2: "unat (p_cnt ?p2) = unat (p_cnt p) + 1" using unat_Suc16 [OF c] by simp
    have lim: "unat (p_cnt ?p2) < unat (max_dma_txagg_msk cfg)"
      using False Cons.prems(8) c2 by (auto simp: ends_after_def pre_limit_def limit_hit_def Let_def)
    have g2: "\<forall>j < length qs. get ((unat rptr + (unat (p_cnt ?p2) + j)) mod MAX_PHL_TX_RING_ENTRY_NUM) = Some (qs ! j)"
    proof (intro allI impI)
      fix j
      assume j: "j < length qs"
      have "get ((unat rptr + (unat (p_cnt p) + Suc j)) mod MAX_PHL_TX_RING_ENTRY_NUM) = Some ((q # qs) ! Suc j)"
        using Cons.prems(7) j by (simp del: add_Suc_right)
      then show "get ((unat rptr + (unat (p_cnt ?p2) + j)) mod MAX_PHL_TX_RING_ENTRY_NUM) = Some (qs ! j)"
        using c2 by simp
    qed
    have "\<exists>m. fst (pre_final cfg n_req (usb_tx_agg_loop (length qs) cfg get rptr ?p2)) = of_nat m \<and>
        unat (p_cnt ?p2) \<le> m \<and> m < unat (max_dma_txagg_msk cfg)"
      using False Cons.prems lim c2 ok g2 pre_next_sane [OF Cons.prems(1) ok(1) a]
      by (intro Cons.IH) (auto simp: ends_after_def pre_next_def Let_def)
    then show ?thesis
      using agg_goes_on [OF Cons.prems(1) ok(1) Cons.prems(7) a False] c2 by auto
  qed
qed simp

definition synced :: "agg_pre \<Rightarrow> xmit \<Rightarrow> bool" where
  "synced p x \<longleftrightarrow> p_tx_len p = x_tx_len x \<and> p_packet_len p = x_packet_len x \<and>
     p_trasc_agg_cnt p = x_trasc_agg_cnt x \<and> p_trasc_idx p = x_trasc_idx x \<and>
     unat (p_cnt p) = length (x_done x) \<and> p_last_idx p = IDX_NONE"

lemma synced_sane:
  assumes "run_ok cfg fill x as" "synced p x"
  shows "pre_sane cfg p"
proof -
  have l: "laid_out fill x" "usb_ok cfg" "length (x_buf x) = unat (tx_buf_size cfg)" using assms(1) by (simp_all add: run_ok_def)
  then have "unat (x_tx_len x) \<le> 1048576" by (simp add: laid_out_def usb_ok_def)
  then show ?thesis using laid_out_align [OF l(1)] l(2) assms(2) by (simp add: pre_sane_def synced_def)
qed

lemma bulk_facts:
  assumes "usb_ok cfg"
  shows "8 dvd unat (bulk_size cfg)" "512 \<le> unat (bulk_size cfg)" "unat (bulk_size cfg) dvd unat (tx_buf_size cfg)"
    "unat (bulk_size cfg) = 2 ^ GET_SHIFT_OFFSET (bulk_size cfg)"
proof -
  have "unat (bulk_size cfg) = 512 \<or> unat (bulk_size cfg) = 1024" and d: "1024 dvd unat (tx_buf_size cfg)"
    using assms by (auto simp: usb_ok_def)
  moreover have "(512 :: nat) dvd 1024" "(8 :: nat) dvd 512" "(8 :: nat) dvd 1024" by (simp_all add: dvd_def)
  ultimately show "8 dvd unat (bulk_size cfg)" "512 \<le> unat (bulk_size cfg)" "unat (bulk_size cfg) dvd unat (tx_buf_size cfg)"
    using dvd_trans [OF \<open>512 dvd 1024\<close> d] by auto
  show "unat (bulk_size cfg) = 2 ^ GET_SHIFT_OFFSET (bulk_size cfg)"
    using assms by (auto simp: usb_ok_def GET_SHIFT_OFFSET_def)
qed

lemma same_part:
  fixes t t' :: u32
  assumes u: "usb_ok cfg" and m: "unat t mod unat (bulk_size cfg) = 0" and t': "unat t' = unat t + 8"
  shows "drop_bit (GET_SHIFT_OFFSET (bulk_size cfg)) t' = drop_bit (GET_SHIFT_OFFSET (bulk_size cfg)) t"
proof -
  note b = bulk_facts [OF u]
  have "unat t' div unat (bulk_size cfg) = unat t div unat (bulk_size cfg)"
    using m t' b(2) by (auto simp: dvd_def elim!: dvdE [OF mod_0_imp_dvd])
  then have "unat (drop_bit (GET_SHIFT_OFFSET (bulk_size cfg)) t') = unat (drop_bit (GET_SHIFT_OFFSET (bulk_size cfg)) t)"
    unfolding b(4) unsigned_drop_bit_eq by (simp only: drop_bit_eq_div take_bit_eq_mod mod_less unat_bound)
  then show ?thesis by (simp only: word_unat_eq_iff)
qed

lemma same_part_limit:
  fixes t t' :: u32
  assumes "usb_ok cfg" "unat t mod unat (bulk_size cfg) = 0" "unat t' = unat t + 8"
  shows "limit_hit cfg agg idx t' n = limit_hit cfg agg idx t n"
  unfolding limit_hit_def same_part [OF assms] ..

text \<open>With the dummy the last packet still fits, and it does not make the transfer end at a bulk packet.\<close>

lemma dummy_fits:
  assumes u: "usb_ok cfg" and a: "fits cfg tx L" and m: "(align8 tx + L) mod unat (bulk_size cfg) = 0"
  shows "fits cfg tx (L + 8)" "(align8 tx + L + 8) mod unat (bulk_size cfg) \<noteq> 0"
proof -
  note b = bulk_facts [OF u]
  let ?B = "unat (bulk_size cfg)" and ?S = "unat (tx_buf_size cfg)"
  have d: "?B dvd align8 tx + L" using m by (simp add: mod_eq_0_iff_dvd)
  then have "8 dvd align8 tx + L" using b(1) dvd_trans by blast
  then have L8: "8 dvd L" using dvd_add_right_iff [of 8 "align8 tx" L] by simp
  then have al: "align8 L = L" "align8 (L + 8) = L + 8" by (simp_all add: align8_id)
  have le: "align8 tx + L \<le> ?S - 8" using fits_bound [OF u a] al by simp
  have "1024 \<le> ?S" using u by (simp add: usb_ok_def)
  then have lt: "align8 tx + L < ?S" using le by linarith
  have "?B dvd ?S - (align8 tx + L)" using d b(3) by (rule dvd_diff_nat [rotated])
  then have "?B \<le> ?S - (align8 tx + L)" using lt by (intro dvd_imp_le) auto
  moreover have "tx \<le> align8 tx" by (rule align8_ge)
  ultimately show "fits cfg tx (L + 8)" using b(2) lt by (simp add: fits_def al)
  have "(align8 tx + L + 8) mod ?B = 8 mod ?B" using m by (metis mod_add_left_eq add_0)
  then show "(align8 tx + L + 8) mod ?B \<noteq> 0" using b(2) by simp
qed

lemma dummy_bulk_end:
  assumes u: "usb_ok cfg" and w: "wd = 32 \<or> wd = 56" and e: "bulk_end cfg tx (wd + 8)"
  shows "tx mod unat (bulk_size cfg) \<noteq> 0"
proof
  note b = bulk_facts [OF u]
  assume m: "tx mod unat (bulk_size cfg) = 0"
  then have "8 dvd tx" using b(1) dvd_trans mod_eq_0_iff_dvd by blast
  then have "(tx + (wd + 8)) mod unat (bulk_size cfg) = 0" using e by (simp add: bulk_end_def align8_id)
  then have "(wd + 8) mod unat (bulk_size cfg) = 0" using m by (metis mod_add_left_eq add_0)
  then show False using w b(2) by (auto dest!: dvd_imp_le)
qed

lemma full_end_no_reject:
  assumes u: "usb_ok cfg" and w: "wd = 32 \<or> wd = 56" and m: "tx mod unat (bulk_size cfg) = 0"
  shows "\<not> bulk_end cfg tx wd"
proof
  note b = bulk_facts [OF u]
  assume e: "bulk_end cfg tx wd"
  have "8 dvd tx" using b(1) m dvd_trans mod_eq_0_iff_dvd by blast
  then have "(tx + wd) mod unat (bulk_size cfg) = 0" using e by (simp add: bulk_end_def align8_id)
  then have "wd mod unat (bulk_size cfg) = 0" using m by (metis mod_add_left_eq add_0)
  then show False using w b(2) by (auto dest!: dvd_imp_le)
qed

lemma not_marked_later:
  assumes "last_idx = of_nat m" "m < 127" "unat (x_agg_cnt x) \<noteq> m"
  shows "\<not> marked last_idx is_dummy x"
proof -
  have "unat (ucast (of_nat m :: u32) :: u8) = m"
    using assms(2) by (simp only: unsigned_ucast_eq) (simp add: unat_of_nat take_bit_nat_eq_self)
  then have "x_agg_cnt x \<noteq> ucast last_idx" using assms(3) unfolding assms(1) by metis
  then show ?thesis by (simp add: marked_def)
qed

lemma marked_now:
  assumes "last_idx = of_nat m" "m < 127" "unat (x_agg_cnt x) = m"
  shows "marked last_idx is_dummy x \<longleftrightarrow> is_dummy"
proof -
  have "unat (ucast (of_nat m :: u32) :: u8) = m"
    using assms(2) by (simp only: unsigned_ucast_eq) (simp add: unat_of_nat take_bit_nat_eq_self)
  then have "x_agg_cnt x = ucast last_idx" using assms(3) unfolding assms(1) by (simp only: word_unat_eq_iff)
  moreover have "last_idx \<noteq> IDX_NONE" unfolding assms(1) using assms(2) by (intro not_IDX_NONE) simp
  ultimately show ?thesis by (simp add: marked_def)
qed

definition no_dummy_yet :: "(nat \<Rightarrow> xmit_req) \<Rightarrow> nat list \<Rightarrow> bool" where
  "no_dummy_yet reqs as \<longleftrightarrow> (\<forall>a \<in> set as. xr_usb_pkt_ofst (reqs a) \<noteq> 1)"

text \<open>After the last packet the loop stops, whatever is left in the ring.\<close>

lemma stops_after_last:
  assumes r: "as \<noteq> [] \<Longrightarrow> run_ok cfg fill x as" and nm: "\<not> marked last_idx is_dummy x"
    and rej: "as \<noteq> [] \<Longrightarrow> \<not> fits cfg (unat (x_tx_len x)) (wdl (x_reqs x (hd as)) + length (payload (x_reqs x (hd as))))
       \<or> unat (x_tx_len x) \<noteq> 0 \<and> bulk_end cfg (unat (x_tx_len x)) (wdl (x_reqs x (hd as)))"
  shows "\<exists>x'. handle_loop (length as) cfg fill sts last_idx is_dummy x = Done x' \<and> x_tx_len x' = x_tx_len x"
proof (cases as)
  case Nil
  then show ?thesis by simp
next
  case (Cons a bs)
  then have "at_round cfg fill x a" using r run_ok_round by simp
  then show ?thesis
  proof (cases rule: round_cases [where n = "length bs" and sts = sts and last_idx = last_idx and is_dummy = is_dummy])
    case (too_long x1)
    then show ?thesis using Cons by (auto simp: stopped_at_def)
  next
    case (at_bulk_end x1)
    then show ?thesis using Cons by (auto simp: stopped_at_def)
  next
    case (no_desc x1)
    then show ?thesis using rej Cons nm by (auto simp: wanted_def)
  next
    case (copied x4)
    then show ?thesis using rej Cons nm by (auto simp: wanted_def)
  qed
qed

lemma plen_fresh: "xr_usb_pkt_ofst q \<noteq> 1 \<Longrightarrow> plen (sent_req sts r False q) = wdl (sent_req sts r False q) + length (payload q)"
  by (simp add: plen_def gap_def sent_req_def set_meta_def payload_def wdl_def)

lemma plen_marked: "plen (sent_req sts r True q) = wdl (sent_req sts r True q) + 8 + length (payload q)"
  by (simp add: plen_def gap_def) (simp add: sent_req_def)

lemma wdl_sent: "req_ok q \<Longrightarrow> wdl (sent_req sts r m q) = wdl q"
  by (simp add: wdl_def sent_req_wd)

lemma bulk_claim:
  assumes "run_ok cfg fill x as" "no_dummy_yet (x_reqs x) as" "synced p x" "as \<noteq> []"
    and "pre_accepts cfg (unat (x_tx_len x)) (x_reqs x (hd as))"
    and "\<forall>j < length as. get ((unat rptr + (unat (p_cnt p) + j)) mod MAX_PHL_TX_RING_ENTRY_NUM) = Some (x_reqs x (as ! j))"
    and "unat (p_cnt p) + length as = unat n_req"
    and "pre_final cfg n_req (usb_tx_agg_loop (length as) cfg get rptr p) = (last_idx, is_dummy)"
    and "handle_loop (length as) cfg fill sts last_idx is_dummy x = Done x'"
    and "x_pstatus x' = RTW_PHL_STATUS_SUCCESS"
  shows "unat (x_tx_len x') mod unat (bulk_size cfg) \<noteq> 0"
  using assms
proof (induction as arbitrary: p x)
  case Nil
  then show ?case by simp
next
  case (Cons a bs)
  note r = Cons.prems(1) and fr = Cons.prems(2) and sy = Cons.prems(3)
  let ?q = "x_reqs x a" and ?tx = "unat (x_tx_len x)" and ?B = "unat (bulk_size cfg)"
  let ?L = "wdl ?q + length (payload ?q)"
  let ?s = "sent_req sts (x_ring x) (marked last_idx is_dummy x) ?q"
  have u: "usb_ok cfg" and ok: "req_ok ?q" "\<forall>q \<in> set (map (x_reqs x) bs). req_ok q" and data: "xr_type ?q = PKT_TYPE_DATA"
    using r by (auto simp: run_ok_def)
  have acc: "pre_accepts cfg ?tx ?q" using Cons.prems(5) by simp
  have ptx: "unat (p_tx_len p) = ?tx" using sy by (simp add: synced_def)
  have accp: "pre_accepts cfg (unat (p_tx_len p)) ?q" using acc ptx by simp
  have sane: "pre_sane cfg p" using synced_sane [OF r sy] .
  have wd: "wdl ?q = 32 \<or> wdl ?q = 56" using ok(1) by (rule wdl_cases)
  have cnt: "unat (p_cnt p) = length (x_done x)" "unat (x_agg_cnt x) = length (x_done x)"
    "length (x_done x) < unat (max_dma_txagg_msk cfg)" using sy r by (simp_all add: synced_def run_ok_def)
  have c127: "length (x_done x) < 127" using cnt(3) u by (simp add: usb_ok_def)
  have c16: "unat (p_cnt p) + 1 < 2 ^ 16" using cnt(1) c127 by simp
  have g: "\<forall>j < length (?q # map (x_reqs x) bs). get ((unat rptr + (unat (p_cnt p) + j)) mod MAX_PHL_TX_RING_ENTRY_NUM) =
      Some ((?q # map (x_reqs x) bs) ! j)"
    using Cons.prems(6) by (metis length_map list.simps(9) nth_map)
  have n: "unat (p_cnt p) + length (?q # map (x_reqs x) bs) = unat n_req" using Cons.prems(7) by simp
  have g0: "get ((unat rptr + unat (p_cnt p)) mod MAX_PHL_TX_RING_ENTRY_NUM) = Some ?q" using g by force
  have len1: "unat (p_tx_len (pre_next cfg ?q p)) = align8 ?tx + ?L" "unat (p_packet_len (pre_next cfg ?q p)) = ?L"
    using pre_step(2) [where get = get and rptr = rptr, OF sane ok(1) g0 accp] ptx by simp_all
  have none: "p_last_idx p = IDX_NONE" using sy by (simp add: synced_def)
  have fits: "fits cfg ?tx ?L" and nbe: "\<not> bulk_end cfg ?tx (wdl ?q)" using acc by (simp_all add: pre_accepts_def)
  have tt: "p_trasc_agg_cnt p = x_trasc_agg_cnt x" "p_trasc_idx p = x_trasc_idx x" using sy by (simp_all add: synced_def)
  have new: "a \<notin> set bs" using r by (simp add: run_ok_def)
  show ?case
  proof (cases "ends_after cfg n_req (map (x_reqs x) bs) ?q p")
    case True': True
    let ?T = "p_tx_len (pre_next cfg ?q p)"
    have fin: "last_idx = of_nat (length (x_done x))" "is_dummy \<longleftrightarrow> unat ?T mod ?B = 0"
      using agg_ends [OF sane none c16 ok g n accp True'] Cons.prems(8) cnt(1)
      by (simp_all add: word_unat_eq_iff unat_mod32)
    have mk: "marked last_idx is_dummy x \<longleftrightarrow> is_dummy" using marked_now [OF fin(1) c127 cnt(2)] .
    have later: "\<not> marked last_idx is_dummy y" if "unat (x_agg_cnt y) = length (x_done x) + 1" for y
      using not_marked_later [OF fin(1) c127] that by simp
    from run_ok_round [OF r] show ?thesis
    proof (cases rule: round_cases [where n = "length bs" and sts = sts and last_idx = last_idx and is_dummy = is_dummy])
      case (too_long x1)
      have "fits cfg ?tx (?L + 8)" if "is_dummy" using dummy_fits(1) [OF u fits] fin(2) that len1(1) by simp
      then show ?thesis using too_long(1) fits mk by (auto simp: wanted_def add_ac split: if_splits)
    next
      case (at_bulk_end x1)
      have is_dummy using at_bulk_end(3) nbe mk by (auto simp: wanted_def split: if_splits)
      then have "?tx mod ?B \<noteq> 0" using dummy_bulk_end [OF u wd] at_bulk_end(3) mk by (simp add: wanted_def)
      moreover have "x' = x1" using at_bulk_end(4) Cons.prems(9) by simp
      ultimately show ?thesis using at_bulk_end(5) by (auto simp: stopped_at_def)
    next
      case (no_desc x1)
      then show ?thesis using Cons.prems(9,10) by simp
    next
      case (copied x4)
      obtain go x5 where ac: "after_copy cfg a (tr_phl_next_idx (x_ring x)) PKT_TYPE_DATA x4 = (go, x5)"
        by (cases "after_copy cfg a (tr_phl_next_idx (x_ring x)) PKT_TYPE_DATA x4")
      have q: "same_req ?q ?s" by simp
      note nx = run_ok_next [OF r copied(4,7,8,9,10,11,12,15,6) ac q]
      have c255: "unat (x_agg_cnt x4) < 255" using copied(12) cnt(2) c127 by simp
      note ad = after_copy_data [OF ac c255]
      have tx5: "unat (x_tx_len x5) = unat ?T + (if is_dummy then 8 else 0)"
        using copied(5) len1(1) mk fr plen_fresh [of ?q sts "x_ring x"] plen_marked [of sts "x_ring x" ?q] wdl_sent [OF ok(1)]
        by (auto simp: ad(6) no_dummy_yet_def)
      have ne0: "unat (x_tx_len x5) mod ?B \<noteq> 0"
      proof (cases is_dummy)
        case True
        then have "(align8 ?tx + ?L) mod ?B = 0" using fin(2) len1(1) by simp
        then show ?thesis using dummy_fits(2) [OF u fits] tx5 len1(1) True by simp
      next
        case False
        then show ?thesis using fin(2) tx5 by simp
      qed
      have done5: "\<exists>y. (if go then handle_loop (length bs) cfg fill sts last_idx is_dummy x5 else Done x5) = Done y \<and>
          x_tx_len y = x_tx_len x5"
      proof (cases go)
        case True
        have nl: "\<not> pre_limit cfg ?q p"
        proof -
          have "\<not> limit_hit cfg (x_trasc_agg_cnt x) (x_trasc_idx x) (x_tx_len x4) (length (x_done x) + 1)"
            using True ad(1) copied cnt(2) by simp
          moreover have "unat (x_tx_len x4) = unat ?T + (if is_dummy then 8 else 0)" using tx5 ad(6) by simp
          moreover have "limit_hit cfg (x_trasc_agg_cnt x) (x_trasc_idx x) (x_tx_len x4) (length (x_done x) + 1) =
              limit_hit cfg (x_trasc_agg_cnt x) (x_trasc_idx x) ?T (length (x_done x) + 1)"
            if "is_dummy" using that fin(2) calculation(2) by (intro same_part_limit [OF u]) simp_all
          ultimately show ?thesis using tt cnt(1)
            by (cases is_dummy) (simp_all add: pre_limit_def word_unat_eq_iff [symmetric])
        qed
        have rej: "\<not> fits cfg (unat (x_tx_len x5)) (wdl (x_reqs x5 (hd bs)) + length (payload (x_reqs x5 (hd bs))))
            \<or> unat (x_tx_len x5) \<noteq> 0 \<and> bulk_end cfg (unat (x_tx_len x5)) (wdl (x_reqs x5 (hd bs)))" if "bs \<noteq> []"
        proof -
          have same: "x_reqs x5 (hd bs) = x_reqs x (hd bs)" using that new copied(9) by (cases bs) (auto simp: ad(11))
          have no: "\<not> pre_accepts cfg (unat ?T) (x_reqs x (hd bs))"
            using True' that nl data Cons.prems by (simp add: ends_after_def hd_map)
          have T32: "unat ?T \<noteq> 0" using len1(1) wd by auto
          have "hd bs \<in> set bs" using that by simp
          then have wb: "wdl (x_reqs x (hd bs)) = 32 \<or> wdl (x_reqs x (hd bs)) = 56" using ok(2) wdl_cases by simp
          show ?thesis
          proof (cases is_dummy)
            case True
            then have "\<not> bulk_end cfg (unat ?T) (wdl (x_reqs x (hd bs)))"
              using full_end_no_reject [OF u wb] fin(2) by simp
            then have "\<not> fits cfg (unat ?T) (wdl (x_reqs x (hd bs)) + length (payload (x_reqs x (hd bs))))"
              using no by (simp add: pre_accepts_def)
            then show ?thesis unfolding same tx5 by (auto simp: fits_def)
          next
            case False
            then show ?thesis using no T32 unfolding same tx5 by (simp add: pre_accepts_def)
          qed
        qed
        show ?thesis
        proof (cases "bs = []")
          case True
          then show ?thesis by simp
        next
          case False
          then show ?thesis
            using stops_after_last [of bs cfg fill x5 last_idx is_dummy sts] nx(1) [OF True False] later [of x5] nx(3) rej True
            by simp
        qed
      qed simp
      show ?thesis using done5 copied(3) ac Cons.prems(9) ne0 by auto
    qed
  next
    case False
    let ?p2 = "(pre_next cfg ?q p)\<lparr>p_cnt := p_cnt p + 1\<rparr>"
    have ne: "bs \<noteq> []" and nl: "\<not> pre_limit cfg ?q p"
      and acc2: "pre_accepts cfg (unat (p_tx_len ?p2)) (hd (map (x_reqs x) bs))"
      using False data by (auto simp: ends_after_def)
    have c2: "unat (p_cnt ?p2) = length (x_done x) + 1" using unat_Suc16 [OF c16] cnt(1) by simp
    have lim: "length (x_done x) + 1 < unat (max_dma_txagg_msk cfg)"
      using nl cnt by (auto simp: pre_limit_def limit_hit_def Let_def)
    have loop: "usb_tx_agg_loop (length (a # bs)) cfg get rptr p = usb_tx_agg_loop (length bs) cfg get rptr ?p2"
      using agg_goes_on [OF sane ok(1) g accp False] by simp
    have g2: "\<forall>j < length bs. get ((unat rptr + (unat (p_cnt ?p2) + j)) mod MAX_PHL_TX_RING_ENTRY_NUM) = Some (x_reqs x (bs ! j))"
    proof (intro allI impI)
      fix j
      assume j: "j < length bs"
      have "get ((unat rptr + (unat (p_cnt p) + Suc j)) mod MAX_PHL_TX_RING_ENTRY_NUM) = Some (x_reqs x ((a # bs) ! Suc j))"
        using Cons.prems(6) j by (simp del: add_Suc_right)
      then show "get ((unat rptr + (unat (p_cnt ?p2) + j)) mod MAX_PHL_TX_RING_ENTRY_NUM) = Some (x_reqs x (bs ! j))"
        using c2 cnt(1) by simp
    qed
    have n2: "unat (p_cnt ?p2) + length bs = unat n_req" using Cons.prems(7) c2 cnt(1) by simp
    have sane2: "pre_sane cfg ?p2" using pre_next_sane [OF sane ok(1) accp] .
    have none2: "p_last_idx ?p2 = IDX_NONE" using none by (simp add: pre_next_def Let_def)
    have "unat n_req < 2 ^ 16" using unat_bound [of n_req] by simp
    then have "\<exists>m. fst (pre_final cfg n_req (usb_tx_agg_loop (length (map (x_reqs x) bs)) cfg get rptr ?p2)) = of_nat m \<and>
        unat (p_cnt ?p2) \<le> m \<and> m < unat (max_dma_txagg_msk cfg)"
      using ok(2) ne acc2 g2 n2 lim c2 by (intro agg_last [OF sane2 none2]) simp_all
    then obtain m where m: "last_idx = of_nat m" "length (x_done x) + 1 \<le> m" "m < unat (max_dma_txagg_msk cfg)"
      using Cons.prems(8) loop c2 by auto
    have nm: "\<not> marked last_idx is_dummy x"
      using m u cnt(2) by (intro not_marked_later [OF m(1)]) (simp_all add: usb_ok_def)
    from run_ok_round [OF r] show ?thesis
    proof (cases rule: round_cases [where n = "length bs" and sts = sts and last_idx = last_idx and is_dummy = is_dummy])
      case (too_long x1)
      then show ?thesis using fits nm by (simp add: wanted_def)
    next
      case (at_bulk_end x1)
      then show ?thesis using nbe nm by (simp add: wanted_def)
    next
      case (no_desc x1)
      then show ?thesis using Cons.prems(9,10) by simp
    next
      case (copied x4)
      obtain go x5 where ac: "after_copy cfg a (tr_phl_next_idx (x_ring x)) PKT_TYPE_DATA x4 = (go, x5)"
        by (cases "after_copy cfg a (tr_phl_next_idx (x_ring x)) PKT_TYPE_DATA x4")
      have q: "same_req ?q ?s" by simp
      note nx = run_ok_next [OF r copied(4,7,8,9,10,11,12,15,6) ac q]
      have c255: "unat (x_agg_cnt x4) < 255" using copied(12) cnt(2) c127 by simp
      note ad = after_copy_data [OF ac c255]
      have pl: "plen ?s = ?L"
        using nm fr plen_fresh [of ?q sts "x_ring x"] wdl_sent [OF ok(1)] by (simp add: no_dummy_yet_def)
      have tx5: "x_tx_len x5 = p_tx_len ?p2"
        using copied(5) len1(1) pl by (simp add: ad(6) word_unat_eq_iff)
      have dr5: "done_reqs x5 = done_reqs x @ [?s]"
        using copied(7,9) r by (simp add: done_reqs_def ad run_ok_def)
      have pk5: "x_packet_len x5 = p_packet_len ?p2"
        using nx(5) dr5 len1(2) pl by (simp add: laid_out_def word_unat_eq_iff last0_def)
      have go: "go"
        using nl ad(1) copied tt cnt tx5 by (simp add: pre_limit_def ad(6))
      have sy2: "synced ?p2 x5"
        using tx5 pk5 none2 c2 tt ad(4) copied
        by (simp add: synced_def ad(13) pre_next_def Let_def ad(6)) (metis fst_conv snd_conv)
      have same: "x_reqs x5 b = x_reqs x b" if "b \<in> set bs" for b using that new copied(9) by (auto simp: ad(11))
      have fr2: "no_dummy_yet (x_reqs x5) bs" using fr same by (simp add: no_dummy_yet_def)
      have "pre_accepts cfg (unat (x_tx_len x5)) (x_reqs x5 (hd bs))"
        using acc2 ne same [of "hd bs"] tx5 by (simp add: hd_map)
      moreover have "\<forall>j < length bs. get ((unat rptr + (unat (p_cnt ?p2) + j)) mod MAX_PHL_TX_RING_ENTRY_NUM) = Some (x_reqs x5 (bs ! j))"
        using g2 same by simp
      moreover have "handle_loop (length bs) cfg fill sts last_idx is_dummy x5 = Done x'"
        using copied(3) ac go Cons.prems(9) by simp
      ultimately show ?thesis
        using Cons.prems(8,10) loop by (intro Cons.IH [OF nx(1) [OF go ne] fr2 sy2 ne _ _ n2]) simp_all
    qed
  qed
qed

text \<open>The prediction and the loop behind a transfer.\<close>

definition batch_run :: "usb_cfg \<Rightarrow> (xmit_req \<Rightarrow> bytes option) \<Rightarrow> phl_ring_status \<Rightarrow> tx_ring \<Rightarrow>
     (nat \<Rightarrow> xmit_req) \<Rightarrow> bytes \<Rightarrow> nat list \<Rightarrow> u32 \<Rightarrow> bool \<Rightarrow> xmit \<Rightarrow> bool" where
  "batch_run cfg fill sts r reqs buf as last_idx is_dummy x \<longleftrightarrow>
     batch_ok cfg fill sts r reqs buf as \<and> no_dummy_yet reqs as \<and>
     (\<forall>j < length as. map_option reqs (tr_entry r ((unat (tr_phl_next_idx r) + j) mod MAX_PHL_TX_RING_ENTRY_NUM)) =
        Some (reqs (as ! j))) \<and>
     pre_final cfg (rs_req_busy sts) (usb_tx_agg_loop (length as) cfg (\<lambda>i. map_option reqs (tr_entry r i))
        (tr_phl_next_idx r) agg_pre_init) = (last_idx, is_dummy) \<and>
     handle_loop (length as) cfg fill sts last_idx is_dummy (xmit_start sts r reqs buf) = Done x"

lemma agg_pre_init_start [simp]:
  "p_last_idx agg_pre_init = IDX_NONE" "p_tx_len agg_pre_init = 0" "p_cnt agg_pre_init = 0"
  by (simp_all add: agg_pre_init_def)

lemma pre_sane_init: "usb_ok cfg \<Longrightarrow> pre_sane cfg agg_pre_init"
  by (simp add: pre_sane_def agg_pre_init_def)

lemma batch_runD:
  assumes "batch_run cfg fill sts r reqs buf (a # bs) last_idx is_dummy x"
  shows "batch_ok cfg fill sts r reqs buf (a # bs)" "usb_ok cfg" "req_ok (reqs a)"
    and "\<forall>q \<in> set (map reqs bs). req_ok q" "Suc (length bs) = unat (rs_req_busy sts)"
    and "no_dummy_yet reqs (a # bs)"
    and "\<forall>j < Suc (length bs). map_option reqs (tr_entry r ((unat (tr_phl_next_idx r) + j) mod MAX_PHL_TX_RING_ENTRY_NUM)) =
        Some (reqs ((a # bs) ! j))"
    and "pre_final cfg (rs_req_busy sts) (usb_tx_agg_loop (Suc (length bs)) cfg (\<lambda>i. map_option reqs (tr_entry r i))
        (tr_phl_next_idx r) agg_pre_init) = (last_idx, is_dummy)"
    and "handle_loop (Suc (length bs)) cfg fill sts last_idx is_dummy (xmit_start sts r reqs buf) = Done x"
proof -
  note R = assms [unfolded batch_run_def length_Cons]
  show b: "batch_ok cfg fill sts r reqs buf (a # bs)" using R by blast
  show "usb_ok cfg" "req_ok (reqs a)" "\<forall>q \<in> set (map reqs bs). req_ok q" "Suc (length bs) = unat (rs_req_busy sts)"
    using b by (simp_all add: batch_ok_def)
qed (use assms [unfolded batch_run_def length_Cons] in blast)+

lemma rejected_none:
  assumes R: "batch_run cfg fill sts r reqs buf (a # bs) last_idx is_dummy x"
    and no: "\<not> pre_accepts cfg 0 (reqs a)"
  shows "last_idx = IDX_NONE" "\<not> fits cfg 0 (wdl (reqs a) + length (payload (reqs a)))"
proof -
  note D = batch_runD [OF R]
  have g: "map_option reqs (tr_entry r ((unat (tr_phl_next_idx r) + unat (p_cnt agg_pre_init)) mod MAX_PHL_TX_RING_ENTRY_NUM)) =
      Some (reqs a)" using D(7) [rule_format, of 0] by simp
  have "usb_tx_agg_loop (Suc (length bs)) cfg (\<lambda>i. map_option reqs (tr_entry r i)) (tr_phl_next_idx r) agg_pre_init =
      stop_before agg_pre_init"
    using pre_step(1) [where get = "\<lambda>i. map_option reqs (tr_entry r i)" and rptr = "tr_phl_next_idx r"
        and n = "length bs", OF pre_sane_init [OF D(2)] D(3) g] no by simp
  then show "last_idx = IDX_NONE" using D(8) by (simp add: stop_before_def pre_final_def)
  have "\<not> bulk_end cfg 0 (wdl (reqs a))" using full_end_no_reject [OF D(2) wdl_cases [OF D(3)], of 0] by simp
  then show "\<not> fits cfg 0 (wdl (reqs a) + length (payload (reqs a)))" using no by (simp add: pre_accepts_def)
qed

lemma data_not_full:
  assumes R: "batch_run cfg fill sts r reqs buf (a # bs) last_idx is_dummy x"
    and ty: "xr_type (reqs a) = PKT_TYPE_DATA" and s: "x_pstatus x = RTW_PHL_STATUS_SUCCESS"
  shows "unat (x_tx_len x) mod unat (bulk_size cfg) \<noteq> 0"
proof -
  note D = batch_runD [OF R]
  let ?x0 = "xmit_start sts r reqs buf"
  have run: "run_ok cfg fill ?x0 (a # bs)" using start_run_ok [OF D(1)] ty by simp
  show ?thesis
  proof (cases "pre_accepts cfg 0 (reqs a)")
    case acc: True
    have sy: "synced agg_pre_init ?x0" by (simp add: synced_def agg_pre_init_def xmit_start_def)
    show ?thesis
      using acc D(5-9) s
      by (intro bulk_claim [OF run _ sy, where get = "\<lambda>i. map_option reqs (tr_entry r i)"
            and rptr = "tr_phl_next_idx r" and n_req = "rs_req_busy sts"]) (simp_all add: xmit_start_def)
  next
    case False
    note rn = rejected_none [OF R False]
    have nm: "\<not> marked last_idx is_dummy ?x0" using rn(1) by (simp add: marked_def)
    have x0: "x_reqs ?x0 = reqs" "unat (x_tx_len ?x0) = 0" by (simp_all add: xmit_start_def)
    from run_ok_round [OF run] have "x_pstatus x = RTW_PHL_STATUS_FAILURE"
    proof (cases rule: round_cases [where n = "length bs" and sts = sts and last_idx = last_idx and is_dummy = is_dummy])
      case (too_long x1)
      then show ?thesis using D(9) by (auto simp: stopped_at_def xmit_start_def)
    qed (use nm rn(2) x0 in \<open>simp_all add: wanted_def\<close>)
    then show ?thesis using s by simp
  qed
qed

text \<open>A frame that is not data: the prediction names it, and the dummy bytes go into it.\<close>

lemma single_prediction:
  assumes R: "batch_run cfg fill sts r reqs buf (a # bs) last_idx is_dummy x"
    and ty: "xr_type (reqs a) \<noteq> PKT_TYPE_DATA" and acc: "pre_accepts cfg 0 (reqs a)"
  shows "last_idx = of_nat 0"
    and "is_dummy \<longleftrightarrow> (wdl (reqs a) + length (payload (reqs a))) mod unat (bulk_size cfg) = 0"
proof -
  note D = batch_runD [OF R]
  let ?get = "\<lambda>i. map_option reqs (tr_entry r i)" and ?rptr = "tr_phl_next_idx r"
  have acc': "pre_accepts cfg (unat (p_tx_len agg_pre_init)) (reqs a)" using acc by simp
  have g: "\<forall>j < length (reqs a # map reqs bs).
      ?get ((unat ?rptr + (unat (p_cnt agg_pre_init) + j)) mod MAX_PHL_TX_RING_ENTRY_NUM) =
      Some ((reqs a # map reqs bs) ! j)"
  proof (intro allI impI)
    fix j
    assume j: "j < length (reqs a # map reqs bs)"
    then have "(reqs a # map reqs bs) ! j = reqs ((a # bs) ! j)" by (cases j) simp_all
    then show "?get ((unat ?rptr + (unat (p_cnt agg_pre_init) + j)) mod MAX_PHL_TX_RING_ENTRY_NUM) =
        Some ((reqs a # map reqs bs) ! j)" using D(7) j by simp
  qed
  then have g0: "?get ((unat ?rptr + unat (p_cnt agg_pre_init)) mod MAX_PHL_TX_RING_ENTRY_NUM) = Some (reqs a)"
    by force
  note sane = pre_sane_init [OF D(2)]
  have "pre_final cfg (rs_req_busy sts) (usb_tx_agg_loop (length (reqs a # map reqs bs)) cfg ?get ?rptr agg_pre_init) =
      (of_nat (unat (p_cnt agg_pre_init)), p_tx_len (pre_next cfg (reqs a) agg_pre_init) mod bulk_size cfg = 0)"
    using D(3-5) ty by (intro agg_ends [OF sane _ _ D(3,4) g _ acc']) (auto simp: ends_after_def)
  then have "last_idx = of_nat 0 \<and> (is_dummy \<longleftrightarrow> p_tx_len (pre_next cfg (reqs a) agg_pre_init) mod bulk_size cfg = 0)"
    using D(8) by simp
  moreover have "unat (p_tx_len (pre_next cfg (reqs a) agg_pre_init)) = wdl (reqs a) + length (payload (reqs a))"
    using pre_step(2) [where get = ?get and rptr = ?rptr, OF sane D(3) g0 acc'] by simp
  ultimately show "last_idx = of_nat 0"
      "is_dummy \<longleftrightarrow> (wdl (reqs a) + length (payload (reqs a))) mod unat (bulk_size cfg) = 0"
    by (simp_all add: word_unat_eq_iff unat_mod32)
qed

lemma single_not_full:
  assumes R: "batch_run cfg fill sts r reqs buf (a # bs) last_idx is_dummy x"
    and ty: "xr_type (reqs a) \<noteq> PKT_TYPE_DATA" and s: "x_pstatus x = RTW_PHL_STATUS_SUCCESS"
  shows "unat (x_tx_len x) mod unat (bulk_size cfg) \<noteq> 0"
proof -
  note D = batch_runD [OF R]
  let ?m = "marked last_idx is_dummy (xmit_start sts r reqs buf)"
  obtain x2 k where sr: "handle_loop (Suc (length bs)) cfg fill sts last_idx is_dummy (xmit_start sts r reqs buf) = Done x2"
      "taken_from cfg fill (xmit_start sts r reqs buf) (a # bs) k x2" "k \<le> 1" "x_reqs x2 a = sent_req sts r ?m (reqs a)"
      "x_pstatus x2 = RTW_PHL_STATUS_SUCCESS \<longleftrightarrow>
        fits cfg 0 (wanted ?m (reqs a) + length (payload (reqs a))) \<and> fill (x_reqs x2 a) \<noteq> None"
    using single_round [OF D(1) ty, of "length bs" last_idx is_dummy] by blast
  have x2: "x2 = x" using sr(1) D(9) by simp
  note T = taken_fromD [OF sr(2)]
  have "k \<noteq> 0" using T(7) s x2 by (auto simp: xmit_start_def)
  then have "done_reqs x = [sent_req sts r ?m (reqs a)]"
    using T(2) sr(3,4) x2 by (simp add: done_reqs_def xmit_start_def le_Suc_eq)
  then have tx: "unat (x_tx_len x) = plen (sent_req sts r ?m (reqs a))"
    using T(6) s x2 by (simp add: extent_def last0_def base_def)
  have acc: "pre_accepts cfg 0 (reqs a)"
  proof (rule ccontr)
    assume no: "\<not> pre_accepts cfg 0 (reqs a)"
    have "\<not> ?m" using rejected_none(1) [OF R no] by (simp add: marked_def)
    then show False using rejected_none(2) [OF R no] sr(5) s x2 by (simp add: wanted_def)
  qed
  note P = single_prediction [OF R ty acc]
  have m: "?m \<longleftrightarrow> is_dummy" using marked_now [OF P(1)] by (simp add: xmit_start_def)
  have "xr_usb_pkt_ofst (reqs a) \<noteq> 1" using D(6) by (simp add: no_dummy_yet_def)
  then have pl: "plen (sent_req sts r ?m (reqs a)) = wdl (reqs a) + (if is_dummy then 8 else 0) + length (payload (reqs a))"
    using m plen_fresh [of "reqs a" sts r] plen_marked [of sts r "reqs a"] wdl_sent [OF D(3)] by auto
  have f: "fits cfg 0 (wdl (reqs a) + length (payload (reqs a)))" using acc by (simp add: pre_accepts_def)
  show ?thesis using dummy_fits(2) [OF D(2) f] P(2) tx pl by (cases is_dummy) (simp_all add: add_ac)
qed

lemma transfer_run:
  assumes b: "batch_ok cfg fill sts r reqs buf as" and fr: "no_dummy_yet reqs as"
    and i: "unat (tr_phl_next_idx r) < MAX_PHL_TX_RING_ENTRY_NUM"
    and x: "fill_transfer cfg fill sts r reqs buf = Done x" and t: "transfer_of x = Some data"
  shows "\<exists>last_idx is_dummy. batch_run cfg fill sts r reqs buf as last_idx is_dummy x"
    and "x_pstatus x = RTW_PHL_STATUS_SUCCESS" "length data = unat (x_tx_len x)"
proof -
  let ?get = "\<lambda>i. map_option reqs (tr_entry r i)" and ?rptr = "tr_phl_next_idx r" and ?n = "rs_req_busy sts"
  have u: "usb_ok cfg" and ok: "\<forall>a \<in> set as. req_ok (reqs a)" and len: "length as = unat ?n"
    and rl: "ring_lists (tr_entry r) ?rptr as" using b by (simp_all add: batch_ok_def)
  have get: "\<forall>j < length as. ?get ((unat ?rptr + j) mod MAX_PHL_TX_RING_ENTRY_NUM) = Some (reqs (as ! j))"
    using ring_lists_nth [OF rl] i by (simp add: tx_ring_size)
  obtain last_idx is_dummy where pre: "pre_final cfg ?n (usb_tx_agg_loop (length as) cfg ?get ?rptr agg_pre_init) = (last_idx, is_dummy)"
    by fastforce
  then have "usb_tx_agg_preprocess cfg ?get ?rptr ?n = (last_idx, is_dummy)"
    using len by (simp add: usb_tx_agg_preprocess_def pre_final_def Let_def)
  then have "handle_loop (length as) cfg fill sts last_idx is_dummy (xmit_start sts r reqs buf) = Done x"
    using x len by (simp add: fill_transfer_start)
  then have "batch_run cfg fill sts r reqs buf as last_idx is_dummy x"
    using b fr get pre unfolding batch_run_def by blast
  then show "\<exists>last_idx is_dummy. batch_run cfg fill sts r reqs buf as last_idx is_dummy x" by blast
  show s: "x_pstatus x = RTW_PHL_STATUS_SUCCESS" using t by (auto simp: transfer_of_def split: if_splits)
  obtain k where k: "taken_from cfg fill (xmit_start sts r reqs buf) as k x"
    using fill_transfer_taken [OF b] x by auto
  have "k \<noteq> 0" using taken_fromD(7) [OF k] s by (auto simp: xmit_start_def)
  moreover have "as \<noteq> []" using b by (simp add: batch_ok_def)
  ultimately have ne: "done_reqs x \<noteq> []" using taken_fromD(2) [OF k] by (auto simp: done_reqs_def xmit_start_def)
  show "length data = unat (x_tx_len x)"
    using transfer_packets(1) [OF t k u taken_reqs_ok(1) [OF k ok] ne] taken_fromD(6) [OF k] s by simp
qed

text \<open>
  C9. When no request of the batch carries the dummy flag yet (\<open>no_dummy_yet\<close>: \<open>usb_pkt_ofst\<close> is
  not one in any of them), the length of the transfer that \<open>phl_tx_usb\<close> builds from the batch is
  not a multiple of the bulk size, so it ends with a short packet. This is a statement about fresh
  requests only: the flag is never cleared again, and a transfer with a request that still
  carries it from an earlier use can end with a full packet (\<open>stale_dummy_full_packet\<close>).
\<close>

theorem fresh_batch_short_packet:
  assumes b: "batch_ok cfg fill sts r reqs buf as" and fr: "no_dummy_yet reqs as"
    and i: "unat (tr_phl_next_idx r) < MAX_PHL_TX_RING_ENTRY_NUM"
    and x: "fill_transfer cfg fill sts r reqs buf = Done x" and t: "transfer_of x = Some data"
  shows "length data mod unat (bulk_size cfg) \<noteq> 0"
proof -
  note T = transfer_run [OF b fr i x t]
  obtain last_idx is_dummy where R: "batch_run cfg fill sts r reqs buf as last_idx is_dummy x" using T(1) by blast
  obtain a bs where as: "as = a # bs" using b by (cases as) (auto simp: batch_ok_def)
  show ?thesis
    using data_not_full [OF R [unfolded as] _ T(2)] single_not_full [OF R [unfolded as] _ T(2)] T(3) by metis
qed

lemma fits_mono: "fits cfg tx n \<Longrightarrow> m \<le> n \<Longrightarrow> fits cfg tx m"
proof -
  assume f: "fits cfg tx n" and le: "m \<le> n"
  have "align8 m \<le> align8 n" unfolding align8_def using le by (intro mult_le_mono1 div_le_mono) simp
  then show ?thesis using f by (simp add: fits_def)
qed

lemma wanted_le: "wanted m q \<le> wdl q + 8"
  by (simp add: wanted_def)

lemma loop_keeps_success:
  assumes "run_ok cfg fill x as" "x_pstatus x = RTW_PHL_STATUS_SUCCESS" "\<forall>q. fill q \<noteq> None"
    and "handle_loop (length as) cfg fill sts last_idx is_dummy x = Done x'"
  shows "x_pstatus x' = RTW_PHL_STATUS_SUCCESS"
  using assms
proof (induction as arbitrary: x)
  case Nil
  then show ?case by simp
next
  case (Cons a as)
  let ?q = "sent_req sts (x_ring x) (marked last_idx is_dummy x) (x_reqs x a)"
  note r = Cons.prems(1)
  from run_ok_round [OF r] show ?case
  proof (cases rule: round_cases [where n = "length as" and sts = sts and last_idx = last_idx and is_dummy = is_dummy])
    case (too_long x1)
    then show ?thesis using Cons.prems by (auto simp: stopped_at_def)
  next
    case (at_bulk_end x1)
    then show ?thesis using Cons.prems by (auto simp: stopped_at_def)
  next
    case (no_desc x1)
    then show ?thesis using Cons.prems(3) by simp
  next
    case (copied x4)
    obtain go x5 where ac: "after_copy cfg a (tr_phl_next_idx (x_ring x)) PKT_TYPE_DATA x4 = (go, x5)"
      by (cases "after_copy cfg a (tr_phl_next_idx (x_ring x)) PKT_TYPE_DATA x4")
    have q: "same_req (x_reqs x a) ?q" by simp
    note nx = run_ok_next [OF r copied(4,7,8,9,10,11,12,15,6) ac q]
    have cnt: "unat (x_agg_cnt x4) < 255" using r copied by (simp add: run_ok_def usb_ok_def)
    note ad = after_copy_data [OF ac cnt]
    have s5: "x_pstatus x5 = RTW_PHL_STATUS_SUCCESS" using copied(6) by (simp add: ad)
    show ?thesis
    proof (cases "go \<and> as \<noteq> []")
      case True
      then show ?thesis using Cons.IH [OF nx(1) s5 Cons.prems(3)] copied(3) ac Cons.prems(4) by simp
    next
      case False
      then have "x' = x5" using copied(3) ac Cons.prems(4) by (cases as; cases go) auto
      then show ?thesis using s5 by simp
    qed
  qed
qed

text \<open>The first request of a ring is sent when it fits and has a descriptor.\<close>

lemma first_is_sent:
  assumes b: "batch_ok cfg fill sts r reqs buf as" and f: "\<forall>q. fill q \<noteq> None"
    and fits: "fits cfg 0 (wdl (reqs (hd as)) + 8 + length (payload (reqs (hd as))))"
  shows "\<exists>x data. fill_transfer cfg fill sts r reqs buf = Done x \<and> transfer_of x = Some data"
proof -
  let ?x0 = "xmit_start sts r reqs buf"
  obtain a bs where as: "as = a # bs" using b by (cases as) (auto simp: batch_ok_def)
  obtain last_idx is_dummy where pre: "usb_tx_agg_preprocess cfg (\<lambda>i. map_option reqs (tr_entry r i))
      (tr_phl_next_idx r) (rs_req_busy sts) = (last_idx, is_dummy)" by fastforce
  obtain x where x: "fill_transfer cfg fill sts r reqs buf = Done x" using fill_transfer_taken [OF b] by blast
  have hl: "handle_loop (Suc (length bs)) cfg fill sts last_idx is_dummy ?x0 = Done x"
    using x b as by (simp add: fill_transfer_start pre batch_ok_def flip: length_Cons)
  have fw: "fits cfg 0 (wanted m (reqs a) + length (payload (reqs a)))" for m
    using fits wanted_le [of m "reqs a"] as by (auto elim!: fits_mono)
  have "x_pstatus x = RTW_PHL_STATUS_SUCCESS"
  proof (cases "xr_type (reqs a) = PKT_TYPE_DATA")
    case True
    have run: "run_ok cfg fill ?x0 (a # bs)" using start_run_ok [OF b] as True by simp
    have x0: "x_reqs ?x0 = reqs" "unat (x_tx_len ?x0) = 0" by (simp_all add: xmit_start_def)
    from run_ok_round [OF run] show ?thesis
    proof (cases rule: round_cases [where n = "length bs" and sts = sts and last_idx = last_idx and is_dummy = is_dummy])
      case (too_long x1)
      then show ?thesis using fw x0 by simp
    next
      case (at_bulk_end x1)
      then show ?thesis using x0 by simp
    next
      case (no_desc x1)
      then show ?thesis using f by simp
    next
      case (copied x4)
      obtain go x5 where ac: "after_copy cfg a (tr_phl_next_idx (x_ring ?x0)) PKT_TYPE_DATA x4 = (go, x5)"
        by (cases "after_copy cfg a (tr_phl_next_idx (x_ring ?x0)) PKT_TYPE_DATA x4")
      note nx = run_ok_next [OF run copied(4,7,8,9,10,11,12,15,6) ac same_req_sent]
      have cnt: "unat (x_agg_cnt x4) < 255" using run copied by (simp add: run_ok_def usb_ok_def)
      have s5: "x_pstatus x5 = RTW_PHL_STATUS_SUCCESS" using copied(6) after_copy_data(9) [OF ac cnt] by simp
      show ?thesis
      proof (cases "go \<and> bs \<noteq> []")
        case True
        then show ?thesis using loop_keeps_success [OF nx(1) s5 f] copied(3) ac hl by simp
      next
        case False
        then have "x = x5" using copied(3) ac hl by (cases bs; cases go) auto
        then show ?thesis using s5 by simp
      qed
    qed
  next
    case False
    then show ?thesis
      using single_round [OF b [unfolded as] False, of "length bs" last_idx is_dummy] hl f fw by auto
  qed
  then show ?thesis using x by (simp add: transfer_of_def)
qed

lemma ex_sent: "\<exists>x data. fill_transfer ex_cfg ex_fill ex_sts ex_ring (\<lambda>_. ex_req) (replicate 1024 0) = Done x \<and>
    transfer_of x = Some data"
proof (rule first_is_sent [OF ex_batch])
  show "\<forall>q. ex_fill q \<noteq> None" by (simp add: ex_fill_def)
  have "wdl ex_req = 56" by (simp add: wdl_def mac_txdesc_len_def ex_req_def)
  then show "fits ex_cfg 0 (wdl ex_req + 8 + length (payload ex_req))"
    by (simp add: fits_def align8_def ex_cfg_def payload_def ex_req_def)
qed

lemma fresh_batch_short_packet_witness:
  "\<exists>x data. fill_transfer ex_cfg ex_fill ex_sts ex_ring (\<lambda>_. ex_req) (replicate 1024 0) = Done x \<and>
     transfer_of x = Some data \<and> length data mod 512 \<noteq> 0"
proof -
  obtain x data where x: "fill_transfer ex_cfg ex_fill ex_sts ex_ring (\<lambda>_. ex_req) (replicate 1024 0) = Done x"
      "transfer_of x = Some data" using ex_sent by blast
  have "no_dummy_yet (\<lambda>_. ex_req) [7, 9]" by (simp add: no_dummy_yet_def ex_req_def)
  moreover have "unat (tr_phl_next_idx ex_ring) < MAX_PHL_TX_RING_ENTRY_NUM"
    by (simp add: ex_ring_def MAX_PHL_TX_RING_ENTRY_NUM_def)
  ultimately have "length data mod unat (bulk_size ex_cfg) \<noteq> 0"
    by (rule fresh_batch_short_packet [OF ex_batch _ _ x])
  then show ?thesis using x by (auto simp: ex_cfg_def)
qed

text \<open>
  The hypothesis is needed: nothing clears the flag of a request, neither PHL nor the core that
  uses the request again. A request that carries it from an earlier transfer is predicted eight
  bytes too short, and the transfer ends with a full packet.
\<close>

definition stale_req :: xmit_req where
  "stale_req = ex_req\<lparr>xr_usb_pkt_ofst := 1, xr_total_len := 448, xr_pkt_list := [Some (replicate 448 0)]\<rparr>"

lemma stale_dummy_full_packet:
  "(case fill_transfer ex_cfg ex_fill (ex_sts\<lparr>rs_req_busy := 1\<rparr>) ex_ring (\<lambda>_. stale_req) (replicate 1024 0) of
      Fault \<Rightarrow> None | Done x \<Rightarrow> map_option length (transfer_of x)) = Some 512"
  by code_simp

end
