(* ===== verification/TxPathSteps.thy ===== *)
theory TxPathSteps
  imports TxPathInv TxFlow UsbTxProps
begin

text \<open>
  The events of the handler and of the bus keep the invariant: the start of a round
  (\<open>callback_inv\<close>), the release of ring lists at its end (\<open>return_inv\<close>), the moves of the buffers
  (\<open>take_bufs\<close>, \<open>put_bufs\<close>), and the service of a ring (\<open>serve_inv\<close>), which rests on what
  \<open>UsbTxLayout\<close> says of filling a transfer. \<open>tx_step_inv\<close> puts the events together.
\<close>

lemma started_sts:
  assumes w: "rings_wf s" and st: "sts_wf s" and idle: "t_fctrl_result s = []"
  shows "sts_wf (round_started s)"
proof -
  let ?K = "all_rings s" and ?fo = "flow_order s (t_ring_list s)"
  let ?st = "sts_of s ?K"
  have r: "rings_ready s" using w st by (rule ready_rings)
  have d: "distinct (t_ring_list s)" using w by (simp add: rings_wf_def)
  have res: "t_fctrl_result (round_started s) = map ?st ?fo"
    "sts_idle (round_started s) = drop (length (served s ?K)) (sts_idle s)"
    by (simp_all add: round_started_def after_check_def)
  have new: "rs_ring_ptr (ring_sts (round_started s) (?st k)) = Some k"
    "rs_req_busy (ring_sts (round_started s) (?st k)) = ring_busy s k" if "k \<in> set ?fo" for k
    using round_started_status [OF r d that] new_sts_served [OF r] that by (simp_all add: set_flow_order)
  have "mset (t_fctrl_result (round_started s) @ sts_idle (round_started s)) =
      mset (take (length (served s ?K)) (sts_idle s) @ drop (length (served s ?K)) (sts_idle s))"
    unfolding res mset_append flow_order_sts [OF d] ..
  then have 1: "mset (t_fctrl_result (round_started s) @ sts_idle (round_started s)) = mset [0..<MAX_PHL_RING_STATUS_NUMBER]"
    using st idle by (simp add: sts_wf_def)
  have "map (\<lambda>x. rs_ring_ptr (ring_sts (round_started s) x)) (t_fctrl_result (round_started s)) = map Some ?fo"
    using new(1) by (simp add: res(1))
  then have 2: "distinct (map (\<lambda>x. rs_ring_ptr (ring_sts (round_started s) x)) (t_fctrl_result (round_started s)))"
    using distinct_flow_order [OF d] by (simp add: distinct_map)
  have 3: "sts_ok (round_started s) (?st k)" if k: "k \<in> set ?fo" for k
  proof -
    have sv: "k \<in> set (served s ?K)" using k set_flow_order by blast
    then have cat: "snd k < MAX_PHL_RING_CAT_NUM" using served_subset [of s ?K] by (auto simp: set_ring_keys)
    have busy: "ring_busy s k \<noteq> 0" using sv by (rule served_busy)
    then obtain q where q: "ring_at s k = Some q" by (cases "ring_at s k") (auto simp: ring_busy_def)
    have len: "unat (ring_busy s k) = length (waiting s k)"
      using ring_has_busy [OF rings_wfD(1) [OF w q]] by (simp add: ring_busy_def q)
    have "ring_at (round_started s) k = Some (checked_ring s ?K k q)" by (simp add: started_rings(3) [OF w] q)
    moreover have "tr_phl_next_idx (checked_ring s ?K k q) = ring_next (tr_phl_idx (checked_ring s ?K k q))"
      using sv by (simp add: checked_ring_def)
    moreover have "0 < unat (ring_busy s k)" using busy by (simp add: unat_gt_0)
    ultimately show ?thesis
      unfolding sts_ok_def using new [OF k] cat len started_rings(2) [OF w]
      by (intro exI [of _ k] exI [of _ "checked_ring s ?K k q"]) simp
  qed
  show ?thesis unfolding sts_wf_def using 1 2 3 by (simp add: res(1))
qed

lemma callback_rings:
  assumes w: "rings_wf s" and st: "sts_wf s" and e: "t_fctrl_result s = []"
    and c: "phl_check_xmit_ring_resource s = (go, s1, sta)"
  shows "(if go then phl_tx_flow_ctrl sta s1 else s1) = round_started s"
proof -
  have d: "distinct (t_ring_list s)" "\<forall>a \<in> set (t_ring_list s). tring s a \<noteq> None"
    using w by (simp_all add: rings_wf_def)
  have fl: "phl_tx_flow_ctrl sta s1 = round_started s"
    using round_starts(1) [OF ready_rings [OF w st] d(1) e d(2) c] .
  have "go \<longleftrightarrow> sta \<noteq> []" using c by (auto simp: phl_check_xmit_ring_resource_def Let_def split: prod.splits)
  then show ?thesis using fl by (cases go) (simp_all add: phl_tx_flow_ctrl_def)
qed

lemma callback_inv:
  assumes inv: "tx_inv env p" and idle: "\<not> serving p"
  shows "tx_inv env (let (go, s1, sta_list) = phl_check_xmit_ring_resource (rings p)
     in p\<lparr>serving := True, rings := (if go then phl_tx_flow_ctrl sta_list s1 else s1)\<rparr>)"
proof -
  let ?s = "rings p"
  have w: "rings_wf ?s" and st: "sts_wf ?s" and e: "t_fctrl_result ?s = []" using inv idle by (simp_all add: tx_inv_def)
  obtain go s1 sta where c: "phl_check_xmit_ring_resource ?s = (go, s1, sta)"
    by (cases "phl_check_xmit_ring_resource ?s")
  have "tx_inv env (p\<lparr>serving := True, rings := round_started ?s\<rparr>)"
    using inv started_rings(1,2) [OF w] started_sts [OF w st e]
    by (simp add: tx_inv_def reqs_wf_def log_wf_def)
  then show ?thesis using callback_rings [OF w st e c] by (simp add: c)
qed

subsection \<open>The end of a round\<close>

lemma give_back_simps [simp]:
  "give_back [] = []" "give_back (e # es) = map (Pair (fst e)) (snd e) @ give_back es"
  "give_back (xs @ ys) = give_back xs @ give_back ys"
  by (simp_all add: give_back_def)

lemma give_back_list:
  "of_ring k (give_back (map (\<lambda>i. ((a, i), f i)) [0..<n])) = (if fst k = a \<and> snd k < n then f (snd k) else [])"
  by (induction n) (cases k; auto simp: of_ring_map less_Suc_eq)+

definition freed :: "nat list \<Rightarrow> tx_rings \<Rightarrow> tx_rings" where
  "freed as s = s\<lparr>tring := (\<lambda>a. if a \<in> set as then None else tring s a),
     t_ring_free_list := (if as = [] then t_ring_free_list s else [])\<rparr>"

lemma free_lists_all:
  assumes "distinct as" "\<forall>a \<in> set as. tring s a \<noteq> None"
  shows "\<exists>out. free_lists as s = (freed as s, out) \<and>
     (\<forall>k. of_ring k (give_back out) = (if fst k \<in> set as \<and> snd k < MAX_PHL_RING_CAT_NUM then waiting s k else []))"
  using assms
proof (induction as arbitrary: s)
  case Nil
  then show ?case by (simp add: freed_def)
next
  case (Cons a as)
  obtain L where L: "tring s a = Some L" using Cons.prems by auto
  let ?s1 = "s\<lparr>tring := (tring s)(a := None), t_ring_free_list := as\<rparr>"
  let ?out1 = "map (\<lambda>i. ((a, i), free_ring_reqs (tl_phl_ring L i))) [0..<MAX_PHL_RING_CAT_NUM]"
  have one: "phl_free_phl_tring_list a (s\<lparr>t_ring_free_list := as\<rparr>) = (?s1, ?out1)"
    by (simp add: phl_free_phl_tring_list_def L)
  have "\<forall>b \<in> set as. tring ?s1 b \<noteq> None" "distinct as" using Cons.prems by auto
  from Cons.IH [OF this(2,1)] obtain out where out: "free_lists as ?s1 = (freed as ?s1, out)"
      "\<And>k. of_ring k (give_back out) = (if fst k \<in> set as \<and> snd k < MAX_PHL_RING_CAT_NUM then waiting ?s1 k else [])"
    by blast
  have o1: "of_ring k (give_back ?out1) = (if fst k = a \<and> snd k < MAX_PHL_RING_CAT_NUM then waiting s k else [])" for k
    unfolding give_back_list by (simp add: waiting_def ring_at_def L)
  have o2: "fst k \<noteq> a \<Longrightarrow> waiting ?s1 k = waiting s k" for k by (simp add: waiting_def ring_at_def)
  have "of_ring k (give_back (?out1 @ out)) =
      (if fst k \<in> set (a # as) \<and> snd k < MAX_PHL_RING_CAT_NUM then waiting s k else [])" for k
    using o2 [of k] Cons.prems(1) by (auto simp: o1 out(2))
  moreover have "freed as ?s1 = freed (a # as) s"
    by (auto simp: freed_def fun_eq_iff)
  then have "free_lists (a # as) s = (freed (a # as) s, ?out1 @ out)"
    using one out(1) by simp
  ultimately show ?case by blast
qed

lemma return_inv:
  assumes inv: "tx_inv env p" and e: "t_fctrl_result (rings p) = []"
    and f: "phl_free_deferred_tx_ring (rings p) = (s, out)"
  shows "tx_inv env (p\<lparr>serving := False, rings := s, given := given p @ give_back out\<rparr>)"
    and "t_ring_free_list s = []"
proof -
  let ?s = "rings p" and ?F = "t_ring_free_list (rings p)"
  have w: "rings_wf ?s" and st: "sts_wf ?s" and rq: "reqs_wf env ?s (reqs p)" and lg: "log_wf p"
    and bf: "bufs_wf env (usb p) (map fst (on_bus p))"
    using inv by (simp_all add: tx_inv_def)
  have al: "distinct ?F" "\<forall>a \<in> set ?F. tring ?s a \<noteq> None" using w by (auto simp: rings_wf_def)
  have fr: "free_lists ?F ?s = (s, out)" using f by (simp add: phl_free_deferred_tx_ring_def)
  have sF: "s = freed ?F ?s"
    and out: "of_ring k (give_back out) = (if fst k \<in> set ?F \<and> snd k < MAX_PHL_RING_CAT_NUM then waiting ?s k else [])" for k
    using free_lists_all [OF al] unfolding fr prod.inject by blast+
  have s: "s = ?s\<lparr>tring := (\<lambda>a. if a \<in> set ?F then None else tring ?s a), t_ring_free_list := []\<rparr>"
    unfolding sF freed_def by (cases "?F = []") simp_all
  show "t_ring_free_list s = []" by (simp add: s)
  have wt: "waiting s k = (if fst k \<in> set ?F then [] else waiting ?s k)" for k
    unfolding s by (simp add: waiting_def ring_at_def)
  have small: "waiting ?s k = []" if big: "\<not> snd k < MAX_PHL_RING_CAT_NUM" for k
  proof (rule ccontr)
    assume "waiting ?s k \<noteq> []"
    then obtain q where "q \<in> set (waiting ?s k)" by (cases "waiting ?s k") auto
    then show False using reqs_wfD(3) [OF rq] big by blast
  qed
  have "rings_wf s"
    using w unfolding rings_wf_def s by (auto split: if_splits)
  moreover have "sts_wf s" using st e unfolding sts_wf_def s by simp
  moreover have "reqs_wf env s (reqs p)"
    unfolding reqs_wf_def
  proof (intro conjI allI impI)
    fix k k' q
    show "distinct (waiting s k)" using reqs_wfD(1) [OF rq] by (simp add: wt)
    have sub: "set (waiting s k) \<subseteq> set (waiting ?s k)" for k by (simp add: wt)
    show "k = k'" if "q \<in> set (waiting s k)" "q \<in> set (waiting s k')"
      using reqs_wfD(2) [OF rq] that sub by blast
    show "snd k < MAX_PHL_RING_CAT_NUM" "req_fits env (snd k) (reqs p q)" if "q \<in> set (waiting s k)"
      using reqs_wfD(3,4) [OF rq] that sub by blast+
  qed
  moreover have "of_ring k (added p) = of_ring k (given p) @ of_ring k (give_back out) @ waiting s k" for k
  proof -
    have "of_ring k (added p) = of_ring k (given p) @ waiting ?s k" using lg unfolding log_wf_def by blast
    then show ?thesis using small [of k] by (simp add: out wt)
  qed
  moreover have "t_fctrl_result s = []" using e by (simp add: s)
  ultimately show "tx_inv env (p\<lparr>serving := False, rings := s, given := given p @ give_back out\<rparr>)"
    using bf by (simp add: tx_inv_def log_wf_def)
qed

subsection \<open>The buffers\<close>

lemma dequeue_Some:
  assumes "pq_wf q" "dequeue_usb_buf q = (Some b, q')"
  shows "pq_queue q = b # pq_queue q'" "pq_wf q'"
  using assms by (auto simp: dequeue_usb_buf_def pq_wf_def split: list.splits)

lemma enqueue_Some:
  "pq_queue (snd (enqueue_usb_buf q (Some b) Tail)) = pq_queue q @ [b]"
  "pq_wf q \<Longrightarrow> pq_wf (snd (enqueue_usb_buf q (Some b) Tail))"
  by (simp_all add: enqueue_usb_buf_def pq_wf_push)

lemmas buf_moves = dequeue_Some enqueue_Some

lemma buf_typed_cong: "u_buf u' b = u_buf u b \<Longrightarrow> buf_typed env u' b = buf_typed env u b"
  by (simp add: buf_typed_def)

text \<open>A buffer that has been taken counts as one on the bus.\<close>

lemma take_bufs:
  assumes w: "bufs_wf env u bus"
  shows "dequeue_usb_buf (idle_txbuf_list u) = (Some b, q) \<Longrightarrow>
      bufs_wf env (u\<lparr>idle_txbuf_list := q\<rparr>) (bus @ [b]) \<and> b < te_buf_num env"
    and "dequeue_usb_buf (mgmt_txbuf_list u) = (Some b, q) \<Longrightarrow>
      bufs_wf env (u\<lparr>mgmt_txbuf_list := q\<rparr>) (bus @ [b]) \<and>
      te_buf_num env \<le> b \<and> b < te_buf_num env + te_mgnt_buf_num env"
    and "dequeue_usb_buf (h2c_txbuf_list u) = (Some b, q) \<Longrightarrow>
      bufs_wf env (u\<lparr>h2c_txbuf_list := q\<rparr>) (bus @ [b]) \<and> te_buf_num env + te_mgnt_buf_num env \<le> b"
proof -
  have wf: "pq_wf (idle_txbuf_list u)" "pq_wf (mgmt_txbuf_list u)" "pq_wf (h2c_txbuf_list u)"
    using w by (simp_all add: bufs_wf_def)
  show "bufs_wf env (u\<lparr>idle_txbuf_list := q\<rparr>) (bus @ [b]) \<and> b < te_buf_num env"
    if "dequeue_usb_buf (idle_txbuf_list u) = (Some b, q)"
    using w dequeue_Some [OF wf(1) that] by (simp add: bufs_wf_def buf_typed_def)
  show "bufs_wf env (u\<lparr>mgmt_txbuf_list := q\<rparr>) (bus @ [b]) \<and>
      te_buf_num env \<le> b \<and> b < te_buf_num env + te_mgnt_buf_num env"
    if "dequeue_usb_buf (mgmt_txbuf_list u) = (Some b, q)"
    using w dequeue_Some [OF wf(2) that] by (simp add: bufs_wf_def buf_typed_def)
  show "bufs_wf env (u\<lparr>h2c_txbuf_list := q\<rparr>) (bus @ [b]) \<and> te_buf_num env + te_mgnt_buf_num env \<le> b"
    if "dequeue_usb_buf (h2c_txbuf_list u) = (Some b, q)"
    using w dequeue_Some [OF wf(3) that] by (simp add: bufs_wf_def buf_typed_def)
qed

lemma put_bufs:
  assumes w: "bufs_wf env u (bus @ [b])"
  shows "b < te_buf_num env \<Longrightarrow>
      bufs_wf env (u\<lparr>idle_txbuf_list := snd (enqueue_usb_buf (idle_txbuf_list u) (Some b) Tail)\<rparr>) bus"
    and "te_buf_num env \<le> b \<Longrightarrow> b < te_buf_num env + te_mgnt_buf_num env \<Longrightarrow>
      bufs_wf env (u\<lparr>mgmt_txbuf_list := snd (enqueue_usb_buf (mgmt_txbuf_list u) (Some b) Tail)\<rparr>) bus"
    and "te_buf_num env + te_mgnt_buf_num env \<le> b \<Longrightarrow>
      bufs_wf env (u\<lparr>h2c_txbuf_list := snd (enqueue_usb_buf (h2c_txbuf_list u) (Some b) Tail)\<rparr>) bus"
  using w by (simp_all add: bufs_wf_def buf_typed_def enqueue_Some add_ac)

lemma bufs_mset: "bufs_wf env u bus \<Longrightarrow> mset bus' = mset bus \<Longrightarrow> bufs_wf env u bus'"
  by (simp add: bufs_wf_def)

lemma bufs_cong:
  "bufs_wf env u bus \<Longrightarrow> idle_txbuf_list u' = idle_txbuf_list u \<Longrightarrow> mgmt_txbuf_list u' = mgmt_txbuf_list u \<Longrightarrow>
   h2c_txbuf_list u' = h2c_txbuf_list u \<Longrightarrow> u_buf u' = u_buf u \<Longrightarrow> bufs_wf env u' bus"
  by (simp add: bufs_wf_def buf_typed_def)

lemma remove_entry:
  "distinct (map fst es) \<Longrightarrow> b \<in> set (map fst es) \<Longrightarrow>
   mset (map fst (filter (\<lambda>e. fst e \<noteq> b) es) @ [b]) = mset (map fst es)"
proof (induction es)
  case (Cons e es)
  show ?case
  proof (cases "fst e = b")
    case True
    have "filter (\<lambda>e. fst e \<noteq> b) es = es"
      unfolding filter_id_conv using Cons.prems(1) True by (metis distinct.simps(2) image_eqI list.simps(9) set_map)
    then show ?thesis using True by simp
  qed (use Cons in auto)
qed simp

text \<open>What is written into a buffer keeps its length and its kind.\<close>

lemma write_bufs:
  assumes "bufs_wf env u bus" "ub_type B = ub_type (u_buf u b)" "length (ub_buffer B) = length (ub_buffer (u_buf u b))"
  shows "bufs_wf env (u\<lparr>u_buf := (u_buf u)(b := B)\<rparr>) bus"
  using assms by (simp add: bufs_wf_def buf_typed_def)

lemma bufs_distinct:
  assumes "bufs_wf env u bus"
  shows "distinct bus"
proof -
  have "distinct (pq_queue (idle_txbuf_list u) @ pq_queue (mgmt_txbuf_list u) @ pq_queue (h2c_txbuf_list u) @ bus)"
    using assms distinct_upt mset_eq_imp_distinct_iff unfolding bufs_wf_def by blast
  then show ?thesis by simp
qed

lemma h2c_inv:
  assumes inv: "tx_inv env p"
  shows "tx_inv env (case phl_pltfm_tx_usb pkt sent (usb p) of
      (_, None, u) \<Rightarrow> p\<lparr>usb := u\<rparr>
    | (_, Some b, u) \<Rightarrow> p\<lparr>usb := u, on_bus := on_bus p @ [(b, None)]\<rparr>)"
proof -
  let ?u = "usb p"
  have w: "bufs_wf env ?u (map fst (on_bus p))" using inv by (simp add: tx_inv_def)
  obtain o' q where d: "dequeue_usb_buf (h2c_txbuf_list ?u) = (o', q)" by fastforce
  show ?thesis
  proof (cases o')
    case None
    then show ?thesis using inv d by (simp add: phl_pltfm_tx_usb_def)
  next
    case (Some b)
    note t = take_bufs(3) [OF w d [unfolded Some]]
    let ?u1 = "?u\<lparr>h2c_txbuf_list := q, u_buf := (u_buf ?u)(b := (u_buf ?u b)\<lparr>ub_h2c := Some pkt\<rparr>)\<rparr>"
    have w1: "bufs_wf env ?u1 (map fst (on_bus p) @ [b])"
      using write_bufs [OF conjunct1 [OF t], of "(u_buf ?u b)\<lparr>ub_h2c := Some pkt\<rparr>" b] by simp
    show ?thesis
    proof (cases sent)
      case True
      then show ?thesis using inv w1 d Some by (simp add: phl_pltfm_tx_usb_def tx_inv_def log_wf_def)
    next
      case False
      let ?u2 = "?u1\<lparr>u_buf := (u_buf ?u1)(b := (u_buf ?u1 b)\<lparr>ub_h2c := None\<rparr>)\<rparr>"
      have "bufs_wf env ?u2 (map fst (on_bus p) @ [b])" by (rule write_bufs [OF w1]) simp_all
      from put_bufs(3) [OF this conjunct2 [OF t]]
      have "bufs_wf env (?u2\<lparr>h2c_txbuf_list := snd (enqueue_usb_buf (h2c_txbuf_list ?u2) (Some b) Tail)\<rparr>) (map fst (on_bus p))" .
      then have "bufs_wf env (snd (snd (phl_pltfm_tx_usb pkt sent ?u))) (map fst (on_bus p))"
        by (rule bufs_cong) (use False d Some in \<open>simp_all add: phl_pltfm_tx_usb_def Let_def\<close>)
      moreover have "fst (snd (phl_pltfm_tx_usb pkt sent ?u)) = None"
        using False d Some by (simp add: phl_pltfm_tx_usb_def Let_def)
      ultimately show ?thesis
        using inv by (auto simp: tx_inv_def log_wf_def split: prod.split option.split)
    qed
  qed
qed

lemma complete_inv:
  assumes inv: "tx_inv env p" and b: "b \<in> set (map fst (on_bus p))"
  shows "tx_inv env (p\<lparr>on_bus := filter (\<lambda>e. fst e \<noteq> b) (on_bus p), usb := phl_tx_release_buf_usb b (usb p)\<rparr>)"
proof -
  let ?u = "usb p" and ?bus = "map fst (filter (\<lambda>e. fst e \<noteq> b) (on_bus p))"
  have w: "bufs_wf env ?u (map fst (on_bus p))" using inv by (simp add: tx_inv_def)
  have "mset (?bus @ [b]) = mset (map fst (on_bus p))" using bufs_distinct [OF w] b by (rule remove_entry)
  then have w1: "bufs_wf env ?u (?bus @ [b])" by (rule bufs_mset [OF w])
  have ty: "buf_typed env ?u b" using w by (simp add: bufs_wf_def)
  have "bufs_wf env (phl_tx_release_buf_usb b ?u) ?bus"
  proof (cases "b < te_buf_num env")
    case True
    then show ?thesis using put_bufs(1) [OF w1] ty by (simp add: phl_tx_release_buf_usb_def buf_typed_def)
  next
    case nd: False
    show ?thesis
    proof (cases "b < te_buf_num env + te_mgnt_buf_num env")
      case True
      then show ?thesis using put_bufs(2) [OF w1] nd ty by (simp add: phl_tx_release_buf_usb_def buf_typed_def)
    next
      case False
      let ?u1 = "?u\<lparr>u_buf := (u_buf ?u)(b := (u_buf ?u b)\<lparr>ub_h2c := None\<rparr>)\<rparr>"
      have "bufs_wf env ?u1 (?bus @ [b])" by (rule write_bufs [OF w1]) simp_all
      from put_bufs(3) [OF this] False
      have "bufs_wf env (?u1\<lparr>h2c_txbuf_list := snd (enqueue_usb_buf (h2c_txbuf_list ?u1) (Some b) Tail)\<rparr>) ?bus" by simp
      then show ?thesis
        by (rule bufs_cong) (use ty nd False in \<open>simp_all add: phl_tx_release_buf_usb_def buf_typed_def\<close>)
    qed
  qed
  then show ?thesis using inv by (simp add: tx_inv_def log_wf_def)
qed

subsection \<open>Serving a ring\<close>

lemma same_req_fits: "same_req q q' \<Longrightarrow> req_fits env c q' = req_fits env c q"
  by (simp add: req_fits_def same_req_ok) (simp add: same_req_def wdl_def payload_def mac_txdesc_len_def req_ok_def)

text \<open>What the handler relies on when it takes the status \<open>x\<close> with the buffer \<open>b\<close>.\<close>

definition serves :: "tx_env \<Rightarrow> nat \<Rightarrow> nat \<times> nat \<Rightarrow> tx_ring \<Rightarrow> nat \<Rightarrow> tx_path \<Rightarrow> bool" where
  "serves env x k r b p \<longleftrightarrow>
     rs_ring_ptr (ring_sts (rings p) x) = Some k \<and> snd k < MAX_PHL_RING_CAT_NUM \<and> ring_at (rings p) k = Some r \<and>
     tr_phl_next_idx r = ring_next (tr_phl_idx r) \<and> 0 < unat (rs_req_busy (ring_sts (rings p) x)) \<and>
     unat (rs_req_busy (ring_sts (rings p) x)) \<le> length (waiting (rings p) k) \<and>
     (if snd k = RTW_PHL_RING_CAT_MGNT then te_buf_num env \<le> b \<and> b < te_buf_num env + te_mgnt_buf_num env
      else b < te_buf_num env)"

lemma serves_batch:
  assumes e: "env_ok env" and w: "rings_wf (rings p)" and rq: "reqs_wf env (rings p) (reqs p)"
    and bf: "bufs_wf env (usb p) bus" and sv: "serves env x k r b p"
  shows "batch_ok (te_cfg env) (te_fill env) (ring_sts (rings p) x) r (reqs p) (ub_buffer (u_buf (usb p) b))
     (take (unat (rs_req_busy (ring_sts (rings p) x))) (waiting (rings p) k))"
proof -
  let ?n = "unat (rs_req_busy (ring_sts (rings p) x))" and ?ws = "waiting (rings p) k"
  have S: "ring_at (rings p) k = Some r" "tr_phl_next_idx r = ring_next (tr_phl_idx r)" "0 < ?n" "?n \<le> length ?ws"
    and b: "if snd k = RTW_PHL_RING_CAT_MGNT then te_buf_num env \<le> b \<and> b < te_buf_num env + te_mgnt_buf_num env
      else b < te_buf_num env" using sv by (simp_all add: serves_def)
  have ne: "take ?n ?ws \<noteq> []" using S(3,4) by auto
  have fits: "req_fits env (snd k) (reqs p q)" if "q \<in> set (take ?n ?ws)" for q
    using reqs_wfD(4) [OF rq in_set_takeD [OF that]] .
  have hd: "req_fits env (snd k) (reqs p (hd (take ?n ?ws)))" by (rule fits [OF hd_in_set [OF ne]])
  have rl: "ring_lists (tr_entry r) (tr_phl_next_idx r) (take ?n ?ws)"
    unfolding S(2) by (rule ring_lists_take [OF ring_has_lists [OF rings_wfD(1) [OF w S(1)]]])
  have ty: "buf_typed env (usb p) b" using bf by (simp add: bufs_wf_def)
  have buf: "length (ub_buffer (u_buf (usb p) b)) = unat (tx_buf_size (te_cfg env)) \<or>
      xr_type (reqs p (hd (take ?n ?ws))) \<noteq> PKT_TYPE_DATA \<and>
      wdl (reqs p (hd (take ?n ?ws))) + 8 + length (payload (reqs p (hd (take ?n ?ws)))) \<le> length (ub_buffer (u_buf (usb p) b))"
  proof (cases "snd k = RTW_PHL_RING_CAT_MGNT")
    case True
    then show ?thesis using b ty hd by (simp add: buf_typed_def req_fits_def)
  next
    case False
    then show ?thesis using b ty by (simp add: buf_typed_def)
  qed
  have data: "\<forall>q \<in> set (take ?n ?ws). xr_type (reqs p q) = PKT_TYPE_DATA"
    if d: "xr_type (reqs p (hd (take ?n ?ws))) = PKT_TYPE_DATA"
  proof -
    have "snd k \<noteq> RTW_PHL_RING_CAT_MGNT" using hd d by (auto simp: req_fits_def)
    then show ?thesis using fits by (simp add: req_fits_def)
  qed
  show ?thesis
    unfolding batch_ok_def
    using e ne rl buf data fits reqs_wfD(1) [OF rq, of k] S(4)
    by (simp add: env_ok_def distinct_take req_fits_def del: take_eq_Nil)
qed

text \<open>The path after the handler has served a ring: \<open>n\<close> requests have left it.\<close>

lemma handle_done:
  assumes e: "env_ok env" and w: "rings_wf (rings p)" and rq: "reqs_wf env (rings p) (reqs p)"
    and bf: "bufs_wf env (usb p) bus" and sv: "serves env x k r b p"
  obtains y n where "fill_transfer (te_cfg env) (te_fill env) (ring_sts (rings p) x) r (reqs p)
       (ub_buffer (u_buf (usb p) b)) = Done y"
    and "n \<le> length (waiting (rings p) k)" "ring_has (x_ring y) (drop n (waiting (rings p) k))" "tr_cat (x_ring y) = tr_cat r"
    and "filter (\<lambda>q. recycles t (x_reqs y q)) (x_done y) = take n (waiting (rings p) k)"
    and "length (x_buf y) = length (ub_buffer (u_buf (usb p) b))" "\<And>q. same_req (reqs p q) (x_reqs y q)"
    and "transfer_of y \<noteq> None \<Longrightarrow> 0 < n"
proof -
  let ?n = "unat (rs_req_busy (ring_sts (rings p) x))" and ?ws = "waiting (rings p) k"
  have S: "ring_at (rings p) k = Some r" "tr_phl_next_idx r = ring_next (tr_phl_idx r)" "?n \<le> length ?ws"
    using sv by (simp_all add: serves_def)
  obtain y n where y: "fill_transfer (te_cfg env) (te_fill env) (ring_sts (rings p) x) r (reqs p)
       (ub_buffer (u_buf (usb p) b)) = Done y"
    and t: "taken_from (te_cfg env) (te_fill env) (xmit_start (ring_sts (rings p) x) r (reqs p) (ub_buffer (u_buf (usb p) b)))
       (take ?n ?ws) n y"
    using fill_transfer_taken [OF serves_batch [OF assms]] by blast
  note D = taken_fromD [OF t]
  have n: "n \<le> ?n" "n \<le> length ?ws" using D(1) S(3) by simp_all
  let ?x = "xmit_start (ring_sts (rings p) x) r (reqs p) (ub_buffer (u_buf (usb p) b))"
  have xr: "x_ring ?x = r" by (simp add: xmit_start_def)
  obtain nx where ring: "x_ring y = (x_ring ?x)\<lparr>tr_phl_next_idx := nx, tr_phl_idx :=
      (if n = 0 then tr_phl_idx (x_ring ?x) else (ring_next ^^ (n - 1)) (tr_phl_next_idx (x_ring ?x)))\<rparr>"
    using t unfolding taken_from_def by blast
  have eq: "(if n = 0 then tr_phl_idx r else (ring_next ^^ (n - 1)) (tr_phl_next_idx r)) = (ring_next ^^ n) (tr_phl_idx r)"
    by (cases n) (simp_all add: S(2) funpow_swap1)
  have idx: "tr_phl_idx (x_ring y) = (ring_next ^^ n) (tr_phl_idx r)"
    unfolding ring xr eq by simp
  have rest: "tr_core_idx (x_ring y) = tr_core_idx r"
      "tr_entry (x_ring y) = tr_entry r" "tr_cat (x_ring y) = tr_cat r"
    by (simp_all add: ring xr)
  have has: "ring_has (x_ring y) (drop n ?ws)"
    by (rule ring_has_advance [OF rings_wfD(1) [OF w S(1)] n(2) idx rest(1,2)])
  have same: "same_req (reqs p q) (x_reqs y q)" for q using D(8) [of q] by (simp add: xmit_start_def)
  have dn: "x_done y = take n ?ws" using D(2) n(1) by (simp add: xmit_start_def min_absorb1)
  have "recycles t (x_reqs y q)" if "q \<in> set (take n ?ws)" for q
    using reqs_wfD(4) [OF rq in_set_takeD [OF that]] same [of q] by (simp add: req_fits_def same_req_def recycles_def)
  then have "filter (\<lambda>q. recycles t (x_reqs y q)) (x_done y) = take n ?ws" unfolding dn by (simp add: filter_id_conv)
  moreover have "length (x_buf y) = length (ub_buffer (u_buf (usb p) b))" using D(3) by (simp add: xmit_start_def)
  moreover have "0 < n" if "transfer_of y \<noteq> None"
  proof (rule ccontr)
    assume "\<not> 0 < n"
    then have "x_pstatus y = RTW_PHL_STATUS_FAILURE" using D(7) by (simp add: xmit_start_def)
    then show False using that by (simp add: transfer_of_def)
  qed
  ultimately show thesis using that [OF y n(2) has rest(3)] same by blast
qed

lemma drop_reqs_wf:
  assumes rq: "reqs_wf env s R" and same: "\<And>q. same_req (R q) (R' q)"
    and wt: "\<And>k'. waiting s' k' = (if k' = k then drop n (waiting s k) else waiting s k')"
  shows "reqs_wf env s' R'"
  unfolding reqs_wf_def
proof (intro conjI allI impI)
  have sub: "set (waiting s' k) \<subseteq> set (waiting s k)" for k using wt [of k] by (auto dest: in_set_dropD)
  fix k k' q
  show "distinct (waiting s' k)" using reqs_wfD(1) [OF rq] by (simp add: wt distinct_drop)
  show "k = k'" if "q \<in> set (waiting s' k)" "q \<in> set (waiting s' k')"
    using reqs_wfD(2) [OF rq] that sub by blast
  assume "q \<in> set (waiting s' k)"
  then have q: "q \<in> set (waiting s k)" using sub by blast
  show "snd k < MAX_PHL_RING_CAT_NUM" "req_fits env (snd k) (R' q)"
    using reqs_wfD(3,4) [OF rq q] same_req_fits [OF same [of q]] by simp_all
qed

lemma handle_inv:
  assumes e: "env_ok env" and w: "rings_wf (rings p)" and rq: "reqs_wf env (rings p) (reqs p)" and lg: "log_wf p"
    and bf: "bufs_wf env (usb p) (map fst (on_bus p) @ [b])" and sv: "serves env x k r b p"
  obtains p' n m where "phl_handle_xmit_ring_usb env sent x b p = Done p'"
    and "rings_wf (rings p')" "reqs_wf env (rings p') (reqs p')" "log_wf p'" "bufs_wf env (usb p') (map fst (on_bus p'))"
    and "serving p' = serving p"
    and "rings p' = phl_release_ring_sts x (put_ring k n (rings p))"
    and "waiting (rings p') k = drop m (waiting (rings p) k)"
    and "(\<exists>y data. fill_transfer (te_cfg env) (te_fill env) (ring_sts (rings p) x) r (reqs p)
       (ub_buffer (u_buf (usb p) b)) = Done y \<and> transfer_of y = Some data) \<longrightarrow> 0 < m"
proof -
  let ?s = "rings p" and ?u = "usb p" and ?B = "u_buf (usb p) b"
  have S: "rs_ring_ptr (ring_sts ?s x) = Some k" "ring_at ?s k = Some r" "snd k < MAX_PHL_RING_CAT_NUM"
    and b: "if snd k = RTW_PHL_RING_CAT_MGNT then te_buf_num env \<le> b \<and> b < te_buf_num env + te_mgnt_buf_num env
      else b < te_buf_num env" using sv by (simp_all add: serves_def)
  obtain y n where y: "fill_transfer (te_cfg env) (te_fill env) (ring_sts ?s x) r (reqs p) (ub_buffer ?B) = Done y"
    and n: "n \<le> length (waiting ?s k)" and has: "ring_has (x_ring y) (drop n (waiting ?s k))" "tr_cat (x_ring y) = tr_cat r"
    and rec: "filter (\<lambda>q. recycles (te_test_recycle env) (x_reqs y q)) (x_done y) = take n (waiting ?s k)"
    and len: "length (x_buf y) = length (ub_buffer ?B)" and same: "\<And>q. same_req (reqs p q) (x_reqs y q)"
    and pos: "transfer_of y \<noteq> None \<Longrightarrow> 0 < n"
    by (rule handle_done [OF e w rq bf sv, of "te_test_recycle env"]) blast
  define buf where "buf = (if x_pstatus y = RTW_PHL_STATUS_SUCCESS \<and> x_type y = PKT_TYPE_DATA \<and> x_agg_cnt y > 1
      then rtw_hal_usb_tx_agg_cfg (x_agg_cnt y) (x_buf y) else x_buf y)"
  define u where "u = ?u\<lparr>u_buf := (u_buf ?u)(b := ?B\<lparr>ub_buffer := buf\<rparr>)\<rparr>"
  define ok where "ok \<longleftrightarrow> transfer_of y \<noteq> None \<and> sent"
  define s' where "s' = phl_release_ring_sts x (put_ring k (x_ring y) ?s)"
  define p' where "p' = p\<lparr>rings := s', reqs := x_reqs y, usb := (if ok then u else put_back_buf (tr_cat r) b u),
      on_bus := (if ok then on_bus p @ [(b, transfer_of y)] else on_bus p),
      given := given p @ map (Pair k) (take n (waiting ?s k))\<rparr>"
  have res: "phl_handle_xmit_ring_usb env sent x b p = Done p'"
    by (simp add: phl_handle_xmit_ring_usb_def S y Let_def rec p'_def buf_def u_def ok_def s'_def)
  have ra: "ring_at s' = ring_at (put_ring k (x_ring y) ?s)"
    by (rule ext) (simp add: s'_def phl_release_ring_sts_def ring_at_def)
  have wt: "waiting s' k' = (if k' = k then drop n (waiting ?s k) else waiting ?s k')" for k'
    using waiting_put [OF S(2), of "x_ring y" k'] ring_has_reqs [OF has(1)] by (simp add: waiting_def ra)
  have w': "rings_wf s'"
    using rings_wf_put [OF w S(2) has] by (simp add: s'_def phl_release_ring_sts_def rings_wf_def)
  have rq': "reqs_wf env s' (x_reqs y)" by (rule drop_reqs_wf [OF rq same wt])
  have lg': "log_wf p'"
    unfolding log_wf_def
  proof
    fix k'
    have "of_ring k' (added p) = of_ring k' (given p) @ waiting ?s k'" using lg unfolding log_wf_def by blast
    then show "of_ring k' (added p') = of_ring k' (given p') @ waiting (rings p') k'"
      by (simp add: p'_def wt of_ring_map)
  qed
  have "length buf = length (ub_buffer ?B)" by (simp add: buf_def len rtw_hal_usb_tx_agg_cfg_def)
  then have bu: "bufs_wf env u (map fst (on_bus p) @ [b])" unfolding u_def by (intro write_bufs [OF bf]) simp_all
  have cat: "tr_cat r = snd k" using rings_wfD(2) [OF w S(2,3)] .
  have "bufs_wf env (put_back_buf (tr_cat r) b u) (map fst (on_bus p))"
    using put_bufs(1,2) [OF bu] b by (simp add: put_back_buf_def cat split: if_splits)
  then have bf': "bufs_wf env (usb p') (map fst (on_bus p'))" using bu by (simp add: p'_def)
  show thesis
  proof (rule that [OF res _ _ lg' bf'])
    show "rings p' = phl_release_ring_sts x (put_ring k (x_ring y) (rings p))" by (simp add: p'_def s'_def)
    show "waiting (rings p') k = drop n (waiting (rings p) k)" by (simp add: p'_def wt)
    show "(\<exists>y data. fill_transfer (te_cfg env) (te_fill env) (ring_sts (rings p) x) r (reqs p)
       (ub_buffer (u_buf (usb p) b)) = Done y \<and> transfer_of y = Some data) \<longrightarrow> 0 < n"
      using y pos by auto
  qed (simp_all add: p'_def w' rq')
qed

text \<open>
  What it takes to send a request of the ring \<open>k\<close>: a buffer is idle, the oldest request is short
  enough for a buffer and the HAL builds descriptors.
\<close>

definition can_send :: "tx_env \<Rightarrow> tx_path \<Rightarrow> nat \<times> nat \<Rightarrow> bool" where
  "can_send env p k \<longleftrightarrow> (\<forall>q. te_fill env q \<noteq> None) \<and>
     pq_queue (if snd k = RTW_PHL_RING_CAT_MGNT then mgmt_txbuf_list (usb p) else idle_txbuf_list (usb p)) \<noteq> [] \<and>
     fits (te_cfg env) 0 (wdl (reqs p (hd (waiting (rings p) k))) + 8 + length (payload (reqs p (hd (waiting (rings p) k)))))"

lemma can_send_fill:
  assumes e: "env_ok env" and w: "rings_wf (rings p)" and rq: "reqs_wf env (rings p) (reqs p)"
    and bf: "bufs_wf env (usb p) bus" and sv: "serves env x k r b p" and f: "\<forall>q. te_fill env q \<noteq> None"
    and ft: "fits (te_cfg env) 0 (wdl (reqs p (hd (waiting (rings p) k))) + 8 + length (payload (reqs p (hd (waiting (rings p) k)))))"
  shows "\<exists>y data. fill_transfer (te_cfg env) (te_fill env) (ring_sts (rings p) x) r (reqs p)
       (ub_buffer (u_buf (usb p) b)) = Done y \<and> transfer_of y = Some data"
proof -
  let ?n = "unat (rs_req_busy (ring_sts (rings p) x))"
  have "hd (take ?n (waiting (rings p) k)) = hd (waiting (rings p) k)" using sv by (simp add: serves_def)
  then show ?thesis using first_is_sent [OF serves_batch [OF e w rq bf sv] f] ft by simp
qed

lemma sts_taken:
  assumes st: "sts_wf s" and x: "t_fctrl_result s = x # xs" and k: "rs_ring_ptr (ring_sts s x) = Some k"
    and s': "t_fctrl_result s' = xs" "sts_idle s' = sts_idle s @ [x]" "ring_sts s' = (ring_sts s)(x := blank_sts)"
    and other: "\<And>k'. k' \<noteq> k \<Longrightarrow> ring_at s' k' = ring_at s k'"
  shows "sts_wf s'"
proof -
  have m: "mset (t_fctrl_result s @ sts_idle s) = mset [0..<MAX_PHL_RING_STATUS_NUMBER]"
    and d: "distinct (map (\<lambda>x. rs_ring_ptr (ring_sts s x)) (x # xs))" and ok: "\<forall>z \<in> set (x # xs). sts_ok s z"
    using st by (simp_all add: sts_wf_def x)
  have nx: "x \<notin> set xs" using d by auto
  have "sts_ok s' z" if z: "z \<in> set xs" for z
  proof -
    have zx: "ring_sts s' z = ring_sts s z" using z nx by (auto simp: s'(3))
    have "sts_ok s z" using ok z by simp
    then obtain k' q where q: "rs_ring_ptr (ring_sts s z) = Some k'" "snd k' < MAX_PHL_RING_CAT_NUM"
        "ring_at s k' = Some q" "tr_phl_next_idx q = ring_next (tr_phl_idx q)"
        "0 < unat (rs_req_busy (ring_sts s z))" "unat (rs_req_busy (ring_sts s z)) \<le> length (waiting s k')"
      unfolding sts_ok_def by blast
    have "rs_ring_ptr (ring_sts s x) \<noteq> rs_ring_ptr (ring_sts s z)" using d z by auto
    then have "k' \<noteq> k" using q(1) k by auto
    then have "ring_at s' k' = ring_at s k'" by (rule other)
    then show ?thesis using q unfolding sts_ok_def zx waiting_def by auto
  qed
  moreover have eq: "map (\<lambda>z. rs_ring_ptr (ring_sts s' z)) xs = map (\<lambda>z. rs_ring_ptr (ring_sts s z)) xs"
    using nx by (auto simp: s'(3))
  have "distinct (map (\<lambda>z. rs_ring_ptr (ring_sts s' z)) xs)" unfolding eq using d by simp
  moreover have "mset (xs @ sts_idle s @ [x]) = mset [0..<MAX_PHL_RING_STATUS_NUMBER]" using m by (simp add: x)
  ultimately show ?thesis unfolding sts_wf_def s'(1,2) by blast
qed

lemma serve_inv:
  assumes e: "env_ok env" and inv: "tx_inv env p" and sv: "serving p" and x: "t_fctrl_result (rings p) = x # xs"
    and st: "tx_step env (T_serve sent) p = Some z"
  shows "\<exists>p' k m. z = Done p' \<and> tx_inv env p' \<and> serving p' \<and> t_fctrl_result (rings p') = xs \<and>
     rs_ring_ptr (ring_sts (rings p) x) = Some k \<and> waiting (rings p') k = drop m (waiting (rings p) k) \<and>
     (can_send env p k \<longrightarrow> 0 < m)"
proof -
  let ?s = "rings p" and ?t = "(rings p)\<lparr>t_fctrl_result := xs\<rparr>"
  have w: "rings_wf ?s" and ss: "sts_wf ?s" and rq: "reqs_wf env ?s (reqs p)" and lg: "log_wf p"
    and bf: "bufs_wf env (usb p) (map fst (on_bus p))"
    using inv by (simp_all add: tx_inv_def)
  have "sts_ok ?s x" using ss by (simp add: sts_wf_def x)
  then obtain k r where k: "rs_ring_ptr (ring_sts ?s x) = Some k" "snd k < MAX_PHL_RING_CAT_NUM"
      "ring_at ?s k = Some r" "tr_phl_next_idx r = ring_next (tr_phl_idx r)"
      "0 < unat (rs_req_busy (ring_sts ?s x))" "unat (rs_req_busy (ring_sts ?s x)) \<le> length (waiting ?s k)"
    unfolding sts_ok_def by blast
  have same: "waiting ?t = waiting ?s" "ring_at ?t = ring_at ?s" by (auto simp: waiting_def ring_at_def fun_eq_iff)
  have w0: "rings_wf ?t" using w by (simp add: rings_wf_def)
  have cat: "sts_cat ?t x = snd k"
    using rings_wfD(2) [OF w k(3,2)] by (simp add: sts_cat_def k(1) same k(3))
  show ?thesis
  proof (cases "phl_tx_flow_ctrl_usb x (?t, usb p)")
    case (fields ob s u)
    show ?thesis
    proof (cases ob)
      case None
      have su: "s = phl_release_ring_sts x ?t \<and> u = usb p"
        using fields None by (auto simp: phl_tx_flow_ctrl_usb_def split: if_splits prod.splits option.splits)
      have z: "z = Done (p\<lparr>rings := s, usb := u\<rparr>)" using st sv x fields None by simp
      have ra: "ring_at s = ring_at ?s" by (auto simp: su phl_release_ring_sts_def ring_at_def fun_eq_iff)
      then have wt: "waiting s = waiting ?s" by (auto simp: waiting_def fun_eq_iff)
      have res: "t_fctrl_result s = xs" by (simp add: su phl_release_ring_sts_def)
      have "sts_wf s" by (rule sts_taken [OF ss x k(1)]) (simp_all add: su phl_release_ring_sts_def ring_at_def)
      moreover have "rings_wf s" using w by (simp add: su phl_release_ring_sts_def rings_wf_def)
      moreover have "usb p = u" using su by simp
      ultimately have "tx_inv env (p\<lparr>rings := s, usb := u\<rparr>)"
        using rq lg bf sv by (simp add: tx_inv_def reqs_wf_def log_wf_def wt)
      moreover have "\<not> can_send env p k"
        using fields None by (auto simp: can_send_def phl_tx_flow_ctrl_usb_def dequeue_usb_buf_def cat
            split: if_splits prod.splits option.splits list.splits)
      moreover have "waiting (rings (p\<lparr>rings := s, usb := u\<rparr>)) k = drop 0 (waiting ?s k)" by (simp add: wt)
      ultimately show ?thesis using z sv res k(1)
        by (intro exI [of _ "p\<lparr>rings := s, usb := u\<rparr>"] exI [of _ k] exI [of _ 0]) simp
    next
      case (Some b)
      have sub: "s = ?t \<and> bufs_wf env u (map fst (on_bus p) @ [b]) \<and>
          (if snd k = RTW_PHL_RING_CAT_MGNT then te_buf_num env \<le> b \<and> b < te_buf_num env + te_mgnt_buf_num env
           else b < te_buf_num env)"
        using fields Some take_bufs(1,2) [OF bf]
        by (auto simp: phl_tx_flow_ctrl_usb_def cat split: if_splits prod.splits option.splits)
      let ?p = "p\<lparr>rings := s, usb := u\<rparr>"
      have z: "z = phl_handle_xmit_ring_usb env sent x b ?p" using st sv x fields Some by simp
      have s1: "serves env x k r b ?p" using sub k by (simp add: serves_def same)
      have inv1: "rings_wf (rings ?p)" "reqs_wf env (rings ?p) (reqs ?p)" "log_wf ?p"
        "bufs_wf env (usb ?p) (map fst (on_bus ?p) @ [b])"
        using sub w0 rq lg by (simp_all add: reqs_wf_def log_wf_def same)
      obtain p' n m where p': "phl_handle_xmit_ring_usb env sent x b ?p = Done p'"
          "rings_wf (rings p')" "reqs_wf env (rings p') (reqs p')" "log_wf p'" "bufs_wf env (usb p') (map fst (on_bus p'))"
          "serving p' = serving ?p" "rings p' = phl_release_ring_sts x (put_ring k n (rings ?p))"
          "waiting (rings p') k = drop m (waiting (rings ?p) k)"
          "(\<exists>y data. fill_transfer (te_cfg env) (te_fill env) (ring_sts (rings ?p) x) r (reqs ?p)
             (ub_buffer (u_buf (usb ?p) b)) = Done y \<and> transfer_of y = Some data) \<longrightarrow> 0 < m"
        by (rule handle_inv [OF e inv1 s1, of sent])
      have r': "rings p' = phl_release_ring_sts x (put_ring k n ?t)" using p'(7) sub by simp
      have k0: "ring_at ?t k = Some r" by (simp add: same k(3))
      have ra: "ring_at (rings p') k' = ring_at ?s k'" if "k' \<noteq> k" for k'
        using ring_at_put [OF k0, of n k'] that by (simp add: r' phl_release_ring_sts_def ring_at_def)
      have res: "t_fctrl_result (rings p') = xs" by (simp add: r' phl_release_ring_sts_def)
      have "sts_wf (rings p')"
        by (rule sts_taken [OF ss x k(1) res _ _ ra]) (simp_all add: r' phl_release_ring_sts_def)
      then have "tx_inv env p'" using p'(2-6) sv by (simp add: tx_inv_def)
      moreover have "0 < m" if c: "can_send env p k"
      proof (rule mp [OF p'(9)], rule can_send_fill [OF e inv1(1,2,4) s1])
        show "\<forall>q. te_fill env q \<noteq> None" using c by (simp add: can_send_def)
        show "fits (te_cfg env) 0 (wdl (reqs ?p (hd (waiting (rings ?p) k))) + 8 +
            length (payload (reqs ?p (hd (waiting (rings ?p) k)))))"
          using c sub by (simp add: can_send_def same)
      qed
      moreover have "waiting (rings p') k = drop m (waiting ?s k)" using p'(8) sub by (simp add: same)
      ultimately show ?thesis using z p'(1,6) sv res k(1) by auto
    qed
  qed
qed

lemma init_inv: "tx_inv env (tx_path_init env mem rs)"
proof -
  have "foldl (\<lambda>q b. snd (enqueue_usb_buf q (Some b) Tail)) pq_init xs = foldl (\<lambda>q x. pq_push q x Tail) pq_init xs" for xs :: "nat list"
    by (simp add: enqueue_usb_buf_def)
  then have q: "pq_queue (foldl (\<lambda>q b. snd (enqueue_usb_buf q (Some b) Tail)) pq_init xs) = xs"
    "pq_wf (foldl (\<lambda>q b. snd (enqueue_usb_buf q (Some b) Tail)) pq_init xs)" for xs :: "nat list"
    using pqf.fill [of xs] by simp_all
  have up: "[0..<n] @ [n..<n + m] @ [n + m..<n + m + j] @ [] = [0..<n + m + j]" for n m j :: nat
    by (metis append_Nil2 append_assoc le_add1 upt_add_eq_append zero_le)
  have "bufs_wf env (usb (tx_path_init env mem rs)) []"
    unfolding bufs_wf_def tx_path_init_def phl_alloc_txbuf_pool_usb_def Let_def tx_path.simps usb_tx.simps q up
    by (auto simp: buf_typed_def q)
  moreover have "waiting tx_rings_init k = []" for k by (simp add: waiting_def ring_at_def tx_rings_init_def)
  ultimately show ?thesis
    by (simp add: tx_inv_def tx_path_init_def rings_wf_def sts_wf_def reqs_wf_def log_wf_def)
       (simp add: tx_rings_init_def)
qed

lemma tx_step_inv:
  assumes e: "env_ok env" and inv: "tx_inv env p" and st: "tx_step env ev p = Some z"
  shows "\<exists>p'. z = Done p' \<and> tx_inv env p'"
proof -
  have w: "rings_wf (rings p)" using inv by (simp add: tx_inv_def)
  show ?thesis
  proof (cases ev)
  case (T_register a macid band wmm port alloc mem)
  then have "tring (rings p) a = None"
      "z = Done (p\<lparr>rings := snd (phl_register_tx_ring a macid band wmm port alloc mem (rings p))\<rparr>)"
    using st by (simp_all split: if_splits)
  then show ?thesis using register_same [OF w] inv_same_rings [OF inv] by blast
next
  case (T_deregister macid)
  then have "z = Done (p\<lparr>rings := snd (phl_deregister_tx_ring macid (rings p))\<rparr>)" using st by simp
  then show ?thesis using deregister_same [OF w] inv_same_rings [OF inv] by blast
next
  case (T_re_register macid band wmm port)
  then have "z = Done (p\<lparr>rings := snd (phl_re_register_tx_ring macid band wmm port (rings p))\<rparr>)" using st by simp
  then show ?thesis using re_register_same [OF w] inv_same_rings [OF inv] by blast
next
  case (T_add q R)
  then show ?thesis using st add_inv [OF inv, of q R] by (auto split: if_splits)
next
  case (T_callback blocked)
  show ?thesis
  proof (cases blocked)
    case True
    then show ?thesis using st inv T_callback by (auto simp: tx_inv_def log_wf_def split: if_splits)
  next
    case False
    then show ?thesis using st T_callback callback_inv [OF inv] by (auto split: if_splits)
  qed
next
  case (T_serve sent)
  then obtain x xs where "serving p" "t_fctrl_result (rings p) = x # xs"
    using st by (auto split: if_splits list.splits)
  then show ?thesis using serve_inv [OF e inv _ _ st [unfolded T_serve]] by blast
next
  case T_return
  then have g: "t_fctrl_result (rings p) = []" using st by (simp split: if_splits)
  obtain s out where f: "phl_free_deferred_tx_ring (rings p) = (s, out)"
    by (cases "phl_free_deferred_tx_ring (rings p)")
  show ?thesis using st T_return return_inv(1) [OF inv g f] f by (auto split: if_splits)
next
  case (T_complete b)
  then show ?thesis using st complete_inv [OF inv, of b] by (auto split: if_splits)
next
  case (T_h2c pkt sent)
  show ?thesis using st h2c_inv [OF inv, of pkt sent] unfolding T_h2c tx_step.simps by blast
  qed
qed

lemma reach_inv: "tx_reach env p \<Longrightarrow> env_ok env \<Longrightarrow> tx_inv env p"
proof (induction rule: tx_reach.induct)
  case (tx_reach_init mem rs)
  show ?case by (rule init_inv)
next
  case (tx_reach_step p ev p')
  then show ?case using tx_step_inv [of env p ev "Done p'"] by blast
qed

end
