(* ===== verification/TxPathProps.thy ===== *)
theory TxPathProps
  imports TxPathSteps
begin

text \<open>
  The properties of the transmit path as a whole, over every interleaving of its tasks.
\<close>

lemma tx_run_append: "tx_run env (xs @ ys) p = (case tx_run env xs p of None \<Rightarrow> None | Some p' \<Rightarrow> tx_run env ys p')"
  by (induction xs arbitrary: p) (auto split: option.split outcome.split)

lemma serve_all:
  assumes "env_ok env" "tx_inv env p" "serving p" "length answers = length (t_fctrl_result (rings p))"
  shows "\<exists>p'. tx_run env (map T_serve answers) p = Some p' \<and> tx_inv env p' \<and> serving p' \<and> t_fctrl_result (rings p') = []"
  using assms
proof (induction answers arbitrary: p)
  case Nil
  then show ?case by simp
next
  case (Cons a answers)
  obtain x xs where x: "t_fctrl_result (rings p) = x # xs" using Cons.prems(4) by (cases "t_fctrl_result (rings p)") auto
  have "tx_step env (T_serve a) p \<noteq> None"
    using Cons.prems(3) x
    by (cases "phl_tx_flow_ctrl_usb x ((rings p)\<lparr>t_fctrl_result := xs\<rparr>, usb p)") (simp split: option.split)
  then obtain z where z: "tx_step env (T_serve a) p = Some z" by blast
  obtain p1 where p1: "z = Done p1" "tx_inv env p1" "serving p1" "t_fctrl_result (rings p1) = xs"
    using serve_inv [OF Cons.prems(1-3) x z] by blast
  then show ?case using Cons.IH [OF Cons.prems(1) p1(2,3)] Cons.prems(4) x z by simp
qed

subsection \<open>An example\<close>

definition ex_env :: tx_env where
  "ex_env = \<lparr>te_cfg = ex_cfg, te_fill = ex_fill, te_test_recycle = False, te_buf_num = 1, te_mgnt_buf_num = 1,
     te_mgnt_buf_size = 512, te_h2c_buf_num = 1\<rparr>"

definition ex_start :: tx_path where
  "ex_start = tx_path_init ex_env (\<lambda>_ _. 0) (\<lambda>_. ex_req)"

lemma ex_env_ok: "env_ok ex_env"
  by (simp add: env_ok_def ex_env_def fill_ok_def ex_fill_def usb_ok_def ex_cfg_def)

lemma ex_req_fits: "req_fits ex_env (xr_cat ex_req) ex_req"
  by (simp add: req_fits_def ex_env_def ex_req_def req_ok_def payload_def cat_defs)

text \<open>A station is registered, a request added, and the handler started.\<close>

lemma ex_reach:
  obtains p x xs where "tx_reach ex_env p" "serving p" "t_fctrl_result (rings p) = x # xs"
    "rs_ring_ptr (ring_sts (rings p) x) = Some (0, 0)" "waiting (rings p) (0, 0) = [7]" "added p = [((0, 0), 7)]"
    "reqs p 7 = ex_req" "pq_queue (idle_txbuf_list (usb p)) \<noteq> []"
proof -
  let ?reg = "T_register 0 0 0 0 0 True (\<lambda>_. Some (\<lambda>_. None))"
  let ?s0 = "rings ex_start"
  have w0: "rings_wf ?s0" using init_inv by (simp add: tx_inv_def ex_start_def)
  define s1 where "s1 = snd (phl_register_tx_ring 0 0 0 0 0 True (\<lambda>_. Some (\<lambda>_. None)) ?s0)"
  have n0: "tring ?s0 0 = None" by (simp add: ex_start_def tx_path_init_def tx_rings_init_def)
  have r1: "rings_wf s1 \<and> same_rings ?s0 s1" unfolding s1_def by (rule register_same [OF w0 n0])
  have "waiting ?s0 k = []" for k by (simp add: waiting_def ring_at_def ex_start_def tx_path_init_def tx_rings_init_def)
  then have wt1: "waiting s1 k = []" for k using r1 by (simp add: same_rings_def)
  have at1: "t_ring_list s1 = [0]" "\<exists>L. tring s1 0 = Some L \<and> tl_macid L = 0"
    by (simp_all add: s1_def phl_register_tx_ring_def phl_allocate_phl_tring_list_def ex_start_def tx_path_init_def tx_rings_init_def)
  let ?p1 = "ex_start\<lparr>rings := s1\<rparr>"
  have p1: "tx_step ex_env ?reg ex_start = Some (Done ?p1)" using n0 by (simp add: s1_def)
  have aw: "all_waiting s1 = []" by (simp add: all_waiting_def wt1)
  obtain L where L: "tring s1 0 = Some L" "tl_macid L = 0" using at1(2) by blast
  let ?r = "tl_phl_ring L 0"
  have a1: "ring_at s1 (0, 0) = Some ?r" using L by (simp add: ring_at_def)
  have h1: "ring_has ?r []" using rings_wfD(1) [OF conjunct1 [OF r1] a1] by (simp add: wt1)
  have room: "phl_calc_avail_wptr (tr_phl_idx ?r) (tr_core_idx ?r) RING_BNDY > 0"
    using ring_has_room [OF h1] by (simp add: word_less_nat_alt MAX_PHL_RX_RING_ENTRY_NUM_def)
  let ?r2 = "?r\<lparr>tr_core_idx := core_next (tr_core_idx ?r), tr_entry := (tr_entry ?r)(unat (core_next (tr_core_idx ?r)) \<mapsto> 7)\<rparr>"
  define s2 where "s2 = (put_ring (0, 0) ?r2 s1)\<lparr>phl_sw_tx_more := True\<rparr>"
  have q: "xr_macid ex_req = 0" "xr_cat ex_req = 0" by (simp_all add: ex_req_def)
  have add: "rtw_phl_add_tx_req 7 (xr_macid ex_req) (xr_cat ex_req) s1 = (RTW_PHL_STATUS_SUCCESS, Some (0, 0), s2)"
    using at1(1) L a1 room
    by (simp add: q rtw_phl_add_tx_req_def phl_select_tx_ring_def has_macid_def Let_def s2_def)
  let ?p2 = "?p1\<lparr>reqs := (reqs ?p1)(7 := ex_req), rings := s2, added := [((0, 0), 7)]\<rparr>"
  have "tx_step ex_env (T_add 7 ex_req) ?p1 = Some (Done ?p2)"
    using aw add ex_req_fits by (simp add: q MAX_PHL_RING_CAT_NUM_def) (simp add: ex_start_def tx_path_init_def)
  then have R2: "tx_reach ex_env ?p2"
    using tx_reach_step [OF tx_reach_step [OF _ p1]] tx_reach_init [of ex_env] unfolding ex_start_def by blast
  have inv2: "tx_inv ex_env ?p2" by (rule reach_inv [OF R2 ex_env_ok])
  have w2: "rings_wf s2" "sts_wf s2" using inv2 by (simp_all add: tx_inv_def)
  have a2: "ring_at s2 (0, 0) = Some ?r2" using ring_at_put [OF a1, of ?r2 "(0, 0)"] by (simp add: s2_def ring_at_def)
  have h2: "ring_has ?r2 [7]" using ring_has_add [OF h1 room, of 7] by simp
  have wt2: "waiting s2 (0, 0) = [7]" using ring_has_reqs [OF h2] by (simp add: waiting_def a2)
  have e2: "t_fctrl_result s2 = []" "sts_idle s2 \<noteq> []" "t_ring_list s2 = [0]"
    using at1(1) r1 by (simp_all add: s2_def same_rings_def ex_start_def tx_path_init_def tx_rings_init_def MAX_PHL_RING_STATUS_NUMBER_def)
  have "unat (ring_busy s2 (0, 0)) = 1" using ring_has_busy [OF h2] by (simp add: ring_busy_def a2)
  then have b2: "ring_busy s2 (0, 0) \<noteq> 0" by auto
  have "served s2 (all_rings s2) = [(0, 0)]"
  proof -
    have other: "ring_busy s2 (0, i) = 0" if "0 < i" for i
    proof -
      have "ring_at s2 (0, i) = Some (tl_phl_ring L i)" using that L by (simp add: s2_def put_ring_def ring_at_def)
      moreover have "ring_has (tl_phl_ring L i) []"
        using rings_wfD(1) [OF conjunct1 [OF r1], of "(0, i)"] L by (simp add: wt1 ring_at_def)
      ultimately show ?thesis using ring_has_busy [of "tl_phl_ring L i" "[]"] by (simp add: ring_busy_def unat_eq_0)
    qed
    have "all_rings s2 = map (Pair 0) (0 # [1..<10])"
      by (simp add: ring_keys_def e2 MAX_PHL_RING_CAT_NUM_def upt_rec)
    then have "filter (\<lambda>k. ring_busy s2 k \<noteq> 0) (all_rings s2) = [(0, 0)]"
      using b2 other by (auto simp: filter_empty_conv)
    then show ?thesis using e2(2) by (simp add: served_def Suc_le_eq neq_Nil_conv take_Cons')
  qed
  then have "set (flow_order s2 [0]) = {(0, 0)}" using set_flow_order [of s2] by (simp add: e2)
  moreover have "distinct (flow_order s2 [0])" using distinct_flow_order [of s2] by (simp add: e2)
  ultimately have fo: "flow_order s2 (t_ring_list s2) = [(0, 0)]"
    unfolding e2(3) by (cases "flow_order s2 [0]" rule: list.exhaust; cases "tl (flow_order s2 [0])" rule: list.exhaust) auto
  have r2: "rings_ready s2" by (rule ready_rings [OF w2])
  let ?x = "sts_of s2 (all_rings s2) (0, 0)"
  let ?p3 = "?p2\<lparr>serving := True, rings := round_started s2\<rparr>"
  obtain go s3 sta where c: "phl_check_xmit_ring_resource s2 = (go, s3, sta)"
    by (cases "phl_check_xmit_ring_resource s2")
  have "tx_step ex_env (T_callback False) ?p2 = Some (Done ?p3)"
    using callback_rings [OF w2 e2(1) c] c by (simp add: ex_start_def tx_path_init_def)
  then have R3: "tx_reach ex_env ?p3" by (rule tx_reach_step [OF R2])
  have "t_fctrl_result (rings ?p3) = [?x]" using fo by (simp add: round_started_def)
  moreover have "rs_ring_ptr (ring_sts (rings ?p3) ?x) = Some (0, 0)"
  proof -
    have m: "(0, 0) \<in> set (flow_order s2 (t_ring_list s2))" by (simp add: fo)
    moreover have "(0, 0) \<in> set (served s2 (all_rings s2))" using m by (simp only: set_flow_order)
    moreover have "distinct (t_ring_list s2)" by (simp add: e2)
    ultimately show ?thesis using round_started_status [OF r2] new_sts_served(1) [OF r2] by simp
  qed
  moreover have "waiting (rings ?p3) (0, 0) = [7]" using started_rings(2) [OF w2(1)] wt2 by simp
  moreover have "pq_queue (idle_txbuf_list (usb ?p3)) \<noteq> []"
    by (simp add: ex_start_def tx_path_init_def phl_alloc_txbuf_pool_usb_def ex_env_def enqueue_usb_buf_def)
  ultimately show thesis by (intro that [OF R3]) simp_all
qed

subsection \<open>The properties\<close>

text \<open>
  C5. However the core, the handler, the bus and the registration of stations interleave: per ring,
  the requests accepted are those given back, in the same order, followed by those that wait in
  the ring. None is lost, given back twice or out of order, also when the HAL refuses a
  descriptor, the bus refuses a transfer, no buffer is left or the station goes away; and no
  request waits in two places.
\<close>

theorem tx_requests_fifo:
  assumes "tx_reach env p" "env_ok env"
  shows "of_ring k (added p) = of_ring k (given p) @ waiting (rings p) k \<and>
    distinct (waiting (rings p) k) \<and> length (waiting (rings p) k) < MAX_PHL_TX_RING_ENTRY_NUM \<and>
    (k \<noteq> k' \<longrightarrow> set (waiting (rings p) k) \<inter> set (waiting (rings p) k') = {})"
proof -
  have inv: "rings_wf (rings p)" "reqs_wf env (rings p) (reqs p)" "log_wf p"
    using reach_inv [OF assms] by (simp_all add: tx_inv_def)
  have "length (waiting (rings p) k) < RING_SIZE"
  proof (cases "ring_at (rings p) k")
    case None
    then show ?thesis by (simp add: waiting_def)
  next
    case (Some r)
    show ?thesis using rings_wfD(1) [OF inv(1) Some] unfolding ring_has_def by blast
  qed
  moreover have "of_ring k (added p) = of_ring k (given p) @ waiting (rings p) k"
    using inv(3) unfolding log_wf_def by blast
  moreover have "set (waiting (rings p) k) \<inter> set (waiting (rings p) k') = {}" if "k \<noteq> k'"
    using reqs_wfD(2) [OF inv(2)] that by blast
  ultimately show ?thesis using reqs_wfD(1) [OF inv(2)] by (simp add: tx_ring_size)
qed

lemma tx_requests_fifo_witness:
  "\<exists>p. tx_reach ex_env p \<and> added p = [((0, 0), 7)] \<and> of_ring (0, 0) (given p) @ waiting (rings p) (0, 0) = [7]"
proof -
  obtain p where p: "tx_reach ex_env p" "added p = [((0, 0), 7)]" by (rule ex_reach) blast
  from tx_requests_fifo [OF p(1) ex_env_ok, of "(0, 0)" "(0, 1)"] p show ?thesis by (intro exI [of _ p]) (simp add: of_ring_def)
qed

text \<open>
  C17. At every moment each of the 256 ring statuses is idle or waits to be served, each transmit
  buffer is in the queue of its kind or on the bus, and the memory held for ring lists is that
  of the registered stations and of those whose release the handler still owes.
\<close>

theorem tx_resources_conserved:
  assumes "tx_reach env p" "env_ok env"
  shows "mset (t_fctrl_result (rings p) @ sts_idle (rings p)) = mset [0..<MAX_PHL_RING_STATUS_NUMBER] \<and>
    mset (pq_queue (idle_txbuf_list (usb p)) @ pq_queue (mgmt_txbuf_list (usb p)) @
        pq_queue (h2c_txbuf_list (usb p)) @ map fst (on_bus p)) =
      mset [0..<te_buf_num env + te_mgnt_buf_num env + te_h2c_buf_num env] \<and>
    (\<forall>b \<in> set (pq_queue (idle_txbuf_list (usb p))). ub_type (u_buf (usb p) b) = PKT_TYPE_DATA) \<and>
    (\<forall>b \<in> set (pq_queue (mgmt_txbuf_list (usb p))). ub_type (u_buf (usb p) b) = PKT_TYPE_MGNT) \<and>
    (\<forall>b \<in> set (pq_queue (h2c_txbuf_list (usb p))). ub_type (u_buf (usb p) b) = PKT_TYPE_H2C) \<and>
    distinct (t_ring_list (rings p) @ t_ring_free_list (rings p)) \<and>
    (\<forall>a. tring (rings p) a \<noteq> None \<longleftrightarrow> a \<in> set (t_ring_list (rings p) @ t_ring_free_list (rings p)))"
proof -
  have inv: "rings_wf (rings p)" "sts_wf (rings p)" "bufs_wf env (usb p) (map fst (on_bus p))"
    using reach_inv [OF assms] by (simp_all add: tx_inv_def)
  have ty: "buf_typed env (usb p) b" for b using inv(3) by (simp add: bufs_wf_def)
  have "b \<in> set (pq_queue (idle_txbuf_list (usb p))) \<Longrightarrow> ub_type (u_buf (usb p) b) = PKT_TYPE_DATA"
    "b \<in> set (pq_queue (mgmt_txbuf_list (usb p))) \<Longrightarrow> ub_type (u_buf (usb p) b) = PKT_TYPE_MGNT"
    "b \<in> set (pq_queue (h2c_txbuf_list (usb p))) \<Longrightarrow> ub_type (u_buf (usb p) b) = PKT_TYPE_H2C" for b
    using inv(3) ty [of b] by (force simp: bufs_wf_def buf_typed_def)+
  then show ?thesis using inv unfolding rings_wf_def sts_wf_def bufs_wf_def by blast
qed

lemma tx_resources_conserved_witness:
  "\<exists>p. tx_reach ex_env p \<and> serving p \<and> t_fctrl_result (rings p) \<noteq> [] \<and>
     size (mset (t_fctrl_result (rings p) @ sts_idle (rings p))) = 256"
proof -
  obtain p x xs where p: "tx_reach ex_env p" "serving p" "t_fctrl_result (rings p) = x # xs" by (rule ex_reach) blast
  have "mset (t_fctrl_result (rings p) @ sts_idle (rings p)) = mset [0..<MAX_PHL_RING_STATUS_NUMBER]"
    using tx_resources_conserved [OF p(1) ex_env_ok] by blast
  then have "size (mset (t_fctrl_result (rings p) @ sts_idle (rings p))) = 256"
    by (metis MAX_PHL_RING_STATUS_NUMBER_def diff_zero length_upt size_mset)
  moreover have "t_fctrl_result (rings p) \<noteq> []" by (simp add: p(3))
  ultimately show ?thesis using p(1,2) by (intro exI [of _ p] conjI)
qed

text \<open>
  C6. No event ever faults: the handler never serves a status without a ring or a ring of a list
  that has been freed, although stations are deregistered while it runs, and it never writes
  outside a transmit buffer, as long as the core keeps its promise about the length of a request.
\<close>

theorem tx_never_faults:
  assumes "tx_reach env p" "env_ok env"
  shows "tx_step env ev p \<noteq> Some Fault"
  using tx_step_inv [OF assms(2) reach_inv [OF assms], of ev Fault] outcome.distinct by blast

lemma tx_never_faults_witness:
  "\<exists>p. tx_reach ex_env p \<and> serving p \<and> t_fctrl_result (rings p) \<noteq> [] \<and> tx_step ex_env (T_serve True) p \<noteq> Some Fault"
proof -
  obtain p x xs where p: "tx_reach ex_env p" "serving p" "t_fctrl_result (rings p) = x # xs" by (rule ex_reach) blast
  have "t_fctrl_result (rings p) \<noteq> []" by (simp add: p(3))
  then have "tx_reach ex_env p \<and> serving p \<and> t_fctrl_result (rings p) \<noteq> [] \<and> tx_step ex_env (T_serve True) p \<noteq> Some Fault"
    using p(1,2) tx_never_faults [OF p(1) ex_env_ok] by (intro conjI)
  then show ?thesis by (rule exI)
qed

text \<open>
  C26. A round of the handler ends: whatever the bus answers, it serves as many rings as there are
  statuses and returns, with all statuses idle again, no list left to free and only the ring
  lists of registered stations allocated.
\<close>

theorem tx_round_ends:
  assumes "tx_reach env p" "env_ok env" "serving p" "length answers = length (t_fctrl_result (rings p))"
  shows "\<exists>p'. tx_run env (map T_serve answers @ [T_return]) p = Some p' \<and> \<not> serving p' \<and>
    mset (sts_idle (rings p')) = mset [0..<MAX_PHL_RING_STATUS_NUMBER] \<and> t_ring_free_list (rings p') = [] \<and>
    (\<forall>a. tring (rings p') a \<noteq> None \<longleftrightarrow> a \<in> set (t_ring_list (rings p')))"
proof -
  obtain p1 where p1: "tx_run env (map T_serve answers) p = Some p1" "tx_inv env p1" "serving p1" "t_fctrl_result (rings p1) = []"
    using serve_all [OF assms(2) reach_inv [OF assms(1,2)] assms(3,4)] by blast
  obtain s out where f: "phl_free_deferred_tx_ring (rings p1) = (s, out)"
    by (cases "phl_free_deferred_tx_ring (rings p1)")
  let ?p2 = "p1\<lparr>serving := False, rings := s, given := given p1 @ give_back out\<rparr>"
  note R = return_inv [OF p1(2,4) f]
  have "tx_run env (map T_serve answers @ [T_return]) p = Some ?p2"
    using p1 f by (simp add: tx_run_append)
  moreover have "t_fctrl_result s = []" "rings_wf s" "sts_wf s" using R(1) by (simp_all add: tx_inv_def)
  ultimately show ?thesis using R(2) by (intro exI [of _ ?p2]) (simp add: rings_wf_def sts_wf_def)
qed

lemma tx_round_ends_witness:
  "\<exists>p p' answers. tx_reach ex_env p \<and> answers \<noteq> [] \<and> tx_run ex_env (map T_serve answers @ [T_return]) p = Some p' \<and> \<not> serving p'"
proof -
  obtain p x xs where p: "tx_reach ex_env p" "serving p" "t_fctrl_result (rings p) = x # xs" by (rule ex_reach) blast
  have "length (replicate (Suc (length xs)) True) = length (t_fctrl_result (rings p))" using p(3) by simp
  from tx_round_ends [OF p(1) ex_env_ok p(2) this] obtain p' where
    "tx_run ex_env (map T_serve (replicate (Suc (length xs)) True) @ [T_return]) p = Some p'" "\<not> serving p'"
    by blast
  moreover have "replicate (Suc (length xs)) True \<noteq> []" by simp
  ultimately show ?thesis
    using p(1) by (intro exI [of _ p] exI [of _ p'] exI [of _ "replicate (Suc (length xs)) True"] conjI)
qed

text \<open>
  C27. A ring that is served makes progress: when a buffer of its kind is idle, the oldest request
  is short enough and the HAL builds descriptors, that request leaves the ring, and the requests
  that leave with it are the next oldest ones.
\<close>

theorem tx_serve_progress:
  assumes "tx_reach env p" "env_ok env" "serving p" "t_fctrl_result (rings p) = x # xs"
    and "rs_ring_ptr (ring_sts (rings p) x) = Some k" "can_send env p k"
  shows "\<exists>p' m. tx_step env (T_serve sent) p = Some (Done p') \<and> 0 < m \<and>
    waiting (rings p') k = drop m (waiting (rings p) k) \<and> t_fctrl_result (rings p') = xs"
proof -
  have "tx_step env (T_serve sent) p \<noteq> None"
    using assms(3,4) by (cases "phl_tx_flow_ctrl_usb x ((rings p)\<lparr>t_fctrl_result := xs\<rparr>, usb p)") (simp split: option.split)
  then obtain z where z: "tx_step env (T_serve sent) p = Some z" by blast
  show ?thesis using serve_inv [OF assms(2) reach_inv [OF assms(1,2)] assms(3,4) z] assms(5,6) z by auto
qed

lemma tx_serve_progress_witness:
  "\<exists>p p'. tx_reach ex_env p \<and> waiting (rings p) (0, 0) = [7] \<and> tx_step ex_env (T_serve True) p = Some (Done p') \<and>
     waiting (rings p') (0, 0) = []"
proof -
  obtain p x xs where p: "tx_reach ex_env p" "serving p" "t_fctrl_result (rings p) = x # xs"
      "rs_ring_ptr (ring_sts (rings p) x) = Some (0, 0)" "waiting (rings p) (0, 0) = [7]" "reqs p 7 = ex_req"
      "pq_queue (idle_txbuf_list (usb p)) \<noteq> []" by (rule ex_reach) blast
  have "wdl ex_req = 56" by (simp add: wdl_def mac_txdesc_len_def ex_req_def)
  then have "can_send ex_env p (0, 0)"
    using p(5-7) by (simp add: can_send_def ex_env_def ex_fill_def cat_defs fits_def align8_def ex_cfg_def payload_def ex_req_def)
  from tx_serve_progress [OF p(1) ex_env_ok p(2-4) this, of True] obtain p' m where
    "tx_step ex_env (T_serve True) p = Some (Done p')" "0 < m" "waiting (rings p') (0, 0) = drop m (waiting (rings p) (0, 0))"
    by blast
  moreover then have "waiting (rings p') (0, 0) = []" using p(5) by simp
  ultimately have "tx_reach ex_env p \<and> waiting (rings p) (0, 0) = [7] \<and>
      tx_step ex_env (T_serve True) p = Some (Done p') \<and> waiting (rings p') (0, 0) = []"
    using p(1,5) by (intro conjI)
  then show ?thesis by (intro exI)
qed

end
