(* ===== verification/RxDesc.thy ===== *)
theory RxDesc
  imports Buffers PktRing
begin

text \<open>
  The contents of a receive transfer of the USB bus: descriptors and packets, one behind the
  other. \<^verbatim>\<open>phl/hal_g6/rtl8852c/hal_trx_8852c.c\<close> reads a descriptor, the loop of
  \<open>phl_get_single_rx\<close> in \<^verbatim>\<open>phl/hci/phl_trx_usb.c\<close> splits the transfer into packets.

  A receive buffer is the list of its bytes, an address in it an offset. Of the meta data those
  fields are kept that decide how a packet is treated; the contents of the reports (status of a
  PPDU, firmware events, radar) are not read here; see \<open>PpduStatus\<close> for the first of them.
\<close>

subsection \<open>Descriptors\<close>

definition le32 :: "bytes \<Rightarrow> u32" where
  "le32 bs = ucast (bs ! 0) OR push_bit 8 (ucast (bs ! 1)) OR push_bit 16 (ucast (bs ! 2)) OR
     push_bit 24 (ucast (bs ! 3))"

text \<open>\<open>LE_BITS_TO_4BYTE\<close> on a word that has been read.\<close>

definition LE_BITS :: "u32 \<Rightarrow> nat \<Rightarrow> nat \<Rightarrow> u32" where
  "LE_BITS w off len = drop_bit off w AND mask len"

record rxd_meta =
  md_pktlen :: u16
  md_shift :: u8
  md_wl_hd_iv_len :: u8
  md_bb_sel :: u8
  md_mac_info_vld :: u8
  md_rpkt_type :: u8
  md_drv_info_size :: u8
  md_long_rxd :: u8
  md_ppdu_type :: u8
  md_ppdu_cnt :: u8
  md_phy_rpt_en :: u8
  md_ampdu :: u8
  md_amsdu_cut :: u8
  md_last_msdu :: u8
  md_crc32 :: u8
  md_icverr :: u8
  md_frame_type :: u8
  md_mc :: u8
  md_bc :: u8
  md_more_frag :: u8
  md_qos :: u8
  md_tid :: u8
  md_q_null :: u8
  md_seq :: u16
  md_frag_num :: u8
  md_addr_cam_vld :: u8
  md_macid :: u16

definition rxd_meta_zero :: rxd_meta where
  "rxd_meta_zero = \<lparr>md_pktlen = 0, md_shift = 0, md_wl_hd_iv_len = 0, md_bb_sel = 0, md_mac_info_vld = 0,
     md_rpkt_type = 0, md_drv_info_size = 0, md_long_rxd = 0, md_ppdu_type = 0, md_ppdu_cnt = 0,
     md_phy_rpt_en = 0, md_ampdu = 0, md_amsdu_cut = 0, md_last_msdu = 0, md_crc32 = 0, md_icverr = 0,
     md_frame_type = 0, md_mc = 0, md_bc = 0, md_more_frag = 0, md_qos = 0, md_tid = 0, md_q_null = 0,
     md_seq = 0, md_frag_num = 0, md_addr_cam_vld = 0, md_macid = 0\<rparr>"

definition RX_DESC_L_SIZE :: nat where "RX_DESC_L_SIZE = 32"
definition RX_DESC_S_SIZE :: nat where "RX_DESC_S_SIZE = 16"
definition RX_PPDU_MAC_INFO_SIZE :: nat where "RX_PPDU_MAC_INFO_SIZE = 4"
definition RX_DESC_DRV_INFO_UNIT :: nat where "RX_DESC_DRV_INFO_UNIT = 16"

definition PKT_T_WIFI :: u8 where "PKT_T_WIFI = 0"
definition PKT_T_PPDU_STATUS :: u8 where "PKT_T_PPDU_STATUS = 1"
definition PKT_T_CHANNEL_INFO :: u8 where "PKT_T_CHANNEL_INFO = 2"
definition PKT_T_TX_RPT :: u8 where "PKT_T_TX_RPT = 6"
definition PKT_T_TX_PD_RELEASE_HOST :: u8 where "PKT_T_TX_PD_RELEASE_HOST = 7"
definition PKT_T_DFS_RPT :: u8 where "PKT_T_DFS_RPT = 8"
definition PKT_T_C2H :: u8 where "PKT_T_C2H = 10"

text \<open>
  \<open>_hal_parsing_rx_wd_8852c\<close>. The first word tells the size; only frames and PPDU reports have
  the other words read, the last four only with a long descriptor. The short cut for the
  packets of an A-MPDU and the parsing of channel reports are not built.
\<close>

definition parse_dw0 :: "u32 \<Rightarrow> rxd_meta \<Rightarrow> rxd_meta" where
  "parse_dw0 w md = md\<lparr>md_pktlen := ucast (LE_BITS w 0 14), md_shift := ucast (LE_BITS w 14 2),
     md_bb_sel := ucast (LE_BITS w 22 1), md_mac_info_vld := ucast (LE_BITS w 23 1),
     md_rpkt_type := ucast (LE_BITS w 24 4), md_drv_info_size := ucast (LE_BITS w 28 3),
     md_long_rxd := ucast (LE_BITS w 31 1)\<rparr>"

definition parse_short :: "u32 \<Rightarrow> u32 \<Rightarrow> u32 \<Rightarrow> rxd_meta \<Rightarrow> rxd_meta" where
  "parse_short w0 w1 w3 md = md\<lparr>md_wl_hd_iv_len := ucast (LE_BITS w0 16 6),
     md_ppdu_type := ucast (LE_BITS w1 0 4), md_ppdu_cnt := ucast (LE_BITS w1 4 3),
     md_phy_rpt_en := ucast (LE_BITS w1 28 1), md_ampdu := ucast (LE_BITS w3 3 1),
     md_amsdu_cut := ucast (LE_BITS w3 6 1), md_last_msdu := ucast (LE_BITS w3 7 1),
     md_crc32 := ucast (LE_BITS w3 9 1), md_icverr := ucast (LE_BITS w3 10 1)\<rparr>"

definition parse_long :: "u32 \<Rightarrow> u32 \<Rightarrow> rxd_meta \<Rightarrow> rxd_meta" where
  "parse_long w4 w5 md = md\<lparr>md_frame_type := ucast (LE_BITS w4 0 2), md_mc := ucast (LE_BITS w4 2 1),
     md_bc := ucast (LE_BITS w4 3 1), md_more_frag := ucast (LE_BITS w4 5 1),
     md_qos := ucast (LE_BITS w4 7 1), md_tid := ucast (LE_BITS w4 8 4),
     md_q_null := ucast (LE_BITS w4 14 1), md_seq := ucast (LE_BITS w4 16 12),
     md_frag_num := ucast (LE_BITS w4 28 4), md_addr_cam_vld := ucast (LE_BITS w5 28 1),
     md_macid := (if LE_BITS w5 28 1 = 0 then 0xFF else ucast (LE_BITS w5 16 8))\<rparr>"

definition hal_parsing_rx_wd :: "bytes \<Rightarrow> nat \<Rightarrow> rxd_meta outcome" where
  "hal_parsing_rx_wd m desc =
     (case rd_n m desc 4 of
        Fault \<Rightarrow> Fault
      | Done b0 \<Rightarrow>
          let md = parse_dw0 (le32 b0) rxd_meta_zero in
          if md_rpkt_type md = PKT_T_WIFI \<or> md_rpkt_type md = PKT_T_PPDU_STATUS
          then (case rd_n m (desc + 4) 12 of
                  Fault \<Rightarrow> Fault
                | Done b1 \<Rightarrow>
                    let md1 = parse_short (le32 b0) (le32 b1) (le32 (drop 8 b1)) md in
                    if md_long_rxd md = 1
                    then (case rd_n m (desc + 16) 16 of
                            Fault \<Rightarrow> Fault
                          | Done b4 \<Rightarrow> Done (parse_long (le32 b4) (le32 (drop 4 b4)) md1))
                    else Done md1)
          else Done md)"

text \<open>
  \<open>hal_parsing_rx_wd_8852c\<close>: the address and the length of the packet. The result is \<open>None\<close>
  where the code returns a failure; \<open>shift\<close> is a \<open>u8\<close>.
\<close>

definition hal_parsing_rx_pkt :: "bytes \<Rightarrow> nat \<Rightarrow> (nat \<times> u16 \<times> rxd_meta) option outcome" where
  "hal_parsing_rx_pkt m desc =
     (case hal_parsing_rx_wd m desc of
        Fault \<Rightarrow> Fault
      | Done md \<Rightarrow>
          if md_pktlen md = 0 then Done None
          else
            let desc_l = (if md_long_rxd md \<noteq> 0 then RX_DESC_L_SIZE else RX_DESC_S_SIZE);
                shift = (unat (md_shift md) * 2 + unat (md_drv_info_size md) * RX_DESC_DRV_INFO_UNIT + desc_l) mod 256;
                pkt = (if md_mac_info_vld md = 1 \<and> md_rpkt_type md \<noteq> PKT_T_PPDU_STATUS
                       then desc + shift + RX_PPDU_MAC_INFO_SIZE else desc + shift)
            in Done (Some (pkt, md_pktlen md, md)))"

subsection \<open>Packets\<close>

datatype rx_type =
    RTW_RX_TYPE_WIFI | RTW_RX_TYPE_PPDU_STATUS | RTW_RX_TYPE_CHANNEL_INFO | RTW_RX_TYPE_TX_RPT
  | RTW_RX_TYPE_TX_WP_RELEASE_HOST | RTW_RX_TYPE_DFS_RPT | RTW_RX_TYPE_C2H | RTW_RX_TYPE_MAX

text \<open>The type of a report that the code does not know stays what it was.\<close>

definition rx_type_of :: "rx_type \<Rightarrow> u8 \<Rightarrow> rx_type" where
  "rx_type_of t rpkt =
     (if rpkt = PKT_T_WIFI then RTW_RX_TYPE_WIFI
      else if rpkt = PKT_T_TX_PD_RELEASE_HOST then RTW_RX_TYPE_TX_WP_RELEASE_HOST
      else if rpkt = PKT_T_PPDU_STATUS then RTW_RX_TYPE_PPDU_STATUS
      else if rpkt = PKT_T_DFS_RPT then RTW_RX_TYPE_DFS_RPT
      else if rpkt = PKT_T_CHANNEL_INFO then RTW_RX_TYPE_CHANNEL_INFO
      else if rpkt = PKT_T_C2H then RTW_RX_TYPE_C2H
      else if rpkt = PKT_T_TX_RPT then RTW_RX_TYPE_TX_RPT
      else t)"

text \<open>
  \<open>hal_handle_rx_buffer_8852c\<close>: the packet must end inside the transfer. Of a frame the header
  is looked at, up to its sequence control field.
\<close>

definition WLAN_HDR_LOOKED_AT :: nat where "WLAN_HDR_LOOKED_AT = 24"

definition hal_handle_rx_buffer ::
  "bytes \<Rightarrow> nat \<Rightarrow> nat \<Rightarrow> rx_type \<Rightarrow> (rx_type \<times> nat \<times> u16 \<times> rxd_meta) option outcome" where
  "hal_handle_rx_buffer m buf buf_len type0 =
     (case hal_parsing_rx_pkt m buf of
        Fault \<Rightarrow> Fault
      | Done None \<Rightarrow> Done None
      | Done (Some (pkt, len, md)) \<Rightarrow>
          if pkt + unat len > buf + buf_len then Done None
          else if md_rpkt_type md = PKT_T_WIFI
          then (case rd_n m pkt WLAN_HDR_LOOKED_AT of
                  Fault \<Rightarrow> Fault
                | Done _ \<Rightarrow> Done (Some (rx_type_of type0 (md_rpkt_type md), pkt, len, md)))
          else Done (Some (rx_type_of type0 (md_rpkt_type md), pkt, len, md)))"

text \<open>
  A receive packet: where its data are, in the receive buffer or in a network buffer of its own,
  and the receive buffer that must stay until the packet is given back.
\<close>

datatype rx_data = No_data | In_rxbuf nat | In_netbuf bytes

record phl_rx_pkt =
  rp_type :: rx_type
  rp_rxbuf_ptr :: "nat option"
  rp_data :: rx_data
  rp_length :: u16
  rp_netbuf_len :: u16
  rp_meta :: rxd_meta

text \<open>A packet of the pool as \<open>phl_release_phl_rx\<close> leaves it and as the allocation does.\<close>

definition rx_pkt_released :: phl_rx_pkt where
  "rx_pkt_released = \<lparr>rp_type = RTW_RX_TYPE_MAX, rp_rxbuf_ptr = None, rp_data = No_data, rp_length = 0,
     rp_netbuf_len = 0, rp_meta = rxd_meta_zero\<rparr>"

definition rx_pkt_fresh :: phl_rx_pkt where
  "rx_pkt_fresh = rx_pkt_released\<lparr>rp_type := RTW_RX_TYPE_WIFI\<rparr>"

subsection \<open>Splitting a transfer\<close>

text \<open>The first fragment of a frame gets room for the whole frame.\<close>

definition RTW_MAX_ETH_PKT_LEN :: u16 where "RTW_MAX_ETH_PKT_LEN = 1536"

definition netbuf_len_of :: "bytes \<Rightarrow> u16 \<Rightarrow> u16" where
  "netbuf_len_of hdr len =
     (let mfrag = bit (hdr ! 1) 2; frag_num = hdr ! 22 AND 0xf in
      if mfrag \<and> frag_num = 0
      then (if len < RTW_MAX_ETH_PKT_LEN then RTW_MAX_ETH_PKT_LEN else len)
      else len)"

text \<open>
  The packet for a descriptor at \<open>buf\<close>; \<open>nb\<close> tells whether the network buffer is allocated. The
  second result is \<open>balloc\<close>.
\<close>

definition fill_rx_pkt :: "bool \<Rightarrow> bytes \<Rightarrow> nat \<Rightarrow> rx_type \<Rightarrow> nat \<Rightarrow> u16 \<Rightarrow> rxd_meta \<Rightarrow> (phl_rx_pkt \<times> bool) outcome" where
  "fill_rx_pkt nb m b type vir len md =
     (let p = \<lparr>rp_type = type, rp_rxbuf_ptr = None, rp_data = In_rxbuf vir, rp_length = len,
               rp_netbuf_len = 0, rp_meta = md\<rparr> in
      if type = RTW_RX_TYPE_WIFI
      then (case rd_n m vir 24 of
              Fault \<Rightarrow> Fault
            | Done hdr \<Rightarrow>
                if nb
                then (case rd_n m vir (unat len) of
                        Fault \<Rightarrow> Fault
                      | Done bs \<Rightarrow> Done (p\<lparr>rp_data := In_netbuf bs, rp_netbuf_len := netbuf_len_of hdr len\<rparr>, True))
                else Done (p\<lparr>rp_rxbuf_ptr := Some b\<rparr>, False))
      else Done (p\<lparr>rp_rxbuf_ptr := Some b\<rparr>, False))"

text \<open>
  What the loop of \<open>phl_get_single_rx\<close> has at hand: the pool and its packets, the list under
  \<open>phl_rxhead\<close>, \<open>brel\<close> (no packet keeps the receive buffer) and \<open>ref_cnt\<close>, a \<open>u8\<close>.
\<close>

record rx_split =
  sp_pool :: rx_pkt_pool
  sp_pkts :: "nat \<Rightarrow> phl_rx_pkt"
  sp_head :: "nat list"
  sp_brel :: bool
  sp_ref_cnt :: u8

lemma LE_BITS_unat: "unat (LE_BITS w off len) = unat w div 2 ^ off mod 2 ^ len"
proof -
  have "LE_BITS w off len = take_bit len (drop_bit off w)" by (simp add: LE_BITS_def take_bit_eq_mask)
  then show ?thesis
    using unat_bound [of w]
    by (simp only: unsigned_take_bit_eq unsigned_drop_bit_eq) (simp add: take_bit_eq_mod drop_bit_eq_div)
qed

lemma LE_BITS_bound: "unat (LE_BITS w off len) < 2 ^ len"
  by (simp add: LE_BITS_unat)

lemma parsed_wd:
  "hal_parsing_rx_wd m desc = Done md \<Longrightarrow>
   \<exists>b0. rd_n m desc 4 = Done b0 \<and> md_pktlen md = ucast (LE_BITS (le32 b0) 0 14) \<and>
     md_shift md = ucast (LE_BITS (le32 b0) 14 2) \<and> md_mac_info_vld md = ucast (LE_BITS (le32 b0) 23 1) \<and>
     md_rpkt_type md = ucast (LE_BITS (le32 b0) 24 4) \<and> md_drv_info_size md = ucast (LE_BITS (le32 b0) 28 3) \<and>
     md_long_rxd md = ucast (LE_BITS (le32 b0) 31 1)"
  by (auto simp: hal_parsing_rx_wd_def parse_dw0_def parse_short_def parse_long_def Let_def
      split: outcome.splits if_splits)

lemma parsed_pkt:
  assumes "hal_parsing_rx_pkt m desc = Done (Some (pkt, len, md))"
  shows "desc + 16 \<le> pkt" "0 < unat len" "pkt < desc + 256" "len = md_pktlen md"
proof -
  obtain w where md: "hal_parsing_rx_wd m desc = Done md" and len: "len = md_pktlen md" "len \<noteq> 0"
    and s: "md_shift md = ucast (LE_BITS w 14 2)" "md_drv_info_size md = ucast (LE_BITS w 28 3)"
    and p: "pkt = (if md_mac_info_vld md = 1 \<and> md_rpkt_type md \<noteq> PKT_T_PPDU_STATUS then 4 else 0) + desc +
       (unat (md_shift md) * 2 + unat (md_drv_info_size md) * 16 + (if md_long_rxd md \<noteq> 0 then 32 else 16)) mod 256"
    using assms by (auto simp: hal_parsing_rx_pkt_def Let_def RX_DESC_L_SIZE_def RX_DESC_S_SIZE_def
        RX_DESC_DRV_INFO_UNIT_def RX_PPDU_MAC_INFO_SIZE_def dest!: parsed_wd split: outcome.splits if_splits)
  have "unat (md_shift md) < 4" "unat (md_drv_info_size md) < 8"
    using LE_BITS_bound [of w 14 2] LE_BITS_bound [of w 28 3] unfolding s by (simp_all add: unsigned_ucast_eq take_bit_eq_mod)
  then show "desc + 16 \<le> pkt" "pkt < desc + 256" unfolding p by auto
  show "0 < unat len" "len = md_pktlen md" using len by (simp_all add: unat_gt_0)
qed

lemma handled_pkt:
  assumes "hal_handle_rx_buffer m buf n t0 = Done (Some (t, vir, len, md))"
  shows "buf + 16 \<le> vir" "0 < unat len" "vir + unat len \<le> buf + n"
  using assms parsed_pkt by (auto simp: hal_handle_rx_buffer_def split: outcome.splits option.splits if_splits)

function get_rx_loop :: "(nat \<Rightarrow> bool) \<Rightarrow> bytes \<Rightarrow> nat \<Rightarrow> nat \<Rightarrow> nat \<Rightarrow> rx_split \<Rightarrow> rx_split outcome" where
  "get_rx_loop nb m b pkt_buf transfer_len s =
     (case rtw_phl_query_phl_rx (sp_pool s) of
        (None, q) \<Rightarrow> Done s
      | (Some k, q) \<Rightarrow>
          (case hal_handle_rx_buffer m pkt_buf transfer_len (rp_type (sp_pkts s k)) of
             Fault \<Rightarrow> Fault
           | Done None \<Rightarrow>
               Done (s\<lparr>sp_pool := phl_release_phl_rx k q, sp_pkts := (sp_pkts s)(k := rx_pkt_released)\<rparr>)
           | Done (Some (type, vir, len, md)) \<Rightarrow>
               let align_offset = align8 (vir - pkt_buf + unat len) in
               (case fill_rx_pkt (nb pkt_buf) m b type vir len md of
                  Fault \<Rightarrow> Fault
                | Done (p, balloc) \<Rightarrow>
                    let s1 = \<lparr>sp_pool = q, sp_pkts = (sp_pkts s)(k := p), sp_head = sp_head s @ [k],
                              sp_brel = (sp_brel s \<and> balloc),
                              sp_ref_cnt = (if balloc then sp_ref_cnt s else sp_ref_cnt s + 1)\<rparr>
                    in if align_offset < transfer_len
                       then get_rx_loop nb m b (pkt_buf + align_offset) (transfer_len - align_offset) s1
                       else Done s1)))"
  by pat_completeness auto
termination
proof (relation "measure (\<lambda>(nb, m, b, pkt_buf, transfer_len, s). transfer_len)", goal_cases)
  case (2 nb m b pkt_buf transfer_len s p1 q k r1 r2 type p2 vir p3 len md align_offset p4 p5 balloc s1)
  then have "0 < unat len" using handled_pkt by blast
  then have "0 < align_offset" unfolding \<open>align_offset = _\<close> using align8_ge(1) [of "vir - pkt_buf + unat len"] by linarith
  then show ?case using 2 by simp
qed simp

declare get_rx_loop.simps [simp del]

text \<open>
  The first part of \<open>phl_get_single_rx\<close>, up to the end of the loop. The code counts
  \<open>transfer_len\<close> as an \<open>s32\<close> down below zero; here the loop ends instead.
\<close>

definition split_transfer ::
  "(nat \<Rightarrow> bool) \<Rightarrow> bytes \<Rightarrow> nat \<Rightarrow> nat \<Rightarrow> rx_pkt_pool \<Rightarrow> (nat \<Rightarrow> phl_rx_pkt) \<Rightarrow> rx_split outcome" where
  "split_transfer nb m b transfer_len q pkts =
     get_rx_loop nb m b 0 transfer_len
       \<lparr>sp_pool = q, sp_pkts = pkts, sp_head = [], sp_brel = True, sp_ref_cnt = 0\<rparr>"

end
