(* ===== verification/UsbRx.thy ===== *)
theory UsbRx
  imports RxDesc PhlQueue
begin

text \<open>
  The receive side of the USB bus, \<^verbatim>\<open>phl/hci/phl_trx_usb.c\<close>: the receive buffers on their way from
  the idle queue to the bus (\<open>_phl_in_token_usb\<close>), back with data (\<open>phl_pend_rxbuf_usb\<close>), through
  the receive handler (\<open>phl_rx_usb\<close>, \<open>phl_get_single_rx\<close>, \<open>phl_rx_process_usb\<close>) and to the idle
  queue again when the last packet in them is given back (\<open>phl_recycle_rx_buf\<close> of
  \<^verbatim>\<open>phl/phl_rx.c\<close>, \<open>phl_release_rxbuf_usb\<close>).

  The calls run at the same time: completions of transfers, the timer, the start, the handler,
  packets given back by the core. Each is a task, its value says where it stands; a step is one
  critical section. A continuation is the rest of the caller.
\<close>

subsection \<open>Data\<close>

record rx_buf =
  rb_buffer :: bytes
  rb_transfer_len :: nat
  rb_pipe_idx :: nat
  rb_pktcnt :: int

definition WLAN_IN_MPDU_PIPE_IDX :: nat where "WLAN_IN_MPDU_PIPE_IDX = 0"

record usb_rx_cfg =
  in_token_num :: nat
  rx_buf_num :: nat
  rx_buf_size :: nat

text \<open>Who called \<open>_phl_in_token_usb\<close>: the loop of \<open>_phl_rx_start_usb\<close> (from the timer or not, with
  \<open>fail_cnt\<close>) or \<open>phl_pend_rxbuf_usb\<close>.\<close>

datatype token_ret = R_start bool nat | R_pend

datatype rx_task =
    T_end
  | T_start_loop bool nat phl_status
  | T_in_token nat token_ret
  | T_token_busy nat nat token_ret
  | T_token_send nat token_ret
  | T_token_undo nat token_ret
  | T_token_fail token_ret
  | T_release nat rx_task
  | T_to_idle nat rx_task
  | T_pend nat nat phl_status
  | T_pend_push nat nat
  | T_pend_token nat phl_status
  | T_rx bool
  | T_parse nat bool
  | T_process "nat list" rx_task
  | T_recycle nat rx_task
  | T_free_pkt nat rx_task

text \<open>
  \<open>rx_on_bus\<close> are the buffers the bus has, \<open>held\<close> the packets in the hands of the next stages
  (reordering, PPDU status, core); \<open>faulted\<close> records an access outside a buffer.
\<close>

record usb_rx =
  rx_bufs :: "nat \<Rightarrow> rx_buf"
  rx_pkts :: "nat \<Rightarrow> phl_rx_pkt"
  rx_pool :: rx_pkt_pool
  idle_rxbuf_list :: "nat phl_queue"
  busy_rxbuf_list :: "nat phl_queue"
  pend_rxbuf_list :: "nat phl_queue"
  deferred_timer :: bool
  rx_on_bus :: "nat list"
  held :: "nat list"
  rx_tasks :: "rx_task list"
  faulted :: bool

definition upd_rxbuf :: "nat \<Rightarrow> (rx_buf \<Rightarrow> rx_buf) \<Rightarrow> usb_rx \<Rightarrow> usb_rx" where
  "upd_rxbuf b f s = s\<lparr>rx_bufs := (rx_bufs s)(b := f (rx_bufs s b))\<rparr>"

subsection \<open>Receive tokens\<close>

text \<open>
  What the callers of \<open>_phl_in_token_usb\<close> do with its result. The start gives up when there is no
  buffer or after too many failures; the timer is set again when there is no buffer.
\<close>

definition start_done :: "bool \<Rightarrow> phl_status \<Rightarrow> usb_rx \<Rightarrow> rx_task \<times> usb_rx" where
  "start_done by_timer pstatus s =
     (T_end, if by_timer \<and> pstatus = RTW_PHL_STATUS_RESOURCE then s\<lparr>deferred_timer := True\<rparr> else s)"

definition token_done :: "usb_rx_cfg \<Rightarrow> phl_status \<Rightarrow> token_ret \<Rightarrow> usb_rx \<Rightarrow> rx_task \<times> usb_rx" where
  "token_done cfg pstatus ret s =
     (case ret of
        R_start by_timer fail_cnt \<Rightarrow>
          if pstatus = RTW_PHL_STATUS_RESOURCE then start_done by_timer pstatus s
          else if pstatus \<noteq> RTW_PHL_STATUS_SUCCESS
          then (if fail_cnt + 1 > in_token_num cfg then start_done by_timer pstatus s
                else (T_start_loop by_timer (fail_cnt + 1) pstatus, s))
          else (T_start_loop by_timer fail_cnt pstatus, s)
      | R_pend \<Rightarrow>
          (T_end, if pstatus \<noteq> RTW_PHL_STATUS_SUCCESS then s\<lparr>deferred_timer := True\<rparr> else s))"

text \<open>
  \<open>_phl_in_token_usb\<close>: a buffer leaves the idle queue, is put into the busy queue and handed to the
  bus (\<open>sent\<close> is the answer of \<open>os_send_usb_in_token\<close>); when the bus refuses it, it is taken out
  again and released. The query for the size of a descriptor always succeeds in this HAL.
\<close>

definition in_token_pop :: "usb_rx_cfg \<Rightarrow> nat \<Rightarrow> token_ret \<Rightarrow> usb_rx \<Rightarrow> rx_task \<times> usb_rx" where
  "in_token_pop cfg pipe ret s =
     (case pq_pop (idle_rxbuf_list s) First of
        (None, q) \<Rightarrow> token_done cfg RTW_PHL_STATUS_RESOURCE ret (s\<lparr>idle_rxbuf_list := q\<rparr>)
      | (Some b, q) \<Rightarrow> (T_token_busy b pipe ret, s\<lparr>idle_rxbuf_list := q\<rparr>))"

definition in_token_busy :: "nat \<Rightarrow> nat \<Rightarrow> usb_rx \<Rightarrow> usb_rx" where
  "in_token_busy b pipe s =
     (upd_rxbuf b (\<lambda>r. r\<lparr>rb_pipe_idx := pipe\<rparr>) s)\<lparr>busy_rxbuf_list := pq_push (busy_rxbuf_list s) b Tail\<rparr>"

subsection \<open>Releasing a buffer\<close>

text \<open>
  The locked part of \<open>phl_release_rxbuf_usb\<close>. The result tells whether nothing refers to the buffer
  any more; it is then cleared and goes to the idle queue.
\<close>

definition release_locked :: "nat \<Rightarrow> usb_rx \<Rightarrow> bool \<times> usb_rx" where
  "release_locked b s =
     (let r = rx_bufs s b; cnt = (if rb_pktcnt r \<noteq> 0 then rb_pktcnt r - 1 else rb_pktcnt r) in
      if cnt = 0
      then (True, upd_rxbuf b (\<lambda>r. r\<lparr>rb_pktcnt := cnt, rb_buffer := replicate (length (rb_buffer r)) 0\<rparr>) s)
      else (False, upd_rxbuf b (\<lambda>r. r\<lparr>rb_pktcnt := cnt\<rparr>) s))"

definition release_to_idle :: "nat \<Rightarrow> usb_rx \<Rightarrow> usb_rx" where
  "release_to_idle b s = s\<lparr>idle_rxbuf_list := pq_push (idle_rxbuf_list s) b Tail\<rparr>"

text \<open>\<open>phl_recycle_rx_buf\<close>: first the buffer, then the packet.\<close>

definition recycle_rx_buf :: "nat \<Rightarrow> rx_task \<Rightarrow> usb_rx \<Rightarrow> rx_task \<times> usb_rx" where
  "recycle_rx_buf k K s =
     (case rp_rxbuf_ptr (rx_pkts s k) of
        None \<Rightarrow> (T_free_pkt k K, s)
      | Some b \<Rightarrow>
          (let (zero, s1) = release_locked b s
           in (if zero then T_to_idle b (T_free_pkt k K) else T_free_pkt k K, s1)))"

subsection \<open>A completed transfer\<close>

text \<open>
  \<open>phl_pend_rxbuf_usb\<close>: a buffer with data waits for the handler, one without is released; then
  the pipe gets a new token, but only after \<open>SUCCESS\<close> and \<open>INVALID_PARAM\<close>.
\<close>

definition pend_rxbuf :: "nat \<Rightarrow> nat \<Rightarrow> phl_status \<Rightarrow> usb_rx \<Rightarrow> rx_task \<times> usb_rx" where
  "pend_rxbuf b inbuf_len status s =
     (let s1 = (if pq_queue (busy_rxbuf_list s) \<noteq> []
                then s\<lparr>busy_rxbuf_list := pq_del_node (busy_rxbuf_list s) (Some b)\<rparr> else s)
      in if status = RTW_PHL_STATUS_SUCCESS
         then (T_pend_push b inbuf_len, upd_rxbuf b (\<lambda>r. r\<lparr>rb_transfer_len := inbuf_len\<rparr>) s1)
         else (T_release b (T_pend_token b status), s1))"

definition pend_token :: "nat \<Rightarrow> phl_status \<Rightarrow> usb_rx \<Rightarrow> rx_task" where
  "pend_token b status s =
     (if status = RTW_PHL_STATUS_SUCCESS \<or> status = RTW_PHL_STATUS_INVALID_PARAM
      then T_in_token (rb_pipe_idx (rx_bufs s b)) R_pend else T_end)"

subsection \<open>The receive handler\<close>

text \<open>
  \<open>phl_rx_usb\<close> takes the waiting buffers one by one. The argument of \<open>T_rx\<close> is whether \<open>phl_rx\<close> is
  not NULL; it keeps its value when the buffer is of another pipe.
\<close>

definition rx_loop :: "bool \<Rightarrow> usb_rx \<Rightarrow> rx_task \<times> usb_rx" where
  "rx_loop phl_rx s =
     (if pq_cnt (pend_rxbuf_list s) = 0 then (T_end, s)
      else case pq_pop (pend_rxbuf_list s) First of
             (None, q) \<Rightarrow> (T_end, s)
           | (Some b, q) \<Rightarrow> (T_parse b phl_rx, s\<lparr>pend_rxbuf_list := q\<rparr>))"

text \<open>
  \<open>phl_get_single_rx\<close> and what follows it in the loop. The buffer is released at once when every
  packet has been copied or there is none, otherwise it counts the packets in it.
\<close>

definition parse_rxbuf :: "(nat \<Rightarrow> bool) \<Rightarrow> nat \<Rightarrow> bool \<Rightarrow> usb_rx \<Rightarrow> rx_task \<times> usb_rx" where
  "parse_rxbuf nb b phl_rx s =
     (if rb_pipe_idx (rx_bufs s b) = WLAN_IN_MPDU_PIPE_IDX
      then (case split_transfer nb (rb_buffer (rx_bufs s b)) b (rb_transfer_len (rx_bufs s b)) (rx_pool s) (rx_pkts s) of
              Fault \<Rightarrow> (T_end, s\<lparr>faulted := True\<rparr>)
            | Done sp \<Rightarrow>
                let s1 = s\<lparr>rx_pool := sp_pool sp, rx_pkts := sp_pkts sp\<rparr> in
                if sp_head sp = [] then (T_release b (T_rx False), s1)
                else if sp_brel sp then (T_release b (T_process (sp_head sp) (T_rx True)), s1)
                else (T_process (sp_head sp) (T_rx True),
                      upd_rxbuf b (\<lambda>r. r\<lparr>rb_pktcnt := int (unat (sp_ref_cnt sp))\<rparr>) s1))
      else if phl_rx then (T_rx True, s) else (T_release b (T_rx False), s))"

text \<open>\<open>phl_rx_process_usb\<close>: frames go on, reports have been read and are recycled.\<close>

fun process_rx :: "nat list \<Rightarrow> rx_task \<Rightarrow> usb_rx \<Rightarrow> rx_task \<times> usb_rx" where
  "process_rx [] K s = (K, s)"
| "process_rx (k # ks) K s =
     (if rp_type (rx_pkts s k) = RTW_RX_TYPE_WIFI then (T_process ks K, s\<lparr>held := held s @ [k]\<rparr>)
      else (T_recycle k (T_process ks K), s))"

subsection \<open>The tasks\<close>

definition free_pkt :: "nat \<Rightarrow> usb_rx \<Rightarrow> usb_rx" where
  "free_pkt k s = s\<lparr>rx_pool := phl_release_phl_rx k (rx_pool s), rx_pkts := (rx_pkts s)(k := rx_pkt_released)\<rparr>"

fun task_step :: "usb_rx_cfg \<Rightarrow> bool \<Rightarrow> (nat \<Rightarrow> bool) \<Rightarrow> rx_task \<Rightarrow> usb_rx \<Rightarrow> rx_task \<times> usb_rx" where
  "task_step cfg sent nb T_end s = (T_end, s)"
| "task_step cfg sent nb (T_start_loop by_timer fail_cnt pstatus) s =
     (if pq_cnt (busy_rxbuf_list s) < int (in_token_num cfg)
      then (T_in_token WLAN_IN_MPDU_PIPE_IDX (R_start by_timer fail_cnt), s)
      else start_done by_timer pstatus s)"
| "task_step cfg sent nb (T_in_token pipe ret) s = in_token_pop cfg pipe ret s"
| "task_step cfg sent nb (T_token_busy b pipe ret) s = (T_token_send b ret, in_token_busy b pipe s)"
| "task_step cfg sent nb (T_token_send b ret) s =
     (if sent then token_done cfg RTW_PHL_STATUS_SUCCESS ret (s\<lparr>rx_on_bus := b # rx_on_bus s\<rparr>)
      else (T_token_undo b ret, s))"
| "task_step cfg sent nb (T_token_undo b ret) s =
     (T_release b (T_token_fail ret), s\<lparr>busy_rxbuf_list := pq_del_node (busy_rxbuf_list s) (Some b)\<rparr>)"
| "task_step cfg sent nb (T_token_fail ret) s = token_done cfg RTW_PHL_STATUS_FAILURE ret s"
| "task_step cfg sent nb (T_release b K) s =
     (let (zero, s1) = release_locked b s in (if zero then T_to_idle b K else K, s1))"
| "task_step cfg sent nb (T_to_idle b K) s = (K, release_to_idle b s)"
| "task_step cfg sent nb (T_pend b n status) s = pend_rxbuf b n status s"
| "task_step cfg sent nb (T_pend_push b n) s =
     (T_pend_token b RTW_PHL_STATUS_SUCCESS, s\<lparr>pend_rxbuf_list := pq_push (pend_rxbuf_list s) b Tail\<rparr>)"
| "task_step cfg sent nb (T_pend_token b status) s = (pend_token b status s, s)"
| "task_step cfg sent nb (T_rx phl_rx) s = rx_loop phl_rx s"
| "task_step cfg sent nb (T_parse b phl_rx) s = parse_rxbuf nb b phl_rx s"
| "task_step cfg sent nb (T_process ks K) s = process_rx ks K s"
| "task_step cfg sent nb (T_recycle k K) s = recycle_rx_buf k K s"
| "task_step cfg sent nb (T_free_pkt k K) s = (K, free_pkt k s)"

text \<open>
  The events: reception is started, the timer fires, the bus completes a transfer with some data,
  the receive handler is run, the core gives a packet back, a task goes on. The bus writes at
  most the buffer less 32 bytes: the size at which the device stops aggregating is 4096 bytes
  below that of the buffer (\<open>rtw_hal_usb_rx_agg_init\<close>).
\<close>

datatype usb_rx_event =
    Ev_start | Ev_timer | Ev_complete nat bytes phl_status | Ev_handler | Ev_return nat
  | Ev_step nat bool "nat \<Rightarrow> bool"

definition new_task :: "rx_task \<Rightarrow> usb_rx \<Rightarrow> usb_rx" where
  "new_task t s = s\<lparr>rx_tasks := rx_tasks s @ [t]\<rparr>"

fun usb_rx_step :: "usb_rx_cfg \<Rightarrow> usb_rx_event \<Rightarrow> usb_rx \<Rightarrow> usb_rx option" where
  "usb_rx_step cfg Ev_start s = Some (new_task (T_start_loop False 0 RTW_PHL_STATUS_SUCCESS) s)"
| "usb_rx_step cfg Ev_timer s =
     (if deferred_timer s
      then Some (new_task (T_start_loop True 0 RTW_PHL_STATUS_SUCCESS) (s\<lparr>deferred_timer := False\<rparr>)) else None)"
| "usb_rx_step cfg (Ev_complete b data status) s =
     (if b \<in> set (rx_on_bus s) \<and> length data + 32 \<le> rx_buf_size cfg
      then Some (new_task (T_pend b (length data) status)
             (upd_rxbuf b (\<lambda>r. r\<lparr>rb_buffer := data @ drop (length data) (rb_buffer r)\<rparr>)
               (s\<lparr>rx_on_bus := remove1 b (rx_on_bus s)\<rparr>)))
      else None)"
| "usb_rx_step cfg Ev_handler s = Some (new_task (T_rx False) s)"
| "usb_rx_step cfg (Ev_return k) s =
     (if k \<in> set (held s) then Some (new_task (T_recycle k T_end) (s\<lparr>held := remove1 k (held s)\<rparr>)) else None)"
| "usb_rx_step cfg (Ev_step i sent nb) s =
     (if i < length (rx_tasks s)
      then (let (t, s1) = task_step cfg sent nb (rx_tasks s ! i) s in Some (s1\<lparr>rx_tasks := (rx_tasks s1)[i := t]\<rparr>))
      else None)"

subsection \<open>Initialisation\<close>

text \<open>\<open>_phl_rx_init_usb\<close> when every allocation succeeds; \<open>mem\<close> is what the memory contains. The field
  for the pipe is written before it is read.\<close>

definition phl_rx_init_usb :: "usb_rx_cfg \<Rightarrow> (nat \<Rightarrow> nat \<Rightarrow> u8) \<Rightarrow> usb_rx" where
  "phl_rx_init_usb cfg mem =
     \<lparr>rx_bufs = (\<lambda>b. \<lparr>rb_buffer = map (mem b) [0..<rx_buf_size cfg], rb_transfer_len = 0, rb_pipe_idx = 0, rb_pktcnt = 0\<rparr>),
      rx_pkts = (\<lambda>_. rx_pkt_fresh), rx_pool = the (snd (phl_alloc_recv_pkt_pool True)),
      idle_rxbuf_list = foldl (\<lambda>q b. pq_push q b Tail) pq_init [0..<rx_buf_num cfg],
      busy_rxbuf_list = pq_init, pend_rxbuf_list = pq_init, deferred_timer = False,
      rx_on_bus = [], held = [], rx_tasks = [], faulted = False\<rparr>"

text \<open>
  \<open>ref_cnt\<close> is a \<open>u8\<close>: a transfer with more than 255 packets that were not copied would wrap it. The
  runs considered have fewer.
\<close>

definition few_in :: "(nat \<Rightarrow> bool) \<Rightarrow> rx_task \<Rightarrow> usb_rx \<Rightarrow> bool" where
  "few_in nb t s \<longleftrightarrow>
     (case t of
        T_parse b phl_rx \<Rightarrow>
          (case split_transfer nb (rb_buffer (rx_bufs s b)) b (rb_transfer_len (rx_bufs s b)) (rx_pool s) (rx_pkts s) of
             Fault \<Rightarrow> True
           | Done sp \<Rightarrow> length (filter (\<lambda>k. rp_rxbuf_ptr (sp_pkts sp k) \<noteq> None) (sp_head sp)) < 256)
      | _ \<Rightarrow> True)"

definition few_kept :: "usb_rx_event \<Rightarrow> usb_rx \<Rightarrow> bool" where
  "few_kept ev s \<longleftrightarrow>
     (case ev of Ev_step i sent nb \<Rightarrow> i < length (rx_tasks s) \<longrightarrow> few_in nb (rx_tasks s ! i) s | _ \<Rightarrow> True)"

inductive usb_rx_reach :: "usb_rx_cfg \<Rightarrow> usb_rx \<Rightarrow> bool" for cfg where
  usb_rx_init: "usb_rx_reach cfg (phl_rx_init_usb cfg mem)"
| usb_rx_next: "usb_rx_reach cfg s \<Longrightarrow> few_kept ev s \<Longrightarrow> usb_rx_step cfg ev s = Some s' \<Longrightarrow> usb_rx_reach cfg s'"

fun usb_rx_run :: "usb_rx_cfg \<Rightarrow> usb_rx_event list \<Rightarrow> usb_rx \<Rightarrow> usb_rx option" where
  "usb_rx_run cfg [] s = Some s"
| "usb_rx_run cfg (ev # evs) s = (case usb_rx_step cfg ev s of None \<Rightarrow> None | Some s' \<Rightarrow> usb_rx_run cfg evs s')"

end
