(* ===== verification/PpduStatus.thy ===== *)
theory PpduStatus
  imports RxDesc
begin

text \<open>
  The first of the routines that read the contents of a report: the MAC part of a PPDU status,
  \<open>parse_mac_info\<close> and \<open>mac_parse_ppdu\<close> of \<^verbatim>\<open>phl/hal_g6/mac/mac_ax/phy_rpt.c\<close>, with the copy into
  the structure of the HAL in \<^verbatim>\<open>phl/hal_g6/hal_api_mac.c\<close>; and the header of a radar report,
  \<open>mac_parse_dfs\<close>. As in \<open>RxDesc\<close> the memory is a list of bytes and a pointer an offset; writing
  outside an array is a fault as well.
\<close>

subsection \<open>The MAC information\<close>

definition MACSUCCESS :: u32 where "MACSUCCESS = 0"
definition MACPARSEERR :: u32 where "MACPARSEERR = 53"
definition MAC_MAX_8_USR :: u8 where "MAC_MAX_8_USR = 8"
definition MAC_AX_RX_CNT_SIZE :: u32 where "MAC_AX_RX_CNT_SIZE = 96"
definition MAC_AX_MAC_INFO_USE_SIZE :: nat where "MAC_AX_MAC_INFO_USE_SIZE = 4"

definition GET_FIELD :: "u32 \<Rightarrow> nat \<Rightarrow> u32 \<Rightarrow> u32" where
  "GET_FIELD w sh msk = drop_bit sh w AND msk"

record ppdu_usr =
  us_vld :: bool
  us_has_data :: bool
  us_has_ctrl :: bool
  us_has_mgnt :: bool
  us_has_bcn :: bool
  us_macid :: u8

definition ppdu_usr_zero :: ppdu_usr where
  "ppdu_usr_zero = \<lparr>us_vld = False, us_has_data = False, us_has_ctrl = False, us_has_mgnt = False,
     us_has_bcn = False, us_macid = 0\<rparr>"

record ppdu_rpt =
  pr_rx_cnt_ptr :: "nat option"
  pr_plcp_ptr :: "nat option"
  pr_phy_st_ptr :: "nat option"
  pr_phy_st_size :: u32
  pr_rx_cnt_size :: u32
  pr_lsig_len :: u16
  pr_service :: u16
  pr_usr_num :: u8
  pr_fw_def :: u8
  pr_is_to_self :: bool
  pr_plcp_size :: u8
  pr_usr :: "ppdu_usr list"

text \<open>What \<open>mac_parse_ppdu\<close> starts from; the array of the users has eight entries.\<close>

definition ppdu_rpt_zero :: ppdu_rpt where
  "ppdu_rpt_zero = \<lparr>pr_rx_cnt_ptr = None, pr_plcp_ptr = None, pr_phy_st_ptr = None, pr_phy_st_size = 0,
     pr_rx_cnt_size = 0, pr_lsig_len = 0, pr_service = 0, pr_usr_num = 0, pr_fw_def = 0,
     pr_is_to_self = False, pr_plcp_size = 0, pr_usr = replicate 8 ppdu_usr_zero\<rparr>"

definition parse_usr :: "u32 \<Rightarrow> ppdu_usr" where
  "parse_usr w = \<lparr>us_vld = bit w 0, us_has_data = bit w 1, us_has_ctrl = bit w 2, us_has_mgnt = bit w 3,
     us_has_bcn = bit w 4, us_macid = ucast (GET_FIELD w 8 0xff)\<rparr>"

text \<open>The loop over the users: the words of the users from number \<open>i\<close> on.\<close>

fun parse_usrs :: "bytes \<Rightarrow> nat \<Rightarrow> nat \<Rightarrow> nat \<Rightarrow> ppdu_usr list \<Rightarrow> ppdu_usr list outcome" where
  "parse_usrs m ptr i 0 us = Done us"
| "parse_usrs m ptr i (Suc n) us =
     (case rd_n m ptr 4 of
        Fault \<Rightarrow> Fault
      | Done b \<Rightarrow>
          if i < length us then parse_usrs m (ptr + MAC_AX_MAC_INFO_USE_SIZE) (i + 1) n (us[i := parse_usr (le32 b)])
          else Fault)"

text \<open>
  \<open>accu_size\<close> is what the parts before the status of the PHY take; an odd number of users is
  padded to eight bytes. Only the chips with eight users are built.
\<close>

definition usr_area :: "u8 \<Rightarrow> nat" where
  "usr_area n = MAC_AX_MAC_INFO_USE_SIZE * (unat n + (if n AND 1 \<noteq> 0 then 1 else 0))"

definition fill_mac_info :: "nat \<Rightarrow> u32 \<Rightarrow> u32 \<Rightarrow> u32 \<Rightarrow> u8 \<Rightarrow> ppdu_usr list \<Rightarrow> ppdu_rpt \<Rightarrow> ppdu_rpt" where
  "fill_mac_info buf len w0 w1 num us rpt =
     (let cnt_size = (if bit w0 29 then MAC_AX_RX_CNT_SIZE else 0);
          plcp_size = ucast (GET_FIELD w1 16 0xff) * 8 :: u8;
          cnt = buf + 8 + usr_area num;
          plcp = cnt + unat cnt_size;
          phy = plcp + unat plcp_size
      in rpt\<lparr>pr_usr_num := num, pr_fw_def := ucast (GET_FIELD w0 8 0xff),
           pr_lsig_len := ucast (GET_FIELD w0 16 0xfff), pr_is_to_self := bit w0 28,
           pr_rx_cnt_size := cnt_size, pr_service := ucast (GET_FIELD w1 0 0xffff),
           pr_plcp_size := plcp_size, pr_usr := us,
           pr_rx_cnt_ptr := (if cnt_size \<noteq> 0 then Some cnt else pr_rx_cnt_ptr rpt),
           pr_plcp_ptr := (if plcp_size \<noteq> 0 then Some plcp else pr_plcp_ptr rpt),
           pr_phy_st_ptr := (if unat len > phy - buf then Some phy else pr_phy_st_ptr rpt),
           pr_phy_st_size := (if unat len > phy - buf then len - of_nat (phy - buf) else pr_phy_st_size rpt)\<rparr>)"

definition parse_mac_info :: "bytes \<Rightarrow> nat \<Rightarrow> u32 \<Rightarrow> ppdu_rpt \<Rightarrow> (u32 \<times> ppdu_rpt) outcome" where
  "parse_mac_info m buf len rpt =
     (case rd_n m buf 4 of
        Fault \<Rightarrow> Fault
      | Done b0 \<Rightarrow>
          let num = ucast (GET_FIELD (le32 b0) 0 0xf) in
          if num > MAC_MAX_8_USR then Done (MACPARSEERR, rpt\<lparr>pr_usr_num := num\<rparr>)
          else (case rd_n m (buf + 4) 4 of
             Fault \<Rightarrow> Fault
           | Done b1 \<Rightarrow>
               (case parse_usrs m (buf + 8) 0 (unat num) (pr_usr rpt) of
                  Fault \<Rightarrow> Fault
                | Done us \<Rightarrow> Done (MACSUCCESS, fill_mac_info buf len (le32 b0) (le32 b1) num us rpt))))"

definition mac_parse_ppdu :: "bytes \<Rightarrow> nat \<Rightarrow> u32 \<Rightarrow> bool \<Rightarrow> (u32 \<times> ppdu_rpt) outcome" where
  "mac_parse_ppdu m buf len mac_info =
     (if mac_info then parse_mac_info m buf len ppdu_rpt_zero
      else Done (MACSUCCESS, ppdu_rpt_zero\<lparr>pr_phy_st_ptr := Some buf, pr_phy_st_size := len\<rparr>))"

subsection \<open>The status for the HAL\<close>

definition RTW_HAL_PPDU_STS_MAX_USR :: nat where "RTW_HAL_PPDU_STS_MAX_USR = 4"
definition HAL_RXCNT_MAX :: nat where "HAL_RXCNT_MAX = 43"

record hal_ppdu_sts =
  hp_rx_cnt_ptr :: "nat option"
  hp_plcp_ptr :: "nat option"
  hp_phy_st_ptr :: "nat option"
  hp_plcp_size :: u8
  hp_phy_st_size :: u32
  hp_rx_cnt_size :: u32
  hp_usr_num :: u8
  hp_usr :: "ppdu_usr list"
  hp_rx_cnt :: "u16 list"

definition hal_ppdu_sts_zero :: hal_ppdu_sts where
  "hal_ppdu_sts_zero = \<lparr>hp_rx_cnt_ptr = None, hp_plcp_ptr = None, hp_phy_st_ptr = None, hp_plcp_size = 0,
     hp_phy_st_size = 0, hp_rx_cnt_size = 0, hp_usr_num = 0,
     hp_usr = replicate RTW_HAL_PPDU_STS_MAX_USR ppdu_usr_zero, hp_rx_cnt = replicate HAL_RXCNT_MAX 0\<rparr>"

text \<open>The valid users are copied to their places in an array of four.\<close>

fun copy_usrs :: "nat \<Rightarrow> ppdu_usr list \<Rightarrow> ppdu_usr list \<Rightarrow> ppdu_usr list outcome" where
  "copy_usrs i [] hs = Done hs"
| "copy_usrs i (u # us) hs =
     (if us_vld u then (if i < length hs then copy_usrs (i + 1) us (hs[i := u]) else Fault)
      else copy_usrs (i + 1) us hs)"

text \<open>The counters: \<open>(u16)*(rx_cnt_ptr + 2 * i)\<close> reads one byte.\<close>

fun read_rx_cnt :: "bytes \<Rightarrow> nat \<Rightarrow> nat \<Rightarrow> nat \<Rightarrow> u16 list \<Rightarrow> u16 list outcome" where
  "read_rx_cnt m ptr i 0 cs = Done cs"
| "read_rx_cnt m ptr i (Suc n) cs =
     (case rd m (ptr + 2 * i) of
        Fault \<Rightarrow> Fault
      | Done b \<Rightarrow> read_rx_cnt m ptr (i + 1) n (cs[i := ucast b]))"

definition hal_mac_ax_ppdu_sts_to_hal_ppdu_sts :: "bytes \<Rightarrow> ppdu_rpt \<Rightarrow> hal_ppdu_sts \<Rightarrow> hal_ppdu_sts outcome" where
  "hal_mac_ax_ppdu_sts_to_hal_ppdu_sts m r h =
     (case copy_usrs 0 (take (unat (pr_usr_num r)) (pr_usr r)) (hp_usr h) of
        Fault \<Rightarrow> Fault
      | Done us \<Rightarrow>
          let h = h\<lparr>hp_rx_cnt_ptr := pr_rx_cnt_ptr r, hp_phy_st_ptr := pr_phy_st_ptr r, hp_plcp_ptr := pr_plcp_ptr r,
                    hp_plcp_size := pr_plcp_size r, hp_phy_st_size := pr_phy_st_size r,
                    hp_rx_cnt_size := pr_rx_cnt_size r, hp_usr_num := pr_usr_num r, hp_usr := us\<rparr> in
          (case pr_rx_cnt_ptr r of
             Some p \<Rightarrow>
               if pr_rx_cnt_size r \<noteq> 0
               then (case read_rx_cnt m p 0 (min (unat (pr_rx_cnt_size r) div 2) HAL_RXCNT_MAX) (hp_rx_cnt h) of
                       Fault \<Rightarrow> Fault
                     | Done cs \<Rightarrow> Done (h\<lparr>hp_rx_cnt := cs\<rparr>))
               else Done h
           | None \<Rightarrow> Done h))"

text \<open>\<open>hal_handle_rx_buffer_8852c\<close> calls it with the length of the packet and does not look at the result.\<close>

definition rtw_hal_mac_ax_parse_ppdu_sts :: "bytes \<Rightarrow> bool \<Rightarrow> nat \<Rightarrow> u16 \<Rightarrow> (u32 \<times> hal_ppdu_sts) outcome" where
  "rtw_hal_mac_ax_parse_ppdu_sts m mac_valid buf buf_l =
     (case mac_parse_ppdu m buf (ucast buf_l) mac_valid of
        Fault \<Rightarrow> Fault
      | Done (ret, r) \<Rightarrow>
          if ret = MACSUCCESS
          then (case hal_mac_ax_ppdu_sts_to_hal_ppdu_sts m r hal_ppdu_sts_zero of
                  Fault \<Rightarrow> Fault
                | Done h \<Rightarrow> Done (ret, h))
          else Done (ret, hal_ppdu_sts_zero))"

subsection \<open>The header of a radar report\<close>

definition MAC_AX_DFS_HDR_SIZE :: nat where "MAC_AX_DFS_HDR_SIZE = 8"
definition MAC_AX_DFS_RPT_SIZE_SH :: nat where "MAC_AX_DFS_RPT_SIZE_SH = 3"

record dfs_rpt =
  df_dfs_ptr :: nat
  df_drop_num :: u16
  df_max_cont_drop :: u16
  df_total_drop :: u16
  df_dfs_num :: u16

definition mac_parse_dfs :: "bytes \<Rightarrow> nat \<Rightarrow> u32 \<Rightarrow> (u32 \<times> dfs_rpt) outcome" where
  "mac_parse_dfs m buf dfs_len =
     (case rd_n m buf 4 of
        Fault \<Rightarrow> Fault
      | Done b0 \<Rightarrow>
          (case rd_n m (buf + 4) 4 of
             Fault \<Rightarrow> Fault
           | Done b1 \<Rightarrow>
               let w0 = le32 b0; w1 = le32 b1; len = dfs_len - of_nat MAC_AX_DFS_HDR_SIZE in
               Done (if len AND mask MAC_AX_DFS_RPT_SIZE_SH \<noteq> 0 then MACPARSEERR else MACSUCCESS,
                     \<lparr>df_dfs_ptr = buf + MAC_AX_DFS_HDR_SIZE, df_drop_num = ucast (GET_FIELD w0 0 0xffff),
                      df_max_cont_drop = ucast (GET_FIELD w0 16 0xff),
                      df_total_drop = ucast (GET_FIELD w1 24 0xff),
                      df_dfs_num = ucast (drop_bit MAC_AX_DFS_RPT_SIZE_SH len)\<rparr>)))"

subsection \<open>Where the parsing stays inside\<close>

lemma rd_n_room: "i + n \<le> length m \<Longrightarrow> n < MAX_OBJ \<Longrightarrow> \<exists>b. rd_n m i n = Done b"
  by (simp add: rd_n_def)

lemma rd_n_inside: "rd_n m i n = Done b \<Longrightarrow> i + n \<le> length m"
  by (simp add: rd_n_def split: if_splits)

lemma four_less: "(4::nat) < MAX_OBJ" by (simp add: MAX_OBJ_def)

lemma parse_usrs_room:
  "ptr + 4 * n \<le> length m \<Longrightarrow> i + n \<le> length us \<Longrightarrow>
   \<exists>us'. parse_usrs m ptr i n us = Done us' \<and> length us' = length us"
proof (induction n arbitrary: ptr i us)
  case (Suc n)
  obtain b where "rd_n m ptr 4 = Done b" using rd_n_room [of ptr 4 m] Suc.prems(1) four_less by auto
  with Suc.prems Suc.IH [of "ptr + 4" "i + 1" "us[i := parse_usr (le32 b)]"] show ?case
    by (simp add: MAC_AX_MAC_INFO_USE_SIZE_def)
qed simp

lemma parse_usrs_length: "parse_usrs m ptr i n us = Done us' \<Longrightarrow> length us' = length us"
  by (induction n arbitrary: ptr i us) (auto split: outcome.splits if_splits)

lemma num_small: "\<not> (n :: u8) > MAC_MAX_8_USR \<Longrightarrow> unat n \<le> 8"
  by (simp add: MAC_MAX_8_USR_def word_less_nat_alt)

text \<open>Forty bytes from the start of the status on are enough: two words and eight users.\<close>

lemma parse_ppdu_room:
  assumes "buf + 40 \<le> length m"
  shows "\<exists>r. mac_parse_ppdu m buf len mac_info = Done r"
proof (cases mac_info)
  case True
  obtain b0 where b0: "rd_n m buf 4 = Done b0" using rd_n_room [of buf 4 m] assms four_less by auto
  obtain b1 where b1: "rd_n m (buf + 4) 4 = Done b1" using rd_n_room [of "buf + 4" 4 m] assms four_less by auto
  let ?num = "ucast (GET_FIELD (le32 b0) 0 0xf) :: u8"
  show ?thesis
  proof (cases "?num > MAC_MAX_8_USR")
    case True
    with b0 \<open>mac_info\<close> show ?thesis by (simp add: mac_parse_ppdu_def parse_mac_info_def Let_def)
  next
    case False
    note small = num_small [OF False]
    then obtain us where "parse_usrs m (buf + 8) 0 (unat ?num) (pr_usr ppdu_rpt_zero) = Done us"
      using parse_usrs_room [of "buf + 8" "unat ?num" m 0 "pr_usr ppdu_rpt_zero"] assms
      by (auto simp: ppdu_rpt_zero_def)
    with b0 b1 False \<open>mac_info\<close> show ?thesis by (simp add: mac_parse_ppdu_def parse_mac_info_def Let_def)
  qed
qed (simp add: mac_parse_ppdu_def)

text \<open>
  When a part for the PHY is left, the status is complete: behind the users come the counters,
  then the PLCP header, then this part, and it ends where the packet ends.
\<close>

definition status_parts :: "nat \<Rightarrow> nat \<Rightarrow> ppdu_rpt \<Rightarrow> bool" where
  "status_parts buf e r \<longleftrightarrow>
     (let c = buf + 8 + usr_area (pr_usr_num r); p = c + unat (pr_rx_cnt_size r); q = p + unat (pr_plcp_size r) in
      pr_rx_cnt_ptr r = (if pr_rx_cnt_size r = 0 then None else Some c) \<and>
      pr_plcp_ptr r = (if pr_plcp_size r = 0 then None else Some p) \<and>
      pr_phy_st_ptr r = Some q \<and> q + unat (pr_phy_st_size r) = e)"

lemma fill_mac_info_parts:
  assumes "\<not> num > MAC_MAX_8_USR" "length us = 8"
    and r: "r = fill_mac_info buf len w0 w1 num us ppdu_rpt_zero"
  shows "unat (pr_usr_num r) \<le> 8 \<and> length (pr_usr r) = 8 \<and> pr_rx_cnt_size r \<in> {0, 96} \<and>
    pr_rx_cnt_ptr r = (if pr_rx_cnt_size r = 0 then None else Some (buf + 8 + usr_area (pr_usr_num r))) \<and>
    (pr_phy_st_ptr r \<noteq> None \<longrightarrow> status_parts buf (buf + unat len) r)"
proof -
  have u: "unat (len - of_nat acc) = unat len - acc" if "acc < unat len" for acc
    using that unat_bound [of len] by (simp add: unat_sub_if' unat_of_nat word_le_nat_alt)
  define acc where "acc = 8 + usr_area num + unat (pr_rx_cnt_size r) + unat (pr_plcp_size r)"
  have "pr_phy_st_size r = (if acc < unat len then len - of_nat acc else 0)"
    "pr_phy_st_ptr r = (if acc < unat len then Some (buf + acc) else None)"
    by (simp_all add: r fill_mac_info_def acc_def ppdu_rpt_zero_def Let_def add.assoc)
  moreover have "pr_usr_num r = num" "pr_usr r = us"
    "pr_rx_cnt_size r \<in> {0, 96}" "pr_rx_cnt_ptr r = (if pr_rx_cnt_size r = 0 then None else Some (buf + 8 + usr_area num))"
    "pr_plcp_ptr r = (if pr_plcp_size r = 0 then None else Some (buf + 8 + usr_area num + unat (pr_rx_cnt_size r)))"
    by (simp_all add: r fill_mac_info_def ppdu_rpt_zero_def MAC_AX_RX_CNT_SIZE_def Let_def)
  moreover have "buf + 8 + usr_area num + unat (pr_rx_cnt_size r) + unat (pr_plcp_size r) = buf + acc"
    by (simp add: acc_def)
  ultimately show ?thesis
    using num_small [OF assms(1)] assms(2) u [of acc] unfolding status_parts_def Let_def by (auto split: if_splits)
qed

lemma parse_mac_info_done:
  assumes "parse_mac_info m buf len ppdu_rpt_zero = Done (MACSUCCESS, r)"
  obtains num us w0 w1 where "\<not> num > MAC_MAX_8_USR" "length us = 8"
    "r = fill_mac_info buf len w0 w1 num us ppdu_rpt_zero"
proof -
  obtain b0 where b0: "rd_n m buf 4 = Done b0"
    using assms by (simp add: parse_mac_info_def split: outcome.splits)
  define num :: u8 where "num = ucast (GET_FIELD (le32 b0) 0 0xf)"
  have small: "\<not> num > MAC_MAX_8_USR"
    using assms b0 by (auto simp: parse_mac_info_def num_def MACSUCCESS_def MACPARSEERR_def Let_def split: if_splits)
  obtain b1 where b1: "rd_n m (buf + 4) 4 = Done b1"
    using assms b0 small by (simp add: parse_mac_info_def num_def Let_def split: outcome.splits)
  obtain us where us: "parse_usrs m (buf + 8) 0 (unat num) (pr_usr ppdu_rpt_zero) = Done us"
    using assms b0 b1 small by (simp add: parse_mac_info_def num_def Let_def split: outcome.splits)
  have "length us = 8" using parse_usrs_length [OF us] by (simp add: ppdu_rpt_zero_def)
  moreover have "r = fill_mac_info buf len (le32 b0) (le32 b1) num us ppdu_rpt_zero"
    using assms b0 b1 small us by (simp add: parse_mac_info_def num_def Let_def)
  ultimately show ?thesis using that small by blast
qed

lemma status_in_packet:
  assumes "mac_parse_ppdu m buf len True = Done (MACSUCCESS, r)" "pr_phy_st_ptr r \<noteq> None"
  shows "status_parts buf (buf + unat len) r"
proof -
  have "parse_mac_info m buf len ppdu_rpt_zero = Done (MACSUCCESS, r)" using assms(1) by (simp add: mac_parse_ppdu_def)
  then obtain num us w0 w1 where "\<not> num > MAC_MAX_8_USR" "length us = 8"
    "r = fill_mac_info buf len w0 w1 num us ppdu_rpt_zero" by (rule parse_mac_info_done)
  with fill_mac_info_parts [of num us r buf len w0 w1] assms(2) show ?thesis by blast
qed

text \<open>
  The copy for the HAL ends, when the status is complete, the packet is in memory and there are
  at most four users; the counters it makes are bytes.
\<close>

lemma copy_usrs_room: "i + length us \<le> length hs \<Longrightarrow> \<exists>hs'. copy_usrs i us hs = Done hs'"
  by (induction us arbitrary: i hs) auto

lemma byte_in_u16: "unat (ucast (b :: u8) :: u16) < 256"
  using unat_bound [of b] by (simp add: unsigned_ucast_eq take_bit_eq_mod)

lemma read_rx_cnt_room:
  "ptr + 2 * (i + n) \<le> length m + 1 \<Longrightarrow> \<forall>c \<in> set cs. unat c < 256 \<Longrightarrow>
   \<exists>cs'. read_rx_cnt m ptr i n cs = Done cs' \<and> (\<forall>c \<in> set cs'. unat c < 256)"
proof (induction n arbitrary: i cs)
  case (Suc n)
  have "rd m (ptr + 2 * i) = Done (m ! (ptr + 2 * i))" using Suc.prems(1) by (simp add: rd_def)
  moreover have "\<forall>c \<in> set (cs[i := ucast (m ! (ptr + 2 * i))]). unat c < 256"
    using Suc.prems(2) byte_in_u16 set_update_subset_insert [of cs i] by fastforce
  ultimately show ?case using Suc.prems(1) Suc.IH [of "i + 1"] by simp
qed simp

lemma hal_status_done:
  assumes "mac_parse_ppdu m buf len True = Done (MACSUCCESS, r)" "pr_phy_st_ptr r \<noteq> None"
    and "unat (pr_usr_num r) \<le> 4" "buf + unat len \<le> length m"
  shows "\<exists>h. hal_mac_ax_ppdu_sts_to_hal_ppdu_sts m r hal_ppdu_sts_zero = Done h \<and>
    hp_phy_st_ptr h = pr_phy_st_ptr r \<and> hp_phy_st_size h = pr_phy_st_size r \<and>
    (\<forall>c \<in> set (hp_rx_cnt h). unat c < 256)"
proof -
  have "parse_mac_info m buf len ppdu_rpt_zero = Done (MACSUCCESS, r)" using assms(1) by (simp add: mac_parse_ppdu_def)
  then obtain num us w0 w1 where "\<not> num > MAC_MAX_8_USR" "length us = 8"
    "r = fill_mac_info buf len w0 w1 num us ppdu_rpt_zero" by (rule parse_mac_info_done)
  note f = fill_mac_info_parts [OF this]
  let ?n = "min (unat (pr_rx_cnt_size r) div 2) HAL_RXCNT_MAX"
  have st: "status_parts buf (buf + unat len) r" using f assms(2) by blast
  obtain hs where hs: "copy_usrs 0 (take (unat (pr_usr_num r)) (pr_usr r)) (hp_usr hal_ppdu_sts_zero) = Done hs"
    using copy_usrs_room [of 0 "take (unat (pr_usr_num r)) (pr_usr r)" "hp_usr hal_ppdu_sts_zero"] assms(3) f
    by (auto simp: hal_ppdu_sts_zero_def RTW_HAL_PPDU_STS_MAX_USR_def)
  have z: "\<forall>c \<in> set (hp_rx_cnt hal_ppdu_sts_zero). unat c < 256" by (simp add: hal_ppdu_sts_zero_def)
  show ?thesis
  proof (cases "pr_rx_cnt_size r = 0")
    case True
    with hs f z show ?thesis by (simp add: hal_mac_ax_ppdu_sts_to_hal_ppdu_sts_def Let_def)
  next
    case False
    let ?p = "buf + 8 + usr_area (pr_usr_num r)"
    have "?p + unat (pr_rx_cnt_size r) \<le> length m" using st assms(4) by (auto simp: status_parts_def Let_def)
    moreover have "a + 2 * (0 + min (c div 2) k) \<le> l + 1" if "a + c \<le> l" for a c k l :: nat
    proof -
      have "2 * min (c div 2) k \<le> c" unfolding min_def by presburger
      with that show ?thesis by (simp only: add_0_left)
    qed
    ultimately have "?p + 2 * (0 + ?n) \<le> length m + 1" by blast
    then obtain cs where "read_rx_cnt m ?p 0 ?n (hp_rx_cnt hal_ppdu_sts_zero) = Done cs" "\<forall>c \<in> set cs. unat c < 256"
      using read_rx_cnt_room [OF _ z] by blast
    with hs f False show ?thesis by (simp add: hal_mac_ax_ppdu_sts_to_hal_ppdu_sts_def Let_def)
  qed
qed

subsection \<open>Where it does not\<close>

lemma parse_usrs_outside:
  "length m < ptr + 4 * n \<Longrightarrow> n \<noteq> 0 \<Longrightarrow> parse_usrs m ptr i n us = Fault"
proof (induction n arbitrary: ptr i us)
  case (Suc n)
  show ?case
  proof (cases "n = 0")
    case True
    with Suc.prems show ?thesis by (simp add: rd_n_def)
  next
    case False
    with Suc.prems(1) Suc.IH [of "ptr + 4"] show ?thesis
      by (simp add: MAC_AX_MAC_INFO_USE_SIZE_def split: outcome.split)
  qed
qed simp

lemma rd_four: "rd_n m i 4 = (if i + 4 \<le> length m then Done (take 4 (drop i m)) else Fault)"
  by (simp add: rd_n_def MAX_OBJ_def)

text \<open>
  A transfer of seventeen bytes, a short descriptor of a PPDU status with MAC information and one
  byte of packet, with 32 bytes behind it. The HAL accepts the packet; its byte announces eight
  users, and reading them leaves the memory.
\<close>

definition short_status :: bytes where
  "short_status = [1, 0, 0x80, 1] @ replicate 12 0 @ [8]"

lemma ppdu_status_reads_outside:
  "\<exists>md. hal_handle_rx_buffer (short_status @ replicate 32 0) 0 17 RTW_RX_TYPE_MAX =
      Done (Some (RTW_RX_TYPE_PPDU_STATUS, 16, 1, md)) \<and> md_mac_info_vld md = 1 \<and>
    rtw_hal_mac_ax_parse_ppdu_sts (short_status @ replicate 32 0) True 16 1 = Fault"
proof -
  let ?m = "short_status @ replicate 32 0"
  let ?md = "parse_short 0x1800001 0 0 (parse_dw0 0x1800001 rxd_meta_zero)"
  have b: "rd_n ?m 0 4 = Done [1, 0, 0x80, 1]" "rd_n ?m 4 12 = Done (replicate 12 0)"
    "rd_n ?m 16 4 = Done (8 # replicate 3 0)" "rd_n ?m 20 4 = Done (replicate 4 0)"
    by (simp_all add: short_status_def rd_n_def MAX_OBJ_def)
  have w: "le32 [1, 0, 0x80, 1] = 0x1800001" "le32 (replicate 12 0) = 0" "le32 (drop 8 (replicate 12 0)) = 0"
    "le32 (8 # replicate 3 0) = 8" by code_simp+
  have f: "md_rpkt_type (parse_dw0 0x1800001 rxd_meta_zero) = 1"
    "md_long_rxd (parse_dw0 0x1800001 rxd_meta_zero) = 0" "md_long_rxd ?md = 0" "md_pktlen ?md = 1"
    "md_shift ?md = 0" "md_drv_info_size ?md = 0" "md_mac_info_vld ?md = 1" "md_rpkt_type ?md = 1"
    by code_simp+
  have "hal_parsing_rx_pkt ?m 0 = Done (Some (16, 1, ?md))"
    using b(1,2) w(1,2,3) f
    by (simp add: hal_parsing_rx_pkt_def hal_parsing_rx_wd_def PKT_T_PPDU_STATUS_def PKT_T_WIFI_def
        RX_DESC_S_SIZE_def RX_DESC_DRV_INFO_UNIT_def Let_def)
  moreover have "rx_type_of RTW_RX_TYPE_MAX 1 = RTW_RX_TYPE_PPDU_STATUS" by code_simp
  ultimately have h: "hal_handle_rx_buffer ?m 0 17 RTW_RX_TYPE_MAX = Done (Some (RTW_RX_TYPE_PPDU_STATUS, 16, 1, ?md))"
    using f by (simp add: hal_handle_rx_buffer_def PKT_T_WIFI_def)
  have "ucast (GET_FIELD 8 0 0xf) = (8 :: u8)" by code_simp
  moreover have "parse_usrs ?m 24 0 8 us = Fault" for us
    by (rule parse_usrs_outside) (simp_all add: short_status_def)
  ultimately have "mac_parse_ppdu ?m 16 1 True = Fault"
    using b(3,4) w(4) by (simp add: mac_parse_ppdu_def parse_mac_info_def MAC_MAX_8_USR_def Let_def)
  then have "rtw_hal_mac_ax_parse_ppdu_sts ?m True 16 1 = Fault" by (simp add: rtw_hal_mac_ax_parse_ppdu_sts_def)
  with h f show ?thesis by blast
qed

text \<open>
  Five users, as a status of this chip may have: the HAL copies them into its array of four.
\<close>

lemma five_users_overrun:
  assumes "parse_mac_info m buf len ppdu_rpt_zero = Done (MACSUCCESS, r)"
    and "4 < unat (pr_usr_num r)" "\<exists>i. 4 \<le> i \<and> i < unat (pr_usr_num r) \<and> us_vld (pr_usr r ! i)"
  shows "hal_mac_ax_ppdu_sts_to_hal_ppdu_sts m r hal_ppdu_sts_zero = Fault"
proof -
  have overrun: "copy_usrs j us hs = Fault"
    if "length hs \<le> j + i" "i < length us" "us_vld (us ! i)" for us hs i j
    using that
  proof (induction us arbitrary: i j hs)
    case (Cons u us)
    then show ?case by (cases i) (auto simp: Cons.IH [where i = "i - 1"])
  qed simp
  obtain i where i: "4 \<le> i" "i < unat (pr_usr_num r)" "us_vld (pr_usr r ! i)" using assms(3) by blast
  obtain num us w0 w1 where "\<not> num > MAC_MAX_8_USR" "length us = 8"
    "r = fill_mac_info buf len w0 w1 num us ppdu_rpt_zero" by (rule parse_mac_info_done [OF assms(1)])
  note f = fill_mac_info_parts [OF this]
  have "copy_usrs 0 (take (unat (pr_usr_num r)) (pr_usr r)) (hp_usr hal_ppdu_sts_zero) = Fault"
    using i f by (intro overrun [of _ _ i])
      (auto simp: hal_ppdu_sts_zero_def RTW_HAL_PPDU_STS_MAX_USR_def)
  then show ?thesis by (simp add: hal_mac_ax_ppdu_sts_to_hal_ppdu_sts_def)
qed

definition five_users :: bytes where
  "five_users = [5, 0, 0, 0, 0, 0, 0, 0] @ [1, 0, 0, 0, 1, 0, 0, 0, 1, 0, 0, 0, 1, 0, 0, 0, 1, 0, 0, 0] @ replicate 12 0"

lemma five_users_fault: "rtw_hal_mac_ax_parse_ppdu_sts five_users True 0 40 = Fault"
proof -
  let ?us = "replicate 5 (parse_usr 1) @ replicate 3 ppdu_usr_zero"
  let ?r = "fill_mac_info 0 40 5 0 5 ?us ppdu_rpt_zero"
  have b: "rd_n five_users 0 4 = Done [5, 0, 0, 0]" "rd_n five_users 4 4 = Done [0, 0, 0, 0]"
    "rd_n five_users 8 4 = Done [1, 0, 0, 0]" "rd_n five_users 12 4 = Done [1, 0, 0, 0]"
    "rd_n five_users 16 4 = Done [1, 0, 0, 0]" "rd_n five_users 20 4 = Done [1, 0, 0, 0]"
    "rd_n five_users 24 4 = Done [1, 0, 0, 0]"
    by (simp_all add: five_users_def rd_n_def MAX_OBJ_def)
  have w: "le32 [5, 0, 0, 0] = 5" "le32 [0, 0, 0, 0] = 0" "le32 [1, 0, 0, 0] = 1"
    "ucast (GET_FIELD 5 0 0xf) = (5 :: u8)" by code_simp+
  have "parse_usrs five_users 8 0 5 (replicate 8 ppdu_usr_zero) = Done ?us"
    using b(3-7) w(3) by (simp add: numeral_eq_Suc MAC_AX_MAC_INFO_USE_SIZE_def)
  then have p: "parse_mac_info five_users 0 40 ppdu_rpt_zero = Done (MACSUCCESS, ?r)"
    using b(1,2) w by (simp add: parse_mac_info_def MAC_MAX_8_USR_def ppdu_rpt_zero_def Let_def)
  have "us_vld (parse_usr 1)" by code_simp
  then have "unat (pr_usr_num ?r) = 5" "us_vld (pr_usr ?r ! 4)"
    by (simp_all add: fill_mac_info_def ppdu_rpt_zero_def nth_append Let_def)
  then have "hal_mac_ax_ppdu_sts_to_hal_ppdu_sts five_users ?r hal_ppdu_sts_zero = Fault"
    by (intro five_users_overrun [OF p] exI [of _ 4]) simp_all
  with p show ?thesis by (simp add: rtw_hal_mac_ax_parse_ppdu_sts_def mac_parse_ppdu_def)
qed

text \<open>A PLCP header of 32 units of eight bytes counts as none: the size is kept in a byte.\<close>

lemma plcp_size_wraps: "pr_plcp_size (fill_mac_info buf len w0 0x200000 num us rpt) = 0"
  by (simp add: fill_mac_info_def GET_FIELD_def Let_def)

text \<open>A radar report shorter than its header counts 65535 entries.\<close>

lemma short_dfs_report:
  assumes "buf + 8 \<le> length m" "len < 8"
  shows "\<exists>ret r. mac_parse_dfs m buf len = Done (ret, r) \<and> df_dfs_num r = 65535"
proof -
  obtain b0 b1 where b: "rd_n m buf 4 = Done b0" "rd_n m (buf + 4) 4 = Done b1"
    using rd_n_room [of buf 4 m] rd_n_room [of "buf + 4" 4 m] assms(1) four_less by auto
  have "unat len \<in> {0, 1, 2, 3, 4, 5, 6, 7}" using assms(2) by (auto simp: word_less_nat_alt)
  then have "len \<in> {0, 1, 2, 3, 4, 5, 6, 7}" by (simp add: word_unat_eq_iff)
  then have "ucast (drop_bit 3 (len - 8)) = (65535 :: u16)" by (elim insertE emptyE) (simp_all, code_simp+)
  with b show ?thesis by (simp add: mac_parse_dfs_def MAC_AX_DFS_HDR_SIZE_def MAC_AX_DFS_RPT_SIZE_SH_def Let_def)
qed

end
