(* ===== verification/RxDescProps.thy ===== *)
theory RxDescProps
  imports PpduStatus
begin

text \<open>
  What the splitting of a receive transfer promises: whatever the device sends, the packets are
  pieces of the transfer, one behind the other, and none of them reaches outside
  (\<open>rx_packets_inside\<close>); and a transfer that is laid out as the device does it is split into
  exactly its packets (\<open>rx_transfer_parsed\<close>).
\<close>

subsection \<open>Any transfer\<close>

text \<open>Pieces of a transfer that ends at \<open>e\<close>, from \<open>pos\<close> on: start and length of each packet.\<close>

fun pieces :: "nat \<Rightarrow> nat \<Rightarrow> (nat \<times> nat) list \<Rightarrow> bool" where
  "pieces pos e [] = True"
| "pieces pos e ((v, n) # xs) \<longleftrightarrow>
     pos + 16 \<le> v \<and> 0 < n \<and> v + n \<le> e \<and> pieces (pos + align8 (v - pos + n)) e xs"

lemma align8_24: "16 < n \<Longrightarrow> 24 \<le> align8 n"
  unfolding align8_def by presburger

lemma pieces_count: "pieces pos e (x # xs) \<Longrightarrow> pos + 24 * length xs + 16 < e"
proof (induction xs arbitrary: pos x)
  case Nil
  then show ?case by (cases x) auto
next
  case (Cons y ys)
  obtain v n where x: "x = (v, n)" by fastforce
  have "pos + 16 \<le> v" "0 < n" using Cons.prems by (simp_all add: x)
  then have "16 < v - pos + n" by linarith
  then have "24 \<le> align8 (v - pos + n)" by (rule align8_24)
  moreover have "pos + align8 (v - pos + n) + 24 * length ys + 16 < e"
    using Cons.prems unfolding x pieces.simps(2) by (intro Cons.IH [of _ y]) blast
  ultimately show ?case by simp
qed

text \<open>The packet \<open>p\<close> is the piece of the buffer \<open>b\<close>, kept there or copied.\<close>

definition packet_of :: "bytes \<Rightarrow> nat \<Rightarrow> phl_rx_pkt \<Rightarrow> nat \<times> nat \<Rightarrow> bool" where
  "packet_of m b p vn \<longleftrightarrow> unat (rp_length p) = snd vn \<and>
     (rp_data p = In_rxbuf (fst vn) \<and> rp_rxbuf_ptr p = Some b \<or>
      rp_data p = In_netbuf (take (snd vn) (drop (fst vn) m)) \<and> rp_rxbuf_ptr p = None \<and>
        rp_type p = RTW_RX_TYPE_WIFI \<and> snd vn \<le> unat (rp_netbuf_len p))"

definition keepers :: "(nat \<Rightarrow> phl_rx_pkt) \<Rightarrow> nat list \<Rightarrow> nat list" where
  "keepers pkts ks = filter (\<lambda>k. rp_rxbuf_ptr (pkts k) \<noteq> None) ks"

definition split_from :: "bytes \<Rightarrow> nat \<Rightarrow> nat \<Rightarrow> nat \<Rightarrow> rx_split \<Rightarrow> nat list \<Rightarrow> rx_split \<Rightarrow> bool" where
  "split_from m b pos e s0 ks s \<longleftrightarrow>
     sp_head s = sp_head s0 @ ks \<and>
     (\<exists>rest. idle (sp_pool s0) = ks @ rest \<and> mset (idle (sp_pool s)) = mset rest) \<and>
     idle_cnt (sp_pool s) = idle_cnt (sp_pool s0) - int (length ks) \<and>
     (\<exists>vs. pieces pos e vs \<and> list_all2 (\<lambda>k. packet_of m b (sp_pkts s k)) ks vs) \<and>
     (\<forall>k. k \<notin> set (idle (sp_pool s0)) \<longrightarrow> sp_pkts s k = sp_pkts s0 k) \<and>
     (\<forall>k \<in> set (idle (sp_pool s)). rp_rxbuf_ptr (sp_pkts s k) = None) \<and>
     sp_ref_cnt s = sp_ref_cnt s0 + of_nat (length (keepers (sp_pkts s) ks)) \<and>
     (sp_brel s \<longleftrightarrow> sp_brel s0 \<and> keepers (sp_pkts s) ks = [])"

lemma query_cases:
  "rtw_phl_query_phl_rx q = (None, q) \<and> idle q = [] \<or>
   (\<exists>k ks. idle q = k # ks \<and> rtw_phl_query_phl_rx q = (Some k, q\<lparr>idle := ks, idle_cnt := idle_cnt q - 1\<rparr>))"
  by (cases "idle q") (simp_all add: rtw_phl_query_phl_rx_def)

lemma rd_n_ok: "n < MAX_OBJ \<Longrightarrow> i + n \<le> length m \<Longrightarrow> rd_n m i n = Done (take n (drop i m))"
  by (simp add: rd_n_def)

lemma netbuf_len_ge: "unat len \<le> unat (netbuf_len_of hdr len)"
  by (auto simp: netbuf_len_of_def Let_def word_less_nat_alt)

text \<open>With 32 bytes behind the transfer no read leaves the buffer.\<close>

lemma handle_in_bounds:
  assumes "buf + n + 32 \<le> length m"
  shows "hal_handle_rx_buffer m buf n t \<noteq> Fault"
proof -
  have rd: "rd_n m (buf + i) l \<noteq> Fault" if "i + l \<le> 32" for i l
    using that assms by (simp add: rd_n_def MAX_OBJ_def)
  have "hal_parsing_rx_wd m buf \<noteq> Fault"
    using rd [of 0 4] rd [of 4 12] rd [of 16 16]
    by (auto simp: hal_parsing_rx_wd_def Let_def split: outcome.splits)
  then have "hal_parsing_rx_pkt m buf \<noteq> Fault"
    by (auto simp: hal_parsing_rx_pkt_def Let_def split: outcome.splits)
  moreover have "rd_n m vir 24 \<noteq> Fault" if "vir + unat len \<le> buf + n" for vir and len :: u16
    using that assms by (simp add: rd_n_def MAX_OBJ_def)
  ultimately show ?thesis
    by (auto simp: hal_handle_rx_buffer_def WLAN_HDR_LOOKED_AT_def not_less split: outcome.splits option.splits if_splits)
qed

lemma fill_in_bounds:
  assumes "vir + unat len \<le> e" "e + 32 \<le> length m"
  shows "\<exists>p balloc. fill_rx_pkt nb m b t vir len md = Done (p, balloc) \<and> packet_of m b p (vir, unat len) \<and>
    (balloc \<longleftrightarrow> rp_rxbuf_ptr p = None)"
proof -
  have "unat len < 2 ^ 16" using unat_bound [of len] by simp
  then have "rd_n m vir (unat len) = Done (take (unat len) (drop vir m))" "\<exists>h. rd_n m vir 24 = Done h"
    using assms by (simp_all add: rd_n_def MAX_OBJ_def)
  then show ?thesis using netbuf_len_ge
    by (auto simp: fill_rx_pkt_def Let_def packet_of_def)
qed

lemma split_loop:
  assumes "distinct (idle (sp_pool s0))" "\<forall>k \<in> set (idle (sp_pool s0)). rp_rxbuf_ptr (sp_pkts s0 k) = None"
    and "e + 32 \<le> length m" "pos + left = e"
  shows "\<exists>s ks. get_rx_loop nb m b pos left s0 = Done s \<and> split_from m b pos e s0 ks s"
  using assms
proof (induction nb m b pos left s0 rule: get_rx_loop.induct)
  case (1 nb m b pos left s0)
  from query_cases [of "sp_pool s0"] show ?case
  proof (elim disjE exE conjE)
    assume "rtw_phl_query_phl_rx (sp_pool s0) = (None, sp_pool s0)" "idle (sp_pool s0) = []"
    then have "get_rx_loop nb m b pos left s0 = Done s0" "split_from m b pos e s0 [] s0"
      by (simp_all add: get_rx_loop.simps split_from_def keepers_def exI [of _ "[]"])
    then show ?thesis by blast
  next
    fix k ks
    assume il: "idle (sp_pool s0) = k # ks"
      and q: "rtw_phl_query_phl_rx (sp_pool s0) = (Some k, (sp_pool s0)\<lparr>idle := ks, idle_cnt := idle_cnt (sp_pool s0) - 1\<rparr>)"
      (is "_ = (Some k, ?q)")
    let ?h = "hal_handle_rx_buffer m pos left (rp_type (sp_pkts s0 k))"
    consider "?h = Done None" | t vir len md where "?h = Done (Some (t, vir, len, md))"
      using handle_in_bounds [of pos left m] 1(4,5) by (metis outcome.exhaust option.exhaust prod_cases4 add.assoc)
    then show ?thesis
    proof cases
      case 1
      let ?s = "s0\<lparr>sp_pool := phl_release_phl_rx k ?q, sp_pkts := (sp_pkts s0)(k := rx_pkt_released)\<rparr>"
      have "get_rx_loop nb m b pos left s0 = Done ?s" using q 1 by (simp add: get_rx_loop.simps)
      moreover have "split_from m b pos e s0 [] ?s"
        using "1.prems"(1,2) il by (auto simp: split_from_def keepers_def phl_release_phl_rx_def rx_pkt_released_def exI [of _ "[]"])
      ultimately show ?thesis by blast
    next
      case h: 2
      let ?al = "align8 (vir - pos + unat len)"
      have vir: "pos + 16 \<le> vir" "0 < unat len" "vir + unat len \<le> e"
        using handled_pkt [OF h] 1(5) by auto
      obtain p balloc where f: "fill_rx_pkt (nb pos) m b t vir len md = Done (p, balloc)"
        and p: "packet_of m b p (vir, unat len)" "balloc \<longleftrightarrow> rp_rxbuf_ptr p = None"
        using fill_in_bounds [OF vir(3) 1(4)] by blast
      let ?s1 = "\<lparr>sp_pool = ?q, sp_pkts = (sp_pkts s0)(k := p), sp_head = sp_head s0 @ [k],
        sp_brel = (sp_brel s0 \<and> balloc), sp_ref_cnt = (if balloc then sp_ref_cnt s0 else sp_ref_cnt s0 + 1)\<rparr>"
      have d: "distinct ks" "k \<notin> set ks" using "1.prems"(1) il by auto
      have step: "split_from m b pos e s0 (k # js) s"
        if ok: "split_from m b (pos + ?al) e ?s1 js s" for js s
      proof -
        have kp: "sp_pkts s k = p" using ok d by (simp add: split_from_def)
        have keep: "keepers (sp_pkts s) (k # js) = (if balloc then [] else [k]) @ keepers (sp_pkts s) js"
          using p(2) by (simp add: keepers_def kp)
        obtain vs where vs: "pieces (pos + ?al) e vs" "list_all2 (\<lambda>k. packet_of m b (sp_pkts s k)) js vs"
          using ok by (auto simp: split_from_def)
        have "pieces pos e ((vir, unat len) # vs)" using vir vs(1) by simp
        moreover have "list_all2 (\<lambda>k. packet_of m b (sp_pkts s k)) (k # js) ((vir, unat len) # vs)"
          using vs(2) p(1) by (simp add: kp)
        ultimately have E: "\<exists>vs. pieces pos e vs \<and> list_all2 (\<lambda>k. packet_of m b (sp_pkts s k)) (k # js) vs"
          by blast
        obtain rest where rest: "ks = js @ rest" "mset (idle (sp_pool s)) = mset rest"
          using ok by (auto simp: split_from_def)
        have "sp_brel s \<longleftrightarrow> sp_brel s0 \<and> keepers (sp_pkts s) (k # js) = []"
          using ok unfolding keep by (auto simp: split_from_def)
        then show ?thesis unfolding split_from_def
        proof (intro conjI E, goal_cases)
          case 2
          show ?case using rest by (intro exI [of _ rest]) (simp add: il)
        qed (use ok in \<open>auto simp: split_from_def il keep\<close>)
      qed
      show ?thesis
      proof (cases "?al < left")
        case True
        have "\<exists>s js. get_rx_loop nb m b (pos + ?al) (left - ?al) ?s1 = Done s \<and> split_from m b (pos + ?al) e ?s1 js s"
        proof (rule 1(1) [OF q [symmetric] refl h refl refl refl refl refl f refl refl True])
        qed (use d "1.prems" il True in auto)
        moreover have "get_rx_loop nb m b pos left s0 = get_rx_loop nb m b (pos + ?al) (left - ?al) ?s1"
          using q h f True by (subst get_rx_loop.simps) (simp add: Let_def)
        ultimately show ?thesis using step by metis
      next
        case False
        then have "get_rx_loop nb m b pos left s0 = Done ?s1"
          using q h f by (subst get_rx_loop.simps) (simp add: Let_def)
        moreover have "split_from m b (pos + ?al) e ?s1 [] ?s1"
          using d "1.prems"(2) il by (auto simp: split_from_def keepers_def intro!: exI [of _ "[]"])
        ultimately show ?thesis using step by blast
      qed
    qed
  qed
qed

lemma split_any:
  assumes "distinct (idle q)" "\<forall>k \<in> set (idle q). rp_rxbuf_ptr (pkts k) = None" "n + 32 \<le> length m"
  shows "\<exists>s. split_transfer nb m b n q pkts = Done s \<and>
    split_from m b 0 n \<lparr>sp_pool = q, sp_pkts = pkts, sp_head = [], sp_brel = True, sp_ref_cnt = 0\<rparr> (sp_head s) s"
proof -
  let ?s0 = "\<lparr>sp_pool = q, sp_pkts = pkts, sp_head = [], sp_brel = True, sp_ref_cnt = 0\<rparr>"
  obtain s ks where "get_rx_loop nb m b 0 n ?s0 = Done s" and f: "split_from m b 0 n ?s0 ks s"
    using split_loop [of ?s0 n m 0 n nb b] assms by auto
  moreover have "ks = sp_head s" using f by (simp add: split_from_def)
  ultimately show ?thesis by (auto simp: split_transfer_def)
qed

lemma pieces_end: "pieces pos e vs \<Longrightarrow> vn \<in> set vs \<Longrightarrow> fst vn + snd vn \<le> e"
  by (induction pos e vs rule: pieces.induct) auto

lemma pieces_parsed:
  assumes "pieces 0 n vs" "list_all2 (\<lambda>k. packet_of m b (pkts k)) ks vs" "n + 40 \<le> length m"
    and "k \<in> set ks" "rp_data (pkts k) = In_rxbuf v"
  shows "\<exists>r. mac_parse_ppdu m v len mac_info = Done r"
proof -
  obtain i where i: "i < length ks" "k = ks ! i" using assms(4) by (auto simp: in_set_conv_nth)
  then obtain vn where "vn \<in> set vs" "packet_of m b (pkts k) vn"
    using list_all2_nthD [OF assms(2) i(1)] list_all2_lengthD [OF assms(2)] that [of "vs ! i"] by simp
  with pieces_end [OF assms(1)] assms(5) have "v \<le> n" by (fastforce simp: packet_of_def)
  with assms(3) show ?thesis by (intro parse_ppdu_room) simp
qed

text \<open>
  C8. Locating the packets of a transfer - reading the descriptors, the headers of frames and the
  bytes that are copied into network buffers - ends and reads nothing outside the transfer and
  the 32 bytes behind it, whatever bytes the device sends. The packets found are the first idle
  ones of the pool, each is a piece of the transfer behind its descriptor, the pieces follow one
  another, and there is at most one for every 24 bytes. The other packets stay in the pool.

  The routines that \<open>hal_handle_rx_buffer_8852c\<close> calls on the contents of reports are another
  matter. One of them is part of this statement: with 40 bytes behind the transfer
  \<open>mac_parse_ppdu\<close> ends without a read outside on every packet that stays in the buffer. With
  32 bytes it does not (\<open>ppdu_status_reads_outside\<close>). What the other routines read (the counters
  and the PHY part of a PPDU status, DFS, channel information, C2H) is not stated here.
\<close>

theorem rx_packets_inside:
  assumes "distinct (idle q)" "\<forall>k \<in> set (idle q). rp_rxbuf_ptr (pkts k) = None" "n + 32 \<le> length m"
  shows "\<exists>s vs. split_transfer nb m b n q pkts = Done s \<and> sp_head s = take (length vs) (idle q) \<and>
    pieces 0 n vs \<and> list_all2 (\<lambda>k. packet_of m b (sp_pkts s k)) (sp_head s) vs \<and>
    24 * length vs \<le> n + 7 \<and> mset (sp_head s) + mset (idle (sp_pool s)) = mset (idle q) \<and>
    (n + 40 \<le> length m \<longrightarrow> (\<forall>k \<in> set (sp_head s). \<forall>v mac_info. rp_data (sp_pkts s k) = In_rxbuf v \<longrightarrow>
       (\<exists>r. mac_parse_ppdu m v (ucast (rp_length (sp_pkts s k))) mac_info = Done r)))"
proof -
  obtain s where s: "split_transfer nb m b n q pkts = Done s"
    and f: "split_from m b 0 n \<lparr>sp_pool = q, sp_pkts = pkts, sp_head = [], sp_brel = True, sp_ref_cnt = 0\<rparr> (sp_head s) s"
    using split_any [OF assms] by blast
  obtain rest vs where r: "idle q = sp_head s @ rest" "mset (idle (sp_pool s)) = mset rest"
    and v: "pieces 0 n vs" "list_all2 (\<lambda>k. packet_of m b (sp_pkts s k)) (sp_head s) vs"
    using f by (auto simp: split_from_def)
  have "24 * length vs \<le> n + 7" using v(1) pieces_count [of 0 n] by (cases vs) fastforce+
  moreover have "sp_head s = take (length vs) (idle q)" using r(1) list_all2_lengthD [OF v(2)] by simp
  moreover have "\<exists>r. mac_parse_ppdu m w (ucast (rp_length (sp_pkts s k))) mac_info = Done r"
    if "n + 40 \<le> length m" "k \<in> set (sp_head s)" "rp_data (sp_pkts s k) = In_rxbuf w" for k w mac_info
    using pieces_parsed [OF v that] .
  ultimately show ?thesis using s r v by auto
qed

subsection \<open>A transfer of the device\<close>

text \<open>
  A packet as the device sends it: its type, the sizes of what is between descriptor and packet,
  the other bytes of the descriptor and the packet itself.
\<close>

record dev_pkt =
  dv_type :: nat
  dv_long :: bool
  dv_shift :: nat
  dv_drv_info :: nat
  dv_mac_info :: bool
  dv_other :: nat
  dv_words :: bytes
  dv_gap :: bytes
  dv_payload :: bytes

definition dv_ok :: "dev_pkt \<Rightarrow> bool" where
  "dv_ok d \<longleftrightarrow> dv_type d < 16 \<and> dv_shift d < 4 \<and> dv_drv_info d < 8 \<and> dv_other d < 128 \<and>
     length (dv_words d) = (if dv_long d then 28 else 12) \<and>
     length (dv_gap d) = dv_shift d * 2 + dv_drv_info d * 16 + (if dv_mac_info d \<and> dv_type d \<noteq> 1 then 4 else 0) \<and>
     dv_payload d \<noteq> [] \<and> length (dv_payload d) < 16384"

text \<open>The first word of the descriptor, from the lowest field to the highest.\<close>

definition dv_word :: "dev_pkt \<Rightarrow> nat" where
  "dv_word d = length (dv_payload d) + 16384 * (dv_shift d + 4 * (dv_other d + 128 * (of_bool (dv_mac_info d) +
     2 * (dv_type d + 16 * (dv_drv_info d + 8 * of_bool (dv_long d))))))"

definition le_bytes :: "nat \<Rightarrow> bytes" where
  "le_bytes w = [of_nat w, of_nat (w div 256), of_nat (w div 65536), of_nat (w div 16777216)]"

definition dv_bytes :: "dev_pkt \<Rightarrow> bytes" where
  "dv_bytes d = le_bytes (dv_word d) @ dv_words d @ dv_gap d @ dv_payload d"

text \<open>Packets begin at multiples of eight.\<close>

definition pad8 :: "bytes \<Rightarrow> bytes" where "pad8 bs = bs @ replicate (align8 (length bs) - length bs) 0"

fun dv_stream :: "dev_pkt list \<Rightarrow> bytes" where
  "dv_stream [] = []"
| "dv_stream [d] = dv_bytes d"
| "dv_stream (d # e # ds) = pad8 (dv_bytes d) @ dv_stream (e # ds)"

lemma le32_le_bytes:
  assumes "w < 2 ^ 32"
  shows "unat (le32 (le_bytes w @ xs)) = w"
proof -
  have "le32 (le_bytes w @ xs) = of_nat w"
  proof (rule bit_word_eqI)
    fix n assume "n < LENGTH(32)"
    then consider "n < 8" | "8 \<le> n" "n < 16" | "16 \<le> n" "n < 24" | "24 \<le> n" "n < 32" by fastforce
    then show "bit (le32 (le_bytes w @ xs)) n = bit (of_nat w :: u32) n"
    proof cases
      case 1
      then show ?thesis by (simp add: le32_def le_bytes_def bit_simps)
    next
      case 2
      then have "bit (w div 256) (n - 8) = bit w n" "n - 8 < 8" using 2 bit_drop_bit_eq [of 8 w]
        by (simp_all add: drop_bit_eq_div fun_eq_iff)
      then show ?thesis using 2 by (simp add: le32_def le_bytes_def bit_simps)
    next
      case 3
      then have "bit (w div 65536) (n - 16) = bit w n" "n - 16 < 8" "\<not> n - 8 < 8" using 3 bit_drop_bit_eq [of 16 w]
        by (simp_all add: drop_bit_eq_div fun_eq_iff)
      then show ?thesis using 3 by (simp add: le32_def le_bytes_def bit_simps)
    next
      case 4
      then have "bit (w div 16777216) (n - 24) = bit w n" "n - 24 < 8" "\<not> n - 8 < 8" "\<not> n - 16 < 8" using 4 bit_drop_bit_eq [of 24 w]
        by (simp_all add: drop_bit_eq_div fun_eq_iff)
      then show ?thesis using 4 by (simp add: le32_def le_bytes_def bit_simps)
    qed
  qed
  then show ?thesis using assms by (simp add: unat_of_nat)
qed

lemma nested_fields:
  fixes a b c v t k l :: nat
  assumes "a < 16384" "b < 4" "c < 128" "v < 2" "t < 16" "k < 8" "l < 2"
    and w: "w = a + 16384 * (b + 4 * (c + 128 * (v + 2 * (t + 16 * (k + 8 * l)))))"
  shows "w mod 16384 = a" "w div 16384 mod 4 = b" "w div 8388608 mod 2 = v"
    "w div 16777216 mod 16 = t" "w div 268435456 mod 8 = k" "w div 2147483648 mod 2 = l"
proof -
  have 1: "w div 16384 = b + 4 * (c + 128 * (v + 2 * (t + 16 * (k + 8 * l))))" using assms(1) by (simp add: w)
  have 2: "w div 65536 = c + 128 * (v + 2 * (t + 16 * (k + 8 * l)))"
    using assms(2) 1 div_mult2_eq [of w 16384 4] by simp
  have 3: "w div 8388608 = v + 2 * (t + 16 * (k + 8 * l))"
    using assms(3) 2 div_mult2_eq [of w 65536 128] by simp
  have 4: "w div 16777216 = t + 16 * (k + 8 * l)" using assms(4) 3 div_mult2_eq [of w 8388608 2] by simp
  have 5: "w div 268435456 = k + 8 * l" using assms(5) 4 div_mult2_eq [of w 16777216 16] by simp
  have 6: "w div 2147483648 = l" using assms(6) 5 div_mult2_eq [of w 268435456 8] by simp
  show "w mod 16384 = a" using assms(1) by (simp only: w mod_mult_self2 mod_less)
  show "w div 16384 mod 4 = b" unfolding 1 using assms(2) by (simp only: mod_mult_self2 mod_less)
  show "w div 8388608 mod 2 = v" unfolding 3 using assms(4) by (simp only: mod_mult_self2 mod_less)
  show "w div 16777216 mod 16 = t" unfolding 4 using assms(5) by (simp only: mod_mult_self2 mod_less)
  show "w div 268435456 mod 8 = k" unfolding 5 using assms(6) by (simp only: mod_mult_self2 mod_less)
  show "w div 2147483648 mod 2 = l" unfolding 6 using assms(7) by simp
qed

lemma dv_word_bound: "dv_ok d \<Longrightarrow> dv_word d < 2 ^ 32"
  by (simp add: dv_ok_def dv_word_def of_bool_def)

lemma dv_fields:
  assumes "dv_ok d" "unat w = dv_word d"
  shows "unat (LE_BITS w 0 14) = length (dv_payload d)" "unat (LE_BITS w 14 2) = dv_shift d"
    "unat (LE_BITS w 23 1) = of_bool (dv_mac_info d)" "unat (LE_BITS w 24 4) = dv_type d"
    "unat (LE_BITS w 28 3) = dv_drv_info d" "unat (LE_BITS w 31 1) = of_bool (dv_long d)"
proof -
  have "dv_word d = length (dv_payload d) + 16384 * (dv_shift d + 4 * (dv_other d + 128 * (of_bool (dv_mac_info d) +
     2 * (dv_type d + 16 * (dv_drv_info d + 8 * of_bool (dv_long d))))))" by (simp add: dv_word_def)
  note N = nested_fields [OF _ _ _ _ _ _ _ this]
  show "unat (LE_BITS w 0 14) = length (dv_payload d)" "unat (LE_BITS w 14 2) = dv_shift d"
    "unat (LE_BITS w 23 1) = of_bool (dv_mac_info d)" "unat (LE_BITS w 24 4) = dv_type d"
    "unat (LE_BITS w 28 3) = dv_drv_info d" "unat (LE_BITS w 31 1) = of_bool (dv_long d)"
    using N assms(1) unfolding LE_BITS_unat assms(2) by (simp_all add: dv_ok_def)
qed

definition dv_head :: "dev_pkt \<Rightarrow> nat" where
  "dv_head d = 4 + length (dv_words d) + length (dv_gap d)"

lemma length_dv_bytes: "length (dv_bytes d) = dv_head d + length (dv_payload d)"
  by (simp add: dv_bytes_def dv_head_def le_bytes_def)

lemma unat_ucast_small:
  assumes "unat w < 2 ^ LENGTH('a)"
  shows "unat (ucast (w :: u32) :: 'a :: len word) = unat w"
  using assms by (simp add: unsigned_ucast_eq take_bit_nat_eq_self)

lemma handle_dev:
  assumes d: "dv_ok d" and m: "m = pre @ dv_bytes d @ post" "32 \<le> length post"
    and n: "length (dv_bytes d) \<le> n"
  shows "\<exists>md. hal_handle_rx_buffer m (length pre) n t0 =
    Done (Some (rx_type_of t0 (of_nat (dv_type d)), length pre + dv_head d, of_nat (length (dv_payload d)), md))"
proof -
  have rd: "rd_n m (length pre + i) l \<noteq> Fault" if "i + l \<le> 32" for i l
    using that m by (simp add: rd_n_def MAX_OBJ_def)
  have "hal_parsing_rx_wd m (length pre) \<noteq> Fault"
    using rd [of 0 4] rd [of 4 12] rd [of 16 16]
    by (auto simp: hal_parsing_rx_wd_def Let_def split: outcome.splits)
  then obtain md where md: "hal_parsing_rx_wd m (length pre) = Done md" by (cases "hal_parsing_rx_wd m (length pre)") auto
  obtain b0 where b0: "rd_n m (length pre) 4 = Done b0"
    and f: "md_pktlen md = ucast (LE_BITS (le32 b0) 0 14)" "md_shift md = ucast (LE_BITS (le32 b0) 14 2)"
      "md_mac_info_vld md = ucast (LE_BITS (le32 b0) 23 1)" "md_rpkt_type md = ucast (LE_BITS (le32 b0) 24 4)"
      "md_drv_info_size md = ucast (LE_BITS (le32 b0) 28 3)" "md_long_rxd md = ucast (LE_BITS (le32 b0) 31 1)"
    using parsed_wd [OF md] by blast
  have "b0 = le_bytes (dv_word d) @ []"
    using b0 unfolding m(1) dv_bytes_def by (auto simp: rd_n_def le_bytes_def split: if_splits)
  then have w: "unat (le32 b0) = dv_word d" using le32_le_bytes [OF dv_word_bound [OF d], of "[]"] by simp
  note D = d [unfolded dv_ok_def] and F = dv_fields [OF d w]
  have g: "unat (md_pktlen md) = length (dv_payload d)" "unat (md_shift md) = dv_shift d"
    "unat (md_mac_info_vld md) = of_bool (dv_mac_info d)" "unat (md_rpkt_type md) = dv_type d"
    "unat (md_drv_info_size md) = dv_drv_info d" "unat (md_long_rxd md) = of_bool (dv_long d)"
    unfolding f using D F by (simp_all add: unat_ucast_small)
  have ty: "md_rpkt_type md = of_nat (dv_type d)" unfolding g(4) [symmetric] by simp
  have len: "md_pktlen md = of_nat (length (dv_payload d))" unfolding g(1) [symmetric] by simp
  have nz: "md_pktlen md \<noteq> 0" using g(1) D by (metis length_0_conv unat_0)
  have lng: "md_long_rxd md \<noteq> 0 \<longleftrightarrow> dv_long d" using g(6) by (cases "dv_long d") (auto simp: unat_eq_0)
  have mi: "md_mac_info_vld md = 1 \<longleftrightarrow> dv_mac_info d"
    using g(3) by (cases "dv_mac_info d") (auto simp: word_eq_iff_unsigned [where ?'a = nat])
  have pp: "md_rpkt_type md = PKT_T_PPDU_STATUS \<longleftrightarrow> dv_type d = 1"
    using g(4) by (auto simp: PKT_T_PPDU_STATUS_def word_eq_iff_unsigned [where ?'a = nat])
  have "hal_parsing_rx_pkt m (length pre) = Done (Some (length pre + dv_head d, md_pktlen md, md))"
    using D nz by (simp add: hal_parsing_rx_pkt_def md Let_def lng mi pp g RX_DESC_L_SIZE_def RX_DESC_S_SIZE_def
        RX_DESC_DRV_INFO_UNIT_def RX_PPDU_MAC_INFO_SIZE_def dv_head_def)
  moreover have "length pre + dv_head d + length (dv_payload d) \<le> length pre + n"
    using n by (simp add: length_dv_bytes)
  moreover have "\<exists>h. rd_n m (length pre + dv_head d) 24 = Done h"
    using m by (simp add: rd_n_def MAX_OBJ_def length_dv_bytes)
  ultimately show ?thesis
    using g(1) by (auto simp: hal_handle_rx_buffer_def WLAN_HDR_LOOKED_AT_def ty len)
qed

text \<open>The bytes of a packet, and that \<open>p\<close> is what the device sent as \<open>d\<close>.\<close>

definition payload_of :: "bytes \<Rightarrow> phl_rx_pkt \<Rightarrow> bytes" where
  "payload_of m p =
     (case rp_data p of
        No_data \<Rightarrow> []
      | In_rxbuf v \<Rightarrow> take (unat (rp_length p)) (drop v m)
      | In_netbuf bs \<Rightarrow> bs)"

definition received :: "bytes \<Rightarrow> rx_type \<Rightarrow> phl_rx_pkt \<Rightarrow> dev_pkt \<Rightarrow> bool" where
  "received m t0 p d \<longleftrightarrow>
     rp_type p = rx_type_of t0 (of_nat (dv_type d)) \<and> unat (rp_length p) = length (dv_payload d) \<and>
     payload_of m p = dv_payload d"

lemma fill_dev:
  assumes d: "dv_ok d" and m: "m = pre @ dv_bytes d @ post" "32 \<le> length post"
  shows "\<exists>p balloc. fill_rx_pkt nb m b t (length pre + dv_head d) (of_nat (length (dv_payload d))) md = Done (p, balloc) \<and>
    rp_type p = t \<and> unat (rp_length p) = length (dv_payload d) \<and> payload_of m p = dv_payload d \<and>
    (balloc \<longleftrightarrow> t = RTW_RX_TYPE_WIFI \<and> nb) \<and> rp_rxbuf_ptr p = (if balloc then None else Some b)"
proof -
  have u: "unat (of_nat (length (dv_payload d)) :: u16) = length (dv_payload d)"
    using d by (simp add: dv_ok_def unat_of_nat)
  have "m = (pre @ le_bytes (dv_word d) @ dv_words d @ dv_gap d) @ dv_payload d @ post"
    by (simp add: m(1) dv_bytes_def)
  moreover have "length (pre @ le_bytes (dv_word d) @ dv_words d @ dv_gap d) = length pre + dv_head d"
    by (simp add: dv_head_def le_bytes_def)
  ultimately have "drop (length pre + dv_head d) m = dv_payload d @ post" by (metis append_eq_conv_conj)
  then have body: "take (length (dv_payload d)) (drop (length pre + dv_head d) m) = dv_payload d" by simp
  have "\<exists>h. rd_n m (length pre + dv_head d) 24 = Done h"
    using m by (simp add: rd_n_def MAX_OBJ_def length_dv_bytes)
  moreover have "rd_n m (length pre + dv_head d) (length (dv_payload d)) = Done (dv_payload d)"
    using m d body by (simp add: rd_n_def MAX_OBJ_def length_dv_bytes dv_ok_def)
  ultimately show ?thesis using u body by (auto simp: fill_rx_pkt_def Let_def payload_of_def)
qed

lemma round_dev:
  assumes d: "dv_ok d" and m: "m = pre @ dv_bytes d @ post" "32 \<le> length post"
    and n: "length (dv_bytes d) \<le> n" and il: "idle (sp_pool s) = k # ks"
  shows "\<exists>p s1. get_rx_loop nb m b (length pre) n s =
      (let a = align8 (length (dv_bytes d)) in
       if a < n then get_rx_loop nb m b (length pre + a) (n - a) s1 else Done s1) \<and>
    sp_pkts s1 = (sp_pkts s)(k := p) \<and> received m (rp_type (sp_pkts s k)) p d \<and> sp_head s1 = sp_head s @ [k] \<and>
    idle (sp_pool s1) = ks"
proof -
  obtain md where h: "hal_handle_rx_buffer m (length pre) n (rp_type (sp_pkts s k)) =
      Done (Some (rx_type_of (rp_type (sp_pkts s k)) (of_nat (dv_type d)), length pre + dv_head d, of_nat (length (dv_payload d)), md))"
    using handle_dev [OF d m n] by blast
  let ?t = "rx_type_of (rp_type (sp_pkts s k)) (of_nat (dv_type d))"
  obtain p balloc where f: "fill_rx_pkt (nb (length pre)) m b ?t (length pre + dv_head d) (of_nat (length (dv_payload d))) md =
      Done (p, balloc)" and p: "rp_type p = ?t" "unat (rp_length p) = length (dv_payload d)" "payload_of m p = dv_payload d"
    using fill_dev [OF d m] by blast
  have u: "unat (of_nat (length (dv_payload d)) :: u16) = length (dv_payload d)"
    using d by (simp add: dv_ok_def unat_of_nat)
  have q: "rtw_phl_query_phl_rx (sp_pool s) = (Some k, (sp_pool s)\<lparr>idle := ks, idle_cnt := idle_cnt (sp_pool s) - 1\<rparr>)"
    by (simp add: rtw_phl_query_phl_rx_def il)
  let ?s1 = "\<lparr>sp_pool = (sp_pool s)\<lparr>idle := ks, idle_cnt := idle_cnt (sp_pool s) - 1\<rparr>, sp_pkts = (sp_pkts s)(k := p),
    sp_head = sp_head s @ [k], sp_brel = (sp_brel s \<and> balloc),
    sp_ref_cnt = (if balloc then sp_ref_cnt s else sp_ref_cnt s + 1)\<rparr>"
  have "get_rx_loop nb m b (length pre) n s =
      (let a = align8 (length (dv_bytes d)) in
       if a < n then get_rx_loop nb m b (length pre + a) (n - a) ?s1 else Done ?s1)"
    by (subst get_rx_loop.simps) (simp add: q h f u Let_def length_dv_bytes)
  then show ?thesis using p by (intro exI [of _ p] exI [of _ ?s1]) (simp add: received_def)
qed

lemma length_pad8: "length (pad8 bs) = align8 (length bs)"
  using align8_ge(1) [of "length bs"] by (simp add: pad8_def)

lemma dv_stream_pos: "ds \<noteq> [] \<Longrightarrow> 0 < length (dv_stream ds)"
  by (induction ds rule: dv_stream.induct) (simp_all add: dv_bytes_def le_bytes_def length_pad8)

lemma loop_stream:
  assumes "\<forall>d \<in> set ds. dv_ok d" "ds \<noteq> []" "m = pre @ dv_stream ds @ post" "32 \<le> length post"
    and "idle (sp_pool s0) = ks @ rest" "length ks = length ds" "distinct ks"
  shows "\<exists>s. get_rx_loop nb m b (length pre) (length (dv_stream ds)) s0 = Done s \<and> sp_head s = sp_head s0 @ ks \<and>
    list_all2 (\<lambda>k d. received m (rp_type (sp_pkts s0 k)) (sp_pkts s k) d) ks ds \<and>
    idle (sp_pool s) = rest \<and> (\<forall>k. k \<notin> set ks \<longrightarrow> sp_pkts s k = sp_pkts s0 k)"
  using assms
proof (induction ds arbitrary: pre s0 ks rule: dv_stream.induct)
  case 1
  then show ?case by simp
next
  case (2 d)
  then obtain k where k: "ks = [k]" by (cases ks) auto
  have "align8 (length (dv_bytes d)) < length (dv_stream [d]) \<longleftrightarrow> False" using align8_ge(1) [of "length (dv_bytes d)"] by simp
  then show ?case
    using round_dev [of d m pre post "length (dv_stream [d])" s0 k rest nb b] 2 by (auto simp: k Let_def)
next
  case (3 d e ds)
  obtain k js where k: "ks = k # js" using "3.prems"(6) by (cases ks) auto
  let ?a = "align8 (length (dv_bytes d))" and ?n = "length (dv_stream (d # e # ds))"
  let ?pad = "replicate (?a - length (dv_bytes d)) 0"
  have m: "m = pre @ dv_bytes d @ (?pad @ dv_stream (e # ds) @ post)" using "3.prems"(3) by (simp add: pad8_def)
  have n: "?n = ?a + length (dv_stream (e # ds))" by (simp add: length_pad8)
  have ok: "dv_ok d" and il: "idle (sp_pool s0) = k # js @ rest" using "3.prems"(1,5) by (simp_all add: k)
  have post: "32 \<le> length (?pad @ dv_stream (e # ds) @ post)" using "3.prems"(4) by simp
  have le: "length (dv_bytes d) \<le> ?n" unfolding n using align8_ge(1) [of "length (dv_bytes d)"] by simp
  have lt: "?a < ?n" unfolding n using dv_stream_pos [of "e # ds"] by simp
  obtain p s1 where r: "get_rx_loop nb m b (length pre) ?n s0 = get_rx_loop nb m b (length pre + ?a) (?n - ?a) s1"
    and s1: "sp_pkts s1 = (sp_pkts s0)(k := p)" "received m (rp_type (sp_pkts s0 k)) p d" "sp_head s1 = sp_head s0 @ [k]"
      "idle (sp_pool s1) = js @ rest"
    using round_dev [OF ok m post le il, of nb b] lt by (auto simp: Let_def)
  have "m = (pre @ pad8 (dv_bytes d)) @ dv_stream (e # ds) @ post" using "3.prems"(3) by simp
  then obtain s where s: "get_rx_loop nb m b (length pre + ?a) (length (dv_stream (e # ds))) s1 = Done s"
      "sp_head s = sp_head s1 @ js"
      "list_all2 (\<lambda>k d. received m (rp_type (sp_pkts s1 k)) (sp_pkts s k) d) js (e # ds)" "idle (sp_pool s) = rest"
      "\<forall>k. k \<notin> set js \<longrightarrow> sp_pkts s k = sp_pkts s1 k"
    using "3.IH" [of "pre @ pad8 (dv_bytes d)" s1 js] "3.prems" s1(4) by (auto simp: k length_pad8)
  have kj: "k \<notin> set js" using "3.prems"(7) by (simp add: k)
  have "list_all2 (\<lambda>k d. received m (rp_type (sp_pkts s0 k)) (sp_pkts s k) d) js (e # ds)"
    using s(3) by (rule list.rel_mono_strong) (use kj in \<open>auto simp: s1(1) split: if_splits\<close>)
  moreover have "?n - ?a = length (dv_stream (e # ds))" unfolding n by simp
  ultimately show ?case using s s1 kj unfolding r by (intro exI [of _ s]) (auto simp: k)
qed

text \<open>
  C19. A transfer that is laid out as the device does it is split into exactly its packets, in
  order: each gets the next idle packet of the pool, has the type and the length of its
  descriptor and all its bytes, whether a network buffer was allocated for it or not.
\<close>

theorem rx_transfer_parsed:
  assumes "\<forall>d \<in> set ds. dv_ok d" "ds \<noteq> []" "32 \<le> length post"
    and "distinct (idle q)" "length ds \<le> length (idle q)"
  shows "\<exists>s. split_transfer nb (dv_stream ds @ post) b (length (dv_stream ds)) q pkts = Done s \<and>
    sp_head s = take (length ds) (idle q) \<and> idle (sp_pool s) = drop (length ds) (idle q) \<and>
    list_all2 (\<lambda>k d. received (dv_stream ds @ post) (rp_type (pkts k)) (sp_pkts s k) d) (sp_head s) ds"
proof -
  let ?s0 = "\<lparr>sp_pool = q, sp_pkts = pkts, sp_head = [], sp_brel = True, sp_ref_cnt = 0\<rparr>"
  have "distinct (take (length ds) (idle q))" using assms(4) by (rule distinct_take)
  then show ?thesis
    using loop_stream [of ds "dv_stream ds @ post" "[]" post ?s0 "take (length ds) (idle q)" "drop (length ds) (idle q)" nb b]
      assms by (auto simp: split_transfer_def)
qed

subsection \<open>An example\<close>

text \<open>A frame with a long descriptor and driver information, then a firmware event.\<close>

definition ex_frame :: dev_pkt where
  "ex_frame = \<lparr>dv_type = 0, dv_long = True, dv_shift = 1, dv_drv_info = 1, dv_mac_info = False, dv_other = 5,
     dv_words = replicate 28 7, dv_gap = replicate 18 0, dv_payload = map of_nat [0..<41]\<rparr>"

definition ex_event :: dev_pkt where
  "ex_event = \<lparr>dv_type = 10, dv_long = False, dv_shift = 0, dv_drv_info = 0, dv_mac_info = True, dv_other = 0,
     dv_words = replicate 12 1, dv_gap = replicate 4 9, dv_payload = [1, 2, 3]\<rparr>"

definition ex_pool :: rx_pkt_pool where "ex_pool = \<lparr>idle = [3, 1, 2], idle_cnt = 3\<rparr>"

lemma ex_dv_ok: "\<forall>d \<in> set [ex_frame, ex_event]. dv_ok d"
  by (simp add: dv_ok_def ex_frame_def ex_event_def)

theorem rx_transfer_parsed_witness:
  "\<exists>s. split_transfer (\<lambda>p. p = 0) (dv_stream [ex_frame, ex_event] @ replicate 32 0) 5
       (length (dv_stream [ex_frame, ex_event])) ex_pool (\<lambda>_. rx_pkt_fresh) = Done s \<and> sp_head s = [3, 1] \<and>
     payload_of (dv_stream [ex_frame, ex_event] @ replicate 32 0) (sp_pkts s 1) = [1, 2, 3] \<and>
     rp_type (sp_pkts s 1) = RTW_RX_TYPE_C2H"
proof -
  have "distinct (idle ex_pool)" "length [ex_frame, ex_event] \<le> length (idle ex_pool)" "32 \<le> length (replicate 32 (0 :: u8))"
    by (simp_all add: ex_pool_def)
  from rx_transfer_parsed [OF ex_dv_ok _ this(3,1,2), of "\<lambda>p. p = 0" 5 "\<lambda>_. rx_pkt_fresh"] show ?thesis
    by (auto simp: ex_pool_def received_def ex_event_def rx_type_of_def PKT_T_WIFI_def PKT_T_TX_PD_RELEASE_HOST_def
        PKT_T_PPDU_STATUS_def PKT_T_DFS_RPT_def PKT_T_CHANNEL_INFO_def PKT_T_C2H_def)
qed

theorem rx_packets_inside_witness:
  "\<exists>s vs. split_transfer (\<lambda>_. False) (dv_stream [ex_frame, ex_event] @ replicate 40 0) 5 96 ex_pool (\<lambda>_. rx_pkt_released) = Done s \<and>
     sp_head s = take (length vs) [3, 1, 2] \<and> pieces 0 96 vs \<and> length vs \<le> 4 \<and>
     (\<forall>k \<in> set (sp_head s). \<forall>v. rp_data (sp_pkts s k) = In_rxbuf v \<longrightarrow>
       (\<exists>r. mac_parse_ppdu (dv_stream [ex_frame, ex_event] @ replicate 40 0) v (ucast (rp_length (sp_pkts s k))) True = Done r))"
proof -
  let ?m = "dv_stream [ex_frame, ex_event] @ replicate 40 0"
  have l: "96 + 40 \<le> length ?m"
    by (simp add: length_pad8 dv_bytes_def le_bytes_def ex_frame_def ex_event_def align8_def)
  then have "96 + 32 \<le> length ?m" by (rule order_trans [rotated]) simp
  moreover have "distinct (idle ex_pool)" by (simp add: ex_pool_def)
  moreover have "\<forall>k \<in> set (idle ex_pool). rp_rxbuf_ptr ((\<lambda>_. rx_pkt_released) k) = None" by (simp add: rx_pkt_released_def)
  ultimately obtain s vs where
    "split_transfer (\<lambda>_. False) ?m 5 96 ex_pool (\<lambda>_. rx_pkt_released) = Done s"
    "sp_head s = take (length vs) (idle ex_pool)" "pieces 0 96 vs" "24 * length vs \<le> 96 + 7"
    "\<forall>k \<in> set (sp_head s). \<forall>v. rp_data (sp_pkts s k) = In_rxbuf v \<longrightarrow>
       (\<exists>r. mac_parse_ppdu ?m v (ucast (rp_length (sp_pkts s k))) True = Done r)"
    using rx_packets_inside [of ex_pool "\<lambda>_. rx_pkt_released" 96 ?m "\<lambda>_. False" 5] l by blast
  moreover from this(4) have "length vs \<le> 4" by simp
  moreover have "idle ex_pool = [3, 1, 2]" by (simp add: ex_pool_def)
  ultimately show ?thesis by metis
qed

text \<open>
  Two remarks. The 32 bytes are needed: a packet with a few bytes behind it at the end of the
  buffer makes the code read a descriptor outside. And a packet of the pool that has never been
  used has type zero, so that a report the code does not know is taken for a frame the first time.
\<close>

lemma rx_tail_read_outside:
  "0 < n \<Longrightarrow> n < 4 \<Longrightarrow> n \<le> length m \<Longrightarrow> hal_handle_rx_buffer m (length m - n) n t = Fault"
proof -
  assume "0 < n" "n < 4" "n \<le> length m"
  then have "rd_n m (length m - n) 4 = Fault" by (auto simp: rd_n_def)
  then show ?thesis by (simp add: hal_handle_rx_buffer_def hal_parsing_rx_pkt_def hal_parsing_rx_wd_def)
qed

lemma unknown_report_becomes_frame: "rx_type_of (rp_type rx_pkt_fresh) 4 = RTW_RX_TYPE_WIFI"
  by (simp add: rx_type_of_def rx_pkt_fresh_def PKT_T_WIFI_def PKT_T_TX_PD_RELEASE_HOST_def
      PKT_T_PPDU_STATUS_def PKT_T_DFS_RPT_def PKT_T_CHANNEL_INFO_def PKT_T_C2H_def PKT_T_TX_RPT_def)

end
