(* ===== verification/UsbRxInv.thy ===== *)
theory UsbRxInv
  imports UsbRx RxDescProps
begin

text \<open>
  The invariant of the receive side of the bus: where every receive buffer and every packet is.
  \<open>own\<close>, \<open>on_way\<close>, \<open>live\<close> and \<open>freeing\<close> say what a task has in its hands; \<open>rx_acct\<close> adds up what the
  tasks have, the queues, the bus and the packets that refer to a buffer. \<open>task_acct\<close> is its
  preservation by a step of a task.
\<close>

subsection \<open>What a task has in its hands\<close>

text \<open>Buffers that are in no queue.\<close>

fun own :: "rx_task \<Rightarrow> nat multiset" where
  "own (T_token_busy b pipe ret) = {#b#}"
| "own (T_release b K) = add_mset b (own K)"
| "own (T_to_idle b K) = add_mset b (own K)"
| "own (T_pend_push b n) = {#b#}"
| "own (T_parse b x) = {#b#}"
| "own (T_process ks K) = own K"
| "own (T_recycle k K) = own K"
| "own (T_free_pkt k K) = own K"
| "own _ = {#}"

text \<open>Buffers in the busy queue that the bus does not have yet, or no longer.\<close>

fun on_way :: "rx_task \<Rightarrow> nat multiset" where
  "on_way (T_token_send b ret) = {#b#}"
| "on_way (T_token_undo b ret) = {#b#}"
| "on_way (T_pend b n status) = {#b#}"
| "on_way (T_release b K) = on_way K"
| "on_way (T_to_idle b K) = on_way K"
| "on_way (T_process ks K) = on_way K"
| "on_way (T_recycle k K) = on_way K"
| "on_way (T_free_pkt k K) = on_way K"
| "on_way _ = {#}"

text \<open>Packets that may refer to a buffer, and packets on their way into the pool.\<close>

fun live :: "rx_task \<Rightarrow> nat multiset" where
  "live (T_process ks K) = mset ks + live K"
| "live (T_recycle k K) = add_mset k (live K)"
| "live (T_release b K) = live K"
| "live (T_to_idle b K) = live K"
| "live (T_free_pkt k K) = live K"
| "live _ = {#}"

fun freeing :: "rx_task \<Rightarrow> nat multiset" where
  "freeing (T_free_pkt k K) = add_mset k (freeing K)"
| "freeing (T_process ks K) = freeing K"
| "freeing (T_recycle k K) = freeing K"
| "freeing (T_release b K) = freeing K"
| "freeing (T_to_idle b K) = freeing K"
| "freeing _ = {#}"

text \<open>All tokens are for the pipe of the frames; a completed transfer leaves room behind it.\<close>

fun task_ok :: "usb_rx_cfg \<Rightarrow> rx_task \<Rightarrow> bool" where
  "task_ok cfg (T_in_token pipe ret) \<longleftrightarrow> pipe = WLAN_IN_MPDU_PIPE_IDX"
| "task_ok cfg (T_token_busy b pipe ret) \<longleftrightarrow> pipe = WLAN_IN_MPDU_PIPE_IDX"
| "task_ok cfg (T_pend b n status) \<longleftrightarrow> n + 32 \<le> rx_buf_size cfg"
| "task_ok cfg (T_release b K) \<longleftrightarrow> task_ok cfg K"
| "task_ok cfg (T_to_idle b K) \<longleftrightarrow> task_ok cfg K"
| "task_ok cfg (T_process ks K) \<longleftrightarrow> task_ok cfg K"
| "task_ok cfg (T_recycle k K) \<longleftrightarrow> task_ok cfg K"
| "task_ok cfg (T_free_pkt k K) \<longleftrightarrow> task_ok cfg K"
| "task_ok cfg _ \<longleftrightarrow> True"

subsection \<open>The balance\<close>

definition referred :: "usb_rx_cfg \<Rightarrow> usb_rx \<Rightarrow> nat list" where
  "referred cfg s = filter (\<lambda>b. 0 < rb_pktcnt (rx_bufs s b)) [0..<rx_buf_num cfg]"

definition refs :: "usb_rx \<Rightarrow> nat multiset \<Rightarrow> nat \<Rightarrow> nat" where
  "refs s ks b = size {#k \<in># ks. rp_rxbuf_ptr (rx_pkts s k) = Some b#}"

definition rx_acct :: "usb_rx_cfg \<Rightarrow> usb_rx \<Rightarrow> nat multiset \<Rightarrow> nat multiset \<Rightarrow> nat multiset \<Rightarrow> nat multiset \<Rightarrow> bool" where
  "rx_acct cfg s ow wy lv fr \<longleftrightarrow>
     mset (pq_queue (idle_rxbuf_list s)) + mset (pq_queue (pend_rxbuf_list s)) + mset (rx_on_bus s) + ow + wy +
       mset (referred cfg s) = mset [0..<rx_buf_num cfg] \<and>
     mset (pq_queue (busy_rxbuf_list s)) = mset (rx_on_bus s) + wy \<and>
     pq_wf (idle_rxbuf_list s) \<and> pq_wf (busy_rxbuf_list s) \<and> pq_wf (pend_rxbuf_list s) \<and>
     (\<forall>b. rb_pktcnt (rx_bufs s b) = int (refs s (mset (held s) + lv) b)) \<and>
     (\<forall>b. 0 < rb_pktcnt (rx_bufs s b) \<longrightarrow> b < rx_buf_num cfg) \<and>
     mset (idle (rx_pool s)) + mset (held s) + lv + fr = mset [0..<MAX_PHL_RING_RX_PKT_NUM] \<and>
     idle_cnt (rx_pool s) = int (length (idle (rx_pool s))) \<and>
     (\<forall>k \<in> set (idle (rx_pool s)). rp_rxbuf_ptr (rx_pkts s k) = None) \<and>
     (\<forall>b. length (rb_buffer (rx_bufs s b)) = rx_buf_size cfg \<and> rb_pipe_idx (rx_bufs s b) = WLAN_IN_MPDU_PIPE_IDX \<and>
        rb_transfer_len (rx_bufs s b) + 32 \<le> rx_buf_size cfg) \<and>
     \<not> faulted s"

lemma rx_acctD:
  assumes "rx_acct cfg s ow wy lv fr"
  shows "mset (pq_queue (idle_rxbuf_list s)) + mset (pq_queue (pend_rxbuf_list s)) + mset (rx_on_bus s) + ow + wy +
       mset (referred cfg s) = mset [0..<rx_buf_num cfg]"
    "mset (pq_queue (busy_rxbuf_list s)) = mset (rx_on_bus s) + wy"
    "pq_wf (idle_rxbuf_list s)" "pq_wf (busy_rxbuf_list s)" "pq_wf (pend_rxbuf_list s)"
    "rb_pktcnt (rx_bufs s b) = int (refs s (mset (held s) + lv) b)"
    "0 < rb_pktcnt (rx_bufs s b) \<Longrightarrow> b < rx_buf_num cfg"
    "mset (idle (rx_pool s)) + mset (held s) + lv + fr = mset [0..<MAX_PHL_RING_RX_PKT_NUM]"
    "idle_cnt (rx_pool s) = int (length (idle (rx_pool s)))"
    "k \<in> set (idle (rx_pool s)) \<Longrightarrow> rp_rxbuf_ptr (rx_pkts s k) = None"
    "length (rb_buffer (rx_bufs s b)) = rx_buf_size cfg" "rb_pipe_idx (rx_bufs s b) = WLAN_IN_MPDU_PIPE_IDX"
    "rb_transfer_len (rx_bufs s b) + 32 \<le> rx_buf_size cfg" "\<not> faulted s"
  using assms unfolding rx_acct_def by blast+

text \<open>Each buffer is in one place, and so is each packet.\<close>

lemma mset_upt_disjoint:
  assumes "A + B = mset [0..<n]"
  shows "x \<in># A \<Longrightarrow> x \<notin># B"
proof
  assume "x \<in># A" "x \<in># B"
  then have "0 < count A x" "0 < count B x" by simp_all
  moreover have "count A x + count B x = count (mset [0..<n]) x"
    unfolding assms [symmetric] by simp
  moreover have "count (mset [0..<n]) x \<le> 1"
    using distinct_count_atmost_1 [of "[0..<n]"] by (simp del: mset_upt)
  ultimately show False by linarith
qed

lemma own_unreferred:
  assumes "rx_acct cfg s ow wy lv fr" "b \<in># ow + wy + mset (rx_on_bus s)"
  shows "rb_pktcnt (rx_bufs s b) = 0"
proof (rule ccontr)
  assume "rb_pktcnt (rx_bufs s b) \<noteq> 0"
  then have "0 < rb_pktcnt (rx_bufs s b)" using rx_acctD(6) [OF assms(1), of b] by linarith
  then have "b \<in># mset (referred cfg s)" using rx_acctD(7) [OF assms(1)] by (simp add: referred_def)
  moreover have "(mset (pq_queue (idle_rxbuf_list s)) + mset (pq_queue (pend_rxbuf_list s)) + (ow + wy + mset (rx_on_bus s))) +
    mset (referred cfg s) = mset [0..<rx_buf_num cfg]" using rx_acctD(1) [OF assms(1)] by (simp add: ac_simps)
  ultimately show False using mset_upt_disjoint assms(2) by (metis union_iff)
qed

lemma referred_frame [simp]:
  "referred cfg (s\<lparr>idle_rxbuf_list := q\<rparr>) = referred cfg s" "referred cfg (s\<lparr>busy_rxbuf_list := q\<rparr>) = referred cfg s"
  "referred cfg (s\<lparr>pend_rxbuf_list := q\<rparr>) = referred cfg s" "referred cfg (s\<lparr>deferred_timer := t\<rparr>) = referred cfg s"
  "referred cfg (s\<lparr>rx_on_bus := bs\<rparr>) = referred cfg s" "referred cfg (s\<lparr>held := ks\<rparr>) = referred cfg s"
  "referred cfg (s\<lparr>rx_tasks := ts\<rparr>) = referred cfg s" "referred cfg (s\<lparr>rx_pool := p\<rparr>) = referred cfg s"
  "referred cfg (s\<lparr>rx_pkts := ps\<rparr>) = referred cfg s"
  by (simp_all add: referred_def)

lemma refs_frame [simp]:
  "refs (s\<lparr>idle_rxbuf_list := q\<rparr>) = refs s" "refs (s\<lparr>busy_rxbuf_list := q\<rparr>) = refs s"
  "refs (s\<lparr>pend_rxbuf_list := q\<rparr>) = refs s" "refs (s\<lparr>deferred_timer := t\<rparr>) = refs s"
  "refs (s\<lparr>rx_on_bus := bs\<rparr>) = refs s" "refs (s\<lparr>held := ks\<rparr>) = refs s"
  "refs (s\<lparr>rx_tasks := ts\<rparr>) = refs s" "refs (s\<lparr>rx_pool := p\<rparr>) = refs s" "refs (upd_rxbuf b f s) = refs s"
  by (simp_all add: refs_def upd_rxbuf_def fun_eq_iff)

lemma referred_upd: "(\<And>r. rb_pktcnt (f r) = rb_pktcnt r) \<Longrightarrow> referred cfg (upd_rxbuf b f s) = referred cfg s"
  unfolding referred_def by (rule filter_cong) (auto simp: upd_rxbuf_def)

lemma upd_rxbuf_frame [simp]:
  "rx_bufs (upd_rxbuf b f s) = (rx_bufs s)(b := f (rx_bufs s b))" "rx_pkts (upd_rxbuf b f s) = rx_pkts s"
  "rx_pool (upd_rxbuf b f s) = rx_pool s" "idle_rxbuf_list (upd_rxbuf b f s) = idle_rxbuf_list s"
  "busy_rxbuf_list (upd_rxbuf b f s) = busy_rxbuf_list s" "pend_rxbuf_list (upd_rxbuf b f s) = pend_rxbuf_list s"
  "rx_on_bus (upd_rxbuf b f s) = rx_on_bus s" "held (upd_rxbuf b f s) = held s" "faulted (upd_rxbuf b f s) = faulted s"
  "rx_tasks (upd_rxbuf b f s) = rx_tasks s"
  by (simp_all add: upd_rxbuf_def)

lemma acct_timer [simp]: "rx_acct cfg (s\<lparr>deferred_timer := t\<rparr>) = rx_acct cfg s"
  by (simp add: rx_acct_def fun_eq_iff)

lemma acct_tasks [simp]: "rx_acct cfg (s\<lparr>rx_tasks := ts\<rparr>) = rx_acct cfg s"
  by (simp add: rx_acct_def fun_eq_iff)

lemma acct_pop:
  assumes "rx_acct cfg s ow wy lv fr" "pq_pop (idle_rxbuf_list s) First = (Some b, q)"
  shows "rx_acct cfg (s\<lparr>idle_rxbuf_list := q\<rparr>) (add_mset b ow) wy lv fr"
  using assms pq_pop_Some [of "idle_rxbuf_list s" b q] by (simp add: rx_acct_def)

lemma acct_pop_pend:
  assumes "rx_acct cfg s ow wy lv fr" "pq_pop (pend_rxbuf_list s) First = (Some b, q)"
  shows "rx_acct cfg (s\<lparr>pend_rxbuf_list := q\<rparr>) (add_mset b ow) wy lv fr"
  using assms pq_pop_Some [of "pend_rxbuf_list s" b q] by (simp add: rx_acct_def)

lemma acct_busy:
  assumes "rx_acct cfg s (add_mset b ow) wy lv fr"
  shows "rx_acct cfg (in_token_busy b WLAN_IN_MPDU_PIPE_IDX s) ow (add_mset b wy) lv fr"
  using assms by (auto simp: rx_acct_def in_token_busy_def referred_upd)

lemma acct_sent:
  assumes "rx_acct cfg s ow (add_mset b wy) lv fr"
  shows "rx_acct cfg (s\<lparr>rx_on_bus := b # rx_on_bus s\<rparr>) ow wy lv fr"
  using assms by (auto simp: rx_acct_def)

lemma acct_undo:
  assumes "rx_acct cfg s ow (add_mset b wy) lv fr"
  shows "rx_acct cfg (s\<lparr>busy_rxbuf_list := pq_del_node (busy_rxbuf_list s) (Some b)\<rparr>) (add_mset b ow) wy lv fr"
proof -
  have "b \<in># mset (pq_queue (busy_rxbuf_list s))" using rx_acctD(2) [OF assms] by simp
  then have "b \<in> set (pq_queue (busy_rxbuf_list s))" by simp
  then show ?thesis using assms pq_wf_del [of "busy_rxbuf_list s" b]
    by (auto simp: rx_acct_def) (simp add: pq_del_node_def)
qed

lemma acct_release:
  assumes "rx_acct cfg s (add_mset b ow) wy lv fr"
  shows "\<exists>s1. release_locked b s = (True, s1) \<and> rx_acct cfg s1 (add_mset b ow) wy lv fr"
proof -
  let ?f = "\<lambda>r. r\<lparr>rb_pktcnt := 0, rb_buffer := replicate (length (rb_buffer r)) 0\<rparr>"
  have z: "rb_pktcnt (rx_bufs s b) = 0" using own_unreferred [OF assms] by simp
  have "referred cfg (upd_rxbuf b ?f s) = referred cfg s"
    unfolding referred_def by (rule filter_cong) (auto simp: z)
  then have "rx_acct cfg (upd_rxbuf b ?f s) (add_mset b ow) wy lv fr"
    using assms z by (auto simp: rx_acct_def)
  then show ?thesis using z by (simp add: release_locked_def Let_def)
qed

lemma acct_idle:
  assumes "rx_acct cfg s (add_mset b ow) wy lv fr"
  shows "rx_acct cfg (release_to_idle b s) ow wy lv fr"
  using assms by (auto simp: rx_acct_def release_to_idle_def)

lemma acct_pend_push:
  assumes "rx_acct cfg s (add_mset b ow) wy lv fr"
  shows "rx_acct cfg (s\<lparr>pend_rxbuf_list := pq_push (pend_rxbuf_list s) b Tail\<rparr>) ow wy lv fr"
  using assms by (auto simp: rx_acct_def)

lemma acct_len:
  assumes "rx_acct cfg s ow wy lv fr" "n + 32 \<le> rx_buf_size cfg"
  shows "rx_acct cfg (upd_rxbuf b (\<lambda>r. r\<lparr>rb_transfer_len := n\<rparr>) s) ow wy lv fr"
  using assms by (auto simp: rx_acct_def referred_upd)

lemma acct_complete:
  assumes "rx_acct cfg s ow wy lv fr" "b \<in> set (rx_on_bus s)" "length data \<le> rx_buf_size cfg"
  shows "rx_acct cfg (upd_rxbuf b (\<lambda>r. r\<lparr>rb_buffer := data @ drop (length data) (rb_buffer r)\<rparr>)
    (s\<lparr>rx_on_bus := remove1 b (rx_on_bus s)\<rparr>)) ow (add_mset b wy) lv fr"
  using assms by (auto simp: rx_acct_def referred_upd)

lemma acct_hand_over:
  "rx_acct cfg s ow wy (add_mset k lv) fr = rx_acct cfg (s\<lparr>held := held s @ [k]\<rparr>) ow wy lv fr"
  by (simp add: rx_acct_def)

lemma acct_return:
  assumes "rx_acct cfg s ow wy lv fr" "k \<in> set (held s)"
  shows "rx_acct cfg (s\<lparr>held := remove1 k (held s)\<rparr>) ow wy (add_mset k lv) fr"
proof -
  have "mset (held s) = add_mset k (mset (remove1 k (held s)))" using assms(2) by simp
  then show ?thesis using assms(1) by (simp add: rx_acct_def del: mset_remove1)
qed

lemma mset_filter_one:
  assumes "distinct xs" "b \<in> set xs"
  shows "mset xs = add_mset b (mset (filter (\<lambda>c. c \<noteq> b) xs))"
proof -
  obtain ys zs where xs: "xs = ys @ b # zs" using split_list [OF assms(2)] by blast
  then have "filter (\<lambda>c. c \<noteq> b) ys = ys" "filter (\<lambda>c. c \<noteq> b) zs = zs"
    using assms(1) by (auto simp: filter_id_conv)
  then show ?thesis by (simp add: xs del: mset_filter)
qed

lemma referred_clear:
  assumes "0 < rb_pktcnt (rx_bufs s b)" "b < rx_buf_num cfg" "rb_pktcnt (f (rx_bufs s b)) = 0"
  shows "mset (referred cfg s) = add_mset b (mset (referred cfg (upd_rxbuf b f s)))"
proof -
  have "referred cfg (upd_rxbuf b f s) = filter (\<lambda>c. c \<noteq> b) (referred cfg s)"
    unfolding referred_def filter_filter by (rule filter_cong) (auto simp: assms(3))
  moreover have "distinct (referred cfg s)" "b \<in> set (referred cfg s)" using assms by (simp_all add: referred_def)
  ultimately show ?thesis using mset_filter_one by metis
qed

lemma refs_add: "refs s (add_mset k ks) b = (if rp_rxbuf_ptr (rx_pkts s k) = Some b then Suc (refs s ks b) else refs s ks b)"
  by (simp add: refs_def)

lemma acct_unref:
  assumes A: "rx_acct cfg s ow wy (add_mset k lv) fr" and p: "rp_rxbuf_ptr (rx_pkts s k) = Some b"
    and r: "release_locked b s = (z, s1)"
  shows "rx_acct cfg s1 (if z then add_mset b ow else ow) wy lv (add_mset k fr)"
proof -
  let ?c = "refs s (mset (held s) + lv) b"
  have cnt: "rb_pktcnt (rx_bufs s b) = 1 + int ?c"
    using rx_acctD(6) [OF A, of b] p by (simp add: refs_add)
  then have b: "b < rx_buf_num cfg" using rx_acctD(7) [OF A, of b] by simp
  have others: "rb_pktcnt (rx_bufs s b') = int (refs s (mset (held s) + lv) b')" if "b' \<noteq> b" for b'
    using rx_acctD(6) [OF A, of b'] p that by (simp add: refs_add)
  show ?thesis
  proof (cases "?c = 0")
    case True
    let ?f = "\<lambda>r. r\<lparr>rb_pktcnt := 0, rb_buffer := replicate (length (rb_buffer r)) 0\<rparr>"
    have zs: "z" "s1 = upd_rxbuf b ?f s" using r cnt True by (auto simp: release_locked_def Let_def)
    have "mset (referred cfg s) = add_mset b (mset (referred cfg s1))"
      unfolding zs(2) using cnt b by (intro referred_clear) auto
    then show ?thesis using A others True by (auto simp: rx_acct_def zs)
  next
    case False
    let ?f = "\<lambda>r. r\<lparr>rb_pktcnt := int ?c\<rparr>"
    have zs: "\<not> z" "s1 = upd_rxbuf b ?f s" using r cnt False by (auto simp: release_locked_def Let_def)
    have "referred cfg s1 = referred cfg s"
      unfolding referred_def zs(2) by (rule filter_cong) (use False cnt in auto)
    then show ?thesis using A others b by (auto simp: rx_acct_def zs)
  qed
qed

lemma acct_unref_none:
  assumes "rx_acct cfg s ow wy (add_mset k lv) fr" "rp_rxbuf_ptr (rx_pkts s k) = None"
  shows "rx_acct cfg s ow wy lv (add_mset k fr)"
  using assms by (auto simp: rx_acct_def refs_add)

lemma refs_cong:
  "(\<And>k. k \<in># ks \<Longrightarrow> rp_rxbuf_ptr (rx_pkts s k) = rp_rxbuf_ptr (rx_pkts s' k)) \<Longrightarrow> refs s ks b = refs s' ks b"
  unfolding refs_def by (rule arg_cong [where f = size], rule filter_mset_cong) auto

lemma acct_free_pkt:
  assumes A: "rx_acct cfg s ow wy lv (add_mset k fr)"
  shows "rx_acct cfg (free_pkt k s) ow wy lv fr"
proof -
  have "(mset (idle (rx_pool s)) + mset (held s) + lv) + add_mset k fr = mset [0..<MAX_PHL_RING_RX_PKT_NUM]"
    using rx_acctD(8) [OF A] by simp
  then have "k \<notin># mset (held s) + lv" using mset_upt_disjoint by fastforce
  then have "refs (free_pkt k s) (mset (held s) + lv) b = refs s (mset (held s) + lv) b" for b
    by (intro refs_cong) (auto simp: free_pkt_def)
  moreover have "referred cfg (free_pkt k s) = referred cfg s" by (simp add: free_pkt_def)
  ultimately show ?thesis using A
    by (auto simp: rx_acct_def free_pkt_def phl_release_phl_rx_def rx_pkt_released_def)
qed

lemma idle_distinct:
  assumes "rx_acct cfg s ow wy lv fr"
  shows "distinct (idle (rx_pool s))"
proof -
  have "mset (idle (rx_pool s)) + (mset (held s) + lv + fr) = mset [0..<MAX_PHL_RING_RX_PKT_NUM]"
    using rx_acctD(8) [OF assms] by (simp add: ac_simps)
  then obtain xs where "mset (idle (rx_pool s) @ xs) = mset [0..<MAX_PHL_RING_RX_PKT_NUM]"
    using ex_mset by (metis mset_append)
  then have "distinct (idle (rx_pool s) @ xs)" by (metis distinct_upt mset_eq_imp_distinct_iff)
  then show ?thesis by simp
qed

lemma refs_union: "refs s (A + B) b = refs s A b + refs s B b"
  by (simp add: refs_def)

text \<open>The packets of a transfer: those that keep the buffer are counted in it.\<close>

lemma acct_split:
  assumes A: "rx_acct cfg s (add_mset b ow) wy lv fr"
    and sp: "split_transfer nb (rb_buffer (rx_bufs s b)) b (rb_transfer_len (rx_bufs s b)) (rx_pool s) (rx_pkts s) = Done sp"
  defines "n \<equiv> length (filter (\<lambda>k. rp_rxbuf_ptr (sp_pkts sp k) \<noteq> None) (sp_head sp))"
    and "s1 \<equiv> s\<lparr>rx_pool := sp_pool sp, rx_pkts := sp_pkts sp\<rparr>"
  shows "n = 0 \<Longrightarrow> rx_acct cfg s1 (add_mset b ow) wy (mset (sp_head sp) + lv) fr"
    and "0 < n \<Longrightarrow> rx_acct cfg (upd_rxbuf b (\<lambda>r. r\<lparr>rb_pktcnt := int n\<rparr>) s1) ow wy (mset (sp_head sp) + lv) fr"
    and "sp_ref_cnt sp = of_nat n" "sp_brel sp \<longleftrightarrow> n = 0"
proof -
  let ?ks = "sp_head sp" and ?L = "mset (held s) + lv"
  let ?s0 = "\<lparr>sp_pool = rx_pool s, sp_pkts = rx_pkts s, sp_head = [], sp_brel = True, sp_ref_cnt = 0\<rparr>"
  have E: "mset (idle (rx_pool s)) + (?L + fr) = mset [0..<MAX_PHL_RING_RX_PKT_NUM]"
    using rx_acctD(8) [OF A] by (simp add: ac_simps)
  note dist = idle_distinct [OF A]
  have "rb_transfer_len (rx_bufs s b) + 32 \<le> length (rb_buffer (rx_bufs s b))"
    using rx_acctD(11,13) [OF A] by simp
  then have f: "split_from (rb_buffer (rx_bufs s b)) b 0 (rb_transfer_len (rx_bufs s b)) ?s0 ?ks sp"
    using split_any [OF dist] rx_acctD(10) [OF A] sp by (metis outcome.inject)
  obtain rest vs where f1: "idle (rx_pool s) = ?ks @ rest" "mset (idle (sp_pool sp)) = mset rest"
    "idle_cnt (sp_pool sp) = idle_cnt (rx_pool s) - int (length ?ks)"
    "list_all2 (\<lambda>k. packet_of (rb_buffer (rx_bufs s b)) b (sp_pkts sp k)) ?ks vs"
    "\<And>k. k \<notin> set (idle (rx_pool s)) \<Longrightarrow> sp_pkts sp k = rx_pkts s k"
    "\<forall>k \<in> set (idle (sp_pool sp)). rp_rxbuf_ptr (sp_pkts sp k) = None"
    using f by (auto simp: split_from_def)
  show "sp_ref_cnt sp = of_nat n" "sp_brel sp \<longleftrightarrow> n = 0"
    using f by (auto simp: split_from_def keepers_def n_def)
  have ptr: "rp_rxbuf_ptr (sp_pkts sp k) \<in> {None, Some b}" if "k \<in> set ?ks" for k
    using f1(4) that by (auto simp: list_all2_conv_all_nth in_set_conv_nth packet_of_def)
  have old: "refs s1 ?L c = refs s ?L c" for c
  proof (rule refs_cong)
    fix k assume "k \<in># ?L"
    then have "k \<notin> set (idle (rx_pool s))" using mset_upt_disjoint [OF E] by fastforce
    then show "rp_rxbuf_ptr (rx_pkts s1 k) = rp_rxbuf_ptr (rx_pkts s k)" by (simp add: s1_def f1(5))
  qed
  have new: "refs s1 (mset ?ks) c = (if c = b then n else 0)" for c
  proof -
    have "refs s1 (mset ?ks) c = length (filter (\<lambda>k. rp_rxbuf_ptr (sp_pkts sp k) = Some c) ?ks)"
      by (simp add: refs_def s1_def flip: mset_filter)
    also have "filter (\<lambda>k. rp_rxbuf_ptr (sp_pkts sp k) = Some c) ?ks =
        (if c = b then filter (\<lambda>k. rp_rxbuf_ptr (sp_pkts sp k) \<noteq> None) ?ks else [])"
      by (auto simp: filter_empty_conv dest!: ptr intro!: filter_cong)
    finally show ?thesis by (simp add: n_def)
  qed
  have tot: "refs s1 (mset (held s) + (mset ?ks + lv)) c = refs s ?L c + (if c = b then n else 0)" for c
    using old new by (simp add: refs_union)
  have b0: "rb_pktcnt (rx_bufs s b) = 0" using own_unreferred [OF A, of b] by simp
  then have r0: "refs s ?L b = 0" using rx_acctD(6) [OF A, of b] by simp
  have pk: "mset (idle (sp_pool sp)) + mset (held s) + (mset ?ks + lv) + fr = mset [0..<MAX_PHL_RING_RX_PKT_NUM]"
    "idle_cnt (sp_pool sp) = int (length (idle (sp_pool sp)))"
    using rx_acctD(8,9) [OF A] f1(1-3) mset_eq_length [OF f1(2)] by (simp_all add: ac_simps)
  show "rx_acct cfg s1 (add_mset b ow) wy (mset ?ks + lv) fr" if "n = 0"
    using A pk f1(6) tot that by (simp add: rx_acct_def s1_def)
  show "rx_acct cfg (upd_rxbuf b (\<lambda>r. r\<lparr>rb_pktcnt := int n\<rparr>) s1) ow wy (mset ?ks + lv) fr" if "0 < n"
  proof -
    let ?s2 = "upd_rxbuf b (\<lambda>r. r\<lparr>rb_pktcnt := int n\<rparr>) s1"
    have "b \<in># mset [0..<rx_buf_num cfg]" unfolding rx_acctD(1) [OF A, symmetric] by simp
    then have b: "b < rx_buf_num cfg" by simp
    have "mset (referred cfg ?s2) = add_mset b (mset (referred cfg (upd_rxbuf b (\<lambda>r. r\<lparr>rb_pktcnt := 0\<rparr>) ?s2)))"
      using that b by (intro referred_clear) auto
    moreover have "referred cfg (upd_rxbuf b (\<lambda>r. r\<lparr>rb_pktcnt := 0\<rparr>) ?s2) = referred cfg s"
      unfolding referred_def by (rule filter_cong) (auto simp: b0 s1_def)
    ultimately have "mset (referred cfg ?s2) = add_mset b (mset (referred cfg s))" by simp
    then show ?thesis using A pk f1(6) tot r0 b by (auto simp: rx_acct_def s1_def)
  qed
qed

subsection \<open>A step of a task\<close>

lemma token_done_acct:
  assumes "rx_acct cfg s ow wy lv fr" "token_done cfg st ret s = (t', s')"
  shows "rx_acct cfg s' ow wy lv fr" "own t' = {#}" "on_way t' = {#}" "live t' = {#}" "freeing t' = {#}"
    "task_ok cfg t'" "rx_tasks s' = rx_tasks s"
  using assms by (auto simp: token_done_def start_done_def split: token_ret.splits if_splits)

definition task_acct :: "usb_rx_cfg \<Rightarrow> usb_rx \<Rightarrow> rx_task \<Rightarrow> nat multiset \<Rightarrow> nat multiset \<Rightarrow> nat multiset \<Rightarrow> nat multiset \<Rightarrow> bool" where
  "task_acct cfg s t ow wy lv fr \<longleftrightarrow>
     rx_acct cfg s (own t + ow) (on_way t + wy) (live t + lv) (freeing t + fr) \<and> task_ok cfg t"

lemma parse_acct:
  assumes T: "task_acct cfg s (T_parse b x) ow wy lv fr" and few: "few_in nb (T_parse b x) s"
    and st: "parse_rxbuf nb b x s = (t', s')"
  shows "task_acct cfg s' t' ow wy lv fr" "rx_tasks s' = rx_tasks s"
proof -
  have A: "rx_acct cfg s (add_mset b ow) wy lv fr" using T by (simp add: task_acct_def)
  note dist = idle_distinct [OF A]
  obtain sp where sp: "split_transfer nb (rb_buffer (rx_bufs s b)) b (rb_transfer_len (rx_bufs s b)) (rx_pool s) (rx_pkts s) = Done sp"
    using split_any [OF dist, of "rx_pkts s" "rb_transfer_len (rx_bufs s b)" "rb_buffer (rx_bufs s b)" nb b]
      rx_acctD(10,11,13) [OF A] by auto
  note S = acct_split [OF A sp]
  let ?n = "length (filter (\<lambda>k. rp_rxbuf_ptr (sp_pkts sp k) \<noteq> None) (sp_head sp))"
  have n: "?n < 256" using few sp by (simp add: few_in_def)
  then have u: "unat (sp_ref_cnt sp) = ?n" using S(3) by (simp add: unat_of_nat)
  have pipe: "rb_pipe_idx (rx_bufs s b) = WLAN_IN_MPDU_PIPE_IDX" using rx_acctD(12) [OF A] .
  consider "sp_head sp = []" | "sp_head sp \<noteq> []" "sp_brel sp" | "sp_head sp \<noteq> []" "\<not> sp_brel sp" by blast
  then show "task_acct cfg s' t' ow wy lv fr"
  proof cases
    case 1
    then show ?thesis using st S(1) by (auto simp: parse_rxbuf_def pipe sp Let_def task_acct_def)
  next
    case 2
    then show ?thesis using st S(1) S(4) by (auto simp: parse_rxbuf_def pipe sp Let_def task_acct_def)
  next
    case 3
    then have "?n > 0" using S(4) by blast
    then show ?thesis using 3 st S(2) by (auto simp: parse_rxbuf_def pipe sp Let_def task_acct_def u)
  qed
  show "rx_tasks s' = rx_tasks s" using st
    by (auto simp: parse_rxbuf_def pipe sp Let_def split: if_splits)
qed

lemma step_acct:
  assumes "task_acct cfg s t ow wy lv fr" "few_in nb t s" "task_step cfg sent nb t s = (t', s')"
  shows "task_acct cfg s' t' ow wy lv fr \<and> rx_tasks s' = rx_tasks s"
proof (cases t)
  case T_end
  then show ?thesis using assms by simp
next
  case (T_start_loop by_timer fail_cnt st)
  then show ?thesis using assms by (auto simp: task_acct_def start_done_def split: if_splits)
next
  case (T_in_token pipe ret)
  then have A: "rx_acct cfg s ow wy lv fr" and pipe: "pipe = WLAN_IN_MPDU_PIPE_IDX"
    using assms(1) by (simp_all add: task_acct_def)
  obtain bo q where pop: "pq_pop (idle_rxbuf_list s) First = (bo, q)" by fastforce
  show ?thesis
  proof (cases bo)
    case None
    then have "q = idle_rxbuf_list s" using pop pq_pop_None rx_acctD(3) [OF A] by metis
    then show ?thesis using assms(3) token_done_acct [OF A] pop None by (simp add: T_in_token in_token_pop_def task_acct_def)
  next
    case (Some b)
    then show ?thesis using assms(3) acct_pop [OF A] pop by (auto simp: T_in_token in_token_pop_def task_acct_def pipe)
  qed
next
  case (T_token_busy b pipe ret)
  then show ?thesis using assms acct_busy [of cfg s b ow wy lv fr] by (auto simp: task_acct_def in_token_busy_def)
next
  case (T_token_send b ret)
  then have A: "rx_acct cfg s ow (add_mset b wy) lv fr" using assms(1) by (simp add: task_acct_def)
  show ?thesis
  proof (cases sent)
    case True
    then show ?thesis using assms(3) token_done_acct [OF acct_sent [OF A]] by (simp add: T_token_send task_acct_def)
  next
    case False
    then show ?thesis using assms(3) A by (auto simp: T_token_send task_acct_def)
  qed
next
  case (T_token_undo b ret)
  then show ?thesis using assms acct_undo [of cfg s ow b wy lv fr] by (auto simp: task_acct_def)
next
  case (T_token_fail ret)
  then show ?thesis using assms token_done_acct [of cfg s ow wy lv fr] by (simp add: task_acct_def)
next
  case (T_release b K)
  have A: "rx_acct cfg s (add_mset b (own K + ow)) (on_way K + wy) (live K + lv) (freeing K + fr)"
    using assms(1) by (simp add: T_release task_acct_def)
  obtain s1 where "release_locked b s = (True, s1)"
    and "rx_acct cfg s1 (add_mset b (own K + ow)) (on_way K + wy) (live K + lv) (freeing K + fr)"
    using acct_release [OF A] by blast
  moreover from this have "rx_tasks s1 = rx_tasks s" by (auto simp: release_locked_def Let_def split: if_splits)
  ultimately show ?thesis using assms by (auto simp: T_release task_acct_def)
next
  case (T_to_idle b K)
  then show ?thesis using assms acct_idle [of cfg s b "own K + ow"] by (auto simp: task_acct_def release_to_idle_def)
next
  case (T_pend b n st)
  have A: "rx_acct cfg s ow (add_mset b wy) lv fr" and n: "n + 32 \<le> rx_buf_size cfg"
    using assms(1) by (simp_all add: T_pend task_acct_def)
  have "pq_queue (busy_rxbuf_list s) \<noteq> []" using rx_acctD(2) [OF A] by auto
  then show ?thesis using assms(3) acct_undo [OF A] acct_len [OF acct_undo [OF A] n]
    by (auto simp: T_pend task_acct_def pend_rxbuf_def Let_def split: if_splits)
next
  case (T_pend_push b n)
  then show ?thesis using assms acct_pend_push [of cfg s b ow] by (auto simp: task_acct_def)
next
  case (T_pend_token b st)
  have A: "rx_acct cfg s ow wy lv fr" using assms(1) by (simp add: T_pend_token task_acct_def)
  then show ?thesis using assms(3) rx_acctD(12) [OF A, of b] by (auto simp: T_pend_token pend_token_def task_acct_def)
next
  case (T_rx x)
  have A: "rx_acct cfg s ow wy lv fr" using assms(1) by (simp add: T_rx task_acct_def)
  then show ?thesis using assms(3) acct_pop_pend [OF A]
    by (auto simp: T_rx rx_loop_def task_acct_def split: if_splits option.splits prod.splits)
next
  case (T_parse b x)
  then show ?thesis using assms parse_acct [of cfg s b x ow wy lv fr nb t' s'] by simp
next
  case (T_process ks K)
  then show ?thesis using assms(1,3)
    by (cases ks) (auto simp: task_acct_def acct_hand_over split: if_splits)
next
  case (T_recycle k K)
  have A: "rx_acct cfg s (own K + ow) (on_way K + wy) (add_mset k (live K + lv)) (freeing K + fr)"
    using assms(1) by (simp add: T_recycle task_acct_def)
  show ?thesis
  proof (cases "rp_rxbuf_ptr (rx_pkts s k)")
    case None
    then show ?thesis using assms acct_unref_none [OF A] by (auto simp: T_recycle task_acct_def recycle_rx_buf_def)
  next
    case (Some b)
    obtain z s1 where r: "release_locked b s = (z, s1)" by fastforce
    then have "rx_tasks s1 = rx_tasks s" by (auto simp: release_locked_def Let_def split: if_splits)
    then show ?thesis using assms acct_unref [OF A Some r] r Some
      by (cases z) (auto simp: T_recycle task_acct_def recycle_rx_buf_def)
  qed
next
  case (T_free_pkt k K)
  then show ?thesis using assms acct_free_pkt [of cfg s "own K + ow" "on_way K + wy" "live K + lv" k]
    by (auto simp: task_acct_def free_pkt_def)
qed

end
