(* ===== verification/UsbRxProps.thy ===== *)
theory UsbRxProps
  imports UsbRxInv
begin

text \<open>
  What the receive side of the USB bus promises under every interleaving: no receive buffer and no
  packet is lost or in two places (\<open>rx_buffers_conserved\<close>), and the bytes of a packet stay as the
  device sent them until the packet is given back (\<open>rx_data_stable\<close>).
\<close>

subsection \<open>All tasks together\<close>

definition total :: "(rx_task \<Rightarrow> nat multiset) \<Rightarrow> usb_rx \<Rightarrow> nat multiset" where
  "total f s = sum_list (map f (rx_tasks s))"

definition usb_rx_inv :: "usb_rx_cfg \<Rightarrow> usb_rx \<Rightarrow> bool" where
  "usb_rx_inv cfg s \<longleftrightarrow> rx_acct cfg s (total own s) (total on_way s) (total live s) (total freeing s) \<and>
     (\<forall>t \<in> set (rx_tasks s). task_ok cfg t)"

definition others :: "(rx_task \<Rightarrow> nat multiset) \<Rightarrow> nat \<Rightarrow> usb_rx \<Rightarrow> nat multiset" where
  "others f i s = sum_list (map f (take i (rx_tasks s))) + sum_list (map f (drop (Suc i) (rx_tasks s)))"

lemma total_split: "i < length (rx_tasks s) \<Longrightarrow> total f s = f (rx_tasks s ! i) + others f i s"
  unfolding total_def others_def by (subst id_take_nth_drop [of i "rx_tasks s"]) (simp_all add: ac_simps)

lemma total_upd:
  "i < length (rx_tasks s) \<Longrightarrow> total f (s1\<lparr>rx_tasks := (rx_tasks s)[i := t]\<rparr>) = f t + others f i s"
  unfolding total_def others_def by (simp add: upd_conv_take_nth_drop ac_simps)

lemma total_new: "total f (new_task t s) = total f s + f t"
  by (simp add: total_def new_task_def)

lemma total_frame [simp]:
  "total f (s\<lparr>deferred_timer := d\<rparr>) = total f s" "total f (s\<lparr>rx_on_bus := bs\<rparr>) = total f s"
  "total f (s\<lparr>held := ks\<rparr>) = total f s" "total f (upd_rxbuf b g s) = total f s"
  by (simp_all add: total_def upd_rxbuf_def)

lemma new_task_acct [simp]: "rx_acct cfg (new_task t s) = rx_acct cfg s"
  by (simp add: new_task_def)

lemma usb_rx_step_inv:
  assumes I: "usb_rx_inv cfg s" and few: "few_kept ev s" and st: "usb_rx_step cfg ev s = Some s'"
  shows "usb_rx_inv cfg s'"
proof -
  have A: "rx_acct cfg s (total own s) (total on_way s) (total live s) (total freeing s)"
    and ok: "\<forall>t \<in> set (rx_tasks s). task_ok cfg t" using I by (simp_all add: usb_rx_inv_def)
  show ?thesis
  proof (cases ev)
    case Ev_start
    then show ?thesis using st A ok by (auto simp: usb_rx_inv_def total_new) (auto simp: new_task_def)
  next
    case Ev_timer
    then show ?thesis using st A ok by (auto simp: usb_rx_inv_def total_new split: if_splits) (auto simp: new_task_def)
  next
    case (Ev_complete b data st')
    then show ?thesis using st A ok acct_complete [OF A, of b data]
      by (auto simp: usb_rx_inv_def total_new split: if_splits) (auto simp: new_task_def)
  next
    case Ev_handler
    then show ?thesis using st A ok by (auto simp: usb_rx_inv_def total_new) (auto simp: new_task_def)
  next
    case (Ev_return k)
    then show ?thesis using st A ok acct_return [OF A, of k]
      by (auto simp: usb_rx_inv_def total_new split: if_splits) (auto simp: new_task_def)
  next
    case (Ev_step i sent nb)
    then have i: "i < length (rx_tasks s)" using st by (simp split: if_splits)
    obtain t' s1 where ts: "task_step cfg sent nb (rx_tasks s ! i) s = (t', s1)" by fastforce
    have "task_acct cfg s (rx_tasks s ! i) (others own i s) (others on_way i s) (others live i s) (others freeing i s)"
      using A ok i by (simp add: task_acct_def total_split)
    moreover have "few_in nb (rx_tasks s ! i) s" using few i by (simp add: Ev_step few_kept_def)
    ultimately have T: "task_acct cfg s1 t' (others own i s) (others on_way i s) (others live i s) (others freeing i s)"
      and r: "rx_tasks s1 = rx_tasks s" using step_acct [OF _ _ ts] by blast+
    have s': "s' = s1\<lparr>rx_tasks := (rx_tasks s)[i := t']\<rparr>" using st ts r i by (simp add: Ev_step)
    show ?thesis using T ok set_update_subset_insert [of "rx_tasks s" i t']
      by (auto simp: usb_rx_inv_def s' total_upd [OF i] task_acct_def)
  qed
qed

lemma usb_rx_init_inv:
  assumes "32 \<le> rx_buf_size cfg"
  shows "usb_rx_inv cfg (phl_rx_init_usb cfg mem)"
proof -
  have "pq_queue (foldl (\<lambda>q b. pq_push q b Tail) pq_init [0..<rx_buf_num cfg]) = [0..<rx_buf_num cfg]"
    "pq_wf (foldl (\<lambda>q b. pq_push q b Tail) pq_init [0..<rx_buf_num cfg])"
    using pqf.fill [of "[0..<rx_buf_num cfg]"] by simp_all
  then show ?thesis using assms
    by (simp add: usb_rx_inv_def rx_acct_def total_def phl_rx_init_usb_def referred_def refs_def phl_alloc_recv_pkt_pool_def
        rx_pkt_fresh_def rx_pkt_released_def WLAN_IN_MPDU_PIPE_IDX_def pq_wf_init del: upt_conv_Nil)
qed

lemma usb_rx_reach_inv: "usb_rx_reach cfg s \<Longrightarrow> 32 \<le> rx_buf_size cfg \<Longrightarrow> usb_rx_inv cfg s"
  by (induction rule: usb_rx_reach.induct) (auto intro: usb_rx_init_inv usb_rx_step_inv)

lemma sum_ended: "\<forall>t \<in> set ts. t = T_end \<Longrightarrow> f T_end = {#} \<Longrightarrow> sum_list (map f ts) = {#}"
  for f :: "rx_task \<Rightarrow> nat multiset"
  by (induction ts) auto

text \<open>
  C18. Under every interleaving each receive buffer is in exactly one place: idle, waiting for the
  handler, on the bus, in the hands of a task or kept by packets, and its counter is the number
  of the packets that refer to it. The busy queue is what the bus has or is about to have. Each
  packet is idle, with the next stages or in the hands of a task. When every task has ended, the
  bus has no buffer, none waits for the handler and all packets have been given back, all
  buffers and all packets are idle again. In the runs considered fewer than 256 packets of one
  transfer stay in the receive buffer (\<open>few_kept\<close>), whose counter is filled from a byte, and a
  transfer leaves 32 bytes of the buffer free.
\<close>

theorem rx_buffers_conserved:
  assumes "usb_rx_reach cfg s" "32 \<le> rx_buf_size cfg"
  shows "mset (pq_queue (idle_rxbuf_list s)) + mset (pq_queue (pend_rxbuf_list s)) + mset (rx_on_bus s) + total own s +
      total on_way s + mset (referred cfg s) = mset [0..<rx_buf_num cfg] \<and>
    mset (pq_queue (busy_rxbuf_list s)) = mset (rx_on_bus s) + total on_way s \<and>
    (\<forall>b. rb_pktcnt (rx_bufs s b) = int (refs s (mset (held s) + total live s) b)) \<and>
    mset (idle (rx_pool s)) + mset (held s) + total live s + total freeing s = mset [0..<MAX_PHL_RING_RX_PKT_NUM] \<and>
    ((\<forall>t \<in> set (rx_tasks s). t = T_end) \<and> rx_on_bus s = [] \<and> held s = [] \<and> pq_queue (pend_rxbuf_list s) = [] \<longrightarrow>
       pq_cnt (idle_rxbuf_list s) = int (rx_buf_num cfg) \<and> rtw_phl_is_phl_rx_idle (rx_pool s))"
proof -
  have A: "rx_acct cfg s (total own s) (total on_way s) (total live s) (total freeing s)"
    using usb_rx_reach_inv [OF assms] by (simp add: usb_rx_inv_def)
  note D = rx_acctD [OF A]
  have "pq_cnt (idle_rxbuf_list s) = int (rx_buf_num cfg) \<and> rtw_phl_is_phl_rx_idle (rx_pool s)"
    if q: "\<forall>t \<in> set (rx_tasks s). t = T_end" "rx_on_bus s = []" "held s = []" "pq_queue (pend_rxbuf_list s) = []"
  proof -
    have t: "total f s = {#}" if "f T_end = {#}" for f
      unfolding total_def using q(1) that by (rule sum_ended)
    have "referred cfg s = []" using D(6) q(3) by (auto simp: t referred_def refs_def filter_empty_conv)
    then have "mset (pq_queue (idle_rxbuf_list s)) = mset [0..<rx_buf_num cfg]" using D(1) q by (simp add: t)
    then have "length (pq_queue (idle_rxbuf_list s)) = rx_buf_num cfg" using mset_eq_length by fastforce
    moreover have "mset (idle (rx_pool s)) = mset [0..<MAX_PHL_RING_RX_PKT_NUM]" using D(8) q by (simp add: t)
    then have "length (idle (rx_pool s)) = MAX_PHL_RING_RX_PKT_NUM" using mset_eq_length by fastforce
    ultimately show ?thesis using D(3,9) by (simp add: pq_wf_def rtw_phl_is_phl_rx_idle_def)
  qed
  then show ?thesis using D(1,2,6,8) by blast
qed

subsection \<open>The bytes of a packet\<close>

definition in_use :: "usb_rx \<Rightarrow> nat multiset" where "in_use s = mset (held s) + total live s"

definition bytes_of :: "usb_rx \<Rightarrow> nat \<Rightarrow> bytes" where
  "bytes_of s k =
     payload_of (case rp_rxbuf_ptr (rx_pkts s k) of None \<Rightarrow> [] | Some b \<Rightarrow> rb_buffer (rx_bufs s b)) (rx_pkts s k)"

text \<open>What a step of a task changes: idle packets or one it frees; a buffer nothing refers to.\<close>

lemma release_changes:
  "release_locked b s = (z, s1) \<Longrightarrow> rx_pkts s1 = rx_pkts s \<and>
   (\<forall>c. rb_buffer (rx_bufs s1 c) \<noteq> rb_buffer (rx_bufs s c) \<longrightarrow> c = b \<and> rb_pktcnt (rx_bufs s b) \<in> {0, 1})"
  by (auto simp: release_locked_def Let_def split: if_splits)

lemma parse_changes:
  assumes A: "rx_acct cfg s ow wy lv fr" and st: "parse_rxbuf nb b x s = (t', s1)"
  shows "rx_pkts s1 k \<noteq> rx_pkts s k \<longrightarrow> k \<in> set (idle (rx_pool s))" "rb_buffer (rx_bufs s1 c) = rb_buffer (rx_bufs s c)"
proof -
  let ?s0 = "\<lparr>sp_pool = rx_pool s, sp_pkts = rx_pkts s, sp_head = [], sp_brel = True, sp_ref_cnt = 0\<rparr>"
  obtain sp where sp: "split_transfer nb (rb_buffer (rx_bufs s b)) b (rb_transfer_len (rx_bufs s b)) (rx_pool s) (rx_pkts s) = Done sp"
    and f: "split_from (rb_buffer (rx_bufs s b)) b 0 (rb_transfer_len (rx_bufs s b)) ?s0 (sp_head sp) sp"
    using split_any [OF idle_distinct [OF A], of "rx_pkts s" "rb_transfer_len (rx_bufs s b)" "rb_buffer (rx_bufs s b)" nb b]
      rx_acctD(10,11,13) [OF A] by auto
  have "k \<in> set (idle (rx_pool s)) \<or> sp_pkts sp k = rx_pkts s k" using f by (auto simp: split_from_def)
  then show "rx_pkts s1 k \<noteq> rx_pkts s k \<longrightarrow> k \<in> set (idle (rx_pool s))" "rb_buffer (rx_bufs s1 c) = rb_buffer (rx_bufs s c)"
    using st by (auto simp: parse_rxbuf_def sp Let_def split: if_splits)
qed

lemma token_done_changes: "token_done cfg st ret s = (t', s1) \<Longrightarrow> rx_pkts s1 = rx_pkts s \<and> rx_bufs s1 = rx_bufs s"
  by (auto simp: token_done_def start_done_def split: token_ret.splits if_splits)

lemma step_changes:
  assumes A: "rx_acct cfg s ow wy lv fr" and st: "task_step cfg sent nb t s = (t', s1)"
  shows "rx_pkts s1 k \<noteq> rx_pkts s k \<Longrightarrow> k \<in> set (idle (rx_pool s)) \<or> k \<in># freeing t"
    and "rb_buffer (rx_bufs s1 b) \<noteq> rb_buffer (rx_bufs s b) \<Longrightarrow>
      rb_pktcnt (rx_bufs s b) = 0 \<or> b \<in># own t \<or> (\<exists>j K. t = T_recycle j K \<and> rp_rxbuf_ptr (rx_pkts s j) = Some b \<and> rb_pktcnt (rx_bufs s b) = 1)"
proof -
  have "(rx_pkts s1 k \<noteq> rx_pkts s k \<longrightarrow> k \<in> set (idle (rx_pool s)) \<or> k \<in># freeing t) \<and>
    (rb_buffer (rx_bufs s1 b) \<noteq> rb_buffer (rx_bufs s b) \<longrightarrow>
      rb_pktcnt (rx_bufs s b) = 0 \<or> b \<in># own t \<or> (\<exists>j K. t = T_recycle j K \<and> rp_rxbuf_ptr (rx_pkts s j) = Some b \<and> rb_pktcnt (rx_bufs s b) = 1))"
  proof (cases t)
    case (T_parse c x)
    then show ?thesis using parse_changes [OF A, of nb c x t' s1] st by auto
  next
    case (T_release c K)
    then show ?thesis using st release_changes [of c s] by (auto split: prod.splits)
  next
    case (T_recycle j K)
    then show ?thesis using st release_changes [of _ s] by (auto simp: recycle_rx_buf_def split: prod.splits option.splits)
  next
    case (T_free_pkt j K)
    then show ?thesis using st by (auto simp: free_pkt_def split: if_splits)
  next
    case (T_process ks K)
    then show ?thesis using st by (cases ks) (auto split: if_splits)
  qed (use st in \<open>auto simp: start_done_def in_token_pop_def in_token_busy_def release_to_idle_def pend_rxbuf_def Let_def
        rx_loop_def dest!: token_done_changes split: if_splits prod.splits option.splits\<close>)
  then show "rx_pkts s1 k \<noteq> rx_pkts s k \<Longrightarrow> k \<in> set (idle (rx_pool s)) \<or> k \<in># freeing t"
    and "rb_buffer (rx_bufs s1 b) \<noteq> rb_buffer (rx_bufs s b) \<Longrightarrow>
      rb_pktcnt (rx_bufs s b) = 0 \<or> b \<in># own t \<or> (\<exists>j K. t = T_recycle j K \<and> rp_rxbuf_ptr (rx_pkts s j) = Some b \<and> rb_pktcnt (rx_bufs s b) = 1)"
    by blast+
qed

lemma in_use_facts:
  assumes A: "rx_acct cfg s (total own s) (total on_way s) (total live s) (total freeing s)" and k: "k \<in># in_use s"
  shows "k \<notin> set (idle (rx_pool s))" "k \<notin># total freeing s" "count (in_use s) k = 1"
    and "rp_rxbuf_ptr (rx_pkts s k) = Some b \<Longrightarrow> 0 < rb_pktcnt (rx_bufs s b)"
proof -
  have E: "(mset (idle (rx_pool s)) + total freeing s) + in_use s = mset [0..<MAX_PHL_RING_RX_PKT_NUM]"
    using rx_acctD(8) [OF A] by (simp add: in_use_def ac_simps)
  then show "k \<notin> set (idle (rx_pool s))" "k \<notin># total freeing s" using mset_upt_disjoint [OF E] k by fastforce+
  have "count (in_use s) k \<le> count (mset [0..<MAX_PHL_RING_RX_PKT_NUM]) k" unfolding E [symmetric] by simp
  also have "\<dots> \<le> 1" using distinct_count_atmost_1 [of "[0..<MAX_PHL_RING_RX_PKT_NUM]"] by (simp del: mset_upt)
  finally show "count (in_use s) k = 1" using k by (metis Suc_leI count_greater_zero_iff le_antisym One_nat_def)
  show "0 < rb_pktcnt (rx_bufs s b)" if "rp_rxbuf_ptr (rx_pkts s k) = Some b"
  proof -
    have "k \<in># {#k \<in># in_use s. rp_rxbuf_ptr (rx_pkts s k) = Some b#}" using k that by simp
    then have "0 < refs s (in_use s) b" unfolding refs_def by (metis empty_iff set_mset_empty size_empty gr0I size_eq_0_iff_empty)
    then show ?thesis using rx_acctD(6) [OF A, of b] by (simp add: in_use_def)
  qed
qed

text \<open>
  C7. While a packet is in use (with the next stages, or waiting in the handler or to be given
  back) its bytes do not change, whether they are in a buffer of its own or in the receive
  buffer, and that receive buffer is neither idle nor waiting nor on the bus.
\<close>

theorem rx_data_stable:
  assumes "usb_rx_reach cfg s" "32 \<le> rx_buf_size cfg" "few_kept ev s" "usb_rx_step cfg ev s = Some s'"
    and "k \<in># in_use s" "k \<in># in_use s'"
  shows "rx_pkts s' k = rx_pkts s k \<and> bytes_of s' k = bytes_of s k \<and>
    (\<forall>b. rp_rxbuf_ptr (rx_pkts s' k) = Some b \<longrightarrow>
       b \<notin> set (pq_queue (idle_rxbuf_list s')) \<and> b \<notin> set (pq_queue (pend_rxbuf_list s')) \<and> b \<notin> set (rx_on_bus s'))"
proof -
  have I: "usb_rx_inv cfg s" using usb_rx_reach_inv assms(1,2) by blast
  have A: "rx_acct cfg s (total own s) (total on_way s) (total live s) (total freeing s)"
    and A': "rx_acct cfg s' (total own s') (total on_way s') (total live s') (total freeing s')"
    using I usb_rx_step_inv [OF I assms(3,4)] by (simp_all add: usb_rx_inv_def)
  note U = in_use_facts [OF A assms(5)] and U' = in_use_facts [OF A' assms(6)]
  have same: "rx_pkts s' k = rx_pkts s k \<and> (\<forall>b. rp_rxbuf_ptr (rx_pkts s k) = Some b \<longrightarrow> rb_buffer (rx_bufs s' b) = rb_buffer (rx_bufs s b))"
  proof (cases ev)
    case (Ev_complete c data st)
    have "rb_pktcnt (rx_bufs s c) = 0" if "c \<in> set (rx_on_bus s)" using own_unreferred [OF A, of c] that by simp
    then show ?thesis using assms(4) U(4) by (auto simp: Ev_complete new_task_def split: if_splits)
  next
    case (Ev_step i sent nb)
    let ?t = "rx_tasks s ! i"
    have i: "i < length (rx_tasks s)" using assms(4) by (simp add: Ev_step split: if_splits)
    obtain t' s1 where ts: "task_step cfg sent nb ?t s = (t', s1)" by fastforce
    then have s': "s' = s1\<lparr>rx_tasks := (rx_tasks s1)[i := t']\<rparr>" using assms(4) i by (simp add: Ev_step)
    have "k \<notin># freeing ?t" using U(2) i by (simp add: total_split)
    then have pk: "rx_pkts s' k = rx_pkts s k" using step_changes(1) [OF A ts, of k] U(1) by (auto simp: s')
    moreover have "rb_buffer (rx_bufs s' b) = rb_buffer (rx_bufs s b)" if b: "rp_rxbuf_ptr (rx_pkts s k) = Some b" for b
    proof (rule ccontr)
      assume "rb_buffer (rx_bufs s' b) \<noteq> rb_buffer (rx_bufs s b)"
      then consider "rb_pktcnt (rx_bufs s b) = 0" | "b \<in># own ?t" |
        (rec) j K where "?t = T_recycle j K" "rp_rxbuf_ptr (rx_pkts s j) = Some b" "rb_pktcnt (rx_bufs s b) = 1"
        using step_changes(2) [OF A ts, of b] by (auto simp: s')
      then show False
      proof cases
        case 1
        then show False using U(4) [OF b] by simp
      next
        case 2
        then show False using own_unreferred [OF A, of b] U(4) [OF b] i by (simp add: total_split)
      next
        case rec
        have jin: "j \<in># total live s" using i rec(1) by (simp add: total_split)
        show False
        proof (cases "j = k")
          case True
          have "add_mset j (in_use s') = in_use s"
            using ts rec i total_split [OF i, of live] unfolding in_use_def
            by (auto simp: recycle_rx_buf_def release_locked_def Let_def s' total_upd split: if_splits)
          then show False using U(3) assms(6) True by (metis add_mset_remove_trivial count_add_mset count_eq_zero_iff nat.inject One_nat_def)
        next
          case False
          then obtain M where M: "in_use s = add_mset j (add_mset k M)"
            using jin assms(5) by (metis in_use_def insert_DiffM union_iff insert_noteq_member mset_add)
          then have "2 \<le> refs s (in_use s) b" using rec(2) b by (simp add: refs_add)
          then show False using rx_acctD(6) [OF A, of b] rec(3) by (simp add: in_use_def)
        qed
      qed
    qed
    ultimately show ?thesis by blast
  qed (use assms(4) in \<open>auto simp: new_task_def split: if_splits\<close>)
  have "b \<notin> set (pq_queue (idle_rxbuf_list s')) \<and> b \<notin> set (pq_queue (pend_rxbuf_list s')) \<and> b \<notin> set (rx_on_bus s')"
    if "rp_rxbuf_ptr (rx_pkts s' k) = Some b" for b
  proof -
    have "b \<in># mset (referred cfg s')" using U'(4) [OF that] rx_acctD(7) [OF A', of b] by (simp add: referred_def)
    moreover have "(mset (pq_queue (idle_rxbuf_list s')) + mset (pq_queue (pend_rxbuf_list s')) + mset (rx_on_bus s') + total own s' +
      total on_way s') + mset (referred cfg s') = mset [0..<rx_buf_num cfg]" using rx_acctD(1) [OF A'] .
    ultimately show ?thesis using mset_upt_disjoint by (metis union_iff set_mset_mset)
  qed
  moreover have "bytes_of s' k = bytes_of s k" using same by (auto simp: bytes_of_def split: option.splits)
  ultimately show ?thesis using same by blast
qed

subsection \<open>Examples\<close>

fun few_run :: "usb_rx_cfg \<Rightarrow> usb_rx_event list \<Rightarrow> usb_rx \<Rightarrow> bool" where
  "few_run cfg [] s = True"
| "few_run cfg (ev # evs) s \<longleftrightarrow>
     few_kept ev s \<and> (case usb_rx_step cfg ev s of None \<Rightarrow> True | Some s' \<Rightarrow> few_run cfg evs s')"

lemma run_reach: "usb_rx_run cfg evs s = Some s' \<Longrightarrow> few_run cfg evs s \<Longrightarrow> usb_rx_reach cfg s \<Longrightarrow> usb_rx_reach cfg s'"
  by (induction evs arbitrary: s) (auto split: option.splits intro: usb_rx_next)

definition ex_rx_cfg :: usb_rx_cfg where
  "ex_rx_cfg = \<lparr>in_token_num = 1, rx_buf_num = 2, rx_buf_size = 128\<rparr>"

abbreviation go :: "nat \<Rightarrow> usb_rx_event" where "go i \<equiv> Ev_step i True (\<lambda>_. False)"

text \<open>A buffer goes to the bus and comes back with a firmware event; the handler takes it.\<close>

definition ex_rx_events :: "usb_rx_event list" where
  "ex_rx_events = [Ev_start, go 0, go 0, go 0, go 0, Ev_complete 0 (dv_bytes ex_event) RTW_PHL_STATUS_SUCCESS,
     go 1, go 1, Ev_handler, go 2]"

lemma ex_event_bytes: "length (dv_bytes ex_event) = 23" "dv_stream [ex_event] = dv_bytes ex_event" "dv_bytes ex_event \<noteq> []"
  by (simp_all add: dv_bytes_def le_bytes_def ex_event_def)

lemma ex_upt: "[0..<2 :: nat] = [0, 1]"
  by (simp add: upt_rec)

lemma ex_before_parse:
  "\<exists>s. usb_rx_run ex_rx_cfg ex_rx_events (phl_rx_init_usb ex_rx_cfg (\<lambda>_ _. 0)) = Some s \<and>
     few_run ex_rx_cfg ex_rx_events (phl_rx_init_usb ex_rx_cfg (\<lambda>_ _. 0)) \<and>
     rx_tasks s = [T_start_loop False 0 RTW_PHL_STATUS_SUCCESS, T_pend_token 0 RTW_PHL_STATUS_SUCCESS, T_parse 0 False] \<and>
     rb_buffer (rx_bufs s 0) = dv_bytes ex_event @ drop 23 (map (\<lambda>_. 0) [0..<128]) \<and>
     rb_transfer_len (rx_bufs s 0) = 23 \<and> rb_pipe_idx (rx_bufs s 0) = 0 \<and>
     idle (rx_pool s) = [0..<MAX_PHL_RING_RX_PKT_NUM] \<and> held s = []"
  by (simp add: ex_rx_events_def ex_rx_cfg_def phl_rx_init_usb_def new_task_def start_done_def in_token_pop_def ex_upt
      pq_pop_def pq_nonempty_def pq_push_def pq_init_def pq_del_node_def in_token_busy_def upd_rxbuf_def token_done_def pend_rxbuf_def
      rx_loop_def few_kept_def few_in_def WLAN_IN_MPDU_PIPE_IDX_def ex_event_bytes phl_alloc_recv_pkt_pool_def Let_def
      del: upt_rec_numeral)

text \<open>
  A completion that is neither \<open>SUCCESS\<close> nor \<open>INVALID_PARAM\<close> costs its token: the bus has no buffer
  any more, nothing is left to be done and the timer is not set.
\<close>

definition ex_failed_events :: "usb_rx_event list" where
  "ex_failed_events = [Ev_start, go 0, go 0, go 0, go 0, go 0, Ev_complete 0 [] RTW_PHL_STATUS_FAILURE, go 1, go 1, go 1, go 1]"

lemma failed_completion_loses_token:
  "\<exists>s. usb_rx_run ex_rx_cfg ex_failed_events (phl_rx_init_usb ex_rx_cfg (\<lambda>_ _. 0)) = Some s \<and>
     few_run ex_rx_cfg ex_failed_events (phl_rx_init_usb ex_rx_cfg (\<lambda>_ _. 0)) \<and>
     rx_tasks s = [T_end, T_end] \<and> rx_on_bus s = [] \<and> \<not> deferred_timer s \<and> pq_queue (idle_rxbuf_list s) = [1, 0] \<and>
     held s = [] \<and> pq_queue (pend_rxbuf_list s) = []"
  by (simp add: few_kept_def few_in_def ex_failed_events_def ex_rx_cfg_def phl_rx_init_usb_def new_task_def start_done_def in_token_pop_def ex_upt
      pq_pop_def pq_nonempty_def pq_push_def pq_init_def pq_del_node_def in_token_busy_def upd_rxbuf_def token_done_def
      pend_rxbuf_def pend_token_def release_locked_def release_to_idle_def Let_def del: upt_rec_numeral)

theorem rx_buffers_conserved_witness:
  "(\<exists>s. rx_tasks s = [T_start_loop False 0 RTW_PHL_STATUS_SUCCESS, T_pend_token 0 RTW_PHL_STATUS_SUCCESS, T_parse 0 False] \<and>
     mset (pq_queue (idle_rxbuf_list s)) + mset (pq_queue (pend_rxbuf_list s)) + mset (rx_on_bus s) + {#0#} +
       mset (referred ex_rx_cfg s) = mset [0, 1]) \<and>
   (\<exists>s :: usb_rx. rx_tasks s = [T_end, T_end] \<and> pq_cnt (idle_rxbuf_list s) = 2 \<and> rtw_phl_is_phl_rx_idle (rx_pool s))"
proof (rule conjI)
  obtain s where run: "usb_rx_run ex_rx_cfg ex_rx_events (phl_rx_init_usb ex_rx_cfg (\<lambda>_ _. 0)) = Some s"
      "few_run ex_rx_cfg ex_rx_events (phl_rx_init_usb ex_rx_cfg (\<lambda>_ _. 0))"
    and t: "rx_tasks s = [T_start_loop False 0 RTW_PHL_STATUS_SUCCESS, T_pend_token 0 RTW_PHL_STATUS_SUCCESS, T_parse 0 False]"
    using ex_before_parse by blast
  have "usb_rx_reach ex_rx_cfg s" "32 \<le> rx_buf_size ex_rx_cfg"
    using run_reach [OF run usb_rx_init] by (simp_all add: ex_rx_cfg_def)
  from rx_buffers_conserved [OF this] show "\<exists>s. rx_tasks s =
      [T_start_loop False 0 RTW_PHL_STATUS_SUCCESS, T_pend_token 0 RTW_PHL_STATUS_SUCCESS, T_parse 0 False] \<and>
     mset (pq_queue (idle_rxbuf_list s)) + mset (pq_queue (pend_rxbuf_list s)) + mset (rx_on_bus s) + {#0#} +
       mset (referred ex_rx_cfg s) = mset [0, 1]"
    by (intro exI [of _ s]) (simp add: t total_def ex_rx_cfg_def ex_upt)
next
  obtain s where run: "usb_rx_run ex_rx_cfg ex_failed_events (phl_rx_init_usb ex_rx_cfg (\<lambda>_ _. 0)) = Some s"
      "few_run ex_rx_cfg ex_failed_events (phl_rx_init_usb ex_rx_cfg (\<lambda>_ _. 0))"
    and t: "rx_tasks s = [T_end, T_end]" "rx_on_bus s = []" "held s = []" "pq_queue (pend_rxbuf_list s) = []"
    using failed_completion_loses_token by blast
  have "usb_rx_reach ex_rx_cfg s" "32 \<le> rx_buf_size ex_rx_cfg"
    using run_reach [OF run usb_rx_init] by (simp_all add: ex_rx_cfg_def)
  from rx_buffers_conserved [OF this] show
    "\<exists>s :: usb_rx. rx_tasks s = [T_end, T_end] \<and> pq_cnt (idle_rxbuf_list s) = 2 \<and> rtw_phl_is_phl_rx_idle (rx_pool s)"
    by (intro exI [of _ s]) (simp add: t ex_rx_cfg_def)
qed

text \<open>One more step, and the packet of the event is in the hands of the handler.\<close>

lemma ex_parsed: "\<exists>s. usb_rx_reach ex_rx_cfg s \<and> 0 \<in># in_use s"
proof -
  obtain s where run: "usb_rx_run ex_rx_cfg ex_rx_events (phl_rx_init_usb ex_rx_cfg (\<lambda>_ _. 0)) = Some s"
      "few_run ex_rx_cfg ex_rx_events (phl_rx_init_usb ex_rx_cfg (\<lambda>_ _. 0))"
    and t: "rx_tasks s = [T_start_loop False 0 RTW_PHL_STATUS_SUCCESS, T_pend_token 0 RTW_PHL_STATUS_SUCCESS, T_parse 0 False]"
    and b: "rb_buffer (rx_bufs s 0) = dv_stream [ex_event] @ drop 23 (map (\<lambda>_. 0) [0..<128])"
      "rb_transfer_len (rx_bufs s 0) = 23" "rb_pipe_idx (rx_bufs s 0) = 0"
    and p: "idle (rx_pool s) = [0..<MAX_PHL_RING_RX_PKT_NUM]"
    using ex_before_parse unfolding ex_event_bytes(2) by blast
  obtain m post where m: "rb_buffer (rx_bufs s 0) = m" "m = [] @ dv_stream [ex_event] @ post" "32 \<le> length post"
    using b(1) by (simp del: upt_rec_numeral dv_stream.simps)
  have il: "idle (rx_pool s) = [0] @ [1..<MAX_PHL_RING_RX_PKT_NUM]"
    unfolding p using upt_conv_Cons [of 0 MAX_PHL_RING_RX_PKT_NUM] by (simp add: MAX_PHL_RING_RX_PKT_NUM_def del: upt_rec_numeral)
  have n: "length (dv_stream [ex_event]) = 23" using ex_event_bytes by simp
  let ?s0 = "\<lparr>sp_pool = rx_pool s, sp_pkts = rx_pkts s, sp_head = [], sp_brel = True, sp_ref_cnt = 0\<rparr>"
  have ok: "\<forall>d \<in> set [ex_event]. dv_ok d" using ex_dv_ok by simp
  obtain sp where "get_rx_loop (\<lambda>_. False) m 0 (length ([] :: bytes)) (length (dv_stream [ex_event])) ?s0 = Done sp"
      "sp_head sp = [] @ [0]"
    using loop_stream [OF ok _ m(2,3), of ?s0 "[0]" "[1..<MAX_PHL_RING_RX_PKT_NUM]" "\<lambda>_. False" 0] il
    by (auto simp del: dv_stream.simps)
  then have sp: "split_transfer (\<lambda>_. False) m 0 23 (rx_pool s) (rx_pkts s) = Done sp" "sp_head sp = [0]"
    unfolding n by (simp_all add: split_transfer_def)
  have "length (filter P [0 :: nat]) < 256" for P by simp
  then have few: "few_kept (go 2) s"
    unfolding few_kept_def few_in_def by (simp add: t b(2) m(1) sp)
  have "\<exists>s1. usb_rx_step ex_rx_cfg (go 2) s = Some s1 \<and> 0 \<in># total live s1"
    using b(2,3) by (simp add: t parse_rxbuf_def WLAN_IN_MPDU_PIPE_IDX_def Let_def m(1) sp total_def upd_rxbuf_def)
  then show ?thesis using usb_rx_next [OF run_reach [OF run usb_rx_init] few] by (auto simp: in_use_def)
qed

theorem rx_data_stable_witness:
  "\<exists>s s'. usb_rx_reach ex_rx_cfg s \<and> usb_rx_step ex_rx_cfg Ev_handler s = Some s' \<and> 0 \<in># in_use s' \<and>
     rx_pkts s' 0 = rx_pkts s 0 \<and> bytes_of s' 0 = bytes_of s 0"
proof -
  obtain s where r: "usb_rx_reach ex_rx_cfg s" "0 \<in># in_use s" using ex_parsed by blast
  let ?n = "new_task (T_rx False) s"
  have "in_use ?n = in_use s" by (simp add: in_use_def total_new) (simp add: new_task_def)
  then have "few_kept Ev_handler s" "usb_rx_step ex_rx_cfg Ev_handler s = Some ?n" "0 \<in># in_use ?n" "32 \<le> rx_buf_size ex_rx_cfg"
    using r by (simp_all add: few_kept_def ex_rx_cfg_def)
  then show ?thesis using rx_data_stable [OF r(1) _ _ _ r(2), of Ev_handler ?n] r by blast
qed

end
