(* ===== verification/Spec2Isabelle.thy ===== *)
theory Spec2Isabelle
  imports PhlQueueProps RxReorderProps MacidProps DispatcherProps MsgHubProps PktRingProps IesProps DataCtrlProps DispCtrlProps
    TxPathProps UsbRxProps
begin

text \<open>
  A verification development for the Linux driver of the Realtek RTL8852CU Wi-Fi adapter
  (\<^verbatim>\<open>src/rtl8852cu-20240510\<close>). Its subject is PHL (\<^verbatim>\<open>phl\<close>), the layer between the management code of
  the core (\<^verbatim>\<open>core\<close>, \<^verbatim>\<open>os_dep\<close>) and the HAL of the chip (\<^verbatim>\<open>phl/hal_g6\<close>): how packets travel between the
  core and the USB bus, how commands and messages travel between the modules, and how the two are
  paused and stopped. Paths below are relative to \<^verbatim>\<open>src/rtl8852cu-20240510\<close>.

  How the parts work together. A frame of the core enters the ring of its station and traffic class;
  the transmit handler serves the rings in the order of their priority, aggregates their requests
  into transmit buffers and gives these to the bus. A transfer from the bus is split into packets,
  frames go through the reorder buffer of their session into the receive ring, from which the core
  takes and gives back packets. Commands go to the dispatcher of their band, which lets one command
  run at a time and feeds messages to the modules in two phases; its controller module pauses the
  data path during a recovery. Events without a dispatcher go through the message hub.

  Foundations

  \<^item> \<open>Prelude\<close>: machine integers, status codes, the flag macros of \<^verbatim>\<open>phl/phl_util.h\<close>, lists and slots of
    arrays, runs of events.
  \<^item> \<open>Buffers\<close>: a C object as the list of its bytes, with the value \<open>Fault\<close> for an access outside.
  \<^item> \<open>RingIndex\<close>: the read and write indices of the packet rings (\<^verbatim>\<open>phl/phl_tx.c\<close>), in absolute
    positions modulo the size of the ring.
  \<^item> \<open>PhlQueue\<close>, \<open>PhlQueueProps\<close>: the queue of \<^verbatim>\<open>phl/phl_util.c\<close> with its separate counter; the interface
    \<open>fifo_pool\<close>, the typing of queues (\<open>queue_typed\<close>).
  \<^item> \<open>PhlBitmap\<close>: the module bitmaps of \<^verbatim>\<open>phl/phl_util.h\<close> and the maps of ids of \<^verbatim>\<open>phl/phl_sta.c\<close>, both instances of
    the interface \<open>id_bitmap\<close>. \<open>MsgId\<close>: message and module ids of \<^verbatim>\<open>phl/phl_def.h\<close>.

  The data path

  \<^item> \<open>TxRing\<close>, \<open>TxRingProps\<close>, \<open>TxFlow\<close>: the rings of the stations, the pool of ring statuses, their sorting and
    the flow control of \<^verbatim>\<open>phl/phl_tx.c\<close>. \<open>flow_control_order\<close> says in which order the rings are served:
    by priority for one station, grouped by the first occurrence of a class over several ones.
  \<^item> \<open>UsbTx\<close>, \<open>UsbTxLayout\<close>, \<open>UsbTxProps\<close>: the transmit side of \<^verbatim>\<open>phl/hci/phl_trx_usb.c\<close>: buffers, aggregation,
    the prediction of the length of a transfer. \<open>usb_transfer_layout\<close> says where the packets lie,
    \<open>fresh_batch_short_packet\<close> that a transfer of requests without an old dummy flag does not end
    with a full bulk packet.
  \<^item> \<open>TxPath\<close>, \<open>TxPathInv\<close>, \<open>TxPathSteps\<close>, \<open>TxPathProps\<close>: the whole transmit path as a step relation, one
    event per critical section of the core, the handler, the bus, the registration of stations
    and the firmware commands. Requests are served in order and never lost or doubled, no access
    goes to released memory, all buffers and statuses are accounted for, a round of the handler
    ends, and a served ring makes progress.
  \<^item> \<open>RxDesc\<close>, \<open>RxDescProps\<close>: the receive descriptor (\<^verbatim>\<open>phl/hal_g6/rtl8852c/hal_trx_8852c.c\<close>) and the splitting of a
    transfer (\<open>phl_get_single_rx\<close>): for any bytes the packets are disjoint pieces of the transfer;
    a transfer laid out as the device does it is split into exactly its packets.
  \<^item> \<open>PpduStatus\<close>: the MAC part of a PPDU status and the header of a radar report
    (\<^verbatim>\<open>phl/hal_g6/mac/mac_ax/phy_rpt.c\<close>, \<^verbatim>\<open>phl/hal_g6/hal_api_mac.c\<close>): where the parser stays inside the
    buffer, and where it and the copy of its result do not.
  \<^item> \<open>UsbRx\<close>, \<open>UsbRxInv\<close>, \<open>UsbRxProps\<close>: the receive side of \<^verbatim>\<open>phl/hci/phl_trx_usb.c\<close> with tokens, completions,
    timer, handler and recycling as concurrent tasks. Every buffer and packet is in one place, the
    bytes of a packet in use do not change, and when every task has ended and nothing is held
    everything is idle again.
  \<^item> \<open>RxReorder\<close>, \<open>RxReorderSpec\<close>, \<open>RxReorderProps\<close>: the reorder buffers of block-ack sessions
    (\<^verbatim>\<open>phl/phl_rx.c\<close>, \<^verbatim>\<open>phl/phl_rx_agg.c\<close>): delivery in order - every frame that is handed on has its own
    position in an unbounded order near the moving window, and positions increase -, conservation
    of packets, the window after a request and after a timeout.
  \<^item> \<open>PktRing\<close>, \<open>PktRingProps\<close>: the pool of receive packets and the ring between PHL and the core, a
    bounded FIFO under every interleaving of its two sides (\<open>ring_fifo\<close>).
  \<^item> \<open>DataCtrl\<close>, \<open>DataCtrlInv\<close>, \<open>DataCtrlProps\<close>: pausing and resuming of the data path by several modules
    (\<^verbatim>\<open>phl/phl_tx.c\<close>), a refinement of one set of owners per direction.

  Commands and messages

  \<^item> \<open>Dispatcher\<close>, \<open>DispatcherMsg\<close>, \<open>DispatcherFeed\<close>, \<open>DispatcherToken\<close>, \<open>DispatcherLife\<close>, \<open>DispatchEngine\<close>: the command
    dispatchers of all bands (\<^verbatim>\<open>phl/phl_cmd_dispatcher.c\<close>, \<^verbatim>\<open>phl/phl_cmd_dispatch_engine.c\<close>): data, messages and
    their pools, the two phases of a message, the command token, start and stop, the thread.
  \<^item> \<open>DispatcherInv\<close>, \<open>DispatcherKeep\<close>, \<open>DispatcherRun\<close>, \<open>DispatcherStop\<close>, \<open>DispatcherRound\<close>, \<open>DispatcherPhase\<close>,
    \<open>DispatcherProps\<close>: the invariant of the dispatchers, its preservation by every operation, whole runs,
    the end of a shutdown, the end of a round, the order of the phases, and the properties.
  \<^item> \<open>DispCtrl\<close>, \<open>DispCtrlProps\<close>: the controller module (\<^verbatim>\<open>phl/phl_cmd_dispr_controller.c\<close>): who waits during
    a recovery, and that all is refused once the device has been removed.
  \<^item> \<open>MsgHub\<close>, \<open>MsgHubInv\<close>, \<open>MsgHubRun\<close>, \<open>MsgHubProps\<close>: the message hub (\<^verbatim>\<open>phl/phl_msg_hub.c\<close>) with senders, thread and
    manager as tasks with program counters: each message is forwarded once and completed once,
    in order, and the stop ends.

  Others

  \<^item> \<open>Macid\<close>, \<open>MacidProps\<close>: the table of the hardware ids of stations (\<^verbatim>\<open>phl/phl_sta.c\<close>).
  \<^item> \<open>Ies\<close>, \<open>IesProps\<close>: information elements of frames (\<^verbatim>\<open>core/rtw_ieee80211.c\<close>): search, replacement and
    removal against list functions, vendor attributes, and what they read outside their buffers.
\<close>

text \<open>
  Conventions. Names are those of the code where Isabelle allows it. A pointer that the code
  compares with NULL is an option; an object that is shared is a number with a store. Machine
  integers keep their width where the code relies on it or can exceed it; counters whose overflow
  the structure excludes are \<open>nat\<close> or \<open>int\<close>. Calls out of the modelled part (HAL, firmware, operating
  system) are inputs, where the code looks at their result, or recorded outputs. Debug output and
  statistics are left out.

  Concurrency. Where the code runs in several contexts at once (transmit and receive path, rings,
  hub, data path control) a component is a step relation; a step is a critical section or an access
  that needs none, memory is sequentially consistent, and a task that is in the middle of a function
  is a value that says where. The transmit handler and each side of the receive ring run as one
  instance, as the driver schedules them; the receive side of the bus allows any number of tasks. The
  dispatchers of all bands share one thread, whose callbacks are scripts: any
  finite sequence of the operations a module may call.

  Loops and fuel. Loops over lists are recursions on the list as it is when the loop starts, where
  the code cannot change it meanwhile. A loop of the dispatcher that callbacks can prolong is given
  fuel; results do not change with more fuel, and the properties give the amount that is enough: 24
  messages and 2 for the shutdown, and a bound from the queues for a round. The search for vendor
  attributes is a \<open>partial_function\<close>, since it need not end for a pointer outside the buffer, and
  \<open>attr_search_returns\<close> says when it ends. The thread of the hub ends within 76 of its steps after the
  stop. The loop that fills a transfer recycles at most as many requests as the ring has places,
  which is its fuel; a round of the transmit handler is bounded by the number of statuses.

  Assumptions that the environment has to keep, stated in the definitions or the theorems: a node is
  put into a queue only while it is in none; the core keeps the order of its calls (a module is
  deregistered once, a packet is given back once); the device leaves 32 bytes free at the end of a
  receive buffer of the size the HAL programs; fewer than 256 packets of one transfer stay in the
  receive buffer, since the code counts them in a byte (\<open>few_kept\<close>, a condition of the steps of
  \<open>UsbRx\<close>); in \<open>hub_reach True\<close> the threads that are created start and no sender is inside a send
  when the thread of the hub ends (\<open>orderly_step\<close>; \<open>hub_reach False\<close> has the other runs as well). The
  findings list where the code does not see to such a condition itself.

  What single definitions leave out, beside this. \<open>rx_type_of\<close> is the assignments of the type in the
  switch of \<open>hal_handle_rx_buffer_8852c\<close>, not the calls between them. In \<open>TxPath\<close> each critical section is
  one step, but the deregistration of a station, two critical sections in the code, is one; the
  release of all deferred rings when the driver is unloaded (\<^verbatim>\<open>phl/phl_init.c\<close>) is no event. In \<open>DispCtrl\<close>
  the removal of the device does not happen within a run: a run is with the device, and
  \<open>stop_waits_for_recovery\<close> says what changes at its end; the release of the pending messages is
  counted there, not carried out. \<open>pop_front_idle_req\<close> keeps the links of a request in \<open>token_op_q\<close>, which
  the memset of the code clears as well.

  Not modelled. The HAL and the register tables of \<^verbatim>\<open>phl/hal_g6\<close> other than the descriptors, the MAC
  part of a PPDU status, the aggregation and the channel mapping: they are programs for hardware and
  firmware that are not part of the repository. The management code of the core and the glue of the operating system
  (\<^verbatim>\<open>core\<close>, \<^verbatim>\<open>os_dep\<close>) other than the information elements: the environment of the modelled part. In PHL:
  the modules behind the dispatcher (scan, power save, recovery, coexistence), roles and the
  arbitration of several roles, regulation, the state machine framework, the watchdog. Inside the
  modelled files: the dispatch thread per band (not compiled in), custom dispatch sequences (not
  configured), \<open>dispr_set_src_info\<close> and \<open>dispr_query_src_info\<close> (they convert a pointer to a part of a
  structure into one to the whole), the event handlers of the hub, the mode with one transmit ring for
  all stations (never selected), the receive short cut (not compiled in), the
  assignment of the status of a PPDU to the packets and its PHY part, and the release of memory when
  initialisation fails.
\<close>

end
